(* ===== verification/Prelude.thy ===== *)
theory Prelude
  imports "HOL-Library.Word" "HOL-Library.State_Monad"
begin

text \<open>
  Shared vocabulary of the development: Go's byte slices, machine integers and
  big integers as they are used by the node, the state monad in which the
  system smart contracts are written, and the generic lemmas and rule
  collections on which the component theories rest.
\<close>

section \<open>Rule collections\<close>

named_theorems eei_run \<open>how one operation runs: its result and the state it leaves\<close>
named_theorems eei_frame \<open>what an operation leaves unchanged\<close>

section \<open>Bytes and machine integers\<close>

type_synonym bytes = string
type_synonym u8 = "8 word"
type_synonym u32 = "32 word"
type_synonym u64 = "64 word"
type_synonym i64 = "64 word" \<comment> \<open>two's complement, read with \<^const>\<open>sint\<close>\<close>

text \<open>
  A Go byte slice may be \<^verbatim>\<open>nil\<close>. Where the source compares with \<^verbatim>\<open>nil\<close> a slice is
  a \<^typ>\<open>bytes option\<close>; everywhere else only its contents matter, and
  \<^verbatim>\<open>len(nil) = 0\<close>.
\<close>

definition slice :: "bytes option \<Rightarrow> bytes" where
  "slice x = (case x of None \<Rightarrow> [] | Some b \<Rightarrow> b)"

lemma slice_simps [simp]: "slice None = []" "slice (Some b) = b"
  by (simp_all add: slice_def)

text \<open>Go's \<^verbatim>\<open>copy(dst, src)\<close>: the first \<^verbatim>\<open>min(len dst, len src)\<close> bytes of \<^verbatim>\<open>dst\<close> are
  overwritten and the length of \<^verbatim>\<open>dst\<close> never changes. \<^verbatim>\<open>make([]byte, n)\<close> is zeroed.\<close>

definition goCopy :: "bytes \<Rightarrow> bytes \<Rightarrow> bytes" where
  "goCopy dst src = take (length dst) src @ drop (length src) dst"

definition makeBytes :: "nat \<Rightarrow> bytes" where
  "makeBytes n = replicate n (char_of (0::nat))"

lemma length_makeBytes [simp]: "length (makeBytes n) = n"
  by (simp add: makeBytes_def)

lemma length_goCopy [simp]: "length (goCopy dst src) = length dst"
  by (simp add: goCopy_def)

lemma goCopy_same_length: "length dst = length src \<Longrightarrow> goCopy dst src = src"
  by (simp add: goCopy_def)

lemma goCopy_make [simp]: "goCopy (makeBytes (length src)) src = src"
  by (simp add: goCopy_same_length)

text \<open>Two's complement arithmetic does not wrap while the values stay in range.\<close>

lemma sint_add_range:
  fixes x y :: i64
  assumes "- (2 ^ 63) \<le> sint x + sint y" and "sint x + sint y < 2 ^ 63"
  shows "sint (x + y) = sint x + sint y"
  using assms by (simp add: signed_take_bit_int_eq_self sint_word_ariths)

lemma sint_inc:
  fixes x :: i64
  assumes "0 \<le> sint x" and "sint x + 1 < 2 ^ 63"
  shows "sint (x + 1) = sint x + 1"
  using assms sint_add_range [of x 1] by simp

lemma sint_dec:
  fixes x :: i64
  assumes "0 < sint x"
  shows "sint (x - 1) = sint x - 1"
proof -
  have "sint x < 2 ^ 63" using sint_lt [of x] by simp
  then show ?thesis using assms sint_add_range [of x "- 1"] by simp
qed

text \<open>\<^verbatim>\<open>big.Int\<close>: \<^verbatim>\<open>SetBytes\<close> reads a big-endian magnitude, \<^verbatim>\<open>Bytes\<close> writes the minimal one,
  \<^verbatim>\<open>Uint64\<close> and \<^verbatim>\<open>Int64\<close> keep the low 64 bits.\<close>

definition setBytes :: "bytes \<Rightarrow> int" where
  "setBytes bs = foldl (\<lambda>a c. a * 256 + of_char c) 0 bs"

fun natBytes :: "nat \<Rightarrow> bytes" where
  "natBytes n = (if n = 0 then [] else natBytes (n div 256) @ [char_of (n mod 256)])"

declare natBytes.simps [simp del]

definition bigBytes :: "int \<Rightarrow> bytes" where
  "bigBytes x = natBytes (nat \<bar>x\<bar>)"

definition bigUint64 :: "int \<Rightarrow> u64" where
  "bigUint64 x = word_of_int x"

lemma setBytes_snoc [simp]: "setBytes (bs @ [c]) = setBytes bs * 256 + of_char c"
  by (simp add: setBytes_def)

lemma setBytes_Nil [simp]: "setBytes [] = 0"
  by (simp add: setBytes_def)

lemma setBytes_natBytes [simp]: "setBytes (natBytes n) = int n"
proof (induction n rule: natBytes.induct)
  case (1 n)
  show ?case
  proof (cases "n = 0")
    case True
    then show ?thesis by (simp add: natBytes.simps)
  next
    case False
    have "setBytes (natBytes n) = int (n div 256) * 256 + of_char (char_of (n mod 256) :: char)"
      using False "1.IH" by (subst natBytes.simps) simp
    also have "(of_char (char_of (n mod 256) :: char) :: int) = int (n mod 256)"
      by (metis mod_mod_trivial of_char_of of_nat_of_char)
    finally show ?thesis
      by (metis div_mult_mod_eq of_nat_add of_nat_mult of_nat_numeral)
  qed
qed

lemma setBytes_bigBytes [simp]: "setBytes (bigBytes x) = \<bar>x\<bar>"
  by (simp add: bigBytes_def)

text \<open>\<^verbatim>\<open>hex.EncodeToString\<close>, \<^verbatim>\<open>strconv.Itoa\<close> and the \<^verbatim>\<open>%d\<close> verb of \<^verbatim>\<open>fmt.Sprintf\<close>.\<close>

definition hexDigit :: "nat \<Rightarrow> char" where
  "hexDigit n = ''0123456789abcdef'' ! (n mod 16)"

definition hexEncode :: "bytes \<Rightarrow> string" where
  "hexEncode bs = concat (map (\<lambda>c. [hexDigit (of_char c div 16), hexDigit (of_char c mod 16)]) bs)"

fun natDecimal :: "nat \<Rightarrow> string" where
  "natDecimal n = (if n < 10 then [char_of (48 + n)]
                   else natDecimal (n div 10) @ [char_of (48 + n mod 10)])"

declare natDecimal.simps [simp del]

definition itoa :: "int \<Rightarrow> string" where
  "itoa x = (if x < 0 then ''-'' @ natDecimal (nat (- x)) else natDecimal (nat x))"

section \<open>The state monad of the system smart contracts\<close>

text \<open>
  Contract code is written in \<^typ>\<open>('s, 'a) state\<close> of the library. A Go function
  that returns \<^verbatim>\<open>(T, error)\<close> returns a sum, \<^const>\<open>Inl\<close> the error.
\<close>

abbreviation return :: "'a \<Rightarrow> ('s, 'a) state" where
  "return \<equiv> State_Monad.return"

definition gets :: "('s \<Rightarrow> 'a) \<Rightarrow> ('s, 'a) state" where
  "gets f = State (\<lambda>s. (f s, s))"

definition modify :: "('s \<Rightarrow> 's) \<Rightarrow> ('s, unit) state" where
  "modify f = State (\<lambda>s. ((), f s))"

lemma run_state_gets [simp]: "run_state (gets f) s = (f s, s)"
  by (simp add: gets_def)

lemma run_state_modify [simp]: "run_state (modify f) s = ((), f s)"
  by (simp add: modify_def)

text \<open>The Go idiom \<^verbatim>\<open>x, err := m(); if err != nil { return err }\<close>.\<close>

definition tryE :: "('s, 'e + 'a) state \<Rightarrow> ('a \<Rightarrow> ('s, 'e + 'b) state) \<Rightarrow> ('s, 'e + 'b) state" where
  "tryE m f = do { r \<leftarrow> m; case r of Inl e \<Rightarrow> return (Inl e) | Inr x \<Rightarrow> f x }"

lemma run_state_tryE [simp]:
  "run_state (tryE m f) s = (case run_state m s of
     (Inl e, s') \<Rightarrow> (Inl e, s') | (Inr x, s') \<Rightarrow> run_state (f x) s')"
  by (auto simp: tryE_def split: prod.splits sum.splits)

lemma run_state_if [simp]:
  "run_state (if b then m else n) s = (if b then run_state m s else run_state n s)"
  by simp

text \<open>Partial-correctness triples over the monad, and the rules to prove them by structure.\<close>

definition triple :: "('s \<Rightarrow> bool) \<Rightarrow> ('s, 'a) state \<Rightarrow> ('a \<Rightarrow> 's \<Rightarrow> bool) \<Rightarrow> bool" where
  "triple P m Q \<longleftrightarrow> (\<forall>s. P s \<longrightarrow> (case run_state m s of (r, s') \<Rightarrow> Q r s'))"

named_theorems wp \<open>rules for triples over the state monad\<close>

lemma tripleI: "(\<And>s r s'. P s \<Longrightarrow> run_state m s = (r, s') \<Longrightarrow> Q r s') \<Longrightarrow> triple P m Q"
  by (auto simp: triple_def)

lemma tripleD: "triple P m Q \<Longrightarrow> P s \<Longrightarrow> run_state m s = (r, s') \<Longrightarrow> Q r s'"
  by (auto simp: triple_def)

lemma triple_return [wp]: "triple (\<lambda>s. Q x s) (return x) Q"
  by (simp add: triple_def)

lemma triple_gets [wp]: "triple (\<lambda>s. Q (f s) s) (gets f) Q"
  by (simp add: triple_def)

lemma triple_modify [wp]: "triple (\<lambda>s. Q () (f s)) (modify f) Q"
  by (simp add: triple_def)

lemma triple_bind [wp]:
  assumes "triple P m R" and "\<And>x. triple (R x) (f x) Q"
  shows "triple P (State_Monad.bind m f) Q"
  using assms by (fastforce simp: triple_def split: prod.splits)

lemma triple_if [wp]:
  assumes "b \<Longrightarrow> triple P m Q" and "\<not> b \<Longrightarrow> triple P n Q"
  shows "triple P (if b then m else n) Q"
  using assms by simp

lemma triple_case_sum [wp]:
  assumes "\<And>e. x = Inl e \<Longrightarrow> triple P (f e) Q" and "\<And>a. x = Inr a \<Longrightarrow> triple P (g a) Q"
  shows "triple P (case x of Inl e \<Rightarrow> f e | Inr a \<Rightarrow> g a) Q"
  using assms by (cases x) simp_all

lemma triple_weaken:
  assumes "triple P m Q" and "\<And>s. P' s \<Longrightarrow> P s" and "\<And>r s. Q r s \<Longrightarrow> Q' r s"
  shows "triple P' m Q'"
  using assms by (fastforce simp: triple_def split: prod.splits)

section \<open>Lists\<close>

lemma remove1_append_notin: "x \<notin> set xs \<Longrightarrow> remove1 x (xs @ x # ys) = xs @ ys"
  by (induction xs) auto

lemma remove1_notin: "x \<notin> set xs \<Longrightarrow> remove1 x xs = xs"
  by (induction xs) auto

end
