(* ===== verification/EEI.thy ===== *)
theory EEI
  imports Prelude
begin

text \<open>
  The environment interface of the system smart contracts,
  \<^verbatim>\<open>src/vm/systemSmartContracts/eei.go\<close>: the \<^verbatim>\<open>vmContext\<close> that buffers a contract's
  storage writes, output accounts, return data and gas, and that runs one
  contract on behalf of another. The fields of \<^verbatim>\<open>vmContext\<close> that are fixed when it
  is created (the hooks, the parser, the epoch flags) are the record
  \<^verbatim>\<open>eeiEnv\<close>, together with the constants and functions of packages outside the
  repository; the fields that change are the record \<^verbatim>\<open>vmContext\<close>.
\<close>

section \<open>Data\<close>

datatype ReturnCode = Ok | UserError | OutOfGas | ExecutionFailed | OtherCode nat

text \<open>The errors of \<^verbatim>\<open>src/vm/errors.go\<close> that the modelled code returns or prints;
  \<^verbatim>\<open>ErrExternal\<close> carries the text of an error of code outside the repository
  (the marshaller, the argument parser, the contracts container).\<close>

datatype vm_error =
    ErrUnknownSystemSmartContract
  | ErrInputArgsIsNil
  | ErrInputCallValueIsNil
  | ErrInputFunctionIsNil
  | ErrInputCallerAddrIsNil
  | ErrInputRecipientAddrIsNil
  | ErrNotEnoughGas
  | ErrInvalidWaitingList
  | ErrElementNotFound
  | ErrBLSPublicKeyAlreadyJailed
  | ErrInternalErrorWhileSettingNewOwner
  | ErrWaitingListDisabled
  | ErrExternal string

fun Error :: "vm_error \<Rightarrow> string" where
  "Error ErrUnknownSystemSmartContract = ''missing system smart contract on selected address''"
| "Error ErrInputArgsIsNil = ''input system smart contract arguments are nil''"
| "Error ErrInputCallValueIsNil = ''input value for system smart contract is nil''"
| "Error ErrInputFunctionIsNil = ''input function for system smart contract is nil''"
| "Error ErrInputCallerAddrIsNil = ''input called address for system smart contract is nil''"
| "Error ErrInputRecipientAddrIsNil = ''input recipient address for system smart contract is nil''"
| "Error ErrNotEnoughGas = ''not enough gas''"
| "Error ErrInvalidWaitingList = ''invalid waiting list''"
| "Error ErrElementNotFound = ''element was not found''"
| "Error ErrBLSPublicKeyAlreadyJailed = ''bls public key already jailed''"
| "Error ErrInternalErrorWhileSettingNewOwner = ''internal error when setting new contract owner''"
| "Error ErrWaitingListDisabled = ''waiting list is disabled since staking v4 activation''"
| "Error (ErrExternal m) = m"

type_synonym 'a result = "vm_error + 'a"

text \<open>The activation flags that the modelled code asks \<^verbatim>\<open>enableEpochsHandler\<close> about.\<close>

datatype EnableEpochFlag =
    MultiClaimOnDelegationFlag
  | SetSenderInEeiOutputTransferFlag
  | AlwaysMergeContextsInEEIFlag
  | CorrectFirstQueuedFlag
  | ValidatorToDelegationFlag
  | StakingV2Flag
  | CorrectLastUnJailedFlag
  | CorrectJailedNotUnStakedEmptyQueueFlag
  | StakeFlag
  | StakingV4StartedFlag
  | StakingV4Step1Flag

datatype CallKind = DirectCall | OtherCall nat

record OutputTransfer =
  Index :: u32
  Value :: int
  GasLimit :: u64
  Data :: bytes
  CallType :: CallKind
  SenderAddress :: "bytes option"

text \<open>\<^verbatim>\<open>Balance\<close>, \<^verbatim>\<open>BalanceDelta\<close> and \<^verbatim>\<open>CodeDeployerAddress\<close> are pointers or slices that may be
  \<^verbatim>\<open>nil\<close>.\<close>

record OutputAccount =
  Address :: bytes
  Nonce :: u64
  Balance :: "int option"
  BalanceDelta :: "int option"
  StorageUpdates :: "bytes \<rightharpoonup> bytes"
  Code :: bytes
  CodeMetadata :: bytes
  CodeDeployerAddress :: "bytes option"
  OutputTransfers :: "OutputTransfer list"
  GasUsed :: u64
  BytesAddedToStorage :: u64
  BytesDeletedFromStorage :: u64

text \<open>The zero value \<^verbatim>\<open>OutputAccount{}\<close> of Go.\<close>

definition zeroOutputAccount :: OutputAccount where
  "zeroOutputAccount = \<lparr>Address = [], Nonce = 0, Balance = None, BalanceDelta = None,
     StorageUpdates = Map.empty, Code = [], CodeMetadata = [], CodeDeployerAddress = None,
     OutputTransfers = [], GasUsed = 0, BytesAddedToStorage = 0, BytesDeletedFromStorage = 0\<rparr>"

record LogEntry =
  Identifier :: bytes
  LogAddress :: bytes
  Topics :: "bytes list"
  LogData :: "bytes list"

record VMOutput =
  ReturnData :: "bytes list"
  VMReturnCode :: ReturnCode
  ReturnMessage :: string
  GasRemaining :: u64
  GasRefund :: int
  OutputAccounts :: "bytes \<rightharpoonup> OutputAccount"
  Logs :: "LogEntry list"

definition zeroVMOutput :: VMOutput where
  "zeroVMOutput = \<lparr>ReturnData = [], VMReturnCode = Ok, ReturnMessage = [], GasRemaining = 0,
     GasRefund = 0, OutputAccounts = Map.empty, Logs = []\<rparr>"

record ContractCallInput =
  CallerAddr :: "bytes option"
  Arguments :: "bytes list"
  CallValue :: "int option"
  GasProvided :: u64
  ESDTTransfers :: nat \<comment> \<open>the number of ESDT transfers of the call\<close>
  RecipientAddr :: "bytes option"
  Function :: string

record userAccount =
  accBalance :: int
  accCode :: bytes

record peerAccount =
  peerList :: string
  peerTempRating :: u32

record eeiEnv =
  CurrentNonce :: u64
  CurrentRound :: u64
  CurrentEpoch :: u32
  GetStorageData :: "bytes \<Rightarrow> bytes \<Rightarrow> bytes option"
  GetUserAccount :: "bytes \<Rightarrow> userAccount option"
  GetShardOfAddress :: "bytes \<Rightarrow> u32"
  NumberOfShards :: u32
  GetExistingAccount :: "bytes \<Rightarrow> peerAccount option"
  GetChance :: "u32 \<Rightarrow> u32"
  ParseData :: "string \<Rightarrow> (string \<times> bytes list) result"
  IsFlagEnabled :: "EnableEpochFlag \<Rightarrow> bool"
  MergeOutputAccounts :: "OutputAccount \<Rightarrow> OutputAccount \<Rightarrow> OutputAccount"
  FormatLogDataForCall :: "string \<Rightarrow> string \<Rightarrow> bytes list \<Rightarrow> bytes list"
  DeployCodeMetadata :: bytes
  SystemAccountAddress :: bytes
  MetachainShardId :: u32
  SCDeployInitFunctionName :: string
  IsSmartContractAddress :: "bytes \<Rightarrow> bool"

text \<open>
  \<^verbatim>\<open>storageUpdate\<close> is a Go map, hence a reference: a copy of the context shares it.
  The maps live in \<^verbatim>\<open>storageMaps\<close> and the context holds the reference, so that
  the effect of sharing is part of the model.
\<close>

type_synonym storageMap = "bytes \<rightharpoonup> (bytes \<rightharpoonup> bytes)"

record vmContext =
  scAddress :: bytes
  storageMaps :: "nat \<Rightarrow> storageMap"
  nextMap :: nat
  storageUpdate :: nat
  outputAccounts :: "bytes \<rightharpoonup> OutputAccount"
  gasRemaining :: u64
  returnMessage :: string
  outputData :: "bytes list"
  logs :: "LogEntry list"
  crtTransferIndex :: u32

text \<open>What \<^verbatim>\<open>copyToNewContext\<close> keeps of the calling context.\<close>

record savedContext =
  savedStorageUpdate :: nat
  savedOutputAccounts :: "bytes \<rightharpoonup> OutputAccount"
  savedOutput :: "bytes list"
  savedScAddress :: bytes
  savedReturnMessage :: string

type_synonym 'a eei = "(vmContext, 'a) state"

text \<open>A system contract, and the container that finds one by its code.\<close>

record SystemSmartContract =
  ExecuteContract :: "ContractCallInput \<Rightarrow> ReturnCode eei"
  CanUseContract :: bool

type_synonym scContainer = "bytes \<Rightarrow> SystemSmartContract result"


section \<open>Storage\<close>

definition GetStorageFromAddress :: "eeiEnv \<Rightarrow> bytes \<Rightarrow> bytes \<Rightarrow> bytes option eei" where
  "GetStorageFromAddress env address key = gets (\<lambda>host.
     case storageMaps host (storageUpdate host) address of
       Some storageAdrMap \<Rightarrow>
         (case storageAdrMap key of
            Some value \<Rightarrow> Some value
          | None \<Rightarrow> GetStorageData env address key)
     | None \<Rightarrow> GetStorageData env address key)"

definition GetStorage :: "eeiEnv \<Rightarrow> bytes \<Rightarrow> bytes option eei" where
  "GetStorage env key = do {
     address \<leftarrow> gets scAddress;
     GetStorageFromAddress env address key
   }"

definition SetStorageForAddress :: "bytes \<Rightarrow> bytes \<Rightarrow> bytes \<Rightarrow> unit eei" where
  "SetStorageForAddress address key value = modify (\<lambda>host.
     let r = storageUpdate host;
         m = storageMaps host r;
         inner = (case m address of None \<Rightarrow> Map.empty | Some im \<Rightarrow> im)
     in host\<lparr>storageMaps := (storageMaps host)(r := m(address \<mapsto> inner(key \<mapsto> value)))\<rparr>)"

definition SetStorage :: "bytes \<Rightarrow> bytes \<Rightarrow> unit eei" where
  "SetStorage key value = do {
     address \<leftarrow> gets scAddress;
     SetStorageForAddress address key value
   }"

text \<open>\<^verbatim>\<open>make(map[string]map[string][]byte)\<close>: a new, empty map under a fresh reference.\<close>

definition newStorageMap :: "vmContext \<Rightarrow> vmContext" where
  "newStorageMap host = host\<lparr>storageMaps := (storageMaps host)(nextMap host := Map.empty),
     storageUpdate := nextMap host, nextMap := Suc (nextMap host)\<rparr>"

definition CleanStorageUpdates :: "unit eei" where
  "CleanStorageUpdates = modify newStorageMap"

section \<open>Messages, results, gas\<close>

definition Finish :: "bytes \<Rightarrow> unit eei" where
  "Finish value = modify (\<lambda>host. host\<lparr>outputData := outputData host @ [value]\<rparr>)"

definition AddReturnMessage :: "string \<Rightarrow> unit eei" where
  "AddReturnMessage message = modify (\<lambda>host.
     if message = [] then host
     else if returnMessage host = [] then host\<lparr>returnMessage := message\<rparr>
     else host\<lparr>returnMessage := returnMessage host @ ''@'' @ message\<rparr>)"

definition GetReturnMessage :: "string eei" where
  "GetReturnMessage = gets returnMessage"

definition AddLogEntry :: "LogEntry \<Rightarrow> unit eei" where
  "AddLogEntry entry = modify (\<lambda>host. host\<lparr>logs := logs host @ [entry]\<rparr>)"

definition SetGasProvided :: "u64 \<Rightarrow> unit eei" where
  "SetGasProvided gasProvided = modify (\<lambda>host. host\<lparr>gasRemaining := gasProvided\<rparr>)"

definition UseGas :: "u64 \<Rightarrow> unit result eei" where
  "UseGas gasToConsume = do {
     gas \<leftarrow> gets gasRemaining;
     if gas < gasToConsume then return (Inl ErrNotEnoughGas)
     else do {
       modify (\<lambda>host. host\<lparr>gasRemaining := gas - gasToConsume\<rparr>);
       return (Inr ())
     }
   }"

definition GasLeft :: "u64 eei" where
  "GasLeft = gets gasRemaining"

definition SetSCAddress :: "bytes \<Rightarrow> unit eei" where
  "SetSCAddress addr = modify (\<lambda>host. host\<lparr>scAddress := addr\<rparr>)"

definition CleanCache :: "unit eei" where
  "CleanCache = modify (\<lambda>host. (newStorageMap host)\<lparr>outputAccounts := Map.empty,
     outputData := [], returnMessage := [], gasRemaining := 0, logs := [],
     crtTransferIndex := 1\<rparr>)"

definition softCleanCache :: "unit eei" where
  "softCleanCache = modify (\<lambda>host. host\<lparr>outputAccounts := Map.empty, outputData := [],
     returnMessage := []\<rparr>)"

section \<open>Balances and transfers\<close>

definition NextOutputTransferIndex :: "u32 eei" where
  "NextOutputTransferIndex = do {
     index \<leftarrow> gets crtTransferIndex;
     modify (\<lambda>host. host\<lparr>crtTransferIndex := index + 1\<rparr>);
     return index
   }"

text \<open>The balance of an account; \<^const>\<open>None\<close> where Go would dereference a \<^verbatim>\<open>nil\<close> balance.\<close>

definition GetBalance :: "eeiEnv \<Rightarrow> bytes \<Rightarrow> int option eei" where
  "GetBalance env addr = gets (\<lambda>host.
     case outputAccounts host addr of
       Some outAcc \<Rightarrow>
         (case (Balance outAcc, BalanceDelta outAcc) of
            (Some b, Some d) \<Rightarrow> Some (b + d)
          | _ \<Rightarrow> None)
     | None \<Rightarrow>
         (case GetUserAccount env addr of
            None \<Rightarrow> Some 0
          | Some account \<Rightarrow> Some (accBalance account)))"

definition newOutputAccount :: "bytes \<Rightarrow> OutputAccount" where
  "newOutputAccount addr =
     zeroOutputAccount\<lparr>Address := addr, BalanceDelta := Some 0, Balance := Some 0\<rparr>"

text \<open>\<^verbatim>\<open>getSenderDestination\<close> creates the missing accounts; both are then found in the map.\<close>

definition getSenderDestination :: "bytes \<Rightarrow> bytes \<Rightarrow> unit eei" where
  "getSenderDestination sender destination = do {
     modify (\<lambda>host. if outputAccounts host sender = None
       then host\<lparr>outputAccounts := (outputAccounts host)(sender \<mapsto> newOutputAccount sender)\<rparr>
       else host);
     modify (\<lambda>host. if outputAccounts host destination = None
       then host\<lparr>outputAccounts := (outputAccounts host)(destination \<mapsto> newOutputAccount destination)\<rparr>
       else host)
   }"

text \<open>An in-place change of the account stored under an address. The delta of an account is
  a pointer, changed in place; a \<^verbatim>\<open>nil\<close> one, on which Go would panic, is kept.\<close>

definition updateAccount :: "bytes \<Rightarrow> (OutputAccount \<Rightarrow> OutputAccount) \<Rightarrow> unit eei" where
  "updateAccount addr f = modify (\<lambda>host.
     case outputAccounts host addr of
       None \<Rightarrow> host
     | Some acc \<Rightarrow> host\<lparr>outputAccounts := (outputAccounts host)(addr \<mapsto> f acc)\<rparr>)"

definition addDelta :: "int \<Rightarrow> OutputAccount \<Rightarrow> OutputAccount" where
  "addDelta v acc = acc\<lparr>BalanceDelta := map_option (\<lambda>d. d + v) (BalanceDelta acc)\<rparr>"

definition transferValueOnly :: "bytes \<Rightarrow> bytes \<Rightarrow> int \<Rightarrow> unit eei" where
  "transferValueOnly destination sender value = do {
     getSenderDestination sender destination;
     updateAccount sender (addDelta (- value));
     updateAccount destination (addDelta value)
   }"

definition Transfer :: "eeiEnv \<Rightarrow> bytes \<Rightarrow> bytes \<Rightarrow> int \<Rightarrow> bytes \<Rightarrow> u64 \<Rightarrow> unit eei" where
  "Transfer env destination sender value input gasLimit = do {
     transferValueOnly destination sender value;
     getSenderDestination sender destination;
     senderAcc \<leftarrow> gets (\<lambda>host. outputAccounts host sender);
     index \<leftarrow> NextOutputTransferIndex;
     let outputTransfer = \<lparr>Index = index, Value = value, GasLimit = gasLimit, Data = input,
           CallType = DirectCall,
           SenderAddress = (if IsFlagEnabled env SetSenderInEeiOutputTransferFlag
                            then map_option Address senderAcc else None)\<rparr>;
     updateAccount destination
       (\<lambda>acc. acc\<lparr>OutputTransfers := OutputTransfers acc @ [outputTransfer]\<rparr>)
   }"

text \<open>The loop of \<^verbatim>\<open>SendGlobalSettingToAll\<close> over the shards, with an 8-bit counter.\<close>

definition sendGlobalSettingTo :: "eeiEnv \<Rightarrow> bytes \<Rightarrow> nat \<Rightarrow> unit eei" where
  "sendGlobalSettingTo env input i = do {
     let systemAddress = (SystemAccountAddress env)
           [length (SystemAccountAddress env) - 1 := char_of i];
     old \<leftarrow> gets (\<lambda>host. outputAccounts host systemAddress);
     let globalOutAcc = (case old of Some acc \<Rightarrow> acc | None \<Rightarrow> newOutputAccount systemAddress);
     index \<leftarrow> NextOutputTransferIndex;
     let outputTransfer = \<lparr>Index = index, Value = 0, GasLimit = 0, Data = input,
           CallType = DirectCall, SenderAddress = None\<rparr>;
     modify (\<lambda>host. host\<lparr>outputAccounts := (outputAccounts host)(systemAddress \<mapsto>
       globalOutAcc\<lparr>OutputTransfers := OutputTransfers globalOutAcc @ [outputTransfer]\<rparr>)\<rparr>)
   }"

fun forEach :: "'a list \<Rightarrow> ('a \<Rightarrow> unit eei) \<Rightarrow> unit eei" where
  "forEach [] f = return ()"
| "forEach (x # xs) f = do { f x; forEach xs f }"

definition SendGlobalSettingToAll :: "eeiEnv \<Rightarrow> bytes \<Rightarrow> unit eei" where
  "SendGlobalSettingToAll env input =
     forEach [0..<unat (ucast (NumberOfShards env) :: u8)] (sendGlobalSettingTo env input)"

definition GetTotalSentToUser :: "bytes \<Rightarrow> int option eei" where
  "GetTotalSentToUser dest = gets (\<lambda>host.
     case outputAccounts host dest of None \<Rightarrow> Some 0 | Some destination \<Rightarrow> BalanceDelta destination)"

definition AddCode :: "bytes \<Rightarrow> bytes \<Rightarrow> unit eei" where
  "AddCode address code = modify (\<lambda>host.
     let acc = (case outputAccounts host address of
                  None \<Rightarrow> zeroOutputAccount\<lparr>Address := address, BalanceDelta := Some 0, Code := code\<rparr>
                | Some newSCAcc \<Rightarrow> newSCAcc\<lparr>Code := code\<rparr>)
     in host\<lparr>outputAccounts := (outputAccounts host)(address \<mapsto> acc)\<rparr>)"

definition AddTxValueToSmartContract :: "int \<Rightarrow> bytes \<Rightarrow> unit eei" where
  "AddTxValueToSmartContract value addr = modify (\<lambda>host.
     let destAcc = (case outputAccounts host addr of
                      None \<Rightarrow> zeroOutputAccount\<lparr>Address := addr, BalanceDelta := Some 0\<rparr>
                    | Some acc \<Rightarrow> acc)
     in host\<lparr>outputAccounts := (outputAccounts host)(addr \<mapsto> addDelta value destAcc)\<rparr>)"

definition UpdateCodeDeployerAddress :: "bytes \<Rightarrow> bytes \<Rightarrow> unit result eei" where
  "UpdateCodeDeployerAddress addr newOwner = do {
     found \<leftarrow> gets (\<lambda>host. outputAccounts host addr);
     case found of
       None \<Rightarrow> return (Inl ErrInternalErrorWhileSettingNewOwner)
     | Some outAcc \<Rightarrow> do {
         updateAccount addr (\<lambda>acc. acc\<lparr>CodeDeployerAddress := Some newOwner\<rparr>);
         return (Inr ())
       }
   }"


section \<open>Nested execution\<close>

definition copyToNewContext :: "savedContext eei" where
  "copyToNewContext = gets (\<lambda>host. \<lparr>savedStorageUpdate = storageUpdate host,
     savedOutputAccounts = outputAccounts host, savedOutput = outputData host,
     savedScAddress = scAddress host, savedReturnMessage = []\<rparr>)"

definition mergeStorage :: "storageMap \<Rightarrow> storageMap \<Rightarrow> storageMap" where
  "mergeStorage hostMap currMap = (\<lambda>key.
     case currMap key of
       None \<Rightarrow> hostMap key
     | Some update \<Rightarrow>
         (case hostMap key of None \<Rightarrow> Some update | Some old \<Rightarrow> Some (old ++ update)))"

text \<open>The accounts are stored under their own address, so the loops over the saved accounts,
  which look the left account up by the right one's address, work key by key.\<close>

definition mergeContext :: "eeiEnv \<Rightarrow> savedContext \<Rightarrow> unit eei" where
  "mergeContext env currContext = do {
     modify (\<lambda>host. host\<lparr>outputData := outputData host @ savedOutput currContext\<rparr>);
     AddReturnMessage (savedReturnMessage currContext);
     modify (\<lambda>host. host\<lparr>storageMaps := (storageMaps host)(storageUpdate host :=
       mergeStorage (storageMaps host (storageUpdate host))
                    (storageMaps host (savedStorageUpdate currContext)))\<rparr>);
     modify (\<lambda>host. host\<lparr>outputAccounts := (\<lambda>addr.
       case savedOutputAccounts currContext addr of
         None \<Rightarrow> outputAccounts host addr
       | Some rightAccount \<Rightarrow>
           Some (MergeOutputAccounts env
             (case outputAccounts host addr of None \<Rightarrow> zeroOutputAccount | Some l \<Rightarrow> l)
             rightAccount))\<rparr>);
     modify (\<lambda>host. host\<lparr>scAddress := savedScAddress currContext\<rparr>)
   }"

definition addOutputAccounts :: "OutputAccount \<Rightarrow> OutputAccount \<Rightarrow> OutputAccount" where
  "addOutputAccounts destination rightAccount =
     \<lparr>Address = (if Address rightAccount \<noteq> [] then Address rightAccount else Address destination),
      Nonce = (if Nonce destination < Nonce rightAccount then Nonce rightAccount else Nonce destination),
      Balance = (if Balance rightAccount \<noteq> None then Balance rightAccount else Balance destination),
      BalanceDelta =
        (let d = (case BalanceDelta destination of None \<Rightarrow> 0 | Some x \<Rightarrow> x)
         in case BalanceDelta rightAccount of None \<Rightarrow> Some d | Some r \<Rightarrow> Some (d + r)),
      StorageUpdates = StorageUpdates destination,
      Code = (if Code rightAccount \<noteq> [] then Code rightAccount else Code destination),
      CodeMetadata = (if CodeMetadata rightAccount \<noteq> [] then CodeMetadata rightAccount
                      else CodeMetadata destination),
      CodeDeployerAddress = (if CodeDeployerAddress rightAccount \<noteq> None
                             then CodeDeployerAddress rightAccount
                             else CodeDeployerAddress destination),
      OutputTransfers = OutputTransfers destination @ OutputTransfers rightAccount,
      GasUsed = GasUsed destination + GasUsed rightAccount,
      BytesAddedToStorage = BytesAddedToStorage destination + BytesAddedToStorage rightAccount,
      BytesDeletedFromStorage =
        BytesDeletedFromStorage destination + BytesDeletedFromStorage rightAccount\<rparr>"

definition properMergeContexts :: "eeiEnv \<Rightarrow> savedContext \<Rightarrow> ReturnCode \<Rightarrow> unit eei" where
  "properMergeContexts env parentContext returnCode =
     (if \<not> IsFlagEnabled env MultiClaimOnDelegationFlag then mergeContext env parentContext
      else do {
        SetSCAddress (savedScAddress parentContext);
        AddReturnMessage (savedReturnMessage parentContext);
        if \<not> (returnCode = Ok \<or> IsFlagEnabled env AlwaysMergeContextsInEEIFlag) then return ()
        else modify (\<lambda>host. host\<lparr>
          outputData := outputData host @ savedOutput parentContext,
          outputAccounts := (\<lambda>addr.
            case savedOutputAccounts parentContext addr of
              None \<Rightarrow> outputAccounts host addr
            | Some rightAccount \<Rightarrow>
                Some (addOutputAccounts
                  (case outputAccounts host addr of
                     None \<Rightarrow> zeroOutputAccount\<lparr>Balance := Some 0, BalanceDelta := Some 0,
                              Address := Address rightAccount\<rparr>
                   | Some l \<Rightarrow> l)
                  rightAccount))\<rparr>)
      })"

definition createDirectCallInput ::
  "bytes \<Rightarrow> bytes \<Rightarrow> int \<Rightarrow> string \<Rightarrow> bytes list \<Rightarrow> ContractCallInput" where
  "createDirectCallInput destination sender value function arguments =
     \<lparr>CallerAddr = Some sender, Arguments = arguments, CallValue = Some value, GasProvided = 0,
      ESDTTransfers = 0, RecipientAddr = Some destination, Function = function\<rparr>"

definition createContractCallInput ::
  "eeiEnv \<Rightarrow> bytes \<Rightarrow> bytes \<Rightarrow> int \<Rightarrow> bytes \<Rightarrow> ContractCallInput result" where
  "createContractCallInput env destination sender value input =
     (case ParseData env input of
        Inl err \<Rightarrow> Inl err
      | Inr (function, arguments) \<Rightarrow>
          Inr (createDirectCallInput destination sender value function arguments))"

definition callValue :: "ContractCallInput \<Rightarrow> int" where
  "callValue args = (case CallValue args of None \<Rightarrow> 0 | Some v \<Rightarrow> v)"

definition transferBeforeInternalExec ::
  "eeiEnv \<Rightarrow> ContractCallInput \<Rightarrow> bytes \<Rightarrow> string \<Rightarrow> unit eei" where
  "transferBeforeInternalExec env callInput sender callType =
     (if \<not> IsFlagEnabled env MultiClaimOnDelegationFlag
      then Transfer env (slice (RecipientAddr callInput)) sender (callValue callInput) [] 0
      else do {
        transferValueOnly (slice (RecipientAddr callInput)) sender (callValue callInput);
        AddLogEntry \<lparr>Identifier = ''transferValueOnly'', LogAddress = sender,
          Topics = [bigBytes (callValue callInput), slice (RecipientAddr callInput)],
          LogData = FormatLogDataForCall env callType (Function callInput) (Arguments callInput)\<rparr>
      })"

definition getCodeFromAddress :: "eeiEnv \<Rightarrow> bytes \<Rightarrow> bytes" where
  "getCodeFromAddress env address =
     (case GetUserAccount env address of
        None \<Rightarrow> address
      | Some userAcc \<Rightarrow> if accCode userAcc = [] then address else accCode userAcc)"

definition GetContract :: "eeiEnv \<Rightarrow> scContainer \<Rightarrow> bytes \<Rightarrow> SystemSmartContract result" where
  "GetContract env systemContracts address =
     (case systemContracts (getCodeFromAddress env address) of
        Inl err \<Rightarrow> Inl err
      | Inr contract \<Rightarrow>
          if \<not> CanUseContract contract then Inl ErrUnknownSystemSmartContract else Inr contract)"

text \<open>\<^verbatim>\<open>CreateVMOutput\<close>: the output accounts of the storage updates, then those of the balances.\<close>

definition storageOutAccount :: "storageMap \<Rightarrow> bytes \<Rightarrow> OutputAccount option" where
  "storageOutAccount m addr = map_option
     (\<lambda>updates. zeroOutputAccount\<lparr>Address := addr, StorageUpdates := updates\<rparr>) (m addr)"

definition addBalances :: "eeiEnv \<Rightarrow> OutputAccount \<Rightarrow> OutputAccount \<Rightarrow> OutputAccount" where
  "addBalances env out outAcc = out\<lparr>
     Address := Address outAcc,
     BalanceDelta := BalanceDelta outAcc,
     Code := (if Code outAcc \<noteq> [] then Code outAcc else Code out),
     Nonce := (if 0 < Nonce outAcc then Nonce outAcc else Nonce out),
     CodeDeployerAddress :=
       (if 0 < CurrentNonce env \<and> slice (CodeDeployerAddress outAcc) \<noteq> []
        then CodeDeployerAddress outAcc else CodeDeployerAddress out),
     CodeMetadata := (if 0 < CurrentNonce env \<and> CodeMetadata outAcc \<noteq> []
                      then CodeMetadata outAcc else CodeMetadata out),
     OutputTransfers := OutputTransfers outAcc\<rparr>"

definition CreateVMOutput :: "eeiEnv \<Rightarrow> VMOutput eei" where
  "CreateVMOutput env = gets (\<lambda>host. zeroVMOutput\<lparr>
     OutputAccounts := (\<lambda>addr.
       let outAcc = storageOutAccount (storageMaps host (storageUpdate host)) addr
       in case outputAccounts host addr of
            None \<Rightarrow> outAcc
          | Some acc \<Rightarrow> Some (addBalances env
              (case outAcc of None \<Rightarrow> zeroOutputAccount | Some o1 \<Rightarrow> o1) acc)),
     GasRemaining := gasRemaining host,
     GasRefund := 0,
     ReturnMessage := returnMessage host,
     Logs := logs host,
     ReturnData := outputData host\<rparr>)"

text \<open>The body of \<^verbatim>\<open>ExecuteOnDestContext\<close> after the contexts are set up: the result, and the
  return code that the deferred merge sees.\<close>

definition executeInDest ::
  "eeiEnv \<Rightarrow> scContainer \<Rightarrow> savedContext \<Rightarrow> ContractCallInput \<Rightarrow> (VMOutput result \<times> ReturnCode) eei" where
  "executeInDest env systemContracts currContext callInput =
     (case GetContract env systemContracts (slice (RecipientAddr callInput)) of
        Inl err \<Rightarrow> return (Inl err, UserError)
      | Inr contract \<Rightarrow>
          if Function callInput = SCDeployInitFunctionName env
          then return (Inr (zeroVMOutput\<lparr>VMReturnCode := UserError,
                 ReturnMessage := ''cannot call smart contract init function''\<rparr>), UserError)
          else do {
            returnCode \<leftarrow> ExecuteContract contract callInput;
            vmOutput \<leftarrow> (if returnCode = Ok then CreateVMOutput env
              else do {
                modify (\<lambda>host. host\<lparr>outputAccounts := Map.empty,
                  storageUpdate := savedStorageUpdate currContext\<rparr>);
                return (zeroVMOutput\<lparr>VMReturnCode := UserError\<rparr>)
              });
            message \<leftarrow> gets returnMessage;
            return (Inr (vmOutput\<lparr>VMReturnCode := returnCode, ReturnMessage := message\<rparr>), returnCode)
          })"

definition ExecuteOnDestContext ::
  "eeiEnv \<Rightarrow> scContainer option \<Rightarrow> bytes \<Rightarrow> bytes \<Rightarrow> int \<Rightarrow> bytes \<Rightarrow> VMOutput result eei" where
  "ExecuteOnDestContext env container destination sender value input =
     (case container of
        None \<Rightarrow> return (Inl ErrUnknownSystemSmartContract)
      | Some systemContracts \<Rightarrow>
          (case createContractCallInput env destination sender value input of
             Inl err \<Rightarrow> return (Inl err)
           | Inr callInput \<Rightarrow> do {
               transferBeforeInternalExec env callInput sender ''ExecuteOnDestContext'';
               currContext \<leftarrow> copyToNewContext;
               softCleanCache;
               SetSCAddress (slice (RecipientAddr callInput));
               (res, code) \<leftarrow> executeInDest env systemContracts currContext callInput;
               modify (\<lambda>host. host\<lparr>outputData := []\<rparr>);
               properMergeContexts env currContext code;
               return res
             }))"

definition addContractDeployToOutput :: "eeiEnv \<Rightarrow> bytes \<Rightarrow> bytes \<Rightarrow> bytes \<Rightarrow> unit eei" where
  "addContractDeployToOutput env contractAddress ownerAddress code = modify (\<lambda>host.
     let outAcc = (case outputAccounts host contractAddress of
                     None \<Rightarrow> newOutputAccount contractAddress | Some acc \<Rightarrow> acc)
     in host\<lparr>outputAccounts := (outputAccounts host)(contractAddress \<mapsto>
          outAcc\<lparr>CodeMetadata := DeployCodeMetadata env, Code := code,
                 CodeDeployerAddress := Some ownerAddress\<rparr>)\<rparr>)"

definition DeploySystemSC ::
  "eeiEnv \<Rightarrow> scContainer option \<Rightarrow> bytes \<Rightarrow> bytes \<Rightarrow> bytes \<Rightarrow> string \<Rightarrow> int \<Rightarrow> bytes list
    \<Rightarrow> (ReturnCode \<times> vm_error option) eei" where
  "DeploySystemSC env container baseContract newAddress ownerAddress initFunction value input =
     (case container of
        None \<Rightarrow> return (ExecutionFailed, Some ErrUnknownSystemSmartContract)
      | Some systemContracts \<Rightarrow> do {
          let callInput = createDirectCallInput newAddress ownerAddress value initFunction input;
          sender \<leftarrow> gets scAddress;
          transferBeforeInternalExec env callInput sender ''DeploySmartContract'';
          case systemContracts baseContract of
            Inl err \<Rightarrow> return (ExecutionFailed, Some err)
          | Inr contract \<Rightarrow> do {
              oldSCAddress \<leftarrow> gets scAddress;
              SetSCAddress (slice (RecipientAddr callInput));
              returnCode \<leftarrow> ExecuteContract contract callInput;
              SetSCAddress oldSCAddress;
              addContractDeployToOutput env newAddress ownerAddress baseContract;
              return (returnCode, None)
            }
        })"

section \<open>Validator queries\<close>

definition IsValidator :: "eeiEnv \<Rightarrow> bytes \<Rightarrow> bool" where
  "IsValidator env blsKey =
     (case GetExistingAccount env blsKey of
        None \<Rightarrow> False
      | Some acc \<Rightarrow> peerList acc = ''eligible'' \<or> peerList acc = ''waiting'' \<or> peerList acc = ''leaving'')"

definition StatusFromValidatorStatistics :: "eeiEnv \<Rightarrow> bytes \<Rightarrow> string" where
  "StatusFromValidatorStatistics env blsKey =
     (case GetExistingAccount env blsKey of None \<Rightarrow> ''inactive'' | Some acc \<Rightarrow> peerList acc)"

definition CanUnJail :: "eeiEnv \<Rightarrow> bytes \<Rightarrow> bool" where
  "CanUnJail env blsKey =
     (case GetExistingAccount env blsKey of None \<Rightarrow> False | Some acc \<Rightarrow> peerList acc = ''jailed'')"

definition IsBadRating :: "eeiEnv \<Rightarrow> bytes \<Rightarrow> bool" where
  "IsBadRating env blsKey =
     (case GetExistingAccount env blsKey of
        None \<Rightarrow> False
      | Some acc \<Rightarrow> GetChance env (peerTempRating acc) < GetChance env 0)"

section \<open>Call inputs\<close>

text \<open>\<^verbatim>\<open>CheckIfNil\<close> of \<^verbatim>\<open>src/vm/systemSmartContracts/common.go\<close>.\<close>

definition CheckIfNil :: "ContractCallInput option \<Rightarrow> vm_error option" where
  "CheckIfNil input =
     (case input of
        None \<Rightarrow> Some ErrInputArgsIsNil
      | Some args \<Rightarrow>
          if CallValue args = None then Some ErrInputCallValueIsNil
          else if Function args = [] then Some ErrInputFunctionIsNil
          else if CallerAddr args = None then Some ErrInputCallerAddrIsNil
          else if RecipientAddr args = None then Some ErrInputRecipientAddrIsNil
          else None)"

section \<open>The system virtual machine\<close>

text \<open>\<^verbatim>\<open>RunSmartContractCall\<close> and \<^verbatim>\<open>RunSmartContractCreate\<close> of \<^verbatim>\<open>src/vm/process/systemVM.go\<close>.\<close>

definition RunSmartContractCall ::
  "eeiEnv \<Rightarrow> scContainer \<Rightarrow> ContractCallInput \<Rightarrow> VMOutput result eei" where
  "RunSmartContractCall env systemContracts input = do {
     CleanCache;
     SetSCAddress (slice (RecipientAddr input));
     AddTxValueToSmartContract (callValue input) (slice (RecipientAddr input));
     SetGasProvided (GasProvided input);
     case GetContract env systemContracts (slice (RecipientAddr input)) of
       Inl err \<Rightarrow> return (Inl ErrUnknownSystemSmartContract)
     | Inr contract \<Rightarrow>
         if Function input = SCDeployInitFunctionName env
         then return (Inr (zeroVMOutput\<lparr>VMReturnCode := UserError,
                ReturnMessage := ''cannot call smart contract init function''\<rparr>))
         else do {
           returnCode \<leftarrow> ExecuteContract contract input;
           vmOutput \<leftarrow> (if returnCode = Ok then CreateVMOutput env
             else do {
               message \<leftarrow> GetReturnMessage;
               return (zeroVMOutput\<lparr>GasRemaining := 0, GasRefund := 0, ReturnMessage := message\<rparr>)
             });
           return (Inr (vmOutput\<lparr>VMReturnCode := returnCode\<rparr>))
         }
   }"

definition RunSmartContractCreate ::
  "eeiEnv \<Rightarrow> scContainer \<Rightarrow> (ContractCallInput \<times> bytes) option \<Rightarrow> VMOutput result eei" where
  "RunSmartContractCreate env systemContracts createInput =
     (case createInput of
        None \<Rightarrow> return (Inl ErrInputArgsIsNil)
      | Some (input, contractCode) \<Rightarrow>
          (case CallerAddr input of
             None \<Rightarrow> return (Inl ErrInputCallerAddrIsNil)
           | Some caller \<Rightarrow> do {
               CleanCache;
               SetSCAddress caller;
               case systemContracts caller of
                 Inl err \<Rightarrow> return (Inl ErrUnknownSystemSmartContract)
               | Inr contract \<Rightarrow> do {
                   returnCode \<leftarrow> ExecuteContract contract
                     (input\<lparr>RecipientAddr := Some caller, Function := SCDeployInitFunctionName env\<rparr>);
                   AddCode caller contractCode;
                   vmOutput \<leftarrow> CreateVMOutput env;
                   return (Inr (vmOutput\<lparr>VMReturnCode := returnCode\<rparr>))
                 }
             }))"


section \<open>How the operations run\<close>

text \<open>The value a contract reads under a key of its own storage, and the effect of a write.\<close>

definition storOpt :: "eeiEnv \<Rightarrow> vmContext \<Rightarrow> bytes \<Rightarrow> bytes option" where
  "storOpt env h k = fst (run_state (GetStorage env k) h)"

definition stor :: "eeiEnv \<Rightarrow> vmContext \<Rightarrow> bytes \<Rightarrow> bytes" where
  "stor env h k = slice (storOpt env h k)"

definition setStor :: "bytes \<Rightarrow> bytes \<Rightarrow> vmContext \<Rightarrow> vmContext" where
  "setStor k v h = snd (run_state (SetStorage k v) h)"

lemma slice_storOpt [simp]: "slice (storOpt env h k) = stor env h k"
  by (rule stor_def [symmetric])

lemma run_GetStorage [eei_run]: "run_state (GetStorage env k) h = (storOpt env h k, h)"
  by (simp add: storOpt_def GetStorage_def GetStorageFromAddress_def)

lemma run_SetStorage [eei_run]: "run_state (SetStorage k v) h = ((), setStor k v h)"
  by (simp add: setStor_def SetStorage_def SetStorageForAddress_def)

lemma storOpt_setStor: "storOpt env (setStor k v h) = (storOpt env h)(k := Some v)"
  by (auto simp: fun_eq_iff storOpt_def setStor_def SetStorage_def SetStorageForAddress_def
      GetStorage_def GetStorageFromAddress_def Let_def split: option.splits)

lemma stor_setStor [eei_frame]: "stor env (setStor k v h) = (stor env h)(k := v)"
  by (simp add: fun_eq_iff stor_def storOpt_setStor del: slice_storOpt)

text \<open>The context of a run, its storage apart: what a storage write does not touch.\<close>

definition sameButStorage :: "vmContext \<Rightarrow> vmContext \<Rightarrow> bool" where
  "sameButStorage h h' \<longleftrightarrow> scAddress h' = scAddress h \<and> storageUpdate h' = storageUpdate h \<and>
     nextMap h' = nextMap h \<and> outputAccounts h' = outputAccounts h \<and>
     gasRemaining h' = gasRemaining h \<and> returnMessage h' = returnMessage h \<and>
     outputData h' = outputData h \<and> logs h' = logs h \<and> crtTransferIndex h' = crtTransferIndex h"

lemma sameButStorage_refl [simp, intro]: "sameButStorage h h"
  by (simp add: sameButStorage_def)

lemma sameButStorage_trans [trans]:
  "sameButStorage h h' \<Longrightarrow> sameButStorage h' h'' \<Longrightarrow> sameButStorage h h''"
  by (simp add: sameButStorage_def)

lemma sameButStorage_setStor [simp, intro]: "sameButStorage h (setStor k v h)"
  by (simp add: sameButStorage_def setStor_def SetStorage_def SetStorageForAddress_def Let_def)

lemma sameButStorage_setStor2: "sameButStorage h h' \<Longrightarrow> sameButStorage h (setStor k v h')"
  by (rule sameButStorage_trans [OF _ sameButStorage_setStor])

section \<open>The storage interface\<close>

text \<open>
  What a contract relies on when it keeps data under keys of its storage: a
  read returns the last write to the same key. The lemmas about sequences of
  writes hold for every implementation of the interface.
\<close>

locale contract_storage =
  fixes rd :: "'h \<Rightarrow> 'k \<Rightarrow> 'v"
    and wr :: "'k \<Rightarrow> 'v \<Rightarrow> 'h \<Rightarrow> 'h"
  assumes rd_wr: "rd (wr k v h) = (rd h)(k := v)"
begin

lemma rd_writes:
  "rd (fold (\<lambda>(k, v). wr k v) ws h) = fold (\<lambda>(k, v) f. f(k := v)) ws (rd h)"
  by (induction ws arbitrary: h) (auto simp: rd_wr)

lemma fold_upd_notin:
  "k \<notin> fst ` set ws \<Longrightarrow> fold (\<lambda>(k, v) f. f(k := v)) ws f k = f k"
  by (induction ws arbitrary: f) auto

lemma rd_writes_other:
  "k \<notin> fst ` set ws \<Longrightarrow> rd (fold (\<lambda>(k, v). wr k v) ws h) k = rd h k"
  by (simp add: rd_writes fold_upd_notin)

lemma rd_writes_last:
  assumes "k \<notin> fst ` set ws'"
  shows "rd (fold (\<lambda>(k, v). wr k v) (ws @ (k, v) # ws') h) k = v"
  using assms by (simp add: rd_wr rd_writes_other)

end

interpretation sc_storage: contract_storage "stor env" setStor for env
  by unfold_locales (rule stor_setStor)

end
