(* ===== verification/StakingData.thy ===== *)
theory StakingData
  imports EEI
begin

text \<open>
  The data of the staking contract and how it is stored: the messages of
  \<^verbatim>\<open>src/vm/systemSmartContracts/staking.proto\<close>, the configuration of \<^verbatim>\<open>stakingSC\<close> in
  \<^verbatim>\<open>staking.go\<close>, and the loads and saves of \<^verbatim>\<open>stakingSaveLoad.go\<close>. The marshaller is a
  component of another repository: it is the record \<^verbatim>\<open>Marshalizer\<close>, and \<^verbatim>\<open>codec_ok\<close> states the
  part of its documented behaviour on which the contract relies.
\<close>

section \<open>Messages\<close>

text \<open>\<^verbatim>\<open>SlashValue\<close> is a pointer, \<^verbatim>\<open>nil\<close> when the stored message has no such field.\<close>

record StakedDataV1_0 =
  RegisterNonce :: u64
  StakedNonce :: u64
  Staked :: bool
  UnStakedNonce :: u64
  UnStakedEpoch :: u32
  RewardAddress :: bytes
  StakeValue :: int
  JailedRound :: u64
  JailedNonce :: u64
  UnJailedNonce :: u64
  Jailed :: bool
  Waiting :: bool

record StakedDataV1_1 = StakedDataV1_0 +
  NumJailed :: u32
  SlashValue :: "int option"

record StakedDataV2_0 = StakedDataV1_1 +
  OwnerAddress :: bytes

record StakingNodesConfig =
  MinNumNodes :: i64
  MaxNumNodes :: i64
  StakedNodes :: i64
  JailedNodes :: i64

record ElementInList =
  BLSPublicKey :: bytes
  PreviousKey :: bytes
  NextKey :: bytes

record WaitingList =
  FirstKey :: bytes
  LastKey :: bytes
  Length :: u32
  LastJailedKey :: bytes

text \<open>The part of \<^verbatim>\<open>ValidatorDataV2\<close> (\<^verbatim>\<open>validator.proto\<close>) that the staking contract reads.\<close>

record ValidatorDataV2 =
  TotalStakeValue :: int
  BlsPubKeys :: "bytes list"

section \<open>The marshaller and the contract's configuration\<close>

text \<open>\<^verbatim>\<open>Unmarshal(obj, buff)\<close> overwrites an object, so each unmarshalling function takes the
  object's previous value.\<close>

record Marshalizer =
  marshalStakedV1_0 :: "StakedDataV1_0 \<Rightarrow> bytes result"
  marshalStakedV1_1 :: "StakedDataV1_1 \<Rightarrow> bytes result"
  marshalStakedV2_0 :: "StakedDataV2_0 \<Rightarrow> bytes result"
  unmarshalStaked :: "StakedDataV2_0 \<Rightarrow> bytes \<Rightarrow> StakedDataV2_0 result"
  marshalConfig :: "StakingNodesConfig \<Rightarrow> bytes result"
  unmarshalConfig :: "StakingNodesConfig \<Rightarrow> bytes \<Rightarrow> StakingNodesConfig result"
  marshalElement :: "ElementInList \<Rightarrow> bytes result"
  unmarshalElement :: "ElementInList \<Rightarrow> bytes \<Rightarrow> ElementInList result"
  marshalList :: "WaitingList \<Rightarrow> bytes result"
  unmarshalList :: "WaitingList \<Rightarrow> bytes \<Rightarrow> WaitingList result"
  unmarshalValidatorData :: "bytes \<Rightarrow> ValidatorDataV2 result"

record stakingSC =
  eei :: eeiEnv
  unBondPeriod :: u64
  stakeAccessAddr :: bytes
  jailAccessAddr :: bytes
  endOfEpochAccessAddr :: bytes
  gasCostGet :: u64
  gasCostFixWaitingListSize :: u64
  minNumNodes :: u64
  maxNumNodes :: u64
  marshalizer :: Marshalizer
  stakeValue :: int
  walletAddressLen :: nat
  minNodePrice :: int

abbreviation flag :: "stakingSC \<Rightarrow> EnableEpochFlag \<Rightarrow> bool" where
  "flag s f \<equiv> IsFlagEnabled (eei s) f"

abbreviation "ownerKey \<equiv> ''owner''"
abbreviation "nodesConfigKey \<equiv> ''nodesConfig''"

definition DefaultUnstakedEpoch :: u32 where
  "DefaultUnstakedEpoch = 4294967295"

definition MaxUint64 :: u64 where
  "MaxUint64 = - 1"

section \<open>Save and load\<close>

definition baseConfig :: "stakingSC \<Rightarrow> StakingNodesConfig" where
  "baseConfig s = \<lparr>MinNumNodes = minNumNodes s, MaxNumNodes = maxNumNodes s,
     StakedNodes = 0, JailedNodes = 0\<rparr>"

definition getConfig :: "stakingSC \<Rightarrow> StakingNodesConfig eei" where
  "getConfig s = do {
     configData \<leftarrow> GetStorage (eei s) nodesConfigKey;
     if length (slice configData) = 0 then return (baseConfig s)
     else (case unmarshalConfig (marshalizer s) (baseConfig s) (slice configData) of
             Inl err \<Rightarrow> return (baseConfig s)
           | Inr stakeConfig \<Rightarrow> return stakeConfig)
   }"

definition setConfig :: "stakingSC \<Rightarrow> StakingNodesConfig \<Rightarrow> unit eei" where
  "setConfig s config =
     (case marshalConfig (marshalizer s) config of
        Inl err \<Rightarrow> return ()
      | Inr configData \<Rightarrow> SetStorage nodesConfigKey configData)"

definition newRegisteredData :: StakedDataV2_0 where
  "newRegisteredData = \<lparr>RegisterNonce = 0, StakedNonce = MaxUint64, Staked = False,
     UnStakedNonce = 0, UnStakedEpoch = DefaultUnstakedEpoch, RewardAddress = [],
     StakeValue = 0, JailedRound = MaxUint64, JailedNonce = 0, UnJailedNonce = 0,
     Jailed = False, Waiting = False, NumJailed = 0, SlashValue = Some 0, OwnerAddress = []\<rparr>"

definition getOrCreateRegisteredData :: "stakingSC \<Rightarrow> bytes \<Rightarrow> StakedDataV2_0 result eei" where
  "getOrCreateRegisteredData s key = do {
     data \<leftarrow> GetStorage (eei s) key;
     case (if length (slice data) > 0
           then unmarshalStaked (marshalizer s) newRegisteredData (slice data)
           else Inr newRegisteredData) of
       Inl err \<Rightarrow> return (Inl err)
     | Inr registrationData \<Rightarrow>
         return (Inr (if SlashValue registrationData = None
                      then registrationData\<lparr>SlashValue := Some 0\<rparr> else registrationData))
   }"

definition saveAsStakingDataV1P0 :: "stakingSC \<Rightarrow> bytes \<Rightarrow> StakedDataV2_0 \<Rightarrow> unit result eei" where
  "saveAsStakingDataV1P0 s key stakedData =
     (case marshalStakedV1_0 (marshalizer s)
        \<lparr>RegisterNonce = RegisterNonce stakedData, StakedNonce = StakedNonce stakedData,
         Staked = Staked stakedData, UnStakedNonce = UnStakedNonce stakedData,
         UnStakedEpoch = UnStakedEpoch stakedData, RewardAddress = RewardAddress stakedData,
         StakeValue = StakeValue stakedData, JailedRound = JailedRound stakedData,
         JailedNonce = JailedNonce stakedData, UnJailedNonce = UnJailedNonce stakedData,
         Jailed = Jailed stakedData, Waiting = Waiting stakedData\<rparr> of
        Inl err \<Rightarrow> return (Inl err)
      | Inr d \<Rightarrow> do { SetStorage key d; return (Inr ()) })"

definition saveAsStakingDataV1P1 :: "stakingSC \<Rightarrow> bytes \<Rightarrow> StakedDataV2_0 \<Rightarrow> unit result eei" where
  "saveAsStakingDataV1P1 s key stakedData =
     (case marshalStakedV1_1 (marshalizer s)
        \<lparr>RegisterNonce = RegisterNonce stakedData, StakedNonce = StakedNonce stakedData,
         Staked = Staked stakedData, UnStakedNonce = UnStakedNonce stakedData,
         UnStakedEpoch = UnStakedEpoch stakedData, RewardAddress = RewardAddress stakedData,
         StakeValue = StakeValue stakedData, JailedRound = JailedRound stakedData,
         JailedNonce = JailedNonce stakedData, UnJailedNonce = UnJailedNonce stakedData,
         Jailed = Jailed stakedData, Waiting = Waiting stakedData,
         NumJailed = NumJailed stakedData, SlashValue = SlashValue stakedData\<rparr> of
        Inl err \<Rightarrow> return (Inl err)
      | Inr d \<Rightarrow> do { SetStorage key d; return (Inr ()) })"

definition saveStakingData :: "stakingSC \<Rightarrow> bytes \<Rightarrow> StakedDataV2_0 \<Rightarrow> unit result eei" where
  "saveStakingData s key stakedData =
     (if \<not> flag s StakeFlag then saveAsStakingDataV1P0 s key stakedData
      else if \<not> flag s StakingV2Flag then saveAsStakingDataV1P1 s key stakedData
      else (case marshalStakedV2_0 (marshalizer s) stakedData of
              Inl err \<Rightarrow> return (Inl err)
            | Inr d \<Rightarrow> do { SetStorage key d; return (Inr ()) }))"


section \<open>What the contract relies on in the marshaller\<close>

text \<open>A message of an older version read back as a message of the newest one: the fields it
  lacks have their zero values.\<close>

definition readV1_1 :: "StakedDataV1_1 \<Rightarrow> StakedDataV2_0" where
  "readV1_1 d = StakedDataV1_1.extend d \<lparr>OwnerAddress = []\<rparr>"

definition readV1_0 :: "StakedDataV1_0 \<Rightarrow> StakedDataV2_0" where
  "readV1_0 d = StakedDataV1_0.extend d \<lparr>NumJailed = 0, SlashValue = None, OwnerAddress = []\<rparr>"

text \<open>Marshalling succeeds and unmarshalling gives the message back, whatever the object held
  before. A message whose every field has its zero value is the only one with an empty encoding;
  \<^verbatim>\<open>StakedData\<close> messages always carry their \<^verbatim>\<open>StakeValue\<close>.\<close>

definition codec_ok :: "Marshalizer \<Rightarrow> bool" where
  "codec_ok m \<longleftrightarrow>
     (\<forall>d. \<exists>b. marshalStakedV1_0 m d = Inr b \<and> b \<noteq> [] \<and> (\<forall>x. unmarshalStaked m x b = Inr (readV1_0 d))) \<and>
     (\<forall>d. \<exists>b. marshalStakedV1_1 m d = Inr b \<and> b \<noteq> [] \<and> (\<forall>x. unmarshalStaked m x b = Inr (readV1_1 d))) \<and>
     (\<forall>d. \<exists>b. marshalStakedV2_0 m d = Inr b \<and> b \<noteq> [] \<and> (\<forall>x. unmarshalStaked m x b = Inr d)) \<and>
     (\<forall>c. \<exists>b. marshalConfig m c = Inr b \<and> (b = [] \<longrightarrow> c = \<lparr>MinNumNodes = 0, MaxNumNodes = 0,
        StakedNodes = 0, JailedNodes = 0\<rparr>) \<and> (b \<noteq> [] \<longrightarrow> (\<forall>x. unmarshalConfig m x b = Inr c))) \<and>
     (\<forall>e. \<exists>b. marshalElement m e = Inr b \<and> (b = [] \<longrightarrow> e = \<lparr>BLSPublicKey = [], PreviousKey = [],
        NextKey = []\<rparr>) \<and> (b \<noteq> [] \<longrightarrow> (\<forall>x. unmarshalElement m x b = Inr e))) \<and>
     (\<forall>w. \<exists>b. marshalList m w = Inr b \<and> (b = [] \<longrightarrow> w = \<lparr>FirstKey = [], LastKey = [], Length = 0,
        LastJailedKey = []\<rparr>) \<and> (b \<noteq> [] \<longrightarrow> (\<forall>x. unmarshalList m x b = Inr w)))"

section \<open>Reading the storage\<close>

text \<open>How the contract reads a stored value, as functions of the value.\<close>

definition decConfig :: "stakingSC \<Rightarrow> bytes \<Rightarrow> StakingNodesConfig" where
  "decConfig s b = (if b = [] then baseConfig s
     else (case unmarshalConfig (marshalizer s) (baseConfig s) b of
             Inl err \<Rightarrow> baseConfig s | Inr c \<Rightarrow> c))"

definition decStaked :: "stakingSC \<Rightarrow> bytes \<Rightarrow> StakedDataV2_0 result" where
  "decStaked s b =
     (case (if b \<noteq> [] then unmarshalStaked (marshalizer s) newRegisteredData b
            else Inr newRegisteredData) of
        Inl err \<Rightarrow> Inl err
      | Inr d \<Rightarrow> Inr (if SlashValue d = None then d\<lparr>SlashValue := Some 0\<rparr> else d))"

lemma run_getConfig [eei_run]:
  "run_state (getConfig s) h = (decConfig s (stor (eei s) h nodesConfigKey), h)"
  by (simp add: getConfig_def decConfig_def eei_run split: sum.splits)

lemma run_getOrCreateRegisteredData [eei_run]:
  "run_state (getOrCreateRegisteredData s key) h = (decStaked s (stor (eei s) h key), h)"
  by (simp add: getOrCreateRegisteredData_def decStaked_def eei_run split: sum.splits)

text \<open>What a save writes, and what it reads back as.\<close>

definition encConfig :: "stakingSC \<Rightarrow> StakingNodesConfig \<Rightarrow> bytes" where
  "encConfig s c = projr (marshalConfig (marshalizer s) c)"

definition oldV1_0 :: "StakedDataV2_0 \<Rightarrow> StakedDataV1_0" where
  "oldV1_0 d = \<lparr>RegisterNonce = RegisterNonce d, StakedNonce = StakedNonce d,
     Staked = Staked d, UnStakedNonce = UnStakedNonce d, UnStakedEpoch = UnStakedEpoch d,
     RewardAddress = RewardAddress d, StakeValue = StakeValue d, JailedRound = JailedRound d,
     JailedNonce = JailedNonce d, UnJailedNonce = UnJailedNonce d, Jailed = Jailed d,
     Waiting = Waiting d\<rparr>"

definition oldV1_1 :: "StakedDataV2_0 \<Rightarrow> StakedDataV1_1" where
  "oldV1_1 d = \<lparr>RegisterNonce = RegisterNonce d, StakedNonce = StakedNonce d,
     Staked = Staked d, UnStakedNonce = UnStakedNonce d, UnStakedEpoch = UnStakedEpoch d,
     RewardAddress = RewardAddress d, StakeValue = StakeValue d, JailedRound = JailedRound d,
     JailedNonce = JailedNonce d, UnJailedNonce = UnJailedNonce d, Jailed = Jailed d,
     Waiting = Waiting d, NumJailed = NumJailed d, SlashValue = SlashValue d\<rparr>"

definition encStaked :: "stakingSC \<Rightarrow> StakedDataV2_0 \<Rightarrow> bytes" where
  "encStaked s d = projr
     (if \<not> flag s StakeFlag then marshalStakedV1_0 (marshalizer s) (oldV1_0 d)
      else if \<not> flag s StakingV2Flag then marshalStakedV1_1 (marshalizer s) (oldV1_1 d)
      else marshalStakedV2_0 (marshalizer s) d)"

definition fillSlash :: "StakedDataV2_0 \<Rightarrow> StakedDataV2_0" where
  "fillSlash d = (if SlashValue d = None then d\<lparr>SlashValue := Some 0\<rparr> else d)"

definition reread :: "stakingSC \<Rightarrow> StakedDataV2_0 \<Rightarrow> StakedDataV2_0" where
  "reread s d = fillSlash
     (if \<not> flag s StakeFlag then readV1_0 (oldV1_0 d)
      else if \<not> flag s StakingV2Flag then readV1_1 (oldV1_1 d)
      else d)"

lemma codec_staked:
  assumes "codec_ok (marshalizer s)"
  shows "\<exists>b. marshalStakedV1_0 (marshalizer s) d0 = Inr b \<and> b \<noteq> [] \<and>
           (\<forall>x. unmarshalStaked (marshalizer s) x b = Inr (readV1_0 d0))"
    and "\<exists>b. marshalStakedV1_1 (marshalizer s) d1 = Inr b \<and> b \<noteq> [] \<and>
           (\<forall>x. unmarshalStaked (marshalizer s) x b = Inr (readV1_1 d1))"
    and "\<exists>b. marshalStakedV2_0 (marshalizer s) d = Inr b \<and> b \<noteq> [] \<and>
           (\<forall>x. unmarshalStaked (marshalizer s) x b = Inr d)"
  using assms by (auto simp: codec_ok_def)

lemma run_saveStakingData [eei_run]:
  assumes "codec_ok (marshalizer s)"
  shows "run_state (saveStakingData s key d) h = (Inr (), setStor key (encStaked s d) h)"
  using codec_staked(1) [OF assms, of "oldV1_0 d"] codec_staked(2) [OF assms, of "oldV1_1 d"]
    codec_staked(3) [OF assms, of d]
  by (auto simp: saveStakingData_def saveAsStakingDataV1P0_def saveAsStakingDataV1P1_def
      encStaked_def oldV1_0_def oldV1_1_def eei_run)

lemma decStaked_encStaked [simp]:
  assumes "codec_ok (marshalizer s)"
  shows "decStaked s (encStaked s d) = Inr (reread s d)"
  using codec_staked(1) [OF assms, of "oldV1_0 d"] codec_staked(2) [OF assms, of "oldV1_1 d"]
    codec_staked(3) [OF assms, of d]
  by (auto simp: decStaked_def encStaked_def reread_def fillSlash_def)

lemma decStaked_empty [simp]: "decStaked s [] = Inr newRegisteredData"
  by (simp add: decStaked_def newRegisteredData_def)

lemma reread_fields [simp]:
  "Staked (reread s d) = Staked d" "Waiting (reread s d) = Waiting d"
  "Jailed (reread s d) = Jailed d" "RewardAddress (reread s d) = RewardAddress d"
  "RegisterNonce (reread s d) = RegisterNonce d" "UnStakedNonce (reread s d) = UnStakedNonce d"
  "UnStakedEpoch (reread s d) = UnStakedEpoch d" "StakedNonce (reread s d) = StakedNonce d"
  "StakeValue (reread s d) = StakeValue d"
  by (auto simp: reread_def fillSlash_def readV1_0_def readV1_1_def oldV1_0_def oldV1_1_def
      StakedDataV1_0.defs StakedDataV1_1.defs)

lemma newRegisteredData_fields [simp]:
  "Staked newRegisteredData = False" "Waiting newRegisteredData = False"
  "Jailed newRegisteredData = False" "RewardAddress newRegisteredData = []"
  by (simp_all add: newRegisteredData_def)

lemma run_setConfig [eei_run]:
  assumes "codec_ok (marshalizer s)"
  shows "run_state (setConfig s c) h = ((), setStor nodesConfigKey (encConfig s c) h)"
proof -
  from assms obtain b where "marshalConfig (marshalizer s) c = Inr b"
    unfolding codec_ok_def by blast
  then show ?thesis by (simp add: setConfig_def encConfig_def eei_run)
qed

text \<open>A saved configuration reads back unchanged, except that the all-zero one reads back as the
  default of the contract.\<close>

lemma decConfig_encConfig:
  assumes "codec_ok (marshalizer s)"
  shows "decConfig s (encConfig s c) = c \<or>
    c = \<lparr>MinNumNodes = 0, MaxNumNodes = 0, StakedNodes = 0, JailedNodes = 0\<rparr> \<and>
    decConfig s (encConfig s c) = baseConfig s"
proof -
  from assms obtain b where b: "marshalConfig (marshalizer s) c = Inr b"
    and z: "b = [] \<longrightarrow> c = \<lparr>MinNumNodes = 0, MaxNumNodes = 0, StakedNodes = 0, JailedNodes = 0\<rparr>"
    and u: "b \<noteq> [] \<longrightarrow> (\<forall>x. unmarshalConfig (marshalizer s) x b = Inr c)"
    unfolding codec_ok_def by blast
  from b have "encConfig s c = b" by (simp add: encConfig_def)
  with z u show ?thesis by (cases "b = []") (simp_all add: decConfig_def)
qed

lemma config_counters [simp]:
  assumes "codec_ok (marshalizer s)"
  shows "StakedNodes (decConfig s (encConfig s c)) = StakedNodes c"
    and "JailedNodes (decConfig s (encConfig s c)) = JailedNodes c"
  using decConfig_encConfig [OF assms, of c] by (auto simp: baseConfig_def)

end
