(* ===== verification/FieldCodec.thy ===== *)
theory FieldCodec
  imports Prelude
begin

text \<open>
  Messages as sequences of byte strings: the format of the concrete marshallers with which the models are run. A field is
  written as a byte string in which every byte follows a marker, up to an end marker.
\<close>

section \<open>Sequences of byte strings\<close>

definition encField :: "bytes \<Rightarrow> bytes" where
  "encField x = concat (map (\<lambda>c. [CHR 0x01, c]) x) @ [CHR 0x00]"

definition encFields :: "bytes list \<Rightarrow> bytes" where
  "encFields xs = concat (map encField xs)"

fun decFields :: "bytes \<Rightarrow> bytes \<Rightarrow> bytes list" where
  "decFields acc (m # rest) =
     (if m = CHR 0x00 then acc # decFields [] rest
      else (case rest of [] \<Rightarrow> [] | c # rest' \<Rightarrow> decFields (acc @ [c]) rest'))"
| "decFields acc [] = []"

lemma decFields_field: "decFields acc (encField x @ rest) = (acc @ x) # decFields [] rest"
  by (induction x arbitrary: acc) (simp_all add: encField_def)

lemma decFields_encFields [simp]: "decFields [] (encFields xs) = xs"
  by (induction xs) (simp_all add: encFields_def decFields_field)

lemma encFields_ne [simp]: "encFields (x # xs) \<noteq> []"
  by (simp add: encFields_def encField_def)

section \<open>Scalars\<close>

definition encWord :: "'a::len word \<Rightarrow> bytes" where
  "encWord w = natBytes (unat w)"

definition decWord :: "bytes \<Rightarrow> 'a::len word" where
  "decWord b = word_of_int (setBytes b)"

lemma decWord_encWord [simp]: "decWord (encWord w) = w"
  by (simp add: decWord_def encWord_def)

definition encInt :: "int \<Rightarrow> bytes" where
  "encInt x = (if x < 0 then CHR 0x01 else CHR 0x00) # bigBytes x"

definition decInt :: "bytes \<Rightarrow> int" where
  "decInt b = (case b of [] \<Rightarrow> 0 | c # r \<Rightarrow> if c = CHR 0x00 then setBytes r else - setBytes r)"

lemma decInt_encInt [simp]: "decInt (encInt x) = x"
  by (simp add: decInt_def encInt_def)

definition encBool :: "bool \<Rightarrow> bytes" where
  "encBool b = (if b then [CHR 0x01] else [])"

definition decBool :: "bytes \<Rightarrow> bool" where
  "decBool b \<longleftrightarrow> b \<noteq> []"

lemma decBool_encBool [simp]: "decBool (encBool b) = b"
  by (simp add: decBool_def encBool_def)

definition encOpt :: "int option \<Rightarrow> bytes" where
  "encOpt x = (case x of None \<Rightarrow> [] | Some i \<Rightarrow> encInt i)"

definition decOpt :: "bytes \<Rightarrow> int option" where
  "decOpt b = (if b = [] then None else Some (decInt b))"

lemma decOpt_encOpt [simp]: "decOpt (encOpt x) = x"
  by (auto simp: decOpt_def encOpt_def encInt_def decInt_def split: option.splits)

end
