(* ===== verification/Codec.thy ===== *)
theory Codec
  imports StakingData FieldCodec
begin

text \<open>
  A concrete marshaller. The contract's marshaller belongs to another repository
  and is a parameter of the model; this theory gives one that has the properties the
  development relies on (\<^verbatim>\<open>codec_ok\<close>), so that the model can be run and the hypotheses on the
  marshaller are seen to be satisfiable. A message is the sequence of its fields.
\<close>

section \<open>The messages\<close>

definition stakedFields :: "('a) StakedDataV1_0_scheme \<Rightarrow> bytes list" where
  "stakedFields d = [encWord (RegisterNonce d), encWord (StakedNonce d), encBool (Staked d),
     encWord (UnStakedNonce d), encWord (UnStakedEpoch d), RewardAddress d, encInt (StakeValue d),
     encWord (JailedRound d), encWord (JailedNonce d), encWord (UnJailedNonce d), encBool (Jailed d),
     encBool (Waiting d)]"

fun decStakedFields :: "bytes list \<Rightarrow> StakedDataV2_0 result" where
  "decStakedFields (a # b # c # d # e # f # g # h # i # j # k # l # rest) =
     (let mk = (\<lambda>n sv ow. Inr \<lparr>RegisterNonce = decWord a, StakedNonce = decWord b, Staked = decBool c,
        UnStakedNonce = decWord d, UnStakedEpoch = decWord e, RewardAddress = f, StakeValue = decInt g,
        JailedRound = decWord h, JailedNonce = decWord i, UnJailedNonce = decWord j, Jailed = decBool k,
        Waiting = decBool l, NumJailed = n, SlashValue = sv, OwnerAddress = ow\<rparr>) in
      case rest of
        [] \<Rightarrow> mk 0 None []
      | [n, sv] \<Rightarrow> mk (decWord n) (decOpt sv) []
      | [n, sv, ow] \<Rightarrow> mk (decWord n) (decOpt sv) ow
      | _ \<Rightarrow> Inl (ErrExternal ''unmarshal''))"
| "decStakedFields _ = Inl (ErrExternal ''unmarshal'')"

fun decConfigFields :: "bytes list \<Rightarrow> StakingNodesConfig result" where
  "decConfigFields [a, b, c, d] = Inr \<lparr>MinNumNodes = decWord a, MaxNumNodes = decWord b,
     StakedNodes = decWord c, JailedNodes = decWord d\<rparr>"
| "decConfigFields _ = Inl (ErrExternal ''unmarshal'')"

fun decElementFields :: "bytes list \<Rightarrow> ElementInList result" where
  "decElementFields [a, b, c] = Inr \<lparr>BLSPublicKey = a, PreviousKey = b, NextKey = c\<rparr>"
| "decElementFields _ = Inl (ErrExternal ''unmarshal'')"

fun decListFields :: "bytes list \<Rightarrow> WaitingList result" where
  "decListFields [a, b, c, d] = Inr \<lparr>FirstKey = a, LastKey = b, Length = decWord c, LastJailedKey = d\<rparr>"
| "decListFields _ = Inl (ErrExternal ''unmarshal'')"

fun decValidatorFields :: "bytes list \<Rightarrow> ValidatorDataV2 result" where
  "decValidatorFields (v # keys) = Inr \<lparr>TotalStakeValue = decInt v, BlsPubKeys = keys\<rparr>"
| "decValidatorFields [] = Inl (ErrExternal ''unmarshal'')"

definition fieldMarshalizer :: Marshalizer where
  "fieldMarshalizer = \<lparr>
     marshalStakedV1_0 = (\<lambda>d. Inr (encFields (stakedFields d))),
     marshalStakedV1_1 = (\<lambda>d. Inr (encFields (stakedFields d @ [encWord (NumJailed d), encOpt (SlashValue d)]))),
     marshalStakedV2_0 = (\<lambda>d. Inr (encFields (stakedFields d @
       [encWord (NumJailed d), encOpt (SlashValue d), OwnerAddress d]))),
     unmarshalStaked = (\<lambda>x b. decStakedFields (decFields [] b)),
     marshalConfig = (\<lambda>c. Inr (encFields [encWord (MinNumNodes c), encWord (MaxNumNodes c),
       encWord (StakedNodes c), encWord (JailedNodes c)])),
     unmarshalConfig = (\<lambda>x b. decConfigFields (decFields [] b)),
     marshalElement = (\<lambda>e. Inr (encFields [BLSPublicKey e, PreviousKey e, NextKey e])),
     unmarshalElement = (\<lambda>x b. decElementFields (decFields [] b)),
     marshalList = (\<lambda>w. Inr (encFields [FirstKey w, LastKey w, encWord (Length w), LastJailedKey w])),
     unmarshalList = (\<lambda>x b. decListFields (decFields [] b)),
     unmarshalValidatorData = (\<lambda>b. decValidatorFields (decFields [] b))\<rparr>"

lemma codec_ok_fieldMarshalizer: "codec_ok fieldMarshalizer"
  unfolding codec_ok_def
proof (intro conjI allI)
  show "\<exists>b. marshalStakedV1_0 fieldMarshalizer d = Inr b \<and> b \<noteq> [] \<and>
      (\<forall>x. unmarshalStaked fieldMarshalizer x b = Inr (readV1_0 d))" for d
    by (simp add: fieldMarshalizer_def readV1_0_def stakedFields_def StakedDataV1_0.defs)
  show "\<exists>b. marshalStakedV1_1 fieldMarshalizer d = Inr b \<and> b \<noteq> [] \<and>
      (\<forall>x. unmarshalStaked fieldMarshalizer x b = Inr (readV1_1 d))" for d
    by (simp add: fieldMarshalizer_def readV1_1_def stakedFields_def StakedDataV1_1.defs)
  show "\<exists>b. marshalStakedV2_0 fieldMarshalizer d = Inr b \<and> b \<noteq> [] \<and>
      (\<forall>x. unmarshalStaked fieldMarshalizer x b = Inr d)" for d
    by (simp add: fieldMarshalizer_def stakedFields_def)
qed (simp_all add: fieldMarshalizer_def)

section \<open>A configuration and an empty context\<close>

definition exampleEnv :: "(EnableEpochFlag \<Rightarrow> bool) \<Rightarrow> eeiEnv" where
  "exampleEnv flags = \<lparr>CurrentNonce = 100, CurrentRound = 100, CurrentEpoch = 3,
     GetStorageData = (\<lambda>addr key. None), GetUserAccount = (\<lambda>addr. None),
     GetShardOfAddress = (\<lambda>addr. 0), NumberOfShards = 3, GetExistingAccount = (\<lambda>key. None),
     GetChance = (\<lambda>r. r), ParseData = (\<lambda>d. Inr (d, [])), IsFlagEnabled = flags,
     MergeOutputAccounts = addOutputAccounts, FormatLogDataForCall = (\<lambda>c f a. a),
     DeployCodeMetadata = [], SystemAccountAddress = ''system'', MetachainShardId = 4294967295,
     SCDeployInitFunctionName = ''_init'', IsSmartContractAddress = (\<lambda>a. a \<noteq> [])\<rparr>"

definition exampleSC :: "(EnableEpochFlag \<Rightarrow> bool) \<Rightarrow> u64 \<Rightarrow> stakingSC" where
  "exampleSC flags maxNodes = \<lparr>eei = exampleEnv flags, unBondPeriod = 10, stakeAccessAddr = ''validatorSC'',
     jailAccessAddr = ''jailer'', endOfEpochAccessAddr = ''endOfEpoch'', gasCostGet = 1,
     gasCostFixWaitingListSize = 1, minNumNodes = 1, maxNumNodes = maxNodes,
     marshalizer = fieldMarshalizer, stakeValue = 2500, walletAddressLen = 11, minNodePrice = 2500\<rparr>"

definition emptyContext :: vmContext where
  "emptyContext = \<lparr>scAddress = ''stakingSC'', storageMaps = (\<lambda>r. Map.empty), nextMap = 1,
     storageUpdate = 0, outputAccounts = Map.empty, gasRemaining = 10, returnMessage = [],
     outputData = [], logs = [], crtTransferIndex = 1\<rparr>"

text \<open>The flags of the protocol before and after the activation of staking v4.\<close>

definition flagsV3 :: "EnableEpochFlag \<Rightarrow> bool" where
  "flagsV3 f \<longleftrightarrow> f \<noteq> StakingV4StartedFlag \<and> f \<noteq> StakingV4Step1Flag"

definition flagsV4 :: "EnableEpochFlag \<Rightarrow> bool" where
  "flagsV4 f \<longleftrightarrow> True"

definition callOf :: "bytes \<Rightarrow> string \<Rightarrow> bytes list \<Rightarrow> ContractCallInput" where
  "callOf caller function arguments = \<lparr>CallerAddr = Some caller, Arguments = arguments,
     CallValue = Some 0, GasProvided = 10, ESDTTransfers = 0, RecipientAddr = Some ''stakingSC'',
     Function = function\<rparr>"

lemma exampleSC_sel [simp]:
  "marshalizer (exampleSC flags m) = fieldMarshalizer"
  "IsFlagEnabled (eei (exampleSC flags m)) = flags"
  "stakeAccessAddr (exampleSC flags m) = ''validatorSC''" "jailAccessAddr (exampleSC flags m) = ''jailer''"
  "endOfEpochAccessAddr (exampleSC flags m) = ''endOfEpoch''" "maxNumNodes (exampleSC flags m) = m"
  "minNumNodes (exampleSC flags m) = 1" "stakeValue (exampleSC flags m) = 2500"
  "unBondPeriod (exampleSC flags m) = 10" "CurrentNonce (eei (exampleSC flags m)) = 100"
  "GetExistingAccount (eei (exampleSC flags m)) k = None"
  "SCDeployInitFunctionName (eei (exampleSC flags m)) = ''_init''"
  "GetShardOfAddress (eei (exampleSC flags m)) k = 0" "MetachainShardId (eei (exampleSC flags m)) = 4294967295"
  by (simp_all add: exampleSC_def exampleEnv_def)

lemma exampleSC_queries [simp]:
  "CanUnJail (eei (exampleSC flags m)) k = False" "IsBadRating (eei (exampleSC flags m)) k = False"
  "IsValidator (eei (exampleSC flags m)) k = False"
  by (simp_all add: CanUnJail_def IsBadRating_def IsValidator_def)

lemma callOf_sel [simp]:
  "CallerAddr (callOf c f a) = Some c" "Arguments (callOf c f a) = a" "Function (callOf c f a) = f"
  "CallValue (callOf c f a) = Some 0" "ESDTTransfers (callOf c f a) = 0" "RecipientAddr (callOf c f a) = Some ''stakingSC''"
  by (simp_all add: callOf_def)

lemma stor_emptyContext [simp]: "stor (eei (exampleSC flags m)) emptyContext k = []"
  by (simp add: stor_def storOpt_def GetStorage_def GetStorageFromAddress_def exampleSC_def exampleEnv_def
      emptyContext_def del: slice_storOpt)

end
