(* ===== verification/EEIProperties.thy ===== *)
theory EEIProperties
  imports EEI Codec
begin

text \<open>
  The properties of the contract environment (\<^verbatim>\<open>EEI\<close>): buffered storage, transfers, gas, and what a
  failed call leaves behind.
\<close>

section \<open>Helper lemmas\<close>

lemma map_of_rev_last:
  "map_of (rev ws) k = Some v \<Longrightarrow> \<exists>us vs. ws = us @ (k, v) # vs \<and> k \<notin> fst ` set vs"
proof (induction ws rule: rev_induct)
  case (snoc p ws)
  show ?case
  proof (cases "fst p = k")
    case True
    then have "ws @ [p] = ws @ (k, v) # []" using snoc.prems by (cases p) auto
    then show ?thesis by (intro exI [of _ ws] exI [of _ "[]"]) simp
  next
    case False
    then obtain us vs where "ws = us @ (k, v) # vs" "k \<notin> fst ` set vs"
      using snoc by (cases p) auto
    then show ?thesis using False by (intro exI [of _ us] exI [of _ "vs @ [p]"]) auto
  qed
qed simp

definition deltaOf :: "vmContext \<Rightarrow> bytes \<Rightarrow> int" where
  "deltaOf h a = (case outputAccounts h a of None \<Rightarrow> 0
     | Some acc \<Rightarrow> (case BalanceDelta acc of None \<Rightarrow> 0 | Some d \<Rightarrow> d))"

text \<open>The accounts of the context have a delta, as the operations of the context create them.\<close>

definition deltas_ok :: "vmContext \<Rightarrow> bool" where
  "deltas_ok h \<longleftrightarrow> (\<forall>a acc. outputAccounts h a = Some acc \<longrightarrow> BalanceDelta acc \<noteq> None)"

lemma newOutputAccount_delta [simp]: "BalanceDelta (newOutputAccount a) = Some 0"
  by (simp add: newOutputAccount_def)

lemma run_getSenderDestination:
  "run_state (getSenderDestination x y) h = ((), h\<lparr>outputAccounts := (\<lambda>a.
     case outputAccounts h a of
       None \<Rightarrow> if a = x \<or> a = y then Some (newOutputAccount a) else None
     | Some acc \<Rightarrow> Some acc)\<rparr>)"
  by (auto simp: getSenderDestination_def fun_eq_iff split: option.splits)

lemma run_updateAccount:
  "run_state (updateAccount a f) h = ((), h\<lparr>outputAccounts := (outputAccounts h)(a := map_option f (outputAccounts h a))\<rparr>)"
  by (cases "outputAccounts h a") (auto simp: updateAccount_def fun_upd_idem)

lemma deltaOf_getSenderDestination:
  "deltaOf (snd (run_state (getSenderDestination x y) h)) = deltaOf h"
  by (auto simp: fun_eq_iff deltaOf_def run_getSenderDestination split: option.splits)

lemma deltas_getSenderDestination:
  "deltas_ok h \<Longrightarrow> deltas_ok (snd (run_state (getSenderDestination x y) h))"
  "outputAccounts (snd (run_state (getSenderDestination x y) h)) x \<noteq> None"
  "outputAccounts (snd (run_state (getSenderDestination x y) h)) y \<noteq> None"
  by (auto simp: deltas_ok_def run_getSenderDestination split: option.splits if_splits)

lemma deltaOf_addDelta:
  assumes "deltas_ok h" and "outputAccounts h a \<noteq> None"
  shows "deltaOf (snd (run_state (updateAccount a (addDelta v)) h)) = (deltaOf h)(a := deltaOf h a + v)"
    and "deltas_ok (snd (run_state (updateAccount a (addDelta v)) h))"
  using assms by (fastforce simp: fun_eq_iff deltaOf_def deltas_ok_def run_updateAccount addDelta_def split: option.splits if_splits)+

lemma accounts_updateAccount:
  "outputAccounts h b \<noteq> None \<Longrightarrow> outputAccounts (snd (run_state (updateAccount a f) h)) b \<noteq> None"
  by (auto simp: run_updateAccount)

lemma run_bind_snd:
  "snd (run_state (State_Monad.bind m (\<lambda>_. k)) h) = snd (run_state k (snd (run_state m h)))"
  by (cases "run_state m h") simp

lemma deltaOf_transferValueOnly:
  assumes "deltas_ok h"
  shows "deltaOf (snd (run_state (transferValueOnly dest sender v) h)) =
      (\<lambda>a. deltaOf h a + (if a = dest then v else 0) - (if a = sender then v else 0))"
    and "deltas_ok (snd (run_state (transferValueOnly dest sender v) h))"
proof -
  let ?h1 = "snd (run_state (getSenderDestination sender dest) h)"
  let ?h2 = "snd (run_state (updateAccount sender (addDelta (- v))) ?h1)"
  note g = deltas_getSenderDestination [where h = h and x = sender and y = dest]
  note d2 = deltaOf_addDelta [OF g(1) [OF assms] g(2), of "- v"]
  note d3 = deltaOf_addDelta [OF d2(2) accounts_updateAccount [OF g(3)], of v]
  have eq: "snd (run_state (transferValueOnly dest sender v) h) =
      snd (run_state (updateAccount dest (addDelta v)) ?h2)"
    by (simp add: transferValueOnly_def split_beta)
  show "deltaOf (snd (run_state (transferValueOnly dest sender v) h)) =
      (\<lambda>a. deltaOf h a + (if a = dest then v else 0) - (if a = sender then v else 0))"
    unfolding eq d3(1) d2(1) deltaOf_getSenderDestination by (auto simp: fun_eq_iff)
  show "deltas_ok (snd (run_state (transferValueOnly dest sender v) h))"
    unfolding eq by (rule d3(2))
qed

lemma deltaOf_Transfer:
  "deltaOf (snd (run_state (Transfer env dest sender v input g) h)) =
     deltaOf (snd (run_state (transferValueOnly dest sender v) h))"
  by (cases "run_state (transferValueOnly dest sender v) h")
     (auto simp: Transfer_def NextOutputTransferIndex_def run_getSenderDestination run_updateAccount Let_def
       deltaOf_def fun_eq_iff split: option.splits)

text \<open>The storage of all contracts as one interface: the keys are pairs of an address and a key.\<close>

definition addrStor :: "eeiEnv \<Rightarrow> vmContext \<Rightarrow> bytes \<times> bytes \<Rightarrow> bytes" where
  "addrStor env h p = slice (fst (run_state (GetStorageFromAddress env (fst p) (snd p)) h))"

definition setAddrStor :: "bytes \<times> bytes \<Rightarrow> bytes \<Rightarrow> vmContext \<Rightarrow> vmContext" where
  "setAddrStor p v h = snd (run_state (SetStorageForAddress (fst p) (snd p) v) h)"

interpretation addr_storage: contract_storage "addrStor env" setAddrStor for env
  by unfold_locales
     (auto simp: fun_eq_iff addrStor_def setAddrStor_def GetStorageFromAddress_def SetStorageForAddress_def Let_def
       split: option.splits)

lemma run_writes:
  "run_state (forEach ws (\<lambda>(p, v). SetStorageForAddress (fst p) (snd p) v)) h =
     ((), fold (\<lambda>(p, v). setAddrStor p v) ws h)"
  by (induction ws arbitrary: h) (auto simp: setAddrStor_def SetStorageForAddress_def)

section \<open>Storage\<close>

text \<open>
  Contracts read what was written last: after any sequence of writes to the storages of
  contracts, a read of a key of an address gives the value of the last write to that key of
  that address; a key that was not written, and every other address, keeps its value.
\<close>

lemma storage_last_write:
  "slice (fst (run_state (do {
       forEach ws (\<lambda>(p, v). SetStorageForAddress (fst p) (snd p) v);
       GetStorageFromAddress env address key
     }) h)) =
   (case map_of (rev ws) (address, key) of
      None \<Rightarrow> slice (fst (run_state (GetStorageFromAddress env address key) h))
    | Some v \<Rightarrow> v)"
proof -
  have "addrStor env (fold (\<lambda>(p, v). setAddrStor p v) ws h) (address, key) =
      (case map_of (rev ws) (address, key) of None \<Rightarrow> addrStor env h (address, key) | Some v \<Rightarrow> v)"
  proof (cases "map_of (rev ws) (address, key)")
    case None
    then have "(address, key) \<notin> fst ` set ws" by (simp add: map_of_eq_None_iff)
    then show ?thesis unfolding None using addr_storage.rd_writes_other by (metis option.simps(4))
  next
    case (Some v)
    then obtain us vs where ws: "ws = us @ ((address, key), v) # vs" "(address, key) \<notin> fst ` set vs"
      using map_of_rev_last by metis
    show ?thesis unfolding Some unfolding ws(1) option.case
      by (rule addr_storage.rd_writes_last [OF ws(2)])
  qed
  then show ?thesis unfolding addrStor_def fst_conv snd_conv by (simp add: run_writes)
qed

section \<open>Value and gas\<close>

text \<open>
  A transfer moves its value from the sender's balance change to the destination's and
  touches no other account, also when the sender and the destination are the same account or did not occur before.
\<close>

lemma transfer_moves_value:
  assumes "deltas_ok h"
  shows "deltaOf (snd (run_state (Transfer env destination sender value input gasLimit) h)) =
    (\<lambda>a. deltaOf h a + (if a = destination then value else 0) - (if a = sender then value else 0))"
  unfolding deltaOf_Transfer by (rule deltaOf_transferValueOnly(1) [OF assms])


text \<open>
  Gas is never overdrawn: \<^verbatim>\<open>UseGas\<close> succeeds exactly when there is enough gas, then
  takes exactly the amount, without wrap-around; otherwise it changes nothing.
\<close>

lemma useGas_exact:
  "run_state (UseGas g) h =
     (if unat g \<le> unat (gasRemaining h)
      then (Inr (), h\<lparr>gasRemaining := of_nat (unat (gasRemaining h) - unat g)\<rparr>)
      else (Inl ErrNotEnoughGas, h))"
  by (auto simp: UseGas_def word_less_nat_alt word_le_nat_alt unat_sub [symmetric] not_less)

section \<open>Calls\<close>

text \<open>
  C27. A failed call has no effect: when a contract call of the system virtual machine does not return
  \<^verbatim>\<open>Ok\<close>, its output holds no account, no storage update, no returned data, no log and no gas.
\<close>

theorem failed_call_no_effect:
  assumes "run_state (RunSmartContractCall env systemContracts input) h = (Inr out, h')"
    and "VMReturnCode out \<noteq> Ok"
  shows "OutputAccounts out = Map.empty \<and> ReturnData out = [] \<and> Logs out = [] \<and> GasRemaining out = 0"
  using assms
  by (auto simp: RunSmartContractCall_def zeroVMOutput_def split: sum.splits prod.splits if_splits)

theorem failed_call_no_effect_witness:
  "\<exists>h' out. run_state (RunSmartContractCall (exampleEnv flagsV3)
       (\<lambda>code. Inr \<lparr>ExecuteContract = (\<lambda>args. do { SetStorage ''k'' ''v''; Finish ''x''; return UserError }),
                    CanUseContract = True\<rparr>) (callOf ''alice'' ''f'' [])) emptyContext = (Inr out, h') \<and>
     VMReturnCode out = UserError \<and> OutputAccounts out = Map.empty"
proof -
  let ?m = "RunSmartContractCall (exampleEnv flagsV3)
       (\<lambda>code. Inr \<lparr>ExecuteContract = (\<lambda>args. do { SetStorage ''k'' ''v''; Finish ''x''; return UserError }),
                    CanUseContract = True\<rparr>) (callOf ''alice'' ''f'' [])"
  obtain r h' where r: "run_state ?m emptyContext = (r, h')" by force
  then have "\<exists>out. r = Inr out \<and> VMReturnCode out = UserError"
    by (auto simp: RunSmartContractCall_def GetContract_def callOf_def exampleEnv_def split: prod.splits)
  then obtain out where out: "r = Inr out" "VMReturnCode out = UserError" by blast
  then have "OutputAccounts out = Map.empty"
    using failed_call_no_effect [of "exampleEnv flagsV3" _ _ emptyContext out h'] r by auto
  then show ?thesis using r out by blast
qed

text \<open>
  A call starts from committed state only: whatever the context held before, the contract runs in
  a context of its own address and gas, with no results and messages, in which every storage read goes to
  the blockchain.
\<close>

lemma call_starts_fresh:
  assumes "GetContract env systemContracts (slice (RecipientAddr input)) = Inr contract"
    and "Function input \<noteq> SCDeployInitFunctionName env"
  shows "\<exists>h0. scAddress h0 = slice (RecipientAddr input) \<and> gasRemaining h0 = GasProvided input \<and>
    outputData h0 = [] \<and> returnMessage h0 = [] \<and> logs h0 = [] \<and>
    (\<forall>address key. fst (run_state (GetStorageFromAddress env address key) h0) = GetStorageData env address key) \<and>
    run_state (RunSmartContractCall env systemContracts input) h =
      run_state (do {
        returnCode \<leftarrow> ExecuteContract contract input;
        vmOutput \<leftarrow> (if returnCode = Ok then CreateVMOutput env
          else do { message \<leftarrow> GetReturnMessage; return (zeroVMOutput\<lparr>ReturnMessage := message\<rparr>) });
        return (Inr (vmOutput\<lparr>VMReturnCode := returnCode\<rparr>))
      }) h0"
proof -
  let ?h0 = "snd (run_state (do { CleanCache; SetSCAddress (slice (RecipientAddr input));
       AddTxValueToSmartContract (callValue input) (slice (RecipientAddr input));
       SetGasProvided (GasProvided input) }) h)"
  have z: "zeroVMOutput\<lparr>GasRemaining := 0, GasRefund := 0, ReturnMessage := m\<rparr> = zeroVMOutput\<lparr>ReturnMessage := m\<rparr>" for m
    by (simp add: zeroVMOutput_def)
  show ?thesis
  proof (rule exI [of _ ?h0], intro conjI allI)
    show "fst (run_state (GetStorageFromAddress env address key) ?h0) = GetStorageData env address key" for address key
      by (simp add: CleanCache_def SetSCAddress_def AddTxValueToSmartContract_def SetGasProvided_def newStorageMap_def
          GetStorageFromAddress_def Let_def)
  qed (use assms in \<open>simp_all add: CleanCache_def SetSCAddress_def AddTxValueToSmartContract_def SetGasProvided_def
      newStorageMap_def Let_def RunSmartContractCall_def z GetReturnMessage_def split_beta\<close>)
qed


lemma scAddress_transferBefore: "scAddress (snd (run_state (transferBeforeInternalExec env input sender c) h)) = scAddress h"
  by (auto simp: transferBeforeInternalExec_def Transfer_def transferValueOnly_def NextOutputTransferIndex_def
      run_getSenderDestination run_updateAccount AddLogEntry_def Let_def split_beta)

lemma scAddress_merge: "scAddress (snd (run_state (properMergeContexts env c code) h)) = savedScAddress c"
  by (auto simp: properMergeContexts_def mergeContext_def SetSCAddress_def AddReturnMessage_def)

text \<open>
  A nested call gives the caller its address back, whatever the called contract does and
  whichever way the call ends.
\<close>

lemma nested_call_restores_address:
  "scAddress (snd (run_state (ExecuteOnDestContext env container destination sender value input) h)) = scAddress h"
proof (cases container)
  case None
  then show ?thesis by (simp add: ExecuteOnDestContext_def)
next
  case (Some systemContracts)
  show ?thesis
  proof (cases "createContractCallInput env destination sender value input")
    case (Inl err)
    then show ?thesis using Some by (simp add: ExecuteOnDestContext_def)
  next
    case (Inr callInput)
    then show ?thesis
      using Some by (simp add: ExecuteOnDestContext_def split_beta scAddress_merge scAddress_transferBefore copyToNewContext_def)
  qed
qed

text \<open>
  When the contexts are merged after a nested call (which \<^verbatim>\<open>AlwaysMergeContextsInEEIFlag\<close> extends to failed
  calls), the balance change of every account is the sum of the caller's and of what the called contract left.
\<close>

lemma merge_adds_deltas:
  assumes "IsFlagEnabled env MultiClaimOnDelegationFlag"
    and "returnCode = Ok \<or> IsFlagEnabled env AlwaysMergeContextsInEEIFlag"
    and "\<forall>a acc. savedOutputAccounts caller a = Some acc \<longrightarrow> BalanceDelta acc \<noteq> None"
  shows "deltaOf (snd (run_state (properMergeContexts env caller returnCode) h)) a =
    deltaOf h a + (case savedOutputAccounts caller a of None \<Rightarrow> 0
      | Some acc \<Rightarrow> (case BalanceDelta acc of None \<Rightarrow> 0 | Some d \<Rightarrow> d))"
  using assms
  by (auto simp: properMergeContexts_def deltaOf_def SetSCAddress_def AddReturnMessage_def addOutputAccounts_def Let_def
      split: option.splits)


definition failingWriter :: "bytes \<Rightarrow> bytes \<Rightarrow> SystemSmartContract" where
  "failingWriter k v = \<lparr>ExecuteContract = (\<lambda>args. do { SetStorage k v; return UserError }), CanUseContract = True\<rparr>"

lemma storage_transferBefore:
  "storageUpdate (snd (run_state (transferBeforeInternalExec env input sender c) h)) = storageUpdate h"
  by (auto simp: transferBeforeInternalExec_def Transfer_def transferValueOnly_def NextOutputTransferIndex_def
      run_getSenderDestination run_updateAccount AddLogEntry_def Let_def split_beta)

lemma mergeStorage_same: "mergeStorage m m = m"
  by (auto simp: mergeStorage_def map_add_def fun_eq_iff split: option.splits)

text \<open>The merge at the end of a nested call leaves the storage as it is when both contexts have the same map.\<close>

lemma storage_merge:
  assumes "savedStorageUpdate c = storageUpdate h"
  shows "storageMaps (snd (run_state (properMergeContexts env c code) h)) = storageMaps h"
    "storageUpdate (snd (run_state (properMergeContexts env c code) h)) = storageUpdate h"
  using assms by (simp_all add: properMergeContexts_def mergeContext_def SetSCAddress_def AddReturnMessage_def mergeStorage_same)

lemma storage_read:
  assumes "storageMaps h' (storageUpdate h') = storageMaps h (storageUpdate h)"
  shows "fst (run_state (GetStorageFromAddress env a k) h') = fst (run_state (GetStorageFromAddress env a k) h)"
  using assms by (simp add: GetStorageFromAddress_def)

lemma storage_output:
  assumes "storageMaps h (storageUpdate h) a = Some u"
  shows "\<exists>acc. OutputAccounts (fst (run_state (CreateVMOutput env) h)) a = Some acc \<and> StorageUpdates acc = u"
  using assms by (auto simp: CreateVMOutput_def storageOutAccount_def addBalances_def Let_def split: option.splits)

text \<open>The context in which the called contract starts.\<close>

definition calleeContext :: "eeiEnv \<Rightarrow> bytes \<Rightarrow> ContractCallInput \<Rightarrow> vmContext \<Rightarrow> vmContext" where
  "calleeContext env sender callInput h = snd (run_state (do {
     transferBeforeInternalExec env callInput sender ''ExecuteOnDestContext'';
     softCleanCache;
     SetSCAddress (slice (RecipientAddr callInput)) }) h)"

lemma executeInDest_fails:
  assumes "GetContract env systemContracts (slice (RecipientAddr callInput)) = Inr contract" and "Function callInput \<noteq> SCDeployInitFunctionName env"
    and "run_state (ExecuteContract contract callInput) h = (code, hc)" and "code \<noteq> Ok"
  shows "\<exists>out. run_state (executeInDest env systemContracts saved callInput) h =
    ((Inr out, code), hc\<lparr>outputAccounts := Map.empty, storageUpdate := savedStorageUpdate saved\<rparr>) \<and> VMReturnCode out = code"
  using assms by (simp add: executeInDest_def split_beta)

text \<open>
  C28. The storage writes of a nested call that fails are not undone: \<^verbatim>\<open>ExecuteOnDestContext\<close> puts the caller's \<^verbatim>\<open>storageUpdate\<close> back, but this is the very map into which the called contract wrote. For every
  contract, every way in which it fails, and with every flag: when the contract returns another code than \<^verbatim>\<open>Ok\<close> in a context \<open>hc\<close> that still has the map it was given (only \<^verbatim>\<open>CleanCache\<close>, which no contract
  calls, replaces it), then every read after the nested call gives what it gave in \<open>hc\<close>, and the output that \<^verbatim>\<open>CreateVMOutput\<close> makes of the caller's context has all the storage updates of \<open>hc\<close>.
\<close>

theorem failed_nested_call_keeps_writes:
  assumes "createContractCallInput env destination sender value input = Inr callInput" and "Function callInput \<noteq> SCDeployInitFunctionName env"
    and "GetContract env systemContracts destination = Inr contract"
    and "run_state (ExecuteContract contract callInput) (calleeContext env sender callInput h) = (code, hc)" and "code \<noteq> Ok"
    and "storageUpdate hc = storageUpdate h"
    and "run_state (ExecuteOnDestContext env (Some systemContracts) destination sender value input) h = (r, h')"
  shows "(\<exists>out. r = Inr out \<and> VMReturnCode out = code) \<and>
    (\<forall>a k. fst (run_state (GetStorageFromAddress env a k) h') = fst (run_state (GetStorageFromAddress env a k) hc)) \<and>
    (\<forall>a updates. storageMaps hc (storageUpdate hc) a = Some updates \<longrightarrow>
       (\<exists>acc. OutputAccounts (fst (run_state (CreateVMOutput env) h')) a = Some acc \<and> StorageUpdates acc = updates))"
proof -
  obtain h1 where h1: "run_state (transferBeforeInternalExec env callInput sender ''ExecuteOnDestContext'') h = ((), h1)"
    by (cases "run_state (transferBeforeInternalExec env callInput sender ''ExecuteOnDestContext'') h") auto
  have su: "storageUpdate h1 = storageUpdate h" using storage_transferBefore [of env callInput sender "''ExecuteOnDestContext''" h] h1 by simp
  have recipient: "slice (RecipientAddr callInput) = destination" using assms(1) by (auto simp: createContractCallInput_def createDirectCallInput_def split: sum.splits)
  let ?saved = "fst (run_state copyToNewContext h1)"
  have saved: "savedStorageUpdate ?saved = storageUpdate h" by (simp add: copyToNewContext_def su)
  have start: "calleeContext env sender callInput h = h1\<lparr>outputAccounts := Map.empty, outputData := [], returnMessage := [], scAddress := destination\<rparr>"
    by (simp add: calleeContext_def h1 softCleanCache_def SetSCAddress_def recipient)
  obtain out where out: "run_state (executeInDest env systemContracts ?saved callInput) (calleeContext env sender callInput h) =
      ((Inr out, code), hc\<lparr>outputAccounts := Map.empty, storageUpdate := storageUpdate h\<rparr>)" "VMReturnCode out = code"
    using executeInDest_fails [OF _ assms(2,4,5), of systemContracts ?saved] assms(3) recipient saved by auto
  let ?h2 = "hc\<lparr>outputAccounts := Map.empty, storageUpdate := storageUpdate h, outputData := []\<rparr>"
  have fin: "r = Inr out" "h' = snd (run_state (properMergeContexts env ?saved code) ?h2)"
    using assms(1,7) out(1) h1 unfolding start
    by (auto simp: ExecuteOnDestContext_def softCleanCache_def SetSCAddress_def recipient copyToNewContext_def split_beta)
  have "storageMaps h' (storageUpdate h') = storageMaps hc (storageUpdate hc)"
    using storage_merge [of ?saved ?h2 env code] saved assms(6) by (simp add: fin(2))
  then show ?thesis using fin(1) out(2) storage_read storage_output by metis
qed

theorem failed_nested_call_keeps_writes_witness:
  "fst (run_state (GetStorageFromAddress (exampleEnv flagsV3) ''dest'' ''k'')
     (snd (run_state (ExecuteOnDestContext (exampleEnv flagsV3) (Some (\<lambda>code. Inr (failingWriter ''k'' ''v'')))
        ''dest'' ''alice'' 0 ''f'') emptyContext))) = Some ''v''"
proof -
  let ?env = "exampleEnv flagsV3" and ?input = "createDirectCallInput ''dest'' ''alice'' 0 ''f'' []"
  obtain r h' where r: "run_state (ExecuteOnDestContext ?env (Some (\<lambda>code. Inr (failingWriter ''k'' ''v''))) ''dest'' ''alice'' 0 ''f'') emptyContext = (r, h')"
    by force
  obtain code hc where run: "run_state (ExecuteContract (failingWriter ''k'' ''v'') ?input) (calleeContext ?env ''alice'' ?input emptyContext) = (code, hc)" by force
  have input: "createContractCallInput ?env ''dest'' ''alice'' 0 ''f'' = Inr ?input" by (simp add: createContractCallInput_def exampleEnv_def)
  have contract: "GetContract ?env (\<lambda>code. Inr (failingWriter ''k'' ''v'')) ''dest'' = Inr (failingWriter ''k'' ''v'')"
    by (simp add: GetContract_def failingWriter_def)
  have start: "storageUpdate (calleeContext ?env ''alice'' ?input emptyContext) = storageUpdate emptyContext"
    "scAddress (calleeContext ?env ''alice'' ?input emptyContext) = ''dest''"
    using storage_transferBefore [of ?env ?input "''alice''" "''ExecuteOnDestContext''" emptyContext]
    by (simp_all add: calleeContext_def softCleanCache_def SetSCAddress_def createDirectCallInput_def split_beta)
  have hc: "code = UserError" "storageUpdate hc = storageUpdate emptyContext" "fst (run_state (GetStorageFromAddress ?env ''dest'' ''k'') hc) = Some ''v''"
    using run start by (auto simp: failingWriter_def SetStorage_def SetStorageForAddress_def GetStorageFromAddress_def Let_def)
  have "fst (run_state (GetStorageFromAddress ?env ''dest'' ''k'') h') = fst (run_state (GetStorageFromAddress ?env ''dest'' ''k'') hc)"
    using failed_nested_call_keeps_writes [OF input _ contract run _ hc(2) r] hc(1) by (simp add: createDirectCallInput_def exampleEnv_def)
  then show ?thesis using hc(3) r by simp
qed

end
