(* ===== verification/WaitingList.thy ===== *)
theory WaitingList
  imports StakingData
begin

text \<open>
  The waiting list of the staking contract,
  \<^verbatim>\<open>src/vm/systemSmartContracts/stakingWaitingList.go\<close>: a doubly linked list
  kept in the contract's storage, a head record under the key \<^verbatim>\<open>waitingList\<close>
  and one element per node under \<^verbatim>\<open>w_\<close> and its BLS key. Nodes that come
  back from jail queue before the others, up to the element that
  \<^verbatim>\<open>LastJailedKey\<close> names. This theory translates the operations on the list;
  the contract's handlers that use them are in \<^verbatim>\<open>StakingSC\<close>, the refinement to an
  abstract queue in \<^verbatim>\<open>WaitingQueue\<close>.
\<close>

section \<open>Elements and head\<close>

abbreviation "waitingListHeadKey \<equiv> ''waitingList''"
abbreviation "waitingElementPrefix \<equiv> ''w_''"

definition createWaitingListKey :: "bytes \<Rightarrow> bytes" where
  "createWaitingListKey blsKey = waitingElementPrefix @ blsKey"

definition emptyElement :: ElementInList where
  "emptyElement = \<lparr>BLSPublicKey = [], PreviousKey = [], NextKey = []\<rparr>"

definition emptyWaitingList :: WaitingList where
  "emptyWaitingList = \<lparr>FirstKey = [], LastKey = [], Length = 0, LastJailedKey = []\<rparr>"

definition getWaitingListElement :: "stakingSC \<Rightarrow> bytes \<Rightarrow> ElementInList result eei" where
  "getWaitingListElement s key = do {
     marshaledData \<leftarrow> GetStorage (eei s) key;
     if length (slice marshaledData) = 0 then return (Inl ErrElementNotFound)
     else return (unmarshalElement (marshalizer s) emptyElement (slice marshaledData))
   }"

definition saveWaitingListElement :: "stakingSC \<Rightarrow> bytes \<Rightarrow> ElementInList \<Rightarrow> unit result eei" where
  "saveWaitingListElement s key element =
     (case marshalElement (marshalizer s) element of
        Inl err \<Rightarrow> return (Inl err)
      | Inr marshaledData \<Rightarrow> do { SetStorage key marshaledData; return (Inr ()) })"

definition getWaitingListHead :: "stakingSC \<Rightarrow> WaitingList result eei" where
  "getWaitingListHead s = do {
     marshaledData \<leftarrow> GetStorage (eei s) waitingListHeadKey;
     if length (slice marshaledData) = 0 then return (Inr emptyWaitingList)
     else return (unmarshalList (marshalizer s) emptyWaitingList (slice marshaledData))
   }"

definition saveWaitingListHead :: "stakingSC \<Rightarrow> WaitingList \<Rightarrow> unit result eei" where
  "saveWaitingListHead s waitingList =
     (case marshalList (marshalizer s) waitingList of
        Inl err \<Rightarrow> return (Inl err)
      | Inr marshaledData \<Rightarrow> do { SetStorage waitingListHeadKey marshaledData; return (Inr ()) })"

definition saveElementAndList ::
  "stakingSC \<Rightarrow> bytes \<Rightarrow> ElementInList \<Rightarrow> WaitingList \<Rightarrow> unit result eei" where
  "saveElementAndList s key element waitingList =
     tryE (saveWaitingListElement s key element) (\<lambda>_. saveWaitingListHead s waitingList)"

section \<open>Insertion\<close>

definition startWaitingList ::
  "stakingSC \<Rightarrow> WaitingList \<Rightarrow> bool \<Rightarrow> bytes \<Rightarrow> unit result eei" where
  "startWaitingList s waitingList addJailed blsKey =
     (let inWaitingListKey = createWaitingListKey blsKey;
          waitingList = waitingList\<lparr>FirstKey := inWaitingListKey, LastKey := inWaitingListKey\<rparr>;
          waitingList = (if addJailed then waitingList\<lparr>LastJailedKey := inWaitingListKey\<rparr>
                         else waitingList);
          elementInWaiting = \<lparr>BLSPublicKey = blsKey, PreviousKey = LastKey waitingList,
            NextKey = []\<rparr>
      in saveElementAndList s inWaitingListKey elementInWaiting waitingList)"

definition addToEndOfTheList :: "stakingSC \<Rightarrow> WaitingList \<Rightarrow> bytes \<Rightarrow> unit result eei" where
  "addToEndOfTheList s waitingList blsKey =
     (let inWaitingListKey = createWaitingListKey blsKey;
          oldLastKey = goCopy (makeBytes (length (LastKey waitingList))) (LastKey waitingList)
      in tryE (getWaitingListElement s (LastKey waitingList)) (\<lambda>lastElement.
           let elementInWaiting = \<lparr>BLSPublicKey = blsKey, PreviousKey = oldLastKey, NextKey = []\<rparr>
           in tryE (saveWaitingListElement s oldLastKey (lastElement\<lparr>NextKey := inWaitingListKey\<rparr>))
                (\<lambda>_. saveElementAndList s inWaitingListKey elementInWaiting
                        (waitingList\<lparr>LastKey := inWaitingListKey\<rparr>))))"

definition insertAfterLastJailed :: "stakingSC \<Rightarrow> WaitingList \<Rightarrow> bytes \<Rightarrow> unit result eei" where
  "insertAfterLastJailed s waitingList blsKey =
     (let inWaitingListKey = createWaitingListKey blsKey in
      if length (LastJailedKey waitingList) = 0 then
        let previousFirstKey = goCopy (makeBytes (length (FirstKey waitingList))) (FirstKey waitingList);
            waitingList = waitingList\<lparr>FirstKey := inWaitingListKey, LastJailedKey := inWaitingListKey\<rparr>;
            elementInWaiting = \<lparr>BLSPublicKey = blsKey, PreviousKey = inWaitingListKey,
              NextKey = previousFirstKey\<rparr>
        in tryE (if flag s CorrectFirstQueuedFlag \<and> length previousFirstKey > 0
                 then tryE (getWaitingListElement s previousFirstKey) (\<lambda>previousFirstElement.
                        saveWaitingListElement s previousFirstKey
                          (previousFirstElement\<lparr>PreviousKey := inWaitingListKey\<rparr>))
                 else return (Inr ()))
             (\<lambda>_. saveElementAndList s inWaitingListKey elementInWaiting waitingList)
      else
        tryE (getWaitingListElement s (LastJailedKey waitingList)) (\<lambda>lastJailedElement.
          if LastKey waitingList = LastJailedKey waitingList then
            addToEndOfTheList s (waitingList\<lparr>LastJailedKey := inWaitingListKey\<rparr>) blsKey
          else
            tryE (getWaitingListElement s (NextKey lastJailedElement)) (\<lambda>firstNonJailedElement.
              let elementInWaiting = \<lparr>BLSPublicKey = blsKey,
                    PreviousKey = goCopy (makeBytes (length inWaitingListKey)) (LastJailedKey waitingList),
                    NextKey = goCopy (makeBytes (length inWaitingListKey)) (NextKey lastJailedElement)\<rparr>;
                  lastJailedElement = lastJailedElement\<lparr>NextKey := inWaitingListKey\<rparr>;
                  firstNonJailedElement = firstNonJailedElement\<lparr>PreviousKey := inWaitingListKey\<rparr>;
                  waitingList = waitingList\<lparr>LastJailedKey := inWaitingListKey\<rparr>
              in tryE (saveWaitingListElement s (PreviousKey elementInWaiting) lastJailedElement) (\<lambda>_.
                 tryE (saveWaitingListElement s (NextKey elementInWaiting) firstNonJailedElement) (\<lambda>_.
                 tryE (saveWaitingListElement s inWaitingListKey elementInWaiting) (\<lambda>_.
                   saveWaitingListHead s waitingList))))))"

definition addToWaitingList :: "stakingSC \<Rightarrow> bytes \<Rightarrow> bool \<Rightarrow> unit result eei" where
  "addToWaitingList s blsKey addJailed = do {
     marshaledData \<leftarrow> GetStorage (eei s) (createWaitingListKey blsKey);
     if length (slice marshaledData) \<noteq> 0 then return (Inr ())
     else tryE (getWaitingListHead s) (\<lambda>waitingList.
       let waitingList = waitingList\<lparr>Length := Length waitingList + 1\<rparr> in
       if Length waitingList = 1 then startWaitingList s waitingList addJailed blsKey
       else if addJailed then insertAfterLastJailed s waitingList blsKey
       else addToEndOfTheList s waitingList blsKey)
   }"

section \<open>Removal\<close>

text \<open>The loop of \<^verbatim>\<open>searchPreviousFromHead\<close>: the first argument is the number of
  iterations that \<^verbatim>\<open>index <= waitingList.Length\<close> still allows. The function also
  sets the previous key of the element that is removed; it is returned with the element found.\<close>

fun searchPreviousLoop :: "stakingSC \<Rightarrow> nat \<Rightarrow> bytes \<Rightarrow> bytes \<Rightarrow> (ElementInList \<times> bytes) result eei" where
  "searchPreviousLoop s 0 inWaitingListKey nextKey = return (Inl ErrElementNotFound)"
| "searchPreviousLoop s (Suc n) inWaitingListKey nextKey =
     (if length nextKey = 0 then return (Inl ErrElementNotFound)
      else tryE (getWaitingListElement s nextKey) (\<lambda>element.
        if inWaitingListKey = NextKey element
        then return (Inr (element, createWaitingListKey (BLSPublicKey element)))
        else if length (NextKey element) = 0 then return (Inl ErrElementNotFound)
        else searchPreviousLoop s n inWaitingListKey
               (goCopy (makeBytes (length (NextKey element))) (NextKey element))))"

definition searchPreviousFromHead ::
  "stakingSC \<Rightarrow> WaitingList \<Rightarrow> bytes \<Rightarrow> (ElementInList \<times> bytes) result eei" where
  "searchPreviousFromHead s waitingList inWaitingListKey =
     searchPreviousLoop s (unat (Length waitingList)) inWaitingListKey
       (goCopy (makeBytes (length (FirstKey waitingList))) (FirstKey waitingList))"

text \<open>The last part of \<^verbatim>\<open>removeFromWaitingList\<close>, for an element that is not the first.\<close>

definition unlinkAfterPrevious ::
  "stakingSC \<Rightarrow> WaitingList \<Rightarrow> ElementInList \<Rightarrow> ElementInList \<Rightarrow> unit result eei" where
  "unlinkAfterPrevious s waitingList elementToRemove previousElement =
     (if length (NextKey elementToRemove) = 0 then
        saveElementAndList s (PreviousKey elementToRemove) (previousElement\<lparr>NextKey := []\<rparr>)
          (waitingList\<lparr>LastKey := PreviousKey elementToRemove\<rparr>)
      else tryE (getWaitingListElement s (NextKey elementToRemove)) (\<lambda>nextElement.
        tryE (saveWaitingListElement s (NextKey elementToRemove)
               (nextElement\<lparr>PreviousKey := PreviousKey elementToRemove\<rparr>)) (\<lambda>_.
          saveElementAndList s (PreviousKey elementToRemove)
            (previousElement\<lparr>NextKey := NextKey elementToRemove\<rparr>) waitingList)))"

definition removeFromWaitingList :: "stakingSC \<Rightarrow> bytes \<Rightarrow> unit result eei" where
  "removeFromWaitingList s blsKey = do {
     let inWaitingListKey = createWaitingListKey blsKey;
     marshaledData \<leftarrow> GetStorage (eei s) inWaitingListKey;
     if length (slice marshaledData) = 0 then return (Inr ())
     else do {
       SetStorage inWaitingListKey [];
       tryE (return (unmarshalElement (marshalizer s) emptyElement (slice marshaledData)))
         (\<lambda>elementToRemove.
       tryE (getWaitingListHead s) (\<lambda>waitingList.
         if Length waitingList = 0 then return (Inl ErrInvalidWaitingList)
         else
           let waitingList = waitingList\<lparr>Length := Length waitingList - 1\<rparr> in
           if Length waitingList = 0 then do { SetStorage waitingListHeadKey []; return (Inr ()) }
           else if \<not> flag s CorrectFirstQueuedFlag \<and> PreviousKey elementToRemove = inWaitingListKey \<or>
                   flag s CorrectFirstQueuedFlag \<and> FirstKey waitingList = inWaitingListKey then
             let waitingList = (if inWaitingListKey = LastJailedKey waitingList
                                then waitingList\<lparr>LastJailedKey := []\<rparr> else waitingList)
             in tryE (getWaitingListElement s (NextKey elementToRemove)) (\<lambda>nextElement.
                  saveElementAndList s (NextKey elementToRemove)
                    (nextElement\<lparr>PreviousKey := NextKey elementToRemove\<rparr>)
                    (waitingList\<lparr>FirstKey := NextKey elementToRemove\<rparr>))
           else
             let waitingList = (if \<not> flag s CorrectLastUnJailedFlag \<or>
                                   inWaitingListKey = LastJailedKey waitingList
                                then waitingList\<lparr>LastJailedKey :=
                                  goCopy (makeBytes (length (PreviousKey elementToRemove)))
                                    (PreviousKey elementToRemove)\<rparr>
                                else waitingList)
             in do {
               previous \<leftarrow> getWaitingListElement s (PreviousKey elementToRemove);
               case previous of
                 Inr previousElement \<Rightarrow>
                   unlinkAfterPrevious s waitingList elementToRemove previousElement
               | Inl err \<Rightarrow>
                   if flag s CorrectFirstQueuedFlag then
                     tryE (searchPreviousFromHead s waitingList inWaitingListKey)
                       (\<lambda>(previousElement, previousKey).
                         unlinkAfterPrevious s waitingList
                           (elementToRemove\<lparr>PreviousKey := previousKey\<rparr>) previousElement)
                   else
                     tryE (getWaitingListElement s (PreviousKey elementToRemove))
                       (\<lambda>previousElement.
                         unlinkAfterPrevious s waitingList elementToRemove previousElement)
             }))
     }
   }"

section \<open>Traversal\<close>

record waitingListReturnData =
  blsKeys :: "bytes list"
  stakedDataList :: "StakedDataV2_0 list"
  lastKey :: bytes
  afterLastJailed :: bool

text \<open>The loop of \<^verbatim>\<open>getFirstElementsFromWaitingList\<close>. The buffer \<^verbatim>\<open>nextKey\<close> keeps the
  length of the first key: every further key is copied into it.\<close>

fun getFirstElementsLoop ::
  "stakingSC \<Rightarrow> WaitingList \<Rightarrow> nat \<Rightarrow> bytes \<Rightarrow> waitingListReturnData \<Rightarrow> waitingListReturnData result eei" where
  "getFirstElementsLoop s waitingListHead 0 nextKey acc = return (Inr (acc\<lparr>lastKey := nextKey\<rparr>))"
| "getFirstElementsLoop s waitingListHead (Suc n) nextKey acc =
     (if length nextKey = 0 then return (Inr (acc\<lparr>lastKey := nextKey\<rparr>))
      else tryE (getWaitingListElement s nextKey) (\<lambda>element.
        let acc = (if nextKey = LastJailedKey waitingListHead
                   then acc\<lparr>afterLastJailed := True\<rparr> else acc) in
        tryE (getOrCreateRegisteredData s (BLSPublicKey element)) (\<lambda>stakedData.
          let acc = acc\<lparr>blsKeys := blsKeys acc @ [BLSPublicKey element],
                        stakedDataList := stakedDataList acc @ [stakedData]\<rparr> in
          if length (NextKey element) = 0 then return (Inr (acc\<lparr>lastKey := nextKey\<rparr>))
          else getFirstElementsLoop s waitingListHead n (goCopy nextKey (NextKey element)) acc)))"

definition emptyReturnData :: waitingListReturnData where
  "emptyReturnData = \<lparr>blsKeys = [], stakedDataList = [], lastKey = [], afterLastJailed = False\<rparr>"

definition getFirstElementsFromWaitingList ::
  "stakingSC \<Rightarrow> u32 \<Rightarrow> waitingListReturnData result eei" where
  "getFirstElementsFromWaitingList s numNodes =
     tryE (getWaitingListHead s) (\<lambda>waitingListHead.
       if Length waitingListHead = 0 then return (Inr emptyReturnData)
       else getFirstElementsLoop s waitingListHead
              (min (unat (Length waitingListHead)) (unat numNodes))
              (goCopy (makeBytes (length (FirstKey waitingListHead))) (FirstKey waitingListHead))
              emptyReturnData)"

end
