(* ===== verification/WaitingQueue.thy ===== *)
theory WaitingQueue
  imports WaitingList
begin

text \<open>
  The waiting list refines a queue with two classes of nodes. The abstract
  state is a pair of lists of BLS keys: the nodes that came back from jail,
  then the others. The relation \<^verbatim>\<open>wl_repr\<close> says that the storage holds exactly the
  doubly linked list of such a pair; insertion, removal and traversal are proved
  against it. The flags \<^verbatim>\<open>CorrectFirstQueuedFlag\<close> and \<^verbatim>\<open>CorrectLastUnJailedFlag\<close>, which
  correct the pointers of the first and of the last unjailed element, are enabled.
\<close>

section \<open>Elements in the storage\<close>

abbreviation wk :: "bytes \<Rightarrow> bytes" where
  "wk \<equiv> createWaitingListKey"

lemma wk_inject [simp]: "wk k = wk k' \<longleftrightarrow> k = k'"
  by (simp add: createWaitingListKey_def)

lemma length_wk [simp]: "length (wk k) = length k + 2"
  by (simp add: createWaitingListKey_def)

lemma wk_not_Nil [simp]: "wk k \<noteq> []" "[] \<noteq> wk k"
  by (simp_all add: createWaitingListKey_def)

definition elemAt :: "stakingSC \<Rightarrow> (bytes \<Rightarrow> bytes) \<Rightarrow> bytes \<Rightarrow> ElementInList option" where
  "elemAt s \<sigma> key = (if \<sigma> key = [] then None
     else (case unmarshalElement (marshalizer s) emptyElement (\<sigma> key) of
             Inl err \<Rightarrow> None | Inr e \<Rightarrow> Some e))"

definition headAt :: "stakingSC \<Rightarrow> (bytes \<Rightarrow> bytes) \<Rightarrow> WaitingList option" where
  "headAt s \<sigma> = (if \<sigma> waitingListHeadKey = [] then Some emptyWaitingList
     else (case unmarshalList (marshalizer s) emptyWaitingList (\<sigma> waitingListHeadKey) of
             Inl err \<Rightarrow> None | Inr w \<Rightarrow> Some w))"

definition encElement :: "stakingSC \<Rightarrow> ElementInList \<Rightarrow> bytes" where
  "encElement s e = projr (marshalElement (marshalizer s) e)"

definition encHead :: "stakingSC \<Rightarrow> WaitingList \<Rightarrow> bytes" where
  "encHead s w = projr (marshalList (marshalizer s) w)"

lemma run_getWaitingListElement [eei_run]:
  "elemAt s (stor (eei s) h) key = Some e \<Longrightarrow>
     run_state (getWaitingListElement s key) h = (Inr e, h)"
  by (auto simp: getWaitingListElement_def elemAt_def eei_run split: if_splits sum.splits)

lemma run_getWaitingListElement_empty:
  "stor (eei s) h key = [] \<Longrightarrow>
     run_state (getWaitingListElement s key) h = (Inl ErrElementNotFound, h)"
  by (simp add: getWaitingListElement_def eei_run)

lemma run_getWaitingListHead [eei_run]:
  "headAt s (stor (eei s) h) = Some w \<Longrightarrow> run_state (getWaitingListHead s) h = (Inr w, h)"
  by (auto simp: getWaitingListHead_def headAt_def eei_run split: if_splits sum.splits)

lemma codec_element:
  assumes "codec_ok (marshalizer s)"
  obtains b where "marshalElement (marshalizer s) e = Inr b" "b = [] \<longrightarrow> e = emptyElement"
    "b \<noteq> [] \<longrightarrow> (\<forall>x. unmarshalElement (marshalizer s) x b = Inr e)"
  using assms unfolding codec_ok_def emptyElement_def by metis

lemma codec_head:
  assumes "codec_ok (marshalizer s)"
  obtains b where "marshalList (marshalizer s) w = Inr b" "b = [] \<longrightarrow> w = emptyWaitingList"
    "b \<noteq> [] \<longrightarrow> (\<forall>x. unmarshalList (marshalizer s) x b = Inr w)"
  using assms unfolding codec_ok_def emptyWaitingList_def by metis

lemma run_saveWaitingListElement [eei_run]:
  assumes "codec_ok (marshalizer s)"
  shows "run_state (saveWaitingListElement s key e) h = (Inr (), setStor key (encElement s e) h)"
  by (rule codec_element [OF assms, of e])
     (simp add: saveWaitingListElement_def encElement_def eei_run)

lemma run_saveWaitingListHead [eei_run]:
  assumes "codec_ok (marshalizer s)"
  shows "run_state (saveWaitingListHead s w) h =
    (Inr (), setStor waitingListHeadKey (encHead s w) h)"
  by (rule codec_head [OF assms, of w])
     (simp add: saveWaitingListHead_def encHead_def eei_run)

lemma run_saveElementAndList [eei_run]:
  assumes "codec_ok (marshalizer s)"
  shows "run_state (saveElementAndList s key e w) h =
    (Inr (), setStor waitingListHeadKey (encHead s w) (setStor key (encElement s e) h))"
  by (simp add: saveElementAndList_def eei_run assms)

lemma elemAt_encElement [simp]:
  assumes "codec_ok (marshalizer s)"
    and "BLSPublicKey e \<noteq> [] \<or> PreviousKey e \<noteq> [] \<or> NextKey e \<noteq> []"
  shows "elemAt s (\<sigma>(key := encElement s e)) = (elemAt s \<sigma>)(key := Some e)"
proof -
  obtain b where "marshalElement (marshalizer s) e = Inr b" "b = [] \<longrightarrow> e = emptyElement"
    "b \<noteq> [] \<longrightarrow> (\<forall>x. unmarshalElement (marshalizer s) x b = Inr e)"
    using codec_element [OF assms(1)] by blast
  with assms(2) show ?thesis
    by (auto simp: fun_eq_iff elemAt_def encElement_def emptyElement_def)
qed

lemma elemAt_erase [simp]: "elemAt s (\<sigma>(key := [])) = (elemAt s \<sigma>)(key := None)"
  by (simp add: fun_eq_iff elemAt_def)

lemma elemAt_ne [simp]: "x \<noteq> key \<Longrightarrow> elemAt s (\<sigma>(x := v)) key = elemAt s \<sigma> key"
  by (simp add: elemAt_def)

lemma headAt_encHead [simp]:
  assumes "codec_ok (marshalizer s)"
  shows "headAt s (\<sigma>(waitingListHeadKey := encHead s w)) = Some w"
proof -
  obtain b where "marshalList (marshalizer s) w = Inr b" "b = [] \<longrightarrow> w = emptyWaitingList"
    "b \<noteq> [] \<longrightarrow> (\<forall>x. unmarshalList (marshalizer s) x b = Inr w)"
    using codec_head [OF assms] by blast
  then show ?thesis by (cases "b = []") (simp_all add: headAt_def encHead_def)
qed

lemma headAt_erase [simp]: "headAt s (\<sigma>(waitingListHeadKey := [])) = Some emptyWaitingList"
  by (simp add: headAt_def)

lemma headAt_other: "key \<noteq> waitingListHeadKey \<Longrightarrow> headAt s (\<sigma>(key := v)) = headAt s \<sigma>"
  by (simp add: headAt_def)

section \<open>Doubly linked list segments\<close>

text \<open>\<^verbatim>\<open>dll f p ks n\<close>: the elements of \<^verbatim>\<open>ks\<close> are linked in that order, the first one
  back to the key \<^verbatim>\<open>p\<close> and the last one forward to the key \<^verbatim>\<open>n\<close>.\<close>

fun firstKeyOr :: "bytes list \<Rightarrow> bytes \<Rightarrow> bytes" where
  "firstKeyOr [] n = n"
| "firstKeyOr (k # ks) n = wk k"

fun lastKeyOr :: "bytes \<Rightarrow> bytes list \<Rightarrow> bytes" where
  "lastKeyOr p [] = p"
| "lastKeyOr p (k # ks) = lastKeyOr (wk k) ks"

fun dll :: "(bytes \<Rightarrow> ElementInList option) \<Rightarrow> bytes \<Rightarrow> bytes list \<Rightarrow> bytes \<Rightarrow> bool" where
  "dll f p [] n \<longleftrightarrow> True"
| "dll f p (k # ks) n \<longleftrightarrow>
     f (wk k) = Some \<lparr>BLSPublicKey = k, PreviousKey = p, NextKey = firstKeyOr ks n\<rparr> \<and>
     dll f (wk k) ks n"

lemma firstKeyOr_append [simp]: "firstKeyOr (xs @ ys) n = firstKeyOr xs (firstKeyOr ys n)"
  by (cases xs) simp_all

lemma lastKeyOr_append [simp]: "lastKeyOr p (xs @ ys) = lastKeyOr (lastKeyOr p xs) ys"
  by (induction xs arbitrary: p) simp_all

lemma lastKeyOr_cases: "lastKeyOr p ks = (if ks = [] then p else wk (last ks))"
  by (induction ks arbitrary: p) auto

lemma dll_append:
  "dll f p (xs @ ys) n \<longleftrightarrow> dll f p xs (firstKeyOr ys n) \<and> dll f (lastKeyOr p xs) ys n"
  by (induction xs arbitrary: p) auto

lemma dll_upd [simp]: "x \<notin> wk ` set ks \<Longrightarrow> dll (f(x := v)) p ks n = dll f p ks n"
  by (induction ks arbitrary: p) auto

lemma dll_cong: "(\<And>k. k \<in> set ks \<Longrightarrow> f (wk k) = g (wk k)) \<Longrightarrow> dll f p ks n = dll g p ks n"
  by (induction ks arbitrary: p) auto

lemma dll_member: "dll f p ks n \<Longrightarrow> k \<in> set ks \<Longrightarrow> \<exists>e. f (wk k) = Some e \<and> BLSPublicKey e = k"
  by (induction ks arbitrary: p) auto

lemma dll_storage [simp]:
  "x \<notin> wk ` set ks \<Longrightarrow> dll (elemAt s (\<sigma>(x := v))) p ks n = dll (elemAt s \<sigma>) p ks n"
  by (rule dll_cong) (auto simp: elemAt_def)

section \<open>The representation relation\<close>

definition sc_ok :: "stakingSC \<Rightarrow> nat \<Rightarrow> bool" where
  "sc_ok s L \<longleftrightarrow> codec_ok (marshalizer s) \<and> flag s CorrectFirstQueuedFlag \<and>
     flag s CorrectLastUnJailedFlag \<and> 11 < L"

definition headOf :: "bytes list \<Rightarrow> bytes list \<Rightarrow> WaitingList" where
  "headOf js qs = \<lparr>FirstKey = firstKeyOr (js @ qs) [], LastKey = lastKeyOr [] (js @ qs),
     Length = of_nat (length (js @ qs)), LastJailedKey = lastKeyOr [] js\<rparr>"

definition wl_repr :: "stakingSC \<Rightarrow> nat \<Rightarrow> (bytes \<Rightarrow> bytes) \<Rightarrow> bytes list \<Rightarrow> bytes list \<Rightarrow> bool" where
  "wl_repr s L \<sigma> js qs \<longleftrightarrow> distinct (js @ qs) \<and> (\<forall>k\<in>set (js @ qs). length k = L) \<and>
     length (js @ qs) < 2 ^ 32 \<and> headAt s \<sigma> = Some (headOf js qs) \<and>
     dll (elemAt s \<sigma>) (firstKeyOr (js @ qs) []) (js @ qs) [] \<and>
     (\<forall>k. length k = L \<longrightarrow> k \<notin> set (js @ qs) \<longrightarrow> \<sigma> (wk k) = [])"

definition wl_key :: "nat \<Rightarrow> bytes \<Rightarrow> bool" where
  "wl_key L x \<longleftrightarrow> x = waitingListHeadKey \<or> (\<exists>k. length k = L \<and> x = wk k)"

definition wl_frame :: "stakingSC \<Rightarrow> nat \<Rightarrow> vmContext \<Rightarrow> vmContext \<Rightarrow> bool" where
  "wl_frame s L h h' \<longleftrightarrow> sameButStorage h h' \<and>
     (\<forall>x. \<not> wl_key L x \<longrightarrow> stor (eei s) h' x = stor (eei s) h x)"

lemma wk_distinct_keys [simp]:
  "wk k \<noteq> waitingListHeadKey" "waitingListHeadKey \<noteq> wk k"
  "wk k \<noteq> nodesConfigKey" "nodesConfigKey \<noteq> wk k" "wk k \<noteq> ownerKey" "ownerKey \<noteq> wk k"
  by (simp_all add: createWaitingListKey_def)

lemma goCopy_wk [simp]:
  "n = length k + 2 \<Longrightarrow> goCopy (makeBytes n) (wk k) = wk k"
  "n = length k \<Longrightarrow> goCopy (makeBytes (Suc (Suc n))) (wk k) = wk k"
  by (simp_all add: goCopy_same_length)

lemma sc_ok_len: "sc_ok s L \<Longrightarrow> 11 < L"
  by (simp add: sc_ok_def)

lemma sc_ok_codec [simp]: "sc_ok s L \<Longrightarrow> codec_ok (marshalizer s)"
  by (simp add: sc_ok_def)

lemma wl_frame_refl [simp, intro]: "wl_frame s L h h"
  by (simp add: wl_frame_def)

lemma wl_frame_setStor:
  "wl_frame s L h h' \<Longrightarrow> wl_key L x \<Longrightarrow> wl_frame s L h (setStor x v h')"
  by (auto simp: wl_frame_def eei_frame intro: sameButStorage_setStor2)

lemma wl_key_intros [simp, intro]: "wl_key L waitingListHeadKey" "length k = L \<Longrightarrow> wl_key L (wk k)"
  by (auto simp: wl_key_def)

text \<open>All the facts about a represented list, in the form the proofs use.\<close>

lemma wl_reprD:
  assumes "wl_repr s L \<sigma> js qs"
  shows "distinct (js @ qs)" "k \<in> set js \<Longrightarrow> length k = L" "k \<in> set qs \<Longrightarrow> length k = L"
    "headAt s \<sigma> = Some (headOf js qs)"
    "dll (elemAt s \<sigma>) (firstKeyOr (js @ qs) []) (js @ qs) []" "length (js @ qs) < 2 ^ 32"
  using assms by (auto simp: wl_repr_def)

lemma wl_repr_absent:
  "wl_repr s L \<sigma> js qs \<Longrightarrow> length k = L \<Longrightarrow> k \<notin> set (js @ qs) \<Longrightarrow> \<sigma> (wk k) = []"
  by (auto simp: wl_repr_def)

lemma wl_repr_present:
  "wl_repr s L \<sigma> js qs \<Longrightarrow> k \<in> set (js @ qs) \<Longrightarrow> \<sigma> (wk k) \<noteq> []"
  using dll_member [of "elemAt s \<sigma>" "firstKeyOr (js @ qs) []" "js @ qs" "[]" k]
  by (auto simp: wl_repr_def elemAt_def)

lemma len_inc: "Suc n < 2 ^ 32 \<Longrightarrow> (of_nat n + 1 :: u32) = 1 \<longleftrightarrow> n = 0"
proof -
  assume a: "Suc n < 2 ^ 32"
  have "(of_nat n :: u32) = 0 \<longleftrightarrow> n = 0"
    using a by (auto simp: word_of_nat_eq_0_iff dest: dvd_imp_le)
  then show ?thesis by simp
qed

lemma run_startWaitingList [eei_run]:
  assumes "sc_ok s L"
  shows "run_state (startWaitingList s w addJailed k) h =
    (Inr (), setStor waitingListHeadKey
       (encHead s (w\<lparr>FirstKey := wk k, LastKey := wk k,
          LastJailedKey := (if addJailed then wk k else LastJailedKey w)\<rparr>))
       (setStor (wk k) (encElement s \<lparr>BLSPublicKey = k, PreviousKey = wk k, NextKey = []\<rparr>) h))"
  using assms by (simp add: startWaitingList_def Let_def eei_run)

lemma add_first:
  assumes ok: "sc_ok s L" and r: "wl_repr s L (stor (eei s) h) [] []" and k: "length k = L"
  shows "\<exists>h'. run_state (startWaitingList s ((headOf [] [])\<lparr>Length := 1\<rparr>) addJailed k) h = (Inr (), h') \<and>
    wl_repr s L (stor (eei s) h') (if addJailed then [k] else []) (if addJailed then [] else [k]) \<and>
    wl_frame s L h h'"
  using assms
  by (auto simp: eei_run eei_frame wl_repr_def headOf_def elemAt_encElement
      intro!: wl_frame_setStor)


lemma wk_image [simp]: "wk k \<in> wk ` A \<longleftrightarrow> k \<in> A"
  by auto

lemma head_notin_wk [simp]: "waitingListHeadKey \<notin> wk ` A"
  by auto

text \<open>Appending at the end, whatever the head says of the last unjailed element.\<close>

lemma run_addToEndOfTheList:
  assumes ok: "sc_ok s L" and d: "dll (elemAt s (stor (eei s) h)) p (xs @ [x]) []"
    and w: "LastKey w = wk x"
  shows "run_state (addToEndOfTheList s w k) h =
    (Inr (), setStor waitingListHeadKey (encHead s (w\<lparr>LastKey := wk k\<rparr>))
      (setStor (wk k) (encElement s \<lparr>BLSPublicKey = k, PreviousKey = wk x, NextKey = []\<rparr>)
      (setStor (wk x) (encElement s \<lparr>BLSPublicKey = x, PreviousKey = lastKeyOr p xs, NextKey = wk k\<rparr>) h)))"
proof -
  have "elemAt s (stor (eei s) h) (wk x) =
      Some \<lparr>BLSPublicKey = x, PreviousKey = lastKeyOr p xs, NextKey = []\<rparr>"
    using d by (simp add: dll_append)
  then show ?thesis
    using ok w by (simp add: addToEndOfTheList_def Let_def eei_run)
qed

lemma dll_snoc:
  assumes ok: "sc_ok s L" and d: "dll (elemAt s \<sigma>) p (xs @ [x]) []"
    and L: "\<forall>k'\<in>set (xs @ [x, k]). length k' = L" and dist: "distinct (xs @ [x, k])"
  shows "dll (elemAt s (\<sigma>(wk x := encElement s \<lparr>BLSPublicKey = x, PreviousKey = lastKeyOr p xs, NextKey = wk k\<rparr>,
      wk k := encElement s \<lparr>BLSPublicKey = k, PreviousKey = wk x, NextKey = []\<rparr>,
      waitingListHeadKey := v))) p (xs @ [x, k]) []"
  using assms by (auto simp: dll_append elemAt_encElement)


lemma sc_ok_flags [simp]:
  "sc_ok s L \<Longrightarrow> flag s CorrectFirstQueuedFlag" "sc_ok s L \<Longrightarrow> flag s CorrectLastUnJailedFlag"
  by (simp_all add: sc_ok_def)

lemma lastKeyOr_snoc [simp]: "lastKeyOr p (xs @ [x]) = wk x"
  by simp

lemma firstKeyOr_snoc: "firstKeyOr (xs @ [x]) n = firstKeyOr xs (wk x)"
  by simp

text \<open>The head that the caller passes has the length already increased.\<close>

definition grownHead :: "bytes list \<Rightarrow> bytes list \<Rightarrow> WaitingList" where
  "grownHead js qs = (headOf js qs)\<lparr>Length := of_nat (length (js @ qs)) + 1\<rparr>"

lemma add_end:
  assumes ok: "sc_ok s L" and r: "wl_repr s L (stor (eei s) h) js qs"
    and k: "length k = L" "k \<notin> set (js @ qs)" and len: "length (js @ qs) + 1 < 2 ^ 32"
    and ne: "js @ qs \<noteq> []"
    and w: "w = grownHead js qs \<and> js' = js \<and> qs' = qs @ [k] \<or>
      w = (grownHead js qs)\<lparr>LastJailedKey := wk k\<rparr> \<and> qs = [] \<and> js' = js @ [k] \<and> qs' = []"
  shows "\<exists>h'. run_state (addToEndOfTheList s w k) h = (Inr (), h') \<and>
    wl_repr s L (stor (eei s) h') js' qs' \<and> wl_frame s L h h'"
proof -
  obtain xs x where xs: "js @ qs = xs @ [x]" using ne by (metis rev_exhaust)
  note d = wl_reprD [OF r]
  have all: "js' @ qs' = xs @ [x, k]" using w xs by auto
  have L: "\<forall>k'\<in>set (xs @ [x, k]). length k' = L" and dist: "distinct (xs @ [x, k])"
    using r k unfolding wl_repr_def xs by auto
  have p: "firstKeyOr (xs @ [x]) [] = firstKeyOr (xs @ [x, k]) []" by (cases xs) auto
  have "dll (elemAt s (stor (eei s) h)) (firstKeyOr (xs @ [x, k]) []) (xs @ [x]) []"
    using d(5) xs p by simp
  note dl = dll_snoc [OF ok this L dist] and run = run_addToEndOfTheList [OF ok this]
  have wl: "LastKey w = wk x" using w xs by (auto simp: grownHead_def headOf_def)
  have head: "w\<lparr>LastKey := wk k\<rparr> = headOf js' qs'"
    using w xs all by (auto simp: grownHead_def headOf_def)
  show ?thesis
    using run [OF wl] dl L dist len r k ok xs head all
    by (auto simp: eei_frame wl_repr_def intro!: wl_frame_setStor)
qed


lemma insert_first_jailed:
  assumes ok: "sc_ok s L" and r: "wl_repr s L (stor (eei s) h) [] (q # qs)"
    and k: "length k = L" "k \<notin> set (q # qs)" and len: "length (q # qs) + 1 < 2 ^ 32"
  shows "\<exists>h'. run_state (insertAfterLastJailed s (grownHead [] (q # qs)) k) h = (Inr (), h') \<and>
    wl_repr s L (stor (eei s) h') [k] (q # qs) \<and> wl_frame s L h h'"
proof -
  have e: "elemAt s (stor (eei s) h) (wk q) =
      Some \<lparr>BLSPublicKey = q, PreviousKey = wk q, NextKey = firstKeyOr qs []\<rparr>"
    using wl_reprD(5) [OF r] by simp
  have lens: "length q = L" using r by (simp add: wl_repr_def)
  have h: "grownHead [] (q # qs) = \<lparr>FirstKey = wk q, LastKey = lastKeyOr (wk q) qs,
      Length = of_nat (Suc (length qs)) + 1, LastJailedKey = []\<rparr>"
    by (simp add: grownHead_def headOf_def)
  show ?thesis
    using e ok k lens len r unfolding h
    by (auto simp: insertAfterLastJailed_def Let_def eei_run eei_frame wl_repr_def headOf_def
        intro!: wl_frame_setStor)
qed

lemma insert_after_jailed:
  assumes ok: "sc_ok s L" and r: "wl_repr s L (stor (eei s) h) (xs @ [x]) (q # qs)"
    and k: "length k = L" "k \<notin> set (xs @ x # q # qs)"
    and len: "length (xs @ x # q # qs) + 1 < 2 ^ 32"
  shows "\<exists>h'. run_state (insertAfterLastJailed s (grownHead (xs @ [x]) (q # qs)) k) h = (Inr (), h') \<and>
    wl_repr s L (stor (eei s) h') (xs @ [x, k]) (q # qs) \<and> wl_frame s L h h'"
proof -
  let ?\<sigma> = "stor (eei s) h" and ?p = "firstKeyOr (xs @ x # q # qs) []"
  have d: "dll (elemAt s ?\<sigma>) ?p (xs @ x # q # qs) []"
    using wl_reprD(5) [OF r] by simp
  then have x: "elemAt s ?\<sigma> (wk x) = Some \<lparr>BLSPublicKey = x, PreviousKey = lastKeyOr ?p xs, NextKey = wk q\<rparr>"
    and q: "elemAt s ?\<sigma> (wk q) = Some \<lparr>BLSPublicKey = q, PreviousKey = wk x, NextKey = firstKeyOr qs []\<rparr>"
    by (simp_all add: dll_append)
  have lens: "length q = L" "length x = L" and dist: "distinct (xs @ x # q # qs)"
    using r by (simp_all add: wl_repr_def)
  have ne: "lastKeyOr (wk q) qs \<noteq> wk x"
    using dist by (auto simp: lastKeyOr_cases)
  have h: "grownHead (xs @ [x]) (q # qs) = \<lparr>FirstKey = firstKeyOr xs (wk x), LastKey = lastKeyOr (wk q) qs,
      Length = of_nat (length (xs @ x # q # qs)) + 1, LastJailedKey = wk x\<rparr>"
    by (simp add: grownHead_def headOf_def)
  show ?thesis
    using x q ok k lens len ne r d unfolding h
    by (auto simp: insertAfterLastJailed_def Let_def eei_run eei_frame wl_repr_def headOf_def dll_append
        intro!: wl_frame_setStor)
qed

lemma addToWaitingList_absent:
  assumes ok: "sc_ok s L" and r: "wl_repr s L (stor (eei s) h) js qs"
    and k: "length k = L" "k \<notin> set (js @ qs)" and len: "length (js @ qs) + 1 < 2 ^ 32"
  shows "\<exists>h'. run_state (addToWaitingList s k addJailed) h = (Inr (), h') \<and>
    wl_repr s L (stor (eei s) h') (if addJailed then js @ [k] else js)
      (if addJailed then qs else qs @ [k]) \<and> wl_frame s L h h'"
proof -
  have z: "stor (eei s) h (wk k) = []" using wl_repr_absent [OF r k] .
  have one: "of_nat (length (js @ qs)) + (1::u32) = 1 \<longleftrightarrow> js @ qs = []"
    using len_inc [of "length (js @ qs)"] len by simp
  have run: "run_state (addToWaitingList s k addJailed) h =
      run_state (if js @ qs = [] then startWaitingList s ((headOf [] [])\<lparr>Length := 1\<rparr>) addJailed k
        else if addJailed then insertAfterLastJailed s (grownHead js qs) k
        else addToEndOfTheList s (grownHead js qs) k) h"
    using z wl_reprD(4) [OF r] one
    by (auto simp: addToWaitingList_def eei_run Let_def grownHead_def headOf_def)
  consider (first) "js @ qs = []" | (last) "js @ qs \<noteq> []" "\<not> addJailed"
    | (jailed_end) "js \<noteq> []" "qs = []" "addJailed" | (jailed_first) q qs' where "js = []" "qs = q # qs'" "addJailed"
    | (jailed_mid) xs x q qs' where "js = xs @ [x]" "qs = q # qs'" "addJailed"
    by (metis append_Nil append_is_Nil_conv list.exhaust rev_exhaust)
  then show ?thesis
  proof cases
    case first
    then show ?thesis using add_first [OF ok _ k(1), of h addJailed] r run by auto
  next
    case last
    then show ?thesis using add_end [OF ok r k len, of "grownHead js qs" js "qs @ [k]"] run by auto
  next
    case jailed_end
    then obtain xs x where js: "js = xs @ [x]" by (metis rev_exhaust)
    have "run_state (insertAfterLastJailed s (grownHead js qs) k) h =
        run_state (addToEndOfTheList s ((grownHead js qs)\<lparr>LastJailedKey := wk k\<rparr>) k) h"
      using wl_reprD(5) [OF r] jailed_end js ok
      by (simp add: insertAfterLastJailed_def Let_def eei_run grownHead_def headOf_def dll_append)
    then show ?thesis
      using add_end [OF ok r k len, of "(grownHead js qs)\<lparr>LastJailedKey := wk k\<rparr>" "js @ [k]" "[]"]
        jailed_end run by simp
  next
    case jailed_first
    then show ?thesis using insert_first_jailed [OF ok, of h q qs' k] r k len run by simp
  next
    case jailed_mid
    then show ?thesis using insert_after_jailed [OF ok, of h xs x q qs' k] r k len run by simp
  qed
qed


section \<open>Removal\<close>

lemma of_nat_dec: "0 < n \<Longrightarrow> (of_nat n - 1 :: u32) = of_nat (n - 1)"
  by (cases n) simp_all

lemma of_nat_zero: "n < 2 ^ 32 \<Longrightarrow> (of_nat n :: u32) = 0 \<longleftrightarrow> n = 0"
  by (auto simp: word_of_nat_eq_0_iff dest: dvd_imp_le)

text \<open>What the removal of \<^verbatim>\<open>k\<close>, between the keys \<^verbatim>\<open>xs\<close> and \<^verbatim>\<open>ys\<close>, finds in the storage.\<close>

lemma remove_reads:
  assumes r: "wl_repr s L (stor (eei s) h) js qs" and ks: "js @ qs = xs @ k # ys"
  shows "stor (eei s) h (wk k) \<noteq> []"
    and "unmarshalElement (marshalizer s) emptyElement (stor (eei s) h (wk k)) =
      Inr \<lparr>BLSPublicKey = k, PreviousKey = lastKeyOr (wk k) xs, NextKey = firstKeyOr ys []\<rparr>"
    and "headAt s (stor (eei s) (setStor (wk k) [] h)) =
      Some \<lparr>FirstKey = firstKeyOr xs (wk k), LastKey = lastKeyOr (wk k) ys,
            Length = of_nat (Suc (length (xs @ ys))), LastJailedKey = lastKeyOr [] js\<rparr>"
    and "of_nat (Suc (length (xs @ ys))) \<noteq> (0::u32)"
    and "of_nat (length (xs @ ys)) = (0::u32) \<longleftrightarrow> xs @ ys = []"
proof -
  note d = wl_reprD [OF r]
  have "lastKeyOr (firstKeyOr (xs @ k # ys) []) xs = lastKeyOr (wk k) xs"
    by (cases xs) auto
  then have e: "elemAt s (stor (eei s) h) (wk k) =
      Some \<lparr>BLSPublicKey = k, PreviousKey = lastKeyOr (wk k) xs, NextKey = firstKeyOr ys []\<rparr>"
    using d(5) ks by (simp add: dll_append)
  then show "stor (eei s) h (wk k) \<noteq> []"
    "unmarshalElement (marshalizer s) emptyElement (stor (eei s) h (wk k)) =
      Inr \<lparr>BLSPublicKey = k, PreviousKey = lastKeyOr (wk k) xs, NextKey = firstKeyOr ys []\<rparr>"
    by (auto simp: elemAt_def split: if_splits sum.splits)
  have len: "length (js @ qs) = Suc (length (xs @ ys))" "length (js @ qs) < 2 ^ 32"
    using ks d(6) by simp_all
  show "of_nat (Suc (length (xs @ ys))) \<noteq> (0::u32)"
    "of_nat (length (xs @ ys)) = (0::u32) \<longleftrightarrow> xs @ ys = []"
    using len of_nat_zero [of "Suc (length (xs @ ys))"] of_nat_zero [of "length (xs @ ys)"] by auto
  show "headAt s (stor (eei s) (setStor (wk k) [] h)) =
      Some \<lparr>FirstKey = firstKeyOr xs (wk k), LastKey = lastKeyOr (wk k) ys,
            Length = of_nat (Suc (length (xs @ ys))), LastJailedKey = lastKeyOr [] js\<rparr>"
    using d(4) ks len(1) by (simp add: eei_frame headAt_other headOf_def)
qed

text \<open>The abstract removal, seen from the position of the removed key.\<close>

definition removes :: "bytes list \<Rightarrow> bytes list \<Rightarrow> bytes \<Rightarrow> bytes list \<Rightarrow> bytes list \<Rightarrow> bool" where
  "removes js qs k xs ys \<longleftrightarrow> js @ qs = xs @ k # ys \<and> distinct (js @ qs) \<and>
     remove1 k js @ remove1 k qs = xs @ ys \<and>
     lastKeyOr [] (remove1 k js) =
       (if lastKeyOr [] js = wk k then lastKeyOr [] xs else lastKeyOr [] js)"

lemma removes_ex:
  assumes "distinct (js @ qs)" and "k \<in> set (js @ qs)"
  obtains xs ys where "removes js qs k xs ys"
proof (cases "k \<in> set js")
  case True
  then obtain as bs where js: "js = as @ k # bs" "k \<notin> set as" by (metis split_list_first)
  have "lastKeyOr [] (as @ bs) =
      (if lastKeyOr [] js = wk k then lastKeyOr [] as else lastKeyOr [] js)"
    using assms(1) js by (auto simp: lastKeyOr_cases)
  then have "removes js qs k as (bs @ qs)"
    using assms(1) js by (auto simp: removes_def remove1_append_notin remove1_notin)
  then show ?thesis by (rule that)
next
  case False
  then obtain as bs where qs: "qs = as @ k # bs" "k \<notin> set as"
    using assms(2) by (metis Un_iff set_append split_list_first)
  have "removes js qs k (js @ as) bs"
    using assms(1) qs False by (auto simp: removes_def remove1_append_notin remove1_notin lastKeyOr_cases)
  then show ?thesis by (rule that)
qed

lemma remove_only:
  assumes ok: "sc_ok s L" and r: "wl_repr s L (stor (eei s) h) js qs" and rm: "removes js qs k [] []"
  shows "\<exists>h'. run_state (removeFromWaitingList s k) h = (Inr (), h') \<and>
    wl_repr s L (stor (eei s) h') (remove1 k js) (remove1 k qs) \<and> wl_frame s L h h'"
proof -
  have ks: "js @ qs = [] @ k # []" using rm by (simp add: removes_def)
  note rd = remove_reads [OF r ks]
  have "remove1 k js = []" "remove1 k qs = []" using rm by (simp_all add: removes_def)
  moreover have "run_state (removeFromWaitingList s k) h =
      (Inr (), setStor waitingListHeadKey [] (setStor (wk k) [] h))"
    using rd by (simp add: removeFromWaitingList_def Let_def eei_run)
  moreover have "length k = L" using r ks by (auto simp: wl_repr_def)
  ultimately show ?thesis
    using r ks by (auto simp: eei_frame wl_repr_def headOf_def emptyWaitingList_def
        intro!: wl_frame_setStor)
qed


text \<open>The list that results from a removal, once its head and its links are written.\<close>

lemma wl_repr_removed:
  assumes r: "wl_repr s L (stor (eei s) h) js qs" and rm: "removes js qs k xs ys"
    and head: "headAt s \<sigma>' = Some \<lparr>FirstKey = firstKeyOr (xs @ ys) [], LastKey = lastKeyOr [] (xs @ ys),
      Length = of_nat (length (xs @ ys)),
      LastJailedKey = (if lastKeyOr [] js = wk k then lastKeyOr [] xs else lastKeyOr [] js)\<rparr>"
    and links: "dll (elemAt s \<sigma>') (firstKeyOr (xs @ ys) []) (xs @ ys) []"
    and rest: "\<And>k'. length k' = L \<Longrightarrow> k' \<notin> set (xs @ ys) \<Longrightarrow>
      \<sigma>' (wk k') = (if k' = k then [] else stor (eei s) h (wk k'))"
  shows "wl_repr s L \<sigma>' (remove1 k js) (remove1 k qs)"
proof -
  have ks: "js @ qs = xs @ k # ys" "remove1 k js @ remove1 k qs = xs @ ys"
    using rm by (simp_all add: removes_def)
  have set: "set js \<union> set qs = set xs \<union> {k} \<union> set ys" and len: "length js + length qs = Suc (length xs + length ys)"
    using arg_cong [OF ks(1), of set] arg_cong [OF ks(1), of length] by auto
  have "distinct (xs @ k # ys)" using wl_reprD(1) [OF r] ks(1) by metis
  moreover have "headOf (remove1 k js) (remove1 k qs) =
      \<lparr>FirstKey = firstKeyOr (xs @ ys) [], LastKey = lastKeyOr [] (xs @ ys),
       Length = of_nat (length (xs @ ys)),
       LastJailedKey = (if lastKeyOr [] js = wk k then lastKeyOr [] xs else lastKeyOr [] js)\<rparr>"
    using rm unfolding headOf_def ks(2) by (simp only: removes_def)
  moreover have "\<forall>k'\<in>set (xs @ ys). length k' = L"
    using r set by (auto simp: wl_repr_def)
  moreover have "length (xs @ ys) < 2 ^ 32"
    using wl_reprD(6) [OF r] len by simp
  moreover have "\<sigma>' (wk k') = []" if "length k' = L" "k' \<notin> set (xs @ ys)" for k'
    using rest [OF that] that r set by (auto simp: wl_repr_def)
  ultimately show ?thesis
    using head links unfolding wl_repr_def ks(2) by auto
qed

lemma remove_first:
  assumes ok: "sc_ok s L" and r: "wl_repr s L (stor (eei s) h) js qs" and rm: "removes js qs k [] (y # ys)"
  shows "\<exists>h'. run_state (removeFromWaitingList s k) h = (Inr (), h') \<and>
    wl_repr s L (stor (eei s) h') (remove1 k js) (remove1 k qs) \<and> wl_frame s L h h'"
proof -
  have ks: "js @ qs = [] @ k # y # ys" using rm by (simp add: removes_def)
  obtain jl where jl: "lastKeyOr [] js = jl" by simp
  note rd = remove_reads [OF r ks, unfolded jl]
  have links: "dll (elemAt s (stor (eei s) h)) (wk k) (k # y # ys) []" and dist: "distinct (k # y # ys)"
    and lens: "\<forall>x\<in>set (k # y # ys). length x = L"
    using r unfolding wl_repr_def ks by auto
  let ?w = "\<lparr>FirstKey = wk y, LastKey = lastKeyOr [] (y # ys), Length = of_nat (length (y # ys)),
    LastJailedKey = (if jl = wk k then [] else jl)\<rparr>"
  let ?h = "setStor waitingListHeadKey (encHead s ?w) (setStor (wk y) (encElement s
      \<lparr>BLSPublicKey = y, PreviousKey = wk y, NextKey = firstKeyOr ys []\<rparr>) (setStor (wk k) [] h))"
  have "run_state (removeFromWaitingList s k) h = (Inr (), ?h)"
    using rd links dist ok
    by (auto simp: removeFromWaitingList_def Let_def eei_run eei_frame)
  moreover have "wl_repr s L (stor (eei s) ?h) (remove1 k js) (remove1 k qs)"
    using links dist ok by (intro wl_repr_removed [OF r rm]) (auto simp: jl eei_frame)
  moreover have "wl_frame s L h ?h"
    using lens by (auto intro!: wl_frame_setStor)
  ultimately show ?thesis by blast
qed

lemma remove_last:
  assumes ok: "sc_ok s L" and r: "wl_repr s L (stor (eei s) h) js qs" and rm: "removes js qs k (xs @ [x]) []"
  shows "\<exists>h'. run_state (removeFromWaitingList s k) h = (Inr (), h') \<and>
    wl_repr s L (stor (eei s) h') (remove1 k js) (remove1 k qs) \<and> wl_frame s L h h'"
proof -
  have ks: "js @ qs = (xs @ [x]) @ k # []" using rm by (simp add: removes_def)
  obtain jl where jl: "lastKeyOr [] js = jl" by simp
  note rd = remove_reads [OF r ks, unfolded jl]
  let ?p = "firstKeyOr xs (wk x)"
  have links: "dll (elemAt s (stor (eei s) h)) ?p (xs @ [x, k]) []" and dist: "distinct (xs @ [x, k])"
    and lens: "\<forall>y\<in>set (xs @ [x, k]). length y = L"
    using r unfolding wl_repr_def ks by auto
  let ?w = "\<lparr>FirstKey = ?p, LastKey = wk x, Length = of_nat (length (xs @ [x])),
    LastJailedKey = (if jl = wk k then wk x else jl)\<rparr>"
  let ?h = "setStor waitingListHeadKey (encHead s ?w) (setStor (wk x) (encElement s
      \<lparr>BLSPublicKey = x, PreviousKey = lastKeyOr ?p xs, NextKey = []\<rparr>) (setStor (wk k) [] h))"
  have first: "?p \<noteq> wk k" using dist by (cases xs) auto
  have "length x = L" using lens by simp
  then have x: "x \<noteq> []" using sc_ok_len [OF ok] by auto
  have "run_state (removeFromWaitingList s k) h = (Inr (), ?h)"
    using rd links dist ok first
    by (auto simp: removeFromWaitingList_def unlinkAfterPrevious_def Let_def eei_run eei_frame dll_append)
  moreover have "wl_repr s L (stor (eei s) ?h) (remove1 k js) (remove1 k qs)"
    using links dist ok x by (intro wl_repr_removed [OF r rm]) (auto simp: jl eei_frame dll_append)
  moreover have "wl_frame s L h ?h"
    using lens by (auto intro!: wl_frame_setStor)
  ultimately show ?thesis by blast
qed

lemma remove_middle:
  assumes ok: "sc_ok s L" and r: "wl_repr s L (stor (eei s) h) js qs" and rm: "removes js qs k (xs @ [x]) (y # ys)"
  shows "\<exists>h'. run_state (removeFromWaitingList s k) h = (Inr (), h') \<and>
    wl_repr s L (stor (eei s) h') (remove1 k js) (remove1 k qs) \<and> wl_frame s L h h'"
proof -
  have ks: "js @ qs = (xs @ [x]) @ k # y # ys" using rm by (simp add: removes_def)
  obtain jl where jl: "lastKeyOr [] js = jl" by simp
  note rd = remove_reads [OF r ks, unfolded jl]
  let ?p = "firstKeyOr xs (wk x)"
  have links: "dll (elemAt s (stor (eei s) h)) ?p (xs @ x # k # y # ys) []" and dist: "distinct (xs @ x # k # y # ys)"
    and lens: "\<forall>z\<in>set (xs @ x # k # y # ys). length z = L"
    using r unfolding wl_repr_def ks by auto
  let ?w = "\<lparr>FirstKey = ?p, LastKey = lastKeyOr (wk y) ys, Length = of_nat (length (xs @ x # y # ys)),
    LastJailedKey = (if jl = wk k then wk x else jl)\<rparr>"
  let ?h = "setStor waitingListHeadKey (encHead s ?w) (setStor (wk x) (encElement s
      \<lparr>BLSPublicKey = x, PreviousKey = lastKeyOr ?p xs, NextKey = wk y\<rparr>) (setStor (wk y) (encElement s
      \<lparr>BLSPublicKey = y, PreviousKey = wk x, NextKey = firstKeyOr ys []\<rparr>) (setStor (wk k) [] h)))"
  have first: "?p \<noteq> wk k" using dist by (cases xs) auto
  have "run_state (removeFromWaitingList s k) h = (Inr (), ?h)"
    using rd links dist ok first
    by (auto simp: removeFromWaitingList_def unlinkAfterPrevious_def Let_def eei_run eei_frame dll_append)
  moreover have "wl_repr s L (stor (eei s) ?h) (remove1 k js) (remove1 k qs)"
    using links dist ok by (intro wl_repr_removed [OF r rm]) (auto simp: jl eei_frame dll_append)
  moreover have "wl_frame s L h ?h"
    using lens by (auto intro!: wl_frame_setStor)
  ultimately show ?thesis by blast
qed

lemma removeFromWaitingList_present:
  assumes ok: "sc_ok s L" and r: "wl_repr s L (stor (eei s) h) js qs" and k: "k \<in> set (js @ qs)"
  shows "\<exists>h'. run_state (removeFromWaitingList s k) h = (Inr (), h') \<and>
    wl_repr s L (stor (eei s) h') (remove1 k js) (remove1 k qs) \<and> wl_frame s L h h'"
proof -
  obtain xs ys where rm: "removes js qs k xs ys"
    using removes_ex [OF wl_reprD(1) [OF r] k] .
  consider "xs = []" "ys = []" | y ys' where "xs = []" "ys = y # ys'"
    | xs' x where "xs = xs' @ [x]" "ys = []" | xs' x y ys' where "xs = xs' @ [x]" "ys = y # ys'"
    by (metis list.exhaust rev_exhaust)
  then show ?thesis
    using rm by cases (auto intro: remove_only [OF ok r] remove_first [OF ok r]
        remove_last [OF ok r] remove_middle [OF ok r])
qed

lemma removeFromWaitingList_absent:
  assumes "wl_repr s L (stor (eei s) h) js qs" and "length k = L" and "k \<notin> set (js @ qs)"
  shows "run_state (removeFromWaitingList s k) h = (Inr (), h)"
  using wl_repr_absent [OF assms] by (simp add: removeFromWaitingList_def Let_def eei_run)

lemma addToWaitingList_present:
  assumes "wl_repr s L (stor (eei s) h) js qs" and "k \<in> set (js @ qs)"
  shows "run_state (addToWaitingList s k addJailed) h = (Inr (), h)"
  using wl_repr_present [OF assms] by (simp add: addToWaitingList_def eei_run)

lemma removeFromWaitingList_run:
  assumes "sc_ok s L" and "wl_repr s L (stor (eei s) h) js qs" and "length k = L"
  shows "\<exists>h'. run_state (removeFromWaitingList s k) h = (Inr (), h') \<and>
    wl_repr s L (stor (eei s) h') (remove1 k js) (remove1 k qs) \<and> wl_frame s L h h'"
proof (cases "k \<in> set (js @ qs)")
  case True
  then show ?thesis using removeFromWaitingList_present [OF assms(1,2)] by blast
next
  case False
  then show ?thesis
    using removeFromWaitingList_absent [OF assms(2,3)] assms(2) by (auto simp: remove1_notin)
qed

section \<open>Traversal\<close>

lemma getFirstElementsLoop_run:
  assumes "dll (elemAt s (stor (eei s) h)) p ks []" and "ks \<noteq> []"
    and "\<forall>k\<in>set ks. length k = L \<and> decStaked s (stor (eei s) h k) = Inr (sd k)"
  shows "\<exists>lk. run_state (getFirstElementsLoop s w n (firstKeyOr ks []) acc) h =
    (Inr \<lparr>blsKeys = blsKeys acc @ take n ks, stakedDataList = stakedDataList acc @ map sd (take n ks),
          lastKey = lk, afterLastJailed = (afterLastJailed acc \<or> LastJailedKey w \<in> wk ` set (take n ks))\<rparr>, h)"
  using assms
proof (induction ks arbitrary: p n acc)
  case Nil
  then show ?case by simp
next
  case (Cons k ks)
  show ?case
  proof (cases n)
    case 0
    then show ?thesis by (cases acc) simp
  next
    case (Suc m)
    have e: "elemAt s (stor (eei s) h) (wk k) =
        Some \<lparr>BLSPublicKey = k, PreviousKey = p, NextKey = firstKeyOr ks []\<rparr>"
      using Cons.prems by simp
    let ?acc = "\<lparr>blsKeys = blsKeys acc @ [k], stakedDataList = stakedDataList acc @ [sd k],
        lastKey = lastKey acc, afterLastJailed = (afterLastJailed acc \<or> wk k = LastJailedKey w)\<rparr>"
    show ?thesis
    proof (cases ks)
      case Nil
      then show ?thesis
        using e Suc Cons.prems by (cases acc) (auto simp: eei_run Let_def)
    next
      case (Cons k' ks')
      have "run_state (getFirstElementsLoop s w n (wk k) acc) h =
          run_state (getFirstElementsLoop s w m (firstKeyOr ks []) ?acc) h"
        using e Suc Cons.prems Cons
        by (cases acc) (auto simp: eei_run Let_def goCopy_same_length)
      moreover obtain lk where "run_state (getFirstElementsLoop s w m (firstKeyOr ks []) ?acc) h =
          (Inr \<lparr>blsKeys = blsKeys ?acc @ take m ks, stakedDataList = stakedDataList ?acc @ map sd (take m ks),
            lastKey = lk, afterLastJailed = (afterLastJailed ?acc \<or> LastJailedKey w \<in> wk ` set (take m ks))\<rparr>, h)"
        using Cons.IH [of "wk k" m ?acc] Cons.prems Cons by auto
      ultimately show ?thesis using Suc by auto
    qed
  qed
qed


lemma take_min_length: "take (min (length xs) n) xs = take n xs"
  by (simp add: min_def)

lemma unat_len: "n < 2 ^ 32 \<Longrightarrow> unat (of_nat n :: u32) = n"
  by (simp add: unat_of_nat)

lemma run_getFirstElementsFromWaitingList:
  assumes r: "wl_repr s L (stor (eei s) h) js qs"
    and sd: "\<forall>k\<in>set (js @ qs). decStaked s (stor (eei s) h k) = Inr (sd k)"
  shows "\<exists>lk. run_state (getFirstElementsFromWaitingList s numNodes) h =
    (Inr \<lparr>blsKeys = take (unat numNodes) (js @ qs), stakedDataList = map sd (take (unat numNodes) (js @ qs)),
          lastKey = lk, afterLastJailed = (js \<noteq> [] \<and> length js \<le> unat numNodes)\<rparr>, h)"
proof (cases "js @ qs = []")
  case True
  then show ?thesis
    using wl_reprD(4) [OF r]
    by (simp add: getFirstElementsFromWaitingList_def eei_run headOf_def emptyReturnData_def)
next
  case False
  note d = wl_reprD [OF r]
  have len: "unat (of_nat (length (js @ qs)) :: u32) = length (js @ qs)"
    by (rule unat_len) (rule d(6))
  have lens: "\<forall>k\<in>set (js @ qs). length k = L \<and> decStaked s (stor (eei s) h k) = Inr (sd k)"
    using r sd by (auto simp: wl_repr_def)
  have buf: "goCopy (makeBytes (length (firstKeyOr (js @ qs) []))) (firstKeyOr (js @ qs) []) = firstKeyOr (js @ qs) []"
    by (rule goCopy_make)
  have run: "run_state (getFirstElementsFromWaitingList s numNodes) h =
      run_state (getFirstElementsLoop s (headOf js qs) (min (length (js @ qs)) (unat numNodes))
        (firstKeyOr (js @ qs) []) emptyReturnData) h"
    using d(4) len buf False
    by (auto simp: getFirstElementsFromWaitingList_def eei_run headOf_def simp del: goCopy_make)
  have tk: "take (min (length (js @ qs)) n) (js @ qs) = take n (js @ qs)" for n
    by (rule take_min_length)
  have jl: "lastKeyOr [] js \<in> wk ` set (take n (js @ qs)) \<longleftrightarrow> js \<noteq> [] \<and> length js \<le> n" for n
    using d(1) by (cases js rule: rev_cases)
       (auto simp: take_Cons' dest: in_set_takeD)
  obtain lk where lk: "run_state (getFirstElementsLoop s (headOf js qs) (min (length (js @ qs)) (unat numNodes))
        (firstKeyOr (js @ qs) []) emptyReturnData) h =
      (Inr \<lparr>blsKeys = blsKeys emptyReturnData @ take (unat numNodes) (js @ qs),
            stakedDataList = stakedDataList emptyReturnData @ map sd (take (unat numNodes) (js @ qs)),
            lastKey = lk,
            afterLastJailed = (afterLastJailed emptyReturnData \<or>
              LastJailedKey (headOf js qs) \<in> wk ` set (take (unat numNodes) (js @ qs)))\<rparr>, h)"
    using getFirstElementsLoop_run [OF d(5) False lens, of "headOf js qs"
        "min (length (js @ qs)) (unat numNodes)" emptyReturnData] unfolding tk by blast
  have "LastJailedKey (headOf js qs) = lastKeyOr [] js"
    by (simp add: headOf_def)
  then show ?thesis
    unfolding run lk by (simp only: jl) (simp add: emptyReturnData_def)
qed

section \<open>The queue as an interface\<close>

text \<open>The abstract queue: the keys that came back from jail, then the others.\<close>

type_synonym 'k jqueue = "'k list \<times> 'k list"

definition jq_keys :: "'k jqueue \<Rightarrow> 'k list" where
  "jq_keys q = fst q @ snd q"

definition jq_add :: "'k \<Rightarrow> bool \<Rightarrow> 'k jqueue \<Rightarrow> 'k jqueue" where
  "jq_add k jailed q = (if k \<in> set (jq_keys q) then q
     else if jailed then (fst q @ [k], snd q) else (fst q, snd q @ [k]))"

definition jq_remove :: "'k \<Rightarrow> 'k jqueue \<Rightarrow> 'k jqueue" where
  "jq_remove k q = (remove1 k (fst q), remove1 k (snd q))"

datatype 'k queue_op = QAdd 'k bool | QRemove 'k

primrec op_key :: "'k queue_op \<Rightarrow> 'k" where
  "op_key (QAdd k j) = k"
| "op_key (QRemove k) = k"

primrec jq_step :: "'k queue_op \<Rightarrow> 'k jqueue \<Rightarrow> 'k jqueue" where
  "jq_step (QAdd k j) q = jq_add k j q"
| "jq_step (QRemove k) q = jq_remove k q"

lemma length_jq_step: "length (jq_keys (jq_step op q)) \<le> Suc (length (jq_keys q))"
  by (cases op) (auto simp: jq_add_def jq_remove_def jq_keys_def length_remove1)

lemma jq_remove_add:
  assumes "k \<notin> set (jq_keys q)"
  shows "jq_remove k (jq_add k j q) = q"
  using assms by (cases q) (auto simp: jq_remove_def jq_add_def jq_keys_def remove1_append remove1_notin)

text \<open>A sequence of operations on an implementation, given by its insertion and removal.\<close>

primrec queue_step :: "('k \<Rightarrow> bool \<Rightarrow> 'st \<Rightarrow> 'st option) \<Rightarrow> ('k \<Rightarrow> 'st \<Rightarrow> 'st option) \<Rightarrow>
    'k queue_op \<Rightarrow> 'st \<Rightarrow> 'st option" where
  "queue_step add rem (QAdd k j) st = add k j st"
| "queue_step add rem (QRemove k) st = rem k st"

primrec queue_steps :: "('k \<Rightarrow> bool \<Rightarrow> 'st \<Rightarrow> 'st option) \<Rightarrow> ('k \<Rightarrow> 'st \<Rightarrow> 'st option) \<Rightarrow>
    'k queue_op list \<Rightarrow> 'st \<Rightarrow> 'st option" where
  "queue_steps add rem [] st = Some st"
| "queue_steps add rem (op # ops) st =
     Option.bind (queue_step add rem op st) (queue_steps add rem ops)"

locale waiting_queue =
  fixes rep :: "'st \<Rightarrow> 'k jqueue \<Rightarrow> bool"
    and add :: "'k \<Rightarrow> bool \<Rightarrow> 'st \<Rightarrow> 'st option"
    and rem :: "'k \<Rightarrow> 'st \<Rightarrow> 'st option"
    and key_ok :: "'k \<Rightarrow> bool"
    and cap :: nat
  assumes add_rep: "rep st q \<Longrightarrow> key_ok k \<Longrightarrow> Suc (length (jq_keys q)) < cap \<Longrightarrow>
      \<exists>st'. add k j st = Some st' \<and> rep st' (jq_add k j q)"
    and rem_rep: "rep st q \<Longrightarrow> key_ok k \<Longrightarrow> \<exists>st'. rem k st = Some st' \<and> rep st' (jq_remove k q)"
begin

lemma step_rep:
  assumes "rep st q" and "key_ok (op_key op)" and "Suc (length (jq_keys q)) < cap"
  shows "\<exists>st'. queue_step add rem op st = Some st' \<and> rep st' (jq_step op q)"
  using assms by (cases op) (auto intro: add_rep rem_rep)

lemma steps_rep:
  assumes "rep st q" and "\<forall>op\<in>set ops. key_ok (op_key op)"
    and "length (jq_keys q) + length ops < cap"
  shows "\<exists>st'. queue_steps add rem ops st = Some st' \<and> rep st' (fold jq_step ops q)"
  using assms
proof (induction ops arbitrary: st q)
  case Nil
  then show ?case by simp
next
  case (Cons op ops)
  then obtain st' where st': "queue_step add rem op st = Some st'" "rep st' (jq_step op q)"
    using step_rep [of st q op] by auto
  have "length (jq_keys (jq_step op q)) + length ops < cap"
    using Cons.prems(3) length_jq_step [of op q] by simp
  then show ?case using Cons.IH [OF st'(2)] Cons.prems(2) st'(1) by simp
qed

lemma add_then_remove:
  assumes "rep st q" and "key_ok k" and "k \<notin> set (jq_keys q)" and "Suc (length (jq_keys q)) < cap"
  shows "\<exists>st' st''. add k j st = Some st' \<and> rem k st' = Some st'' \<and> rep st'' q"
proof -
  obtain st' where st': "add k j st = Some st'" "rep st' (jq_add k j q)"
    using add_rep [OF assms(1,2,4)] by blast
  then show ?thesis
    using rem_rep [OF st'(2) assms(2)] jq_remove_add [OF assms(3), of j] by auto
qed

end

text \<open>The code's operations, as functions on the context that fail when the code returns an error.\<close>

definition wl_add :: "stakingSC \<Rightarrow> bytes \<Rightarrow> bool \<Rightarrow> vmContext \<Rightarrow> vmContext option" where
  "wl_add s k j h = (case run_state (addToWaitingList s k j) h of
     (Inl e, h') \<Rightarrow> None | (Inr u, h') \<Rightarrow> Some h')"

definition wl_remove :: "stakingSC \<Rightarrow> bytes \<Rightarrow> vmContext \<Rightarrow> vmContext option" where
  "wl_remove s k h = (case run_state (removeFromWaitingList s k) h of
     (Inl e, h') \<Rightarrow> None | (Inr u, h') \<Rightarrow> Some h')"

definition wl_rep :: "stakingSC \<Rightarrow> nat \<Rightarrow> vmContext \<Rightarrow> bytes jqueue \<Rightarrow> bool" where
  "wl_rep s L h q \<longleftrightarrow> sc_ok s L \<and> wl_repr s L (stor (eei s) h) (fst q) (snd q)"

interpretation wl: waiting_queue "wl_rep s L" "wl_add s" "wl_remove s" "\<lambda>k. length k = L" "2 ^ 32"
  for s L
proof unfold_locales
  fix h q j and k :: bytes
  assume "wl_rep s L h q" and "length k = L" and "Suc (length (jq_keys q)) < 2 ^ 32"
  then show "\<exists>h'. wl_add s k j h = Some h' \<and> wl_rep s L h' (jq_add k j q)"
    using addToWaitingList_absent [of s L h "fst q" "snd q" k j]
      addToWaitingList_present [of s L h "fst q" "snd q" k j]
    by (cases "k \<in> set (jq_keys q)") (auto simp: wl_rep_def wl_add_def jq_add_def jq_keys_def)
next
  fix h q and k :: bytes
  assume "wl_rep s L h q" and "length k = L"
  then show "\<exists>h'. wl_remove s k h = Some h' \<and> wl_rep s L h' (jq_remove k q)"
    using removeFromWaitingList_run [of s L h "fst q" "snd q" k]
    by (auto simp: wl_rep_def wl_remove_def jq_remove_def)
qed

end
