(* ===== verification/StakingSC.thy ===== *)
theory StakingSC
  imports WaitingList
begin

text \<open>
  The handlers of the staking contract, \<^verbatim>\<open>src/vm/systemSmartContracts/staking.go\<close> and the
  handlers of \<^verbatim>\<open>stakingWaitingList.go\<close>. Each handler is a function of the contract's configuration
  and the call's arguments into the monad of the environment; early returns are the branches of
  nested conditionals, a Go loop with early returns is a recursive function over the list it ranges
  over. Log lines are left out.
\<close>

section \<open>Early returns\<close>

definition retWith :: "string \<Rightarrow> ReturnCode \<Rightarrow> ReturnCode eei" where
  "retWith message code = do { AddReturnMessage message; return code }"

text \<open>The idiom \<^verbatim>\<open>x, err := m(); if err != nil { AddReturnMessage(...); return UserError }\<close>.\<close>

definition orFail :: "'a result eei \<Rightarrow> (vm_error \<Rightarrow> string) \<Rightarrow> ('a \<Rightarrow> ReturnCode eei) \<Rightarrow> ReturnCode eei" where
  "orFail m message f = do {
     r \<leftarrow> m;
     case r of Inl err \<Rightarrow> retWith (message err) UserError | Inr x \<Rightarrow> f x
   }"

abbreviation "callerOf args \<equiv> slice (CallerAddr args)"

abbreviation arg :: "ContractCallInput \<Rightarrow> nat \<Rightarrow> bytes" where
  "arg args i \<equiv> Arguments args ! i"

abbreviation "TransactionValueMustBeZero \<equiv> ''transaction value must be zero''"

definition cannotGet :: "vm_error \<Rightarrow> string" where
  "cannotGet err = ''cannot get or create registered data: error '' @ Error err"

definition cannotSave :: "vm_error \<Rightarrow> string" where
  "cannotSave err = ''cannot save staking data: error '' @ Error err"

section \<open>The node counters\<close>

definition addToStakedNodes :: "stakingSC \<Rightarrow> i64 \<Rightarrow> unit eei" where
  "addToStakedNodes s value = do {
     stakeConfig \<leftarrow> getConfig s;
     setConfig s (stakeConfig\<lparr>StakedNodes := StakedNodes stakeConfig + value\<rparr>)
   }"

definition removeFromStakedNodes :: "stakingSC \<Rightarrow> unit eei" where
  "removeFromStakedNodes s = do {
     stakeConfig \<leftarrow> getConfig s;
     setConfig s (if 0 <s StakedNodes stakeConfig
                  then stakeConfig\<lparr>StakedNodes := StakedNodes stakeConfig - 1\<rparr> else stakeConfig)
   }"

definition removeFromJailedNodes :: "stakingSC \<Rightarrow> unit eei" where
  "removeFromJailedNodes s = do {
     stakeConfig \<leftarrow> getConfig s;
     setConfig s (if 0 <s JailedNodes stakeConfig
                  then stakeConfig\<lparr>JailedNodes := JailedNodes stakeConfig - 1\<rparr> else stakeConfig)
   }"

definition numSpareNodes :: "stakingSC \<Rightarrow> i64 eei" where
  "numSpareNodes s = do {
     stakeConfig \<leftarrow> getConfig s;
     return (StakedNodes stakeConfig - JailedNodes stakeConfig - MinNumNodes stakeConfig)
   }"

definition canStake :: "stakingSC \<Rightarrow> bool eei" where
  "canStake s = (if flag s StakingV4StartedFlag then return True
     else do {
       stakeConfig \<leftarrow> getConfig s;
       return (StakedNodes stakeConfig <s MaxNumNodes stakeConfig)
     })"

definition canStakeIfOneRemoved :: "stakingSC \<Rightarrow> bool eei" where
  "canStakeIfOneRemoved s = do {
     stakeConfig \<leftarrow> getConfig s;
     return (StakedNodes stakeConfig \<le>s MaxNumNodes stakeConfig)
   }"

definition canUnStake :: "stakingSC \<Rightarrow> bool eei" where
  "canUnStake s = do { n \<leftarrow> numSpareNodes s; return (0 <s n) }"

definition canUnBond :: "stakingSC \<Rightarrow> bool eei" where
  "canUnBond s = do { n \<leftarrow> numSpareNodes s; return (0 \<le>s n) }"

section \<open>Staking\<close>

definition isNodeJailedOrWithBadRating :: "stakingSC \<Rightarrow> StakedDataV2_0 \<Rightarrow> bytes \<Rightarrow> bool" where
  "isNodeJailedOrWithBadRating s registrationData blsKey \<longleftrightarrow>
     Jailed registrationData \<or> CanUnJail (eei s) blsKey \<or> IsBadRating (eei s) blsKey"

definition activeStakingFor :: "stakingSC \<Rightarrow> StakedDataV2_0 \<Rightarrow> StakedDataV2_0" where
  "activeStakingFor s stakingData = stakingData\<lparr>RegisterNonce := CurrentNonce (eei s), Staked := True,
     StakedNonce := CurrentNonce (eei s), UnStakedEpoch := DefaultUnstakedEpoch, UnStakedNonce := 0,
     Waiting := False\<rparr>"

definition processStakeV2 :: "stakingSC \<Rightarrow> StakedDataV2_0 \<Rightarrow> StakedDataV2_0 result eei" where
  "processStakeV2 s registrationData =
     (if Staked registrationData then return (Inr registrationData)
      else do {
        let registrationData = registrationData\<lparr>RegisterNonce := CurrentNonce (eei s)\<rparr>;
        addToStakedNodes s 1;
        return (Inr (activeStakingFor s registrationData))
      })"

definition processStakeV1 :: "stakingSC \<Rightarrow> bytes \<Rightarrow> StakedDataV2_0 \<Rightarrow> bool \<Rightarrow> StakedDataV2_0 result eei" where
  "processStakeV1 s blsKey registrationData addFirst =
     (if Staked registrationData then return (Inr registrationData)
      else do {
        let registrationData = registrationData\<lparr>RegisterNonce := CurrentNonce (eei s)\<rparr>;
        can \<leftarrow> canStake s;
        if \<not> can then do {
          AddReturnMessage (''staking is full key put into waiting list '' @ hexEncode blsKey);
          added \<leftarrow> addToWaitingList s blsKey addFirst;
          case added of
            Inl err \<Rightarrow> do {
              AddReturnMessage ''error while adding to waiting'';
              return (Inl err)
            }
          | Inr _ \<Rightarrow> do {
              Finish [char_of (3::nat)];
              return (Inr (registrationData\<lparr>Waiting := True\<rparr>))
            }
        }
        else do {
          removed \<leftarrow> removeFromWaitingList s blsKey;
          case removed of
            Inl err \<Rightarrow> do {
              AddReturnMessage ''error while removing from waiting'';
              return (Inl err)
            }
          | Inr _ \<Rightarrow> do {
              addToStakedNodes s 1;
              return (Inr (activeStakingFor s registrationData))
            }
        }
      })"

definition processStake :: "stakingSC \<Rightarrow> bytes \<Rightarrow> StakedDataV2_0 \<Rightarrow> bool \<Rightarrow> StakedDataV2_0 result eei" where
  "processStake s blsKey registrationData addFirst =
     (if flag s StakingV4StartedFlag then processStakeV2 s registrationData
      else processStakeV1 s blsKey registrationData addFirst)"

definition stake :: "stakingSC \<Rightarrow> ContractCallInput \<Rightarrow> bool \<Rightarrow> ReturnCode eei" where
  "stake s args onlyRegister =
     (if callerOf args \<noteq> stakeAccessAddr s then
        retWith (''stake function not allowed to be called by address '' @ callerOf args) UserError
      else if length (Arguments args) < 3 then
        retWith ''not enough arguments, needed BLS key, reward address and owner address'' UserError
      else orFail (getOrCreateRegisteredData s (arg args 0)) cannotGet (\<lambda>registrationData.
        if isNodeJailedOrWithBadRating s registrationData (arg args 0) then
          retWith ''cannot stake node which is jailed or with bad rating'' UserError
        else do {
          let registrationData = registrationData\<lparr>RewardAddress := arg args 1,
                OwnerAddress := arg args 2, StakeValue := stakeValue s\<rparr>;
          processed \<leftarrow> (if onlyRegister then return (Inr registrationData)
                        else processStake s (arg args 0) registrationData False);
          case processed of
            Inl err \<Rightarrow> return UserError
          | Inr registrationData \<Rightarrow>
              orFail (saveStakingData s (arg args 0) registrationData)
                (\<lambda>err. ''cannot save staking registered data: error '' @ Error err)
                (\<lambda>_. return Ok)
        }))"

section \<open>Jail\<close>

primrec unJailV1Loop :: "stakingSC \<Rightarrow> bytes list \<Rightarrow> ReturnCode eei" where
  "unJailV1Loop s [] = return Ok"
| "unJailV1Loop s (argument # arguments) =
     orFail (getOrCreateRegisteredData s argument)
       (\<lambda>err. ''cannot get or created registered data: error '' @ Error err) (\<lambda>stakedData.
       if length (RewardAddress stakedData) = 0 then
         retWith ''cannot unJail a key that is not registered'' UserError
       else do {
         (if UnJailedNonce stakedData \<le> JailedNonce stakedData
          then removeFromJailedNodes s else return ());
         orFail (saveStakingData s argument (stakedData\<lparr>JailedRound := MaxUint64,
                   UnJailedNonce := CurrentNonce (eei s)\<rparr>)) cannotSave
           (\<lambda>_. unJailV1Loop s arguments)
       })"

definition unJailV1 :: "stakingSC \<Rightarrow> ContractCallInput \<Rightarrow> ReturnCode eei" where
  "unJailV1 s args =
     (if callerOf args \<noteq> stakeAccessAddr s then
        retWith (''unJail function not allowed to be called by address '' @ callerOf args) UserError
      else unJailV1Loop s (Arguments args))"

definition unJail :: "stakingSC \<Rightarrow> ContractCallInput \<Rightarrow> ReturnCode eei" where
  "unJail s args =
     (if \<not> flag s StakeFlag then unJailV1 s args
      else if callerOf args \<noteq> stakeAccessAddr s then
        retWith (''unJail function not allowed to be called by address '' @ callerOf args) UserError
      else if length (Arguments args) \<noteq> 1 then
        retWith ''wrong number of arguments, wanted 1'' UserError
      else orFail (getOrCreateRegisteredData s (arg args 0))
        (\<lambda>err. ''cannot get or created registered data: error '' @ Error err) (\<lambda>stakedData.
        if length (RewardAddress stakedData) = 0 then
          retWith ''cannot unJail a key that is not registered'' UserError
        else if \<not> Jailed stakedData \<and> \<not> CanUnJail (eei s) (arg args 0) then
          retWith ''cannot unJail a node which is not jailed'' UserError
        else do {
          let stakedData = stakedData\<lparr>JailedRound := MaxUint64,
                UnJailedNonce := CurrentNonce (eei s), Jailed := False\<rparr>;
          processed \<leftarrow> processStake s (arg args 0) stakedData (NumJailed stakedData = 1);
          case processed of
            Inl err \<Rightarrow> return UserError
          | Inr stakedData \<Rightarrow>
              orFail (saveStakingData s (arg args 0) stakedData) cannotSave (\<lambda>_. return Ok)
        }))"

primrec jailLoop :: "stakingSC \<Rightarrow> bytes list \<Rightarrow> ReturnCode eei" where
  "jailLoop s [] = return Ok"
| "jailLoop s (argument # arguments) =
     orFail (getOrCreateRegisteredData s argument) cannotGet (\<lambda>stakedData.
       if length (RewardAddress stakedData) = 0 then
         retWith ''cannot jail a key that is not registered'' UserError
       else orFail (saveStakingData s argument (stakedData\<lparr>JailedRound := CurrentRound (eei s),
                      JailedNonce := CurrentNonce (eei s), Jailed := True,
                      NumJailed := NumJailed stakedData + 1\<rparr>)) cannotSave
              (\<lambda>_. jailLoop s arguments))"

definition jail :: "stakingSC \<Rightarrow> ContractCallInput \<Rightarrow> ReturnCode eei" where
  "jail s args = (if callerOf args \<noteq> jailAccessAddr s then return UserError
     else jailLoop s (Arguments args))"

section \<open>Unstaking and unbonding\<close>

definition checkUnStakeArgs :: "stakingSC \<Rightarrow> ContractCallInput \<Rightarrow> (ReturnCode + StakedDataV2_0) eei" where
  "checkUnStakeArgs s args =
     (let failWith = (\<lambda>message. do { AddReturnMessage message; return (Inl UserError) }) in
      if callerOf args \<noteq> stakeAccessAddr s then
        failWith (''unStake function not allowed to be called by address '' @ callerOf args)
      else if length (Arguments args) < 2 then
        failWith ''not enough arguments, needed BLS key and reward address''
      else do {
        r \<leftarrow> getOrCreateRegisteredData s (arg args 0);
        case r of
          Inl err \<Rightarrow> failWith (cannotGet err)
        | Inr registrationData \<Rightarrow>
            if length (RewardAddress registrationData) = 0 then
              failWith ''cannot unStake a key that is not registered''
            else if arg args 1 \<noteq> RewardAddress registrationData then
              failWith ''unStake possible only from staker caller''
            else if isNodeJailedOrWithBadRating s registrationData (arg args 0) then
              failWith ''cannot unStake node which is jailed or with bad rating''
            else if \<not> Staked registrationData \<and> \<not> Waiting registrationData then
              failWith ''cannot unStake node which was already unStaked''
            else return (Inr registrationData)
      })"

definition setUnStaked :: "stakingSC \<Rightarrow> StakedDataV2_0 \<Rightarrow> StakedDataV2_0" where
  "setUnStaked s registrationData = registrationData\<lparr>Staked := False,
     UnStakedEpoch := CurrentEpoch (eei s), UnStakedNonce := CurrentNonce (eei s), Waiting := False\<rparr>"

definition doUnStake :: "stakingSC \<Rightarrow> bytes \<Rightarrow> StakedDataV2_0 \<Rightarrow> ReturnCode eei" where
  "doUnStake s key registrationData =
     orFail (saveStakingData s key (setUnStaked s registrationData)) cannotSave (\<lambda>_. return Ok)"

definition tryUnStake :: "stakingSC \<Rightarrow> bytes \<Rightarrow> StakedDataV2_0 \<Rightarrow> ReturnCode eei" where
  "tryUnStake s key registrationData = do {
     can \<leftarrow> canUnStake s;
     if \<not> can then retWith ''unStake is not possible as too many left'' UserError
     else do {
       removeFromStakedNodes s;
       doUnStake s key registrationData
     }
   }"

definition moveFirstFromWaitingToStaked :: "stakingSC \<Rightarrow> bool result eei" where
  "moveFirstFromWaitingToStaked s =
     tryE (getWaitingListHead s) (\<lambda>waitingList.
       if Length waitingList = 0 then return (Inr False)
       else tryE (getWaitingListElement s (FirstKey waitingList)) (\<lambda>elementInList.
         tryE (removeFromWaitingList s (BLSPublicKey elementInList)) (\<lambda>_.
         tryE (getOrCreateRegisteredData s (BLSPublicKey elementInList)) (\<lambda>nodeData.
           if length (RewardAddress nodeData) = 0 \<or> Staked nodeData then
             return (Inl ErrInvalidWaitingList)
           else do {
             let nodeData = nodeData\<lparr>Waiting := False, Staked := True,
                   RegisterNonce := CurrentNonce (eei s), StakedNonce := CurrentNonce (eei s),
                   UnStakedNonce := 0, UnStakedEpoch := DefaultUnstakedEpoch\<rparr>;
             addToStakedNodes s 1;
             tryE (saveStakingData s (BLSPublicKey elementInList) nodeData)
               (\<lambda>_. return (Inr True))
           }))))"

definition moveFirstFromWaitingToStakedIfNeeded :: "stakingSC \<Rightarrow> bytes \<Rightarrow> bool result eei" where
  "moveFirstFromWaitingToStakedIfNeeded s blsKey = do {
     r \<leftarrow> getWaitingListElement s (createWaitingListKey blsKey);
     case r of
       Inr _ \<Rightarrow> tryE (removeFromWaitingList s blsKey) (\<lambda>_. return (Inr False))
     | Inl err \<Rightarrow> moveFirstFromWaitingToStaked s
   }"

definition unStakeV1 :: "stakingSC \<Rightarrow> ContractCallInput \<Rightarrow> ReturnCode eei" where
  "unStakeV1 s args = do {
     checked \<leftarrow> checkUnStakeArgs s args;
     case checked of
       Inl retCode \<Rightarrow> return retCode
     | Inr registrationData \<Rightarrow>
         if \<not> Staked registrationData then
           orFail (removeFromWaitingList s (arg args 0)) Error (\<lambda>_.
             orFail (saveStakingData s (arg args 0) (registrationData\<lparr>Waiting := False\<rparr>)) cannotSave
               (\<lambda>_. return Ok))
         else do {
           addOneFromQueue \<leftarrow> (if \<not> flag s CorrectLastUnJailedFlag then return True
                               else canStakeIfOneRemoved s);
           orFail (if addOneFromQueue then moveFirstFromWaitingToStaked s else return (Inr False))
             Error (\<lambda>_. tryUnStake s (arg args 0) registrationData)
         }
   }"

definition unStakeV2 :: "stakingSC \<Rightarrow> ContractCallInput \<Rightarrow> ReturnCode eei" where
  "unStakeV2 s args = do {
     checked \<leftarrow> checkUnStakeArgs s args;
     case checked of
       Inl retCode \<Rightarrow> return retCode
     | Inr registrationData \<Rightarrow>
         if \<not> Staked registrationData then retWith (Error ErrWaitingListDisabled) ExecutionFailed
         else tryUnStake s (arg args 0) registrationData
   }"

definition unStake :: "stakingSC \<Rightarrow> ContractCallInput \<Rightarrow> ReturnCode eei" where
  "unStake s args = (if flag s StakingV4StartedFlag then unStakeV2 s args else unStakeV1 s args)"

definition unStakeAtEndOfEpoch :: "stakingSC \<Rightarrow> ContractCallInput \<Rightarrow> ReturnCode eei" where
  "unStakeAtEndOfEpoch s args =
     (if callerOf args \<noteq> endOfEpochAccessAddr s then return UserError
      else if length (Arguments args) \<noteq> 1 then
        retWith ''not enough arguments, needed the BLS key'' UserError
      else orFail (getOrCreateRegisteredData s (arg args 0)) cannotGet (\<lambda>registrationData.
        if length (RewardAddress registrationData) = 0 then
          retWith ''cannot unStake a key that is not registered'' UserError
        else if Jailed registrationData \<and> \<not> Staked registrationData then
          retWith ''already unStaked at switchJailedToWaiting'' Ok
        else if \<not> Staked registrationData \<and> \<not> Waiting registrationData then return Ok
        else do {
          (if Staked registrationData then removeFromStakedNodes s else return ());
          orFail (if Waiting registrationData then removeFromWaitingList s (arg args 0)
                  else return (Inr ())) Error
            (\<lambda>_. orFail (saveStakingData s (arg args 0) (setUnStaked s registrationData)) cannotSave
              (\<lambda>_. return Ok))
        }))"

definition unBond :: "stakingSC \<Rightarrow> ContractCallInput \<Rightarrow> ReturnCode eei" where
  "unBond s args =
     (if callerOf args \<noteq> stakeAccessAddr s then
        retWith (''unBond function not allowed to be called by address '' @ callerOf args) UserError
      else if length (Arguments args) < 1 then
        retWith ''not enough arguments, needed BLS key'' UserError
      else orFail (getOrCreateRegisteredData s (arg args 0)) cannotGet (\<lambda>registrationData.
        let encodedBlsKey = hexEncode (arg args 0);
            currentNonce = CurrentNonce (eei s) in
        if length (RewardAddress registrationData) = 0 then
          retWith (''cannot unBond key '' @ encodedBlsKey @ '' that is not registered'') UserError
        else if Staked registrationData then
          retWith (''unBond is not possible for key '' @ encodedBlsKey @ '' which is staked'') UserError
        else if isNodeJailedOrWithBadRating s registrationData (arg args 0) then
          retWith (''cannot unBond node which is jailed or with bad rating '' @ encodedBlsKey) UserError
        else if Waiting registrationData then
          retWith (''unBond in not possible for key '' @ encodedBlsKey @ '' which is in waiting list'') UserError
        else if 0 < UnStakedNonce registrationData \<and>
                currentNonce - UnStakedNonce registrationData < unBondPeriod s then
          retWith (''unBond is not possible for key '' @ encodedBlsKey @
            '' because unBond period did not pass'') UserError
        else do {
          can \<leftarrow> canUnBond s;
          if \<not> can then
            retWith ''unBond is currently unavailable: number of total validators in the network is at minimum'' UserError
          else if IsValidator (eei s) (arg args 0) then
            retWith (''unBond is not possible: the node with key '' @ encodedBlsKey @ '' is still a validator'') UserError
          else do {
            SetStorage (arg args 0) [];
            return Ok
          }
        }))"

definition slash :: "stakingSC \<Rightarrow> ContractCallInput \<Rightarrow> ReturnCode eei" where
  "slash s args = retWith ''slash function called by not the owners address'' UserError"

section \<open>Jailing by rating\<close>

definition removeAndSetUnstaked :: "stakingSC \<Rightarrow> StakedDataV2_0 \<Rightarrow> StakedDataV2_0 eei" where
  "removeAndSetUnstaked s registrationData = do {
     removeFromStakedNodes s;
     return (registrationData\<lparr>Staked := False, UnStakedEpoch := CurrentEpoch (eei s),
       UnStakedNonce := CurrentNonce (eei s), StakedNonce := MaxUint64\<rparr>)
   }"

definition tryRemoveJailedNodeFromStaked :: "stakingSC \<Rightarrow> StakedDataV2_0 \<Rightarrow> StakedDataV2_0 eei" where
  "tryRemoveJailedNodeFromStaked s registrationData =
     (if \<not> flag s CorrectJailedNotUnStakedEmptyQueueFlag then removeAndSetUnstaked s registrationData
      else do {
        can \<leftarrow> canUnStake s;
        if can then removeAndSetUnstaked s registrationData
        else do {
          AddReturnMessage ''did not switch as not enough validators remaining'';
          return registrationData
        }
      })"

abbreviation waitingListDisabled :: "stakingSC \<Rightarrow> bool" where
  "waitingListDisabled s \<equiv> flag s StakingV4StartedFlag \<and> \<not> flag s StakingV4Step1Flag"

definition switchJailedWithWaiting :: "stakingSC \<Rightarrow> ContractCallInput \<Rightarrow> ReturnCode eei" where
  "switchJailedWithWaiting s args =
     (if waitingListDisabled s then retWith (Error ErrWaitingListDisabled) UserError
      else if callerOf args \<noteq> endOfEpochAccessAddr s then
        retWith (''switchJailedWithWaiting function not allowed to be called by address '' @ callerOf args) UserError
      else if length (Arguments args) \<noteq> 1 then return UserError
      else orFail (getOrCreateRegisteredData s (arg args 0)) Error (\<lambda>registrationData.
        if length (RewardAddress registrationData) = 0 then
          retWith ''no need to jail as not a validator'' UserError
        else if \<not> Staked registrationData then
          retWith ''no need to jail as not a validator'' UserError
        else if Jailed registrationData then retWith (Error ErrBLSPublicKeyAlreadyJailed) UserError
        else orFail (moveFirstFromWaitingToStakedIfNeeded s (arg args 0)) Error (\<lambda>switched. do {
          let registrationData = registrationData\<lparr>NumJailed := NumJailed registrationData + 1,
                Jailed := True, JailedNonce := CurrentNonce (eei s)\<rparr>;
          registrationData \<leftarrow>
            (if \<not> switched \<and> \<not> flag s CorrectJailedNotUnStakedEmptyQueueFlag then do {
               AddReturnMessage ''did not switch as nobody in waiting, but jailed'';
               return registrationData
             }
             else tryRemoveJailedNodeFromStaked s registrationData);
          orFail (saveStakingData s (arg args 0) registrationData) cannotSave (\<lambda>_. return Ok)
        })))"

section \<open>The queue at the end of an epoch\<close>

text \<open>
  \<^verbatim>\<open>checkValidatorFunds\<close> keeps what it found of an owner in a map that the caller passes in and
  updates: the number of nodes that the owner has too many. The prices are positive; with a price of
  zero the division of the code panics.
\<close>

type_synonym checkedOwners = "bytes \<rightharpoonup> u32"

primrec countNodesWithMinStake :: "stakingSC \<Rightarrow> bytes list \<Rightarrow> i64 \<Rightarrow> i64 result eei" where
  "countNodesWithMinStake s [] n = return (Inr n)"
| "countNodesWithMinStake s (blsKey # keys) n =
     tryE (getOrCreateRegisteredData s blsKey) (\<lambda>stakedData.
       countNodesWithMinStake s keys
         (if Staked stakedData \<or> Waiting stakedData \<or> Jailed stakedData then n + 1 else n))"

definition checkValidatorFunds ::
  "stakingSC \<Rightarrow> checkedOwners \<Rightarrow> bytes \<Rightarrow> int \<Rightarrow> (u32 \<times> checkedOwners) result eei" where
  "checkValidatorFunds s mapCheckedOwners owner nodePrice =
     (case mapCheckedOwners owner of
        Some numNodesToUnstake \<Rightarrow> return (Inr (numNodesToUnstake, mapCheckedOwners))
      | None \<Rightarrow> do {
          let found = (\<lambda>n. (n, mapCheckedOwners(owner \<mapsto> n)));
          marshaledData \<leftarrow> GetStorageFromAddress (eei s) (stakeAccessAddr s) owner;
          if length (slice marshaledData) = 0 then return (Inr (found (- 1)))
          else tryE (return (unmarshalValidatorData (marshalizer s) (slice marshaledData)))
            (\<lambda>validatorData.
              let numRegisteredKeys = (of_nat (length (BlsPubKeys validatorData)) :: i64);
                  numQualified = (word_of_int (TotalStakeValue validatorData div nodePrice) :: i64) in
              if numRegisteredKeys \<le>s numQualified then return (Inr (found 0))
              else tryE (countNodesWithMinStake s (BlsPubKeys validatorData) 0) (\<lambda>n.
                return (Inr (found (if numQualified <s n then ucast (n - numQualified) else 0)))))
        })"

text \<open>The owners of the unstaked nodes in the order in which they are met, and the nodes of each.\<close>

type_synonym ownersAndKeys = "bytes list \<times> (bytes \<rightharpoonup> bytes list)"

definition addOwnerKey :: "bytes \<Rightarrow> bytes \<Rightarrow> ownersAndKeys \<Rightarrow> ownersAndKeys" where
  "addOwnerKey owner blsKey acc =
     (case snd acc owner of
        None \<Rightarrow> (fst acc @ [owner], (snd acc)(owner \<mapsto> [blsKey]))
      | Some keys \<Rightarrow> (fst acc, (snd acc)(owner \<mapsto> keys @ [blsKey])))"

text \<open>The loop of \<^verbatim>\<open>cleanAdditionalQueueNotEnoughFunds\<close>; its list is the waiting list from the
  back.\<close>

primrec cleanQueueLoop ::
  "stakingSC \<Rightarrow> (bytes \<times> StakedDataV2_0) list \<Rightarrow> checkedOwners \<Rightarrow> ownersAndKeys \<Rightarrow> ownersAndKeys result eei" where
  "cleanQueueLoop s [] mapCheckedOwners acc = return (Inr acc)"
| "cleanQueueLoop s (node # nodes) mapCheckedOwners acc =
     (let blsKey = fst node; owner = OwnerAddress (snd node) in
      tryE (checkValidatorFunds s mapCheckedOwners owner (stakeValue s)) (\<lambda>(n, mapCheckedOwners).
        if n = 0 then cleanQueueLoop s nodes mapCheckedOwners acc
        else tryE (removeFromWaitingList s blsKey) (\<lambda>_.
          tryE (getOrCreateRegisteredData s blsKey) (\<lambda>registrationData.
          tryE (saveStakingData s blsKey (setUnStaked s registrationData)) (\<lambda>_.
            cleanQueueLoop s nodes (mapCheckedOwners(owner \<mapsto> n - 1)) (addOwnerKey owner blsKey acc))))))"

definition cleanAdditionalQueueNotEnoughFunds ::
  "stakingSC \<Rightarrow> waitingListReturnData \<Rightarrow> ownersAndKeys result eei" where
  "cleanAdditionalQueueNotEnoughFunds s waitingListData =
     cleanQueueLoop s (rev (zip (blsKeys waitingListData) (stakedDataList waitingListData)))
       Map.empty ([], Map.empty)"

definition MaxUint32 :: u32 where
  "MaxUint32 = 4294967295"

definition cleanAdditionalQueue :: "stakingSC \<Rightarrow> ContractCallInput \<Rightarrow> ReturnCode eei" where
  "cleanAdditionalQueue s args =
     (if \<not> flag s CorrectLastUnJailedFlag then retWith ''invalid method to call'' UserError
      else if waitingListDisabled s then retWith (Error ErrWaitingListDisabled) UserError
      else if callerOf args \<noteq> endOfEpochAccessAddr s then
        retWith ''stake nodes from waiting list can be called by endOfEpochAccess address only'' UserError
      else if length (Arguments args) \<noteq> 0 then retWith ''number of arguments must be 0'' UserError
      else orFail (getFirstElementsFromWaitingList s MaxUint32) Error (\<lambda>waitingListData.
        if length (blsKeys waitingListData) = 0 then retWith ''no nodes in queue'' Ok
        else orFail (cleanAdditionalQueueNotEnoughFunds s waitingListData) Error
          (\<lambda>(listOfOwners, mapOwnersAndBLSKeys). do {
            forEach listOfOwners (\<lambda>owner. do {
              Finish owner;
              forEach (case mapOwnersAndBLSKeys owner of None \<Rightarrow> [] | Some keys \<Rightarrow> keys) Finish
            });
            return Ok
          })))"

primrec stakeFromQueueLoop ::
  "stakingSC \<Rightarrow> u64 \<Rightarrow> int \<Rightarrow> (bytes \<times> StakedDataV2_0) list \<Rightarrow> u64 \<Rightarrow> checkedOwners \<Rightarrow> u64 result eei" where
  "stakeFromQueueLoop s numNodesToStake nodePrice [] stakedNodes mapCheckedOwners =
     return (Inr stakedNodes)"
| "stakeFromQueueLoop s numNodesToStake nodePrice (node # nodes) stakedNodes mapCheckedOwners =
     (let blsKey = fst node; stakedData = snd node in
      if numNodesToStake \<le> stakedNodes then return (Inr stakedNodes)
      else tryE (checkValidatorFunds s mapCheckedOwners (OwnerAddress stakedData) nodePrice)
        (\<lambda>(n, mapCheckedOwners).
          if 0 < n then stakeFromQueueLoop s numNodesToStake nodePrice nodes stakedNodes mapCheckedOwners
          else tryE (saveStakingData s blsKey (activeStakingFor s stakedData)) (\<lambda>_.
            tryE (removeFromWaitingList s blsKey) (\<lambda>_. do {
              Finish blsKey;
              Finish (RewardAddress stakedData);
              stakeFromQueueLoop s numNodesToStake nodePrice nodes (stakedNodes + 1) mapCheckedOwners
            }))))"

definition stakeNodesFromQueue :: "stakingSC \<Rightarrow> ContractCallInput \<Rightarrow> ReturnCode eei" where
  "stakeNodesFromQueue s args =
     (if \<not> flag s StakingV2Flag then retWith ''invalid method to call'' UserError
      else if waitingListDisabled s then retWith (Error ErrWaitingListDisabled) UserError
      else if callerOf args \<noteq> endOfEpochAccessAddr s then
        retWith ''stake nodes from waiting list can be called by endOfEpochAccess address only'' UserError
      else if length (Arguments args) \<noteq> 1 then
        retWith ''number of arguments must be equal to 1'' UserError
      else
        let numNodesToStake = bigUint64 (setBytes (arg args 0)) in
        orFail (getFirstElementsFromWaitingList s MaxUint32) Error (\<lambda>waitingListData.
          if length (blsKeys waitingListData) = 0 then retWith ''no nodes in queue'' Ok
          else
            let nodePriceToUse = (if flag s CorrectLastUnJailedFlag then stakeValue s
                                  else minNodePrice s) in
            orFail (stakeFromQueueLoop s numNodesToStake nodePriceToUse
                      (zip (blsKeys waitingListData) (stakedDataList waitingListData)) 0 Map.empty)
              Error (\<lambda>stakedNodes. do { addToStakedNodes s stakedNodes; return Ok })))"

definition unStakeCall :: "bytes list \<Rightarrow> string" where
  "unStakeCall keys = ''unStakeAtEndOfEpoch'' @ concat (map (\<lambda>key. ''@'' @ hexEncode key) keys)"

definition executeOnStakeAtEndOfEpoch ::
  "stakingSC \<Rightarrow> scContainer option \<Rightarrow> bytes \<Rightarrow> bytes list \<Rightarrow> bytes \<Rightarrow> ReturnCode eei" where
  "executeOnStakeAtEndOfEpoch s container destinationAddress listOfKeys senderAddress =
     orFail (ExecuteOnDestContext (eei s) container destinationAddress senderAddress 0
               (unStakeCall listOfKeys)) Error
       (\<lambda>vmOutput. return (VMReturnCode vmOutput))"

primrec unStakeAllLoop ::
  "stakingSC \<Rightarrow> (bytes \<times> StakedDataV2_0) list \<Rightarrow> ownersAndKeys \<Rightarrow> (ReturnCode + ownersAndKeys) eei" where
  "unStakeAllLoop s [] acc = return (Inr acc)"
| "unStakeAllLoop s (node # nodes) acc = do {
     result \<leftarrow> doUnStake s (fst node) (snd node);
     if result \<noteq> Ok then return (Inl result)
     else do {
       SetStorage (createWaitingListKey (fst node)) [];
       unStakeAllLoop s nodes (addOwnerKey (OwnerAddress (snd node)) (fst node) acc)
     }
   }"

primrec notifyOwnersLoop ::
  "stakingSC \<Rightarrow> scContainer option \<Rightarrow> bytes \<Rightarrow> (bytes \<rightharpoonup> bytes list) \<Rightarrow> bytes list \<Rightarrow> ReturnCode eei" where
  "notifyOwnersLoop s container sender mapOwnerKeys [] = return Ok"
| "notifyOwnersLoop s container sender mapOwnerKeys (owner # owners) =
     (if GetShardOfAddress (eei s) owner \<noteq> MetachainShardId (eei s)
      then notifyOwnersLoop s container sender mapOwnerKeys owners
      else do {
        returnCode \<leftarrow> executeOnStakeAtEndOfEpoch s container owner
          (case mapOwnerKeys owner of None \<Rightarrow> [] | Some keys \<Rightarrow> keys) sender;
        if returnCode \<noteq> Ok then return returnCode
        else notifyOwnersLoop s container sender mapOwnerKeys owners
      })"

definition unStakeAllNodesFromQueue ::
  "stakingSC \<Rightarrow> scContainer option \<Rightarrow> ContractCallInput \<Rightarrow> ReturnCode eei" where
  "unStakeAllNodesFromQueue s container args =
     (if \<not> flag s StakingV4Step1Flag then retWith ''invalid method to call'' UserError
      else if callerOf args \<noteq> endOfEpochAccessAddr s then
        retWith ''stake nodes from waiting list can be called by endOfEpochAccess address only'' UserError
      else if length (Arguments args) \<noteq> 0 then
        retWith ''number of arguments must be equal to 0'' UserError
      else orFail (getFirstElementsFromWaitingList s MaxUint32) Error (\<lambda>waitingListData.
        if length (blsKeys waitingListData) = 0 then return Ok
        else do {
          r \<leftarrow> unStakeAllLoop s (zip (blsKeys waitingListData) (stakedDataList waitingListData))
                 ([], Map.empty);
          case r of
            Inl result \<Rightarrow> return result
          | Inr (orderedListOwners, mapOwnerKeys) \<Rightarrow> do {
              SetStorage waitingListHeadKey [];
              notifyOwnersLoop s container (slice (RecipientAddr args)) mapOwnerKeys orderedListOwners
            }
        }))"

definition resetLastUnJailedFromQueue :: "stakingSC \<Rightarrow> ContractCallInput \<Rightarrow> ReturnCode eei" where
  "resetLastUnJailedFromQueue s args =
     (if \<not> flag s CorrectLastUnJailedFlag then return UserError
      else if waitingListDisabled s then retWith (Error ErrWaitingListDisabled) UserError
      else if callerOf args \<noteq> endOfEpochAccessAddr s then
        retWith ''stake nodes from waiting list can be called by endOfEpochAccess address only'' UserError
      else if length (Arguments args) \<noteq> 0 then
        retWith ''number of arguments must be equal to 0'' UserError
      else orFail (getWaitingListHead s) Error (\<lambda>waitingList.
        if length (LastJailedKey waitingList) = 0 then return Ok
        else orFail (saveWaitingListHead s (waitingList\<lparr>LastJailedKey := []\<rparr>)) Error (\<lambda>_. return Ok)))"

text \<open>The loop of \<^verbatim>\<open>fixWaitingListQueueSize\<close>: the first argument is the number of iterations that
  \<^verbatim>\<open>index <= waitingListHead.Length\<close> still allows; the result is the final \<^verbatim>\<open>index\<close>, \<^verbatim>\<open>nextKey\<close> and
  \<^verbatim>\<open>foundLastJailedKey\<close>.\<close>

fun fixQueueLoop ::
  "stakingSC \<Rightarrow> WaitingList \<Rightarrow> nat \<Rightarrow> u32 \<Rightarrow> bytes \<Rightarrow> bool \<Rightarrow> (u32 \<times> bytes \<times> bool) result eei" where
  "fixQueueLoop s waitingListHead 0 index nextKey found = return (Inr (index, nextKey, found))"
| "fixQueueLoop s waitingListHead (Suc n) index nextKey found =
     (if length nextKey = 0 then return (Inr (index, nextKey, found))
      else tryE (getWaitingListElement s nextKey) (\<lambda>element.
        let found = (found \<or> LastJailedKey waitingListHead = nextKey) in
        tryE (getOrCreateRegisteredData s (BLSPublicKey element)) (\<lambda>_.
          if length (NextKey element) = 0 then return (Inr (index, nextKey, found))
          else fixQueueLoop s waitingListHead n (index + 1) (goCopy nextKey (NextKey element)) found)))"

definition fixWaitingListQueueSize :: "stakingSC \<Rightarrow> ContractCallInput \<Rightarrow> ReturnCode eei" where
  "fixWaitingListQueueSize s args =
     (if \<not> flag s CorrectFirstQueuedFlag then retWith ''invalid method to call'' UserError
      else if flag s StakingV4StartedFlag then retWith (Error ErrWaitingListDisabled) UserError
      else if callValue args \<noteq> 0 then retWith TransactionValueMustBeZero UserError
      else do {
        gas \<leftarrow> UseGas (gasCostFixWaitingListSize s);
        case gas of
          Inl err \<Rightarrow> retWith ''insufficient gas'' OutOfGas
        | Inr _ \<Rightarrow> orFail (getWaitingListHead s) Error (\<lambda>waitingListHead.
            if Length waitingListHead \<le> 1 then return Ok
            else orFail (fixQueueLoop s waitingListHead (unat (Length waitingListHead)) 1
                   (goCopy (makeBytes (length (FirstKey waitingListHead))) (FirstKey waitingListHead))
                   (length (LastJailedKey waitingListHead) = 0)) Error
              (\<lambda>(index, nextKey, foundLastJailedKey).
                let waitingListHead = waitingListHead\<lparr>Length := index, LastKey := nextKey\<rparr>;
                    waitingListHead = (if foundLastJailedKey then waitingListHead
                                       else waitingListHead\<lparr>LastJailedKey := []\<rparr>)
                in orFail (saveWaitingListHead s waitingListHead) Error (\<lambda>_. return Ok)))
      })"

definition addMissingNodeToQueue :: "stakingSC \<Rightarrow> ContractCallInput \<Rightarrow> ReturnCode eei" where
  "addMissingNodeToQueue s args =
     (if \<not> flag s CorrectFirstQueuedFlag then retWith ''invalid method to call'' UserError
      else if flag s StakingV4StartedFlag then retWith (Error ErrWaitingListDisabled) UserError
      else if callValue args \<noteq> 0 then retWith TransactionValueMustBeZero UserError
      else do {
        gas \<leftarrow> UseGas (gasCostFixWaitingListSize s);
        case gas of
          Inl err \<Rightarrow> retWith ''insufficient gas'' OutOfGas
        | Inr _ \<Rightarrow>
            if length (Arguments args) \<noteq> 1 then retWith ''invalid number of arguments'' UserError
            else orFail (getWaitingListElement s (createWaitingListKey (arg args 0))) Error (\<lambda>_.
              orFail (getFirstElementsFromWaitingList s MaxUint32) Error (\<lambda>waitingListData.
                if arg args 0 \<in> set (blsKeys waitingListData) then
                  retWith ''key is in queue, not missing'' UserError
                else orFail (getWaitingListHead s) Error (\<lambda>waitingList.
                  let waitingList = waitingList\<lparr>Length := Length waitingList + 1\<rparr> in
                  if Length waitingList = 1 then
                    orFail (startWaitingList s waitingList False (arg args 0)) Error (\<lambda>_. return Ok)
                  else
                    orFail (addToEndOfTheList s waitingList (arg args 0)) Error (\<lambda>_. return Ok))))
      })"

section \<open>Rewards, owners and configuration\<close>

definition changeValidatorKey :: "stakingSC \<Rightarrow> ContractCallInput \<Rightarrow> ReturnCode eei" where
  "changeValidatorKey s args =
     (if callerOf args \<noteq> stakeAccessAddr s then
        retWith (''changeValidatorKey function not allowed to be called by address '' @ callerOf args) UserError
      else retWith ''function is deprecated'' UserError)"

primrec changeRewardAddressLoop :: "stakingSC \<Rightarrow> bytes \<Rightarrow> bytes list \<Rightarrow> ReturnCode eei" where
  "changeRewardAddressLoop s newRewardAddress [] = return Ok"
| "changeRewardAddressLoop s newRewardAddress (blsKey # keys) =
     orFail (getOrCreateRegisteredData s blsKey) cannotGet (\<lambda>stakedData.
       if length (RewardAddress stakedData) = 0 then changeRewardAddressLoop s newRewardAddress keys
       else orFail (saveStakingData s blsKey (stakedData\<lparr>RewardAddress := newRewardAddress\<rparr>)) cannotSave
         (\<lambda>_. changeRewardAddressLoop s newRewardAddress keys))"

definition changeRewardAddress :: "stakingSC \<Rightarrow> ContractCallInput \<Rightarrow> ReturnCode eei" where
  "changeRewardAddress s args =
     (if callerOf args \<noteq> stakeAccessAddr s then
        retWith (''stake function not allowed to be called by address '' @ callerOf args) UserError
      else if length (Arguments args) < 2 then
        retWith (''invalid number of arguments: expected min 2, got '' @
          itoa (int (length (Arguments args)))) UserError
      else if length (arg args 0) \<noteq> walletAddressLen s then retWith ''invalid reward address'' UserError
      else changeRewardAddressLoop s (arg args 0) (tl (Arguments args)))"

definition getSC :: "stakingSC \<Rightarrow> ContractCallInput \<Rightarrow> ReturnCode eei" where
  "getSC s args =
     (if flag s StakingV2Flag then retWith ''function deprecated'' UserError
      else if length (Arguments args) < 1 then
        retWith ''invalid number of arguments: expected min 1, got 0'' UserError
      else do {
        value \<leftarrow> GetStorage (eei s) (arg args 0);
        Finish (slice value);
        return Ok
      })"

definition initSC :: "stakingSC \<Rightarrow> ContractCallInput \<Rightarrow> ReturnCode eei" where
  "initSC s args = do {
     ownerAddress \<leftarrow> GetStorage (eei s) ownerKey;
     if ownerAddress \<noteq> None then retWith ''smart contract was already initialized'' UserError
     else do {
       SetStorage ownerKey (callerOf args);
       SetStorage (callerOf args) (bigBytes 0);
       setConfig s \<lparr>MinNumNodes = minNumNodes s, MaxNumNodes = maxNumNodes s,
                    StakedNodes = 0, JailedNodes = 0\<rparr>;
       SetStorage (''epoch_'' @ itoa (uint (CurrentEpoch (eei s)))) (bigBytes (stakeValue s));
       return Ok
     }
   }"

definition updateConfigMinNodes :: "stakingSC \<Rightarrow> ContractCallInput \<Rightarrow> ReturnCode eei" where
  "updateConfigMinNodes s args =
     (if callerOf args \<noteq> endOfEpochAccessAddr s then
        retWith (''updateConfigMinNodes function not allowed to be called by address '' @ callerOf args) UserError
      else do {
        stakeConfig \<leftarrow> getConfig s;
        if length (Arguments args) \<noteq> 1 then retWith ''number of arguments must be 1'' UserError
        else
          let newMinNodes = bigUint64 (setBytes (arg args 0)) in
          if newMinNodes \<le>s 0 then
            retWith ''new minimum number of nodes zero or negative'' UserError
          else if maxNumNodes s <s newMinNodes then
            retWith ''new minimum number of nodes greater than maximum number of nodes'' UserError
          else do {
            setConfig s (stakeConfig\<lparr>MinNumNodes := newMinNodes\<rparr>);
            return Ok
          }
      })"

definition updateConfigMaxNodes :: "stakingSC \<Rightarrow> ContractCallInput \<Rightarrow> ReturnCode eei" where
  "updateConfigMaxNodes s args =
     (if \<not> flag s StakingV2Flag then retWith ''invalid method to call'' UserError
      else if callerOf args \<noteq> endOfEpochAccessAddr s then
        retWith (''updateConfigMaxNodes function not allowed to be called by address '' @ callerOf args) UserError
      else do {
        stakeConfig \<leftarrow> getConfig s;
        if length (Arguments args) \<noteq> 1 then retWith ''number of arguments must be 1'' UserError
        else
          let newMaxNodes = bigUint64 (setBytes (arg args 0)) in
          if newMaxNodes \<le>s 0 then retWith ''new max number of nodes zero or negative'' UserError
          else if newMaxNodes <s minNumNodes s then
            retWith ''new max number of nodes less than min number of nodes'' UserError
          else do {
            Finish (bigBytes (sint (MaxNumNodes stakeConfig)));
            setConfig s (stakeConfig\<lparr>MaxNumNodes := newMaxNodes\<rparr>);
            return Ok
          }
      })"

text \<open>The loop of \<^verbatim>\<open>setOwnersOnAddresses\<close> over pairs of a BLS key and an owner, from index \<^verbatim>\<open>i\<close>;
  the number of arguments is even.\<close>

fun setOwnersLoop :: "stakingSC \<Rightarrow> nat \<Rightarrow> bytes list \<Rightarrow> ReturnCode eei" where
  "setOwnersLoop s i (blsKey # owner # arguments) =
     (let stopped = ''process stopped at index '' @ itoa (int i) @ '', bls key '' @ hexEncode blsKey;
          failWith = (\<lambda>err. do { AddReturnMessage (Error err); retWith stopped UserError }) in do {
        r \<leftarrow> getOrCreateRegisteredData s blsKey;
        case r of
          Inl err \<Rightarrow> failWith err
        | Inr stakedData \<Rightarrow>
            if length (RewardAddress stakedData) = 0 then setOwnersLoop s (i + 2) arguments
            else do {
              saved \<leftarrow> saveStakingData s blsKey (stakedData\<lparr>OwnerAddress := owner\<rparr>);
              case saved of
                Inl err \<Rightarrow> failWith err
              | Inr _ \<Rightarrow> setOwnersLoop s (i + 2) arguments
            }
      })"
| "setOwnersLoop s i arguments = return Ok"

definition setOwnersOnAddresses :: "stakingSC \<Rightarrow> ContractCallInput \<Rightarrow> ReturnCode eei" where
  "setOwnersOnAddresses s args =
     (if \<not> flag s StakingV2Flag then retWith ''invalid method to call'' UserError
      else if callerOf args \<noteq> endOfEpochAccessAddr s then
        retWith (''setOwnersOnAddresses function not allowed to be called by address '' @ callerOf args) UserError
      else if length (Arguments args) mod 2 \<noteq> 0 then
        retWith ''invalid number of arguments: expected an even number of arguments'' UserError
      else setOwnersLoop s 0 (Arguments args))"

primrec changeOwnerLoop :: "stakingSC \<Rightarrow> bytes \<Rightarrow> bytes list \<Rightarrow> ReturnCode eei" where
  "changeOwnerLoop s newOwnerAddress [] = return Ok"
| "changeOwnerLoop s newOwnerAddress (blsKey # keys) =
     orFail (getOrCreateRegisteredData s blsKey) Error (\<lambda>registrationData.
       if length (RewardAddress registrationData) = 0 then
         retWith ''cannot change owner and reward address for a key which is not registered'' UserError
       else if Jailed registrationData \<or> CanUnJail (eei s) blsKey then
         retWith ''can not migrate nodes while jailed nodes exists'' UserError
       else orFail (saveStakingData s blsKey (registrationData\<lparr>OwnerAddress := newOwnerAddress,
                      RewardAddress := newOwnerAddress\<rparr>)) Error
         (\<lambda>_. changeOwnerLoop s newOwnerAddress keys))"

definition changeOwnerAndRewardAddress :: "stakingSC \<Rightarrow> ContractCallInput \<Rightarrow> ReturnCode eei" where
  "changeOwnerAndRewardAddress s args =
     (if \<not> flag s ValidatorToDelegationFlag then return UserError
      else if callerOf args \<noteq> stakeAccessAddr s then
        retWith ''change owner and reward address can be called by validator SC only'' UserError
      else if callValue args \<noteq> 0 then retWith ''callValue must be 0'' UserError
      else if length (Arguments args) < 2 then retWith ''number of arguments is 2 at minimum'' UserError
      else if \<not> IsSmartContractAddress (eei s) (arg args 0) then
        retWith ''new address must be a smart contract address'' UserError
      else changeOwnerLoop s (arg args 0) (tl (Arguments args)))"

section \<open>Views\<close>

definition isStaked :: "stakingSC \<Rightarrow> ContractCallInput \<Rightarrow> ReturnCode eei" where
  "isStaked s args =
     (if length (Arguments args) < 1 then
        retWith ''invalid number of arguments: expected min 1, got 0'' UserError
      else if callValue args \<noteq> 0 then retWith TransactionValueMustBeZero UserError
      else orFail (getOrCreateRegisteredData s (arg args 0)) cannotGet (\<lambda>registrationData.
        if length (RewardAddress registrationData) = 0 then retWith ''key is not registered'' UserError
        else if Staked registrationData then return Ok
        else retWith ''account not staked'' UserError))"

definition getStakedDataIfExists ::
  "stakingSC \<Rightarrow> ContractCallInput \<Rightarrow> (ReturnCode + StakedDataV2_0) eei" where
  "getStakedDataIfExists s args = do {
     let failWith = (\<lambda>message code. do { AddReturnMessage message; return (Inl code) });
     gas \<leftarrow> UseGas (gasCostGet s);
     case gas of
       Inl err \<Rightarrow> failWith ''insufficient gas'' OutOfGas
     | Inr _ \<Rightarrow>
         if length (Arguments args) \<noteq> 1 then
           failWith ''number of arguments must be equal to 1'' UserError
         else do {
           r \<leftarrow> getOrCreateRegisteredData s (arg args 0);
           case r of
             Inl err \<Rightarrow> failWith (Error err) UserError
           | Inr stakedData \<Rightarrow>
               if length (RewardAddress stakedData) = 0
               then failWith ''blsKey not registered in staking sc'' UserError
               else return (Inr stakedData)
         }
   }"

definition getRewardAddress :: "stakingSC \<Rightarrow> ContractCallInput \<Rightarrow> ReturnCode eei" where
  "getRewardAddress s args =
     (if callValue args \<noteq> 0 then retWith TransactionValueMustBeZero UserError
      else do {
        r \<leftarrow> getStakedDataIfExists s args;
        case r of
          Inl returnCode \<Rightarrow> return returnCode
        | Inr stakedData \<Rightarrow> do {
            Finish (hexEncode (RewardAddress stakedData));
            return Ok
          }
      })"

definition getBLSKeyStatus :: "stakingSC \<Rightarrow> ContractCallInput \<Rightarrow> ReturnCode eei" where
  "getBLSKeyStatus s args =
     (if callValue args \<noteq> 0 then retWith TransactionValueMustBeZero UserError
      else do {
        r \<leftarrow> getStakedDataIfExists s args;
        case r of
          Inl returnCode \<Rightarrow> return returnCode
        | Inr stakedData \<Rightarrow>
            if Jailed stakedData \<or> CanUnJail (eei s) (arg args 0) then do {
              Finish ''jailed''; return Ok
            }
            else if Waiting stakedData then do { Finish ''queued''; return Ok }
            else if Staked stakedData then do { Finish ''staked''; return Ok }
            else do { Finish ''unStaked''; return Ok }
      })"

definition getTotalNumberOfRegisteredNodes :: "stakingSC \<Rightarrow> ContractCallInput \<Rightarrow> ReturnCode eei" where
  "getTotalNumberOfRegisteredNodes s args =
     (if \<not> flag s StakingV2Flag then retWith ''invalid method to call'' UserError
      else if callValue args \<noteq> 0 then retWith TransactionValueMustBeZero UserError
      else orFail (getWaitingListHead s) Error (\<lambda>waitingListHead. do {
        stakeConfig \<leftarrow> getConfig s;
        let totalRegistered = StakedNodes stakeConfig + JailedNodes stakeConfig +
              (ucast (Length waitingListHead) :: i64);
        Finish (bigBytes (sint totalRegistered));
        return Ok
      }))"

definition getRemainingUnbondPeriod :: "stakingSC \<Rightarrow> ContractCallInput \<Rightarrow> ReturnCode eei" where
  "getRemainingUnbondPeriod s args =
     (if callValue args \<noteq> 0 then retWith TransactionValueMustBeZero UserError
      else do {
        r \<leftarrow> getStakedDataIfExists s args;
        case r of
          Inl returnCode \<Rightarrow> return returnCode
        | Inr stakedData \<Rightarrow>
            if UnStakedNonce stakedData = 0 then retWith ''not in unbond period'' UserError
            else do {
              let passedNonce = CurrentNonce (eei s) - UnStakedNonce stakedData;
              (if unBondPeriod s \<le> passedNonce then
                 (if flag s StakingV2Flag then Finish (bigBytes 0) else Finish ''0'')
               else
                 let remaining = unBondPeriod s - passedNonce in
                 if flag s StakingV2Flag then Finish (bigBytes (uint remaining))
                 else Finish (itoa (sint remaining)));
              return Ok
            }
      })"

definition getOwner :: "stakingSC \<Rightarrow> ContractCallInput \<Rightarrow> ReturnCode eei" where
  "getOwner s args =
     (if \<not> flag s StakingV2Flag then retWith ''invalid method to call'' UserError
      else if callerOf args \<noteq> stakeAccessAddr s then retWith ''this is only a view function'' UserError
      else if length (Arguments args) < 1 then
        retWith (''invalid number of arguments: expected min 1, got '' @
          itoa (int (length (Arguments args)))) UserError
      else orFail (getOrCreateRegisteredData s (arg args 0)) Error (\<lambda>stakedData.
        if length (OwnerAddress stakedData) = 0 then retWith ''owner address is nil'' UserError
        else do {
          Finish (OwnerAddress stakedData);
          return Ok
        }))"

text \<open>The search of \<^verbatim>\<open>getWaitingListIndex\<close> from the second element on; the first argument is the
  number of iterations that \<^verbatim>\<open>index <= waitingListHead.Length\<close> still allows, and \<^const>\<open>None\<close> is the end
  of the loop.\<close>

fun waitingIndexLoop :: "stakingSC \<Rightarrow> nat \<Rightarrow> u32 \<Rightarrow> bytes \<Rightarrow> bytes \<Rightarrow> u32 option result eei" where
  "waitingIndexLoop s 0 index waitingElementKey nextKey = return (Inr None)"
| "waitingIndexLoop s (Suc n) index waitingElementKey nextKey =
     (if length nextKey = 0 then return (Inr None)
      else if nextKey = waitingElementKey then return (Inr (Some index))
      else tryE (getWaitingListElement s nextKey) (\<lambda>prevElement.
        if length (NextKey prevElement) = 0 then return (Inr None)
        else waitingIndexLoop s n (index + 1) waitingElementKey (goCopy nextKey (NextKey prevElement))))"

definition getWaitingListIndex :: "stakingSC \<Rightarrow> ContractCallInput \<Rightarrow> ReturnCode eei" where
  "getWaitingListIndex s args =
     (if flag s StakingV4StartedFlag then retWith (Error ErrWaitingListDisabled) UserError
      else if callerOf args \<noteq> stakeAccessAddr s then retWith ''this is only a view function'' UserError
      else if length (Arguments args) \<noteq> 1 then
        retWith ''number of arguments must be equal to 1'' UserError
      else
        let waitingElementKey = createWaitingListKey (arg args 0) in
        orFail (getWaitingListElement s waitingElementKey) Error (\<lambda>_.
          orFail (getWaitingListHead s) Error (\<lambda>waitingListHead.
            if waitingElementKey = FirstKey waitingListHead then do {
              Finish (itoa 1); return Ok
            }
            else if waitingElementKey = LastKey waitingListHead then do {
              Finish (itoa (uint (Length waitingListHead))); return Ok
            }
            else orFail (getWaitingListElement s (FirstKey waitingListHead)) Error (\<lambda>prevElement.
              orFail (waitingIndexLoop s (unat (Length waitingListHead) - 1) 2 waitingElementKey
                        (goCopy (makeBytes (length waitingElementKey)) (NextKey prevElement)))
                Error (\<lambda>found.
                  case found of
                    Some index \<Rightarrow> do { Finish (itoa (uint index)); return Ok }
                  | None \<Rightarrow> retWith ''element in waiting list not found'' UserError)))))"

definition getWaitingListSize :: "stakingSC \<Rightarrow> ContractCallInput \<Rightarrow> ReturnCode eei" where
  "getWaitingListSize s args =
     (if flag s StakingV4StartedFlag then retWith (Error ErrWaitingListDisabled) UserError
      else if callValue args \<noteq> 0 then retWith TransactionValueMustBeZero UserError
      else do {
        gas \<leftarrow> UseGas (gasCostGet s);
        case gas of
          Inl err \<Rightarrow> retWith ''insufficient gas'' OutOfGas
        | Inr _ \<Rightarrow> orFail (getWaitingListHead s) Error (\<lambda>waitingListHead. do {
            Finish (itoa (uint (Length waitingListHead)));
            return Ok
          })
      })"

definition getWaitingListRegisterNonceAndRewardAddress ::
  "stakingSC \<Rightarrow> ContractCallInput \<Rightarrow> ReturnCode eei" where
  "getWaitingListRegisterNonceAndRewardAddress s args =
     (if callerOf args \<noteq> stakeAccessAddr s then retWith ''this is only a view function'' UserError
      else if length (Arguments args) \<noteq> 0 then
        retWith ''number of arguments must be equal to 0'' UserError
      else orFail (getFirstElementsFromWaitingList s MaxUint32) Error (\<lambda>waitingListData.
        if length (stakedDataList waitingListData) = 0 then retWith ''no one in waitingList'' UserError
        else do {
          forEach (zip (blsKeys waitingListData) (stakedDataList waitingListData)) (\<lambda>(blsKey, stakedData). do {
            Finish blsKey;
            Finish (RewardAddress stakedData);
            Finish (bigBytes (sint (RegisterNonce stakedData)))
          });
          return Ok
        }))"

section \<open>Dispatch\<close>

definition Execute :: "stakingSC \<Rightarrow> scContainer option \<Rightarrow> ContractCallInput option \<Rightarrow> ReturnCode eei" where
  "Execute s container input =
     (if CheckIfNil input \<noteq> None then return UserError
      else
        let args = the input; f = Function args in
        if 0 < ESDTTransfers args then retWith ''cannot transfer ESDT to system SCs'' UserError
        else if f = SCDeployInitFunctionName (eei s) then initSC s args
        else if f = ''stake'' then stake s args False
        else if f = ''register'' then stake s args True
        else if f = ''unStake'' then unStake s args
        else if f = ''unBond'' then unBond s args
        else if f = ''get'' then getSC s args
        else if f = ''isStaked'' then isStaked s args
        else if f = ''slash'' then slash s args
        else if f = ''jail'' then jail s args
        else if f = ''unJail'' then unJail s args
        else if f = ''changeRewardAddress'' then changeRewardAddress s args
        else if f = ''changeValidatorKeys'' then changeValidatorKey s args
        else if f = ''switchJailedWithWaiting'' then switchJailedWithWaiting s args
        else if f = ''getQueueIndex'' then getWaitingListIndex s args
        else if f = ''getQueueSize'' then getWaitingListSize s args
        else if f = ''getRewardAddress'' then getRewardAddress s args
        else if f = ''getBLSKeyStatus'' then getBLSKeyStatus s args
        else if f = ''getRemainingUnBondPeriod'' then getRemainingUnbondPeriod s args
        else if f = ''getQueueRegisterNonceAndRewardAddress'' then
          getWaitingListRegisterNonceAndRewardAddress s args
        else if f = ''updateConfigMinNodes'' then updateConfigMinNodes s args
        else if f = ''setOwnersOnAddresses'' then setOwnersOnAddresses s args
        else if f = ''getOwner'' then getOwner s args
        else if f = ''updateConfigMaxNodes'' then updateConfigMaxNodes s args
        else if f = ''stakeNodesFromQueue'' then stakeNodesFromQueue s args
        else if f = ''unStakeAtEndOfEpoch'' then unStakeAtEndOfEpoch s args
        else if f = ''getTotalNumberOfRegisteredNodes'' then getTotalNumberOfRegisteredNodes s args
        else if f = ''resetLastUnJailedFromQueue'' then resetLastUnJailedFromQueue s args
        else if f = ''cleanAdditionalQueue'' then cleanAdditionalQueue s args
        else if f = ''changeOwnerAndRewardAddress'' then changeOwnerAndRewardAddress s args
        else if f = ''fixWaitingListQueueSize'' then fixWaitingListQueueSize s args
        else if f = ''addMissingNodeToQueue'' then addMissingNodeToQueue s args
        else if f = ''unStakeAllNodesFromQueue'' then unStakeAllNodesFromQueue s container args
        else return UserError)"

text \<open>The contract as the container holds it.\<close>

definition stakingContract :: "stakingSC \<Rightarrow> scContainer option \<Rightarrow> SystemSmartContract" where
  "stakingContract s container =
     \<lparr>ExecuteContract = (\<lambda>args. Execute s container (Some args)), CanUseContract = True\<rparr>"

definition SetNewGasCost :: "u64 \<Rightarrow> u64 \<Rightarrow> stakingSC \<Rightarrow> stakingSC" where
  "SetNewGasCost costGet costFix s = s\<lparr>gasCostGet := costGet, gasCostFixWaitingListSize := costFix\<rparr>"

end
