(* ===== verification/StakingInvariant.thy ===== *)
theory StakingInvariant
  imports WaitingQueue StakingSC
begin

text \<open>
  The invariant of the staking contract and that every call keeps it. The
  storage is seen through \<^verbatim>\<open>sview\<close>: the waiting queue, the data of every BLS key and
  the counter of staked nodes. The invariant \<^verbatim>\<open>ainv\<close> says of these that a node is marked
  as waiting exactly when it is in the queue, that no node is both staked and
  waiting, and that the counter is the number of staked nodes. The rules \<^verbatim>\<open>sv\<close>
  compute the effect of each operation on the view, so that a handler is
  verified by following its text.
\<close>

section \<open>The abstract state of the contract\<close>

definition sview :: "stakingSC \<Rightarrow> nat \<Rightarrow> bytes jqueue \<Rightarrow> (bytes \<Rightarrow> StakedDataV2_0) \<Rightarrow> i64 \<Rightarrow> vmContext \<Rightarrow> bool" where
  "sview s L q D n h \<longleftrightarrow> wl_rep s L h q \<and>
     (\<forall>k. length k = L \<longrightarrow> decStaked s (stor (eei s) h k) = Inr (D k)) \<and>
     StakedNodes (decConfig s (stor (eei s) h nodesConfigKey)) = n"

lemma sview_codec: "sview s L q D n h \<Longrightarrow> codec_ok (marshalizer s)"
  unfolding sview_def wl_rep_def using sc_ok_codec by blast

lemma sview_len: "sview s L q D n h \<Longrightarrow> 11 < L"
  unfolding sview_def wl_rep_def using sc_ok_len by blast

lemma wl_key_length: "wl_key L x \<Longrightarrow> length x = 11 \<and> x = waitingListHeadKey \<or> length x = L + 2"
  by (auto simp: wl_key_def)

lemma bls_not_wl_key: "11 < L \<Longrightarrow> length k = L \<Longrightarrow> \<not> wl_key L k"
  by (auto dest!: wl_key_length)

lemma config_not_wl_key: "\<not> wl_key L nodesConfigKey"
  by (auto simp: wl_key_def)

lemma wl_repr_cong:
  assumes r: "wl_repr s L \<sigma> js qs" and eq: "\<And>x. wl_key L x \<Longrightarrow> \<sigma>' x = \<sigma> x"
  shows "wl_repr s L \<sigma>' js qs"
proof -
  have keys: "\<sigma>' (wk k) = \<sigma> (wk k)" if "length k = L" for k
    using eq that by (simp add: wl_key_def)
  have "headAt s \<sigma>' = headAt s \<sigma>" using eq [of waitingListHeadKey] by (simp add: headAt_def)
  moreover have "dll (elemAt s \<sigma>') p ks n = dll (elemAt s \<sigma>) p ks n" if "\<forall>k\<in>set ks. length k = L" for p ks n
    using that keys by (induction ks arbitrary: p) (auto simp: elemAt_def)
  ultimately show ?thesis using r keys unfolding wl_repr_def by auto
qed

text \<open>The invariant over the abstract state.\<close>

definition stakedKeys :: "nat \<Rightarrow> (bytes \<Rightarrow> StakedDataV2_0) \<Rightarrow> bytes set" where
  "stakedKeys L D = {k. length k = L \<and> Staked (D k)}"

definition ainv :: "nat \<Rightarrow> bytes jqueue \<Rightarrow> (bytes \<Rightarrow> StakedDataV2_0) \<Rightarrow> i64 \<Rightarrow> bool" where
  "ainv L q D n \<longleftrightarrow> distinct (jq_keys q) \<and>
     (\<forall>k. length k = L \<longrightarrow> (Waiting (D k) \<longleftrightarrow> k \<in> set (jq_keys q)) \<and> \<not> (Staked (D k) \<and> Waiting (D k))) \<and>
     finite (stakedKeys L D) \<and> sint n = int (card (stakedKeys L D))"

lemma stakedKeys_upd:
  "length k = L \<Longrightarrow> stakedKeys L (D(k := d)) =
     (if Staked d then insert k (stakedKeys L D) else stakedKeys L D - {k})"
  by (auto simp: stakedKeys_def)

lemma jq_keys_add: "set (jq_keys (jq_add k j q)) = insert k (set (jq_keys q))"
  by (auto simp: jq_add_def jq_keys_def)

lemma distinct_jq_add: "distinct (jq_keys q) \<Longrightarrow> distinct (jq_keys (jq_add k j q))"
  by (auto simp: jq_add_def jq_keys_def)

lemma distinct_jq_remove: "distinct (jq_keys q) \<Longrightarrow> distinct (jq_keys (jq_remove k q))"
  by (auto simp: jq_remove_def jq_keys_def distinct_remove1 dest: notin_set_remove1)

lemma jq_keys_remove: "distinct (jq_keys q) \<Longrightarrow> set (jq_keys (jq_remove k q)) = set (jq_keys q) - {k}"
  by (auto simp: jq_remove_def jq_keys_def)

lemma ainv_same:
  assumes "ainv L q D n" and "length k = L" and "Staked d = Staked (D k)" and "Waiting d = Waiting (D k)"
  shows "ainv L q (D(k := d)) n"
proof -
  have "stakedKeys L (D(k := d)) = stakedKeys L D"
    using assms(2,3) by (auto simp: stakedKeys_def)
  then show ?thesis using assms by (auto simp: ainv_def)
qed

lemma ainv_enqueue:
  assumes "ainv L q D n" and "length k = L" and "\<not> Staked (D k)" and "\<not> Staked d" and "Waiting d"
  shows "ainv L (jq_add k j q) (D(k := d)) n"
proof -
  have "stakedKeys L (D(k := d)) = stakedKeys L D"
    using assms(2,3,4) by (auto simp: stakedKeys_def)
  then show ?thesis using assms by (auto simp: ainv_def jq_keys_add distinct_jq_add)
qed

lemma ainv_dequeue:
  assumes "ainv L q D n" and "length k = L" and "\<not> Staked (D k)" and "\<not> Staked d" and "\<not> Waiting d"
  shows "ainv L (jq_remove k q) (D(k := d)) n"
proof -
  have "stakedKeys L (D(k := d)) = stakedKeys L D"
    using assms(2,3,4) by (auto simp: stakedKeys_def)
  then show ?thesis using assms by (auto simp: ainv_def jq_keys_remove distinct_jq_remove)
qed

lemma ainv_activate:
  assumes "ainv L q D n" and "length k = L" and "\<not> Staked (D k)" and "Staked d" and "\<not> Waiting d"
    and "sint n + 1 < 2 ^ 63"
  shows "ainv L (jq_remove k q) (D(k := d)) (n + 1)"
proof -
  have "k \<notin> stakedKeys L D" using assms(3) by (simp add: stakedKeys_def)
  moreover have "sint (n + 1) = sint n + 1"
    by (rule sint_inc) (use assms(1,6) in \<open>auto simp: ainv_def\<close>)
  ultimately show ?thesis
    using assms by (auto simp: ainv_def jq_keys_remove distinct_jq_remove stakedKeys_upd)
qed

lemma ainv_activate_absent:
  assumes "ainv L q D n" and "length k = L" and "\<not> Staked (D k)" and "Staked d" and "\<not> Waiting d"
    and "sint n + 1 < 2 ^ 63" and "k \<notin> set (jq_keys q)"
  shows "ainv L q (D(k := d)) (n + 1)"
proof -
  have "jq_remove k q = q" using assms(7) by (cases q) (simp add: jq_remove_def jq_keys_def remove1_notin)
  then show ?thesis using ainv_activate [OF assms(1-6)] by simp
qed

lemma ainv_unstake:
  assumes "ainv L q D n" and "length k = L" and "Staked (D k)" and "\<not> Staked d" and "\<not> Waiting d"
  shows "0 < sint n" and "ainv L q (D(k := d)) (n - 1)"
proof -
  have k: "k \<in> stakedKeys L D" "finite (stakedKeys L D)"
    using assms(1-3) by (auto simp: stakedKeys_def ainv_def)
  then have "0 < card (stakedKeys L D)" by (auto simp: card_gt_0_iff)
  then show pos: "0 < sint n" using assms(1) by (simp add: ainv_def)
  then have "sint (n - 1) = sint n - 1" by (rule sint_dec)
  moreover have "int (card (stakedKeys L D - {k})) = int (card (stakedKeys L D)) - 1"
    using k \<open>0 < card (stakedKeys L D)\<close> by simp
  ultimately show "ainv L q (D(k := d)) (n - 1)"
    using assms k by (auto simp: ainv_def stakedKeys_upd)
qed

section \<open>How the operations change the abstract state\<close>

lemma bind_run:
  assumes "\<And>h. P h \<Longrightarrow> \<exists>h'. run_state m h = (c, h') \<and> P' h'" and "triple P' (f c) Q"
  shows "triple P (State_Monad.bind m f) Q"
  unfolding triple_def
proof (intro allI impI)
  fix h assume "P h"
  then obtain h' where h': "run_state m h = (c, h')" "P' h'" using assms(1) by blast
  with assms(2) show "case run_state (State_Monad.bind m f) h of (r, h'') \<Rightarrow> Q r h''"
    by (auto simp: triple_def)
qed

lemma sviewD:
  assumes "sview s L q D n h"
  shows "sc_ok s L" and "wl_repr s L (stor (eei s) h) (fst q) (snd q)"
    and "length k = L \<Longrightarrow> decStaked s (stor (eei s) h k) = Inr (D k)"
    and "StakedNodes (decConfig s (stor (eei s) h nodesConfigKey)) = n"
  using assms unfolding sview_def wl_rep_def by blast+

lemma sviewI:
  assumes "sc_ok s L" and "wl_repr s L (stor (eei s) h) (fst q) (snd q)"
    and "\<And>k. length k = L \<Longrightarrow> decStaked s (stor (eei s) h k) = Inr (D k)"
    and "StakedNodes (decConfig s (stor (eei s) h nodesConfigKey)) = n"
  shows "sview s L q D n h"
  using assms unfolding sview_def wl_rep_def by blast

lemma sview_frame:
  assumes v: "sview s L q D n h" and r: "wl_repr s L (stor (eei s) h') (fst q') (snd q')" and f: "wl_frame s L h h'"
  shows "sview s L q' D n h'"
proof -
  have l: "11 < L" by (rule sview_len [OF v])
  have ok: "sc_ok s L" using v by (simp add: sview_def wl_rep_def)
  have "stor (eei s) h' k = stor (eei s) h k" if "length k = L" for k
    using f bls_not_wl_key [OF l that] by (simp add: wl_frame_def)
  moreover have "stor (eei s) h' nodesConfigKey = stor (eei s) h nodesConfigKey"
    using f config_not_wl_key by (simp add: wl_frame_def)
  ultimately show ?thesis using v r ok by (simp add: sview_def wl_rep_def)
qed

lemma sview_add:
  assumes v: "sview s L q D n h" and k: "length k = L" and cap: "Suc (length (jq_keys q)) < 2 ^ 32"
  shows "\<exists>h'. run_state (addToWaitingList s k j) h = (Inr (), h') \<and> sview s L (jq_add k j q) D n h'"
proof (cases "k \<in> set (jq_keys q)")
  case True
  then show ?thesis
    using v addToWaitingList_present [of s L h "fst q" "snd q" k j]
    by (auto simp: sview_def wl_rep_def jq_keys_def jq_add_def)
next
  case False
  have ok: "sc_ok s L" and r: "wl_repr s L (stor (eei s) h) (fst q) (snd q)"
    using v by (auto simp: sview_def wl_rep_def)
  from addToWaitingList_absent [OF ok r k, of j] False cap
  obtain h' where "run_state (addToWaitingList s k j) h = (Inr (), h')"
    "wl_repr s L (stor (eei s) h') (fst (jq_add k j q)) (snd (jq_add k j q))" "wl_frame s L h h'"
    by (auto simp: jq_add_def jq_keys_def split: if_splits)
  then show ?thesis using sview_frame [OF v] by blast
qed

lemma sview_remove:
  assumes v: "sview s L q D n h" and k: "length k = L"
  shows "\<exists>h'. run_state (removeFromWaitingList s k) h = (Inr (), h') \<and> sview s L (jq_remove k q) D n h'"
proof -
  have ok: "sc_ok s L" and r: "wl_repr s L (stor (eei s) h) (fst q) (snd q)"
    using v by (auto simp: sview_def wl_rep_def)
  from removeFromWaitingList_run [OF ok r k]
  obtain h' where "run_state (removeFromWaitingList s k) h = (Inr (), h')"
    "wl_repr s L (stor (eei s) h') (fst (jq_remove k q)) (snd (jq_remove k q))" "wl_frame s L h h'"
    by (auto simp: jq_remove_def)
  then show ?thesis using sview_frame [OF v] by blast
qed

lemma sview_get:
  assumes "sview s L q D n h" and "length k = L"
  shows "run_state (getOrCreateRegisteredData s k) h = (Inr (D k), h)"
  using assms by (simp add: eei_run sview_def)

lemma sview_save:
  assumes v: "sview s L q D n h" and k: "length k = L"
  shows "\<exists>h'. run_state (saveStakingData s k d) h = (Inr (), h') \<and> sview s L q (D(k := reread s d)) n h'"
proof -
  note c = sview_codec [OF v] and l = sview_len [OF v] and vd = sviewD [OF v]
  have "x \<noteq> k" if "wl_key L x" for x using that bls_not_wl_key [OF l k] by blast
  then have "wl_repr s L (stor (eei s) (setStor k (encStaked s d) h)) (fst q) (snd q)"
    by (intro wl_repr_cong [OF vd(2)]) (simp add: eei_frame)
  moreover have "k \<noteq> nodesConfigKey" using k l by auto
  ultimately have "sview s L q (D(k := reread s d)) n (setStor k (encStaked s d) h)"
    using vd c by (intro sviewI) (simp_all add: eei_frame)
  then show ?thesis by (auto simp: eei_run c)
qed

lemma sview_setConfig:
  assumes v: "sview s L q D n h"
  shows "\<exists>h'. run_state (setConfig s c) h = ((), h') \<and> sview s L q D (StakedNodes c) h'"
proof -
  note cd = sview_codec [OF v] and l = sview_len [OF v] and vd = sviewD [OF v]
  have "x \<noteq> nodesConfigKey" if "wl_key L x" for x using that config_not_wl_key by blast
  then have "wl_repr s L (stor (eei s) (setStor nodesConfigKey (encConfig s c) h)) (fst q) (snd q)"
    by (intro wl_repr_cong [OF vd(2)]) (simp add: eei_frame)
  moreover have "k \<noteq> nodesConfigKey" if "length k = L" for k using that l by auto
  ultimately have "sview s L q D (StakedNodes c) (setStor nodesConfigKey (encConfig s c) h)"
    using vd cd by (intro sviewI) (simp_all add: eei_frame)
  then show ?thesis by (auto simp: eei_run cd)
qed

lemma sview_getConfig:
  assumes "sview s L q D n h"
  shows "\<exists>c. run_state (getConfig s) h = (c, h) \<and> StakedNodes c = n"
  using assms by (simp add: eei_run sview_def)

text \<open>The abstract state does not see messages, results and gas.\<close>

lemma stor_other [simp]:
  "stor env (h\<lparr>returnMessage := m\<rparr>) = stor env h" "stor env (h\<lparr>outputData := x\<rparr>) = stor env h"
  "stor env (h\<lparr>gasRemaining := g\<rparr>) = stor env h"
  unfolding fun_eq_iff stor_def storOpt_def GetStorage_def GetStorageFromAddress_def by simp_all

lemma sview_other [simp]:
  "sview s L q D n (h\<lparr>returnMessage := m\<rparr>) = sview s L q D n h"
  "sview s L q D n (h\<lparr>outputData := x\<rparr>) = sview s L q D n h"
  "sview s L q D n (h\<lparr>gasRemaining := g\<rparr>) = sview s L q D n h"
  by (simp_all add: sview_def wl_rep_def)

section \<open>Rules for the handlers\<close>

text \<open>What a handler owes: when it returns \<^const>\<open>Ok\<close> a property of the context, the invariant above all, holds.\<close>

definition stakingInv :: "stakingSC \<Rightarrow> nat \<Rightarrow> vmContext \<Rightarrow> bool" where
  "stakingInv s L h \<longleftrightarrow> (\<exists>q D n. sview s L q D n h \<and> ainv L q D n)"

definition okPost :: "(vmContext \<Rightarrow> bool) \<Rightarrow> ReturnCode \<Rightarrow> vmContext \<Rightarrow> bool" where
  "okPost R r h \<longleftrightarrow> (r = Ok \<longrightarrow> R h)"

abbreviation okInv :: "stakingSC \<Rightarrow> nat \<Rightarrow> ReturnCode \<Rightarrow> vmContext \<Rightarrow> bool" where
  "okInv s L \<equiv> okPost (stakingInv s L)"

named_theorems sv \<open>rules for handlers over the abstract state\<close>

lemma sv_get [sv]:
  assumes "length k = L" and "triple (sview s L q D n) (f (Inr (D k))) Q"
  shows "triple (sview s L q D n) (State_Monad.bind (getOrCreateRegisteredData s k) f) Q"
  by (rule bind_run [where c = "Inr (D k)" and P' = "sview s L q D n"], intro exI conjI, erule sview_get [OF _ assms(1)], assumption, rule assms(2))

lemma sv_save [sv]:
  assumes "length k = L" and "triple (sview s L q (D(k := reread s d)) n) (f (Inr ())) Q"
  shows "triple (sview s L q D n) (State_Monad.bind (saveStakingData s k d) f) Q"
  by (rule bind_run [where c = "Inr ()" and P' = "sview s L q (D(k := reread s d)) n"], erule sview_save [OF _ assms(1)], rule assms(2))

lemma sv_add [sv]:
  assumes "length k = L" and "Suc (length (jq_keys q)) < 2 ^ 32"
    and "triple (sview s L (jq_add k j q) D n) (f (Inr ())) Q"
  shows "triple (sview s L q D n) (State_Monad.bind (addToWaitingList s k j) f) Q"
  by (rule bind_run [where c = "Inr ()" and P' = "sview s L (jq_add k j q) D n"], erule sview_add [OF _ assms(1,2)], rule assms(3))

lemma sv_remove [sv]:
  assumes "length k = L" and "triple (sview s L (jq_remove k q) D n) (f (Inr ())) Q"
  shows "triple (sview s L q D n) (State_Monad.bind (removeFromWaitingList s k) f) Q"
  by (rule bind_run [where c = "Inr ()" and P' = "sview s L (jq_remove k q) D n"], erule sview_remove [OF _ assms(1)], rule assms(2))

lemma sv_setConfig [sv]:
  assumes "triple (sview s L q D (StakedNodes c)) (f ()) Q"
  shows "triple (sview s L q D n) (State_Monad.bind (setConfig s c) f) Q"
  by (rule bind_run [where c = "()" and P' = "sview s L q D (StakedNodes c)"], erule sview_setConfig, rule assms)

lemma sv_getConfig [sv]:
  assumes "\<And>c. StakedNodes c = n \<Longrightarrow> triple (sview s L q D n) (f c) Q"
  shows "triple (sview s L q D n) (State_Monad.bind (getConfig s) f) Q"
  unfolding triple_def
proof (intro allI impI)
  fix h assume v: "sview s L q D n h"
  then obtain c where "run_state (getConfig s) h = (c, h)" "StakedNodes c = n"
    using sview_getConfig by blast
  then show "case run_state (State_Monad.bind (getConfig s) f) h of (r, h') \<Rightarrow> Q r h'"
    using assms [of c] v by (auto simp: triple_def)
qed

lemma sv_message [sv]:
  assumes "triple (sview s L q D n) (f ()) Q"
  shows "triple (sview s L q D n) (State_Monad.bind (AddReturnMessage m) f) Q"
  by (rule bind_run [where c = "()" and P' = "sview s L q D n"], simp add: AddReturnMessage_def, rule assms)

lemma sv_finish [sv]:
  assumes "triple (sview s L q D n) (f ()) Q"
  shows "triple (sview s L q D n) (State_Monad.bind (Finish x) f) Q"
  by (rule bind_run [where c = "()" and P' = "sview s L q D n"], simp add: Finish_def, rule assms)

lemma sv_error [sv]:
  "triple P (retWith m UserError) (okPost R)" "triple P (return UserError) (okPost R)"
  "triple P (retWith m OutOfGas) (okPost R)" "triple P (retWith m ExecutionFailed) (okPost R)"
  by (simp_all add: triple_def retWith_def okPost_def split: prod.splits)

lemma sv_done [sv]:
  "ainv L q D n \<Longrightarrow> triple (sview s L q D n) (return Ok) (okInv s L)"
  "ainv L q D n \<Longrightarrow> triple (sview s L q D n) (retWith m Ok) (okInv s L)"
  unfolding triple_def okPost_def stakingInv_def retWith_def AddReturnMessage_def by fastforce+

lemma sv_done_view [sv]:
  "triple (sview s L q D n) (return Ok) (okPost (sview s L q D n))"
  "triple (sview s L q D n) (retWith m Ok) (okPost (sview s L q D n))"
  unfolding triple_def okPost_def retWith_def AddReturnMessage_def by fastforce+

lemma sv_return_bind [sv]:
  "triple P (f x) Q \<Longrightarrow> triple P (State_Monad.bind (return x) f) Q"
  by (simp add: triple_def)

declare triple_if [sv]

lemma sv_nested [sv]:
  assumes "triple P (State_Monad.bind m (\<lambda>x. State_Monad.bind (g x) f)) Q"
  shows "triple P (State_Monad.bind (State_Monad.bind m g) f) Q"
  using assms by (simp add: triple_def split_beta)

lemma sv_if_bind [sv]:
  assumes "b \<Longrightarrow> triple P (State_Monad.bind m f) Q" and "\<not> b \<Longrightarrow> triple P (State_Monad.bind m' f) Q"
  shows "triple P (State_Monad.bind (if b then m else m') f) Q"
  using assms by simp

lemma sv_case [sv]:
  "triple P (g x) Q \<Longrightarrow> triple P (case Inr x of Inl e \<Rightarrow> f e | Inr y \<Rightarrow> g y) Q"
  "triple P (f e) Q \<Longrightarrow> triple P (case Inl e of Inl e \<Rightarrow> f e | Inr y \<Rightarrow> g y) Q"
  by simp_all

lemma sv_case_bind [sv]:
  "triple P (State_Monad.bind (g x) m) Q \<Longrightarrow>
     triple P (State_Monad.bind (case Inr x of Inl e \<Rightarrow> f e | Inr y \<Rightarrow> g y) m) Q"
  "triple P (State_Monad.bind (f e) m) Q \<Longrightarrow>
     triple P (State_Monad.bind (case Inl e of Inl e \<Rightarrow> f e | Inr y \<Rightarrow> g y) m) Q"
  by simp_all

lemma sv_addStaked [sv]:
  assumes "triple (sview s L q D (n + v)) (f ()) Q"
  shows "triple (sview s L q D n) (State_Monad.bind (addToStakedNodes s v) f) Q"
  unfolding addToStakedNodes_def by (intro sv) (use assms in simp)

lemma sv_removeStaked [sv]:
  assumes "0 < sint n" and "triple (sview s L q D (n - 1)) (f ()) Q"
  shows "triple (sview s L q D n) (State_Monad.bind (removeFromStakedNodes s) f) Q"
  unfolding removeFromStakedNodes_def by (intro sv) (use assms in \<open>simp add: word_sless_alt\<close>)

lemma sv_removeJailed [sv]:
  assumes "triple (sview s L q D n) (f ()) Q"
  shows "triple (sview s L q D n) (State_Monad.bind (removeFromJailedNodes s) f) Q"
  unfolding removeFromJailedNodes_def by (intro sv) (use assms in simp)

lemma sv_canStake [sv]:
  assumes "\<And>b. \<lbrakk>flag s StakingV4StartedFlag \<Longrightarrow> b\<rbrakk> \<Longrightarrow> triple (sview s L q D n) (f b) Q"
  shows "triple (sview s L q D n) (State_Monad.bind (canStake s) f) Q"
  unfolding canStake_def by (intro sv) (use assms in auto)

lemma sv_canStakeIfOneRemoved [sv]:
  assumes "\<And>b. triple (sview s L q D n) (f b) Q"
  shows "triple (sview s L q D n) (State_Monad.bind (canStakeIfOneRemoved s) f) Q"
  unfolding canStakeIfOneRemoved_def by (intro sv) (use assms in auto)

lemma sv_canUnStake [sv]:
  assumes "\<And>b. triple (sview s L q D n) (f b) Q"
  shows "triple (sview s L q D n) (State_Monad.bind (canUnStake s) f) Q"
  unfolding canUnStake_def numSpareNodes_def by (intro sv) (use assms in auto)

lemma sv_canUnBond [sv]:
  assumes "\<And>b. triple (sview s L q D n) (f b) Q"
  shows "triple (sview s L q D n) (State_Monad.bind (canUnBond s) f) Q"
  unfolding canUnBond_def numSpareNodes_def by (intro sv) (use assms in auto)

lemma triple_returnI: "(\<And>h. P h \<Longrightarrow> Q x h) \<Longrightarrow> triple P (return x) Q"
  by (simp add: triple_def)

definition stakeResult where
  "stakeResult s L D k r h \<longleftrightarrow>
     (case r of Inl e \<Rightarrow> True | Inr d' \<Rightarrow> \<exists>q' n'. sview s L q' D n' h \<and> ainv L q' (D(k := d')) n')"

lemma sv_stakeResult [sv]:
  "triple P (return (Inl e)) (stakeResult s L D k)"
  "ainv L q (D(k := d)) n \<Longrightarrow> triple (sview s L q D n) (return (Inr d)) (stakeResult s L D k)"
proof -
  show "triple P (return (Inl e)) (stakeResult s L D k)"
    by (rule triple_returnI) (simp add: stakeResult_def)
  assume a: "ainv L q (D(k := d)) n"
  show "triple (sview s L q D n) (return (Inr d)) (stakeResult s L D k)"
    by (rule triple_returnI) (use a in \<open>simp add: stakeResult_def del: split_paired_Ex, blast\<close>)
qed

lemmas ainv_intros = ainv_same ainv_enqueue ainv_dequeue ainv_activate ainv_activate_absent ainv_unstake(2)

lemma activeStakingFor_fields [simp]:
  "Staked (activeStakingFor s d) = True" "Waiting (activeStakingFor s d) = False"
  by (simp_all add: activeStakingFor_def)

lemma processStake_inv:
  assumes inv: "ainv L q D n" and k: "length k = L" and d: "Staked d = Staked (D k)" "Waiting d = Waiting (D k)"
    and cap: "Suc (length (jq_keys q)) < 2 ^ 32" "sint n + 1 < 2 ^ 63"
    and v4: "flag s StakingV4StartedFlag \<longrightarrow> jq_keys q = []"
  shows "triple (sview s L q D n) (processStake s k d j) (stakeResult s L D k)"
  unfolding processStake_def processStakeV1_def processStakeV2_def Let_def
  apply (intro sv)
  subgoal using ainv_same [OF inv k] d by simp
  using assms by (auto intro: ainv_intros)

text \<open>The result of \<^verbatim>\<open>processStake\<close> is saved by the handlers that call it.\<close>

lemma ainv_reread [simp]: "ainv L q (D(k := reread s d)) n = ainv L q (D(k := d)) n"
proof -
  have "stakedKeys L (D(k := reread s d)) = stakedKeys L (D(k := d))"
    by (auto simp: stakedKeys_def)
  then show ?thesis by (auto simp: ainv_def)
qed

lemma triple_ex:
  assumes "\<And>x y. A x y \<Longrightarrow> triple (V x y) m Q"
  shows "triple (\<lambda>h. \<exists>x y. V x y h \<and> A x y) m Q"
  using assms by (fastforce simp: triple_def)

lemma sv_processStake [sv]:
  assumes "ainv L q D n" "length k = L" "Staked d = Staked (D k)" "Waiting d = Waiting (D k)"
    "Suc (length (jq_keys q)) < 2 ^ 32" "sint n + 1 < 2 ^ 63"
    "flag s StakingV4StartedFlag \<longrightarrow> jq_keys q = []"
    and "\<And>e. triple (\<lambda>_. True) (f (Inl e)) Q"
    and "\<And>d' q' n'. ainv L q' (D(k := d')) n' \<Longrightarrow> triple (sview s L q' D n') (f (Inr d')) Q"
  shows "triple (sview s L q D n) (State_Monad.bind (processStake s k d j) f) Q"
proof (rule triple_bind [OF processStake_inv [OF assms(1-7)]])
  fix r
  show "triple (stakeResult s L D k r) (f r) Q"
  proof (cases r)
    case (Inl e)
    then show ?thesis using assms(8) [of e] by (auto simp: triple_def)
  next
    case (Inr d')
    have eq: "stakeResult s L D k (Inr d') = (\<lambda>h. \<exists>q' n'. sview s L q' D n' h \<and> ainv L q' (D(k := d')) n')"
      unfolding fun_eq_iff stakeResult_def sum.case by blast
    show ?thesis unfolding Inr eq by (rule triple_ex) (erule assms(9))
  qed
qed

lemma stake_inv:
  assumes inv: "ainv L q D n" and k: "length (arg args 0) = L"
    and cap: "Suc (length (jq_keys q)) < 2 ^ 32" "sint n + 1 < 2 ^ 63"
    and v4: "flag s StakingV4StartedFlag \<longrightarrow> jq_keys q = []"
  shows "triple (sview s L q D n) (stake s args onlyRegister) (okInv s L)"
  unfolding stake_def Let_def orFail_def
  by (intro sv) (use assms in \<open>auto intro: ainv_intros\<close>)

lemma unJail_inv:
  assumes inv: "ainv L q D n" and k: "\<forall>k\<in>set (Arguments args). length k = L"
    and cap: "Suc (length (jq_keys q)) < 2 ^ 32" "sint n + 1 < 2 ^ 63"
    and v4: "flag s StakingV4StartedFlag \<longrightarrow> jq_keys q = []" and st: "flag s StakeFlag"
  shows "triple (sview s L q D n) (unJail s args) (okInv s L)"
  unfolding unJail_def Let_def orFail_def
  by (intro sv) (use assms in \<open>auto intro: ainv_intros\<close>)

lemma unJailV1Loop_inv:
  assumes "ainv L q D n" and "\<forall>k\<in>set ks. length k = L"
  shows "triple (sview s L q D n) (unJailV1Loop s ks) (okInv s L)"
  using assms
proof (induction ks arbitrary: D)
  case Nil
  then show ?case by (auto intro: sv)
next
  case (Cons k ks)
  show ?case unfolding unJailV1Loop.simps orFail_def
    by (intro sv Cons.IH) (use Cons.prems in \<open>auto intro: ainv_intros simp del: fun_upd_apply\<close>)
qed

lemma jailLoop_inv:
  assumes "ainv L q D n" and "\<forall>k\<in>set ks. length k = L"
  shows "triple (sview s L q D n) (jailLoop s ks) (okInv s L)"
  using assms
proof (induction ks arbitrary: D)
  case Nil
  then show ?case by (auto intro: sv)
next
  case (Cons k ks)
  show ?case unfolding jailLoop.simps orFail_def
    by (intro sv Cons.IH) (use Cons.prems in \<open>auto intro: ainv_intros simp del: fun_upd_apply\<close>)
qed

text \<open>Reads of the queue.\<close>

lemma sv_head [sv]:
  assumes "triple (sview s L q D n) (f (Inr (headOf (fst q) (snd q)))) Q"
  shows "triple (sview s L q D n) (State_Monad.bind (getWaitingListHead s) f) Q"
  by (rule bind_run [where P' = "sview s L q D n"], intro exI conjI,
      rule run_getWaitingListHead, erule wl_reprD(4) [OF sviewD(2)], assumption, rule assms)

lemma sv_element:
  assumes "k \<in> set (jq_keys q)" and "\<And>e. BLSPublicKey e = k \<Longrightarrow> triple (sview s L q D n) (f (Inr e)) Q"
  shows "triple (sview s L q D n) (State_Monad.bind (getWaitingListElement s (wk k)) f) Q"
  unfolding triple_def
proof (intro allI impI)
  fix h assume v: "sview s L q D n h"
  obtain e where e: "elemAt s (stor (eei s) h) (wk k) = Some e" "BLSPublicKey e = k"
    using dll_member [OF wl_reprD(5) [OF sviewD(2) [OF v]]] assms(1) by (auto simp: jq_keys_def)
  show "case run_state (State_Monad.bind (getWaitingListElement s (wk k)) f) h of (r, h') \<Rightarrow> Q r h'"
    using run_getWaitingListElement [OF e(1)] tripleD [OF assms(2) [OF e(2)] v] by (auto split: prod.splits)
qed

lemma sv_first_element:
  assumes "jq_keys q = k # ks" and "\<And>e. BLSPublicKey e = k \<Longrightarrow> triple (sview s L q D n) (f (Inr e)) Q"
  shows "triple (sview s L q D n)
    (State_Monad.bind (getWaitingListElement s (FirstKey (headOf (fst q) (snd q)))) f) Q"
proof -
  have "FirstKey (headOf (fst q) (snd q)) = wk k" "k \<in> set (jq_keys q)"
    using assms(1) by (simp_all add: headOf_def jq_keys_def)
  then show ?thesis using sv_element [of k q s L D n f Q] assms(2) by simp
qed

lemma sv_no_element:
  assumes "length k = L" and "k \<notin> set (jq_keys q)"
    and "triple (sview s L q D n) (f (Inl ErrElementNotFound)) Q"
  shows "triple (sview s L q D n) (State_Monad.bind (getWaitingListElement s (wk k)) f) Q"
proof (rule bind_run [where P' = "sview s L q D n"], intro exI conjI)
  fix h assume v: "sview s L q D n h"
  have "stor (eei s) h (wk k) = []"
    using wl_repr_absent [OF sviewD(2) [OF v] assms(1)] assms(2) by (simp add: jq_keys_def)
  then show "run_state (getWaitingListElement s (wk k)) h = (Inl ErrElementNotFound, h)"
    by (rule run_getWaitingListElement_empty)
qed (use assms(3) in auto)

lemma headOf_fields [simp]:
  "FirstKey (headOf (fst q) (snd q)) = firstKeyOr (jq_keys q) []"
  "LastKey (headOf (fst q) (snd q)) = lastKeyOr [] (jq_keys q)"
  "Length (headOf (fst q) (snd q)) = of_nat (length (jq_keys q))"
  "LastJailedKey (headOf (fst q) (snd q)) = lastKeyOr [] (fst q)"
  by (simp_all add: headOf_def jq_keys_def)

lemma sview_queue:
  assumes "sview s L q D n h"
  shows "distinct (jq_keys q)" and "k \<in> set (jq_keys q) \<Longrightarrow> length k = L" and "length (jq_keys q) < 2 ^ 32"
  using wl_reprD [OF sviewD(2) [OF assms]] by (auto simp: jq_keys_def)

lemma triple_pre: "(\<And>h. P h \<Longrightarrow> triple P m Q) \<Longrightarrow> triple P m Q"
  by (auto simp: triple_def)

lemma sv_moveFirst:
  assumes inv: "ainv L q D n" and cap: "sint n + 1 < 2 ^ 63"
    and err: "\<And>e. triple (\<lambda>_. True) (f (Inl e)) Q"
    and none: "jq_keys q = [] \<Longrightarrow> triple (sview s L q D n) (f (Inr False)) Q"
    and moved: "\<And>k ks d. jq_keys q = k # ks \<Longrightarrow> length k = L \<Longrightarrow>
      ainv L (jq_remove k q) (D(k := d)) (n + 1) \<Longrightarrow> Staked d \<Longrightarrow>
      triple (sview s L (jq_remove k q) (D(k := d)) (n + 1)) (f (Inr True)) Q"
  shows "triple (sview s L q D n) (State_Monad.bind (moveFirstFromWaitingToStaked s) f) Q"
proof (rule triple_pre)
  fix h assume v: "sview s L q D n h"
  have err': "triple P (f (Inl e)) Q" for P e using err [of e] by (auto simp: triple_def)
  have zero: "(of_nat (length (jq_keys q)) :: u32) = 0 \<longleftrightarrow> jq_keys q = []"
    using of_nat_zero [OF sview_queue(3) [OF v]] by simp
  show "triple (sview s L q D n) (State_Monad.bind (moveFirstFromWaitingToStaked s) f) Q"
  proof (cases "jq_keys q")
    case Nil
    then show ?thesis unfolding moveFirstFromWaitingToStaked_def tryE_def
      by (intro sv) (auto intro: sv none)
  next
    case (Cons k ks)
    have k: "length k = L" "k \<in> set (jq_keys q)"
      using sview_queue(2) [OF v, of k] Cons by auto
    have "\<not> Staked (D k)" using inv k by (auto simp: ainv_def)
    then have act: "ainv L (jq_remove k q) (D(k := d)) (n + 1)" if "Staked d" "\<not> Waiting d" for d
      using ainv_activate [OF inv k(1) _ that cap] by simp
    show ?thesis unfolding moveFirstFromWaitingToStaked_def tryE_def Let_def
      by (intro sv sv_first_element [OF Cons] err' moved [where ks = ks])
         (use Cons k act zero in auto)
  qed
qed

lemma tryUnStake_inv:
  assumes inv: "ainv L q D n" and k: "length k = L" and d: "Staked (D k)"
  shows "triple (sview s L q D n) (tryUnStake s k d) (okInv s L)"
  unfolding tryUnStake_def doUnStake_def setUnStaked_def orFail_def
  by (intro sv) (use assms ainv_unstake(1) [OF assms, of newRegisteredData] in \<open>auto intro: ainv_intros\<close>)

lemma sv_checkUnStakeArgs:
  assumes k: "length (arg args 0) = L"
    and ok: "(Staked (D (arg args 0)) \<or> Waiting (D (arg args 0)) \<Longrightarrow>
         triple (sview s L q D n) (f (Inr (D (arg args 0)))) Q)"
    and err: "\<And>P. triple P (f (Inl UserError)) Q"
  shows "triple (sview s L q D n) (State_Monad.bind (checkUnStakeArgs s args) f) Q"
  unfolding checkUnStakeArgs_def Let_def
  by (intro sv err) (use k ok in auto)

lemma unStake_inv:
  assumes inv: "ainv L q D n" and k: "length (arg args 0) = L" and cap: "sint n + 1 < 2 ^ 63"
  shows "triple (sview s L q D n) (unStake s args) (okInv s L)"
  unfolding unStake_def unStakeV1_def unStakeV2_def orFail_def
  apply (intro sv sv_checkUnStakeArgs [OF k] sv_moveFirst [OF inv cap] tryUnStake_inv)
  using assms apply (auto intro: ainv_intros)
  done

lemma ainvD:
  assumes "ainv L q D n" and "length k = L"
  shows "Waiting (D k) \<longleftrightarrow> k \<in> set (jq_keys q)" and "Staked (D k) \<Longrightarrow> \<not> Waiting (D k)"
    and "Staked (D k) \<Longrightarrow> 0 < sint n" and "Staked (D k) \<Longrightarrow> k \<notin> set (jq_keys q)"
  using assms ainv_unstake(1) [OF assms, of newRegisteredData] by (auto simp: ainv_def)

lemma sview_keys_ok:
  assumes "\<And>k. k \<in> set (jq_keys q) \<Longrightarrow> length k = L \<Longrightarrow> triple (sview s L q D n) m Q"
    and "jq_keys q = [] \<Longrightarrow> triple (sview s L q D n) m Q"
  shows "triple (sview s L q D n) m Q"
proof (rule triple_pre)
  fix h assume "sview s L q D n h"
  then show "triple (sview s L q D n) m Q"
    using assms sview_queue(2) by (cases "jq_keys q") (metis list.set_intros(1))+
qed

lemma sv_erase [sv]:
  assumes "length k = L" and "triple (sview s L q (D(k := newRegisteredData)) n) (f ()) Q"
  shows "triple (sview s L q D n) (State_Monad.bind (SetStorage k []) f) Q"
proof (rule bind_run [where c = "()" and P' = "sview s L q (D(k := newRegisteredData)) n"])
  fix h assume v: "sview s L q D n h"
  note l = sview_len [OF v] and vd = sviewD [OF v]
  have "x \<noteq> k" if "wl_key L x" for x using that bls_not_wl_key [OF l assms(1)] by blast
  then have "wl_repr s L (stor (eei s) (setStor k [] h)) (fst q) (snd q)"
    by (intro wl_repr_cong [OF vd(2)]) (simp add: eei_frame)
  moreover have "k \<noteq> nodesConfigKey" using assms(1) l by auto
  ultimately have "sview s L q (D(k := newRegisteredData)) n (setStor k [] h)"
    using vd by (intro sviewI) (simp_all add: eei_frame)
  then show "\<exists>h'. run_state (SetStorage k []) h = ((), h') \<and> sview s L q (D(k := newRegisteredData)) n h'"
    by (simp add: eei_run)
qed (rule assms(2))

lemma sv_read:
  assumes "\<And>h. snd (run_state m h) = h" and "\<And>r. triple (sview s L q D n) (f r) Q"
  shows "triple (sview s L q D n) (State_Monad.bind m f) Q"
  unfolding triple_def
proof (intro allI impI)
  fix h assume v: "sview s L q D n h"
  obtain r h' where r: "run_state m h = (r, h')" by force
  with assms(1) [of h] have "h' = h" by simp
  then show "case run_state (State_Monad.bind m f) h of (r, h') \<Rightarrow> Q r h'"
    using r tripleD [OF assms(2) v] by (auto split: prod.splits)
qed

lemma sv_getStorage [sv]:
  assumes "\<And>r. triple (sview s L q D n) (f r) Q"
  shows "triple (sview s L q D n) (State_Monad.bind (GetStorage env k) f) Q"
  by (rule sv_read) (auto simp: eei_run assms)

lemma sv_get_any:
  assumes "\<And>r. triple (sview s L q D n) (f r) Q"
  shows "triple (sview s L q D n) (State_Monad.bind (getOrCreateRegisteredData s k) f) Q"
  by (rule sv_read) (auto simp: eei_run assms)

lemma sv_useGas [sv]:
  assumes "triple (sview s L q D n) (f (Inl ErrNotEnoughGas)) Q" and "triple (sview s L q D n) (f (Inr ())) Q"
  shows "triple (sview s L q D n) (State_Monad.bind (UseGas g) f) Q"
  using assms by (fastforce simp: triple_def UseGas_def)

lemma unStakeAtEndOfEpoch_inv:
  assumes inv: "ainv L q D n" and k: "length (arg args 0) = L"
  shows "triple (sview s L q D n) (unStakeAtEndOfEpoch s args) (okInv s L)"
  unfolding unStakeAtEndOfEpoch_def setUnStaked_def orFail_def
  by (intro sv) (use assms ainvD [OF assms] in \<open>auto intro: ainv_intros\<close>)

lemma unBond_inv:
  assumes inv: "ainv L q D n" and k: "length (arg args 0) = L"
  shows "triple (sview s L q D n) (unBond s args) (okInv s L)"
  unfolding unBond_def Let_def orFail_def
  by (intro sv) (use assms in \<open>auto intro: ainv_intros\<close>)

text \<open>The jailed node leaves after the first of the queue has taken its place.\<close>

lemma ainv_switch:
  assumes "ainv L q (D(k0 := d0)) (n + 1)" and "length k = L" and "k \<noteq> k0" and "Staked (D k)"
  shows "0 < sint (n + 1)" and "\<not> Staked d \<Longrightarrow> \<not> Waiting d \<Longrightarrow> ainv L q (D(k0 := d0, k := d)) n"
  using ainvD(3) [OF assms(1,2)] ainv_unstake(2) [OF assms(1,2), of d] assms(3,4) by auto

lemma switchJailedWithWaiting_inv:
  assumes inv: "ainv L q D n" and k: "length (arg args 0) = L" and cap: "sint n + 1 < 2 ^ 63"
  shows "triple (sview s L q D n) (switchJailedWithWaiting s args) (okInv s L)"
  unfolding switchJailedWithWaiting_def moveFirstFromWaitingToStakedIfNeeded_def tryRemoveJailedNodeFromStaked_def
    removeAndSetUnstaked_def orFail_def Let_def
  by (intro sv sv_no_element [OF k] sv_moveFirst [OF inv cap])
     (use assms ainvD [OF inv k] in \<open>auto intro: ainv_intros ainv_switch\<close>)

lemma changeRewardAddressLoop_inv:
  assumes "ainv L q D n" and "\<forall>k\<in>set ks. length k = L"
  shows "triple (sview s L q D n) (changeRewardAddressLoop s a ks) (okInv s L)"
  using assms
proof (induction ks arbitrary: D)
  case Nil
  then show ?case by (auto intro: sv)
next
  case (Cons k ks)
  show ?case unfolding changeRewardAddressLoop.simps orFail_def
    by (intro sv Cons.IH) (use Cons.prems in \<open>auto intro: ainv_intros simp del: fun_upd_apply\<close>)
qed

lemma changeOwnerLoop_inv:
  assumes "ainv L q D n" and "\<forall>k\<in>set ks. length k = L"
  shows "triple (sview s L q D n) (changeOwnerLoop s a ks) (okInv s L)"
  using assms
proof (induction ks arbitrary: D)
  case Nil
  then show ?case by (auto intro: sv)
next
  case (Cons k ks)
  show ?case unfolding changeOwnerLoop.simps orFail_def
    by (intro sv Cons.IH) (use Cons.prems in \<open>auto intro: ainv_intros simp del: fun_upd_apply\<close>)
qed

fun everySecond :: "'a list \<Rightarrow> 'a list" where
  "everySecond (x # y # xs) = x # everySecond xs"
| "everySecond xs = []"

lemma setOwnersLoop_inv:
  assumes "ainv L q D n" and "\<forall>k\<in>set (everySecond ks). length k = L"
  shows "triple (sview s L q D n) (setOwnersLoop s i ks) (okInv s L)"
  using assms
proof (induction ks arbitrary: D i rule: everySecond.induct)
  case (1 k a ks)
  show ?case unfolding setOwnersLoop.simps Let_def
    by (intro sv "1.IH") (use "1.prems" in \<open>auto intro: ainv_intros simp del: fun_upd_apply\<close>)
qed (auto intro: sv)

lemma updateConfig_inv:
  assumes "ainv L q D n"
  shows "triple (sview s L q D n) (updateConfigMinNodes s args) (okInv s L)"
    and "triple (sview s L q D n) (updateConfigMaxNodes s args) (okInv s L)"
  unfolding updateConfigMinNodes_def updateConfigMaxNodes_def Let_def
  by (intro sv; use assms in auto)+

lemma sv_getStakedData [sv]:
  assumes "\<And>r. r \<noteq> Inl Ok \<Longrightarrow> triple (sview s L q D n) (f r) Q"
  shows "triple (sview s L q D n) (State_Monad.bind (getStakedDataIfExists s args) f) Q"
  unfolding getStakedDataIfExists_def Let_def
  by (intro sv sv_get_any) (auto intro!: sv assms split: sum.split)

lemma sv_ret: "ainv L q D n \<Longrightarrow> triple (sview s L q D n) (return code) (okInv s L)"
  unfolding triple_def okPost_def stakingInv_def by fastforce

lemma views_inv:
  assumes inv: "ainv L q D n"
  shows "triple (sview s L q D n) (getSC s args) (okInv s L)"
    and "triple (sview s L q D n) (isStaked s args) (okInv s L)"
    and "triple (sview s L q D n) (getRewardAddress s args) (okInv s L)"
    and "triple (sview s L q D n) (getBLSKeyStatus s args) (okInv s L)"
    and "triple (sview s L q D n) (getTotalNumberOfRegisteredNodes s args) (okInv s L)"
    and "triple (sview s L q D n) (getRemainingUnbondPeriod s args) (okInv s L)"
    and "triple (sview s L q D n) (getOwner s args) (okInv s L)"
    and "triple (sview s L q D n) (getWaitingListSize s args) (okInv s L)"
  unfolding getSC_def isStaked_def getRewardAddress_def getBLSKeyStatus_def
    getTotalNumberOfRegisteredNodes_def getRemainingUnbondPeriod_def getOwner_def getWaitingListSize_def
    orFail_def Let_def
  by (intro sv sv_get_any triple_case_sum sv_ret inv)+


lemma sv_elements [sv]:
  assumes "\<And>w. blsKeys w = jq_keys q \<Longrightarrow> stakedDataList w = map D (jq_keys q) \<Longrightarrow>
    triple (sview s L q D n) (f (Inr w)) Q"
  shows "triple (sview s L q D n) (State_Monad.bind (getFirstElementsFromWaitingList s MaxUint32) f) Q"
  unfolding triple_def
proof (intro allI impI)
  fix h assume v: "sview s L q D n h"
  note vd = sviewD [OF v]
  have "length (jq_keys q) \<le> unat MaxUint32"
    using sview_queue(3) [OF v] by (simp add: MaxUint32_def)
  then have all: "take (unat MaxUint32) (fst q @ snd q) = jq_keys q" by (simp add: jq_keys_def)
  have "\<forall>k\<in>set (fst q @ snd q). decStaked s (stor (eei s) h k) = Inr (D k)"
    using sview_queue(2) [OF v] vd(3) by (auto simp: jq_keys_def)
  from run_getFirstElementsFromWaitingList [OF vd(2) this, of MaxUint32]
  obtain w where w: "run_state (getFirstElementsFromWaitingList s MaxUint32) h = (Inr w, h)"
    "blsKeys w = jq_keys q" "stakedDataList w = map D (jq_keys q)"
    unfolding all by (metis waitingListReturnData.select_convs(1,2))
  then show "case run_state (State_Monad.bind (getFirstElementsFromWaitingList s MaxUint32) f) h of (r, h') \<Rightarrow> Q r h'"
    using tripleD [OF assms [OF w(2,3)] v] by (auto split: prod.splits)
qed

lemma checkValidatorFunds_reads: "snd (run_state (checkValidatorFunds s m owner price) h) = h"
proof -
  have count: "snd (run_state (countNodesWithMinStake s ks i) h) = h" for ks i
    by (induction ks arbitrary: i) (auto simp: eei_run split: sum.splits)
  show ?thesis
    using count unfolding checkValidatorFunds_def
    by (auto simp: GetStorageFromAddress_def Let_def eei_run split: option.splits sum.splits prod.splits)
       (metis snd_conv)+
qed

lemma sv_funds [sv]:
  assumes "\<And>r. triple (sview s L q D n) (f r) Q"
  shows "triple (sview s L q D n) (State_Monad.bind (checkValidatorFunds s m owner price) f) Q"
  by (rule sv_read) (auto simp: checkValidatorFunds_reads assms)

lemma forEach_Finish: "triple (sview s L q D n) (forEach xs Finish) (\<lambda>_. sview s L q D n)"
  by (induction xs) (auto intro!: sv triple_returnI)

lemma sv_case_prod [sv]:
  "(\<And>a b. x = (a, b) \<Longrightarrow> triple P (f a b) Q) \<Longrightarrow> triple P (case x of (a, b) \<Rightarrow> f a b) Q"
  by (cases x) simp

definition resInv :: "stakingSC \<Rightarrow> nat \<Rightarrow> 'a result \<Rightarrow> vmContext \<Rightarrow> bool" where
  "resInv s L r h \<longleftrightarrow> (\<forall>x. r = Inr x \<longrightarrow> stakingInv s L h)"

lemma sv_resInv [sv]:
  "triple P (return (Inl e)) (resInv s L)"
  "ainv L q D n \<Longrightarrow> triple (sview s L q D n) (return (Inr x)) (resInv s L)"
  unfolding triple_def resInv_def stakingInv_def by fastforce+

lemma setUnStaked_fields [simp]:
  "Staked (setUnStaked s d) = False" "Waiting (setUnStaked s d) = False"
  by (simp_all add: setUnStaked_def)

lemma others_ne: "distinct (map fst (x # xs)) \<Longrightarrow> \<forall>y\<in>set xs. fst y \<noteq> fst x"
  by (induction xs) auto

lemma zip_self_map: "zip xs (map f xs) = map (\<lambda>x. (x, f x)) xs"
  by (induction xs) auto

lemma cleanQueueLoop_inv:
  assumes "ainv L q D n" and "\<forall>node\<in>set nodes. length (fst node) = L \<and> fst node \<in> set (jq_keys q)"
    and "distinct (map fst nodes)"
  shows "triple (sview s L q D n) (cleanQueueLoop s nodes m acc) (resInv s L)"
  using assms
proof (induction nodes arbitrary: q D m acc)
  case Nil
  then show ?case by (auto intro: sv)
next
  case (Cons node nodes)
  have k: "length (fst node) = L" "\<not> Staked (D (fst node))"
    and rest: "\<forall>node\<in>set nodes. length (fst node) = L \<and> fst node \<in> set (jq_keys q)"
    using Cons.prems(1,2) ainvD(4) [OF Cons.prems(1), of "fst node"] by auto
  have dist: "distinct (map fst nodes)" using Cons.prems(3) by simp
  have deq: "ainv L (jq_remove (fst node) q) (D(fst node := reread s (setUnStaked s (D (fst node))))) n"
    using ainv_dequeue [OF Cons.prems(1) k] by simp
  have rest': "\<forall>node'\<in>set nodes. length (fst node') = L \<and> fst node' \<in> set (jq_keys (jq_remove (fst node) q))"
    using rest others_ne [OF Cons.prems(3)] jq_keys_remove [of q "fst node"] Cons.prems(1)
    by (simp add: ainv_def)
  show ?case unfolding cleanQueueLoop.simps Let_def tryE_def
    by (intro sv triple_case_sum Cons.IH) (rule Cons.prems(1) k(1) rest dist deq rest')+
qed

lemma sv_inv_post:
  assumes "triple P m (resInv s L)" and "\<And>e. triple (\<lambda>_. True) (f (Inl e)) Q"
    and "\<And>x q D n. ainv L q D n \<Longrightarrow> triple (sview s L q D n) (f (Inr x)) Q"
  shows "triple P (State_Monad.bind m f) Q"
proof (rule triple_bind [OF assms(1)])
  fix r :: "'a result"
  show "triple (resInv s L r) (f r) Q"
  proof (cases r)
    case (Inl e)
    then show ?thesis using assms(2) [of e] by (auto simp: triple_def)
  next
    case (Inr x)
    show ?thesis unfolding triple_def Inr
    proof (intro allI impI)
      fix h assume "resInv s L (Inr x) h"
      then obtain q D n where v: "sview s L q D n h" "ainv L q D n"
        unfolding resInv_def stakingInv_def by blast
      show "case run_state (f (Inr x)) h of (r, h') \<Rightarrow> Q r h'"
        using tripleD [OF assms(3) [OF v(2)] v(1)] by (auto split: prod.splits)
    qed
  qed
qed

lemma sv_forEach:
  assumes "\<And>x f. triple (sview s L q D n) (f ()) Q \<Longrightarrow> triple (sview s L q D n) (State_Monad.bind (g x) f) Q"
    and "triple (sview s L q D n) (f ()) Q"
  shows "triple (sview s L q D n) (State_Monad.bind (forEach xs g) f) Q"
  by (induction xs) (auto intro!: sv_nested sv_return_bind assms)

lemma cleanAdditionalQueue_inv:
  assumes inv: "ainv L q D n"
  shows "triple (sview s L q D n) (cleanAdditionalQueue s args) (okInv s L)"
proof (rule triple_pre)
  fix h assume v: "sview s L q D n h"
  have keys: "\<forall>node\<in>set (rev (zip (jq_keys q) (map D (jq_keys q)))). length (fst node) = L \<and> fst node \<in> set (jq_keys q)"
    "distinct (map fst (rev (zip (jq_keys q) (map D (jq_keys q)))))"
    using sview_queue(1,2) [OF v] by (auto simp: zip_self_map rev_map comp_def)
  show "triple (sview s L q D n) (cleanAdditionalQueue s args) (okInv s L)"
    unfolding cleanAdditionalQueue_def cleanAdditionalQueueNotEnoughFunds_def orFail_def
    apply (intro sv sv_inv_post [where s = s and L = L] sv_forEach)
    using inv keys apply (auto intro!: cleanQueueLoop_inv)
    done
qed

definition countInv :: "stakingSC \<Rightarrow> nat \<Rightarrow> i64 \<Rightarrow> u64 result \<Rightarrow> vmContext \<Rightarrow> bool" where
  "countInv s L n r h \<longleftrightarrow> (\<forall>m. r = Inr m \<longrightarrow> (\<exists>q D. sview s L q D n h \<and> ainv L q D (n + m)))"

lemma sv_countInv [sv]:
  "triple P (return (Inl e)) (countInv s L n)"
  "ainv L q D (n + m) \<Longrightarrow> triple (sview s L q D n) (return (Inr m)) (countInv s L n)"
  unfolding triple_def countInv_def by fastforce+

lemma stakeFromQueueLoop_inv:
  assumes "ainv L q D (n + c)"
    and "\<forall>node\<in>set nodes. length (fst node) = L \<and> fst node \<in> set (jq_keys q) \<and> snd node = D (fst node)"
    and "distinct (map fst nodes)" and "sint (n + c) + int (length nodes) < 2 ^ 63"
  shows "triple (sview s L q D n) (stakeFromQueueLoop s num price nodes c m) (countInv s L n)"
  using assms
proof (induction nodes arbitrary: q D c m)
  case Nil
  then show ?case by (auto intro: sv)
next
  case (Cons node nodes)
  have k: "length (fst node) = L" "\<not> Staked (D (fst node))" "snd node = D (fst node)"
    and rest: "\<forall>node\<in>set nodes. length (fst node) = L \<and> fst node \<in> set (jq_keys q) \<and> snd node = D (fst node)"
    using Cons.prems(1,2) ainvD(4) [OF Cons.prems(1), of "fst node"] by auto
  have dist: "distinct (map fst nodes)" using Cons.prems(3) by simp
  have cap: "sint (n + c) + 1 < 2 ^ 63" "sint (n + c) + int (length nodes) < 2 ^ 63"
    using Cons.prems(4) by simp_all
  let ?D = "D(fst node := reread s (activeStakingFor s (snd node)))"
  have act: "ainv L (jq_remove (fst node) q) ?D (n + (c + 1))"
    using ainv_activate [OF Cons.prems(1) k(1,2), of "activeStakingFor s (snd node)"] cap by (simp add: add.assoc)
  have "0 \<le> sint (n + c)" using Cons.prems(1) by (simp add: ainv_def)
  then have cap': "sint (n + (c + 1)) + int (length nodes) < 2 ^ 63"
    using sint_inc [of "n + c"] Cons.prems(4) by (simp add: add.assoc)
  have rest': "\<forall>node'\<in>set nodes. length (fst node') = L \<and>
      fst node' \<in> set (jq_keys (jq_remove (fst node) q)) \<and> snd node' = ?D (fst node')"
    using rest others_ne [OF Cons.prems(3)] jq_keys_remove [of q "fst node"] Cons.prems(1)
    by (simp add: ainv_def)
  show ?case unfolding stakeFromQueueLoop.simps Let_def tryE_def
    by (intro sv triple_case_sum Cons.IH) (rule Cons.prems(1) k(1) rest dist cap act cap' rest')+
qed

lemma sv_stakeLoop:
  assumes "triple P m (countInv s L n)" and "\<And>e. triple (\<lambda>_. True) (f (Inl e)) Q"
    and "\<And>x q D. ainv L q D (n + x) \<Longrightarrow> triple (sview s L q D n) (f (Inr x)) Q"
  shows "triple P (State_Monad.bind m f) Q"
proof (rule triple_bind [OF assms(1)])
  fix r
  show "triple (countInv s L n r) (f r) Q"
  proof (cases r)
    case (Inl e)
    then show ?thesis using assms(2) [of e] by (auto simp: triple_def)
  next
    case (Inr x)
    show ?thesis unfolding triple_def Inr
    proof (intro allI impI)
      fix h assume "countInv s L n (Inr x) h"
      then obtain q D where v: "sview s L q D n h" "ainv L q D (n + x)"
        unfolding countInv_def by blast
      show "case run_state (f (Inr x)) h of (r, h') \<Rightarrow> Q r h'"
        using tripleD [OF assms(3) [OF v(2)] v(1)] by (auto split: prod.splits)
    qed
  qed
qed

lemma stakeNodesFromQueue_inv:
  assumes inv: "ainv L q D n" and cap: "sint n + 2 ^ 32 < 2 ^ 63"
  shows "triple (sview s L q D n) (stakeNodesFromQueue s args) (okInv s L)"
proof (rule triple_pre)
  fix h assume v: "sview s L q D n h"
  have keys: "\<forall>node\<in>set (zip (jq_keys q) (map D (jq_keys q))).
      length (fst node) = L \<and> fst node \<in> set (jq_keys q) \<and> snd node = D (fst node)"
    "distinct (map fst (zip (jq_keys q) (map D (jq_keys q))))"
    using sview_queue(1,2) [OF v] by (auto simp: zip_self_map comp_def)
  have len: "sint n + int (length (zip (jq_keys q) (map D (jq_keys q)))) < 2 ^ 63"
    using sview_queue(3) [OF v] cap by simp
  show "triple (sview s L q D n) (stakeNodesFromQueue s args) (okInv s L)"
    unfolding stakeNodesFromQueue_def orFail_def Let_def
    apply (intro sv sv_stakeLoop [where s = s and L = L and n = n])
    using inv keys len apply (auto intro!: stakeFromQueueLoop_inv)
    done
qed

lemma ainv_keys: "jq_keys q' = jq_keys q \<Longrightarrow> ainv L q' D n = ainv L q D n"
  by (simp add: ainv_def)

lemma sv_saveHead:
  assumes "jq_keys q' = jq_keys q" and "w = headOf (fst q') (snd q')" and "triple (sview s L q' D n) (f (Inr ())) Q"
  shows "triple (sview s L q D n) (State_Monad.bind (saveWaitingListHead s w) f) Q"
proof (rule bind_run [where c = "Inr ()" and P' = "sview s L q' D n"])
  fix h assume v: "sview s L q D n h"
  note c = sview_codec [OF v] and l = sview_len [OF v] and vd = sviewD [OF v]
  let ?h = "setStor waitingListHeadKey (encHead s w) h"
  have "wl_repr s L (stor (eei s) ?h) (fst q') (snd q')"
    using vd(2) assms(1,2) c unfolding wl_repr_def jq_keys_def
    by (simp add: eei_frame)
  moreover have "waitingListHeadKey \<noteq> k" if "length k = L" for k using that l by auto
  ultimately have "sview s L q' D n ?h"
    using vd by (intro sviewI) (auto simp: eei_frame)
  then show "\<exists>h'. run_state (saveWaitingListHead s w) h = (Inr (), h') \<and> sview s L q' D n h'"
    by (simp add: eei_run c)
qed (rule assms(3))

lemma resetLastUnJailedFromQueue_inv:
  assumes inv: "ainv L q D n"
  shows "triple (sview s L q D n) (resetLastUnJailedFromQueue s args) (okInv s L)"
proof -
  have q: "jq_keys ([], jq_keys q) = jq_keys q" by (simp add: jq_keys_def)
  have w: "(headOf (fst q) (snd q))\<lparr>LastJailedKey := []\<rparr> = headOf (fst ([], jq_keys q)) (snd ([], jq_keys q))"
    by (simp add: headOf_def jq_keys_def)
  show ?thesis unfolding resetLastUnJailedFromQueue_def orFail_def
    by (intro sv sv_saveHead [OF q w]) (use inv ainv_keys [OF q] in auto)
qed

lemma fixQueueLoop_run:
  assumes "dll (elemAt s (stor (eei s) h)) p ks []" and "ks \<noteq> []" and "length ks \<le> m"
    and "\<forall>k\<in>set ks. length k = L \<and> (\<exists>d. decStaked s (stor (eei s) h k) = Inr d)"
  shows "run_state (fixQueueLoop s w m i (firstKeyOr ks []) found) h =
    (Inr (i + of_nat (length ks - 1), lastKeyOr [] ks, found \<or> LastJailedKey w \<in> wk ` set ks), h)"
  using assms
proof (induction ks arbitrary: p m i found)
  case Nil
  then show ?case by simp
next
  case (Cons k ks)
  then obtain m' where m: "m = Suc m'" by (cases m) auto
  obtain d where e: "elemAt s (stor (eei s) h) (wk k) =
      Some \<lparr>BLSPublicKey = k, PreviousKey = p, NextKey = firstKeyOr ks []\<rparr>"
    and d: "decStaked s (stor (eei s) h k) = Inr d"
    using Cons.prems by auto
  show ?case
  proof (cases ks)
    case Nil
    then show ?thesis using e d m by (auto simp: eei_run Let_def)
  next
    case (Cons k' ks')
    then have "run_state (fixQueueLoop s w m i (wk k) found) h =
        run_state (fixQueueLoop s w m' (i + 1) (firstKeyOr ks []) (found \<or> LastJailedKey w = wk k)) h"
      using e d m Cons.prems by (auto simp: eei_run Let_def goCopy_same_length)
    also have "\<dots> = (Inr (i + 1 + of_nat (length ks - 1), lastKeyOr [] ks,
        (found \<or> LastJailedKey w = wk k) \<or> LastJailedKey w \<in> wk ` set ks), h)"
      using Cons.IH [of "wk k" m'] Cons.prems Cons m by simp
    finally show ?thesis using Cons by (auto simp: algebra_simps)
  qed
qed


lemma sv_run:
  assumes "\<And>h. sview s L q D n h \<Longrightarrow> run_state m h = (c, h)" and "triple (sview s L q D n) (f c) Q"
  shows "triple (sview s L q D n) (State_Monad.bind m f) Q"
  by (rule bind_run [where c = c and P' = "sview s L q D n"]) (use assms in auto)

lemma fixWaitingListQueueSize_view:
  "triple (sview s L q D n) (fixWaitingListQueueSize s args) (okPost (sview s L q D n))"
proof (rule triple_pre)
  fix h assume v: "sview s L q D n h"
  let ?w = "headOf (fst q) (snd q)" and ?ks = "jq_keys q"
  have len: "unat (of_nat (length ?ks) :: u32) = length ?ks"
    using sview_queue(3) [OF v] by (rule unat_len)
  have loop: "run_state (fixQueueLoop s ?w (unat (Length ?w)) 1
        (goCopy (makeBytes (length (FirstKey ?w))) (FirstKey ?w)) (length (LastJailedKey ?w) = 0)) h' =
      (Inr (of_nat (length ?ks), lastKeyOr [] ?ks, True), h')" if ne: "?ks \<noteq> []" and v': "sview s L q D n h'" for h'
  proof -
    have d: "dll (elemAt s (stor (eei s) h')) (firstKeyOr ?ks []) ?ks []"
      using wl_reprD(5) [OF sviewD(2) [OF v']] by (simp add: jq_keys_def)
    have ok: "\<forall>k\<in>set ?ks. length k = L \<and> (\<exists>d. decStaked s (stor (eei s) h' k) = Inr d)"
      using sview_queue(2) [OF v'] sviewD(3) [OF v'] by blast
    have found: "length (lastKeyOr [] (fst q)) = 0 \<or> lastKeyOr [] (fst q) \<in> wk ` set ?ks"
      by (auto simp: lastKeyOr_cases jq_keys_def)
    have "(1::u32) + of_nat (length ?ks - 1) = of_nat (length ?ks)"
      using ne by (cases ?ks) simp_all
    then show ?thesis
      using fixQueueLoop_run [OF d ne _ ok, of "unat (Length ?w)" ?w 1 "length (LastJailedKey ?w) = 0"] len found
      by simp
  qed
  have same: "?w\<lparr>Length := of_nat (length ?ks), LastKey := lastKeyOr [] ?ks\<rparr> = ?w"
    by (simp add: headOf_def jq_keys_def)
  have short: "\<not> Length ?w \<le> 1 \<Longrightarrow> ?ks \<noteq> []" by auto
  show "triple (sview s L q D n) (fixWaitingListQueueSize s args) (okPost (sview s L q D n))"
    unfolding fixWaitingListQueueSize_def orFail_def Let_def
    apply (intro sv)
    apply (rule sv_run)
    apply (rule loop [OF short], assumption, assumption)
    apply (simp add: same)
    apply (intro sv_saveHead [of q q, OF refl refl] sv)
    done
qed

lemma okPost_view_inv:
  "ainv L q D n \<Longrightarrow> triple P m (okPost (sview s L q D n)) \<Longrightarrow> triple P m (okInv s L)"
  by (erule triple_weaken) (auto simp: okPost_def stakingInv_def simp del: split_paired_Ex)

lemma sv_element_any:
  assumes "\<And>r. triple (sview s L q D n) (f r) Q"
  shows "triple (sview s L q D n) (State_Monad.bind (getWaitingListElement s key) f) Q"
  by (rule sv_read) (auto simp: getWaitingListElement_def eei_run assms)

lemma addMissingNodeToQueue_inv:
  assumes inv: "ainv L q D n" and k: "length (arg args 0) = L"
  shows "triple (sview s L q D n) (addMissingNodeToQueue s args) (okInv s L)"
proof (cases "arg args 0 \<in> set (jq_keys q)")
  case True
  then show ?thesis unfolding addMissingNodeToQueue_def orFail_def
    by (intro sv sv_element [OF True]) auto
next
  case False
  show ?thesis unfolding addMissingNodeToQueue_def orFail_def
    by (intro sv sv_no_element [OF k False])
qed

lemma waitingIndexLoop_reads: "snd (run_state (waitingIndexLoop s m i key next) h) = h"
  by (induction s m i key "next" rule: waitingIndexLoop.induct)
     (auto simp: getWaitingListElement_def eei_run split: sum.splits prod.splits)

lemma queue_views_inv:
  assumes inv: "ainv L q D n"
  shows "triple (sview s L q D n) (getWaitingListIndex s args) (okInv s L)"
    and "triple (sview s L q D n) (getWaitingListRegisterNonceAndRewardAddress s args) (okInv s L)"
  unfolding getWaitingListIndex_def getWaitingListRegisterNonceAndRewardAddress_def orFail_def Let_def
   apply (intro sv sv_element_any triple_case_sum inv)
   apply (rule sv_read [OF waitingIndexLoop_reads])
   apply (intro sv triple_case_sum inv)
   apply (auto split: option.split intro!: sv inv)[1]
  apply (intro sv sv_forEach inv)
  subgoal for w x f by (cases x) (auto intro!: sv)
  done

lemma loops_inv:
  assumes inv: "ainv L q D n"
  shows "\<forall>k\<in>set (Arguments args). length k = L \<Longrightarrow> triple (sview s L q D n) (jail s args) (okInv s L)"
    and "\<forall>k\<in>set (Arguments args). length k = L \<Longrightarrow> triple (sview s L q D n) (unJailV1 s args) (okInv s L)"
    and "\<forall>k\<in>set (tl (Arguments args)). length k = L \<Longrightarrow> triple (sview s L q D n) (changeRewardAddress s args) (okInv s L)"
    and "\<forall>k\<in>set (tl (Arguments args)). length k = L \<Longrightarrow> triple (sview s L q D n) (changeOwnerAndRewardAddress s args) (okInv s L)"
    and "\<forall>k\<in>set (everySecond (Arguments args)). length k = L \<Longrightarrow> triple (sview s L q D n) (setOwnersOnAddresses s args) (okInv s L)"
    and "triple (sview s L q D n) (changeValidatorKey s args) (okInv s L)"
    and "triple (sview s L q D n) (slash s args) (okInv s L)"
  unfolding jail_def unJailV1_def changeRewardAddress_def changeOwnerAndRewardAddress_def setOwnersOnAddresses_def
    changeValidatorKey_def slash_def
  by (intro sv jailLoop_inv unJailV1Loop_inv changeRewardAddressLoop_inv changeOwnerLoop_inv setOwnersLoop_inv inv; simp)+

section \<open>Every call keeps the invariant\<close>

text \<open>The arguments that a function of the contract uses as BLS keys.\<close>

definition blsArguments :: "ContractCallInput \<Rightarrow> bytes list" where
  "blsArguments args =
     (if Function args \<in> {''stake'', ''register'', ''unStake'', ''unBond'', ''switchJailedWithWaiting'',
        ''unStakeAtEndOfEpoch'', ''addMissingNodeToQueue''} then take 1 (Arguments args)
      else if Function args \<in> {''jail'', ''unJail''} then Arguments args
      else if Function args \<in> {''changeRewardAddress'', ''changeOwnerAndRewardAddress''} then tl (Arguments args)
      else if Function args = ''setOwnersOnAddresses'' then everySecond (Arguments args)
      else [])"

lemma no_arguments:
  assumes "Arguments args = []"
  shows "triple P (stake s args b) (okInv s L)" "triple P (unStake s args) (okInv s L)"
    "triple P (unBond s args) (okInv s L)" "triple P (switchJailedWithWaiting s args) (okInv s L)"
    "triple P (unStakeAtEndOfEpoch s args) (okInv s L)" 
  using assms
  by (auto simp: stake_def unStake_def unStakeV1_def unStakeV2_def checkUnStakeArgs_def unBond_def
      switchJailedWithWaiting_def unStakeAtEndOfEpoch_def triple_def okPost_def retWith_def Let_def split: prod.splits)

lemma no_argument_missing:
  assumes "Arguments args = []"
  shows "triple (sview s L q D n) (addMissingNodeToQueue s args) (okInv s L)"
  unfolding addMissingNodeToQueue_def by (intro sv) (use assms in auto)

lemma Execute_inv:
  assumes inv: "ainv L q D n" and keys: "\<forall>k\<in>set (blsArguments args). length k = L"
    and cap: "Suc (length (jq_keys q)) < 2 ^ 32" "sint n + 2 ^ 32 < 2 ^ 63"
    and v4: "flag s StakingV4StartedFlag \<longrightarrow> jq_keys q = []"
    and f: "Function args \<noteq> SCDeployInitFunctionName (eei s)" "Function args \<noteq> ''unStakeAllNodesFromQueue''"
  shows "triple (sview s L q D n) (Execute s container (Some args)) (okInv s L)"
proof -
  have n: "sint n + 1 < 2 ^ 63" using cap(2) by simp
  have k: "length (arg args 0) = L" if "Arguments args \<noteq> []" "blsArguments args = take 1 (Arguments args)"
    using keys that by (cases "Arguments args") auto
  have first': "triple (sview s L q D n) (stake s args b) (okInv s L)"
    "triple (sview s L q D n) (unStake s args) (okInv s L)" "triple (sview s L q D n) (unBond s args) (okInv s L)"
    "triple (sview s L q D n) (switchJailedWithWaiting s args) (okInv s L)"
    "triple (sview s L q D n) (unStakeAtEndOfEpoch s args) (okInv s L)"
    "triple (sview s L q D n) (addMissingNodeToQueue s args) (okInv s L)"
    if "blsArguments args = take 1 (Arguments args)" for b
  proof -
    have k: "Arguments args = [] \<or> length (arg args 0) = L" using k that by blast
    show "triple (sview s L q D n) (stake s args b) (okInv s L)"
      using k no_arguments(1) stake_inv [OF inv _ cap(1) n v4] by blast
    show "triple (sview s L q D n) (unStake s args) (okInv s L)"
      using k no_arguments(2) unStake_inv [OF inv _ n] by blast
    show "triple (sview s L q D n) (unBond s args) (okInv s L)"
      using k no_arguments(3) unBond_inv [OF inv] by blast
    show "triple (sview s L q D n) (switchJailedWithWaiting s args) (okInv s L)"
      using k no_arguments(4) switchJailedWithWaiting_inv [OF inv _ n] by blast
    show "triple (sview s L q D n) (unStakeAtEndOfEpoch s args) (okInv s L)"
      using k no_arguments(5) unStakeAtEndOfEpoch_inv [OF inv] by blast
    show "triple (sview s L q D n) (addMissingNodeToQueue s args) (okInv s L)"
      using k no_argument_missing addMissingNodeToQueue_inv [OF inv] by blast
  qed
  have unJail: "triple (sview s L q D n) (unJail s args) (okInv s L)" if "blsArguments args = Arguments args"
    using unJail_inv [OF inv _ cap(1) n v4] loops_inv(2) [OF inv] keys that
    by (cases "flag s StakeFlag") (auto simp: unJail_def)
  note rest = loops_inv [OF inv] views_inv [OF inv] queue_views_inv [OF inv] updateConfig_inv [OF inv]
    stakeNodesFromQueue_inv [OF inv cap(2)] cleanAdditionalQueue_inv [OF inv] resetLastUnJailedFromQueue_inv [OF inv]
    okPost_view_inv [OF inv fixWaitingListQueueSize_view]
  show ?thesis unfolding Execute_def Let_def option.sel
    by (intro sv first' unJail rest) (use keys f in \<open>simp_all add: blsArguments_def\<close>)
qed

end
