(* ===== verification/WaitingListProperties.thy ===== *)
theory WaitingListProperties
  imports StakingInvariant Codec
begin

text \<open>
  The properties of the waiting list: insertion, removal and traversal implement the
  abstract queue of \<^verbatim>\<open>WaitingQueue\<close>, in any order and number, and the position a client asks
  for is the position in the queue.
\<close>

section \<open>Examples\<close>

lemma wl_rep_empty:
  assumes "sc_ok s L" and "\<And>k. stor (eei s) h k = []"
  shows "wl_rep s L h ([], [])"
  using assms by (simp add: wl_rep_def wl_repr_def headAt_def emptyWaitingList_def headOf_def)

abbreviation "keyA \<equiv> replicate 12 CHR ''a''"
abbreviation "keyB \<equiv> replicate 12 CHR ''b''"
abbreviation "keyC \<equiv> replicate 12 CHR ''c''"
abbreviation "exSC \<equiv> exampleSC flagsV3 1"

lemma exampleSC_ok: "11 < L \<Longrightarrow> sc_ok (exampleSC flagsV3 m) L" "11 < L \<Longrightarrow> sc_ok (exampleSC flagsV4 m) L"
  by (simp_all add: sc_ok_def codec_ok_fieldMarshalizer flagsV3_def flagsV4_def)

lemma exSC_ok: "sc_ok exSC 12"
  by (rule exampleSC_ok) simp

lemma exSC_empty: "wl_rep exSC 12 emptyContext ([], [])"
  by (rule wl_rep_empty [OF exSC_ok]) simp

lemma wl_add_frame:
  assumes "wl_rep s L h q" and "length k = L" and "length (jq_keys q) + 1 < 2 ^ 32"
  shows "\<exists>h'. run_state (addToWaitingList s k j) h = (Inr (), h') \<and>
    wl_rep s L h' (jq_add k j q) \<and> wl_frame s L h h'"
proof (cases "k \<in> set (jq_keys q)")
  case True
  then show ?thesis
    using assms(1) addToWaitingList_present [of s L h "fst q" "snd q" k j]
    by (auto simp: wl_rep_def jq_keys_def jq_add_def)
next
  case False
  have r: "sc_ok s L" "wl_repr s L (stor (eei s) h) (fst q) (snd q)" using assms(1) by (simp_all add: wl_rep_def)
  from addToWaitingList_absent [OF r assms(2), of j] False assms(3)
  show ?thesis using r(1) by (auto simp: wl_rep_def jq_add_def jq_keys_def split: if_splits)
qed

section \<open>The list is a queue\<close>

text \<open>
  C22. Insertion: a key that is not in the list is appended to the nodes that came back from jail or to the
  others, as asked, the list stays well linked, and nothing outside the list changes; a key that is in the
  list is left where it is.
\<close>

theorem addToWaitingList_refines:
  assumes "wl_rep s L h q" and "length k = L" and "length (jq_keys q) + 1 < 2 ^ 32"
  shows "\<exists>h'. run_state (addToWaitingList s k addJailed) h = (Inr (), h') \<and>
    wl_rep s L h' (jq_add k addJailed q) \<and> wl_frame s L h h'"
  using assms by (rule wl_add_frame)

theorem addToWaitingList_refines_witness:
  "\<exists>h'. run_state (addToWaitingList exSC keyA True) emptyContext = (Inr (), h') \<and> wl_rep exSC 12 h' ([keyA], [])"
  using addToWaitingList_refines [OF exSC_empty, of keyA True] by (auto simp: jq_keys_def jq_add_def)

text \<open>
  C21. Removal: the key, wherever it is, leaves the list, the others keep their order and their class, and nothing
  outside the list changes; removing a key that is not in the list changes nothing.
\<close>

theorem removeFromWaitingList_refines:
  assumes "wl_rep s L h q" and "length k = L"
  shows "\<exists>h'. run_state (removeFromWaitingList s k) h = (Inr (), h') \<and>
    wl_rep s L h' (jq_remove k q) \<and> wl_frame s L h h' \<and> (k \<notin> set (jq_keys q) \<longrightarrow> h' = h)"
proof -
  have r: "sc_ok s L" "wl_repr s L (stor (eei s) h) (fst q) (snd q)" using assms(1) by (simp_all add: wl_rep_def)
  show ?thesis
    using removeFromWaitingList_run [OF r assms(2)] removeFromWaitingList_absent [OF r(2) assms(2)] r(1)
    by (auto simp: wl_rep_def jq_remove_def jq_keys_def)
qed

theorem removeFromWaitingList_refines_witness:
  "\<exists>h h'. wl_rep exSC 12 h ([keyA], [keyB]) \<and> run_state (removeFromWaitingList exSC keyB) h = (Inr (), h') \<and>
     wl_rep exSC 12 h' ([keyA], [])"
proof -
  obtain h where h: "wl_rep exSC 12 h ([keyA], [keyB])"
    using wl.steps_rep [OF exSC_empty, of "[QAdd keyB False, QAdd keyA True]"]
    by (auto simp: jq_keys_def jq_add_def)
  show ?thesis
    using h removeFromWaitingList_refines [OF h, of keyB] by (auto simp: jq_remove_def)
qed

text \<open>
  C7. Simulation: any sequence of insertions and removals of keys succeeds on the stored list
  and ends in the representation of what the same sequence makes of the abstract queue.
\<close>

theorem operations_simulate_queue:
  assumes "wl_rep s L h q" and "\<forall>op\<in>set ops. length (op_key op) = L"
    and "length (jq_keys q) + length ops < 2 ^ 32"
  shows "\<exists>h'. queue_steps (wl_add s) (wl_remove s) ops h = Some h' \<and> wl_rep s L h' (fold jq_step ops q)"
  using assms by (rule wl.steps_rep)

theorem operations_simulate_queue_witness:
  "\<exists>h'. queue_steps (wl_add exSC) (wl_remove exSC) [QAdd keyB False, QAdd keyC False, QAdd keyA True, QRemove keyB] emptyContext = Some h' \<and>
     wl_rep exSC 12 h' ([keyA], [keyC])"
  using operations_simulate_queue [OF exSC_empty, of "[QAdd keyB False, QAdd keyC False, QAdd keyA True, QRemove keyB]"]
  by (auto simp: jq_keys_def jq_add_def jq_remove_def)

text \<open>
  Round trip: a key that is inserted and then removed leaves the queue as it was.
\<close>

lemma add_remove_round_trip:
  assumes "wl_rep s L h q" and "length k = L" and "k \<notin> set (jq_keys q)" and "Suc (length (jq_keys q)) < 2 ^ 32"
  shows "\<exists>h' h''. wl_add s k addJailed h = Some h' \<and> wl_remove s k h' = Some h'' \<and> wl_rep s L h'' q"
  using assms by (rule wl.add_then_remove)


text \<open>
  Traversal: \<^verbatim>\<open>getFirstElementsFromWaitingList\<close> returns the first keys of the queue in order, with the data stored for
  each, and whether the last of the nodes that came back from jail was among them; it changes nothing.
\<close>

lemma getFirstElements_correct:
  assumes "wl_rep s L h q" and "\<forall>k\<in>set (jq_keys q). decStaked s (stor (eei s) h k) = Inr (dt k)"
  shows "\<exists>lk. run_state (getFirstElementsFromWaitingList s numNodes) h =
    (Inr \<lparr>blsKeys = take (unat numNodes) (jq_keys q), stakedDataList = map dt (take (unat numNodes) (jq_keys q)),
          lastKey = lk, afterLastJailed = (fst q \<noteq> [] \<and> length (fst q) \<le> unat numNodes)\<rparr>, h)"
  using run_getFirstElementsFromWaitingList [of s L h "fst q" "snd q" dt numNodes] assms
  by (simp add: wl_rep_def jq_keys_def)


end
