(* ===== verification/StakingRuns.thy ===== *)
theory StakingRuns
  imports StakingInvariant WaitingListProperties
begin

text \<open>
  How the functions of the staking contract run on a well-formed state: the exact result and the abstract
  state that each of the main functions leaves, on the branches that matter. The properties of the contract
  are stated from these lemmas.
\<close>

section \<open>The empty state and the position in the queue\<close>

lemma sview_empty:
  assumes "sc_ok s L" and "\<And>k. stor (eei s) h k = []"
  shows "sview s L ([], []) (\<lambda>_. newRegisteredData) 0 h"
  using assms wl_rep_empty [OF assms]
  by (intro sviewI) (simp_all add: wl_rep_def decConfig_def baseConfig_def)

lemma ainv_empty: "ainv L ([], []) (\<lambda>_. newRegisteredData) 0"
  by (simp add: ainv_def jq_keys_def stakedKeys_def)

lemma exampleSC_view:
  "11 < L \<Longrightarrow> sview (exampleSC flagsV3 m) L ([], []) (\<lambda>_. newRegisteredData) 0 emptyContext"
  "11 < L \<Longrightarrow> sview (exampleSC flagsV4 m) L ([], []) (\<lambda>_. newRegisteredData) 0 emptyContext"
  by (rule sview_empty [OF exampleSC_ok(1)] sview_empty [OF exampleSC_ok(2)], assumption, simp)+

lemma waitingIndexLoop_run:
  assumes "dll (elemAt s (stor (eei s) h)) p ks []" and "distinct ks" and "i < length ks" and "i < m"
    and "\<forall>k\<in>set ks. length k = L"
  shows "run_state (waitingIndexLoop s m index (wk (ks ! i)) (firstKeyOr ks [])) h = (Inr (Some (index + of_nat i)), h)"
  using assms
proof (induction ks arbitrary: p i m index)
  case Nil
  then show ?case by simp
next
  case (Cons k ks)
  then obtain m' where m: "m = Suc m'" by (cases m) auto
  show ?case
  proof (cases i)
    case 0
    then show ?thesis using m by simp
  next
    case (Suc j)
    then obtain k' ks' where ks: "ks = k' # ks'" using Cons.prems(3) by (cases ks) auto
    have ne: "k \<noteq> ks ! j" using Cons.prems(2,3) Suc by auto
    have "run_state (waitingIndexLoop s m index (wk ((k # ks) ! i)) (wk k)) h =
        run_state (waitingIndexLoop s m' (index + 1) (wk (ks ! j)) (firstKeyOr ks [])) h"
      using Cons.prems ne m Suc ks by (auto simp: eei_run goCopy_same_length)
    also have "\<dots> = (Inr (Some (index + 1 + of_nat j)), h)"
      using Cons.IH [of "wk k" j m' "index + 1"] Cons.prems Suc m by simp
    finally show ?thesis using Suc by (simp add: algebra_simps)
  qed
qed

lemma getWaitingListIndex_run:
  assumes v: "sview s L q D n h" and i: "i < length (jq_keys q)" and args: "Arguments args = [jq_keys q ! i]"
    and caller: "callerOf args = stakeAccessAddr s" and v4: "\<not> flag s StakingV4StartedFlag"
  shows "run_state (getWaitingListIndex s args) h =
    (Ok, h\<lparr>outputData := outputData h @ [itoa (int (Suc i))]\<rparr>)"
proof -
  let ?ks = "jq_keys q" and ?k = "jq_keys q ! i"
  note wd = wl_reprD [OF sviewD(2) [OF v]]
  have head: "run_state (getWaitingListHead s) h = (Inr (headOf (fst q) (snd q)), h)"
    by (rule run_getWaitingListHead [OF wd(4)])
  have d: "dll (elemAt s (stor (eei s) h)) (firstKeyOr ?ks []) ?ks []" using wd(5) by (simp add: jq_keys_def)
  have in_ks: "?k \<in> set ?ks" using i by simp
  obtain e where e: "elemAt s (stor (eei s) h) (wk ?k) = Some e" using dll_member [OF d in_ks] by blast
  have len: "length ?ks < 2 ^ 32" and dist: "distinct ?ks" using sview_queue [OF v] by auto
  have lens: "\<forall>k\<in>set ?ks. length k = L" using sview_queue(2) [OF v] by blast
  have un: "unat (of_nat (length ?ks) :: u32) = length ?ks" using len by (rule unat_len)
  obtain k0 ks' where ks: "?ks = k0 # ks'" using i by (cases ?ks) auto
  have first: "elemAt s (stor (eei s) h) (wk k0) =
      Some \<lparr>BLSPublicKey = k0, PreviousKey = wk k0, NextKey = firstKeyOr ks' []\<rparr>"
    using d ks by simp
  show ?thesis
  proof (cases "i = 0 \<or> i = length ?ks - 1")
    case True
    have "wk ?k = lastKeyOr [] ?ks" if "i = length ?ks - 1"
      using that i by (auto simp: lastKeyOr_cases last_conv_nth)
    then have last: "i = length ?ks - 1 \<Longrightarrow> lastKeyOr [] ?ks = wk ?k" by simp
    have uint: "uint (of_nat (length ?ks) :: u32) = int (length ?ks)" using un by (simp add: uint_nat)
    have pos: "i = 0 \<longleftrightarrow> wk ?k = firstKeyOr ?ks []" using ks dist i by (cases i) auto
    have "run_state (getWaitingListIndex s args) h =
        (Ok, h\<lparr>outputData := outputData h @ [itoa (if i = 0 then 1 else int (length ?ks))]\<rparr>)"
      using True args caller v4 head run_getWaitingListElement [OF e] pos last uint
      by (auto simp: getWaitingListIndex_def orFail_def Finish_def Let_def)
    then show ?thesis using True i by (cases "i = 0") auto
  next
    case False
    then have i': "0 < i" "i < length ?ks - 1" using i by auto
    then obtain j where j: "i = Suc j" by (cases i) auto
    have nf: "wk ?k \<noteq> firstKeyOr ?ks []" using ks dist i' by (cases i) auto
    have nl: "wk ?k \<noteq> lastKeyOr [] ?ks"
      using i' dist ks by (auto simp: lastKeyOr_cases last_conv_nth nth_eq_iff_index_eq)
    obtain k1 ks'' where ks': "ks' = k1 # ks''" using ks i' by (cases ks') auto
    have copy: "goCopy (makeBytes (length (wk ?k))) (wk k1) = wk k1"
    proof -
      have "k1 \<in> set ?ks" using ks ks' by simp
      then have "length k1 = length ?k" using lens in_ks by metis
      then show ?thesis by (simp add: goCopy_same_length)
    qed
    have loop: "run_state (waitingIndexLoop s (length ?ks - 1) 2 (wk ?k) (wk k1)) h = (Inr (Some (2 + of_nat j)), h)"
      using waitingIndexLoop_run [of s h "wk k0" ks' j "length ?ks - 1" L 2] d ks ks' dist lens i' j by simp
    have uint: "uint (2 + of_nat j :: u32) = int (Suc i)"
    proof -
      have "(2 + of_nat j :: u32) = of_nat (Suc i)" using j by simp
      moreover have "Suc i < 2 ^ 32" using i' len by simp
      ultimately show ?thesis by (metis unat_len uint_nat)
    qed
    obtain e0 where e0: "run_state (getWaitingListElement s (firstKeyOr ?ks [])) h = (Inr e0, h)" "NextKey e0 = wk k1"
      using run_getWaitingListElement [OF first] ks ks' by simp
    show ?thesis
      using args caller v4 head run_getWaitingListElement [OF e] nf nl e0 copy loop un uint
      by (simp add: getWaitingListIndex_def orFail_def Finish_def Let_def del: waitingIndexLoop.simps)
  qed
qed

text \<open>The configuration that the contract reads.\<close>

abbreviation confAt :: "stakingSC \<Rightarrow> vmContext \<Rightarrow> StakingNodesConfig" where
  "confAt s h \<equiv> decConfig s (stor (eei s) h nodesConfigKey)"

lemma sview_addStaked:
  assumes "sview s L q D n h"
  shows "\<exists>h'. run_state (addToStakedNodes s v) h = ((), h') \<and> sview s L q D (n + v) h'"
  using sview_setConfig [OF assms, of "(confAt s h)\<lparr>StakedNodes := n + v\<rparr>"] sviewD(4) [OF assms]
  by (simp add: addToStakedNodes_def eei_run)

lemma stake_room_run:
  assumes v: "sview s L q D n h" and k: "length (arg args 0) = L" and len: "3 \<le> length (Arguments args)"
    and caller: "callerOf args = stakeAccessAddr s"
    and ok: "\<not> isNodeJailedOrWithBadRating s (D (arg args 0)) (arg args 0)" and new: "\<not> Staked (D (arg args 0))"
    and v4: "\<not> flag s StakingV4StartedFlag" and room: "n <s MaxNumNodes (confAt s h)"
  shows "\<exists>h' d. run_state (stake s args False) h = (Ok, h') \<and>
    sview s L (jq_remove (arg args 0) q) (D(arg args 0 := d)) (n + 1) h' \<and>
    Staked d \<and> \<not> Waiting d \<and> RewardAddress d = arg args 1 \<and> StakedNonce d = CurrentNonce (eei s) \<and>
    UnStakedNonce d = 0"
proof -
  let ?k = "arg args 0"
  let ?d = "activeStakingFor s ((D ?k)\<lparr>RewardAddress := arg args 1, OwnerAddress := arg args 2,
    StakeValue := stakeValue s, RegisterNonce := CurrentNonce (eei s)\<rparr>)"
  have can: "run_state (canStake s) h = (True, h)"
    using v4 room sviewD(4) [OF v] by (simp add: canStake_def eei_run)
  obtain h1 where h1: "run_state (removeFromWaitingList s ?k) h = (Inr (), h1)" "sview s L (jq_remove ?k q) D n h1"
    using sview_remove [OF v k] by blast
  obtain h2 where h2: "run_state (addToStakedNodes s 1) h1 = ((), h2)" "sview s L (jq_remove ?k q) D (n + 1) h2"
    using sview_addStaked [OF h1(2)] by blast
  obtain h3 where h3: "run_state (saveStakingData s ?k ?d) h2 = (Inr (), h3)"
    "sview s L (jq_remove ?k q) (D(?k := reread s ?d)) (n + 1) h3"
    using sview_save [OF h2(2) k] by blast
  have "run_state (stake s args False) h = (Ok, h3)"
    using caller len ok new v4 sview_get [OF v k] can h1(1) h2(1) h3(1)
    by (simp add: stake_def orFail_def processStake_def processStakeV1_def Let_def)
  moreover have "Staked (reread s ?d) \<and> \<not> Waiting (reread s ?d) \<and> RewardAddress (reread s ?d) = arg args 1 \<and>
      StakedNonce (reread s ?d) = CurrentNonce (eei s) \<and> UnStakedNonce (reread s ?d) = 0"
    by (simp add: activeStakingFor_def)
  ultimately show ?thesis using h3(2) by blast
qed

lemma sview_add_frame:
  assumes v: "sview s L q D n h" and k: "length k = L" and cap: "length (jq_keys q) + 1 < 2 ^ 32"
  shows "\<exists>h'. run_state (addToWaitingList s k j) h = (Inr (), h') \<and> wl_frame s L h h' \<and>
    sview s L (jq_add k j q) D n h'"
proof -
  have "wl_rep s L h q" using v by (simp add: sview_def)
  from wl_add_frame [OF this k cap, of j] obtain h' where
    h': "run_state (addToWaitingList s k j) h = (Inr (), h')" "wl_rep s L h' (jq_add k j q)" "wl_frame s L h h'"
    by blast
  then show ?thesis using sview_frame [OF v, of h' "jq_add k j q"] by (simp add: wl_rep_def)
qed

lemma stake_full_run:
  assumes v: "sview s L q D n h" and k: "length (arg args 0) = L" and len: "3 \<le> length (Arguments args)"
    and caller: "callerOf args = stakeAccessAddr s"
    and ok: "\<not> isNodeJailedOrWithBadRating s (D (arg args 0)) (arg args 0)" and new: "\<not> Staked (D (arg args 0))"
    and v4: "\<not> flag s StakingV4StartedFlag" and full: "\<not> n <s MaxNumNodes (confAt s h)"
    and cap: "length (jq_keys q) + 1 < 2 ^ 32"
  shows "\<exists>h' d. run_state (stake s args False) h = (Ok, h') \<and>
    sview s L (jq_add (arg args 0) False q) (D(arg args 0 := d)) n h' \<and>
    Waiting d \<and> \<not> Staked d \<and> RewardAddress d = arg args 1 \<and> RegisterNonce d = CurrentNonce (eei s) \<and>
    outputData h' = outputData h @ [[CHR 0x03]]"
proof -
  let ?k = "arg args 0"
  let ?d = "(D ?k)\<lparr>RewardAddress := arg args 1, OwnerAddress := arg args 2,
    StakeValue := stakeValue s, RegisterNonce := CurrentNonce (eei s), Waiting := True\<rparr>"
  have can: "run_state (canStake s) h = (False, h)"
    using v4 full sviewD(4) [OF v] by (simp add: canStake_def eei_run)
  obtain h0 where msg: "run_state (AddReturnMessage (''staking is full key put into waiting list '' @ hexEncode ?k)) h = ((), h0)"
    and v0: "sview s L q D n h0" "outputData h0 = outputData h"
    using v by (simp add: AddReturnMessage_def)
  obtain h1 where h1: "run_state (addToWaitingList s ?k False) h0 = (Inr (), h1)" "wl_frame s L h0 h1"
    "sview s L (jq_add ?k False q) D n h1"
    using sview_add_frame [OF v0(1) k cap, of False] by blast
  have o1: "outputData h1 = outputData h" using h1(2) v0(2) by (simp add: wl_frame_def sameButStorage_def)
  obtain h3 where h3: "run_state (saveStakingData s ?k ?d) (h1\<lparr>outputData := outputData h1 @ [[CHR 0x03]]\<rparr>) = (Inr (), h3)"
    "sview s L (jq_add ?k False q) (D(?k := reread s ?d)) n h3"
    using sview_save [OF _ k, of s "jq_add ?k False q" D n "h1\<lparr>outputData := outputData h1 @ [[CHR 0x03]]\<rparr>"] h1(3) by auto
  have o3: "outputData h3 = outputData h1 @ [[CHR 0x03]]"
    using h3(1) sameButStorage_setStor [of "h1\<lparr>outputData := outputData h1 @ [[CHR 0x03]]\<rparr>" ?k "encStaked s ?d"]
      run_saveStakingData [OF sview_codec [OF v], of ?k ?d] by (auto simp: sameButStorage_def)
  have c3: "(char_of (3::nat) :: char) = CHR 0x03" by code_simp
  have "run_state (stake s args False) h = (Ok, h3)"
    using caller len ok new v4 sview_get [OF v k] can msg h1(1) h3(1) c3
    by (simp add: stake_def orFail_def processStake_def processStakeV1_def Let_def Finish_def)
  moreover have "Waiting (reread s ?d) \<and> \<not> Staked (reread s ?d) \<and> RewardAddress (reread s ?d) = arg args 1 \<and>
      RegisterNonce (reread s ?d) = CurrentNonce (eei s)"
    using new by simp
  ultimately show ?thesis using h3(2) o1 o3 by auto
qed


lemma sview_element:
  assumes "sview s L q D n h" and "k \<in> set (jq_keys q)"
  obtains e where "run_state (getWaitingListElement s (wk k)) h = (Inr e, h)" and "BLSPublicKey e = k"
proof -
  obtain e where "elemAt s (stor (eei s) h) (wk k) = Some e" "BLSPublicKey e = k"
    using dll_member [OF wl_reprD(5) [OF sviewD(2) [OF assms(1)]]] assms(2) by (auto simp: jq_keys_def)
  then show ?thesis using that run_getWaitingListElement by blast
qed

lemma sview_remove_frame:
  assumes v: "sview s L q D n h" and k: "length k = L"
  shows "\<exists>h'. run_state (removeFromWaitingList s k) h = (Inr (), h') \<and> sview s L (jq_remove k q) D n h' \<and>
    confAt s h' = confAt s h"
proof -
  note vd = sviewD [OF v]
  obtain h' where h': "run_state (removeFromWaitingList s k) h = (Inr (), h')"
    "wl_repr s L (stor (eei s) h') (fst (jq_remove k q)) (snd (jq_remove k q))" "wl_frame s L h h'"
    using removeFromWaitingList_run [OF vd(1,2) k] by (auto simp: jq_remove_def)
  moreover have "stor (eei s) h' nodesConfigKey = stor (eei s) h nodesConfigKey"
    using h'(3) config_not_wl_key by (simp add: wl_frame_def)
  ultimately show ?thesis using sview_frame [OF v h'(2,3)] by auto
qed

lemma conf_setConfig:
  assumes "sview s L q D n h" and "0 < sint (StakedNodes c)"
  shows "confAt s (snd (run_state (setConfig s c) h)) = c"
  using decConfig_encConfig [OF sview_codec [OF assms(1)], of c] assms
  by (auto simp: eei_run sview_codec [OF assms(1)] eei_frame)

lemma conf_save:
  assumes "sview s L q D n h" and "length k = L"
  shows "confAt s (snd (run_state (saveStakingData s k d) h)) = confAt s h"
  using assms sview_len [OF assms(1)] by (auto simp: eei_run sview_codec [OF assms(1)] eei_frame)

lemma moveFirst_run:
  assumes v: "sview s L q D n h" and q: "jq_keys q = k # ks" and r: "RewardAddress (D k) \<noteq> []" and st: "\<not> Staked (D k)"
    and n: "0 \<le> sint n" "sint n + 1 < 2 ^ 63"
  shows "\<exists>h' d. run_state (moveFirstFromWaitingToStaked s) h = (Inr True, h') \<and>
    sview s L (jq_remove k q) (D(k := d)) (n + 1) h' \<and> Staked d \<and> \<not> Waiting d \<and>
    RewardAddress d = RewardAddress (D k) \<and> confAt s h' = (confAt s h)\<lparr>StakedNodes := n + 1\<rparr>"
proof -
  have k: "length k = L" "k \<in> set (jq_keys q)" using sview_queue(2) [OF v, of k] q by auto
  let ?d = "(D k)\<lparr>Waiting := False, Staked := True, RegisterNonce := CurrentNonce (eei s),
    StakedNonce := CurrentNonce (eei s), UnStakedNonce := 0, UnStakedEpoch := DefaultUnstakedEpoch\<rparr>"
  have head: "run_state (getWaitingListHead s) h = (Inr (headOf (fst q) (snd q)), h)"
    by (rule run_getWaitingListHead [OF wl_reprD(4) [OF sviewD(2) [OF v]]])
  obtain e where e: "run_state (getWaitingListElement s (wk k)) h = (Inr e, h)" "BLSPublicKey e = k"
    using sview_element [OF v k(2)] .
  obtain h1 where h1: "run_state (removeFromWaitingList s k) h = (Inr (), h1)" "sview s L (jq_remove k q) D n h1"
    "confAt s h1 = confAt s h"
    using sview_remove_frame [OF v k(1)] by blast
  let ?c = "(confAt s h)\<lparr>StakedNodes := n + 1\<rparr>"
  have "0 < sint (n + 1)" using sint_inc [OF n] n by simp
  then have c2: "confAt s (snd (run_state (setConfig s ?c) h1)) = ?c"
    using conf_setConfig [OF h1(2), of ?c] by simp
  obtain h2 where h2: "run_state (addToStakedNodes s 1) h1 = ((), h2)" "sview s L (jq_remove k q) D (n + 1) h2"
    "confAt s h2 = ?c"
    using sview_setConfig [OF h1(2), of ?c] sviewD(4) [OF h1(2)] c2 h1(3)
    by (auto simp: addToStakedNodes_def eei_run)
  obtain h3 where h3: "run_state (saveStakingData s k ?d) h2 = (Inr (), h3)"
    "sview s L (jq_remove k q) (D(k := reread s ?d)) (n + 1) h3" "confAt s h3 = ?c"
    using sview_save [OF h2(2) k(1), of ?d] conf_save [OF h2(2) k(1), of ?d] h2(3) by auto
  have first: "FirstKey (headOf (fst q) (snd q)) = wk k" using q by simp
  have len: "Length (headOf (fst q) (snd q)) \<noteq> 0"
    using of_nat_zero [OF sview_queue(3) [OF v]] q by simp
  have "run_state (moveFirstFromWaitingToStaked s) h = (Inr True, h3)"
    using head first len e h1(1) sview_get [OF h1(2) k(1)] r st h2(1) h3(1)
    by (simp add: moveFirstFromWaitingToStaked_def Let_def del: headOf_fields)
  then show ?thesis using h3(2,3) by (intro exI [of _ h3] exI [of _ "reread s ?d"]) simp
qed

lemma tryUnStake_run:
  assumes v: "sview s L q D n h" and k: "length k = L" and n: "0 < sint n"
    and spare: "0 <s n - JailedNodes (confAt s h) - MinNumNodes (confAt s h)"
  shows "\<exists>h' d'. run_state (tryUnStake s k d) h = (Ok, h') \<and> sview s L q (D(k := d')) (n - 1) h' \<and>
    \<not> Staked d' \<and> \<not> Waiting d' \<and> UnStakedNonce d' = CurrentNonce (eei s) \<and> UnStakedEpoch d' = CurrentEpoch (eei s)"
proof -
  have can: "run_state (canUnStake s) h = (True, h)"
    using spare sviewD(4) [OF v] by (simp add: canUnStake_def numSpareNodes_def eei_run)
  obtain h1 where h1: "run_state (removeFromStakedNodes s) h = ((), h1)" "sview s L q D (n - 1) h1"
    using sview_setConfig [OF v, of "(confAt s h)\<lparr>StakedNodes := n - 1\<rparr>"] sviewD(4) [OF v] n
    by (auto simp: removeFromStakedNodes_def eei_run word_sless_alt)
  obtain h2 where h2: "run_state (saveStakingData s k (setUnStaked s d)) h1 = (Inr (), h2)"
    "sview s L q (D(k := reread s (setUnStaked s d))) (n - 1) h2"
    using sview_save [OF h1(2) k] by blast
  have "run_state (tryUnStake s k d) h = (Ok, h2)"
    using can h1(1) h2(1) by (simp add: tryUnStake_def doUnStake_def orFail_def)
  then show ?thesis
    using h2(2) by (intro exI [of _ h2] exI [of _ "reread s (setUnStaked s d)"]) (simp add: setUnStaked_def)
qed


lemma unStake_run:
  assumes v: "sview s L q D n h" and inv: "ainv L q D n" and k: "length (arg args 0) = L"
    and len: "2 \<le> length (Arguments args)" and caller: "callerOf args = stakeAccessAddr s"
    and reward: "RewardAddress (D (arg args 0)) = arg args 1" "arg args 1 \<noteq> []"
    and ok: "\<not> isNodeJailedOrWithBadRating s (D (arg args 0)) (arg args 0)" and st: "Staked (D (arg args 0))"
    and v4: "\<not> flag s StakingV4StartedFlag" and max: "n \<le>s MaxNumNodes (confAt s h)"
    and q: "jq_keys q = k0 # ks" and r0: "RewardAddress (D k0) \<noteq> []" and cap: "sint n + 1 < 2 ^ 63"
    and spare: "0 <s n + 1 - JailedNodes (confAt s h) - MinNumNodes (confAt s h)"
  shows "\<exists>h' d0 d. run_state (unStake s args) h = (Ok, h') \<and>
    sview s L (jq_remove k0 q) (D(k0 := d0, arg args 0 := d)) n h' \<and>
    Staked d0 \<and> \<not> Waiting d0 \<and> \<not> Staked d \<and> \<not> Waiting d \<and> UnStakedNonce d = CurrentNonce (eei s)"
proof -
  let ?k = "arg args 0"
  have k0: "length k0 = L" "k0 \<in> set (jq_keys q)" using sview_queue(2) [OF v, of k0] q by auto
  have st0: "\<not> Staked (D k0)" using ainvD(4) [OF inv k0(1)] k0(2) by blast
  have n0: "0 \<le> sint n" using inv by (simp add: ainv_def)
  obtain h1 d0 where h1: "run_state (moveFirstFromWaitingToStaked s) h = (Inr True, h1)"
    "sview s L (jq_remove k0 q) (D(k0 := d0)) (n + 1) h1" "Staked d0" "\<not> Waiting d0"
    "confAt s h1 = (confAt s h)\<lparr>StakedNodes := n + 1\<rparr>"
    using moveFirst_run [OF v q r0 st0 n0 cap] by blast
  have pos: "0 < sint (n + 1)" using sint_inc [OF n0 cap] n0 by simp
  have spare': "0 <s n + 1 - JailedNodes (confAt s h1) - MinNumNodes (confAt s h1)"
    unfolding h1(5) using spare by simp
  have n1: "n + 1 - 1 = n" by simp
  obtain h2 d where h2: "run_state (tryUnStake s ?k (D ?k)) h1 = (Ok, h2)"
    "sview s L (jq_remove k0 q) (D(k0 := d0, ?k := d)) n h2" "\<not> Staked d" "\<not> Waiting d"
    "UnStakedNonce d = CurrentNonce (eei s)"
    using tryUnStake_run [OF h1(2) k pos spare', of "D ?k"] unfolding n1 by blast
  have check: "run_state (checkUnStakeArgs s args) h = (Inr (D ?k), h)"
    using caller len reward ok st sview_get [OF v k] by (simp add: checkUnStakeArgs_def Let_def)
  have one: "run_state (canStakeIfOneRemoved s) h = (True, h)"
    using max sviewD(4) [OF v] by (simp add: canStakeIfOneRemoved_def eei_run)
  have fl: "flag s CorrectLastUnJailedFlag" using sviewD(1) [OF v] by (rule sc_ok_flags)
  have "run_state (unStake s args) h = (Ok, h2)"
    using v4 check st one h1(1) h2(1) fl by (simp add: unStake_def unStakeV1_def orFail_def)
  then show ?thesis using h1(3,4) h2(2-5) by blast
qed

lemma unBond_ok_conditions:
  assumes v: "sview s L q D n h" and k: "length (arg args 0) = L" and run: "run_state (unBond s args) h = (Ok, h')"
  shows "callerOf args = stakeAccessAddr s \<and> RewardAddress (D (arg args 0)) \<noteq> [] \<and>
    \<not> Staked (D (arg args 0)) \<and> \<not> Waiting (D (arg args 0)) \<and> \<not> Jailed (D (arg args 0)) \<and>
    (UnStakedNonce (D (arg args 0)) = 0 \<or> unBondPeriod s \<le> CurrentNonce (eei s) - UnStakedNonce (D (arg args 0))) \<and>
    \<not> IsValidator (eei s) (arg args 0) \<and> h' = setStor (arg args 0) [] h"
proof -
  have ub: "run_state (canUnBond s) h = (b, x) \<Longrightarrow> x = h" for b x
    by (simp add: canUnBond_def numSpareNodes_def eei_run)
  show ?thesis
    using run sview_get [OF v k] ub
    by (auto simp: unBond_def orFail_def Let_def retWith_def isNodeJailedOrWithBadRating_def eei_run not_less word_gt_0
        split: if_splits prod.splits)
qed

section \<open>Access control\<close>

text \<open>The address from which a function of the contract may be called.\<close>

definition requiredCaller :: "stakingSC \<Rightarrow> string \<Rightarrow> bytes option" where
  "requiredCaller s f =
     (if f \<in> {''stake'', ''register'', ''unStake'', ''unBond'', ''unJail'', ''changeRewardAddress'',
        ''changeValidatorKeys'', ''getQueueIndex'', ''getQueueRegisterNonceAndRewardAddress'', ''getOwner'',
        ''changeOwnerAndRewardAddress''} then Some (stakeAccessAddr s)
      else if f = ''jail'' then Some (jailAccessAddr s)
      else if f \<in> {''switchJailedWithWaiting'', ''updateConfigMinNodes'', ''setOwnersOnAddresses'',
        ''updateConfigMaxNodes'', ''stakeNodesFromQueue'', ''unStakeAtEndOfEpoch'', ''resetLastUnJailedFromQueue'',
        ''cleanAdditionalQueue'', ''unStakeAllNodesFromQueue''} then Some (endOfEpochAccessAddr s)
      else None)"

definition rejected :: "vmContext \<Rightarrow> ReturnCode eei \<Rightarrow> bool" where
  "rejected h m \<longleftrightarrow> (\<exists>code message. run_state m h = (code, h\<lparr>returnMessage := message\<rparr>) \<and> code \<noteq> Ok)"

lemma rejected_ret [simp, intro]: "code \<noteq> Ok \<Longrightarrow> rejected h (return code)"
  unfolding rejected_def by (intro exI [of _ code] exI [of _ "returnMessage h"]) simp

lemma rejected_retWith [simp, intro]: "code \<noteq> Ok \<Longrightarrow> rejected h (retWith m code)"
  unfolding rejected_def retWith_def AddReturnMessage_def
  by (cases "m = []"; cases "returnMessage h = []") (auto intro: exI [of _ "returnMessage h"])

lemma rejected_handlers:
  "callerOf args \<noteq> stakeAccessAddr s \<Longrightarrow> rejected h (stake s args b)"
  "callerOf args \<noteq> stakeAccessAddr s \<Longrightarrow> rejected h (unBond s args)"
  "callerOf args \<noteq> stakeAccessAddr s \<Longrightarrow> rejected h (unJail s args)"
  "callerOf args \<noteq> stakeAccessAddr s \<Longrightarrow> rejected h (changeRewardAddress s args)"
  "callerOf args \<noteq> stakeAccessAddr s \<Longrightarrow> rejected h (changeValidatorKey s args)"
  "callerOf args \<noteq> stakeAccessAddr s \<Longrightarrow> rejected h (getWaitingListIndex s args)"
  "callerOf args \<noteq> stakeAccessAddr s \<Longrightarrow> rejected h (getWaitingListRegisterNonceAndRewardAddress s args)"
  "callerOf args \<noteq> stakeAccessAddr s \<Longrightarrow> rejected h (getOwner s args)"
  "callerOf args \<noteq> stakeAccessAddr s \<Longrightarrow> rejected h (changeOwnerAndRewardAddress s args)"
  "callerOf args \<noteq> jailAccessAddr s \<Longrightarrow> rejected h (jail s args)"
  "callerOf args \<noteq> endOfEpochAccessAddr s \<Longrightarrow> rejected h (switchJailedWithWaiting s args)"
  "callerOf args \<noteq> endOfEpochAccessAddr s \<Longrightarrow> rejected h (updateConfigMinNodes s args)"
  "callerOf args \<noteq> endOfEpochAccessAddr s \<Longrightarrow> rejected h (setOwnersOnAddresses s args)"
  "callerOf args \<noteq> endOfEpochAccessAddr s \<Longrightarrow> rejected h (updateConfigMaxNodes s args)"
  "callerOf args \<noteq> endOfEpochAccessAddr s \<Longrightarrow> rejected h (stakeNodesFromQueue s args)"
  "callerOf args \<noteq> endOfEpochAccessAddr s \<Longrightarrow> rejected h (unStakeAtEndOfEpoch s args)"
  "callerOf args \<noteq> endOfEpochAccessAddr s \<Longrightarrow> rejected h (resetLastUnJailedFromQueue s args)"
  "callerOf args \<noteq> endOfEpochAccessAddr s \<Longrightarrow> rejected h (cleanAdditionalQueue s args)"
  "callerOf args \<noteq> endOfEpochAccessAddr s \<Longrightarrow> rejected h (unStakeAllNodesFromQueue s container args)"
  by (auto simp: stake_def unBond_def unJail_def unJailV1_def changeRewardAddress_def changeValidatorKey_def
      getWaitingListIndex_def getWaitingListRegisterNonceAndRewardAddress_def getOwner_def
      changeOwnerAndRewardAddress_def jail_def switchJailedWithWaiting_def updateConfigMinNodes_def
      setOwnersOnAddresses_def updateConfigMaxNodes_def stakeNodesFromQueue_def unStakeAtEndOfEpoch_def
      resetLastUnJailedFromQueue_def cleanAdditionalQueue_def unStakeAllNodesFromQueue_def)

lemma rejected_unStake: "callerOf args \<noteq> stakeAccessAddr s \<Longrightarrow> rejected h (unStake s args)"
  unfolding rejected_def
  by (cases "returnMessage h = []") (auto simp: unStake_def unStakeV1_def unStakeV2_def checkUnStakeArgs_def AddReturnMessage_def Let_def)

lemma rejected_if: "(b \<Longrightarrow> rejected h m) \<Longrightarrow> (\<not> b \<Longrightarrow> rejected h n) \<Longrightarrow> rejected h (if b then m else n)"
  by simp

lemma Execute_rejects:
  assumes "requiredCaller s (Function args) = Some a" and "callerOf args \<noteq> a"
    and "Function args \<noteq> SCDeployInitFunctionName (eei s)"
  shows "rejected h (Execute s container (Some args))"
  unfolding Execute_def Let_def option.sel
  by (intro rejected_if rejected_handlers rejected_unStake rejected_ret rejected_retWith)
     (use assms in \<open>simp_all add: requiredCaller_def split: if_splits\<close>)

section \<open>Emptying the queue\<close>

text \<open>The storage after the loop of \<^verbatim>\<open>unStakeAllNodesFromQueue\<close>.\<close>

lemma unStakeAllLoop_run:
  assumes "codec_ok (marshalizer s)" and "\<forall>k\<in>set ks. length k = L" and "distinct ks"
  shows "\<exists>acc' h'. run_state (unStakeAllLoop s (map (\<lambda>k. (k, D k)) ks) acc) h = (Inr acc', h') \<and>
    set (fst acc') \<subseteq> set (fst acc) \<union> (\<lambda>k. OwnerAddress (D k)) ` set ks \<and>
    (\<forall>x. stor (eei s) h' x = (if x \<in> set ks then encStaked s (setUnStaked s (D x))
       else if x \<in> wk ` set ks then [] else stor (eei s) h x))"
  using assms(2,3)
proof (induction ks arbitrary: acc h)
  case Nil
  then show ?case by simp
next
  case (Cons k ks)
  let ?h1 = "setStor (wk k) [] (setStor k (encStaked s (setUnStaked s (D k))) h)"
  let ?acc = "addOwnerKey (OwnerAddress (D k)) k acc"
  have step: "run_state (unStakeAllLoop s (map (\<lambda>k. (k, D k)) (k # ks)) acc) h =
      run_state (unStakeAllLoop s (map (\<lambda>k. (k, D k)) ks) ?acc) ?h1"
    by (simp add: doUnStake_def orFail_def eei_run assms(1))
  obtain acc' h' where ih: "run_state (unStakeAllLoop s (map (\<lambda>k. (k, D k)) ks) ?acc) ?h1 = (Inr acc', h')"
    "set (fst acc') \<subseteq> set (fst ?acc) \<union> (\<lambda>k. OwnerAddress (D k)) ` set ks"
    "\<And>x. stor (eei s) h' x = (if x \<in> set ks then encStaked s (setUnStaked s (D x))
       else if x \<in> wk ` set ks then [] else stor (eei s) ?h1 x)"
    using Cons.IH [of ?acc ?h1] Cons.prems by auto
  have acc: "set (fst ?acc) \<subseteq> insert (OwnerAddress (D k)) (set (fst acc))"
    by (auto simp: addOwnerKey_def split: option.splits)
  have "k \<noteq> wk k'" "wk k' \<noteq> k''" if "k' \<in> set (k # ks)" "k'' \<in> set (k # ks)" for k' k''
    using that Cons.prems(1) by (metis add_eq_self_zero length_wk list.set_intros(1) zero_neq_numeral)+
  then have "k \<notin> wk ` set (k # ks)" "wk k \<notin> set (k # ks)" by auto
  then have "stor (eei s) h' x = (if x \<in> set (k # ks) then encStaked s (setUnStaked s (D x))
       else if x \<in> wk ` set (k # ks) then [] else stor (eei s) h x)" for x
    using ih(3) [of x] Cons.prems(2) by (auto simp: eei_frame)
  then show ?case using step ih(1,2) acc by (intro exI [of _ acc'] exI [of _ h']) auto
qed

lemma notifyOwners_elsewhere:
  assumes "\<forall>a\<in>set owners. GetShardOfAddress (eei s) a \<noteq> MetachainShardId (eei s)"
  shows "run_state (notifyOwnersLoop s container sender m owners) h = (Ok, h)"
  using assms by (induction owners) auto

lemma unStakeAll_run:
  assumes v: "sview s L q D n h" and caller: "callerOf args = endOfEpochAccessAddr s" and args: "Arguments args = []"
    and fl: "flag s StakingV4Step1Flag"
    and owners: "\<forall>k\<in>set (jq_keys q). GetShardOfAddress (eei s) (OwnerAddress (D k)) \<noteq> MetachainShardId (eei s)"
  shows "\<exists>h'. run_state (unStakeAllNodesFromQueue s container args) h = (Ok, h') \<and>
    sview s L ([], []) (\<lambda>k. if k \<in> set (jq_keys q) then reread s (setUnStaked s (D k)) else D k) n h'"
proof -
  note vd = sviewD [OF v] and l = sview_len [OF v] and c = sview_codec [OF v]
  let ?ks = "jq_keys q"
  have all: "take (unat MaxUint32) (fst q @ snd q) = ?ks"
    using sview_queue(3) [OF v] by (simp add: jq_keys_def MaxUint32_def)
  have dec: "\<forall>k\<in>set (fst q @ snd q). decStaked s (stor (eei s) h k) = Inr (D k)"
    using sview_queue(2) [OF v] vd(3) by (auto simp: jq_keys_def)
  obtain w where w: "run_state (getFirstElementsFromWaitingList s MaxUint32) h = (Inr w, h)"
    "blsKeys w = ?ks" "stakedDataList w = map D ?ks"
    using run_getFirstElementsFromWaitingList [OF vd(2) dec, of MaxUint32]
    unfolding all by (metis waitingListReturnData.select_convs(1,2))
  show ?thesis
  proof (cases "?ks = []")
    case True
    then have "run_state (unStakeAllNodesFromQueue s container args) h = (Ok, h)"
      using w caller args fl by (simp add: unStakeAllNodesFromQueue_def orFail_def)
    moreover have "q = ([], [])" using True by (cases q) (simp add: jq_keys_def)
    ultimately show ?thesis using v True by simp
  next
    case False
    have keys: "\<forall>k\<in>set ?ks. length k = L" "distinct ?ks" using sview_queue(1,2) [OF v] by auto
    obtain acc' h1 where h1: "run_state (unStakeAllLoop s (map (\<lambda>k. (k, D k)) ?ks) ([], Map.empty)) h = (Inr acc', h1)"
      "set (fst acc') \<subseteq> (\<lambda>k. OwnerAddress (D k)) ` set ?ks"
      "\<And>x. stor (eei s) h1 x = (if x \<in> set ?ks then encStaked s (setUnStaked s (D x))
         else if x \<in> wk ` set ?ks then [] else stor (eei s) h x)"
      using unStakeAllLoop_run [OF c keys, of D "([], Map.empty)" h] by auto
    let ?h' = "setStor waitingListHeadKey [] h1"
    have "\<forall>a\<in>set (fst acc'). GetShardOfAddress (eei s) a \<noteq> MetachainShardId (eei s)"
      using h1(2) owners by auto
    then have "run_state (notifyOwnersLoop s container (slice (RecipientAddr args)) (snd acc') (fst acc')) ?h' = (Ok, ?h')"
      by (rule notifyOwners_elsewhere)
    then have run: "run_state (unStakeAllNodesFromQueue s container args) h = (Ok, ?h')"
      using w caller args fl False h1(1)
      by (cases acc') (simp add: unStakeAllNodesFromQueue_def orFail_def eei_run zip_self_map)
    have bls: "stor (eei s) ?h' k = (if k \<in> set ?ks then encStaked s (setUnStaked s (D k)) else stor (eei s) h k)"
      if k: "length k = L" for k
    proof -
      have "k \<noteq> x" if "wl_key L x" for x using that bls_not_wl_key [OF l k] by blast
      then have "k \<noteq> waitingListHeadKey" "k \<notin> wk ` set ?ks" using keys(1) by auto
      then show ?thesis using h1(3) [of k] by (simp add: eei_frame)
    qed
    have conf: "stor (eei s) ?h' nodesConfigKey = stor (eei s) h nodesConfigKey"
    proof -
      have "nodesConfigKey \<notin> set ?ks" "nodesConfigKey \<notin> wk ` set ?ks" using l keys(1) by auto
      then show ?thesis using h1(3) [of nodesConfigKey] by (simp add: eei_frame)
    qed
    have elems: "stor (eei s) ?h' (wk k) = []" if k: "length k = L" for k
    proof -
      have "wk k \<noteq> k'" if "k' \<in> set ?ks" for k'
        using that keys(1) bls_not_wl_key [OF l, of k'] wl_key_intros(2) [OF k] by metis
      then have "wk k \<notin> set ?ks" by blast
      moreover have "stor (eei s) h (wk k) = []" if "k \<notin> set ?ks"
        using wl_repr_absent [OF vd(2) k] that by (simp add: jq_keys_def)
      ultimately show ?thesis using h1(3) [of "wk k"] by (auto simp: eei_frame)
    qed
    have "wl_repr s L (stor (eei s) ?h') [] []"
      using elems by (simp add: wl_repr_def eei_frame headOf_def emptyWaitingList_def)
    then have "sview s L ([], []) (\<lambda>k. if k \<in> set ?ks then reread s (setUnStaked s (D k)) else D k) n ?h'"
      using vd bls conf c by (intro sviewI) (simp_all only: fst_conv snd_conv, simp_all)
    then show ?thesis using run by blast
  qed
qed

section \<open>Funds of the owners\<close>

definition activeNode :: "StakedDataV2_0 \<Rightarrow> bool" where
  "activeNode d \<longleftrightarrow> Staked d \<or> Waiting d \<or> Jailed d"

lemma countNodes_run:
  assumes "\<forall>k\<in>set ks. decStaked s (stor (eei s) h k) = Inr (D k)"
  shows "run_state (countNodesWithMinStake s ks m) h = (Inr (m + of_nat (length (filter (activeNode \<circ> D) ks))), h)"
  using assms by (induction ks arbitrary: m) (auto simp: eei_run activeNode_def algebra_simps)

lemma sint_of_nat: "n < 2 ^ 63 \<Longrightarrow> sint (of_nat n :: i64) = int n"
  by (simp add: signed_of_nat signed_take_bit_int_eq_self)

lemma sint_word_of_int: "0 \<le> x \<Longrightarrow> x < 2 ^ 63 \<Longrightarrow> sint (word_of_int x :: i64) = x"
  using sint_of_nat [of "nat x"] by simp

lemma checkValidatorFunds_run:
  assumes m: "m owner = None" and raw: "slice (fst (run_state (GetStorageFromAddress (eei s) (stakeAccessAddr s) owner) h)) = raw"
    "raw \<noteq> []" and vd: "unmarshalValidatorData (marshalizer s) raw = Inr vd"
    and D: "\<forall>k\<in>set (BlsPubKeys vd). decStaked s (stor (eei s) h k) = Inr (D k)"
    and rng: "0 \<le> TotalStakeValue vd" "0 < price" "TotalStakeValue vd div price < 2 ^ 63" "length (BlsPubKeys vd) < 2 ^ 32"
    and res: "numNodes = nat (if int (length (BlsPubKeys vd)) \<le> TotalStakeValue vd div price then 0
      else int (length (filter (activeNode \<circ> D) (BlsPubKeys vd))) - TotalStakeValue vd div price)"
  shows "run_state (checkValidatorFunds s m owner price) h = (Inr (of_nat numNodes, m(owner \<mapsto> of_nat numNodes)), h)"
proof -
  let ?q = "TotalStakeValue vd div price" and ?act = "length (filter (activeNode \<circ> D) (BlsPubKeys vd))"
  have q0: "0 \<le> ?q" using rng(1,2) by (simp add: pos_imp_zdiv_nonneg_iff)
  have sq: "sint (word_of_int ?q :: i64) = ?q" using q0 rng(3) by (rule sint_word_of_int)
  have act: "?act \<le> length (BlsPubKeys vd)" by simp
  have sk: "sint (of_nat (length (BlsPubKeys vd)) :: i64) = int (length (BlsPubKeys vd))"
    "sint (of_nat ?act :: i64) = int ?act"
    using rng(4) le_less_trans [OF act rng(4)] by (auto intro!: sint_of_nat)
  have diff: "(ucast (of_nat ?act - word_of_int ?q :: i64) :: u32) = of_nat (nat (int ?act - ?q))" if "?q < int ?act"
  proof -
    have "(of_nat ?act - word_of_int ?q :: i64) = of_nat (nat (int ?act - ?q))"
      using that q0 by (simp add: of_nat_nat)
    moreover have "nat (int ?act - ?q) < 2 ^ 64"
    proof -
      have "nat (int ?act - ?q) \<le> ?act" using q0 by simp
      also have "?act < 2 ^ 32" using act rng(4) by (rule le_less_trans)
      finally show ?thesis by simp
    qed
    ultimately have "unat (of_nat ?act - word_of_int ?q :: i64) = nat (int ?act - ?q)"
      by (simp add: unat_of_nat)
    then show ?thesis by (metis of_nat_unat)
  qed
  obtain ro where ro: "run_state (GetStorageFromAddress (eei s) (stakeAccessAddr s) owner) h = (ro, h)" "slice ro = raw"
    using raw(1) by (auto simp: GetStorageFromAddress_def)
  show ?thesis
    using m ro raw(2) vd sk sq diff countNodes_run [OF D, of 0] q0
    by (auto simp: checkValidatorFunds_def Let_def word_sle_eq word_sless_alt res)
qed

section \<open>Saving and loading\<close>

lemma reread_cases:
  "reread s d =
     (if \<not> flag s StakeFlag then d\<lparr>NumJailed := 0, SlashValue := Some 0, OwnerAddress := []\<rparr>
      else (let d' = (if flag s StakingV2Flag then d else d\<lparr>OwnerAddress := []\<rparr>) in
            d'\<lparr>SlashValue := Some (case SlashValue d of None \<Rightarrow> 0 | Some v \<Rightarrow> v)\<rparr>))"
  by (cases d; cases "SlashValue d") (auto simp: reread_def fillSlash_def readV1_0_def readV1_1_def oldV1_0_def oldV1_1_def
      StakedDataV1_0.defs StakedDataV1_1.defs Let_def)

section \<open>Initialisation\<close>

lemma length_natDecimal: "n < 10 ^ Suc m \<Longrightarrow> length (natDecimal n) \<le> Suc m"
proof (induction m arbitrary: n)
  case 0
  then show ?case by (subst natDecimal.simps) simp
next
  case (Suc m)
  have "n div 10 < 10 ^ Suc m" using Suc.prems by (simp add: div_less_iff_less_mult algebra_simps)
  then show ?case using Suc.IH [of "n div 10"] by (subst natDecimal.simps) auto
qed

lemma initSC_run:
  assumes ok: "sc_ok s L" and L: "16 < L" and fresh: "\<And>k. storOpt (eei s) h k = None"
  shows "\<exists>h'. run_state (initSC s args) h = (Ok, h') \<and> sview s L ([], []) (\<lambda>_. newRegisteredData) 0 h' \<and>
    storOpt (eei s) h' ownerKey \<noteq> None"
proof -
  have c: "codec_ok (marshalizer s)" using ok by simp
  have e: "stor (eei s) h k = []" for k unfolding stor_def fresh by simp
  let ?ep = "''epoch_'' @ itoa (uint (CurrentEpoch (eei s)))"
  let ?c = "\<lparr>MinNumNodes = minNumNodes s, MaxNumNodes = maxNumNodes s, StakedNodes = 0, JailedNodes = 0\<rparr>"
  have "unat (CurrentEpoch (eei s)) < 2 ^ LENGTH(32)" by (rule unsigned_less)
  then have "nat (uint (CurrentEpoch (eei s))) < 10 ^ Suc 9" by simp
  then have el: "length ?ep \<le> 16"
    using length_natDecimal [of "nat (uint (CurrentEpoch (eei s)))" 9] by (simp add: itoa_def)
  let ?h' = "setStor ?ep (bigBytes (stakeValue s)) (setStor nodesConfigKey (encConfig s ?c)
    (setStor (callerOf args) (bigBytes 0) (setStor ownerKey (callerOf args) h)))"
  have run: "run_state (initSC s args) h = (Ok, ?h')"
    by (simp add: initSC_def eei_run fresh c)
  have zero: "bigBytes 0 = []" by (simp add: bigBytes_def natBytes.simps)
  have empty: "stor (eei s) ?h' k = []" if "k \<noteq> ?ep" "k \<noteq> nodesConfigKey" "k \<noteq> ownerKey" for k
    using that e by (simp add: eei_frame zero)
  have hd: "stor (eei s) ?h' waitingListHeadKey = []" by (rule empty) (simp_all add: itoa_def)
  have wks: "stor (eei s) ?h' (wk k) = []" for k
    by (rule empty) (simp_all, simp add: createWaitingListKey_def)
  have bls: "stor (eei s) ?h' k = []" if "length k = L" for k
    using that L el by (intro empty) auto
  have conf: "stor (eei s) ?h' nodesConfigKey = encConfig s ?c"
    by (simp add: eei_frame)
  have "wl_repr s L (stor (eei s) ?h') [] []"
    using hd wks by (simp add: wl_repr_def headAt_def headOf_def emptyWaitingList_def)
  then have "sview s L ([], []) (\<lambda>_. newRegisteredData) 0 ?h'"
    using ok bls conf c by (intro sviewI) (simp_all only: fst_conv snd_conv, simp_all)
  moreover have "storOpt (eei s) ?h' ownerKey \<noteq> None" by (simp add: storOpt_setStor)
  ultimately show ?thesis using run by blast
qed

end
