(* ===== verification/StakingProperties.thy ===== *)
theory StakingProperties
  imports StakingRuns
begin

text \<open>
  The properties of the staking contract: the invariant over all its functions, who may call what, and what
  each of the main functions does to a node, to the queue and to the counter of staked nodes.
\<close>

section \<open>Example states\<close>

abbreviation "keyD \<equiv> replicate 12 CHR ''d''"

text \<open>One node staked, one waiting, the staking full.\<close>

definition nodeData :: "bool \<Rightarrow> bool \<Rightarrow> StakedDataV2_0" where
  "nodeData st wt = newRegisteredData\<lparr>Staked := st, Waiting := wt, RewardAddress := ''rewardaddr'', OwnerAddress := ''owneraddr''\<rparr>"

definition exampleConf :: StakingNodesConfig where
  "exampleConf = \<lparr>MinNumNodes = 1, MaxNumNodes = 1, StakedNodes = 1, JailedNodes = 0\<rparr>"

lemma reread_nodeData [simp]: "reread (exampleSC flagsV3 m) (nodeData a b) = nodeData a b"
  by (simp add: reread_cases nodeData_def newRegisteredData_def flagsV3_def)

definition exampleData :: "bytes \<Rightarrow> StakedDataV2_0" where
  "exampleData = (\<lambda>_. newRegisteredData)(keyA := nodeData True False, keyB := nodeData False True, keyD := nodeData False False)"

lemma example_state:
  "\<exists>h. sview exSC 12 ([], [keyB]) exampleData 1 h \<and> confAt exSC h = exampleConf \<and> outputData h = [] \<and> scAddress h = ''stakingSC''"
proof -
  let ?D0 = "\<lambda>_::bytes. newRegisteredData"
  have v0: "sview exSC 12 ([], []) ?D0 0 emptyContext" by (rule exampleSC_view) simp
  obtain h1 where h1: "wl_frame exSC 12 emptyContext h1" "sview exSC 12 ([], [keyB]) ?D0 0 h1"
    using sview_add_frame [OF v0, of keyB False] by (auto simp: jq_keys_def jq_add_def)
  note c = sview_codec [OF h1(2)]
  have o1: "outputData h1 = []" "scAddress h1 = ''stakingSC''" using h1(1) by (simp_all add: wl_frame_def sameButStorage_def emptyContext_def)
  let ?s = "\<lambda>k d h. setStor k (encStaked exSC d) h"
  have save: "sview exSC 12 q (D(k := nodeData a b)) n (?s k (nodeData a b) h)"
    if "sview exSC 12 q D n h" "length k = 12" for q D n h k a b
    using sview_save [OF that, of "nodeData a b"] by (simp add: run_saveStakingData [OF c])
  have out: "outputData (setStor k v h) = outputData h" "scAddress (setStor k v h) = scAddress h" for k v h
    using sameButStorage_setStor [of h k v] by (simp_all add: sameButStorage_def)
  let ?h = "?s keyD (nodeData False False) (?s keyB (nodeData False True) (?s keyA (nodeData True False) h1))"
  have v: "sview exSC 12 ([], [keyB]) exampleData 0 ?h"
    unfolding exampleData_def by (intro save h1(2)) simp_all
  obtain h' where h': "run_state (setConfig exSC exampleConf) ?h = ((), h')" "sview exSC 12 ([], [keyB]) exampleData 1 h'"
    using sview_setConfig [OF v, of exampleConf] by (auto simp: exampleConf_def)
  moreover have "confAt exSC h' = exampleConf"
    using conf_setConfig [OF v, of exampleConf] h'(1) by (simp add: exampleConf_def)
  moreover have "outputData h' = [] \<and> scAddress h' = ''stakingSC''"
    using h'(1) run_setConfig [OF c, of exampleConf ?h] o1 by (auto simp: out)
  ultimately show ?thesis by blast
qed

lemma example_inv: "ainv 12 ([], [keyB]) exampleData 1"
proof -
  have "stakedKeys 12 exampleData = {keyA}"
    by (auto simp: stakedKeys_def exampleData_def nodeData_def)
  then show ?thesis by (auto simp: ainv_def jq_keys_def exampleData_def nodeData_def)
qed

section \<open>The invariant\<close>

text \<open>
  C1. The invariant of the contract: whenever a call through \<^verbatim>\<open>Execute\<close>, of any function but the one that sets the contract up and \<^verbatim>\<open>unStakeAllNodesFromQueue\<close> (which have lemmas of their
  own), returns \<^verbatim>\<open>Ok\<close> on a state in which the waiting list is well linked, a node is marked as waiting exactly when it is in the list, no node is both staked and waiting, and the counter of staked
  nodes is the number of staked nodes, the state it leaves has the same properties. The BLS keys among the arguments have the length of BLS keys, the counters have room, and the waiting list is empty if
  staking v4 has started. Calls that fail are not covered.
\<close>

theorem execute_keeps_invariant:
  assumes "sview s L q D n h" and "ainv L q D n"
    and "\<forall>k\<in>set (blsArguments args). length k = L"
    and "Suc (length (jq_keys q)) < 2 ^ 32" and "sint n + 2 ^ 32 < 2 ^ 63"
    and "flag s StakingV4StartedFlag \<longrightarrow> jq_keys q = []"
    and "Function args \<noteq> SCDeployInitFunctionName (eei s)" and "Function args \<noteq> ''unStakeAllNodesFromQueue''"
    and "run_state (Execute s container (Some args)) h = (Ok, h')"
  shows "\<exists>q' D' n'. sview s L q' D' n' h' \<and> ainv L q' D' n'"
  using tripleD [OF Execute_inv [OF assms(2-8)] assms(1,9)] by (simp add: okPost_def stakingInv_def)

lemma execute_stake:
  assumes "run_state (stake s (callOf caller ''stake'' arguments) False) h = r" and "SCDeployInitFunctionName (eei s) \<noteq> ''stake''"
  shows "run_state (Execute s container (Some (callOf caller ''stake'' arguments))) h = r"
  using assms by (simp add: Execute_def CheckIfNil_def)

theorem execute_keeps_invariant_witness:
  "\<exists>h' q' D' n'. run_state (Execute exSC None (Some (callOf ''validatorSC'' ''stake'' [keyA, ''reward'', ''owner'']))) emptyContext = (Ok, h') \<and>
     sview exSC 12 q' D' n' h' \<and> ainv 12 q' D' n'"
proof -
  let ?args = "callOf ''validatorSC'' ''stake'' [keyA, ''reward'', ''owner'']"
  have v: "sview exSC 12 ([], []) (\<lambda>_. newRegisteredData) 0 emptyContext" by (rule exampleSC_view) simp
  obtain h' where h': "run_state (stake exSC ?args False) emptyContext = (Ok, h')"
    using stake_room_run [OF v, of ?args]
    by (auto simp: isNodeJailedOrWithBadRating_def flagsV3_def decConfig_def baseConfig_def word_sless_alt)
  have "run_state (Execute exSC None (Some ?args)) emptyContext = (Ok, h')"
    by (rule execute_stake [OF h']) simp
  then show ?thesis
    using execute_keeps_invariant [OF v ainv_empty, of ?args None h'] 
    by (auto simp: blsArguments_def jq_keys_def)
qed

text \<open>
  Setting the contract up on an empty storage establishes the invariant, with no node staked
  and an empty queue, for BLS keys that are longer than the other keys of the contract; a second set-up is refused.
\<close>

lemma init_establishes_invariant:
  assumes "sc_ok s L" and "16 < L" and "\<And>k. storOpt (eei s) h k = None"
  shows "\<exists>h'. run_state (initSC s args) h = (Ok, h') \<and>
    sview s L ([], []) (\<lambda>_. newRegisteredData) 0 h' \<and> ainv L ([], []) (\<lambda>_. newRegisteredData) 0 \<and>
    fst (run_state (initSC s args') h') = UserError"
proof -
  obtain h' where h': "run_state (initSC s args) h = (Ok, h')" "sview s L ([], []) (\<lambda>_. newRegisteredData) 0 h'"
    "storOpt (eei s) h' ownerKey \<noteq> None"
    using initSC_run [OF assms] by blast
  have "fst (run_state (initSC s args') h') = UserError"
    using h'(3) by (simp add: initSC_def eei_run retWith_def split_beta)
  then show ?thesis using h' ainv_empty by blast
qed


section \<open>Who may call\<close>

text \<open>
  Access control: a call of a protected function from any other address than the one it is reserved for is refused, and
  leaves storage, output, gas and logs as they were; only a message is added.
\<close>

lemma execute_access_control:
  assumes "requiredCaller s (Function args) = Some a" and "slice (CallerAddr args) \<noteq> a"
    and "Function args \<noteq> SCDeployInitFunctionName (eei s)"
  shows "\<exists>code message. run_state (Execute s container (Some args)) h = (code, h\<lparr>returnMessage := message\<rparr>) \<and> code \<noteq> Ok"
  using Execute_rejects [OF assms] by (simp add: rejected_def)


section \<open>Staking and unstaking\<close>

text \<open>
  Staking a node while there is room: the call returns \<^verbatim>\<open>Ok\<close>, the node is staked from this block on, leaves the waiting
  list if it was in it, the counter grows by one, and no other node changes.
\<close>

lemma stake_with_room:
  assumes "sview s L q D n h" and "length (arg args 0) = L" and "3 \<le> length (Arguments args)"
    and "callerOf args = stakeAccessAddr s" and "\<not> isNodeJailedOrWithBadRating s (D (arg args 0)) (arg args 0)"
    and "\<not> Staked (D (arg args 0))" and "\<not> flag s StakingV4StartedFlag" and "n <s MaxNumNodes (confAt s h)"
  shows "\<exists>h' d. run_state (stake s args False) h = (Ok, h') \<and>
    sview s L (jq_remove (arg args 0) q) (D(arg args 0 := d)) (n + 1) h' \<and>
    Staked d \<and> \<not> Waiting d \<and> RewardAddress d = arg args 1 \<and> StakedNonce d = CurrentNonce (eei s) \<and>
    UnStakedNonce d = 0"
  using assms by (rule stake_room_run)


text \<open>
  C24. Staking a node while the staking is full: the call returns \<^verbatim>\<open>Ok\<close> and tells the caller so by the code of waiting, the
  node joins the end of the waiting list and is marked as waiting, and the counter of staked nodes does not change.
\<close>

theorem stake_when_full:
  assumes "sview s L q D n h" and "length (arg args 0) = L" and "3 \<le> length (Arguments args)"
    and "callerOf args = stakeAccessAddr s" and "\<not> isNodeJailedOrWithBadRating s (D (arg args 0)) (arg args 0)"
    and "\<not> Staked (D (arg args 0))" and "\<not> flag s StakingV4StartedFlag" and "\<not> n <s MaxNumNodes (confAt s h)"
    and "length (jq_keys q) + 1 < 2 ^ 32"
  shows "\<exists>h' d. run_state (stake s args False) h = (Ok, h') \<and>
    sview s L (jq_add (arg args 0) False q) (D(arg args 0 := d)) n h' \<and>
    Waiting d \<and> \<not> Staked d \<and> RewardAddress d = arg args 1 \<and> RegisterNonce d = CurrentNonce (eei s) \<and>
    outputData h' = outputData h @ [[CHR 0x03]]"
  using assms by (rule stake_full_run)

theorem stake_when_full_witness:
  "\<exists>h h' d. run_state (stake exSC (callOf ''validatorSC'' ''stake'' [keyD, ''reward'', ''owner'']) False) h = (Ok, h') \<and>
     sview exSC 12 ([], [keyB, keyD]) (exampleData(keyD := d)) 1 h' \<and> Waiting d \<and> outputData h' = [[CHR 0x03]]"
proof -
  obtain h where h: "sview exSC 12 ([], [keyB]) exampleData 1 h" "confAt exSC h = exampleConf" "outputData h = []"
    using example_state by blast
  have "exampleData keyD = nodeData False False" by (simp add: exampleData_def)
  then show ?thesis
    using stake_when_full [OF h(1), of "callOf ''validatorSC'' ''stake'' [keyD, ''reward'', ''owner'']"] h(2,3)
    by (auto simp: isNodeJailedOrWithBadRating_def flagsV3_def exampleConf_def nodeData_def jq_add_def jq_keys_def)
qed

text \<open>
  C23. Before staking v4, unstaking a staked node while nodes wait and not more nodes are staked than the maximum: the first node of the waiting list takes its place. That node is staked and
  out of the list, the leaving node is neither staked nor waiting and its unbonding starts at this block, and the number of staked nodes is what it was.
\<close>

theorem unStake_replaced_by_first:
  assumes "sview s L q D n h" and "ainv L q D n" and "length (arg args 0) = L"
    and "2 \<le> length (Arguments args)" and "callerOf args = stakeAccessAddr s"
    and "RewardAddress (D (arg args 0)) = arg args 1" "arg args 1 \<noteq> []"
    and "\<not> isNodeJailedOrWithBadRating s (D (arg args 0)) (arg args 0)" and "Staked (D (arg args 0))"
    and "\<not> flag s StakingV4StartedFlag" and "n \<le>s MaxNumNodes (confAt s h)"
    and "jq_keys q = k0 # ks" and "RewardAddress (D k0) \<noteq> []" and "sint n + 1 < 2 ^ 63"
    and "0 <s n + 1 - JailedNodes (confAt s h) - MinNumNodes (confAt s h)"
  shows "\<exists>h' d0 d. run_state (unStake s args) h = (Ok, h') \<and>
    sview s L (jq_remove k0 q) (D(k0 := d0, arg args 0 := d)) n h' \<and>
    Staked d0 \<and> \<not> Waiting d0 \<and> \<not> Staked d \<and> \<not> Waiting d \<and> UnStakedNonce d = CurrentNonce (eei s)"
  using assms by (rule unStake_run)

theorem unStake_replaced_by_first_witness:
  "\<exists>h h' d0 d. run_state (unStake exSC (callOf ''validatorSC'' ''unStake'' [keyA, ''rewardaddr''])) h = (Ok, h') \<and>
     sview exSC 12 ([], []) (exampleData(keyB := d0, keyA := d)) 1 h' \<and> Staked d0 \<and> \<not> Staked d"
proof -
  obtain h where h: "sview exSC 12 ([], [keyB]) exampleData 1 h" "confAt exSC h = exampleConf"
    using example_state by blast
  have d: "exampleData keyA = nodeData True False" "exampleData keyB = nodeData False True"
    by (simp_all add: exampleData_def)
  let ?args = "callOf ''validatorSC'' ''unStake'' [keyA, ''rewardaddr'']"
  have "\<exists>h' d0 d. run_state (unStake exSC ?args) h = (Ok, h') \<and>
    sview exSC 12 (jq_remove keyB ([], [keyB])) (exampleData(keyB := d0, arg ?args 0 := d)) 1 h' \<and>
    Staked d0 \<and> \<not> Waiting d0 \<and> \<not> Staked d \<and> \<not> Waiting d \<and> UnStakedNonce d = CurrentNonce (eei exSC)"
    by (rule unStake_replaced_by_first [OF h(1) example_inv, of ?args keyB "[]"])
       (simp_all add: h(2) d isNodeJailedOrWithBadRating_def flagsV3_def exampleConf_def nodeData_def jq_keys_def
        word_sless_alt word_sle_eq)
  then show ?thesis by (simp add: jq_remove_def) blast
qed

lemma unBond_run:
  assumes "sview s L q D n h" and "length k = L" and "callerOf args = stakeAccessAddr s" and "Arguments args = [k]"
    and "RewardAddress (D k) \<noteq> []" and "\<not> Staked (D k)" and "\<not> Waiting (D k)" and "UnStakedNonce (D k) = 0"
    and "\<not> isNodeJailedOrWithBadRating s (D k) k" and "run_state (canUnBond s) h = (True, h)" and "\<not> IsValidator (eei s) k"
  shows "run_state (unBond s args) h = (Ok, setStor k [] h)"
proof -
  have a: "arg args 0 = k" using assms(4) by simp
  show ?thesis
    unfolding unBond_def orFail_def a Let_def
    using sview_get [OF assms(1,2)] assms(3-) by (simp add: eei_run)
qed

text \<open>
  C25. Unbonding is safe: it returns \<^verbatim>\<open>Ok\<close> only for the validator contract and a registered node that is neither staked nor
  waiting nor jailed nor a validator, whose unbonding period has passed; then it erases the data of the node and nothing else.
\<close>

theorem unBond_safe:
  assumes "sview s L q D n h" and "length (arg args 0) = L" and "run_state (unBond s args) h = (Ok, h')"
  shows "callerOf args = stakeAccessAddr s \<and> RewardAddress (D (arg args 0)) \<noteq> [] \<and>
    \<not> Staked (D (arg args 0)) \<and> \<not> Waiting (D (arg args 0)) \<and> \<not> Jailed (D (arg args 0)) \<and>
    (UnStakedNonce (D (arg args 0)) = 0 \<or> unBondPeriod s \<le> CurrentNonce (eei s) - UnStakedNonce (D (arg args 0))) \<and>
    \<not> IsValidator (eei s) (arg args 0) \<and> h' = setStor (arg args 0) [] h"
  using assms by (rule unBond_ok_conditions)

theorem unBond_safe_witness:
  "\<exists>h h'. run_state (unBond exSC (callOf ''validatorSC'' ''unBond'' [keyD])) h = (Ok, h') \<and>
     RewardAddress (exampleData keyD) \<noteq> [] \<and> h' = setStor keyD [] h"
proof -
  obtain h where h: "sview exSC 12 ([], [keyB]) exampleData 1 h" "confAt exSC h = exampleConf"
    using example_state by blast
  have d: "exampleData keyD = nodeData False False" by (simp add: exampleData_def)
  have can: "run_state (canUnBond exSC) h = (True, h)"
    using h(2) by (simp add: canUnBond_def numSpareNodes_def eei_run exampleConf_def word_sle_eq)
  have f: "\<not> Staked (exampleData keyD)" "\<not> Waiting (exampleData keyD)" "\<not> Jailed (exampleData keyD)"
    "UnStakedNonce (exampleData keyD) = 0" "RewardAddress (exampleData keyD) \<noteq> []"
    unfolding d by (simp_all add: nodeData_def newRegisteredData_def)
  have run: "run_state (unBond exSC (callOf ''validatorSC'' ''unBond'' [keyD])) h = (Ok, setStor keyD [] h)"
    by (rule unBond_run [OF h(1)]) (simp_all add: f can isNodeJailedOrWithBadRating_def)
  have len: "length (arg (callOf ''validatorSC'' ''unBond'' [keyD]) 0) = 12" by simp
  have "RewardAddress (exampleData (arg (callOf ''validatorSC'' ''unBond'' [keyD]) 0)) \<noteq> []"
    using unBond_safe [OF h(1) len run] by (elim conjE)
  then have "RewardAddress (exampleData keyD) \<noteq> []" by (simp only: callOf_sel nth_Cons_0 not_False_eq_True)
  then show ?thesis using run by blast
qed

section \<open>The queue as a whole\<close>

text \<open>
  Emptying the queue when staking v4 starts: on every state with a well-linked waiting list whose owners are not on the metachain,
  the call of the end-of-epoch address returns \<^verbatim>\<open>Ok\<close> and leaves an empty list; every node that was in it is
  neither staked nor waiting any more, and no other node and not the counter of staked nodes has changed.
\<close>

lemma unStakeAll_empties_queue:
  assumes "sview s L q D n h" and "callerOf args = endOfEpochAccessAddr s" and "Arguments args = []"
    and "flag s StakingV4Step1Flag"
    and "\<forall>k\<in>set (jq_keys q). GetShardOfAddress (eei s) (OwnerAddress (D k)) \<noteq> MetachainShardId (eei s)"
  shows "\<exists>h' D'. run_state (unStakeAllNodesFromQueue s container args) h = (Ok, h') \<and> sview s L ([], []) D' n h' \<and>
    (\<forall>k. if k \<in> set (jq_keys q) then \<not> Staked (D' k) \<and> \<not> Waiting (D' k) else D' k = D k)"
proof -
  let ?D = "\<lambda>k. if k \<in> set (jq_keys q) then reread s (setUnStaked s (D k)) else D k"
  have "\<not> Staked (?D k) \<and> \<not> Waiting (?D k)" if "k \<in> set (jq_keys q)" for k
    using that by (simp add: reread_cases setUnStaked_def Let_def)
  then show ?thesis using unStakeAll_run [OF assms, of container] by (intro exI [of _ ?D] ex_forward [OF unStakeAll_run [OF assms, of container]]) auto
qed


text \<open>
  The position in the queue: for the node at any position of the waiting list the query returns \<^verbatim>\<open>Ok\<close> and the
  position, counted from one, as decimal text, whether the node is the first, the last or between them; it changes nothing else.
\<close>

lemma getWaitingListIndex_correct:
  assumes "sview s L q D n h" and "i < length (jq_keys q)" and "Arguments args = [jq_keys q ! i]"
    and "callerOf args = stakeAccessAddr s" and "\<not> flag s StakingV4StartedFlag"
  shows "run_state (getWaitingListIndex s args) h = (Ok, h\<lparr>outputData := outputData h @ [itoa (int (Suc i))]\<rparr>)"
  using assms by (rule getWaitingListIndex_run)


text \<open>A storage whose waiting list is as it should be but for its header: the header starts at the first node and counts at
  least the nodes there are, its last key may be anything, and its last jailed key may point to a node that is gone.\<close>

definition brokenHeader :: "stakingSC \<Rightarrow> nat \<Rightarrow> (bytes \<Rightarrow> bytes) \<Rightarrow> WaitingList \<Rightarrow> bytes jqueue \<Rightarrow> bool" where
  "brokenHeader s L \<sigma> w q \<longleftrightarrow> headAt s \<sigma> = Some w \<and> jq_keys q \<noteq> [] \<and>
     wl_repr s L (\<sigma>(waitingListHeadKey := encHead s (headOf (fst q) (snd q)))) (fst q) (snd q) \<and>
     FirstKey w = firstKeyOr (jq_keys q) [] \<and> length (jq_keys q) \<le> unat (Length w) \<and> 1 < Length w \<and>
     (LastJailedKey w = lastKeyOr [] (fst q) \<or> fst q = [] \<and> LastJailedKey w \<notin> wk ` set (snd q))"

lemma stor_gas [simp]: "stor env (h\<lparr>gasRemaining := g\<rparr>) = stor env h"
  by (simp add: fun_eq_iff stor_def storOpt_def GetStorage_def GetStorageFromAddress_def del: slice_storOpt)

lemma fixQueue_run:
  assumes ok: "sc_ok s L" and b: "brokenHeader s L (stor (eei s) h) w q"
    and D: "\<forall>k. length k = L \<longrightarrow> decStaked s (stor (eei s) h k) = Inr (D k)"
  shows "run_state (fixQueueLoop s w (unat (Length w)) 1 (FirstKey w) (LastJailedKey w = [])) h =
    (Inr (of_nat (length (jq_keys q)), lastKeyOr [] (jq_keys q), LastJailedKey w = lastKeyOr [] (fst q)), h)"
proof -
  let ?ks = "jq_keys q"
  have r: "wl_repr s L ((stor (eei s) h)(waitingListHeadKey := encHead s (headOf (fst q) (snd q)))) (fst q) (snd q)"
    and ne: "?ks \<noteq> []" and le: "length ?ks \<le> unat (Length w)" and first: "FirstKey w = firstKeyOr ?ks []"
    using b by (auto simp: brokenHeader_def)
  have d: "dll (elemAt s (stor (eei s) h)) (firstKeyOr ?ks []) ?ks []"
    using wl_reprD(5) [OF r] by (simp add: jq_keys_def image_iff)
  have ks: "\<forall>k\<in>set ?ks. length k = L \<and> (\<exists>d. decStaked s (stor (eei s) h k) = Inr d)"
    using wl_reprD(2,3) [OF r] D by (auto simp: jq_keys_def)
  have found: "(LastJailedKey w = [] \<or> LastJailedKey w \<in> wk ` set ?ks) \<longleftrightarrow> LastJailedKey w = lastKeyOr [] (fst q)"
    using b by (auto simp: brokenHeader_def lastKeyOr_cases jq_keys_def)
  have "(1::u32) + of_nat (length ?ks - 1) = of_nat (length ?ks)" using ne by (cases ?ks) simp_all
  then show ?thesis
    using fixQueueLoop_run [OF d ne le ks, of w 1 "LastJailedKey w = []"] found first
    by (simp add: goCopy_same_length)
qed

text \<open>
  C26. The repair of the queue: on a waiting list whose elements are well linked and whose header has the right first key, but a length that is too large (at least the number of nodes, and more than 1), any last key, or a last
  jailed key that is not in the list (\<^verbatim>\<open>brokenHeader\<close>), a call with enough gas returns \<^verbatim>\<open>Ok\<close> and leaves a well-linked list of the same nodes in the same order, at the cost of its gas and with no other
  change of the storage. A length that is too small is not repaired: the loop over the nodes stops when it has counted that many.
\<close>

theorem fixWaitingListQueueSize_repairs:
  assumes "sc_ok s L" and "brokenHeader s L (stor (eei s) h) w q"
    and "\<forall>k. length k = L \<longrightarrow> decStaked s (stor (eei s) h k) = Inr (D k)"
    and "\<not> flag s StakingV4StartedFlag" and "callValue args = 0" and "gasCostFixWaitingListSize s \<le> gasRemaining h"
  shows "\<exists>h'. run_state (fixWaitingListQueueSize s args) h = (Ok, h') \<and>
    wl_repr s L (stor (eei s) h') (fst q) (snd q) \<and> gasRemaining h' = gasRemaining h - gasCostFixWaitingListSize s \<and>
    (\<forall>key. key \<noteq> waitingListHeadKey \<longrightarrow> stor (eei s) h' key = stor (eei s) h key)"
proof -
  let ?g = "gasRemaining h - gasCostFixWaitingListSize s" and ?w = "headOf (fst q) (snd q)"
  obtain g where g: "g = h\<lparr>gasRemaining := ?g\<rparr>" by blast
  have st: "stor (eei s) g = stor (eei s) h" by (simp add: g)
  have use: "run_state (UseGas (gasCostFixWaitingListSize s)) h = (Inr (), g)"
    using assms(6) by (simp add: UseGas_def g)
  have b: "brokenHeader s L (stor (eei s) g) w q" using assms(2) by (simp add: st)
  then have w: "headAt s (stor (eei s) g) = Some w" "\<not> Length w \<le> 1" "FirstKey w = firstKeyOr (jq_keys q) []"
    and r: "wl_repr s L ((stor (eei s) g)(waitingListHeadKey := encHead s ?w)) (fst q) (snd q)"
    by (auto simp: brokenHeader_def)
  note head = run_getWaitingListHead [OF w(1)]
  note loop = fixQueue_run [OF assms(1) b assms(3) [folded st]]
  let ?w' = "let w = w\<lparr>Length := of_nat (length (jq_keys q)), LastKey := lastKeyOr [] (jq_keys q)\<rparr>
    in if LastJailedKey w = lastKeyOr [] (fst q) then w else w\<lparr>LastJailedKey := []\<rparr>"
  have "LastJailedKey w \<noteq> lastKeyOr [] (fst q) \<Longrightarrow> fst q = []" using b by (auto simp: brokenHeader_def)
  then have same: "?w' = ?w" using w(3) by (auto simp: headOf_def jq_keys_def Let_def)
  have flag: "flag s CorrectFirstQueuedFlag" using assms(1) unfolding sc_ok_def by (elim conjE)
  let ?h = "setStor waitingListHeadKey (encHead s ?w) g"
  have save: "run_state (saveWaitingListHead s ?w) g = (Inr (), ?h)"
    by (rule run_saveWaitingListHead [OF sc_ok_codec [OF assms(1)]])
  have run: "run_state (fixWaitingListQueueSize s args) h =
      run_state (orFail (saveWaitingListHead s ?w') Error (\<lambda>_. return Ok)) g"
    unfolding fixWaitingListQueueSize_def orFail_def
    using assms(4,5) flag by (simp add: use head loop w(2) Let_def split del: if_split)
  have "run_state (fixWaitingListQueueSize s args) h = (Ok, ?h)"
    unfolding run same by (simp add: orFail_def save)
  moreover have "gasRemaining ?h = ?g" using sameButStorage_setStor [of g waitingListHeadKey "encHead s ?w"]
    by (simp add: sameButStorage_def g)
  ultimately show ?thesis using r by (intro exI [of _ ?h]) (auto simp: eei_frame st)
qed

theorem fixWaitingListQueueSize_repairs_witness:
  "\<exists>h h'. Length (headOf [] [keyB]) = 1 \<and> headAt exSC (stor (eei exSC) h) = Some ((headOf [] [keyB])\<lparr>Length := 5, LastJailedKey := ''gone''\<rparr>) \<and>
     run_state (fixWaitingListQueueSize exSC (callOf ''anyone'' ''fixWaitingListQueueSize'' [])) h = (Ok, h') \<and>
     wl_repr exSC 12 (stor (eei exSC) h') [] [keyB]"
proof -
  obtain h0 where h0: "sview exSC 12 ([], [keyB]) exampleData 1 h0" using example_state by blast
  let ?w = "(headOf [] [keyB])\<lparr>Length := 5, LastJailedKey := ''gone''\<rparr>"
  obtain h where h: "h = (setStor waitingListHeadKey (encHead exSC ?w) h0)\<lparr>gasRemaining := 10\<rparr>" by blast
  have st: "stor (eei exSC) h = (stor (eei exSC) h0)(waitingListHeadKey := encHead exSC ?w)"
    by (simp add: h eei_frame)
  note c = sview_codec [OF h0]
  have head: "headAt exSC (stor (eei exSC) h) = Some ?w" unfolding st by (rule headAt_encHead [OF c])
  have "wl_repr exSC 12 ((stor (eei exSC) h0)(waitingListHeadKey := encHead exSC (headOf [] [keyB]))) [] [keyB]"
    using sviewD(2) [OF h0] headAt_encHead [OF c] by (simp add: wl_repr_def)
  then have b: "brokenHeader exSC 12 (stor (eei exSC) h) ?w ([], [keyB])"
    using head by (simp add: brokenHeader_def jq_keys_def headOf_def st createWaitingListKey_def)
  have D: "\<forall>k. length k = 12 \<longrightarrow> decStaked exSC (stor (eei exSC) h k) = Inr (exampleData k)"
    using sviewD(3) [OF h0] by (auto simp: st)
  have gas: "gasCostFixWaitingListSize exSC \<le> gasRemaining h" by (simp add: h exampleSC_def)
  have v4: "\<not> flag exSC StakingV4StartedFlag" by (simp add: flagsV3_def)
  have val: "callValue (callOf ''anyone'' ''fixWaitingListQueueSize'' []) = 0" by (simp add: callValue_def)
  have one: "Length (headOf [] [keyB]) = 1" by (simp add: headOf_def)
  from fixWaitingListQueueSize_repairs [OF exSC_ok b D v4 val gas] head one show ?thesis
    unfolding fst_conv snd_conv by blast
qed

text \<open>
  Saving and loading: after the data of a node is saved, loading it gives the data as the layout of the active version
  keeps it, and every other node as before. From staking v2 on nothing but a missing slash value is changed.
\<close>

lemma save_load_round_trip:
  assumes "sview s L q D n h" and "length k = L" and "length k' = L"
    and "run_state (saveStakingData s k d) h = (r, h')"
  shows "run_state (getOrCreateRegisteredData s k') h' = (Inr (if k' = k then reread s d else D k'), h') \<and>
    (flag s StakeFlag \<and> flag s StakingV2Flag \<longrightarrow>
      reread s d = d\<lparr>SlashValue := Some (case SlashValue d of None \<Rightarrow> 0 | Some v \<Rightarrow> v)\<rparr>)"
proof -
  have "sview s L q (D(k := reread s d)) n h'" using sview_save [OF assms(1,2), of d] assms(4) by auto
  from sview_get [OF this assms(3)] show ?thesis by (simp add: reread_cases)
qed


text \<open>
  The check of an owner's funds: for an owner that has not been checked yet and whose registration can be read, the result is the
  number of its staked, waiting or jailed nodes that its total stake does not pay for: none when the stake pays for all its
  registered keys, otherwise what exceeds the number of nodes it pays for. The result is remembered for the owner, and the storage is
  only read. No wrap-around happens as long as the stake pays for fewer than \<^verbatim>\<open>2^63\<close> nodes.
\<close>

lemma checkValidatorFunds_correct:
  assumes "checked owner = None"
    and "slice (fst (run_state (GetStorageFromAddress (eei s) (stakeAccessAddr s) owner) h)) = raw" and "raw \<noteq> []"
    and "unmarshalValidatorData (marshalizer s) raw = Inr vd"
    and "\<forall>k\<in>set (BlsPubKeys vd). decStaked s (stor (eei s) h k) = Inr (D k)"
    and "0 \<le> TotalStakeValue vd" and "0 < price" and "TotalStakeValue vd div price < 2 ^ 63"
    and "length (BlsPubKeys vd) < 2 ^ 32"
    and "numNodes = nat (if int (length (BlsPubKeys vd)) \<le> TotalStakeValue vd div price then 0
      else int (length (filter (\<lambda>k. Staked (D k) \<or> Waiting (D k) \<or> Jailed (D k)) (BlsPubKeys vd))) - TotalStakeValue vd div price)"
  shows "run_state (checkValidatorFunds s checked owner price) h =
    (Inr (of_nat numNodes, checked(owner \<mapsto> of_nat numNodes)), h)"
  by (rule checkValidatorFunds_run [where m = checked, OF assms(1-9)]) (simp add: assms(10) activeNode_def comp_def)


end
