(* ===== verification/TrieNodes.thy ===== *)
theory TrieNodes
  imports Prelude
begin

text \<open>
  The nodes of the Merkle Patricia trie: \<^verbatim>\<open>src/trie/node.go\<close> and the methods of
  \<^verbatim>\<open>leafNode.go\<close>, \<^verbatim>\<open>extensionNode.go\<close> and \<^verbatim>\<open>branchNode.go\<close> that concern one node: what it
  encodes to, its hash, its version, whether its children are in memory or only known by their hash, and loading
  them from the database.

  A node in memory owns its children, so a method that changes its receiver returns the changed
  node. A Go panic (an index out of range) is the error \<^verbatim>\<open>Panic\<close>. The marshaller and the hasher are
  parameters (\<^verbatim>\<open>trieEnv\<close>), the database is a map from hashes to encodings.
\<close>

section \<open>Data\<close>

text \<open>Keys inside the trie are sequences of nibbles with a terminator.\<close>

type_synonym hexkey = "nat list"
type_synonym trieDB = "bytes \<rightharpoonup> bytes"

text \<open>The errors of \<^verbatim>\<open>src/trie/errors.go\<close>; \<^verbatim>\<open>Wrap\<close> is \<^verbatim>\<open>fmt.Errorf\<close> with \<^verbatim>\<open>%w\<close>, \<^verbatim>\<open>OutOfFuel\<close> marks the end of the
  recursion depth that a caller allowed.\<close>

datatype trie_error =
    ErrInvalidNode
  | ErrInvalidEncoding
  | ErrValueTooShort
  | ErrChildPosOutOfRange
  | ErrNodeNotFound
  | ErrEmptyBranchNode
  | ErrEmptyExtensionNode
  | ErrEmptyLeafNode
  | ErrNilNode
  | ErrInvalidNodeVersion
  | ErrInvalidLevelValue
  | GetNodeFromDBErr bytes
  | ErrStorage string
  | ErrCodec string
  | Wrap string trie_error
  | Panic
  | OutOfFuel

type_synonym 'a tres = "trie_error + 'a"

text \<open>The Go idiom \<^verbatim>\<open>if err != nil { return err }\<close>.\<close>

definition thenE :: "'a tres \<Rightarrow> ('a \<Rightarrow> 'b tres) \<Rightarrow> 'b tres" where
  "thenE r f = (case r of Inl e \<Rightarrow> Inl e | Inr x \<Rightarrow> f x)"

lemma thenE_simps [simp]: "thenE (Inl e) f = Inl e" "thenE (Inr x) f = f x"
  by (simp_all add: thenE_def)

lemma thenE_Inr: "thenE r f = Inr y \<longleftrightarrow> (\<exists>x. r = Inr x \<and> f x = Inr y)"
  by (cases r) auto

record baseNode =
  hash :: "bytes option"
  dirty :: bool

record CollapsedLn =
  LnKey :: hexkey
  LnValue :: "bytes option"
  LnVersion :: u32

record CollapsedEn =
  EnKey :: hexkey
  EncodedChild :: bytes
  ChildVersion :: u32

record CollapsedBn =
  EncodedChildren :: "bytes list"
  ChildrenVersion :: "u8 list"

datatype node =
    LeafNode CollapsedLn baseNode
  | ExtensionNode CollapsedEn "node option" baseNode
  | BranchNode CollapsedBn "node option list" baseNode

record TrieData =
  Key :: hexkey
  Value :: "bytes option"
  Version :: u8

record trieEnv =
  marshalLn :: "CollapsedLn \<Rightarrow> bytes tres"
  marshalEn :: "CollapsedEn \<Rightarrow> bytes tres"
  marshalBn :: "CollapsedBn \<Rightarrow> bytes tres"
  unmarshalLn :: "bytes \<Rightarrow> CollapsedLn tres"
  unmarshalEn :: "bytes \<Rightarrow> CollapsedEn tres"
  unmarshalBn :: "bytes \<Rightarrow> CollapsedBn tres"
  Compute :: "bytes \<Rightarrow> bytes"
  putError :: "bytes \<Rightarrow> bytes \<Rightarrow> trie_error option"

abbreviation "nrOfChildren \<equiv> (17 :: nat)"
abbreviation "hexTerminator \<equiv> (16 :: nat)"
abbreviation "NotSpecified \<equiv> (0 :: u8)"

text \<open>The type bytes that end an encoding.\<close>

abbreviation "extension \<equiv> CHR 0x00"
abbreviation "leaf \<equiv> CHR 0x01"
abbreviation "branch \<equiv> CHR 0x02"

definition newBase :: baseNode where
  "newBase = \<lparr>hash = None, dirty = True\<rparr>"

section \<open>Keys\<close>

unbundle bit_operations_syntax

definition childPosOutOfRange :: "nat \<Rightarrow> bool" where
  "childPosOutOfRange pos \<longleftrightarrow> nrOfChildren \<le> pos"

text \<open>The loop of \<^verbatim>\<open>keyBytesToHex\<close> fills the result from its end: the first byte's nibbles come last.\<close>

fun keyBytesToHexLoop :: "bytes \<Rightarrow> hexkey \<Rightarrow> hexkey" where
  "keyBytesToHexLoop [] nibbles = nibbles"
| "keyBytesToHexLoop (c # str) nibbles =
     keyBytesToHexLoop str ((of_char c mod 16) # (of_char c div 16) # nibbles)"

definition keyBytesToHex :: "bytes \<Rightarrow> hexkey" where
  "keyBytesToHex str = keyBytesToHexLoop str [hexTerminator]"

fun prefixLen :: "hexkey \<Rightarrow> hexkey \<Rightarrow> nat" where
  "prefixLen (x # a) (y # b) = (if x = y then Suc (prefixLen a b) else 0)"
| "prefixLen a b = 0"

text \<open>\<^verbatim>\<open>hexToTrieKeyBytes\<close> of the key builder, which turns the path to a leaf back into its key.\<close>

fun hexPairs :: "hexkey \<Rightarrow> bytes" where
  "hexPairs (lo # hi # rest) = hexPairs rest @ [char_of ((push_bit 4 hi mod 256) OR lo)]"
| "hexPairs _ = []"

definition hexToTrieKeyBytes :: "hexkey \<Rightarrow> bytes tres" where
  "hexToTrieKeyBytes hex =
     (if hex = [] then Inl Panic
      else let hex = butlast hex in
        if length hex mod 2 \<noteq> 0 then Inl (ErrCodec ''invalid length'')
        else Inr (hexPairs hex))"

section \<open>Empty nodes\<close>

definition leafNode_isEmptyOrNil :: "CollapsedLn \<Rightarrow> trie_error option" where
  "leafNode_isEmptyOrNil ln = (if LnValue ln = None then Some ErrEmptyLeafNode else None)"

definition extensionNode_isEmptyOrNil :: "CollapsedEn \<Rightarrow> node option \<Rightarrow> trie_error option" where
  "extensionNode_isEmptyOrNil en child =
     (if child = None \<and> length (EncodedChild en) = 0 then Some ErrEmptyExtensionNode else None)"

fun branchNode_emptyLoop :: "node option list \<Rightarrow> bytes list \<Rightarrow> trie_error option" where
  "branchNode_emptyLoop [] es = Some ErrEmptyBranchNode"
| "branchNode_emptyLoop (Some n # cs) es = None"
| "branchNode_emptyLoop (None # cs) [] = Some Panic"
| "branchNode_emptyLoop (None # cs) (e # es) =
     (if length e \<noteq> 0 then None else branchNode_emptyLoop cs es)"

definition branchNode_isEmptyOrNil :: "CollapsedBn \<Rightarrow> node option list \<Rightarrow> trie_error option" where
  "branchNode_isEmptyOrNil bn children = branchNode_emptyLoop children (EncodedChildren bn)"

fun isEmptyOrNil :: "node \<Rightarrow> trie_error option" where
  "isEmptyOrNil (LeafNode ln b) = leafNode_isEmptyOrNil ln"
| "isEmptyOrNil (ExtensionNode en child b) = extensionNode_isEmptyOrNil en child"
| "isEmptyOrNil (BranchNode bn children b) = branchNode_isEmptyOrNil bn children"

section \<open>Attributes of a node\<close>

fun base :: "node \<Rightarrow> baseNode" where
  "base (LeafNode ln b) = b"
| "base (ExtensionNode en child b) = b"
| "base (BranchNode bn children b) = b"

fun setBase :: "(baseNode \<Rightarrow> baseNode) \<Rightarrow> node \<Rightarrow> node" where
  "setBase f (LeafNode ln b) = LeafNode ln (f b)"
| "setBase f (ExtensionNode en child b) = ExtensionNode en child (f b)"
| "setBase f (BranchNode bn children b) = BranchNode bn children (f b)"

definition getHash :: "node \<Rightarrow> bytes option" where
  "getHash n = hash (base n)"

definition setGivenHash :: "bytes \<Rightarrow> node \<Rightarrow> node" where
  "setGivenHash h n = setBase (\<lambda>b. b\<lparr>hash := Some h\<rparr>) n"

definition isDirty :: "node \<Rightarrow> bool" where
  "isDirty n = dirty (base n)"

definition setDirty :: "bool \<Rightarrow> node \<Rightarrow> node" where
  "setDirty d n = setBase (\<lambda>b. b\<lparr>dirty := d\<rparr>) n"

fun getValue :: "node \<Rightarrow> bytes option" where
  "getValue (LeafNode ln b) = LnValue ln"
| "getValue (ExtensionNode en child b) = Some []"
| "getValue (BranchNode bn children b) = Some []"

definition leafNode_getVersion :: "CollapsedLn \<Rightarrow> u8 tres" where
  "leafNode_getVersion ln =
     (if 255 < LnVersion ln then Inl ErrInvalidNodeVersion else Inr (ucast (LnVersion ln)))"

definition extensionNode_getVersion :: "CollapsedEn \<Rightarrow> u8 tres" where
  "extensionNode_getVersion en =
     (if 255 < ChildVersion en then Inl ErrInvalidNodeVersion else Inr (ucast (ChildVersion en)))"

text \<open>The version of a branch is the version of its children when they agree. The two loops of \<^verbatim>\<open>getVersion\<close>: the
  version of the first child, then a comparison with the others.\<close>

fun versionsAgree :: "u8 \<Rightarrow> node option list \<Rightarrow> bytes list \<Rightarrow> u8 list \<Rightarrow> u8 tres" where
  "versionsAgree v [] es vs = Inr v"
| "versionsAgree v (None # cs) [] vs = Inl Panic"
| "versionsAgree v (None # cs) ([] # es) vs = versionsAgree v cs es (tl vs)"
| "versionsAgree v (c # cs) es [] = Inl Panic"
| "versionsAgree v (c # cs) es (w # vs) =
     (if w \<noteq> v then Inr NotSpecified else versionsAgree v cs (tl es) vs)"

fun firstVersion :: "node option list \<Rightarrow> bytes list \<Rightarrow> u8 list \<Rightarrow> u8 tres" where
  "firstVersion [] es vs = Inr 0"
| "firstVersion (None # cs) [] vs = Inl Panic"
| "firstVersion (None # cs) ([] # es) vs = firstVersion cs es (tl vs)"
| "firstVersion (c # cs) es [] = Inl Panic"
| "firstVersion (c # cs) es (w # vs) = versionsAgree w cs (tl es) vs"

definition branchNode_getVersion :: "CollapsedBn \<Rightarrow> node option list \<Rightarrow> u8 tres" where
  "branchNode_getVersion bn children =
     (if length (ChildrenVersion bn) = 0 then Inr NotSpecified
      else firstVersion children (EncodedChildren bn) (ChildrenVersion bn))"

fun getVersion :: "node \<Rightarrow> u8 tres" where
  "getVersion (LeafNode ln b) = leafNode_getVersion ln"
| "getVersion (ExtensionNode en child b) = extensionNode_getVersion en"
| "getVersion (BranchNode bn children b) = branchNode_getVersion bn children"

definition revertChildrenVersionSliceIfNeeded :: "CollapsedBn \<Rightarrow> CollapsedBn" where
  "revertChildrenVersionSliceIfNeeded bn =
     (if \<exists>v\<in>set (ChildrenVersion bn). v \<noteq> NotSpecified then bn else bn\<lparr>ChildrenVersion := []\<rparr>)"

definition setVersionForChild :: "u8 \<Rightarrow> nat \<Rightarrow> CollapsedBn \<Rightarrow> CollapsedBn tres" where
  "setVersionForChild version childPos bn =
     (let sliceNotInitialized = (length (ChildrenVersion bn) = 0) in
      if version = NotSpecified \<and> sliceNotInitialized then Inr bn
      else
        let versions = (if sliceNotInitialized then replicate nrOfChildren 0 else ChildrenVersion bn) in
        if length versions \<le> childPos then Inl Panic
        else
          let bn = bn\<lparr>ChildrenVersion := versions[childPos := version]\<rparr> in
          Inr (if version = NotSpecified then revertChildrenVersionSliceIfNeeded bn else bn))"

section \<open>New nodes\<close>

definition newLeafNode :: "TrieData \<Rightarrow> node" where
  "newLeafNode newData = LeafNode \<lparr>LnKey = Key newData, LnValue = Value newData, LnVersion = ucast (Version newData)\<rparr> newBase"

definition newBranchNode :: "CollapsedBn \<times> node option list" where
  "newBranchNode = (\<lparr>EncodedChildren = replicate nrOfChildren [], ChildrenVersion = []\<rparr>, replicate nrOfChildren None)"

definition newExtensionNode :: "hexkey \<Rightarrow> node option \<Rightarrow> node tres" where
  "newExtensionNode key child =
     (case child of
        None \<Rightarrow> Inl ErrNilNode
      | Some c \<Rightarrow> thenE (getVersion c) (\<lambda>childVersion.
          Inr (ExtensionNode \<lparr>EnKey = key, EncodedChild = [], ChildVersion = ucast childVersion\<rparr> child newBase)))"

section \<open>Encoding and decoding\<close>

definition wrapErr :: "string \<Rightarrow> trie_error option \<Rightarrow> 'a tres \<Rightarrow> 'a tres" where
  "wrapErr context err r = (case err of Some e \<Rightarrow> Inl (Wrap context e) | None \<Rightarrow> r)"

lemma wrapErr_None [simp]: "wrapErr m None r = r"
  by (simp add: wrapErr_def)

definition leafNode_getEncodedNode :: "trieEnv \<Rightarrow> CollapsedLn \<Rightarrow> bytes tres" where
  "leafNode_getEncodedNode env ln = wrapErr ''getEncodedNode error'' (leafNode_isEmptyOrNil ln)
     (thenE (marshalLn env ln) (\<lambda>marshaledNode. Inr (marshaledNode @ [leaf])))"

definition extensionNode_getEncodedNode :: "trieEnv \<Rightarrow> CollapsedEn \<Rightarrow> node option \<Rightarrow> bytes tres" where
  "extensionNode_getEncodedNode env en child = wrapErr ''getEncodedNode error'' (extensionNode_isEmptyOrNil en child)
     (thenE (marshalEn env en) (\<lambda>marshaledNode. Inr (marshaledNode @ [extension])))"

definition branchNode_getEncodedNode :: "trieEnv \<Rightarrow> CollapsedBn \<Rightarrow> node option list \<Rightarrow> bytes tres" where
  "branchNode_getEncodedNode env bn children = wrapErr ''getEncodedNode error'' (branchNode_isEmptyOrNil bn children)
     (thenE (marshalBn env bn) (\<lambda>marshaledNode. Inr (marshaledNode @ [branch])))"

fun getEncodedNode :: "trieEnv \<Rightarrow> node \<Rightarrow> bytes tres" where
  "getEncodedNode env (LeafNode ln b) = leafNode_getEncodedNode env ln"
| "getEncodedNode env (ExtensionNode en child b) = extensionNode_getEncodedNode env en child"
| "getEncodedNode env (BranchNode bn children b) = branchNode_getEncodedNode env bn children"

definition encodeNodeAndGetHash :: "trieEnv \<Rightarrow> node \<Rightarrow> bytes tres" where
  "encodeNodeAndGetHash env n = thenE (getEncodedNode env n) (\<lambda>encNode. Inr (Compute env encNode))"

text \<open>An empty node and the decoding of a message into it.\<close>

definition getEmptyNodeOfType :: "char \<Rightarrow> node tres" where
  "getEmptyNodeOfType t =
     (if t = extension then
        Inr (ExtensionNode \<lparr>EnKey = [], EncodedChild = [], ChildVersion = 0\<rparr> None \<lparr>hash = None, dirty = False\<rparr>)
      else if t = leaf then
        Inr (LeafNode \<lparr>LnKey = [], LnValue = None, LnVersion = 0\<rparr> \<lparr>hash = None, dirty = False\<rparr>)
      else if t = branch then
        Inr (BranchNode \<lparr>EncodedChildren = [], ChildrenVersion = []\<rparr> (replicate nrOfChildren None)
          \<lparr>hash = None, dirty = False\<rparr>)
      else Inl ErrInvalidNode)"

fun unmarshalNode :: "trieEnv \<Rightarrow> node \<Rightarrow> bytes \<Rightarrow> node tres" where
  "unmarshalNode env (LeafNode ln b) enc = thenE (unmarshalLn env enc) (\<lambda>ln. Inr (LeafNode ln b))"
| "unmarshalNode env (ExtensionNode en child b) enc = thenE (unmarshalEn env enc) (\<lambda>en. Inr (ExtensionNode en child b))"
| "unmarshalNode env (BranchNode bn children b) enc = thenE (unmarshalBn env enc) (\<lambda>bn. Inr (BranchNode bn children b))"

definition decodeNode :: "trieEnv \<Rightarrow> bytes \<Rightarrow> node tres" where
  "decodeNode env encNode =
     (if length encNode < 1 then Inl ErrInvalidEncoding
      else thenE (getEmptyNodeOfType (last encNode)) (\<lambda>newNode. unmarshalNode env newNode (butlast encNode)))"

definition getNodeFromDBAndDecode :: "trieEnv \<Rightarrow> trieDB \<Rightarrow> bytes \<Rightarrow> node tres" where
  "getNodeFromDBAndDecode env db n =
     (case db n of None \<Rightarrow> Inl (GetNodeFromDBErr n) | Some encChild \<Rightarrow> decodeNode env encChild)"

section \<open>Collapsed children\<close>

definition extensionNode_isCollapsed :: "CollapsedEn \<Rightarrow> node option \<Rightarrow> bool" where
  "extensionNode_isCollapsed en child \<longleftrightarrow> child = None \<and> length (EncodedChild en) \<noteq> 0"

definition branchNode_isCollapsed :: "node option list \<Rightarrow> bool" where
  "branchNode_isCollapsed children \<longleftrightarrow> (\<forall>c\<in>set children. c = None)"

definition branchNode_isPosCollapsed :: "CollapsedBn \<Rightarrow> node option list \<Rightarrow> nat \<Rightarrow> bool tres" where
  "branchNode_isPosCollapsed bn children pos =
     (if length children \<le> pos then Inl Panic
      else if children ! pos \<noteq> None then Inr False
      else if length (EncodedChildren bn) \<le> pos then Inl Panic
      else Inr (length (EncodedChildren bn ! pos) \<noteq> 0))"

definition extensionNode_resolveCollapsed ::
  "trieEnv \<Rightarrow> trieDB \<Rightarrow> CollapsedEn \<Rightarrow> node option \<Rightarrow> baseNode \<Rightarrow> node tres" where
  "extensionNode_resolveCollapsed env db en child b =
     wrapErr ''resolveCollapsed error'' (extensionNode_isEmptyOrNil en child)
       (thenE (getNodeFromDBAndDecode env db (EncodedChild en)) (\<lambda>c.
          Inr (ExtensionNode en (Some (setGivenHash (EncodedChild en) c)) b)))"

definition branchNode_resolveCollapsed ::
  "trieEnv \<Rightarrow> trieDB \<Rightarrow> CollapsedBn \<Rightarrow> node option list \<Rightarrow> baseNode \<Rightarrow> nat \<Rightarrow> node tres" where
  "branchNode_resolveCollapsed env db bn children b pos =
     wrapErr ''resolveCollapsed error'' (branchNode_isEmptyOrNil bn children)
       (if childPosOutOfRange pos then Inl ErrChildPosOutOfRange
        else if length (EncodedChildren bn) \<le> pos then Inl Panic
        else if length (EncodedChildren bn ! pos) \<noteq> 0 then
          thenE (getNodeFromDBAndDecode env db (EncodedChildren bn ! pos)) (\<lambda>c.
            Inr (BranchNode bn (children[pos := Some (setGivenHash (EncodedChildren bn ! pos) c)]) b))
        else Inr (BranchNode bn children b))"

fun resolveIfCollapsed :: "trieEnv \<Rightarrow> trieDB \<Rightarrow> node \<Rightarrow> nat \<Rightarrow> node tres" where
  "resolveIfCollapsed env db n pos =
     (case isEmptyOrNil n of
        Some e \<Rightarrow> Inl e
      | None \<Rightarrow>
         (case n of
            LeafNode ln b \<Rightarrow> Inr n
          | ExtensionNode en child b \<Rightarrow>
              if \<not> extensionNode_isCollapsed en child then Inr n
              else extensionNode_resolveCollapsed env db en child b
          | BranchNode bn children b \<Rightarrow>
              thenE (branchNode_isPosCollapsed bn children pos) (\<lambda>collapsed.
                if \<not> collapsed then Inr n else branchNode_resolveCollapsed env db bn children b pos)))"

declare resolveIfCollapsed.simps [simp del]

end
