(* ===== verification/TrieHash.thy ===== *)
theory TrieHash
  imports TrieNodes
begin

text \<open>
  Hashing, collapsing and committing the nodes of the trie: \<^verbatim>\<open>setHash\<close>, \<^verbatim>\<open>hashChildren\<close>, \<^verbatim>\<open>hashNode\<close>,
  \<^verbatim>\<open>getCollapsed\<close>, \<^verbatim>\<open>commitDirty\<close> and \<^verbatim>\<open>getDirtyHashes\<close>. These methods only visit nodes that are in memory, so
  the recursion follows the tree. A recursive method hands the result of the call on each child to the
  definition of the method of one kind of node, which uses it where the code makes the call.
\<close>

section \<open>Hashing\<close>

text \<open>The result of a method that can fail, and its receiver afterwards.\<close>

type_synonym nodeRes = "unit tres \<times> node"

definition leafNode_hashNode :: "trieEnv \<Rightarrow> CollapsedLn \<Rightarrow> baseNode \<Rightarrow> bytes tres" where
  "leafNode_hashNode env ln b = wrapErr ''hashNode error'' (leafNode_isEmptyOrNil ln)
     (encodeNodeAndGetHash env (LeafNode ln b))"

definition leafNode_setHash :: "trieEnv \<Rightarrow> CollapsedLn \<Rightarrow> baseNode \<Rightarrow> nodeRes" where
  "leafNode_setHash env ln b =
     (case leafNode_isEmptyOrNil ln of
        Some e \<Rightarrow> (Inl (Wrap ''setHash error'' e), LeafNode ln b)
      | None \<Rightarrow>
          if hash b \<noteq> None then (Inr (), LeafNode ln b)
          else (case leafNode_hashNode env ln b of
                  Inl e \<Rightarrow> (Inl e, LeafNode ln b)
                | Inr h \<Rightarrow> (Inr (), LeafNode ln (b\<lparr>hash := Some h\<rparr>))))"

definition extensionNode_hashChildren ::
  "CollapsedEn \<Rightarrow> node option \<Rightarrow> nodeRes option \<Rightarrow> unit tres \<times> node option" where
  "extensionNode_hashChildren en child childRes =
     (case extensionNode_isEmptyOrNil en child of
        Some e \<Rightarrow> (Inl (Wrap ''hashChildren error'' e), child)
      | None \<Rightarrow> (case childRes of None \<Rightarrow> (Inr (), child) | Some (r, c) \<Rightarrow> (r, Some c)))"

definition extensionNode_hashNode ::
  "trieEnv \<Rightarrow> CollapsedEn \<Rightarrow> node option \<Rightarrow> baseNode \<Rightarrow> bytes tres \<times> CollapsedEn" where
  "extensionNode_hashNode env en child b =
     (case extensionNode_isEmptyOrNil en child of
        Some e \<Rightarrow> (Inl (Wrap ''hashNode error'' e), en)
      | None \<Rightarrow>
         (case child of
            None \<Rightarrow> (encodeNodeAndGetHash env (ExtensionNode en child b), en)
          | Some c \<Rightarrow>
             (case encodeNodeAndGetHash env c of
                Inl e \<Rightarrow> (Inl e, en)
              | Inr encChild \<Rightarrow>
                  let en = en\<lparr>EncodedChild := encChild\<rparr>
                  in (encodeNodeAndGetHash env (ExtensionNode en child b), en))))"

definition extensionNode_setHash ::
  "trieEnv \<Rightarrow> CollapsedEn \<Rightarrow> node option \<Rightarrow> baseNode \<Rightarrow> nodeRes option \<Rightarrow> nodeRes" where
  "extensionNode_setHash env en child b childRes =
     (case extensionNode_isEmptyOrNil en child of
        Some e \<Rightarrow> (Inl (Wrap ''setHash error'' e), ExtensionNode en child b)
      | None \<Rightarrow>
          if hash b \<noteq> None then (Inr (), ExtensionNode en child b)
          else if extensionNode_isCollapsed en child then
            (case encodeNodeAndGetHash env (ExtensionNode en child b) of
               Inl e \<Rightarrow> (Inl e, ExtensionNode en child b)
             | Inr h \<Rightarrow> (Inr (), ExtensionNode en child (b\<lparr>hash := Some h\<rparr>)))
          else
            (case extensionNode_hashChildren en child childRes of
               (Inl e, child) \<Rightarrow> (Inl e, ExtensionNode en child b)
             | (Inr _, child) \<Rightarrow>
                (case extensionNode_hashNode env en child b of
                   (Inl e, en) \<Rightarrow> (Inl e, ExtensionNode en child b)
                 | (Inr h, en) \<Rightarrow> (Inr (), ExtensionNode en child (b\<lparr>hash := Some h\<rparr>)))))"

text \<open>The loop over the children, which stops at the first error.\<close>

fun hashChildrenLoop :: "node option list \<Rightarrow> nodeRes option list \<Rightarrow> unit tres \<times> node option list" where
  "hashChildrenLoop (c # cs) (None # rs) = (let (r, cs) = hashChildrenLoop cs rs in (r, c # cs))"
| "hashChildrenLoop (c # cs) (Some (Inl e, n) # rs) = (Inl e, Some n # cs)"
| "hashChildrenLoop (c # cs) (Some (Inr u, n) # rs) = (let (r, cs) = hashChildrenLoop cs rs in (r, Some n # cs))"
| "hashChildrenLoop cs rs = (Inr (), cs)"

definition branchNode_hashChildren ::
  "CollapsedBn \<Rightarrow> node option list \<Rightarrow> nodeRes option list \<Rightarrow> unit tres \<times> node option list" where
  "branchNode_hashChildren bn children childrenRes =
     (case branchNode_isEmptyOrNil bn children of
        Some e \<Rightarrow> (Inl (Wrap ''hashChildren error'' e), children)
      | None \<Rightarrow> hashChildrenLoop children childrenRes)"

fun encodeChildrenLoop :: "trieEnv \<Rightarrow> node option list \<Rightarrow> bytes list \<Rightarrow> unit tres \<times> bytes list" where
  "encodeChildrenLoop env cs [] = (Inr (), [])"
| "encodeChildrenLoop env [] (e # es) = (Inl Panic, e # es)"
| "encodeChildrenLoop env (None # cs) (e # es) = (let (r, es) = encodeChildrenLoop env cs es in (r, e # es))"
| "encodeChildrenLoop env (Some c # cs) (e # es) =
     (case encodeNodeAndGetHash env c of
        Inl err \<Rightarrow> (Inl err, e # es)
      | Inr encChild \<Rightarrow> (let (r, es) = encodeChildrenLoop env cs es in (r, encChild # es)))"

definition branchNode_hashNode ::
  "trieEnv \<Rightarrow> CollapsedBn \<Rightarrow> node option list \<Rightarrow> baseNode \<Rightarrow> bytes tres \<times> CollapsedBn" where
  "branchNode_hashNode env bn children b =
     (case branchNode_isEmptyOrNil bn children of
        Some e \<Rightarrow> (Inl (Wrap ''hashNode error'' e), bn)
      | None \<Rightarrow>
         (let (r, es) = encodeChildrenLoop env children (EncodedChildren bn);
              bn = bn\<lparr>EncodedChildren := es\<rparr>
          in (thenE r (\<lambda>_. encodeNodeAndGetHash env (BranchNode bn children b)), bn)))"

definition branchNode_finishHash :: "trieEnv \<Rightarrow> CollapsedBn \<Rightarrow> node option list \<Rightarrow> baseNode \<Rightarrow> nodeRes" where
  "branchNode_finishHash env bn children b =
     (case branchNode_hashNode env bn children b of
        (Inl e, bn) \<Rightarrow> (Inl e, BranchNode bn children b)
      | (Inr h, bn) \<Rightarrow> (Inr (), BranchNode bn children (b\<lparr>hash := Some h\<rparr>)))"

definition branchNode_setHashAs ::
  "string \<Rightarrow> trieEnv \<Rightarrow> CollapsedBn \<Rightarrow> node option list \<Rightarrow> baseNode \<Rightarrow>
   (unit tres \<times> node option list) \<Rightarrow> nodeRes" where
  "branchNode_setHashAs context env bn children b hashedChildren =
     (case branchNode_isEmptyOrNil bn children of
        Some e \<Rightarrow> (Inl (Wrap context e), BranchNode bn children b)
      | None \<Rightarrow>
          if hash b \<noteq> None then (Inr (), BranchNode bn children b)
          else if branchNode_isCollapsed children then
            (case encodeNodeAndGetHash env (BranchNode bn children b) of
               Inl e \<Rightarrow> (Inl e, BranchNode bn children b)
             | Inr h \<Rightarrow> (Inr (), BranchNode bn children (b\<lparr>hash := Some h\<rparr>)))
          else
            (case hashedChildren of
               (Inl e, children) \<Rightarrow> (Inl e, BranchNode bn children b)
             | (Inr _, children) \<Rightarrow> branchNode_finishHash env bn children b))"

definition branchNode_setHash ::
  "trieEnv \<Rightarrow> CollapsedBn \<Rightarrow> node option list \<Rightarrow> baseNode \<Rightarrow> nodeRes option list \<Rightarrow> nodeRes" where
  "branchNode_setHash env bn children b childrenRes =
     branchNode_setHashAs ''setHash error'' env bn children b (branchNode_hashChildren bn children childrenRes)"

primrec setHash :: "trieEnv \<Rightarrow> node \<Rightarrow> nodeRes" where
  "setHash env (LeafNode ln b) = leafNode_setHash env ln b"
| "setHash env (ExtensionNode en child b) = extensionNode_setHash env en child b (map_option (setHash env) child)"
| "setHash env (BranchNode bn children b) =
     branchNode_setHash env bn children b (map (map_option (setHash env)) children)"

text \<open>The root hashes its children concurrently: all of them are hashed, and then an error that occurred is
  returned; the model returns the one of the lowest position.\<close>

definition branchNode_setHashConcurrent ::
  "trieEnv \<Rightarrow> CollapsedBn \<Rightarrow> node option list \<Rightarrow> baseNode \<Rightarrow> nodeRes" where
  "branchNode_setHashConcurrent env bn children b =
     branchNode_setHashAs ''setHashConcurrent error'' env bn children b
       (branchNode_hashChildren bn children (map (map_option (setHash env)) children))"

fun setHashConcurrent :: "trieEnv \<Rightarrow> node \<Rightarrow> nodeRes" where
  "setHashConcurrent env (BranchNode bn children b) = branchNode_setHashConcurrent env bn children b"
| "setHashConcurrent env n = setHash env n"

definition hashAllChildren :: "trieEnv \<Rightarrow> node option list \<Rightarrow> unit tres \<times> node option list" where
  "hashAllChildren env children =
     (let rs = map (map_option (setHashConcurrent env)) children in
      (case [e. Some (Inl e, n) \<leftarrow> rs] of e # _ \<Rightarrow> Inl e | [] \<Rightarrow> Inr (), map (map_option snd) rs))"

fun setRootHash :: "trieEnv \<Rightarrow> node \<Rightarrow> nodeRes" where
  "setRootHash env (BranchNode bn children b) =
     branchNode_setHashAs ''setRootHash error'' env bn children b (hashAllChildren env children)"
| "setRootHash env n = setHash env n"

section \<open>Collapsing\<close>

definition hasValidHash :: "node \<Rightarrow> bool tres" where
  "hasValidHash n =
     (case isEmptyOrNil n of
        Some e \<Rightarrow> Inl e
      | None \<Rightarrow> Inr (\<not> (getHash n = None \<or> isDirty n)))"

text \<open>The child with a hash, computed when it has none or is dirty.\<close>

definition withValidHash :: "trieEnv \<Rightarrow> node \<Rightarrow> nodeRes" where
  "withValidHash env c =
     (case hasValidHash c of
        Inl e \<Rightarrow> (Inl e, c)
      | Inr ok \<Rightarrow> if \<not> ok then setHash env c else (Inr (), c))"

definition extensionNode_getCollapsedEn ::
  "trieEnv \<Rightarrow> CollapsedEn \<Rightarrow> node option \<Rightarrow> baseNode \<Rightarrow> node tres \<times> node" where
  "extensionNode_getCollapsedEn env en child b =
     (let self = ExtensionNode en child b in
      case extensionNode_isEmptyOrNil en child of
        Some e \<Rightarrow> (Inl (Wrap ''getCollapsed error'' e), self)
      | None \<Rightarrow>
         (case child of
            None \<Rightarrow> (Inr self, self)
          | Some c \<Rightarrow>
             (case withValidHash env c of
                (Inl e, c) \<Rightarrow> (Inl e, ExtensionNode en (Some c) b)
              | (Inr _, c) \<Rightarrow>
                  (Inr (ExtensionNode (en\<lparr>EncodedChild := slice (getHash c)\<rparr>) None b), ExtensionNode en (Some c) b))))"

text \<open>The collapsed copy of a branch shares the slice of encoded children with the branch, which is updated
  as well.\<close>

fun collapseChildrenLoop ::
  "trieEnv \<Rightarrow> node option list \<Rightarrow> bytes list \<Rightarrow> unit tres \<times> node option list \<times> bytes list" where
  "collapseChildrenLoop env [] es = (Inr (), [], es)"
| "collapseChildrenLoop env (None # cs) es =
     (let (r, cs, es') = collapseChildrenLoop env cs (tl es) in (r, None # cs, take 1 es @ es'))"
| "collapseChildrenLoop env (Some c # cs) [] = (Inl Panic, Some c # cs, [])"
| "collapseChildrenLoop env (Some c # cs) (e # es) =
     (case withValidHash env c of
        (Inl err, c) \<Rightarrow> (Inl err, Some c # cs, e # es)
      | (Inr _, c) \<Rightarrow>
          (let (r, cs, es) = collapseChildrenLoop env cs es in (r, Some c # cs, slice (getHash c) # es)))"

definition branchNode_getCollapsedBn ::
  "trieEnv \<Rightarrow> CollapsedBn \<Rightarrow> node option list \<Rightarrow> baseNode \<Rightarrow> node tres \<times> node" where
  "branchNode_getCollapsedBn env bn children b =
     (let self = BranchNode bn children b in
      case branchNode_isEmptyOrNil bn children of
        Some e \<Rightarrow> (Inl (Wrap ''getCollapsed error'' e), self)
      | None \<Rightarrow>
          if branchNode_isCollapsed children then (Inr self, self)
          else
            let (r, children, es) = collapseChildrenLoop env children (EncodedChildren bn);
                bn = bn\<lparr>EncodedChildren := es\<rparr>
            in (thenE r (\<lambda>_. Inr (BranchNode bn (map (\<lambda>_. None) children) b)), BranchNode bn children b))"

fun getCollapsed :: "trieEnv \<Rightarrow> node \<Rightarrow> node tres \<times> node" where
  "getCollapsed env (LeafNode ln b) = (Inr (LeafNode ln b), LeafNode ln b)"
| "getCollapsed env (ExtensionNode en child b) = extensionNode_getCollapsedEn env en child b"
| "getCollapsed env (BranchNode bn children b) = branchNode_getCollapsedBn env bn children b"

section \<open>Committing\<close>

definition computeAndSetNodeHash :: "trieEnv \<Rightarrow> node \<Rightarrow> bytes tres \<times> node" where
  "computeAndSetNodeHash env n =
     (if length (slice (getHash n)) \<noteq> 0 then (Inr (slice (getHash n)), n)
      else (case setHash env n of
              (Inl e, n) \<Rightarrow> (Inl e, n)
            | (Inr _, n) \<Rightarrow> (Inr (slice (getHash n)), n)))"

definition collapseAndEncodeNode :: "trieEnv \<Rightarrow> node \<Rightarrow> bytes tres \<times> node" where
  "collapseAndEncodeNode env n =
     (case getCollapsed env n of (r, n) \<Rightarrow> (thenE r (getEncodedNode env), n))"

definition encodeNodeAndCommitToDB :: "trieEnv \<Rightarrow> node \<Rightarrow> trieDB \<Rightarrow> nat tres \<times> node \<times> trieDB" where
  "encodeNodeAndCommitToDB env n db =
     (case computeAndSetNodeHash env n of
        (Inl e, n) \<Rightarrow> (Inl e, n, db)
      | (Inr key, n) \<Rightarrow>
         (case collapseAndEncodeNode env n of
            (Inl e, n) \<Rightarrow> (Inl e, n, db)
          | (Inr val, n) \<Rightarrow>
             (case putError env key val of
                Some e \<Rightarrow> (Inl e, n, db)
              | None \<Rightarrow> (Inr (length val), n, db(key \<mapsto> val)))))"

type_synonym commitRes = "unit tres \<times> node \<times> trieDB"

definition leafNode_commitDirty :: "trieEnv \<Rightarrow> CollapsedLn \<Rightarrow> baseNode \<Rightarrow> trieDB \<Rightarrow> commitRes" where
  "leafNode_commitDirty env ln b db =
     (case leafNode_isEmptyOrNil ln of
        Some e \<Rightarrow> (Inl (Wrap ''commit error'' e), LeafNode ln b, db)
      | None \<Rightarrow>
          if \<not> dirty b then (Inr (), LeafNode ln b, db)
          else (case encodeNodeAndCommitToDB env (LeafNode ln (b\<lparr>dirty := False\<rparr>)) db of
                  (r, n, db) \<Rightarrow> (thenE r (\<lambda>_. Inr ()), n, db)))"

text \<open>The end of \<^verbatim>\<open>commitDirty\<close> of extensions and branches: the node is written, and its children leave the
  memory at the last level that is kept there.\<close>

definition commitSelf :: "trieEnv \<Rightarrow> u8 \<Rightarrow> u64 \<Rightarrow> node \<Rightarrow> trieDB \<Rightarrow> commitRes" where
  "commitSelf env level maxTrieLevelInMemory n db =
     (case encodeNodeAndCommitToDB env (setDirty False n) db of
        (Inl e, n, db) \<Rightarrow> (Inl e, n, db)
      | (Inr _, n, db) \<Rightarrow>
          if ucast level = maxTrieLevelInMemory then
            (case getCollapsed env n of
               (Inl e, n) \<Rightarrow> (Inl e, n, db)
             | (Inr collapsed, n) \<Rightarrow> (Inr (), collapsed, db))
          else (Inr (), n, db))"

definition extensionNode_commitDirty ::
  "trieEnv \<Rightarrow> u8 \<Rightarrow> u64 \<Rightarrow> CollapsedEn \<Rightarrow> node option \<Rightarrow> baseNode \<Rightarrow>
   (u8 \<Rightarrow> u64 \<Rightarrow> trieDB \<Rightarrow> commitRes) option \<Rightarrow> trieDB \<Rightarrow> commitRes" where
  "extensionNode_commitDirty env level maxTrieLevelInMemory en child b childCommit db =
     (let level = level + 1 in
      case extensionNode_isEmptyOrNil en child of
        Some e \<Rightarrow> (Inl (Wrap ''commit error'' e), ExtensionNode en child b, db)
      | None \<Rightarrow>
          if \<not> dirty b then (Inr (), ExtensionNode en child b, db)
          else
            (case childCommit of
               None \<Rightarrow> commitSelf env level maxTrieLevelInMemory (ExtensionNode en child b) db
             | Some commit \<Rightarrow>
                (case commit level maxTrieLevelInMemory db of
                   (Inl e, c, db) \<Rightarrow> (Inl e, ExtensionNode en (Some c) b, db)
                 | (Inr _, c, db) \<Rightarrow> commitSelf env level maxTrieLevelInMemory (ExtensionNode en (Some c) b) db)))"

fun commitChildrenLoop ::
  "node option list \<Rightarrow> (u8 \<Rightarrow> u64 \<Rightarrow> trieDB \<Rightarrow> commitRes) option list \<Rightarrow> u8 \<Rightarrow> u64 \<Rightarrow> trieDB \<Rightarrow>
   unit tres \<times> node option list \<times> trieDB" where
  "commitChildrenLoop (c # cs) (None # fs) level m db =
     (let (r, cs, db) = commitChildrenLoop cs fs level m db in (r, c # cs, db))"
| "commitChildrenLoop (c # cs) (Some commit # fs) level m db =
     (case commit level m db of
        (Inl e, n, db) \<Rightarrow> (Inl e, Some n # cs, db)
      | (Inr _, n, db) \<Rightarrow> (let (r, cs, db) = commitChildrenLoop cs fs level m db in (r, Some n # cs, db)))"
| "commitChildrenLoop cs fs level m db = (Inr (), cs, db)"

definition branchNode_commitDirty ::
  "trieEnv \<Rightarrow> u8 \<Rightarrow> u64 \<Rightarrow> CollapsedBn \<Rightarrow> node option list \<Rightarrow> baseNode \<Rightarrow>
   (u8 \<Rightarrow> u64 \<Rightarrow> trieDB \<Rightarrow> commitRes) option list \<Rightarrow> trieDB \<Rightarrow> commitRes" where
  "branchNode_commitDirty env level maxTrieLevelInMemory bn children b childrenCommit db =
     (let level = level + 1 in
      case branchNode_isEmptyOrNil bn children of
        Some e \<Rightarrow> (Inl (Wrap ''commit error'' e), BranchNode bn children b, db)
      | None \<Rightarrow>
          if \<not> dirty b then (Inr (), BranchNode bn children b, db)
          else
            (case commitChildrenLoop children childrenCommit level maxTrieLevelInMemory db of
               (Inl e, children, db) \<Rightarrow> (Inl e, BranchNode bn children b, db)
             | (Inr _, children, db) \<Rightarrow> commitSelf env level maxTrieLevelInMemory (BranchNode bn children b) db))"

primrec commitDirty :: "trieEnv \<Rightarrow> node \<Rightarrow> u8 \<Rightarrow> u64 \<Rightarrow> trieDB \<Rightarrow> commitRes" where
  "commitDirty env (LeafNode ln b) = (\<lambda>level m db. leafNode_commitDirty env ln b db)"
| "commitDirty env (ExtensionNode en child b) = (\<lambda>level m db.
     extensionNode_commitDirty env level m en child b (map_option (commitDirty env) child) db)"
| "commitDirty env (BranchNode bn children b) = (\<lambda>level m db.
     branchNode_commitDirty env level m bn children b (map (map_option (commitDirty env)) children) db)"

section \<open>The hashes of changed nodes\<close>

fun dirtyHashesLoop :: "(bytes set \<Rightarrow> unit tres \<times> bytes set) option list \<Rightarrow> bytes set \<Rightarrow> unit tres \<times> bytes set" where
  "dirtyHashesLoop [] hashes = (Inr (), hashes)"
| "dirtyHashesLoop (None # fs) hashes = dirtyHashesLoop fs hashes"
| "dirtyHashesLoop (Some f # fs) hashes =
     (case f hashes of (Inl e, hashes) \<Rightarrow> (Inl e, hashes) | (Inr _, hashes) \<Rightarrow> dirtyHashesLoop fs hashes)"

definition leafNode_getDirtyHashes :: "CollapsedLn \<Rightarrow> baseNode \<Rightarrow> bytes set \<Rightarrow> unit tres \<times> bytes set" where
  "leafNode_getDirtyHashes ln b hashes =
     (case leafNode_isEmptyOrNil ln of
        Some e \<Rightarrow> (Inl (Wrap ''getDirtyHashes error'' e), hashes)
      | None \<Rightarrow> if \<not> dirty b then (Inr (), hashes) else (Inr (), insert (slice (hash b)) hashes))"

definition extensionNode_getDirtyHashes ::
  "CollapsedEn \<Rightarrow> node option \<Rightarrow> baseNode \<Rightarrow> (bytes set \<Rightarrow> unit tres \<times> bytes set) option \<Rightarrow> bytes set \<Rightarrow> unit tres \<times> bytes set" where
  "extensionNode_getDirtyHashes en child b childHashes hashes =
     (case extensionNode_isEmptyOrNil en child of
        Some e \<Rightarrow> (Inl (Wrap ''getDirtyHashes error'' e), hashes)
      | None \<Rightarrow>
          if \<not> dirty b then (Inr (), hashes)
          else
            (case childHashes of
               None \<Rightarrow> (Inr (), hashes)
             | Some f \<Rightarrow>
                (case f hashes of
                   (Inl e, hashes) \<Rightarrow> (Inl e, hashes)
                 | (Inr _, hashes) \<Rightarrow> (Inr (), insert (slice (hash b)) hashes))))"

definition branchNode_getDirtyHashes ::
  "CollapsedBn \<Rightarrow> node option list \<Rightarrow> baseNode \<Rightarrow> (bytes set \<Rightarrow> unit tres \<times> bytes set) option list \<Rightarrow>
   bytes set \<Rightarrow> unit tres \<times> bytes set" where
  "branchNode_getDirtyHashes bn children b childrenHashes hashes =
     (case branchNode_isEmptyOrNil bn children of
        Some e \<Rightarrow> (Inl (Wrap ''getDirtyHashes error'' e), hashes)
      | None \<Rightarrow>
          if \<not> dirty b then (Inr (), hashes)
          else
            (case dirtyHashesLoop childrenHashes hashes of
               (Inl e, hashes) \<Rightarrow> (Inl e, hashes)
             | (Inr _, hashes) \<Rightarrow> (Inr (), insert (slice (hash b)) hashes)))"

primrec getDirtyHashes :: "node \<Rightarrow> bytes set \<Rightarrow> unit tres \<times> bytes set" where
  "getDirtyHashes (LeafNode ln b) = leafNode_getDirtyHashes ln b"
| "getDirtyHashes (ExtensionNode en child b) = extensionNode_getDirtyHashes en child b (map_option getDirtyHashes child)"
| "getDirtyHashes (BranchNode bn children b) = branchNode_getDirtyHashes bn children b (map (map_option getDirtyHashes) children)"

section \<open>All hashes\<close>

text \<open>
  \<^verbatim>\<open>getAllHashes\<close> of the three kinds of nodes; it loads collapsed children. The first argument bounds the depth.
\<close>

definition extensionNode_getAllHashes ::
  "(node \<Rightarrow> bytes list tres \<times> node) \<Rightarrow> trieEnv \<Rightarrow> trieDB \<Rightarrow> CollapsedEn \<Rightarrow> node option \<Rightarrow> baseNode \<Rightarrow> bytes list tres \<times> node" where
  "extensionNode_getAllHashes childHashes env db en child b =
     (case extensionNode_isEmptyOrNil en child of
        Some e \<Rightarrow> (Inl (Wrap ''getAllHashes error'' e), ExtensionNode en child b)
      | None \<Rightarrow>
         (case resolveIfCollapsed env db (ExtensionNode en child b) 0 of
            Inr (ExtensionNode en' (Some c) b') \<Rightarrow>
             (case childHashes c of
                (Inl e, c) \<Rightarrow> (Inl e, ExtensionNode en' (Some c) b')
              | (Inr hashes, c) \<Rightarrow> (Inr (hashes @ [slice (hash b')]), ExtensionNode en' (Some c) b'))
          | Inr n \<Rightarrow> (Inl Panic, n)
          | Inl e \<Rightarrow> (Inl e, ExtensionNode en child b)))"

fun branchAllHashesLoop ::
  "(node \<Rightarrow> bytes list tres \<times> node) \<Rightarrow> trieEnv \<Rightarrow> trieDB \<Rightarrow> nat list \<Rightarrow> bytes list \<Rightarrow> node \<Rightarrow> bytes list tres \<times> node" where
  "branchAllHashesLoop childHashes env db [] hashes n = (Inr hashes, n)"
| "branchAllHashesLoop childHashes env db (i # is) hashes n =
     (case resolveIfCollapsed env db n i of
        Inl e \<Rightarrow> (Inl e, n)
      | Inr (BranchNode bn children b) \<Rightarrow>
         (case children ! i of
            None \<Rightarrow> branchAllHashesLoop childHashes env db is hashes (BranchNode bn children b)
          | Some c \<Rightarrow>
             (case childHashes c of
                (Inl e, c) \<Rightarrow> (Inl e, BranchNode bn (children[i := Some c]) b)
              | (Inr hs, c) \<Rightarrow>
                  branchAllHashesLoop childHashes env db is (hashes @ hs) (BranchNode bn (children[i := Some c]) b)))
      | Inr n \<Rightarrow> (Inl Panic, n))"

definition branchNode_getAllHashes ::
  "(node \<Rightarrow> bytes list tres \<times> node) \<Rightarrow> trieEnv \<Rightarrow> trieDB \<Rightarrow> CollapsedBn \<Rightarrow> node option list \<Rightarrow> baseNode \<Rightarrow> bytes list tres \<times> node" where
  "branchNode_getAllHashes childHashes env db bn children b =
     (case branchNode_isEmptyOrNil bn children of
        Some e \<Rightarrow> (Inl (Wrap ''getAllHashes error'' e), BranchNode bn children b)
      | None \<Rightarrow>
         (case branchAllHashesLoop childHashes env db [0..<length children] [] (BranchNode bn children b) of
            (Inl e, n) \<Rightarrow> (Inl e, n)
          | (Inr hashes, n) \<Rightarrow> (Inr (hashes @ [slice (hash b)]), n)))"

primrec getAllHashes :: "nat \<Rightarrow> trieEnv \<Rightarrow> trieDB \<Rightarrow> node \<Rightarrow> bytes list tres \<times> node" where
  "getAllHashes 0 env db n = (Inl OutOfFuel, n)"
| "getAllHashes (Suc fuel) env db n =
     (case n of
        LeafNode ln b \<Rightarrow>
         (case leafNode_isEmptyOrNil ln of
            Some e \<Rightarrow> (Inl (Wrap ''getAllHashes error'' e), n)
          | None \<Rightarrow> (Inr [slice (hash b)], n))
      | ExtensionNode en child b \<Rightarrow> extensionNode_getAllHashes (getAllHashes fuel env db) env db en child b
      | BranchNode bn children b \<Rightarrow> branchNode_getAllHashes (getAllHashes fuel env db) env db bn children b)"

end
