(* ===== verification/TrieSpec.thy ===== *)
theory TrieSpec
  imports TrieHash
begin

text \<open>
  What the nodes of a trie stand for: a tree without hashes, flags and collapsed parts, the map it holds, and the
  canonical form in which every map has exactly one tree. The hash of such a tree is the hash that the code computes.
\<close>

section \<open>Trees\<close>

datatype ptrie =
    PLeaf hexkey bytes u8
  | PExt hexkey ptrie
  | PBranch "ptrie option list"

definition at :: "'a option list \<Rightarrow> nat \<Rightarrow> 'a option" where
  "at xs i = (if i < length xs then xs ! i else None)"

lemma at_map [simp]: "at (map (map_option f) xs) i = map_option f (at xs i)"
  by (simp add: at_def)

lemma at_upd: "i < length xs \<Longrightarrow> at (xs[i := x]) j = (if j = i then x else at xs j)"
  by (simp add: at_def)

lemma at_replicate [simp]: "at (replicate n None) i = None"
  by (simp add: at_def)

lemma at_Some_length: "at xs i = Some x \<Longrightarrow> i < length xs"
  by (auto simp: at_def split: if_splits)

lemma at_in_set: "at xs i = Some x \<Longrightarrow> Some x \<in> set xs"
  by (auto simp: at_def in_set_conv_nth split: if_splits)

lemma in_set_at: "Some x \<in> set xs \<longleftrightarrow> (\<exists>i. at xs i = Some x)"
  by (auto simp: in_set_conv_nth at_def)

lemma at_eqI: "length xs = length ys \<Longrightarrow> (\<And>i. at xs i = at ys i) \<Longrightarrow> xs = ys"
  by (rule nth_equalityI) (auto simp: at_def, metis)

lemma ptrie_induct [case_names Leaf Ext Branch]:
  assumes "\<And>k v w. P (PLeaf k v w)" and "\<And>k c. P c \<Longrightarrow> P (PExt k c)"
    and "\<And>ts. (\<And>i c. at ts i = Some c \<Longrightarrow> P c) \<Longrightarrow> P (PBranch ts)"
  shows "P t"
  by (induction t) (auto intro: assms simp: in_set_at dest: at_in_set)

section \<open>The map of a tree\<close>

primrec plookup :: "ptrie \<Rightarrow> hexkey \<Rightarrow> (bytes \<times> u8) option" where
  "plookup (PLeaf k v w) = (\<lambda>key. if key = k then Some (v, w) else None)"
| "plookup (PExt k c) = (\<lambda>key. if take (length k) key = k then plookup c (drop (length k) key) else None)"
| "plookup (PBranch ts) = (\<lambda>key. case key of [] \<Rightarrow> None
     | x # xs \<Rightarrow> (case at (map (map_option plookup) ts) x of None \<Rightarrow> None | Some f \<Rightarrow> f xs))"

lemma plookup_branch:
  "plookup (PBranch ts) [] = None"
  "plookup (PBranch ts) (x # xs) = (case at ts x of None \<Rightarrow> None | Some c \<Rightarrow> plookup c xs)"
  by (simp_all split: option.splits)

lemma plookup_ext: "plookup (PExt k c) (k @ xs) = plookup c xs"
  by simp

lemma plookup_ext_Some: "plookup (PExt k c) key = Some y \<longleftrightarrow> (\<exists>xs. key = k @ xs \<and> plookup c xs = Some y)"
  by (auto split: if_splits) (metis append_take_drop_id)

lemma plookup_leaf [simp]: "plookup (PLeaf k v w) = [k \<mapsto> (v, w)]"
  by (simp add: fun_eq_iff)

declare plookup.simps [simp del]

section \<open>Canonical trees\<close>

fun validkey :: "hexkey \<Rightarrow> bool" where
  "validkey [] \<longleftrightarrow> False"
| "validkey [x] \<longleftrightarrow> x = hexTerminator"
| "validkey (x # xs) \<longleftrightarrow> x < 16 \<and> validkey xs"

text \<open>The keys below a node: after the terminator only the empty one.\<close>

definition subkey :: "bool \<Rightarrow> hexkey \<Rightarrow> bool" where
  "subkey t k \<longleftrightarrow> (if t then k = [] else validkey k)"

lemma validkey_Cons: "validkey (x # xs) \<longleftrightarrow> x < 17 \<and> subkey (x = 16) xs"
  by (cases xs) (auto simp: subkey_def)

lemma subkey_simps [simp]: "subkey True k \<longleftrightarrow> k = []" "subkey False k \<longleftrightarrow> validkey k"
  by (simp_all add: subkey_def)

lemma subkey_Cons [simp]: "subkey t (x # xs) \<longleftrightarrow> \<not> t \<and> x < 17 \<and> subkey (x = 16) xs"
  by (cases t) (simp_all add: validkey_Cons del: validkey.simps)

lemma validkey_append: "(\<forall>x\<in>set p. x < 16) \<Longrightarrow> validkey (p @ xs) \<longleftrightarrow> validkey xs"
  by (induction p) (auto simp: validkey_Cons simp del: validkey.simps)

lemma validkey_hex: "validkey (keyBytesToHex k)"
proof -
  have "validkey (keyBytesToHexLoop k ns)" if "validkey ns" for k ns
    using that
  proof (induction k arbitrary: ns)
    case (Cons c k)
    have "of_char c div (16::nat) < 16"
      by (simp add: div_less_iff_less_mult)
    then have "validkey ((of_char c mod 16) # (of_char c div 16) # ns)"
      using Cons.prems by (cases ns) simp_all
    then show ?case using Cons.IH by simp
  qed simp
  then show ?thesis by (simp add: keyBytesToHex_def)
qed

fun isPBranch :: "ptrie \<Rightarrow> bool" where
  "isPBranch (PBranch ts) = True"
| "isPBranch _ = False"

definition childCount :: "'a option list \<Rightarrow> nat" where
  "childCount xs = length (filter (\<lambda>x. x \<noteq> None) xs)"

inductive canon :: "bool \<Rightarrow> ptrie \<Rightarrow> bool" where
  leaf: "subkey t k \<Longrightarrow> v \<noteq> [] \<Longrightarrow> canon t (PLeaf k v w)"
| ext: "k \<noteq> [] \<Longrightarrow> \<forall>x\<in>set k. x < 16 \<Longrightarrow> isPBranch c \<Longrightarrow> canon False c \<Longrightarrow> canon False (PExt k c)"
| branch: "length ts = 17 \<Longrightarrow> 2 \<le> childCount ts \<Longrightarrow> (\<And>i c. at ts i = Some c \<Longrightarrow> canon (i = 16) c) \<Longrightarrow>
    canon False (PBranch ts)"

inductive_simps canon_leaf [simp]: "canon t (PLeaf k v w)"
inductive_simps canon_ext: "canon t (PExt k c)"
inductive_simps canon_branch: "canon t (PBranch ts)"


lemma childCount_two:
  assumes "2 \<le> childCount ts"
  obtains i j c d where "i \<noteq> j" "at ts i = Some c" "at ts j = Some d"
proof -
  have card: "childCount ts = card {i. i < length ts \<and> ts ! i \<noteq> None}"
    by (simp add: childCount_def length_filter_conv_card)
  let ?I = "{i. i < length ts \<and> ts ! i \<noteq> None}"
  have "\<not> ?I \<subseteq> {i}" for i
    using assms card card_mono [of "{i}" ?I] by auto
  moreover have "?I \<noteq> {}" using assms card by (metis card.empty not_numeral_le_zero)
  ultimately obtain i j where "i \<in> ?I" "j \<in> ?I" "i \<noteq> j" by blast
  then show ?thesis using that by (auto simp: at_def)
qed

lemma canon_nonempty: "canon t p \<Longrightarrow> \<exists>k y. plookup p k = Some y"
proof (induction rule: canon.induct)
  case (ext k c)
  then obtain k' y where "plookup c k' = Some y" by blast
  then have "plookup (PExt k c) (k @ k') = Some y" by (simp add: plookup_ext)
  then show ?case by blast
next
  case (branch ts)
  obtain i j c d where ij: "at ts i = Some c" using branch.hyps(2) by (rule childCount_two)
  then obtain k y where "plookup c k = Some y" using branch.IH by blast
  then have "plookup (PBranch ts) (i # k) = Some y" using ij by (simp add: plookup_branch)
  then show ?case by blast
qed simp

lemma plookup_subkey: "canon t p \<Longrightarrow> plookup p k = Some y \<Longrightarrow> subkey t k"
proof (induction arbitrary: k rule: canon.induct)
  case (leaf t k' v w)
  then show ?case by (simp split: if_splits)
next
  case (ext k' c)
  then show ?case by (auto simp: plookup_ext_Some validkey_append)
next
  case (branch ts)
  then show ?case
    by (cases k) (auto simp: plookup_branch validkey_Cons dest: at_Some_length split: option.splits simp del: validkey.simps)
qed

lemma branch_two_heads:
  assumes "canon False p" and "isPBranch p"
  obtains x y k k' where "x \<noteq> y" "plookup p (x # k) \<noteq> None" "plookup p (y # k') \<noteq> None"
proof -
  obtain ts where p: "p = PBranch ts" using assms(2) by (cases p) auto
  then have c: "2 \<le> childCount ts" "\<And>i c. at ts i = Some c \<Longrightarrow> canon (i = 16) c" using assms(1) by (auto simp: canon_branch)
  obtain i j c d where ij: "i \<noteq> j" "at ts i = Some c" "at ts j = Some d" using c(1) by (rule childCount_two)
  obtain k y k' y' where "plookup c k = Some y" "plookup d k' = Some y'" using canon_nonempty c(2) ij(2,3) by metis
  then show ?thesis using that [of i j k k'] ij by (simp add: p plookup_branch)
qed

text \<open>The key of an extension is what all keys of the tree begin with, and no more.\<close>

lemma ext_keys: "plookup (PExt k c) key = Some y \<Longrightarrow> take (length k) key = k"
  by (auto simp: plookup_ext_Some)

lemma common_prefix:
  assumes c: "canon False c" "isPBranch c" and all: "\<And>key y. plookup (PExt k c) key = Some y \<Longrightarrow> take n key = l"
  shows "n \<le> length k"
proof (rule ccontr)
  assume "\<not> n \<le> length k"
  obtain x y u v where xy: "x \<noteq> y" "plookup c (x # u) \<noteq> None" "plookup c (y # v) \<noteq> None"
    using c by (rule branch_two_heads)
  then have "take n (k @ x # u) = l" "take n (k @ y # v) = l" using all plookup_ext by (metis option.collapse)+
  then have "take (Suc (length k)) (k @ x # u) = take (Suc (length k)) (k @ y # v)"
    using \<open>\<not> n \<le> length k\<close> by (metis min.absorb1 not_less_eq_eq take_take)
  then show False using xy(1) by simp
qed

lemma ext_key_unique:
  assumes "canon t (PExt k c)" and "canon t (PExt l d)" and "plookup (PExt k c) = plookup (PExt l d)"
  shows "k = l"
proof -
  have c: "canon False c" "isPBranch c" "canon False d" "isPBranch d" using assms(1,2) by (auto simp: canon_ext)
  have le: "length l \<le> length k"
    using assms(3) by (intro common_prefix [OF c(1,2), where n = "length l" and l = l]) (metis ext_keys)
  have ge: "length k \<le> length l"
    using assms(3) by (intro common_prefix [OF c(3,4), where n = "length k" and l = k]) (metis ext_keys)
  obtain key y where "plookup (PExt k c) key = Some y" using canon_nonempty [OF assms(1)] by blast
  then show ?thesis using le ge assms(3) by (metis ext_keys le_antisym)
qed

lemma canon_unique:
  "canon t p \<Longrightarrow> canon t q \<Longrightarrow> plookup p = plookup q \<Longrightarrow> p = q"
proof (induction arbitrary: q rule: canon.induct)
  case (leaf t k v w)
  have one: "key = k" if "plookup q key = Some y" for key y
    using that leaf.prems(2) by (metis fun_upd_other option.distinct(1) plookup_leaf)
  show ?case
  proof (cases q)
    case (PLeaf k' v' w')
    then show ?thesis using fun_cong [OF leaf.prems(2), of k] by (auto split: if_splits)
  next
    case (PExt k' c)
    then have c: "canon False c" "isPBranch c" using leaf.prems(1) by (auto simp: canon_ext)
    then obtain x y u u' where "x \<noteq> y" "plookup c (x # u) \<noteq> None" "plookup c (y # u') \<noteq> None" by (rule branch_two_heads)
    then show ?thesis using one [of "k' @ x # u"] one [of "k' @ y # u'"] PExt by (auto simp: plookup_ext)
  next
    case (PBranch ts)
    then have "canon False q" "isPBranch q" using leaf.prems(1) by (auto simp: canon_branch)
    then obtain x y u u' where "x \<noteq> y" "plookup q (x # u) \<noteq> None" "plookup q (y # u') \<noteq> None" by (rule branch_two_heads)
    then show ?thesis using one [of "x # u"] one [of "y # u'"] by auto
  qed
next
  case (ext k c)
  show ?case
  proof (cases q)
    case (PLeaf k' v' w')
    obtain x y u u' where "x \<noteq> y" "plookup c (x # u) \<noteq> None" "plookup c (y # u') \<noteq> None"
      using ext.hyps(4,3) by (rule branch_two_heads)
    then show ?thesis using fun_cong [OF ext.prems(2), of "k @ x # u"] fun_cong [OF ext.prems(2), of "k @ y # u'"] PLeaf
      by (auto simp: plookup_ext split: if_splits)
  next
    case (PExt k' d)
    have kk: "k' = k" using ext_key_unique [of False k c k' d] ext PExt by (simp add: canon.ext)
    have "plookup c = plookup d" using fun_cong [OF ext.prems(2), of "k @ x" for x] by (auto simp: PExt kk plookup_ext)
    then show ?thesis using ext.IH ext.prems(1) PExt kk by (simp add: canon_ext)
  next
    case (PBranch ts)
    have "canon False q" "isPBranch q" using ext.prems(1) PBranch by auto
    then obtain x y u u' where xy: "x \<noteq> y" "plookup q (x # u) \<noteq> None" "plookup q (y # u') \<noteq> None" by (rule branch_two_heads)
    then have "take (length k) (x # u) = k" "take (length k) (y # u') = k"
      using ext.prems(2) ext_keys by (metis option.collapse)+
    then show ?thesis using xy(1) ext.hyps(1) by (cases k) auto
  qed
next
  case (branch ts)
  have p: "canon False (PBranch ts)" using branch.hyps by (blast intro: canon.branch)
  obtain x y u u' where xy: "x \<noteq> y" "plookup (PBranch ts) (x # u) \<noteq> None" "plookup (PBranch ts) (y # u') \<noteq> None"
    by (rule branch_two_heads [OF p]) simp
  show ?case
  proof (cases q)
    case (PLeaf k' v' w')
    then show ?thesis using xy branch.prems(2) by (auto split: if_splits)
  next
    case (PExt k d)
    then have "take (length k) (x # u) = k" "take (length k) (y # u') = k"
      using xy branch.prems(2) ext_keys by (metis option.collapse)+
    then show ?thesis using xy(1) branch.prems(1) PExt by (cases k) (auto simp: canon_ext)
  next
    case (PBranch ss)
    have q: "length ss = 17" "\<And>i c. at ss i = Some c \<Longrightarrow> canon (i = 16) c"
      using branch.prems(1) PBranch by (auto simp: canon_branch)
    have look: "(case at ts i of None \<Rightarrow> None | Some c \<Rightarrow> plookup c k) = (case at ss i of None \<Rightarrow> None | Some c \<Rightarrow> plookup c k)" for i k
      using fun_cong [OF branch.prems(2), of "i # k"] by (simp add: PBranch plookup_branch)
    have "at ts i = at ss i" for i
    proof (cases "at ts i")
      case None
      have "at ss i = None"
      proof (rule ccontr)
        assume "at ss i \<noteq> None"
        then obtain d where d: "at ss i = Some d" by blast
        obtain k y where "plookup d k = Some y" using q(2) [OF d] canon_nonempty by blast
        then show False using look [of k i] None d by simp
      qed
      then show ?thesis using None by simp
    next
      case (Some c)
      then obtain k y where ky: "plookup c k = Some y" using branch.hyps(3) canon_nonempty by blast
      then obtain d where d: "at ss i = Some d" using look [of k i] Some by (cases "at ss i") auto
      then have "plookup c = plookup d" using look [of _ i] Some by auto
      then show ?thesis using branch.IH [OF Some, of d] q(2) [OF d] Some d by simp
    qed
    then have "ts = ss" using branch.hyps(1) q(1) by (intro at_eqI) auto
    then show ?thesis using PBranch by simp
  qed
qed

section \<open>Maps under a prefix and maps by the first nibble\<close>

definition pre_map :: "hexkey \<Rightarrow> (hexkey \<rightharpoonup> 'a) \<Rightarrow> hexkey \<rightharpoonup> 'a" where
  "pre_map k m key = (if take (length k) key = k then m (drop (length k) key) else None)"

definition br_map :: "(nat \<Rightarrow> hexkey \<rightharpoonup> 'a) \<Rightarrow> hexkey \<rightharpoonup> 'a" where
  "br_map f key = (case key of [] \<Rightarrow> None | x # xs \<Rightarrow> f x xs)"

definition childMap :: "ptrie option \<Rightarrow> hexkey \<rightharpoonup> (bytes \<times> u8)" where
  "childMap c = (case c of None \<Rightarrow> Map.empty | Some t \<Rightarrow> plookup t)"

lemma childMap_simps [simp]: "childMap None = Map.empty" "childMap (Some t) = plookup t"
  by (simp_all add: childMap_def)

definition pext :: "hexkey \<Rightarrow> ptrie \<Rightarrow> ptrie" where
  "pext k c = (if k = [] then c else PExt k c)"

lemma pre_map_simps [simp]: "pre_map [] m = m" "pre_map k m (k @ xs) = m xs"
  by (simp_all add: pre_map_def fun_eq_iff)

lemma pre_map_Nil_Cons [simp]: "pre_map (x # k) m [] = None" "pre_map (x # k) m (y # xs) = (if x = y then pre_map k m xs else None)"
  by (simp_all add: pre_map_def)

lemma plookup_maps:
  "plookup (PExt k c) = pre_map k (plookup c)" "plookup (pext k c) = pre_map k (plookup c)"
  "plookup (PBranch ts) = br_map (\<lambda>i. childMap (at ts i))" "plookup (PLeaf k v w) = [k \<mapsto> (v, w)]"
  by (auto simp: fun_eq_iff pre_map_def br_map_def pext_def plookup.simps childMap_def split: list.splits option.splits)

lemma pre_map_append: "pre_map (a @ b) m = pre_map a (pre_map b m)"
proof (rule HOL.ext)
  show "pre_map (a @ b) m key = pre_map a (pre_map b m) key" for key
  proof (induction a arbitrary: key)
    case (Cons x a)
    then show ?case by (cases key) simp_all
  qed simp
qed

lemma pre_map_upd: "(pre_map k m)(k @ xs := y) = pre_map k (m(xs := y))"
proof (rule HOL.ext)
  show "((pre_map k m)(k @ xs := y)) key = pre_map k (m(xs := y)) key" for key
  proof (induction k arbitrary: key)
    case (Cons x k)
    then show ?case by (cases key) (auto simp: fun_upd_def split: if_splits, metis)
  qed simp
qed

lemma pre_map_single: "[k @ xs \<mapsto> y] = pre_map k [xs \<mapsto> y]"
proof -
  have "pre_map k Map.empty = (Map.empty :: hexkey \<rightharpoonup> 'a)" by (simp add: fun_eq_iff pre_map_def)
  then show ?thesis using pre_map_upd [of k Map.empty xs "Some y"] by simp
qed

lemma br_map_upd: "(br_map f)(x # xs := y) = br_map (f(x := (f x)(xs := y)))"
  by (auto simp: fun_eq_iff br_map_def split: list.splits)

lemma br_map_cong: "(\<And>i. f i = g i) \<Longrightarrow> br_map f = br_map g"
  by (auto simp: fun_eq_iff br_map_def split: list.splits)

lemma pre_map_Cons: "pre_map (x # k) m = br_map ((\<lambda>_. Map.empty)(x := pre_map k m))"
  by (auto simp: fun_eq_iff br_map_def split: list.splits)

lemma single_br_map: "[x # xs \<mapsto> y] = br_map ((\<lambda>_. Map.empty)(x := [xs \<mapsto> y]))"
  by (auto simp: fun_eq_iff br_map_def split: list.splits)

lemma br_map_branch:
  "length ts = 17 \<Longrightarrow> x < 17 \<Longrightarrow>
    plookup (PBranch (ts[x := c])) = br_map ((\<lambda>i. childMap (at ts i))(x := childMap c))"
  unfolding plookup_maps by (rule br_map_cong) (simp add: at_upd)

lemma childCount_ge2:
  assumes "i \<noteq> j" and "at ts i \<noteq> None" and "at ts j \<noteq> None"
  shows "2 \<le> childCount ts"
proof -
  let ?I = "{i. i < length ts \<and> ts ! i \<noteq> None}"
  have "{i, j} \<subseteq> ?I" using assms by (auto simp: at_def split: if_splits)
  then have "card {i, j} \<le> card ?I" by (intro card_mono) auto
  then show ?thesis using assms(1) by (simp add: childCount_def length_filter_conv_card)
qed

lemma canon_pext: "canon False c \<Longrightarrow> isPBranch c \<Longrightarrow> \<forall>x\<in>set k. x < 16 \<Longrightarrow> canon False (pext k c)"
  by (auto simp: pext_def intro: canon.ext)

text \<open>Two different keys part at some nibble.\<close>

lemma split_keys:
  assumes "subkey t a" and "subkey t b" and "a \<noteq> b"
  shows "\<exists>p x y a' b'. a = p @ x # a' \<and> b = p @ y # b' \<and> x \<noteq> y \<and> prefixLen a b = length p \<and> \<not> t \<and>
    (\<forall>z\<in>set p. z < 16) \<and> x < 17 \<and> y < 17 \<and> subkey (x = 16) a' \<and> subkey (y = 16) b'"
  using assms
proof (induction a arbitrary: b t)
  case Nil
  then show ?case by (cases t) auto
next
  case (Cons x a)
  then obtain y b' where b: "b = y # b'" by (cases b; cases t) auto
  show ?case
  proof (cases "x = y")
    case True
    then have "subkey (x = 16) a" "subkey (x = 16) b'" "a \<noteq> b'" "\<not> t" "x < 17" using Cons.prems b by auto
    then obtain p x' y' a'' b'' where p: "a = p @ x' # a''" "b' = p @ y' # b''" "x' \<noteq> y'" "prefixLen a b' = length p" "x \<noteq> 16"
      "\<forall>z\<in>set p. z < 16" "x' < 17" "y' < 17" "subkey (x' = 16) a''" "subkey (y' = 16) b''"
      using Cons.IH by blast
    then show ?thesis using \<open>\<not> t\<close> \<open>x < 17\<close> True b
      by (intro exI [of _ "x # p"] exI [of _ x'] exI [of _ y'] exI [of _ a''] exI [of _ b'']) auto
  next
    case False
    then show ?thesis using Cons.prems b by (intro exI [of _ "[]"] exI [of _ x] exI [of _ y] exI [of _ a] exI [of _ b']) auto
  qed
qed

lemma split_ext_key:
  assumes "\<forall>z\<in>set k. z < 16" and "validkey key" and "take (length k) key \<noteq> k"
  shows "\<exists>p x y k' key'. k = p @ x # k' \<and> key = p @ y # key' \<and> x \<noteq> y \<and> prefixLen key k = length p \<and>
    y < 17 \<and> subkey (y = 16) key'"
  using assms
proof (induction k arbitrary: key)
  case (Cons x k)
  then obtain y key' where key: "key = y # key'" by (cases key) auto
  show ?case
  proof (cases "x = y")
    case True
    then have "validkey key'" "take (length k) key' \<noteq> k" using Cons.prems key by (auto simp: validkey_Cons simp del: validkey.simps)
    then obtain p x' y' k' key'' where "k = p @ x' # k'" "key' = p @ y' # key''" "x' \<noteq> y'" "prefixLen key' k = length p" "y' < 17"
      "subkey (y' = 16) key''"
      using Cons.IH Cons.prems(1) by (auto simp del: validkey.simps) blast
    then show ?thesis using True key
      by (intro exI [of _ "x # p"] exI [of _ x'] exI [of _ y'] exI [of _ k'] exI [of _ key'']) auto
  next
    case False
    then show ?thesis using Cons.prems(2) key
      by (intro exI [of _ "[]"] exI [of _ x] exI [of _ y] exI [of _ k] exI [of _ key'])
         (auto simp: validkey_Cons simp del: validkey.simps)
  qed
qed simp

lemma prefixLen_whole: "prefixLen key k = length k \<longleftrightarrow> take (length k) key = k"
proof (induction key arbitrary: k)
  case Nil
  then show ?case by (cases k) auto
next
  case (Cons x key)
  then show ?case by (cases k) auto
qed

lemma prefixLen_le: "prefixLen key k \<le> length k"
  by (induction key k rule: prefixLen.induct) auto

end
