(* ===== verification/TrieOps.thy ===== *)
theory TrieOps
  imports TrieNodes
begin

text \<open>
  Reading and changing the trie: \<^verbatim>\<open>tryGet\<close>, \<^verbatim>\<open>getNext\<close>, \<^verbatim>\<open>insert\<close>, \<^verbatim>\<open>delete\<close> and \<^verbatim>\<open>reduceNode\<close> of the three kinds of nodes.
  Each method is a definition of its own that takes the method of the child as an argument; the recursion is tied in
  \<^verbatim>\<open>tryGet\<close>, \<^verbatim>\<open>insert\<close> and \<^verbatim>\<open>delete\<close>, whose first argument bounds its depth: nodes are loaded from the
  database on the way, and a corrupt database could make the path endless. All functions return, beside their
  result, the receiver as the call leaves it, also when the call fails.
\<close>

section \<open>Reading\<close>

text \<open>A result of \<^verbatim>\<open>tryGet\<close>: the value or an error, and the depth that was reached.\<close>

type_synonym getRes = "(bytes option) tres \<times> u32"

definition leafNode_tryGet :: "CollapsedLn \<Rightarrow> baseNode \<Rightarrow> hexkey \<Rightarrow> u32 \<Rightarrow> getRes \<times> node" where
  "leafNode_tryGet ln b key currentDepth =
     ((wrapErr ''tryGet error'' (leafNode_isEmptyOrNil ln)
         (if key = LnKey ln then Inr (LnValue ln) else Inr None), currentDepth), LeafNode ln b)"

definition extensionNode_tryGet ::
  "trieEnv \<Rightarrow> trieDB \<Rightarrow> (node \<Rightarrow> hexkey \<Rightarrow> u32 \<Rightarrow> getRes \<times> node) \<Rightarrow>
   CollapsedEn \<Rightarrow> node option \<Rightarrow> baseNode \<Rightarrow> hexkey \<Rightarrow> u32 \<Rightarrow> getRes \<times> node" where
  "extensionNode_tryGet env db childTryGet en child b key currentDepth =
     (let self = ExtensionNode en child b in
      case extensionNode_isEmptyOrNil en child of
        Some e \<Rightarrow> ((Inl (Wrap ''tryGet error'' e), currentDepth), self)
      | None \<Rightarrow>
          if length key < length (EnKey en) then ((Inr None, currentDepth), self)
          else if EnKey en \<noteq> take (length (EnKey en)) key then ((Inr None, currentDepth), self)
          else
            (case resolveIfCollapsed env db self 0 of
               Inr (ExtensionNode en (Some c) b) \<Rightarrow>
                 (let (r, c) = childTryGet c (drop (length (EnKey en)) key) (currentDepth + 1)
                  in (r, ExtensionNode en (Some c) b))
             | Inr n \<Rightarrow> ((Inl Panic, currentDepth), n)
             | Inl e \<Rightarrow> ((Inl e, currentDepth), self)))"

definition branchNode_tryGet ::
  "trieEnv \<Rightarrow> trieDB \<Rightarrow> (node \<Rightarrow> hexkey \<Rightarrow> u32 \<Rightarrow> getRes \<times> node) \<Rightarrow>
   CollapsedBn \<Rightarrow> node option list \<Rightarrow> baseNode \<Rightarrow> hexkey \<Rightarrow> u32 \<Rightarrow> getRes \<times> node" where
  "branchNode_tryGet env db childTryGet bn children b key currentDepth =
     (let self = BranchNode bn children b in
      case branchNode_isEmptyOrNil bn children of
        Some e \<Rightarrow> ((Inl (Wrap ''tryGet error'' e), currentDepth), self)
      | None \<Rightarrow>
         (case key of
            [] \<Rightarrow> ((Inr None, currentDepth), self)
          | childPos # key \<Rightarrow>
              if childPosOutOfRange childPos then ((Inl ErrChildPosOutOfRange, currentDepth), self)
              else
                (case resolveIfCollapsed env db self childPos of
                   Inr (BranchNode bn children b) \<Rightarrow>
                     (case children ! childPos of
                        None \<Rightarrow> ((Inr None, currentDepth), BranchNode bn children b)
                      | Some c \<Rightarrow>
                          (let (r, c) = childTryGet c key (currentDepth + 1)
                           in (r, BranchNode bn (children[childPos := Some c]) b)))
                 | Inr n \<Rightarrow> ((Inl Panic, currentDepth), n)
                 | Inl e \<Rightarrow> ((Inl e, currentDepth), self))))"

fun tryGet :: "nat \<Rightarrow> trieEnv \<Rightarrow> trieDB \<Rightarrow> node \<Rightarrow> hexkey \<Rightarrow> u32 \<Rightarrow> getRes \<times> node" where
  "tryGet 0 env db n key d = ((Inl OutOfFuel, d), n)"
| "tryGet (Suc fuel) env db (LeafNode ln b) key d = leafNode_tryGet ln b key d"
| "tryGet (Suc fuel) env db (ExtensionNode en child b) key d =
     extensionNode_tryGet env db (tryGet fuel env db) en child b key d"
| "tryGet (Suc fuel) env db (BranchNode bn children b) key d =
     branchNode_tryGet env db (tryGet fuel env db) bn children b key d"

text \<open>One step down the path of a key: the next node, \<^const>\<open>None\<close> after the leaf, and the rest of the key.\<close>

definition leafNode_getNext :: "CollapsedLn \<Rightarrow> baseNode \<Rightarrow> hexkey \<Rightarrow> (node option \<times> hexkey) tres \<times> node" where
  "leafNode_getNext ln b key =
     (wrapErr ''getNext error'' (leafNode_isEmptyOrNil ln)
        (if key = LnKey ln then Inr (None, []) else Inl ErrNodeNotFound), LeafNode ln b)"

definition extensionNode_getNext ::
  "trieEnv \<Rightarrow> trieDB \<Rightarrow> CollapsedEn \<Rightarrow> node option \<Rightarrow> baseNode \<Rightarrow> hexkey \<Rightarrow> (node option \<times> hexkey) tres \<times> node" where
  "extensionNode_getNext env db en child b key =
     (let self = ExtensionNode en child b in
      case extensionNode_isEmptyOrNil en child of
        Some e \<Rightarrow> (Inl (Wrap ''getNext error'' e), self)
      | None \<Rightarrow>
          if length key < length (EnKey en) then (Inl ErrNodeNotFound, self)
          else if EnKey en \<noteq> take (length (EnKey en)) key then (Inl ErrNodeNotFound, self)
          else
            (case resolveIfCollapsed env db self 0 of
               Inr (ExtensionNode en child b) \<Rightarrow> (Inr (child, drop (length (EnKey en)) key), ExtensionNode en child b)
             | Inr n \<Rightarrow> (Inl Panic, n)
             | Inl e \<Rightarrow> (Inl e, self)))"

definition branchNode_getNext ::
  "trieEnv \<Rightarrow> trieDB \<Rightarrow> CollapsedBn \<Rightarrow> node option list \<Rightarrow> baseNode \<Rightarrow> hexkey \<Rightarrow> (node option \<times> hexkey) tres \<times> node" where
  "branchNode_getNext env db bn children b key =
     (let self = BranchNode bn children b in
      case branchNode_isEmptyOrNil bn children of
        Some e \<Rightarrow> (Inl (Wrap ''getNext error'' e), self)
      | None \<Rightarrow>
         (case key of
            [] \<Rightarrow> (Inl ErrValueTooShort, self)
          | childPos # key \<Rightarrow>
              if childPosOutOfRange childPos then (Inl ErrChildPosOutOfRange, self)
              else
                (case resolveIfCollapsed env db self childPos of
                   Inr (BranchNode bn children b) \<Rightarrow>
                     (case children ! childPos of
                        None \<Rightarrow> (Inl ErrNodeNotFound, BranchNode bn children b)
                      | Some c \<Rightarrow> (Inr (Some c, key), BranchNode bn children b))
                 | Inr n \<Rightarrow> (Inl Panic, n)
                 | Inl e \<Rightarrow> (Inl e, self))))"

fun getNext :: "trieEnv \<Rightarrow> trieDB \<Rightarrow> node \<Rightarrow> hexkey \<Rightarrow> (node option \<times> hexkey) tres \<times> node" where
  "getNext env db (LeafNode ln b) key = leafNode_getNext ln b key"
| "getNext env db (ExtensionNode en child b) key = extensionNode_getNext env db en child b key"
| "getNext env db (BranchNode bn children b) key = branchNode_getNext env db bn children b key"

section \<open>Insertion\<close>

text \<open>The new node, \<^const>\<open>None\<close> when nothing changed, and the hashes of the nodes that are obsolete.\<close>

type_synonym insertRes = "(node option \<times> bytes list) tres"

definition obsolete :: "baseNode \<Rightarrow> bytes list" where
  "obsolete b = (if \<not> dirty b then [slice (hash b)] else [])"

definition leafNode_insertInSameLn :: "CollapsedLn \<Rightarrow> baseNode \<Rightarrow> TrieData \<Rightarrow> bytes list \<Rightarrow> insertRes \<times> node" where
  "leafNode_insertInSameLn ln b newData oldHashes =
     (if slice (LnValue ln) = slice (Value newData) then (Inr (None, []), LeafNode ln b)
      else
        let self = LeafNode (ln\<lparr>LnValue := Value newData, LnVersion := ucast (Version newData)\<rparr>) (b\<lparr>dirty := True, hash := None\<rparr>)
        in (Inr (Some self, oldHashes), self))"

definition putNewChild :: "nat \<Rightarrow> node \<Rightarrow> u8 \<Rightarrow> CollapsedBn \<times> node option list \<Rightarrow> (CollapsedBn \<times> node option list) tres" where
  "putNewChild pos n version = (\<lambda>(bn, children).
     thenE (setVersionForChild version pos bn) (\<lambda>bn. Inr (bn, children[pos := Some n])))"

definition leafNode_insertInNewBn :: "CollapsedLn \<Rightarrow> TrieData \<Rightarrow> nat \<Rightarrow> node tres" where
  "leafNode_insertInNewBn ln newData keyMatchLen =
     (if length (LnKey ln) \<le> keyMatchLen \<or> length (Key newData) \<le> keyMatchLen then Inl Panic
      else
        let oldChildPos = LnKey ln ! keyMatchLen;
            newChildPos = Key newData ! keyMatchLen in
        if childPosOutOfRange oldChildPos \<or> childPosOutOfRange newChildPos then Inl ErrChildPosOutOfRange
        else thenE (leafNode_getVersion ln) (\<lambda>oldLnVersion.
          thenE (putNewChild oldChildPos
            (newLeafNode \<lparr>Key = drop (keyMatchLen + 1) (LnKey ln), Value = LnValue ln, Version = oldLnVersion\<rparr>)
            oldLnVersion newBranchNode) (\<lambda>bn.
          thenE (putNewChild newChildPos
            (newLeafNode (newData\<lparr>Key := drop (keyMatchLen + 1) (Key newData)\<rparr>)) (Version newData) bn) (\<lambda>(bn, children).
          Inr (BranchNode bn children newBase)))))"

definition leafNode_insert :: "CollapsedLn \<Rightarrow> baseNode \<Rightarrow> TrieData \<Rightarrow> insertRes \<times> node" where
  "leafNode_insert ln b newData =
     (let self = LeafNode ln b;
          oldHash = obsolete b;
          nodeKey = LnKey ln in
      case leafNode_isEmptyOrNil ln of
        Some e \<Rightarrow> (Inl (Wrap ''insert error'' e), self)
      | None \<Rightarrow>
          if Key newData = nodeKey then leafNode_insertInSameLn ln b newData oldHash
          else
            let keyMatchLen = prefixLen (Key newData) nodeKey in
            (thenE (leafNode_insertInNewBn ln newData keyMatchLen) (\<lambda>bn.
               if keyMatchLen = 0 then Inr (Some bn, oldHash)
               else thenE (newExtensionNode (take keyMatchLen nodeKey) (Some bn)) (\<lambda>newEn. Inr (Some newEn, oldHash))),
             self))"

definition extensionNode_insertInSameEn ::
  "(node \<Rightarrow> TrieData \<Rightarrow> insertRes \<times> node) \<Rightarrow> CollapsedEn \<Rightarrow> node \<Rightarrow> baseNode \<Rightarrow> TrieData \<Rightarrow> nat \<Rightarrow> insertRes \<times> node" where
  "extensionNode_insertInSameEn childInsert en child b newData keyMatchLen =
     (let (r, child) = childInsert child (newData\<lparr>Key := drop keyMatchLen (Key newData)\<rparr>);
          self = ExtensionNode en (Some child) b in
      case r of
        Inl e \<Rightarrow> (Inl e, self)
      | Inr (None, _) \<Rightarrow> (Inr (None, []), self)
      | Inr (Some newNode, oldHashes) \<Rightarrow>
          (thenE (newExtensionNode (EnKey en) (Some newNode)) (\<lambda>newEn. Inr (Some newEn, oldHashes @ obsolete b)), self))"

definition extensionNode_insertOldChildInBn ::
  "CollapsedEn \<Rightarrow> node \<Rightarrow> nat \<Rightarrow> nat \<Rightarrow> CollapsedBn \<times> node option list \<Rightarrow> (CollapsedBn \<times> node option list) tres" where
  "extensionNode_insertOldChildInBn en child oldChildPos keyMatchLen bn =
     (let keyReminder = drop (keyMatchLen + 1) (EnKey en) in
      thenE (getVersion child) (\<lambda>childVersion.
        if length keyReminder < 1 then putNewChild oldChildPos child childVersion bn
        else thenE (newExtensionNode keyReminder (Some child)) (\<lambda>followingExtensionNode.
          putNewChild oldChildPos followingExtensionNode childVersion bn)))"

definition extensionNode_insertNewChildInBn ::
  "TrieData \<Rightarrow> nat \<Rightarrow> nat \<Rightarrow> CollapsedBn \<times> node option list \<Rightarrow> (CollapsedBn \<times> node option list) tres" where
  "extensionNode_insertNewChildInBn newData newChildPos keyMatchLen bn =
     putNewChild newChildPos (newLeafNode (newData\<lparr>Key := drop (keyMatchLen + 1) (Key newData)\<rparr>)) (Version newData) bn"

definition extensionNode_insertInNewBn :: "CollapsedEn \<Rightarrow> node \<Rightarrow> baseNode \<Rightarrow> TrieData \<Rightarrow> nat \<Rightarrow> insertRes" where
  "extensionNode_insertInNewBn en child b newData keyMatchLen =
     (if length (EnKey en) \<le> keyMatchLen \<or> length (Key newData) \<le> keyMatchLen then Inl Panic
      else
        let oldChildPos = EnKey en ! keyMatchLen;
            newChildPos = Key newData ! keyMatchLen in
        if childPosOutOfRange oldChildPos \<or> childPosOutOfRange newChildPos then Inl ErrChildPosOutOfRange
        else thenE (extensionNode_insertOldChildInBn en child oldChildPos keyMatchLen newBranchNode) (\<lambda>bn.
          thenE (extensionNode_insertNewChildInBn newData newChildPos keyMatchLen bn) (\<lambda>(bn, children).
            let bn = BranchNode bn children newBase in
            if keyMatchLen = 0 then Inr (Some bn, obsolete b)
            else thenE (newExtensionNode (take keyMatchLen (EnKey en)) (Some bn)) (\<lambda>newEn. Inr (Some newEn, obsolete b)))))"

definition extensionNode_insert ::
  "trieEnv \<Rightarrow> trieDB \<Rightarrow> (node \<Rightarrow> TrieData \<Rightarrow> insertRes \<times> node) \<Rightarrow>
   CollapsedEn \<Rightarrow> node option \<Rightarrow> baseNode \<Rightarrow> TrieData \<Rightarrow> insertRes \<times> node" where
  "extensionNode_insert env db childInsert en child b newData =
     (let self = ExtensionNode en child b in
      case extensionNode_isEmptyOrNil en child of
        Some e \<Rightarrow> (Inl (Wrap ''insert error'' e), self)
      | None \<Rightarrow>
         (case resolveIfCollapsed env db self 0 of
            Inr (ExtensionNode en (Some c) b) \<Rightarrow>
              (let keyMatchLen = prefixLen (Key newData) (EnKey en) in
               if keyMatchLen = length (EnKey en) then extensionNode_insertInSameEn childInsert en c b newData keyMatchLen
               else (extensionNode_insertInNewBn en c b newData keyMatchLen, ExtensionNode en (Some c) b))
          | Inr n \<Rightarrow> (Inl Panic, n)
          | Inl e \<Rightarrow> (Inl e, self)))"

definition branchNode_modifyNodeAfterInsert ::
  "bytes list \<Rightarrow> CollapsedBn \<Rightarrow> node option list \<Rightarrow> baseNode \<Rightarrow> nat \<Rightarrow> node \<Rightarrow> (node \<times> bytes list) tres" where
  "branchNode_modifyNodeAfterInsert modifiedHashes bn children b childPos newNode =
     thenE (getVersion newNode) (\<lambda>childVersion.
       thenE (setVersionForChild childVersion childPos bn) (\<lambda>bn.
         Inr (BranchNode bn (children[childPos := Some newNode]) (b\<lparr>dirty := True, hash := None\<rparr>),
              modifiedHashes @ obsolete b)))"

definition branchNode_insertOnNilChild ::
  "CollapsedBn \<Rightarrow> node option list \<Rightarrow> baseNode \<Rightarrow> TrieData \<Rightarrow> nat \<Rightarrow> insertRes \<times> node" where
  "branchNode_insertOnNilChild bn children b newData childPos =
     (case branchNode_modifyNodeAfterInsert [] bn children b childPos (newLeafNode newData) of
        Inl e \<Rightarrow> (Inl e, BranchNode bn children b)
      | Inr (self, modifiedHashes) \<Rightarrow> (Inr (Some self, modifiedHashes), self))"

definition branchNode_insertOnExistingChild ::
  "(node \<Rightarrow> TrieData \<Rightarrow> insertRes \<times> node) \<Rightarrow>
   CollapsedBn \<Rightarrow> node option list \<Rightarrow> baseNode \<Rightarrow> node \<Rightarrow> TrieData \<Rightarrow> nat \<Rightarrow> insertRes \<times> node" where
  "branchNode_insertOnExistingChild childInsert bn children b child newData childPos =
     (let (r, child) = childInsert child newData;
          children = children[childPos := Some child] in
      case r of
        Inl e \<Rightarrow> (Inl e, BranchNode bn children b)
      | Inr (None, _) \<Rightarrow> (Inr (None, []), BranchNode bn children b)
      | Inr (Some newNode, modifiedHashes) \<Rightarrow>
          (case branchNode_modifyNodeAfterInsert modifiedHashes bn children b childPos newNode of
             Inl e \<Rightarrow> (Inl e, BranchNode bn children b)
           | Inr (self, modifiedHashes) \<Rightarrow> (Inr (Some self, modifiedHashes), self)))"

definition branchNode_insert ::
  "trieEnv \<Rightarrow> trieDB \<Rightarrow> (node \<Rightarrow> TrieData \<Rightarrow> insertRes \<times> node) \<Rightarrow>
   CollapsedBn \<Rightarrow> node option list \<Rightarrow> baseNode \<Rightarrow> TrieData \<Rightarrow> insertRes \<times> node" where
  "branchNode_insert env db childInsert bn children b newData =
     (let self = BranchNode bn children b in
      case branchNode_isEmptyOrNil bn children of
        Some e \<Rightarrow> (Inl (Wrap ''insert error'' e), self)
      | None \<Rightarrow>
         (case Key newData of
            [] \<Rightarrow> (Inl ErrValueTooShort, self)
          | childPos # key \<Rightarrow>
              if childPosOutOfRange childPos then (Inl ErrChildPosOutOfRange, self)
              else
                let newData = newData\<lparr>Key := key\<rparr> in
                (case resolveIfCollapsed env db self childPos of
                   Inr (BranchNode bn children b) \<Rightarrow>
                     (case children ! childPos of
                        None \<Rightarrow> branchNode_insertOnNilChild bn children b newData childPos
                      | Some c \<Rightarrow> branchNode_insertOnExistingChild childInsert bn children b c newData childPos)
                 | Inr n \<Rightarrow> (Inl Panic, n)
                 | Inl e \<Rightarrow> (Inl e, self))))"

fun nodeInsert :: "nat \<Rightarrow> trieEnv \<Rightarrow> trieDB \<Rightarrow> node \<Rightarrow> TrieData \<Rightarrow> insertRes \<times> node" where
  "nodeInsert 0 env db n newData = (Inl OutOfFuel, n)"
| "nodeInsert (Suc fuel) env db (LeafNode ln b) newData = leafNode_insert ln b newData"
| "nodeInsert (Suc fuel) env db (ExtensionNode en child b) newData =
     extensionNode_insert env db (nodeInsert fuel env db) en child b newData"
| "nodeInsert (Suc fuel) env db (BranchNode bn children b) newData =
     branchNode_insert env db (nodeInsert fuel env db) bn children b newData"

section \<open>Deletion\<close>

text \<open>Whether anything changed, the node that replaces the receiver, and the obsolete hashes.\<close>

type_synonym deleteRes = "(bool \<times> node option \<times> bytes list) tres"

definition leafNode_delete :: "CollapsedLn \<Rightarrow> baseNode \<Rightarrow> hexkey \<Rightarrow> deleteRes \<times> node" where
  "leafNode_delete ln b key =
     (let self = LeafNode ln b in
      if key = LnKey ln then (Inr (True, None, obsolete b), self)
      else (Inr (False, Some self, []), self))"

definition leafNode_reduceNode :: "CollapsedLn \<Rightarrow> nat \<Rightarrow> (node \<times> bool) tres" where
  "leafNode_reduceNode ln pos = thenE (leafNode_getVersion ln) (\<lambda>oldLnVersion.
     Inr (newLeafNode \<lparr>Key = pos # LnKey ln, Value = LnValue ln, Version = oldLnVersion\<rparr>, True))"

definition extensionNode_reduceNode :: "CollapsedEn \<Rightarrow> node option \<Rightarrow> nat \<Rightarrow> (node \<times> bool) tres" where
  "extensionNode_reduceNode en child pos =
     thenE (newExtensionNode (pos # EnKey en) child) (\<lambda>newEn. Inr (newEn, True))"

definition branchNode_reduceNode :: "node \<Rightarrow> nat \<Rightarrow> (node \<times> bool) tres" where
  "branchNode_reduceNode self pos = thenE (newExtensionNode [pos] (Some self)) (\<lambda>newEn. Inr (newEn, False))"

fun reduceNode :: "node \<Rightarrow> nat \<Rightarrow> (node \<times> bool) tres" where
  "reduceNode (LeafNode ln b) pos = leafNode_reduceNode ln pos"
| "reduceNode (ExtensionNode en child b) pos = extensionNode_reduceNode en child pos"
| "reduceNode (BranchNode bn children b) pos = branchNode_reduceNode (BranchNode bn children b) pos"

text \<open>The number of children and the position of the last one.\<close>

fun getChildPositionLoop :: "nat \<Rightarrow> node option list \<Rightarrow> bytes list \<Rightarrow> nat \<times> nat \<Rightarrow> (nat \<times> nat) tres" where
  "getChildPositionLoop i [] es acc = Inr acc"
| "getChildPositionLoop i (Some n # cs) es (k, p) = getChildPositionLoop (Suc i) cs (tl es) (Suc k, i)"
| "getChildPositionLoop i (None # cs) [] acc = Inl Panic"
| "getChildPositionLoop i (None # cs) (e # es) (k, p) =
     getChildPositionLoop (Suc i) cs es (if length e \<noteq> 0 then (Suc k, i) else (k, p))"

definition getChildPosition :: "CollapsedBn \<Rightarrow> node option list \<Rightarrow> (nat \<times> nat) tres" where
  "getChildPosition bn children = getChildPositionLoop 0 children (EncodedChildren bn) (0, 0)"

text \<open>The children and their versions after a child was replaced; the receiver keeps the new child even when
  the version of that child cannot be read.\<close>

definition branchNode_setNewChild ::
  "CollapsedBn \<Rightarrow> node option list \<Rightarrow> nat \<Rightarrow> node option \<Rightarrow> CollapsedBn tres" where
  "branchNode_setNewChild bn children childPos newNode =
     (case newNode of
        None \<Rightarrow> thenE (setVersionForChild NotSpecified childPos bn) (\<lambda>bn.
          if length (EncodedChildren bn) \<le> childPos then Inl Panic
          else Inr (bn\<lparr>EncodedChildren := (EncodedChildren bn)[childPos := []]\<rparr>))
      | Some n \<Rightarrow> thenE (getVersion n) (\<lambda>childVersion. setVersionForChild childVersion childPos bn))"

text \<open>The end of \<^verbatim>\<open>delete\<close> of a branch with one child left: the branch is replaced by that child.\<close>

definition branchNode_reduce ::
  "trieEnv \<Rightarrow> trieDB \<Rightarrow> node \<Rightarrow> nat \<Rightarrow> bytes list \<Rightarrow> deleteRes \<times> node" where
  "branchNode_reduce env db self pos oldHashes =
     (case resolveIfCollapsed env db self pos of
        Inr (BranchNode bn children b) \<Rightarrow>
          (case children ! pos of
             None \<Rightarrow> (Inl Panic, BranchNode bn children b)
           | Some c \<Rightarrow>
              (case resolveIfCollapsed env db c pos of
                 Inl e \<Rightarrow> (Inl e, BranchNode bn children b)
               | Inr c \<Rightarrow>
                   (thenE (reduceNode c pos) (\<lambda>(newNode, newChildHash).
                      Inr (True, Some newNode,
                        if newChildHash \<and> \<not> isDirty c then oldHashes @ [slice (getHash c)] else oldHashes)),
                    BranchNode bn (children[pos := Some c]) b)))
      | Inr n \<Rightarrow> (Inl Panic, n)
      | Inl e \<Rightarrow> (Inl e, self))"

definition branchNode_deleteFromChild ::
  "trieEnv \<Rightarrow> trieDB \<Rightarrow> (node \<Rightarrow> hexkey \<Rightarrow> deleteRes \<times> node) \<Rightarrow>
   CollapsedBn \<Rightarrow> node option list \<Rightarrow> baseNode \<Rightarrow> node \<Rightarrow> nat \<Rightarrow> hexkey \<Rightarrow> deleteRes \<times> node" where
  "branchNode_deleteFromChild env db childDelete bn children b child childPos key =
     (let (r, child) = childDelete child key;
          self = BranchNode bn (children[childPos := Some child]) b in
      case r of
        Inl e \<Rightarrow> (Inl e, self)
      | Inr (False, _, _) \<Rightarrow> (Inr (False, Some self, []), self)
      | Inr (True, newNode, oldHashes) \<Rightarrow>
         (let oldHashes = oldHashes @ obsolete b;
              children = children[childPos := newNode];
              b = b\<lparr>hash := None\<rparr> in
          case branchNode_setNewChild bn children childPos newNode of
            Inl e \<Rightarrow> (Inl e, BranchNode bn children b)
          | Inr bn \<Rightarrow>
             (case getChildPosition bn children of
                Inl e \<Rightarrow> (Inl e, BranchNode bn children b)
              | Inr (numChildren, pos) \<Rightarrow>
                  if numChildren = 1 then branchNode_reduce env db (BranchNode bn children b) pos oldHashes
                  else
                    let self = BranchNode bn children (b\<lparr>dirty := True\<rparr>)
                    in (Inr (True, Some self, oldHashes), self))))"

definition branchNode_delete ::
  "trieEnv \<Rightarrow> trieDB \<Rightarrow> (node \<Rightarrow> hexkey \<Rightarrow> deleteRes \<times> node) \<Rightarrow>
   CollapsedBn \<Rightarrow> node option list \<Rightarrow> baseNode \<Rightarrow> hexkey \<Rightarrow> deleteRes \<times> node" where
  "branchNode_delete env db childDelete bn children b key =
     (let self = BranchNode bn children b in
      case branchNode_isEmptyOrNil bn children of
        Some e \<Rightarrow> (Inl (Wrap ''delete error'' e), self)
      | None \<Rightarrow>
         (case key of
            [] \<Rightarrow> (Inl ErrValueTooShort, self)
          | childPos # key \<Rightarrow>
              if childPosOutOfRange childPos then (Inl ErrChildPosOutOfRange, self)
              else
                (case resolveIfCollapsed env db self childPos of
                   Inr (BranchNode bn children b) \<Rightarrow>
                     (case children ! childPos of
                        None \<Rightarrow> (Inr (False, Some (BranchNode bn children b), []), BranchNode bn children b)
                      | Some c \<Rightarrow> branchNode_deleteFromChild env db childDelete bn children b c childPos key)
                 | Inr n \<Rightarrow> (Inl Panic, n)
                 | Inl e \<Rightarrow> (Inl e, self))))"

text \<open>What becomes of an extension when its child was changed by a deletion.\<close>

definition extensionNode_mergeChild :: "CollapsedEn \<Rightarrow> node option \<Rightarrow> (node option) tres" where
  "extensionNode_mergeChild en newNode =
     (case newNode of
        Some (LeafNode ln b) \<Rightarrow>
          Inr (Some (newLeafNode \<lparr>Key = EnKey en @ LnKey ln, Value = LnValue ln, Version = ucast (LnVersion ln)\<rparr>))
      | Some (ExtensionNode en' child b) \<Rightarrow> thenE (newExtensionNode (EnKey en @ EnKey en') child) (\<lambda>n. Inr (Some n))
      | Some (BranchNode bn children b) \<Rightarrow> thenE (newExtensionNode (EnKey en) newNode) (\<lambda>n. Inr (Some n))
      | None \<Rightarrow> Inr None)"

definition extensionNode_delete ::
  "trieEnv \<Rightarrow> trieDB \<Rightarrow> (node \<Rightarrow> hexkey \<Rightarrow> deleteRes \<times> node) \<Rightarrow>
   CollapsedEn \<Rightarrow> node option \<Rightarrow> baseNode \<Rightarrow> hexkey \<Rightarrow> deleteRes \<times> node" where
  "extensionNode_delete env db childDelete en child b key =
     (let self = ExtensionNode en child b in
      case extensionNode_isEmptyOrNil en child of
        Some e \<Rightarrow> (Inl (Wrap ''delete error'' e), self)
      | None \<Rightarrow>
          if length key = 0 then (Inl ErrValueTooShort, self)
          else if prefixLen key (EnKey en) < length (EnKey en) then (Inr (False, Some self, []), self)
          else
            (case resolveIfCollapsed env db self 0 of
               Inr (ExtensionNode en (Some c) b) \<Rightarrow>
                 (let (r, c) = childDelete c (drop (length (EnKey en)) key);
                      self = ExtensionNode en (Some c) b in
                  case r of
                    Inl e \<Rightarrow> (Inl e, self)
                  | Inr (False, _, _) \<Rightarrow> (Inr (False, Some self, []), self)
                  | Inr (True, newNode, oldHashes) \<Rightarrow>
                      (thenE (extensionNode_mergeChild en newNode) (\<lambda>n. Inr (True, n, oldHashes @ obsolete b)), self))
             | Inr n \<Rightarrow> (Inl Panic, n)
             | Inl e \<Rightarrow> (Inl e, self)))"

fun nodeDelete :: "nat \<Rightarrow> trieEnv \<Rightarrow> trieDB \<Rightarrow> node \<Rightarrow> hexkey \<Rightarrow> deleteRes \<times> node" where
  "nodeDelete 0 env db n key = (Inl OutOfFuel, n)"
| "nodeDelete (Suc fuel) env db (LeafNode ln b) key = leafNode_delete ln b key"
| "nodeDelete (Suc fuel) env db (ExtensionNode en child b) key =
     extensionNode_delete env db (nodeDelete fuel env db) en child b key"
| "nodeDelete (Suc fuel) env db (BranchNode bn children b) key =
     branchNode_delete env db (nodeDelete fuel env db) bn children b key"

end
