(* ===== verification/TrieRep.thy ===== *)
theory TrieRep
  imports TrieSpec TrieOps
begin

text \<open>
  The relation between nodes and the trees they stand for (\<^verbatim>\<open>rep\<close>): children may be in memory or only in the
  database, a hash that is set is the hash of the tree, and a node that is not dirty is in the database.
\<close>

section \<open>Versions\<close>

definition somes :: "'a option list \<Rightarrow> 'a list" where
  "somes os = concat (map (\<lambda>x. case x of None \<Rightarrow> [] | Some y \<Rightarrow> [y]) os)"

lemma somes_simps [simp]: "somes [] = []" "somes (None # os) = somes os" "somes (Some x # os) = x # somes os"
  by (simp_all add: somes_def)

definition agree :: "u8 option list \<Rightarrow> u8" where
  "agree os = (case somes os of [] \<Rightarrow> 0 | v # vs \<Rightarrow> if \<forall>w\<in>set vs. w = v then v else 0)"

primrec pversion :: "ptrie \<Rightarrow> u8" where
  "pversion (PLeaf k v w) = w"
| "pversion (PExt k c) = pversion c"
| "pversion (PBranch ts) = agree (map (map_option pversion) ts)"

definition orZero :: "u8 option \<Rightarrow> u8" where
  "orZero x = (case x of None \<Rightarrow> 0 | Some v \<Rightarrow> v)"

definition zversions :: "u8 list \<Rightarrow> u8 list" where
  "zversions vs = (if \<forall>v\<in>set vs. v = 0 then [] else vs)"

definition pversions :: "ptrie option list \<Rightarrow> u8 list" where
  "pversions ts = zversions (map (\<lambda>c. orZero (map_option pversion c)) ts)"

fun vmatch :: "u8 option list \<Rightarrow> node option list \<Rightarrow> bytes list \<Rightarrow> u8 list \<Rightarrow> bool" where
  "vmatch [] [] [] [] \<longleftrightarrow> True"
| "vmatch (x # xs) (c # cs) (e # es) (v # vs) \<longleftrightarrow> (x = None \<longleftrightarrow> c = None \<and> e = []) \<and> v = orZero x \<and> vmatch xs cs es vs"
| "vmatch _ _ _ _ \<longleftrightarrow> False"

lemma versionsAgree_match:
  "vmatch xs cs es vs \<Longrightarrow> versionsAgree v cs es vs = Inr (if \<forall>w\<in>set (somes xs). w = v then v else 0)"
proof (induction xs cs es vs rule: vmatch.induct)
  case (2 x xs c cs e es w vs)
  then show ?case by (cases c; cases e; cases x) (auto simp: orZero_def)
qed simp_all

lemma firstVersion_match: "vmatch xs cs es vs \<Longrightarrow> firstVersion cs es vs = Inr (agree xs)"
proof (induction xs cs es vs rule: vmatch.induct)
  case (2 x xs c cs e es w vs)
  then show ?case by (cases c; cases e; cases x) (auto simp: orZero_def agree_def versionsAgree_match)
qed (simp_all add: agree_def)

lemma agree_zero: "\<forall>v\<in>set (somes xs). v = 0 \<Longrightarrow> agree xs = 0"
  by (auto simp: agree_def split: list.splits)

lemma vmatchI:
  assumes "length cs = length xs" and "length es = length xs"
    and "\<And>i. i < length xs \<Longrightarrow> xs ! i = None \<longleftrightarrow> cs ! i = None \<and> es ! i = []"
  shows "vmatch xs cs es (map orZero xs)"
  using assms
proof (induction xs arbitrary: cs es)
  case (Cons x xs)
  obtain c cs' e es' where eq: "cs = c # cs'" "es = e # es'" using Cons.prems by (cases cs; cases es) auto
  have "xs ! i = None \<longleftrightarrow> cs' ! i = None \<and> es' ! i = []" if "i < length xs" for i
    using Cons.prems(3) [of "Suc i"] that by (simp add: eq)
  then show ?case using Cons.IH [of cs' es'] Cons.prems(1,2) Cons.prems(3) [of 0] by (simp add: eq)
qed simp

lemma getVersion_match:
  assumes "length children = length xs" and "length (EncodedChildren bn) = length xs"
    and "\<And>i. i < length xs \<Longrightarrow> xs ! i = None \<longleftrightarrow> children ! i = None \<and> EncodedChildren bn ! i = []"
    and "ChildrenVersion bn = zversions (map orZero xs)"
  shows "branchNode_getVersion bn children = Inr (agree xs)"
proof (cases "\<forall>v\<in>set (map orZero xs). v = 0")
  case True
  then have "\<forall>v\<in>set (somes xs). v = 0" by (auto simp: somes_def orZero_def split: option.splits)
  then show ?thesis using True assms(4) by (simp add: branchNode_getVersion_def zversions_def agree_zero)
next
  case False
  then have v: "ChildrenVersion bn = map orZero xs" using assms(4) by (auto simp: zversions_def)
  then show ?thesis
    using firstVersion_match [OF vmatchI [OF assms(1-3)]] False by (cases xs) (simp_all add: branchNode_getVersion_def)
qed

lemma setVersionForChild_z:
  assumes "ChildrenVersion bn = zversions vs" and "length vs = 17" and "pos < 17"
  shows "setVersionForChild w pos bn = Inr (bn\<lparr>ChildrenVersion := zversions (vs[pos := w])\<rparr>)"
proof -
  let ?init = "if length (ChildrenVersion bn) = 0 then replicate 17 0 else ChildrenVersion bn"
  have init: "?init = vs"
  proof (cases "\<forall>v\<in>set vs. v = 0")
    case True
    then have "vs = replicate 17 0" using assms(2) by (metis replicate_eqI)
    then show ?thesis using True assms(1) by (simp add: zversions_def)
  next
    case False
    then show ?thesis using assms(1,2) by (auto simp: zversions_def)
  qed
  have len: "length (ChildrenVersion bn) = 0 \<longleftrightarrow> (\<forall>v\<in>set vs. v = 0)"
    using assms(1,2) by (auto simp: zversions_def)
  show ?thesis
  proof (cases "w = 0 \<and> (\<forall>v\<in>set vs. v = 0)")
    case True
    then have "\<forall>v\<in>set (vs[pos := w]). v = 0" using set_update_subset_insert [of vs pos w] by auto
    then show ?thesis using True len assms(1) by (simp add: setVersionForChild_def zversions_def)
  next
    case False
    then have "setVersionForChild w pos bn =
        Inr (let b = bn\<lparr>ChildrenVersion := vs[pos := w]\<rparr> in if w = 0 then revertChildrenVersionSliceIfNeeded b else b)"
      using init len assms(2,3) by (auto simp: setVersionForChild_def Let_def)
    moreover have "w \<noteq> 0 \<Longrightarrow> \<exists>v\<in>set (vs[pos := w]). v \<noteq> 0"
      using assms(2,3) by (intro bexI [of _ w]) (auto intro: set_update_memI)
    ultimately show ?thesis by (auto simp: Let_def revertChildrenVersionSliceIfNeeded_def zversions_def)
  qed
qed

section \<open>Hashes\<close>

definition lnOf :: "hexkey \<Rightarrow> bytes \<Rightarrow> u8 \<Rightarrow> CollapsedLn" where
  "lnOf k v w = \<lparr>LnKey = k, LnValue = Some v, LnVersion = ucast w\<rparr>"

lemma lnOf_sel [simp]: "LnKey (lnOf k v w) = k" "LnValue (lnOf k v w) = Some v" "LnVersion (lnOf k v w) = ucast w"
  by (simp_all add: lnOf_def)

definition orNil :: "bytes option \<Rightarrow> bytes" where
  "orNil x = (case x of None \<Rightarrow> [] | Some h \<Rightarrow> h)"

lemma orNil_simps [simp]: "orNil None = []" "orNil (Some h) = h"
  by (simp_all add: orNil_def)

primrec phash :: "trieEnv \<Rightarrow> ptrie \<Rightarrow> bytes" where
  "phash env (PLeaf k v w) = Compute env (projr (marshalLn env (lnOf k v w)) @ [leaf])"
| "phash env (PExt k c) = Compute env (projr (marshalEn env
     \<lparr>EnKey = k, EncodedChild = phash env c, ChildVersion = ucast (pversion c)\<rparr>) @ [extension])"
| "phash env (PBranch ts) = Compute env (projr (marshalBn env
     \<lparr>EncodedChildren = map orNil (map (map_option (phash env)) ts), ChildrenVersion = pversions ts\<rparr>) @ [branch])"

definition bnOf :: "trieEnv \<Rightarrow> ptrie option list \<Rightarrow> CollapsedBn" where
  "bnOf env ts = \<lparr>EncodedChildren = map (\<lambda>c. orNil (map_option (phash env) c)) ts, ChildrenVersion = pversions ts\<rparr>"

definition enOf :: "trieEnv \<Rightarrow> hexkey \<Rightarrow> ptrie \<Rightarrow> CollapsedEn" where
  "enOf env k c = \<lparr>EnKey = k, EncodedChild = phash env c, ChildVersion = ucast (pversion c)\<rparr>"

fun penc :: "trieEnv \<Rightarrow> ptrie \<Rightarrow> bytes" where
  "penc env (PLeaf k v w) = projr (marshalLn env (lnOf k v w)) @ [leaf]"
| "penc env (PExt k c) = projr (marshalEn env (enOf env k c)) @ [extension]"
| "penc env (PBranch ts) = projr (marshalBn env (bnOf env ts)) @ [branch]"

lemma phash_penc: "phash env t = Compute env (penc env t)"
  by (cases t) (simp_all add: enOf_def bnOf_def comp_def)

declare phash.simps [simp del]

text \<open>The tree is in the database, all of it.\<close>

inductive stored :: "trieEnv \<Rightarrow> trieDB \<Rightarrow> ptrie \<Rightarrow> bool" for env db where
  leaf: "db (phash env (PLeaf k v w)) = Some (penc env (PLeaf k v w)) \<Longrightarrow> stored env db (PLeaf k v w)"
| ext: "db (phash env (PExt k c)) = Some (penc env (PExt k c)) \<Longrightarrow> stored env db c \<Longrightarrow> stored env db (PExt k c)"
| branch: "db (phash env (PBranch ts)) = Some (penc env (PBranch ts)) \<Longrightarrow>
    (\<And>i c. at ts i = Some c \<Longrightarrow> stored env db c) \<Longrightarrow> stored env db (PBranch ts)"

inductive_simps stored_simps:
  "stored env db (PLeaf k v w)" "stored env db (PExt k c)" "stored env db (PBranch ts)"

lemma stored_db: "stored env db t \<Longrightarrow> db (phash env t) = Some (penc env t)"
  by (erule stored.cases) simp_all

section \<open>The representation relation\<close>

text \<open>The contract of marshaller and hasher: messages of nodes are read back as written, hashes are not empty.\<close>

definition trie_codec :: "trieEnv \<Rightarrow> bool" where
  "trie_codec env \<longleftrightarrow>
     (\<forall>ln v. LnValue ln = Some v \<and> v \<noteq> [] \<and> (\<forall>x\<in>set (LnKey ln). x < 256) \<longrightarrow>
        (\<exists>b. marshalLn env ln = Inr b \<and> unmarshalLn env b = Inr ln)) \<and>
     (\<forall>en. (\<forall>x\<in>set (EnKey en). x < 256) \<longrightarrow> (\<exists>b. marshalEn env en = Inr b \<and> unmarshalEn env b = Inr en)) \<and>
     (\<forall>bn. \<exists>b. marshalBn env bn = Inr b \<and> unmarshalBn env b = Inr bn) \<and>
     (\<forall>b. Compute env b \<noteq> [])"

lemma subkey_bytes: "subkey t k \<Longrightarrow> x \<in> set k \<Longrightarrow> x < 256"
proof (induction k arbitrary: t)
  case (Cons y k)
  then show ?case by auto
qed simp

text \<open>What is written for the nodes of a canonical tree is read back.\<close>

lemma codec_leaf:
  assumes "trie_codec env" and "canon t (PLeaf k v w)"
  shows "\<exists>m. marshalLn env (lnOf k v w) = Inr m \<and> unmarshalLn env m = Inr (lnOf k v w)"
  using assms subkey_bytes [of t k] by (simp add: trie_codec_def)

lemma codec_ext:
  assumes "trie_codec env" and "canon t (PExt k c)"
  shows "\<exists>m. marshalEn env (enOf env k c) = Inr m \<and> unmarshalEn env m = Inr (enOf env k c)"
proof -
  have "\<forall>x\<in>set k. x < 256" using assms(2) by (auto simp: canon_ext)
  then show ?thesis using assms(1) by (simp add: trie_codec_def enOf_def)
qed

lemma codec_branch: "trie_codec env \<Longrightarrow> \<exists>m. marshalBn env bn = Inr m \<and> unmarshalBn env m = Inr bn"
  by (simp add: trie_codec_def)

lemma phash_ne [simp]: "trie_codec env \<Longrightarrow> phash env t \<noteq> []"
  by (simp add: phash_penc trie_codec_def)

definition base_ok :: "trieEnv \<Rightarrow> trieDB \<Rightarrow> ptrie \<Rightarrow> baseNode \<Rightarrow> bool" where
  "base_ok env db t b \<longleftrightarrow> (\<forall>h. hash b = Some h \<longrightarrow> h = phash env t) \<and> (\<not> dirty b \<longrightarrow> hash b \<noteq> None \<and> stored env db t)"

lemma base_ok_dirty [simp]: "base_ok env db t (b\<lparr>dirty := True, hash := None\<rparr>)" "base_ok env db t newBase"
  by (simp_all add: base_ok_def newBase_def)

text \<open>A child in memory has a hash.\<close>

definition hashedOpt :: "node option \<Rightarrow> bool" where
  "hashedOpt c \<longleftrightarrow> (\<forall>n. c = Some n \<longrightarrow> getHash n \<noteq> None)"

lemma hashedOpt_simps [simp]: "hashedOpt None" "hashedOpt (Some n) \<longleftrightarrow> getHash n \<noteq> None"
  by (simp_all add: hashedOpt_def)

inductive rep :: "trieEnv \<Rightarrow> trieDB \<Rightarrow> ptrie \<Rightarrow> node \<Rightarrow> bool" for env db where
  leaf: "base_ok env db (PLeaf k v w) b \<Longrightarrow> rep env db (PLeaf k v w) (LeafNode (lnOf k v w) b)"
| ext: "base_ok env db (PExt k c) b \<Longrightarrow> EnKey en = k \<Longrightarrow> ChildVersion en = ucast (pversion c) \<Longrightarrow>
    (\<And>n. child = Some n \<Longrightarrow> rep env db c n) \<Longrightarrow>
    (child = None \<Longrightarrow> EncodedChild en = phash env c \<and> stored env db c) \<Longrightarrow>
    (hash b \<noteq> None \<Longrightarrow> EncodedChild en = phash env c \<and> hashedOpt child) \<Longrightarrow>
    rep env db (PExt k c) (ExtensionNode en child b)"
| branch: "base_ok env db (PBranch ts) b \<Longrightarrow> length ts = 17 \<Longrightarrow> length children = 17 \<Longrightarrow>
    length (EncodedChildren bn) = 17 \<Longrightarrow> ChildrenVersion bn = pversions ts \<Longrightarrow>
    (\<And>i n. i < 17 \<Longrightarrow> children ! i = Some n \<Longrightarrow> \<exists>c. ts ! i = Some c \<and> rep env db c n) \<Longrightarrow>
    (\<And>i. i < 17 \<Longrightarrow> children ! i = None \<Longrightarrow> (case ts ! i of None \<Rightarrow> EncodedChildren bn ! i = []
       | Some c \<Rightarrow> EncodedChildren bn ! i = phash env c \<and> stored env db c)) \<Longrightarrow>
    (hash b \<noteq> None \<Longrightarrow> EncodedChildren bn = EncodedChildren (bnOf env ts) \<and> (\<forall>c\<in>set children. hashedOpt c)) \<Longrightarrow>
    rep env db (PBranch ts) (BranchNode bn children b)"

inductive_cases rep_leafE: "rep env db (PLeaf k v w) n"
inductive_cases rep_extE: "rep env db (PExt k c) n"
inductive_cases rep_branchE: "rep env db (PBranch ts) n"
inductive_simps rep_leaf: "rep env db (PLeaf k v w) (LeafNode ln b)"
inductive_simps rep_ext: "rep env db (PExt k c) (ExtensionNode en child b)"
inductive_simps rep_branch: "rep env db (PBranch ts) (BranchNode bn children b)"

lemma small_version: "\<not> 255 < (ucast (w :: u8) :: u32)"
  by transfer (simp add: take_bit_eq_mod not_less)

lemma ucast_version [simp]: "ucast (ucast (w :: u8) :: u32) = w"
  by transfer simp

lemma rep_getVersion:
  assumes c: "trie_codec env" and "rep env db t n"
  shows "getVersion n = Inr (pversion t)"
  using assms(2)
proof (cases rule: rep.cases)
  case (leaf k v w b)
  then show ?thesis by (simp add: leafNode_getVersion_def lnOf_def small_version)
next
  case (ext k cc b en child)
  then show ?thesis by (simp add: extensionNode_getVersion_def small_version)
next
  case (branch ts b children bn)
  have "branchNode_getVersion bn children = Inr (agree (map (map_option pversion) ts))"
  proof (rule getVersion_match)
    show "(map (map_option pversion) ts) ! i = None \<longleftrightarrow> children ! i = None \<and> EncodedChildren bn ! i = []"
      if "i < length (map (map_option pversion) ts)" for i
      using that branch(4) branch(8) [of i] branch(9) [of i] phash_ne [OF c] by (cases "children ! i") (auto split: option.splits)
    show "ChildrenVersion bn = zversions (map orZero (map (map_option pversion) ts))"
      using branch(7) by (simp add: pversions_def comp_def)
  qed (use branch in simp_all)
  then show ?thesis using branch by simp
qed

section \<open>Loading children\<close>

lemma emptyLoop_None:
  assumes "length cs = length es" and "i < length cs" and "cs ! i \<noteq> None \<or> es ! i \<noteq> []"
  shows "branchNode_emptyLoop cs es = None"
  using assms
proof (induction cs es arbitrary: i rule: branchNode_emptyLoop.induct)
  case (4 cs e es)
  then show ?case by (cases i) auto
qed auto

lemma rep_not_empty:
  assumes c: "trie_codec env" and r: "rep env db t n" and k: "canon b t"
  shows "isEmptyOrNil n = None"
  using r
proof (cases rule: rep.cases)
  case (ext k c b en child)
  then show ?thesis using phash_ne [OF c] by (cases child) (auto simp: extensionNode_isEmptyOrNil_def)
next
  case (branch ts b children bn)
  have "2 \<le> childCount ts" using k branch by (auto simp: canon_branch)
  then obtain i j x y where "at ts i = Some x" by (rule childCount_two)
  then have i: "i < 17" "ts ! i = Some x" using branch(4) by (auto simp: at_def split: if_splits)
  then have "children ! i \<noteq> None \<or> EncodedChildren bn ! i \<noteq> []" using branch(9) [of i] phash_ne [OF c] by (cases "children ! i") auto
  then show ?thesis using i branch(2,5,6) emptyLoop_None [of children "EncodedChildren bn" i]
    by (simp add: branchNode_isEmptyOrNil_def)
qed (simp add: leafNode_isEmptyOrNil_def lnOf_def)

lemma emptyType [simp]:
  "getEmptyNodeOfType leaf = Inr (LeafNode \<lparr>LnKey = [], LnValue = None, LnVersion = 0\<rparr> \<lparr>hash = None, dirty = False\<rparr>)"
  "getEmptyNodeOfType extension = Inr (ExtensionNode \<lparr>EnKey = [], EncodedChild = [], ChildVersion = 0\<rparr> None \<lparr>hash = None, dirty = False\<rparr>)"
  "getEmptyNodeOfType branch =
     Inr (BranchNode \<lparr>EncodedChildren = [], ChildrenVersion = []\<rparr> (replicate 17 None) \<lparr>hash = None, dirty = False\<rparr>)"
  by (simp_all add: getEmptyNodeOfType_def)

text \<open>The node that a stored tree decodes to.\<close>

fun collapsedNode :: "trieEnv \<Rightarrow> baseNode \<Rightarrow> ptrie \<Rightarrow> node" where
  "collapsedNode env b (PLeaf k v w) = LeafNode (lnOf k v w) b"
| "collapsedNode env b (PExt k c) = ExtensionNode (enOf env k c) None b"
| "collapsedNode env b (PBranch ts) = BranchNode (bnOf env ts) (replicate 17 None) b"

lemma decode_penc:
  assumes c: "trie_codec env" and k: "canon t p"
  shows "decodeNode env (penc env p) = Inr (collapsedNode env \<lparr>hash = None, dirty = False\<rparr> p)"
proof (cases p)
  case (PLeaf k' v w)
  then obtain m where "marshalLn env (lnOf k' v w) = Inr m" "unmarshalLn env m = Inr (lnOf k' v w)"
    using codec_leaf [OF c] k by blast
  then show ?thesis using PLeaf by (simp add: decodeNode_def)
next
  case (PExt k' d)
  then obtain m where "marshalEn env (enOf env k' d) = Inr m" "unmarshalEn env m = Inr (enOf env k' d)"
    using codec_ext [OF c] k by blast
  then show ?thesis using PExt by (simp add: decodeNode_def)
next
  case (PBranch ts)
  then obtain m where "marshalBn env (bnOf env ts) = Inr m" "unmarshalBn env m = Inr (bnOf env ts)"
    using codec_branch [OF c] by blast
  then show ?thesis using PBranch by (simp add: decodeNode_def)
qed

lemma rep_collapsed:
  assumes "stored env db p" and "canon t p" and "hash b = Some (phash env p)"
  shows "rep env db p (collapsedNode env b p)"
proof (cases p)
  case (PLeaf k v w)
  then show ?thesis using assms by (auto intro!: rep.leaf simp: base_ok_def)
next
  case (PExt k c)
  then show ?thesis using assms by (auto intro!: rep.ext simp: base_ok_def enOf_def stored_simps)
next
  case (PBranch ts)
  then have len: "length ts = 17" using assms(2) by (auto simp: canon_branch)
  have st: "stored env db c" if "i < 17" "ts ! i = Some c" for i c
    using assms(1) that len PBranch unfolding stored_simps by (metis at_def stored_simps(3))
  have "base_ok env db (PBranch ts) b" using assms PBranch by (simp add: base_ok_def)
  then show ?thesis using len st unfolding PBranch collapsedNode.simps
    by (intro rep.branch) (auto simp: bnOf_def split: option.splits)
qed

lemma setGivenHash_collapsed:
  "setGivenHash h (collapsedNode env b p) = collapsedNode env (b\<lparr>hash := Some h\<rparr>) p"
  by (cases p) (simp_all add: setGivenHash_def)

lemma getHash_setGivenHash [simp]: "getHash (setGivenHash h n) = Some h"
  by (cases n) (simp_all add: getHash_def setGivenHash_def)

lemma load:
  assumes "trie_codec env" and "stored env db p" and "canon t p"
  shows "\<exists>n. getNodeFromDBAndDecode env db (phash env p) = Inr n \<and> rep env db p (setGivenHash (phash env p) n)"
  using assms decode_penc [OF assms(1,3)] stored_db [OF assms(2)] rep_collapsed [OF assms(2,3)]
  by (simp add: getNodeFromDBAndDecode_def setGivenHash_collapsed)

lemma resolve_ext:
  assumes c: "trie_codec env" and r: "rep env db (PExt k p) (ExtensionNode en child b)" and k: "canon t (PExt k p)"
  shows "\<exists>n. resolveIfCollapsed env db (ExtensionNode en child b) pos = Inr (ExtensionNode en (Some n) b) \<and>
    rep env db p n \<and> rep env db (PExt k p) (ExtensionNode en (Some n) b)"
proof -
  have ne: "isEmptyOrNil (ExtensionNode en child b) = None" by (rule rep_not_empty [OF c r k])
  show ?thesis
  proof (cases child)
    case (Some n)
    then show ?thesis using r ne by (auto simp: resolveIfCollapsed.simps extensionNode_isCollapsed_def rep_ext)
  next
    case None
    then have e: "EncodedChild en = phash env p" "stored env db p" using r by (auto simp: rep_ext)
    obtain n where n: "getNodeFromDBAndDecode env db (phash env p) = Inr n" "rep env db p (setGivenHash (phash env p) n)"
      using load [OF c e(2)] k by (auto simp: canon_ext)
    then show ?thesis using None e r ne c
      by (auto simp: resolveIfCollapsed.simps extensionNode_isCollapsed_def extensionNode_resolveCollapsed_def rep_ext)
  qed
qed

lemma rep_branch_upd:
  assumes r: "rep env db (PBranch ts) (BranchNode bn children b)" and i: "i < 17" "ts ! i = Some p" and n: "rep env db p n"
    and h: "hash b \<noteq> None \<Longrightarrow> getHash n \<noteq> None"
  shows "rep env db (PBranch ts) (BranchNode bn (children[i := Some n]) b)"
proof -
  note f = r [unfolded rep_branch]
  show ?thesis
  proof (rule rep.branch)
    fix j m assume "j < 17" "children[i := Some n] ! j = Some m"
    then show "\<exists>c. ts ! j = Some c \<and> rep env db c m" using f i n by (cases "j = i") auto
  next
    fix j assume "j < 17" "children[i := Some n] ! j = None"
    then show "case ts ! j of None \<Rightarrow> EncodedChildren bn ! j = []
       | Some c \<Rightarrow> EncodedChildren bn ! j = phash env c \<and> stored env db c"
      using f i by (cases "j = i") auto
  next
    assume "hash b \<noteq> None"
    then show "EncodedChildren bn = EncodedChildren (bnOf env ts) \<and> (\<forall>c\<in>set (children[i := Some n]). hashedOpt c)"
      using f h set_update_subset_insert [of children i "Some n"] by auto
  qed (use f in auto)
qed

text \<open>The children of a branch, without its hash and flag.\<close>

definition brep :: "trieEnv \<Rightarrow> trieDB \<Rightarrow> ptrie option list \<Rightarrow> CollapsedBn \<times> node option list \<Rightarrow> bool" where
  "brep env db ts = (\<lambda>(bn, children). length ts = 17 \<and> length children = 17 \<and> length (EncodedChildren bn) = 17 \<and>
     ChildrenVersion bn = pversions ts \<and>
     (\<forall>i<17. \<forall>n. children ! i = Some n \<longrightarrow> (\<exists>c. ts ! i = Some c \<and> rep env db c n)) \<and>
     (\<forall>i<17. children ! i = None \<longrightarrow> (case ts ! i of None \<Rightarrow> EncodedChildren bn ! i = []
       | Some c \<Rightarrow> EncodedChildren bn ! i = phash env c \<and> stored env db c)))"

lemma rep_brep: "rep env db (PBranch ts) (BranchNode bn children b) \<Longrightarrow> brep env db ts (bn, children)"
  by (auto simp: rep_branch brep_def)

lemma brepD:
  assumes "brep env db ts (bn, children)" and "i < 17"
  shows "children ! i = Some n \<Longrightarrow> \<exists>c. ts ! i = Some c \<and> rep env db c n"
    "children ! i = None \<Longrightarrow> ts ! i = Some c \<Longrightarrow> EncodedChildren bn ! i = phash env c \<and> stored env db c"
    "children ! i = None \<Longrightarrow> ts ! i = None \<Longrightarrow> EncodedChildren bn ! i = []"
proof -
  have "children ! i = None \<Longrightarrow> (case ts ! i of None \<Rightarrow> EncodedChildren bn ! i = []
       | Some c \<Rightarrow> EncodedChildren bn ! i = phash env c \<and> stored env db c)"
    and "children ! i = Some n \<Longrightarrow> \<exists>c. ts ! i = Some c \<and> rep env db c n"
    using assms unfolding brep_def prod.case by blast+
  then show "children ! i = Some n \<Longrightarrow> \<exists>c. ts ! i = Some c \<and> rep env db c n"
    "children ! i = None \<Longrightarrow> ts ! i = Some c \<Longrightarrow> EncodedChildren bn ! i = phash env c \<and> stored env db c"
    "children ! i = None \<Longrightarrow> ts ! i = None \<Longrightarrow> EncodedChildren bn ! i = []"
    by simp_all
qed

lemma brep_none:
  assumes c: "trie_codec env" and b: "brep env db ts (bn, children)" and i: "i < 17"
  shows "ts ! i = None \<longleftrightarrow> children ! i = None \<and> EncodedChildren bn ! i = []"
  using brepD [OF b i] phash_ne [OF c] by (cases "children ! i"; cases "ts ! i") auto

lemma brep_not_empty:
  assumes c: "trie_codec env" and r: "brep env db ts (bn, children)" and i: "i < 17" "ts ! i \<noteq> None"
  shows "branchNode_isEmptyOrNil bn children = None"
proof -
  have "children ! i \<noteq> None \<or> EncodedChildren bn ! i \<noteq> []"
    using brep_none [OF c r i(1)] i(2) by simp
  then show ?thesis using i r emptyLoop_None [of children "EncodedChildren bn" i]
    by (simp add: branchNode_isEmptyOrNil_def brep_def)
qed

lemma resolve_brep:
  assumes c: "trie_codec env" and r: "brep env db ts (bn, children)" and pos: "pos < 17" "ts ! pos = Some p" and k: "canon t p"
  shows "\<exists>n. resolveIfCollapsed env db (BranchNode bn children b) pos = Inr (BranchNode bn (children[pos := Some n]) b) \<and> rep env db p n \<and>
    (hashedOpt (children ! pos) \<longrightarrow> getHash n \<noteq> None)"
proof -
  have ne: "branchNode_isEmptyOrNil bn children = None" using brep_not_empty [OF c r pos(1)] pos(2) by simp
  show ?thesis
  proof (cases "children ! pos")
    case (Some n)
    then have "resolveIfCollapsed env db (BranchNode bn children b) pos = Inr (BranchNode bn children b)"
      using r ne pos by (simp add: resolveIfCollapsed.simps branchNode_isPosCollapsed_def brep_def)
    moreover have "rep env db p n" using r Some pos by (auto simp: brep_def)
    ultimately show ?thesis using Some by (metis hashedOpt_simps(2) list_update_id)
  next
    case None
    then have e: "EncodedChildren bn ! pos = phash env p" "stored env db p" using r pos by (auto simp: brep_def)
    obtain n where n: "getNodeFromDBAndDecode env db (phash env p) = Inr n" "rep env db p (setGivenHash (phash env p) n)"
      using load [OF c e(2) k] by blast
    then show ?thesis using r ne pos None e c
      by (auto simp: resolveIfCollapsed.simps branchNode_isPosCollapsed_def branchNode_resolveCollapsed_def
          childPosOutOfRange_def brep_def)
  qed
qed

lemma resolve_branch:
  assumes c: "trie_codec env" and r: "rep env db (PBranch ts) (BranchNode bn children b)" and k: "canon t (PBranch ts)"
    and pos: "pos < 17"
  shows "\<exists>children'. resolveIfCollapsed env db (BranchNode bn children b) pos = Inr (BranchNode bn children' b) \<and>
    rep env db (PBranch ts) (BranchNode bn children' b) \<and> (ts ! pos = None \<longrightarrow> children' ! pos = None) \<and>
    (\<forall>p. ts ! pos = Some p \<longrightarrow> (\<exists>n. children' ! pos = Some n \<and> rep env db p n))"
proof (cases "ts ! pos")
  case None
  note f = r [unfolded rep_branch]
  have none: "children ! pos = None" using f None pos by (cases "children ! pos") auto
  have "resolveIfCollapsed env db (BranchNode bn children b) pos = Inr (BranchNode bn children b)"
    using f rep_not_empty [OF c r k] pos None none by (auto simp: resolveIfCollapsed.simps branchNode_isPosCollapsed_def)
  then show ?thesis using r None none by (intro exI [of _ children]) auto
next
  case (Some p)
  have "canon (pos = 16) p" using k Some pos by (auto simp: canon_branch at_def)
  then obtain n where n: "resolveIfCollapsed env db (BranchNode bn children b) pos =
      Inr (BranchNode bn (children[pos := Some n]) b)" "rep env db p n" "hashedOpt (children ! pos) \<longrightarrow> getHash n \<noteq> None"
    using resolve_brep [OF c rep_brep [OF r] pos Some] by blast
  have len: "length children = 17" using r by (auto simp: rep_branch)
  have "\<forall>c\<in>set children. hashedOpt c" if "hash b \<noteq> None" using r that by (simp add: rep_branch)
  then have "getHash n \<noteq> None" if "hash b \<noteq> None" using n(3) that pos len by simp
  note upd = rep_branch_upd [OF r pos Some n(2) this]
  show ?thesis
    by (rule exI [of _ "children[pos := Some n]"], intro conjI n(1) upd) (use Some pos len n(2) in simp_all)
qed

section \<open>New nodes and new children\<close>

lemma brep_rep:
  "brep env db ts (bn, children) \<Longrightarrow> hash b = None \<Longrightarrow> dirty b \<Longrightarrow> rep env db (PBranch ts) (BranchNode bn children b)"
  by (auto simp: rep_branch brep_def base_ok_def)

lemma brep_new: "brep env db (replicate 17 None) newBranchNode"
  by (auto simp: brep_def newBranchNode_def pversions_def zversions_def orZero_def)

lemma setVersionForChild_p:
  assumes "ChildrenVersion bn = pversions ts" and "length ts = 17" and "pos < 17"
  shows "setVersionForChild (orZero (map_option pversion c)) pos bn = Inr (bn\<lparr>ChildrenVersion := pversions (ts[pos := c])\<rparr>)"
  using setVersionForChild_z [OF assms(1) [unfolded pversions_def] _ assms(3)] assms(2)
  by (simp add: pversions_def map_update)

lemma brep_put:
  assumes b: "brep env db ts (bn, children)" and p: "pos < 17" and n: "rep env db c n"
  shows "setVersionForChild (pversion c) pos bn = Inr (bn\<lparr>ChildrenVersion := pversions (ts[pos := Some c])\<rparr>) \<and>
    brep env db (ts[pos := Some c]) (bn\<lparr>ChildrenVersion := pversions (ts[pos := Some c])\<rparr>, children[pos := Some n])"
proof -
  have "setVersionForChild (pversion c) pos bn = Inr (bn\<lparr>ChildrenVersion := pversions (ts[pos := Some c])\<rparr>)"
    using setVersionForChild_p [of bn ts pos "Some c"] b p by (simp add: brep_def orZero_def)
  moreover have "brep env db (ts[pos := Some c]) (bn\<lparr>ChildrenVersion := pversions (ts[pos := Some c])\<rparr>, children[pos := Some n])"
    unfolding brep_def prod.case
  proof (intro conjI allI impI)
    fix i m assume "i < 17" "children[pos := Some n] ! i = Some m"
    then show "\<exists>d. ts[pos := Some c] ! i = Some d \<and> rep env db d m"
      using b n p by (cases "i = pos") (auto simp: brep_def)
  next
    fix i assume "i < 17" "children[pos := Some n] ! i = None"
    then show "case ts[pos := Some c] ! i of
        None \<Rightarrow> EncodedChildren (bn\<lparr>ChildrenVersion := pversions (ts[pos := Some c])\<rparr>) ! i = []
      | Some d \<Rightarrow> EncodedChildren (bn\<lparr>ChildrenVersion := pversions (ts[pos := Some c])\<rparr>) ! i = phash env d \<and> stored env db d"
      using b p by (cases "i = pos") (auto simp: brep_def split: option.splits)
  qed (use b in \<open>auto simp: brep_def\<close>)
  ultimately show ?thesis by blast
qed

lemma brep_putNewChild:
  assumes "brep env db ts x" and "pos < 17" and "rep env db c n" and "w = pversion c"
  shows "\<exists>y. putNewChild pos n w x = Inr y \<and> brep env db (ts[pos := Some c]) y"
  using brep_put [of env db ts "fst x" "snd x" pos c n] assms by (auto simp: putNewChild_def split_beta)

lemma newLeaf_rep: "rep env db (PLeaf k v w) (newLeafNode \<lparr>Key = k, Value = Some v, Version = w\<rparr>)"
  by (auto simp: newLeafNode_def lnOf_def [symmetric] intro: rep.leaf)

lemma newExtension_rep:
  assumes "trie_codec env" and "rep env db c n"
  shows "\<exists>m. newExtensionNode k (Some n) = Inr m \<and> rep env db (PExt k c) m \<and> isDirty m"
  using rep_getVersion [OF assms] assms(2)
  by (auto simp: newExtensionNode_def rep_ext isDirty_def newBase_def base_ok_def)

text \<open>A child that is taken out.\<close>

lemma brep_clear:
  assumes b: "brep env db ts (bn, children)" and p: "pos < 17"
  shows "\<exists>bn'. branchNode_setNewChild bn ch pos None = Inr bn' \<and> brep env db (ts[pos := None]) (bn', children[pos := None])"
proof -
  let ?bn = "bn\<lparr>ChildrenVersion := pversions (ts[pos := None])\<rparr>"
  let ?bn' = "?bn\<lparr>EncodedChildren := (EncodedChildren bn)[pos := []]\<rparr>"
  have "setVersionForChild NotSpecified pos bn = Inr ?bn"
    using setVersionForChild_p [of bn ts pos None] b p by (simp add: brep_def orZero_def)
  then have "branchNode_setNewChild bn ch pos None = Inr ?bn'"
    using b p by (simp add: branchNode_setNewChild_def brep_def)
  moreover have "brep env db (ts[pos := None]) (?bn', children[pos := None])"
    unfolding brep_def prod.case
  proof (intro conjI allI impI)
    fix i m assume "i < 17" "children[pos := None] ! i = Some m"
    then show "\<exists>d. ts[pos := None] ! i = Some d \<and> rep env db d m" using b p by (cases "i = pos") (auto simp: brep_def)
  next
    fix i assume "i < 17" "children[pos := None] ! i = None"
    then show "case ts[pos := None] ! i of None \<Rightarrow> EncodedChildren ?bn' ! i = []
      | Some d \<Rightarrow> EncodedChildren ?bn' ! i = phash env d \<and> stored env db d"
      using b p by (cases "i = pos") (auto simp: brep_def split: option.splits)
  qed (use b in \<open>auto simp: brep_def\<close>)
  ultimately show ?thesis by blast
qed

lemma childPositionLoop:
  assumes "length cs = length ts" and "length es = length ts"
    and "\<And>i. i < length ts \<Longrightarrow> ts ! i = None \<longleftrightarrow> cs ! i = None \<and> es ! i = []"
  shows "\<exists>q. getChildPositionLoop j cs es (k, p) = Inr (k + childCount ts, q) \<and>
    (if childCount ts = 0 then q = p else j \<le> q \<and> q < j + length ts \<and> ts ! (q - j) \<noteq> None)"
  using assms
proof (induction ts arbitrary: cs es j k p)
  case Nil
  then show ?case by (simp add: childCount_def)
next
  case (Cons x ts)
  obtain c cs' e es' where eq: "cs = c # cs'" "es = e # es'" using Cons.prems by (cases cs; cases es) auto
  have h: "x = None \<longleftrightarrow> c = None \<and> e = []" using Cons.prems(3) [of 0] by (simp add: eq)
  have tl: "ts ! i = None \<longleftrightarrow> cs' ! i = None \<and> es' ! i = []" if "i < length ts" for i
    using Cons.prems(3) [of "Suc i"] that by (simp add: eq)
  let ?kp = "if x = None then (k, p) else (Suc k, j)"
  have step: "getChildPositionLoop j cs es (k, p) = getChildPositionLoop (Suc j) cs' es' ?kp"
    using h by (cases c) (auto simp: eq)
  obtain q where q: "getChildPositionLoop (Suc j) cs' es' ?kp = Inr (fst ?kp + childCount ts, q)"
    "if childCount ts = 0 then q = snd ?kp else Suc j \<le> q \<and> q < Suc j + length ts \<and> ts ! (q - Suc j) \<noteq> None"
    using Cons.IH [of cs' es' "Suc j" "fst ?kp" "snd ?kp"] tl Cons.prems(1,2) eq by auto
  have nth: "(x # ts) ! (q - j) = ts ! (q - Suc j)" if "Suc j \<le> q"
  proof -
    have "q - j = Suc (q - Suc j)" using that by simp
    then show ?thesis by simp
  qed
  show ?case using q nth unfolding step by (intro exI [of _ q]) (auto simp: childCount_def split: if_splits)
qed

lemma childPosition:
  assumes c: "trie_codec env" and b: "brep env db ts (bn, children)"
  shows "\<exists>q. getChildPosition bn children = Inr (childCount ts, q) \<and> (childCount ts \<noteq> 0 \<longrightarrow> q < 17 \<and> ts ! q \<noteq> None)"
proof -
  obtain q where "getChildPositionLoop 0 children (EncodedChildren bn) (0, 0) = Inr (0 + childCount ts, q)"
    "if childCount ts = 0 then q = 0 else 0 \<le> q \<and> q < 0 + length ts \<and> ts ! (q - 0) \<noteq> None"
    using childPositionLoop [of children ts "EncodedChildren bn" 0 0 0] b brep_none [OF c b] by (auto simp: brep_def)
  then show ?thesis using b by (intro exI [of _ q]) (auto simp: getChildPosition_def brep_def split: if_splits)
qed

end
