(* ===== verification/TrieCorrect.thy ===== *)
theory TrieCorrect
  imports TrieRep
begin

text \<open>
  Reading, insertion and deletion on the nodes do to the represented map what they should, keep the tree canonical, and
  end within a depth of one more than the length of the key.
\<close>

section \<open>Reading\<close>

lemma ext_match:
  assumes "canon False (PExt k p)" and "subkey False key" and "take (length k) key = k"
  shows "length k \<le> length key" "subkey False (drop (length k) key)" "drop (length k) key \<noteq> []"
    "length (drop (length k) key) < length key" "plookup (PExt k p) key = plookup p (drop (length k) key)"
proof -
  define xs where "xs = drop (length k) key"
  have key: "key = k @ xs" using assms(3) xs_def by (metis append_take_drop_id)
  have k: "k \<noteq> []" "\<forall>x\<in>set k. x < 16" using assms(1) by (auto simp: canon_ext)
  have v: "validkey xs" using assms(2) k by (simp add: key validkey_append)
  show "length k \<le> length key" "subkey False (drop (length k) key)" "drop (length k) key \<noteq> []"
    "length (drop (length k) key) < length key" "plookup (PExt k p) key = plookup p (drop (length k) key)"
    using v k by (auto simp: key plookup_ext)
qed

lemma ext_mismatch: "take (length k) key \<noteq> k \<Longrightarrow> plookup (PExt k p) key = None"
  using ext_keys by (metis option.exhaust)

lemma rep_child_hash:
  assumes "rep env db (PBranch ts) (BranchNode bn children b)" and "i < 17" and "children ! i = Some n" and "hash b \<noteq> None"
  shows "getHash n \<noteq> None"
proof -
  have "\<forall>c\<in>set children. hashedOpt c" "length children = 17" using assms(1,4) by (simp_all add: rep_branch)
  then show ?thesis using assms(2,3) by (metis hashedOpt_simps(2) nth_mem)
qed

lemma tryGet_rep:
  assumes c: "trie_codec env"
  shows "canon t p \<Longrightarrow> rep env db p n \<Longrightarrow> subkey t key \<Longrightarrow> length key < fuel \<Longrightarrow>
    \<exists>n' d'. tryGet fuel env db n key d = ((Inr (map_option fst (plookup p key)), d'), n') \<and> rep env db p n' \<and> getHash n' = getHash n"
proof (induction p arbitrary: t n key d fuel rule: ptrie_induct)
  case (Leaf k v w)
  then obtain b f where "n = LeafNode (lnOf k v w) b" "fuel = Suc f" by (cases fuel) (auto elim: rep_leafE)
  then show ?case using Leaf.prems(2) by (auto simp: leafNode_tryGet_def leafNode_isEmptyOrNil_def lnOf_def)
next
  case (Ext k p)
  obtain en child b f where n: "n = ExtensionNode en child b" "EnKey en = k" "fuel = Suc f"
    using Ext.prems(2,4) by (cases fuel) (auto elim: rep_extE)
  have t: "t = False" using Ext.prems(1) by (auto simp: canon_ext)
  note k = Ext.prems(1) [unfolded t] and s = Ext.prems(3) [unfolded t]
  have ne: "extensionNode_isEmptyOrNil en child = None"
    using rep_not_empty [OF c Ext.prems(2) k] by (simp add: n)
  show ?case
  proof (cases "take (length k) key = k")
    case False
    then have "tryGet fuel env db n key d = ((Inr None, d), n)" using n ne by (auto simp: extensionNode_tryGet_def Let_def)
    then show ?thesis using Ext.prems(2) ext_mismatch [OF False] by simp
  next
    case True
    note m = ext_match [OF k s True]
    obtain x where x: "resolveIfCollapsed env db n 0 = Inr (ExtensionNode en (Some x) b)" "rep env db p x"
      "rep env db (PExt k p) (ExtensionNode en (Some x) b)"
      using resolve_ext [OF c _ k] Ext.prems(2) n(1) by blast
    have "canon False p" using k by (auto simp: canon_ext)
    then obtain x' d' where x': "tryGet f env db x (drop (length k) key) (d + 1) =
        ((Inr (map_option fst (plookup p (drop (length k) key))), d'), x')" "rep env db p x'" "getHash x' = getHash x"
      using Ext.IH [OF _ x(2) m(2), of f "d + 1"] m(4) Ext.prems(4) n(3) by auto
    have "tryGet fuel env db n key d = ((Inr (map_option fst (plookup (PExt k p) key)), d'), ExtensionNode en (Some x') b)"
      using n ne True m x(1) x'(1) by (simp add: extensionNode_tryGet_def)
    moreover have "rep env db (PExt k p) (ExtensionNode en (Some x') b)" using x(3) x'(2,3) by (simp add: rep_ext)
    ultimately show ?thesis by (auto simp: n(1) getHash_def)
  qed
next
  case (Branch ts)
  obtain bn children b f where n: "n = BranchNode bn children b" "fuel = Suc f"
    using Branch.prems(2,4) by (cases fuel) (auto elim: rep_branchE)
  have t: "t = False" "length ts = 17" using Branch.prems(1) by (auto simp: canon_branch)
  have ne: "branchNode_isEmptyOrNil bn children = None"
    using rep_not_empty [OF c Branch.prems(2,1)] by (simp add: n)
  obtain x xs where key: "key = x # xs" using Branch.prems(3) t(1) by (cases key) auto
  then have x: "x < 17" "subkey (x = 16) xs" using Branch.prems(3) by auto
  obtain children' where ch: "resolveIfCollapsed env db n x = Inr (BranchNode bn children' b)"
    "rep env db (PBranch ts) (BranchNode bn children' b)" "ts ! x = None \<longrightarrow> children' ! x = None"
    "\<forall>p. ts ! x = Some p \<longrightarrow> (\<exists>m. children' ! x = Some m \<and> rep env db p m)"
    using resolve_branch [OF c _ Branch.prems(1) x(1)] Branch.prems(2) n(1) by blast
  have rng: "\<not> childPosOutOfRange x" using x(1) by (simp add: childPosOutOfRange_def)
  show ?case
  proof (cases "ts ! x")
    case None
    then have "tryGet fuel env db n key d = ((Inr None, d), BranchNode bn children' b)"
      using n ne key rng ch by (simp add: branchNode_tryGet_def)
    moreover have "plookup (PBranch ts) key = None" using None t(2) x(1) by (simp add: key plookup_branch at_def)
    ultimately show ?thesis using ch(2) by (simp add: n(1) getHash_def)
  next
    case (Some p)
    then have at: "at ts x = Some p" using t(2) x(1) by (simp add: at_def)
    obtain m where m: "children' ! x = Some m" "rep env db p m" using ch(4) Some by blast
    have "canon (x = 16) p" using Branch.prems(1) at by (auto simp: canon_branch)
    then obtain m' d' where m': "tryGet f env db m xs (d + 1) = ((Inr (map_option fst (plookup p xs)), d'), m')" "rep env db p m'"
      "getHash m' = getHash m"
      using Branch.IH [OF at _ m(2) x(2), of f "d + 1"] Branch.prems(4) n(2) key by auto
    have "tryGet fuel env db n key d =
        ((Inr (map_option fst (plookup (PBranch ts) key)), d'), BranchNode bn (children'[x := Some m']) b)"
      using n ne key rng ch(1) m(1) m'(1) at by (simp add: branchNode_tryGet_def plookup_branch)
    then show ?thesis using rep_branch_upd [OF ch(2) x(1) Some m'(2)] rep_child_hash [OF ch(2) x(1) m(1)] m'(3)
      by (auto simp: n(1) getHash_def)
  qed
qed

text \<open>Loading children, and calls that change nothing, leave the hash of a node alone.\<close>

lemma resolve_base: "resolveIfCollapsed env db n pos = Inr n' \<Longrightarrow> getHash n' = getHash n"
  by (auto simp: resolveIfCollapsed.simps getHash_def thenE_Inr wrapErr_def extensionNode_resolveCollapsed_def
      branchNode_resolveCollapsed_def split: option.splits node.splits if_splits)

lemma insert_same_hash: "nodeInsert f env db n d = (Inr (None, hs), n') \<Longrightarrow> getHash n' = getHash n"
  by (cases "(f, env, db, n, d)" rule: nodeInsert.cases)
     (auto simp: leafNode_insert_def leafNode_insertInSameLn_def extensionNode_insert_def extensionNode_insertInSameEn_def
      extensionNode_insertInNewBn_def branchNode_insert_def branchNode_insertOnNilChild_def branchNode_insertOnExistingChild_def
      Let_def thenE_Inr getHash_def dest!: resolve_base
      split: option.splits if_splits sum.splits node.splits list.splits prod.splits)

lemma delete_same_hash: "nodeDelete f env db n key = (Inr (False, m, hs), n') \<Longrightarrow> getHash n' = getHash n"
  by (cases "(f, env, db, n, key)" rule: nodeDelete.cases)
     (auto simp: leafNode_delete_def extensionNode_delete_def branchNode_delete_def branchNode_deleteFromChild_def
      branchNode_reduce_def Let_def thenE_Inr getHash_def dest!: resolve_base
      split: option.splits if_splits sum.splits node.splits list.splits prod.splits bool.splits)

section \<open>Insertion\<close>

abbreviation dataOf :: "hexkey \<Rightarrow> bytes \<Rightarrow> u8 \<Rightarrow> TrieData" where
  "dataOf key v w \<equiv> \<lparr>Key = key, Value = Some v, Version = w\<rparr>"

text \<open>What an insertion may return: nothing, when the value is there already, or a node for the updated map.\<close>

definition insertOk ::
  "trieEnv \<Rightarrow> trieDB \<Rightarrow> bool \<Rightarrow> ptrie \<Rightarrow> hexkey \<Rightarrow> bytes \<Rightarrow> u8 \<Rightarrow> insertRes \<times> node \<Rightarrow> bool" where
  "insertOk env db t p key v w res \<longleftrightarrow>
     (\<exists>n' w'. res = (Inr (None, []), n') \<and> rep env db p n' \<and> plookup p key = Some (v, w')) \<or>
     (\<exists>n' p' m hs. res = (Inr (Some m, hs), n') \<and> canon t p' \<and> rep env db p' m \<and>
        plookup p' = (plookup p)(key \<mapsto> (v, w)) \<and> (isPBranch p \<longrightarrow> isPBranch p') \<and> isDirty m \<and>
        map_option fst (plookup p key) \<noteq> Some v)"

lemma insertOkI:
  "canon t p' \<Longrightarrow> rep env db p' m \<Longrightarrow> plookup p' = (plookup p)(key \<mapsto> (v, w)) \<Longrightarrow> (isPBranch p \<Longrightarrow> isPBranch p') \<Longrightarrow>
    isDirty m \<Longrightarrow> map_option fst (plookup p key) \<noteq> Some v \<Longrightarrow> insertOk env db t p key v w (Inr (Some m, hs), n')"
  unfolding insertOk_def by blast

lemma insertOk_same: "rep env db p n' \<Longrightarrow> plookup p key = Some (v, w') \<Longrightarrow> insertOk env db t p key v w (Inr (None, []), n')"
  unfolding insertOk_def by blast

text \<open>A branch at which two trees part.\<close>

lemma fork:
  assumes c: "trie_codec env" and xy: "x < 17" "y < 17" "x \<noteq> y" and a: "rep env db a n" "canon (x = 16) a"
    and b: "rep env db b m" "canon (y = 16) b" and k: "\<forall>z\<in>set k. z < 16"
  shows "\<exists>bn1 bn2 children. putNewChild x n (pversion a) newBranchNode = Inr bn1 \<and>
    putNewChild y m (pversion b) bn1 = Inr (bn2, children) \<and>
    (\<exists>ts. rep env db (PBranch ts) (BranchNode bn2 children newBase) \<and> canon False (PBranch ts) \<and>
      plookup (pext k (PBranch ts)) = pre_map k (br_map ((\<lambda>_. Map.empty)(x := plookup a, y := plookup b))))"
proof -
  let ?ts = "(replicate 17 None)[x := Some a, y := Some b]"
  obtain bn1 where bn1: "putNewChild x n (pversion a) newBranchNode = Inr bn1"
    "brep env db ((replicate 17 None)[x := Some a]) bn1"
    using brep_putNewChild [OF brep_new xy(1) a(1)] by blast
  obtain bn2 children where bn2: "putNewChild y m (pversion b) bn1 = Inr (bn2, children)" "brep env db ?ts (bn2, children)"
    using brep_putNewChild [OF bn1(2) xy(2) b(1) refl] by auto
  have at: "at ?ts i = (if i = y then Some b else if i = x then Some a else None)" for i
    using xy by (simp add: at_upd)
  have "canon False (PBranch ?ts)"
    using a(2) b(2) xy by (intro canon.branch childCount_ge2 [of x y]) (auto simp: at split: if_splits)
  moreover have "plookup (PBranch ?ts) = br_map ((\<lambda>_. Map.empty)(x := plookup a, y := plookup b))"
    unfolding plookup_maps by (rule br_map_cong) (use xy(3) in \<open>auto simp: at\<close>)
  moreover have "rep env db (PBranch ?ts) (BranchNode bn2 children newBase)"
    using bn2(2) by (rule brep_rep) (simp_all add: newBase_def)
  ultimately show ?thesis using bn1(1) bn2(1) by (auto simp: plookup_maps)
qed

text \<open>The branch, or an extension with the common part of the keys in front of it.\<close>

lemma fork_result:
  assumes c: "trie_codec env" and r: "rep env db (PBranch ts) m" "canon False (PBranch ts)" "isDirty m"
    and k: "\<forall>z\<in>set k. z < 16"
    and look: "plookup (pext k (PBranch ts)) = (plookup p)(key \<mapsto> (v, w))" and nb: "\<not> isPBranch p"
    and fresh: "plookup p key = None"
  shows "insertOk env db False p key v w
    (if length k = 0 then Inr (Some m, hs) else thenE (newExtensionNode k (Some m)) (\<lambda>newEn. Inr (Some newEn, hs)), n')"
proof (cases "k = []")
  case True
  then show ?thesis using r look nb fresh by (auto intro!: insertOkI simp: pext_def)
next
  case False
  obtain e where e: "newExtensionNode k (Some m) = Inr e" "rep env db (PExt k (PBranch ts)) e" "isDirty e"
    using newExtension_rep [OF c r(1)] by blast
  have "canon False (PExt k (PBranch ts))" using False k r(2) by (auto intro: canon.ext)
  then show ?thesis using False e look nb fresh by (auto intro!: insertOkI simp: pext_def)
qed

lemma insert_leaf:
  assumes c: "trie_codec env" and k: "canon t (PLeaf k u z)" "rep env db (PLeaf k u z) n" and s: "subkey t key" and v: "v \<noteq> []"
  shows "insertOk env db t (PLeaf k u z) key v w (nodeInsert (Suc f) env db n (dataOf key v w))"
proof -
  obtain b where n: "n = LeafNode (lnOf k u z) b" using k(2) by (auto elim: rep_leafE)
  have ne: "leafNode_isEmptyOrNil (lnOf k u z) = None" by (simp add: leafNode_isEmptyOrNil_def lnOf_def)
  show ?thesis
  proof (cases "key = k")
    case True
    show ?thesis
    proof (cases "u = v")
      case same: True
      then have "nodeInsert (Suc f) env db n (dataOf key v w) = (Inr (None, []), n)"
        using True n ne by (simp add: leafNode_insert_def leafNode_insertInSameLn_def lnOf_def Let_def)
      then show ?thesis using k(2) True same by (auto intro: insertOk_same)
    next
      case False
      let ?m = "LeafNode (lnOf k v w) (b\<lparr>dirty := True, hash := None\<rparr>)"
      have "nodeInsert (Suc f) env db n (dataOf key v w) = (Inr (Some ?m, obsolete b), ?m)"
        using False True n ne by (simp add: leafNode_insert_def leafNode_insertInSameLn_def lnOf_def Let_def)
      moreover have "rep env db (PLeaf k v w) ?m" "canon t (PLeaf k v w)" using k(1) v by (auto intro: rep.leaf)
      ultimately show ?thesis using True False by (auto intro!: insertOkI simp: isDirty_def)
    qed
  next
    case False
    obtain p x y k' key' where sp: "key = p @ x # key'" "k = p @ y # k'" "x \<noteq> y" "prefixLen key k = length p" "t = False"
      "\<forall>z\<in>set p. z < 16" "x < 17" "y < 17" "subkey (x = 16) key'" "subkey (y = 16) k'"
      using split_keys [OF s _ False] k(1) by simp blast
    have cn: "canon (y = 16) (PLeaf k' u z)" "canon (x = 16) (PLeaf key' v w)" using k(1) sp v by simp_all
    obtain bn1 bn2 children ts where fk:
      "putNewChild y (newLeafNode (dataOf k' u z)) z newBranchNode = Inr bn1"
      "putNewChild x (newLeafNode (dataOf key' v w)) w bn1 = Inr (bn2, children)"
      "rep env db (PBranch ts) (BranchNode bn2 children newBase)" "canon False (PBranch ts)"
      "plookup (pext p (PBranch ts)) = pre_map p (br_map ((\<lambda>_. Map.empty)(y := plookup (PLeaf k' u z), x := plookup (PLeaf key' v w))))"
      using fork [OF c sp(8,7) sp(3) [symmetric] newLeaf_rep cn(1) newLeaf_rep cn(2) sp(6)] unfolding pversion.simps by blast
    have look: "plookup (pext p (PBranch ts)) = (plookup (PLeaf k u z))(key \<mapsto> (v, w))"
      unfolding fk(5) unfolding sp(1,2) plookup_maps pre_map_single pre_map_upd single_br_map br_map_upd
      using sp(3) by (auto intro!: arg_cong [where f = "pre_map p"] br_map_cong)
    have ver: "leafNode_getVersion (lnOf k u z) = Inr z" using rep_getVersion [OF c k(2)] by (simp add: n)
    have new: "leafNode_insertInNewBn (lnOf k u z) (dataOf key v w) (length p) = Inr (BranchNode bn2 children newBase)"
      using fk(1,2) ver sp(7,8) by (simp add: leafNode_insertInNewBn_def sp(1,2) childPosOutOfRange_def)
    have tk: "take (length p) k = p" using sp(2) by simp
    have run: "nodeInsert (Suc f) env db n (dataOf key v w) =
        (if length p = 0 then Inr (Some (BranchNode bn2 children newBase), obsolete b)
         else thenE (newExtensionNode p (Some (BranchNode bn2 children newBase))) (\<lambda>newEn. Inr (Some newEn, obsolete b)), n)"
      using False n ne new sp(4) tk by (simp add: leafNode_insert_def Let_def)
    show ?thesis unfolding run sp(5)
      by (rule fork_result [OF c fk(3,4) _ sp(6) look]) (use False in \<open>simp_all add: isDirty_def newBase_def\<close>)
  qed
qed

text \<open>The old child of an extension that is split: itself, or behind an extension with the rest of the key.\<close>

lemma insertOldChild:
  assumes c: "trie_codec env" and r: "rep env db p x" and cn: "canon False p" "isPBranch p" "\<forall>z\<in>set k'. z < 16"
  shows "\<exists>m. rep env db (pext k' p) m \<and> canon False (pext k' p) \<and> pversion (pext k' p) = pversion p \<and>
    (EnKey en = q @ y # k' \<longrightarrow>
       extensionNode_insertOldChildInBn en x y (length q) bn = putNewChild y m (pversion p) bn)"
proof (cases "k' = []")
  case True
  then show ?thesis using r cn rep_getVersion [OF c r]
    by (intro exI [of _ x]) (auto simp: pext_def extensionNode_insertOldChildInBn_def)
next
  case False
  obtain e where e: "newExtensionNode k' (Some x) = Inr e" "rep env db (PExt k' p) e" using newExtension_rep [OF c r] by blast
  then show ?thesis using False cn rep_getVersion [OF c r]
    by (intro exI [of _ e]) (auto simp: pext_def extensionNode_insertOldChildInBn_def intro: canon.ext)
qed

lemma insert_ext:
  assumes c: "trie_codec env" and cn: "canon t (PExt k p)" and r: "rep env db (PExt k p) n" and s: "subkey t key"
    and v: "v \<noteq> []" and len: "length key < Suc f"
    and IH: "\<And>x key. rep env db p x \<Longrightarrow> subkey False key \<Longrightarrow> length key < f \<Longrightarrow>
      insertOk env db False p key v w (nodeInsert f env db x (dataOf key v w))"
  shows "insertOk env db t (PExt k p) key v w (nodeInsert (Suc f) env db n (dataOf key v w))"
proof -
  have t: "t = False" using cn by (auto simp: canon_ext)
  note cn = cn [unfolded t] and s = s [unfolded t]
  have k: "k \<noteq> []" "\<forall>z\<in>set k. z < 16" "isPBranch p" "canon False p" using cn by (auto simp: canon_ext)
  obtain en child b where n: "n = ExtensionNode en child b" "EnKey en = k" using r by (auto elim: rep_extE)
  have ne: "extensionNode_isEmptyOrNil en child = None" using rep_not_empty [OF c r cn] by (simp add: n)
  obtain x where x: "resolveIfCollapsed env db n 0 = Inr (ExtensionNode en (Some x) b)" "rep env db p x"
    "rep env db (PExt k p) (ExtensionNode en (Some x) b)"
    using resolve_ext [OF c _ cn] r n(1) by blast
  show ?thesis
  proof (cases "take (length k) key = k")
    case True
    note m = ext_match [OF cn s True]
    let ?rest = "drop (length k) key"
    have key: "key = k @ ?rest" using True by (metis append_take_drop_id)
    have run: "nodeInsert (Suc f) env db n (dataOf key v w) =
        extensionNode_insertInSameEn (nodeInsert f env db) en x b (dataOf key v w) (length k)"
      using n ne x(1) True prefixLen_whole [of key k] by (simp add: extensionNode_insert_def Let_def)
    have "insertOk env db False p ?rest v w (nodeInsert f env db x (dataOf ?rest v w))"
      by (rule IH [OF x(2) m(2)]) (use m(4) len in simp)
    then consider (same) x' w' where "nodeInsert f env db x (dataOf ?rest v w) = (Inr (None, []), x')" "rep env db p x'"
        "plookup p ?rest = Some (v, w')"
      | (new) x' p' y hs where "nodeInsert f env db x (dataOf ?rest v w) = (Inr (Some y, hs), x')" "canon False p'"
        "rep env db p' y" "plookup p' = (plookup p)(?rest \<mapsto> (v, w))" "isPBranch p'" "map_option fst (plookup p ?rest) \<noteq> Some v"
      using k(3) unfolding insertOk_def by blast
    then show ?thesis
    proof cases
      case same
      have "rep env db (PExt k p) (ExtensionNode en (Some x') b)" using x(3) same(2) insert_same_hash [OF same(1)] by (simp add: rep_ext)
      then show ?thesis unfolding run t using same m(5)
        by (auto simp: extensionNode_insertInSameEn_def intro: insertOk_same)
    next
      case new
      obtain e where e: "newExtensionNode k (Some y) = Inr e" "rep env db (PExt k p') e" "isDirty e"
        using newExtension_rep [OF c new(3)] by blast
      have "plookup (PExt k p') = (plookup (PExt k p))(key \<mapsto> (v, w))"
        unfolding plookup_maps new(4) using pre_map_upd [of k "plookup p" ?rest] key by metis
      moreover have "canon False (PExt k p')" using k new by (auto intro: canon.ext)
      moreover have "map_option fst (plookup (PExt k p) key) \<noteq> Some v" using new(6) m(5) by simp
      ultimately show ?thesis unfolding run t using new(1) e n(2)
        by (auto simp: extensionNode_insertInSameEn_def intro!: insertOkI)
    qed
  next
    case False
    obtain q x0 y0 k' key' where sp: "k = q @ x0 # k'" "key = q @ y0 # key'" "x0 \<noteq> y0" "prefixLen key k = length q"
      "y0 < 17" "subkey (y0 = 16) key'"
      using split_ext_key [OF k(2) _ False] s by auto
    have q: "\<forall>z\<in>set q. z < 16" "x0 < 16" "\<forall>z\<in>set k'. z < 16" using k(2) sp(1) by auto
    obtain o' where o': "rep env db (pext k' p) o'" "canon False (pext k' p)" "pversion (pext k' p) = pversion p"
      "extensionNode_insertOldChildInBn en x x0 (length q) newBranchNode = putNewChild x0 o' (pversion p) newBranchNode"
      using insertOldChild [OF c x(2) k(4,3) q(3), where en = en and q = q and y = x0 and bn = newBranchNode] n(2) sp(1) by blast
    have cl: "canon (y0 = 16) (PLeaf key' v w)" and co: "canon (x0 = 16) (pext k' p)" and x0: "x0 < 17"
      using sp(6) v o'(2) q(2) by auto
    obtain bn1 bn2 children ts where fk:
      "putNewChild x0 o' (pversion p) newBranchNode = Inr bn1"
      "putNewChild y0 (newLeafNode (dataOf key' v w)) w bn1 = Inr (bn2, children)"
      "rep env db (PBranch ts) (BranchNode bn2 children newBase)" "canon False (PBranch ts)"
      "plookup (pext q (PBranch ts)) = pre_map q (br_map ((\<lambda>_. Map.empty)(x0 := plookup (pext k' p), y0 := plookup (PLeaf key' v w))))"
      using fork [OF c x0 sp(5,3) o'(1) co newLeaf_rep cl q(1)] unfolding pversion.simps o'(3) by blast
    have look: "plookup (pext q (PBranch ts)) = (plookup (PExt k p))(key \<mapsto> (v, w))"
      unfolding fk(5) unfolding sp(1,2) plookup_maps pre_map_append pre_map_upd pre_map_Cons br_map_upd
      using sp(3) by (auto intro!: arg_cong [where f = "pre_map q"] br_map_cong)
    have tq: "take (length q) k = q" "length q < length k" "length q < length key" "k ! length q = x0" "key ! length q = y0"
      "drop (Suc (length q)) key = key'" using sp(1,2) by auto
    have new: "extensionNode_insertInNewBn en x b (dataOf key v w) (length q) =
        (if length q = 0 then Inr (Some (BranchNode bn2 children newBase), obsolete b)
         else thenE (newExtensionNode q (Some (BranchNode bn2 children newBase))) (\<lambda>newEn. Inr (Some newEn, obsolete b)))"
      using fk(1,2) o'(4) x0 sp(5) tq n(2)
      by (simp add: extensionNode_insertInNewBn_def extensionNode_insertNewChildInBn_def childPosOutOfRange_def)
    have run: "nodeInsert (Suc f) env db n (dataOf key v w) =
        (extensionNode_insertInNewBn en x b (dataOf key v w) (length q), ExtensionNode en (Some x) b)"
      using n ne x(1) False sp(4) prefixLen_whole [of key k] tq(2) by (simp add: extensionNode_insert_def Let_def)
    show ?thesis unfolding run new t
      by (rule fork_result [OF c fk(3,4) _ q(1) look]) (use ext_mismatch [OF False] in \<open>simp_all add: isDirty_def newBase_def\<close>)
  qed
qed

lemma insert_branch:
  assumes c: "trie_codec env" and cn: "canon t (PBranch ts)" and r: "rep env db (PBranch ts) n" and s: "subkey t key"
    and v: "v \<noteq> []" and len: "length key < Suc f"
    and IH: "\<And>i p x key. at ts i = Some p \<Longrightarrow> rep env db p x \<Longrightarrow> subkey (i = 16) key \<Longrightarrow> length key < f \<Longrightarrow>
      insertOk env db (i = 16) p key v w (nodeInsert f env db x (dataOf key v w))"
  shows "insertOk env db t (PBranch ts) key v w (nodeInsert (Suc f) env db n (dataOf key v w))"
proof -
  have t: "t = False" "length ts = 17" and cc: "\<And>i p. at ts i = Some p \<Longrightarrow> canon (i = 16) p" and two: "2 \<le> childCount ts"
    using cn by (auto simp: canon_branch)
  obtain bn children0 b where n: "n = BranchNode bn children0 b" using r by (auto elim: rep_branchE)
  have ne: "branchNode_isEmptyOrNil bn children0 = None" using rep_not_empty [OF c r cn] by (simp add: n)
  obtain x xs where key: "key = x # xs" using s t(1) by (cases key) auto
  then have x: "x < 17" "subkey (x = 16) xs" "\<not> childPosOutOfRange x" using s by (auto simp: childPosOutOfRange_def)
  obtain children where ch: "resolveIfCollapsed env db n x = Inr (BranchNode bn children b)"
    "rep env db (PBranch ts) (BranchNode bn children b)" "ts ! x = None \<longrightarrow> children ! x = None"
    "\<forall>p. ts ! x = Some p \<longrightarrow> (\<exists>m. children ! x = Some m \<and> rep env db p m)"
    using resolve_branch [OF c _ cn x(1)] r n by blast
  have at: "at ts x = ts ! x" using t(2) x(1) by (simp add: at_def)
  text \<open>The branch with a new child at the position of the key.\<close>
  have upd: "insertOk env db False (PBranch ts) key v w
      (case branchNode_modifyNodeAfterInsert hs bn ch' b x m of
         Inl e \<Rightarrow> (Inl e, BranchNode bn ch' b) | Inr (self, hs) \<Rightarrow> (Inr (Some self, hs), self))"
    if p': "canon (x = 16) p'" "rep env db p' m" and look: "plookup p' = (childMap (ts ! x))(xs \<mapsto> (v, w))"
      and fresh: "map_option fst (childMap (ts ! x) xs) \<noteq> Some v"
      and b: "ch'[x := Some m] = children[x := Some m]" for p' m hs ch'
  proof -
    let ?ts = "ts[x := Some p']" and ?b = "b\<lparr>dirty := True, hash := None\<rparr>"
    let ?m = "BranchNode (bn\<lparr>ChildrenVersion := pversions ?ts\<rparr>) (children[x := Some m]) ?b"
    note put = brep_put [OF rep_brep [OF ch(2)] x(1) p'(2)]
    have "branchNode_modifyNodeAfterInsert hs bn ch' b x m = Inr (?m, hs @ obsolete b)"
      using put rep_getVersion [OF c p'(2)] b by (simp add: branchNode_modifyNodeAfterInsert_def)
    moreover have "rep env db (PBranch ?ts) ?m" using put by (intro brep_rep) simp_all
    moreover have "canon False (PBranch ?ts)"
    proof (rule canon.branch)
      obtain i j p q where ij: "i \<noteq> j" "at ts i = Some p" "at ts j = Some q" using two by (rule childCount_two)
      show "2 \<le> childCount ?ts" using ij x(1) t(2) by (intro childCount_ge2 [of i j]) (auto simp: at_upd)
    qed (use t(2) cc p'(1) x(1) in \<open>auto simp: at_upd split: if_splits\<close>)
    moreover have "plookup (PBranch ?ts) = (plookup (PBranch ts))(key \<mapsto> (v, w))"
      unfolding plookup_maps(3) key br_map_upd
      using look at x(1) t(2) by (intro br_map_cong) (simp add: at_upd)
    moreover have "map_option fst (plookup (PBranch ts) key) \<noteq> Some v"
      using fresh at by (cases "ts ! x") (auto simp: key plookup_branch)
    ultimately show ?thesis by (auto intro!: insertOkI simp: isDirty_def)
  qed
  show ?thesis
  proof (cases "ts ! x")
    case None
    have "insertOk env db False (PBranch ts) key v w (branchNode_insertOnNilChild bn children b (dataOf xs v w) x)"
      unfolding branchNode_insertOnNilChild_def
      by (rule upd [OF _ newLeaf_rep]) (use x(2) v None in \<open>simp_all add: plookup_maps\<close>)
    then show ?thesis using n ne key x(3) ch(1,3) None t(1) by (simp add: branchNode_insert_def Let_def)
  next
    case (Some p)
    then obtain m where m: "children ! x = Some m" "rep env db p m" using ch(4) by blast
    have run: "nodeInsert (Suc f) env db n (dataOf key v w) =
        branchNode_insertOnExistingChild (nodeInsert f env db) bn children b m (dataOf xs v w) x"
      using n ne key x(3) ch(1) m(1) by (simp add: branchNode_insert_def Let_def)
    have "insertOk env db (x = 16) p xs v w (nodeInsert f env db m (dataOf xs v w))"
      by (rule IH) (use Some at m(2) x(2) len key in auto)
    then consider (same) m' w' where "nodeInsert f env db m (dataOf xs v w) = (Inr (None, []), m')" "rep env db p m'"
        "plookup p xs = Some (v, w')"
      | (new) m' p' y hs where "nodeInsert f env db m (dataOf xs v w) = (Inr (Some y, hs), m')" "canon (x = 16) p'"
        "rep env db p' y" "plookup p' = (plookup p)(xs \<mapsto> (v, w))" "map_option fst (plookup p xs) \<noteq> Some v"
      unfolding insertOk_def by blast
    then show ?thesis
    proof cases
      case same
      then show ?thesis unfolding run t(1)
        using rep_branch_upd [OF ch(2) x(1) Some same(2)] rep_child_hash [OF ch(2) x(1) m(1)] insert_same_hash [OF same(1)] Some at
        by (auto simp: branchNode_insertOnExistingChild_def key plookup_branch intro!: insertOk_same)
    next
      case new
      have run': "branchNode_insertOnExistingChild (nodeInsert f env db) bn children b m (dataOf xs v w) x =
          (case branchNode_modifyNodeAfterInsert hs bn (children[x := Some m']) b x y of
             Inl e \<Rightarrow> (Inl e, BranchNode bn (children[x := Some m']) b) | Inr (self, hs) \<Rightarrow> (Inr (Some self, hs), self))"
        using new(1) by (simp add: branchNode_insertOnExistingChild_def Let_def)
      show ?thesis unfolding run run' t(1) by (rule upd [OF new(2,3)]) (use new(4,5) Some in simp_all)
    qed
  qed
qed

lemma insert_rep:
  assumes c: "trie_codec env" and v: "v \<noteq> []"
  shows "canon t p \<Longrightarrow> rep env db p n \<Longrightarrow> subkey t key \<Longrightarrow> length key < fuel \<Longrightarrow>
    insertOk env db t p key v w (nodeInsert fuel env db n (dataOf key v w))"
proof (induction p arbitrary: t n key fuel rule: ptrie_induct)
  case (Leaf k u z)
  then obtain f where "fuel = Suc f" by (cases fuel) auto
  then show ?case using insert_leaf [OF c Leaf.prems(1,2,3) v] by simp
next
  case (Ext k p)
  then obtain f where f: "fuel = Suc f" by (cases fuel) auto
  have "canon False p" using Ext.prems(1) by (auto simp: canon_ext)
  then show ?case unfolding f using insert_ext [OF c Ext.prems(1-3) v] Ext.prems(4) Ext.IH f by blast
next
  case (Branch ts)
  then obtain f where f: "fuel = Suc f" by (cases fuel) auto
  have "\<And>i p. at ts i = Some p \<Longrightarrow> canon (i = 16) p" using Branch.prems(1) by (auto simp: canon_branch)
  then show ?case unfolding f using insert_branch [OF c Branch.prems(1-3) v] Branch.prems(4) Branch.IH f by blast
qed

section \<open>Deletion\<close>

text \<open>The node that extends the path to a tree: the keys of leaves and extensions grow, a branch gets an extension.\<close>

fun pprefix :: "hexkey \<Rightarrow> ptrie \<Rightarrow> ptrie" where
  "pprefix k (PLeaf k' v w) = PLeaf (k @ k') v w"
| "pprefix k (PExt k' c) = PExt (k @ k') c"
| "pprefix k (PBranch ts) = PExt k (PBranch ts)"

lemma plookup_pprefix: "plookup (pprefix k p) = pre_map k (plookup p)"
  by (cases p) (simp_all add: plookup_maps pre_map_append pre_map_single)

lemma canon_pprefix:
  assumes "canon False p" and "k \<noteq> []" and "\<forall>x\<in>set k. x < 16"
  shows "canon False (pprefix k p)"
  using assms by (cases p) (auto simp: canon_ext validkey_append intro: canon.ext)

lemma canon_pprefix1:
  assumes "canon (x = 16) p" and "x < 17"
  shows "canon False (pprefix [x] p)"
proof (cases "x = 16")
  case True
  then show ?thesis using assms by (cases p) (auto simp: canon_ext canon_branch)
next
  case False
  then show ?thesis using assms canon_pprefix [of p "[x]"] by simp
qed

text \<open>Nodes that deletion returns keep the child of an extension in memory.\<close>

definition childInMemory :: "node \<Rightarrow> bool" where
  "childInMemory n \<longleftrightarrow> (\<forall>en b. n \<noteq> ExtensionNode en None b)"

lemma newExtension_rep':
  assumes "trie_codec env" and "rep env db c n"
  shows "\<exists>m. newExtensionNode k (Some n) = Inr m \<and> rep env db (PExt k c) m \<and> isDirty m \<and> childInMemory m"
  using newExtension_rep [OF assms, of k] by (auto simp: newExtensionNode_def childInMemory_def thenE_Inr)

lemma reduce_rep:
  assumes c: "trie_codec env" and r: "rep env db p n" and m: "childInMemory n"
  shows "\<exists>n' h. reduceNode n x = Inr (n', h) \<and> rep env db (pprefix [x] p) n' \<and> isDirty n' \<and> childInMemory n'"
  using r
proof (cases rule: rep.cases)
  case (leaf k v w b)
  have "leafNode_getVersion (lnOf k v w) = Inr w" using rep_getVersion [OF c r] leaf by simp
  then show ?thesis using leaf newLeaf_rep [of env db "x # k" v w]
    by (auto simp: leafNode_reduceNode_def newLeafNode_def isDirty_def newBase_def childInMemory_def)
next
  case (ext k d b en child)
  then obtain y where y: "child = Some y" using m by (cases child) (auto simp: childInMemory_def)
  then show ?thesis using ext newExtension_rep' [OF c, of db d y "x # k"] by (auto simp: extensionNode_reduceNode_def)
next
  case (branch ts b children bn)
  then show ?thesis using newExtension_rep' [OF c r, of "[x]"] by (auto simp: branchNode_reduceNode_def)
qed

lemma merge_rep:
  assumes c: "trie_codec env" and r: "rep env db p n" and m: "childInMemory n"
  shows "\<exists>n'. extensionNode_mergeChild en (Some n) = Inr (Some n') \<and> rep env db (pprefix (EnKey en) p) n' \<and> isDirty n' \<and> childInMemory n'"
  using r
proof (cases rule: rep.cases)
  case (leaf k v w b)
  then show ?thesis using newLeaf_rep [of env db "EnKey en @ k" v w]
    by (auto simp: extensionNode_mergeChild_def newLeafNode_def isDirty_def newBase_def childInMemory_def)
next
  case (ext k d b en' child)
  then obtain y where y: "child = Some y" using m by (cases child) (auto simp: childInMemory_def)
  then show ?thesis using ext newExtension_rep' [OF c, of db d y "EnKey en @ k"] by (auto simp: extensionNode_mergeChild_def)
next
  case (branch ts b children bn)
  then show ?thesis using newExtension_rep' [OF c r, of "EnKey en"] by (auto simp: extensionNode_mergeChild_def)
qed

text \<open>A child that is about to be reduced is loaded, and its own child too.\<close>

lemma resolve_any:
  assumes c: "trie_codec env" and r: "rep env db p n" and k: "canon t p" and pos: "pos < 17"
  shows "\<exists>n'. resolveIfCollapsed env db n pos = Inr n' \<and> rep env db p n' \<and> childInMemory n'"
  using r
proof (cases rule: rep.cases)
  case (leaf k v w b)
  then show ?thesis using r rep_not_empty [OF c r k] by (auto simp: resolveIfCollapsed.simps childInMemory_def)
next
  case (ext k d b en child)
  then show ?thesis using resolve_ext [OF c, of db k d en child b t pos] r k by (auto simp: childInMemory_def)
next
  case (branch ts b children bn)
  then show ?thesis using resolve_branch [OF c _ _ pos, of db ts bn children b t] r k by (auto simp: childInMemory_def)
qed

definition deleteOk :: "trieEnv \<Rightarrow> trieDB \<Rightarrow> bool \<Rightarrow> ptrie \<Rightarrow> hexkey \<Rightarrow> deleteRes \<times> node \<Rightarrow> bool" where
  "deleteOk env db t p key res \<longleftrightarrow>
     (\<exists>n'. res = (Inr (False, Some n', []), n') \<and> rep env db p n' \<and> plookup p key = None) \<or>
     (\<exists>n' hs. res = (Inr (True, None, hs), n') \<and> (plookup p)(key := None) = Map.empty) \<or>
     (\<exists>n' p' m hs. res = (Inr (True, Some m, hs), n') \<and> canon t p' \<and> rep env db p' m \<and>
        plookup p' = (plookup p)(key := None) \<and> isDirty m \<and> childInMemory m)"

lemma deleteOk_cases [consumes 1, case_names absent gone changed]:
  assumes "deleteOk env db t p key res"
  obtains n' where "res = (Inr (False, Some n', []), n')" "rep env db p n'" "plookup p key = None"
  | n' hs where "res = (Inr (True, None, hs), n')" "(plookup p)(key := None) = Map.empty"
  | n' p' m hs where "res = (Inr (True, Some m, hs), n')" "canon t p'" "rep env db p' m"
      "plookup p' = (plookup p)(key := None)" "isDirty m" "childInMemory m"
  using assms unfolding deleteOk_def by blast

lemma deleteOk_absent: "rep env db p n' \<Longrightarrow> plookup p key = None \<Longrightarrow> deleteOk env db t p key (Inr (False, Some n', []), n')"
  unfolding deleteOk_def by blast

lemma deleteOkI:
  "canon t p' \<Longrightarrow> rep env db p' m \<Longrightarrow> plookup p' = (plookup p)(key := None) \<Longrightarrow> isDirty m \<Longrightarrow> childInMemory m \<Longrightarrow>
    deleteOk env db t p key (Inr (True, Some m, hs), n')"
  unfolding deleteOk_def by blast

lemma delete_leaf:
  assumes "rep env db (PLeaf k u z) n"
  shows "deleteOk env db t (PLeaf k u z) key (nodeDelete (Suc f) env db n key)"
proof -
  obtain b where n: "n = LeafNode (lnOf k u z) b" using assms by (auto elim: rep_leafE)
  show ?thesis
    using assms by (cases "key = k") (auto simp: n leafNode_delete_def Let_def deleteOk_def)
qed

text \<open>A branch always has a key that a deletion does not touch.\<close>

lemma branch_not_single:
  assumes "canon False p" and "isPBranch p"
  shows "(plookup p)(key := None) \<noteq> Map.empty"
proof -
  obtain x y u u' where "x \<noteq> y" "plookup p (x # u) \<noteq> None" "plookup p (y # u') \<noteq> None" using assms by (rule branch_two_heads)
  then show ?thesis by (auto simp: fun_eq_iff) (metis list.inject option.distinct(1))
qed

lemma delete_ext:
  assumes c: "trie_codec env" and cn: "canon t (PExt k p)" and r: "rep env db (PExt k p) n" and s: "subkey t key"
    and len: "length key < Suc f"
    and IH: "\<And>x key. rep env db p x \<Longrightarrow> subkey False key \<Longrightarrow> length key < f \<Longrightarrow>
      deleteOk env db False p key (nodeDelete f env db x key)"
  shows "deleteOk env db t (PExt k p) key (nodeDelete (Suc f) env db n key)"
proof -
  have t: "t = False" using cn by (auto simp: canon_ext)
  note cn = cn [unfolded t] and s = s [unfolded t]
  have k: "k \<noteq> []" "\<forall>z\<in>set k. z < 16" "isPBranch p" "canon False p" using cn by (auto simp: canon_ext)
  obtain en child b where n: "n = ExtensionNode en child b" "EnKey en = k" using r by (auto elim: rep_extE)
  have ne: "extensionNode_isEmptyOrNil en child = None" using rep_not_empty [OF c r cn] by (simp add: n)
  have key: "key \<noteq> []" using s by auto
  show ?thesis
  proof (cases "take (length k) key = k")
    case False
    then have "prefixLen key k < length k" using prefixLen_whole [of key k] prefixLen_le [of key k] by simp
    then have "nodeDelete (Suc f) env db n key = (Inr (False, Some n, []), n)"
      using n ne key by (simp add: extensionNode_delete_def Let_def)
    then show ?thesis using r ext_mismatch [OF False] by (simp add: deleteOk_absent)
  next
    case True
    note m = ext_match [OF cn s True]
    let ?rest = "drop (length k) key"
    have keyeq: "key = k @ ?rest" using True by (metis append_take_drop_id)
    obtain x where x: "resolveIfCollapsed env db n 0 = Inr (ExtensionNode en (Some x) b)" "rep env db p x"
      "rep env db (PExt k p) (ExtensionNode en (Some x) b)"
      using resolve_ext [OF c _ cn] r n(1) by blast
    have "\<not> prefixLen key k < length k" using True prefixLen_whole [of key k] by simp
    then have run: "nodeDelete (Suc f) env db n key =
        (let (r, c) = nodeDelete f env db x ?rest; self = ExtensionNode en (Some c) b in
         case r of
           Inl e \<Rightarrow> (Inl e, self)
         | Inr (False, _, _) \<Rightarrow> (Inr (False, Some self, []), self)
         | Inr (True, newNode, oldHashes) \<Rightarrow>
             (thenE (extensionNode_mergeChild en newNode) (\<lambda>n. Inr (True, n, oldHashes @ obsolete b)), self))"
      using n ne key x(1) by (simp add: extensionNode_delete_def Let_def)
    have "deleteOk env db False p ?rest (nodeDelete f env db x ?rest)"
      by (rule IH [OF x(2) m(2)]) (use m(4) len in simp)
    then show ?thesis
    proof (cases rule: deleteOk_cases)
      case (absent x')
      have "rep env db (PExt k p) (ExtensionNode en (Some x') b)" using x(3) absent(2) delete_same_hash [OF absent(1)] by (simp add: rep_ext)
      then show ?thesis unfolding run using absent m(5) by (simp add: deleteOk_absent Let_def)
    next
      case (gone x' hs)
      then show ?thesis using branch_not_single [OF k(4,3)] by simp
    next
      case (changed x' p' y hs)
      obtain e where e: "extensionNode_mergeChild en (Some y) = Inr (Some e)" "rep env db (pprefix k p') e" "isDirty e" "childInMemory e"
        using merge_rep [OF c changed(3,6), of en] n(2) by auto
      have "plookup (pprefix k p') = (plookup (PExt k p))(key := None)"
        unfolding plookup_pprefix changed(4) plookup_maps using pre_map_upd [of k "plookup p" ?rest None] keyeq by metis
      moreover have "canon False (pprefix k p')" by (rule canon_pprefix [OF changed(2) k(1,2)])
      ultimately show ?thesis unfolding run t using changed(1) e by (auto intro!: deleteOkI)
    qed
  qed
qed

text \<open>A branch after one of its children changed: reduced to the child that is left, or the branch itself.\<close>

lemma plookup_only:
  assumes "length ts = 17" and "pos < 17" and "\<And>i. i \<noteq> pos \<Longrightarrow> at ts i = None" and "at ts pos = Some p"
  shows "plookup (PBranch ts) = pre_map [pos] (plookup p)"
  unfolding plookup_maps(3) pre_map_Cons
  using assms(3,4) by (intro br_map_cong) simp

lemma childCount_one:
  assumes "childCount ts = 1" and "at ts pos \<noteq> None" and "i \<noteq> pos"
  shows "at ts i = None"
  using childCount_ge2 [OF assms(3)] assms(1,2) by fastforce

lemma childCount_all:
  assumes "childCount ts \<noteq> 1" and "at ts i \<noteq> None"
  shows "2 \<le> childCount ts"
proof -
  have "Some (the (at ts i)) \<in> set ts" using assms(2) by (intro at_in_set [of ts i]) simp
  then have "childCount ts \<noteq> 0" by (auto simp: childCount_def filter_empty_conv)
  then show ?thesis using assms(1) by simp
qed

lemma delete_after:
  assumes c: "trie_codec env" and b: "brep env db ts (bn, children)"
    and cc: "\<And>i p. at ts i = Some p \<Longrightarrow> canon (i = 16) p" and one: "at ts i \<noteq> None" and h: "hash bs = None"
    and look: "plookup (PBranch ts) = (plookup p)(key := None)"
  shows "deleteOk env db False p key
    (case getChildPosition bn children of
       Inl e \<Rightarrow> (Inl e, BranchNode bn children bs)
     | Inr (numChildren, pos) \<Rightarrow>
         if numChildren = 1 then branchNode_reduce env db (BranchNode bn children bs) pos hs
         else let self = BranchNode bn children (bs\<lparr>dirty := True\<rparr>) in (Inr (True, Some self, hs), self))"
proof -
  have len: "length ts = 17" using b by (simp add: brep_def)
  obtain q where q: "getChildPosition bn children = Inr (childCount ts, q)" "childCount ts \<noteq> 0 \<longrightarrow> q < 17 \<and> ts ! q \<noteq> None"
    using childPosition [OF c b] by blast
  show ?thesis
  proof (cases "childCount ts = 1")
    case True
    then obtain r where r: "q < 17" "ts ! q = Some r" "at ts q = Some r" using q(2) len by (auto simp: at_def)
    have cr: "canon (q = 16) r" by (rule cc [OF r(3)])
    obtain n where n: "resolveIfCollapsed env db (BranchNode bn children bs) q = Inr (BranchNode bn (children[q := Some n]) bs)"
      "rep env db r n" using resolve_brep [OF c b r(1,2) cr] by blast
    obtain n' where n': "resolveIfCollapsed env db n q = Inr n'" "rep env db r n'" "childInMemory n'"
      using resolve_any [OF c n(2) cr r(1)] by blast
    obtain m nc where m: "reduceNode n' q = Inr (m, nc)" "rep env db (pprefix [q] r) m" "isDirty m" "childInMemory m"
      using reduce_rep [OF c n'(2,3)] by blast
    have "at ts i = None" if "i \<noteq> q" for i using childCount_one [OF True _ that] r(3) by simp
    from plookup_only [OF len r(1) this r(3)] have "plookup (pprefix [q] r) = (plookup p)(key := None)"
      using look by (simp add: plookup_pprefix)
    moreover have "canon False (pprefix [q] r)" by (rule canon_pprefix1 [OF cr r(1)])
    moreover have "children[q := Some n] ! q = Some n" using b r(1) by (simp add: brep_def)
    ultimately show ?thesis using q(1) True n(1) n'(1) m by (auto simp: branchNode_reduce_def intro!: deleteOkI)
  next
    case False
    have "rep env db (PBranch ts) (BranchNode bn children (bs\<lparr>dirty := True\<rparr>))" using b h by (intro brep_rep) simp_all
    moreover have "canon False (PBranch ts)" using len childCount_all [OF False one] cc by (intro canon.branch) auto
    ultimately show ?thesis using q(1) False look by (auto simp: isDirty_def childInMemory_def Let_def intro!: deleteOkI)
  qed
qed

lemma delete_branch:
  assumes c: "trie_codec env" and cn: "canon t (PBranch ts)" and r: "rep env db (PBranch ts) n" and s: "subkey t key"
    and len: "length key < Suc f"
    and IH: "\<And>i p x key. at ts i = Some p \<Longrightarrow> rep env db p x \<Longrightarrow> subkey (i = 16) key \<Longrightarrow> length key < f \<Longrightarrow>
      deleteOk env db (i = 16) p key (nodeDelete f env db x key)"
  shows "deleteOk env db t (PBranch ts) key (nodeDelete (Suc f) env db n key)"
proof -
  have t: "t = False" "length ts = 17" and cc: "\<And>i p. at ts i = Some p \<Longrightarrow> canon (i = 16) p" and two: "2 \<le> childCount ts"
    using cn by (auto simp: canon_branch)
  obtain bn children0 b where n: "n = BranchNode bn children0 b" using r by (auto elim: rep_branchE)
  have ne: "branchNode_isEmptyOrNil bn children0 = None" using rep_not_empty [OF c r cn] by (simp add: n)
  obtain x xs where key: "key = x # xs" using s t(1) by (cases key) auto
  then have x: "x < 17" "subkey (x = 16) xs" "\<not> childPosOutOfRange x" using s by (auto simp: childPosOutOfRange_def)
  obtain children where ch: "resolveIfCollapsed env db n x = Inr (BranchNode bn children b)"
    "rep env db (PBranch ts) (BranchNode bn children b)" "ts ! x = None \<longrightarrow> children ! x = None"
    "\<forall>p. ts ! x = Some p \<longrightarrow> (\<exists>m. children ! x = Some m \<and> rep env db p m)"
    using resolve_branch [OF c _ cn x(1)] r n by blast
  have at: "at ts x = ts ! x" using t(2) x(1) by (simp add: at_def)
  obtain i where i: "i \<noteq> x" "at ts i \<noteq> None" using two by (metis childCount_two option.distinct(1))
  have other: "at (ts[x := o']) i \<noteq> None" for o' using i x(1) t(2) by (simp add: at_upd)
  have look: "plookup (PBranch (ts[x := o'])) = (plookup (PBranch ts))(key := None)"
    if "childMap o' = (childMap (ts ! x))(xs := None)" for o'
    unfolding plookup_maps(3) key br_map_upd using that at x(1) t(2) by (intro br_map_cong) (simp add: at_upd)
  show ?thesis
  proof (cases "ts ! x")
    case None
    then show ?thesis using n ne key x(3) ch(1-3) at by (simp add: branchNode_delete_def Let_def deleteOk_absent plookup_branch)
  next
    case (Some p)
    then obtain m where m: "children ! x = Some m" "rep env db p m" using ch(4) by blast
    have run: "nodeDelete (Suc f) env db n key = branchNode_deleteFromChild env db (nodeDelete f env db) bn children b m x xs"
      using n ne key x(3) ch(1) m(1) by (simp add: branchNode_delete_def Let_def)
    have "deleteOk env db (x = 16) p xs (nodeDelete f env db m xs)"
      by (rule IH) (use Some at m(2) x(2) len key in auto)
    then show ?thesis
    proof (cases rule: deleteOk_cases)
      case (absent m')
      have "rep env db (PBranch ts) (BranchNode bn (children[x := Some m']) b)"
        using rep_child_hash [OF ch(2) x(1) m(1)] delete_same_hash [OF absent(1)]
        by (intro rep_branch_upd [OF ch(2) x(1) Some absent(2)]) simp
      then show ?thesis unfolding run using absent(1,3) at Some
        by (simp add: branchNode_deleteFromChild_def Let_def key plookup_branch deleteOk_absent)
    next
      case (gone m' hs)
      obtain bn' where bn': "branchNode_setNewChild bn (children[x := None]) x None = Inr bn'"
        "brep env db (ts[x := None]) (bn', children[x := None])" using brep_clear [OF rep_brep [OF ch(2)] x(1)] by blast
      have "canon (i = 16) q" if "at (ts[x := None]) i = Some q" for i q
        using that cc x(1) t(2) by (auto simp: at_upd split: if_splits)
      note after = delete_after [OF c bn'(2) this other _ look]
      show ?thesis unfolding run t(1) branchNode_deleteFromChild_def gone(1) Let_def prod.case sum.case bool.case bn'(1)
        by (rule after [unfolded Let_def]) (use gone(2) Some in simp_all)
    next
      case (changed m' p' y hs)
      let ?bn = "bn\<lparr>ChildrenVersion := pversions (ts[x := Some p'])\<rparr>"
      note put = brep_put [OF rep_brep [OF ch(2)] x(1) changed(3)]
      have set: "branchNode_setNewChild bn (children[x := Some y]) x (Some y) = Inr ?bn"
        using put rep_getVersion [OF c changed(3)] by (simp add: branchNode_setNewChild_def)
      have "canon (i = 16) q" if "at (ts[x := Some p']) i = Some q" for i q
        using that cc changed(2) x(1) t(2) by (auto simp: at_upd split: if_splits)
      note after = delete_after [OF c conjunct2 [OF put] this other _ look]
      show ?thesis unfolding run t(1) branchNode_deleteFromChild_def changed(1) Let_def prod.case sum.case bool.case set
        by (rule after [unfolded Let_def]) (use changed(4) Some in simp_all)
    qed
  qed
qed

lemma delete_rep:
  assumes c: "trie_codec env"
  shows "canon t p \<Longrightarrow> rep env db p n \<Longrightarrow> subkey t key \<Longrightarrow> length key < fuel \<Longrightarrow>
    deleteOk env db t p key (nodeDelete fuel env db n key)"
proof (induction p arbitrary: t n key fuel rule: ptrie_induct)
  case (Leaf k u z)
  then obtain f where "fuel = Suc f" by (cases fuel) auto
  then show ?case using delete_leaf [OF Leaf.prems(2)] by simp
next
  case (Ext k p)
  then obtain f where f: "fuel = Suc f" by (cases fuel) auto
  have "canon False p" using Ext.prems(1) by (auto simp: canon_ext)
  then show ?case unfolding f using delete_ext [OF c Ext.prems(1-3)] Ext.prems(4) Ext.IH f by blast
next
  case (Branch ts)
  then obtain f where f: "fuel = Suc f" by (cases fuel) auto
  have "\<And>i p. at ts i = Some p \<Longrightarrow> canon (i = 16) p" using Branch.prems(1) by (auto simp: canon_branch)
  then show ?case unfolding f using delete_branch [OF c Branch.prems(1-3)] Branch.prems(4) Branch.IH f by blast
qed

end
