(* ===== verification/TrieCommit.thy ===== *)
theory TrieCommit
  imports TrieCorrect
begin

text \<open>
  Hashing, collapsing and committing: the hash that the code computes for a node is the hash of the tree it stands for, the
  root computes it concurrently with the same result, and after a commit the whole tree is in the database.
\<close>

section \<open>Hashes of nodes\<close>

text \<open>A node with the hashes of its children filled in is encoded as the tree is.\<close>

definition full :: "trieEnv \<Rightarrow> ptrie \<Rightarrow> node \<Rightarrow> bool" where
  "full env p n \<longleftrightarrow> (case (p, n) of
     (PLeaf k v w, LeafNode ln b) \<Rightarrow> ln = lnOf k v w
   | (PExt k c, ExtensionNode en child b) \<Rightarrow> en = enOf env k c
   | (PBranch ts, BranchNode bn children b) \<Rightarrow> bn = bnOf env ts
   | _ \<Rightarrow> False)"

lemma full_simps [simp]:
  "full env (PLeaf k v w) (LeafNode ln b) \<longleftrightarrow> ln = lnOf k v w"
  "full env (PExt k c) (ExtensionNode en child b) \<longleftrightarrow> en = enOf env k c"
  "full env (PBranch ts) (BranchNode bn children b) \<longleftrightarrow> bn = bnOf env ts"
  by (simp_all add: full_def)

lemma rep_full: "rep env db p n \<Longrightarrow> getHash n \<noteq> None \<Longrightarrow> full env p n"
  by (erule rep.cases) (auto simp: getHash_def enOf_def bnOf_def)

lemma encode_full:
  assumes c: "trie_codec env" and r: "rep env db p n" and k: "canon t p" and f: "full env p n"
  shows "getEncodedNode env n = Inr (penc env p)"
proof -
  have ne: "isEmptyOrNil n = None" by (rule rep_not_empty [OF c r k])
  from r show ?thesis
  proof cases
    case (leaf k' v w b)
    then show ?thesis using ne f k codec_leaf [OF c, of t k' v w] by (auto simp: leafNode_getEncodedNode_def)
  next
    case (ext k' d b en child)
    then show ?thesis using ne f k codec_ext [OF c, of t k' d] by (auto simp: extensionNode_getEncodedNode_def)
  next
    case (branch ts b children bn)
    then show ?thesis using ne f codec_branch [OF c, of bn] by (auto simp: branchNode_getEncodedNode_def)
  qed
qed

lemma hash_full:
  assumes "trie_codec env" and "rep env db p n" and "canon t p" and "full env p n"
  shows "encodeNodeAndGetHash env n = Inr (phash env p)"
  using encode_full [OF assms] by (simp add: encodeNodeAndGetHash_def phash_penc)

text \<open>What hashing a node does: it is the same node with a hash, and so are its children.\<close>

definition hashOk :: "trieEnv \<Rightarrow> trieDB \<Rightarrow> ptrie \<Rightarrow> node \<Rightarrow> nodeRes \<Rightarrow> bool" where
  "hashOk env db p n res \<longleftrightarrow>
     (\<exists>n'. res = (Inr (), n') \<and> rep env db p n' \<and> getHash n' = Some (phash env p) \<and> isDirty n' = isDirty n)"

lemma hashOk_known: "rep env db p n \<Longrightarrow> getHash n \<noteq> None \<Longrightarrow> hashOk env db p n (Inr (), n)"
  by (erule rep.cases) (auto simp: hashOk_def getHash_def base_ok_def intro: rep.intros)

lemma base_ok_hash: "base_ok env db p b \<Longrightarrow> base_ok env db p (b\<lparr>hash := Some (phash env p)\<rparr>)"
  by (simp add: base_ok_def)

lemma setHash_leaf:
  assumes c: "trie_codec env" and r: "rep env db (PLeaf k v w) n" and k: "canon t (PLeaf k v w)"
  shows "hashOk env db (PLeaf k v w) n (setHash env n)"
proof -
  obtain b where n: "n = LeafNode (lnOf k v w) b" "base_ok env db (PLeaf k v w) b" using r by (auto elim: rep_leafE)
  have ne: "leafNode_isEmptyOrNil (lnOf k v w) = None" by (simp add: leafNode_isEmptyOrNil_def)
  show ?thesis
  proof (cases "hash b")
    case None
    then have "setHash env n = (Inr (), LeafNode (lnOf k v w) (b\<lparr>hash := Some (phash env (PLeaf k v w))\<rparr>))"
      using ne n hash_full [OF c r k] by (simp add: leafNode_setHash_def leafNode_hashNode_def)
    then show ?thesis using n base_ok_hash [OF n(2)] by (auto simp: hashOk_def getHash_def isDirty_def intro: rep.leaf)
  next
    case (Some h)
    then show ?thesis using ne n r hashOk_known [OF r] by (simp add: leafNode_setHash_def getHash_def)
  qed
qed

lemma setHash_ext:
  assumes c: "trie_codec env" and r: "rep env db (PExt k p) n" and k: "canon t (PExt k p)"
    and IH: "\<And>x. rep env db p x \<Longrightarrow> hashOk env db p x (setHash env x)"
  shows "hashOk env db (PExt k p) n (setHash env n)"
proof -
  obtain en child b where n: "n = ExtensionNode en child b" using r by (auto elim: rep_extE)
  note f = r [unfolded n rep_ext]
  have ne: "extensionNode_isEmptyOrNil en child = None" using rep_not_empty [OF c r k] by (simp add: n)
  have cp: "canon False p" using k by (auto simp: canon_ext)
  let ?b = "b\<lparr>hash := Some (phash env (PExt k p))\<rparr>"
  have b: "base_ok env db (PExt k p) ?b" using f base_ok_hash by blast
  show ?thesis
  proof (cases "hash b = None")
    case False
    then show ?thesis using ne n hashOk_known [OF r] by (simp add: extensionNode_setHash_def getHash_def)
  next
    case h: True
    show ?thesis
    proof (cases child)
      case None
      then have "full env (PExt k p) n" using f n by (simp add: enOf_def)
      then have "encodeNodeAndGetHash env (ExtensionNode en None b) = Inr (phash env (PExt k p))"
        using hash_full [OF c r k] n None by simp
      moreover have "extensionNode_isCollapsed en None" using f None phash_ne [OF c] by (simp add: extensionNode_isCollapsed_def)
      ultimately have "setHash env n = (Inr (), ExtensionNode en child ?b)" using ne n h None by (simp add: extensionNode_setHash_def)
      moreover have "rep env db (PExt k p) (ExtensionNode en child ?b)" using f None b by (intro rep.ext) auto
      ultimately show ?thesis using n by (simp add: hashOk_def getHash_def isDirty_def)
    next
      case (Some x)
      then obtain x' where x': "setHash env x = (Inr (), x')" "rep env db p x'" "getHash x' = Some (phash env p)"
        using IH [of x] f by (auto simp: hashOk_def)
      let ?en = "en\<lparr>EncodedChild := phash env p\<rparr>"
      have hx: "encodeNodeAndGetHash env x' = Inr (phash env p)"
        using hash_full [OF c x'(2) cp rep_full [OF x'(2)]] x'(3) by simp
      have ne': "extensionNode_isEmptyOrNil e (Some x') = None" for e by (simp add: extensionNode_isEmptyOrNil_def)
      have r': "rep env db (PExt k p) (ExtensionNode ?en (Some x') ?b)" using f Some b x'(2,3) by (intro rep.ext) auto
      have en: "?en = enOf env k p" using f by (simp add: enOf_def)
      have "rep env db (PExt k p) (ExtensionNode ?en (Some x') b)" using f Some x'(2,3) h by (intro rep.ext) auto
      then have "encodeNodeAndGetHash env (ExtensionNode ?en (Some x') b) = Inr (phash env (PExt k p))"
        using hash_full [OF c _ k] en by simp
      then have "setHash env n = (Inr (), ExtensionNode ?en (Some x') ?b)"
        using ne ne' n h Some x'(1) hx
        by (simp add: extensionNode_setHash_def extensionNode_isCollapsed_def extensionNode_hashChildren_def extensionNode_hashNode_def)
      then show ?thesis using n r' by (simp add: hashOk_def getHash_def isDirty_def)
    qed
  qed
qed

text \<open>The children of a branch.\<close>

lemma hashChildrenLoop_ok:
  assumes "\<And>n. Some n \<in> set cs \<Longrightarrow> fst (f n) = Inr ()"
  shows "hashChildrenLoop cs (map (map_option f) cs) = (Inr (), map (map_option (\<lambda>n. snd (f n))) cs)"
  using assms
proof (induction cs)
  case (Cons c cs)
  then have IH: "hashChildrenLoop cs (map (map_option f) cs) = (Inr (), map (map_option (\<lambda>n. snd (f n))) cs)" by simp
  show ?case
  proof (cases c)
    case (Some n)
    then obtain n' where "f n = (Inr (), n')" using Cons.prems [of n] by (cases "f n") auto
    then show ?thesis using IH Some by simp
  qed (simp add: IH)
qed simp

lemma hashAllChildren_ok:
  assumes "\<And>n. Some n \<in> set cs \<Longrightarrow> fst (setHashConcurrent env n) = Inr ()"
  shows "hashAllChildren env cs = (Inr (), map (map_option (\<lambda>n. snd (setHashConcurrent env n))) cs)"
proof -
  have "[e. Some (Inl e, n) \<leftarrow> map (map_option (setHashConcurrent env)) cs] = []"
    using assms by (auto simp: concat_eq_Nil_conv split: option.splits sum.splits prod.splits) (metis fst_conv sum.distinct(1))
  moreover have "map (map_option snd) (map (map_option (setHashConcurrent env)) cs) =
      map (map_option (\<lambda>n. snd (setHashConcurrent env n))) cs"
    by (simp add: option.map_comp comp_def)
  ultimately show ?thesis unfolding hashAllChildren_def Let_def by (simp only: list.case)
qed

lemma encodeChildrenLoop_ok:
  assumes "length cs = length es" and "length hs = length es"
    and "\<And>i. i < length es \<Longrightarrow> (case cs ! i of None \<Rightarrow> es ! i = hs ! i | Some c \<Rightarrow> encodeNodeAndGetHash env c = Inr (hs ! i))"
  shows "encodeChildrenLoop env cs es = (Inr (), hs)"
  using assms
proof (induction es arbitrary: cs hs)
  case (Cons e es)
  obtain c cs' h hs' where eq: "cs = c # cs'" "hs = h # hs'" using Cons.prems by (cases cs; cases hs) auto
  have "case cs' ! i of None \<Rightarrow> es ! i = hs' ! i | Some c \<Rightarrow> encodeNodeAndGetHash env c = Inr (hs' ! i)"
    if "i < length es" for i using Cons.prems(3) [of "Suc i"] that by (auto simp: eq split: option.splits)
  then have "encodeChildrenLoop env cs' es = (Inr (), hs')" using Cons.prems(1,2) by (intro Cons.IH) (auto simp: eq)
  then show ?case using Cons.prems(3) [of 0] by (cases c) (auto simp: eq)
qed simp

lemma brep_fill: "brep env db ts (bn, children) \<Longrightarrow> brep env db ts (bnOf env ts, children)"
  by (auto simp: brep_def bnOf_def split: option.splits)

lemma brep_hashed:
  assumes b: "brep env db ts (bn, children)"
    and f: "\<And>i c n. i < 17 \<Longrightarrow> ts ! i = Some c \<Longrightarrow> rep env db c n \<Longrightarrow> rep env db c (f n) \<and> getHash (f n) \<noteq> None"
  shows "brep env db ts (bn, map (map_option f) children)" "\<forall>c\<in>set (map (map_option f) children). hashedOpt c"
proof -
  have len: "length children = 17" "length ts = 17" using b by (simp_all add: brep_def)
  have ok: "\<exists>c. ts ! i = Some c \<and> rep env db c (f n) \<and> getHash (f n) \<noteq> None"
    if "i < 17" "children ! i = Some n" for i n
    using brepD(1) [OF b that] f that(1) by blast
  show "brep env db ts (bn, map (map_option f) children)"
    unfolding brep_def prod.case
  proof (intro conjI allI impI)
    fix i n assume "i < 17" "map (map_option f) children ! i = Some n"
    then show "\<exists>c. ts ! i = Some c \<and> rep env db c n" using ok len by fastforce
  qed (use b in \<open>auto simp: brep_def\<close>)
  show "\<forall>c\<in>set (map (map_option f) children). hashedOpt c"
  proof
    fix c assume "c \<in> set (map (map_option f) children)"
    then obtain i where "i < 17" "c = map_option f (children ! i)" using len(1) by (auto simp: in_set_conv_nth)
    then show "hashedOpt c" using ok by (cases "children ! i") auto
  qed
qed

lemma brep_encode:
  assumes c: "trie_codec env" and b: "brep env db ts (bn, children)" and h: "\<forall>c\<in>set children. hashedOpt c"
    and k: "canon t (PBranch ts)"
  shows "encodeChildrenLoop env children (EncodedChildren bn) = (Inr (), EncodedChildren (bnOf env ts))"
proof (rule encodeChildrenLoop_ok)
  fix i assume "i < length (EncodedChildren bn)"
  then have i: "i < 17" "i < length children" "i < length ts" using b by (simp_all add: brep_def)
  show "case children ! i of None \<Rightarrow> EncodedChildren bn ! i = EncodedChildren (bnOf env ts) ! i
    | Some c \<Rightarrow> encodeNodeAndGetHash env c = Inr (EncodedChildren (bnOf env ts) ! i)"
  proof (cases "children ! i")
    case None
    then show ?thesis using brepD(2,3) [OF b i(1)] i by (cases "ts ! i") (auto simp: bnOf_def)
  next
    case (Some n)
    then obtain p where p: "ts ! i = Some p" "rep env db p n" using brepD(1) [OF b i(1)] by blast
    have "getHash n \<noteq> None" using h Some i(2) by (metis hashedOpt_simps(2) nth_mem)
    moreover have "canon (i = 16) p" using k p(1) i(3) by (auto simp: canon_branch at_def)
    ultimately show ?thesis using Some p hash_full [OF c p(2) _ rep_full [OF p(2)]] i(3) by (auto simp: bnOf_def)
  qed
qed (use b in \<open>simp_all add: brep_def bnOf_def\<close>)

lemma collapsed_bn:
  assumes b: "brep env db ts (bn, children)" and n: "branchNode_isCollapsed children"
  shows "bn = bnOf env ts" "children = replicate 17 None"
proof -
  have len: "length children = 17" "length ts = 17" "length (EncodedChildren bn) = 17" "ChildrenVersion bn = pversions ts"
    using b by (simp_all add: brep_def)
  then show "children = replicate 17 None" using n by (intro replicate_eqI) (auto simp: branchNode_isCollapsed_def)
  then have none: "children ! i = None" if "i < 17" for i using that by simp
  have "EncodedChildren bn = EncodedChildren (bnOf env ts)"
  proof (rule nth_equalityI)
    show "EncodedChildren bn ! i = EncodedChildren (bnOf env ts) ! i" if "i < length (EncodedChildren bn)" for i
      using that len none [of i] brepD(2,3) [OF b, of i] by (cases "ts ! i") (auto simp: bnOf_def)
  qed (use len in \<open>simp add: bnOf_def\<close>)
  then show "bn = bnOf env ts" using len(4) by (simp add: bnOf_def)
qed

lemma setHashAs_branch:
  assumes c: "trie_codec env" and r: "rep env db (PBranch ts) (BranchNode bn children b)" and k: "canon t (PBranch ts)"
    and f: "\<And>i c n. i < 17 \<Longrightarrow> ts ! i = Some c \<Longrightarrow> rep env db c n \<Longrightarrow> hashOk env db c n (f n)"
  shows "hashOk env db (PBranch ts) (BranchNode bn children b)
    (branchNode_setHashAs m env bn children b (Inr (), map (map_option (\<lambda>n. snd (f n))) children))"
proof -
  have ne: "branchNode_isEmptyOrNil bn children = None" using rep_not_empty [OF c r k] by simp
  note f' = r [unfolded rep_branch]
  let ?b = "b\<lparr>hash := Some (phash env (PBranch ts))\<rparr>"
  have bok: "base_ok env db (PBranch ts) ?b" using f' base_ok_hash by blast
  show ?thesis
  proof (cases "hash b = None")
    case False
    then show ?thesis using ne hashOk_known [OF r] by (simp add: branchNode_setHashAs_def getHash_def)
  next
    case h: True
    show ?thesis
    proof (cases "branchNode_isCollapsed children")
      case True
      then have enc: "bn = bnOf env ts" using collapsed_bn [OF rep_brep [OF r]] by blast
      then have "full env (PBranch ts) (BranchNode bn children b)" by simp
      then have "encodeNodeAndGetHash env (BranchNode bn children b) = Inr (phash env (PBranch ts))"
        by (rule hash_full [OF c r k])
      then have "branchNode_setHashAs m env bn children b x = (Inr (), BranchNode bn children ?b)" for x
        using ne h True by (simp add: branchNode_setHashAs_def)
      moreover have "rep env db (PBranch ts) (BranchNode bn children ?b)"
        using f' bok enc True by (intro rep.branch) (auto simp: branchNode_isCollapsed_def)
      ultimately show ?thesis by (simp add: hashOk_def getHash_def isDirty_def)
    next
      case False
      let ?cs = "map (map_option (\<lambda>n. snd (f n))) children"
      have ok: "rep env db c (snd (f n)) \<and> getHash (snd (f n)) \<noteq> None" if "i < 17" "ts ! i = Some c" "rep env db c n" for i c n
        using f [OF that] by (auto simp: hashOk_def)
      have hb: "brep env db ts (bn, ?cs)" "\<forall>c\<in>set ?cs. hashedOpt c" using brep_hashed [OF rep_brep [OF r], of "\<lambda>n. snd (f n)"] ok by blast+
      have r': "rep env db (PBranch ts) (BranchNode (bnOf env ts) ?cs ?b)"
        using brep_fill [OF hb(1)] hb(2) bok by (intro rep.branch) (auto simp: brep_def)
      have bn: "bn\<lparr>EncodedChildren := EncodedChildren (bnOf env ts)\<rparr> = bnOf env ts" using f' by (simp add: bnOf_def)
      have ne': "branchNode_isEmptyOrNil bn ?cs = None"
        using rep_not_empty [OF c brep_rep [OF hb(1), of newBase] k] by (simp add: newBase_def)
      have "rep env db (PBranch ts) (BranchNode (bnOf env ts) ?cs newBase)"
        by (rule brep_rep [OF brep_fill [OF hb(1)]]) (simp_all add: newBase_def)
      from hash_full [OF c this k] have "encodeNodeAndGetHash env (BranchNode (bnOf env ts) ?cs b) = Inr (phash env (PBranch ts))"
        by (simp add: encodeNodeAndGetHash_def)
      then have "branchNode_setHashAs m env bn children b (Inr (), ?cs) = (Inr (), BranchNode (bnOf env ts) ?cs ?b)"
        using ne ne' h False brep_encode [OF c hb k] bn
        by (simp add: branchNode_setHashAs_def branchNode_finishHash_def branchNode_hashNode_def)
      then show ?thesis using r' by (simp add: hashOk_def getHash_def isDirty_def)
    qed
  qed
qed

lemma setHash_branch:
  assumes c: "trie_codec env" and r: "rep env db (PBranch ts) n" and k: "canon t (PBranch ts)"
    and IH: "\<And>i c n. i < 17 \<Longrightarrow> ts ! i = Some c \<Longrightarrow> rep env db c n \<Longrightarrow> hashOk env db c n (setHash env n)"
  shows "hashOk env db (PBranch ts) n (setHash env n)"
proof -
  obtain bn children b where n: "n = BranchNode bn children b" using r by (auto elim: rep_branchE)
  note f = r [unfolded n rep_branch]
  have ne: "branchNode_isEmptyOrNil bn children = None" using rep_not_empty [OF c r k] by (simp add: n)
  have "fst (setHash env m) = Inr ()" if m: "Some m \<in> set children" for m
  proof -
    obtain i where i: "i < 17" "children ! i = Some m" using m f by (auto simp: in_set_conv_nth)
    then obtain d where d: "ts ! i = Some d" "rep env db d m" using f by blast
    show ?thesis using IH [OF i(1) d] by (auto simp: hashOk_def)
  qed
  from hashChildrenLoop_ok [OF this] show ?thesis unfolding n
    using ne setHashAs_branch [OF c r [unfolded n] k IH] by (simp add: branchNode_setHash_def branchNode_hashChildren_def)
qed

lemma setHash_rep:
  assumes c: "trie_codec env"
  shows "canon t p \<Longrightarrow> rep env db p n \<Longrightarrow> hashOk env db p n (setHash env n)"
proof (induction p arbitrary: t n rule: ptrie_induct)
  case (Leaf k v w)
  then show ?case by (intro setHash_leaf [OF c])
next
  case (Ext k p)
  then have "canon False p" by (auto simp: canon_ext)
  then show ?case using setHash_ext [OF c Ext.prems(2,1)] Ext.IH by blast
next
  case (Branch ts)
  have "at ts i = Some p \<and> canon (i = 16) p" if "i < 17" "ts ! i = Some p" for i p
    using Branch.prems(1) that by (auto simp: canon_branch at_def)
  then show ?case using setHash_branch [OF c Branch.prems(2,1)] Branch.IH by blast
qed

text \<open>Hashing the children of the root concurrently, and those of a branch one after the other, give the same node.\<close>

lemma setHashConcurrent_eq: "isEmptyOrNil n = None \<Longrightarrow> setHashConcurrent env n = setHash env n"
  by (cases n) (simp_all add: branchNode_setHash_def branchNode_setHashConcurrent_def branchNode_setHashAs_def)

lemma setRootHash_eq:
  assumes c: "trie_codec env" and k: "canon t p" and r: "rep env db p n"
  shows "setRootHash env n = setHash env n"
proof (cases n)
  case (BranchNode bn children b)
  obtain ts where p: "p = PBranch ts" using r BranchNode by (cases p) (auto elim: rep.cases)
  note f = r [unfolded p BranchNode rep_branch] and r' = r [unfolded p BranchNode] and k' = k [unfolded p]
  have ne: "branchNode_isEmptyOrNil bn children = None" using rep_not_empty [OF c r k] by (simp add: BranchNode)
  have child: "setHashConcurrent env m = setHash env m" "fst (setHash env m) = Inr ()" if m: "Some m \<in> set children" for m
  proof -
    obtain i where i: "i < 17" "children ! i = Some m" using m f by (auto simp: in_set_conv_nth)
    then obtain d where d: "ts ! i = Some d" "rep env db d m" using f by blast
    then have cd: "canon (i = 16) d" using k' i(1) f by (auto simp: canon_branch at_def)
    show "setHashConcurrent env m = setHash env m" by (rule setHashConcurrent_eq [OF rep_not_empty [OF c d(2) cd]])
    show "fst (setHash env m) = Inr ()" using setHash_rep [OF c cd d(2)] by (auto simp: hashOk_def)
  qed
  have "map (map_option (\<lambda>n. snd (setHashConcurrent env n))) children = map (map_option (\<lambda>n. snd (setHash env n))) children"
    using child(1) by (auto intro!: option.map_cong)
  then have "hashAllChildren env children = hashChildrenLoop children (map (map_option (setHash env)) children)"
    using hashAllChildren_ok [of children env] hashChildrenLoop_ok [of children "setHash env"] child by metis
  then show ?thesis using ne
    by (simp add: BranchNode branchNode_setHash_def branchNode_hashChildren_def branchNode_setHashAs_def)
qed simp_all

section \<open>Collapsing\<close>

lemma withValidHash_rep:
  assumes c: "trie_codec env" and k: "canon t p" and r: "rep env db p n"
  shows "hashOk env db p n (withValidHash env n)"
  using setHash_rep [OF c k r] hashOk_known [OF r] rep_not_empty [OF c r k] by (simp add: withValidHash_def hasValidHash_def)

lemma collapseChildrenLoop_ok:
  assumes "length cs = length es" and "length hs = length es"
    and "\<And>i. i < length es \<Longrightarrow> (case cs ! i of None \<Rightarrow> es ! i = hs ! i
      | Some c \<Rightarrow> withValidHash env c = (Inr (), f c) \<and> getHash (f c) = Some (hs ! i))"
  shows "collapseChildrenLoop env cs es = (Inr (), map (map_option f) cs, hs)"
  using assms
proof (induction es arbitrary: cs hs)
  case (Cons e es)
  obtain c cs' h hs' where eq: "cs = c # cs'" "hs = h # hs'" using Cons.prems by (cases cs; cases hs) auto
  have "case cs' ! i of None \<Rightarrow> es ! i = hs' ! i
      | Some c \<Rightarrow> withValidHash env c = (Inr (), f c) \<and> getHash (f c) = Some (hs' ! i)"
    if "i < length es" for i using Cons.prems(3) [of "Suc i"] that by (auto simp: eq split: option.splits)
  then have "collapseChildrenLoop env cs' es = (Inr (), map (map_option f) cs', hs')"
    using Cons.prems(1,2) by (intro Cons.IH) (auto simp: eq)
  then show ?case using Cons.prems(3) [of 0] by (cases c) (auto simp: eq)
qed simp

text \<open>The collapsed copy is the node that the database holds for the tree; the receiver keeps its hash and flag.\<close>

definition collapseOk :: "trieEnv \<Rightarrow> trieDB \<Rightarrow> ptrie \<Rightarrow> node \<Rightarrow> node tres \<times> node \<Rightarrow> bool" where
  "collapseOk env db p n res \<longleftrightarrow>
     (\<exists>n'. res = (Inr (collapsedNode env (base n) p), n') \<and> rep env db p n' \<and> base n' = base n)"

lemma collapse_branch:
  assumes c: "trie_codec env" and k: "canon t (PBranch ts)" and r: "rep env db (PBranch ts) (BranchNode bn children b)"
  shows "collapseOk env db (PBranch ts) (BranchNode bn children b) (branchNode_getCollapsedBn env bn children b)"
proof -
  note f = r [unfolded rep_branch]
  have ne: "branchNode_isEmptyOrNil bn children = None" using rep_not_empty [OF c r k] by simp
  have cc: "canon (i = 16) p" if "i < 17" "ts ! i = Some p" for i p using k f that by (auto simp: canon_branch at_def)
  have none: "map (\<lambda>_. None) children = replicate 17 None" using f by (simp add: map_replicate_const)
  let ?f = "\<lambda>n. snd (withValidHash env n)"
  have ok: "hashOk env db p n (withValidHash env n)" if "i < 17" "ts ! i = Some p" "rep env db p n" for i p n
    using withValidHash_rep [OF c cc [OF that(1,2)] that(3)] .
  have loop: "collapseChildrenLoop env children (EncodedChildren bn) = (Inr (), map (map_option ?f) children, EncodedChildren (bnOf env ts))"
  proof (rule collapseChildrenLoop_ok)
    fix i assume "i < length (EncodedChildren bn)"
    then have i: "i < 17" "i < length ts" using f by simp_all
    show "case children ! i of None \<Rightarrow> EncodedChildren bn ! i = EncodedChildren (bnOf env ts) ! i
      | Some c \<Rightarrow> withValidHash env c = (Inr (), ?f c) \<and> getHash (?f c) = Some (EncodedChildren (bnOf env ts) ! i)"
    proof (cases "children ! i")
      case None
      then show ?thesis using brepD(2,3) [OF rep_brep [OF r] i(1)] i by (cases "ts ! i") (auto simp: bnOf_def)
    next
      case (Some n)
      then obtain p where p: "ts ! i = Some p" "rep env db p n" using f i(1) by blast
      show ?thesis using ok [OF i(1) p] Some p(1) i(2) by (auto simp: hashOk_def bnOf_def)
    qed
  qed (use f in \<open>simp_all add: bnOf_def\<close>)
  have bn: "bn\<lparr>EncodedChildren := EncodedChildren (bnOf env ts)\<rparr> = bnOf env ts" using f by (simp add: bnOf_def)
  show ?thesis
  proof (cases "branchNode_isCollapsed children")
    case True
    note collapsed_bn [OF rep_brep [OF r] True]
    then show ?thesis using True ne r by (simp add: collapseOk_def branchNode_getCollapsedBn_def Let_def)
  next
    case False
    have "rep env db p (?f n) \<and> getHash (?f n) \<noteq> None" if "i < 17" "ts ! i = Some p" "rep env db p n" for i p n
      using ok [OF that] by (auto simp: hashOk_def)
    then have hb: "brep env db ts (bn, map (map_option ?f) children)" "\<forall>c\<in>set (map (map_option ?f) children). hashedOpt c"
      using brep_hashed [OF rep_brep [OF r], of ?f] by blast+
    then have "rep env db (PBranch ts) (BranchNode (bnOf env ts) (map (map_option ?f) children) b)"
      using brep_fill [OF hb(1)] f by (intro rep.branch) (auto simp: brep_def)
    then show ?thesis using False ne loop bn none by (simp add: collapseOk_def branchNode_getCollapsedBn_def comp_def map_replicate_const Let_def)
  qed
qed

lemma collapse_rep:
  assumes c: "trie_codec env" and k: "canon t p" and r: "rep env db p n"
  shows "collapseOk env db p n (getCollapsed env n)"
  using r
proof (cases rule: rep.cases)
  case (leaf k' v w b)
  then show ?thesis using r by (simp add: collapseOk_def)
next
  case (ext k' d b en child)
  have ne: "extensionNode_isEmptyOrNil en child = None" using rep_not_empty [OF c r k] by (simp add: ext)
  have cd: "canon False d" using k ext(1) by (auto simp: canon_ext)
  show ?thesis
  proof (cases child)
    case None
    then have "en = enOf env k' d" using ext by (simp add: enOf_def)
    then show ?thesis using None ne ext r by (simp add: collapseOk_def extensionNode_getCollapsedEn_def Let_def)
  next
    case (Some x)
    then obtain x' where x': "withValidHash env x = (Inr (), x')" "rep env db d x'" "getHash x' = Some (phash env d)"
      using withValidHash_rep [OF c cd, of db x] ext by (auto simp: hashOk_def)
    have "en\<lparr>EncodedChild := phash env d\<rparr> = enOf env k' d" using ext by (simp add: enOf_def)
    moreover have "rep env db p (ExtensionNode en (Some x') b)" unfolding ext(1) using ext x'(2,3) Some by (intro rep.ext) auto
    ultimately show ?thesis using Some ne ext x' by (simp add: collapseOk_def extensionNode_getCollapsedEn_def)
  qed
next
  case (branch ts b children bn)
  then show ?thesis using collapse_branch [OF c] k r by simp
qed

lemma encode_collapsed:
  assumes c: "trie_codec env" and k: "canon t p"
  shows "getEncodedNode env (collapsedNode env b p) = Inr (penc env p)"
proof (cases p)
  case (PLeaf k' v w)
  then show ?thesis using k codec_leaf [OF c, of t k' v w] by (auto simp: leafNode_getEncodedNode_def leafNode_isEmptyOrNil_def)
next
  case (PExt k' d)
  then show ?thesis using k phash_ne [OF c] codec_ext [OF c, of t k' d]
    by (auto simp: extensionNode_getEncodedNode_def extensionNode_isEmptyOrNil_def enOf_def)
next
  case (PBranch ts)
  then have len: "length ts = 17" "2 \<le> childCount ts" using k by (auto simp: canon_branch)
  obtain i j x y where "at ts i = Some x" using len(2) by (rule childCount_two)
  then have i: "i < 17" "EncodedChildren (bnOf env ts) ! i \<noteq> []" using len(1) phash_ne [OF c]
    by (auto simp: at_def bnOf_def split: if_splits)
  then have "branchNode_isEmptyOrNil (bnOf env ts) (replicate 17 None) = None"
    using emptyLoop_None [of "replicate 17 None" "EncodedChildren (bnOf env ts)" i] len(1)
    by (simp add: branchNode_isEmptyOrNil_def bnOf_def)
  then show ?thesis using PBranch codec_branch [OF c, of "bnOf env ts"] by (auto simp: branchNode_getEncodedNode_def)
qed

section \<open>Committing\<close>

text \<open>The flag of a node has no influence on its hash and on its collapsed copy.\<close>

lemma setHash_setDirty: "setHash env (setDirty d n) = (case setHash env n of (r, n') \<Rightarrow> (r, setDirty d n'))"
  by (cases n)
     (auto simp: setDirty_def leafNode_setHash_def leafNode_hashNode_def extensionNode_setHash_def extensionNode_hashNode_def
      branchNode_setHash_def branchNode_setHashAs_def branchNode_finishHash_def branchNode_hashNode_def
      encodeNodeAndGetHash_def Let_def split: option.splits sum.splits prod.splits)

lemma getCollapsed_setDirty:
  "getCollapsed env (setDirty d n) = (case getCollapsed env n of (r, n') \<Rightarrow> (thenE r (\<lambda>m. Inr (setDirty d m)), setDirty d n'))"
  by (cases n)
     (auto simp: setDirty_def extensionNode_getCollapsedEn_def branchNode_getCollapsedBn_def Let_def thenE_def
      split: option.splits sum.splits prod.splits)

lemma setDirty_sel [simp]:
  "getHash (setDirty d n) = getHash n" "getEncodedNode env (setDirty d n) = getEncodedNode env n" "isDirty (setDirty d n) = d"
  by (cases n; simp add: getHash_def isDirty_def setDirty_def)+

lemma encodeAndCommit_setDirty:
  "encodeNodeAndCommitToDB env (setDirty d n) db = (case encodeNodeAndCommitToDB env n db of (r, n', db') \<Rightarrow> (r, setDirty d n', db'))"
  by (auto simp: encodeNodeAndCommitToDB_def computeAndSetNodeHash_def collapseAndEncodeNode_def setHash_setDirty
      getCollapsed_setDirty thenE_def split: prod.splits sum.splits option.splits)

text \<open>The database is addressed by content, and the encodings that meet in it do not collide.\<close>

definition addressed :: "trieEnv \<Rightarrow> trieDB \<Rightarrow> bool" where
  "addressed env db \<longleftrightarrow> (\<forall>h e. db h = Some e \<longrightarrow> h = Compute env e)"

definition storage_ok :: "trieEnv \<Rightarrow> bytes set \<Rightarrow> trieDB \<Rightarrow> bool" where
  "storage_ok env A db \<longleftrightarrow> addressed env db \<and> ran db \<subseteq> A \<and> inj_on (Compute env) A \<and> (\<forall>k v. putError env k v = None)"

inductive subtree :: "ptrie \<Rightarrow> ptrie \<Rightarrow> bool" where
  here: "subtree p p"
| ext: "subtree q c \<Longrightarrow> subtree q (PExt k c)"
| branch: "at ts i = Some c \<Longrightarrow> subtree q c \<Longrightarrow> subtree q (PBranch ts)"

definition encs :: "trieEnv \<Rightarrow> ptrie \<Rightarrow> bytes set" where
  "encs env p = {penc env q | q. subtree q p}"

lemma encs_child:
  "encs env c \<subseteq> encs env (PExt k c)" "at ts i = Some c \<Longrightarrow> encs env c \<subseteq> encs env (PBranch ts)" "penc env p \<in> encs env p"
  by (auto simp: encs_def intro: subtree.intros)

lemma storage_put:
  assumes "storage_ok env A db" and "penc env p \<in> A"
  shows "storage_ok env A (db(phash env p \<mapsto> penc env p))" "db \<subseteq>\<^sub>m db(phash env p \<mapsto> penc env p)"
proof -
  have "e = penc env p" if "db (phash env p) = Some e" for e
  proof -
    have "Compute env e = Compute env (penc env p)" "e \<in> A"
      using assms(1) that by (auto simp: storage_ok_def addressed_def phash_penc ran_def)
    then show ?thesis using assms by (auto simp: storage_ok_def dest: inj_onD)
  qed
  then show "db \<subseteq>\<^sub>m db(phash env p \<mapsto> penc env p)" by (auto simp: map_le_def dom_def)
  show "storage_ok env A (db(phash env p \<mapsto> penc env p))"
    using assms by (auto simp: storage_ok_def addressed_def phash_penc ran_def split: if_splits)
qed

lemma stored_mono: "stored env db p \<Longrightarrow> db \<subseteq>\<^sub>m db' \<Longrightarrow> stored env db' p"
proof (induction rule: stored.induct)
  case (leaf k v w)
  then show ?case by (intro stored.leaf) (metis domI map_le_def)
next
  case (ext k c)
  then show ?case by (intro stored.ext) (metis domI map_le_def)+
next
  case (branch ts)
  then show ?case by (intro stored.branch) (metis domI map_le_def)+
qed

lemma base_ok_mono: "base_ok env db p b \<Longrightarrow> db \<subseteq>\<^sub>m db' \<Longrightarrow> base_ok env db' p b"
  using stored_mono by (auto simp: base_ok_def)

lemma rep_mono: "rep env db p n \<Longrightarrow> db \<subseteq>\<^sub>m db' \<Longrightarrow> rep env db' p n"
proof (induction rule: rep.induct)
  case (leaf k v w b)
  then show ?case using base_ok_mono by (intro rep.leaf) auto
next
  case (ext k c b en child)
  then show ?case using base_ok_mono stored_mono by (intro rep.ext) blast+
next
  case (branch ts b children bn)
  show ?case
  proof (rule rep.branch)
    fix i assume "i < 17" "children ! i = None"
    then show "case ts ! i of None \<Rightarrow> EncodedChildren bn ! i = []
      | Some c \<Rightarrow> EncodedChildren bn ! i = phash env c \<and> stored env db' c"
      using branch.hyps(6) [of i] branch.prems stored_mono by (auto split: option.splits)
  qed (use branch base_ok_mono in blast)+
qed

lemma encodeAndCommit_rep:
  assumes c: "trie_codec env" and k: "canon t p" and r: "rep env db p n" and s: "storage_ok env A db"
  shows "\<exists>l n'. encodeNodeAndCommitToDB env n db = (Inr l, n', db(phash env p \<mapsto> penc env p)) \<and>
    rep env db p n' \<and> getHash n' = Some (phash env p)"
proof -
  obtain n1 where n1: "computeAndSetNodeHash env n = (Inr (phash env p), n1)" "rep env db p n1" "getHash n1 = Some (phash env p)"
  proof (cases "getHash n")
    case None
    then show ?thesis using setHash_rep [OF c k r] that by (auto simp: hashOk_def computeAndSetNodeHash_def)
  next
    case (Some h)
    then have "h = phash env p" using hashOk_known [OF r] by (auto simp: hashOk_def)
    then show ?thesis using that [of n] Some r phash_ne [OF c, of p] by (simp add: computeAndSetNodeHash_def)
  qed
  obtain n2 where n2: "getCollapsed env n1 = (Inr (collapsedNode env (base n1) p), n2)" "rep env db p n2" "base n2 = base n1"
    using collapse_rep [OF c k n1(2)] by (auto simp: collapseOk_def)
  show ?thesis using n1 n2 s encode_collapsed [OF c k, of "base n1"] by (simp add: encodeNodeAndCommitToDB_def collapseAndEncodeNode_def storage_ok_def getHash_def)
qed

definition commitOk :: "trieEnv \<Rightarrow> bytes set \<Rightarrow> ptrie \<Rightarrow> trieDB \<Rightarrow> commitRes \<Rightarrow> bool" where
  "commitOk env A p db res \<longleftrightarrow>
     (\<exists>n' db'. res = (Inr (), n', db') \<and> db \<subseteq>\<^sub>m db' \<and> storage_ok env A db' \<and> rep env db' p n' \<and>
        \<not> isDirty n' \<and> getHash n' \<noteq> None \<and> stored env db' p)"

definition childrenStored :: "trieEnv \<Rightarrow> trieDB \<Rightarrow> ptrie \<Rightarrow> bool" where
  "childrenStored env db p \<longleftrightarrow> (case p of PLeaf k v w \<Rightarrow> True | PExt k c \<Rightarrow> stored env db c
     | PBranch ts \<Rightarrow> \<forall>i c. at ts i = Some c \<longrightarrow> stored env db c)"

lemma stored_put:
  assumes "childrenStored env db p" and "db \<subseteq>\<^sub>m db'" and "db' (phash env p) = Some (penc env p)"
  shows "stored env db' p"
  using assms stored_mono [OF _ assms(2)] by (cases p) (auto simp: childrenStored_def stored_simps)

lemma rep_clean:
  assumes "rep env db p n" and "getHash n \<noteq> None" and "stored env db p"
  shows "rep env db p (setDirty False n)"
  using assms by (cases rule: rep.cases) (auto simp: setDirty_def getHash_def base_ok_def intro!: rep.intros)

lemma commit_written:
  assumes c: "trie_codec env" and k: "canon t p" and r: "rep env db p n" and s: "storage_ok env A db"
    and e: "encs env p \<subseteq> A" and ch: "childrenStored env db p"
  shows "\<exists>l n' db'. encodeNodeAndCommitToDB env (setDirty False n) db = (Inr l, n', db') \<and> db \<subseteq>\<^sub>m db' \<and> storage_ok env A db' \<and>
    rep env db' p n' \<and> \<not> isDirty n' \<and> getHash n' = Some (phash env p) \<and> stored env db' p"
proof -
  obtain l n1 where n1: "encodeNodeAndCommitToDB env n db = (Inr l, n1, db(phash env p \<mapsto> penc env p))"
    "rep env db p n1" "getHash n1 = Some (phash env p)" using encodeAndCommit_rep [OF c k r s] by blast
  let ?db = "db(phash env p \<mapsto> penc env p)"
  have "penc env p \<in> A" using e encs_child(3) by blast
  note put = storage_put [OF s this]
  have st: "stored env ?db p" by (rule stored_put [OF ch put(2)]) simp
  have "rep env ?db p (setDirty False n1)" using rep_mono [OF n1(2) put(2)] n1(3) st by (intro rep_clean) simp_all
  then show ?thesis using n1 put st by (simp add: encodeAndCommit_setDirty)
qed

lemma commitSelf_rep:
  assumes c: "trie_codec env" and k: "canon t p" and r: "rep env db p n" and s: "storage_ok env A db"
    and e: "encs env p \<subseteq> A" and ch: "childrenStored env db p"
  shows "commitOk env A p db (commitSelf env level m n db)"
proof -
  obtain l n' db' where n': "encodeNodeAndCommitToDB env (setDirty False n) db = (Inr l, n', db')" "db \<subseteq>\<^sub>m db'" "storage_ok env A db'"
    "rep env db' p n'" "\<not> isDirty n'" "getHash n' = Some (phash env p)" "stored env db' p"
    using commit_written [OF assms] by blast
  obtain n2 where n2: "getCollapsed env n' = (Inr (collapsedNode env (base n') p), n2)"
    using collapse_rep [OF c k n'(4)] by (auto simp: collapseOk_def)
  have h: "hash (base n') = Some (phash env p)" "\<not> dirty (base n')" using n'(5,6) by (simp_all add: getHash_def isDirty_def)
  then have "base (collapsedNode env (base n') p) = base n'" by (cases p) simp_all
  then have "getHash (collapsedNode env (base n') p) \<noteq> None" "\<not> isDirty (collapsedNode env (base n') p)"
    using h by (simp_all add: getHash_def isDirty_def)
  then show ?thesis using n' n2 rep_collapsed [OF n'(7) k h(1)] by (auto simp: commitSelf_def commitOk_def)
qed

lemma commit_clean:
  assumes "rep env db p n" and "\<not> isDirty n" and "storage_ok env A db"
  shows "commitOk env A p db (Inr (), n, db)"
proof -
  have "base_ok env db p (base n)" using assms(1) by (cases rule: rep.cases) simp_all
  then show ?thesis using assms by (auto simp: commitOk_def base_ok_def isDirty_def getHash_def)
qed

text \<open>The children of a branch are written one after the other into the same database.\<close>

definition committed :: "trieEnv \<Rightarrow> trieDB \<Rightarrow> ptrie option \<Rightarrow> node option \<Rightarrow> node option \<Rightarrow> bool" where
  "committed env db t c c' \<longleftrightarrow> (case c of None \<Rightarrow> c' = None
     | Some _ \<Rightarrow> \<exists>p n. t = Some p \<and> c' = Some n \<and> rep env db p n \<and> getHash n \<noteq> None \<and> stored env db p)"

lemma committed_simps [simp]:
  "committed env db t None c' \<longleftrightarrow> c' = None"
  "committed env db t (Some n) c' \<longleftrightarrow> (\<exists>p n. t = Some p \<and> c' = Some n \<and> rep env db p n \<and> getHash n \<noteq> None \<and> stored env db p)"
  by (simp_all add: committed_def)

lemma commitChildren_ok:
  assumes "length ts = length cs"
    and "\<forall>i c. i < length cs \<longrightarrow> cs ! i = Some c \<longrightarrow> (\<exists>p. ts ! i = Some p \<and> rep env db p c)"
    and "\<forall>i p c db. i < length cs \<longrightarrow> ts ! i = Some p \<longrightarrow> rep env db p c \<longrightarrow> storage_ok env A db \<longrightarrow>
      commitOk env A p db (f c l m db)"
    and "storage_ok env A db"
  shows "\<exists>cs' db'. commitChildrenLoop cs (map (map_option f) cs) l m db = (Inr (), cs', db') \<and> length cs' = length cs \<and>
    db \<subseteq>\<^sub>m db' \<and> storage_ok env A db' \<and>
    (\<forall>i<length cs. committed env db' (ts ! i) (cs ! i) (cs' ! i))"
  using assms
proof (induction cs arbitrary: ts db)
  case (Cons c cs)
  obtain t ts' where ts: "ts = t # ts'" using Cons.prems(1) by (cases ts) auto
  have tl: "\<exists>p. ts' ! i = Some p \<and> rep env db' p d" if "i < length cs" "cs ! i = Some d" "db \<subseteq>\<^sub>m db'" for i d db'
    using spec [OF Cons.prems(2), of "Suc i"] that rep_mono by (auto simp: ts)
  have fs: "commitOk env A p db (f c l m db)" if "i < length cs" "ts' ! i = Some p" "rep env db p c" "storage_ok env A db" for i p c db
    using spec [OF Cons.prems(3), of "Suc i"] that by (simp add: ts)
  have IH: "\<exists>cs' db''. commitChildrenLoop cs (map (map_option f) cs) l m db' = (Inr (), cs', db'') \<and> length cs' = length cs \<and>
    db' \<subseteq>\<^sub>m db'' \<and> storage_ok env A db'' \<and>
    (\<forall>i<length cs. committed env db'' (ts' ! i) (cs ! i) (cs' ! i))"
    if "db \<subseteq>\<^sub>m db'" "storage_ok env A db'" for db'
    by (rule Cons.IH) (use Cons.prems(1) ts tl that fs in auto)
  show ?case
  proof (cases c)
    case None
    then show ?thesis using IH [OF map_le_refl Cons.prems(4)] by (auto simp: ts All_less_Suc2)
  next
    case (Some d)
    then obtain p where p: "t = Some p" "rep env db p d" using spec [OF Cons.prems(2), of 0] by (auto simp: ts)
    obtain d' db1 where d': "f d l m db = (Inr (), d', db1)" "db \<subseteq>\<^sub>m db1" "storage_ok env A db1" "rep env db1 p d'"
      "getHash d' \<noteq> None" "stored env db1 p"
    proof -
      have "commitOk env A p db (f d l m db)" using spec [OF Cons.prems(3), of 0] p Cons.prems(4) by (simp add: ts)
      then show ?thesis using that by (auto simp: commitOk_def)
    qed
    obtain cs' db2 where cs': "commitChildrenLoop cs (map (map_option f) cs) l m db1 = (Inr (), cs', db2)" "length cs' = length cs"
      "db1 \<subseteq>\<^sub>m db2" "storage_ok env A db2"
      "\<forall>i<length cs. committed env db2 (ts' ! i) (cs ! i) (cs' ! i)"
      using IH [OF d'(2,3)] by blast
    have "db \<subseteq>\<^sub>m db2" using d'(2) cs'(3) by (rule map_le_trans)
    moreover have "rep env db2 p d'" "stored env db2 p" using d'(4,6) cs'(3) rep_mono stored_mono by blast+
    ultimately show ?thesis using Some p(1) d'(1,5) cs' by (auto simp: ts All_less_Suc2)
  qed
qed simp

lemma commit_branch:
  assumes c: "trie_codec env" and k: "canon t (PBranch ts)" and r: "rep env db (PBranch ts) n" and s: "storage_ok env A db"
    and e: "encs env (PBranch ts) \<subseteq> A"
    and IH: "\<And>i p x level db. at ts i = Some p \<Longrightarrow> rep env db p x \<Longrightarrow> storage_ok env A db \<Longrightarrow>
      commitOk env A p db (commitDirty env x level m db)"
  shows "commitOk env A (PBranch ts) db (commitDirty env n level m db)"
proof -
  obtain bn children b where n: "n = BranchNode bn children b" using r by (auto elim: rep_branchE)
  note f = r [unfolded n rep_branch]
  have ne: "branchNode_isEmptyOrNil bn children = None" using rep_not_empty [OF c r k] by (simp add: n)
  show ?thesis
  proof (cases "dirty b")
    case False
    then show ?thesis using commit_clean [OF r _ s] ne by (simp add: n isDirty_def branchNode_commitDirty_def Let_def)
  next
    case True
    let ?l = "level + 1"
    have ch: "\<forall>i x. i < length children \<longrightarrow> children ! i = Some x \<longrightarrow> (\<exists>p. ts ! i = Some p \<and> rep env db p x)" using f by auto
    have IH': "\<forall>i p x db. i < length children \<longrightarrow> ts ! i = Some p \<longrightarrow> rep env db p x \<longrightarrow> storage_ok env A db \<longrightarrow>
      commitOk env A p db (commitDirty env x ?l m db)"
    proof (intro allI impI)
      fix i p x db assume "i < length children" "ts ! i = Some p" "rep env db p x" "storage_ok env A db"
      then show "commitOk env A p db (commitDirty env x ?l m db)" using f by (intro IH [of i]) (simp_all add: at_def)
    qed
    have "length ts = length children" using f by simp
    from commitChildren_ok [where f = "commitDirty env" and l = ?l and m = m, OF this ch IH' s]
    obtain cs' db' where cs': "commitChildrenLoop children (map (map_option (commitDirty env)) children) ?l m db = (Inr (), cs', db')"
      "length cs' = length children" "db \<subseteq>\<^sub>m db'" "storage_ok env A db'"
      "\<forall>i<length children. committed env db' (ts ! i) (children ! i) (cs' ! i)"
      by blast
    have com: "committed env db' (ts ! i) (children ! i) (cs' ! i)" if "i < 17" for i using cs'(5) f that by simp
    have st: "stored env db' p" if "i < 17" "ts ! i = Some p" for i p
    proof (cases "children ! i")
      case None
      then show ?thesis using brepD(2) [OF rep_brep [OF r [unfolded n]] that(1) None that(2)] stored_mono [OF _ cs'(3)] by blast
    next
      case (Some x)
      then show ?thesis using com [OF that(1)] that(2) by auto
    qed
    have "brep env db' ts (bn, cs')"
      unfolding brep_def prod.case
    proof (intro conjI allI impI)
      fix i x assume i: "i < 17" "cs' ! i = Some x"
      then show "\<exists>p. ts ! i = Some p \<and> rep env db' p x" using com [OF i(1)] by (cases "children ! i") auto
    next
      fix i assume i: "i < 17" "cs' ! i = None"
      then have "children ! i = None" using com [OF i(1)] by (cases "children ! i") auto
      then show "case ts ! i of None \<Rightarrow> EncodedChildren bn ! i = []
        | Some p \<Rightarrow> EncodedChildren bn ! i = phash env p \<and> stored env db' p"
        using brepD(2,3) [OF rep_brep [OF r [unfolded n]] i(1)] st [OF i(1)] by (auto split: option.splits)
    qed (use f cs'(2) in auto)
    moreover have "\<forall>c\<in>set cs'. hashedOpt c"
    proof
      fix x assume "x \<in> set cs'"
      then obtain i where i: "i < 17" "x = cs' ! i" using cs'(2) f by (auto simp: in_set_conv_nth)
      then show "hashedOpt x" using com [OF i(1)] by (cases "children ! i") auto
    qed
    moreover have "base_ok env db' (PBranch ts) b" using f base_ok_mono cs'(3) by blast
    ultimately have "rep env db' (PBranch ts) (BranchNode bn cs' b)" using f by (intro rep.branch) (auto simp: brep_def)
    moreover have "childrenStored env db' (PBranch ts)" using st f by (auto simp: childrenStored_def at_def split: if_splits)
    ultimately have "commitOk env A (PBranch ts) db' (commitSelf env ?l m (BranchNode bn cs' b) db')"
      by (intro commitSelf_rep [OF c k _ cs'(4) e])
    then have "commitOk env A (PBranch ts) db (commitSelf env ?l m (BranchNode bn cs' b) db')"
      using cs'(3) unfolding commitOk_def by (blast intro: map_le_trans)
    then show ?thesis using True ne cs'(1) by (simp add: n branchNode_commitDirty_def Let_def)
  qed
qed

lemma commit_ext:
  assumes c: "trie_codec env" and k: "canon t (PExt k' p)" and r: "rep env db (PExt k' p) n" and s: "storage_ok env A db"
    and e: "encs env (PExt k' p) \<subseteq> A"
    and IH: "\<And>x level db. rep env db p x \<Longrightarrow> storage_ok env A db \<Longrightarrow> commitOk env A p db (commitDirty env x level m db)"
  shows "commitOk env A (PExt k' p) db (commitDirty env n level m db)"
proof -
  obtain en child b where n: "n = ExtensionNode en child b" using r by (auto elim: rep_extE)
  note f = r [unfolded n rep_ext]
  have ne: "extensionNode_isEmptyOrNil en child = None" using rep_not_empty [OF c r k] by (simp add: n)
  let ?l = "level + 1"
  consider (clean) "\<not> dirty b" | (loaded) x where "dirty b" "child = Some x" | (collapsed) "dirty b" "child = None"
    by (cases child) auto
  then show ?thesis
  proof cases
    case clean
    then show ?thesis using commit_clean [OF r _ s] ne by (simp add: n isDirty_def extensionNode_commitDirty_def Let_def)
  next
    case loaded
    then obtain x' db' where x': "commitDirty env x ?l m db = (Inr (), x', db')" "db \<subseteq>\<^sub>m db'" "storage_ok env A db'"
      "rep env db' p x'" "getHash x' \<noteq> None" "stored env db' p" using IH [of db x ?l] f s by (auto simp: commitOk_def)
    have "base_ok env db' (PExt k' p) b" using f base_ok_mono x'(2) by blast
    then have "rep env db' (PExt k' p) (ExtensionNode en (Some x') b)" using f x'(4,5) loaded by (intro rep.ext) auto
    moreover have "childrenStored env db' (PExt k' p)" using x'(6) by (simp add: childrenStored_def)
    ultimately have "commitOk env A (PExt k' p) db' (commitSelf env ?l m (ExtensionNode en (Some x') b) db')"
      by (intro commitSelf_rep [OF c k _ x'(3) e])
    then have "commitOk env A (PExt k' p) db (commitSelf env ?l m (ExtensionNode en (Some x') b) db')"
      using x'(2) unfolding commitOk_def by (blast intro: map_le_trans)
    then show ?thesis using loaded ne x'(1) by (simp add: n extensionNode_commitDirty_def Let_def)
  next
    case collapsed
    then have "childrenStored env db (PExt k' p)" using f by (simp add: childrenStored_def)
    then show ?thesis using collapsed ne commitSelf_rep [OF c k r s e] by (simp add: n extensionNode_commitDirty_def Let_def)
  qed
qed

lemma commit_leaf:
  assumes c: "trie_codec env" and k: "canon t (PLeaf k' v w)" and r: "rep env db (PLeaf k' v w) n" and s: "storage_ok env A db"
    and e: "encs env (PLeaf k' v w) \<subseteq> A"
  shows "commitOk env A (PLeaf k' v w) db (commitDirty env n level m db)"
proof -
  obtain b where n: "n = LeafNode (lnOf k' v w) b" using r by (auto elim: rep_leafE)
  show ?thesis
  proof (cases "dirty b")
    case False
    then show ?thesis using commit_clean [OF r _ s] by (simp add: n isDirty_def leafNode_commitDirty_def leafNode_isEmptyOrNil_def)
  next
    case True
    have "childrenStored env db (PLeaf k' v w)" by (simp add: childrenStored_def)
    from commit_written [OF c k r s e this] show ?thesis using True
      by (auto simp: n commitOk_def leafNode_commitDirty_def leafNode_isEmptyOrNil_def setDirty_def)
  qed
qed

lemma commit_rep:
  assumes c: "trie_codec env"
  shows "canon t p \<Longrightarrow> rep env db p n \<Longrightarrow> storage_ok env A db \<Longrightarrow> encs env p \<subseteq> A \<Longrightarrow>
    commitOk env A p db (commitDirty env n level m db)"
proof (induction p arbitrary: t n db level rule: ptrie_induct)
  case (Leaf k v w)
  then show ?case by (intro commit_leaf [OF c])
next
  case (Ext k p)
  have "canon False p" using Ext.prems(1) by (auto simp: canon_ext)
  moreover have "encs env p \<subseteq> A" using Ext.prems(4) encs_child(1) by blast
  ultimately show ?case using commit_ext [OF c Ext.prems] Ext.IH by blast
next
  case (Branch ts)
  have "canon (i = 16) p \<and> encs env p \<subseteq> A" if "at ts i = Some p" for i p
    using Branch.prems(1,4) that encs_child(2) [OF that] by (auto simp: canon_branch)
  then show ?case using commit_branch [OF c Branch.prems] Branch.IH by blast
qed

end
