(* ===== verification/PatriciaMerkleTrie.thy ===== *)
theory PatriciaMerkleTrie
  imports TrieOps TrieHash
begin

text \<open>
  The trie: \<^verbatim>\<open>src/trie/patriciaMerkleTrie.go\<close>. The record holds the root and the bookkeeping of obsolete
  hashes, with the storage as a map. The environment (marshaller and hasher) and the bound on the depth of the recursion are
  arguments. An operation returns its result and the trie after it.
\<close>

record patriciaMerkleTrie =
  root :: "node option"
  trieStorage :: trieDB
  oldHashes :: "bytes list"
  oldRoot :: bytes
  maxTrieLevelInMemory :: u64

definition emptyTrie :: "trieDB \<Rightarrow> u64 \<Rightarrow> patriciaMerkleTrie" where
  "emptyTrie storage maxLevel =
     \<lparr>root = None, trieStorage = storage, oldHashes = [], oldRoot = [], maxTrieLevelInMemory = maxLevel\<rparr>"

text \<open>The arguments that the constructor compares with \<^verbatim>\<open>nil\<close> are always there in the model.\<close>

definition NewTrie :: "trieDB \<Rightarrow> u64 \<Rightarrow> patriciaMerkleTrie tres" where
  "NewTrie storage maxLevel =
     (if maxLevel = 0 then Inl ErrInvalidLevelValue else Inr (emptyTrie storage maxLevel))"

definition rootDepthLevel :: u32 where
  "rootDepthLevel = 0"

section \<open>Reading and writing\<close>

definition Get :: "nat \<Rightarrow> trieEnv \<Rightarrow> bytes \<Rightarrow> patriciaMerkleTrie \<Rightarrow> ((bytes option) tres \<times> u32) \<times> patriciaMerkleTrie" where
  "Get fuel env key tr =
     (case root tr of
        None \<Rightarrow> ((Inr None, 0), tr)
      | Some n \<Rightarrow>
         (case tryGet fuel env (trieStorage tr) n (keyBytesToHex key) rootDepthLevel of
            ((Inl err, depth), n) \<Rightarrow>
              ((Inl (Wrap (''trie get error for key '' @ hexEncode key) err), depth), tr\<lparr>root := Some n\<rparr>)
          | ((Inr val, depth), n) \<Rightarrow> ((Inr val, depth), tr\<lparr>root := Some n\<rparr>)))"

definition rememberOldRoot :: "node \<Rightarrow> patriciaMerkleTrie \<Rightarrow> patriciaMerkleTrie" where
  "rememberOldRoot n tr = (if \<not> isDirty n then tr\<lparr>oldRoot := slice (getHash n)\<rparr> else tr)"

definition trieDelete :: "nat \<Rightarrow> trieEnv \<Rightarrow> hexkey \<Rightarrow> patriciaMerkleTrie \<Rightarrow> unit tres \<times> patriciaMerkleTrie" where
  "trieDelete fuel env hexKey tr =
     (case root tr of
        None \<Rightarrow> (Inr (), tr)
      | Some n \<Rightarrow>
         (let tr = rememberOldRoot n tr in
          case nodeDelete fuel env (trieStorage tr) n hexKey of
            (Inl err, n) \<Rightarrow> (Inl err, tr\<lparr>root := Some n\<rparr>)
          | (Inr (_, newRoot, hashes), _) \<Rightarrow> (Inr (), tr\<lparr>root := newRoot, oldHashes := oldHashes tr @ hashes\<rparr>)))"

definition trieUpdate ::
  "nat \<Rightarrow> trieEnv \<Rightarrow> bytes \<Rightarrow> bytes \<Rightarrow> u8 \<Rightarrow> patriciaMerkleTrie \<Rightarrow> unit tres \<times> patriciaMerkleTrie" where
  "trieUpdate fuel env key val version tr =
     (let hexKey = keyBytesToHex key in
      if length val \<noteq> 0 then
        let newData = \<lparr>Key = hexKey, Value = Some val, Version = version\<rparr> in
        case root tr of
          None \<Rightarrow> (Inr (), tr\<lparr>root := Some (newLeafNode newData)\<rparr>)
        | Some n \<Rightarrow>
           (let tr = rememberOldRoot n tr in
            case nodeInsert fuel env (trieStorage tr) n newData of
              (Inl err, n) \<Rightarrow> (Inl err, tr\<lparr>root := Some n\<rparr>)
            | (Inr (None, _), n) \<Rightarrow> (Inr (), tr\<lparr>root := Some n\<rparr>)
            | (Inr (Some newRoot, hashes), _) \<Rightarrow>
                (Inr (), tr\<lparr>root := Some newRoot, oldHashes := oldHashes tr @ hashes\<rparr>))
      else trieDelete fuel env hexKey tr)"

definition Update :: "nat \<Rightarrow> trieEnv \<Rightarrow> bytes \<Rightarrow> bytes \<Rightarrow> patriciaMerkleTrie \<Rightarrow> unit tres \<times> patriciaMerkleTrie" where
  "Update fuel env key val tr = trieUpdate fuel env key val NotSpecified tr"

definition UpdateWithVersion ::
  "nat \<Rightarrow> trieEnv \<Rightarrow> bytes \<Rightarrow> bytes \<Rightarrow> u8 \<Rightarrow> patriciaMerkleTrie \<Rightarrow> unit tres \<times> patriciaMerkleTrie" where
  "UpdateWithVersion fuel env key val version tr = trieUpdate fuel env key val version tr"

definition Delete :: "nat \<Rightarrow> trieEnv \<Rightarrow> bytes \<Rightarrow> patriciaMerkleTrie \<Rightarrow> unit tres \<times> patriciaMerkleTrie" where
  "Delete fuel env key tr = trieDelete fuel env (keyBytesToHex key) tr"

section \<open>Hashes and the database\<close>

definition EmptyTrieHash :: bytes where
  "EmptyTrieHash = makeBytes 32"

definition IsEmptyTrie :: "bytes \<Rightarrow> bool" where
  "IsEmptyTrie rootHash \<longleftrightarrow> length rootHash = 0 \<or> rootHash = EmptyTrieHash"

definition RootHash :: "trieEnv \<Rightarrow> patriciaMerkleTrie \<Rightarrow> bytes tres \<times> patriciaMerkleTrie" where
  "RootHash env tr =
     (case root tr of
        None \<Rightarrow> (Inr EmptyTrieHash, tr)
      | Some n \<Rightarrow>
         (case getHash n of
            Some h \<Rightarrow> (Inr h, tr)
          | None \<Rightarrow>
             (case setRootHash env n of
                (Inl e, n) \<Rightarrow> (Inl e, tr\<lparr>root := Some n\<rparr>)
              | (Inr _, n) \<Rightarrow> (Inr (slice (getHash n)), tr\<lparr>root := Some n\<rparr>))))"

definition Commit :: "trieEnv \<Rightarrow> patriciaMerkleTrie \<Rightarrow> unit tres \<times> patriciaMerkleTrie" where
  "Commit env tr =
     (case root tr of
        None \<Rightarrow> (Inr (), tr)
      | Some n \<Rightarrow>
          if \<not> isDirty n then (Inr (), tr)
          else
            (case setRootHash env n of
               (Inl e, n) \<Rightarrow> (Inl e, tr\<lparr>root := Some n\<rparr>)
             | (Inr _, n) \<Rightarrow>
                (let tr = tr\<lparr>oldRoot := [], oldHashes := []\<rparr>;
                     (r, n, db) = commitDirty env n 0 (maxTrieLevelInMemory tr) (trieStorage tr)
                 in (r, tr\<lparr>root := Some n, trieStorage := db\<rparr>))))"

definition recreateFromDb :: "trieEnv \<Rightarrow> bytes \<Rightarrow> patriciaMerkleTrie \<Rightarrow> patriciaMerkleTrie tres" where
  "recreateFromDb env rootHash tr =
     thenE (NewTrie (trieStorage tr) (maxTrieLevelInMemory tr)) (\<lambda>newTr.
       thenE (getNodeFromDBAndDecode env (trieStorage tr) rootHash) (\<lambda>newRoot.
         Inr (newTr\<lparr>root := Some (setGivenHash rootHash newRoot)\<rparr>)))"

definition recreate :: "trieEnv \<Rightarrow> bytes \<Rightarrow> patriciaMerkleTrie \<Rightarrow> patriciaMerkleTrie tres" where
  "recreate env rootHash tr =
     (if IsEmptyTrie rootHash then NewTrie (trieStorage tr) (maxTrieLevelInMemory tr)
      else recreateFromDb env rootHash tr)"

definition GetObsoleteHashes :: "patriciaMerkleTrie \<Rightarrow> bytes list" where
  "GetObsoleteHashes tr = oldHashes tr"

definition GetOldRoot :: "patriciaMerkleTrie \<Rightarrow> bytes" where
  "GetOldRoot tr = oldRoot tr"

definition GetDirtyHashes :: "trieEnv \<Rightarrow> patriciaMerkleTrie \<Rightarrow> (bytes set) tres \<times> patriciaMerkleTrie" where
  "GetDirtyHashes env tr =
     (case root tr of
        None \<Rightarrow> (Inr {}, tr)
      | Some n \<Rightarrow>
         (case setRootHash env n of
            (Inl e, n) \<Rightarrow> (Inl e, tr\<lparr>root := Some n\<rparr>)
          | (Inr _, n) \<Rightarrow>
             (case getDirtyHashes n {} of
                (Inl e, _) \<Rightarrow> (Inl e, tr\<lparr>root := Some n\<rparr>)
              | (Inr _, dirtyHashes) \<Rightarrow> (Inr dirtyHashes, tr\<lparr>root := Some n\<rparr>))))"

definition GetAllHashes :: "nat \<Rightarrow> trieEnv \<Rightarrow> patriciaMerkleTrie \<Rightarrow> (bytes list) tres \<times> patriciaMerkleTrie" where
  "GetAllHashes fuel env tr =
     (case root tr of
        None \<Rightarrow> (Inr [], tr)
      | Some n \<Rightarrow>
         (case setRootHash env n of
            (Inl e, n) \<Rightarrow> (Inl e, tr\<lparr>root := Some n\<rparr>)
          | (Inr _, n) \<Rightarrow>
             (case getAllHashes fuel env (trieStorage tr) n of
                (r, n) \<Rightarrow> (r, tr\<lparr>root := Some n\<rparr>))))"

section \<open>Merkle proofs\<close>

text \<open>The node with the child on the path of a key replaced: the loop of \<^verbatim>\<open>GetProof\<close> works on the nodes of
  the tree itself.\<close>

fun replaceNext :: "node \<Rightarrow> hexkey \<Rightarrow> node \<Rightarrow> node" where
  "replaceNext (ExtensionNode en child b) key c = ExtensionNode en (Some c) b"
| "replaceNext (BranchNode bn children b) key c = BranchNode bn (children[hd key := Some c]) b"
| "replaceNext n key c = n"

fun getProofLoop :: "nat \<Rightarrow> trieEnv \<Rightarrow> trieDB \<Rightarrow> node \<Rightarrow> hexkey \<Rightarrow> (bytes list \<times> bytes option) tres \<times> node" where
  "getProofLoop 0 env db n key = (Inl OutOfFuel, n)"
| "getProofLoop (Suc fuel) env db n key =
     (case getEncodedNode env n of
        Inl e \<Rightarrow> (Inl e, n)
      | Inr encodedNode \<Rightarrow>
         (case getNext env db n key of
            (Inl e, n) \<Rightarrow> (Inl e, n)
          | (Inr (None, _), n') \<Rightarrow> (Inr ([encodedNode], getValue n), n')
          | (Inr (Some c, rest), n) \<Rightarrow>
             (case getProofLoop fuel env db c rest of
                (Inl e, c) \<Rightarrow> (Inl e, replaceNext n key c)
              | (Inr (proof, v), c) \<Rightarrow> (Inr (encodedNode # proof, v), replaceNext n key c))))"

definition GetProof ::
  "nat \<Rightarrow> trieEnv \<Rightarrow> bytes \<Rightarrow> patriciaMerkleTrie \<Rightarrow> (bytes list \<times> bytes option) tres \<times> patriciaMerkleTrie" where
  "GetProof fuel env key tr =
     (case root tr of
        None \<Rightarrow> (Inl ErrNilNode, tr)
      | Some n \<Rightarrow>
         (case setRootHash env n of
            (Inl e, n) \<Rightarrow> (Inl e, tr\<lparr>root := Some n\<rparr>)
          | (Inr _, n) \<Rightarrow>
             (case getProofLoop fuel env (trieStorage tr) n (keyBytesToHex key) of
                (r, n) \<Rightarrow> (r, tr\<lparr>root := Some n\<rparr>))))"

text \<open>One step of the verification: whether the proof is complete, the hash the next node must have, and the
  rest of the key.\<close>

definition leafNode_getNextHashAndKey :: "CollapsedLn \<Rightarrow> hexkey \<Rightarrow> bool \<times> bytes \<times> hexkey" where
  "leafNode_getNextHashAndKey ln key = (if key = LnKey ln then (True, [], []) else (False, [], []))"

definition extensionNode_getNextHashAndKey :: "CollapsedEn \<Rightarrow> hexkey \<Rightarrow> (bool \<times> bytes \<times> hexkey) tres" where
  "extensionNode_getNextHashAndKey en key =
     (if length key = 0 then Inr (False, [], [])
      else if length key < length (EnKey en) then Inl Panic
      else Inr (False, EncodedChild en, drop (length (EnKey en)) key))"

definition branchNode_getNextHashAndKey :: "CollapsedBn \<Rightarrow> hexkey \<Rightarrow> (bool \<times> bytes \<times> hexkey) tres" where
  "branchNode_getNextHashAndKey bn key =
     (case key of
        [] \<Rightarrow> Inr (False, [], [])
      | x # rest \<Rightarrow>
          if length (EncodedChildren bn) \<le> x then Inl Panic else Inr (False, EncodedChildren bn ! x, rest))"

fun getNextHashAndKey :: "node \<Rightarrow> hexkey \<Rightarrow> (bool \<times> bytes \<times> hexkey) tres" where
  "getNextHashAndKey (LeafNode ln b) key = Inr (leafNode_getNextHashAndKey ln key)"
| "getNextHashAndKey (ExtensionNode en child b) key = extensionNode_getNextHashAndKey en key"
| "getNextHashAndKey (BranchNode bn children b) key = branchNode_getNextHashAndKey bn key"

fun verifyProofLoop :: "trieEnv \<Rightarrow> bytes \<Rightarrow> hexkey \<Rightarrow> bytes option list \<Rightarrow> bool tres" where
  "verifyProofLoop env wantHash key [] = Inr False"
| "verifyProofLoop env wantHash key (None # proof) = Inr False"
| "verifyProofLoop env wantHash key (Some encodedNode # proof) =
     (if wantHash \<noteq> Compute env encodedNode then Inr False
      else thenE (decodeNode env encodedNode) (\<lambda>n.
        thenE (getNextHashAndKey n key) (\<lambda>(proofVerified, wantHash, key).
          if proofVerified then Inr True else verifyProofLoop env wantHash key proof)))"

definition verifyProof :: "trieEnv \<Rightarrow> bytes \<Rightarrow> bytes \<Rightarrow> bytes option list \<Rightarrow> bool tres" where
  "verifyProof env rootHash key proof = verifyProofLoop env rootHash (keyBytesToHex key) proof"

definition VerifyProof :: "trieEnv \<Rightarrow> bytes \<Rightarrow> bytes \<Rightarrow> bytes option list \<Rightarrow> bool tres" where
  "VerifyProof env rootHash key proof =
     thenE (verifyProof env rootHash (Compute env key) proof) (\<lambda>ok.
       if ok then Inr True else verifyProof env rootHash key proof)"

end
