(* ===== verification/TrieProof.thy ===== *)
theory TrieProof
  imports TrieCommit PatriciaMerkleTrie
begin

text \<open>
  Merkle proofs and what a root hash says: the proof for a key of the trie is found and accepted, an accepted proof leads to a
  leaf of the trie, and trees with the same hash are equal when encodings do not collide.
\<close>

section \<open>Keys\<close>

lemma nibble_or: "(push_bit 4 (n div 16) mod 256) OR (n mod 16) = n" if "n < 256" for n :: nat
proof -
  have "16 * (n div 16) + n mod 16 = n" by simp
  then have "16 * (n div 16) \<le> n" by linarith
  then have div: "push_bit 4 (n div 16) mod 256 = 16 * (n div 16)"
    using that by (simp add: push_bit_eq_mult mult.commute)
  have "bit (16 * (n div 16)) i \<Longrightarrow> \<not> bit (n mod 16) i" for i
  proof -
    have "16 * (n div 16) = push_bit 4 (drop_bit 4 n)" "n mod 16 = take_bit 4 n"
      by (simp_all add: push_bit_eq_mult drop_bit_eq_div take_bit_eq_mod mult.commute)
    then show "bit (16 * (n div 16)) i \<Longrightarrow> \<not> bit (n mod 16) i" by (simp add: bit_simps)
  qed
  then have "16 * (n div 16) OR n mod 16 = 16 * (n div 16) + n mod 16"
    by (intro disjunctive_add [symmetric]) blast
  then show ?thesis using div by simp
qed

lemma keyLoop_append: "keyBytesToHexLoop k ns = keyBytesToHexLoop k [] @ ns"
  by (induction k arbitrary: ns) (simp, metis append_Cons append_Nil append_assoc keyBytesToHexLoop.simps(2))

lemma hexPairs_append: "even (length a) \<Longrightarrow> hexPairs (a @ b) = hexPairs b @ hexPairs a"
  by (induction a rule: hexPairs.induct) auto

lemma hexPairs_loop: "even (length (keyBytesToHexLoop k [])) \<and> length (keyBytesToHexLoop k []) = 2 * length k \<and>
    hexPairs (keyBytesToHexLoop k []) = k"
proof (induction k)
  case (Cons c k)
  have "hexPairs [of_char c mod 16, of_char c div 16] = [c]" using nibble_or [of "of_char c"] by simp
  then show ?case using Cons by (simp add: keyLoop_append [of k "_ # _"] hexPairs_append)
qed simp

lemma length_hex: "length (keyBytesToHex k) = 2 * length k + 1"
  using hexPairs_loop [of k] keyLoop_append [of k "[16]"] by (simp add: keyBytesToHex_def)

lemma hex_round_trip: "hexToTrieKeyBytes (keyBytesToHex k) = Inr k"
  using hexPairs_loop [of k] keyLoop_append [of k "[16]"] by (simp add: keyBytesToHex_def hexToTrieKeyBytes_def Let_def)

lemma hex_inj: "keyBytesToHex a = keyBytesToHex b \<longleftrightarrow> a = b"
  by (metis hex_round_trip sum.inject(2))

section \<open>Proofs\<close>

lemma verify_step:
  assumes "trie_codec env" and "canon t p"
  shows "verifyProofLoop env (phash env p) key (Some (penc env p) # proof) =
    thenE (getNextHashAndKey (collapsedNode env \<lparr>hash = None, dirty = False\<rparr> p) key) (\<lambda>(ok, wantHash, key).
      if ok then Inr True else verifyProofLoop env wantHash key proof)"
  using decode_penc [OF assms] by (simp add: phash_penc)

text \<open>The nodes on the path of a key.\<close>

primrec pathEncs :: "trieEnv \<Rightarrow> ptrie \<Rightarrow> hexkey \<Rightarrow> bytes list" where
  "pathEncs env (PLeaf k v w) = (\<lambda>key. [penc env (PLeaf k v w)])"
| "pathEncs env (PExt k c) = (\<lambda>key. penc env (PExt k c) # pathEncs env c (drop (length k) key))"
| "pathEncs env (PBranch ts) = (\<lambda>key. penc env (PBranch ts) # (case key of [] \<Rightarrow> []
     | x # xs \<Rightarrow> (case at (map (map_option (pathEncs env)) ts) x of None \<Rightarrow> [] | Some f \<Rightarrow> f xs)))"

definition proofOk :: "trieEnv \<Rightarrow> trieDB \<Rightarrow> ptrie \<Rightarrow> node \<Rightarrow> hexkey \<Rightarrow> (bytes list \<times> bytes option) tres \<times> node \<Rightarrow> bool" where
  "proofOk env db p n key res \<longleftrightarrow>
     (\<exists>r n'. res = (r, n') \<and> rep env db p n' \<and> getHash n' = getHash n \<and>
        (case plookup p key of
           None \<Rightarrow> r = Inl ErrNodeNotFound
         | Some (v, w) \<Rightarrow> r = Inr (pathEncs env p key, Some v) \<and>
             verifyProofLoop env (phash env p) key (map Some (pathEncs env p key)) = Inr True))"

lemma proofOk_absent:
  "rep env db p n' \<Longrightarrow> getHash n' = getHash n \<Longrightarrow> plookup p key = None \<Longrightarrow> proofOk env db p n key (Inl ErrNodeNotFound, n')"
  by (simp add: proofOk_def)

lemma proof_leaf:
  assumes c: "trie_codec env" and k: "canon t (PLeaf k v w)" and r: "rep env db (PLeaf k v w) n" and h: "getHash n \<noteq> None"
  shows "proofOk env db (PLeaf k v w) n key (getProofLoop (Suc f) env db n key)"
proof -
  obtain b where n: "n = LeafNode (lnOf k v w) b" using r by (auto elim: rep_leafE)
  have enc: "getEncodedNode env n = Inr (penc env (PLeaf k v w))" by (rule encode_full [OF c r k rep_full [OF r h]])
  have ne: "leafNode_isEmptyOrNil (lnOf k v w) = None" by (simp add: leafNode_isEmptyOrNil_def)
  show ?thesis
    using r enc ne verify_step [OF c k, of key "[]"]
    by (cases "key = k") (auto simp: n proofOk_def leafNode_getNext_def leafNode_getNextHashAndKey_def simp del: penc.simps getEncodedNode.simps)
qed

lemma proof_ext:
  assumes c: "trie_codec env" and k: "canon t (PExt k p)" and r: "rep env db (PExt k p) n" and h: "getHash n \<noteq> None"
    and s: "subkey t key" and len: "length key < Suc f"
    and IH: "\<And>x key. rep env db p x \<Longrightarrow> getHash x \<noteq> None \<Longrightarrow> subkey False key \<Longrightarrow> length key < f \<Longrightarrow>
      proofOk env db p x key (getProofLoop f env db x key)"
  shows "proofOk env db (PExt k p) n key (getProofLoop (Suc f) env db n key)"
proof -
  have t: "t = False" using k by (auto simp: canon_ext)
  note k = k [unfolded t] and s = s [unfolded t]
  obtain en child b where n: "n = ExtensionNode en child b" "EnKey en = k" using r by (auto elim: rep_extE)
  have ne: "extensionNode_isEmptyOrNil en child = None" using rep_not_empty [OF c r k] by (simp add: n)
  have enc: "getEncodedNode env n = Inr (penc env (PExt k p))" by (rule encode_full [OF c r k rep_full [OF r h]])
  show ?thesis
  proof (cases "take (length k) key = k")
    case False
    then have "getNext env db n key = (Inl ErrNodeNotFound, n)" using n ne by (auto simp: extensionNode_getNext_def Let_def)
    then show ?thesis using enc r ext_mismatch [OF False] by (simp add: proofOk_absent)
  next
    case True
    note m = ext_match [OF k s True]
    let ?rest = "drop (length k) key"
    obtain x where x: "resolveIfCollapsed env db n 0 = Inr (ExtensionNode en (Some x) b)" "rep env db p x"
      "rep env db (PExt k p) (ExtensionNode en (Some x) b)" using resolve_ext [OF c _ k] r n(1) by blast
    have hx: "getHash x \<noteq> None" using x(3) h by (auto simp: rep_ext n getHash_def)
    have nxt: "getNext env db n key = (Inr (Some x, ?rest), ExtensionNode en (Some x) b)"
      using n ne True m(1) x(1) by (simp add: extensionNode_getNext_def)
    have "proofOk env db p x ?rest (getProofLoop f env db x ?rest)"
      by (rule IH [OF x(2) hx m(2)]) (use m(4) len in simp)
    then obtain q x' where q: "getProofLoop f env db x ?rest = (q, x')" "rep env db p x'" "getHash x' = getHash x"
      "case plookup p ?rest of None \<Rightarrow> q = Inl ErrNodeNotFound
        | Some (v, w) \<Rightarrow> q = Inr (pathEncs env p ?rest, Some v) \<and> verifyProofLoop env (phash env p) ?rest (map Some (pathEncs env p ?rest)) = Inr True"
      unfolding proofOk_def by blast
    have r': "rep env db (PExt k p) (ExtensionNode en (Some x') b)" using x(3) q(2,3) by (simp add: rep_ext)
    have "verifyProofLoop env (phash env (PExt k p)) key (Some (penc env (PExt k p)) # ns) =
        verifyProofLoop env (phash env p) ?rest ns" for ns
      using verify_step [OF c k, of key ns] s m(1) by (auto simp: extensionNode_getNextHashAndKey_def enOf_def)
    then show ?thesis using enc nxt q(1,4) r' m(5) n(1)
      by (auto simp: proofOk_def getHash_def simp del: penc.simps split: option.splits)
  qed
qed

lemma proof_branch:
  assumes c: "trie_codec env" and k: "canon t (PBranch ts)" and r: "rep env db (PBranch ts) n" and h: "getHash n \<noteq> None"
    and s: "subkey t key" and len: "length key < Suc f"
    and IH: "\<And>i p x key. at ts i = Some p \<Longrightarrow> rep env db p x \<Longrightarrow> getHash x \<noteq> None \<Longrightarrow> subkey (i = 16) key \<Longrightarrow> length key < f \<Longrightarrow>
      proofOk env db p x key (getProofLoop f env db x key)"
  shows "proofOk env db (PBranch ts) n key (getProofLoop (Suc f) env db n key)"
proof -
  have t: "t = False" "length ts = 17" using k by (auto simp: canon_branch)
  obtain bn children0 b where n: "n = BranchNode bn children0 b" using r by (auto elim: rep_branchE)
  have ne: "branchNode_isEmptyOrNil bn children0 = None" using rep_not_empty [OF c r k] by (simp add: n)
  have enc: "getEncodedNode env n = Inr (penc env (PBranch ts))" by (rule encode_full [OF c r k rep_full [OF r h]])
  obtain x xs where key: "key = x # xs" using s t(1) by (cases key) auto
  then have x: "x < 17" "subkey (x = 16) xs" "\<not> childPosOutOfRange x" using s by (auto simp: childPosOutOfRange_def)
  obtain children where ch: "resolveIfCollapsed env db n x = Inr (BranchNode bn children b)"
    "rep env db (PBranch ts) (BranchNode bn children b)" "ts ! x = None \<longrightarrow> children ! x = None"
    "\<forall>p. ts ! x = Some p \<longrightarrow> (\<exists>m. children ! x = Some m \<and> rep env db p m)"
    using resolve_branch [OF c _ k x(1)] r n by blast
  have at: "at ts x = ts ! x" using t(2) x(1) by (simp add: at_def)
  show ?thesis
  proof (cases "ts ! x")
    case None
    then have "getNext env db n key = (Inl ErrNodeNotFound, BranchNode bn children b)"
      using n ne key x(3) ch(1,3) by (simp add: branchNode_getNext_def)
    then show ?thesis using enc ch(2) None at by (simp add: key plookup_branch proofOk_absent n getHash_def)
  next
    case (Some p)
    then obtain m where m: "children ! x = Some m" "rep env db p m" using ch(4) by blast
    have hm: "getHash m \<noteq> None" using rep_child_hash [OF ch(2) x(1) m(1)] h by (simp add: n getHash_def)
    have nxt: "getNext env db n key = (Inr (Some m, xs), BranchNode bn children b)"
      using n ne key x(3) ch(1) m(1) by (simp add: branchNode_getNext_def)
    have "proofOk env db p m xs (getProofLoop f env db m xs)"
      by (rule IH [OF _ m(2) hm x(2)]) (use Some at len key in auto)
    then obtain q m' where q: "getProofLoop f env db m xs = (q, m')" "rep env db p m'" "getHash m' = getHash m"
      "case plookup p xs of None \<Rightarrow> q = Inl ErrNodeNotFound
        | Some (v, w) \<Rightarrow> q = Inr (pathEncs env p xs, Some v) \<and> verifyProofLoop env (phash env p) xs (map Some (pathEncs env p xs)) = Inr True"
      unfolding proofOk_def by blast
    have r': "rep env db (PBranch ts) (BranchNode bn (children[x := Some m']) b)"
      using rep_branch_upd [OF ch(2) x(1) Some q(2)] q(3) hm by simp
    have "verifyProofLoop env (phash env (PBranch ts)) key (Some (penc env (PBranch ts)) # ns) =
        verifyProofLoop env (phash env p) xs ns" for ns
      using verify_step [OF c k, of key ns] x(1) t(2) Some by (simp add: key branchNode_getNextHashAndKey_def bnOf_def)
    moreover have "plookup (PBranch ts) key = plookup p xs" using Some at by (simp add: key plookup_branch)
    moreover have atp: "at ts x = Some p" using Some at by simp
    ultimately show ?thesis using enc nxt q(1,4) r' n
      by (auto simp: proofOk_def getHash_def key atp simp del: penc.simps split: option.splits)
  qed
qed

lemma proof_rep:
  assumes c: "trie_codec env"
  shows "canon t p \<Longrightarrow> rep env db p n \<Longrightarrow> getHash n \<noteq> None \<Longrightarrow> subkey t key \<Longrightarrow> length key < fuel \<Longrightarrow>
    proofOk env db p n key (getProofLoop fuel env db n key)"
proof (induction p arbitrary: t n key fuel rule: ptrie_induct)
  case (Leaf k v w)
  then obtain f where "fuel = Suc f" by (cases fuel) auto
  then show ?case using proof_leaf [OF c Leaf.prems(1-3)] by simp
next
  case (Ext k p)
  then obtain f where f: "fuel = Suc f" by (cases fuel) auto
  have "canon False p" using Ext.prems(1) by (auto simp: canon_ext)
  then show ?case unfolding f using proof_ext [OF c Ext.prems(1-4)] Ext.prems(5) Ext.IH f by blast
next
  case (Branch ts)
  then obtain f where f: "fuel = Suc f" by (cases fuel) auto
  have "\<And>i p. at ts i = Some p \<Longrightarrow> canon (i = 16) p" using Branch.prems(1) by (auto simp: canon_branch)
  then show ?case unfolding f using proof_branch [OF c Branch.prems(1-4)] Branch.prems(5) Branch.IH f by blast
qed

text \<open>The keys that an accepted proof may have: the verification skips as many nibbles as the key of an extension has and
  does not compare them.\<close>

primrec loosely :: "ptrie \<Rightarrow> hexkey \<Rightarrow> bool" where
  "loosely (PLeaf k v w) = (\<lambda>key. key = k)"
| "loosely (PExt k c) = (\<lambda>key. length k \<le> length key \<and> loosely c (drop (length k) key))"
| "loosely (PBranch ts) = (\<lambda>key. case key of [] \<Rightarrow> False
     | x # xs \<Rightarrow> (case at (map (map_option loosely) ts) x of None \<Rightarrow> False | Some f \<Rightarrow> f xs))"

lemma plookup_loosely: "plookup p key \<noteq> None \<Longrightarrow> loosely p key"
proof (induction p arbitrary: key rule: ptrie_induct)
  case (Leaf k v w)
  then show ?case by (simp split: if_splits)
next
  case (Ext k c)
  then show ?case by (auto simp: plookup_ext_Some)
next
  case (Branch ts)
  then show ?case by (cases key) (auto simp: plookup_branch split: option.splits)
qed

text \<open>In a tree without extensions nothing is skipped.\<close>

primrec extFree :: "ptrie \<Rightarrow> bool" where
  "extFree (PLeaf k v w) \<longleftrightarrow> True"
| "extFree (PExt k c) \<longleftrightarrow> False"
| "extFree (PBranch ts) \<longleftrightarrow> (\<forall>b\<in>set (map (map_option extFree) ts). b \<noteq> Some False)"

lemma loosely_extFree: "extFree p \<Longrightarrow> loosely p key \<Longrightarrow> plookup p key \<noteq> None"
proof (induction p arbitrary: key rule: ptrie_induct)
  case (Branch ts)
  obtain x xs c where key: "key = x # xs" "at ts x = Some c" "loosely c xs"
    using Branch.prems(2) by (auto split: list.splits option.splits)
  then have "extFree c" using Branch.prems(1) at_in_set [OF key(2)] by force
  then show ?case using Branch.IH [OF key(2)] key by (simp add: plookup_branch)
qed simp_all

text \<open>Nodes of a proof that have the hash of a node of the trie are that node.\<close>

definition noCollision :: "trieEnv \<Rightarrow> ptrie \<Rightarrow> bytes option list \<Rightarrow> bool" where
  "noCollision env p ns \<longleftrightarrow> inj_on (Compute env) (encs env p \<union> {e. Some e \<in> set ns})"

lemma noCollision_child:
  assumes "noCollision env p (n # ns)" and "encs env q \<subseteq> encs env p"
  shows "noCollision env q ns"
  using assms unfolding noCollision_def by (auto elim!: inj_on_subset)

lemma verify_first:
  assumes c: "trie_codec env" and k: "canon t p" and i: "noCollision env p ns" and v: "verifyProofLoop env (phash env p) key ns = Inr True"
  obtains ok h rest ns' where "ns = Some (penc env p) # ns'"
    "getNextHashAndKey (collapsedNode env \<lparr>hash = None, dirty = False\<rparr> p) key = Inr (ok, h, rest)"
    "ok \<or> verifyProofLoop env h rest ns' = Inr True"
proof -
  obtain e ns' where ns: "ns = Some e # ns'" using v by (cases ns; cases "hd ns") auto
  then have "Compute env (penc env p) = Compute env e" using v by (simp add: phash_penc split: if_splits)
  then have "e = penc env p" using i encs_child(3) by (auto simp: noCollision_def ns dest: inj_onD)
  then have "thenE (getNextHashAndKey (collapsedNode env \<lparr>hash = None, dirty = False\<rparr> p) key) (\<lambda>(ok, h, rest).
      if ok then Inr True else verifyProofLoop env h rest ns') = Inr True"
    using v verify_step [OF c k, of key ns'] ns by metis
  then show ?thesis using that ns \<open>e = penc env p\<close> by (auto simp: thenE_Inr split: if_splits)
qed

lemma verify_nil: "trie_codec env \<Longrightarrow> verifyProofLoop env [] key ns \<noteq> Inr True"
  by (cases ns; cases "hd ns") (auto simp: trie_codec_def, metis)

lemma verify_sound:
  assumes c: "trie_codec env"
  shows "canon t p \<Longrightarrow> noCollision env p ns \<Longrightarrow> verifyProofLoop env (phash env p) key ns = Inr True \<Longrightarrow> loosely p key"
proof (induction p arbitrary: t ns key rule: ptrie_induct)
  case (Leaf k v w)
  then show ?case using verify_nil [OF c]
    by (elim verify_first [OF c]) (auto simp: leafNode_getNextHashAndKey_def split: if_splits)
next
  case (Ext k p)
  obtain ok h rest ns' where st: "ns = Some (penc env (PExt k p)) # ns'"
    "extensionNode_getNextHashAndKey (enOf env k p) key = Inr (ok, h, rest)" "ok \<or> verifyProofLoop env h rest ns' = Inr True"
    by (rule verify_first [OF c Ext.prems, unfolded collapsedNode.simps getNextHashAndKey.simps])
  then have n: "length k \<le> length key" "verifyProofLoop env (phash env p) (drop (length k) key) ns' = Inr True"
    using verify_nil [OF c] by (auto simp: extensionNode_getNextHashAndKey_def enOf_def split: if_splits)
  have "noCollision env p ns'" using noCollision_child encs_child(1) Ext.prems(2) st(1) by metis
  moreover have "canon False p" using Ext.prems(1) by (auto simp: canon_ext)
  ultimately show ?case using n Ext.IH by simp
next
  case (Branch ts)
  obtain ok h rest ns' where st: "ns = Some (penc env (PBranch ts)) # ns'"
    "branchNode_getNextHashAndKey (bnOf env ts) key = Inr (ok, h, rest)" "ok \<or> verifyProofLoop env h rest ns' = Inr True"
    by (rule verify_first [OF c Branch.prems, unfolded collapsedNode.simps getNextHashAndKey.simps])
  then obtain x xs where key: "key = x # xs" "x < length ts" "h = EncodedChildren (bnOf env ts) ! x" "rest = xs" "\<not> ok"
    using verify_nil [OF c] by (auto simp: branchNode_getNextHashAndKey_def bnOf_def split: list.splits if_splits)
  then obtain p where p: "at ts x = Some p" "h = phash env p"
    using st(3) verify_nil [OF c] by (cases "ts ! x") (auto simp: bnOf_def at_def)
  have "noCollision env p ns'" using noCollision_child encs_child(2) [OF p(1)] Branch.prems(2) st(1) by metis
  moreover have "canon (x = 16) p" using Branch.prems(1) p(1) by (auto simp: canon_branch)
  ultimately show ?case using Branch.IH [OF p(1)] st(3) key p by simp
qed

section \<open>What a hash says\<close>

lemma marshal_inj:
  assumes "trie_codec env"
  shows "canon t (PLeaf k v w) \<Longrightarrow> canon t (PLeaf k' v' w') \<Longrightarrow> penc env (PLeaf k v w) = penc env (PLeaf k' v' w') \<Longrightarrow>
      lnOf k v w = lnOf k' v' w'"
    "canon t (PExt k c) \<Longrightarrow> canon t (PExt k' c') \<Longrightarrow> penc env (PExt k c) = penc env (PExt k' c') \<Longrightarrow> enOf env k c = enOf env k' c'"
    "penc env (PBranch ts) = penc env (PBranch ss) \<Longrightarrow> bnOf env ts = bnOf env ss"
  using codec_leaf [OF assms, of t k v w] codec_leaf [OF assms, of t k' v' w'] codec_ext [OF assms, of t k c]
    codec_ext [OF assms, of t k' c'] codec_branch [OF assms, of "bnOf env ts"] codec_branch [OF assms, of "bnOf env ss"]
  by auto

lemma ucast_version_inj: "(ucast (w :: u8) :: u32) = ucast w' \<longleftrightarrow> w = w'"
  by (metis ucast_version)

lemma penc_eq: "inj_on (Compute env) (encs env p \<union> encs env q) \<Longrightarrow> phash env p = phash env q \<Longrightarrow> penc env p = penc env q"
  unfolding phash_penc by (erule inj_onD) (simp_all add: encs_child(3))

lemma phash_inj:
  assumes c: "trie_codec env"
  shows "canon t p \<Longrightarrow> canon t q \<Longrightarrow> inj_on (Compute env) (encs env p \<union> encs env q) \<Longrightarrow> phash env p = phash env q \<Longrightarrow> p = q"
proof (induction p arbitrary: t q rule: ptrie_induct)
  case (Leaf k v w)
  have e: "penc env (PLeaf k v w) = penc env q"
    by (rule penc_eq [OF Leaf.prems(3,4)])
  then obtain k' v' w' where q: "q = PLeaf k' v' w'" by (cases q) auto
  then have "lnOf k v w = lnOf k' v' w'" using marshal_inj(1) [OF c] Leaf.prems(1,2) e by blast
  then show ?case by (simp add: q lnOf_def ucast_version_inj)
next
  case (Ext k p)
  have e: "penc env (PExt k p) = penc env q"
    by (rule penc_eq [OF Ext.prems(3,4)])
  then obtain k' p' where q: "q = PExt k' p'" by (cases q) auto
  then have en: "enOf env k p = enOf env k' p'" using marshal_inj(2) [OF c] Ext.prems(1,2) e by blast
  have "inj_on (Compute env) (encs env p \<union> encs env p')" using Ext.prems(3) encs_child(1) q by (blast intro: inj_on_subset)
  then show ?case using Ext.IH [of False p'] Ext.prems(1,2) en by (simp add: q enOf_def canon_ext)
next
  case (Branch ts)
  have e: "penc env (PBranch ts) = penc env q"
    by (rule penc_eq [OF Branch.prems(3,4)])
  then obtain ss where q: "q = PBranch ss" by (cases q) auto
  then have bn: "bnOf env ts = bnOf env ss" using marshal_inj(3) [OF c] e by blast
  have len: "length ts = 17" "length ss = 17" using Branch.prems(1,2) q by (auto simp: canon_branch)
  have "ts ! i = ss ! i" if i: "i < 17" for i
  proof -
    have eq: "orNil (map_option (phash env) (ts ! i)) = orNil (map_option (phash env) (ss ! i))"
      using bn len i by (simp add: bnOf_def) (metis nth_map)
    then show ?thesis
    proof (cases "ts ! i"; cases "ss ! i")
      fix a b assume ab: "ts ! i = Some a" "ss ! i = Some b"
      then have at: "at ts i = Some a" "at ss i = Some b" using len i by (simp_all add: at_def)
      have "inj_on (Compute env) (encs env a \<union> encs env b)"
        using Branch.prems(3) encs_child(2) [OF at(1)] encs_child(2) [OF at(2)] q by (blast intro: inj_on_subset)
      moreover have "phash env a = phash env b" using eq ab by simp
      ultimately show ?thesis using Branch.IH [OF at(1), of "i = 16" b] Branch.prems(1,2) at ab q by (simp add: canon_branch)
    qed (use eq phash_ne [OF c] in \<open>auto dest: sym\<close>)
  qed
  then show ?case using len q by (auto intro: nth_equalityI)
qed

section \<open>A proof for another key\<close>

text \<open>
  Verifying with a key \<open>b\<close> the proof of a key \<open>a\<close>: both take the same way at every branch, and \<open>b\<close> ends like the leaf. What \<open>b\<close> has in place of
  the key of an extension does not matter.
\<close>

primrec sameRoute :: "ptrie \<Rightarrow> hexkey \<Rightarrow> hexkey \<Rightarrow> bool" where
  "sameRoute (PLeaf k v w) = (\<lambda>a b. b = k)"
| "sameRoute (PExt k c) = (\<lambda>a b. length k \<le> length b \<and> sameRoute c (drop (length k) a) (drop (length k) b))"
| "sameRoute (PBranch ts) = (\<lambda>a b. a \<noteq> [] \<and> b \<noteq> [] \<and> hd a = hd b \<and>
     (case at (map (map_option sameRoute) ts) (hd a) of None \<Rightarrow> False | Some f \<Rightarrow> f (tl a) (tl b)))"

text \<open>On the way an extension has a longer key than what is left of \<open>b\<close>.\<close>

primrec overruns :: "ptrie \<Rightarrow> hexkey \<Rightarrow> hexkey \<Rightarrow> bool" where
  "overruns (PLeaf k v w) = (\<lambda>a b. False)"
| "overruns (PExt k c) = (\<lambda>a b. if length k \<le> length b then overruns c (drop (length k) a) (drop (length k) b) else b \<noteq> [])"
| "overruns (PBranch ts) = (\<lambda>a b. a \<noteq> [] \<and> b \<noteq> [] \<and> hd a = hd b \<and>
     (case at (map (map_option overruns) ts) (hd a) of None \<Rightarrow> False | Some f \<Rightarrow> f (tl a) (tl b)))"

lemma verify_other:
  assumes c: "trie_codec env"
  shows "canon t p \<Longrightarrow> (sameRoute p a b \<longrightarrow> verifyProofLoop env (phash env p) b (map Some (pathEncs env p a)) = Inr True) \<and>
    (overruns p a b \<longrightarrow> verifyProofLoop env (phash env p) b (map Some (pathEncs env p a)) = Inl Panic)"
proof (induction p arbitrary: t a b rule: ptrie_induct)
  case (Leaf k v w)
  then show ?case using verify_step [OF c Leaf.prems, of b "[]"]
    by (cases "b = k") (simp_all add: leafNode_getNextHashAndKey_def del: penc.simps verifyProofLoop.simps)
next
  case (Ext k p)
  have k: "k \<noteq> []" "canon False p" using Ext.prems by (auto simp: canon_ext)
  note step = verify_step [OF c Ext.prems, of b "map Some (pathEncs env p (drop (length k) a))"]
  show ?case
  proof (cases "length k \<le> length b")
    case True
    then have "b \<noteq> []" using k(1) by auto
    then have "verifyProofLoop env (phash env (PExt k p)) b (map Some (pathEncs env (PExt k p) a)) =
        verifyProofLoop env (phash env p) (drop (length k) b) (map Some (pathEncs env p (drop (length k) a)))"
      using True step by (simp add: extensionNode_getNextHashAndKey_def enOf_def del: penc.simps verifyProofLoop.simps)
    then show ?thesis using True Ext.IH [OF k(2)] by simp
  next
    case False
    then show ?thesis using step by (simp add: extensionNode_getNextHashAndKey_def enOf_def del: penc.simps verifyProofLoop.simps)
  qed
next
  case (Branch ts)
  have len: "length ts = 17" using Branch.prems by (auto simp: canon_branch)
  show ?case
  proof (cases "a \<noteq> [] \<and> b \<noteq> [] \<and> hd a = hd b \<and> at ts (hd a) \<noteq> None")
    case True
    then obtain x xs ys q where key: "a = x # xs" "b = x # ys" "at ts x = Some q" by (cases a; cases b) auto
    have x: "x < 17" "ts ! x = Some q" using at_Some_length [OF key(3)] key(3) len by (auto simp: at_def)
    have "canon (x = 16) q" using Branch.prems key(3) by (auto simp: canon_branch)
    then show ?thesis using Branch.IH [OF key(3)] verify_step [OF c Branch.prems, of b "map Some (pathEncs env q xs)"] x len key
      by (simp add: branchNode_getNextHashAndKey_def bnOf_def del: penc.simps verifyProofLoop.simps)
  qed (auto split: option.splits)
qed

lemma sameRoute_absent: "canon t p \<Longrightarrow> sameRoute p a b \<Longrightarrow> plookup p a \<noteq> None \<Longrightarrow> plookup p b \<noteq> None \<Longrightarrow> b = a"
proof (induction p arbitrary: t a b rule: ptrie_induct)
  case (Leaf k v w)
  then show ?case by (simp split: if_splits)
next
  case (Ext k p)
  obtain x y where xy: "a = k @ x" "plookup p x \<noteq> None" "b = k @ y" "plookup p y \<noteq> None"
    using Ext.prems(3,4) by (auto simp: plookup_ext_Some)
  then show ?case using Ext by (auto simp: canon_ext)
next
  case (Branch ts)
  then obtain x xs ys q where key: "a = x # xs" "b = x # ys" "at ts x = Some q" "sameRoute q xs ys"
    by (cases a; cases b) (auto split: option.splits)
  have "canon (x = 16) q" using Branch.prems(1) key(3) by (auto simp: canon_branch)
  then show ?case using Branch key by (auto simp: plookup_branch)
qed

end
