(* ===== verification/TrieMap.thy ===== *)
theory TrieMap
  imports TrieProof
begin

text \<open>
  The trie as a map from keys to values and versions: what it means that a trie holds a map, what every operation of
  \<^verbatim>\<open>patriciaMerkleTrie\<close> does to it, and the two interfaces through which the clients see the trie: a simulation of the
  map, and a root that depends on the map alone.
\<close>

section \<open>The map of a trie\<close>

definition hexmap :: "(bytes \<rightharpoonup> 'a) \<Rightarrow> hexkey \<rightharpoonup> 'a" where
  "hexmap m hex = (case hexToTrieKeyBytes hex of
     Inl e \<Rightarrow> None | Inr key \<Rightarrow> if keyBytesToHex key = hex then m key else None)"

lemma hexmap_key [simp]: "hexmap m (keyBytesToHex k) = m k"
  by (simp add: hexmap_def hex_round_trip)

lemma hexmap_other: "(\<And>k. hex \<noteq> keyBytesToHex k) \<Longrightarrow> hexmap m hex = None"
  by (auto simp: hexmap_def split: sum.splits)

lemma hexmap_eqI: "(\<And>k. hexmap m (keyBytesToHex k) = f (keyBytesToHex k)) \<Longrightarrow> (\<And>hex. (\<And>k. hex \<noteq> keyBytesToHex k) \<Longrightarrow> f hex = None) \<Longrightarrow>
    hexmap m = f"
  by (rule HOL.ext) (metis hexmap_other)

lemma hexmap_upd: "hexmap (m(k := v)) = (hexmap m)(keyBytesToHex k := v)"
  by (rule hexmap_eqI) (auto simp: hex_inj hexmap_other)

lemma hexmap_inj: "hexmap m = hexmap m' \<longleftrightarrow> m = m'"
  by (metis HOL.ext hexmap_key)

lemma hexmap_empty [simp]: "hexmap Map.empty = Map.empty"
  by (rule hexmap_eqI) simp_all

lemma hexmap_empty_iff: "hexmap m = Map.empty \<longleftrightarrow> m = Map.empty"
  using hexmap_inj [of m Map.empty] by simp

definition holds :: "trieEnv \<Rightarrow> patriciaMerkleTrie \<Rightarrow> (bytes \<rightharpoonup> bytes \<times> u8) \<Rightarrow> bool" where
  "holds env tr m \<longleftrightarrow> (case root tr of None \<Rightarrow> m = Map.empty
     | Some n \<Rightarrow> \<exists>p. canon False p \<and> rep env (trieStorage tr) p n \<and> plookup p = hexmap m)"

lemma holds_root:
  "root tr = None \<Longrightarrow> holds env tr m \<longleftrightarrow> m = Map.empty"
  "root tr = Some n \<Longrightarrow> holds env tr m \<longleftrightarrow> (\<exists>p. canon False p \<and> rep env (trieStorage tr) p n \<and> plookup p = hexmap m)"
  by (simp_all add: holds_def)

lemma holds_emptyTrie: "holds env (emptyTrie db l) Map.empty"
  by (simp add: holds_def emptyTrie_def)

text \<open>What a write does to the map. A value that is there already keeps the version it has.\<close>

definition putMap :: "bytes \<Rightarrow> bytes \<Rightarrow> u8 \<Rightarrow> (bytes \<rightharpoonup> bytes \<times> u8) \<Rightarrow> bytes \<rightharpoonup> bytes \<times> u8" where
  "putMap key val version m =
     (if val = [] then m(key := None)
      else if map_option fst (m key) = Some val then m
      else m(key \<mapsto> (val, version)))"

definition enoughFuel :: "bytes \<Rightarrow> nat \<Rightarrow> bool" where
  "enoughFuel key fuel \<longleftrightarrow> 2 * length key + 1 < fuel"

lemma enoughFuel_hex: "enoughFuel key fuel \<longleftrightarrow> length (keyBytesToHex key) < fuel"
  by (simp add: enoughFuel_def length_hex)

section \<open>The operations\<close>

lemma subkey_hex [simp]: "subkey False (keyBytesToHex key)"
  by (simp add: validkey_hex)

lemma Get_holds:
  assumes c: "trie_codec env" and h: "holds env tr m" and f: "enoughFuel key fuel"
  shows "\<exists>d tr'. Get fuel env key tr = ((Inr (map_option fst (m key)), d), tr') \<and> holds env tr' m \<and>
    trieStorage tr' = trieStorage tr \<and> maxTrieLevelInMemory tr' = maxTrieLevelInMemory tr"
proof (cases "root tr")
  case None
  then show ?thesis using h by (simp add: Get_def holds_root)
next
  case (Some n)
  then obtain p where p: "canon False p" "rep env (trieStorage tr) p n" "plookup p = hexmap m" using h by (auto simp: holds_root)
  obtain n' d' where "tryGet fuel env (trieStorage tr) n (keyBytesToHex key) rootDepthLevel =
      ((Inr (map_option fst (m key)), d'), n')" "rep env (trieStorage tr) p n'"
    using tryGet_rep [OF c p(1,2) subkey_hex, of key fuel rootDepthLevel] f p(3) by (auto simp: enoughFuel_hex)
  then show ?thesis using Some p by (auto simp: Get_def holds_def)
qed

lemma rememberOldRoot_sel [simp]:
  "root (rememberOldRoot n tr) = root tr" "trieStorage (rememberOldRoot n tr) = trieStorage tr"
  "maxTrieLevelInMemory (rememberOldRoot n tr) = maxTrieLevelInMemory tr"
  by (simp_all add: rememberOldRoot_def)

lemma trieDelete_holds:
  assumes c: "trie_codec env" and h: "holds env tr m" and f: "enoughFuel key fuel"
  shows "\<exists>tr'. trieDelete fuel env (keyBytesToHex key) tr = (Inr (), tr') \<and> holds env tr' (m(key := None)) \<and>
    trieStorage tr' = trieStorage tr \<and> maxTrieLevelInMemory tr' = maxTrieLevelInMemory tr"
proof (cases "root tr")
  case None
  then show ?thesis using h by (simp add: trieDelete_def holds_root)
next
  case (Some n)
  then obtain p where p: "canon False p" "rep env (trieStorage tr) p n" "plookup p = hexmap m" using h by (auto simp: holds_root)
  have "deleteOk env (trieStorage tr) False p (keyBytesToHex key) (nodeDelete fuel env (trieStorage tr) n (keyBytesToHex key))"
    using delete_rep [OF c p(1,2) subkey_hex] f by (simp add: enoughFuel_hex)
  then show ?thesis
  proof (cases rule: deleteOk_cases)
    case (absent n')
    then have "m(key := None) = m" using p(3) by (auto simp: fun_eq_iff)
    then show ?thesis using absent Some p by (auto simp: trieDelete_def holds_def Let_def)
  next
    case (gone n' hs)
    then have "m(key := None) = Map.empty" using p(3) by (metis hexmap_empty_iff hexmap_upd)
    then show ?thesis using gone Some by (auto simp: trieDelete_def holds_def Let_def)
  next
    case (changed n' p' n2 hs)
    then have "plookup p' = hexmap (m(key := None))" using p(3) by (simp add: hexmap_upd)
    then show ?thesis using changed Some by (auto simp: trieDelete_def holds_def Let_def)
  qed
qed

lemma trieUpdate_holds:
  assumes c: "trie_codec env" and h: "holds env tr m" and f: "enoughFuel key fuel"
  shows "\<exists>tr'. trieUpdate fuel env key val version tr = (Inr (), tr') \<and> holds env tr' (putMap key val version m) \<and>
    trieStorage tr' = trieStorage tr \<and> maxTrieLevelInMemory tr' = maxTrieLevelInMemory tr"
proof (cases "val = []")
  case True
  then show ?thesis using trieDelete_holds [OF assms] by (simp add: trieUpdate_def putMap_def Let_def)
next
  case v: False
  let ?hex = "keyBytesToHex key"
  show ?thesis
  proof (cases "root tr")
    case None
    then have m: "m = Map.empty" using h by (simp add: holds_root)
    have "canon False (PLeaf ?hex val version)" "plookup (PLeaf ?hex val version) = hexmap [key \<mapsto> (val, version)]"
      using v by (simp_all add: hexmap_upd validkey_hex)
    moreover have "rep env (trieStorage tr) (PLeaf ?hex val version) (newLeafNode (dataOf ?hex val version))" by (rule newLeaf_rep)
    ultimately have "\<exists>p. canon False p \<and> rep env (trieStorage tr) p (newLeafNode (dataOf ?hex val version)) \<and>
        plookup p = hexmap [key \<mapsto> (val, version)]" by blast
    then show ?thesis using None v m by (simp add: trieUpdate_def holds_def putMap_def Let_def)
  next
    case (Some n)
    then obtain p where p: "canon False p" "rep env (trieStorage tr) p n" "plookup p = hexmap m" using h by (auto simp: holds_root)
    have "insertOk env (trieStorage tr) False p ?hex val version (nodeInsert fuel env (trieStorage tr) n (dataOf ?hex val version))"
      using insert_rep [OF c v p(1,2) subkey_hex] f by (simp add: enoughFuel_hex)
    then consider (same) n' w' where "nodeInsert fuel env (trieStorage tr) n (dataOf ?hex val version) = (Inr (None, []), n')"
        "rep env (trieStorage tr) p n'" "m key = Some (val, w')"
      | (new) n' p' n2 hs where "nodeInsert fuel env (trieStorage tr) n (dataOf ?hex val version) = (Inr (Some n2, hs), n')"
        "canon False p'" "rep env (trieStorage tr) p' n2" "plookup p' = hexmap (m(key \<mapsto> (val, version)))"
        "map_option fst (m key) \<noteq> Some val"
      unfolding insertOk_def p(3) hexmap_upd by auto
    then show ?thesis
    proof cases
      case same
      then show ?thesis using Some v p by (auto simp: trieUpdate_def holds_def putMap_def Let_def)
    next
      case new
      then have "putMap key val version m = m(key \<mapsto> (val, version))" using v by (simp add: putMap_def)
      then show ?thesis using new Some v by (auto simp: trieUpdate_def holds_def Let_def)
    qed
  qed
qed

text \<open>The root hash is a function of the map.\<close>

definition hashOf :: "trieEnv \<Rightarrow> (bytes \<rightharpoonup> bytes \<times> u8) \<Rightarrow> bytes \<Rightarrow> bool" where
  "hashOf env m h \<longleftrightarrow> (m = Map.empty \<and> h = EmptyTrieHash) \<or> (\<exists>p. canon False p \<and> plookup p = hexmap m \<and> h = phash env p)"

lemma canon_not_empty: "canon t p \<Longrightarrow> plookup p = hexmap m \<Longrightarrow> m \<noteq> Map.empty"
  using canon_nonempty by fastforce

lemma hashOf_unique: "hashOf env m h \<Longrightarrow> hashOf env m h' \<Longrightarrow> h = h'"
  unfolding hashOf_def by (metis canon_not_empty canon_unique)

lemma RootHash_holds:
  assumes c: "trie_codec env" and h: "holds env tr m"
  shows "\<exists>r tr'. RootHash env tr = (Inr r, tr') \<and> hashOf env m r \<and> holds env tr' m \<and> trieStorage tr' = trieStorage tr \<and>
    maxTrieLevelInMemory tr' = maxTrieLevelInMemory tr"
proof (cases "root tr")
  case None
  then show ?thesis using h by (simp add: RootHash_def holds_root hashOf_def)
next
  case (Some n)
  then obtain p where p: "canon False p" "rep env (trieStorage tr) p n" "plookup p = hexmap m" using h by (auto simp: holds_root)
  show ?thesis
  proof (cases "getHash n")
    case None
    obtain n' where "setRootHash env n = (Inr (), n')" "rep env (trieStorage tr) p n'" "getHash n' = Some (phash env p)"
      using setHash_rep [OF c p(1,2)] setRootHash_eq [OF c p(1,2)] by (auto simp: hashOk_def)
    then show ?thesis using Some None p by (auto simp: RootHash_def holds_def hashOf_def)
  next
    case (Some r)
    then have "r = phash env p" using hashOk_known [OF p(2)] by (auto simp: hashOk_def)
    then show ?thesis using \<open>root tr = Some n\<close> Some p h by (auto simp: RootHash_def hashOf_def)
  qed
qed

text \<open>The encodings of the nodes of the tree for a map.\<close>

definition mapEncs :: "trieEnv \<Rightarrow> (bytes \<rightharpoonup> bytes \<times> u8) \<Rightarrow> bytes set" where
  "mapEncs env m = {e. \<exists>p. canon False p \<and> plookup p = hexmap m \<and> e \<in> encs env p}"

lemma mapEncs_tree: "canon False p \<Longrightarrow> plookup p = hexmap m \<Longrightarrow> encs env p \<subseteq> mapEncs env m"
  by (auto simp: mapEncs_def)

lemma hashOf_inj:
  assumes c: "trie_codec env" and h: "hashOf env m h" "hashOf env m' h"
    and inj: "inj_on (Compute env) (mapEncs env m \<union> mapEncs env m')" and ne: "\<And>b. Compute env b \<noteq> EmptyTrieHash"
  shows "m = m'"
proof -
  have empty: "h \<noteq> EmptyTrieHash \<longleftrightarrow> m \<noteq> Map.empty" if "hashOf env m h" for m
    using that canon_not_empty ne by (auto simp: hashOf_def phash_penc)
  show ?thesis
  proof (cases "h = EmptyTrieHash")
    case True
    then show ?thesis using empty h by metis
  next
    case False
    then obtain p q where pq: "canon False p" "plookup p = hexmap m" "canon False q" "plookup q = hexmap m'" "phash env p = phash env q"
      using h by (auto simp: hashOf_def)
    have "encs env p \<union> encs env q \<subseteq> mapEncs env m \<union> mapEncs env m'" using mapEncs_tree pq by blast
    from phash_inj [OF c pq(1,3) inj_on_subset [OF inj this] pq(5)] show ?thesis using pq(2,4) hexmap_inj by metis
  qed
qed

section \<open>Interfaces\<close>

text \<open>A component that simulates an abstract one: every operation takes states that stand for a value to states that
  stand for the value the specification gives.\<close>

locale simulation =
  fixes abs :: "'s \<Rightarrow> 'm \<Rightarrow> bool" and step :: "'op \<Rightarrow> 's \<Rightarrow> 's" and spec :: "'op \<Rightarrow> 'm \<Rightarrow> 'm"
  assumes step_abs: "abs s m \<Longrightarrow> abs (step op s) (spec op m)"
begin

lemma run_abs: "abs s m \<Longrightarrow> abs (fold step ops s) (fold spec ops m)"
  by (induction ops arbitrary: s m) (simp_all add: step_abs)

end

text \<open>A component with a digest that its abstract value determines.\<close>

locale authenticated = simulation +
  fixes digest :: "'a \<Rightarrow> 'h"
  assumes digest_abs: "abs s m \<Longrightarrow> abs s' m \<Longrightarrow> digest s = digest s'"
begin

lemma digest_history:
  assumes "abs s m" and "abs s' m'" and "fold spec ops m = fold spec ops' m'"
  shows "digest (fold step ops s) = digest (fold step ops' s')"
  using run_abs [OF assms(1), of ops] run_abs [OF assms(2), of ops'] assms(3) by (metis digest_abs)

end

text \<open>The operations that a client of one trie calls between two commits. The depth that each needs is given by its key.\<close>

datatype trieOp =
    OpGet bytes
  | OpUpdate bytes bytes u8
  | OpDelete bytes
  | OpRootHash

fun runOp :: "trieEnv \<Rightarrow> trieOp \<Rightarrow> patriciaMerkleTrie \<Rightarrow> patriciaMerkleTrie" where
  "runOp env (OpGet key) tr = snd (Get (2 * length key + 2) env key tr)"
| "runOp env (OpUpdate key val version) tr = snd (UpdateWithVersion (2 * length key + 2) env key val version tr)"
| "runOp env (OpDelete key) tr = snd (Delete (2 * length key + 2) env key tr)"
| "runOp env OpRootHash tr = snd (RootHash env tr)"

fun specOp :: "trieOp \<Rightarrow> (bytes \<rightharpoonup> bytes \<times> u8) \<Rightarrow> bytes \<rightharpoonup> bytes \<times> u8" where
  "specOp (OpGet key) m = m"
| "specOp (OpUpdate key val version) m = putMap key val version m"
| "specOp (OpDelete key) m = m(key := None)"
| "specOp OpRootHash m = m"

lemma runOp_holds:
  assumes c: "trie_codec env" and h: "holds env tr m"
  shows "holds env (runOp env op tr) (specOp op m) \<and> trieStorage (runOp env op tr) = trieStorage tr \<and>
    maxTrieLevelInMemory (runOp env op tr) = maxTrieLevelInMemory tr"
proof (cases op)
  case (OpGet key)
  then show ?thesis using Get_holds [OF c h, of key "2 * length key + 2"] by (auto simp: enoughFuel_def)
next
  case (OpUpdate key val version)
  then show ?thesis using trieUpdate_holds [OF c h, of key "2 * length key + 2" val version]
    by (auto simp: enoughFuel_def UpdateWithVersion_def)
next
  case (OpDelete key)
  then show ?thesis using trieDelete_holds [OF c h, of key "2 * length key + 2"] by (auto simp: enoughFuel_def Delete_def)
next
  case OpRootHash
  then show ?thesis using RootHash_holds [OF c h] by auto
qed

text \<open>The trie together with its marshaller and hasher, which its operations do not change.\<close>

type_synonym trieState = "trieEnv \<times> patriciaMerkleTrie"

definition trieAbs :: "trieState \<Rightarrow> trieEnv \<times> (bytes \<rightharpoonup> bytes \<times> u8) \<Rightarrow> bool" where
  "trieAbs = (\<lambda>(env, tr) (env', m). env' = env \<and> trie_codec env \<and> holds env tr m)"

definition trieStep :: "trieOp \<Rightarrow> trieState \<Rightarrow> trieState" where
  "trieStep op = (\<lambda>(env, tr). (env, runOp env op tr))"

definition trieSpec :: "trieOp \<Rightarrow> trieEnv \<times> (bytes \<rightharpoonup> bytes \<times> u8) \<Rightarrow> trieEnv \<times> (bytes \<rightharpoonup> bytes \<times> u8)" where
  "trieSpec op = (\<lambda>(env, m). (env, specOp op m))"

definition trieRoot :: "trieState \<Rightarrow> bytes tres" where
  "trieRoot = (\<lambda>(env, tr). fst (RootHash env tr))"

interpretation tmap: authenticated trieAbs trieStep trieSpec trieRoot
proof unfold_locales
  show "trieAbs (trieStep op s) (trieSpec op m)" if "trieAbs s m" for s m op
    using that runOp_holds by (auto simp: trieAbs_def trieStep_def trieSpec_def)
  show "trieRoot s = trieRoot s'" if sm: "trieAbs s m" "trieAbs s' m" for s s' m
  proof -
    obtain env tr tr' m' where eq: "s = (env, tr)" "s' = (env, tr')" "m = (env, m')" "trie_codec env" "holds env tr m'" "holds env tr' m'"
      using sm by (cases s; cases s'; cases m) (auto simp: trieAbs_def)
    show ?thesis using RootHash_holds [OF eq(4,5)] RootHash_holds [OF eq(4,6)] hashOf_unique by (auto simp: eq trieRoot_def)
  qed
qed

lemma fold_trieStep: "fold trieStep ops (env, tr) = (env, fold (runOp env) ops tr)"
  by (induction ops arbitrary: tr) (simp_all add: trieStep_def)

lemma fold_trieSpec: "fold trieSpec ops (env, m) = (env, fold specOp ops m)"
  by (induction ops arbitrary: m) (simp_all add: trieSpec_def)

lemma run_holds: "trie_codec env \<Longrightarrow> holds env tr m \<Longrightarrow> holds env (fold (runOp env) ops tr) (fold specOp ops m)"
  using tmap.run_abs [of "(env, tr)" "(env, m)" ops] unfolding fold_trieStep fold_trieSpec by (simp add: trieAbs_def)

lemma runOp_fields:
  assumes "trie_codec env"
  shows "holds env tr m \<Longrightarrow> trieStorage (fold (runOp env) ops tr) = trieStorage tr \<and>
    maxTrieLevelInMemory (fold (runOp env) ops tr) = maxTrieLevelInMemory tr"
proof (induction ops arbitrary: tr m)
  case (Cons op ops)
  then show ?case using runOp_holds [OF assms Cons.prems, of op] Cons.IH [of "runOp env op tr" "specOp op m"] by simp
qed simp

lemmas runOp_storage = conjunct1 [OF runOp_fields] conjunct2 [OF runOp_fields]

lemma run_root:
  assumes "trie_codec env" and "holds env tr m" and "holds env tr' m'" and "fold specOp ops m = fold specOp ops' m'"
  shows "fst (RootHash env (fold (runOp env) ops tr)) = fst (RootHash env (fold (runOp env) ops' tr'))"
  using tmap.digest_history [of "(env, tr)" "(env, m)" "(env, tr')" "(env, m')" ops ops'] assms
  unfolding fold_trieStep fold_trieSpec by (simp add: trieAbs_def trieRoot_def)

section \<open>Commit and reload\<close>

lemma Commit_holds:
  assumes c: "trie_codec env" and k: "canon False p" and r: "root tr = Some n" "rep env (trieStorage tr) p n"
    and s: "storage_ok env A (trieStorage tr)" and e: "encs env p \<subseteq> A"
  shows "\<exists>tr'. Commit env tr = (Inr (), tr') \<and> stored env (trieStorage tr') p \<and> (\<exists>n'. root tr' = Some n' \<and> rep env (trieStorage tr') p n') \<and>
    trieStorage tr \<subseteq>\<^sub>m trieStorage tr' \<and> storage_ok env A (trieStorage tr') \<and> maxTrieLevelInMemory tr' = maxTrieLevelInMemory tr"
proof (cases "isDirty n")
  case False
  then have "stored env (trieStorage tr) p" using commit_clean [OF r(2) _ s] by (auto simp: commitOk_def)
  then show ?thesis using False r s by (simp add: Commit_def)
next
  case True
  obtain n1 where n1: "setRootHash env n = (Inr (), n1)" "rep env (trieStorage tr) p n1"
    using setHash_rep [OF c k r(2)] setRootHash_eq [OF c k r(2)] by (auto simp: hashOk_def)
  obtain n2 db where n2: "commitDirty env n1 0 (maxTrieLevelInMemory tr) (trieStorage tr) = (Inr (), n2, db)"
    "trieStorage tr \<subseteq>\<^sub>m db" "storage_ok env A db" "rep env db p n2" "stored env db p"
    using commit_rep [OF c k n1(2) s e, of 0 "maxTrieLevelInMemory tr"] by (auto simp: commitOk_def)
  show ?thesis using True r(1) n1(1) n2 by (auto simp: Commit_def)
qed

lemma recreate_holds:
  assumes c: "trie_codec env" and k: "canon False p" and st: "stored env (trieStorage tr) p" and ne: "phash env p \<noteq> EmptyTrieHash"
    and lvl: "maxTrieLevelInMemory tr \<noteq> 0"
  shows "\<exists>tr'. recreate env (phash env p) tr = Inr tr' \<and> (\<exists>n. root tr' = Some n \<and> rep env (trieStorage tr') p n) \<and>
    trieStorage tr' = trieStorage tr"
proof -
  obtain n where n: "getNodeFromDBAndDecode env (trieStorage tr) (phash env p) = Inr n"
    "rep env (trieStorage tr) p (setGivenHash (phash env p) n)" using load [OF c st k] by blast
  then show ?thesis using ne lvl phash_ne [OF c, of p]
    by (simp add: recreate_def IsEmptyTrie_def recreateFromDb_def NewTrie_def emptyTrie_def)
qed

end
