(* ===== verification/TrieExample.thy ===== *)
theory TrieExample
  imports TrieMap FieldCodec
begin

text \<open>
  A concrete marshaller and hasher for the trie. Both belong to other repositories and are parameters of the model; with
  these the hypotheses on them are seen to be satisfiable and the model can be run. The hash of an encoding is the encoding
  behind a marker.
\<close>

definition keyField :: "hexkey \<Rightarrow> bytes" where
  "keyField k = map char_of k"

fun decLn :: "bytes list \<Rightarrow> CollapsedLn tres" where
  "decLn [k, v, w] = Inr \<lparr>LnKey = map of_char k, LnValue = Some v, LnVersion = decWord w\<rparr>"
| "decLn _ = Inl (ErrCodec ''leaf'')"

fun decEn :: "bytes list \<Rightarrow> CollapsedEn tres" where
  "decEn [k, c, w] = Inr \<lparr>EnKey = map of_char k, EncodedChild = c, ChildVersion = decWord w\<rparr>"
| "decEn _ = Inl (ErrCodec ''extension'')"

fun decBn :: "bytes list \<Rightarrow> CollapsedBn tres" where
  "decBn (vs # es) = Inr \<lparr>EncodedChildren = es, ChildrenVersion = map (\<lambda>c. word_of_nat (of_char c)) vs\<rparr>"
| "decBn [] = Inl (ErrCodec ''branch'')"

definition exampleTrieEnv :: trieEnv where
  "exampleTrieEnv = \<lparr>
     marshalLn = (\<lambda>ln. Inr (encFields [keyField (LnKey ln), slice (LnValue ln), encWord (LnVersion ln)])),
     marshalEn = (\<lambda>en. Inr (encFields [keyField (EnKey en), EncodedChild en, encWord (ChildVersion en)])),
     marshalBn = (\<lambda>bn. Inr (encFields (map (\<lambda>v. char_of (unat v)) (ChildrenVersion bn) # EncodedChildren bn))),
     unmarshalLn = (\<lambda>b. decLn (decFields [] b)),
     unmarshalEn = (\<lambda>b. decEn (decFields [] b)),
     unmarshalBn = (\<lambda>b. decBn (decFields [] b)),
     Compute = (\<lambda>b. CHR 0x01 # b),
     putError = (\<lambda>k v. None)\<rparr>"

lemma keyField_id: "\<forall>x\<in>set k. x < 256 \<Longrightarrow> map of_char (keyField k) = k"
  by (simp add: keyField_def map_idI)

lemma versions_id: "map (\<lambda>c. word_of_nat (of_char c)) (map (\<lambda>v. char_of (unat v)) vs) = (vs :: u8 list)"
proof -
  have "unat v < 256" for v :: u8 by (rule order_less_le_trans [OF unsigned_less]) simp
  then show ?thesis by (simp add: map_idI)
qed

lemma exampleTrieEnv_codec: "trie_codec exampleTrieEnv"
  unfolding trie_codec_def
proof (intro conjI allI impI)
  fix ln :: CollapsedLn and v assume "LnValue ln = Some v \<and> v \<noteq> [] \<and> (\<forall>x\<in>set (LnKey ln). x < 256)"
  then show "\<exists>b. marshalLn exampleTrieEnv ln = Inr b \<and> unmarshalLn exampleTrieEnv b = Inr ln"
    by (cases ln) (simp add: exampleTrieEnv_def keyField_id)
next
  fix en :: CollapsedEn assume "\<forall>x\<in>set (EnKey en). x < 256"
  then show "\<exists>b. marshalEn exampleTrieEnv en = Inr b \<and> unmarshalEn exampleTrieEnv b = Inr en"
    by (cases en) (simp add: exampleTrieEnv_def keyField_id)
next
  fix bn :: CollapsedBn
  show "\<exists>b. marshalBn exampleTrieEnv bn = Inr b \<and> unmarshalBn exampleTrieEnv b = Inr bn"
    using versions_id [of "ChildrenVersion bn"] by (cases bn) (simp add: exampleTrieEnv_def)
qed (simp add: exampleTrieEnv_def)

lemma exampleTrieEnv_hash: "inj_on (Compute exampleTrieEnv) A" "Compute exampleTrieEnv b \<noteq> EmptyTrieHash" "putError exampleTrieEnv k v = None"
proof -
  have "hd EmptyTrieHash = CHR 0x00" by (simp add: EmptyTrieHash_def makeBytes_def char_of_def)
  moreover have "hd (Compute exampleTrieEnv b) = CHR 0x01" by (simp add: exampleTrieEnv_def)
  ultimately show "Compute exampleTrieEnv b \<noteq> EmptyTrieHash" by auto
qed (simp_all add: exampleTrieEnv_def inj_on_def)

lemma exampleTrieEnv_storage: "storage_ok exampleTrieEnv UNIV Map.empty"
  by (simp add: storage_ok_def addressed_def exampleTrieEnv_hash)

text \<open>A trie with two keys that end with the same byte.\<close>

definition exampleTrie :: patriciaMerkleTrie where
  "exampleTrie = fold (runOp exampleTrieEnv) [OpUpdate ''xb'' ''1'' 0, OpUpdate ''yb'' ''2'' 1] (emptyTrie Map.empty 5)"

definition exampleMap :: "bytes \<rightharpoonup> bytes \<times> u8" where
  "exampleMap = [''xb'' \<mapsto> (''1'', 0), ''yb'' \<mapsto> (''2'', 1)]"

lemma fold_specOp_example: "fold specOp [OpUpdate ''xb'' ''1'' 0, OpUpdate ''yb'' ''2'' 1] Map.empty = exampleMap"
  by (simp add: exampleMap_def putMap_def)

lemma exampleTrie_holds: "holds exampleTrieEnv exampleTrie exampleMap"
  using run_holds [OF exampleTrieEnv_codec holds_emptyTrie] unfolding exampleTrie_def fold_specOp_example [symmetric] .

text \<open>Its tree: an extension over a branch with two leaves.\<close>

definition exampleTree :: ptrie where
  "exampleTree = PExt [2, 6] (PBranch ((replicate 17 None)[8 := Some (PLeaf [7, 16] ''1'' 0), 9 := Some (PLeaf [7, 16] ''2'' 1)]))"

lemma exampleTree_canon: "canon False exampleTree"
proof -
  let ?ts = "(replicate 17 None)[8 := Some (PLeaf [7, 16] ''1'' 0), 9 := Some (PLeaf [7, 16] ''2'' 1)]"
  have at: "at ?ts i = (if i = 9 then Some (PLeaf [7, 16] ''2'' 1) else if i = 8 then Some (PLeaf [7, 16] ''1'' 0) else None)" for i
    by (simp add: at_upd)
  have "2 \<le> childCount ?ts" by code_simp
  moreover have "canon (i = 16) c" if "at ?ts i = Some c" for i c using that by (auto simp: at subkey_def split: if_splits)
  ultimately have "canon False (PBranch ?ts)" by (intro canon.branch) simp_all
  then show ?thesis by (simp add: exampleTree_def canon_ext)
qed

lemma exampleTree_map: "plookup exampleTree = hexmap exampleMap"
proof -
  have hex: "keyBytesToHex ''xb'' = [2, 6, 8, 7, 16]" "keyBytesToHex ''yb'' = [2, 6, 9, 7, 16]"
    by (simp_all add: keyBytesToHex_def)
  have "plookup exampleTree key = ([[2, 6, 8, 7, 16] \<mapsto> (''1'', 0), [2, 6, 9, 7, 16] \<mapsto> (''2'', 1)]) key" for key
    by (cases key; cases "tl key"; cases "tl (tl key)") (auto simp: exampleTree_def plookup_maps br_map_def at_upd)
  then show ?thesis by (simp add: fun_eq_iff exampleMap_def hexmap_upd hex)
qed

lemma exampleTree_unique: "canon False p \<Longrightarrow> plookup p = hexmap exampleMap \<Longrightarrow> p = exampleTree"
  using canon_unique exampleTree_canon exampleTree_map by metis

end
