(* ===== verification/TrieProperties.thy ===== *)
theory TrieProperties
  imports TrieExample
begin

text \<open>
  The properties of the Merkle Patricia trie. A trie \<^verbatim>\<open>holds\<close> a map when its nodes represent a canonical tree for the map;
  the hypothesis \<^verbatim>\<open>trie_codec\<close> states that the marshaller reads back the messages it writes and that hashes are not empty.
\<close>

section \<open>The trie is a map\<close>

text \<open>
  \<^verbatim>\<open>Get\<close> returns the value of the key, or nothing when the key is not in the trie, and does not fail as long as the nodes
  it has to load are in the database; loading nodes does not change the content.
\<close>

lemma Get_correct:
  assumes "trie_codec env" and "holds env tr m" and "enoughFuel key fuel"
  shows "\<exists>depth tr'. Get fuel env key tr = ((Inr (map_option fst (m key)), depth), tr') \<and> holds env tr' m"
  using Get_holds [OF assms] by blast


text \<open>
  \<^verbatim>\<open>UpdateWithVersion\<close> always succeeds: an empty value removes the key, a value the key already has changes nothing (not even
  the version), any other value is stored with its version, and no other key is affected.
\<close>

lemma UpdateWithVersion_correct:
  assumes "trie_codec env" and "holds env tr m" and "enoughFuel key fuel"
  shows "\<exists>tr'. UpdateWithVersion fuel env key val version tr = (Inr (), tr') \<and> holds env tr' (putMap key val version m) \<and>
    trieStorage tr' = trieStorage tr"
  using trieUpdate_holds [OF assms, of val version] by (auto simp: UpdateWithVersion_def)


text \<open>
  C29. \<^verbatim>\<open>Delete\<close> always succeeds, removes the key, leaves the other keys alone, and keeps the tree canonical: branches that are left
  with one child are merged away, so that the trie is the one that was never given the key.
\<close>

theorem Delete_correct:
  assumes "trie_codec env" and "holds env tr m" and "enoughFuel key fuel"
  shows "\<exists>tr'. Delete fuel env key tr = (Inr (), tr') \<and> holds env tr' (m(key := None)) \<and> trieStorage tr' = trieStorage tr"
  using trieDelete_holds [OF assms] by (auto simp: Delete_def)

theorem Delete_correct_witness:
  "\<exists>tr'. Delete 6 exampleTrieEnv ''xb'' exampleTrie = (Inr (), tr') \<and> holds exampleTrieEnv tr' [''yb'' \<mapsto> (''2'', 1)]"
proof -
  have "exampleMap(''xb'' := None) = [''yb'' \<mapsto> (''2'', 1)]" by (auto simp: exampleMap_def fun_eq_iff)
  then show ?thesis
    using Delete_correct [OF exampleTrieEnv_codec exampleTrie_holds, of "''xb''" 6] by (auto simp: enoughFuel_def)
qed

text \<open>
  C2. Any sequence of reads, writes, deletions and computations of the root hash refines the same sequence on a map.
\<close>

theorem trie_refines_map:
  assumes "trie_codec env" and "holds env tr m"
  shows "holds env (fold (runOp env) ops tr) (fold specOp ops m)"
  using assms by (rule run_holds)

theorem trie_refines_map_witness:
  "holds exampleTrieEnv (fold (runOp exampleTrieEnv) [OpRootHash, OpDelete ''yb'', OpUpdate ''z'' ''9'' 0] exampleTrie)
     [''xb'' \<mapsto> (''1'', 0), ''z'' \<mapsto> (''9'', 0)]"
proof -
  have "fold specOp [OpRootHash, OpDelete ''yb'', OpUpdate ''z'' ''9'' 0] exampleMap = [''xb'' \<mapsto> (''1'', 0), ''z'' \<mapsto> (''9'', 0)]"
    by (auto simp: exampleMap_def putMap_def fun_eq_iff)
  then show ?thesis using trie_refines_map [OF exampleTrieEnv_codec exampleTrie_holds] by metis
qed

section \<open>The root hash\<close>

text \<open>
  C11. The root hash depends on the content alone: two histories that end with the same map, in whatever order keys were
  written, overwritten and removed, give the same root hash.
\<close>

theorem root_history_independent:
  assumes "trie_codec env" and "holds env tr m" and "holds env tr' m'" and "fold specOp ops m = fold specOp ops' m'"
  shows "fst (RootHash env (fold (runOp env) ops tr)) = fst (RootHash env (fold (runOp env) ops' tr'))"
  using assms by (rule run_root)

theorem root_history_independent_witness:
  "fst (RootHash exampleTrieEnv (fold (runOp exampleTrieEnv) [OpDelete ''xb''] exampleTrie)) =
   fst (RootHash exampleTrieEnv (fold (runOp exampleTrieEnv) [OpUpdate ''yb'' ''2'' 1] (emptyTrie Map.empty 5)))"
  by (rule root_history_independent [OF exampleTrieEnv_codec exampleTrie_holds holds_emptyTrie])
     (auto simp: exampleMap_def putMap_def fun_eq_iff)

text \<open>
  C15. A root hash commits to the content: when the encodings of the nodes do not collide, tries with the same root hash hold
  the same map, values and versions.
\<close>

theorem root_binds_content:
  assumes "trie_codec env" and "holds env tr m" and "holds env tr' m'" and "fst (RootHash env tr) = fst (RootHash env tr')"
    and "inj_on (Compute env) (mapEncs env m \<union> mapEncs env m')" and "\<And>b. Compute env b \<noteq> EmptyTrieHash"
  shows "m = m'"
  using RootHash_holds [OF assms(1,2)] RootHash_holds [OF assms(1,3)] assms(4) hashOf_inj [OF assms(1) _ _ assms(5,6)] by auto

theorem root_binds_content_witness:
  "[''yb'' \<mapsto> (''2'', 1), ''xb'' \<mapsto> (''1'', 0)] = exampleMap"
proof (rule root_binds_content [OF exampleTrieEnv_codec _ exampleTrie_holds _ exampleTrieEnv_hash(1,2)])
  let ?ops = "[OpUpdate ''yb'' ''2'' 1, OpUpdate ''xb'' ''1'' 0]"
  have spec: "fold specOp ?ops Map.empty = [''yb'' \<mapsto> (''2'', 1), ''xb'' \<mapsto> (''1'', 0)]" by (simp add: putMap_def)
  show "holds exampleTrieEnv (fold (runOp exampleTrieEnv) ?ops (emptyTrie Map.empty 5)) [''yb'' \<mapsto> (''2'', 1), ''xb'' \<mapsto> (''1'', 0)]"
    using run_holds [OF exampleTrieEnv_codec holds_emptyTrie, of ?ops] unfolding spec .
  show "fst (RootHash exampleTrieEnv (fold (runOp exampleTrieEnv) ?ops (emptyTrie Map.empty 5))) = fst (RootHash exampleTrieEnv exampleTrie)"
    unfolding exampleTrie_def by (rule run_root [OF exampleTrieEnv_codec holds_emptyTrie holds_emptyTrie]) (auto simp: putMap_def fun_eq_iff)
qed

text \<open>
  Writing a new key and deleting it again restores the root hash.
\<close>

lemma update_delete_restores_root:
  assumes "trie_codec env" and "holds env tr m" and "m key = None"
  shows "fst (RootHash env (fold (runOp env) [OpUpdate key val version, OpDelete key] tr)) = fst (RootHash env tr)"
proof -
  have "fold specOp [OpUpdate key val version, OpDelete key] m = fold specOp [] m" using assms(3) by (auto simp: putMap_def fun_eq_iff)
  from run_root [OF assms(1,2,2) this] show ?thesis by simp
qed


text \<open>
  The root hashes its children concurrently; the result is the same as hashing them one after the other.
\<close>

lemma setRootHash_sequential:
  assumes "trie_codec env" and "holds env tr m" and "root tr = Some n"
  shows "setRootHash env n = setHash env n"
  using assms setRootHash_eq by (auto simp: holds_root)


section \<open>The database\<close>

text \<open>
  C13. A commit succeeds and can be undone by loading the trie from its root hash: the trie that \<^verbatim>\<open>recreate\<close> loads from the
  database after \<^verbatim>\<open>Commit\<close> holds the same map, whatever the number of levels that stay in memory, and everything that was in the
  database before is still there. The encodings of the nodes must not collide with each other or with what the database
  holds already.
\<close>

theorem commit_recreate:
  assumes "trie_codec env" and "holds env tr m" and "storage_ok env A (trieStorage tr)" and "mapEncs env m \<subseteq> A"
    and "\<And>b. Compute env b \<noteq> EmptyTrieHash" and "maxTrieLevelInMemory tr \<noteq> 0"
  shows "\<exists>tr1 h tr2 tr3. Commit env tr = (Inr (), tr1) \<and> holds env tr1 m \<and> RootHash env tr1 = (Inr h, tr2) \<and>
    recreate env h tr2 = Inr tr3 \<and> holds env tr3 m \<and> trieStorage tr \<subseteq>\<^sub>m trieStorage tr3"
proof (cases "root tr")
  case None
  then show ?thesis using assms(2,6)
    by (simp add: Commit_def holds_root RootHash_def recreate_def IsEmptyTrie_def NewTrie_def emptyTrie_def)
next
  case (Some n)
  then obtain p where p: "canon False p" "rep env (trieStorage tr) p n" "plookup p = hexmap m" using assms(2) by (auto simp: holds_root)
  obtain tr1 n1 where tr1: "Commit env tr = (Inr (), tr1)" "stored env (trieStorage tr1) p" "root tr1 = Some n1"
    "rep env (trieStorage tr1) p n1" "trieStorage tr \<subseteq>\<^sub>m trieStorage tr1"
    "maxTrieLevelInMemory tr1 = maxTrieLevelInMemory tr"
    using Commit_holds [OF assms(1) p(1) Some p(2) assms(3)] mapEncs_tree [OF p(1,3)] assms(4) by blast
  have h1: "holds env tr1 m" using tr1(3,4) p by (auto simp: holds_root)
  obtain h tr2 where tr2: "RootHash env tr1 = (Inr h, tr2)" "hashOf env m h" "trieStorage tr2 = trieStorage tr1"
    "maxTrieLevelInMemory tr2 = maxTrieLevelInMemory tr1"
    using RootHash_holds [OF assms(1) h1] by blast
  have "hashOf env m (phash env p)" using p by (auto simp: hashOf_def)
  with tr2(2) have h: "h = phash env p" by (rule hashOf_unique)
  have "stored env (trieStorage tr2) p" "phash env p \<noteq> EmptyTrieHash" "maxTrieLevelInMemory tr2 \<noteq> 0"
    using tr1(2,6) tr2(3,4) assms(5,6) by (simp_all add: phash_penc)
  from recreate_holds [OF assms(1) p(1) this]
  obtain tr3 n3 where "recreate env (phash env p) tr2 = Inr tr3" "root tr3 = Some n3" "rep env (trieStorage tr3) p n3"
    "trieStorage tr3 = trieStorage tr2" by blast
  then show ?thesis using tr1 h1 tr2 h p by (auto simp: holds_root)
qed

theorem commit_recreate_witness:
  "\<exists>tr1 h tr2 tr3. Commit exampleTrieEnv exampleTrie = (Inr (), tr1) \<and> holds exampleTrieEnv tr1 exampleMap \<and>
    RootHash exampleTrieEnv tr1 = (Inr h, tr2) \<and> recreate exampleTrieEnv h tr2 = Inr tr3 \<and> holds exampleTrieEnv tr3 exampleMap"
proof -
  have "trieStorage exampleTrie = Map.empty" and lvl: "maxTrieLevelInMemory exampleTrie \<noteq> 0"
    unfolding exampleTrie_def runOp_storage [OF exampleTrieEnv_codec holds_emptyTrie] by (simp_all add: emptyTrie_def)
  then have "storage_ok exampleTrieEnv UNIV (trieStorage exampleTrie)" using exampleTrieEnv_storage by simp
  from commit_recreate [OF exampleTrieEnv_codec exampleTrie_holds this subset_UNIV exampleTrieEnv_hash(2) lvl] show ?thesis by blast
qed

section \<open>Proofs\<close>

lemma GetProof_holds:
  assumes "trie_codec env" and "holds env tr m" and "enoughFuel key fuel"
  shows "\<exists>h r tr'. fst (RootHash env tr) = Inr h \<and> GetProof fuel env key tr = (r, tr') \<and> holds env tr' m \<and>
    (case m key of
       None \<Rightarrow> r = Inl (if m = Map.empty then ErrNilNode else ErrNodeNotFound)
     | Some (v, w) \<Rightarrow> \<exists>ns p. r = Inr (ns, Some v) \<and> verifyProof env h key (map Some ns) = Inr True \<and> canon False p \<and>
         plookup p = hexmap m \<and> h = phash env p \<and> ns = pathEncs env p (keyBytesToHex key))"
proof (cases "root tr")
  case None
  then show ?thesis using assms(2) by (simp add: holds_root GetProof_def RootHash_def)
next
  case (Some n)
  then obtain p where p: "canon False p" "rep env (trieStorage tr) p n" "plookup p = hexmap m" using assms(2) by (auto simp: holds_root)
  obtain n1 where n1: "setRootHash env n = (Inr (), n1)" "rep env (trieStorage tr) p n1" "getHash n1 = Some (phash env p)"
    using setHash_rep [OF assms(1) p(1,2)] setRootHash_eq [OF assms(1) p(1,2)] by (auto simp: hashOk_def)
  have "proofOk env (trieStorage tr) p n1 (keyBytesToHex key) (getProofLoop fuel env (trieStorage tr) n1 (keyBytesToHex key))"
    using proof_rep [OF assms(1) p(1) n1(2) _ subkey_hex] n1(3) assms(3) by (simp add: enoughFuel_hex)
  then obtain r n2 where r: "getProofLoop fuel env (trieStorage tr) n1 (keyBytesToHex key) = (r, n2)" "rep env (trieStorage tr) p n2"
    "case m key of None \<Rightarrow> r = Inl ErrNodeNotFound | Some (v, w) \<Rightarrow>
       r = Inr (pathEncs env p (keyBytesToHex key), Some v) \<and>
         verifyProofLoop env (phash env p) (keyBytesToHex key) (map Some (pathEncs env p (keyBytesToHex key))) = Inr True"
    using that by (auto simp: proofOk_def p(3))
  obtain h tr2 where h: "RootHash env tr = (Inr h, tr2)" "hashOf env m h" using RootHash_holds [OF assms(1,2)] by blast
  have "hashOf env m (phash env p)" using p by (auto simp: hashOf_def)
  with h(2) have hp: "h = phash env p" by (rule hashOf_unique)
  have "GetProof fuel env key tr = (r, tr\<lparr>root := Some n2\<rparr>)" "holds env (tr\<lparr>root := Some n2\<rparr>) m"
    using Some n1(1) r p by (auto simp: GetProof_def holds_root)
  then show ?thesis using h(1) hp r(3) canon_not_empty [OF p(1,3)] p(1,3)
    by (cases "m key") (auto simp: verifyProof_def split: prod.splits)
qed

text \<open>The proof that \<^verbatim>\<open>GetProof\<close> returned for a key, used for another one.\<close>

lemma GetProof_reused:
  assumes "trie_codec env" and "holds env tr m" and "enoughFuel a fuel" and "m a \<noteq> None"
    and "fst (RootHash env tr) = Inr h" and "fst (GetProof fuel env a tr) = Inr (ns, v)"
  shows "\<exists>p. canon False p \<and> plookup p = hexmap m \<and>
    (\<forall>b. (sameRoute p (keyBytesToHex a) (keyBytesToHex b) \<longrightarrow> verifyProof env h b (map Some ns) = Inr True \<and> (b \<noteq> a \<longrightarrow> m b = None)) \<and>
         (overruns p (keyBytesToHex a) (keyBytesToHex b) \<longrightarrow> verifyProof env h b (map Some ns) = Inl Panic))"
proof -
  obtain p where p: "canon False p" "plookup p = hexmap m" "h = phash env p" "ns = pathEncs env p (keyBytesToHex a)"
    using GetProof_holds [OF assms(1-3)] assms(4-6) by (auto split: option.splits prod.splits)
  have "b \<noteq> a \<Longrightarrow> m b = None" if "sameRoute p (keyBytesToHex a) (keyBytesToHex b)" for b
    using sameRoute_absent [OF p(1) that] assms(4) unfolding p(2) hexmap_key hex_inj by blast
  then show ?thesis using p verify_other [OF assms(1) p(1)] by (auto simp: verifyProof_def)
qed

lemma exampleTrie_proof:
  "\<exists>h ns. fst (RootHash exampleTrieEnv exampleTrie) = Inr h \<and> verifyProof exampleTrieEnv h ''xb'' (map Some ns) = Inr True"
  using GetProof_holds [OF exampleTrieEnv_codec exampleTrie_holds, of "''xb''" 6] by (auto simp: enoughFuel_def exampleMap_def)

text \<open>
  C30. \<^verbatim>\<open>GetProof\<close> returns, for every key of the trie, its value and a proof that \<^verbatim>\<open>verifyProof\<close> accepts for this key and the root hash;
  for a key that is not in the trie it returns an error.
\<close>

theorem GetProof_verifies:
  assumes "trie_codec env" and "holds env tr m" and "enoughFuel key fuel"
  shows "\<exists>h r tr'. fst (RootHash env tr) = Inr h \<and> GetProof fuel env key tr = (r, tr') \<and> holds env tr' m \<and>
    (case m key of
       None \<Rightarrow> r = Inl (if m = Map.empty then ErrNilNode else ErrNodeNotFound)
     | Some (v, w) \<Rightarrow> \<exists>ns. r = Inr (ns, Some v) \<and> verifyProof env h key (map Some ns) = Inr True)"
  using GetProof_holds [OF assms] by (fastforce split: option.splits)

theorem GetProof_verifies_witness:
  "\<exists>h ns tr'. fst (RootHash exampleTrieEnv exampleTrie) = Inr h \<and> GetProof 6 exampleTrieEnv ''xb'' exampleTrie = (Inr (ns, Some ''1''), tr') \<and>
    verifyProof exampleTrieEnv h ''xb'' (map Some ns) = Inr True"
  using GetProof_verifies [OF exampleTrieEnv_codec exampleTrie_holds, of "''xb''" 6] by (auto simp: enoughFuel_def exampleMap_def)

text \<open>
  C31. An accepted proof leads to a leaf of the trie: when encodings do not collide, \<^verbatim>\<open>verifyProof\<close> accepts a key only if the path of the key
  in the tree, with as many nibbles skipped at each extension as its key has, ends at a leaf with the rest of the key; in a trie
  without extensions the key is in the trie.
\<close>

theorem verifyProof_sound:
  assumes "trie_codec env" and "holds env tr m" and "m \<noteq> Map.empty" and "fst (RootHash env tr) = Inr h"
    and "inj_on (Compute env) (mapEncs env m \<union> {e. Some e \<in> set ns})" and "verifyProof env h key ns = Inr True"
  shows "\<exists>p. canon False p \<and> plookup p = hexmap m \<and> loosely p (keyBytesToHex key) \<and> (extFree p \<longrightarrow> m key \<noteq> None)"
proof -
  obtain p where p: "canon False p" "plookup p = hexmap m" "h = phash env p"
    using RootHash_holds [OF assms(1,2)] assms(3,4) by (auto simp: hashOf_def)
  have "noCollision env p ns"
    unfolding noCollision_def by (rule inj_on_subset [OF assms(5)]) (use mapEncs_tree [OF p(1,2)] in blast)
  then have l: "loosely p (keyBytesToHex key)" using verify_sound [OF assms(1) p(1)] assms(6) p(3) by (simp add: verifyProof_def)
  then show ?thesis using p loosely_extFree [of p "keyBytesToHex key"] by auto
qed

theorem verifyProof_sound_witness:
  "\<exists>p. canon False p \<and> plookup p = hexmap exampleMap \<and> loosely p (keyBytesToHex ''xb'')"
proof -
  obtain h ns where ex: "fst (RootHash exampleTrieEnv exampleTrie) = Inr h" "verifyProof exampleTrieEnv h ''xb'' (map Some ns) = Inr True"
    using exampleTrie_proof by blast
  have "exampleMap \<noteq> Map.empty" by (auto simp: exampleMap_def fun_eq_iff)
  from verifyProof_sound [OF exampleTrieEnv_codec exampleTrie_holds this ex(1) exampleTrieEnv_hash(1) ex(2)] show ?thesis by blast
qed

lemma exampleTrie_reuse:
  "\<exists>h ns. fst (RootHash exampleTrieEnv exampleTrie) = Inr h \<and> fst (GetProof 6 exampleTrieEnv ''xb'' exampleTrie) = Inr (ns, Some ''1'')"
  using GetProof_holds [OF exampleTrieEnv_codec exampleTrie_holds, of "''xb''" 6] by (auto simp: enoughFuel_def exampleMap_def)

text \<open>
  C32. The verification does not compare the key of an extension. In every trie the proof that \<^verbatim>\<open>GetProof\<close> returns for a key \<open>a\<close> is accepted for every key \<open>b\<close> that
  has other nibbles only where the path of \<open>a\<close> passes an extension (\<^verbatim>\<open>sameRoute\<close>), although such a \<open>b\<close> is not in the trie: by \<^verbatim>\<open>verifyProof\<close>, and by \<^verbatim>\<open>VerifyProof\<close>, which tries the
  hash of the key before the key, unless that first attempt fails with an error.
\<close>

theorem VerifyProof_accepts_absent_key:
  assumes "trie_codec env" and "holds env tr m" and "enoughFuel a fuel" and "m a \<noteq> None"
    and "fst (RootHash env tr) = Inr h" and "fst (GetProof fuel env a tr) = Inr (ns, v)"
  shows "\<exists>p. canon False p \<and> plookup p = hexmap m \<and>
    (\<forall>b. sameRoute p (keyBytesToHex a) (keyBytesToHex b) \<and> b \<noteq> a \<longrightarrow> m b = None \<and> verifyProof env h b (map Some ns) = Inr True \<and>
       (\<forall>first. verifyProof env h (Compute env b) (map Some ns) = Inr first \<longrightarrow> VerifyProof env h b (map Some ns) = Inr True))"
proof -
  obtain p where p: "canon False p" "plookup p = hexmap m"
    "\<And>b. sameRoute p (keyBytesToHex a) (keyBytesToHex b) \<Longrightarrow> verifyProof env h b (map Some ns) = Inr True \<and> (b \<noteq> a \<longrightarrow> m b = None)"
    using GetProof_reused [OF assms] by blast
  then show ?thesis by (intro exI [of _ p]) (simp add: VerifyProof_def)
qed

theorem VerifyProof_accepts_absent_key_witness:
  "\<exists>h ns v. fst (RootHash exampleTrieEnv exampleTrie) = Inr h \<and> fst (GetProof 6 exampleTrieEnv ''xb'' exampleTrie) = Inr (ns, v) \<and>
    exampleMap ''xc'' = None \<and> verifyProof exampleTrieEnv h ''xc'' (map Some ns) = Inr True"
proof -
  obtain h ns where ex: "fst (RootHash exampleTrieEnv exampleTrie) = Inr h" "fst (GetProof 6 exampleTrieEnv ''xb'' exampleTrie) = Inr (ns, Some ''1'')"
    using exampleTrie_reuse by blast
  have m: "exampleMap ''xb'' \<noteq> None" "enoughFuel ''xb'' 6" by (simp_all add: exampleMap_def enoughFuel_def)
  have "sameRoute exampleTree (keyBytesToHex ''xb'') (keyBytesToHex ''xc'')" by code_simp
  then show ?thesis using VerifyProof_accepts_absent_key [OF exampleTrieEnv_codec exampleTrie_holds m(2,1) ex] exampleTree_unique ex by force
qed

text \<open>
  C33. An extension makes the verification panic: it slices the rest of the key by the length of its own key. In every trie, when the proof that \<^verbatim>\<open>GetProof\<close> returns for a key \<open>a\<close> is verified
  with a key \<open>b\<close> that leads to an extension whose key is longer than what is left of \<open>b\<close> (\<^verbatim>\<open>overruns\<close>), \<^verbatim>\<open>verifyProof\<close> does not return false or an error but panics.
\<close>

theorem verifyProof_may_panic:
  assumes "trie_codec env" and "holds env tr m" and "enoughFuel a fuel" and "m a \<noteq> None"
    and "fst (RootHash env tr) = Inr h" and "fst (GetProof fuel env a tr) = Inr (ns, v)"
  shows "\<exists>p. canon False p \<and> plookup p = hexmap m \<and>
    (\<forall>b. overruns p (keyBytesToHex a) (keyBytesToHex b) \<longrightarrow> verifyProof env h b (map Some ns) = Inl Panic)"
  using GetProof_reused [OF assms] by blast

theorem verifyProof_may_panic_witness:
  "\<exists>h ns v. fst (RootHash exampleTrieEnv exampleTrie) = Inr h \<and> fst (GetProof 6 exampleTrieEnv ''xb'' exampleTrie) = Inr (ns, v) \<and>
    verifyProof exampleTrieEnv h [] (map Some ns) = Inl Panic"
proof -
  obtain h ns where ex: "fst (RootHash exampleTrieEnv exampleTrie) = Inr h" "fst (GetProof 6 exampleTrieEnv ''xb'' exampleTrie) = Inr (ns, Some ''1'')"
    using exampleTrie_reuse by blast
  have m: "exampleMap ''xb'' \<noteq> None" "enoughFuel ''xb'' 6" by (simp_all add: exampleMap_def enoughFuel_def)
  have "overruns exampleTree (keyBytesToHex ''xb'') (keyBytesToHex [])" by code_simp
  then show ?thesis using verifyProof_may_panic [OF exampleTrieEnv_codec exampleTrie_holds m(2,1) ex] exampleTree_unique ex by force
qed

section \<open>Keys\<close>

text \<open>
  The path of a key in the trie determines the key: \<^verbatim>\<open>hexToTrieKeyBytes\<close> inverts \<^verbatim>\<open>keyBytesToHex\<close> on every key, the empty one
  included, and the path has two nibbles for every byte and a terminator.
\<close>

lemma keyBytesToHex_round_trip:
  "hexToTrieKeyBytes (keyBytesToHex key) = Inr key \<and> length (keyBytesToHex key) = 2 * length key + 1"
  by (simp add: hex_round_trip length_hex)

end
