(* ===== verification/AccountsData.thy ===== *)
theory AccountsData
  imports PatriciaMerkleTrie
begin

text \<open>
  User accounts and their data tries: \<^verbatim>\<open>src/state/accounts/userAccount.go\<close>,
  \<^verbatim>\<open>src/state/trackableDataTrie/trackableDataTrie.go\<close> and \<^verbatim>\<open>src/state/dataTriesHolder.go\<close>.

  Accounts and data tries are Go pointers that are shared: the same data trie is reached from the account
  that a client holds, from the holder of data tries and from the journal. They live in two heaps of the state, indexed
  by natural numbers. All tries work on the same storage; the copy in the record of a trie is set before every
  operation and taken back after it. The marshaller, the hasher and the epoch flags are fields of \<^verbatim>\<open>adbEnv\<close>.
\<close>

section \<open>Data\<close>

abbreviation "AutoBalanceEnabled \<equiv> (1 :: u8)"

datatype adb_error =
    TrieErr trie_error
  | Marshal string
  | ErrNilAddress
  | ErrNilAccountHandler
  | ErrNilTrie
  | ErrLeafSizeTooBig
  | ErrInsufficientFunds
  | ErrOperationNotPermitted
  | ErrInvalidAddressLength
  | ErrInvalidRootHash
  | ErrNilOrEmptyDataTrieUpdates
  | ErrAccNotFound
  | ErrSnapshotValueOutOfBounds
  | ErrMarkForEviction string
  | WrapAdb string adb_error

record UserAccountData =
  uaNonce :: u64
  uaBalance :: int
  uaCodeHash :: bytes
  uaRootHash :: bytes
  uaAddress :: bytes
  uaDeveloperReward :: int
  uaOwnerAddress :: bytes
  uaUserName :: bytes
  uaCodeMetadata :: bytes

record dirtyData =
  ddValue :: bytes
  ddNewVersion :: u8

record trackableDataTrie =
  tdtDirtyData :: "(bytes \<times> dirtyData) list"
  tdtTr :: "nat option" \<comment> \<open>a trie of the heap, or \<^verbatim>\<open>nil\<close>\<close>
  tdtIdentifier :: bytes

record userAccount =
  accData :: UserAccountData
  accTracker :: trackableDataTrie
  accCode :: bytes
  accHasNewCode :: bool

record CodeEntry =
  ceCode :: bytes
  ceNumReferences :: u32

record TrieLeafData =
  tldValue :: bytes
  tldKey :: bytes
  tldAddress :: bytes

text \<open>\<^verbatim>\<open>core.TrieData\<close> as the journal keeps it: a key of a data trie with the value it had.\<close>

record trieUpdateData =
  tuKey :: bytes
  tuValue :: bytes
  tuVersion :: u8

datatype journalEntry =
    JournalEntryCode "CodeEntry option" bytes bytes
  | JournalEntryAccount userAccount
  | JournalEntryAccountCreation bytes
  | JournalEntryDataTrieUpdates "trieUpdateData list" nat
  | JournalEntryDataTrieRemove bytes

record adbEnv =
  tEnv :: trieEnv
  hasherCompute :: "bytes \<Rightarrow> bytes"
  marshalAccount :: "UserAccountData \<Rightarrow> string + bytes"
  unmarshalAccount :: "bytes \<Rightarrow> string + UserAccountData"
  marshalCode :: "CodeEntry option \<Rightarrow> string + bytes" \<comment> \<open>of a pointer, which may be \<^verbatim>\<open>nil\<close>\<close>
  unmarshalCode :: "bytes \<Rightarrow> string + CodeEntry"
  marshalLeafData :: "TrieLeafData \<Rightarrow> string + bytes"
  unmarshalLeafData :: "bytes \<Rightarrow> string + TrieLeafData"
  autoBalanceFlag :: bool \<comment> \<open>\<^verbatim>\<open>IsFlagEnabled(AutoBalanceDataTriesFlag)\<close>\<close>
  versionForNewData :: u8 \<comment> \<open>\<^verbatim>\<open>core.GetVersionForNewData\<close>\<close>
  dirtyOrder :: "bytes list \<Rightarrow> bytes list" \<comment> \<open>how Go ranges over the keys of the dirty data\<close>
  maxLeafSize :: u64
  maxDepth :: nat \<comment> \<open>bound on the depth of a traversal of a whole trie\<close>
  pruningEnabled :: bool
  storagePruningMark :: "bytes \<Rightarrow> bytes \<Rightarrow> bytes set \<Rightarrow> bytes set \<Rightarrow> string option" \<comment> \<open>\<^verbatim>\<open>MarkForEviction\<close>\<close>

record adbState =
  mainTrie :: patriciaMerkleTrie
  trieHeap :: "nat \<Rightarrow> patriciaMerkleTrie"
  nextTrie :: nat
  accountHeap :: "nat \<Rightarrow> userAccount"
  nextAccount :: nat
  dataTries :: "(bytes \<times> nat) list"
  entries :: "journalEntry list"
  lastRootHash :: bytes
  obsoleteDataTrieHashes :: "(bytes \<times> bytes list) list"
  storage :: trieDB

type_synonym 'a adb = "(adbState, adb_error + 'a) state"

section \<open>Access to the heaps\<close>

definition keyFuel :: "bytes \<Rightarrow> nat" where
  "keyFuel key = 2 * length key + 2"

definition liftTrie :: "'a tres \<Rightarrow> adb_error + 'a" where
  "liftTrie r = (case r of Inl e \<Rightarrow> Inl (TrieErr e) | Inr x \<Rightarrow> Inr x)"

definition liftMarshal :: "string + 'a \<Rightarrow> adb_error + 'a" where
  "liftMarshal r = (case r of Inl e \<Rightarrow> Inl (Marshal e) | Inr x \<Rightarrow> Inr x)"

definition onMainTrie :: "(patriciaMerkleTrie \<Rightarrow> 'a tres \<times> patriciaMerkleTrie) \<Rightarrow> 'a adb" where
  "onMainTrie f = State (\<lambda>s. case f ((mainTrie s)\<lparr>trieStorage := storage s\<rparr>) of
     (r, tr) \<Rightarrow> (liftTrie r, s\<lparr>mainTrie := tr, storage := trieStorage tr\<rparr>))"

definition onDataTrie :: "nat \<Rightarrow> (patriciaMerkleTrie \<Rightarrow> 'a tres \<times> patriciaMerkleTrie) \<Rightarrow> 'a adb" where
  "onDataTrie r f = State (\<lambda>s. case f ((trieHeap s r)\<lparr>trieStorage := storage s\<rparr>) of
     (x, tr) \<Rightarrow> (liftTrie x, s\<lparr>trieHeap := (trieHeap s)(r := tr), storage := trieStorage tr\<rparr>))"

definition newTrieRef :: "patriciaMerkleTrie \<Rightarrow> nat adb" where
  "newTrieRef tr = State (\<lambda>s. (Inr (nextTrie s), s\<lparr>trieHeap := (trieHeap s)(nextTrie s := tr), nextTrie := Suc (nextTrie s)\<rparr>))"

definition newAccountRef :: "userAccount \<Rightarrow> nat adb" where
  "newAccountRef acc = State (\<lambda>s. (Inr (nextAccount s),
     s\<lparr>accountHeap := (accountHeap s)(nextAccount s := acc), nextAccount := Suc (nextAccount s)\<rparr>))"

definition getAcc :: "nat \<Rightarrow> userAccount adb" where
  "getAcc a = gets (\<lambda>s. Inr (accountHeap s a))"

definition modifyAcc :: "nat \<Rightarrow> (userAccount \<Rightarrow> userAccount) \<Rightarrow> unit adb" where
  "modifyAcc a f = State (\<lambda>s. (Inr (), s\<lparr>accountHeap := (accountHeap s)(a := f (accountHeap s a))\<rparr>))"

definition ok :: "'a \<Rightarrow> 'a adb" where
  "ok x = return (Inr x)"

definition fail :: "adb_error \<Rightarrow> 'a adb" where
  "fail e = return (Inl e)"

text \<open>\<^verbatim>\<open>Recreate\<close> makes a new trie on the storage of the main trie.\<close>

definition recreateDataTrie :: "adbEnv \<Rightarrow> bytes \<Rightarrow> nat adb" where
  "recreateDataTrie env rootHash =
     tryE (gets (\<lambda>s. liftTrie (recreate (tEnv env) rootHash ((mainTrie s)\<lparr>trieStorage := storage s\<rparr>)))) newTrieRef"

section \<open>User accounts\<close>

definition NewUserAccount :: "bytes \<Rightarrow> adb_error + userAccount" where
  "NewUserAccount address =
     (if length address = 0 then Inl ErrNilAddress
      else Inr \<lparr>accData = \<lparr>uaNonce = 0, uaBalance = 0, uaCodeHash = [], uaRootHash = [], uaAddress = address,
                          uaDeveloperReward = 0, uaOwnerAddress = [], uaUserName = [], uaCodeMetadata = []\<rparr>,
                accTracker = \<lparr>tdtDirtyData = [], tdtTr = None, tdtIdentifier = address\<rparr>,
                accCode = [], accHasNewCode = False\<rparr>)"

definition AddToBalance :: "int \<Rightarrow> UserAccountData \<Rightarrow> adb_error + UserAccountData" where
  "AddToBalance value a =
     (let newBalance = uaBalance a + value
      in if newBalance < 0 then Inl ErrInsufficientFunds else Inr (a\<lparr>uaBalance := newBalance\<rparr>))"

definition SubFromBalance :: "int \<Rightarrow> UserAccountData \<Rightarrow> adb_error + UserAccountData" where
  "SubFromBalance value a =
     (let newBalance = uaBalance a - value
      in if newBalance < 0 then Inl ErrInsufficientFunds else Inr (a\<lparr>uaBalance := newBalance\<rparr>))"

definition ClaimDeveloperRewards :: "bytes \<Rightarrow> UserAccountData \<Rightarrow> adb_error + int \<times> UserAccountData" where
  "ClaimDeveloperRewards sndAddress a =
     (if sndAddress \<noteq> uaOwnerAddress a then Inl ErrOperationNotPermitted
      else Inr (uaDeveloperReward a, a\<lparr>uaDeveloperReward := 0\<rparr>))"

definition AddToDeveloperReward :: "int \<Rightarrow> UserAccountData \<Rightarrow> UserAccountData" where
  "AddToDeveloperReward value a = a\<lparr>uaDeveloperReward := uaDeveloperReward a + value\<rparr>"

definition ChangeOwnerAddress :: "bytes \<Rightarrow> bytes \<Rightarrow> UserAccountData \<Rightarrow> adb_error + UserAccountData" where
  "ChangeOwnerAddress sndAddress newAddress a =
     (if sndAddress \<noteq> uaOwnerAddress a then Inl ErrOperationNotPermitted
      else if length newAddress \<noteq> length (uaAddress a) then Inl ErrInvalidAddressLength
      else Inr (a\<lparr>uaOwnerAddress := newAddress\<rparr>))"

definition IncreaseNonce :: "u64 \<Rightarrow> UserAccountData \<Rightarrow> UserAccountData" where
  "IncreaseNonce value a = a\<lparr>uaNonce := uaNonce a + value\<rparr>"

definition SetCodeHash :: "nat \<Rightarrow> bytes \<Rightarrow> unit adb" where
  "SetCodeHash a codeHash = modifyAcc a (\<lambda>acc. acc\<lparr>accData := (accData acc)\<lparr>uaCodeHash := codeHash\<rparr>\<rparr>)"

definition SetRootHash :: "nat \<Rightarrow> bytes \<Rightarrow> unit adb" where
  "SetRootHash a rootHash = modifyAcc a (\<lambda>acc. acc\<lparr>accData := (accData acc)\<lparr>uaRootHash := rootHash\<rparr>\<rparr>)"

definition SetDataTrie :: "nat \<Rightarrow> nat \<Rightarrow> unit adb" where
  "SetDataTrie a tr = modifyAcc a (\<lambda>acc. acc\<lparr>accTracker := (accTracker acc)\<lparr>tdtTr := Some tr\<rparr>\<rparr>)"

definition SetCode :: "nat \<Rightarrow> bytes \<Rightarrow> unit adb" where
  "SetCode a code = modifyAcc a (\<lambda>acc. acc\<lparr>accHasNewCode := True, accCode := code\<rparr>)"

section \<open>The data of an account\<close>

definition getKeyForVersion :: "adbEnv \<Rightarrow> bytes \<Rightarrow> u8 \<Rightarrow> bytes" where
  "getKeyForVersion env key version = (if version = AutoBalanceEnabled then hasherCompute env key else key)"

definition getValueForVersion :: "adbEnv \<Rightarrow> bytes \<Rightarrow> bytes \<Rightarrow> bytes \<Rightarrow> u8 \<Rightarrow> adb_error + bytes" where
  "getValueForVersion env identifier key value version =
     (if length value = 0 then Inr []
      else if version = AutoBalanceEnabled then
        liftMarshal (marshalLeafData env \<lparr>tldValue = value, tldKey = key, tldAddress = identifier\<rparr>)
      else Inr (value @ (key @ identifier)))"

definition retrieveValueFromTrie :: "adbEnv \<Rightarrow> nat \<Rightarrow> bytes \<Rightarrow> trieUpdateData adb" where
  "retrieveValueFromTrie env tr key =
     (let lookup = (\<lambda>k. onDataTrie tr (\<lambda>t. case Get (keyFuel k) (tEnv env) k t of ((v, _), t') \<Rightarrow> (v, t')));
          plain = tryE (lookup key) (\<lambda>v.
            if length (slice v) \<noteq> 0 then ok \<lparr>tuKey = key, tuValue = slice v, tuVersion = NotSpecified\<rparr>
            else ok \<lparr>tuKey = getKeyForVersion env key (versionForNewData env), tuValue = [],
                     tuVersion = versionForNewData env\<rparr>)
      in if autoBalanceFlag env then
           tryE (lookup (hasherCompute env key)) (\<lambda>v.
             if length (slice v) \<noteq> 0
             then ok \<lparr>tuKey = hasherCompute env key, tuValue = slice v, tuVersion = AutoBalanceEnabled\<rparr>
             else plain)
         else plain)"

definition TrimSuffixFromValue :: "bytes \<Rightarrow> nat \<Rightarrow> bytes option" where
  "TrimSuffixFromValue value suffixLength =
     (if suffixLength = 0 then Some value
      else if length value < suffixLength then None
      else Some (take (length value - suffixLength) value))"

definition getValueNotSpecifiedVersion :: "bytes \<Rightarrow> bytes \<Rightarrow> bytes \<Rightarrow> bytes" where
  "getValueNotSpecifiedVersion identifier key val =
     slice (TrimSuffixFromValue val (length key + length identifier))"

definition getValueAutoBalanceVersion :: "adbEnv \<Rightarrow> bytes \<Rightarrow> adb_error + bytes" where
  "getValueAutoBalanceVersion env val =
     (case liftMarshal (unmarshalLeafData env val) of Inl e \<Rightarrow> Inl e | Inr d \<Rightarrow> Inr (tldValue d))"

definition getValueWithoutMetadata :: "adbEnv \<Rightarrow> bytes \<Rightarrow> bytes \<Rightarrow> trieUpdateData \<Rightarrow> adb_error + bytes" where
  "getValueWithoutMetadata env identifier key trieData =
     (if length (tuValue trieData) = 0 then Inr []
      else if tuVersion trieData = AutoBalanceEnabled then getValueAutoBalanceVersion env (tuValue trieData)
      else Inr (getValueNotSpecifiedVersion identifier key (tuValue trieData)))"

definition RetrieveValue :: "adbEnv \<Rightarrow> nat \<Rightarrow> bytes \<Rightarrow> bytes adb" where
  "RetrieveValue env a key =
     tryE (getAcc a) (\<lambda>acc.
       let tdt = accTracker acc in
       case map_of (tdtDirtyData tdt) key of
         Some d \<Rightarrow> ok (ddValue d)
       | None \<Rightarrow>
          (case tdtTr tdt of
             None \<Rightarrow> fail ErrNilTrie
           | Some tr \<Rightarrow> tryE (retrieveValueFromTrie env tr key) (\<lambda>trieValue.
               return (getValueWithoutMetadata env (tdtIdentifier tdt) key trieValue))))"

text \<open>A write to a Go map: the entry of the key is replaced or added.\<close>

fun setEntry :: "'k \<Rightarrow> 'v \<Rightarrow> ('k \<times> 'v) list \<Rightarrow> ('k \<times> 'v) list" where
  "setEntry k v [] = [(k, v)]"
| "setEntry k v ((k', v') # rest) = (if k' = k then (k, v) # rest else (k', v') # setEntry k v rest)"

definition SaveKeyValue :: "adbEnv \<Rightarrow> nat \<Rightarrow> bytes \<Rightarrow> bytes \<Rightarrow> unit adb" where
  "SaveKeyValue env a key value =
     (if (of_nat (length value) :: u64) > maxLeafSize env then fail ErrLeafSizeTooBig
      else modifyAcc a (\<lambda>acc. acc\<lparr>accTracker := (accTracker acc)\<lparr>tdtDirtyData :=
             setEntry key \<lparr>ddValue = value, ddNewVersion = versionForNewData env\<rparr> (tdtDirtyData (accTracker acc))\<rparr>\<rparr>))"

definition trieDeleteKey :: "adbEnv \<Rightarrow> nat \<Rightarrow> bytes \<Rightarrow> unit adb" where
  "trieDeleteKey env tr key = onDataTrie tr (Delete (keyFuel key) (tEnv env) key)"

definition trieUpdateKey :: "adbEnv \<Rightarrow> nat \<Rightarrow> bytes \<Rightarrow> bytes \<Rightarrow> u8 \<Rightarrow> unit adb" where
  "trieUpdateKey env tr key value version =
     onDataTrie tr (UpdateWithVersion (keyFuel key) (tEnv env) key value version)"

definition deleteOldEntryIfMigrated :: "adbEnv \<Rightarrow> nat \<Rightarrow> bytes \<Rightarrow> dirtyData \<Rightarrow> trieUpdateData \<Rightarrow> unit adb" where
  "deleteOldEntryIfMigrated env tr key newData oldEntry =
     (if \<not> autoBalanceFlag env then ok ()
      else if (tuVersion oldEntry = NotSpecified \<and> ddNewVersion newData = AutoBalanceEnabled) \<and> length (ddValue newData) \<noteq> 0
      then trieDeleteKey env tr key
      else ok ())"

definition deleteFromTrie :: "adbEnv \<Rightarrow> nat \<Rightarrow> trieUpdateData \<Rightarrow> bytes \<Rightarrow> unit adb" where
  "deleteFromTrie env tr oldVal key =
     (if length (tuValue oldVal) = 0 then ok ()
      else if tuVersion oldVal = AutoBalanceEnabled then trieDeleteKey env tr (hasherCompute env key)
      else if tuVersion oldVal = NotSpecified then trieDeleteKey env tr key
      else ok ())"

definition modifyTrie :: "adbEnv \<Rightarrow> bytes \<Rightarrow> nat \<Rightarrow> bytes \<Rightarrow> dirtyData \<Rightarrow> trieUpdateData \<Rightarrow> bytes adb" where
  "modifyTrie env identifier tr key dataEntry oldVal =
     (if length (ddValue dataEntry) = 0 then tryE (deleteFromTrie env tr oldVal key) (\<lambda>_. ok [])
      else
        let version = ddNewVersion dataEntry;
            newKey = getKeyForVersion env key version
        in case getValueForVersion env identifier key (ddValue dataEntry) version of
             Inl e \<Rightarrow> fail e
           | Inr value \<Rightarrow> tryE (trieUpdateKey env tr newKey value version) (\<lambda>_. ok newKey))"

text \<open>The loop of \<^verbatim>\<open>updateTrie\<close>: the old values at their indices, and the ones appended for migrated keys.\<close>

fun updateTrieLoop ::
  "adbEnv \<Rightarrow> bytes \<Rightarrow> nat \<Rightarrow> (bytes \<times> dirtyData) list \<Rightarrow> trieUpdateData list \<Rightarrow> trieUpdateData list
     \<Rightarrow> (trieUpdateData list) adb" where
  "updateTrieLoop env identifier tr [] oldValues appended = ok (oldValues @ appended)"
| "updateTrieLoop env identifier tr ((key, dataEntry) # rest) oldValues appended =
     tryE (retrieveValueFromTrie env tr key) (\<lambda>oldVal.
     tryE (deleteOldEntryIfMigrated env tr key dataEntry oldVal) (\<lambda>_.
     tryE (modifyTrie env identifier tr key dataEntry oldVal) (\<lambda>newKey.
       let isFirstMigration = (tuVersion oldVal = NotSpecified \<and> ddNewVersion dataEntry = AutoBalanceEnabled);
           appended' = (if isFirstMigration \<and> length newKey \<noteq> 0
                        then appended @ [\<lparr>tuKey = newKey, tuValue = [], tuVersion = NotSpecified\<rparr>] else appended)
       in updateTrieLoop env identifier tr rest (oldValues @ [oldVal]) appended')))"

definition rangeDirty :: "adbEnv \<Rightarrow> (bytes \<times> dirtyData) list \<Rightarrow> (bytes \<times> dirtyData) list" where
  "rangeDirty env dd = map (\<lambda>k. (k, the (map_of dd k))) (dirtyOrder env (map fst dd))"

definition updateTrie :: "adbEnv \<Rightarrow> nat \<Rightarrow> nat \<Rightarrow> (trieUpdateData list) adb" where
  "updateTrie env a tr =
     tryE (getAcc a) (\<lambda>acc.
     tryE (updateTrieLoop env (tdtIdentifier (accTracker acc)) tr (rangeDirty env (tdtDirtyData (accTracker acc))) [] [])
       (\<lambda>oldValues.
     tryE (modifyAcc a (\<lambda>acc. acc\<lparr>accTracker := (accTracker acc)\<lparr>tdtDirtyData := []\<rparr>\<rparr>)) (\<lambda>_. ok oldValues)))"

definition SaveDirtyData :: "adbEnv \<Rightarrow> nat \<Rightarrow> (trieUpdateData list) adb" where
  "SaveDirtyData env a =
     tryE (getAcc a) (\<lambda>acc.
       if length (tdtDirtyData (accTracker acc)) = 0 then ok []
       else
         (case tdtTr (accTracker acc) of
            Some tr \<Rightarrow> updateTrie env a tr
          | None \<Rightarrow>
              tryE (recreateDataTrie env []) (\<lambda>tr.
              tryE (SetDataTrie a tr) (\<lambda>_. updateTrie env a tr))))"

section \<open>The holder of data tries\<close>

definition holderPut :: "bytes \<Rightarrow> nat \<Rightarrow> unit adb" where
  "holderPut key tr = State (\<lambda>s. (Inr (), s\<lparr>dataTries := setEntry key tr (dataTries s)\<rparr>))"

definition holderGet :: "bytes \<Rightarrow> (nat option) adb" where
  "holderGet key = gets (\<lambda>s. Inr (map_of (dataTries s) key))"

definition holderReset :: "unit adb" where
  "holderReset = State (\<lambda>s. (Inr (), s\<lparr>dataTries := []\<rparr>))"

end
