(* ===== verification/AccountsDB.thy ===== *)
theory AccountsDB
  imports AccountsData
begin

text \<open>
  The accounts database: \<^verbatim>\<open>src/state/accountsDB.go\<close> and \<^verbatim>\<open>src/state/journalEntries.go\<close>. The main trie maps addresses to
  accounts and hashes of code to code entries with reference counters; every change is journalled so that it can be undone.
  The accounts are user accounts; the entries of the journal work on the current main trie, which is only replaced together
  with the journal. Mutexes, measurements and logging have no counterpart.
\<close>

section \<open>The main trie\<close>

definition mainGet :: "adbEnv \<Rightarrow> bytes \<Rightarrow> (bytes option) adb" where
  "mainGet env key = onMainTrie (\<lambda>t. case Get (keyFuel key) (tEnv env) key t of ((v, _), t') \<Rightarrow> (v, t'))"

definition mainUpdate :: "adbEnv \<Rightarrow> bytes \<Rightarrow> bytes \<Rightarrow> unit adb" where
  "mainUpdate env key value = onMainTrie (Update (keyFuel key) (tEnv env) key value)"

definition mainDelete :: "adbEnv \<Rightarrow> bytes \<Rightarrow> unit adb" where
  "mainDelete env key = onMainTrie (Delete (keyFuel key) (tEnv env) key)"

definition journalize :: "journalEntry \<Rightarrow> unit adb" where
  "journalize entry = State (\<lambda>s. (Inr (), s\<lparr>entries := entries s @ [entry]\<rparr>))"

definition getCodeEntry :: "adbEnv \<Rightarrow> bytes \<Rightarrow> (CodeEntry option) adb" where
  "getCodeEntry env codeHash =
     tryE (mainGet env codeHash) (\<lambda>val.
       if length (slice val) = 0 then ok None
       else case liftMarshal (unmarshalCode env (slice val)) of
              Inl e \<Rightarrow> fail e
            | Inr codeEntry \<Rightarrow> ok (Some codeEntry))"

definition saveCodeEntry :: "adbEnv \<Rightarrow> bytes \<Rightarrow> CodeEntry option \<Rightarrow> unit adb" where
  "saveCodeEntry env codeHash entry =
     (case liftMarshal (marshalCode env entry) of
        Inl e \<Rightarrow> fail e
      | Inr codeEntry \<Rightarrow> mainUpdate env codeHash codeEntry)"

definition GetCode :: "adbEnv \<Rightarrow> bytes \<Rightarrow> bytes adb" where
  "GetCode env codeHash =
     (if length codeHash = 0 then ok []
      else State (\<lambda>s. case run_state (mainGet env codeHash) s of
        (Inl e, s') \<Rightarrow> (Inr [], s')
      | (Inr val, s') \<Rightarrow> (case unmarshalCode env (slice val) of Inl e \<Rightarrow> (Inr [], s') | Inr c \<Rightarrow> (Inr (ceCode c), s'))))"

section \<open>Reading accounts\<close>

text \<open>The account that is stored under an address. It is a new object that nobody else holds, so it is returned by value.\<close>

definition getAccount :: "adbEnv \<Rightarrow> bytes \<Rightarrow> (userAccount option) adb" where
  "getAccount env address =
     tryE (mainGet env address) (\<lambda>val.
       case val of
         None \<Rightarrow> ok None
       | Some v \<Rightarrow>
          (case NewUserAccount address of
             Inl e \<Rightarrow> fail e
           | Inr acnt \<Rightarrow>
              (case liftMarshal (unmarshalAccount env v) of
                 Inl e \<Rightarrow> fail e
               | Inr d \<Rightarrow> ok (Some (acnt\<lparr>accData := d\<rparr>)))))"

definition loadDataTrieConcurrentSafe :: "adbEnv \<Rightarrow> nat \<Rightarrow> unit adb" where
  "loadDataTrieConcurrentSafe env a =
     tryE (getAcc a) (\<lambda>acc.
     tryE (holderGet (uaAddress (accData acc))) (\<lambda>dataTrie.
       case dataTrie of
         Some tr \<Rightarrow> SetDataTrie a tr
       | None \<Rightarrow>
          if length (uaRootHash (accData acc)) = 0 then ok ()
          else State (\<lambda>s. case run_state (recreateDataTrie env (uaRootHash (accData acc))) s of
                 (Inl e, s') \<Rightarrow> (Inl (WrapAdb ''trie was not found for hash'' e), s')
               | (Inr tr, s') \<Rightarrow> run_state (tryE (SetDataTrie a tr) (\<lambda>_.
                                     holderPut (uaAddress (accData acc)) tr)) s')))"

definition LoadAccount :: "adbEnv \<Rightarrow> bytes \<Rightarrow> nat adb" where
  "LoadAccount env address =
     (if length address = 0 then fail (WrapAdb ''in LoadAccount'' ErrNilAddress)
      else tryE (getAccount env address) (\<lambda>acnt.
        case acnt of
          None \<Rightarrow> (case NewUserAccount address of Inl e \<Rightarrow> fail e | Inr acc \<Rightarrow> newAccountRef acc)
        | Some acc \<Rightarrow>
            tryE (newAccountRef acc) (\<lambda>a.
            tryE (loadDataTrieConcurrentSafe env a) (\<lambda>_. ok a))))"

definition GetExistingAccount :: "adbEnv \<Rightarrow> bytes \<Rightarrow> nat adb" where
  "GetExistingAccount env address =
     (if length address = 0 then fail (WrapAdb ''in GetExistingAccount'' ErrNilAddress)
      else tryE (getAccount env address) (\<lambda>acnt.
        case acnt of
          None \<Rightarrow> fail ErrAccNotFound
        | Some acc \<Rightarrow>
            tryE (newAccountRef acc) (\<lambda>a.
            tryE (loadDataTrieConcurrentSafe env a) (\<lambda>_. ok a))))"

definition GetAccountFromBytes :: "adbEnv \<Rightarrow> bytes \<Rightarrow> bytes \<Rightarrow> nat adb" where
  "GetAccountFromBytes env address accountBytes =
     (if length address = 0 then fail (WrapAdb ''in GetAccountFromBytes'' ErrNilAddress)
      else case NewUserAccount address of
        Inl e \<Rightarrow> fail e
      | Inr acc \<Rightarrow>
         (case liftMarshal (unmarshalAccount env accountBytes) of
            Inl e \<Rightarrow> fail e
          | Inr d \<Rightarrow>
              tryE (newAccountRef (acc\<lparr>accData := d\<rparr>)) (\<lambda>a.
              tryE (loadDataTrieConcurrentSafe env a) (\<lambda>_. ok a))))"

definition loadCode :: "adbEnv \<Rightarrow> nat \<Rightarrow> unit adb" where
  "loadCode env a =
     tryE (getAcc a) (\<lambda>acc.
       if length (uaCodeHash (accData acc)) = 0 then ok ()
       else tryE (mainGet env (uaCodeHash (accData acc))) (\<lambda>val.
         case liftMarshal (unmarshalCode env (slice val)) of
           Inl e \<Rightarrow> fail e
         | Inr codeEntry \<Rightarrow> SetCode a (ceCode codeEntry)))"

section \<open>Saving accounts\<close>

definition saveAccountToTrie :: "adbEnv \<Rightarrow> userAccount \<Rightarrow> unit adb" where
  "saveAccountToTrie env acc =
     (case liftMarshal (marshalAccount env (accData acc)) of
        Inl e \<Rightarrow> fail e
      | Inr buff \<Rightarrow> mainUpdate env (uaAddress (accData acc)) buff)"

definition ImportAccount :: "adbEnv \<Rightarrow> nat option \<Rightarrow> unit adb" where
  "ImportAccount env account =
     (case account of
        None \<Rightarrow> fail (WrapAdb ''in accountsDB ImportAccount'' ErrNilAccountHandler)
      | Some a \<Rightarrow> tryE (getAcc a) (saveAccountToTrie env))"

definition updateOldCodeEntry :: "adbEnv \<Rightarrow> bytes \<Rightarrow> (CodeEntry option) adb" where
  "updateOldCodeEntry env oldCodeHash =
     tryE (getCodeEntry env oldCodeHash) (\<lambda>oldCodeEntry.
       case oldCodeEntry of
         None \<Rightarrow> ok None
       | Some entry \<Rightarrow>
           if ceNumReferences entry \<le> 1 then tryE (mainDelete env oldCodeHash) (\<lambda>_. ok (Some entry))
           else tryE (saveCodeEntry env oldCodeHash (Some (entry\<lparr>ceNumReferences := ceNumReferences entry - 1\<rparr>)))
                  (\<lambda>_. ok (Some entry)))"

definition updateNewCodeEntry :: "adbEnv \<Rightarrow> bytes \<Rightarrow> bytes \<Rightarrow> unit adb" where
  "updateNewCodeEntry env newCodeHash newCode =
     (if length newCode = 0 then ok ()
      else tryE (getCodeEntry env newCodeHash) (\<lambda>newCodeEntry.
        let entry = (case newCodeEntry of None \<Rightarrow> \<lparr>ceCode = newCode, ceNumReferences = 0\<rparr> | Some e \<Rightarrow> e)
        in saveCodeEntry env newCodeHash (Some (entry\<lparr>ceNumReferences := ceNumReferences entry + 1\<rparr>))))"

definition saveCode :: "adbEnv \<Rightarrow> nat \<Rightarrow> userAccount option \<Rightarrow> unit adb" where
  "saveCode env a oldAcc =
     tryE (getAcc a) (\<lambda>newAcc.
       if \<not> accHasNewCode newAcc then ok ()
       else
         let oldCodeHash = (case oldAcc of None \<Rightarrow> [] | Some old \<Rightarrow> uaCodeHash (accData old));
             newCode = accCode newAcc;
             newCodeHash = (if length newCode \<noteq> 0 then hasherCompute env newCode else [])
         in if oldCodeHash = newCodeHash then SetCodeHash a newCodeHash
            else
              tryE (updateOldCodeEntry env oldCodeHash) (\<lambda>unmodifiedOldCodeEntry.
              tryE (updateNewCodeEntry env newCodeHash newCode) (\<lambda>_.
              tryE (journalize (JournalEntryCode unmodifiedOldCodeEntry oldCodeHash newCodeHash)) (\<lambda>_.
                SetCodeHash a newCodeHash))))"

definition saveDataTrie :: "adbEnv \<Rightarrow> nat \<Rightarrow> unit adb" where
  "saveDataTrie env a =
     tryE (SaveDirtyData env a) (\<lambda>oldValues.
       if length oldValues = 0 then ok ()
       else
         tryE (journalize (JournalEntryDataTrieUpdates oldValues a)) (\<lambda>_.
         tryE (getAcc a) (\<lambda>acc.
           case tdtTr (accTracker acc) of
             None \<Rightarrow> fail ErrNilTrie \<comment> \<open>a call through a \<^verbatim>\<open>nil\<close> interface; \<^verbatim>\<open>SaveDirtyData\<close> has set the trie\<close>
           | Some tr \<Rightarrow>
               tryE (onDataTrie tr (RootHash (tEnv env))) (\<lambda>rootHash.
               tryE (SetRootHash a rootHash) (\<lambda>_.
               tryE (holderGet (uaAddress (accData acc))) (\<lambda>held.
                 if held = None then holderPut (uaAddress (accData acc)) tr else ok ()))))))"

definition saveCodeAndDataTrie :: "adbEnv \<Rightarrow> userAccount option \<Rightarrow> nat \<Rightarrow> unit adb" where
  "saveCodeAndDataTrie env oldAcc a = tryE (saveDataTrie env a) (\<lambda>_. saveCode env a oldAcc)"

definition NewJournalEntryAccountCreation :: "bytes \<Rightarrow> adb_error + journalEntry" where
  "NewJournalEntryAccountCreation address =
     (if length address = 0 then Inl ErrInvalidAddressLength else Inr (JournalEntryAccountCreation address))"

definition SaveAccount :: "adbEnv \<Rightarrow> nat option \<Rightarrow> unit adb" where
  "SaveAccount env account =
     (case account of
        None \<Rightarrow> fail (WrapAdb ''in accountsDB SaveAccount'' ErrNilAccountHandler)
      | Some a \<Rightarrow>
          tryE (getAcc a) (\<lambda>acc.
          tryE (getAccount env (uaAddress (accData acc))) (\<lambda>oldAccount.
          tryE (case oldAccount of
                  None \<Rightarrow> (case NewJournalEntryAccountCreation (uaAddress (accData acc)) of
                            Inl e \<Rightarrow> fail e | Inr entry \<Rightarrow> journalize entry)
                | Some old \<Rightarrow> journalize (JournalEntryAccount old)) (\<lambda>_.
          tryE (saveCodeAndDataTrie env oldAccount a) (\<lambda>_.
          tryE (getAcc a) (saveAccountToTrie env))))))"

section \<open>Removing accounts\<close>

definition removeCode :: "adbEnv \<Rightarrow> userAccount \<Rightarrow> unit adb" where
  "removeCode env baseAcc =
     (let oldCodeHash = uaCodeHash (accData baseAcc) in
      tryE (updateOldCodeEntry env oldCodeHash) (\<lambda>unmodifiedOldCodeEntry.
        journalize (JournalEntryCode unmodifiedOldCodeEntry oldCodeHash [])))"

definition NewJournalEntryDataTrieRemove :: "bytes \<Rightarrow> adb_error + journalEntry" where
  "NewJournalEntryDataTrieRemove rootHash =
     (if length rootHash = 0 then Inl ErrInvalidRootHash else Inr (JournalEntryDataTrieRemove rootHash))"

definition removeDataTrie :: "adbEnv \<Rightarrow> userAccount \<Rightarrow> unit adb" where
  "removeDataTrie env baseAcc =
     (let rootHash = uaRootHash (accData baseAcc) in
      if length rootHash = 0 then ok ()
      else
        tryE (recreateDataTrie env rootHash) (\<lambda>tr.
        tryE (onDataTrie tr (GetAllHashes (maxDepth env) (tEnv env))) (\<lambda>hashes.
        tryE (State (\<lambda>s. (Inr (), s\<lparr>obsoleteDataTrieHashes := setEntry rootHash hashes (obsoleteDataTrieHashes s)\<rparr>))) (\<lambda>_.
          case NewJournalEntryDataTrieRemove rootHash of
            Inl e \<Rightarrow> fail e
          | Inr entry \<Rightarrow> journalize entry))))"

definition removeCodeAndDataTrie :: "adbEnv \<Rightarrow> userAccount \<Rightarrow> unit adb" where
  "removeCodeAndDataTrie env acnt = tryE (removeCode env acnt) (\<lambda>_. removeDataTrie env acnt)"

definition RemoveAccount :: "adbEnv \<Rightarrow> bytes \<Rightarrow> unit adb" where
  "RemoveAccount env address =
     (if length address = 0 then fail (WrapAdb ''in RemoveAccount'' ErrNilAddress)
      else tryE (getAccount env address) (\<lambda>acnt.
        case acnt of
          None \<Rightarrow> fail (WrapAdb ''in RemoveAccount'' ErrAccNotFound)
        | Some acc \<Rightarrow>
            tryE (journalize (JournalEntryAccount acc)) (\<lambda>_.
            tryE (removeCodeAndDataTrie env acc) (\<lambda>_.
              mainDelete env address))))"

section \<open>The journal\<close>

definition revertOldCodeEntry :: "adbEnv \<Rightarrow> CodeEntry option \<Rightarrow> bytes \<Rightarrow> unit adb" where
  "revertOldCodeEntry env oldCodeEntry oldCodeHash =
     (if length oldCodeHash = 0 then ok ()
      else saveCodeEntry env oldCodeHash oldCodeEntry)"

definition revertNewCodeEntry :: "adbEnv \<Rightarrow> bytes \<Rightarrow> unit adb" where
  "revertNewCodeEntry env newCodeHash =
     tryE (getCodeEntry env newCodeHash) (\<lambda>newCodeEntry.
       case newCodeEntry of
         None \<Rightarrow> ok ()
       | Some entry \<Rightarrow>
           if ceNumReferences entry \<le> 1 then mainUpdate env newCodeHash []
           else saveCodeEntry env newCodeHash (Some (entry\<lparr>ceNumReferences := ceNumReferences entry - 1\<rparr>)))"

fun revertTrieUpdates :: "adbEnv \<Rightarrow> nat \<Rightarrow> trieUpdateData list \<Rightarrow> unit adb" where
  "revertTrieUpdates env tr [] = ok ()"
| "revertTrieUpdates env tr (u # us) =
     tryE (trieUpdateKey env tr (tuKey u) (tuValue u) (tuVersion u)) (\<lambda>_. revertTrieUpdates env tr us)"

text \<open>\<^verbatim>\<open>Revert\<close> of the five entries: the account that is to be saved, if any.\<close>

fun Revert :: "adbEnv \<Rightarrow> journalEntry \<Rightarrow> (userAccount option) adb" where
  "Revert env (JournalEntryCode oldCodeEntry oldCodeHash newCodeHash) =
     (if oldCodeHash = newCodeHash then ok None
      else tryE (revertOldCodeEntry env oldCodeEntry oldCodeHash) (\<lambda>_.
           tryE (revertNewCodeEntry env newCodeHash) (\<lambda>_. ok None)))"
| "Revert env (JournalEntryAccount account) = ok (Some account)"
| "Revert env (JournalEntryAccountCreation address) = tryE (mainUpdate env address []) (\<lambda>_. ok None)"
| "Revert env (JournalEntryDataTrieUpdates trieUpdates a) =
     tryE (getAcc a) (\<lambda>acc.
       case tdtTr (accTracker acc) of
         None \<Rightarrow> fail ErrNilTrie
       | Some tr \<Rightarrow>
           tryE (revertTrieUpdates env tr trieUpdates) (\<lambda>_.
           tryE (onDataTrie tr (RootHash (tEnv env))) (\<lambda>rootHash.
           tryE (SetRootHash a rootHash) (\<lambda>_.
           tryE (getAcc a) (\<lambda>acc. ok (Some acc))))))"
| "Revert env (JournalEntryDataTrieRemove rootHash) =
     State (\<lambda>s. (Inr None, s\<lparr>obsoleteDataTrieHashes := filter (\<lambda>e. fst e \<noteq> rootHash) (obsoleteDataTrieHashes s)\<rparr>))"

text \<open>The loop of \<^verbatim>\<open>RevertToSnapshot\<close> over the entries, the last one first.\<close>

fun revertLoop :: "adbEnv \<Rightarrow> journalEntry list \<Rightarrow> unit adb" where
  "revertLoop env [] = ok ()"
| "revertLoop env (entry # es) =
     tryE (Revert env entry) (\<lambda>account.
     tryE (case account of None \<Rightarrow> ok () | Some acc \<Rightarrow> saveAccountToTrie env acc) (\<lambda>_. revertLoop env es))"

definition recreateTrie :: "adbEnv \<Rightarrow> bytes \<Rightarrow> unit adb" where
  "recreateTrie env rootHash =
     tryE (State (\<lambda>s. (Inr (), s\<lparr>obsoleteDataTrieHashes := [], dataTries := [], entries := []\<rparr>))) (\<lambda>_.
     tryE (gets (\<lambda>s. liftTrie (recreate (tEnv env) rootHash ((mainTrie s)\<lparr>trieStorage := storage s\<rparr>)))) (\<lambda>newTrie.
       State (\<lambda>s. (Inr (), s\<lparr>mainTrie := newTrie\<rparr>))))"

definition RecreateTrie :: "adbEnv \<Rightarrow> bytes \<Rightarrow> unit adb" where
  "RecreateTrie env rootHash =
     tryE (recreateTrie env rootHash) (\<lambda>_. State (\<lambda>s. (Inr (), s\<lparr>lastRootHash := rootHash\<rparr>)))"

definition JournalLen :: "int adb" where
  "JournalLen = gets (\<lambda>s. Inr (int (length (entries s))))"

definition RevertToSnapshot :: "adbEnv \<Rightarrow> int \<Rightarrow> unit adb" where
  "RevertToSnapshot env snapshot =
     tryE (gets (\<lambda>s. Inr s)) (\<lambda>s.
       if snapshot > int (length (entries s)) \<or> snapshot < 0 then fail ErrSnapshotValueOutOfBounds
       else if snapshot = 0 then recreateTrie env (lastRootHash s)
       else tryE (revertLoop env (rev (drop (nat snapshot) (entries s)))) (\<lambda>_.
         State (\<lambda>s. (Inr (), s\<lparr>entries := take (nat snapshot) (entries s)\<rparr>))))"

section \<open>Committing\<close>

definition onTrieRef :: "nat option \<Rightarrow> (patriciaMerkleTrie \<Rightarrow> 'a tres \<times> patriciaMerkleTrie) \<Rightarrow> 'a adb" where
  "onTrieRef tr f = (case tr of None \<Rightarrow> onMainTrie f | Some r \<Rightarrow> onDataTrie r f)"

definition commitTrie :: "adbEnv \<Rightarrow> nat option \<Rightarrow> bytes set \<Rightarrow> bytes set \<Rightarrow> (bytes set \<times> bytes set) adb" where
  "commitTrie env tr oldH newH =
     (if pruningEnabled env then
        tryE (onTrieRef tr (\<lambda>t. (Inr (GetObsoleteHashes t), t))) (\<lambda>oldTrieHashes.
        tryE (onTrieRef tr (GetDirtyHashes (tEnv env))) (\<lambda>newTrieHashes.
        tryE (onTrieRef tr (Commit (tEnv env))) (\<lambda>_.
          ok (oldH \<union> set oldTrieHashes, newH \<union> newTrieHashes))))
      else tryE (onTrieRef tr (Commit (tEnv env))) (\<lambda>_. ok (oldH, newH)))"

fun commitDataTries :: "adbEnv \<Rightarrow> nat list \<Rightarrow> bytes set \<Rightarrow> bytes set \<Rightarrow> (bytes set \<times> bytes set) adb" where
  "commitDataTries env [] oldH newH = ok (oldH, newH)"
| "commitDataTries env (tr # trs) oldH newH =
     tryE (commitTrie env (Some tr) oldH newH) (\<lambda>(o', n'). commitDataTries env trs o' n')"

definition markForEviction :: "adbEnv \<Rightarrow> bytes \<Rightarrow> bytes \<Rightarrow> bytes set \<Rightarrow> bytes set \<Rightarrow> unit adb" where
  "markForEviction env previousRoot newRoot oldH newH =
     (if \<not> pruningEnabled env then ok ()
      else tryE (gets (\<lambda>s. Inr (obsoleteDataTrieHashes s))) (\<lambda>obsolete.
        case storagePruningMark env previousRoot newRoot
               (oldH \<union> set (concat (map snd obsolete))) newH of
          Some e \<Rightarrow> fail (ErrMarkForEviction e)
        | None \<Rightarrow> ok ()))"

text \<open>\<^verbatim>\<open>commit\<close>; its first argument is the order in which Go ranges over the held data tries.\<close>

definition adbCommit :: "((bytes \<times> nat) list \<Rightarrow> nat list) \<Rightarrow> adbEnv \<Rightarrow> bytes adb" where
  "adbCommit order env =
     tryE (State (\<lambda>s. (Inr (order (dataTries s)), s\<lparr>entries := []\<rparr>))) (\<lambda>tries.
     tryE (commitDataTries env tries {} {}) (\<lambda>(oldH, newH).
     tryE holderReset (\<lambda>_.
     tryE (gets (\<lambda>s. Inr (GetOldRoot (mainTrie s)))) (\<lambda>previousRoot.
     tryE (commitTrie env None oldH newH) (\<lambda>(oldH, newH).
     tryE (onMainTrie (RootHash (tEnv env))) (\<lambda>newRoot.
     tryE (markForEviction env previousRoot newRoot oldH newH) (\<lambda>_.
       State (\<lambda>s. (Inr newRoot, s\<lparr>lastRootHash := newRoot, obsoleteDataTrieHashes := []\<rparr>)))))))))"

definition adbRootHash :: "adbEnv \<Rightarrow> bytes adb" where
  "adbRootHash env = onMainTrie (RootHash (tEnv env))"

end
