(* ===== verification/AccountsView.thy ===== *)
theory AccountsView
  imports AccountsDB TrieMap
begin

text \<open>
  What a state of the accounts database stands for: accounts by address, code entries by hash, and the maps of the data
  tries that are in use. \<^verbatim>\<open>runs\<close> says how an operation acts on these abstract states; it is proved for the
  primitive accesses to the tries and composed along the code.

  The marshaller and the hasher are parameters. What is assumed of them: encoding and decoding are inverse, and on the
  addresses, keys and codes in use, a set \<^verbatim>\<open>U\<close> of fewer than \<open>2\<^sup>3\<^sup>2\<close> byte strings, the hasher does not collide and gives no
  member of \<^verbatim>\<open>U\<close>.
\<close>

section \<open>Abstract states\<close>

definition skel :: "adbState \<Rightarrow> adbState" where
  "skel s = s\<lparr>mainTrie := emptyTrie Map.empty (maxTrieLevelInMemory (mainTrie s)), trieHeap := (\<lambda>_. emptyTrie Map.empty 1)\<rparr>"

type_synonym trieMap = "bytes \<rightharpoonup> bytes \<times> u8"

record adbAbs =
  aK :: adbState \<comment> \<open>the state without its tries\<close>
  aAcc :: "bytes \<rightharpoonup> UserAccountData"
  aCod :: "bytes \<rightharpoonup> CodeEntry"
  aD :: "nat \<rightharpoonup> trieMap"

definition env_ok :: "adbEnv \<Rightarrow> bytes set \<Rightarrow> bool" where
  "env_ok env U \<longleftrightarrow> trie_codec (tEnv env) \<and>
     (\<forall>d. \<exists>b. marshalAccount env d = Inr b \<and> unmarshalAccount env b = Inr d \<and> (uaAddress d \<noteq> [] \<longrightarrow> b \<noteq> [])) \<and>
     (\<forall>c. \<exists>b. marshalCode env (Some c) = Inr b \<and> unmarshalCode env b = Inr c \<and> (ceNumReferences c \<noteq> 0 \<longrightarrow> b \<noteq> [])) \<and>
     (\<forall>l. \<exists>b. marshalLeafData env l = Inr b \<and> unmarshalLeafData env b = Inr l \<and> (tldValue l \<noteq> [] \<longrightarrow> b \<noteq> [])) \<and>
     versionForNewData env = (if autoBalanceFlag env then AutoBalanceEnabled else NotSpecified) \<and>
     (\<forall>ks. distinct ks \<longrightarrow> distinct (dirtyOrder env ks) \<and> set (dirtyOrder env ks) = set ks) \<and>
     finite U \<and> card U < 2 ^ 32 \<and> inj_on (hasherCompute env) U \<and> U \<inter> hasherCompute env ` U = {} \<and>
     [] \<notin> hasherCompute env ` U"

lemma env_okD:
  assumes "env_ok env U"
  shows "trie_codec (tEnv env)" "finite U" "card U < 2 ^ 32" "inj_on (hasherCompute env) U"
    "U \<inter> hasherCompute env ` U = {}" "[] \<notin> hasherCompute env ` U"
    "versionForNewData env = (if autoBalanceFlag env then AutoBalanceEnabled else NotSpecified)"
    "distinct ks \<Longrightarrow> distinct (dirtyOrder env ks)" "distinct ks \<Longrightarrow> set (dirtyOrder env ks) = set ks"
    "k \<in> U \<Longrightarrow> hasherCompute env k \<notin> U" "k \<in> U \<Longrightarrow> hasherCompute env k \<noteq> []"
proof -
  show i: "U \<inter> hasherCompute env ` U = {}" "[] \<notin> hasherCompute env ` U" using assms unfolding env_ok_def by blast+
  show "k \<in> U \<Longrightarrow> hasherCompute env k \<notin> U" using i(1) by blast
  show "k \<in> U \<Longrightarrow> hasherCompute env k \<noteq> []" using i(2) by (metis image_eqI)
qed (use assms in \<open>unfold env_ok_def, blast\<close>)+

definition encA :: "adbEnv \<Rightarrow> UserAccountData \<Rightarrow> bytes" where
  "encA env d = (case marshalAccount env d of Inr b \<Rightarrow> b | Inl e \<Rightarrow> [])"

definition encC :: "adbEnv \<Rightarrow> CodeEntry \<Rightarrow> bytes" where
  "encC env c = (case marshalCode env (Some c) of Inr b \<Rightarrow> b | Inl e \<Rightarrow> [])"

lemma encA:
  assumes "env_ok env U"
  shows "marshalAccount env d = Inr (encA env d)" "unmarshalAccount env (encA env d) = Inr d" "uaAddress d \<noteq> [] \<Longrightarrow> encA env d \<noteq> []"
proof -
  have "\<forall>d. \<exists>b. marshalAccount env d = Inr b \<and> unmarshalAccount env b = Inr d \<and> (uaAddress d \<noteq> [] \<longrightarrow> b \<noteq> [])"
    using assms unfolding env_ok_def by (elim conjE)
  then obtain b where "marshalAccount env d = Inr b \<and> unmarshalAccount env b = Inr d \<and> (uaAddress d \<noteq> [] \<longrightarrow> b \<noteq> [])" by meson
  then show "marshalAccount env d = Inr (encA env d)" "unmarshalAccount env (encA env d) = Inr d" "uaAddress d \<noteq> [] \<Longrightarrow> encA env d \<noteq> []"
    by (simp_all add: encA_def)
qed

lemma encC:
  assumes "env_ok env U"
  shows "marshalCode env (Some c) = Inr (encC env c)" "unmarshalCode env (encC env c) = Inr c" "ceNumReferences c \<noteq> 0 \<Longrightarrow> encC env c \<noteq> []"
proof -
  have "\<forall>c. \<exists>b. marshalCode env (Some c) = Inr b \<and> unmarshalCode env b = Inr c \<and> (ceNumReferences c \<noteq> 0 \<longrightarrow> b \<noteq> [])"
    using assms unfolding env_ok_def by (elim conjE)
  then obtain b where "marshalCode env (Some c) = Inr b \<and> unmarshalCode env b = Inr c \<and> (ceNumReferences c \<noteq> 0 \<longrightarrow> b \<noteq> [])" by meson
  then show "marshalCode env (Some c) = Inr (encC env c)" "unmarshalCode env (encC env c) = Inr c" "ceNumReferences c \<noteq> 0 \<Longrightarrow> encC env c \<noteq> []"
    by (simp_all add: encC_def)
qed

definition mainMap :: "adbEnv \<Rightarrow> (bytes \<rightharpoonup> UserAccountData) \<Rightarrow> (bytes \<rightharpoonup> CodeEntry) \<Rightarrow> trieMap" where
  "mainMap env Acc Cod k = (case Acc k of
     Some d \<Rightarrow> Some (encA env d, NotSpecified)
   | None \<Rightarrow> map_option (\<lambda>c. (encC env c, NotSpecified)) (Cod k))"

text \<open>What a data trie holds: keys in use without a version, and hashes of keys in use with the new version.\<close>

definition datOk :: "adbEnv \<Rightarrow> bytes set \<Rightarrow> trieMap \<Rightarrow> bool" where
  "datOk env U m \<longleftrightarrow> (\<forall>k v w. m k = Some (v, w) \<longrightarrow>
     v \<noteq> [] \<and> (k \<in> U \<and> w = NotSpecified \<or> k \<in> hasherCompute env ` U \<and> w = AutoBalanceEnabled))"

definition accsOk :: "bytes set \<Rightarrow> (bytes \<rightharpoonup> UserAccountData) \<Rightarrow> bool" where
  "accsOk U Acc \<longleftrightarrow> (\<forall>k d. Acc k = Some d \<longrightarrow> k \<in> U \<and> k \<noteq> [] \<and> uaAddress d = k)"

definition codsOk :: "adbEnv \<Rightarrow> bytes set \<Rightarrow> (bytes \<rightharpoonup> CodeEntry) \<Rightarrow> bool" where
  "codsOk env U Cod \<longleftrightarrow> (\<forall>h c. Cod h = Some c \<longrightarrow> h \<in> hasherCompute env ` U \<and> ceNumReferences c \<noteq> 0)"

definition heldOk :: "(bytes \<times> nat) list \<Rightarrow> (nat \<rightharpoonup> trieMap) \<Rightarrow> bool" where
  "heldOk held D \<longleftrightarrow> (\<forall>k r. map_of held k = Some r \<longrightarrow> D r \<noteq> None)"

definition absOk :: "adbEnv \<Rightarrow> bytes set \<Rightarrow> adbAbs \<Rightarrow> bool" where
  "absOk env U A \<longleftrightarrow> accsOk U (aAcc A) \<and> codsOk env U (aCod A) \<and> (\<forall>r m. aD A r = Some m \<longrightarrow> r < nextTrie (aK A) \<and> datOk env U m) \<and>
     heldOk (dataTries (aK A)) (aD A)"

definition view :: "adbEnv \<Rightarrow> bytes set \<Rightarrow> adbState \<Rightarrow> adbAbs \<Rightarrow> bool" where
  "view env U s A \<longleftrightarrow> absOk env U A \<and> skel s = aK A \<and> maxTrieLevelInMemory (mainTrie s) \<noteq> 0 \<and>
     holds (tEnv env) ((mainTrie s)\<lparr>trieStorage := storage s\<rparr>) (mainMap env (aAcc A) (aCod A)) \<and>
     (\<forall>r m. aD A r = Some m \<longrightarrow> holds (tEnv env) ((trieHeap s r)\<lparr>trieStorage := storage s\<rparr>) m)"

definition runs :: "adbEnv \<Rightarrow> bytes set \<Rightarrow> 'a adb \<Rightarrow> adbAbs \<Rightarrow> adb_error + 'a \<Rightarrow> adbAbs \<Rightarrow> bool" where
  "runs env U m A r A' \<longleftrightarrow> (\<forall>s. view env U s A \<longrightarrow> (\<exists>s'. run_state m s = (r, s') \<and> view env U s' A'))"

section \<open>Composition\<close>

lemma runsI: "(\<And>s. view env U s A \<Longrightarrow> \<exists>s'. run_state m s = (r, s') \<and> view env U s' A') \<Longrightarrow> runs env U m A r A'"
  by (simp add: runs_def)

lemma runsD: "runs env U m A r A' \<Longrightarrow> view env U s A \<Longrightarrow> \<exists>s'. run_state m s = (r, s') \<and> view env U s' A'"
  by (simp add: runs_def)

lemma runs_ok: "runs env U (ok x) A (Inr x) A"
  and runs_fail: "runs env U (fail e) A (Inl e) A"
  and runs_return: "runs env U (return r) A r A"
  by (simp_all add: runs_def ok_def fail_def)

lemma runs_tryE:
  assumes "runs env U m A (Inr x) A'" and "runs env U (f x) A' r A''"
  shows "runs env U (tryE m f) A r A''"
  using assms unfolding runs_def by fastforce

lemma runs_tryE_Inl:
  assumes "runs env U m A (Inl e) A'"
  shows "runs env U (tryE m f) A (Inl e) A'"
  using assms unfolding runs_def by fastforce

lemma skel_sel [simp]:
  "nextTrie (skel s) = nextTrie s" "accountHeap (skel s) = accountHeap s" "nextAccount (skel s) = nextAccount s"
  "dataTries (skel s) = dataTries s" "entries (skel s) = entries s" "lastRootHash (skel s) = lastRootHash s"
  "obsoleteDataTrieHashes (skel s) = obsoleteDataTrieHashes s" "storage (skel s) = storage s"
  "maxTrieLevelInMemory (mainTrie (skel s)) = maxTrieLevelInMemory (mainTrie s)"
  by (simp_all add: skel_def emptyTrie_def)

lemma skel_upd [simp]:
  "maxTrieLevelInMemory t = maxTrieLevelInMemory (mainTrie s) \<Longrightarrow> skel (s\<lparr>mainTrie := t\<rparr>) = skel s" "skel (s\<lparr>trieHeap := h\<rparr>) = skel s" "skel (s\<lparr>nextTrie := n\<rparr>) = (skel s)\<lparr>nextTrie := n\<rparr>"
  "skel (s\<lparr>accountHeap := ah\<rparr>) = (skel s)\<lparr>accountHeap := ah\<rparr>" "skel (s\<lparr>nextAccount := n\<rparr>) = (skel s)\<lparr>nextAccount := n\<rparr>"
  "skel (s\<lparr>dataTries := dt\<rparr>) = (skel s)\<lparr>dataTries := dt\<rparr>" "skel (s\<lparr>entries := es\<rparr>) = (skel s)\<lparr>entries := es\<rparr>"
  "skel (s\<lparr>obsoleteDataTrieHashes := oh\<rparr>) = (skel s)\<lparr>obsoleteDataTrieHashes := oh\<rparr>"
  "skel (s\<lparr>storage := st\<rparr>) = (skel s)\<lparr>storage := st\<rparr>"
  by (simp_all add: skel_def)

lemma view_sel:
  assumes "view env U s A"
  shows "nextTrie s = nextTrie (aK A)" "accountHeap s = accountHeap (aK A)" "nextAccount s = nextAccount (aK A)"
    "dataTries s = dataTries (aK A)" "entries s = entries (aK A)" "lastRootHash s = lastRootHash (aK A)"
    "obsoleteDataTrieHashes s = obsoleteDataTrieHashes (aK A)" "storage s = storage (aK A)"
    "maxTrieLevelInMemory (mainTrie s) = maxTrieLevelInMemory (mainTrie (aK A))"
  using assms skel_sel [of s] unfolding view_def by metis+

lemma view_skel: "view env U s A \<Longrightarrow> skel s = aK A"
  by (simp add: view_def)

lemma view_wf: "view env U s A \<Longrightarrow> absOk env U A"
  by (simp add: view_def)

lemma runs_wf: "(absOk env U A \<Longrightarrow> runs env U m A r A') \<Longrightarrow> runs env U m A r A'"
  using view_wf unfolding runs_def by blast

section \<open>Accesses that do not reach the tries\<close>

lemma runs_gets:
  assumes "\<And>s. view env U s A \<Longrightarrow> f s = r"
  shows "runs env U (gets f) A r A"
  using assms by (auto intro!: runsI)

lemma runs_getAcc: "runs env U (getAcc a) A (Inr (accountHeap (aK A) a)) A"
  unfolding getAcc_def by (rule runs_gets) (simp add: view_sel)

lemma runs_holderGet: "runs env U (holderGet k) A (Inr (map_of (dataTries (aK A)) k)) A"
  unfolding holderGet_def by (rule runs_gets) (simp add: view_sel)

lemma runs_field:
  assumes "\<And>s. run_state m s = (r, g s)" and "\<And>s. view env U s A \<Longrightarrow> skel (g s) = K'"
    and "\<And>s. mainTrie (g s) = mainTrie s \<and> trieHeap (g s) = trieHeap s \<and> storage (g s) = storage s"
    and "absOk env U A \<Longrightarrow> absOk env U (A\<lparr>aK := K'\<rparr>)"
  shows "runs env U m A r (A\<lparr>aK := K'\<rparr>)"
proof (rule runsI)
  fix s
  assume v: "view env U s A"
  then have "view env U (g s) (A\<lparr>aK := K'\<rparr>)"
    using assms(2) [OF v] assms(3) [of s] assms(4) [OF view_wf [OF v]] unfolding view_def by simp
  then show "\<exists>s'. run_state m s = (r, s') \<and> view env U s' (A\<lparr>aK := K'\<rparr>)" using assms(1) by blast
qed

lemma wf_K: "absOk env U A \<Longrightarrow> nextTrie (aK A) \<le> nextTrie K' \<Longrightarrow> dataTries K' = dataTries (aK A) \<Longrightarrow> absOk env U (A\<lparr>aK := K'\<rparr>)"
  unfolding absOk_def by (simp, meson order_less_le_trans)

lemma runs_modifyAcc:
  "runs env U (modifyAcc a f) A (Inr ()) (A\<lparr>aK := (aK A)\<lparr>accountHeap := (accountHeap (aK A))(a := f (accountHeap (aK A) a))\<rparr>\<rparr>)"
proof (rule runs_field)
  show "run_state (modifyAcc a f) s = (Inr (), s\<lparr>accountHeap := (accountHeap s)(a := f (accountHeap s a))\<rparr>)" for s
    by (simp add: modifyAcc_def)
qed (simp_all add: view_sel view_skel wf_K)

lemma runs_journalize:
  "runs env U (journalize e) A (Inr ()) (A\<lparr>aK := (aK A)\<lparr>entries := entries (aK A) @ [e]\<rparr>\<rparr>)"
proof (rule runs_field)
  show "run_state (journalize e) s = (Inr (), s\<lparr>entries := entries s @ [e]\<rparr>)" for s by (simp add: journalize_def)
qed (simp_all add: view_sel view_skel wf_K)

lemma map_of_setEntry: "map_of (setEntry k v xs) = (map_of xs)(k \<mapsto> v)"
  by (induction xs) auto

lemma runs_holderPut:
  assumes "aD A tr \<noteq> None"
  shows "runs env U (holderPut k tr) A (Inr ()) (A\<lparr>aK := (aK A)\<lparr>dataTries := setEntry k tr (dataTries (aK A))\<rparr>\<rparr>)"
proof (rule runs_field)
  show "run_state (holderPut k tr) s = (Inr (), s\<lparr>dataTries := setEntry k tr (dataTries s)\<rparr>)" for s by (simp add: holderPut_def)
  show "absOk env U (A\<lparr>aK := (aK A)\<lparr>dataTries := setEntry k tr (dataTries (aK A))\<rparr>\<rparr>)" if "absOk env U A"
    using that assms unfolding absOk_def heldOk_def by (simp add: map_of_setEntry)
qed (simp_all add: view_sel view_skel)

lemma runs_newAccountRef:
  "runs env U (newAccountRef acc) A (Inr (nextAccount (aK A)))
     (A\<lparr>aK := (aK A)\<lparr>accountHeap := (accountHeap (aK A))(nextAccount (aK A) := acc), nextAccount := Suc (nextAccount (aK A))\<rparr>\<rparr>)"
proof (rule runsI)
  fix s
  assume v: "view env U s A"
  let ?g = "s\<lparr>accountHeap := (accountHeap s)(nextAccount s := acc), nextAccount := Suc (nextAccount s)\<rparr>"
  let ?K = "(aK A)\<lparr>accountHeap := (accountHeap (aK A))(nextAccount (aK A) := acc), nextAccount := Suc (nextAccount (aK A))\<rparr>"
  have "skel ?g = ?K" by (simp add: view_sel [OF v] view_skel [OF v])
  then have "view env U ?g (A\<lparr>aK := ?K\<rparr>)" using v wf_K [OF view_wf [OF v], of ?K] unfolding view_def by simp
  then show "\<exists>s'. run_state (newAccountRef acc) s = (Inr (nextAccount (aK A)), s') \<and> view env U s' (A\<lparr>aK := ?K\<rparr>)"
    using view_sel(3) [OF v] by (auto simp: newAccountRef_def)
qed

section \<open>The main trie\<close>

lemma onMainTrie_state:
  assumes v: "view env U s A"
    and f: "f ((mainTrie s)\<lparr>trieStorage := storage s\<rparr>) = (r, tr)" "holds (tEnv env) tr (mainMap env Acc Cod)"
      "trieStorage tr = storage s" "maxTrieLevelInMemory tr = maxTrieLevelInMemory (mainTrie s)"
    and w: "accsOk U Acc" "codsOk env U Cod"
  shows "\<exists>s'. run_state (onMainTrie f) s = (liftTrie r, s') \<and> view env U s' (A\<lparr>aAcc := Acc, aCod := Cod\<rparr>)"
proof -
  have "tr\<lparr>trieStorage := storage s\<rparr> = tr" using f(3) by simp
  then have "holds (tEnv env) (tr\<lparr>trieStorage := storage s\<rparr>) (mainMap env Acc Cod)" using f(2) by (simp only:)
  then have "view env U (s\<lparr>mainTrie := tr, storage := storage s\<rparr>) (A\<lparr>aAcc := Acc, aCod := Cod\<rparr>)"
    using v f(4) w unfolding view_def absOk_def by simp
  moreover have "run_state (onMainTrie f) s = (liftTrie r, s\<lparr>mainTrie := tr, storage := storage s\<rparr>)"
    by (simp add: onMainTrie_def f(1,3))
  ultimately show ?thesis by blast
qed

lemma fuel_key [simp]: "enoughFuel k (keyFuel k)"
  by (simp add: enoughFuel_def keyFuel_def)

lemma liftTrie_Inr [simp]: "liftTrie (Inr x) = Inr x"
  by (simp add: liftTrie_def)

lemma liftMarshal_Inr [simp]: "liftMarshal (Inr x) = Inr x"
  by (simp add: liftMarshal_def)

lemma view_main:
  assumes "view env U s A"
  shows "holds (tEnv env) ((mainTrie s)\<lparr>trieStorage := storage s\<rparr>) (mainMap env (aAcc A) (aCod A))" "accsOk U (aAcc A)" "codsOk env U (aCod A)"
  using assms unfolding view_def absOk_def by simp_all

lemma runs_mainGet:
  assumes ok: "env_ok env U"
  shows "runs env U (mainGet env k) A (Inr (map_option fst (mainMap env (aAcc A) (aCod A) k))) A"
proof (rule runsI)
  fix s
  assume v: "view env U s A"
  obtain d tr' where "Get (keyFuel k) (tEnv env) k ((mainTrie s)\<lparr>trieStorage := storage s\<rparr>) =
      ((Inr (map_option fst (mainMap env (aAcc A) (aCod A) k)), d), tr')" "holds (tEnv env) tr' (mainMap env (aAcc A) (aCod A))"
    "trieStorage tr' = storage s" "maxTrieLevelInMemory tr' = maxTrieLevelInMemory (mainTrie s)"
    using Get_holds [OF env_okD(1) [OF ok] view_main(1) [OF v] fuel_key, of k] by auto
  then have g: "(\<lambda>t. case Get (keyFuel k) (tEnv env) k t of ((v, _), t') \<Rightarrow> (v, t')) ((mainTrie s)\<lparr>trieStorage := storage s\<rparr>) =
      (Inr (map_option fst (mainMap env (aAcc A) (aCod A) k)), tr')" "holds (tEnv env) tr' (mainMap env (aAcc A) (aCod A))"
    "trieStorage tr' = storage s" "maxTrieLevelInMemory tr' = maxTrieLevelInMemory (mainTrie s)" by simp_all
  show "\<exists>s'. run_state (mainGet env k) s = (Inr (map_option fst (mainMap env (aAcc A) (aCod A) k)), s') \<and> view env U s' A"
    using onMainTrie_state [OF v, of "\<lambda>t. case Get (keyFuel k) (tEnv env) k t of ((v, _), t') \<Rightarrow> (v, t')", OF g view_main(2,3) [OF v]]
    unfolding mainGet_def by simp
qed

lemma runs_mainUpdate:
  assumes ok: "env_ok env U" and m: "putMap k v NotSpecified (mainMap env (aAcc A) (aCod A)) = mainMap env Acc Cod"
    and w: "absOk env U A \<Longrightarrow> accsOk U Acc \<and> codsOk env U Cod"
  shows "runs env U (mainUpdate env k v) A (Inr ()) (A\<lparr>aAcc := Acc, aCod := Cod\<rparr>)"
proof (rule runsI)
  fix s
  assume v: "view env U s A"
  obtain tr' where "trieUpdate (keyFuel k) (tEnv env) k v NotSpecified ((mainTrie s)\<lparr>trieStorage := storage s\<rparr>) = (Inr (), tr')"
    "holds (tEnv env) tr' (mainMap env Acc Cod)"
    "trieStorage tr' = storage s" "maxTrieLevelInMemory tr' = maxTrieLevelInMemory (mainTrie s)"
    using trieUpdate_holds [OF env_okD(1) [OF ok] view_main(1) [OF v] fuel_key, of k v NotSpecified] m by auto
  then show "\<exists>s'. run_state (mainUpdate env k v) s = (Inr (), s') \<and> view env U s' (A\<lparr>aAcc := Acc, aCod := Cod\<rparr>)"
    using onMainTrie_state [OF v, of "Update (keyFuel k) (tEnv env) k v" _ tr' Acc Cod] w [OF view_wf [OF v]]
    unfolding mainUpdate_def by (simp add: Update_def)
qed

lemma runs_mainDelete:
  assumes ok: "env_ok env U" and m: "(mainMap env (aAcc A) (aCod A))(k := None) = mainMap env Acc Cod"
    and w: "absOk env U A \<Longrightarrow> accsOk U Acc \<and> codsOk env U Cod"
  shows "runs env U (mainDelete env k) A (Inr ()) (A\<lparr>aAcc := Acc, aCod := Cod\<rparr>)"
proof (rule runsI)
  fix s
  assume v: "view env U s A"
  obtain tr' where "trieDelete (keyFuel k) (tEnv env) (keyBytesToHex k) ((mainTrie s)\<lparr>trieStorage := storage s\<rparr>) = (Inr (), tr')"
    "holds (tEnv env) tr' (mainMap env Acc Cod)"
    "trieStorage tr' = storage s" "maxTrieLevelInMemory tr' = maxTrieLevelInMemory (mainTrie s)"
    using trieDelete_holds [OF env_okD(1) [OF ok] view_main(1) [OF v] fuel_key, of k] m by auto
  then show "\<exists>s'. run_state (mainDelete env k) s = (Inr (), s') \<and> view env U s' (A\<lparr>aAcc := Acc, aCod := Cod\<rparr>)"
    using onMainTrie_state [OF v, of "Delete (keyFuel k) (tEnv env) k" _ tr' Acc Cod] w [OF view_wf [OF v]]
    unfolding mainDelete_def by (simp add: Delete_def)
qed

section \<open>Accounts and codes\<close>

lemma wf_sel:
  assumes "absOk env U A"
  shows "accsOk U (aAcc A)" "codsOk env U (aCod A)" "aD A r = Some m \<Longrightarrow> r < nextTrie (aK A)" "aD A r = Some m \<Longrightarrow> datOk env U m"
    "heldOk (dataTries (aK A)) (aD A)"
  using assms unfolding absOk_def by simp_all

lemma wf_apart:
  assumes "env_ok env U" and "absOk env U A"
  shows "k \<in> U \<Longrightarrow> aCod A k = None" "h \<in> hasherCompute env ` U \<Longrightarrow> aAcc A h = None" "aAcc A [] = None" "aCod A [] = None"
  using env_okD(5,6) [OF assms(1)] wf_sel(1,2) [OF assms(2)] unfolding accsOk_def codsOk_def
  by (metis IntI empty_iff not_None_eq)+

lemma wf_new: "absOk env U A \<Longrightarrow> aD A (nextTrie (aK A)) = None"
  using wf_sel(3) [of env U A "nextTrie (aK A)"] by (cases "aD A (nextTrie (aK A))") auto

definition freshAcc :: "bytes \<Rightarrow> UserAccountData \<Rightarrow> userAccount" where
  "freshAcc k d = \<lparr>accData = d, accTracker = \<lparr>tdtDirtyData = [], tdtTr = None, tdtIdentifier = k\<rparr>, accCode = [], accHasNewCode = False\<rparr>"

lemma NewUserAccount_fresh: "k \<noteq> [] \<Longrightarrow> \<exists>d. NewUserAccount k = Inr (freshAcc k d) \<and> uaAddress d = k \<and> uaCodeHash d = [] \<and> uaRootHash d = []"
  by (simp add: NewUserAccount_def freshAcc_def)

lemma putMap_main:
  "v \<noteq> [] \<Longrightarrow> putMap k v NotSpecified (mainMap env Acc Cod) = (mainMap env Acc Cod)(k \<mapsto> (v, NotSpecified))"
  "putMap k [] w (mainMap env Acc Cod) = (mainMap env Acc Cod)(k := None)"
  by (auto simp: putMap_def mainMap_def fun_eq_iff split: option.splits)

lemma mainMap_acc: "(mainMap env Acc Cod)(k \<mapsto> (encA env d, NotSpecified)) = mainMap env (Acc(k \<mapsto> d)) Cod"
  by (auto simp: mainMap_def fun_eq_iff)

lemma mainMap_acc_clear: "Cod k = None \<Longrightarrow> (mainMap env Acc Cod)(k := None) = mainMap env (Acc(k := None)) Cod"
  by (auto simp: mainMap_def fun_eq_iff)

lemma mainMap_cod: "Acc h = None \<Longrightarrow> (mainMap env Acc Cod)(h \<mapsto> (encC env c, NotSpecified)) = mainMap env Acc (Cod(h \<mapsto> c))"
  by (auto simp: mainMap_def fun_eq_iff split: option.splits)

lemma mainMap_cod_clear: "Acc h = None \<Longrightarrow> (mainMap env Acc Cod)(h := None) = mainMap env Acc (Cod(h := None))"
  by (auto simp: mainMap_def fun_eq_iff split: option.splits)

lemma accsOk_upd: "accsOk U Acc \<Longrightarrow> k \<in> U \<Longrightarrow> k \<noteq> [] \<Longrightarrow> uaAddress d = k \<Longrightarrow> accsOk U (Acc(k \<mapsto> d))"
  "accsOk U Acc \<Longrightarrow> accsOk U (Acc(k := None))"
  by (auto simp: accsOk_def)

lemma codsOk_upd: "codsOk env U Cod \<Longrightarrow> h \<in> hasherCompute env ` U \<Longrightarrow> ceNumReferences c \<noteq> 0 \<Longrightarrow> codsOk env U (Cod(h \<mapsto> c))"
  "codsOk env U Cod \<Longrightarrow> codsOk env U (Cod(h := None))"
  by (auto simp: codsOk_def)

text \<open>A write to the main trie that changes the accounts only, or the codes only.\<close>

lemma runs_main_acc:
  assumes ok: "env_ok env U" and w: "absOk env U A \<Longrightarrow> accsOk U Acc"
  shows "putMap k v NotSpecified (mainMap env (aAcc A) (aCod A)) = mainMap env Acc (aCod A) \<Longrightarrow>
      runs env U (mainUpdate env k v) A (Inr ()) (A\<lparr>aAcc := Acc\<rparr>)"
    and "(mainMap env (aAcc A) (aCod A))(k := None) = mainMap env Acc (aCod A) \<Longrightarrow>
      runs env U (mainDelete env k) A (Inr ()) (A\<lparr>aAcc := Acc\<rparr>)"
proof -
  have e: "A\<lparr>aAcc := Acc, aCod := aCod A\<rparr> = A\<lparr>aAcc := Acc\<rparr>" by simp
  have w': "absOk env U A \<Longrightarrow> accsOk U Acc \<and> codsOk env U (aCod A)" using w wf_sel(2) by blast
  show "putMap k v NotSpecified (mainMap env (aAcc A) (aCod A)) = mainMap env Acc (aCod A) \<Longrightarrow>
      runs env U (mainUpdate env k v) A (Inr ()) (A\<lparr>aAcc := Acc\<rparr>)"
    using runs_mainUpdate [of env U k v A Acc "aCod A", OF ok _ w'] unfolding e by blast
  show "(mainMap env (aAcc A) (aCod A))(k := None) = mainMap env Acc (aCod A) \<Longrightarrow>
      runs env U (mainDelete env k) A (Inr ()) (A\<lparr>aAcc := Acc\<rparr>)"
    using runs_mainDelete [of env U A k Acc "aCod A", OF ok _ w'] unfolding e by blast
qed

lemma runs_main_cod:
  assumes ok: "env_ok env U" and w: "absOk env U A \<Longrightarrow> codsOk env U Cod"
  shows "putMap k v NotSpecified (mainMap env (aAcc A) (aCod A)) = mainMap env (aAcc A) Cod \<Longrightarrow>
      runs env U (mainUpdate env k v) A (Inr ()) (A\<lparr>aCod := Cod\<rparr>)"
    and "(mainMap env (aAcc A) (aCod A))(k := None) = mainMap env (aAcc A) Cod \<Longrightarrow>
      runs env U (mainDelete env k) A (Inr ()) (A\<lparr>aCod := Cod\<rparr>)"
proof -
  have e: "A\<lparr>aAcc := aAcc A, aCod := Cod\<rparr> = A\<lparr>aCod := Cod\<rparr>" by simp
  have w': "absOk env U A \<Longrightarrow> accsOk U (aAcc A) \<and> codsOk env U Cod" using w wf_sel(1) by blast
  show "putMap k v NotSpecified (mainMap env (aAcc A) (aCod A)) = mainMap env (aAcc A) Cod \<Longrightarrow>
      runs env U (mainUpdate env k v) A (Inr ()) (A\<lparr>aCod := Cod\<rparr>)"
    using runs_mainUpdate [of env U k v A "aAcc A" Cod, OF ok _ w'] unfolding e by blast
  show "(mainMap env (aAcc A) (aCod A))(k := None) = mainMap env (aAcc A) Cod \<Longrightarrow>
      runs env U (mainDelete env k) A (Inr ()) (A\<lparr>aCod := Cod\<rparr>)"
    using runs_mainDelete [of env U A k "aAcc A" Cod, OF ok _ w'] unfolding e by blast
qed

lemma runs_account_put:
  assumes ok: "env_ok env U" and k: "uaAddress d \<in> U" "uaAddress d \<noteq> []"
  shows "runs env U (mainUpdate env (uaAddress d) (encA env d)) A (Inr ()) (A\<lparr>aAcc := (aAcc A)(uaAddress d \<mapsto> d)\<rparr>)"
proof (rule runs_main_acc(1) [OF ok])
  show "absOk env U A \<Longrightarrow> accsOk U ((aAcc A)(uaAddress d \<mapsto> d))" using accsOk_upd(1) [OF wf_sel(1) k] by simp
qed (simp add: putMap_main mainMap_acc encA(3) [OF ok] k)

lemma runs_saveAccountToTrie:
  assumes ok: "env_ok env U" and k: "uaAddress (accData acc) \<in> U" "uaAddress (accData acc) \<noteq> []"
  shows "runs env U (saveAccountToTrie env acc) A (Inr ()) (A\<lparr>aAcc := (aAcc A)(uaAddress (accData acc) \<mapsto> accData acc)\<rparr>)"
  using runs_account_put [OF assms] by (simp add: saveAccountToTrie_def encA(1) [OF ok])

lemma runs_account_clear:
  assumes ok: "env_ok env U" and k: "k \<in> U"
  shows "runs env U (mainUpdate env k []) A (Inr ()) (A\<lparr>aAcc := (aAcc A)(k := None)\<rparr>)"
    "runs env U (mainDelete env k) A (Inr ()) (A\<lparr>aAcc := (aAcc A)(k := None)\<rparr>)"
proof -
  have m: "(mainMap env (aAcc A) (aCod A))(k := None) = mainMap env ((aAcc A)(k := None)) (aCod A)" if "absOk env U A"
    using wf_apart(1) [OF ok that k] by (rule mainMap_acc_clear)
  show "runs env U (mainUpdate env k []) A (Inr ()) (A\<lparr>aAcc := (aAcc A)(k := None)\<rparr>)"
    by (rule runs_wf, rule runs_main_acc(1) [OF ok]) (simp_all add: accsOk_upd wf_sel(1) putMap_main(2) m)
  show "runs env U (mainDelete env k) A (Inr ()) (A\<lparr>aAcc := (aAcc A)(k := None)\<rparr>)"
    by (rule runs_wf, rule runs_main_acc(2) [OF ok]) (simp_all add: accsOk_upd wf_sel(1) m)
qed

lemma runs_getAccount:
  assumes ok: "env_ok env U" and k: "k \<in> U" "k \<noteq> []"
  shows "runs env U (getAccount env k) A (Inr (map_option (freshAcc k) (aAcc A k))) A"
proof (rule runs_wf)
  assume w: "absOk env U A"
  show ?thesis unfolding getAccount_def
  proof (rule runs_tryE [OF runs_mainGet [OF ok]])
    show "runs env U (case map_option fst (mainMap env (aAcc A) (aCod A) k) of None \<Rightarrow> ok None
        | Some v \<Rightarrow> case NewUserAccount k of Inl e \<Rightarrow> fail e
            | Inr acnt \<Rightarrow> case liftMarshal (unmarshalAccount env v) of Inl e \<Rightarrow> fail e
              | Inr d \<Rightarrow> ok (Some (acnt\<lparr>accData := d\<rparr>))) A (Inr (map_option (freshAcc k) (aAcc A k))) A"
      using wf_apart(1) [OF ok w k(1)] k(2)
      by (cases "aAcc A k") (simp_all add: mainMap_def runs_ok encA(2) [OF ok] NewUserAccount_def freshAcc_def)
  qed
qed

lemma runs_getCodeEntry:
  assumes ok: "env_ok env U" and h: "h \<in> hasherCompute env ` U \<or> h = []"
  shows "runs env U (getCodeEntry env h) A (Inr (aCod A h)) A"
proof (rule runs_wf)
  assume w: "absOk env U A"
  have a: "aAcc A h = None" using h by (elim disjE) (simp_all add: wf_apart [OF ok w])
  have nz: "encC env c \<noteq> []" if "aCod A h = Some c" for c
    using that wf_sel(2) [OF w] encC(3) [OF ok, of c] by (simp add: codsOk_def)
  show ?thesis unfolding getCodeEntry_def
  proof (rule runs_tryE [OF runs_mainGet [OF ok]])
    show "runs env U (if length (slice (map_option fst (mainMap env (aAcc A) (aCod A) h))) = 0 then ok None
        else case liftMarshal (unmarshalCode env (slice (map_option fst (mainMap env (aAcc A) (aCod A) h)))) of
          Inl e \<Rightarrow> fail e | Inr codeEntry \<Rightarrow> ok (Some codeEntry)) A (Inr (aCod A h)) A"
    proof (cases "aCod A h")
      case (Some c)
      then show ?thesis using nz [OF Some] runs_ok by (simp add: mainMap_def a encC(2) [OF ok])
    qed (simp add: mainMap_def a runs_ok)
  qed
qed

lemma runs_saveCodeEntry:
  assumes ok: "env_ok env U" and h: "h \<in> hasherCompute env ` U" and c: "ceNumReferences c \<noteq> 0"
  shows "runs env U (saveCodeEntry env h (Some c)) A (Inr ()) (A\<lparr>aCod := (aCod A)(h \<mapsto> c)\<rparr>)"
proof (rule runs_wf)
  assume w: "absOk env U A"
  have "runs env U (mainUpdate env h (encC env c)) A (Inr ()) (A\<lparr>aCod := (aCod A)(h \<mapsto> c)\<rparr>)"
    by (rule runs_main_cod(1) [OF ok])
      (simp_all add: codsOk_upd(1) [OF wf_sel(2) h c] putMap_main(1) encC(3) [OF ok c] mainMap_cod wf_apart(2) [OF ok w h])
  then show ?thesis by (simp add: saveCodeEntry_def encC(1) [OF ok])
qed

lemma runs_code_clear:
  assumes ok: "env_ok env U" and h: "h \<in> hasherCompute env ` U"
  shows "runs env U (mainUpdate env h []) A (Inr ()) (A\<lparr>aCod := (aCod A)(h := None)\<rparr>)"
    "runs env U (mainDelete env h) A (Inr ()) (A\<lparr>aCod := (aCod A)(h := None)\<rparr>)"
proof -
  have m: "(mainMap env (aAcc A) (aCod A))(h := None) = mainMap env (aAcc A) ((aCod A)(h := None))" if "absOk env U A"
    using wf_apart(2) [OF ok that h] by (rule mainMap_cod_clear)
  show "runs env U (mainUpdate env h []) A (Inr ()) (A\<lparr>aCod := (aCod A)(h := None)\<rparr>)"
    by (rule runs_wf, rule runs_main_cod(1) [OF ok]) (simp_all add: codsOk_upd wf_sel(2) putMap_main(2) m)
  show "runs env U (mainDelete env h) A (Inr ()) (A\<lparr>aCod := (aCod A)(h := None)\<rparr>)"
    by (rule runs_wf, rule runs_main_cod(2) [OF ok]) (simp_all add: codsOk_upd wf_sel(2) m)
qed

end
