(* ===== verification/AccountsTries.thy ===== *)
theory AccountsTries
  imports AccountsView
begin

text \<open>
  The data tries on abstract states: reading, writing and the loop that writes the dirty data of an account and
  collects what the journal needs to undo it.
\<close>

section \<open>One data trie\<close>

definition rootOf :: "adbEnv \<Rightarrow> trieMap \<Rightarrow> bytes" where
  "rootOf env m = (THE h. hashOf (tEnv env) m h)"

lemma rootOf: "hashOf (tEnv env) m h \<Longrightarrow> rootOf env m = h"
  unfolding rootOf_def using hashOf_unique by blast

lemma view_data: "view env U s A \<Longrightarrow> aD A r = Some m \<Longrightarrow> holds (tEnv env) ((trieHeap s r)\<lparr>trieStorage := storage s\<rparr>) m"
  by (simp add: view_def)

lemma onDataTrie_state:
  assumes v: "view env U s A" and d: "aD A r = Some m"
    and f: "f ((trieHeap s r)\<lparr>trieStorage := storage s\<rparr>) = (x, tr)" "holds (tEnv env) tr m'" "trieStorage tr = storage s"
    and m': "datOk env U m'"
  shows "\<exists>s'. run_state (onDataTrie r f) s = (liftTrie x, s') \<and> view env U s' (A\<lparr>aD := (aD A)(r \<mapsto> m')\<rparr>)"
proof -
  have "tr\<lparr>trieStorage := storage s\<rparr> = tr" using f(3) by simp
  then have h: "holds (tEnv env) (tr\<lparr>trieStorage := storage s\<rparr>) m'" using f(2) by (simp only:)
  have w: "absOk env U (A\<lparr>aD := (aD A)(r \<mapsto> m')\<rparr>)"
    using view_wf [OF v] d m' unfolding absOk_def heldOk_def by (simp add: wf_sel(3))
  have "view env U (s\<lparr>trieHeap := (trieHeap s)(r := tr), storage := storage s\<rparr>) (A\<lparr>aD := (aD A)(r \<mapsto> m')\<rparr>)"
    using v w h unfolding view_def by simp
  moreover have "run_state (onDataTrie r f) s = (liftTrie x, s\<lparr>trieHeap := (trieHeap s)(r := tr), storage := storage s\<rparr>)"
    by (simp add: onDataTrie_def f(1,3))
  ultimately show ?thesis by blast
qed

lemma aD_same [simp]: "aD A r = Some m \<Longrightarrow> A\<lparr>aD := (aD A)(r \<mapsto> m)\<rparr> = A"
  by (simp add: fun_upd_idem)

lemma aD_twice: "A\<lparr>aD := (aD A)(r := x)\<rparr>\<lparr>aD := (aD (A\<lparr>aD := (aD A)(r := x)\<rparr>))(r := y)\<rparr> = A\<lparr>aD := (aD A)(r := y)\<rparr>"
  by (cases A) (auto simp: fun_eq_iff)

lemma runs_dataGet:
  assumes ok: "env_ok env U" and d: "aD A r = Some m"
  shows "runs env U (onDataTrie r (\<lambda>t. case Get (keyFuel k) (tEnv env) k t of ((v, _), t') \<Rightarrow> (v, t'))) A (Inr (map_option fst (m k))) A"
proof (rule runsI)
  fix s
  assume v: "view env U s A"
  let ?f = "\<lambda>t. case Get (keyFuel k) (tEnv env) k t of ((v, _), t') \<Rightarrow> (v, t')"
  obtain tr' where g: "?f ((trieHeap s r)\<lparr>trieStorage := storage s\<rparr>) = (Inr (map_option fst (m k)), tr')"
      "holds (tEnv env) tr' m" "trieStorage tr' = storage s"
    using Get_holds [OF env_okD(1) [OF ok] view_data [OF v d] fuel_key, of k] by auto
  show "\<exists>s'. run_state (onDataTrie r ?f) s = (Inr (map_option fst (m k)), s') \<and> view env U s' A"
    using onDataTrie_state [OF v d, of ?f, OF g wf_sel(4) [OF view_wf [OF v] d]] d by simp
qed

lemma runs_trieUpdateKey:
  assumes ok: "env_ok env U" and d: "aD A r = Some m" and m': "datOk env U m \<Longrightarrow> datOk env U (putMap k v w m)"
  shows "runs env U (trieUpdateKey env r k v w) A (Inr ()) (A\<lparr>aD := (aD A)(r \<mapsto> putMap k v w m)\<rparr>)"
proof (rule runsI)
  fix s
  assume vw: "view env U s A"
  let ?f = "UpdateWithVersion (keyFuel k) (tEnv env) k v w"
  obtain tr' where g: "?f ((trieHeap s r)\<lparr>trieStorage := storage s\<rparr>) = (Inr (), tr')"
      "holds (tEnv env) tr' (putMap k v w m)" "trieStorage tr' = storage s"
    using trieUpdate_holds [OF env_okD(1) [OF ok] view_data [OF vw d] fuel_key, of k v w] by (auto simp: UpdateWithVersion_def)
  show "\<exists>s'. run_state (trieUpdateKey env r k v w) s = (Inr (), s') \<and> view env U s' (A\<lparr>aD := (aD A)(r \<mapsto> putMap k v w m)\<rparr>)"
    using onDataTrie_state [OF vw d, of ?f, OF g m' [OF wf_sel(4) [OF view_wf [OF vw] d]]] by (simp add: trieUpdateKey_def)
qed

lemma datOk_del: "datOk env U m \<Longrightarrow> datOk env U (m(k := None))"
  by (auto simp: datOk_def)

lemma runs_trieDeleteKey:
  assumes ok: "env_ok env U" and d: "aD A r = Some m"
  shows "runs env U (trieDeleteKey env r k) A (Inr ()) (A\<lparr>aD := (aD A)(r \<mapsto> m(k := None))\<rparr>)"
proof (rule runsI)
  fix s
  assume vw: "view env U s A"
  let ?f = "Delete (keyFuel k) (tEnv env) k"
  obtain tr' where g: "?f ((trieHeap s r)\<lparr>trieStorage := storage s\<rparr>) = (Inr (), tr')"
      "holds (tEnv env) tr' (m(k := None))" "trieStorage tr' = storage s"
    using trieDelete_holds [OF env_okD(1) [OF ok] view_data [OF vw d] fuel_key, of k] by (auto simp: Delete_def)
  show "\<exists>s'. run_state (trieDeleteKey env r k) s = (Inr (), s') \<and> view env U s' (A\<lparr>aD := (aD A)(r \<mapsto> m(k := None))\<rparr>)"
    using onDataTrie_state [OF vw d, of ?f, OF g datOk_del [OF wf_sel(4) [OF view_wf [OF vw] d]]] by (simp add: trieDeleteKey_def)
qed

lemma runs_dataRoot:
  assumes ok: "env_ok env U" and d: "aD A r = Some m"
  shows "runs env U (onDataTrie r (RootHash (tEnv env))) A (Inr (rootOf env m)) A"
proof (rule runsI)
  fix s
  assume v: "view env U s A"
  obtain tr' where g: "RootHash (tEnv env) ((trieHeap s r)\<lparr>trieStorage := storage s\<rparr>) = (Inr (rootOf env m), tr')"
      "holds (tEnv env) tr' m" "trieStorage tr' = storage s"
    using RootHash_holds [OF env_okD(1) [OF ok] view_data [OF v d]] rootOf by auto
  show "\<exists>s'. run_state (onDataTrie r (RootHash (tEnv env))) s = (Inr (rootOf env m), s') \<and> view env U s' A"
    using onDataTrie_state [OF v d, of "RootHash (tEnv env)", OF g wf_sel(4) [OF view_wf [OF v] d]] d by simp
qed

lemma runs_adbRootHash:
  assumes ok: "env_ok env U"
  shows "runs env U (adbRootHash env) A (Inr (rootOf env (mainMap env (aAcc A) (aCod A)))) A"
proof (rule runsI)
  fix s
  assume v: "view env U s A"
  obtain tr' where g: "RootHash (tEnv env) ((mainTrie s)\<lparr>trieStorage := storage s\<rparr>) = (Inr (rootOf env (mainMap env (aAcc A) (aCod A))), tr')"
      "holds (tEnv env) tr' (mainMap env (aAcc A) (aCod A))" "trieStorage tr' = storage s"
      "maxTrieLevelInMemory tr' = maxTrieLevelInMemory (mainTrie s)"
    using RootHash_holds [OF env_okD(1) [OF ok] view_main(1) [OF v]] rootOf by auto
  show "\<exists>s'. run_state (adbRootHash env) s = (Inr (rootOf env (mainMap env (aAcc A) (aCod A))), s') \<and> view env U s' A"
    using onMainTrie_state [OF v, of "RootHash (tEnv env)", OF g view_main(2,3) [OF v]] by (simp add: adbRootHash_def)
qed

section \<open>New tries\<close>

text \<open>The trie that \<^verbatim>\<open>Recreate\<close> makes for a root hash in a state.\<close>

definition recreated :: "adbEnv \<Rightarrow> adbState \<Rightarrow> bytes \<Rightarrow> patriciaMerkleTrie tres" where
  "recreated env K h = recreate (tEnv env) h (emptyTrie (storage K) (maxTrieLevelInMemory (mainTrie K)))"

lemma recreate_cong:
  "trieStorage tr = trieStorage tr' \<Longrightarrow> maxTrieLevelInMemory tr = maxTrieLevelInMemory tr' \<Longrightarrow> recreate env h tr = recreate env h tr'"
  by (simp add: recreate_def recreateFromDb_def)

lemma recreated_state:
  assumes "view env U s A"
  shows "recreate (tEnv env) h ((mainTrie s)\<lparr>trieStorage := storage s\<rparr>) = recreated env (aK A) h"
  unfolding recreated_def by (rule recreate_cong) (simp_all add: view_sel [OF assms] emptyTrie_def)

lemma recreate_storage: "recreate env h tr = Inr tr' \<Longrightarrow> trieStorage tr' = trieStorage tr"
  by (auto simp: recreate_def recreateFromDb_def NewTrie_def emptyTrie_def thenE_def split: if_splits sum.splits)

lemma recreated_storage: "recreated env K h = Inr tr \<Longrightarrow> trieStorage tr = storage K"
  by (simp add: recreated_def recreate_storage emptyTrie_def)

lemma run_recreateDataTrie:
  assumes "view env U s A"
  shows "run_state (recreateDataTrie env h) s = (case recreated env (aK A) h of
     Inl e \<Rightarrow> (Inl (TrieErr e), s)
   | Inr tr \<Rightarrow> (Inr (nextTrie (aK A)), s\<lparr>trieHeap := (trieHeap s)(nextTrie (aK A) := tr), nextTrie := Suc (nextTrie (aK A))\<rparr>))"
  by (simp add: recreateDataTrie_def recreated_state [OF assms] liftTrie_def newTrieRef_def view_sel(1) [OF assms] split: sum.splits)

lemma runs_recreate_fail:
  assumes "recreated env (aK A) h = Inl e"
  shows "runs env U (recreateDataTrie env h) A (Inl (TrieErr e)) A"
  by (rule runsI) (simp add: run_recreateDataTrie assms)

lemma view_newTrie:
  assumes v: "view env U s A" and tr: "trieStorage tr = storage (aK A)"
    and D: "D = aD A \<or> (\<exists>m. D = (aD A)(nextTrie (aK A) \<mapsto> m) \<and> holds (tEnv env) tr m \<and> datOk env U m)"
  shows "view env U (s\<lparr>trieHeap := (trieHeap s)(nextTrie (aK A) := tr), nextTrie := Suc (nextTrie (aK A))\<rparr>)
    (A\<lparr>aK := (aK A)\<lparr>nextTrie := Suc (nextTrie (aK A))\<rparr>, aD := D\<rparr>)"
proof -
  let ?n = "nextTrie (aK A)"
  have w: "absOk env U A" by (rule view_wf [OF v])
  have old: "r < ?n \<and> datOk env U m" if "aD A r = Some m" for r m using wf_sel(3,4) [OF w that] by simp
  have "tr\<lparr>trieStorage := storage s\<rparr> = tr" using tr view_sel(8) [OF v] by simp
  then have "holds (tEnv env) (tr\<lparr>trieStorage := storage s\<rparr>) m = holds (tEnv env) tr m" for m by (simp only:)
  then have "holds (tEnv env) (((trieHeap s)(?n := tr)) r\<lparr>trieStorage := storage s\<rparr>) m" if "D r = Some m" for r m
    using that D old view_data [OF v] by (fastforce split: if_splits)
  moreover have "absOk env U (A\<lparr>aK := (aK A)\<lparr>nextTrie := Suc ?n\<rparr>, aD := D\<rparr>)"
    using w D old unfolding absOk_def heldOk_def by (fastforce split: if_splits)
  ultimately show ?thesis using v unfolding view_def by simp
qed

lemma runs_recreate:
  assumes tr: "recreated env (aK A) h = Inr tr" and m: "holds (tEnv env) tr m" "datOk env U m"
  shows "runs env U (recreateDataTrie env h) A (Inr (nextTrie (aK A)))
    (A\<lparr>aK := (aK A)\<lparr>nextTrie := Suc (nextTrie (aK A))\<rparr>, aD := (aD A)(nextTrie (aK A) \<mapsto> m)\<rparr>)"
proof (rule runsI)
  fix s
  assume v: "view env U s A"
  show "\<exists>s'. run_state (recreateDataTrie env h) s = (Inr (nextTrie (aK A)), s') \<and>
      view env U s' (A\<lparr>aK := (aK A)\<lparr>nextTrie := Suc (nextTrie (aK A))\<rparr>, aD := (aD A)(nextTrie (aK A) \<mapsto> m)\<rparr>)"
    using view_newTrie [OF v recreated_storage [OF tr], of "(aD A)(nextTrie (aK A) \<mapsto> m)"] m
    by (auto simp: run_recreateDataTrie [OF v] tr)
qed

lemma recreated_empty:
  assumes "maxTrieLevelInMemory (mainTrie K) \<noteq> 0"
  shows "\<exists>tr. recreated env K [] = Inr tr \<and> holds (tEnv env) tr Map.empty"
  using assms by (simp add: recreated_def recreate_def IsEmptyTrie_def NewTrie_def emptyTrie_def holds_def)

lemma runs_recreate_empty:
  "runs env U (recreateDataTrie env []) A (Inr (nextTrie (aK A)))
    (A\<lparr>aK := (aK A)\<lparr>nextTrie := Suc (nextTrie (aK A))\<rparr>, aD := (aD A)(nextTrie (aK A) \<mapsto> Map.empty)\<rparr>)"
proof (rule runsI)
  fix s
  assume v: "view env U s A"
  then have "maxTrieLevelInMemory (mainTrie (aK A)) \<noteq> 0" using view_sel(9) [OF v] by (simp add: view_def)
  then obtain tr where "recreated env (aK A) [] = Inr tr" "holds (tEnv env) tr Map.empty" using recreated_empty by blast
  then show "\<exists>s'. run_state (recreateDataTrie env []) s = (Inr (nextTrie (aK A)), s') \<and>
      view env U s' (A\<lparr>aK := (aK A)\<lparr>nextTrie := Suc (nextTrie (aK A))\<rparr>, aD := (aD A)(nextTrie (aK A) \<mapsto> Map.empty)\<rparr>)"
    using runsD [OF runs_recreate v] by (simp add: datOk_def)
qed

section \<open>Writing the dirty data\<close>

abbreviation undoOne :: "trieUpdateData \<Rightarrow> trieMap \<Rightarrow> trieMap" where
  "undoOne u \<equiv> putMap (tuKey u) (tuValue u) (tuVersion u)"

definition undoOk :: "adbEnv \<Rightarrow> bytes set \<Rightarrow> trieUpdateData \<Rightarrow> bool" where
  "undoOk env U u \<longleftrightarrow> tuValue u = [] \<or> tuKey u \<in> U \<and> tuVersion u = NotSpecified \<or>
     tuKey u \<in> hasherCompute env ` U \<and> tuVersion u = AutoBalanceEnabled"

lemma datOk_undo: "datOk env U m \<Longrightarrow> undoOk env U u \<Longrightarrow> datOk env U (undoOne u m)"
  by (auto simp: datOk_def undoOk_def putMap_def)

lemma runs_revertTrieUpdates:
  assumes ok: "env_ok env U"
  shows "aD A r = Some m \<Longrightarrow> \<forall>u\<in>set us. undoOk env U u \<Longrightarrow>
    runs env U (revertTrieUpdates env r us) A (Inr ()) (A\<lparr>aD := (aD A)(r \<mapsto> fold undoOne us m)\<rparr>)"
proof (induction us arbitrary: A m)
  case (Cons u us)
  let ?A = "A\<lparr>aD := (aD A)(r \<mapsto> undoOne u m)\<rparr>"
  have "runs env U (trieUpdateKey env r (tuKey u) (tuValue u) (tuVersion u)) A (Inr ()) ?A"
    using runs_trieUpdateKey [OF ok Cons.prems(1)] datOk_undo Cons.prems(2) by simp
  moreover have "runs env U (revertTrieUpdates env r us) ?A (Inr ()) (?A\<lparr>aD := (aD ?A)(r \<mapsto> fold undoOne us (undoOne u m))\<rparr>)"
    by (rule Cons.IH) (use Cons.prems(2) in simp_all)
  ultimately show ?case unfolding aD_twice revertTrieUpdates.simps fold_Cons comp_apply by (rule runs_tryE)
qed (simp add: runs_ok)

text \<open>What \<^verbatim>\<open>retrieveValueFromTrie\<close> finds.\<close>

definition oldEntry :: "adbEnv \<Rightarrow> trieMap \<Rightarrow> bytes \<Rightarrow> trieUpdateData" where
  "oldEntry env m k =
     (case if autoBalanceFlag env then m (hasherCompute env k) else None of
        Some (v, _) \<Rightarrow> \<lparr>tuKey = hasherCompute env k, tuValue = v, tuVersion = AutoBalanceEnabled\<rparr>
      | None \<Rightarrow>
         (case m k of
            Some (v, _) \<Rightarrow> \<lparr>tuKey = k, tuValue = v, tuVersion = NotSpecified\<rparr>
          | None \<Rightarrow> \<lparr>tuKey = getKeyForVersion env k (versionForNewData env), tuValue = [], tuVersion = versionForNewData env\<rparr>))"

lemma datOk_value: "datOk env U m \<Longrightarrow> m k = Some vw \<Longrightarrow> fst vw \<noteq> []"
  by (cases vw) (auto simp: datOk_def)

lemma runs_retrieve:
  assumes ok: "env_ok env U" and d: "aD A r = Some m"
  shows "runs env U (retrieveValueFromTrie env r k) A (Inr (oldEntry env m k)) A"
proof (rule runs_wf)
  assume w: "absOk env U A"
  note val = datOk_value [OF wf_sel(4) [OF w d]]
  let ?lookup = "\<lambda>k. onDataTrie r (\<lambda>t. case Get (keyFuel k) (tEnv env) k t of ((v, _), t') \<Rightarrow> (v, t'))"
  let ?plain = "tryE (?lookup k) (\<lambda>v. if length (slice v) \<noteq> 0 then ok \<lparr>tuKey = k, tuValue = slice v, tuVersion = NotSpecified\<rparr>
      else ok \<lparr>tuKey = getKeyForVersion env k (versionForNewData env), tuValue = [], tuVersion = versionForNewData env\<rparr>)"
  have plain: "runs env U ?plain A (Inr (oldEntry env m k)) A" if "\<not> autoBalanceFlag env \<or> m (hasherCompute env k) = None"
    using that val [of k]
    by (intro runs_tryE [OF runs_dataGet [OF ok d]]) (cases "m k"; auto simp: oldEntry_def runs_ok split: option.splits)
  show ?thesis
  proof (cases "autoBalanceFlag env")
    case True
    have "runs env U (tryE (?lookup (hasherCompute env k)) (\<lambda>v. if length (slice v) \<noteq> 0
        then ok \<lparr>tuKey = hasherCompute env k, tuValue = slice v, tuVersion = AutoBalanceEnabled\<rparr> else ?plain)) A (Inr (oldEntry env m k)) A"
    proof (rule runs_tryE [OF runs_dataGet [OF ok d]])
      show "runs env U (if length (slice (map_option fst (m (hasherCompute env k)))) \<noteq> 0
          then ok \<lparr>tuKey = hasherCompute env k, tuValue = slice (map_option fst (m (hasherCompute env k))), tuVersion = AutoBalanceEnabled\<rparr>
          else ?plain) A (Inr (oldEntry env m k)) A"
        using plain val [of "hasherCompute env k"] True
        by (cases "m (hasherCompute env k)") (auto simp: oldEntry_def runs_ok)
    qed
    then show ?thesis unfolding retrieveValueFromTrie_def Let_def if_P [OF True] .
  next
    case False
    then show ?thesis using plain unfolding retrieveValueFromTrie_def Let_def if_not_P [OF False] by blast
  qed
qed

text \<open>What a dirty entry does to the map, the entry that is appended for a migrated key, and the whole loop.\<close>

definition newValue :: "adbEnv \<Rightarrow> bytes \<Rightarrow> bytes \<Rightarrow> dirtyData \<Rightarrow> bytes" where
  "newValue env ident k d = (case getValueForVersion env ident k (ddValue d) (ddNewVersion d) of Inl e \<Rightarrow> [] | Inr v \<Rightarrow> v)"

definition migrates :: "adbEnv \<Rightarrow> trieMap \<Rightarrow> bytes \<Rightarrow> dirtyData \<Rightarrow> bool" where
  "migrates env m k d \<longleftrightarrow> tuVersion (oldEntry env m k) = NotSpecified \<and> ddNewVersion d = AutoBalanceEnabled"

definition stepMap :: "adbEnv \<Rightarrow> bytes \<Rightarrow> trieMap \<Rightarrow> bytes \<times> dirtyData \<Rightarrow> trieMap" where
  "stepMap env ident m = (\<lambda>(k, d).
     if ddValue d = [] then (if tuValue (oldEntry env m k) = [] then m else m(tuKey (oldEntry env m k) := None))
     else putMap (getKeyForVersion env k (ddNewVersion d)) (newValue env ident k d) (ddNewVersion d)
            (if migrates env m k d then m(k := None) else m))"

definition appendedFor :: "adbEnv \<Rightarrow> trieMap \<Rightarrow> bytes \<times> dirtyData \<Rightarrow> trieUpdateData list" where
  "appendedFor env m = (\<lambda>(k, d). if migrates env m k d \<and> ddValue d \<noteq> []
     then [\<lparr>tuKey = hasherCompute env k, tuValue = [], tuVersion = NotSpecified\<rparr>] else [])"

fun loopSpec :: "adbEnv \<Rightarrow> bytes \<Rightarrow> trieMap \<Rightarrow> (bytes \<times> dirtyData) list \<Rightarrow> trieUpdateData list \<times> trieUpdateData list \<times> trieMap" where
  "loopSpec env ident m [] = ([], [], m)"
| "loopSpec env ident m (kd # rest) =
     (case loopSpec env ident (stepMap env ident m kd) rest of
        (os, as, m') \<Rightarrow> (oldEntry env m (fst kd) # os, appendedFor env m kd @ as, m'))"

definition dirtyOk :: "adbEnv \<Rightarrow> bytes set \<Rightarrow> (bytes \<times> dirtyData) list \<Rightarrow> bool" where
  "dirtyOk env U dd \<longleftrightarrow> (\<forall>(k, d)\<in>set dd. k \<in> U \<and> ddNewVersion d = versionForNewData env)"

lemma newValue:
  assumes ok: "env_ok env U" and d: "ddValue d \<noteq> []"
  shows "getValueForVersion env ident k (ddValue d) w = Inr (newValue env ident k (d\<lparr>ddNewVersion := w\<rparr>))" "newValue env ident k d \<noteq> []"
proof -
  have "\<forall>l. \<exists>b. marshalLeafData env l = Inr b \<and> unmarshalLeafData env b = Inr l \<and> (tldValue l \<noteq> [] \<longrightarrow> b \<noteq> [])"
    using ok unfolding env_ok_def by (elim conjE)
  then obtain b where "marshalLeafData env \<lparr>tldValue = ddValue d, tldKey = k, tldAddress = ident\<rparr> = Inr b" "b \<noteq> []"
    using d by (metis TrieLeafData.select_convs(1))
  then show "getValueForVersion env ident k (ddValue d) w = Inr (newValue env ident k (d\<lparr>ddNewVersion := w\<rparr>))" "newValue env ident k d \<noteq> []"
    using d by (auto simp: newValue_def getValueForVersion_def)
qed

lemma datOk_put:
  assumes "datOk env U m" and "v \<noteq> []" and "k \<in> U \<and> w = NotSpecified \<or> k \<in> hasherCompute env ` U \<and> w = AutoBalanceEnabled"
  shows "datOk env U (putMap k v w m)"
  using assms unfolding datOk_def putMap_def by (simp split: if_splits)

lemma oldEntry_value:
  assumes "datOk env U m" and "tuValue (oldEntry env m k) \<noteq> []"
  shows "tuKey (oldEntry env m k) = getKeyForVersion env k (tuVersion (oldEntry env m k))"
    "tuVersion (oldEntry env m k) = AutoBalanceEnabled \<or> tuVersion (oldEntry env m k) = NotSpecified"
  using assms by (auto simp: oldEntry_def getKeyForVersion_def split: option.splits if_splits)

lemma runs_deleteFromTrie:
  assumes ok: "env_ok env U" and d: "aD A r = Some m"
  shows "runs env U (deleteFromTrie env r (oldEntry env m k) k) A (Inr ())
    (A\<lparr>aD := (aD A)(r \<mapsto> (if tuValue (oldEntry env m k) = [] then m else m(tuKey (oldEntry env m k) := None)))\<rparr>)"
proof (rule runs_wf)
  assume w: "absOk env U A"
  show ?thesis
  proof (cases "tuValue (oldEntry env m k) = []")
    case True
    then show ?thesis using d runs_ok by (simp add: deleteFromTrie_def)
  next
    case False
    note o = oldEntry_value [OF wf_sel(4) [OF w d] False]
    show ?thesis using o(2) runs_trieDeleteKey [OF ok d, of "tuKey (oldEntry env m k)"] False o(1)
      unfolding deleteFromTrie_def getKeyForVersion_def by (elim disjE) auto
  qed
qed

lemma dirtyOk_version:
  assumes "env_ok env U" and "k \<in> U" and "ddNewVersion d = versionForNewData env"
  shows "getKeyForVersion env k (ddNewVersion d) \<in> U \<and> ddNewVersion d = NotSpecified \<or>
    getKeyForVersion env k (ddNewVersion d) \<in> hasherCompute env ` U \<and> ddNewVersion d = AutoBalanceEnabled"
  using assms env_okD(7) [OF assms(1)] by (auto simp: getKeyForVersion_def)

lemma migrates_flag: "env_ok env U \<Longrightarrow> ddNewVersion d = versionForNewData env \<Longrightarrow> migrates env m k d \<Longrightarrow> autoBalanceFlag env"
  using env_okD(7) [of env U] by (auto simp: migrates_def split: if_splits)

lemma runs_deleteOld:
  assumes ok: "env_ok env U" and d: "aD A r = Some m" and v: "ddNewVersion dat = versionForNewData env"
  shows "runs env U (deleteOldEntryIfMigrated env r k dat (oldEntry env m k)) A (Inr ())
    (A\<lparr>aD := (aD A)(r \<mapsto> (if migrates env m k dat \<and> ddValue dat \<noteq> [] then m(k := None) else m))\<rparr>)"
proof (cases "migrates env m k dat \<and> ddValue dat \<noteq> []")
  case True
  then have "autoBalanceFlag env" using migrates_flag [OF ok v] by blast
  then show ?thesis using True runs_trieDeleteKey [OF ok d, of k] by (simp add: deleteOldEntryIfMigrated_def migrates_def)
next
  case False
  then show ?thesis using d runs_ok by (auto simp: deleteOldEntryIfMigrated_def migrates_def)
qed

lemma runs_modifyTrie:
  assumes ok: "env_ok env U" and d: "aD A r = Some m"
    and v: "ddNewVersion dat = versionForNewData env" and k: "k \<in> U" and m1: "m1 = (if migrates env m k dat \<and> ddValue dat \<noteq> [] then m(k := None) else m)"
  shows "runs env U (modifyTrie env ident r k dat (oldEntry env m k)) (A\<lparr>aD := (aD A)(r \<mapsto> m1)\<rparr>)
    (Inr (if ddValue dat = [] then [] else getKeyForVersion env k (ddNewVersion dat)))
    (A\<lparr>aD := (aD A)(r \<mapsto> stepMap env ident m (k, dat))\<rparr>)"
proof (cases "ddValue dat = []")
  case True
  then have m: "m1 = m" using m1 by simp
  have "stepMap env ident m (k, dat) = (if tuValue (oldEntry env m k) = [] then m else m(tuKey (oldEntry env m k) := None))"
    using True by (simp add: stepMap_def)
  moreover have "modifyTrie env ident r k dat (oldEntry env m k) = tryE (deleteFromTrie env r (oldEntry env m k) k) (\<lambda>_. ok [])"
    using True by (simp add: modifyTrie_def)
  ultimately show ?thesis unfolding m aD_same [OF d] if_P [OF True] using runs_tryE [OF runs_deleteFromTrie [OF ok d] runs_ok] by (simp only:)
next
  case False
  let ?A = "A\<lparr>aD := (aD A)(r \<mapsto> m1)\<rparr>" and ?k = "getKeyForVersion env k (ddNewVersion dat)" and ?v = "newValue env ident k dat"
  have "getValueForVersion env ident k (ddValue dat) (ddNewVersion dat) = Inr ?v" using newValue(1) [OF ok False, of ident k "ddNewVersion dat"] by simp
  moreover have "runs env U (trieUpdateKey env r ?k ?v (ddNewVersion dat)) ?A (Inr ()) (?A\<lparr>aD := (aD ?A)(r \<mapsto> putMap ?k ?v (ddNewVersion dat) m1)\<rparr>)"
    by (rule runs_trieUpdateKey [OF ok]) (simp, rule datOk_put [OF _ newValue(2) [OF ok False] dirtyOk_version [OF ok k v]])
  moreover have "stepMap env ident m (k, dat) = putMap ?k ?v (ddNewVersion dat) m1" using False m1 by (simp add: stepMap_def)
  ultimately show ?thesis unfolding aD_twice modifyTrie_def using False by (simp add: Let_def) (rule runs_tryE, assumption, rule runs_ok)
qed

lemma runs_updateTrieLoop:
  assumes ok: "env_ok env U"
  shows "aD A r = Some m \<Longrightarrow> dirtyOk env U dd \<Longrightarrow> loopSpec env ident m dd = (os, as, m') \<Longrightarrow>
    runs env U (updateTrieLoop env ident r dd olds apps) A (Inr ((olds @ os) @ (apps @ as))) (A\<lparr>aD := (aD A)(r \<mapsto> m')\<rparr>)"
proof (induction dd arbitrary: A m os as olds apps)
  case Nil
  have e: "m' = m" "os = []" "as = []" using Nil.prems(3) by simp_all
  show ?case unfolding e aD_same [OF Nil.prems(1)] using runs_ok [of env U "olds @ apps" A] by simp
next
  case (Cons kd rest)
  obtain k dat where kd: "kd = (k, dat)" by (cases kd)
  obtain os' as' where l: "loopSpec env ident (stepMap env ident m kd) rest = (os', as', m')"
    and eq: "os = oldEntry env m k # os'" "as = appendedFor env m kd @ as'"
    using Cons.prems(3) kd by (auto split: prod.splits)
  have v: "ddNewVersion dat = versionForNewData env" "k \<in> U" and rest: "dirtyOk env U rest" using Cons.prems(2) by (auto simp: dirtyOk_def kd)
  let ?o = "oldEntry env m k" and ?A' = "A\<lparr>aD := (aD A)(r \<mapsto> stepMap env ident m kd)\<rparr>"
  let ?new = "if ddValue dat = [] then [] else getKeyForVersion env k (ddNewVersion dat)"
  let ?apps = "if (tuVersion ?o = NotSpecified \<and> ddNewVersion dat = AutoBalanceEnabled) \<and> length ?new \<noteq> 0
    then apps @ [\<lparr>tuKey = ?new, tuValue = [], tuVersion = NotSpecified\<rparr>] else apps"
  have "?apps = apps @ appendedFor env m kd"
    using env_okD(11) [OF ok v(2)] by (auto simp: appendedFor_def kd migrates_def getKeyForVersion_def)
  then have "runs env U (updateTrieLoop env ident r rest (olds @ [?o]) ?apps) ?A'
      (Inr (((olds @ [?o]) @ os') @ ((apps @ appendedFor env m kd) @ as'))) (?A'\<lparr>aD := (aD ?A')(r \<mapsto> m')\<rparr>)"
    by (simp only:) (rule Cons.IH [OF _ rest l], simp)
  then have "runs env U (updateTrieLoop env ident r rest (olds @ [?o]) ?apps) ?A' (Inr ((olds @ os) @ (apps @ as))) (A\<lparr>aD := (aD A)(r \<mapsto> m')\<rparr>)"
    unfolding aD_twice eq append_assoc by (simp only: append.simps)
  then show ?case unfolding kd updateTrieLoop.simps Let_def
    by (intro runs_tryE [OF runs_retrieve [OF ok Cons.prems(1)]] runs_tryE [OF runs_deleteOld [OF ok Cons.prems(1) v(1)]]
        runs_tryE [OF runs_modifyTrie [OF ok Cons.prems(1) v HOL.refl]])
qed

section \<open>Undoing the writes\<close>

lemma putMap_commute: "k \<noteq> k' \<Longrightarrow> putMap k v w (putMap k' v' w' m) = putMap k' v' w' (putMap k v w m)"
  by (auto simp: putMap_def fun_upd_twist)

lemma fold_undo_move:
  "\<forall>u\<in>set us. tuKey u \<noteq> tuKey x \<Longrightarrow> fold undoOne us (undoOne x m) = undoOne x (fold undoOne us m)"
proof (induction us arbitrary: m)
  case (Cons u us)
  then show ?case using putMap_commute [of "tuKey u" "tuKey x"] by simp
qed simp

lemma fold_undo_swap:
  "\<forall>x\<in>set xs. \<forall>u\<in>set us. tuKey u \<noteq> tuKey x \<Longrightarrow> fold undoOne us (fold undoOne xs m) = fold undoOne xs (fold undoOne us m)"
proof (induction xs arbitrary: m)
  case (Cons x xs)
  then show ?case using fold_undo_move [of us x m] by simp
qed simp

lemma oldEntry_spot: "tuKey (oldEntry env m k) \<in> {k, hasherCompute env k}"
  by (auto simp: oldEntry_def getKeyForVersion_def split: option.splits)

lemma appended_spot: "u \<in> set (appendedFor env m (k, d)) \<Longrightarrow> tuKey u = hasherCompute env k \<and> tuValue u = []"
  by (auto simp: appendedFor_def split: if_splits)

lemma spots_apart:
  assumes "env_ok env U" and "k \<in> U" and "k' \<in> U" and "k \<noteq> k'"
  shows "{k, hasherCompute env k} \<inter> {k', hasherCompute env k'} = {}"
  using assms env_okD(10) [OF assms(1)] inj_onD [OF env_okD(4) [OF assms(1)]] by auto

lemma loop_spots:
  "loopSpec env ident m dd = (os, as, m') \<Longrightarrow> u \<in> set os \<union> set as \<Longrightarrow> \<exists>k\<in>fst ` set dd. tuKey u \<in> {k, hasherCompute env k}"
proof (induction dd arbitrary: m os as)
  case (Cons kd dd)
  obtain k d where kd: "kd = (k, d)" by (cases kd)
  obtain os' as' where l: "loopSpec env ident (stepMap env ident m kd) dd = (os', as', m')"
    and eq: "os = oldEntry env m k # os'" "as = appendedFor env m kd @ as'"
    using Cons.prems(1) kd by (auto split: prod.splits)
  from Cons.prems(2) eq consider "u = oldEntry env m k" | "u \<in> set (appendedFor env m (k, d))" | "u \<in> set os' \<union> set as'"
    using kd by auto
  then show ?case
  proof cases
    case 1
    then show ?thesis using oldEntry_spot kd by simp
  next
    case 2
    then show ?thesis using appended_spot kd by simp
  next
    case 3
    then show ?thesis using Cons.IH [OF l] by (simp add: kd)
  qed
qed simp

lemma undoOk_old:
  assumes "env_ok env U" and "datOk env U m" and "k \<in> U"
  shows "undoOk env U (oldEntry env m k)"
  using assms(3) by (auto simp: undoOk_def oldEntry_def split: option.splits)

lemma undoOk_appended: "u \<in> set (appendedFor env m (k, d)) \<Longrightarrow> undoOk env U u"
  using appended_spot [of u env m k d] by (simp add: undoOk_def)

lemma stepMap_datOk:
  assumes ok: "env_ok env U" and m: "datOk env U m" and k: "k \<in> U" and v: "ddNewVersion d = versionForNewData env"
  shows "datOk env U (stepMap env ident m (k, d))"
  using datOk_put [OF _ newValue(2) [OF ok] dirtyOk_version [OF ok k v]] datOk_del [OF m] m by (simp add: stepMap_def)

text \<open>The versions of the entries are the ones that undoing writes.\<close>

lemma datOk_version:
  assumes ok: "env_ok env U" and m: "datOk env U m" and k: "k \<in> U"
  shows "m k = Some (v, w) \<Longrightarrow> w = NotSpecified" "m (hasherCompute env k) = Some (v, w) \<Longrightarrow> w = AutoBalanceEnabled"
  using m k env_okD(5,10) [OF ok] unfolding datOk_def by blast+

lemma step_restore:
  assumes ok: "env_ok env U" and m: "datOk env U m" and k: "k \<in> U" and v: "ddNewVersion d = versionForNewData env"
  shows "fold undoOne (oldEntry env m k # appendedFor env m (k, d)) (stepMap env ident m (k, d)) = m"
proof -
  let ?h = "hasherCompute env k"
  have ne: "?h \<noteq> k" using env_okD(10) [OF ok k] k by metis
  note [simp] = ne ne [symmetric]
  have val: "x \<noteq> []" if "m y = Some (x, w)" for x y w using datOk_value [OF m that] by simp
  have nv: "ddValue d \<noteq> [] \<Longrightarrow> newValue env ident k d \<noteq> []" by (rule newValue(2) [OF ok])
  note ver = datOk_version [OF ok m k]
  consider (new) w where "autoBalanceFlag env" "m ?h = Some w"
    | (plain) w where "\<not> autoBalanceFlag env \<or> m ?h = None" "m k = Some w"
    | (none) "\<not> autoBalanceFlag env \<or> m ?h = None" "m k = None" by (cases "m ?h"; cases "m k") auto
  then show ?thesis
  proof cases
    case new
    then obtain x where x: "m ?h = Some (x, AutoBalanceEnabled)" using ver(2) by (cases w) auto
    then have o: "oldEntry env m k = \<lparr>tuKey = ?h, tuValue = x, tuVersion = AutoBalanceEnabled\<rparr>" using new(1) by (simp add: oldEntry_def)
    have "ddNewVersion d = AutoBalanceEnabled" using v new(1) env_okD(7) [OF ok] by simp
    then show ?thesis using x val [OF x] nv o
      by (auto simp: stepMap_def appendedFor_def migrates_def getKeyForVersion_def putMap_def fun_eq_iff)
  next
    case plain
    then obtain x where x: "m k = Some (x, NotSpecified)" using ver(1) by (cases w) auto
    then have o: "oldEntry env m k = \<lparr>tuKey = k, tuValue = x, tuVersion = NotSpecified\<rparr>" using plain(1) by (auto simp: oldEntry_def)
    show ?thesis
    proof (cases "autoBalanceFlag env")
      case True
      then have "ddNewVersion d = AutoBalanceEnabled" using v env_okD(7) [OF ok] by simp
      then show ?thesis using x val [OF x] nv o plain(1) True
        by (auto simp: stepMap_def appendedFor_def migrates_def getKeyForVersion_def putMap_def fun_eq_iff)
    next
      case False
      then have "ddNewVersion d = NotSpecified" using v env_okD(7) [OF ok] by simp
      then show ?thesis using x val [OF x] nv o
        by (auto simp: stepMap_def appendedFor_def migrates_def getKeyForVersion_def putMap_def fun_eq_iff)
    qed
  next
    case none
    have o: "oldEntry env m k = \<lparr>tuKey = getKeyForVersion env k (versionForNewData env), tuValue = [], tuVersion = versionForNewData env\<rparr>"
      using none by (auto simp: oldEntry_def)
    then have "\<not> migrates env m k d" using v env_okD(7) [OF ok] by (auto simp: migrates_def)
    then show ?thesis using o nv v none env_okD(7) [OF ok]
      by (auto simp: stepMap_def appendedFor_def getKeyForVersion_def putMap_def fun_eq_iff)
  qed
qed

lemma loop_restore:
  assumes ok: "env_ok env U"
  shows "datOk env U m \<Longrightarrow> dirtyOk env U dd \<Longrightarrow> distinct (map fst dd) \<Longrightarrow> loopSpec env ident m dd = (os, as, m') \<Longrightarrow>
    fold undoOne (os @ as) m' = m \<and> datOk env U m' \<and> (\<forall>u\<in>set (os @ as). undoOk env U u) \<and> (dd \<noteq> [] \<longrightarrow> os \<noteq> [])"
proof (induction dd arbitrary: m os as)
  case (Cons kd dd)
  obtain k d where kd: "kd = (k, d)" by (cases kd)
  obtain os' as' where l: "loopSpec env ident (stepMap env ident m kd) dd = (os', as', m')"
    and eq: "os = oldEntry env m k # os'" "as = appendedFor env m kd @ as'"
    using Cons.prems(4) kd by (auto split: prod.splits)
  have k: "k \<in> U" "ddNewVersion d = versionForNewData env" and dd: "dirtyOk env U dd" "distinct (map fst dd)"
    and kdd: "k \<notin> fst ` set dd" using Cons.prems(2,3) by (auto simp: dirtyOk_def kd)
  have ih: "fold undoOne (os' @ as') m' = stepMap env ident m kd" "datOk env U m'" "\<forall>u\<in>set (os' @ as'). undoOk env U u"
    using Cons.IH [OF stepMap_datOk [OF ok Cons.prems(1) k, of ident, folded kd] dd l] by auto
  have apart: "tuKey u \<notin> {k, hasherCompute env k}" if u: "u \<in> set os' \<union> set as'" for u
  proof -
    obtain k' where k': "k' \<in> fst ` set dd" "tuKey u \<in> {k', hasherCompute env k'}" using loop_spots [OF l u] by blast
    then have "k' \<in> U" "k \<noteq> k'" using dd(1) kdd by (auto simp: dirtyOk_def)
    then show ?thesis using spots_apart [OF ok k(1)] k'(2) by blast
  qed
  let ?o = "oldEntry env m k" and ?a = "appendedFor env m kd"
  have o: "tuKey u \<noteq> tuKey ?o" if "u \<in> set os' \<union> set as'" for u using apart [OF that] oldEntry_spot [of env m k] by metis
  have a: "tuKey u \<noteq> tuKey x" if "u \<in> set os' \<union> set as'" "x \<in> set ?a" for u x
    using apart [OF that(1)] appended_spot [of x env m k d] that(2) kd by auto
  have "fold undoOne (os @ as) m' = fold undoOne as' (fold undoOne ?a (fold undoOne os' (undoOne ?o m')))" by (simp add: eq)
  also have "\<dots> = fold undoOne ?a (fold undoOne as' (fold undoOne os' (undoOne ?o m')))" using fold_undo_swap [of ?a as'] a by blast
  also have "\<dots> = fold undoOne ?a (fold undoOne (os' @ as') (undoOne ?o m'))" by simp
  also have "\<dots> = fold undoOne ?a (undoOne ?o (fold undoOne (os' @ as') m'))" using fold_undo_move [of "os' @ as'" ?o] o by simp
  also have "\<dots> = fold undoOne (?o # ?a) (stepMap env ident m kd)" using ih(1) by simp
  finally have "fold undoOne (os @ as) m' = m" using step_restore [OF ok Cons.prems(1) k, of ident] kd by simp
  moreover have "\<forall>u\<in>set (os @ as). undoOk env U u"
    using ih(3) undoOk_old [OF ok Cons.prems(1) k(1)] undoOk_appended [of _ env m k d U] by (auto simp: eq kd)
  ultimately show ?case using ih(2) eq by simp
qed simp

end
