(* ===== verification/AccountsSave.thy ===== *)
theory AccountsSave
  imports AccountsTries
begin

text \<open>
  Saving and removing an account on abstract states: what the data trie, the code entries, the account and the
  journal are afterwards.
\<close>

section \<open>The data of an account\<close>

abbreviation obj :: "adbAbs \<Rightarrow> nat \<Rightarrow> userAccount" where
  "obj A a \<equiv> accountHeap (aK A) a"

abbreviation putObj :: "nat \<Rightarrow> userAccount \<Rightarrow> adbAbs \<Rightarrow> adbAbs" where
  "putObj a acc A \<equiv> A\<lparr>aK := (aK A)\<lparr>accountHeap := (accountHeap (aK A))(a := acc)\<rparr>\<rparr>"

lemma runs_eq: "runs env U m A r B \<Longrightarrow> B = A' \<Longrightarrow> runs env U m A r A'"
  by simp

definition objOk :: "adbEnv \<Rightarrow> bytes set \<Rightarrow> adbAbs \<Rightarrow> userAccount \<Rightarrow> bool" where
  "objOk env U A acc \<longleftrightarrow> dirtyOk env U (tdtDirtyData (accTracker acc)) \<and> distinct (map fst (tdtDirtyData (accTracker acc))) \<and>
     (\<forall>r. tdtTr (accTracker acc) = Some r \<longrightarrow> aD A r \<noteq> None)"

lemma rangeDirty:
  assumes ok: "env_ok env U" and d: "dirtyOk env U dd" "distinct (map fst dd)"
  shows "dirtyOk env U (rangeDirty env dd)" "distinct (map fst (rangeDirty env dd))" "dd \<noteq> [] \<Longrightarrow> rangeDirty env dd \<noteq> []"
proof -
  let ?o = "dirtyOrder env (map fst dd)"
  have o: "distinct ?o" "set ?o = fst ` set dd" using env_okD(8,9) [OF ok d(2)] by simp_all
  have f: "map fst (rangeDirty env dd) = ?o" by (simp add: rangeDirty_def comp_def)
  then show "distinct (map fst (rangeDirty env dd))" using o(1) by simp
  show "dd \<noteq> [] \<Longrightarrow> rangeDirty env dd \<noteq> []" using o(2) f by (metis empty_set image_is_empty list.map_disc_iff set_empty)
  have "(k, the (map_of dd k)) \<in> set dd" if k: "k \<in> fst ` set dd" for k
  proof -
    obtain x where "map_of dd k = Some x" using k map_of_eq_None_iff [of dd k] by (cases "map_of dd k") auto
    then show ?thesis by (simp add: map_of_SomeD)
  qed
  then show "dirtyOk env U (rangeDirty env dd)" using d(1) o(2) unfolding dirtyOk_def rangeDirty_def by auto
qed

definition cleanAcc :: "userAccount \<Rightarrow> userAccount" where
  "cleanAcc acc = acc\<lparr>accTracker := (accTracker acc)\<lparr>tdtDirtyData := []\<rparr>\<rparr>"

lemma runs_updateTrie:
  assumes ok: "env_ok env U" and d: "aD A r = Some m" and o: "objOk env U A (obj A a)"
    and l: "loopSpec env (tdtIdentifier (accTracker (obj A a))) m (rangeDirty env (tdtDirtyData (accTracker (obj A a)))) = (os, as, m')"
  shows "runs env U (updateTrie env a r) A (Inr (os @ as)) (putObj a (cleanAcc (obj A a)) (A\<lparr>aD := (aD A)(r \<mapsto> m')\<rparr>))"
proof -
  have dd: "dirtyOk env U (rangeDirty env (tdtDirtyData (accTracker (obj A a))))"
    using o rangeDirty(1) [OF ok] by (simp add: objOk_def)
  have "runs env U (updateTrieLoop env (tdtIdentifier (accTracker (obj A a))) r (rangeDirty env (tdtDirtyData (accTracker (obj A a)))) [] [])
      A (Inr (os @ as)) (A\<lparr>aD := (aD A)(r \<mapsto> m')\<rparr>)"
    using runs_updateTrieLoop [OF ok d dd l, of "[]" "[]"] by (simp only: append_Nil)
  then show ?thesis unfolding updateTrie_def
    by (intro runs_tryE [OF runs_getAcc], elim runs_tryE) (rule runs_eq, rule runs_tryE [OF runs_modifyAcc runs_ok], simp add: cleanAcc_def)
qed

text \<open>The trie that the dirty data goes to: the one of the object, or a new one.\<close>

definition attachTrie :: "nat \<Rightarrow> adbAbs \<Rightarrow> nat \<times> trieMap \<times> adbAbs" where
  "attachTrie a A = (case tdtTr (accTracker (obj A a)) of
     Some r \<Rightarrow> (r, the (aD A r), A)
   | None \<Rightarrow>
      (let r = nextTrie (aK A) in
       (r, Map.empty, putObj a ((obj A a)\<lparr>accTracker := (accTracker (obj A a))\<lparr>tdtTr := Some r\<rparr>\<rparr>)
          (A\<lparr>aK := (aK A)\<lparr>nextTrie := Suc r\<rparr>, aD := (aD A)(r \<mapsto> Map.empty)\<rparr>))))"

lemma datOk_empty [simp]: "datOk env U Map.empty"
  by (simp add: datOk_def)

lemma attachTrie_props:
  assumes w: "absOk env U A" and o: "objOk env U A (obj A a)" and at: "attachTrie a A = (r, m, A1)"
  shows "datOk env U m" "aD A1 r = Some m" "aD A r = Some m \<or> aD A r = None \<and> r = nextTrie (aK A)"
    "aD A1 = (aD A)(r \<mapsto> m)" "tdtTr (accTracker (obj A a)) = None \<or> tdtTr (accTracker (obj A a)) = Some r"
    "obj A1 a = (obj A a)\<lparr>accTracker := (accTracker (obj A a))\<lparr>tdtTr := Some r\<rparr>\<rparr>"
    "accountHeap (aK A1) = (accountHeap (aK A))(a := obj A1 a)"
    "aAcc A1 = aAcc A" "aCod A1 = aCod A" "nextTrie (aK A) \<le> nextTrie (aK A1)" "dataTries (aK A1) = dataTries (aK A)"
    "aK A1 = (aK A)\<lparr>accountHeap := accountHeap (aK A1), nextTrie := nextTrie (aK A1)\<rparr>"
proof -
  have new: "aD A (nextTrie (aK A)) = None" by (rule wf_new [OF w])
  have old: "aD A r = Some m" "A1 = A" "r = r'" if "tdtTr (accTracker (obj A a)) = Some r'" for r'
    using at o that by (auto simp: attachTrie_def objOk_def)
  show "datOk env U m"
    using at old(1) wf_sel(4) [OF w] by (cases "tdtTr (accTracker (obj A a))") (auto simp: attachTrie_def Let_def)
  show "aD A1 r = Some m" "aD A r = Some m \<or> aD A r = None \<and> r = nextTrie (aK A)" "aD A1 = (aD A)(r \<mapsto> m)"
    "tdtTr (accTracker (obj A a)) = None \<or> tdtTr (accTracker (obj A a)) = Some r"
    "obj A1 a = (obj A a)\<lparr>accTracker := (accTracker (obj A a))\<lparr>tdtTr := Some r\<rparr>\<rparr>"
    "accountHeap (aK A1) = (accountHeap (aK A))(a := obj A1 a)"
    "aAcc A1 = aAcc A" "aCod A1 = aCod A" "nextTrie (aK A) \<le> nextTrie (aK A1)" "dataTries (aK A1) = dataTries (aK A)"
    "aK A1 = (aK A)\<lparr>accountHeap := accountHeap (aK A1), nextTrie := nextTrie (aK A1)\<rparr>"
    using at old new by (cases "tdtTr (accTracker (obj A a))"; auto simp: attachTrie_def Let_def)+
qed

lemma runs_SaveDirtyData:
  assumes ok: "env_ok env U" and o: "objOk env U A (obj A a)" and ne: "tdtDirtyData (accTracker (obj A a)) \<noteq> []"
    and at: "attachTrie a A = (r, m, A1)"
    and l: "loopSpec env (tdtIdentifier (accTracker (obj A a))) m (rangeDirty env (tdtDirtyData (accTracker (obj A a)))) = (os, as, m')"
  shows "runs env U (SaveDirtyData env a) A (Inr (os @ as)) (putObj a (cleanAcc (obj A1 a)) (A1\<lparr>aD := (aD A1)(r \<mapsto> m')\<rparr>))"
proof (cases "tdtTr (accTracker (obj A a))")
  case (Some r')
  then have e: "A1 = A" "r' = r" "aD A r = Some m" using at o by (auto simp: attachTrie_def objOk_def)
  have "SaveDirtyData env a = tryE (getAcc a) (\<lambda>acc. if length (tdtDirtyData (accTracker acc)) = 0 then ok []
      else case tdtTr (accTracker acc) of Some tr \<Rightarrow> updateTrie env a tr
        | None \<Rightarrow> tryE (recreateDataTrie env []) (\<lambda>tr. tryE (SetDataTrie a tr) (\<lambda>_. updateTrie env a tr)))" by (simp add: SaveDirtyData_def)
  then show ?thesis unfolding e(1) using runs_updateTrie [OF ok e(3) o l] Some ne e(2)
    by (simp only:) (rule runs_tryE [OF runs_getAcc], simp)
next
  case None
  let ?n = "nextTrie (aK A)"
  have e: "r = ?n" "m = Map.empty" and A1: "A1 = putObj a ((obj A a)\<lparr>accTracker := (accTracker (obj A a))\<lparr>tdtTr := Some ?n\<rparr>\<rparr>)
      (A\<lparr>aK := (aK A)\<lparr>nextTrie := Suc ?n\<rparr>, aD := (aD A)(?n \<mapsto> Map.empty)\<rparr>)"
    using at None by (auto simp: attachTrie_def Let_def)
  have d: "aD A1 r = Some m" by (simp add: A1 e)
  have o1: "objOk env U A1 (obj A1 a)" using o by (auto simp: objOk_def A1)
  have l1: "loopSpec env (tdtIdentifier (accTracker (obj A1 a))) m (rangeDirty env (tdtDirtyData (accTracker (obj A1 a)))) = (os, as, m')"
    using l by (simp add: A1)
  have "runs env U (SetDataTrie a ?n) (A\<lparr>aK := (aK A)\<lparr>nextTrie := Suc ?n\<rparr>, aD := (aD A)(?n \<mapsto> Map.empty)\<rparr>) (Inr ()) A1"
    unfolding SetDataTrie_def by (rule runs_eq [OF runs_modifyAcc]) (simp add: A1)
  then have "runs env U (tryE (recreateDataTrie env []) (\<lambda>tr. tryE (SetDataTrie a tr) (\<lambda>_. updateTrie env a tr))) A
      (Inr (os @ as)) (putObj a (cleanAcc (obj A1 a)) (A1\<lparr>aD := (aD A1)(r \<mapsto> m')\<rparr>))"
    unfolding e(1) by (intro runs_tryE [OF runs_recreate_empty], elim runs_tryE) (rule runs_updateTrie [OF ok d o1 l1, unfolded e(1)])
  then show ?thesis unfolding SaveDirtyData_def using None ne by (intro runs_tryE [OF runs_getAcc]) simp
qed

definition setRoot :: "bytes \<Rightarrow> userAccount \<Rightarrow> userAccount" where
  "setRoot h acc = acc\<lparr>accData := (accData acc)\<lparr>uaRootHash := h\<rparr>\<rparr>"

definition setCodeHash :: "bytes \<Rightarrow> userAccount \<Rightarrow> userAccount" where
  "setCodeHash h acc = acc\<lparr>accData := (accData acc)\<lparr>uaCodeHash := h\<rparr>\<rparr>"

definition pushEntry :: "journalEntry \<Rightarrow> adbAbs \<Rightarrow> adbAbs" where
  "pushEntry e A = A\<lparr>aK := (aK A)\<lparr>entries := entries (aK A) @ [e]\<rparr>\<rparr>"

definition hold :: "bytes \<Rightarrow> nat \<Rightarrow> adbAbs \<Rightarrow> adbAbs" where
  "hold k r A = (if map_of (dataTries (aK A)) k = None then A\<lparr>aK := (aK A)\<lparr>dataTries := setEntry k r (dataTries (aK A))\<rparr>\<rparr> else A)"

lemma runs_hold:
  assumes "aD A r \<noteq> None"
  shows "runs env U (if map_of (dataTries (aK A)) k = None then holderPut k r else ok ()) A (Inr ()) (hold k r A)"
proof (cases "map_of (dataTries (aK A)) k = None")
  case True
  then show ?thesis using runs_holderPut [OF assms] by (simp add: hold_def)
next
  case False
  show ?thesis unfolding hold_def if_not_P [OF False] by (rule runs_ok)
qed

lemma runs_saveDataTrie_none:
  assumes "tdtDirtyData (accTracker (obj A a)) = []"
  shows "runs env U (saveDataTrie env a) A (Inr ()) A"
proof -
  have "runs env U (SaveDirtyData env a) A (Inr []) A" unfolding SaveDirtyData_def
    using assms runs_ok by (intro runs_tryE [OF runs_getAcc]) simp
  then show ?thesis unfolding saveDataTrie_def by (rule runs_tryE) (simp add: runs_ok)
qed

lemma runs_saveDataTrie:
  assumes ok: "env_ok env U" and w: "absOk env U A" and o: "objOk env U A (obj A a)" and ne: "tdtDirtyData (accTracker (obj A a)) \<noteq> []"
    and at: "attachTrie a A = (r, m, A1)"
    and l: "loopSpec env (tdtIdentifier (accTracker (obj A a))) m (rangeDirty env (tdtDirtyData (accTracker (obj A a)))) = (os, as, m')"
  shows "runs env U (saveDataTrie env a) A (Inr ())
    (hold (uaAddress (accData (obj A a))) r (pushEntry (JournalEntryDataTrieUpdates (os @ as) a)
       (putObj a (setRoot (rootOf env m') (cleanAcc (obj A1 a))) (A1\<lparr>aD := (aD A1)(r \<mapsto> m')\<rparr>))))"
proof -
  let ?A2 = "pushEntry (JournalEntryDataTrieUpdates (os @ as) a) (putObj a (cleanAcc (obj A1 a)) (A1\<lparr>aD := (aD A1)(r \<mapsto> m')\<rparr>))"
  let ?A3 = "pushEntry (JournalEntryDataTrieUpdates (os @ as) a)
       (putObj a (setRoot (rootOf env m') (cleanAcc (obj A1 a))) (A1\<lparr>aD := (aD A1)(r \<mapsto> m')\<rparr>))"
  let ?k = "uaAddress (accData (obj A a))"
  note at' = attachTrie_props [OF w o at]
  have m: "datOk env U m" "tdtTr (accTracker (obj A1 a)) = Some r" "uaAddress (accData (obj A1 a)) = ?k"
    using at'(1) by (simp_all add: at'(6))
  have c: "tdtTr (accTracker (cleanAcc (obj A1 a))) = Some r" "uaAddress (accData (cleanAcc (obj A1 a))) = ?k"
    using m(2,3) by (simp_all add: cleanAcc_def)
  have dd: "dirtyOk env U (rangeDirty env (tdtDirtyData (accTracker (obj A a))))" "distinct (map fst (rangeDirty env (tdtDirtyData (accTracker (obj A a)))))"
    "rangeDirty env (tdtDirtyData (accTracker (obj A a))) \<noteq> []" using o rangeDirty [OF ok] ne by (auto simp: objOk_def)
  have os: "length (os @ as) \<noteq> 0" using loop_restore [OF ok m(1) dd(1,2) l] dd(3) by simp
  have d: "aD ?A2 r = Some m'" "obj ?A2 a = cleanAcc (obj A1 a)" "aD ?A3 r \<noteq> None" by (simp_all add: pushEntry_def)
  have "runs env U (SetRootHash a (rootOf env m')) ?A2 (Inr ()) ?A3"
    unfolding SetRootHash_def by (rule runs_eq [OF runs_modifyAcc]) (simp add: pushEntry_def setRoot_def)
  moreover have "runs env U (if map_of (dataTries (aK ?A3)) ?k = None then holderPut ?k r else ok ()) ?A3 (Inr ()) (hold ?k r ?A3)"
    by (rule runs_hold [OF d(3)])
  ultimately have "runs env U (tryE (onDataTrie r (RootHash (tEnv env))) (\<lambda>rootHash. tryE (SetRootHash a rootHash) (\<lambda>_.
      tryE (holderGet ?k) (\<lambda>held. if held = None then holderPut ?k r else ok ())))) ?A2 (Inr ()) (hold ?k r ?A3)"
    by (intro runs_tryE [OF runs_dataRoot [OF ok d(1)]], elim runs_tryE) (rule runs_tryE [OF runs_holderGet])
  then have "runs env U (case tdtTr (accTracker (obj ?A2 a)) of None \<Rightarrow> fail ErrNilTrie
      | Some tr \<Rightarrow> tryE (onDataTrie tr (RootHash (tEnv env))) (\<lambda>rootHash. tryE (SetRootHash a rootHash) (\<lambda>_.
          tryE (holderGet (uaAddress (accData (obj ?A2 a)))) (\<lambda>held. if held = None then holderPut (uaAddress (accData (obj ?A2 a))) tr else ok ()))))
      ?A2 (Inr ()) (hold ?k r ?A3)"
    unfolding d(2) c option.case .
  then show ?thesis unfolding saveDataTrie_def
    by (intro runs_tryE [OF runs_SaveDirtyData [OF ok o ne at l]], unfold if_not_P [OF os],
        intro runs_tryE [OF runs_journalize [of env U _ "putObj a (cleanAcc (obj A1 a)) (A1\<lparr>aD := (aD A1)(r \<mapsto> m')\<rparr>)", folded pushEntry_def]]
          runs_tryE [OF runs_getAcc])
qed

section \<open>The code of an account\<close>

definition dropRef :: "bytes \<Rightarrow> (bytes \<rightharpoonup> CodeEntry) \<Rightarrow> bytes \<rightharpoonup> CodeEntry" where
  "dropRef h Cod = (case Cod h of None \<Rightarrow> Cod
     | Some c \<Rightarrow> Cod(h := (if ceNumReferences c \<le> 1 then None else Some (c\<lparr>ceNumReferences := ceNumReferences c - 1\<rparr>))))"

definition addRef :: "bytes \<Rightarrow> bytes \<Rightarrow> (bytes \<rightharpoonup> CodeEntry) \<Rightarrow> bytes \<rightharpoonup> CodeEntry" where
  "addRef h code Cod = (let c = (case Cod h of None \<Rightarrow> \<lparr>ceCode = code, ceNumReferences = 0\<rparr> | Some c \<Rightarrow> c)
     in Cod(h \<mapsto> c\<lparr>ceNumReferences := ceNumReferences c + 1\<rparr>))"

definition newCodeHash :: "adbEnv \<Rightarrow> bytes \<Rightarrow> bytes" where
  "newCodeHash env code = (if code = [] then [] else hasherCompute env code)"

definition codeHashOk :: "adbEnv \<Rightarrow> bytes set \<Rightarrow> bytes \<Rightarrow> bool" where
  "codeHashOk env U h \<longleftrightarrow> h \<in> hasherCompute env ` U \<or> h = []"

lemma word_refs: "1 < (n :: u32) \<Longrightarrow> n - 1 \<noteq> 0" "(n :: u32) \<noteq> 0 \<Longrightarrow> n \<le> 1 \<longleftrightarrow> n = 1"
  by (unat_arith)+

lemma runs_updateOldCodeEntry:
  assumes ok: "env_ok env U" and h: "codeHashOk env U h"
  shows "runs env U (updateOldCodeEntry env h) A (Inr (aCod A h)) (A\<lparr>aCod := dropRef h (aCod A)\<rparr>)"
proof (rule runs_wf)
  assume w: "absOk env U A"
  show ?thesis unfolding updateOldCodeEntry_def
  proof (rule runs_tryE [OF runs_getCodeEntry [OF ok]])
    show "h \<in> hasherCompute env ` U \<or> h = []" using h by (simp add: codeHashOk_def)
    show "runs env U (case aCod A h of None \<Rightarrow> ok None
        | Some entry \<Rightarrow> if ceNumReferences entry \<le> 1 then tryE (mainDelete env h) (\<lambda>_. ok (Some entry))
          else tryE (saveCodeEntry env h (Some (entry\<lparr>ceNumReferences := ceNumReferences entry - 1\<rparr>))) (\<lambda>_. ok (Some entry)))
        A (Inr (aCod A h)) (A\<lparr>aCod := dropRef h (aCod A)\<rparr>)"
    proof (cases "aCod A h")
      case None
      then show ?thesis by (simp add: dropRef_def runs_ok)
    next
      case (Some c)
      then have h: "h \<in> hasherCompute env ` U" "h \<noteq> []" using wf_sel(2) [OF w] wf_apart(4) [OF ok w] by (auto simp: codsOk_def)
      show ?thesis
      proof (cases "ceNumReferences c \<le> 1")
        case True
        then show ?thesis using Some runs_tryE [OF runs_code_clear(2) [OF ok h(1)] runs_ok] by (simp add: dropRef_def)
      next
        case False
        then have "ceNumReferences (c\<lparr>ceNumReferences := ceNumReferences c - 1\<rparr>) \<noteq> 0" using word_refs(1) [of "ceNumReferences c"] by simp
        note save = runs_saveCodeEntry [OF ok h(1) this]
        show ?thesis using Some False runs_tryE [OF save runs_ok] by (simp add: dropRef_def)
      qed
    qed
  qed
qed

lemma runs_updateNewCodeEntry:
  assumes ok: "env_ok env U" and h: "h = newCodeHash env code" "code \<in> U"
    and n: "\<And>c. aCod A h = Some c \<Longrightarrow> ceNumReferences c + 1 \<noteq> 0"
  shows "runs env U (updateNewCodeEntry env h code) A (Inr ()) (if code = [] then A else A\<lparr>aCod := addRef h code (aCod A)\<rparr>)"
proof (cases "code = []")
  case True
  then show ?thesis by (simp add: updateNewCodeEntry_def runs_ok)
next
  case False
  then have h': "h \<in> hasherCompute env ` U" using h by (simp add: newCodeHash_def)
  let ?c = "case aCod A h of None \<Rightarrow> \<lparr>ceCode = code, ceNumReferences = 0\<rparr> | Some c \<Rightarrow> c"
  have "ceNumReferences (?c\<lparr>ceNumReferences := ceNumReferences ?c + 1\<rparr>) \<noteq> 0" using n by (cases "aCod A h") simp_all
  from runs_saveCodeEntry [OF ok h' this]
  have "runs env U (saveCodeEntry env h (Some (?c\<lparr>ceNumReferences := ceNumReferences ?c + 1\<rparr>))) A (Inr ()) (A\<lparr>aCod := addRef h code (aCod A)\<rparr>)"
    unfolding addRef_def Let_def .
  moreover have "length code \<noteq> 0" using False by simp
  ultimately show ?thesis unfolding updateNewCodeEntry_def Let_def if_not_P [OF False] if_not_P [OF \<open>length code \<noteq> 0\<close>]
    by (intro runs_tryE [OF runs_getCodeEntry [OF ok disjI1 [OF h']]])
qed

text \<open>The change of the code entries when the code of an account changes, and the journal entry for it.\<close>

definition changeCode :: "adbEnv \<Rightarrow> bytes \<Rightarrow> bytes \<Rightarrow> adbAbs \<Rightarrow> adbAbs" where
  "changeCode env oldHash code A =
     (let A1 = A\<lparr>aCod := dropRef oldHash (aCod A)\<rparr>;
          A2 = (if code = [] then A1 else A1\<lparr>aCod := addRef (newCodeHash env code) code (aCod A1)\<rparr>)
      in pushEntry (JournalEntryCode (aCod A oldHash) oldHash (newCodeHash env code)) A2)"

definition oldHashOf :: "userAccount option \<Rightarrow> bytes" where
  "oldHashOf old = (case old of None \<Rightarrow> [] | Some acc \<Rightarrow> uaCodeHash (accData acc))"

lemma dropRef_other: "h \<noteq> h' \<Longrightarrow> dropRef h Cod h' = Cod h'"
  by (simp add: dropRef_def split: option.splits)

lemma runs_saveCode_same:
  assumes "\<not> accHasNewCode (obj A a)"
  shows "runs env U (saveCode env a old) A (Inr ()) A"
  unfolding saveCode_def using assms by (intro runs_tryE [OF runs_getAcc]) (simp add: runs_ok)

lemma runs_saveCode:
  assumes ok: "env_ok env U" and new: "accHasNewCode (obj A a)" and old: "codeHashOk env U (oldHashOf old)" and code: "accCode (obj A a) \<in> U"
    and n: "\<And>c. aCod A (newCodeHash env (accCode (obj A a))) = Some c \<Longrightarrow> ceNumReferences c + 1 \<noteq> 0"
    and h: "h = newCodeHash env (accCode (obj A a))"
  shows "runs env U (saveCode env a old) A (Inr ())
    (putObj a (setCodeHash h (obj A a)) (if oldHashOf old = h then A else changeCode env (oldHashOf old) (accCode (obj A a)) A))"
proof -
  let ?code = "accCode (obj A a)" and ?o = "oldHashOf old"
  have set: "runs env U (SetCodeHash a h) B (Inr ()) (putObj a (setCodeHash h (obj A a)) B)" if "obj B a = obj A a" for B
    unfolding SetCodeHash_def by (rule runs_eq [OF runs_modifyAcc]) (simp add: setCodeHash_def that)
  have "runs env U (if ?o = h then SetCodeHash a h
      else tryE (updateOldCodeEntry env ?o) (\<lambda>unmodified. tryE (updateNewCodeEntry env h ?code) (\<lambda>_.
        tryE (journalize (JournalEntryCode unmodified ?o h)) (\<lambda>_. SetCodeHash a h)))) A (Inr ())
      (putObj a (setCodeHash h (obj A a)) (if ?o = h then A else changeCode env ?o ?code A))"
  proof (cases "?o = h")
    case True
    then show ?thesis using set [of A] by simp
  next
    case False
    let ?A1 = "A\<lparr>aCod := dropRef ?o (aCod A)\<rparr>"
    let ?A2 = "if ?code = [] then ?A1 else ?A1\<lparr>aCod := addRef h ?code (aCod ?A1)\<rparr>"
    have "runs env U (updateNewCodeEntry env h ?code) ?A1 (Inr ()) ?A2"
      using runs_updateNewCodeEntry [OF ok h code, of ?A1] n False h by (simp add: dropRef_other)
    moreover have "pushEntry (JournalEntryCode (aCod A ?o) ?o h) ?A2 = changeCode env ?o ?code A" by (simp add: changeCode_def h Let_def)
    moreover have "obj (changeCode env ?o ?code A) a = obj A a" by (simp add: changeCode_def Let_def pushEntry_def)
    ultimately show ?thesis unfolding if_not_P [OF False]
      by (intro runs_tryE [OF runs_updateOldCodeEntry [OF ok old]], elim runs_tryE)
        (rule runs_tryE [OF runs_journalize [folded pushEntry_def]], simp only: set)
  qed
  moreover have "(if length ?code \<noteq> 0 then hasherCompute env ?code else []) = h" by (simp add: h newCodeHash_def)
  ultimately show ?thesis unfolding saveCode_def Let_def oldHashOf_def [symmetric]
    by (intro runs_tryE [OF runs_getAcc]) (simp only: new not_True_eq_False if_False)
qed

end
