(* ===== verification/AccountsRevert.thy ===== *)
theory AccountsRevert
  imports AccountsSave
begin

text \<open>
  The journal undoes what was journalled. \<^verbatim>\<open>sim X A B\<close> says that the later state \<^verbatim>\<open>B\<close> stands where \<^verbatim>\<open>A\<close> stood, but for the accounts in
  \<^verbatim>\<open>X\<close>: the heaps may have grown, the accounts, the codes and the tries that \<^verbatim>\<open>A\<close> uses are the same. \<^verbatim>\<open>undoes\<close> says that reverting
  some entries leads back; it composes along the code of \<^verbatim>\<open>SaveAccount\<close> and \<^verbatim>\<open>RemoveAccount\<close>.
\<close>

section \<open>Growth\<close>

definition grow :: "adbAbs \<Rightarrow> adbAbs \<Rightarrow> bool" where
  "grow A B \<longleftrightarrow> nextTrie (aK A) \<le> nextTrie (aK B) \<and> nextAccount (aK A) \<le> nextAccount (aK B) \<and>
     (\<forall>a < nextAccount (aK A). uaAddress (accData (obj B a)) = uaAddress (accData (obj A a)) \<and>
        (\<forall>r. tdtTr (accTracker (obj A a)) = Some r \<longrightarrow> tdtTr (accTracker (obj B a)) = Some r)) \<and>
     map_of (dataTries (aK A)) \<subseteq>\<^sub>m map_of (dataTries (aK B)) \<and> dom (aD A) \<subseteq> dom (aD B) \<and>
     storage (aK B) = storage (aK A) \<and> lastRootHash (aK B) = lastRootHash (aK A) \<and>
     maxTrieLevelInMemory (mainTrie (aK B)) = maxTrieLevelInMemory (mainTrie (aK A))"

lemma grow_refl [simp]: "grow A A"
  by (simp add: grow_def)

lemma grow_trans:
  assumes "grow A B" and "grow B C"
  shows "grow A C"
proof -
  have "uaAddress (accData (obj C a)) = uaAddress (accData (obj A a)) \<and>
      (\<forall>r. tdtTr (accTracker (obj A a)) = Some r \<longrightarrow> tdtTr (accTracker (obj C a)) = Some r)" if "a < nextAccount (aK A)" for a
  proof -
    have "a < nextAccount (aK B)" using that assms(1) unfolding grow_def by linarith
    then show ?thesis using that assms unfolding grow_def by simp
  qed
  then show ?thesis using assms map_le_trans unfolding grow_def by (simp, blast)
qed

lemma grow_obj:
  assumes "grow A B" and "a < nextAccount (aK A)"
  shows "uaAddress (accData (obj B a)) = uaAddress (accData (obj A a))"
    "tdtTr (accTracker (obj A a)) = Some r \<Longrightarrow> tdtTr (accTracker (obj B a)) = Some r"
  using assms unfolding grow_def by simp_all

lemma grow_same:
  assumes "nextTrie (aK A) \<le> nextTrie (aK B)" "nextAccount (aK B) = nextAccount (aK A)" "accountHeap (aK B) = accountHeap (aK A)"
    "map_of (dataTries (aK A)) \<subseteq>\<^sub>m map_of (dataTries (aK B))" "dom (aD A) \<subseteq> dom (aD B)"
    "storage (aK B) = storage (aK A)" "lastRootHash (aK B) = lastRootHash (aK A)" "mainTrie (aK B) = mainTrie (aK A)"
  shows "grow A B"
  using assms by (simp add: grow_def)

lemma grow_putObj:
  assumes "uaAddress (accData acc) = uaAddress (accData (obj A a))"
    and "\<And>r. tdtTr (accTracker (obj A a)) = Some r \<Longrightarrow> tdtTr (accTracker acc) = Some r"
  shows "grow A (putObj a acc A)"
  using assms by (simp add: grow_def)

lemma grow_aAcc: "grow A (A\<lparr>aAcc := f\<rparr>)" and grow_aCod: "grow A (A\<lparr>aCod := g\<rparr>)"
  by (simp_all add: grow_def)

lemma grow_aD: "grow A (A\<lparr>aD := (aD A)(r \<mapsto> m)\<rparr>)"
  by (auto simp: grow_def)

lemma pushEntry_sel [simp]:
  "aAcc (pushEntry e A) = aAcc A" "aCod (pushEntry e A) = aCod A" "aD (pushEntry e A) = aD A"
  "entries (aK (pushEntry e A)) = entries (aK A) @ [e]" "obj (pushEntry e A) = obj A"
  "nextTrie (aK (pushEntry e A)) = nextTrie (aK A)" "nextAccount (aK (pushEntry e A)) = nextAccount (aK A)"
  "dataTries (aK (pushEntry e A)) = dataTries (aK A)" "storage (aK (pushEntry e A)) = storage (aK A)"
  "lastRootHash (aK (pushEntry e A)) = lastRootHash (aK A)" "mainTrie (aK (pushEntry e A)) = mainTrie (aK A)"
  by (simp_all add: pushEntry_def)

lemma hold_sel [simp]:
  "aAcc (hold k r A) = aAcc A" "aCod (hold k r A) = aCod A" "aD (hold k r A) = aD A"
  "entries (aK (hold k r A)) = entries (aK A)" "obj (hold k r A) = obj A"
  "nextTrie (aK (hold k r A)) = nextTrie (aK A)" "nextAccount (aK (hold k r A)) = nextAccount (aK A)"
  "storage (aK (hold k r A)) = storage (aK A)"
  "lastRootHash (aK (hold k r A)) = lastRootHash (aK A)" "mainTrie (aK (hold k r A)) = mainTrie (aK A)"
  by (simp_all add: hold_def)

lemma map_of_hold: "map_of (dataTries (aK A)) \<subseteq>\<^sub>m map_of (dataTries (aK (hold k r A)))"
  by (auto simp: hold_def map_of_setEntry map_le_def)

lemma grow_pushEntry: "grow A (pushEntry e A)"
  by (rule grow_same) simp_all

lemma grow_hold: "grow A (hold k r A)"
  by (rule grow_same) (simp_all add: map_of_hold)

section \<open>Undoing\<close>

definition sim :: "bytes set \<Rightarrow> adbAbs \<Rightarrow> adbAbs \<Rightarrow> bool" where
  "sim X A B \<longleftrightarrow> grow A B \<and> (\<forall>k. k \<notin> X \<longrightarrow> aAcc B k = aAcc A k) \<and> aCod B = aCod A \<and> (\<forall>r m. aD A r = Some m \<longrightarrow> aD B r = Some m)"

lemma simD:
  assumes "sim X A B"
  shows "grow A B" "k \<notin> X \<Longrightarrow> aAcc B k = aAcc A k" "aCod B = aCod A" "aD A r = Some m \<Longrightarrow> aD B r = Some m"
  using assms unfolding sim_def by simp_all

lemma sim_refl [simp]: "sim X A A"
  by (simp add: sim_def)

lemma sim_trans: "sim X A B \<Longrightarrow> sim X B C \<Longrightarrow> sim X A C"
  unfolding sim_def using grow_trans by auto

definition undoes ::
  "adbEnv \<Rightarrow> bytes set \<Rightarrow> bytes set \<Rightarrow> bytes set \<Rightarrow> journalEntry list \<Rightarrow> adbAbs \<Rightarrow> adbAbs \<Rightarrow> bool" where
  "undoes env U X Y es A A' \<longleftrightarrow> grow A A' \<and> entries (aK A') = entries (aK A) @ es \<and>
     (\<forall>B. sim Y A' B \<longrightarrow> (\<exists>B'. runs env U (revertLoop env (rev es)) B (Inr ()) B' \<and> sim X A B' \<and> grow B B' \<and>
        entries (aK B') = entries (aK B)))"

lemma revertLoop_append: "run_state (revertLoop env (xs @ ys)) s = run_state (tryE (revertLoop env xs) (\<lambda>_. revertLoop env ys)) s"
  by (induction xs arbitrary: s) (auto simp: ok_def split: prod.splits sum.splits)

lemma runs_revertLoop_append:
  "runs env U (revertLoop env xs) A (Inr ()) A' \<Longrightarrow> runs env U (revertLoop env ys) A' r A'' \<Longrightarrow> runs env U (revertLoop env (xs @ ys)) A r A''"
  using runs_tryE [of env U "revertLoop env xs" A "()" A' "\<lambda>_. revertLoop env ys"] unfolding runs_def revertLoop_append by blast

lemma undoes_trans:
  assumes "undoes env U X Y es A A'" and "undoes env U Y Z es' A' A''"
  shows "undoes env U X Z (es @ es') A A''"
  unfolding undoes_def
proof (intro conjI allI impI)
  show "grow A A''" "entries (aK A'') = entries (aK A) @ es @ es'" using assms grow_trans by (auto simp: undoes_def)
  fix B
  assume "sim Z A'' B"
  then obtain B1 where B1: "runs env U (revertLoop env (rev es')) B (Inr ()) B1" "sim Y A' B1" "grow B B1" "entries (aK B1) = entries (aK B)"
    using assms(2) unfolding undoes_def by blast
  then obtain B2 where "runs env U (revertLoop env (rev es)) B1 (Inr ()) B2" "sim X A B2" "grow B1 B2" "entries (aK B2) = entries (aK B1)"
    using assms(1) unfolding undoes_def by blast
  then show "\<exists>B'. runs env U (revertLoop env (rev (es @ es'))) B (Inr ()) B' \<and> sim X A B' \<and> grow B B' \<and> entries (aK B') = entries (aK B)"
    using runs_revertLoop_append [OF B1(1)] grow_trans [OF B1(3)] B1(4) by (metis rev_append)
qed

text \<open>Fewer tries need to be restored.\<close>

lemma undoes_weaken:
  assumes u: "undoes env U X Y es A A'" and w: "aK B = aK A" "aAcc B = aAcc A" "aCod B = aCod A" "aD B \<subseteq>\<^sub>m aD A"
  shows "undoes env U X Y es B A'"
proof -
  have g: "grow B C" if "grow A C" for C
  proof -
    have "dom (aD B) \<subseteq> dom (aD C)" using map_le_implies_dom_le [OF w(4)] that unfolding grow_def by (meson order_trans)
    then show ?thesis using that by (simp add: grow_def w(1))
  qed
  have s: "sim X B C" if "sim X A C" for C
  proof -
    have "aD C r = Some m" if "aD B r = Some m" for r m using that \<open>sim X A C\<close> w(4) by (metis domI map_le_def simD(4))
    then show ?thesis using that g by (simp add: sim_def w(2,3))
  qed
  show ?thesis unfolding undoes_def
  proof (intro conjI allI impI)
    show "grow B A'" "entries (aK A') = entries (aK B) @ es" using u g by (simp_all add: undoes_def w(1))
    fix C
    assume "sim Y A' C"
    then obtain C' where "runs env U (revertLoop env (rev es)) C (Inr ()) C'" "sim X A C'" "grow C C'" "entries (aK C') = entries (aK C)"
      using u unfolding undoes_def by blast
    then show "\<exists>C'. runs env U (revertLoop env (rev es)) C (Inr ()) C' \<and> sim X B C' \<and> grow C C' \<and> entries (aK C') = entries (aK C)"
      using s by blast
  qed
qed

lemma undoes_none:
  assumes "grow A A'" and "entries (aK A') = entries (aK A)" and "\<And>B. sim Y A' B \<Longrightarrow> sim X A B"
  shows "undoes env U X Y [] A A'"
  using assms runs_ok unfolding undoes_def by fastforce

lemma undoes_one:
  assumes g: "grow A A'" and e: "entries (aK A') = entries (aK A) @ [e]"
    and r: "\<And>B. sim Y A' B \<Longrightarrow> \<exists>acc B1 B'. runs env U (Revert env e) B (Inr acc) B1 \<and>
      runs env U (case acc of None \<Rightarrow> ok () | Some acc \<Rightarrow> saveAccountToTrie env acc) B1 (Inr ()) B' \<and>
      sim X A B' \<and> grow B B' \<and> entries (aK B') = entries (aK B)"
  shows "undoes env U X Y [e] A A'"
proof -
  have "\<exists>B'. runs env U (revertLoop env (rev [e])) B (Inr ()) B' \<and> sim X A B' \<and> grow B B' \<and> entries (aK B') = entries (aK B)" if s: "sim Y A' B" for B
  proof -
    obtain acc B1 B' where *: "runs env U (Revert env e) B (Inr acc) B1"
      "runs env U (case acc of None \<Rightarrow> ok () | Some acc \<Rightarrow> saveAccountToTrie env acc) B1 (Inr ()) B'"
      and B': "sim X A B'" "grow B B'" "entries (aK B') = entries (aK B)" using r [OF s] by blast
    have "runs env U (revertLoop env [e]) B (Inr ()) B'"
      unfolding revertLoop.simps by (rule runs_tryE [OF *(1)], rule runs_tryE [OF *(2)], rule runs_ok)
    then show ?thesis using B' by auto
  qed
  then show ?thesis using g e by (simp add: undoes_def)
qed

section \<open>The entries\<close>

text \<open>The entry for the account: reverting it puts the old account back, or removes it.\<close>

definition accountEntry :: "bytes \<Rightarrow> adbAbs \<Rightarrow> journalEntry" where
  "accountEntry k A = (case aAcc A k of None \<Rightarrow> JournalEntryAccountCreation k | Some d \<Rightarrow> JournalEntryAccount (freshAcc k d))"

lemma undoes_account:
  assumes ok: "env_ok env U" and w: "accsOk U (aAcc A)" and k: "k \<in> U"
  shows "undoes env U {} {k} [accountEntry k A] A (pushEntry (accountEntry k A) A)"
proof (rule undoes_one [OF grow_pushEntry])
  fix B
  assume s: "sim {k} (pushEntry (accountEntry k A) A) B"
  let ?B = "B\<lparr>aAcc := (aAcc B)(k := aAcc A k)\<rparr>"
  have sim: "sim {} A ?B" using grow_trans [OF grow_pushEntry simD(1) [OF s]] grow_trans [OF _ grow_aAcc] simD(2-) [OF s] by (auto simp: sim_def)
  show "\<exists>acc B1 B'. runs env U (Revert env (accountEntry k A)) B (Inr acc) B1 \<and>
      runs env U (case acc of None \<Rightarrow> ok () | Some acc \<Rightarrow> saveAccountToTrie env acc) B1 (Inr ()) B' \<and>
      sim {} A B' \<and> grow B B' \<and> entries (aK B') = entries (aK B)"
  proof (cases "aAcc A k")
    case None
    then have "runs env U (Revert env (accountEntry k A)) B (Inr None) ?B"
      using runs_tryE [OF runs_account_clear(1) [OF ok k] runs_ok] by (simp add: accountEntry_def)
    then show ?thesis using sim grow_aAcc runs_ok by fastforce
  next
    case (Some d)
    then have d: "uaAddress d = k" "k \<noteq> []" using w by (auto simp: accsOk_def)
    have "runs env U (Revert env (accountEntry k A)) B (Inr (Some (freshAcc k d))) B"
      using Some by (simp add: accountEntry_def runs_ok)
    moreover have "runs env U (saveAccountToTrie env (freshAcc k d)) B (Inr ()) ?B"
      using runs_saveAccountToTrie [OF ok, of "freshAcc k d" B] d k Some by (simp add: freshAcc_def)
    ultimately show ?thesis using sim grow_aAcc by fastforce
  qed
qed simp

lemma undoes_write:
  "undoes env U {k} {} [] A (A\<lparr>aAcc := (aAcc A)(k := x)\<rparr>)"
proof (rule undoes_none [OF grow_aAcc])
  fix B
  assume s: "sim {} (A\<lparr>aAcc := (aAcc A)(k := x)\<rparr>) B"
  show "sim {k} A B" using grow_trans [OF grow_aAcc simD(1) [OF s]] simD(2-) [OF s] by (simp add: sim_def)
qed simp

text \<open>The entry for the data trie: reverting it writes the old values back to the trie that the object holds, and the object to
  the main trie.\<close>

lemma undoes_data:
  assumes ok: "env_ok env U" and k: "uaAddress (accData (obj A' a)) = k" "k \<in> U" "k \<noteq> []"
    and a: "a < nextAccount (aK A')" "tdtTr (accTracker (obj A' a)) = Some r" and d: "aD A' r = Some m'"
    and us: "fold undoOne us m' = m" "\<forall>u\<in>set us. undoOk env U u"
    and A: "grow A A'" "entries (aK A') = entries (aK A) @ [JournalEntryDataTrieUpdates us a]" "aAcc A' = aAcc A" "aCod A' = aCod A"
      "aD A r = None \<or> aD A r = Some m" "\<And>q. q \<noteq> r \<Longrightarrow> aD A q = aD A' q \<or> aD A q = None"
  shows "undoes env U {k} {k} [JournalEntryDataTrieUpdates us a] A A'"
proof (rule undoes_one [OF A(1,2)])
  fix B
  assume s: "sim {k} A' B"
  have B: "uaAddress (accData (obj B a)) = k" "tdtTr (accTracker (obj B a)) = Some r" "aD B r = Some m'"
    using grow_obj [OF simD(1) [OF s] a(1)] k(1) a(2) simD(4) [OF s d] by simp_all
  let ?B1 = "B\<lparr>aD := (aD B)(r \<mapsto> m)\<rparr>" and ?acc = "setRoot (rootOf env m) (obj B a)"
  let ?B2 = "putObj a ?acc ?B1"
  let ?B3 = "?B2\<lparr>aAcc := (aAcc B)(k \<mapsto> accData ?acc)\<rparr>"
  have "runs env U (revertTrieUpdates env r us) B (Inr ()) ?B1" using runs_revertTrieUpdates [OF ok B(3) us(2)] us(1) by simp
  moreover have "runs env U (onDataTrie r (RootHash (tEnv env))) ?B1 (Inr (rootOf env m)) ?B1" by (rule runs_dataRoot [OF ok]) simp
  moreover have "runs env U (SetRootHash a (rootOf env m)) ?B1 (Inr ()) ?B2"
    unfolding SetRootHash_def by (rule runs_eq [OF runs_modifyAcc]) (simp add: setRoot_def)
  moreover have "runs env U (tryE (getAcc a) (\<lambda>acc. ok (Some acc))) ?B2 (Inr (Some ?acc)) ?B2"
    using runs_tryE [OF runs_getAcc [of env U a ?B2] runs_ok] by simp
  ultimately have "runs env U (tryE (revertTrieUpdates env r us) (\<lambda>_. tryE (onDataTrie r (RootHash (tEnv env))) (\<lambda>rootHash.
      tryE (SetRootHash a rootHash) (\<lambda>_. tryE (getAcc a) (\<lambda>acc. ok (Some acc)))))) B (Inr (Some ?acc)) ?B2"
    by (elim runs_tryE)
  then have "runs env U (Revert env (JournalEntryDataTrieUpdates us a)) B (Inr (Some ?acc)) ?B2"
    unfolding Revert.simps using B(2) by (intro runs_tryE [OF runs_getAcc]) simp
  moreover have "runs env U (saveAccountToTrie env ?acc) ?B2 (Inr ()) ?B3"
    using runs_saveAccountToTrie [OF ok, of ?acc ?B2] B(1) k by (simp add: setRoot_def)
  moreover have g: "grow B ?B3"
  proof -
    have "grow ?B1 ?B2" by (rule grow_putObj) (simp_all add: setRoot_def)
    then show ?thesis using grow_trans [OF grow_aD] grow_trans [OF _ grow_aAcc] by blast
  qed
  moreover have "sim {k} A ?B3"
  proof -
    have "aD ?B3 q = Some x" if "aD A q = Some x" for q x
      using that A(5) A(6) [of q] simD(4) [OF s, of q x] by (cases "q = r") auto
    then show ?thesis using grow_trans [OF A(1) grow_trans [OF simD(1) [OF s] g]] simD(2,3) [OF s] A(3,4) by (simp add: sim_def)
  qed
  ultimately show "\<exists>acc B1 B'. runs env U (Revert env (JournalEntryDataTrieUpdates us a)) B (Inr acc) B1 \<and>
      runs env U (case acc of None \<Rightarrow> ok () | Some acc \<Rightarrow> saveAccountToTrie env acc) B1 (Inr ()) B' \<and>
      sim {k} A B' \<and> grow B B' \<and> entries (aK B') = entries (aK B)"
    by (intro exI [of _ "Some ?acc"] exI [of _ ?B2] exI [of _ ?B3]) simp
qed

text \<open>The entry for the code: reverting it puts the old code entry back and takes the reference to the new one away.\<close>

lemma runs_revertNewCodeEntry:
  assumes ok: "env_ok env U" and h: "codeHashOk env U h"
  shows "runs env U (revertNewCodeEntry env h) A (Inr ()) (A\<lparr>aCod := dropRef h (aCod A)\<rparr>)"
proof (rule runs_wf)
  assume w: "absOk env U A"
  show ?thesis unfolding revertNewCodeEntry_def
  proof (rule runs_tryE [OF runs_getCodeEntry [OF ok]])
    show "h \<in> hasherCompute env ` U \<or> h = []" using h by (simp add: codeHashOk_def)
    show "runs env U (case aCod A h of None \<Rightarrow> ok ()
        | Some entry \<Rightarrow> if ceNumReferences entry \<le> 1 then mainUpdate env h []
          else saveCodeEntry env h (Some (entry\<lparr>ceNumReferences := ceNumReferences entry - 1\<rparr>))) A (Inr ()) (A\<lparr>aCod := dropRef h (aCod A)\<rparr>)"
    proof (cases "aCod A h")
      case None
      then show ?thesis by (simp add: dropRef_def runs_ok)
    next
      case (Some c)
      then have h: "h \<in> hasherCompute env ` U" "h \<noteq> []" using wf_sel(2) [OF w] wf_apart(4) [OF ok w] by (auto simp: codsOk_def)
      show ?thesis
      proof (cases "ceNumReferences c \<le> 1")
        case True
        then show ?thesis using Some runs_code_clear(1) [OF ok h(1)] by (simp add: dropRef_def)
      next
        case False
        then have "ceNumReferences (c\<lparr>ceNumReferences := ceNumReferences c - 1\<rparr>) \<noteq> 0" using word_refs(1) [of "ceNumReferences c"] by simp
        note save = runs_saveCodeEntry [OF ok h(1) this]
        show ?thesis using Some False save by (simp add: dropRef_def)
      qed
    qed
  qed
qed

lemma word_ref_up: "(n :: u32) \<noteq> 0 \<Longrightarrow> n + 1 \<noteq> 0 \<Longrightarrow> \<not> n + 1 \<le> 1"
  by unat_arith

lemma dropRef_none: "Cod h = None \<Longrightarrow> dropRef h Cod = Cod"
  by (simp add: dropRef_def)

lemma dropRef_addRef:
  assumes "\<And>c. Cod h = Some c \<Longrightarrow> ceNumReferences c \<noteq> 0 \<and> ceNumReferences c + 1 \<noteq> 0"
  shows "dropRef h (addRef h code Cod) = Cod"
  using assms word_ref_up by (cases "Cod h") (auto simp: dropRef_def addRef_def Let_def fun_upd_idem)

lemma addRef_upd: "h \<noteq> h' \<Longrightarrow> (addRef h code Cod)(h' := x) = addRef h code (Cod(h' := x))"
  by (simp add: addRef_def Let_def fun_upd_twist)

lemma dropRef_restore: "Cod h = Some c \<Longrightarrow> (dropRef h Cod)(h \<mapsto> c) = Cod"
  by (auto simp: dropRef_def fun_upd_idem)

lemma undoes_code:
  assumes ok: "env_ok env U" and w: "absOk env U A" and code: "code \<in> U \<or> code = []" and ne: "old \<noteq> newCodeHash env code"
    and old: "old = [] \<or> aCod A old \<noteq> None"
    and n: "\<And>c. aCod A (newCodeHash env code) = Some c \<Longrightarrow> ceNumReferences c + 1 \<noteq> 0"
  shows "undoes env U X X [JournalEntryCode (aCod A old) old (newCodeHash env code)] A (changeCode env old code A)"
proof (rule undoes_one)
  let ?new = "newCodeHash env code" and ?C = "aCod A" and ?A' = "changeCode env old code A"
  show g: "grow A ?A'" and "entries (aK ?A') = entries (aK A) @ [JournalEntryCode (?C old) old ?new]"
    by (simp_all add: changeCode_def Let_def grow_def)
  have new: "codeHashOk env U ?new" using code by (auto simp: codeHashOk_def newCodeHash_def)
  have C': "aCod ?A' = (if code = [] then dropRef old ?C else addRef ?new code (dropRef old ?C))" by (simp add: changeCode_def Let_def)
  have nz: "ceNumReferences c \<noteq> 0" if "?C h = Some c" for h c using that wf_sel(2) [OF w] by (auto simp: codsOk_def)
  have up: "dropRef ?new (addRef ?new code ?C) = ?C" using nz n by (intro dropRef_addRef) blast
  have emp: "?C [] = None" by (rule wf_apart(4) [OF ok w])
  have restore: "dropRef ?new (if old = [] then aCod ?A' else (aCod ?A')(old := ?C old)) = ?C"
  proof (cases "old = []")
    case True
    then show ?thesis unfolding C' using up emp ne by (cases "code = []") (simp_all add: dropRef_none newCodeHash_def)
  next
    case False
    then obtain c where c: "?C old = Some c" using old by auto
    show ?thesis unfolding C' using False up c ne emp by (cases "code = []") (simp_all add: addRef_upd dropRef_restore newCodeHash_def dropRef_none)
  qed
  fix B
  assume s: "sim X ?A' B"
  let ?B1 = "if old = [] then B else B\<lparr>aCod := (aCod B)(old := ?C old)\<rparr>"
  let ?B2 = "?B1\<lparr>aCod := dropRef ?new (aCod ?B1)\<rparr>"
  have "runs env U (revertOldCodeEntry env (?C old) old) B (Inr ()) ?B1"
  proof (cases "old = []")
    case True
    then show ?thesis by (simp add: revertOldCodeEntry_def runs_ok)
  next
    case False
    then obtain c where c: "?C old = Some c" using old by auto
    then have "old \<in> hasherCompute env ` U" using wf_sel(2) [OF w] by (auto simp: codsOk_def)
    from runs_saveCodeEntry [OF ok this nz [OF c]] False c show ?thesis by (simp add: revertOldCodeEntry_def)
  qed
  from runs_tryE [OF this runs_tryE [OF runs_revertNewCodeEntry [OF ok new] runs_ok [of env U None]]]
  have "runs env U (Revert env (JournalEntryCode (?C old) old ?new)) B (Inr None) ?B2" unfolding Revert.simps if_not_P [OF ne] .
  moreover have g2: "grow B ?B2" by (simp add: grow_def)
  moreover have "aCod ?B2 = ?C" using simD(3) [OF s] restore by (cases "old = []") simp_all
  moreover have "aAcc ?B2 = aAcc B" "aD ?B2 = aD B" "aAcc ?A' = aAcc A" "aD ?A' = aD A" by (simp_all add: changeCode_def Let_def)
  ultimately show "\<exists>acc B1 B'. runs env U (Revert env (JournalEntryCode (?C old) old ?new)) B (Inr acc) B1 \<and>
      runs env U (case acc of None \<Rightarrow> ok () | Some acc \<Rightarrow> saveAccountToTrie env acc) B1 (Inr ()) B' \<and>
      sim X A B' \<and> grow B B' \<and> entries (aK B') = entries (aK B)"
    using grow_trans [OF g grow_trans [OF simD(1) [OF s] g2]] simD(2,4) [OF s] runs_ok
    by (intro exI [of _ None] exI [of _ ?B2]) (simp add: sim_def)
qed

end
