(* ===== verification/AccountsOps.thy ===== *)
theory AccountsOps
  imports AccountsRevert
begin

text \<open>
  \<^verbatim>\<open>SaveAccount\<close> and \<^verbatim>\<open>RemoveAccount\<close> as a whole: their effect on accounts, codes and tries, that the journal undoes
  them, and the invariant on the references to code entries.
\<close>

section \<open>References to codes\<close>

definition codeAt :: "(bytes \<rightharpoonup> UserAccountData) \<Rightarrow> bytes \<Rightarrow> bytes" where
  "codeAt Acc k = (case Acc k of None \<Rightarrow> [] | Some d \<Rightarrow> uaCodeHash d)"

definition refCount :: "(bytes \<rightharpoonup> CodeEntry) \<Rightarrow> bytes \<Rightarrow> nat" where
  "refCount Cod h = (case Cod h of None \<Rightarrow> 0 | Some c \<Rightarrow> unat (ceNumReferences c))"

text \<open>The counter of a code entry is the number of accounts with that code, and the entry holds the code of its hash.\<close>

definition refsOk :: "adbEnv \<Rightarrow> bytes set \<Rightarrow> (bytes \<rightharpoonup> UserAccountData) \<Rightarrow> (bytes \<rightharpoonup> CodeEntry) \<Rightarrow> bool" where
  "refsOk env U Acc Cod \<longleftrightarrow> (\<forall>h. h \<noteq> [] \<longrightarrow> refCount Cod h = card {k. codeAt Acc k = h}) \<and>
     (\<forall>h c. Cod h = Some c \<longrightarrow> ceCode c \<in> U \<and> ceCode c \<noteq> [] \<and> hasherCompute env (ceCode c) = h)"

lemma codeAt_upd: "codeAt (Acc(k := x)) k' = (if k' = k then case x of None \<Rightarrow> [] | Some d \<Rightarrow> uaCodeHash d else codeAt Acc k')"
  by (simp add: codeAt_def)

lemma holders_sub: "h \<noteq> [] \<Longrightarrow> {k. codeAt Acc k = h} \<subseteq> dom Acc"
  by (auto simp: codeAt_def split: option.splits)

lemma accsOk_dom: "accsOk U Acc \<Longrightarrow> dom Acc \<subseteq> U"
  by (auto simp: accsOk_def)

lemma holders_finite: "finite U \<Longrightarrow> accsOk U Acc \<Longrightarrow> h \<noteq> [] \<Longrightarrow> finite {k. codeAt Acc k = h}"
  using holders_sub accsOk_dom by (metis finite_subset)

lemma refCount_drop:
  assumes "\<And>c. Cod h = Some c \<Longrightarrow> ceNumReferences c \<noteq> 0"
  shows "refCount (dropRef h Cod) h' = (if h' = h then refCount Cod h - 1 else refCount Cod h')"
proof (cases "Cod h")
  case (Some c)
  have "unat (ceNumReferences c - 1) = unat (ceNumReferences c) - 1" if "ceNumReferences c \<noteq> 0" using that by (simp add: unat_minus_one)
  moreover have "ceNumReferences c \<le> 1 \<Longrightarrow> unat (ceNumReferences c) \<le> 1" by (simp add: word_le_nat_alt)
  ultimately show ?thesis using Some assms by (auto simp: dropRef_def refCount_def)
qed (simp add: dropRef_none refCount_def)

lemma refCount_add:
  assumes "\<And>c. Cod h = Some c \<Longrightarrow> ceNumReferences c + 1 \<noteq> 0"
  shows "refCount (addRef h code Cod) h' = (if h' = h then refCount Cod h + 1 else refCount Cod h')"
proof (cases "Cod h")
  case (Some c)
  then have "unat (ceNumReferences c + 1) = unat (ceNumReferences c) + 1" using assms [OF Some] by (metis Suc_eq_plus1 unatSuc add.commute)
  then show ?thesis using Some by (auto simp: addRef_def refCount_def Let_def)
qed (auto simp: addRef_def refCount_def Let_def)

lemma refs_code:
  assumes r: "refsOk env U Acc Cod" and f: "finite U" "accsOk U Acc" and h: "codeAt Acc k \<noteq> []"
  shows "\<exists>c. Cod (codeAt Acc k) = Some c"
proof -
  have "finite {k'. codeAt Acc k' = codeAt Acc k}" by (rule holders_finite [OF f h])
  then have "card {k'. codeAt Acc k' = codeAt Acc k} \<noteq> 0" by auto
  then have "refCount Cod (codeAt Acc k) \<noteq> 0" using r h unfolding refsOk_def by metis
  then show ?thesis by (auto simp: refCount_def split: option.splits)
qed

lemma refs_hash:
  assumes "refsOk env U Acc Cod" and "finite U" "accsOk U Acc"
  shows "codeHashOk env U (codeAt Acc k)"
proof (cases "codeAt Acc k = []")
  case False
  then obtain c where "Cod (codeAt Acc k) = Some c" using refs_code [OF assms] by blast
  then have "ceCode c \<in> U" "hasherCompute env (ceCode c) = codeAt Acc k" using assms(1) by (simp_all add: refsOk_def)
  then show ?thesis unfolding codeHashOk_def by (metis image_eqI)
qed (simp add: codeHashOk_def)

text \<open>There are fewer accounts than the counter can count.\<close>

lemma refs_room:
  assumes ok: "env_ok env U" and r: "refsOk env U Acc Cod" and a: "accsOk U Acc" and k: "k \<in> U"
    and h: "codeAt Acc k \<noteq> h" "h \<noteq> []" and c: "Cod h = Some c"
  shows "ceNumReferences c + 1 \<noteq> 0"
proof
  assume "ceNumReferences c + 1 = 0"
  then have "ceNumReferences c = - 1" by (simp add: add_eq_0_iff2)
  then have "unat (ceNumReferences c) = 2 ^ 32 - 1" by (simp add: unsigned_minus_1_eq_mask mask_eq_exp_minus_1)
  then have "card {k. codeAt Acc k = h} = 2 ^ 32 - 1" using r c h(2) unfolding refsOk_def refCount_def by fastforce
  moreover have "{k. codeAt Acc k = h} \<subseteq> U - {k}" using holders_sub [OF h(2)] accsOk_dom [OF a] h(1) by blast
  then have "card {k. codeAt Acc k = h} \<le> card U - 1" using card_mono [of "U - {k}"] env_okD(2) [OF ok] k by (simp add: card_Diff_singleton)
  moreover have "card U < 2 ^ 32" "card U > 0" using env_okD(2,3) [OF ok] k by (auto simp: card_gt_0_iff)
  ultimately show False by linarith
qed

lemma refs_same:
  assumes "refsOk env U Acc Cod" and "codeAt Acc k = (case x of None \<Rightarrow> [] | Some d \<Rightarrow> uaCodeHash d)"
  shows "refsOk env U (Acc(k := x)) Cod"
proof -
  have "codeAt (Acc(k := x)) = codeAt Acc" using assms(2) by (simp add: fun_eq_iff codeAt_upd)
  then show ?thesis using assms(1) by (simp add: refsOk_def)
qed

lemma card_codeAt:
  assumes f: "finite {k. codeAt Acc k = h}"
  shows "card {y. codeAt (Acc(k := x)) y = h} =
    card {y. codeAt Acc y = h} - (if codeAt Acc k = h then 1 else 0) + (if (case x of None \<Rightarrow> [] | Some d \<Rightarrow> uaCodeHash d) = h then 1 else 0)"
proof -
  let ?p = "(case x of None \<Rightarrow> [] | Some d \<Rightarrow> uaCodeHash d) = h" and ?S = "{y. codeAt Acc y = h}"
  have "{y. codeAt (Acc(k := x)) y = h} = (if ?p then insert k (?S - {k}) else ?S - {k})" by (auto simp: codeAt_upd)
  moreover have "card (?S - {k}) = card ?S - (if codeAt Acc k = h then 1 else 0)" using f by simp
  moreover have "card (insert k (?S - {k})) = Suc (card (?S - {k}))" by (rule card_insert_disjoint) (use f in auto)
  ultimately show ?thesis by (simp del: insert_Diff_single)
qed

lemma refs_change:
  assumes ok: "env_ok env U" and r: "refsOk env U Acc Cod" and a: "accsOk U Acc" and cs: "codsOk env U Cod" and k: "k \<in> U"
    and code: "code \<in> U \<or> code = []" and old: "old = codeAt Acc k" and new: "new = newCodeHash env code" "old \<noteq> new"
    and x: "(case x of None \<Rightarrow> [] | Some d \<Rightarrow> uaCodeHash d) = new"
  shows "refsOk env U (Acc(k := x)) (if code = [] then dropRef old Cod else addRef new code (dropRef old Cod))"
    (is "refsOk env U _ ?Cod")
proof -
  have nz: "Cod h = Some c \<Longrightarrow> ceNumReferences c \<noteq> 0" for h c using cs by (auto simp: codsOk_def)
  have room: "ceNumReferences c + 1 \<noteq> 0" if "new \<noteq> []" "dropRef old Cod new = Some c" for c
    using that refs_room [OF ok r a k _ that(1)] dropRef_other [OF new(2)] old new(2) by auto
  have count: "refCount ?Cod h = refCount Cod h - (if h = old then 1 else 0) + (if h = new then 1 else 0)" if "h \<noteq> []" for h
  proof (cases "code = []")
    case True
    then show ?thesis using that refCount_drop [of Cod old h] nz new by (auto simp: newCodeHash_def)
  next
    case False
    then have "new \<noteq> []" using new(1) env_okD(11) [OF ok] code by (simp add: newCodeHash_def)
    then show ?thesis using False refCount_add [of "dropRef old Cod" new code h] room refCount_drop [of Cod old] nz new(2) by auto
  qed
  have "refCount ?Cod h = card {y. codeAt (Acc(k := x)) y = h}" if "h \<noteq> []" for h
    using card_codeAt [OF holders_finite [OF env_okD(2) [OF ok] a that], of k x] count [OF that] r that old x
    by (auto simp: refsOk_def)
  moreover have "ceCode c \<in> U \<and> ceCode c \<noteq> [] \<and> hasherCompute env (ceCode c) = h" if "?Cod h = Some c" for h c
  proof -
    have d: "ceCode c \<in> U \<and> ceCode c \<noteq> [] \<and> hasherCompute env (ceCode c) = h" if "dropRef old Cod h = Some c" for h c
      using that r unfolding refsOk_def dropRef_def by (auto split: option.splits if_splits)
    show ?thesis using that d code new(1)
      by (auto simp: addRef_def Let_def newCodeHash_def split: if_splits option.splits)
  qed
  ultimately show ?thesis by (simp add: refsOk_def)
qed

section \<open>Saving\<close>

text \<open>What saving the data does to the object, its trie and the holder.\<close>

definition savedData :: "adbEnv \<Rightarrow> nat \<Rightarrow> adbAbs \<Rightarrow> adbAbs \<Rightarrow> bool" where
  "savedData env a A A' \<longleftrightarrow>
     (let acc = obj A a; k = uaAddress (accData acc); dd = tdtDirtyData (accTracker acc) in
      if dd = [] then aD A' = aD A \<and> accountHeap (aK A') = accountHeap (aK A) \<and> map_of (dataTries (aK A')) = map_of (dataTries (aK A))
      else \<exists>r m m'. (tdtTr (accTracker acc) = Some r \<and> aD A r = Some m \<or>
             tdtTr (accTracker acc) = None \<and> r = nextTrie (aK A) \<and> aD A r = None \<and> m = Map.empty) \<and>
           m' = snd (snd (loopSpec env (tdtIdentifier (accTracker acc)) m (rangeDirty env dd))) \<and>
           aD A' = (aD A)(r \<mapsto> m') \<and>
           accountHeap (aK A') = (accountHeap (aK A))(a := acc\<lparr>accData := (accData acc)\<lparr>uaRootHash := rootOf env m'\<rparr>,
             accTracker := (accTracker acc)\<lparr>tdtDirtyData := [], tdtTr := Some r\<rparr>\<rparr>) \<and>
           map_of (dataTries (aK A')) = (if map_of (dataTries (aK A)) k = None then (map_of (dataTries (aK A)))(k \<mapsto> r)
             else map_of (dataTries (aK A))))"

text \<open>The state before the writes, with the trie they go to; a new trie is empty. Undoing the writes leads back to it.\<close>

definition attached :: "nat \<Rightarrow> adbAbs \<Rightarrow> adbAbs" where
  "attached a A = (if tdtDirtyData (accTracker (obj A a)) = [] then A
     else case attachTrie a A of (r, m, _) \<Rightarrow> A\<lparr>aD := (aD A)(r \<mapsto> m)\<rparr>)"

lemma attached_push: "attached a (pushEntry e A) = pushEntry e (attached a A)"
  by (simp add: attached_def attachTrie_def pushEntry_def Let_def split: option.splits)

lemma attached_sel: "aK (attached a A) = aK A" "aAcc (attached a A) = aAcc A" "aCod (attached a A) = aCod A"
  by (simp_all add: attached_def split: prod.splits)

lemma attached_le:
  assumes w: "absOk env U A" and o: "objOk env U A (obj A a)"
  shows "aD A \<subseteq>\<^sub>m aD (attached a A)"
proof -
  obtain r m A1 where at: "attachTrie a A = (r, m, A1)" by (metis prod_cases3)
  show ?thesis using attachTrie_props(3) [OF w o at] by (auto simp: attached_def at map_le_def)
qed

lemma save_data:
  assumes ok: "env_ok env U" and v: "view env U s A" and a: "a < nextAccount (aK A)" and o: "objOk env U A (obj A a)"
    and k: "uaAddress (accData (obj A a)) = k" "k \<in> U" "k \<noteq> []"
  shows "\<exists>A' es. runs env U (saveDataTrie env a) A (Inr ()) A' \<and> undoes env U {k} {k} es (attached a A) A' \<and>
    aAcc A' = aAcc A \<and> aCod A' = aCod A \<and> nextAccount (aK A') = nextAccount (aK A) \<and> savedData env a A A'"
proof (cases "tdtDirtyData (accTracker (obj A a)) = []")
  case True
  then show ?thesis using runs_saveDataTrie_none [of A a env U] undoes_none [of A A "{k}" "{k}"]
    by (intro exI [of _ A] exI [of _ "[]"]) (simp add: savedData_def Let_def attached_def)
next
  case False
  have w: "absOk env U A" by (rule view_wf [OF v])
  have new: "aD A (nextTrie (aK A)) = None" by (rule wf_new [OF w])
  obtain r m A1 where at: "attachTrie a A = (r, m, A1)" by (metis prod_cases3)
  obtain os as m' where l: "loopSpec env (tdtIdentifier (accTracker (obj A a))) m (rangeDirty env (tdtDirtyData (accTracker (obj A a)))) = (os, as, m')"
    by (metis prod_cases3)
  note at' = attachTrie_props [OF w o at]
  let ?acc = "setRoot (rootOf env m') (cleanAcc (obj A1 a))" and ?us = "os @ as"
  let ?A2 = "putObj a ?acc (A1\<lparr>aD := (aD A1)(r \<mapsto> m')\<rparr>)"
  let ?A' = "hold k r (pushEntry (JournalEntryDataTrieUpdates ?us a) ?A2)"
  have K: "nextAccount (aK A1) = nextAccount (aK A)" "entries (aK A1) = entries (aK A)" "storage (aK A1) = storage (aK A)"
    "lastRootHash (aK A1) = lastRootHash (aK A)" "mainTrie (aK A1) = mainTrie (aK A)"
    using arg_cong [OF at'(12), of nextAccount] arg_cong [OF at'(12), of entries] arg_cong [OF at'(12), of storage]
      arg_cong [OF at'(12), of lastRootHash] arg_cong [OF at'(12), of mainTrie] by simp_all
  have acc: "?acc = (obj A a)\<lparr>accData := (accData (obj A a))\<lparr>uaRootHash := rootOf env m'\<rparr>,
      accTracker := (accTracker (obj A a))\<lparr>tdtDirtyData := [], tdtTr := Some r\<rparr>\<rparr>" by (simp add: at'(6) setRoot_def cleanAcc_def)
  have "accountHeap (aK ?A2) = (accountHeap (aK A1))(a := ?acc)" by simp
  also have "\<dots> = (accountHeap (aK A))(a := ?acc)" using arg_cong [OF at'(7), of "\<lambda>f. f(a := ?acc)"] by (simp only: fun_upd_upd)
  finally have heap: "accountHeap (aK ?A2) = (accountHeap (aK A))(a := ?acc)" .
  have aD: "aD ?A' = (aD A)(r \<mapsto> m')" by (simp add: at'(4))
  have run: "runs env U (saveDataTrie env a) A (Inr ()) ?A'" using runs_saveDataTrie [OF ok w o False at l] k(1) by simp
  have "dirtyOk env U (rangeDirty env (tdtDirtyData (accTracker (obj A a))))" "distinct (map fst (rangeDirty env (tdtDirtyData (accTracker (obj A a)))))"
    using o rangeDirty [OF ok] by (auto simp: objOk_def)
  note restore = loop_restore [OF ok at'(1) this l]
  have g: "grow A ?A'"
  proof -
    have "obj A1 b = obj A b" if "b \<noteq> a" for b using fun_cong [OF at'(7), of b] that by simp
    then have "grow A ?A2" unfolding grow_def using at'(5,10,11) K by (auto simp: acc at'(4))
    then show ?thesis using grow_trans [OF grow_trans [OF _ grow_pushEntry] grow_hold] by blast
  qed
  let ?A0 = "A\<lparr>aD := (aD A)(r \<mapsto> m)\<rparr>"
  have A0: "attached a A = ?A0" using False by (simp add: attached_def at)
  have g0: "grow ?A0 ?A'" using g by (auto simp: grow_def at'(4))
  have "undoes env U {k} {k} [JournalEntryDataTrieUpdates ?us a] ?A0 ?A'"
  proof (rule undoes_data [OF ok _ k(2,3)])
    show "uaAddress (accData (obj ?A' a)) = k" "tdtTr (accTracker (obj ?A' a)) = Some r" using k(1) by (simp_all add: acc)
    show "a < nextAccount (aK ?A')" "aD ?A' r = Some m'" "grow ?A0 ?A'" "aAcc ?A' = aAcc ?A0" "aCod ?A' = aCod ?A0"
      "entries (aK ?A') = entries (aK ?A0) @ [JournalEntryDataTrieUpdates ?us a]" using a K g0 at'(8,9) by simp_all
    show "fold undoOne ?us m' = m" "\<forall>u\<in>set ?us. undoOk env U u" using restore by blast+
    show "aD ?A0 r = None \<or> aD ?A0 r = Some m" by simp
    show "aD ?A0 q = aD ?A' q \<or> aD ?A0 q = None" if "q \<noteq> r" for q using that by (simp add: at'(4))
  qed
  moreover have "savedData env a A ?A'"
  proof -
    have "m' = snd (snd (loopSpec env (tdtIdentifier (accTracker (obj A a))) m (rangeDirty env (tdtDirtyData (accTracker (obj A a))))))"
      using l by simp
    moreover have "tdtTr (accTracker (obj A a)) = Some r \<and> aD A r = Some m \<or>
        tdtTr (accTracker (obj A a)) = None \<and> r = nextTrie (aK A) \<and> aD A r = None \<and> m = Map.empty"
      using at at'(2) o new by (auto simp: attachTrie_def Let_def objOk_def split: option.splits)
    moreover have "map_of (dataTries (aK ?A')) = (if map_of (dataTries (aK A)) k = None then (map_of (dataTries (aK A)))(k \<mapsto> r)
        else map_of (dataTries (aK A)))" by (simp add: hold_def map_of_setEntry at'(11))
    moreover have "accountHeap (aK ?A') = (accountHeap (aK A))(a := (obj A a)\<lparr>accData := (accData (obj A a))\<lparr>uaRootHash := rootOf env m'\<rparr>,
        accTracker := (accTracker (obj A a))\<lparr>tdtDirtyData := [], tdtTr := Some r\<rparr>\<rparr>)"
      using heap unfolding acc hold_sel pushEntry_sel .
    ultimately show ?thesis unfolding savedData_def Let_def if_not_P [OF False] k(1) using aD by (intro exI conjI)
  qed
  ultimately show ?thesis unfolding A0 using run at'(8,9) K
    by (intro exI [of _ ?A'] exI [of _ "[JournalEntryDataTrieUpdates ?us a]"]) simp
qed

lemma undoes_grow:
  assumes "grow A A'" and "entries (aK A') = entries (aK A)" and "aAcc A' = aAcc A" and "aCod A' = aCod A"
    and "\<And>r m. aD A r = Some m \<Longrightarrow> aD A' r = Some m"
  shows "undoes env U X X [] A A'"
proof (rule undoes_none [OF assms(1,2)])
  show "sim X A' B \<Longrightarrow> sim X A B" for B using grow_trans [OF assms(1)] assms(3-5) unfolding sim_def by simp
qed

definition savedHash :: "adbEnv \<Rightarrow> userAccount \<Rightarrow> bytes" where
  "savedHash env acc = (if accHasNewCode acc then newCodeHash env (accCode acc) else uaCodeHash (accData acc))"

lemma setCodeHash_self [simp]: "setCodeHash (uaCodeHash (accData acc)) acc = acc"
  by (simp add: setCodeHash_def)

lemma changeCode_sel:
  "aAcc (changeCode env old code A) = aAcc A" "aD (changeCode env old code A) = aD A"
  "accountHeap (aK (changeCode env old code A)) = accountHeap (aK A)" "dataTries (aK (changeCode env old code A)) = dataTries (aK A)"
  "nextAccount (aK (changeCode env old code A)) = nextAccount (aK A)"
  "aCod (changeCode env old code A) = (if code = [] then dropRef old (aCod A) else addRef (newCodeHash env code) code (dropRef old (aCod A)))"
  by (simp_all add: changeCode_def Let_def)

lemma save_code:
  assumes ok: "env_ok env U" and w: "absOk env U A" and k: "k \<in> U" and refs: "refsOk env U (aAcc A) (aCod A)"
    and old: "oldHashOf old = codeAt (aAcc A) k" and code: "accHasNewCode (obj A a) \<Longrightarrow> accCode (obj A a) \<in> U"
    and fresh: "\<not> accHasNewCode (obj A a) \<Longrightarrow> uaCodeHash (accData (obj A a)) = codeAt (aAcc A) k"
  shows "\<exists>A' es. runs env U (saveCode env a old) A (Inr ()) A' \<and> undoes env U X X es A A' \<and> aAcc A' = aAcc A \<and> aD A' = aD A \<and>
    nextAccount (aK A') = nextAccount (aK A) \<and> dataTries (aK A') = dataTries (aK A) \<and>
    accountHeap (aK A') = (accountHeap (aK A))(a := setCodeHash (savedHash env (obj A a)) (obj A a)) \<and>
    (\<forall>d. uaCodeHash d = savedHash env (obj A a) \<longrightarrow> refsOk env U ((aAcc A)(k \<mapsto> d)) (aCod A'))"
proof (cases "accHasNewCode (obj A a)")
  case False
  then have "refsOk env U ((aAcc A)(k \<mapsto> d)) (aCod A)" if "uaCodeHash d = savedHash env (obj A a)" for d
    using that refs_same [OF refs, of k "Some d"] fresh by (simp add: savedHash_def)
  then show ?thesis using False runs_saveCode_same [OF False] undoes_grow [of A A] by (intro exI [of _ A] exI [of _ "[]"]) (simp add: savedHash_def)
next
  case True
  let ?code = "accCode (obj A a)" and ?o = "oldHashOf old"
  let ?h = "newCodeHash env ?code"
  have s: "savedHash env (obj A a) = ?h" using True by (simp add: savedHash_def)
  have fin: "finite U" "accsOk U (aAcc A)" using env_okD(2) [OF ok] wf_sel(1) [OF w] by auto
  have oldOk: "codeHashOk env U ?o" using refs_hash [OF refs fin] old by simp
  have emp: "aCod A [] = None" by (rule wf_apart(4) [OF ok w])
  have put: "undoes env U X X [] B (putObj a (setCodeHash ?h (obj A a)) B)" if "obj B a = obj A a" for B
    using that by (intro undoes_grow grow_putObj) (simp_all add: setCodeHash_def)
  show ?thesis
  proof (cases "?o = ?h")
    case same: True
    have r: "refsOk env U ((aAcc A)(k \<mapsto> d)) (aCod A)" if "uaCodeHash d = ?h" for d
      using that refs_same [OF refs, of k "Some d"] same old by simp
    have "runs env U (saveCode env a old) A (Inr ()) (putObj a (setCodeHash ?h (obj A a)) A)"
    proof -
      have "runs env U (SetCodeHash a ?h) A (Inr ()) (putObj a (setCodeHash ?h (obj A a)) A)"
        unfolding SetCodeHash_def by (rule runs_eq [OF runs_modifyAcc]) (simp add: setCodeHash_def)
      moreover have "(if length ?code \<noteq> 0 then hasherCompute env ?code else []) = ?h" by (simp add: newCodeHash_def)
      ultimately show ?thesis unfolding saveCode_def Let_def oldHashOf_def [symmetric]
        by (intro runs_tryE [OF runs_getAcc]) (simp only: True not_True_eq_False if_False same simp_thms if_True)
    qed
    then show ?thesis unfolding s using put [of A] r
      by (intro exI [of _ "putObj a (setCodeHash ?h (obj A a)) A"] exI [of _ "[]"]) simp
  next
    case False
    have n: "ceNumReferences c + 1 \<noteq> 0" if "aCod A ?h = Some c" for c
      by (rule refs_room [OF ok refs fin(2) k _ _ that]) (use False old that emp in auto)
    let ?A1 = "changeCode env ?o ?code A"
    let ?A' = "putObj a (setCodeHash ?h (obj A a)) ?A1"
    have run: "runs env U (saveCode env a old) A (Inr ()) ?A'" using runs_saveCode [OF ok True oldOk code [OF True] n HOL.refl] False by simp
    have "undoes env U X X ([JournalEntryCode (aCod A ?o) ?o ?h] @ []) A ?A'"
    proof (rule undoes_trans)
      show "undoes env U X X [JournalEntryCode (aCod A ?o) ?o ?h] A ?A1"
        by (rule undoes_code [OF ok w disjI1 [OF code [OF True]] False _ n]) (use refs_code [OF refs fin, of k] old in auto)
      show "undoes env U X X [] ?A1 ?A'" by (rule put) (simp add: changeCode_sel)
    qed
    moreover have "refsOk env U ((aAcc A)(k \<mapsto> d)) (aCod ?A')" if "uaCodeHash d = ?h" for d
      using refs_change [OF ok refs fin(2) wf_sel(2) [OF w] k disjI1 [OF code [OF True]] old HOL.refl False, of "Some d"] that by (simp add: changeCode_sel)
    ultimately show ?thesis unfolding s using run by (intro exI [of _ ?A'] exI) (auto simp: changeCode_sel)
  qed
qed

lemma savedData_obj:
  assumes "savedData env a A A'"
  shows "accCode (obj A' a) = accCode (obj A a)" "accHasNewCode (obj A' a) = accHasNewCode (obj A a)"
    "accData (obj A' a) = (accData (obj A a))\<lparr>uaRootHash := uaRootHash (accData (obj A' a))\<rparr>"
    "b \<noteq> a \<Longrightarrow> obj A' b = obj A b"
  using assms unfolding savedData_def Let_def by (auto split: if_splits)

lemma savedData_push: "savedData env a (pushEntry e A) A' = savedData env a A A'"
  by (simp add: savedData_def)

lemma savedHash_cong:
  "accHasNewCode acc' = accHasNewCode acc \<Longrightarrow> accCode acc' = accCode acc \<Longrightarrow> uaCodeHash (accData acc') = uaCodeHash (accData acc) \<Longrightarrow>
    savedHash env acc' = savedHash env acc"
  by (simp add: savedHash_def)

lemma save_account:
  assumes ok: "env_ok env U" and v: "view env U s A" and a: "a < nextAccount (aK A)" and o: "objOk env U A (obj A a)"
    and k: "uaAddress (accData (obj A a)) = k" "k \<in> U" "k \<noteq> []" and refs: "refsOk env U (aAcc A) (aCod A)"
    and code: "accHasNewCode (obj A a) \<Longrightarrow> accCode (obj A a) \<in> U"
    and fresh: "\<not> accHasNewCode (obj A a) \<Longrightarrow> uaCodeHash (accData (obj A a)) = codeAt (aAcc A) k"
  shows "\<exists>A' A1 es. runs env U (SaveAccount env (Some a)) A (Inr ()) A' \<and> undoes env U {} {} (accountEntry k A # es) (attached a A) A' \<and>
    savedData env a A A1 \<and> aD A' = aD A1 \<and> dataTries (aK A') = dataTries (aK A1) \<and>
    accountHeap (aK A') = (accountHeap (aK A1))(a := setCodeHash (savedHash env (obj A a)) (obj A1 a)) \<and>
    aAcc A' = (aAcc A)(k \<mapsto> accData (obj A' a)) \<and> nextAccount (aK A') = nextAccount (aK A) \<and> refsOk env U (aAcc A') (aCod A')"
proof -
  let ?old = "map_option (freshAcc k) (aAcc A k)" and ?A0 = "pushEntry (accountEntry k A) A" and ?h = "savedHash env (obj A a)"
  have w: "absOk env U A" by (rule view_wf [OF v])
  have push: "runs env U (journalize (accountEntry k A)) A (Inr ()) ?A0" unfolding pushEntry_def by (rule runs_journalize)
  then obtain s0 where s0: "view env U s0 ?A0" using runsD [OF _ v] by blast
  have "objOk env U ?A0 (obj ?A0 a)" using o by (simp add: objOk_def)
  then obtain A1 es1 where d: "runs env U (saveDataTrie env a) ?A0 (Inr ()) A1" "undoes env U {k} {k} es1 (attached a ?A0) A1"
    "aAcc A1 = aAcc A" "aCod A1 = aCod A" "nextAccount (aK A1) = nextAccount (aK A)" "savedData env a A A1"
    using save_data [OF ok s0, of a k] a k by (auto simp: savedData_push)
  note od = savedData_obj [OF d(6)]
  obtain s1 where "view env U s1 A1" using runsD [OF d(1) s0] by blast
  then have w1: "absOk env U A1" by (rule view_wf)
  have h: "savedHash env (obj A1 a) = ?h" using od by (intro savedHash_cong) (simp_all, metis UserAccountData.select_convs(3) UserAccountData.surjective UserAccountData.update_convs(4))
  have hash1: "uaCodeHash (accData (obj A1 a)) = uaCodeHash (accData (obj A a))" by (subst od(3)) simp
  have old: "oldHashOf ?old = codeAt (aAcc A1) k" by (simp add: d(3) oldHashOf_def codeAt_def freshAcc_def split: option.splits)
  obtain A2 es2 where c: "runs env U (saveCode env a ?old) A1 (Inr ()) A2" "undoes env U {k} {k} es2 A1 A2" "aAcc A2 = aAcc A" "aD A2 = aD A1"
    "nextAccount (aK A2) = nextAccount (aK A)" "dataTries (aK A2) = dataTries (aK A1)"
    "accountHeap (aK A2) = (accountHeap (aK A1))(a := setCodeHash ?h (obj A1 a))"
    "\<forall>d. uaCodeHash d = ?h \<longrightarrow> refsOk env U ((aAcc A)(k \<mapsto> d)) (aCod A2)"
    using save_code [OF ok w1 k(2) _ old, of a "{k}"] refs code fresh d(3-5) od(1,2) hash1 h by auto
  let ?acc = "obj A2 a" and ?A' = "A2\<lparr>aAcc := (aAcc A2)(k \<mapsto> accData (obj A2 a))\<rparr>"
  have "uaAddress (accData (obj A1 a)) = k" by (subst od(3)) (simp add: k(1))
  then have acc: "uaAddress (accData ?acc) = k" "uaCodeHash (accData ?acc) = ?h" by (simp_all add: c(7) setCodeHash_def)
  have wr: "runs env U (saveAccountToTrie env ?acc) A2 (Inr ()) ?A'" using runs_saveAccountToTrie [OF ok, of ?acc A2] acc k(2,3) by simp
  have entry: "runs env U (case ?old of None \<Rightarrow> (case NewJournalEntryAccountCreation k of Inl e \<Rightarrow> fail e | Inr entry \<Rightarrow> journalize entry)
      | Some old \<Rightarrow> journalize (JournalEntryAccount old)) A (Inr ()) ?A0"
    using push k(3) by (cases "aAcc A k") (simp_all add: accountEntry_def NewJournalEntryAccountCreation_def)
  have "runs env U (SaveAccount env (Some a)) A (Inr ()) ?A'"
    unfolding SaveAccount_def option.case
    by (rule runs_tryE [OF runs_getAcc], unfold k(1), rule runs_tryE [OF runs_getAccount [OF ok k(2,3)]], rule runs_tryE [OF entry],
        unfold saveCodeAndDataTrie_def, rule runs_tryE, rule runs_tryE [OF d(1)], rule c(1), rule runs_tryE [OF runs_getAcc], rule wr)
  moreover have "undoes env U {} {} (accountEntry k A # es1 @ es2) (attached a A) ?A'"
  proof -
    have e: "accountEntry k (attached a A) = accountEntry k A" by (simp add: accountEntry_def attached_sel)
    have "accsOk U (aAcc (attached a A))" using wf_sel(1) [OF w] by (simp add: attached_sel)
    note acct = undoes_account [OF ok this k(2), unfolded e]
    from undoes_trans [OF acct undoes_trans [OF d(2) [unfolded attached_push] undoes_trans [OF c(2) undoes_write]]]
    show ?thesis by simp
  qed
  moreover have "refsOk env U (aAcc ?A') (aCod ?A')" using c(3,8) acc(2) by simp
  ultimately show ?thesis using d(6) c by (intro exI [of _ ?A'] exI [of _ A1] exI [of _ "es1 @ es2"]) simp
qed

end
