(* ===== verification/AccountsLoad.thy ===== *)
theory AccountsLoad
  imports AccountsOps
begin

text \<open>
  Loading an account, removing one and going back to a snapshot on abstract states.
\<close>

section \<open>Loading\<close>

text \<open>The storage has a data trie for a root hash.\<close>

definition loads :: "adbEnv \<Rightarrow> bytes set \<Rightarrow> adbState \<Rightarrow> bytes \<Rightarrow> bool" where
  "loads env U K h \<longleftrightarrow> (\<exists>tr m. recreated env K h = Inr tr \<and> holds (tEnv env) tr m \<and> datOk env U m)"

text \<open>The data trie of every account can be had: there is none, the holder has it, or the storage.\<close>

definition reach :: "adbEnv \<Rightarrow> bytes set \<Rightarrow> adbAbs \<Rightarrow> bool" where
  "reach env U A \<longleftrightarrow> (\<forall>k d. aAcc A k = Some d \<longrightarrow>
     uaRootHash d = [] \<or> map_of (dataTries (aK A)) k \<noteq> None \<or> loads env U (aK A) (uaRootHash d))"

lemma recreated_cong: "storage K = storage K' \<Longrightarrow> maxTrieLevelInMemory (mainTrie K) = maxTrieLevelInMemory (mainTrie K') \<Longrightarrow>
    recreated env K h = recreated env K' h"
  by (simp add: recreated_def)

lemma loads_grow: "grow A B \<Longrightarrow> loads env U (aK B) h = loads env U (aK A) h"
  unfolding loads_def using recreated_cong [of "aK B" "aK A"] by (simp add: grow_def)

lemma held_grow: "grow A B \<Longrightarrow> map_of (dataTries (aK A)) k \<noteq> None \<Longrightarrow> map_of (dataTries (aK B)) k \<noteq> None"
  unfolding grow_def map_le_def by (metis domIff)

lemma reach_grow: "reach env U A \<Longrightarrow> grow A B \<Longrightarrow> aAcc B = aAcc A \<Longrightarrow> reach env U B"
  unfolding reach_def using loads_grow held_grow by (metis (no_types))

definition newData :: "bytes \<Rightarrow> UserAccountData" where
  "newData k = \<lparr>uaNonce = 0, uaBalance = 0, uaCodeHash = [], uaRootHash = [], uaAddress = k,
     uaDeveloperReward = 0, uaOwnerAddress = [], uaUserName = [], uaCodeMetadata = []\<rparr>"

lemma NewUserAccount_newData: "k \<noteq> [] \<Longrightarrow> NewUserAccount k = Inr (freshAcc k (newData k))"
  by (simp add: NewUserAccount_def freshAcc_def newData_def)

text \<open>An object with its data trie, as loading leaves it.\<close>

definition loadedAcc :: "bytes \<Rightarrow> UserAccountData \<Rightarrow> nat option \<Rightarrow> userAccount" where
  "loadedAcc k d tr = (freshAcc k d)\<lparr>accTracker := (accTracker (freshAcc k d))\<lparr>tdtTr := tr\<rparr>\<rparr>"

definition loaded :: "bytes \<Rightarrow> adbAbs \<Rightarrow> adbAbs \<Rightarrow> bool" where
  "loaded k A A' \<longleftrightarrow> grow A A' \<and> entries (aK A') = entries (aK A) \<and> aAcc A' = aAcc A \<and> aCod A' = aCod A \<and>
     (\<forall>r m. aD A r = Some m \<longrightarrow> aD A' r = Some m) \<and> nextAccount (aK A') = Suc (nextAccount (aK A)) \<and>
     obj A' (nextAccount (aK A)) = (case aAcc A k of
        None \<Rightarrow> freshAcc k (newData k)
      | Some d \<Rightarrow> loadedAcc k d (map_of (dataTries (aK A')) k)) \<and>
     (map_of (dataTries (aK A)) k \<noteq> None \<or> aAcc A k = None \<longrightarrow> dataTries (aK A') = dataTries (aK A) \<and> aD A' = aD A)"

lemma grow_newObj:
  "grow A (A\<lparr>aK := (aK A)\<lparr>accountHeap := (accountHeap (aK A))(nextAccount (aK A) := acc), nextAccount := Suc (nextAccount (aK A))\<rparr>\<rparr>)"
  by (simp add: grow_def)

lemma runs_catch_fail:
  assumes "runs env U m A (Inl e) A'"
  shows "runs env U (State (\<lambda>s. case run_state m s of (Inl e, s') \<Rightarrow> (Inl (w e), s') | (Inr x, s') \<Rightarrow> run_state (f x) s')) A (Inl (w e)) A'"
  using assms unfolding runs_def by fastforce

lemma runs_catch_ok:
  assumes "runs env U m A (Inr x) A'" and "runs env U (f x) A' r A''"
  shows "runs env U (State (\<lambda>s. case run_state m s of (Inl e, s') \<Rightarrow> (Inl (w e), s') | (Inr x, s') \<Rightarrow> run_state (f x) s')) A r A''"
  using assms unfolding runs_def by fastforce

lemma load_existing:
  assumes ok: "env_ok env U" and w: "absOk env U A" and k: "k \<in> U" "k \<noteq> []" and d: "aAcc A k = Some d" "uaAddress d = k" and re: "reach env U A"
  shows "\<exists>A'. runs env U (tryE (newAccountRef (freshAcc k d)) (\<lambda>a. tryE (loadDataTrieConcurrentSafe env a) (\<lambda>_. ok a))) A
    (Inr (nextAccount (aK A))) A' \<and> loaded k A A'"
proof -
  let ?a = "nextAccount (aK A)"
  let ?A1 = "A\<lparr>aK := (aK A)\<lparr>accountHeap := (accountHeap (aK A))(?a := freshAcc k d), nextAccount := Suc ?a\<rparr>\<rparr>"
  have g1: "grow A ?A1" by (rule grow_newObj)
  have acc: "obj ?A1 ?a = freshAcc k d" "uaAddress (accData (freshAcc k d)) = k" "uaRootHash (accData (freshAcc k d)) = uaRootHash d"
    using d(2) by (simp_all add: freshAcc_def)
  have set: "runs env U (SetDataTrie ?a r) B (Inr ()) (putObj ?a (loadedAcc k d (Some r)) B)" if "obj B ?a = freshAcc k d" for B r
    unfolding SetDataTrie_def by (rule runs_eq [OF runs_modifyAcc]) (simp add: that loadedAcc_def)
  have none: "loadedAcc k d None = freshAcc k d" by (simp add: loadedAcc_def freshAcc_def)
  obtain A' where A': "runs env U (loadDataTrieConcurrentSafe env ?a) ?A1 (Inr ()) A'" "loaded k A A'"
  proof (cases "map_of (dataTries (aK A)) k")
    case (Some r)
    let ?A' = "putObj ?a (loadedAcc k d (Some r)) ?A1"
    have held: "map_of (dataTries (aK ?A1)) k = Some r" by (simp add: Some)
    have "runs env U (loadDataTrieConcurrentSafe env ?a) ?A1 (Inr ()) ?A'"
      unfolding loadDataTrieConcurrentSafe_def
      by (rule runs_tryE [OF runs_getAcc], unfold acc, rule runs_tryE [OF runs_holderGet], unfold held option.case, rule set) simp
    moreover have "loaded k A ?A'" using Some by (simp add: loaded_def d(1) grow_def)
    ultimately show ?thesis by (rule that)
  next
    case None
    show ?thesis
    proof (cases "uaRootHash d = []")
      case True
      have "runs env U (loadDataTrieConcurrentSafe env ?a) ?A1 (Inr ()) ?A1"
        unfolding loadDataTrieConcurrentSafe_def
        by (rule runs_tryE [OF runs_getAcc], unfold acc, rule runs_tryE [OF runs_holderGet]) (simp add: None True runs_ok)
      moreover have "loaded k A ?A1" using None g1 by (simp add: loaded_def d(1) none)
      ultimately show ?thesis by (rule that)
    next
      case False
      then obtain tr m where tr: "recreated env (aK A) (uaRootHash d) = Inr tr" "holds (tEnv env) tr m" "datOk env U m"
        using re d(1) None unfolding reach_def loads_def by blast
      have tr1: "recreated env (aK ?A1) (uaRootHash d) = Inr tr" using tr(1) by (simp add: recreated_def)
      let ?n = "nextTrie (aK A)"
      let ?A2 = "?A1\<lparr>aK := (aK ?A1)\<lparr>nextTrie := Suc ?n\<rparr>, aD := (aD A)(?n \<mapsto> m)\<rparr>"
      let ?A3 = "putObj ?a (loadedAcc k d (Some ?n)) ?A2"
      let ?A4 = "?A3\<lparr>aK := (aK ?A3)\<lparr>dataTries := setEntry k ?n (dataTries (aK A))\<rparr>\<rparr>"
      have "runs env U (recreateDataTrie env (uaRootHash d)) ?A1 (Inr ?n) ?A2" using runs_recreate [OF tr1 tr(2,3)] by simp
      moreover have "runs env U (tryE (SetDataTrie ?a ?n) (\<lambda>_. holderPut k ?n)) ?A2 (Inr ()) ?A4"
      proof (rule runs_tryE [OF set])
        show "obj ?A2 ?a = freshAcc k d" by simp
        show "runs env U (holderPut k ?n) ?A3 (Inr ()) ?A4" using runs_holderPut [of ?A3 ?n env U k] by simp
      qed
      ultimately have "runs env U (State (\<lambda>s. case run_state (recreateDataTrie env (uaRootHash d)) s of
          (Inl e, s') \<Rightarrow> (Inl (WrapAdb ''trie was not found for hash'' e), s')
        | (Inr tr, s') \<Rightarrow> run_state (tryE (SetDataTrie ?a tr) (\<lambda>_. holderPut k tr)) s')) ?A1 (Inr ()) ?A4"
        by (rule runs_catch_ok)
      then have "runs env U (loadDataTrieConcurrentSafe env ?a) ?A1 (Inr ()) ?A4"
        unfolding loadDataTrieConcurrentSafe_def
        by (intro runs_tryE [OF runs_getAcc], unfold acc, intro runs_tryE [OF runs_holderGet]) (simp add: None False del: State_Monad.run_state_bind)
      moreover have "loaded k A ?A4"
        using None False wf_new [OF w] by (auto simp: loaded_def d(1) grow_def map_of_setEntry map_le_def)
      ultimately show ?thesis by (rule that)
    qed
  qed
  have "runs env U (tryE (newAccountRef (freshAcc k d)) (\<lambda>a. tryE (loadDataTrieConcurrentSafe env a) (\<lambda>_. ok a))) A (Inr ?a) A'"
    by (rule runs_tryE [OF runs_newAccountRef], rule runs_tryE [OF A'(1)], rule runs_ok)
  then show ?thesis using A'(2) by blast
qed

lemma load_account:
  assumes ok: "env_ok env U" and w: "absOk env U A" and k: "k \<in> U" "k \<noteq> []" and re: "reach env U A"
  shows "\<exists>A'. runs env U (LoadAccount env k) A (Inr (nextAccount (aK A))) A' \<and> loaded k A A'"
proof -
  have len: "\<not> length k = 0" using k(2) by simp
  show ?thesis
proof (cases "aAcc A k")
  case None
  let ?A1 = "A\<lparr>aK := (aK A)\<lparr>accountHeap := (accountHeap (aK A))(nextAccount (aK A) := freshAcc k (newData k)), nextAccount := Suc (nextAccount (aK A))\<rparr>\<rparr>"
  have "runs env U (LoadAccount env k) A (Inr (nextAccount (aK A))) ?A1"
    unfolding LoadAccount_def if_not_P [OF len]
    by (rule runs_tryE [OF runs_getAccount [OF ok k]], simp only: None option.map option.case NewUserAccount_newData [OF k(2)] sum.case)
      (rule runs_newAccountRef)
  moreover have "loaded k A ?A1" using grow_newObj [of A "freshAcc k (newData k)"] by (simp add: loaded_def None)
  ultimately show ?thesis by blast
next
  case (Some d)
  then have "uaAddress d = k" using wf_sel(1) [OF w] by (auto simp: accsOk_def)
  then obtain A' where "runs env U (tryE (newAccountRef (freshAcc k d)) (\<lambda>a. tryE (loadDataTrieConcurrentSafe env a) (\<lambda>_. ok a))) A
      (Inr (nextAccount (aK A))) A'" "loaded k A A'" using load_existing [OF ok w k Some _ re] by blast
  then have "runs env U (LoadAccount env k) A (Inr (nextAccount (aK A))) A'" unfolding LoadAccount_def if_not_P [OF len]
    by (intro runs_tryE [OF runs_getAccount [OF ok k]]) (simp only: Some option.map option.case)
  then show ?thesis using \<open>loaded k A A'\<close> by blast
qed
qed

lemma loaded_undoes: "loaded k A A' \<Longrightarrow> undoes env U X X [] A A'"
  unfolding loaded_def by (intro undoes_grow) auto

lemma loaded_reach: "loaded k A A' \<Longrightarrow> reach env U A \<Longrightarrow> reach env U A'"
  unfolding loaded_def using reach_grow by blast

section \<open>Removing\<close>

lemma runs_tryE_assoc: "runs env U (tryE m (\<lambda>x. tryE (f x) g)) A r A' \<longleftrightarrow> runs env U (tryE (tryE m f) g) A r A'"
  unfolding runs_def by (auto split: prod.splits sum.splits)

lemma runs_untracked:
  assumes tr: "recreated env (aK A) h = Inr tr" and f: "f tr = (x, tr')" "trieStorage tr' = trieStorage tr"
  shows "runs env U (tryE (recreateDataTrie env h) (\<lambda>r. onDataTrie r f)) A (liftTrie x)
    (A\<lparr>aK := (aK A)\<lparr>nextTrie := Suc (nextTrie (aK A))\<rparr>\<rparr>)"
proof (rule runsI)
  fix s
  assume v: "view env U s A"
  let ?n = "nextTrie (aK A)"
  have st: "trieStorage tr = storage s" "trieStorage tr' = storage (aK A)"
    using recreated_storage [OF tr] f(2) view_sel(8) [OF v] by simp_all
  have "tr\<lparr>trieStorage := storage s\<rparr> = tr" using st(1) by simp
  then have "f (tr\<lparr>trieStorage := storage s\<rparr>) = (x, tr')" using f(1) by (simp only:)
  then have "run_state (tryE (recreateDataTrie env h) (\<lambda>r. onDataTrie r f)) s =
      (liftTrie x, s\<lparr>trieHeap := (trieHeap s)(?n := tr'), nextTrie := Suc ?n\<rparr>)"
    using st(2) view_sel(8) [OF v] by (simp add: run_recreateDataTrie [OF v] tr onDataTrie_def)
  moreover have "view env U (s\<lparr>trieHeap := (trieHeap s)(?n := tr'), nextTrie := Suc ?n\<rparr>) (A\<lparr>aK := (aK A)\<lparr>nextTrie := Suc ?n\<rparr>\<rparr>)"
    using view_newTrie [OF v st(2), of "aD A"] by simp
  ultimately show "\<exists>s'. run_state (tryE (recreateDataTrie env h) (\<lambda>r. onDataTrie r f)) s = (liftTrie x, s') \<and>
      view env U s' (A\<lparr>aK := (aK A)\<lparr>nextTrie := Suc ?n\<rparr>\<rparr>)" by blast
qed

lemma GetAllHashes_storage: "GetAllHashes fuel env tr = (x, tr') \<Longrightarrow> trieStorage tr' = trieStorage tr"
  by (auto simp: GetAllHashes_def split: option.splits prod.splits sum.splits)

lemma runs_obsolete:
  "runs env U (State (\<lambda>s. (Inr x, s\<lparr>obsoleteDataTrieHashes := f (obsoleteDataTrieHashes s)\<rparr>))) A (Inr x)
     (A\<lparr>aK := (aK A)\<lparr>obsoleteDataTrieHashes := f (obsoleteDataTrieHashes (aK A))\<rparr>\<rparr>)"
proof (rule runs_field)
  show "run_state (State (\<lambda>s. (Inr x, s\<lparr>obsoleteDataTrieHashes := f (obsoleteDataTrieHashes s)\<rparr>))) s =
      (Inr x, s\<lparr>obsoleteDataTrieHashes := f (obsoleteDataTrieHashes s)\<rparr>)" for s by simp
qed (simp_all add: view_sel view_skel wf_K)

lemma undoes_obsolete:
  assumes g: "grow A A'" and e: "entries (aK A') = entries (aK A) @ [JournalEntryDataTrieRemove h]"
    and same: "aAcc A' = aAcc A" "aCod A' = aCod A" "aD A' = aD A"
  shows "undoes env U X X [JournalEntryDataTrieRemove h] A A'"
proof (rule undoes_one [OF g e])
  fix B
  assume s: "sim X A' B"
  let ?o = "filter (\<lambda>e. fst e \<noteq> h) (obsoleteDataTrieHashes (aK B))"
  let ?B = "B\<lparr>aK := (aK B)\<lparr>obsoleteDataTrieHashes := ?o\<rparr>\<rparr>"
  have "runs env U (Revert env (JournalEntryDataTrieRemove h)) B (Inr None) ?B" unfolding Revert.simps by (rule runs_obsolete)
  moreover have g2: "grow B ?B" by (rule grow_same) simp_all
  moreover have "sim X A ?B"
    using grow_trans [OF g grow_trans [OF simD(1) [OF s] g2]] simD(2-) [OF s] same by (simp add: sim_def)
  ultimately show "\<exists>acc B1 B'. runs env U (Revert env (JournalEntryDataTrieRemove h)) B (Inr acc) B1 \<and>
      runs env U (case acc of None \<Rightarrow> ok () | Some acc \<Rightarrow> saveAccountToTrie env acc) B1 (Inr ()) B' \<and>
      sim X A B' \<and> grow B B' \<and> entries (aK B') = entries (aK B)"
    using runs_ok by (intro exI [of _ None] exI [of _ ?B]) simp
qed

definition sameData :: "adbAbs \<Rightarrow> adbAbs \<Rightarrow> bool" where
  "sameData A A' \<longleftrightarrow> aD A' = aD A \<and> dataTries (aK A') = dataTries (aK A) \<and> accountHeap (aK A') = accountHeap (aK A) \<and>
     nextAccount (aK A') = nextAccount (aK A)"

lemma remove_data:
  "\<exists>r A' es. runs env U (removeDataTrie env acc) A r A' \<and> undoes env U X X es A A' \<and> aAcc A' = aAcc A \<and> aCod A' = aCod A \<and> sameData A A'"
proof (cases "length (uaRootHash (accData acc)) = 0")
  case True
  then have "runs env U (removeDataTrie env acc) A (Inr ()) A" by (simp add: removeDataTrie_def Let_def runs_ok)
  moreover have "undoes env U X X [] A A" by (rule undoes_grow) simp_all
  ultimately show ?thesis by (intro exI [of _ "Inr ()"] exI [of _ A] exI [of _ "[]"]) (simp add: sameData_def)
next
  case False
  let ?h = "uaRootHash (accData acc)"
  let ?rest = "\<lambda>hashes. tryE (State (\<lambda>s. (Inr (), s\<lparr>obsoleteDataTrieHashes := setEntry ?h hashes (obsoleteDataTrieHashes s)\<rparr>))) (\<lambda>_.
      case NewJournalEntryDataTrieRemove ?h of Inl e \<Rightarrow> fail e | Inr entry \<Rightarrow> journalize entry)"
  have assoc: "runs env U (removeDataTrie env acc) B r B' \<longleftrightarrow>
      runs env U (tryE (tryE (recreateDataTrie env ?h) (\<lambda>tr. onDataTrie tr (GetAllHashes (maxDepth env) (tEnv env)))) ?rest) B r B'" for B r B'
    unfolding removeDataTrie_def Let_def if_not_P [OF False] by (rule runs_tryE_assoc)
  show ?thesis
  proof (cases "recreated env (aK A) ?h")
    case (Inl e)
    have "runs env U (removeDataTrie env acc) A (Inl (TrieErr e)) A" unfolding assoc
      by (rule runs_tryE_Inl, rule runs_tryE_Inl, rule runs_recreate_fail [OF Inl])
    moreover have "undoes env U X X [] A A" by (rule undoes_grow) simp_all
    ultimately show ?thesis by (intro exI [of _ "Inl (TrieErr e)"] exI [of _ A] exI [of _ "[]"]) (simp add: sameData_def)
  next
    case (Inr tr)
    obtain x tr' where x: "GetAllHashes (maxDepth env) (tEnv env) tr = (x, tr')" by (cases "GetAllHashes (maxDepth env) (tEnv env) tr")
    let ?A1 = "A\<lparr>aK := (aK A)\<lparr>nextTrie := Suc (nextTrie (aK A))\<rparr>\<rparr>"
    have g1: "grow A ?A1" by (rule grow_same) simp_all
    have step: "runs env U (tryE (recreateDataTrie env ?h) (\<lambda>tr. onDataTrie tr (GetAllHashes (maxDepth env) (tEnv env)))) A (liftTrie x) ?A1"
      by (rule runs_untracked [OF Inr _ GetAllHashes_storage [OF x]]) (rule x)
    show ?thesis
    proof (cases x)
      case (Inl e)
      then have "runs env U (removeDataTrie env acc) A (Inl (TrieErr e)) ?A1" unfolding assoc using runs_tryE_Inl step by (simp add: liftTrie_def)
      moreover have "undoes env U X X [] A ?A1" by (rule undoes_grow [OF g1]) simp_all
      ultimately show ?thesis by (intro exI [of _ "Inl (TrieErr e)"] exI [of _ ?A1] exI [of _ "[]"]) (simp add: sameData_def)
    next
      case (Inr hashes)
      let ?A2 = "?A1\<lparr>aK := (aK ?A1)\<lparr>obsoleteDataTrieHashes := setEntry ?h hashes (obsoleteDataTrieHashes (aK ?A1))\<rparr>\<rparr>"
      let ?A3 = "pushEntry (JournalEntryDataTrieRemove ?h) ?A2"
      have "runs env U (State (\<lambda>s. (Inr (), s\<lparr>obsoleteDataTrieHashes := setEntry ?h hashes (obsoleteDataTrieHashes s)\<rparr>))) ?A1 (Inr ()) ?A2"
        by (rule runs_obsolete)
      moreover have "runs env U (case NewJournalEntryDataTrieRemove ?h of Inl e \<Rightarrow> fail e | Inr entry \<Rightarrow> journalize entry) ?A2 (Inr ()) ?A3"
        using runs_journalize [folded pushEntry_def] False by (simp add: NewJournalEntryDataTrieRemove_def)
      ultimately have "runs env U (?rest hashes) ?A1 (Inr ()) ?A3" by (rule runs_tryE)
      then have "runs env U (removeDataTrie env acc) A (Inr ()) ?A3" unfolding assoc by (rule runs_tryE [OF step [unfolded Inr liftTrie_Inr]])
      moreover have "undoes env U X X [JournalEntryDataTrieRemove ?h] A ?A3"
        by (rule undoes_obsolete [OF grow_trans [OF g1]]) (simp_all add: grow_def)
      ultimately show ?thesis by (intro exI [of _ "Inr ()"] exI [of _ ?A3] exI [of _ "[JournalEntryDataTrieRemove ?h]"]) (simp add: sameData_def)
    qed
  qed
qed

lemma changeCode_drop: "changeCode env old [] A = pushEntry (JournalEntryCode (aCod A old) old []) (A\<lparr>aCod := dropRef old (aCod A)\<rparr>)"
  by (simp add: changeCode_def newCodeHash_def)

lemma undoes_drop:
  assumes ok: "env_ok env U" and w: "absOk env U A" and old: "old = [] \<or> aCod A old \<noteq> None"
  shows "undoes env U X X [JournalEntryCode (aCod A old) old []] A (changeCode env old [] A)"
proof (cases "old = []")
  case False
  then show ?thesis using undoes_code [OF ok w, of "[]" old X] old wf_apart(4) [OF ok w] by (simp add: newCodeHash_def)
next
  case True
  have emp: "dropRef [] (aCod A) = aCod A" by (rule dropRef_none) (rule wf_apart(4) [OF ok w])
  show ?thesis
  proof (rule undoes_one)
    fix B
    assume s: "sim X (changeCode env old [] A) B"
    have "runs env U (Revert env (JournalEntryCode (aCod A old) old [])) B (Inr None) B" using True runs_ok by simp
    moreover have "sim X A B" using s True emp by (simp add: sim_def changeCode_drop grow_def)
    ultimately show "\<exists>acc B1 B'. runs env U (Revert env (JournalEntryCode (aCod A old) old [])) B (Inr acc) B1 \<and>
        runs env U (case acc of None \<Rightarrow> ok () | Some acc \<Rightarrow> saveAccountToTrie env acc) B1 (Inr ()) B' \<and>
        sim X A B' \<and> grow B B' \<and> entries (aK B') = entries (aK B)"
      using runs_ok by (intro exI [of _ None] exI [of _ B]) simp
  qed (simp_all add: changeCode_drop grow_def)
qed

lemma remove_missing:
  assumes ok: "env_ok env U" and k: "k \<in> U" "k \<noteq> []" and none: "aAcc A k = None"
  shows "runs env U (RemoveAccount env k) A (Inl (WrapAdb ''in RemoveAccount'' ErrAccNotFound)) A"
proof -
  have len: "\<not> length k = 0" using k(2) by simp
  show ?thesis unfolding RemoveAccount_def if_not_P [OF len]
    by (rule runs_tryE [OF runs_getAccount [OF ok k]], simp only: none option.map option.case) (rule runs_fail)
qed

lemma remove_account:
  assumes ok: "env_ok env U" and w: "absOk env U A" and k: "k \<in> U" "k \<noteq> []" and d: "aAcc A k = Some d"
    and refs: "refsOk env U (aAcc A) (aCod A)"
  shows "\<exists>r A' es. runs env U (RemoveAccount env k) A r A' \<and> undoes env U {} {} (accountEntry k A # es) A A' \<and>
    (r = Inr () \<longrightarrow> aAcc A' = (aAcc A)(k := None) \<and> refsOk env U (aAcc A') (aCod A')) \<and> sameData A A'"
proof -
  let ?acc = "freshAcc k d" and ?A0 = "pushEntry (accountEntry k A) A" and ?h = "uaCodeHash d"
  have len: "\<not> length k = 0" using k(2) by simp
  have fin: "finite U" "accsOk U (aAcc A)" using env_okD(2) [OF ok] wf_sel(1) [OF w] by auto
  have h: "?h = codeAt (aAcc A) k" by (simp add: codeAt_def d)
  have w0: "absOk env U ?A0" unfolding pushEntry_def by (rule wf_K [OF w]) simp_all
  let ?A1 = "changeCode env ?h [] ?A0"
  have rc: "runs env U (removeCode env ?acc) ?A0 (Inr ()) ?A1"
  proof -
    have "runs env U (journalize (JournalEntryCode (aCod ?A0 ?h) ?h [])) (?A0\<lparr>aCod := dropRef ?h (aCod ?A0)\<rparr>) (Inr ()) ?A1"
      unfolding changeCode_drop by (rule runs_journalize [folded pushEntry_def])
    moreover have "codeHashOk env U ?h" using refs_hash [OF refs fin, of k] h by simp
    moreover have "uaCodeHash (accData ?acc) = ?h" by (simp add: freshAcc_def)
    ultimately show ?thesis unfolding removeCode_def Let_def
      by (simp only:) (rule runs_tryE [OF runs_updateOldCodeEntry [OF ok]])
  qed
  obtain r A2 es where rm: "runs env U (removeDataTrie env ?acc) ?A1 r A2" "undoes env U {k} {k} es ?A1 A2" "aAcc A2 = aAcc ?A1"
    "aCod A2 = aCod ?A1" "sameData ?A1 A2" using remove_data by blast
  have both: "runs env U (removeCodeAndDataTrie env ?acc) ?A0 r A2" unfolding removeCodeAndDataTrie_def by (rule runs_tryE [OF rc], rule rm(1))
  have u0: "undoes env U {} {k} ([accountEntry k A] @ [JournalEntryCode (aCod A ?h) ?h []] @ es) A A2"
    using undoes_trans [OF undoes_account [OF ok wf_sel(1) [OF w] k(1)] undoes_trans [OF undoes_drop [OF ok w0, of ?h] rm(2)]] refs_code [OF refs fin, of k] h by auto
  have same: "sameData A A2" using rm(5) by (simp add: sameData_def changeCode_sel)
  have entry: "runs env U (journalize (JournalEntryAccount ?acc)) A (Inr ()) ?A0"
    unfolding pushEntry_def using runs_journalize by (simp add: accountEntry_def d)
  have head: "runs env U (RemoveAccount env k) A x A'" if "runs env U (tryE (removeCodeAndDataTrie env ?acc) (\<lambda>_. mainDelete env k)) ?A0 x A'" for x A'
    unfolding RemoveAccount_def if_not_P [OF len]
    by (rule runs_tryE [OF runs_getAccount [OF ok k]], simp only: d option.map option.case) (rule runs_tryE [OF entry that])
  show ?thesis
  proof (cases r)
    case (Inl e)
    have "undoes env U {k} {} [] A2 A2" by (rule undoes_none) (auto simp: sim_def)
    from undoes_trans [OF u0 this]
    have "undoes env U {} {} (accountEntry k A # [JournalEntryCode (aCod A ?h) ?h []] @ es) A A2" by simp
    moreover have "runs env U (RemoveAccount env k) A (Inl e) A2" using head [OF runs_tryE_Inl] both Inl by blast
    ultimately show ?thesis using same by (intro exI [of _ "Inl e"] exI [of _ A2]) blast
  next
    case (Inr u)
    let ?A3 = "A2\<lparr>aAcc := (aAcc A2)(k := None)\<rparr>"
    have "undoes env U {} {} (accountEntry k A # [JournalEntryCode (aCod A ?h) ?h []] @ es) A ?A3"
      using undoes_trans [OF u0 undoes_write] by simp
    moreover have "runs env U (RemoveAccount env k) A (Inr ()) ?A3"
      by (rule head, rule runs_tryE [OF both [unfolded Inr]], rule runs_account_clear(2) [OF ok k(1)])
    moreover have "refsOk env U ((aAcc A)(k := None)) (dropRef ?h (aCod A))"
    proof (cases "?h = []")
      case True
      then show ?thesis using refs_same [OF refs, of k None] h dropRef_none [of "aCod A" "[]"] wf_apart(4) [OF ok w] by simp
    next
      case False
      then show ?thesis using refs_change [OF ok refs fin(2) wf_sel(2) [OF w] k(1), of "[]" ?h "[]" None] h by (simp add: newCodeHash_def)
    qed
    moreover have "sameData A ?A3" using same by (simp add: sameData_def)
    ultimately show ?thesis using rm(3,4) by (intro exI [of _ "Inr ()"] exI [of _ ?A3]) (auto simp: changeCode_sel)
  qed
qed

section \<open>Going back\<close>

lemma recreated_level: "recreated env K h = Inr tr \<Longrightarrow> maxTrieLevelInMemory tr = maxTrieLevelInMemory (mainTrie K)"
  by (auto simp: recreated_def recreate_def recreateFromDb_def NewTrie_def emptyTrie_def thenE_def split: if_splits sum.splits)

lemma runs_recreateTrie:
  assumes tr: "recreated env (aK A) h = Inr tr" "holds (tEnv env) tr (mainMap env Acc Cod)" and w: "accsOk U Acc" "codsOk env U Cod"
  shows "runs env U (recreateTrie env h) A (Inr ())
    (A\<lparr>aK := (aK A)\<lparr>obsoleteDataTrieHashes := [], dataTries := [], entries := []\<rparr>, aAcc := Acc, aCod := Cod\<rparr>)"
proof (rule runsI)
  fix s
  assume v: "view env U s A"
  let ?s = "s\<lparr>obsoleteDataTrieHashes := [], dataTries := [], entries := [], mainTrie := tr\<rparr>"
  let ?A = "A\<lparr>aK := (aK A)\<lparr>obsoleteDataTrieHashes := [], dataTries := [], entries := []\<rparr>, aAcc := Acc, aCod := Cod\<rparr>"
  have lvl: "maxTrieLevelInMemory tr = maxTrieLevelInMemory (mainTrie s)" using recreated_level [OF tr(1)] view_sel(9) [OF v] by simp
  have "trieStorage tr = storage s" using recreated_storage [OF tr(1)] view_sel(8) [OF v] by simp
  then have "tr\<lparr>trieStorage := storage s\<rparr> = tr" by simp
  then have h: "holds (tEnv env) (tr\<lparr>trieStorage := storage s\<rparr>) (mainMap env Acc Cod)" using tr(2) by (simp only:)
  have "skel ?s = (skel s)\<lparr>obsoleteDataTrieHashes := [], dataTries := [], entries := []\<rparr>" by (simp add: lvl)
  then have "view env U ?s ?A" using v w h lvl unfolding view_def absOk_def heldOk_def by simp
  moreover have "run_state (recreateTrie env h) s = (Inr (), ?s)"
    using recreated_state [OF v, of h] tr(1) by (simp add: recreateTrie_def)
  ultimately show "\<exists>s'. run_state (recreateTrie env h) s = (Inr (), s') \<and> view env U s' ?A" by blast
qed

lemma runs_run:
  assumes "\<And>s. view env U s A \<Longrightarrow> run_state m s = run_state m' s" and "runs env U m' A r A'"
  shows "runs env U m A r A'"
  using assms unfolding runs_def by simp

lemma revert_journal:
  assumes u: "undoes env U {} {} es A A'" and ne: "entries (aK A) \<noteq> []"
  shows "\<exists>B. runs env U (RevertToSnapshot env (int (length (entries (aK A))))) A' (Inr ()) B \<and> sim {} A B \<and> grow A' B \<and>
    entries (aK B) = entries (aK A)"
proof -
  have e: "entries (aK A') = entries (aK A) @ es" using u by (simp add: undoes_def)
  obtain B where B: "runs env U (revertLoop env (rev es)) A' (Inr ()) B" "sim {} A B" "grow A' B" "entries (aK B) = entries (aK A')"
    using u unfolding undoes_def by (meson sim_refl)
  let ?n = "length (entries (aK A))" and ?cut = "\<lambda>n. State (\<lambda>s. (Inr (), s\<lparr>entries := take n (entries s)\<rparr>))"
  let ?B = "B\<lparr>aK := (aK B)\<lparr>entries := entries (aK A)\<rparr>\<rparr>"
  have "runs env U (?cut ?n) B (Inr ()) ?B"
  proof (rule runs_field)
    show "run_state (?cut ?n) s = (Inr (), s\<lparr>entries := take ?n (entries s)\<rparr>)" for s by simp
  qed (simp_all add: view_sel view_skel wf_K B(4) e)
  with B(1) have "runs env U (tryE (revertLoop env (rev es)) (\<lambda>_. ?cut ?n)) A' (Inr ()) ?B" by (rule runs_tryE)
  then have "runs env U (RevertToSnapshot env (int ?n)) A' (Inr ()) ?B"
  proof (rule runs_run [rotated])
    fix s
    assume v: "view env U s A'"
    have s: "entries s = entries (aK A) @ es" using view_sel(5) [OF v] e by simp
    have b: "\<not> (int ?n > int (length (entries s)) \<or> int ?n < 0)" "int ?n \<noteq> 0" "drop ?n (entries s) = es" using s ne by simp_all
    have "run_state (RevertToSnapshot env (int ?n)) s = run_state (if int ?n > int (length (entries s)) \<or> int ?n < 0
        then fail ErrSnapshotValueOutOfBounds else if int ?n = 0 then recreateTrie env (lastRootHash s)
        else tryE (revertLoop env (rev (drop (nat (int ?n)) (entries s)))) (\<lambda>_. ?cut (nat (int ?n)))) s"
      unfolding RevertToSnapshot_def run_state_tryE [of "gets (\<lambda>s. Inr s)"] by simp
    then show "run_state (RevertToSnapshot env (int ?n)) s = run_state (tryE (revertLoop env (rev es)) (\<lambda>_. ?cut ?n)) s"
      unfolding if_not_P [OF b(1)] if_not_P [OF b(2)] nat_int b(3) .
  qed
  moreover have "grow B ?B" by (rule grow_same) simp_all
  then have "sim {} A ?B" "grow A' ?B" using B(2,3) grow_trans unfolding sim_def by auto
  ultimately show ?thesis by (intro exI [of _ ?B]) simp
qed

text \<open>The state right after a commit: the storage has the main trie and the data tries.\<close>

definition committed :: "adbEnv \<Rightarrow> bytes set \<Rightarrow> adbAbs \<Rightarrow> bool" where
  "committed env U A \<longleftrightarrow>
     (\<exists>tr. recreated env (aK A) (lastRootHash (aK A)) = Inr tr \<and> holds (tEnv env) tr (mainMap env (aAcc A) (aCod A))) \<and>
     (\<forall>k d. aAcc A k = Some d \<longrightarrow> uaRootHash d = [] \<or> loads env U (aK A) (uaRootHash d))"

lemma revert_zero:
  assumes w: "absOk env U A" and c: "committed env U A"
    and same: "storage (aK A') = storage (aK A)" "lastRootHash (aK A') = lastRootHash (aK A)"
      "maxTrieLevelInMemory (mainTrie (aK A')) = maxTrieLevelInMemory (mainTrie (aK A))"
  shows "\<exists>B. runs env U (RevertToSnapshot env 0) A' (Inr ()) B \<and> aAcc B = aAcc A \<and> aCod B = aCod A \<and> dataTries (aK B) = [] \<and>
    entries (aK B) = [] \<and> storage (aK B) = storage (aK A) \<and> lastRootHash (aK B) = lastRootHash (aK A) \<and>
    maxTrieLevelInMemory (mainTrie (aK B)) = maxTrieLevelInMemory (mainTrie (aK A))"
proof -
  let ?B = "A'\<lparr>aK := (aK A')\<lparr>obsoleteDataTrieHashes := [], dataTries := [], entries := []\<rparr>, aAcc := aAcc A, aCod := aCod A\<rparr>"
  obtain tr where "recreated env (aK A) (lastRootHash (aK A)) = Inr tr" "holds (tEnv env) tr (mainMap env (aAcc A) (aCod A))"
    using c unfolding committed_def by blast
  then have "runs env U (recreateTrie env (lastRootHash (aK A))) A' (Inr ()) ?B"
    using runs_recreateTrie [of env A' "lastRootHash (aK A)" tr "aAcc A" "aCod A" U] recreated_cong [OF same(1,3)] wf_sel(1,2) [OF w] by simp
  then have "runs env U (RevertToSnapshot env 0) A' (Inr ()) ?B"
    by (rule runs_run [rotated]) (simp add: RevertToSnapshot_def view_sel(6) same(2))
  then show ?thesis using same by (intro exI [of _ ?B]) simp
qed

end
