(* ===== verification/AccountsRuns.thy ===== *)
theory AccountsRuns
  imports AccountsLoad
begin

text \<open>
  What a client of the accounts database does between two commits: it loads an account, edits it and saves it, removes an
  account, and runs groups of such calls that it undoes with the journal when one of them fails. The invariant of the
  database is kept by every successful call, and every group of calls can be undone.
\<close>

section \<open>Clients\<close>

datatype accountEdit =
    EAddToBalance int
  | ESubFromBalance int
  | EIncreaseNonce u64
  | EAddToDeveloperReward int
  | EClaimDeveloperRewards bytes
  | EChangeOwnerAddress bytes bytes
  | ESetOwnerAddress bytes
  | ESetUserName bytes
  | ESetCodeMetadata bytes
  | ESetCode bytes
  | ESaveKeyValue bytes bytes

definition onData :: "nat \<Rightarrow> (UserAccountData \<Rightarrow> adb_error + UserAccountData) \<Rightarrow> unit adb" where
  "onData a f = tryE (getAcc a) (\<lambda>acc. case f (accData acc) of Inl e \<Rightarrow> fail e
     | Inr d \<Rightarrow> modifyAcc a (\<lambda>acc. acc\<lparr>accData := d\<rparr>))"

fun runEdit :: "adbEnv \<Rightarrow> nat \<Rightarrow> accountEdit \<Rightarrow> unit adb" where
  "runEdit env a (EAddToBalance v) = onData a (AddToBalance v)"
| "runEdit env a (ESubFromBalance v) = onData a (SubFromBalance v)"
| "runEdit env a (EIncreaseNonce v) = onData a (\<lambda>d. Inr (IncreaseNonce v d))"
| "runEdit env a (EAddToDeveloperReward v) = onData a (\<lambda>d. Inr (AddToDeveloperReward v d))"
| "runEdit env a (EClaimDeveloperRewards sndAddress) = onData a (\<lambda>d. case ClaimDeveloperRewards sndAddress d of Inl e \<Rightarrow> Inl e | Inr (v, d) \<Rightarrow> Inr d)"
| "runEdit env a (EChangeOwnerAddress sndAddress newAddress) = onData a (ChangeOwnerAddress sndAddress newAddress)"
| "runEdit env a (ESetOwnerAddress ad) = onData a (\<lambda>d. Inr (d\<lparr>uaOwnerAddress := ad\<rparr>))"
| "runEdit env a (ESetUserName n) = onData a (\<lambda>d. Inr (d\<lparr>uaUserName := n\<rparr>))"
| "runEdit env a (ESetCodeMetadata m) = onData a (\<lambda>d. Inr (d\<lparr>uaCodeMetadata := m\<rparr>))"
| "runEdit env a (ESetCode code) = SetCode a code"
| "runEdit env a (ESaveKeyValue key v) = SaveKeyValue env a key v"

fun runEdits :: "adbEnv \<Rightarrow> nat \<Rightarrow> accountEdit list \<Rightarrow> unit adb" where
  "runEdits env a [] = ok ()"
| "runEdits env a (e # es) = tryE (runEdit env a e) (\<lambda>_. runEdits env a es)"

text \<open>A group of calls takes a snapshot first and goes back to it when one of its calls fails, as the processing of
  transactions and of calls between contracts does.\<close>

datatype adbCall =
    Touch bytes "accountEdit list"
  | Remove bytes
  | Group "adbCall list"

fun runCall :: "adbEnv \<Rightarrow> adbCall \<Rightarrow> unit adb" and runCalls :: "adbEnv \<Rightarrow> adbCall list \<Rightarrow> unit adb" where
  "runCall env (Touch k es) = tryE (LoadAccount env k) (\<lambda>a. tryE (runEdits env a es) (\<lambda>_. SaveAccount env (Some a)))"
| "runCall env (Remove k) = RemoveAccount env k"
| "runCall env (Group cs) = tryE JournalLen (\<lambda>n. State (\<lambda>s. case run_state (runCalls env cs) s of
     (Inr _, s') \<Rightarrow> (Inr (), s') | (Inl _, s') \<Rightarrow> run_state (RevertToSnapshot env n) s'))"
| "runCalls env [] = ok ()"
| "runCalls env (c # cs) = tryE (runCall env c) (\<lambda>_. runCalls env cs)"

fun editOk :: "bytes set \<Rightarrow> accountEdit \<Rightarrow> bool" where
  "editOk U (ESetCode code) \<longleftrightarrow> code \<in> U"
| "editOk U (ESaveKeyValue key v) \<longleftrightarrow> key \<in> U"
| "editOk U _ \<longleftrightarrow> True"

fun callOk :: "bytes set \<Rightarrow> adbCall \<Rightarrow> bool" where
  "callOk U (Touch k es) \<longleftrightarrow> k \<in> U \<and> k \<noteq> [] \<and> (\<forall>e\<in>set es. editOk U e)"
| "callOk U (Remove k) \<longleftrightarrow> k \<in> U \<and> k \<noteq> []"
| "callOk U (Group cs) \<longleftrightarrow> (\<forall>c\<in>set cs. callOk U c)"

section \<open>The invariant\<close>

definition adbInv :: "adbEnv \<Rightarrow> bytes set \<Rightarrow> adbAbs \<Rightarrow> bool" where
  "adbInv env U A \<longleftrightarrow> refsOk env U (aAcc A) (aCod A) \<and> reach env U A \<and> (entries (aK A) = [] \<longrightarrow> committed env U A)"

definition sameBase :: "adbAbs \<Rightarrow> adbAbs \<Rightarrow> bool" where
  "sameBase A A' \<longleftrightarrow> storage (aK A') = storage (aK A) \<and> lastRootHash (aK A') = lastRootHash (aK A) \<and>
     maxTrieLevelInMemory (mainTrie (aK A')) = maxTrieLevelInMemory (mainTrie (aK A))"

text \<open>Every state that a run reaches can be taken back to where the run began: from the storage when the journal was
  empty, through the journal otherwise.\<close>

definition tracks :: "adbEnv \<Rightarrow> bytes set \<Rightarrow> adbAbs \<Rightarrow> adbAbs \<Rightarrow> bool" where
  "tracks env U A A' \<longleftrightarrow> (if entries (aK A) = [] then sameBase A A' else \<exists>es. undoes env U {} {} es A A')"

lemma grow_sameBase: "grow A A' \<Longrightarrow> sameBase A A'"
  by (simp add: grow_def sameBase_def)

lemma undoes_tracks: "undoes env U {} {} es A A' \<Longrightarrow> tracks env U A A'"
  unfolding tracks_def using grow_sameBase by (auto simp: undoes_def)

lemma tracks_sameBase: "tracks env U A A' \<Longrightarrow> sameBase A A'"
  unfolding tracks_def using grow_sameBase by (auto simp: undoes_def split: if_splits)

lemma tracks_trans:
  assumes "tracks env U A A'" and "tracks env U A' A''"
  shows "tracks env U A A''"
proof (cases "entries (aK A) = []")
  case True
  then show ?thesis using tracks_sameBase [OF assms(1)] tracks_sameBase [OF assms(2)] by (simp add: tracks_def sameBase_def)
next
  case False
  then obtain es where es: "undoes env U {} {} es A A'" using assms(1) by (auto simp: tracks_def)
  then have "entries (aK A') \<noteq> []" using False by (auto simp: undoes_def)
  then obtain es' where "undoes env U {} {} es' A' A''" using assms(2) by (auto simp: tracks_def)
  then show ?thesis using undoes_trans [OF es] undoes_tracks by blast
qed

lemma undoes_refl: "undoes env U X X [] A A"
  by (rule undoes_grow) simp_all

lemma tracks_refl: "tracks env U A A"
  by (rule undoes_tracks [OF undoes_refl])

lemma sim_undoes: "sim {} A B \<Longrightarrow> entries (aK B) = entries (aK A) \<Longrightarrow> undoes env U {} {} [] A B"
  by (rule undoes_grow) (auto simp: sim_def)

lemma committed_grow: "committed env U A \<Longrightarrow> sameBase A B \<Longrightarrow> aAcc B = aAcc A \<Longrightarrow> aCod B = aCod A \<Longrightarrow> committed env U B"
  unfolding committed_def loads_def recreated_def sameBase_def by simp

lemma inv_grow:
  assumes "adbInv env U A" and "grow A B" and "aAcc B = aAcc A" "aCod B = aCod A" "entries (aK B) = entries (aK A)"
  shows "adbInv env U B"
  using assms reach_grow [OF _ assms(2,3)] committed_grow [OF _ grow_sameBase [OF assms(2)] assms(3,4)] by (simp add: adbInv_def)

text \<open>Going back from any state that a run has reached.\<close>

lemma go_back:
  assumes w: "absOk env U A" and i: "adbInv env U A" and t: "tracks env U A A'"
  shows "\<exists>B. runs env U (RevertToSnapshot env (int (length (entries (aK A))))) A' (Inr ()) B \<and> aAcc B = aAcc A \<and> aCod B = aCod A \<and>
    entries (aK B) = entries (aK A) \<and> (entries (aK A) \<noteq> [] \<longrightarrow> sim {} A B) \<and> tracks env U A B \<and> adbInv env U B"
proof (cases "entries (aK A) = []")
  case True
  then have c: "committed env U A" and b: "sameBase A A'" using i t by (simp_all add: adbInv_def tracks_def)
  obtain B where B: "runs env U (RevertToSnapshot env 0) A' (Inr ()) B" "aAcc B = aAcc A" "aCod B = aCod A" "dataTries (aK B) = []"
    "entries (aK B) = []" "sameBase A B" using revert_zero [OF w c] b unfolding sameBase_def by blast
  have cB: "committed env U B" by (rule committed_grow [OF c B(6,2,3)])
  then have "reach env U B" unfolding reach_def committed_def by blast
  then have "adbInv env U B" using i cB B(2,3) by (simp add: adbInv_def)
  then show ?thesis using True B by (intro exI [of _ B]) (simp add: tracks_def)
next
  case False
  then obtain es where "undoes env U {} {} es A A'" using t by (auto simp: tracks_def)
  from revert_journal [OF this False] obtain B where
    B: "runs env U (RevertToSnapshot env (int (length (entries (aK A))))) A' (Inr ()) B" "sim {} A B" "entries (aK B) = entries (aK A)" by blast
  have same: "aAcc B = aAcc A" "aCod B = aCod A" "grow A B" using B(2) by (auto simp: sim_def)
  show ?thesis using B same inv_grow [OF i same(3,1,2) B(3)] undoes_tracks [OF sim_undoes [OF B(2,3)]] by blast
qed

text \<open>A state of the database that the clients may work on.\<close>

definition goodState :: "adbEnv \<Rightarrow> bytes set \<Rightarrow> adbState \<Rightarrow> bool" where
  "goodState env U s \<longleftrightarrow> (\<exists>A. view env U s A \<and> adbInv env U A)"

section \<open>Editing\<close>

text \<open>What an edit does to the object.\<close>

definition onAcc :: "(UserAccountData \<Rightarrow> adb_error + UserAccountData) \<Rightarrow> userAccount \<Rightarrow> adb_error + userAccount" where
  "onAcc f acc = (case f (accData acc) of Inl e \<Rightarrow> Inl e | Inr d \<Rightarrow> Inr (acc\<lparr>accData := d\<rparr>))"

fun editObj :: "adbEnv \<Rightarrow> accountEdit \<Rightarrow> userAccount \<Rightarrow> adb_error + userAccount" where
  "editObj env (EAddToBalance v) acc = onAcc (AddToBalance v) acc"
| "editObj env (ESubFromBalance v) acc = onAcc (SubFromBalance v) acc"
| "editObj env (EIncreaseNonce v) acc = onAcc (\<lambda>d. Inr (IncreaseNonce v d)) acc"
| "editObj env (EAddToDeveloperReward v) acc = onAcc (\<lambda>d. Inr (AddToDeveloperReward v d)) acc"
| "editObj env (EClaimDeveloperRewards sndAddress) acc =
     onAcc (\<lambda>d. case ClaimDeveloperRewards sndAddress d of Inl e \<Rightarrow> Inl e | Inr (v, d) \<Rightarrow> Inr d) acc"
| "editObj env (EChangeOwnerAddress sndAddress newAddress) acc = onAcc (ChangeOwnerAddress sndAddress newAddress) acc"
| "editObj env (ESetOwnerAddress ad) acc = onAcc (\<lambda>d. Inr (d\<lparr>uaOwnerAddress := ad\<rparr>)) acc"
| "editObj env (ESetUserName n) acc = onAcc (\<lambda>d. Inr (d\<lparr>uaUserName := n\<rparr>)) acc"
| "editObj env (ESetCodeMetadata m) acc = onAcc (\<lambda>d. Inr (d\<lparr>uaCodeMetadata := m\<rparr>)) acc"
| "editObj env (ESetCode code) acc = Inr (acc\<lparr>accHasNewCode := True, accCode := code\<rparr>)"
| "editObj env (ESaveKeyValue key v) acc =
     (if (of_nat (length v) :: u64) > maxLeafSize env then Inl ErrLeafSizeTooBig
      else Inr (acc\<lparr>accTracker := (accTracker acc)\<lparr>tdtDirtyData :=
        setEntry key \<lparr>ddValue = v, ddNewVersion = versionForNewData env\<rparr> (tdtDirtyData (accTracker acc))\<rparr>\<rparr>))"

fun editsObj :: "adbEnv \<Rightarrow> accountEdit list \<Rightarrow> userAccount \<Rightarrow> adb_error + userAccount" where
  "editsObj env [] acc = Inr acc"
| "editsObj env (e # es) acc = (case editObj env e acc of Inl x \<Rightarrow> Inl x | Inr acc \<Rightarrow> editsObj env es acc)"

lemma runs_onData:
  "onAcc f (obj A a) = Inr acc \<Longrightarrow> runs env U (onData a f) A (Inr ()) (putObj a acc A)"
  "onAcc f (obj A a) = Inl e \<Longrightarrow> runs env U (onData a f) A (Inl e) A"
proof -
  assume h: "onAcc f (obj A a) = Inr acc"
  then obtain d where d: "f (accData (obj A a)) = Inr d" "acc = (obj A a)\<lparr>accData := d\<rparr>" by (auto simp: onAcc_def split: sum.splits)
  show "runs env U (onData a f) A (Inr ()) (putObj a acc A)" unfolding onData_def
    by (rule runs_tryE [OF runs_getAcc], unfold d(1) sum.case, rule runs_eq [OF runs_modifyAcc]) (simp add: d(2))
next
  assume h: "onAcc f (obj A a) = Inl e"
  then have d: "f (accData (obj A a)) = Inl e" by (auto simp: onAcc_def split: sum.splits)
  show "runs env U (onData a f) A (Inl e) A" unfolding onData_def
    by (rule runs_tryE [OF runs_getAcc], unfold d sum.case, rule runs_fail)
qed

lemma runs_edit:
  "editObj env e (obj A a) = Inr acc \<Longrightarrow> runs env U (runEdit env a e) A (Inr ()) (putObj a acc A)"
  "editObj env e (obj A a) = Inl x \<Longrightarrow> runs env U (runEdit env a e) A (Inl x) A"
proof -
  have code: "runs env U (SetCode a code) A (Inr ()) (putObj a ((obj A a)\<lparr>accHasNewCode := True, accCode := code\<rparr>) A)" for code
    unfolding SetCode_def by (rule runs_modifyAcc)
  have key: "runs env U (SaveKeyValue env a k v) A (Inr ()) (putObj a ((obj A a)\<lparr>accTracker := (accTracker (obj A a))\<lparr>tdtDirtyData :=
        setEntry k \<lparr>ddValue = v, ddNewVersion = versionForNewData env\<rparr> (tdtDirtyData (accTracker (obj A a)))\<rparr>\<rparr>) A)"
    if "\<not> (of_nat (length v) :: u64) > maxLeafSize env" for k v
    unfolding SaveKeyValue_def if_not_P [OF that] by (rule runs_modifyAcc)
  show "editObj env e (obj A a) = Inr acc \<Longrightarrow> runs env U (runEdit env a e) A (Inr ()) (putObj a acc A)"
    using runs_onData(1) code key by (cases e) (auto split: if_splits)
  show "editObj env e (obj A a) = Inl x \<Longrightarrow> runs env U (runEdit env a e) A (Inl x) A"
    using runs_onData(2) runs_fail by (cases e) (auto simp: SaveKeyValue_def split: if_splits)
qed

definition rootAt :: "(bytes \<rightharpoonup> UserAccountData) \<Rightarrow> bytes \<Rightarrow> bytes" where
  "rootAt Acc k = (case Acc k of None \<Rightarrow> [] | Some d \<Rightarrow> uaRootHash d)"

text \<open>An object that was loaded and edited, ready to be saved.\<close>

definition ready :: "adbEnv \<Rightarrow> bytes set \<Rightarrow> bytes \<Rightarrow> adbAbs \<Rightarrow> userAccount \<Rightarrow> bool" where
  "ready env U k A acc \<longleftrightarrow> uaAddress (accData acc) = k \<and> tdtIdentifier (accTracker acc) = k \<and> objOk env U A acc \<and>
     (accHasNewCode acc \<longrightarrow> accCode acc \<in> U) \<and> uaCodeHash (accData acc) = codeAt (aAcc A) k \<and> uaRootHash (accData acc) = rootAt (aAcc A) k"

lemma setEntry_keys: "set (map fst (setEntry k v xs)) = insert k (set (map fst xs)) \<and> (distinct (map fst xs) \<longrightarrow> distinct (map fst (setEntry k v xs)))"
proof (induction xs)
  case (Cons p xs)
  then show ?case by (cases p; cases "fst p = k") auto
qed simp

lemma setEntry_distinct: "distinct (map fst xs) \<Longrightarrow> distinct (map fst (setEntry k v xs))"
  using setEntry_keys [of k v xs] by simp

lemma setEntry_set: "e \<in> set (setEntry k v xs) \<Longrightarrow> e = (k, v) \<or> e \<in> set xs"
  by (induction xs) (auto split: if_splits)

lemma ready_edit:
  assumes r: "ready env U k A acc" and e: "editOk U e" and ed: "editObj env e acc = Inr acc'"
  shows "ready env U k A acc' \<and> tdtTr (accTracker acc') = tdtTr (accTracker acc)"
proof (cases e)
  case (ESaveKeyValue key v)
  then have acc': "acc' = acc\<lparr>accTracker := (accTracker acc)\<lparr>tdtDirtyData :=
      setEntry key \<lparr>ddValue = v, ddNewVersion = versionForNewData env\<rparr> (tdtDirtyData (accTracker acc))\<rparr>\<rparr>"
    using ed by (simp split: if_splits)
  have "dirtyOk env U (tdtDirtyData (accTracker acc'))"
    using r e ESaveKeyValue by (auto simp: ready_def objOk_def dirtyOk_def acc' dest!: setEntry_set)
  then show ?thesis using r by (auto simp: ready_def objOk_def acc' setEntry_distinct)
next
  case (ESetCode code)
  then show ?thesis using r e ed by (auto simp: ready_def objOk_def)
qed (use r ed in \<open>auto simp: onAcc_def ready_def objOk_def AddToBalance_def SubFromBalance_def IncreaseNonce_def AddToDeveloperReward_def
    ClaimDeveloperRewards_def ChangeOwnerAddress_def Let_def split: if_splits sum.splits\<close>)

lemma ready_cong: "aAcc A' = aAcc A \<Longrightarrow> aD A' = aD A \<Longrightarrow> ready env U k A' acc = ready env U k A acc"
  by (simp add: ready_def objOk_def)

lemma runs_edits:
  assumes "\<forall>e\<in>set es. editOk U e" and "ready env U k A (obj A a)"
  shows "(\<exists>x B. editsObj env es (obj A a) = Inl x \<and> runs env U (runEdits env a es) A (Inl x) B \<and> undoes env U {} {} [] A B) \<or>
    (\<exists>acc. editsObj env es (obj A a) = Inr acc \<and> runs env U (runEdits env a es) A (Inr ()) (putObj a acc A) \<and> ready env U k A acc \<and>
       tdtTr (accTracker acc) = tdtTr (accTracker (obj A a)))"
  using assms
proof (induction es arbitrary: A)
  case Nil
  have "putObj a (obj A a) A = A" by simp
  then have "runs env U (runEdits env a []) A (Inr ()) (putObj a (obj A a) A)" using runs_ok [of env U "()" A] by (simp only: runEdits.simps)
  then show ?case using Nil.prems(2) by (metis editsObj.simps(1))
next
  case (Cons e es)
  show ?case
  proof (cases "editObj env e (obj A a)")
    case (Inl x)
    have "runs env U (runEdits env a (e # es)) A (Inl x) A" using Inl unfolding runEdits.simps by (intro runs_tryE_Inl runs_edit(2))
    moreover have "editsObj env (e # es) (obj A a) = Inl x" using Inl by simp
    ultimately show ?thesis using undoes_refl by blast
  next
    case (Inr acc)
    let ?A = "putObj a acc A"
    note run = runs_edit(1) [OF Inr, of U]
    have acc: "ready env U k A acc" "tdtTr (accTracker acc) = tdtTr (accTracker (obj A a))"
      using ready_edit [OF Cons.prems(2) _ Inr] Cons.prems(1) by simp_all
    have "uaAddress (accData acc) = uaAddress (accData (obj A a))" using acc(1) Cons.prems(2) by (simp add: ready_def)
    then have u: "undoes env U {} {} [] A ?A" using acc(2) by (intro undoes_grow grow_putObj) simp_all
    have rest: "\<forall>e\<in>set es. editOk U e" "ready env U k ?A (obj ?A a)" using Cons.prems(1) acc(1) ready_cong [of ?A A] by simp_all
    from Cons.IH [OF rest] show ?thesis
    proof (elim disjE exE conjE)
      fix x B
      assume h: "editsObj env es (obj ?A a) = Inl x" "runs env U (runEdits env a es) ?A (Inl x) B" "undoes env U {} {} [] ?A B"
      then have "runs env U (runEdits env a (e # es)) A (Inl x) B" "undoes env U {} {} [] A B"
        using runs_tryE [OF run] undoes_trans [OF u, of "{}" "[]" B] by simp_all
      moreover have "editsObj env (e # es) (obj A a) = Inl x" using h(1) Inr by simp
      ultimately show ?thesis by blast
    next
      fix acc'
      assume h: "editsObj env es (obj ?A a) = Inr acc'" "runs env U (runEdits env a es) ?A (Inr ()) (putObj a acc' ?A)" "ready env U k ?A acc'"
        "tdtTr (accTracker acc') = tdtTr (accTracker (obj ?A a))"
      have "runs env U (runEdits env a (e # es)) A (Inr ()) (putObj a acc' A)"
        unfolding runEdits.simps by (rule runs_tryE [OF run], rule runs_eq [OF h(2)]) simp
      moreover have "editsObj env (e # es) (obj A a) = Inr acc'" using h(1) Inr by simp
      moreover have "ready env U k A acc'" using h(3) ready_cong [of ?A A] by simp
      moreover have "tdtTr (accTracker acc') = tdtTr (accTracker (obj A a))" using h(4) acc(2) by simp
      ultimately show ?thesis by blast
    qed
  qed
qed

section \<open>Calls\<close>

lemma loaded_ready:
  assumes w: "absOk env U A'" and l: "loaded k A A'" and a: "accsOk U (aAcc A)"
  shows "ready env U k A' (obj A' (nextAccount (aK A)))" "nextAccount (aK A) < nextAccount (aK A')"
proof -
  have "uaAddress d = k" if "aAcc A k = Some d" for d using that a by (auto simp: accsOk_def)
  moreover have "aD A' r \<noteq> None" if "map_of (dataTries (aK A')) k = Some r" for r using that wf_sel(5) [OF w] by (auto simp: heldOk_def)
  ultimately show "ready env U k A' (obj A' (nextAccount (aK A)))"
    using l by (cases "aAcc A k") (auto simp: loaded_def ready_def objOk_def dirtyOk_def freshAcc_def loadedAcc_def newData_def codeAt_def rootAt_def)
  show "nextAccount (aK A) < nextAccount (aK A')" using l by (simp add: loaded_def)
qed

lemma reach_save:
  assumes re: "reach env U A" and g: "grow A A'" and acc: "aAcc A' = (aAcc A)(k \<mapsto> d)"
    and d: "uaRootHash d = rootAt (aAcc A) k \<or> map_of (dataTries (aK A')) k \<noteq> None"
  shows "reach env U A'"
  unfolding reach_def
proof (intro allI impI)
  fix k' d'
  assume k': "aAcc A' k' = Some d'"
  show "uaRootHash d' = [] \<or> map_of (dataTries (aK A')) k' \<noteq> None \<or> loads env U (aK A') (uaRootHash d')"
  proof (cases "k' = k")
    case False
    then show ?thesis using re k' acc loads_grow [OF g] held_grow [OF g] unfolding reach_def by (metis fun_upd_other)
  next
    case True
    then have d': "d' = d" using k' acc by simp
    show ?thesis
    proof (cases "aAcc A k")
      case None
      then show ?thesis using d d' True by (auto simp: rootAt_def)
    next
      case (Some d0)
      have "uaRootHash d0 = [] \<or> map_of (dataTries (aK A)) k \<noteq> None \<or> loads env U (aK A) (uaRootHash d0)" using re Some by (simp add: reach_def)
      then show ?thesis using d d' True loads_grow [OF g] held_grow [OF g, of k] Some by (auto simp: rootAt_def)
    qed
  qed
qed

lemma undoes_attached:
  assumes "absOk env U A" and "objOk env U A (obj A a)" and "undoes env U X Y es (attached a A) A'"
  shows "undoes env U X Y es A A'"
  using undoes_weaken [OF assms(3)] attached_sel [of a A] attached_le [OF assms(1,2)] by simp

lemma save_ready:
  assumes ok: "env_ok env U" and v: "view env U s A" and i: "adbInv env U A" and a: "a < nextAccount (aK A)"
    and r: "ready env U k A (obj A a)" and k: "k \<in> U" "k \<noteq> []"
  shows "\<exists>A' A1 es. runs env U (SaveAccount env (Some a)) A (Inr ()) A' \<and> undoes env U {} {} es (attached a A) A' \<and> adbInv env U A' \<and> entries (aK A') \<noteq> [] \<and>
    savedData env a A A1 \<and> aD A' = aD A1 \<and> dataTries (aK A') = dataTries (aK A1) \<and>
    accountHeap (aK A') = (accountHeap (aK A1))(a := setCodeHash (savedHash env (obj A a)) (obj A1 a)) \<and>
    aAcc A' = (aAcc A)(k \<mapsto> accData (obj A' a))"
proof -
  have rd: "uaAddress (accData (obj A a)) = k" "objOk env U A (obj A a)" "accHasNewCode (obj A a) \<Longrightarrow> accCode (obj A a) \<in> U"
    "uaCodeHash (accData (obj A a)) = codeAt (aAcc A) k" "uaRootHash (accData (obj A a)) = rootAt (aAcc A) k"
    using r by (simp_all add: ready_def)
  have iv: "refsOk env U (aAcc A) (aCod A)" "reach env U A" using i by (simp_all add: adbInv_def)
  obtain A' A1 es where s: "runs env U (SaveAccount env (Some a)) A (Inr ()) A'" "undoes env U {} {} (accountEntry k A # es) (attached a A) A'"
    "savedData env a A A1" "aD A' = aD A1" "dataTries (aK A') = dataTries (aK A1)"
    "accountHeap (aK A') = (accountHeap (aK A1))(a := setCodeHash (savedHash env (obj A a)) (obj A1 a))"
    "aAcc A' = (aAcc A)(k \<mapsto> accData (obj A' a))" "refsOk env U (aAcc A') (aCod A')"
    using save_account [OF ok v a rd(2,1) k iv(1) rd(3) rd(4)] by blast
  have "uaRootHash (accData (obj A' a)) = uaRootHash (accData (obj A1 a))" by (simp add: s(6) setCodeHash_def)
  moreover have "uaRootHash (accData (obj A1 a)) = uaRootHash (accData (obj A a)) \<or> map_of (dataTries (aK A1)) k \<noteq> None"
    using s(3) rd(1) unfolding savedData_def Let_def by (auto split: if_splits)
  moreover have "grow A A'" using undoes_attached [OF view_wf [OF v] rd(2) s(2)] by (simp add: undoes_def)
  ultimately have "reach env U A'" using reach_save [OF iv(2) _ s(7)] s(5) rd(5) by auto
  moreover have ne: "entries (aK A') \<noteq> []" using s(2) by (simp add: undoes_def)
  ultimately have "adbInv env U A'" using s(8) by (simp add: adbInv_def)
  then show ?thesis using s ne by blast
qed

text \<open>What a call promises: it can be undone, and when it succeeds the invariant holds.\<close>

definition good :: "adbEnv \<Rightarrow> bytes set \<Rightarrow> unit adb \<Rightarrow> adbAbs \<Rightarrow> bool" where
  "good env U m A \<longleftrightarrow> (\<exists>r A'. runs env U m A r A' \<and> tracks env U A A' \<and> (r = Inr () \<longrightarrow> adbInv env U A'))"

lemma goodI: "runs env U m A r A' \<Longrightarrow> tracks env U A A' \<Longrightarrow> (r = Inr () \<Longrightarrow> adbInv env U A') \<Longrightarrow> good env U m A"
  unfolding good_def by blast

text \<open>What a successful run of \<^verbatim>\<open>Touch\<close> has done: the object was loaded and edited, its data and the account were saved.\<close>

definition touched :: "adbEnv \<Rightarrow> bytes set \<Rightarrow> bytes \<Rightarrow> accountEdit list \<Rightarrow> adbAbs \<Rightarrow> adbAbs \<Rightarrow> userAccount \<Rightarrow> adbAbs \<Rightarrow> adbAbs \<Rightarrow> bool" where
  "touched env U k es A A1 acc As A' \<longleftrightarrow>
     (let a = nextAccount (aK A); A2 = putObj a acc A1 in
      loaded k A A1 \<and> editsObj env es (obj A1 a) = Inr acc \<and> ready env U k A1 acc \<and> tdtTr (accTracker acc) = tdtTr (accTracker (obj A1 a)) \<and>
      savedData env a A2 As \<and> aD A' = aD As \<and> dataTries (aK A') = dataTries (aK As) \<and>
      accountHeap (aK A') = (accountHeap (aK As))(a := setCodeHash (savedHash env acc) (obj As a)) \<and>
      aAcc A' = (aAcc A)(k \<mapsto> accData (obj A' a)) \<and> entries (aK A') \<noteq> [] \<and> (\<exists>es'. undoes env U {} {} es' (attached a A2) A'))"

lemma touch_run:
  assumes ok: "env_ok env U" and v: "view env U s A" and i: "adbInv env U A" and c: "callOk U (Touch k es)"
  shows "(\<exists>A1 x B. loaded k A A1 \<and> editsObj env es (obj A1 (nextAccount (aK A))) = Inl x \<and>
       runs env U (runCall env (Touch k es)) A (Inl x) B \<and> undoes env U {} {} [] A B) \<or>
    (\<exists>A1 acc As A'. runs env U (runCall env (Touch k es)) A (Inr ()) A' \<and> touched env U k es A A1 acc As A' \<and>
       (\<exists>es'. undoes env U {} {} es' A A') \<and> adbInv env U A')"
proof -
  have k: "k \<in> U" "k \<noteq> []" "\<forall>e\<in>set es. editOk U e" using c by simp_all
  have w: "absOk env U A" by (rule view_wf [OF v])
  have re: "reach env U A" using i by (simp add: adbInv_def)
  let ?a = "nextAccount (aK A)"
  obtain A1 where A1: "runs env U (LoadAccount env k) A (Inr ?a) A1" "loaded k A A1" using load_account [OF ok w k(1,2) re] by blast
  obtain s1 where s1: "view env U s1 A1" using runsD [OF A1(1) v] by blast
  have rd: "ready env U k A1 (obj A1 ?a)" "?a < nextAccount (aK A1)" using loaded_ready [OF view_wf [OF s1] A1(2) wf_sel(1) [OF w]] .
  have u1: "undoes env U {} {} [] A A1" by (rule loaded_undoes [OF A1(2)])
  have i1: "adbInv env U A1" using A1(2) inv_grow [OF i] by (simp add: loaded_def)
  from runs_edits [OF k(3) rd(1)] show ?thesis
  proof (elim disjE exE conjE)
    fix x B
    assume ed: "editsObj env es (obj A1 ?a) = Inl x" and e: "runs env U (runEdits env ?a es) A1 (Inl x) B" and u2: "undoes env U {} {} [] A1 B"
    have "runs env U (runCall env (Touch k es)) A (Inl x) B"
      unfolding runCall.simps by (rule runs_tryE [OF A1(1)], rule runs_tryE_Inl, rule e)
    moreover have "undoes env U {} {} [] A B" using undoes_trans [OF u1 u2] by simp
    ultimately show ?thesis using A1(2) ed by blast
  next
    fix acc
    assume e: "runs env U (runEdits env ?a es) A1 (Inr ()) (putObj ?a acc A1)" and acc: "ready env U k A1 acc"
      "tdtTr (accTracker acc) = tdtTr (accTracker (obj A1 ?a))" "editsObj env es (obj A1 ?a) = Inr acc"
    let ?A2 = "putObj ?a acc A1"
    obtain s2 where s2: "view env U s2 ?A2" using runsD [OF e s1] by blast
    have g: "grow A1 ?A2" using acc rd(1) by (intro grow_putObj) (simp_all add: ready_def)
    have i2: "adbInv env U ?A2" by (rule inv_grow [OF i1 g]) simp_all
    have u2: "undoes env U {} {} [] A1 ?A2" by (rule undoes_grow [OF g]) simp_all
    have rd2: "ready env U k ?A2 (obj ?A2 ?a)" "?a < nextAccount (aK ?A2)" using acc(1) ready_cong [of ?A2 A1] rd(2) by simp_all
    obtain A3 As es3 where A3: "runs env U (SaveAccount env (Some ?a)) ?A2 (Inr ()) A3" "undoes env U {} {} es3 (attached ?a ?A2) A3"
      "adbInv env U A3" "savedData env ?a ?A2 As" "aD A3 = aD As" "dataTries (aK A3) = dataTries (aK As)"
      "accountHeap (aK A3) = (accountHeap (aK As))(?a := setCodeHash (savedHash env (obj ?A2 ?a)) (obj As ?a))"
      "aAcc A3 = (aAcc ?A2)(k \<mapsto> accData (obj A3 ?a))" "entries (aK A3) \<noteq> []"
      using save_ready [OF ok s2 i2 rd2(2,1) k(1,2)] by blast
    have run: "runs env U (runCall env (Touch k es)) A (Inr ()) A3"
      unfolding runCall.simps by (rule runs_tryE [OF A1(1)], rule runs_tryE [OF e], rule A3(1))
    have "undoes env U {} {} es3 ?A2 A3" using undoes_attached [OF view_wf [OF s2] _ A3(2)] rd2(1) by (simp add: ready_def)
    from undoes_trans [OF u1 undoes_trans [OF u2 this]] have u: "undoes env U {} {} es3 A A3" by simp
    have "aAcc A3 = (aAcc A)(k \<mapsto> accData (obj A3 ?a))" using A3(8) A1(2) by (simp add: loaded_def)
    then have "touched env U k es A A1 acc As A3"
      unfolding touched_def Let_def using A1(2) acc A3(4-7,9) exI [of "\<lambda>es. undoes env U {} {} es (attached ?a ?A2) A3", OF A3(2)] by simp
    then show ?thesis using run u A3(3) by blast
  qed
qed

lemma touch_good:
  assumes "env_ok env U" and "view env U s A" and "adbInv env U A" and "callOk U (Touch k es)"
  shows "good env U (runCall env (Touch k es)) A"
  using touch_run [OF assms]
proof (elim disjE exE conjE)
  fix x B
  assume "runs env U (runCall env (Touch k es)) A (Inl x) B" "undoes env U {} {} [] A B"
  then show ?thesis using undoes_tracks by (intro goodI [of env U _ A "Inl x" B]) auto
next
  fix A' es'
  assume "runs env U (runCall env (Touch k es)) A (Inr ()) A'" "undoes env U {} {} es' A A'" "adbInv env U A'"
  then show ?thesis using undoes_tracks by (intro goodI [of env U _ A "Inr ()" A']) auto
qed

lemma remove_good:
  assumes ok: "env_ok env U" and v: "view env U s A" and i: "adbInv env U A" and c: "callOk U (Remove k)"
  shows "good env U (runCall env (Remove k)) A"
proof (cases "aAcc A k")
  case None
  then show ?thesis using remove_missing [OF ok, of k A] c tracks_refl by (intro goodI) auto
next
  case (Some d)
  have k: "k \<in> U" "k \<noteq> []" using c by simp_all
  have iv: "refsOk env U (aAcc A) (aCod A)" "reach env U A" using i by (simp_all add: adbInv_def)
  obtain r A' es where A': "runs env U (RemoveAccount env k) A r A'" "undoes env U {} {} (accountEntry k A # es) A A'"
    "r = Inr () \<Longrightarrow> aAcc A' = (aAcc A)(k := None) \<and> refsOk env U (aAcc A') (aCod A')" "sameData A A'"
    using remove_account [OF ok view_wf [OF v] k Some iv(1)] by blast
  have g: "grow A A'" and ne: "entries (aK A') \<noteq> []" using A'(2) by (simp_all add: undoes_def)
  have "adbInv env U A'" if r: "r = Inr ()"
  proof -
    have "reach env U A'" unfolding reach_def
    proof (intro allI impI)
      fix k' d'
      assume "aAcc A' k' = Some d'"
      then have "aAcc A k' = Some d'" using A'(3) [OF r] by (auto split: if_splits)
      then have "uaRootHash d' = [] \<or> map_of (dataTries (aK A)) k' \<noteq> None \<or> loads env U (aK A) (uaRootHash d')" using iv(2) unfolding reach_def by blast
      then show "uaRootHash d' = [] \<or> map_of (dataTries (aK A')) k' \<noteq> None \<or> loads env U (aK A') (uaRootHash d')"
        using loads_grow [OF g] held_grow [OF g, of k'] by blast
    qed
    then show ?thesis using conjunct2 [OF A'(3) [OF r]] ne unfolding adbInv_def by blast
  qed
  then show ?thesis using A'(1) undoes_tracks [OF A'(2)] by (intro goodI) simp_all
qed

text \<open>A group of calls always succeeds.\<close>

lemma group_run:
  assumes v: "view env U s A" and i: "adbInv env U A" and g: "good env U (runCalls env cs) A"
  shows "\<exists>A'. runs env U (runCall env (Group cs)) A (Inr ()) A' \<and> tracks env U A A' \<and> adbInv env U A'"
proof -
  obtain r A' where A': "runs env U (runCalls env cs) A r A'" "tracks env U A A'" "r = Inr () \<Longrightarrow> adbInv env U A'" using g unfolding good_def by blast
  let ?n = "int (length (entries (aK A)))"
  have len: "runs env U JournalLen A (Inr ?n) A" unfolding JournalLen_def by (rule runs_gets) (simp add: view_sel)
  show ?thesis
  proof (cases r)
    case (Inr u)
    have "runs env U (State (\<lambda>s. case run_state (runCalls env cs) s of (Inr _, s') \<Rightarrow> (Inr (), s') | (Inl _, s') \<Rightarrow>
        run_state (RevertToSnapshot env ?n) s')) A (Inr ()) A'" using A'(1) Inr unfolding runs_def by fastforce
    then show ?thesis using A'(2,3) Inr runs_tryE [OF len] by (intro exI [of _ A']) simp
  next
    case (Inl x)
    obtain B where B: "runs env U (RevertToSnapshot env ?n) A' (Inr ()) B" "tracks env U A B" "adbInv env U B"
      using go_back [OF view_wf [OF v] i A'(2)] by blast
    have "runs env U (State (\<lambda>s. case run_state (runCalls env cs) s of (Inr _, s') \<Rightarrow> (Inr (), s') | (Inl _, s') \<Rightarrow>
        run_state (RevertToSnapshot env ?n) s')) A (Inr ()) B" using A'(1) B(1) Inl unfolding runs_def by fastforce
    then show ?thesis using B(2,3) runs_tryE [OF len] by (intro exI [of _ B]) simp
  qed
qed

lemma group_good:
  assumes "view env U s A" and "adbInv env U A" and "good env U (runCalls env cs) A"
  shows "good env U (runCall env (Group cs)) A"
  using group_run [OF assms] goodI by blast

lemma good_seq:
  assumes v: "view env U s A" and m: "good env U m A" and f: "\<And>s' A'. view env U s' A' \<Longrightarrow> adbInv env U A' \<Longrightarrow> good env U f A'"
  shows "good env U (tryE m (\<lambda>_. f)) A"
proof -
  obtain r A' where A': "runs env U m A r A'" "tracks env U A A'" "r = Inr () \<Longrightarrow> adbInv env U A'" using m unfolding good_def by blast
  show ?thesis
  proof (cases r)
    case (Inl x)
    then show ?thesis using A'(1,2) runs_tryE_Inl by (intro goodI [of env U _ A "Inl x" A']) simp_all
  next
    case (Inr u)
    have run: "runs env U m A (Inr ()) A'" using A'(1) Inr by simp
    obtain s' where "view env U s' A'" using runsD [OF run v] by blast
    then obtain r' A'' where A'': "runs env U f A' r' A''" "tracks env U A' A''" "r' = Inr () \<Longrightarrow> adbInv env U A''"
      using f A'(3) Inr unfolding good_def by (metis old.unit.exhaust)
    have "runs env U (tryE m (\<lambda>_. f)) A r' A''" by (rule runs_tryE [OF run A''(1)])
    then show ?thesis using tracks_trans [OF A'(2) A''(2)] A''(3) by (rule goodI)
  qed
qed

lemma calls_good:
  "callOk U c \<Longrightarrow> env_ok env U \<Longrightarrow> view env U s A \<Longrightarrow> adbInv env U A \<Longrightarrow> good env U (runCall env c) A"
  "\<forall>c\<in>set cs. callOk U c \<Longrightarrow> env_ok env U \<Longrightarrow> view env U s A \<Longrightarrow> adbInv env U A \<Longrightarrow> good env U (runCalls env cs) A"
proof (induction env c and env cs arbitrary: s A and s A rule: runCall_runCalls.induct)
  case (1 env k es)
  show ?case by (rule touch_good [OF 1(2-4,1)])
next
  case (2 env k)
  show ?case by (rule remove_good [OF 2(2-4,1)])
next
  case (3 env cs)
  then show ?case using group_good [OF 3(4,5)] by simp
next
  case (4 env)
  then show ?case using runs_ok tracks_refl by (intro goodI [of env U _ A "Inr ()" A]) simp_all
next
  case (5 env c cs)
  then show ?case unfolding runCalls.simps by (intro good_seq [OF 5(5)]) simp_all
qed

end
