(* ===== verification/AccountsReads.thy ===== *)
theory AccountsReads
  imports AccountsRuns
begin

text \<open>
  What is read back of the data of an account: a value that was written and saved is read by the next object that is loaded, as
  long as the holder has the data trie of the account; an account that was created, undone and created again in the same block
  reads the wrong trie.
\<close>

section \<open>Reading a data trie\<close>

definition readMap :: "adbEnv \<Rightarrow> bytes \<Rightarrow> trieMap \<Rightarrow> bytes \<Rightarrow> adb_error + bytes" where
  "readMap env ident m k = getValueWithoutMetadata env ident k (oldEntry env m k)"

lemma readMap_cong: "m k = m' k \<Longrightarrow> m (hasherCompute env k) = m' (hasherCompute env k) \<Longrightarrow> readMap env ident m k = readMap env ident m' k"
  by (simp add: readMap_def oldEntry_def cong: option.case_cong)

lemma readMap_empty: "readMap env ident Map.empty k = Inr []"
  by (simp add: readMap_def oldEntry_def getValueWithoutMetadata_def)

lemma runs_RetrieveValue:
  assumes ok: "env_ok env U" and o: "map_of (tdtDirtyData (accTracker (obj A a))) key = None" "tdtTr (accTracker (obj A a)) = Some r"
    "tdtIdentifier (accTracker (obj A a)) = ident" and d: "aD A r = Some m"
  shows "runs env U (RetrieveValue env a key) A (readMap env ident m key) A"
  unfolding RetrieveValue_def Let_def
  by (rule runs_tryE [OF runs_getAcc], simp only: o option.case, rule runs_tryE [OF runs_retrieve [OF ok d]])
    (simp only: readMap_def runs_return)

text \<open>A written value is read back, in either version of the data.\<close>

lemma newValue_read:
  assumes ok: "env_ok env U" and v: "ddValue d \<noteq> []"
  shows "ddNewVersion d = AutoBalanceEnabled \<Longrightarrow> getValueAutoBalanceVersion env (newValue env ident k d) = Inr (ddValue d)"
    and "ddNewVersion d = NotSpecified \<Longrightarrow> getValueNotSpecifiedVersion ident k (newValue env ident k d) = ddValue d"
proof -
  have "\<forall>l. \<exists>b. marshalLeafData env l = Inr b \<and> unmarshalLeafData env b = Inr l \<and> (tldValue l \<noteq> [] \<longrightarrow> b \<noteq> [])"
    using ok unfolding env_ok_def by (elim conjE)
  then obtain b where b: "marshalLeafData env \<lparr>tldValue = ddValue d, tldKey = k, tldAddress = ident\<rparr> = Inr b"
    "unmarshalLeafData env b = Inr \<lparr>tldValue = ddValue d, tldKey = k, tldAddress = ident\<rparr>" by meson
  show "ddNewVersion d = AutoBalanceEnabled \<Longrightarrow> getValueAutoBalanceVersion env (newValue env ident k d) = Inr (ddValue d)"
    using v b by (simp add: newValue_def getValueForVersion_def getValueAutoBalanceVersion_def)
  show "ddNewVersion d = NotSpecified \<Longrightarrow> getValueNotSpecifiedVersion ident k (newValue env ident k d) = ddValue d"
    using v by (simp add: newValue_def getValueForVersion_def getValueNotSpecifiedVersion_def TrimSuffixFromValue_def)
qed

lemma putMap_get:
  assumes "v \<noteq> []"
  shows "\<exists>w'. putMap k v w m k = Some (v, w')"
proof (cases "map_option fst (m k) = Some v")
  case True
  then show ?thesis using assms by (cases "m k") (auto simp: putMap_def)
next
  case False
  then show ?thesis using assms by (simp add: putMap_def)
qed

lemma step_read:
  assumes ok: "env_ok env U" and k: "k \<in> U" and ver: "ddNewVersion d = versionForNewData env" and v: "ddValue d \<noteq> []"
  shows "readMap env ident (stepMap env ident m (k, d)) k = Inr (ddValue d)"
proof -
  let ?h = "hasherCompute env k"
  have nv: "newValue env ident k d \<noteq> []" by (rule newValue(2) [OF ok v])
  show ?thesis
  proof (cases "autoBalanceFlag env")
    case True
    then have "ddNewVersion d = AutoBalanceEnabled" using ver env_okD(7) [OF ok] by simp
    moreover from this obtain w where "stepMap env ident m (k, d) ?h = Some (newValue env ident k d, w)"
      using v putMap_get [OF nv] by (simp add: stepMap_def getKeyForVersion_def) blast
    ultimately show ?thesis using True nv newValue_read(1) [OF ok v]
      by (simp add: readMap_def oldEntry_def getValueWithoutMetadata_def)
  next
    case False
    then have n: "ddNewVersion d = NotSpecified" using ver env_okD(7) [OF ok] by simp
    moreover from this obtain w where "stepMap env ident m (k, d) k = Some (newValue env ident k d, w)"
      using v putMap_get [OF nv] by (simp add: stepMap_def getKeyForVersion_def) blast
    ultimately show ?thesis using False nv newValue_read(2) [OF ok v]
      by (simp add: readMap_def oldEntry_def getValueWithoutMetadata_def)
  qed
qed

lemma step_other: "x \<notin> {k, hasherCompute env k} \<Longrightarrow> stepMap env ident m (k, d) x = m x"
  using oldEntry_spot [of env m k] by (auto simp: stepMap_def putMap_def getKeyForVersion_def)

lemma loop_step: "snd (snd (loopSpec env ident m (kd # dd))) = snd (snd (loopSpec env ident (stepMap env ident m kd) dd))"
  by (simp split: prod.splits)

lemma loop_other:
  "\<forall>k\<in>fst ` set dd. x \<notin> {k, hasherCompute env k} \<Longrightarrow> snd (snd (loopSpec env ident m dd)) x = m x"
proof (induction dd arbitrary: m)
  case (Cons kd dd)
  obtain k d where kd: "kd = (k, d)" by (cases kd)
  have "snd (snd (loopSpec env ident (stepMap env ident m kd) dd)) x = stepMap env ident m kd x" using Cons by simp
  also have "\<dots> = m x" using step_other [of x k env ident m d] Cons.prems kd by simp
  finally show ?case unfolding loop_step .
qed simp

lemma loop_read:
  assumes ok: "env_ok env U" and v: "ddValue d \<noteq> []"
  shows "dirtyOk env U dd \<Longrightarrow> distinct (map fst dd) \<Longrightarrow> (k, d) \<in> set dd \<Longrightarrow>
    readMap env ident (snd (snd (loopSpec env ident m dd))) k = Inr (ddValue d)"
proof (induction dd arbitrary: m)
  case (Cons kd dd)
  have kd: "k \<in> U" "ddNewVersion d = versionForNewData env" using Cons.prems(1,3) by (auto simp: dirtyOk_def)
  show ?case
  proof (cases "kd = (k, d)")
    case True
    have "{k, hasherCompute env k} \<inter> {k', hasherCompute env k'} = {}" if k': "k' \<in> fst ` set dd" for k'
    proof (rule spots_apart [OF ok kd(1)])
      show "k' \<in> U" using k' Cons.prems(1) by (auto simp: dirtyOk_def)
      show "k \<noteq> k'" using k' Cons.prems(2) True by auto
    qed
    then have "\<forall>k'\<in>fst ` set dd. x \<notin> {k', hasherCompute env k'}" if x: "x \<in> {k, hasherCompute env k}" for x using x by fast
    note other = loop_other [OF this]
    have "snd (snd (loopSpec env ident (stepMap env ident m kd) dd)) x = stepMap env ident m kd x" if x: "x \<in> {k, hasherCompute env k}" for x
      by (rule other [OF x])
    then show ?thesis unfolding loop_step True using readMap_cong [of _ k "stepMap env ident m (k, d)"] step_read [OF ok kd v] True by simp
  next
    case False
    then have "(k, d) \<in> set dd" using Cons.prems(3) by simp
    then show ?thesis unfolding loop_step using Cons by (auto simp: dirtyOk_def)
  qed
qed simp

section \<open>Writing and saving\<close>

text \<open>The value that a list of edits writes last under a key.\<close>

fun lastWrite :: "accountEdit list \<Rightarrow> bytes \<Rightarrow> bytes option" where
  "lastWrite [] key = None"
| "lastWrite (e # es) key = (case lastWrite es key of
     Some v \<Rightarrow> Some v
   | None \<Rightarrow> (case e of ESaveKeyValue k v \<Rightarrow> if k = key then Some v else None | _ \<Rightarrow> None))"

lemma onAcc_tracker: "onAcc f acc = Inr acc' \<Longrightarrow> accTracker acc' = accTracker acc"
  by (auto simp: onAcc_def split: sum.splits)

lemma edits_dirty:
  "editsObj env es acc = Inr acc' \<Longrightarrow> map_of (tdtDirtyData (accTracker acc')) key = (case lastWrite es key of
     Some v \<Rightarrow> Some \<lparr>ddValue = v, ddNewVersion = versionForNewData env\<rparr> | None \<Rightarrow> map_of (tdtDirtyData (accTracker acc)) key)"
proof (induction es arbitrary: acc)
  case (Cons e es)
  then obtain acc1 where acc1: "editObj env e acc = Inr acc1" "editsObj env es acc1 = Inr acc'" by (auto split: sum.splits)
  have "map_of (tdtDirtyData (accTracker acc1)) key = (case lastWrite [e] key of
      Some v \<Rightarrow> Some \<lparr>ddValue = v, ddNewVersion = versionForNewData env\<rparr> | None \<Rightarrow> map_of (tdtDirtyData (accTracker acc)) key)"
    using acc1(1) by (cases e) (auto dest: onAcc_tracker simp: map_of_setEntry split: if_splits)
  then show ?case using Cons.IH [OF acc1(2)] by (auto split: option.splits)
qed simp

lemma rangeDirty_member: "env_ok env U \<Longrightarrow> distinct (map fst dd) \<Longrightarrow> map_of dd k = Some d \<Longrightarrow> (k, d) \<in> set (rangeDirty env dd)"
proof -
  assume ok: "env_ok env U" and d: "distinct (map fst dd)" and k: "map_of dd k = Some d"
  have "k \<in> set (dirtyOrder env (map fst dd))" using env_okD(9) [OF ok d] map_of_SomeD [OF k] by (simp add: rev_image_eqI)
  then have "(k, the (map_of dd k)) \<in> set (rangeDirty env dd)" by (simp add: rangeDirty_def)
  then show "(k, d) \<in> set (rangeDirty env dd)" using k by simp
qed

text \<open>The holder has the trie of the account: the account is there, or nothing is held for its address.\<close>

definition heldFor :: "bytes \<Rightarrow> adbAbs \<Rightarrow> bool" where
  "heldFor k A \<longleftrightarrow> aAcc A k \<noteq> None \<or> map_of (dataTries (aK A)) k = None"

lemma touched_held:
  assumes t: "touched env U k es A A1 acc As A'" and h: "heldFor k A" and d: "tdtDirtyData (accTracker acc) \<noteq> []"
  shows "\<exists>r m. map_of (dataTries (aK A')) k = Some r \<and>
    aD A' r = Some (snd (snd (loopSpec env k m (rangeDirty env (tdtDirtyData (accTracker acc))))))"
proof -
  let ?a = "nextAccount (aK A)" and ?A2 = "putObj (nextAccount (aK A)) acc A1"
  have l: "loaded k A A1" "savedData env ?a ?A2 As" "aD A' = aD As" "dataTries (aK A') = dataTries (aK As)"
    "tdtTr (accTracker acc) = tdtTr (accTracker (obj A1 ?a))" and r: "uaAddress (accData acc) = k" "tdtIdentifier (accTracker acc) = k"
    using t by (simp_all add: touched_def Let_def ready_def)
  obtain r m m' where s: "tdtTr (accTracker acc) = Some r \<and> aD ?A2 r = Some m \<or> tdtTr (accTracker acc) = None \<and> r = nextTrie (aK ?A2) \<and> aD ?A2 r = None \<and> m = Map.empty"
    "m' = snd (snd (loopSpec env k m (rangeDirty env (tdtDirtyData (accTracker acc)))))" "aD As = (aD ?A2)(r \<mapsto> m')"
    "map_of (dataTries (aK As)) = (if map_of (dataTries (aK ?A2)) k = None then (map_of (dataTries (aK ?A2)))(k \<mapsto> r) else map_of (dataTries (aK ?A2)))"
    using l(2) d r unfolding savedData_def Let_def by auto
  have "map_of (dataTries (aK A1)) k = tdtTr (accTracker acc)"
    using l(1,5) h by (cases "aAcc A k") (auto simp: loaded_def heldFor_def freshAcc_def loadedAcc_def)
  then have "map_of (dataTries (aK As)) k = Some r" using s(1,4) by auto
  then show ?thesis using s(2,3) l(3,4) by (intro exI [of _ r] exI [of _ m]) simp
qed

lemma touched_read:
  assumes ok: "env_ok env U" and t: "touched env U k es A A1 acc As A'" and h: "heldFor k A"
    and v: "lastWrite es key = Some v" "v \<noteq> []"
  shows "\<exists>r m. map_of (dataTries (aK A')) k = Some r \<and> aD A' r = Some m \<and> readMap env k m key = Inr v"
proof -
  let ?a = "nextAccount (aK A)" and ?dd = "tdtDirtyData (accTracker acc)"
  let ?d = "\<lparr>ddValue = v, ddNewVersion = versionForNewData env\<rparr>"
  have e: "editsObj env es (obj A1 ?a) = Inr acc" and dd: "dirtyOk env U ?dd" "distinct (map fst ?dd)"
    using t by (simp_all add: touched_def Let_def ready_def objOk_def)
  have m: "map_of ?dd key = Some ?d" using edits_dirty [OF e, of key] v(1) by simp
  then have "?dd \<noteq> []" by auto
  then obtain r m0 where r: "map_of (dataTries (aK A')) k = Some r" "aD A' r = Some (snd (snd (loopSpec env k m0 (rangeDirty env ?dd))))"
    using touched_held [OF t h] by blast
  have "readMap env k (snd (snd (loopSpec env k m0 (rangeDirty env ?dd)))) key = Inr (ddValue ?d)"
    using v(2) by (intro loop_read [OF ok _ rangeDirty(1,2) [OF ok dd] rangeDirty_member [OF ok dd(2) m]]) simp
  then show ?thesis using r by auto
qed

text \<open>Reading through a new object for an account whose trie is held.\<close>

lemma load_read:
  assumes ok: "env_ok env U" and v: "view env U s A" and i: "adbInv env U A" and k: "k \<in> U" "k \<noteq> []" "aAcc A k \<noteq> None"
    and r: "map_of (dataTries (aK A)) k = Some r" "aD A r = Some m"
  shows "\<exists>a s1. run_state (LoadAccount env k) s = (Inr a, s1) \<and> fst (run_state (RetrieveValue env a key) s1) = readMap env k m key"
proof -
  have w: "absOk env U A" by (rule view_wf [OF v])
  have re: "reach env U A" using i by (simp add: adbInv_def)
  let ?a = "nextAccount (aK A)"
  obtain A1 where A1: "runs env U (LoadAccount env k) A (Inr ?a) A1" "loaded k A A1" using load_account [OF ok w k(1,2) re] by blast
  obtain s1 where s1: "run_state (LoadAccount env k) s = (Inr ?a, s1)" "view env U s1 A1" using runsD [OF A1(1) v] by blast
  have l: "obj A1 ?a = loadedAcc k (the (aAcc A k)) (Some r)" "aD A1 r = Some m" using A1(2) k(3) r by (auto simp: loaded_def)
  have "runs env U (RetrieveValue env ?a key) A1 (readMap env k m key) A1"
    by (rule runs_RetrieveValue [OF ok _ _ _ l(2)]) (simp_all add: l(1) loadedAcc_def freshAcc_def)
  then show ?thesis using s1(1) runsD [OF _ s1(2)] by fastforce
qed

section \<open>A stale trie in the holder\<close>

lemma touched_stale:
  assumes t: "touched env U k es A A1 acc As A'" and n: "aAcc A k = None"
    and r: "map_of (dataTries (aK A)) k = Some r" "aD A r = Some m"
  shows "map_of (dataTries (aK A')) k = Some r" "aD A' r = Some m"
proof -
  let ?a = "nextAccount (aK A)" and ?A2 = "putObj (nextAccount (aK A)) acc A1"
  have l: "loaded k A A1" "savedData env ?a ?A2 As" "aD A' = aD As" "dataTries (aK A') = dataTries (aK As)"
    "tdtTr (accTracker acc) = tdtTr (accTracker (obj A1 ?a))" and k: "uaAddress (accData acc) = k"
    using t by (simp_all add: touched_def Let_def ready_def)
  have A1: "dataTries (aK A1) = dataTries (aK A)" "aD A1 = aD A" "tdtTr (accTracker acc) = None"
    using l(1,5) n by (simp_all add: loaded_def freshAcc_def)
  show "map_of (dataTries (aK A')) k = Some r" "aD A' r = Some m"
    using l(2-4) A1 r k unfolding savedData_def Let_def by (auto split: if_splits)
qed

lemma touched_created:
  assumes t: "touched env U k es A A1 acc As A'" and n: "aAcc A k = None" "map_of (dataTries (aK A)) k = None"
    and d: "tdtDirtyData (accTracker acc) \<noteq> []"
  shows "\<exists>r. map_of (dataTries (aK A')) k = Some r \<and>
    aD (attached (nextAccount (aK A)) (putObj (nextAccount (aK A)) acc A1)) r = Some Map.empty"
proof -
  let ?a = "nextAccount (aK A)" and ?A2 = "putObj (nextAccount (aK A)) acc A1"
  have l: "loaded k A A1" "savedData env ?a ?A2 As" "dataTries (aK A') = dataTries (aK As)"
    "tdtTr (accTracker acc) = tdtTr (accTracker (obj A1 ?a))" and k: "uaAddress (accData acc) = k"
    using t by (simp_all add: touched_def Let_def ready_def)
  have A1: "dataTries (aK A1) = dataTries (aK A)" "tdtTr (accTracker acc) = None" using l(1,4) n(1) by (simp_all add: loaded_def freshAcc_def)
  have "map_of (dataTries (aK A')) k = Some (nextTrie (aK A1))"
    using l(2,3) A1 n(2) k d unfolding savedData_def Let_def by auto
  moreover have "aD (attached ?a ?A2) (nextTrie (aK A1)) = Some Map.empty" using d A1(2) by (simp add: attached_def attachTrie_def Let_def)
  ultimately show ?thesis by blast
qed

lemma single_write:
  assumes "\<not> (of_nat (length v) :: u64) > maxLeafSize env"
  shows "editsObj env [ESaveKeyValue key v] acc = Inr (acc\<lparr>accTracker := (accTracker acc)\<lparr>tdtDirtyData :=
    setEntry key \<lparr>ddValue = v, ddNewVersion = versionForNewData env\<rparr> (tdtDirtyData (accTracker acc))\<rparr>\<rparr>)"
  using assms by simp

lemma setEntry_ne: "setEntry k v xs \<noteq> []"
  by (cases xs) (auto split: if_splits)

lemma touch_write:
  assumes ok: "env_ok env U" and v: "view env U s A" and i: "adbInv env U A" and k: "k \<in> U" "k \<noteq> []" "key \<in> U"
    and len: "\<not> (of_nat (length x) :: u64) > maxLeafSize env"
  shows "\<exists>A1 acc As A'. runs env U (runCall env (Touch k [ESaveKeyValue key x])) A (Inr ()) A' \<and>
    touched env U k [ESaveKeyValue key x] A A1 acc As A' \<and> tdtDirtyData (accTracker acc) \<noteq> [] \<and>
    (\<exists>es'. undoes env U {} {} es' A A') \<and> adbInv env U A'"
proof -
  have "callOk U (Touch k [ESaveKeyValue key x])" using k by simp
  then obtain A1 acc As A' where t: "runs env U (runCall env (Touch k [ESaveKeyValue key x])) A (Inr ()) A'"
    "touched env U k [ESaveKeyValue key x] A A1 acc As A'" "\<exists>es'. undoes env U {} {} es' A A'" "adbInv env U A'"
    using touch_run [OF ok v i, of k "[ESaveKeyValue key x]"] unfolding single_write [OF len] by blast
  have "editsObj env [ESaveKeyValue key x] (obj A1 (nextAccount (aK A))) = Inr acc" using t(2) unfolding touched_def Let_def by blast
  then have "tdtDirtyData (accTracker acc) \<noteq> []" unfolding single_write [OF len] by (auto simp: setEntry_ne)
  then show ?thesis using t by blast
qed

lemma stale_scenario:
  assumes ok: "env_ok env U" and v: "view env U s A" and i: "adbInv env U A" and k: "k \<in> U" "k \<noteq> []" "key \<in> U"
    and n: "aAcc A k = None" "map_of (dataTries (aK A)) k = None" and ne: "entries (aK A) \<noteq> []"
    and len: "\<not> (of_nat (length x) :: u64) > maxLeafSize env" "\<not> (of_nat (length y) :: u64) > maxLeafSize env"
  shows "\<exists>A' B C r. runs env U (runCall env (Touch k [ESaveKeyValue key x])) A (Inr ()) A' \<and>
    runs env U (RevertToSnapshot env (int (length (entries (aK A))))) A' (Inr ()) B \<and>
    runs env U (runCall env (Touch k [ESaveKeyValue key y])) B (Inr ()) C \<and> adbInv env U C \<and> aAcc C k \<noteq> None \<and>
    map_of (dataTries (aK C)) k = Some r \<and> aD C r = Some Map.empty"
proof -
  let ?a = "nextAccount (aK A)"
  obtain A1 acc As A' where t: "runs env U (runCall env (Touch k [ESaveKeyValue key x])) A (Inr ()) A'"
    "touched env U k [ESaveKeyValue key x] A A1 acc As A'" "tdtDirtyData (accTracker acc) \<noteq> []"
    using touch_write [OF ok v i k len(1)] by blast
  let ?A0 = "attached ?a (putObj ?a acc A1)"
  obtain r where r: "map_of (dataTries (aK A')) k = Some r" "aD ?A0 r = Some Map.empty" using touched_created [OF t(2) n t(3)] by blast
  obtain es where u: "undoes env U {} {} es ?A0 A'" using t(2) unfolding touched_def Let_def by blast
  have l: "loaded k A A1" using t(2) by (simp add: touched_def Let_def)
  have e0: "entries (aK ?A0) = entries (aK A)" "aAcc ?A0 = aAcc A" "aCod ?A0 = aCod A" using l by (simp_all add: attached_sel loaded_def)
  obtain B where B: "runs env U (RevertToSnapshot env (int (length (entries (aK A))))) A' (Inr ()) B" "sim {} ?A0 B" "grow A' B"
    "entries (aK B) = entries (aK A)" using revert_journal [OF u] e0(1) ne by auto
  have "map_of (dataTries (aK A')) \<subseteq>\<^sub>m map_of (dataTries (aK B))" using B(3) by (simp add: grow_def)
  then have "map_of (dataTries (aK B)) k = Some r" using r(1) by (metis domI map_le_def)
  moreover have "aAcc B = aAcc A" using simD(2) [OF B(2)] e0(2) by (simp add: fun_eq_iff)
  moreover have "aD B r = Some Map.empty" "aCod B = aCod A" using simD(4) [OF B(2) r(2)] simD(3) [OF B(2)] e0(3) by simp_all
  ultimately have rB: "aD B r = Some Map.empty" "map_of (dataTries (aK B)) k = Some r" "aAcc B = aAcc A" "aCod B = aCod A" by blast+
  have gA: "grow A ?A0"
  proof -
    have "tdtTr (accTracker acc) = tdtTr (accTracker (obj A1 ?a))" "uaAddress (accData acc) = uaAddress (accData (obj A1 ?a))"
      using t(2) l n(1) by (simp_all add: touched_def Let_def ready_def loaded_def freshAcc_def newData_def)
    then have "grow A1 (putObj ?a acc A1)" by (intro grow_putObj) simp_all
    then have "grow A (putObj ?a acc A1)" using l grow_trans by (auto simp: loaded_def)
    moreover have "dom (aD (putObj ?a acc A1)) \<subseteq> dom (aD ?A0)" using t(3) by (auto simp: attached_def split: prod.splits)
    ultimately show ?thesis unfolding grow_def by (simp add: attached_sel) blast
  qed
  have iB: "adbInv env U B" by (rule inv_grow [OF i grow_trans [OF gA simD(1) [OF B(2)]] rB(3,4) B(4)])
  obtain sB where vB: "view env U sB B" using runsD [OF t(1) v] runsD [OF B(1)] by blast
  obtain C1 acc2 Cs C where c: "runs env U (runCall env (Touch k [ESaveKeyValue key y])) B (Inr ()) C"
    "touched env U k [ESaveKeyValue key y] B C1 acc2 Cs C" "adbInv env U C" using touch_write [OF ok vB iB k len(2)] by blast
  have "aAcc B k = None" using rB(3) n(1) by simp
  from touched_stale [OF c(2) this rB(2,1)] have "map_of (dataTries (aK C)) k = Some r" "aD C r = Some Map.empty" .
  moreover have "aAcc C k \<noteq> None" using c(2) by (simp add: touched_def Let_def)
  ultimately show ?thesis using t(1) B(1) c(1,3) by blast
qed

end
