(* ===== verification/AccountsExample.thy ===== *)
theory AccountsExample
  imports AccountsReads TrieExample
begin

text \<open>
  A concrete marshaller, hasher and configuration for the accounts database, with which the hypotheses on these
  parameters are seen to be satisfiable and the model can be run.
\<close>

definition encAccount :: "UserAccountData \<Rightarrow> bytes" where
  "encAccount d = encFields [encWord (uaNonce d), encInt (uaBalance d), uaCodeHash d, uaRootHash d, uaAddress d,
     encInt (uaDeveloperReward d), uaOwnerAddress d, uaUserName d, uaCodeMetadata d]"

fun decAccount :: "bytes list \<Rightarrow> string + UserAccountData" where
  "decAccount [n, b, ch, rh, ad, dr, ow, un, cm] = Inr \<lparr>uaNonce = decWord n, uaBalance = decInt b, uaCodeHash = ch,
     uaRootHash = rh, uaAddress = ad, uaDeveloperReward = decInt dr, uaOwnerAddress = ow, uaUserName = un, uaCodeMetadata = cm\<rparr>"
| "decAccount _ = Inl ''account''"

fun encCode :: "CodeEntry option \<Rightarrow> string + bytes" where
  "encCode (Some c) = Inr (encFields [ceCode c, encWord (ceNumReferences c)])"
| "encCode None = Inl ''nil''"

fun decCode :: "bytes list \<Rightarrow> string + CodeEntry" where
  "decCode [c, n] = Inr \<lparr>ceCode = c, ceNumReferences = decWord n\<rparr>"
| "decCode _ = Inl ''code''"

fun decLeafData :: "bytes list \<Rightarrow> string + TrieLeafData" where
  "decLeafData [v, k, a] = Inr \<lparr>tldValue = v, tldKey = k, tldAddress = a\<rparr>"
| "decLeafData _ = Inl ''leaf data''"

definition exampleAdbEnv :: adbEnv where
  "exampleAdbEnv =
     \<lparr>tEnv = exampleTrieEnv,
      hasherCompute = (\<lambda>b. CHR 0x02 # b),
      marshalAccount = (\<lambda>d. Inr (encAccount d)),
      unmarshalAccount = (\<lambda>b. decAccount (decFields [] b)),
      marshalCode = encCode,
      unmarshalCode = (\<lambda>b. decCode (decFields [] b)),
      marshalLeafData = (\<lambda>d. Inr (encFields [tldValue d, tldKey d, tldAddress d])),
      unmarshalLeafData = (\<lambda>b. decLeafData (decFields [] b)),
      autoBalanceFlag = True,
      versionForNewData = AutoBalanceEnabled,
      dirtyOrder = (\<lambda>ks. ks),
      maxLeafSize = 1000,
      maxDepth = 100,
      pruningEnabled = False,
      storagePruningMark = (\<lambda>_ _ _ _. None)\<rparr>"

definition emptyState :: adbState where
  "emptyState =
     \<lparr>mainTrie = emptyTrie Map.empty 5, trieHeap = (\<lambda>_. emptyTrie Map.empty 5), nextTrie = 0,
      accountHeap = (\<lambda>_. \<lparr>accData = \<lparr>uaNonce = 0, uaBalance = 0, uaCodeHash = [], uaRootHash = [], uaAddress = [],
          uaDeveloperReward = 0, uaOwnerAddress = [], uaUserName = [], uaCodeMetadata = []\<rparr>,
        accTracker = \<lparr>tdtDirtyData = [], tdtTr = None, tdtIdentifier = []\<rparr>, accCode = [], accHasNewCode = False\<rparr>),
      nextAccount = 0, dataTries = [], entries = [], lastRootHash = [], obsoleteDataTrieHashes = [],
      storage = Map.empty\<rparr>"

section \<open>The hypotheses hold\<close>

definition exampleU :: "bytes set" where
  "exampleU = {''alice'', ''bob'', ''key'', ''code'', ''other''}"

lemma decAccount_encAccount: "decAccount (decFields [] (encAccount d)) = Inr d" "encAccount d \<noteq> []"
  by (simp_all add: encAccount_def)

lemma exampleAdbEnv_ok: "env_ok exampleAdbEnv exampleU"
  unfolding env_ok_def
proof (intro conjI allI impI)
  show "trie_codec (tEnv exampleAdbEnv)" using exampleTrieEnv_codec by (simp add: exampleAdbEnv_def)
  show "\<exists>b. marshalAccount exampleAdbEnv d = Inr b \<and> unmarshalAccount exampleAdbEnv b = Inr d \<and> (uaAddress d \<noteq> [] \<longrightarrow> b \<noteq> [])" for d
    using decAccount_encAccount [of d] by (simp add: exampleAdbEnv_def)
  show "\<exists>b. marshalCode exampleAdbEnv (Some c) = Inr b \<and> unmarshalCode exampleAdbEnv b = Inr c \<and> (ceNumReferences c \<noteq> 0 \<longrightarrow> b \<noteq> [])" for c
    by (simp add: exampleAdbEnv_def)
  show "\<exists>b. marshalLeafData exampleAdbEnv l = Inr b \<and> unmarshalLeafData exampleAdbEnv b = Inr l \<and> (tldValue l \<noteq> [] \<longrightarrow> b \<noteq> [])" for l
    by (simp add: exampleAdbEnv_def)
qed (auto simp: exampleAdbEnv_def exampleU_def inj_on_def card_insert_if)

definition emptyAbs :: adbAbs where
  "emptyAbs = \<lparr>aK = skel emptyState, aAcc = Map.empty, aCod = Map.empty, aD = Map.empty\<rparr>"

lemma mainMap_empty: "mainMap env Map.empty Map.empty = Map.empty"
  by (simp add: mainMap_def fun_eq_iff)

lemma emptyState_view: "view exampleAdbEnv exampleU emptyState emptyAbs"
  by (simp add: view_def emptyAbs_def absOk_def accsOk_def codsOk_def heldOk_def mainMap_empty emptyState_def emptyTrie_def holds_def)

lemma emptyState_inv: "adbInv exampleAdbEnv exampleU emptyAbs"
proof -
  have "recreated exampleAdbEnv (skel emptyState) [] = Inr (emptyTrie Map.empty 5)"
    by (simp add: recreated_def recreate_def IsEmptyTrie_def NewTrie_def emptyTrie_def emptyState_def)
  then show ?thesis
    by (simp add: adbInv_def refsOk_def refCount_def codeAt_def reach_def committed_def emptyAbs_def mainMap_empty holds_emptyTrie
        emptyState_def [THEN arg_cong, of lastRootHash])
qed

lemma emptyState_good: "goodState exampleAdbEnv exampleU emptyState"
  using emptyState_view emptyState_inv unfolding goodState_def by blast

end
