(* ===== verification/AccountsProperties.thy ===== *)
theory AccountsProperties
  imports AccountsExample
begin

text \<open>
  The properties of the accounts database: the journal restores the state, groups of calls keep the invariant and the
  counters of the code entries, what is saved is read back, and where it is not.
\<close>

section \<open>Results on states\<close>

lemma runs_fst: "runs env U m A r A' \<Longrightarrow> view env U s A \<Longrightarrow> fst (run_state m s) = r"
  unfolding runs_def by fastforce

lemma getAccount_fst:
  "env_ok env U \<Longrightarrow> view env U s A \<Longrightarrow> k \<in> U \<Longrightarrow> k \<noteq> [] \<Longrightarrow> fst (run_state (getAccount env k) s) = Inr (map_option (freshAcc k) (aAcc A k))"
  by (rule runs_fst [OF runs_getAccount])

lemma getCodeEntry_fst:
  "env_ok env U \<Longrightarrow> view env U s A \<Longrightarrow> code \<in> U \<Longrightarrow>
    fst (run_state (getCodeEntry env (hasherCompute env code)) s) = Inr (aCod A (hasherCompute env code))"
  by (rule runs_fst [OF runs_getCodeEntry]) simp_all

text \<open>Two states that agree on what the accounts database holds.\<close>

lemma same_reads:
  assumes ok: "env_ok env U" and v: "view env U s A" "view env U s' B" and same: "aAcc B = aAcc A" "aCod B = aCod A"
  shows "fst (run_state (adbRootHash env) s') = fst (run_state (adbRootHash env) s)"
    "k \<in> U \<Longrightarrow> k \<noteq> [] \<Longrightarrow> fst (run_state (getAccount env k) s') = fst (run_state (getAccount env k) s)"
    "code \<in> U \<Longrightarrow> fst (run_state (getCodeEntry env (hasherCompute env code)) s') = fst (run_state (getCodeEntry env (hasherCompute env code)) s)"
  using runs_fst [OF runs_adbRootHash [OF ok] v(1)] runs_fst [OF runs_adbRootHash [OF ok] v(2)]
    getAccount_fst [OF ok v(1)] getAccount_fst [OF ok v(2)] getCodeEntry_fst [OF ok v(1)] getCodeEntry_fst [OF ok v(2)] same by simp_all

section \<open>The journal\<close>

text \<open>
  C3. From any good state, whatever sequence of calls a client makes (loading, editing and saving accounts with their data and code, removing accounts, nested groups that are undone themselves) and whether they
  succeed or fail half way, \<^verbatim>\<open>RevertToSnapshot\<close> to the length the journal had before succeeds and restores the root hash of the main trie, every account, and every code entry and its counter. The data tries
  that were held before are restored when the journal was not empty; a return to an empty journal resets their holder. \<^verbatim>\<open>ImportAccount\<close>, which writes no journal entry, is not among the calls.
\<close>

theorem revert_restores:
  assumes "env_ok env U" and "goodState env U s" and "\<forall>c\<in>set cs. callOk U c"
  shows "\<exists>r s1 s2. run_state (runCalls env cs) s = (r, s1) \<and>
    run_state (RevertToSnapshot env (int (length (entries s)))) s1 = (Inr (), s2) \<and> goodState env U s2 \<and> entries s2 = entries s \<and>
    fst (run_state (adbRootHash env) s2) = fst (run_state (adbRootHash env) s) \<and>
    (\<forall>k\<in>U - {[]}. fst (run_state (getAccount env k) s2) = fst (run_state (getAccount env k) s)) \<and>
    (\<forall>code\<in>U. fst (run_state (getCodeEntry env (hasherCompute env code)) s2) = fst (run_state (getCodeEntry env (hasherCompute env code)) s)) \<and>
    (entries s \<noteq> [] \<longrightarrow> (\<forall>(k, tr)\<in>set (dataTries s). map_of (dataTries s) k = Some tr \<longrightarrow> map_of (dataTries s2) k = Some tr \<and>
       fst (run_state (onDataTrie tr (RootHash (tEnv env))) s2) = fst (run_state (onDataTrie tr (RootHash (tEnv env))) s)))"
proof -
  obtain A where v: "view env U s A" and i: "adbInv env U A" using assms(2) unfolding goodState_def by blast
  obtain r A1 where A1: "runs env U (runCalls env cs) A r A1" "tracks env U A A1"
    using calls_good(2) [OF assms(3,1) v i] unfolding good_def by blast
  obtain B where B: "runs env U (RevertToSnapshot env (int (length (entries (aK A))))) A1 (Inr ()) B" "aAcc B = aAcc A" "aCod B = aCod A"
    "entries (aK B) = entries (aK A)" "entries (aK A) \<noteq> [] \<Longrightarrow> sim {} A B" "adbInv env U B"
    using go_back [OF view_wf [OF v] i A1(2)] by blast
  obtain s1 where s1: "run_state (runCalls env cs) s = (r, s1)" "view env U s1 A1" using runsD [OF A1(1) v] by blast
  obtain s2 where s2: "run_state (RevertToSnapshot env (int (length (entries (aK A))))) s1 = (Inr (), s2)" "view env U s2 B"
    using runsD [OF B(1) s1(2)] by blast
  note same = same_reads [OF assms(1) v s2(2) B(2,3)]
  have tries: "map_of (dataTries s2) k = Some tr \<and>
      fst (run_state (onDataTrie tr (RootHash (tEnv env))) s2) = fst (run_state (onDataTrie tr (RootHash (tEnv env))) s)"
    if e: "entries s \<noteq> []" and k: "map_of (dataTries s) k = Some tr" for k tr
  proof -
    have sm: "sim {} A B" using B(5) e view_sel(5) [OF v] by simp
    have kA: "map_of (dataTries (aK A)) k = Some tr" using k view_sel(4) [OF v] by simp
    obtain m where m: "aD A tr = Some m" using wf_sel(5) [OF view_wf [OF v]] kA by (auto simp: heldOk_def)
    have "map_of (dataTries (aK B)) k = Some tr" using simD(1) [OF sm] kA by (metis domI grow_def map_le_def)
    then show ?thesis using runs_fst [OF runs_dataRoot [OF assms(1) m] v] runs_fst [OF runs_dataRoot [OF assms(1) simD(4) [OF sm m]] s2(2)]
        view_sel(4) [OF s2(2)] by simp
  qed
  show ?thesis
  proof (intro exI conjI)
    show "run_state (runCalls env cs) s = (r, s1)" by (rule s1(1))
    show "run_state (RevertToSnapshot env (int (length (entries s)))) s1 = (Inr (), s2)" using s2(1) view_sel(5) [OF v] by simp
    show "goodState env U s2" using s2(2) B(6) unfolding goodState_def by blast
    show "entries s2 = entries s" using view_sel(5) [OF v] view_sel(5) [OF s2(2)] B(4) by simp
    show "fst (run_state (adbRootHash env) s2) = fst (run_state (adbRootHash env) s)" by (rule same(1))
  qed (use same(2,3) tries in auto)
qed

theorem revert_restores_witness:
  "\<exists>r s1 s2. run_state (runCalls exampleAdbEnv [Touch ''alice'' [ESetCode ''code'', ESaveKeyValue ''key'' ''v''], Group [Remove ''bob''], Remove ''bob'']) emptyState = (r, s1) \<and>
    run_state (RevertToSnapshot exampleAdbEnv (int (length (entries emptyState)))) s1 = (Inr (), s2) \<and>
    fst (run_state (adbRootHash exampleAdbEnv) s2) = fst (run_state (adbRootHash exampleAdbEnv) emptyState)"
  using revert_restores [OF exampleAdbEnv_ok emptyState_good,
      of "[Touch ''alice'' [ESetCode ''code'', ESaveKeyValue ''key'' ''v''], Group [Remove ''bob''], Remove ''bob'']"]
  by (auto simp: exampleU_def)

section \<open>Groups of calls\<close>

lemma codeAt_holders:
  assumes ok: "env_ok env U" and v: "view env U s A" and h: "h \<noteq> []"
  shows "{k. codeAt (aAcc A) k = h} = {k \<in> U - {[]}. \<exists>acc. fst (run_state (getAccount env k) s) = Inr (Some acc) \<and> uaCodeHash (accData acc) = h}"
proof -
  have k: "k \<in> U - {[]}" if "codeAt (aAcc A) k = h" for k
    using that h wf_sel(1) [OF view_wf [OF v]] by (auto simp: codeAt_def accsOk_def split: option.splits)
  have "(\<exists>acc. fst (run_state (getAccount env k) s) = Inr (Some acc) \<and> uaCodeHash (accData acc) = h) \<longleftrightarrow> codeAt (aAcc A) k = h" if "k \<in> U - {[]}" for k
    using that getAccount_fst [OF ok v, of k] h by (cases "aAcc A k") (auto simp: codeAt_def freshAcc_def)
  then show ?thesis using k by blast
qed

text \<open>
  C9. A group of calls always ends without an error, whatever its calls do: the failing ones have been undone. Afterwards the
  code entries are exact: for every code, the main trie holds an entry under its hash exactly when some account has that code hash, the entry
  holds the code, and its counter of references is the number of accounts with that code hash.
\<close>

theorem group_code_references:
  assumes "env_ok env U" and "goodState env U s" and "\<forall>c\<in>set cs. callOk U c" and "code \<in> U"
  shows "\<exists>s'. run_state (runCall env (Group cs)) s = (Inr (), s') \<and> goodState env U s' \<and>
    (let h = hasherCompute env code;
         n = card {k \<in> U - {[]}. \<exists>acc. fst (run_state (getAccount env k) s') = Inr (Some acc) \<and> uaCodeHash (accData acc) = h}
     in fst (run_state (getCodeEntry env h) s') = Inr (if n = 0 then None else Some \<lparr>ceCode = code, ceNumReferences = of_nat n\<rparr>))"
proof -
  obtain A where v: "view env U s A" and i: "adbInv env U A" using assms(2) unfolding goodState_def by blast
  obtain A' where A': "runs env U (runCall env (Group cs)) A (Inr ()) A'" "adbInv env U A'"
    using group_run [OF v i calls_good(2) [OF assms(3,1) v i]] by blast
  obtain s' where s': "run_state (runCall env (Group cs)) s = (Inr (), s')" "view env U s' A'" using runsD [OF A'(1) v] by blast
  let ?h = "hasherCompute env code"
  have refs: "refsOk env U (aAcc A') (aCod A')" using A'(2) by (simp add: adbInv_def)
  have h: "?h \<noteq> []" by (rule env_okD(11) [OF assms(1,4)])
  have n: "refCount (aCod A') ?h = card {k. codeAt (aAcc A') k = ?h}" using refs h by (simp add: refsOk_def)
  have "aCod A' ?h = (if card {k. codeAt (aAcc A') k = ?h} = 0 then None
      else Some \<lparr>ceCode = code, ceNumReferences = of_nat (card {k. codeAt (aAcc A') k = ?h})\<rparr>)"
  proof (cases "aCod A' ?h")
    case (Some c)
    have "ceCode c \<in> U" "hasherCompute env (ceCode c) = ?h" using refs Some by (auto simp: refsOk_def)
    then have "ceCode c = code" using inj_onD [OF env_okD(4) [OF assms(1)]] assms(4) by blast
    moreover have "ceNumReferences c \<noteq> 0" using wf_sel(2) [OF view_wf [OF s'(2)]] Some by (auto simp: codsOk_def)
    moreover have u: "card {k. codeAt (aAcc A') k = ?h} = unat (ceNumReferences c)" using n Some by (simp add: refCount_def)
    ultimately show ?thesis unfolding u using Some by (cases c) (simp add: unat_eq_zero)
  qed (use n in \<open>simp add: refCount_def\<close>)
  then have "let n = card {k \<in> U - {[]}. \<exists>acc. fst (run_state (getAccount env k) s') = Inr (Some acc) \<and> uaCodeHash (accData acc) = ?h}
     in fst (run_state (getCodeEntry env ?h) s') = Inr (if n = 0 then None else Some \<lparr>ceCode = code, ceNumReferences = of_nat n\<rparr>)"
    using getCodeEntry_fst [OF assms(1) s'(2) assms(4)] unfolding Let_def codeAt_holders [OF assms(1) s'(2) h, symmetric] by simp
  then show ?thesis using s' A'(2) unfolding Let_def goodState_def by blast
qed

theorem group_code_references_witness:
  "\<exists>s'. run_state (runCall exampleAdbEnv (Group [Touch ''alice'' [ESetCode ''code''], Touch ''bob'' [ESetCode ''code'']])) emptyState = (Inr (), s')"
  using group_code_references [OF exampleAdbEnv_ok emptyState_good,
      of "[Touch ''alice'' [ESetCode ''code''], Touch ''bob'' [ESetCode ''code'']]" "''code''"]
  by (auto simp: exampleU_def)

section \<open>The data of an account\<close>

text \<open>
  C17. When an account was edited and saved, the value that the edits wrote last under a key, if it is not empty, is what the next object that is loaded for the account reads, with either layout of the data: for an
  account that was there already, and for a new one for whose address no data trie is held. (When one is held for a new account, the value may not be found.)
\<close>

theorem saved_data_is_read:
  assumes "env_ok env U" and "goodState env U s" and "callOk U (Touch k es)"
    and "lastWrite es key = Some v" and "v \<noteq> []"
    and "fst (run_state (getAccount env k) s) \<noteq> Inr None \<or> map_of (dataTries s) k = None"
    and "run_state (runCall env (Touch k es)) s = (Inr (), s')"
  shows "\<exists>a s''. run_state (LoadAccount env k) s' = (Inr a, s'') \<and> fst (run_state (RetrieveValue env a key) s'') = Inr v"
proof -
  obtain A where v: "view env U s A" and i: "adbInv env U A" using assms(2) unfolding goodState_def by blast
  have k: "k \<in> U" "k \<noteq> []" using assms(3) by simp_all
  have held: "heldFor k A" using assms(6) getAccount_fst [OF assms(1) v k] view_sel(4) [OF v] by (auto simp: heldFor_def)
  from touch_run [OF assms(1) v i assms(3)] obtain A1 acc As A' where
    A': "runs env U (runCall env (Touch k es)) A (Inr ()) A'" "touched env U k es A A1 acc As A'" "adbInv env U A'"
    using assms(7) runsD [OF _ v] by fastforce
  obtain r m where r: "map_of (dataTries (aK A')) k = Some r" "aD A' r = Some m" "readMap env k m key = Inr v"
    using touched_read [OF assms(1) A'(2) held assms(4,5)] by blast
  have "view env U s' A'" using runsD [OF A'(1) v] assms(7) by auto
  moreover have "aAcc A' k \<noteq> None" using A'(2) by (simp add: touched_def Let_def)
  ultimately show ?thesis using load_read [OF assms(1) _ A'(3) k _ r(1,2), of s' key] r(3) by simp
qed

lemma example_write:
  "\<exists>s' A'. run_state (runCall exampleAdbEnv (Touch ''alice'' [ESaveKeyValue ''key'' ''v''])) emptyState = (Inr (), s') \<and>
    view exampleAdbEnv exampleU s' A' \<and> adbInv exampleAdbEnv exampleU A' \<and> entries (aK A') \<noteq> [] \<and>
    aAcc A' ''bob'' = None \<and> map_of (dataTries (aK A')) ''bob'' = None"
proof -
  have len: "\<not> (of_nat (length ''v'') :: u64) > maxLeafSize exampleAdbEnv" by (simp add: exampleAdbEnv_def)
  obtain A1 acc As A' where t: "runs exampleAdbEnv exampleU (runCall exampleAdbEnv (Touch ''alice'' [ESaveKeyValue ''key'' ''v''])) emptyAbs (Inr ()) A'"
    "touched exampleAdbEnv exampleU ''alice'' [ESaveKeyValue ''key'' ''v''] emptyAbs A1 acc As A'" "adbInv exampleAdbEnv exampleU A'"
    using touch_write [OF exampleAdbEnv_ok emptyState_view emptyState_inv _ _ _ len, of "''alice''" "''key''"] by (auto simp: exampleU_def)
  have e: "aAcc emptyAbs = Map.empty" "dataTries (aK emptyAbs) = []" by (simp_all add: emptyAbs_def emptyState_def)
  have "aAcc A' ''bob'' = None" using t(2) e by (simp add: touched_def Let_def)
  moreover have "map_of (dataTries (aK A')) ''bob'' = None"
    using t(2) e unfolding touched_def Let_def savedData_def loaded_def by (auto simp: ready_def split: if_splits)
  moreover have "entries (aK A') \<noteq> []" using t(2) by (simp add: touched_def Let_def)
  ultimately show ?thesis using runsD [OF t(1) emptyState_view] t(3) by blast
qed

theorem saved_data_is_read_witness:
  "\<exists>s' a s''. run_state (runCall exampleAdbEnv (Touch ''alice'' [ESaveKeyValue ''key'' ''v''])) emptyState = (Inr (), s') \<and>
    run_state (LoadAccount exampleAdbEnv ''alice'') s' = (Inr a, s'') \<and> fst (run_state (RetrieveValue exampleAdbEnv a ''key'') s'') = Inr ''v''"
proof -
  obtain s' where s': "run_state (runCall exampleAdbEnv (Touch ''alice'' [ESaveKeyValue ''key'' ''v''])) emptyState = (Inr (), s')"
    using example_write by blast
  have "map_of (dataTries emptyState) ''alice'' = None" by (simp add: emptyState_def)
  then show ?thesis
    using s' saved_data_is_read [OF exampleAdbEnv_ok emptyState_good _ _ _ _ s', of "''key''" "''v''"] by (auto simp: exampleU_def simp del: runCall.simps)
qed

text \<open>
  C36. An account that is created with data, undone through the journal and created again in the same block, in which the journal was not empty before, does not read its data: the data trie of the
  undone account stays in the holder, the trie of the new account is not put there because of it, and the next object that is loaded gets the old, empty trie. The value that was saved last is not found, although every call has
  succeeded.
\<close>

theorem recreated_account_reads_stale_trie:
  assumes "env_ok env U" and "goodState env U s" and "k \<in> U" and "k \<noteq> []" and "key \<in> U"
    and "fst (run_state (getAccount env k) s) = Inr None" and "map_of (dataTries s) k = None" and "entries s \<noteq> []"
    and "of_nat (length v) \<le> maxLeafSize env" and "of_nat (length w) \<le> maxLeafSize env"
  shows "\<exists>s1 s2 s3 a s4. run_state (runCall env (Touch k [ESaveKeyValue key v])) s = (Inr (), s1) \<and>
    run_state (RevertToSnapshot env (int (length (entries s)))) s1 = (Inr (), s2) \<and>
    run_state (runCall env (Touch k [ESaveKeyValue key w])) s2 = (Inr (), s3) \<and>
    run_state (LoadAccount env k) s3 = (Inr a, s4) \<and> fst (run_state (RetrieveValue env a key) s4) = Inr []"
proof -
  obtain A where v: "view env U s A" and i: "adbInv env U A" using assms(2) unfolding goodState_def by blast
  have n: "aAcc A k = None" "map_of (dataTries (aK A)) k = None" "entries (aK A) \<noteq> []"
    using getAccount_fst [OF assms(1) v assms(3,4)] assms(6-8) view_sel(4,5) [OF v] by simp_all
  have len: "\<not> (of_nat (length v) :: u64) > maxLeafSize env" "\<not> (of_nat (length w) :: u64) > maxLeafSize env"
    using assms(9,10) by (simp_all add: not_less)
  obtain A' B C r where C: "runs env U (runCall env (Touch k [ESaveKeyValue key v])) A (Inr ()) A'"
    "runs env U (RevertToSnapshot env (int (length (entries (aK A))))) A' (Inr ()) B"
    "runs env U (runCall env (Touch k [ESaveKeyValue key w])) B (Inr ()) C" "adbInv env U C" "aAcc C k \<noteq> None"
    "map_of (dataTries (aK C)) k = Some r" "aD C r = Some Map.empty"
    using stale_scenario [OF assms(1) v i assms(3-5) n len] by blast
  obtain s1 where s1: "run_state (runCall env (Touch k [ESaveKeyValue key v])) s = (Inr (), s1)" "view env U s1 A'" using runsD [OF C(1) v] by blast
  obtain s2 where s2: "run_state (RevertToSnapshot env (int (length (entries s)))) s1 = (Inr (), s2)" "view env U s2 B"
    using runsD [OF C(2) s1(2)] view_sel(5) [OF v] by auto
  obtain s3 where s3: "run_state (runCall env (Touch k [ESaveKeyValue key w])) s2 = (Inr (), s3)" "view env U s3 C" using runsD [OF C(3) s2(2)] by blast
  show ?thesis using s1(1) s2(1) s3(1) load_read [OF assms(1) s3(2) C(4) assms(3,4) C(5-7), of key] unfolding readMap_empty by blast
qed

theorem recreated_account_reads_stale_trie_witness:
  "\<exists>s s1 s2 s3 a s4. run_state (runCall exampleAdbEnv (Touch ''alice'' [ESaveKeyValue ''key'' ''v''])) emptyState = (Inr (), s) \<and>
    run_state (runCall exampleAdbEnv (Touch ''bob'' [ESaveKeyValue ''key'' ''v''])) s = (Inr (), s1) \<and>
    run_state (RevertToSnapshot exampleAdbEnv (int (length (entries s)))) s1 = (Inr (), s2) \<and>
    run_state (runCall exampleAdbEnv (Touch ''bob'' [ESaveKeyValue ''key'' ''w''])) s2 = (Inr (), s3) \<and>
    run_state (LoadAccount exampleAdbEnv ''bob'') s3 = (Inr a, s4) \<and> fst (run_state (RetrieveValue exampleAdbEnv a ''key'') s4) = Inr []"
proof -
  obtain s A where s: "run_state (runCall exampleAdbEnv (Touch ''alice'' [ESaveKeyValue ''key'' ''v''])) emptyState = (Inr (), s)"
    and v: "view exampleAdbEnv exampleU s A" "adbInv exampleAdbEnv exampleU A" and A: "entries (aK A) \<noteq> []" "aAcc A ''bob'' = None"
      "map_of (dataTries (aK A)) ''bob'' = None" using example_write by blast
  have g: "goodState exampleAdbEnv exampleU s" using v unfolding goodState_def by blast
  have u: "''bob'' \<in> exampleU" "''bob'' \<noteq> []" "''key'' \<in> exampleU" by (simp_all add: exampleU_def)
  have h: "fst (run_state (getAccount exampleAdbEnv ''bob'') s) = Inr None" "map_of (dataTries s) ''bob'' = None" "entries s \<noteq> []"
    using getAccount_fst [OF exampleAdbEnv_ok v(1) u(1,2)] A view_sel(4,5) [OF v(1)] by simp_all
  have l: "of_nat (length ''v'') \<le> maxLeafSize exampleAdbEnv" "of_nat (length ''w'') \<le> maxLeafSize exampleAdbEnv"
    by (simp_all add: exampleAdbEnv_def)
  show ?thesis using s recreated_account_reads_stale_trie [OF exampleAdbEnv_ok g u h l] by blast
qed

end
