(* ===== verification/ValidatorShuffler.thy ===== *)
theory ValidatorShuffler
  imports Prelude "HOL-Library.Multiset" "HOL-Library.Char_ord" "HOL-Library.List_Lexorder"
begin

text \<open>
  The shuffler of validators of \<^verbatim>\<open>src/sharding/nodesCoordinator\<close>: at the start of
  an epoch it takes the leaving nodes out of the eligible and waiting lists of
  every shard, shuffles some eligible nodes out, fills the eligible lists from
  the waiting lists and distributes the new, the selected auction and the
  shuffled out nodes over the waiting lists.

  A Go map from shards to lists is a map whose missing keys read as the empty
  list. The order in which Go ranges over a map is unspecified: every such loop
  whose effect is written out takes its order as an argument, a function from
  the set of keys to a list of them, and \<^verbatim>\<open>rangeLoop\<close> names the loops of one run.
  Lengths are Go's \<^verbatim>\<open>int\<close> and read as integers; \<^verbatim>\<open>uint32\<close> conversions wrap.
  SHA-256 is a function of another repository and a parameter of the model.
\<close>

section \<open>Data\<close>

record validator =
  vPubKey :: bytes
  vChances :: u32
  vIndex :: u32

type_synonym shardID = u32
type_synonym nodesMap = "shardID \<rightharpoonup> validator list"
type_synonym rangeOrder = "shardID set \<Rightarrow> shardID list"

definition MetachainShardId :: shardID where
  "MetachainShardId = 0xFFFFFFFF"

datatype shufflerError =
    ErrNilNodeShufflerArguments
  | ErrNilEnableEpochsHandler
  | ErrHandlerCompatibility string
  | ErrSmallShardEligibleListSize shardID
  | ErrNilOrEmptyDestinationForDistribute
  | ErrReceivedNewListNodeInStakingV4
  | Wrapped string shufflerError
  | GoPanic string

record maxNodesChangeConfig =
  EpochEnable :: u32
  MaxNumNodes :: u32
  NodesToShufflePerShard :: u32

datatype epochFlag = BalanceWaitingListsFlag | CleanupAuctionOnLowWaitingListFlag

type_synonym enableEpochsHandler = "epochFlag \<Rightarrow> u32 \<Rightarrow> bool"

datatype distributor = CrossShardValidatorDistributor | IntraShardValidatorDistributor

record nodesShufflerArgs =
  argNodesShard :: u32
  argNodesMeta :: u32
  argHysteresis :: "u32 \<Rightarrow> u32" \<comment> \<open>\<^verbatim>\<open>uint32(float32(n) * hysteresis)\<close>\<close>
  argAdaptivity :: bool
  argShuffleBetweenShards :: bool
  argMaxNodesEnableConfig :: "maxNodesChangeConfig list"
  argEnableEpochsHandler :: "enableEpochsHandler option"
  argStakingV4Step2EnableEpoch :: u32
  argStakingV4Step3EnableEpoch :: u32

record randHashShuffler =
  shuffleBetweenShards :: bool
  adaptivity :: bool
  nodesShard :: u32
  nodesMeta :: u32
  shardHysteresis :: u32
  metaHysteresis :: u32
  activeNodesConfig :: maxNodesChangeConfig
  availableNodesConfigs :: "maxNodesChangeConfig list"
  validatorDistributor :: distributor
  epochsHandler :: enableEpochsHandler
  stakingV4Step2EnableEpoch :: u32
  flagStakingV4Step2 :: bool
  stakingV4Step3EnableEpoch :: u32
  flagStakingV4Step3 :: bool

record argsUpdateNodes =
  auEligible :: nodesMap
  auWaiting :: nodesMap
  auNewNodes :: "validator list"
  auUnStakeLeaving :: "validator list"
  auAdditionalLeaving :: "validator list"
  auAuction :: "validator list"
  auRand :: bytes
  auNbShards :: u32
  auEpoch :: u32

record resUpdateNodes =
  resEligible :: nodesMap
  resWaiting :: nodesMap
  resShuffledOut :: nodesMap
  resLeaving :: "validator list"
  resStillRemaining :: "validator list"
  resLowWaitingList :: bool

record shuffleNodesArg =
  snEligible :: nodesMap
  snWaiting :: nodesMap
  snUnstakeLeaving :: "validator list"
  snAdditionalLeaving :: "validator list"
  snNewNodes :: "validator list"
  snAuction :: "validator list"
  snRandomness :: bytes
  snDistributor :: distributor
  snNodesMeta :: u32
  snNodesPerShard :: u32
  snNbShards :: u32
  snMaxNodesToSwapPerShard :: u32
  snMaxNumNodes :: u32
  snFlagBalanceWaitingLists :: bool
  snFlagStakingV4Step2 :: bool
  snFlagStakingV4Step3 :: bool
  snFlagCleanupAuctionOnLowWaitingList :: bool

record shuffledNodesConfig =
  numShuffled :: u32
  numNewEligible :: u32
  numNewWaiting :: u32
  numSelectedAuction :: u32
  cfgMaxNumNodes :: u32
  cfgFlagStakingV4Step2 :: bool

text \<open>The loops over Go maps of one run of the shuffler, so that each may have its own order.\<close>

datatype rangeLoop =
    CopyArgsEligible | CopyArgsWaiting | ComputeNewShards | SplitEligible | SplitWaiting
  | MergeEligible | MergeWaiting | CopyEligible | CopyWaiting | CapNumToRemove
  | SearchWaiting bytes | SearchEligible bytes | MoveToEligible
  | CountShuffled | CountEligible | CountWaiting
  | MaxSizeNewNodes | MaxSizeAuction | MaxSizeShuffledOut | RangeShuffledOut

section \<open>Lists of validators\<close>

definition listOf :: "nodesMap \<Rightarrow> shardID \<Rightarrow> validator list" where
  "listOf m s = (case m s of None \<Rightarrow> [] | Some vs \<Rightarrow> vs)"

definition numOf :: "(shardID \<rightharpoonup> int) \<Rightarrow> shardID \<Rightarrow> int" where
  "numOf m s = (case m s of None \<Rightarrow> 0 | Some n \<Rightarrow> n)"

definition sortKeys :: "nodesMap \<Rightarrow> shardID list" where
  "sortKeys nodes = sorted_list_of_set (dom nodes)"

definition removeValidatorFromList :: "validator list \<Rightarrow> int \<Rightarrow> validator list" where
  "removeValidatorFromList validatorList index =
     (if index > int (length validatorList) - 1 \<or> index < 0 then validatorList
      else butlast (validatorList[nat index := last validatorList]))"

text \<open>The loop of \<^verbatim>\<open>removeDupplicates\<close> over the copied list, from index \<^verbatim>\<open>i - 1\<close> down to 0.\<close>

fun removeDupLoop :: "bytes \<Rightarrow> validator list \<Rightarrow> nat \<Rightarrow> validator list" where
  "removeDupLoop pk vs 0 = vs"
| "removeDupLoop pk vs (Suc i) =
     removeDupLoop pk (if pk = vPubKey (vs ! i) then removeValidatorFromList vs (int i) else vs) i"

definition removeDupplicates :: "validator list \<Rightarrow> validator list \<Rightarrow> validator list" where
  "removeDupplicates unstake additionalLeaving =
     fold (\<lambda>u vs. removeDupLoop (vPubKey u) vs (length vs)) unstake additionalLeaving"

text \<open>The inner loop of \<^verbatim>\<open>removeValidatorsFromList\<close>: the last index below \<^verbatim>\<open>i\<close> with the key.\<close>

fun lastMatch :: "validator list \<Rightarrow> bytes \<Rightarrow> nat \<Rightarrow> nat option" where
  "lastMatch vs pk 0 = None"
| "lastMatch vs pk (Suc i) = (if vPubKey (vs ! i) = pk then Some i else lastMatch vs pk i)"

fun removeValidatorsLoop ::
  "validator list \<Rightarrow> int \<Rightarrow> validator list \<Rightarrow> validator list \<Rightarrow> validator list \<times> validator list" where
  "removeValidatorsLoop [] maxToRemove resultedList removed = (resultedList, removed)"
| "removeValidatorsLoop (valToRemove # rest) maxToRemove resultedList removed =
     (if int (length removed) = maxToRemove then (resultedList, removed)
      else case lastMatch resultedList (vPubKey valToRemove) (length resultedList) of
          None \<Rightarrow> removeValidatorsLoop rest maxToRemove resultedList removed
        | Some i \<Rightarrow> removeValidatorsLoop rest maxToRemove
                     (removeValidatorFromList resultedList (int i)) (removed @ [resultedList ! i]))"

definition removeValidatorsFromList ::
  "validator list \<Rightarrow> validator list \<Rightarrow> int \<Rightarrow> validator list \<times> validator list" where
  "removeValidatorsFromList validatorList validatorsToRemove maxToRemove =
     removeValidatorsLoop validatorsToRemove maxToRemove validatorList []"

definition shuffleList :: "(bytes \<Rightarrow> bytes) \<Rightarrow> validator list \<Rightarrow> bytes \<Rightarrow> validator list" where
  "shuffleList sha validators randomness =
     (let keys = map (\<lambda>v. sha (vPubKey v @ randomness)) validators;
          mapValidators = fold (\<lambda>v m. m(sha (vPubKey v @ randomness) \<mapsto> v)) validators Map.empty
      in map (\<lambda>k. the (mapValidators k)) (sort keys))"

definition shuffleOutShard ::
  "(bytes \<Rightarrow> bytes) \<Rightarrow> validator list \<Rightarrow> int \<Rightarrow> bytes
     \<Rightarrow> shufflerError + validator list \<times> validator list" where
  "shuffleOutShard sha validators validatorsToSelect randomness =
     (let n = (if int (length validators) < validatorsToSelect then int (length validators)
               else validatorsToSelect);
          shardShuffledEligible = shuffleList sha validators randomness
      in if n < 0 then Inl (GoPanic ''slice bounds out of range'')
         else Inr (take (nat n) shardShuffledEligible, drop (nat n) shardShuffledEligible))"

section \<open>Maps of validators\<close>

definition copyValidatorMap :: "rangeOrder \<Rightarrow> nodesMap \<Rightarrow> nodesMap" where
  "copyValidatorMap order validatorsMap =
     fold (\<lambda>s result. result(s \<mapsto> listOf validatorsMap s)) (order (dom validatorsMap)) Map.empty"

definition getNumPubKeys :: "rangeOrder \<Rightarrow> nodesMap \<Rightarrow> u32" where
  "getNumPubKeys order m = fold (\<lambda>s n. n + of_nat (length (listOf m s))) (order (dom m)) 0"

definition getMaxListSize :: "rangeOrder \<Rightarrow> nodesMap \<Rightarrow> nat" where
  "getMaxListSize order m =
     fold (\<lambda>s maxSize. if maxSize < length (listOf m s) then length (listOf m s) else maxSize)
       (order (dom m)) 0"

fun searchLoop :: "shardID list \<Rightarrow> nodesMap \<Rightarrow> bytes \<Rightarrow> bool \<times> shardID" where
  "searchLoop [] m pk = (False, 0)"
| "searchLoop (s # ss) m pk =
     (if \<exists>v \<in> set (listOf m s). vPubKey v = pk then (True, s) else searchLoop ss m pk)"

definition searchInMap :: "rangeOrder \<Rightarrow> nodesMap \<Rightarrow> bytes \<Rightarrow> bool \<times> shardID" where
  "searchInMap order validatorMap pk = searchLoop (order (dom validatorMap)) validatorMap pk"

definition shardIds :: "u32 \<Rightarrow> shardID list" where
  "shardIds shards = map of_nat [0..<unat shards]"

definition createListsForAllShards :: "nodesMap \<Rightarrow> u32 \<Rightarrow> nodesMap" where
  "createListsForAllShards shardMap shards =
     fold (\<lambda>s m. if m s = None then m(s \<mapsto> []) else m) (shardIds shards @ [MetachainShardId]) shardMap"

definition moveNodesToMap ::
  "rangeOrder \<Rightarrow> nodesMap option \<Rightarrow> nodesMap \<Rightarrow> shufflerError + nodesMap \<times> nodesMap" where
  "moveNodesToMap order destination source =
     (case destination of
        None \<Rightarrow> Inl ErrNilOrEmptyDestinationForDistribute
      | Some dest \<Rightarrow> Inr (fold (\<lambda>s (d, src). (d(s \<mapsto> listOf d s @ listOf source s), src(s \<mapsto> [])))
                        (order (dom source)) (dest, source)))"

definition computeNeededNodes :: "validator list \<Rightarrow> validator list \<Rightarrow> u32 \<Rightarrow> u32" where
  "computeNeededNodes destination source maxNumNodes =
     (let numCurrentNodes = of_nat (length destination);
          numSourceNodes = of_nat (length source);
          numNeededNodes = (if maxNumNodes > numCurrentNodes then maxNumNodes - numCurrentNodes else 0)
      in if numSourceNodes < numNeededNodes then numSourceNodes else numNeededNodes)"

definition moveMaxNumNodesToMap ::
  "rangeOrder \<Rightarrow> nodesMap option \<Rightarrow> nodesMap \<Rightarrow> u32 \<Rightarrow> u32 \<Rightarrow> shufflerError + nodesMap \<times> nodesMap" where
  "moveMaxNumNodesToMap order destination source numMeta numShard =
     (case destination of
        None \<Rightarrow> Inl ErrNilOrEmptyDestinationForDistribute
      | Some dest \<Rightarrow> Inr (fold (\<lambda>s (d, src).
            let maxNodes = (if s = MetachainShardId then numMeta else numShard);
                n = unat (computeNeededNodes (listOf d s) (listOf src s) maxNodes)
            in (d(s \<mapsto> listOf d s @ take n (listOf source s)), src(s \<mapsto> drop n (listOf source s))))
          (order (dom source)) (dest, source)))"

section \<open>Distribution of validators\<close>

fun equalizeLoop ::
  "shardID list \<Rightarrow> nat \<Rightarrow> validator list \<Rightarrow> nodesMap \<Rightarrow> nat \<Rightarrow> nat \<Rightarrow> nodesMap \<times> nat \<times> nat" where
  "equalizeLoop [] maxListSize validators destLists indexValidators remaining =
     (destLists, indexValidators, remaining)"
| "equalizeLoop (s # ss) maxListSize validators destLists indexValidators remaining =
     (let shardList = listOf destLists s in
      if length shardList < maxListSize then
        let toMove = (if maxListSize - length shardList > remaining then remaining
                      else maxListSize - length shardList)
        in equalizeLoop ss maxListSize validators
             (destLists(s \<mapsto> listOf destLists s @ take toMove (drop indexValidators validators)))
             (indexValidators + toMove) (remaining - toMove)
      else equalizeLoop ss maxListSize validators destLists indexValidators remaining)"

definition equalizeValidatorsLists ::
  "rangeOrder \<Rightarrow> nodesMap \<Rightarrow> validator list \<Rightarrow> nodesMap \<times> validator list" where
  "equalizeValidatorsLists order destLists validators =
     (case equalizeLoop (sortKeys destLists) (getMaxListSize order destLists) validators destLists
             0 (length validators) of
        (dest, index, remaining) \<Rightarrow> (dest, take remaining (drop index validators)))"

fun distributeLoop :: "shardID list \<Rightarrow> u32 \<Rightarrow> nat \<Rightarrow> validator list \<Rightarrow> nodesMap \<Rightarrow> nodesMap" where
  "distributeLoop ids destLength i [] dest = dest"
| "distributeLoop ids destLength i (v # vs) dest =
     (let s = ids ! unat (of_nat i mod destLength)
      in distributeLoop ids destLength (Suc i) vs (dest(s \<mapsto> listOf dest s @ [v])))"

definition distributeValidators ::
  "(bytes \<Rightarrow> bytes) \<Rightarrow> rangeOrder \<Rightarrow> nodesMap \<Rightarrow> validator list \<Rightarrow> bytes \<Rightarrow> bool
     \<Rightarrow> shufflerError + nodesMap" where
  "distributeValidators sha order destLists validators randomness balanced =
     (if dom destLists = {} then Inl ErrNilOrEmptyDestinationForDistribute
      else
        let shuffledValidators = shuffleList sha validators randomness;
            sortedShardIds = sortKeys destLists;
            destLength = of_nat (length sortedShardIds) :: u32;
            (dest, toDistribute) = (if balanced
               then equalizeValidatorsLists order destLists shuffledValidators
               else (destLists, shuffledValidators))
        in if destLength = 0 \<and> toDistribute \<noteq> [] then Inl (GoPanic ''integer divide by zero'')
           else Inr (distributeLoop sortedShardIds destLength 0 toDistribute dest))"

text \<open>
  \<^verbatim>\<open>DistributeValidators\<close> of the two distributors; they return the destination and the
  source map, which the distribution inside a shard empties.
\<close>

definition IntraShard_DistributeValidators ::
  "rangeOrder \<Rightarrow> nodesMap \<Rightarrow> nodesMap \<Rightarrow> shufflerError + nodesMap \<times> nodesMap" where
  "IntraShard_DistributeValidators order destination source =
     moveNodesToMap order (Some destination) source"

definition CrossShard_DistributeValidators ::
  "(bytes \<Rightarrow> bytes) \<Rightarrow> rangeOrder \<Rightarrow> rangeOrder \<Rightarrow> nodesMap \<Rightarrow> nodesMap \<Rightarrow> bytes \<Rightarrow> bool
     \<Rightarrow> shufflerError + nodesMap \<times> nodesMap" where
  "CrossShard_DistributeValidators sha order orderMax destination source rand balanced =
     (let allValidators = fold (\<lambda>s vs. vs @ listOf source s) (order (dom source)) []
      in case distributeValidators sha orderMax destination allValidators rand balanced of
           Inl e \<Rightarrow> Inl e
         | Inr dest \<Rightarrow> Inr (dest, source))"

definition DistributeValidators ::
  "distributor \<Rightarrow> (bytes \<Rightarrow> bytes) \<Rightarrow> rangeOrder \<Rightarrow> rangeOrder \<Rightarrow> nodesMap \<Rightarrow> nodesMap \<Rightarrow> bytes \<Rightarrow> bool
     \<Rightarrow> shufflerError + nodesMap \<times> nodesMap" where
  "DistributeValidators d sha order orderMax destination source rand balanced =
     (case d of
        CrossShardValidatorDistributor \<Rightarrow>
          CrossShard_DistributeValidators sha order orderMax destination source rand balanced
      | IntraShardValidatorDistributor \<Rightarrow> IntraShard_DistributeValidators order destination source)"

definition checkAndDistributeNewNodes ::
  "(bytes \<Rightarrow> bytes) \<Rightarrow> rangeOrder \<Rightarrow> nodesMap \<Rightarrow> validator list \<Rightarrow> bytes \<Rightarrow> bool
     \<Rightarrow> shufflerError + nodesMap" where
  "checkAndDistributeNewNodes sha order waiting newNodes randomness step3 =
     (if \<not> step3 then distributeValidators sha order waiting newNodes randomness False
      else if length newNodes > 0 then Inl ErrReceivedNewListNodeInStakingV4
      else Inr waiting)"

definition shouldDistributeShuffledToWaitingInStakingV4 :: "shuffledNodesConfig \<Rightarrow> bool" where
  "shouldDistributeShuffledToWaitingInStakingV4 cfg =
     (if \<not> cfgFlagStakingV4Step2 cfg then False
      else
        let totalNewWaiting = numNewWaiting cfg + numSelectedAuction cfg;
            totalNodes = totalNewWaiting + numNewEligible cfg + numShuffled cfg
        in totalNodes \<le> cfgMaxNumNodes cfg)"

section \<open>Leaving and shuffled out validators\<close>

definition computeNumToRemovePerShard :: "int \<Rightarrow> int \<Rightarrow> int \<Rightarrow> int option" where
  "computeNumToRemovePerShard numEligible numWaiting nodesPerShard =
     (if numEligible + numWaiting < nodesPerShard then None
      else Some (numEligible + numWaiting - nodesPerShard))"

fun computeNumLoop ::
  "(shardID \<times> u32) list \<Rightarrow> nodesMap \<Rightarrow> nodesMap \<Rightarrow> (shardID \<rightharpoonup> int) \<Rightarrow> shufflerError + (shardID \<rightharpoonup> int)" where
  "computeNumLoop [] eligible waiting numToRemove = Inr numToRemove"
| "computeNumLoop ((s, nodes) # rest) eligible waiting numToRemove =
     (case computeNumToRemovePerShard (int (length (listOf eligible s)))
             (int (length (listOf waiting s))) (uint nodes) of
        None \<Rightarrow> Inl (ErrSmallShardEligibleListSize s)
      | Some maxToRemove \<Rightarrow> computeNumLoop rest eligible waiting (numToRemove(s \<mapsto> maxToRemove)))"

definition computeNumToRemove :: "shuffleNodesArg \<Rightarrow> shufflerError + (shardID \<rightharpoonup> int)" where
  "computeNumToRemove arg =
     (if snNbShards arg = 0 then Inr Map.empty
      else computeNumLoop
             (map (\<lambda>s. (s, snNodesPerShard arg)) (shardIds (snNbShards arg))
               @ [(MetachainShardId, snNodesMeta arg)])
             (snEligible arg) (snWaiting arg) Map.empty)"

definition capNumToRemove :: "rangeOrder \<Rightarrow> (shardID \<rightharpoonup> int) \<Rightarrow> u32 \<Rightarrow> (shardID \<rightharpoonup> int)" where
  "capNumToRemove order numToRemove maxNodesToSwapPerShard =
     fold (\<lambda>i m. if numOf numToRemove i > uint maxNodesToSwapPerShard
                 then m(i \<mapsto> uint maxNodesToSwapPerShard) else m)
       (order (dom numToRemove)) numToRemove"

definition removeLeavingNodesNotExistingInEligibleOrWaiting ::
  "(rangeLoop \<Rightarrow> rangeOrder) \<Rightarrow> validator list \<Rightarrow> nodesMap \<Rightarrow> nodesMap
     \<Rightarrow> validator list \<times> validator list" where
  "removeLeavingNodesNotExistingInEligibleOrWaiting orders leavingValidators waiting eligible =
     (let notFoundValidators = filter (\<lambda>v.
            \<not> fst (searchInMap (orders (SearchWaiting (vPubKey v))) waiting (vPubKey v)) \<and>
            \<not> fst (searchInMap (orders (SearchEligible (vPubKey v))) eligible (vPubKey v)))
          leavingValidators
      in removeValidatorsFromList leavingValidators notFoundValidators
           (int (length notFoundValidators)))"

definition removeNodesFromShard ::
  "nodesMap \<Rightarrow> validator list \<Rightarrow> shardID \<Rightarrow> int \<Rightarrow> nodesMap \<times> validator list \<times> int" where
  "removeNodesFromShard existingNodes leavingNodes shard nbToRemove =
     (let nb = (if int (length leavingNodes) < nbToRemove then int (length leavingNodes) else nbToRemove);
          (vList, removedNodes) = removeValidatorsFromList (listOf existingNodes shard) leavingNodes nb;
          (leaving, _) = removeValidatorsFromList leavingNodes removedNodes (int (length removedNodes))
      in (existingNodes(shard \<mapsto> vList), leaving, int (length removedNodes)))"

fun removeNodesLoop ::
  "shardID list \<Rightarrow> nodesMap \<Rightarrow> validator list \<Rightarrow> (shardID \<rightharpoonup> int)
     \<Rightarrow> nodesMap \<times> validator list \<times> (shardID \<rightharpoonup> int)" where
  "removeNodesLoop [] existingNodes leavingNodes numToRemove = (existingNodes, leavingNodes, numToRemove)"
| "removeNodesLoop (s # ss) existingNodes leavingNodes numToRemove =
     (case removeNodesFromShard existingNodes leavingNodes s (numOf numToRemove s) of
        (existing, leaving, numRemoved) \<Rightarrow>
          removeNodesLoop ss existing leaving (numToRemove(s \<mapsto> numOf numToRemove s - numRemoved)))"

definition removeNodesFromMap ::
  "nodesMap \<Rightarrow> validator list \<Rightarrow> (shardID \<rightharpoonup> int) \<Rightarrow> nodesMap \<times> validator list \<times> (shardID \<rightharpoonup> int)" where
  "removeNodesFromMap existingNodes leavingNodes numToRemove =
     removeNodesLoop (sortKeys existingNodes) existingNodes leavingNodes numToRemove"

definition removeLeavingNodesFromValidatorMaps ::
  "nodesMap \<Rightarrow> nodesMap \<Rightarrow> (shardID \<rightharpoonup> int) \<Rightarrow> validator list
     \<Rightarrow> nodesMap \<times> nodesMap \<times> validator list \<times> (shardID \<rightharpoonup> int)" where
  "removeLeavingNodesFromValidatorMaps eligible waiting numToRemove leaving =
     (let (newWaiting, remaining, num) = removeNodesFromMap waiting leaving numToRemove;
          (newEligible, remaining', num') = removeNodesFromMap eligible remaining num
      in (newEligible, newWaiting, remaining', num'))"

fun shuffleOutLoop ::
  "(bytes \<Rightarrow> bytes) \<Rightarrow> shardID list \<Rightarrow> nodesMap \<Rightarrow> (shardID \<rightharpoonup> int) \<Rightarrow> bytes \<Rightarrow> nodesMap \<Rightarrow> nodesMap
     \<Rightarrow> shufflerError + nodesMap \<times> nodesMap" where
  "shuffleOutLoop sha [] eligible numToShuffle randomness shuffledOutMap newEligible =
     Inr (shuffledOutMap, newEligible)"
| "shuffleOutLoop sha (s # ss) eligible numToShuffle randomness shuffledOutMap newEligible =
     (case shuffleOutShard sha (listOf eligible s) (numOf numToShuffle s) randomness of
        Inl e \<Rightarrow> Inl e
      | Inr (shardShuffledOut, validators) \<Rightarrow>
          shuffleOutLoop sha ss eligible numToShuffle randomness
            (shuffledOutMap(s \<mapsto> shardShuffledOut))
            (newEligible(s \<mapsto> fst (removeValidatorsFromList validators shardShuffledOut
                                    (int (length shardShuffledOut))))))"

definition shuffleOutNodes ::
  "(bytes \<Rightarrow> bytes) \<Rightarrow> nodesMap \<Rightarrow> (shardID \<rightharpoonup> int) \<Rightarrow> bytes \<Rightarrow> shufflerError + nodesMap \<times> nodesMap" where
  "shuffleOutNodes sha eligible numToShuffle randomness =
     shuffleOutLoop sha (sortKeys eligible) eligible numToShuffle randomness Map.empty Map.empty"

section \<open>One run of the shuffler\<close>

text \<open>
  \<^verbatim>\<open>shuffleNodes\<close>, in the two halves its error returns give it: up to the filling of
  the eligible lists, and the distribution into the waiting lists.
\<close>

definition removeAndMove ::
  "(bytes \<Rightarrow> bytes) \<Rightarrow> (rangeLoop \<Rightarrow> rangeOrder) \<Rightarrow> shuffleNodesArg
     \<Rightarrow> shufflerError + nodesMap \<times> nodesMap \<times> nodesMap \<times> validator list" where
  "removeAndMove sha orders arg =
     (let waitingCopy = createListsForAllShards
            (copyValidatorMap (orders CopyWaiting) (snWaiting arg)) (snNbShards arg);
          eligibleCopy = copyValidatorMap (orders CopyEligible) (snEligible arg)
      in case computeNumToRemove arg of
           Inl e \<Rightarrow> Inl e
         | Inr num0 \<Rightarrow>
             let numToRemove = capNumToRemove (orders CapNumToRemove) num0 (snMaxNodesToSwapPerShard arg);
                 (remainingUnstakeLeaving, _) = removeLeavingNodesNotExistingInEligibleOrWaiting
                   orders (snUnstakeLeaving arg) waitingCopy eligibleCopy;
                 (remainingAdditionalLeaving, _) = removeLeavingNodesNotExistingInEligibleOrWaiting
                   orders (snAdditionalLeaving arg) waitingCopy eligibleCopy;
                 (newEligible1, newWaiting1, stillUnstake, num1) =
                   removeLeavingNodesFromValidatorMaps eligibleCopy waitingCopy numToRemove
                     remainingUnstakeLeaving;
                 (newEligible2, newWaiting2, stillAdditional, num2) =
                   removeLeavingNodesFromValidatorMaps newEligible1 newWaiting1 num1
                     remainingAdditionalLeaving
             in case shuffleOutNodes sha newEligible2 num2 (snRandomness arg) of
                  Inl e \<Rightarrow> Inl e
                | Inr (shuffledOutMap, newEligible3) \<Rightarrow>
                    (case moveMaxNumNodesToMap (orders MoveToEligible) (Some newEligible3) newWaiting2
                            (snNodesMeta arg) (snNodesPerShard arg) of
                       Inl e \<Rightarrow> Inl (Wrapped ''moveNodesToMap failed'' e)
                     | Inr (newEligible, newWaiting) \<Rightarrow>
                         Inr (newEligible, newWaiting, shuffledOutMap, stillUnstake @ stillAdditional)))"

definition distributeAll ::
  "(bytes \<Rightarrow> bytes) \<Rightarrow> (rangeLoop \<Rightarrow> rangeOrder) \<Rightarrow> shuffleNodesArg \<Rightarrow> nodesMap \<Rightarrow> nodesMap \<Rightarrow> nodesMap
     \<Rightarrow> shufflerError + nodesMap \<times> nodesMap \<times> bool" where
  "distributeAll sha orders arg newEligible waiting0 shuffledOutMap =
     (case checkAndDistributeNewNodes sha (orders MaxSizeNewNodes) waiting0 (snNewNodes arg)
             (snRandomness arg) (snFlagStakingV4Step3 arg) of
        Inl e \<Rightarrow> Inl (Wrapped ''distributeValidators newNodes failed'' e)
      | Inr waiting1 \<Rightarrow>
          let cfg = \<lparr> numShuffled = getNumPubKeys (orders CountShuffled) shuffledOutMap,
                      numNewEligible = getNumPubKeys (orders CountEligible) newEligible,
                      numNewWaiting = getNumPubKeys (orders CountWaiting) waiting1,
                      numSelectedAuction = of_nat (length (snAuction arg)),
                      cfgMaxNumNodes = snMaxNumNodes arg,
                      cfgFlagStakingV4Step2 = snFlagStakingV4Step2 arg \<rparr>;
              lowWaitingList = shouldDistributeShuffledToWaitingInStakingV4 cfg
          in case (if snFlagStakingV4Step3 arg \<or> lowWaitingList
                   then distributeValidators sha (orders MaxSizeAuction) waiting1 (snAuction arg)
                          (snRandomness arg) (snFlagBalanceWaitingLists arg)
                   else Inr waiting1) of
               Inl e \<Rightarrow> Inl (Wrapped ''distributeValidators auction list failed'' e)
             | Inr waiting2 \<Rightarrow>
                 (case (if \<not> snFlagStakingV4Step2 arg \<or> lowWaitingList
                        then DistributeValidators (snDistributor arg) sha (orders RangeShuffledOut)
                               (orders MaxSizeShuffledOut) waiting2 shuffledOutMap (snRandomness arg)
                               (snFlagBalanceWaitingLists arg)
                        else Inr (waiting2, shuffledOutMap)) of
                    Inl e \<Rightarrow> Inl (Wrapped ''distributeValidators shuffled out failed'' e)
                  | Inr (waiting3, shuffledOut') \<Rightarrow> Inr (waiting3, shuffledOut', lowWaitingList)))"

definition shuffleNodes ::
  "(bytes \<Rightarrow> bytes) \<Rightarrow> (rangeLoop \<Rightarrow> rangeOrder) \<Rightarrow> shuffleNodesArg \<Rightarrow> shufflerError + resUpdateNodes" where
  "shuffleNodes sha orders arg =
     (let allLeaving = snUnstakeLeaving arg @ snAdditionalLeaving arg
      in case removeAndMove sha orders arg of
           Inl e \<Rightarrow> Inl e
         | Inr (newEligible, newWaiting, shuffledOutMap, stillRemainingInLeaving) \<Rightarrow>
             (case distributeAll sha orders arg newEligible newWaiting shuffledOutMap of
                Inl e \<Rightarrow> Inl e
              | Inr (waiting, shuffledOut, lowWaitingList) \<Rightarrow>
                  Inr \<lparr> resEligible = newEligible,
                        resWaiting = waiting,
                        resShuffledOut = shuffledOut,
                        resLeaving = fst (removeValidatorsFromList allLeaving stillRemainingInLeaving
                                           (int (length stillRemainingInLeaving))),
                        resStillRemaining = stillRemainingInLeaving,
                        resLowWaitingList = (if snFlagCleanupAuctionOnLowWaitingList arg
                                             then lowWaitingList else False) \<rparr>))"

section \<open>The shuffler\<close>

definition UpdateParams :: "randHashShuffler \<Rightarrow> u32 \<Rightarrow> u32 \<Rightarrow> (u32 \<Rightarrow> u32) \<Rightarrow> bool \<Rightarrow> randHashShuffler" where
  "UpdateParams rhs shard meta hysteresis adapt =
     rhs\<lparr> shardHysteresis := hysteresis shard,
          metaHysteresis := hysteresis meta,
          nodesShard := shard,
          nodesMeta := meta,
          adaptivity := adapt \<rparr>"

text \<open>\<^verbatim>\<open>sort.Slice\<close> is an insertion sort, hence stable, on the few configurations there are.\<close>

definition sortConfigs :: "randHashShuffler \<Rightarrow> randHashShuffler" where
  "sortConfigs rhs =
     rhs\<lparr> availableNodesConfigs := sort_key EpochEnable (availableNodesConfigs rhs) \<rparr>"

definition NewHashValidatorsShuffler ::
  "(enableEpochsHandler \<Rightarrow> epochFlag list \<Rightarrow> string option) \<Rightarrow> nodesShufflerArgs option
     \<Rightarrow> shufflerError + randHashShuffler" where
  "NewHashValidatorsShuffler checkHandlerCompatibility args =
     (case args of
        None \<Rightarrow> Inl ErrNilNodeShufflerArguments
      | Some a \<Rightarrow>
          (case argEnableEpochsHandler a of
             None \<Rightarrow> Inl ErrNilEnableEpochsHandler
           | Some handler \<Rightarrow>
               (case checkHandlerCompatibility handler
                       [BalanceWaitingListsFlag, CleanupAuctionOnLowWaitingListFlag] of
                  Some err \<Rightarrow> Inl (ErrHandlerCompatibility err)
                | None \<Rightarrow>
                    let rxs = \<lparr> shuffleBetweenShards = argShuffleBetweenShards a,
                                adaptivity = False, nodesShard = 0, nodesMeta = 0,
                                shardHysteresis = 0, metaHysteresis = 0,
                                activeNodesConfig = \<lparr> EpochEnable = 0, MaxNumNodes = 0,
                                                      NodesToShufflePerShard = 0 \<rparr>,
                                availableNodesConfigs = argMaxNodesEnableConfig a,
                                validatorDistributor =
                                  (if argShuffleBetweenShards a then CrossShardValidatorDistributor
                                   else IntraShardValidatorDistributor),
                                epochsHandler = handler,
                                stakingV4Step2EnableEpoch = argStakingV4Step2EnableEpoch a,
                                flagStakingV4Step2 = False,
                                stakingV4Step3EnableEpoch = argStakingV4Step3EnableEpoch a,
                                flagStakingV4Step3 = False \<rparr>
                    in Inr (sortConfigs (UpdateParams rxs (argNodesShard a) (argNodesMeta a)
                              (argHysteresis a) (argAdaptivity a))))))"

definition updateShufflerConfig :: "randHashShuffler \<Rightarrow> u32 \<Rightarrow> randHashShuffler" where
  "updateShufflerConfig rhs epoch =
     rhs\<lparr> activeNodesConfig :=
            fold (\<lambda>cfg active. if epoch \<ge> EpochEnable cfg then cfg else active)
              (availableNodesConfigs rhs)
              ((activeNodesConfig rhs)\<lparr> NodesToShufflePerShard := nodesShard rhs \<rparr>),
          flagStakingV4Step3 := (epoch \<ge> stakingV4Step3EnableEpoch rhs),
          flagStakingV4Step2 := (epoch \<ge> stakingV4Step2EnableEpoch rhs) \<rparr>"

definition computeNewShards ::
  "randHashShuffler \<Rightarrow> rangeOrder \<Rightarrow> nodesMap \<Rightarrow> nodesMap \<Rightarrow> int \<Rightarrow> int \<Rightarrow> u32 \<Rightarrow> shufflerError + u32" where
  "computeNewShards rhs order eligible waiting numNewNodes numLeavingNodes nbShards =
     (let (nbEligible, nbWaiting) = fold (\<lambda>s (e, w).
            (e + int (length (listOf eligible s)), w + int (length (listOf waiting s))))
            (order (dom eligible)) (0, 0);
          nodesNewEpoch = word_of_int (nbEligible + nbWaiting + numNewNodes - numLeavingNodes) :: u32;
          maxNodesMeta = nodesMeta rhs + metaHysteresis rhs;
          maxNodesShard = nodesShard rhs + shardHysteresis rhs;
          nodesForSplit = (nbShards + 1) * maxNodesShard + maxNodesMeta;
          nodesForMerge = nbShards * nodesShard rhs + nodesMeta rhs
      in if nodesNewEpoch > nodesForSplit then
           (if maxNodesShard = 0 then Inl (GoPanic ''integer divide by zero'')
            else Inr ((nodesNewEpoch - maxNodesMeta) div maxNodesShard))
         else if nodesNewEpoch < nodesForMerge then Inr (nbShards - 1)
         else Inr nbShards)"

definition splitShards ::
  "(rangeLoop \<Rightarrow> rangeOrder) \<Rightarrow> nodesMap \<Rightarrow> nodesMap \<Rightarrow> u32 \<Rightarrow> nodesMap \<times> nodesMap" where
  "splitShards orders eligible waiting newNbShards =
     (copyValidatorMap (orders SplitEligible) eligible, copyValidatorMap (orders SplitWaiting) waiting)"

definition mergeShards ::
  "(rangeLoop \<Rightarrow> rangeOrder) \<Rightarrow> nodesMap \<Rightarrow> nodesMap \<Rightarrow> u32 \<Rightarrow> nodesMap \<times> nodesMap" where
  "mergeShards orders eligible waiting newNbShards =
     (copyValidatorMap (orders MergeEligible) eligible, copyValidatorMap (orders MergeWaiting) waiting)"

definition UpdateNodeLists ::
  "(bytes \<Rightarrow> bytes) \<Rightarrow> (rangeLoop \<Rightarrow> rangeOrder) \<Rightarrow> randHashShuffler \<Rightarrow> argsUpdateNodes
     \<Rightarrow> randHashShuffler \<times> (shufflerError + resUpdateNodes)" where
  "UpdateNodeLists sha orders rhs0 args =
     (let rhs = updateShufflerConfig rhs0 (auEpoch args);
          additionalLeaving = removeDupplicates (auUnStakeLeaving args) (auAdditionalLeaving args);
          totalLeavingNum = int (length additionalLeaving) + int (length (auUnStakeLeaving args))
      in case computeNewShards rhs (orders ComputeNewShards) (auEligible args) (auWaiting args)
                (int (length (auNewNodes args))) totalLeavingNum (auNbShards args) of
           Inl e \<Rightarrow> (rhs, Inl e)
         | Inr newNbShards \<Rightarrow>
             let canSplit = (adaptivity rhs \<and> newNbShards > auNbShards args);
                 canMerge = (adaptivity rhs \<and> newNbShards < auNbShards args);
                 copied = (copyValidatorMap (orders CopyArgsEligible) (auEligible args),
                           copyValidatorMap (orders CopyArgsWaiting) (auWaiting args));
                 split = (if canSplit then splitShards orders (auEligible args) (auWaiting args) newNbShards
                          else copied);
                 (eligibleAfterReshard, waitingAfterReshard) =
                   (if canMerge then mergeShards orders (auEligible args) (auWaiting args) newNbShards
                    else split)
             in (rhs, shuffleNodes sha orders
                  \<lparr> snEligible = eligibleAfterReshard,
                    snWaiting = waitingAfterReshard,
                    snUnstakeLeaving = auUnStakeLeaving args,
                    snAdditionalLeaving = additionalLeaving,
                    snNewNodes = auNewNodes args,
                    snAuction = auAuction args,
                    snRandomness = auRand args,
                    snDistributor = validatorDistributor rhs,
                    snNodesMeta = nodesMeta rhs,
                    snNodesPerShard = nodesShard rhs,
                    snNbShards = auNbShards args,
                    snMaxNodesToSwapPerShard = NodesToShufflePerShard (activeNodesConfig rhs),
                    snMaxNumNodes = MaxNumNodes (activeNodesConfig rhs),
                    snFlagBalanceWaitingLists =
                      epochsHandler rhs BalanceWaitingListsFlag (auEpoch args),
                    snFlagStakingV4Step2 = flagStakingV4Step2 rhs,
                    snFlagStakingV4Step3 = flagStakingV4Step3 rhs,
                    snFlagCleanupAuctionOnLowWaitingList =
                      epochsHandler rhs CleanupAuctionOnLowWaitingListFlag (auEpoch args) \<rparr>))"

end
