(* ===== verification/ShufflerLemmas.thy ===== *)
theory ShufflerLemmas
  imports ValidatorShuffler
begin

text \<open>
  What the helpers of the shuffler do, stated on the multisets of public keys
  they move: removal from lists and maps, shuffling, distribution. The loops
  over Go maps are given as functions of the map alone, whatever the order.
\<close>

section \<open>Specification vocabulary\<close>

definition pks :: "validator list \<Rightarrow> bytes multiset" where
  "pks vs = mset (map vPubKey vs)"

definition nodesIn :: "nodesMap \<Rightarrow> bytes multiset" where
  "nodesIn m = (\<Sum>s\<in>dom m. pks (listOf m s))"

text \<open>Go ranges over every key once, in some order.\<close>

definition goRange :: "rangeOrder \<Rightarrow> bool" where
  "goRange order \<longleftrightarrow> (\<forall>K. distinct (order K) \<and> set (order K) = K)"

definition noCollision :: "(bytes \<Rightarrow> bytes) \<Rightarrow> bytes \<Rightarrow> bytes set \<Rightarrow> bool" where
  "noCollision sha rand K \<longleftrightarrow> inj_on (\<lambda>pk. sha (pk @ rand)) K"

definition distinctPks :: "bytes multiset \<Rightarrow> bool" where
  "distinctPks M \<longleftrightarrow> (\<forall>pk. count M pk \<le> 1)"

text \<open>What the loops over maps compute, whatever the order.\<close>

definition maxListSize :: "nodesMap \<Rightarrow> nat" where
  "maxListSize m = Max (insert 0 ((\<lambda>s. length (listOf m s)) ` dom m))"

definition neededNodes :: "nodesMap \<Rightarrow> nodesMap \<Rightarrow> u32 \<Rightarrow> u32 \<Rightarrow> shardID \<Rightarrow> nat" where
  "neededNodes dest source numMeta numShard s =
     unat (computeNeededNodes (listOf dest s) (listOf source s)
             (if s = MetachainShardId then numMeta else numShard))"

lemma pks_simps [simp]:
  "pks [] = {#}" "pks (v # vs) = add_mset (vPubKey v) (pks vs)" "pks (vs @ ws) = pks vs + pks ws"
  by (simp_all add: pks_def)

lemma size_pks [simp]: "size (pks vs) = length vs"
  by (simp add: pks_def)

lemma pks_image: "pks vs = image_mset vPubKey (mset vs)"
  by (simp add: pks_def)

lemma set_pks [simp]: "set_mset (pks vs) = vPubKey ` set vs"
  by (simp add: pks_def)

lemma pks_mset_cong: "mset vs = mset ws \<Longrightarrow> pks vs = pks ws"
  by (simp add: pks_image)

lemma distinctPks_pks: "distinctPks (pks vs) \<longleftrightarrow> distinct (map vPubKey vs)"
proof -
  have "count (mset xs) a \<le> 1 \<longleftrightarrow> count (mset xs) a = (if a \<in> set xs then 1 else 0)" for xs :: "bytes list" and a
  proof (cases "a \<in> set xs")
    case True
    then have "count (mset xs) a \<noteq> 0" by simp
    then show ?thesis unfolding if_P [OF True] by linarith
  next
    case False
    then have "count (mset xs) a = 0" by simp
    then show ?thesis unfolding if_not_P [OF False] by linarith
  qed
  then show ?thesis by (simp only: distinctPks_def pks_def distinct_count_atmost_1)
qed

lemma distinctPks_mono: "distinctPks M \<Longrightarrow> N \<subseteq># M \<Longrightarrow> distinctPks N"
  by (meson distinctPks_def le_trans mset_subset_eq_count)

lemma distinctPks_disjoint:
  assumes "distinctPks (M + N)"
  shows "M \<inter># N = {#}"
proof (rule multiset_eqI)
  fix x
  have "count M x + count N x \<le> 1" using assms by (simp add: distinctPks_def)
  then show "count (M \<inter># N) x = count {#} x" by auto
qed

lemma listOf_simps [simp]:
  "listOf Map.empty s = []"
  "listOf (m(s \<mapsto> vs)) t = (if t = s then vs else listOf m t)"
  by (simp_all add: listOf_def)

lemma numOf_simps [simp]:
  "numOf Map.empty s = 0"
  "numOf (m(s \<mapsto> n)) t = (if t = s then n else numOf m t)"
  by (simp_all add: numOf_def)

lemma listOf_notin_dom: "s \<notin> dom m \<Longrightarrow> listOf m s = []"
  by (auto simp: listOf_def split: option.splits)

text \<open>Shard identifiers are a finite type, so a map can be read at every one of them.\<close>

lemma nodesIn_UNIV: "nodesIn m = (\<Sum>s\<in>UNIV. pks (listOf m s))"
  unfolding nodesIn_def
  by (rule sum.mono_neutral_left) (auto simp: listOf_notin_dom)

lemma nodesIn_upd: "nodesIn (m(s \<mapsto> vs)) + pks (listOf m s) = nodesIn m + pks vs"
proof -
  have "nodesIn (m(s \<mapsto> vs)) = pks vs + (\<Sum>t\<in>UNIV - {s}. pks (listOf m t))"
    unfolding nodesIn_UNIV by (subst sum.remove [of _ s]) auto
  moreover have "nodesIn m = pks (listOf m s) + (\<Sum>t\<in>UNIV - {s}. pks (listOf m t))"
    unfolding nodesIn_UNIV by (subst sum.remove [of _ s]) auto
  ultimately show ?thesis by simp
qed

lemma nodesIn_append: "nodesIn (m(s \<mapsto> listOf m s @ vs)) = nodesIn m + pks vs"
  using nodesIn_upd [of m s "listOf m s @ vs"] by (simp add: add_ac)

lemma nodesIn_empty [simp]: "nodesIn Map.empty = {#}"
  by (simp add: nodesIn_def)

lemma nodesIn_cong: "(\<And>s. pks (listOf m s) = pks (listOf m' s)) \<Longrightarrow> nodesIn m = nodesIn m'"
  by (simp add: nodesIn_UNIV)

lemma nodesIn_add: "(\<And>s. pks (listOf m s) = pks (listOf m1 s) + pks (listOf m2 s)) \<Longrightarrow>
    nodesIn m = nodesIn m1 + nodesIn m2"
  by (simp add: nodesIn_UNIV sum.distrib)

lemma pks_le_nodesIn: "pks (listOf m s) \<subseteq># nodesIn m"
  unfolding nodesIn_UNIV by (subst sum.remove [of _ s]) auto

lemma in_nodesIn: "pk \<in># nodesIn m \<longleftrightarrow> (\<exists>s. pk \<in> vPubKey ` set (listOf m s))"
  unfolding nodesIn_UNIV by (simp add: set_mset_sum)

lemma in_nodesIn_dom: "pk \<in># nodesIn m \<longleftrightarrow> (\<exists>s\<in>dom m. pk \<in> vPubKey ` set (listOf m s))"
proof -
  have "pk \<in> vPubKey ` set (listOf m s) \<Longrightarrow> s \<in> dom m" for s
    using listOf_notin_dom [of s m] by fastforce
  then show ?thesis unfolding in_nodesIn by blast
qed

section \<open>Removal from lists\<close>

lemma lastMatch_Some: "lastMatch vs pk n = Some i \<Longrightarrow> i < n \<and> vPubKey (vs ! i) = pk"
  by (induction n) (auto split: if_splits)

lemma lastMatch_None: "lastMatch vs pk n = None \<Longrightarrow> i < n \<Longrightarrow> vPubKey (vs ! i) \<noteq> pk"
  by (induction n) (auto simp: less_Suc_eq split: if_splits)

lemma lastMatch_absent: "lastMatch vs pk (length vs) = None \<Longrightarrow> pk \<notin># pks vs"
  unfolding set_pks image_iff using lastMatch_None by (metis in_set_conv_nth)

lemma mset_removeValidatorFromList:
  assumes "i < length vs"
  shows "mset vs = add_mset (vs ! i) (mset (removeValidatorFromList vs (int i)))"
proof -
  let ?ws = "vs[i := last vs]"
  have ne: "vs \<noteq> []" using assms by auto
  have "last ?ws = last vs" using ne by (auto simp: last_list_update)
  then have "mset ?ws = add_mset (last vs) (mset (butlast ?ws))"
    using ne by (metis list_update_nonempty snoc_eq_iff_butlast mset.simps(1) mset.simps(2)
        mset_append union_mset_add_mset_right add.right_neutral)
  moreover have "mset ?ws = add_mset (last vs) (mset vs - {#vs ! i#})"
    using assms by (simp add: mset_update)
  ultimately have "mset (butlast ?ws) = mset vs - {#vs ! i#}" by simp
  then show ?thesis using assms by (simp add: removeValidatorFromList_def)
qed

lemma removeValidatorsLoop_spec:
  assumes "removeValidatorsLoop rs mx res removed = (res', removed')"
  shows "mset res' + mset removed' = mset res + mset removed \<and>
         pks removed' \<subseteq># pks removed + pks rs \<and>
         (int (length removed) \<le> mx \<longrightarrow> int (length removed') \<le> mx) \<and>
         (int (length removed + length rs) \<le> mx \<longrightarrow> pks res' = pks res - pks rs)"
  using assms
proof (induction rs mx res removed rule: removeValidatorsLoop.induct)
  case (1 mx res removed)
  then show ?case by simp
next
  case (2 v rs mx res removed)
  show ?case
  proof (cases "int (length removed) = mx")
    case True
    then show ?thesis using "2.prems" by auto
  next
    case False
    show ?thesis
    proof (cases "lastMatch res (vPubKey v) (length res)")
      case None
      then have IH: "mset res' + mset removed' = mset res + mset removed"
        "pks removed' \<subseteq># pks removed + pks rs"
        "int (length removed) \<le> mx \<longrightarrow> int (length removed') \<le> mx"
        "int (length removed + length rs) \<le> mx \<longrightarrow> pks res' = pks res - pks rs"
        using False "2.IH"(1) "2.prems" by auto
      have "vPubKey v \<notin># pks res" using None by (rule lastMatch_absent)
      then have "pks res - pks (v # rs) = pks res - pks rs"
        by (metis diff_add_mset_swap pks_simps(2) minus_add_mset_if_not_in_lhs)
      moreover have "pks removed + pks rs \<subseteq># pks removed + pks (v # rs)" by simp
      ultimately show ?thesis using IH by (auto intro: subset_mset.order_trans)
    next
      case (Some i)
      let ?r = "removeValidatorFromList res (int i)"
      have i: "i < length res" "vPubKey (res ! i) = vPubKey v" using lastMatch_Some [OF Some] by auto
      have m: "mset res = add_mset (res ! i) (mset ?r)"
        by (rule mset_removeValidatorFromList [OF i(1)])
      have IH: "mset res' + mset removed' = mset ?r + mset (removed @ [res ! i])"
        "pks removed' \<subseteq># pks (removed @ [res ! i]) + pks rs"
        "int (length (removed @ [res ! i])) \<le> mx \<longrightarrow> int (length removed') \<le> mx"
        "int (length (removed @ [res ! i]) + length rs) \<le> mx \<longrightarrow> pks res' = pks ?r - pks rs"
        using False Some "2.IH"(2) "2.prems" by auto
      have "pks res = add_mset (vPubKey v) (pks ?r)" using m i(2) by (simp add: pks_image)
      then show ?thesis using IH m i False by auto
    qed
  qed
qed

lemma removeValidatorsFromList_spec:
  assumes "removeValidatorsFromList vs rs mx = (vs', removed)"
  shows "mset vs' + mset removed = mset vs" and "pks removed \<subseteq># pks rs"
    and "0 \<le> mx \<Longrightarrow> int (length removed) \<le> mx"
    and "int (length rs) \<le> mx \<Longrightarrow> pks vs' = pks vs - pks rs"
  using removeValidatorsLoop_spec [OF assms [unfolded removeValidatorsFromList_def]] by auto

lemma removeValidatorsFromList_pks:
  assumes "removeValidatorsFromList vs rs mx = (vs', removed)"
  shows "pks vs' + pks removed = pks vs"
  using removeValidatorsFromList_spec(1) [OF assms] by (metis pks_image image_mset_union)

lemma removeValidatorsFromList_all:
  "pks (fst (removeValidatorsFromList vs rs (int (length rs)))) = pks vs - pks rs"
  by (cases "removeValidatorsFromList vs rs (int (length rs))") (simp add: removeValidatorsFromList_spec(4))

text \<open>Nothing is to be removed when the keys are others: the list stays as it is.\<close>

lemma removeValidatorsLoop_disjoint:
  "pks vs \<inter># pks rs = {#} \<Longrightarrow> removeValidatorsLoop rs mx vs removed = (vs, removed)"
proof (induction rs arbitrary: removed)
  case (Cons v rs)
  have v: "vPubKey v \<notin># pks vs" using Cons.prems by auto
  then have "lastMatch vs (vPubKey v) (length vs) = None"
    by (metis lastMatch_Some nth_mem option.exhaust imageI set_pks)
  moreover have "pks vs \<inter># pks rs = {#}" using Cons.prems v by auto
  ultimately show ?case using Cons.IH by simp
qed simp

text \<open>The additional leaving nodes are those that do not leave by unstaking already.\<close>

lemma nth_removeValidatorFromList:
  assumes "i < length vs" and "i \<le> j" and "j < length vs - 1"
  shows "\<exists>k. Suc i \<le> k \<and> k < length vs \<and> removeValidatorFromList vs (int i) ! j = vs ! k"
proof (cases "i = j")
  case True
  have "vs \<noteq> []" using assms(1) by auto
  then have "removeValidatorFromList vs (int i) ! j = vs ! (length vs - 1)"
    using True assms by (simp add: removeValidatorFromList_def nth_butlast last_conv_nth)
  then show ?thesis using assms by (intro exI [of _ "length vs - 1"]) auto
next
  case False
  then have "removeValidatorFromList vs (int i) ! j = vs ! j"
    using assms by (simp add: removeValidatorFromList_def nth_butlast)
  then show ?thesis using assms False by (intro exI [of _ j]) auto
qed

lemma removeDupLoop_pks:
  assumes "n \<le> length vs" and "\<And>j. n \<le> j \<Longrightarrow> j < length vs \<Longrightarrow> vPubKey (vs ! j) \<noteq> pk"
  shows "pks (removeDupLoop pk vs n) = filter_mset (\<lambda>x. x \<noteq> pk) (pks vs)"
  using assms
proof (induction n arbitrary: vs)
  case 0
  then have "pk \<noteq> vPubKey v" if "v \<in> set vs" for v using that by (metis in_set_conv_nth le0)
  then have "filter_mset (\<lambda>x. x \<noteq> pk) (pks vs) = pks vs" by (induction vs) auto
  then show ?case by simp
next
  case (Suc i)
  show ?case
  proof (cases "pk = vPubKey (vs ! i)")
    case True
    let ?ws = "removeValidatorFromList vs (int i)"
    have m: "mset vs = add_mset (vs ! i) (mset ?ws)"
      using Suc.prems(1) by (intro mset_removeValidatorFromList) simp
    then have len: "length ?ws = length vs - 1" by (metis size_mset size_add_mset diff_Suc_1)
    have "pks (removeDupLoop pk ?ws i) = filter_mset (\<lambda>x. x \<noteq> pk) (pks ?ws)"
    proof (rule Suc.IH)
      show "i \<le> length ?ws" using len Suc.prems(1) by simp
      show "vPubKey (?ws ! j) \<noteq> pk" if j: "i \<le> j" "j < length ?ws" for j
      proof -
        obtain k where "Suc i \<le> k" "k < length vs" "?ws ! j = vs ! k"
          using nth_removeValidatorFromList [of i vs j] j len Suc.prems(1) by auto
        then show ?thesis using Suc.prems(2) by simp
      qed
    qed
    moreover have "pks vs = add_mset pk (pks ?ws)" using m True by (simp add: pks_image)
    ultimately show ?thesis using True by simp
  next
    case False
    then have "vPubKey (vs ! j) \<noteq> pk" if "i \<le> j" "j < length vs" for j
      using that Suc.prems(2) [of j] by (cases "i = j") auto
    then show ?thesis using Suc.IH [of vs] Suc.prems(1) False by simp
  qed
qed

lemma removeDupplicates_pks:
  "pks (removeDupplicates us vs) = filter_mset (\<lambda>x. x \<notin># pks us) (pks vs)"
proof (induction us arbitrary: vs)
  case (Cons u us)
  let ?ws = "removeDupLoop (vPubKey u) vs (length vs)"
  have "pks ?ws = filter_mset (\<lambda>x. x \<noteq> vPubKey u) (pks vs)" by (rule removeDupLoop_pks) auto
  moreover have "removeDupplicates (u # us) vs = removeDupplicates us ?ws"
    by (simp add: removeDupplicates_def)
  ultimately show ?case using Cons.IH [of ?ws] by (simp add: filter_filter_mset conj_commute)
qed (simp add: removeDupplicates_def)

section \<open>Shuffling a list\<close>

lemma fold_upd_hit:
  "v \<in> set vs \<Longrightarrow> \<exists>w\<in>set vs. fold (\<lambda>v m. m(h v \<mapsto> v)) vs m (h v) = Some w \<and> h w = h v"
  by (induction vs rule: rev_induct) auto

lemma shuffleList_alt:
  "shuffleList sha vs rand =
     map (\<lambda>k. the (fold (\<lambda>v m. m(sha (vPubKey v @ rand) \<mapsto> v)) vs Map.empty k))
       (sort (map (\<lambda>v. sha (vPubKey v @ rand)) vs))"
  by (simp add: shuffleList_def Let_def)

lemma length_shuffleList [simp]: "length (shuffleList sha vs rand) = length vs"
  by (simp add: shuffleList_alt)

lemma pks_shuffleList:
  assumes "noCollision sha rand (vPubKey ` set vs)"
  shows "pks (shuffleList sha vs rand) = pks vs"
proof -
  let ?h = "\<lambda>v. sha (vPubKey v @ rand)"
  let ?m = "fold (\<lambda>v m. m(?h v \<mapsto> v)) vs Map.empty"
  have key: "vPubKey (the (?m (?h v))) = vPubKey v" if v: "v \<in> set vs" for v
  proof -
    obtain w where w: "w \<in> set vs" "?m (?h v) = Some w" "?h w = ?h v"
      using fold_upd_hit [OF v, of ?h Map.empty] by auto
    then have "vPubKey w = vPubKey v"
      using assms v by (auto simp: noCollision_def dest: inj_onD)
    then show ?thesis using w by simp
  qed
  have "pks (shuffleList sha vs rand) = image_mset (\<lambda>v. vPubKey (the (?m (?h v)))) (mset vs)"
    by (simp add: pks_image shuffleList_alt image_mset.compositionality comp_def)
  also have "\<dots> = image_mset vPubKey (mset vs)" by (rule image_mset_cong) (simp add: key)
  finally show ?thesis by (simp add: pks_image)
qed

lemma fold_upd_exact:
  assumes "v \<in> set vs" and "inj_on h (set vs)"
  shows "fold (\<lambda>v m. m(h v \<mapsto> v)) vs m (h v) = Some v"
  using fold_upd_hit [OF assms(1), of h m] assms by (metis inj_onD)

text \<open>The order in which the validators come does not matter: the shuffled list is the same.\<close>

lemma shuffleList_order:
  assumes "mset vs = mset ws" and "distinct (map vPubKey vs)"
    and "noCollision sha rand (vPubKey ` set vs)"
  shows "shuffleList sha vs rand = shuffleList sha ws rand"
proof -
  let ?h = "\<lambda>v. sha (vPubKey v @ rand)"
  have set_eq: "set ws = set vs" using assms(1) by (metis set_mset_mset)
  have "inj_on (\<lambda>pk. sha (pk @ rand)) (vPubKey ` set vs)" "inj_on vPubKey (set vs)"
    using assms(2,3) by (auto simp: noCollision_def distinct_map)
  then have inj: "inj_on ?h (set vs)" using comp_inj_on [of vPubKey "set vs"] by (simp add: comp_def)
  have keys: "sort (map ?h vs) = sort (map ?h ws)"
    using assms(1) by (intro properties_for_sort) (metis mset_map mset_sort, simp)
  have "fold (\<lambda>v m. m(?h v \<mapsto> v)) vs Map.empty k = fold (\<lambda>v m. m(?h v \<mapsto> v)) ws Map.empty k"
    if "k \<in> set (sort (map ?h vs))" for k
  proof -
    obtain v where v: "v \<in> set vs" "k = ?h v" using \<open>k \<in> set (sort (map ?h vs))\<close> by auto
    have ws: "v \<in> set ws" "inj_on ?h (set ws)" using v(1) inj set_eq by simp_all
    show ?thesis unfolding v(2) using fold_upd_exact [OF v(1) inj] fold_upd_exact [OF ws] by metis
  qed
  then show ?thesis unfolding shuffleList_alt keys [symmetric] by (intro map_cong) simp_all
qed

lemma shuffleOutShard_nonneg:
  assumes "0 \<le> n"
  shows "shuffleOutShard sha vs n rand =
    Inr (take (nat n) (shuffleList sha vs rand), drop (nat n) (shuffleList sha vs rand))"
  using assms by (simp add: shuffleOutShard_def Let_def)

section \<open>Loops over Go maps\<close>

lemma goRange_set [simp]: "goRange order \<Longrightarrow> set (order K) = K"
  and goRange_distinct [simp]: "goRange order \<Longrightarrow> distinct (order K)"
  by (simp_all add: goRange_def)

lemma fold_map_upd: "fold (\<lambda>s m. m(s \<mapsto> f s)) ss m = (\<lambda>s. if s \<in> set ss then Some (f s) else m s)"
  by (induction ss arbitrary: m) auto

lemma copyValidatorMap_id [simp]: "goRange order \<Longrightarrow> copyValidatorMap order m = m"
  by (rule HOL.ext) (auto simp: copyValidatorMap_def fold_map_upd listOf_def split: option.splits)

lemma fold_add_sum:
  fixes f :: "'a \<Rightarrow> 'b::comm_monoid_add"
  assumes "distinct xs"
  shows "fold (\<lambda>x n. n + f x) xs a = a + sum f (set xs)"
  using assms by (induction xs arbitrary: a) (auto simp: add_ac)

lemma size_nodesIn: "size (nodesIn m) = (\<Sum>s\<in>dom m. length (listOf m s))"
  by (simp add: nodesIn_def size_multiset_sum)

lemma getNumPubKeys_size: "goRange order \<Longrightarrow> getNumPubKeys order m = of_nat (size (nodesIn m))"
  by (simp add: getNumPubKeys_def fold_add_sum size_nodesIn)

lemma fold_if_max:
  fixes f :: "'a \<Rightarrow> nat"
  shows "fold (\<lambda>x a. if a < f x then f x else a) xs a = Max (insert a (f ` set xs))"
proof (induction xs arbitrary: a)
  case (Cons x xs)
  have "Max (insert (if a < f x then f x else a) (f ` set xs)) = Max (insert a (f ` set (x # xs)))"
    by (rule Max_eq_if) auto
  then show ?case using Cons.IH by simp
qed simp

lemma getMaxListSize_max: "goRange order \<Longrightarrow> getMaxListSize order m = maxListSize m"
  by (simp add: getMaxListSize_def fold_if_max maxListSize_def)

lemma length_le_maxListSize: "length (listOf m s) \<le> maxListSize m"
proof (cases "s \<in> dom m")
  case True
  then show ?thesis unfolding maxListSize_def by (intro Max_ge) auto
qed (simp add: listOf_notin_dom)

lemma fst_searchLoop: "fst (searchLoop ss m pk) \<longleftrightarrow> (\<exists>s\<in>set ss. pk \<in> vPubKey ` set (listOf m s))"
  by (induction ss) auto

lemma fst_searchInMap: "goRange order \<Longrightarrow> fst (searchInMap order m pk) \<longleftrightarrow> pk \<in># nodesIn m"
  by (simp add: searchInMap_def fst_searchLoop in_nodesIn_dom)

lemma fold_cap:
  assumes "distinct ss" and "\<And>s. s \<in> set ss \<Longrightarrow> m s = num s"
  shows "fold (\<lambda>i m. if numOf num i > c then m(i \<mapsto> c) else m) ss m
         = (\<lambda>i. if i \<in> set ss \<and> numOf num i > c then Some c else m i)"
  using assms
proof (induction ss arbitrary: m)
  case (Cons s ss)
  then show ?case by (subst fold_simps(2), subst Cons.IH) (auto simp: fun_eq_iff)
qed (simp add: fun_eq_iff)

lemma capNumToRemove_min:
  "goRange order \<Longrightarrow> capNumToRemove order num c = (\<lambda>i. map_option (\<lambda>n. min n (uint c)) (num i))"
proof (rule HOL.ext)
  fix i
  assume "goRange order"
  then have "capNumToRemove order num c i
      = (if i \<in> dom num \<and> numOf num i > uint c then Some (uint c) else num i)"
    by (simp add: capNumToRemove_def fold_cap)
  then show "capNumToRemove order num c i = map_option (\<lambda>n. min n (uint c)) (num i)"
    by (auto simp: numOf_def min_def split: option.splits)
qed

lemma numOf_cap:
  "0 \<le> c \<Longrightarrow> numOf (\<lambda>i. map_option (\<lambda>n. min n c) (num i)) s = min (numOf num s) c"
  by (auto simp: numOf_def split: option.splits)

lemma moveNodesToMap_spec:
  assumes "goRange order"
  shows "moveNodesToMap order (Some dest) source =
    Inr (\<lambda>s. if s \<in> dom source then Some (listOf dest s @ listOf source s) else dest s,
         \<lambda>s. if s \<in> dom source then Some [] else None)"
proof -
  have loop: "distinct ss \<Longrightarrow>
      fold (\<lambda>s (d, src). (d(s \<mapsto> listOf d s @ listOf source s), src(s \<mapsto> []))) ss (d, src)
      = (\<lambda>s. if s \<in> set ss then Some (listOf d s @ listOf source s) else d s,
         \<lambda>s. if s \<in> set ss then Some [] else src s)" for ss d src
    by (induction ss arbitrary: d src) (auto simp: fun_eq_iff)
  show ?thesis using assms by (auto simp: moveNodesToMap_def loop fun_eq_iff domIff)
qed

lemma moveMaxNumNodesToMap_spec:
  fixes dest source numMeta numShard
  defines "n \<equiv> neededNodes dest source numMeta numShard"
  assumes "goRange order"
  shows "moveMaxNumNodesToMap order (Some dest) source numMeta numShard =
    Inr (\<lambda>s. if s \<in> dom source then Some (listOf dest s @ take (n s) (listOf source s)) else dest s,
         \<lambda>s. map_option (drop (n s)) (source s))"
proof -
  let ?step = "\<lambda>s (d, src).
      let maxNodes = (if s = MetachainShardId then numMeta else numShard);
          k = unat (computeNeededNodes (listOf d s) (listOf src s) maxNodes)
      in (d(s \<mapsto> listOf d s @ take k (listOf source s)), src(s \<mapsto> drop k (listOf source s)))"
  have loop: "distinct ss \<Longrightarrow> (\<And>s. s \<in> set ss \<Longrightarrow> d s = dest s \<and> src s = source s) \<Longrightarrow>
      fold ?step ss (d, src)
      = (\<lambda>s. if s \<in> set ss then Some (listOf dest s @ take (n s) (listOf source s)) else d s,
         \<lambda>s. if s \<in> set ss then Some (drop (n s) (listOf source s)) else src s)" for ss d src
  proof (induction ss arbitrary: d src)
    case (Cons s ss)
    have eq: "listOf d s = listOf dest s" "listOf src s = listOf source s"
      using Cons.prems(2) [of s] by (simp_all add: listOf_def)
    have step: "?step s (d, src) = (d(s \<mapsto> listOf dest s @ take (n s) (listOf source s)),
                                 src(s \<mapsto> drop (n s) (listOf source s)))"
      by (simp add: Let_def eq n_def neededNodes_def)
    show ?case unfolding fold_simps(2) step using Cons.prems by (subst Cons.IH) (auto simp: fun_eq_iff)
  qed simp
  have "(if s \<in> dom source then Some (drop (n s) (listOf source s)) else source s)
        = map_option (drop (n s)) (source s)" for s
    by (auto simp: listOf_def domIff split: option.splits)
  then show ?thesis using assms(2) loop [of "order (dom source)" dest source]
    by (simp add: moveMaxNumNodesToMap_def fun_eq_iff)
qed

end
