(* ===== verification/ShufflerDistribution.thy ===== *)
theory ShufflerDistribution
  imports ShufflerLemmas
begin

text \<open>
  Distribution of validators over the waiting lists: it succeeds, loses and
  doubles nobody, does not depend on the order in which Go ranges over maps,
  and balances the lists when it is asked to. The two distributors share this
  contract, which is stated as a locale.
\<close>

section \<open>Round robin and equalisation\<close>

text \<open>After \<^verbatim>\<open>i\<close> steps of the round robin the first \<^verbatim>\<open>i mod n\<close> lists are one ahead.\<close>

definition level :: "nat \<Rightarrow> nat \<Rightarrow> nat \<Rightarrow> nat" where
  "level n i j = i div n + (if j < i mod n then 1 else 0)"

lemma sortKeys_simps [simp]:
  "set (sortKeys m) = dom m" "distinct (sortKeys m)" "length (sortKeys m) = card (dom m)"
  by (simp_all add: sortKeys_def)

text \<open>There are as many shard identifiers as the counter of shards can hold, plus one.\<close>

lemma card_dom_less: "dom m \<noteq> UNIV \<Longrightarrow> card (dom (m :: nodesMap)) < 2 ^ 32"
  using psubset_card_mono [of "UNIV :: shardID set" "dom m"] by (auto simp: card_word)

lemma nodesIn_distributeLoop: "nodesIn (distributeLoop ids n i vs dest) = nodesIn dest + pks vs"
  by (induction vs arbitrary: i dest) (simp_all add: Let_def nodesIn_append)

lemma index_in_range:
  assumes "0 < k" and "k < 2 ^ 32"
  shows "unat ((of_nat i :: u32) mod of_nat k) < k"
proof -
  have k: "unat (of_nat k :: u32) = k" using assms by (simp add: unat_of_nat take_bit_nat_eq_self)
  show ?thesis unfolding unat_mod k using assms by simp
qed

lemma dom_distributeLoop:
  assumes "ids \<noteq> []" and "length ids < 2 ^ 32" and "set ids \<subseteq> dom dest"
  shows "dom (distributeLoop ids (of_nat (length ids)) i vs dest) = dom dest"
  using assms(3)
proof (induction vs arbitrary: i dest)
  case (Cons v vs)
  let ?s = "ids ! unat ((of_nat i :: u32) mod of_nat (length ids))"
  have "?s \<in> set ids" using index_in_range [of "length ids" i] assms(1,2) by simp
  then have "?s \<in> dom dest" using Cons.prems by auto
  then have "dom (dest(?s \<mapsto> listOf dest ?s @ [v])) = dom dest" by (auto simp: insert_absorb)
  then show ?case using Cons.IH [of "dest(?s \<mapsto> listOf dest ?s @ [v])" "Suc i"] Cons.prems
    by (simp only: distributeLoop.simps Let_def)
qed simp

lemma equalizeLoop_spec:
  assumes "equalizeLoop ss M vs dest idx rem = (dest', idx', rem')" and "idx + rem = length vs"
    and "set ss \<subseteq> dom dest"
  shows "nodesIn dest' + pks (drop idx' vs) = nodesIn dest + pks (drop idx vs)"
    and "idx' + rem' = length vs" and "dom dest' = dom dest"
proof -
  have "nodesIn dest' + pks (drop idx' vs) = nodesIn dest + pks (drop idx vs)
      \<and> idx' + rem' = length vs \<and> dom dest' = dom dest"
    using assms
  proof (induction ss arbitrary: dest idx rem)
    case (Cons s ss)
    show ?case
    proof (cases "length (listOf dest s) < M")
      case True
      define k where "k = (if M - length (listOf dest s) > rem then rem else M - length (listOf dest s))"
      define d where "d = dest(s \<mapsto> listOf dest s @ take k (drop idx vs))"
      have "k \<le> rem" by (simp add: k_def)
      then have len: "(idx + k) + (rem - k) = length vs" using Cons.prems(2) by simp
      have vs: "pks (drop idx vs) = pks (take k (drop idx vs)) + pks (drop (idx + k) vs)"
        by (metis append_take_drop_id pks_simps(3) drop_drop add.commute)
      have nodes: "nodesIn d = nodesIn dest + pks (take k (drop idx vs))"
        unfolding d_def by (rule nodesIn_append)
      have dom: "dom d = dom dest" using Cons.prems(3) by (auto simp: d_def)
      have loop: "equalizeLoop ss M vs d (idx + k) (rem - k) = (dest', idx', rem')"
        using Cons.prems(1) True by (simp add: Let_def k_def d_def)
      show ?thesis using Cons.IH [OF loop len] Cons.prems(3) vs nodes dom by (simp add: add_ac)
    next
      case False
      then show ?thesis using Cons.IH Cons.prems by (simp add: Let_def)
    qed
  qed simp
  then show "nodesIn dest' + pks (drop idx' vs) = nodesIn dest + pks (drop idx vs)"
    and "idx' + rem' = length vs" and "dom dest' = dom dest" by auto
qed

lemma equalizeValidatorsLists_spec:
  assumes "equalizeValidatorsLists order dest vs = (dest', rest)"
  shows "nodesIn dest' + pks rest = nodesIn dest + pks vs" and "dom dest' = dom dest"
proof -
  obtain d i r where loop: "equalizeLoop (sortKeys dest) (getMaxListSize order dest) vs dest 0 (length vs)
      = (d, i, r)" using prod_cases3 by blast
  note spec = equalizeLoop_spec [OF loop]
  have "take r (drop i vs) = drop i vs" using spec(2) by simp
  then show "nodesIn dest' + pks rest = nodesIn dest + pks vs" "dom dest' = dom dest"
    using assms spec loop by (auto simp: equalizeValidatorsLists_def)
qed

lemma listOf_distributeLoop: "pks (listOf dest s) \<subseteq># pks (listOf (distributeLoop ids n i vs dest) s)"
proof (induction vs arbitrary: i dest)
  case (Cons v vs)
  let ?t = "ids ! unat (of_nat i mod n)"
  let ?d = "dest(?t \<mapsto> listOf dest ?t @ [v])"
  have "pks (listOf dest s) \<subseteq># pks (listOf ?d s)" by simp
  then show ?case using Cons.IH [of ?d "Suc i"]
    by (metis (no_types, lifting) distributeLoop.simps(2) subset_mset.order_trans)
qed simp

lemma listOf_equalizeLoop:
  "equalizeLoop ss M vs dest idx rem = (dest', idx', rem') \<Longrightarrow> pks (listOf dest s) \<subseteq># pks (listOf dest' s)"
proof (induction ss arbitrary: dest idx rem)
  case (Cons t ss)
  show ?case
  proof (cases "length (listOf dest t) < M")
    case True
    define k where "k = (if M - length (listOf dest t) > rem then rem else M - length (listOf dest t))"
    define d where "d = dest(t \<mapsto> listOf dest t @ take k (drop idx vs))"
    have "equalizeLoop ss M vs d (idx + k) (rem - k) = (dest', idx', rem')"
      using Cons.prems True by (simp add: Let_def k_def d_def)
    moreover have "pks (listOf dest s) \<subseteq># pks (listOf d s)" by (simp add: d_def)
    ultimately show ?thesis using Cons.IH subset_mset.order_trans by blast
  next
    case False
    then show ?thesis using Cons.IH Cons.prems by (simp add: Let_def)
  qed
qed simp

section \<open>Distribution of a list\<close>

lemma distributeValidators_ok:
  assumes "dom dest \<noteq> {}" and "dom dest \<noteq> UNIV"
  shows "\<exists>dest'. distributeValidators sha order dest vs rand balanced = Inr dest' \<and> dom dest' = dom dest \<and>
    (noCollision sha rand (vPubKey ` set vs) \<longrightarrow> nodesIn dest' = nodesIn dest + pks vs) \<and>
    (\<forall>s. pks (listOf dest s) \<subseteq># pks (listOf dest' s))"
proof -
  define ids where "ids = sortKeys dest"
  have few: "length ids < 2 ^ 32" "0 < length ids" "ids \<noteq> []"
    using card_dom_less [OF assms(2)] assms(1) by (auto simp: ids_def card_gt_0_iff sortKeys_def)
  have nz: "(of_nat (length ids) :: u32) \<noteq> 0"
    using few by (simp add: word_of_nat_eq_0_iff nat_dvd_not_less)
  obtain d rest where d: "(if balanced then equalizeValidatorsLists order dest (shuffleList sha vs rand)
      else (dest, shuffleList sha vs rand)) = (d, rest)" by (meson surj_pair)
  then have eq: "nodesIn d + pks rest = nodesIn dest + pks (shuffleList sha vs rand)" "dom d = dom dest"
    using equalizeValidatorsLists_spec [of order dest "shuffleList sha vs rand" d rest]
    by (auto split: if_splits)
  have grow: "pks (listOf dest s) \<subseteq># pks (listOf d s)" for s
    using d listOf_equalizeLoop [of "sortKeys dest" _ _ dest]
    by (auto simp: equalizeValidatorsLists_def split: if_splits prod.splits)
  have "distributeValidators sha order dest vs rand balanced
      = Inr (distributeLoop ids (of_nat (length ids)) 0 rest d)"
    using assms(1) nz d by (simp add: distributeValidators_def Let_def ids_def)
  moreover have "dom (distributeLoop ids (of_nat (length ids)) 0 rest d) = dom dest"
    using dom_distributeLoop [of ids d] few eq(2) by (simp add: ids_def)
  moreover have "pks (listOf dest s)
      \<subseteq># pks (listOf (distributeLoop ids (of_nat (length ids)) 0 rest d) s)" for s
    using grow listOf_distributeLoop by (rule subset_mset.order_trans)
  ultimately show ?thesis using eq(1) by (auto simp: nodesIn_distributeLoop pks_shuffleList)
qed

lemma distributeValidators_range:
  assumes "goRange order" and "goRange order'"
  shows "distributeValidators sha order dest vs rand balanced
       = distributeValidators sha order' dest vs rand balanced"
proof -
  have "equalizeValidatorsLists order = equalizeValidatorsLists order'"
    using assms by (simp add: fun_eq_iff equalizeValidatorsLists_def getMaxListSize_max)
  then show ?thesis by (simp only: distributeValidators_def)
qed

section \<open>Balance\<close>

lemma equalizeLoop_levels:
  assumes "equalizeLoop ss M vs dest idx rem = (dest', idx', rem')" and "idx + rem = length vs"
    and "distinct ss" and "\<And>s. s \<in> set ss \<Longrightarrow> length (listOf dest s) \<le> M"
    and "(\<Sum>s\<leftarrow>ss. M - length (listOf dest s)) \<le> rem"
  shows "length (listOf dest' s) = (if s \<in> set ss then M else length (listOf dest s))"
  using assms
proof (induction ss arbitrary: dest idx rem)
  case (Cons t ss)
  define k where "k = M - length (listOf dest t)"
  have le: "k \<le> rem" "(\<Sum>s\<leftarrow>ss. M - length (listOf dest s)) \<le> rem - k"
    using Cons.prems(5) by (auto simp: k_def)
  show ?case
  proof (cases "length (listOf dest t) < M")
    case True
    define d where "d = dest(t \<mapsto> listOf dest t @ take k (drop idx vs))"
    have len: "length (listOf d u) = (if u = t then M else length (listOf dest u))" for u
      using True le(1) Cons.prems(2) by (auto simp: d_def k_def)
    have loop: "equalizeLoop ss M vs d (idx + k) (rem - k) = (dest', idx', rem')"
      using Cons.prems(1) True le(1) by (simp add: Let_def k_def d_def split: if_splits)
    have "map (\<lambda>u. M - length (listOf d u)) ss = map (\<lambda>u. M - length (listOf dest u)) ss"
      using Cons.prems(3) by (intro map_cong) (auto simp: len)
    then have sum: "(\<Sum>u\<leftarrow>ss. M - length (listOf d u)) \<le> rem - k" using le(2) by metis
    have "length (listOf dest' s) = (if s \<in> set ss then M else length (listOf d s))"
      using Cons.IH [OF loop _ _ _ sum] Cons.prems(2,3,4) le(1) len by simp
    then show ?thesis using len Cons.prems(3) by simp
  next
    case False
    then have "length (listOf dest t) = M" using Cons.prems(4) [of t] by simp
    moreover have "length (listOf dest' s) = (if s \<in> set ss then M else length (listOf dest s))"
      using Cons.IH [of dest idx rem] False Cons.prems by (simp add: Let_def)
    ultimately show ?thesis by simp
  qed
qed simp

lemma level_Suc: "j < n \<Longrightarrow> level n (Suc i) j = level n i j + (if j = i mod n then 1 else 0)"
  by (auto simp: level_def mod_Suc div_Suc)

lemma distributeLoop_levels:
  assumes "i + length vs \<le> 2 ^ 32" and "0 < length ids" and "length ids < 2 ^ 32" and "distinct ids"
    and "\<And>j. j < length ids \<Longrightarrow> length (listOf dest (ids ! j)) = L + level (length ids) i j"
    and "j < length ids"
  shows "length (listOf (distributeLoop ids (of_nat (length ids)) i vs dest) (ids ! j))
       = L + level (length ids) (i + length vs) j"
  using assms(1,5)
proof (induction vs arbitrary: i dest)
  case Nil
  then show ?case using assms(6) by simp
next
  case (Cons v vs)
  let ?n = "length ids"
  have i: "i < 2 ^ 32" using Cons.prems(1) by simp
  have "unat ((of_nat i :: u32) mod of_nat ?n) = i mod ?n"
    using i assms(3) by (simp add: unat_mod unat_of_nat take_bit_nat_eq_self)
  then have step: "distributeLoop ids (of_nat ?n) i (v # vs) dest
      = distributeLoop ids (of_nat ?n) (Suc i) vs
          (dest(ids ! (i mod ?n) \<mapsto> listOf dest (ids ! (i mod ?n)) @ [v]))"
    by (simp add: Let_def)
  have "length (listOf (dest(ids ! (i mod ?n) \<mapsto> listOf dest (ids ! (i mod ?n)) @ [v])) (ids ! k))
      = L + level ?n (Suc i) k" if "k < ?n" for k
    using Cons.prems(2) [OF that] assms(2,4) that
    by (auto simp: level_Suc nth_eq_iff_index_eq)
  then show ?case using Cons.IH [of "Suc i"] Cons.prems(1) unfolding step by simp
qed

lemma level_spread: "level n i j \<le> level n i k + 1"
  by (simp add: level_def)

text \<open>
  When there are enough validators to bring every list to the length of the
  longest, balanced distribution leaves lists whose lengths differ by at most one.
\<close>

lemma distributeValidators_balanced:
  assumes "goRange order" and "distributeValidators sha order dest vs rand True = Inr dest'"
    and "dom dest \<noteq> UNIV" and "length vs \<le> 2 ^ 32"
    and "(\<Sum>s\<leftarrow>sortKeys dest. maxListSize dest - length (listOf dest s)) \<le> length vs"
    and "s \<in> dom dest" and "t \<in> dom dest"
  shows "length (listOf dest' s) \<le> length (listOf dest' t) + 1"
proof -
  define ids where "ids = sortKeys dest"
  have few: "length ids < 2 ^ 32" "0 < length ids" "distinct ids"
    using card_dom_less [OF assms(3)] assms(6) by (auto simp: ids_def card_gt_0_iff)
  obtain d i r where loop: "equalizeLoop ids (maxListSize dest) (shuffleList sha vs rand) dest 0 (length vs)
      = (d, i, r)" using prod_cases3 by blast
  define rest where "rest = take r (drop i (shuffleList sha vs rand))"
  have lvl: "length (listOf d u) = maxListSize dest" if "u \<in> dom dest" for u
    using equalizeLoop_levels [OF loop, of u] assms(5) that
    by (simp add: ids_def length_le_maxListSize)
  have "dest' = distributeLoop ids (of_nat (length ids)) 0 rest d"
    using assms(1,2) loop
    by (auto simp: distributeValidators_def equalizeValidatorsLists_def Let_def rest_def ids_def
        getMaxListSize_max split: if_splits)
  moreover have "length (listOf (distributeLoop ids (of_nat (length ids)) 0 rest d) (ids ! j))
      = maxListSize dest + level (length ids) (length rest) j" if "j < length ids" for j
  proof -
    have "ids ! k \<in> dom dest" if "k < length ids" for k
      using that nth_mem [of k ids] by (simp add: ids_def)
    then show ?thesis
      using distributeLoop_levels [of 0 rest ids d "maxListSize dest" j] few assms(4) that lvl
      by (simp add: rest_def level_def)
  qed
  moreover obtain j k where "s = ids ! j" "t = ids ! k" "j < length ids" "k < length ids"
    using assms(6,7) in_set_conv_nth [of _ ids] by (metis ids_def sortKeys_simps(1))
  ultimately show ?thesis using level_spread [of "length ids" "length rest" j k] by simp
qed

section \<open>The contract of a distributor\<close>

locale validators_distributor =
  fixes distribute :: "(bytes \<Rightarrow> bytes) \<Rightarrow> rangeOrder \<Rightarrow> rangeOrder \<Rightarrow> nodesMap \<Rightarrow> nodesMap \<Rightarrow> bytes
      \<Rightarrow> bool \<Rightarrow> shufflerError + nodesMap \<times> nodesMap"
  assumes succeeds: "goRange o1 \<Longrightarrow> dom dest \<noteq> {} \<Longrightarrow> dom dest \<noteq> UNIV \<Longrightarrow>
      \<exists>dest' src'. distribute sha o1 o2 dest src rand balanced = Inr (dest', src')"
    and conserves: "goRange o1 \<Longrightarrow> dom dest \<noteq> {} \<Longrightarrow> dom dest \<noteq> UNIV \<Longrightarrow>
      noCollision sha rand (set_mset (nodesIn src)) \<Longrightarrow>
      distribute sha o1 o2 dest src rand balanced = Inr (dest', src') \<Longrightarrow>
      nodesIn dest' = nodesIn dest + nodesIn src"
    and grows: "goRange o1 \<Longrightarrow> dom dest \<noteq> {} \<Longrightarrow> dom dest \<noteq> UNIV \<Longrightarrow>
      distribute sha o1 o2 dest src rand balanced = Inr (dest', src') \<Longrightarrow>
      pks (listOf dest s) \<subseteq># pks (listOf dest' s)"
    and order_irrelevant: "goRange o1 \<Longrightarrow> goRange o2 \<Longrightarrow> goRange o1' \<Longrightarrow> goRange o2' \<Longrightarrow>
      distinctPks (nodesIn src) \<Longrightarrow> noCollision sha rand (set_mset (nodesIn src)) \<Longrightarrow>
      distribute sha o1 o2 dest src rand balanced = distribute sha o1' o2' dest src rand balanced"
begin

text \<open>What a client may rely on: the distribution returns, with everybody in the destination.\<close>

lemma distribute_all:
  assumes "goRange o1" and "dom dest \<noteq> {}" and "dom dest \<noteq> UNIV"
    and "noCollision sha rand (set_mset (nodesIn src))"
  shows "\<exists>dest' src'. distribute sha o1 o2 dest src rand balanced = Inr (dest', src') \<and>
    nodesIn dest' = nodesIn dest + nodesIn src"
  using succeeds [OF assms(1-3)] conserves [OF assms] by blast

end

lemma collect_pks:
  "pks (fold (\<lambda>s vs. vs @ listOf src s) ss acc) = pks acc + (\<Sum>s\<leftarrow>ss. pks (listOf src s))"
  by (induction ss arbitrary: acc) (simp_all add: add_ac)

lemma collect_mset:
  "mset (fold (\<lambda>s vs. vs @ listOf src s) ss acc) = mset acc + (\<Sum>s\<leftarrow>ss. mset (listOf src s))"
  by (induction ss arbitrary: acc) (simp_all add: add_ac)

lemma collect_nodesIn:
  assumes "goRange order"
  shows "pks (fold (\<lambda>s vs. vs @ listOf src s) (order (dom src)) []) = nodesIn src"
  using assms by (simp add: collect_pks nodesIn_def sum_list_distinct_conv_sum_set)

lemma collect_set:
  assumes "goRange order"
  shows "vPubKey ` set (fold (\<lambda>s vs. vs @ listOf src s) (order (dom src)) []) = set_mset (nodesIn src)"
  using collect_nodesIn [OF assms, of src] by (metis set_pks)

lemma cross_succeeds:
  assumes "goRange o1" and "dom dest \<noteq> {}" and "dom dest \<noteq> UNIV"
  shows "\<exists>dest'. CrossShard_DistributeValidators sha o1 o2 dest src rand balanced = Inr (dest', src) \<and>
    (noCollision sha rand (set_mset (nodesIn src)) \<longrightarrow> nodesIn dest' = nodesIn dest + nodesIn src) \<and>
    (\<forall>s. pks (listOf dest s) \<subseteq># pks (listOf dest' s))"
proof -
  let ?all = "fold (\<lambda>s vs. vs @ listOf src s) (o1 (dom src)) []"
  obtain dest' where "distributeValidators sha o2 dest ?all rand balanced = Inr dest'"
    "noCollision sha rand (vPubKey ` set ?all) \<longrightarrow> nodesIn dest' = nodesIn dest + pks ?all"
    "\<forall>s. pks (listOf dest s) \<subseteq># pks (listOf dest' s)"
    using distributeValidators_ok [OF assms(2,3), of sha o2 ?all rand balanced] by blast
  then show ?thesis
    by (auto simp: CrossShard_DistributeValidators_def collect_nodesIn [OF assms(1)] collect_set [OF assms(1)])
qed

lemma cross_order:
  assumes "goRange o1" "goRange o2" "goRange o1'" "goRange o2'"
    and "distinctPks (nodesIn src)" and "noCollision sha rand (set_mset (nodesIn src))"
  shows "CrossShard_DistributeValidators sha o1 o2 dest src rand balanced
       = CrossShard_DistributeValidators sha o1' o2' dest src rand balanced"
proof -
  let ?all = "\<lambda>order. fold (\<lambda>s vs. vs @ listOf src s) (order (dom src)) []"
  have "mset (?all o1) = mset (?all o1')"
    using assms by (simp add: collect_mset sum_list_distinct_conv_sum_set)
  moreover have "distinct (map vPubKey (?all o1))"
    using assms(5) collect_nodesIn [OF assms(1), of src] by (metis distinctPks_pks)
  ultimately have "shuffleList sha (?all o1) rand = shuffleList sha (?all o1') rand"
    using assms(6) by (intro shuffleList_order) (simp_all add: collect_set [OF assms(1)])
  then have "distributeValidators sha o2 dest (?all o1) rand balanced
           = distributeValidators sha o2 dest (?all o1') rand balanced"
    by (simp only: distributeValidators_def)
  then show ?thesis
    using distributeValidators_range [OF assms(2,4)]
    by (simp add: CrossShard_DistributeValidators_def Let_def)
qed

lemma intra_lists:
  assumes "goRange o1" and "IntraShard_DistributeValidators o1 dest src = Inr (dest', src')"
  shows "listOf dest' s = listOf dest s @ listOf src s"
proof -
  have "dest' s = (if s \<in> dom src then Some (listOf dest s @ listOf src s) else dest s)"
    using assms(2) unfolding IntraShard_DistributeValidators_def moveNodesToMap_spec [OF assms(1)]
    by (clarsimp simp del: domIff)
  then have "listOf dest' s = (if s \<in> dom src then listOf dest s @ listOf src s else listOf dest s)"
    by (simp add: listOf_def [of dest'] listOf_def [of dest])
  then show ?thesis by (simp add: listOf_notin_dom)
qed

lemma intra_conserves:
  assumes "goRange o1" and "IntraShard_DistributeValidators o1 dest src = Inr (dest', src')"
  shows "nodesIn dest' = nodesIn dest + nodesIn src"
  by (rule nodesIn_add) (simp add: intra_lists [OF assms])

interpretation distributor: validators_distributor "DistributeValidators d" for d
proof (unfold_locales, goal_cases)
  case (1 o1 dest sha o2 src rand balanced)
  then show ?case using cross_succeeds [of o1 dest]
    by (cases d) (fastforce simp: DistributeValidators_def IntraShard_DistributeValidators_def
        moveNodesToMap_spec)+
next
  case (2 o1 dest sha rand src o2 balanced dest' src')
  then show ?case using cross_succeeds [of o1 dest sha o2 src rand balanced] intra_conserves
    by (cases d) (auto simp: DistributeValidators_def)
next
  case (3 o1 dest sha o2 src rand balanced dest' src' s)
  then show ?case using cross_succeeds [of o1 dest sha o2 src rand balanced]
    by (cases d) (auto simp: DistributeValidators_def intra_lists)
next
  case (4 o1 o2 o1' o2' src sha rand dest balanced)
  then show ?case using cross_order [of o1 o2 o1' o2' src sha rand dest balanced]
    by (cases d) (simp_all add: DistributeValidators_def IntraShard_DistributeValidators_def
        moveNodesToMap_spec)
qed

end
