(* ===== verification/ShufflerRun.thy ===== *)
theory ShufflerRun
  imports ShufflerDistribution
begin

text \<open>
  One run of the shuffler: how many nodes each shard may lose, the removal of
  leaving nodes, the shuffling out, the filling of the eligible lists and the
  distribution into the waiting lists, each with what it keeps and moves.
\<close>

section \<open>Specification vocabulary\<close>

text \<open>The number of eligible nodes a shard is to have.\<close>

definition shardSize :: "shuffleNodesArg \<Rightarrow> shardID \<Rightarrow> u32 option" where
  "shardSize arg s =
     (if snNbShards arg = 0 then None
      else if s = MetachainShardId then Some (snNodesMeta arg)
      else if s < snNbShards arg then Some (snNodesPerShard arg) else None)"

definition shardTotal :: "shuffleNodesArg \<Rightarrow> shardID \<Rightarrow> nat" where
  "shardTotal arg s = length (listOf (snEligible arg) s) + length (listOf (snWaiting arg) s)"

definition enoughNodes :: "shuffleNodesArg \<Rightarrow> bool" where
  "enoughNodes arg \<longleftrightarrow> (\<forall>s n. shardSize arg s = Some n \<longrightarrow> unat n \<le> shardTotal arg s)"

text \<open>How many nodes may leave a shard in one epoch.\<close>

definition maxLeaving :: "shuffleNodesArg \<Rightarrow> shardID \<Rightarrow> int" where
  "maxLeaving arg s = (case shardSize arg s of None \<Rightarrow> 0
     | Some n \<Rightarrow> min (int (shardTotal arg s) - uint n) (uint (snMaxNodesToSwapPerShard arg)))"

text \<open>The relation between the lists, the budgets and the leaving nodes before and after a removal.\<close>

definition removes ::
  "nodesMap \<Rightarrow> (shardID \<rightharpoonup> int) \<Rightarrow> validator list \<Rightarrow> nodesMap \<Rightarrow> (shardID \<rightharpoonup> int) \<Rightarrow> validator list \<Rightarrow> bool" where
  "removes m num lv m' num' lv' \<longleftrightarrow>
     nodesIn m' + pks lv = nodesIn m + pks lv' \<and> pks lv' \<subseteq># pks lv \<and>
     (\<forall>s. int (length (listOf m' s)) - numOf num' s = int (length (listOf m s)) - numOf num s) \<and>
     (\<forall>s. 0 \<le> numOf num' s \<and> numOf num' s \<le> numOf num s) \<and>
     (\<forall>s. pks (listOf m' s) \<subseteq># pks (listOf m s)) \<and> dom m' = dom m"

definition removesBoth ::
  "nodesMap \<Rightarrow> nodesMap \<Rightarrow> (shardID \<rightharpoonup> int) \<Rightarrow> validator list
     \<Rightarrow> nodesMap \<Rightarrow> nodesMap \<Rightarrow> (shardID \<rightharpoonup> int) \<Rightarrow> validator list \<Rightarrow> bool" where
  "removesBoth E W num lv E' W' num' lv' \<longleftrightarrow>
     nodesIn E' + nodesIn W' + pks lv = nodesIn E + nodesIn W + pks lv' \<and> pks lv' \<subseteq># pks lv \<and>
     (\<forall>s. int (length (listOf E' s)) + int (length (listOf W' s)) - numOf num' s
        = int (length (listOf E s)) + int (length (listOf W s)) - numOf num s) \<and>
     (\<forall>s. 0 \<le> numOf num' s \<and> numOf num' s \<le> numOf num s) \<and>
     (\<forall>s. pks (listOf E' s) \<subseteq># pks (listOf E s)) \<and> (\<forall>s. pks (listOf W' s) \<subseteq># pks (listOf W s)) \<and>
     dom E' = dom E \<and> dom W' = dom W"

section \<open>Lists for all shards and their budgets\<close>

lemma unat_le_uint: "unat (n :: u32) \<le> k \<longleftrightarrow> uint n \<le> int k"
  by (metis of_nat_le_iff of_nat_unat)

lemma set_shardIds: "set (shardIds n) = {s. s < n}"
proof -
  have "s < n \<Longrightarrow> s \<in> of_nat ` {0..<unat n}" for s :: u32
    by (rule image_eqI [of _ _ "unat s"]) (auto simp: word_less_nat_alt)
  moreover have "of_nat k < n" if "k < unat n" for k :: nat
  proof -
    have "k < 2 ^ 32" using that unsigned_less [of n, where 'a = nat] by simp
    then show ?thesis using that by (simp add: word_less_nat_alt unat_of_nat take_bit_nat_eq_self)
  qed
  ultimately show ?thesis by (auto simp: shardIds_def)
qed

lemma createLists_fold:
  "listOf (fold (\<lambda>s m. if m s = None then m(s \<mapsto> []) else m) ss m) t = listOf m t"
  "dom (fold (\<lambda>s m. if m s = None then m(s \<mapsto> []) else m) ss m) = dom m \<union> set ss"
  by (induction ss arbitrary: m) (auto simp: listOf_def split: option.splits)

lemma createListsForAllShards_spec [simp]:
  "listOf (createListsForAllShards m n) s = listOf m s"
  "dom (createListsForAllShards m n) = dom m \<union> {s. s < n} \<union> {MetachainShardId}"
  by (simp_all add: createListsForAllShards_def createLists_fold set_shardIds
      del: fold_append domIff)

lemma nodesIn_createLists [simp]: "nodesIn (createListsForAllShards m n) = nodesIn m"
  by (rule nodesIn_cong) simp

lemma computeNumLoop_ok:
  assumes "distinct (map fst ps)"
    and "\<And>s n. (s, n) \<in> set ps \<Longrightarrow> uint n \<le> int (length (listOf E s)) + int (length (listOf W s))"
  shows "computeNumLoop ps E W num = Inr (\<lambda>s. case map_of ps s of
      None \<Rightarrow> num s
    | Some n \<Rightarrow> Some (int (length (listOf E s)) + int (length (listOf W s)) - uint n))"
  using assms
proof (induction ps arbitrary: num)
  case (Cons p ps)
  obtain s n where p: "p = (s, n)" by (cases p)
  have "s \<notin> dom (map_of ps)" using Cons.prems(1) p by (simp add: dom_map_of_conv_image_fst)
  moreover have "\<not> int (length (listOf E s)) + int (length (listOf W s)) < uint n"
    using Cons.prems(2) [of s n] p by simp
  ultimately show ?case using Cons p
    by (auto simp: computeNumToRemovePerShard_def fun_eq_iff split: option.splits)
qed simp

lemma computeNumLoop_error:
  assumes "(s, n) \<in> set ps" and "int (length (listOf E s)) + int (length (listOf W s)) < uint n"
  shows "\<exists>t. computeNumLoop ps E W num = Inl (ErrSmallShardEligibleListSize t)"
  using assms(1)
proof (induction ps arbitrary: num)
  case (Cons p ps)
  then show ?case using assms(2)
    by (cases p) (auto simp: computeNumToRemovePerShard_def split: option.splits)
qed simp

lemma Meta_not_shard: "\<not> MetachainShardId < (n :: u32)"
proof -
  have "unat n \<le> 2 ^ 32 - 1" using unsigned_less [of n, where 'a = nat] by simp
  then show ?thesis by (simp add: MetachainShardId_def word_less_nat_alt)
qed

lemma distinct_shardIds: "distinct (shardIds n)"
proof -
  have "inj_on (of_nat :: nat \<Rightarrow> u32) {0..<unat n}"
  proof (rule inj_onI)
    fix i j
    assume "i \<in> {0..<unat n}" "j \<in> {0..<unat n}" "(of_nat i :: u32) = of_nat j"
    then show "i = j"
      using unsigned_less [of n, where 'a = nat] by (auto simp: word_of_nat_eq_iff take_bit_nat_eq_self)
  qed
  then show ?thesis by (simp add: shardIds_def distinct_map)
qed

lemma computeNumToRemove_spec:
  "enoughNodes arg \<Longrightarrow> computeNumToRemove arg =
     Inr (\<lambda>s. map_option (\<lambda>n. int (shardTotal arg s) - uint n) (shardSize arg s))"
  "\<not> enoughNodes arg \<Longrightarrow> \<exists>t. computeNumToRemove arg = Inl (ErrSmallShardEligibleListSize t)"
proof -
  let ?ps = "map (\<lambda>s. (s, snNodesPerShard arg)) (shardIds (snNbShards arg))
               @ [(MetachainShardId, snNodesMeta arg)]"
  have dist: "distinct (map fst ?ps)"
    by (simp add: comp_def distinct_shardIds set_shardIds Meta_not_shard)
  have mo: "map_of ?ps s = shardSize arg s" if "snNbShards arg \<noteq> 0" for s
  proof (cases "shardSize arg s")
    case None
    then show ?thesis using that
      by (auto simp: shardSize_def map_of_eq_None_iff set_shardIds split: if_splits)
  next
    case (Some n)
    then have "(s, n) \<in> set ?ps" using that by (auto simp: shardSize_def set_shardIds split: if_splits)
    then show ?thesis using Some dist by (simp only: map_of_eq_Some_iff)
  qed
  then have mem: "(s, n) \<in> set ?ps \<longleftrightarrow> shardSize arg s = Some n" if "snNbShards arg \<noteq> 0" for s n
    using that dist map_of_eq_Some_iff by metis
  {
    assume en: "enoughNodes arg"
    show "computeNumToRemove arg =
       Inr (\<lambda>s. map_option (\<lambda>n. int (shardTotal arg s) - uint n) (shardSize arg s))"
    proof (cases "snNbShards arg = 0")
      case False
      have "uint n \<le> int (length (listOf (snEligible arg) s)) + int (length (listOf (snWaiting arg) s))"
        if "(s, n) \<in> set ?ps" for s n
        using en that mem [OF False] by (fastforce simp: enoughNodes_def shardTotal_def unat_le_uint)
      from computeNumLoop_ok [OF dist this] show ?thesis using False mo [OF False]
        by (auto simp: computeNumToRemove_def shardTotal_def fun_eq_iff split: option.splits)
    qed (simp add: computeNumToRemove_def shardSize_def)
  }
  {
    assume "\<not> enoughNodes arg"
    then obtain s n where sn: "shardSize arg s = Some n" "shardTotal arg s < unat n"
      by (auto simp: enoughNodes_def not_le)
    then have nz: "snNbShards arg \<noteq> 0" by (auto simp: shardSize_def)
    have "int (length (listOf (snEligible arg) s)) + int (length (listOf (snWaiting arg) s)) < uint n"
      using sn(2) by (simp add: shardTotal_def unat_le_uint flip: not_le)
    then show "\<exists>t. computeNumToRemove arg = Inl (ErrSmallShardEligibleListSize t)"
      using computeNumLoop_error [of s n ?ps] sn(1) mem [OF nz] nz
      by (simp add: computeNumToRemove_def)
  }
qed

lemma numOf_budget:
  assumes "enoughNodes arg" and "goRange order"
  shows "\<exists>num. computeNumToRemove arg = Inr num \<and>
    (\<forall>s. numOf (capNumToRemove order num (snMaxNodesToSwapPerShard arg)) s = maxLeaving arg s) \<and>
    (\<forall>s. 0 \<le> maxLeaving arg s)"
proof -
  have "0 \<le> maxLeaving arg s" for s
    using assms(1) by (auto simp: maxLeaving_def enoughNodes_def unat_le_uint split: option.splits)
  then show ?thesis using computeNumToRemove_spec(1) [OF assms(1)]
    by (auto simp: capNumToRemove_min [OF assms(2)] numOf_def maxLeaving_def split: option.splits)
qed

section \<open>Removal of leaving nodes\<close>

lemma pks_filter: "pks (filter (\<lambda>v. P (vPubKey v)) vs) = filter_mset P (pks vs)"
  by (induction vs) auto

lemma removeLeavingNotExisting_pks:
  assumes "\<And>l. goRange (orders l)"
  shows "pks (fst (removeLeavingNodesNotExistingInEligibleOrWaiting orders lv W E))
       = filter_mset (\<lambda>pk. pk \<in># nodesIn E + nodesIn W) (pks lv)"
proof -
  let ?P = "\<lambda>pk. pk \<in># nodesIn E + nodesIn W"
  let ?nf = "filter (\<lambda>v. \<not> ?P (vPubKey v)) lv"
  have "fst (removeLeavingNodesNotExistingInEligibleOrWaiting orders lv W E)
      = fst (removeValidatorsFromList lv ?nf (int (length ?nf)))"
    by (simp add: removeLeavingNodesNotExistingInEligibleOrWaiting_def Let_def
        fst_searchInMap [OF assms] conj_commute)
  moreover have "pks ?nf = filter_mset (\<lambda>pk. \<not> ?P pk) (pks lv)" by (rule pks_filter)
  moreover have "pks lv = filter_mset ?P (pks lv) + filter_mset (\<lambda>pk. \<not> ?P pk) (pks lv)"
    by (rule multiset_partition)
  ultimately show ?thesis
    using removeValidatorsFromList_all [of lv ?nf] by (metis add_diff_cancel_right')
qed

lemma removeNodesFromShard_removes:
  assumes "removeNodesFromShard m lv s (numOf num s) = (m', lv', k)" and "0 \<le> numOf num s" and "s \<in> dom m"
    and "\<And>t. 0 \<le> numOf num t"
  shows "removes m num lv m' (num(s \<mapsto> numOf num s - k)) lv'"
proof -
  define nb where "nb = (if int (length lv) < numOf num s then int (length lv) else numOf num s)"
  obtain vs removed where r: "removeValidatorsFromList (listOf m s) lv nb = (vs, removed)" by fastforce
  have nb: "0 \<le> nb" "nb \<le> numOf num s" using assms(2) by (auto simp: nb_def)
  have eqs: "m' = m(s \<mapsto> vs)" "k = int (length removed)"
    "lv' = fst (removeValidatorsFromList lv removed (int (length removed)))"
    using assms(1) by (auto simp: removeNodesFromShard_def nb_def [symmetric] r Let_def split: prod.splits)
  have spl: "pks vs + pks removed = pks (listOf m s)" by (rule removeValidatorsFromList_pks [OF r])
  then have len: "length vs + length removed = length (listOf m s)" by (metis size_pks size_union)
  have "int (length removed) \<le> nb" by (rule removeValidatorsFromList_spec(3) [OF r nb(1)])
  then have k: "0 \<le> k" "k \<le> numOf num s" using nb(2) eqs(2) by auto
  have sub: "pks removed \<subseteq># pks lv" by (rule removeValidatorsFromList_spec(2) [OF r])
  have lv': "pks lv' + pks removed = pks lv"
    using sub by (simp add: eqs(3) removeValidatorsFromList_all)
  have upd: "nodesIn m' + pks (listOf m s) = nodesIn m + pks vs"
    unfolding eqs(1) by (rule nodesIn_upd)
  have "(nodesIn m' + pks lv) + pks vs = (nodesIn m + pks lv') + pks vs"
    using upd unfolding spl [symmetric] lv' [symmetric] by (simp add: add_ac)
  then have cons: "nodesIn m' + pks lv = nodesIn m + pks lv'" by simp
  have "pks vs \<subseteq># pks (listOf m s)" "pks lv' \<subseteq># pks lv"
    unfolding spl [symmetric] lv' [symmetric] by simp_all
  then show ?thesis unfolding removes_def using cons assms(3,4) k len eqs(1,2) by auto
qed

lemma removes_refl: "(\<And>s. 0 \<le> numOf num s) \<Longrightarrow> removes m num lv m num lv"
  by (simp add: removes_def)

lemma removes_trans:
  assumes "removes m num lv m1 num1 lv1" and "removes m1 num1 lv1 m2 num2 lv2"
  shows "removes m num lv m2 num2 lv2"
proof -
  have "(nodesIn m2 + pks lv) + (nodesIn m1 + pks lv1) = (nodesIn m + pks lv2) + (nodesIn m1 + pks lv1)"
    using assms unfolding removes_def by (metis (no_types, lifting) add.assoc add.commute)
  then have "nodesIn m2 + pks lv = nodesIn m + pks lv2" by simp
  moreover have "int (length (listOf m2 s)) - numOf num2 s = int (length (listOf m s)) - numOf num s" for s
    using assms unfolding removes_def by metis
  moreover have "0 \<le> numOf num2 s \<and> numOf num2 s \<le> numOf num s" for s
    using assms unfolding removes_def by (meson order_trans)
  ultimately show ?thesis using assms unfolding removes_def
    by (auto intro: subset_mset.order_trans)
qed

lemma removeNodesLoop_removes:
  assumes "removeNodesLoop ss m lv num = (m', lv', num')" and "\<And>s. 0 \<le> numOf num s"
    and "set ss \<subseteq> dom m"
  shows "removes m num lv m' num' lv'"
  using assms
proof (induction ss arbitrary: m lv num)
  case Nil
  then show ?case by (simp add: removes_refl)
next
  case (Cons s ss)
  obtain m1 lv1 k where sh: "removeNodesFromShard m lv s (numOf num s) = (m1, lv1, k)"
    using prod_cases3 by blast
  define num1 where "num1 = num(s \<mapsto> numOf num s - k)"
  have r: "removes m num lv m1 num1 lv1"
    using removeNodesFromShard_removes [OF sh] Cons.prems(2,3) by (auto simp: num1_def)
  then have "0 \<le> numOf num1 t" "dom m1 = dom m" for t unfolding removes_def by blast+
  moreover have "removeNodesLoop ss m1 lv1 num1 = (m', lv', num')"
    using Cons.prems(1) sh by (simp add: num1_def)
  ultimately have "removes m1 num1 lv1 m' num' lv'"
    using Cons.IH [of m1 lv1 num1] Cons.prems(3) by simp
  with r show ?case by (rule removes_trans)
qed

lemma removeNodesFromMap_removes:
  assumes "removeNodesFromMap m lv num = (m', lv', num')" and "\<And>s. 0 \<le> numOf num s"
  shows "removes m num lv m' num' lv'"
  using removeNodesLoop_removes [OF assms(1) [unfolded removeNodesFromMap_def] assms(2)] by simp

text \<open>The same for the two maps of one call, waiting first.\<close>

lemma removeLeaving_removesBoth:
  assumes "removeLeavingNodesFromValidatorMaps E W num lv = (E', W', lv', num')"
    and "\<And>s. 0 \<le> numOf num s"
  shows "removesBoth E W num lv E' W' num' lv'"
proof -
  obtain lv1 num1 where w: "removeNodesFromMap W lv num = (W', lv1, num1)"
    and e: "removeNodesFromMap E lv1 num1 = (E', lv', num')"
    using assms(1) by (auto simp: removeLeavingNodesFromValidatorMaps_def Let_def split: prod.splits)
  have rw: "removes W num lv W' num1 lv1" by (rule removeNodesFromMap_removes [OF w assms(2)])
  then have "0 \<le> numOf num1 s" for s unfolding removes_def by blast
  then have re: "removes E num1 lv1 E' num' lv'" by (rule removeNodesFromMap_removes [OF e])
  have "nodesIn W' + pks lv = nodesIn W + pks lv1" "nodesIn E' + pks lv1 = nodesIn E + pks lv'"
    using rw re by (simp_all add: removes_def)
  then have "(nodesIn E' + nodesIn W' + pks lv) + pks lv1 = (nodesIn E + nodesIn W + pks lv') + pks lv1"
    by (metis (no_types, lifting) add.assoc add.commute)
  then have cons: "nodesIn E' + nodesIn W' + pks lv = nodesIn E + nodesIn W + pks lv'" by simp
  have len: "int (length (listOf E' s)) + int (length (listOf W' s)) - numOf num' s
        = int (length (listOf E s)) + int (length (listOf W s)) - numOf num s" for s
  proof -
    have "int (length (listOf W' s)) - numOf num1 s = int (length (listOf W s)) - numOf num s"
      "int (length (listOf E' s)) - numOf num' s = int (length (listOf E s)) - numOf num1 s"
      using rw re unfolding removes_def by blast+
    then show ?thesis by simp
  qed
  have num: "0 \<le> numOf num' s \<and> numOf num' s \<le> numOf num s" for s
    using rw re unfolding removes_def by (meson order_trans)
  have "pks lv' \<subseteq># pks lv" using rw re unfolding removes_def by (meson subset_mset.order_trans)
  then show ?thesis unfolding removesBoth_def
    using cons len num rw re unfolding removes_def by blast
qed

section \<open>Shuffling out\<close>

lemma shuffleOutLoop_ok:
  assumes "\<And>s. 0 \<le> numOf num s"
  shows "shuffleOutLoop sha ss E num rand SO NE =
    Inr (\<lambda>s. if s \<in> set ss then Some (take (nat (numOf num s)) (shuffleList sha (listOf E s) rand)) else SO s,
         \<lambda>s. if s \<in> set ss then
              (let out = take (nat (numOf num s)) (shuffleList sha (listOf E s) rand)
               in Some (fst (removeValidatorsFromList
                    (drop (nat (numOf num s)) (shuffleList sha (listOf E s) rand)) out (int (length out)))))
            else NE s)"
proof (induction ss arbitrary: SO NE)
  case (Cons s ss)
  show ?case
    by (simp only: shuffleOutLoop.simps shuffleOutShard_nonneg [OF assms] sum.case prod.case Cons.IH)
      (auto simp: fun_eq_iff Let_def)
qed simp

lemma shuffleOutNodes_ok:
  assumes "\<And>s. 0 \<le> numOf num s"
  shows "\<exists>SO NE. shuffleOutNodes sha E num rand = Inr (SO, NE) \<and> dom SO = dom E \<and> dom NE = dom E \<and>
    (\<forall>s. length (listOf SO s) \<le> nat (numOf num s)) \<and>
    (distinctPks (nodesIn E) \<longrightarrow> noCollision sha rand (set_mset (nodesIn E)) \<longrightarrow>
      (\<forall>s. pks (listOf SO s) + pks (listOf NE s) = pks (listOf E s)))"
proof -
  define out where "out s = take (nat (numOf num s)) (shuffleList sha (listOf E s) rand)" for s
  define rest where "rest s = drop (nat (numOf num s)) (shuffleList sha (listOf E s) rand)" for s
  let ?SO = "\<lambda>s. if s \<in> dom E then Some (out s) else None"
  let ?NE = "\<lambda>s. if s \<in> dom E
      then Some (fst (removeValidatorsFromList (rest s) (out s) (int (length (out s))))) else None"
  have run: "shuffleOutNodes sha E num rand = Inr (?SO, ?NE)"
    unfolding shuffleOutNodes_def shuffleOutLoop_ok [OF assms]
    by (simp only: out_def rest_def Let_def sortKeys_simps)
  have so: "listOf ?SO s = (if s \<in> dom E then out s else [])" for s by (simp add: listOf_def)
  have "pks (listOf ?SO s) + pks (listOf ?NE s) = pks (listOf E s)"
    if d: "distinctPks (nodesIn E)" and c: "noCollision sha rand (set_mset (nodesIn E))" for s
  proof -
    have sub: "pks (listOf E s) \<subseteq># nodesIn E" by (rule pks_le_nodesIn)
    then have "vPubKey ` set (listOf E s) \<subseteq> set_mset (nodesIn E)" by (metis set_mset_mono set_pks)
    then have "noCollision sha rand (vPubKey ` set (listOf E s))"
      using c by (auto simp: noCollision_def intro: inj_on_subset)
    then have all: "pks (out s) + pks (rest s) = pks (listOf E s)"
      by (metis append_take_drop_id out_def rest_def pks_simps(3) pks_shuffleList)
    then have "pks (rest s) \<inter># pks (out s) = {#}"
      using distinctPks_mono [OF d sub] distinctPks_disjoint by (metis add.commute)
    then have "fst (removeValidatorsFromList (rest s) (out s) (int (length (out s)))) = rest s"
      by (simp add: removeValidatorsFromList_def removeValidatorsLoop_disjoint)
    then have "listOf ?NE s = (if s \<in> dom E then rest s else [])" by (simp add: listOf_def)
    then show ?thesis using so all by (simp add: listOf_notin_dom)
  qed
  moreover have "length (listOf ?SO s) \<le> nat (numOf num s)" for s by (simp add: so out_def)
  moreover have "dom ?SO = dom E" "dom ?NE = dom E" by (auto split: if_splits)
  ultimately show ?thesis using run by blast
qed

section \<open>Filling the eligible lists\<close>

lemma moveMax_lists:
  assumes "goRange order"
    and "moveMaxNumNodesToMap order (Some dest) source numMeta numShard = Inr (dest', source')"
  shows "listOf dest' s = listOf dest s @ take (neededNodes dest source numMeta numShard s) (listOf source s)"
    and "listOf source' s = drop (neededNodes dest source numMeta numShard s) (listOf source s)"
    and "dom source' = dom source"
proof -
  let ?n = "neededNodes dest source numMeta numShard"
  have eqs: "dest' s = (if s \<in> dom source then Some (listOf dest s @ take (?n s) (listOf source s)) else dest s)"
    "source' s = map_option (drop (?n s)) (source s)" for s
    using assms(2) unfolding moveMaxNumNodesToMap_spec [OF assms(1)] by (clarsimp simp del: domIff)+
  have "listOf dest' s = (if s \<in> dom source then listOf dest s @ take (?n s) (listOf source s) else listOf dest s)"
    unfolding listOf_def [of dest'] listOf_def [of dest] eqs(1) by simp
  then show "listOf dest' s = listOf dest s @ take (?n s) (listOf source s)"
    by (simp add: listOf_notin_dom)
  show "listOf source' s = drop (?n s) (listOf source s)"
    by (simp add: listOf_def eqs(2) split: option.splits)
  show "dom source' = dom source" by (auto simp: domIff eqs(2))
qed

lemma neededNodes_min:
  assumes "length (listOf dest s) < 2 ^ 32" and "length (listOf source s) < 2 ^ 32"
  shows "neededNodes dest source numMeta numShard s =
    min (unat (if s = MetachainShardId then numMeta else numShard) - length (listOf dest s))
        (length (listOf source s))"
  using assms
  by (auto simp: neededNodes_def computeNeededNodes_def Let_def word_less_nat_alt unat_of_nat
      take_bit_nat_eq_self unat_sub_if_size min_def)

end
