(* ===== verification/ShufflerCorrect.thy ===== *)
theory ShufflerCorrect
  imports ShufflerRun
begin

text \<open>
  The composed run: when it succeeds, who is where afterwards, how long the
  lists are, and that the orders in which Go ranges over its maps do not matter.
\<close>

section \<open>Specification vocabulary\<close>

abbreviation goRanges :: "(rangeLoop \<Rightarrow> rangeOrder) \<Rightarrow> bool" where
  "goRanges orders \<equiv> (\<forall>l. goRange (orders l))"

text \<open>All the nodes the shuffler is given that take part in the network.\<close>

definition network :: "shuffleNodesArg \<Rightarrow> bytes multiset" where
  "network arg = nodesIn (snEligible arg) + nodesIn (snWaiting arg)"

definition allLeaving :: "shuffleNodesArg \<Rightarrow> bytes multiset" where
  "allLeaving arg = pks (snUnstakeLeaving arg) + pks (snAdditionalLeaving arg)"

text \<open>The keys whose hashes order the shuffled lists do not collide.\<close>

definition noCollisions :: "(bytes \<Rightarrow> bytes) \<Rightarrow> shuffleNodesArg \<Rightarrow> bool" where
  "noCollisions sha arg \<longleftrightarrow> noCollision sha (snRandomness arg)
     (set_mset (network arg + pks (snNewNodes arg) + pks (snAuction arg)))"

text \<open>Some shard identifier is in use neither in the waiting map nor as a shard.\<close>

definition fewShards :: "shuffleNodesArg \<Rightarrow> bool" where
  "fewShards arg \<longleftrightarrow> dom (snWaiting arg) \<union> {s. s < snNbShards arg} \<union> {MetachainShardId} \<noteq> UNIV"

text \<open>
  The result of the first half: lists, shuffled out nodes and the leaving nodes
  that have to stay, related to the arguments.
\<close>

definition firstHalf :: "(bytes \<Rightarrow> bytes) \<Rightarrow> shuffleNodesArg \<Rightarrow> nodesMap \<Rightarrow> nodesMap \<Rightarrow> nodesMap \<Rightarrow> validator list \<Rightarrow> bool" where
  "firstHalf sha arg E W SO still \<longleftrightarrow>
     nodesIn E + nodesIn W + nodesIn SO + filter_mset (\<lambda>pk. pk \<in># network arg) (allLeaving arg)
       = network arg + pks still \<and>
     pks still \<subseteq># filter_mset (\<lambda>pk. pk \<in># network arg) (allLeaving arg) \<and>
     nodesIn SO \<subseteq># nodesIn (snEligible arg) \<and>
     (\<forall>s. pks (listOf E s) + pks (listOf W s)
          \<subseteq># pks (listOf (snEligible arg) s) + pks (listOf (snWaiting arg) s)) \<and>
     (\<forall>s. int (shardTotal arg s) - maxLeaving arg s \<le> int (length (listOf E s) + length (listOf W s))) \<and>
     (\<forall>s n. shardSize arg s = Some n \<longrightarrow> shardTotal arg s < 2 ^ 32 \<longrightarrow>
          unat n \<le> length (listOf E s) \<and> length (listOf E s) \<le> max (unat n) (length (listOf (snEligible arg) s)))"

text \<open>The leaving nodes that did leave the network.\<close>

definition departed :: "shuffleNodesArg \<Rightarrow> resUpdateNodes \<Rightarrow> bytes multiset" where
  "departed arg res = filter_mset (\<lambda>pk. pk \<in># network arg) (pks (resLeaving res))"

text \<open>
  In staking v4 the shuffled out nodes go to the auction unless all nodes
  together, counted modulo $2^{32}$, are at most the maximum.
\<close>

definition lowWaiting :: "shuffleNodesArg \<Rightarrow> nat \<Rightarrow> bool" where
  "lowWaiting arg nodes \<longleftrightarrow> snFlagStakingV4Step2 arg \<and>
     (of_nat (nodes + length (snNewNodes arg) + length (snAuction arg)) :: u32) \<le> snMaxNumNodes arg"

text \<open>What \<^verbatim>\<open>UpdateNodeLists\<close> passes to \<^verbatim>\<open>shuffleNodes\<close>, the lists as they are given.\<close>

definition shuffleArgs :: "randHashShuffler \<Rightarrow> argsUpdateNodes \<Rightarrow> shuffleNodesArg" where
  "shuffleArgs rhs args =
     \<lparr> snEligible = auEligible args,
       snWaiting = auWaiting args,
       snUnstakeLeaving = auUnStakeLeaving args,
       snAdditionalLeaving = removeDupplicates (auUnStakeLeaving args) (auAdditionalLeaving args),
       snNewNodes = auNewNodes args,
       snAuction = auAuction args,
       snRandomness = auRand args,
       snDistributor = validatorDistributor rhs,
       snNodesMeta = nodesMeta rhs,
       snNodesPerShard = nodesShard rhs,
       snNbShards = auNbShards args,
       snMaxNodesToSwapPerShard = NodesToShufflePerShard (activeNodesConfig rhs),
       snMaxNumNodes = MaxNumNodes (activeNodesConfig rhs),
       snFlagBalanceWaitingLists = epochsHandler rhs BalanceWaitingListsFlag (auEpoch args),
       snFlagStakingV4Step2 = flagStakingV4Step2 rhs,
       snFlagStakingV4Step3 = flagStakingV4Step3 rhs,
       snFlagCleanupAuctionOnLowWaitingList =
         epochsHandler rhs CleanupAuctionOnLowWaitingListFlag (auEpoch args) \<rparr>"

text \<open>One step that may distribute a list: it keeps the shards, grows the lists and adds the nodes.\<close>

definition distributed :: "nodesMap \<Rightarrow> bytes multiset \<Rightarrow> bool \<Rightarrow> nodesMap \<Rightarrow> bool" where
  "distributed W new ok W' \<longleftrightarrow> dom W' = dom W \<and> (\<forall>s. pks (listOf W s) \<subseteq># pks (listOf W' s)) \<and>
     (ok \<longrightarrow> nodesIn W' = nodesIn W + new)"

section \<open>The first half\<close>

lemma length_mono_pks: "pks vs \<subseteq># pks ws \<Longrightarrow> length vs \<le> length ws"
  by (metis size_mset_mono size_pks)

text \<open>After the leaving nodes are gone and others shuffled out, the lists are filled.\<close>

lemma fill_bounds:
  assumes "goRange order" and "shardSize arg s = Some n" and "shardTotal arg s < 2 ^ 32"
    and "moveMaxNumNodesToMap order (Some E3) W2 (snNodesMeta arg) (snNodesPerShard arg) = Inr (E', W')"
    and "length (listOf E3 s) \<le> length (listOf (snEligible arg) s)"
    and "length (listOf W2 s) \<le> length (listOf (snWaiting arg) s)"
    and "unat n \<le> length (listOf E3 s) + length (listOf W2 s)"
  shows "unat n \<le> length (listOf E' s) \<and> length (listOf E' s) \<le> max (unat n) (length (listOf (snEligible arg) s))"
proof -
  have n: "n = (if s = MetachainShardId then snNodesMeta arg else snNodesPerShard arg)"
    using assms(2) by (auto simp: shardSize_def split: if_splits)
  have "length (listOf E3 s) < 2 ^ 32" "length (listOf W2 s) < 2 ^ 32"
    using assms(3,5,6) by (auto simp: shardTotal_def)
  then have "length (listOf E' s) = length (listOf E3 s)
      + min (unat n - length (listOf E3 s)) (length (listOf W2 s))"
    by (simp add: moveMax_lists(1) [OF assms(1,4)] neededNodes_min n)
  then show ?thesis using assms(5,7) by auto
qed

lemma nodesIn_mono:
  assumes "\<And>s. pks (listOf m s) \<subseteq># pks (listOf m' s)"
  shows "nodesIn m \<subseteq># nodesIn m'"
proof -
  have "finite S \<Longrightarrow> (\<Sum>s\<in>S. pks (listOf m s)) \<subseteq># (\<Sum>s\<in>S. pks (listOf m' s))" for S
    by (induction S rule: finite_induct) (auto intro: subset_mset.add_mono assms)
  then show ?thesis by (simp add: nodesIn_UNIV)
qed

lemma move_conserves:
  assumes "goRange order"
    and "moveMaxNumNodesToMap order (Some E3) W2 numMeta numShard = Inr (E', W')"
  shows "pks (listOf E' s) + pks (listOf W' s) = pks (listOf E3 s) + pks (listOf W2 s)"
    and "nodesIn E' + nodesIn W' = nodesIn E3 + nodesIn W2"
proof -
  show shard: "pks (listOf E' s) + pks (listOf W' s) = pks (listOf E3 s) + pks (listOf W2 s)" for s
    unfolding moveMax_lists(1,2) [OF assms] by (metis append.assoc append_take_drop_id pks_simps(3))
  show "nodesIn E' + nodesIn W' = nodesIn E3 + nodesIn W2"
    by (simp add: nodesIn_UNIV shard flip: sum.distrib)
qed

lemma stages_nodes:
  assumes b1: "removesBoth E0 W0 num lv1 E1 W1 num1 st1" and b2: "removesBoth E1 W1 num1 lv2 E2 W2 num2 st2"
    and so: "\<And>s. pks (listOf SO s) + pks (listOf E3 s) = pks (listOf E2 s)"
    and mv: "nodesIn E' + nodesIn W' = nodesIn E3 + nodesIn W2"
  shows "nodesIn E' + nodesIn W' + nodesIn SO + (pks lv1 + pks lv2)
       = nodesIn E0 + nodesIn W0 + pks (st1 @ st2)"
    and "pks (st1 @ st2) \<subseteq># pks lv1 + pks lv2" and "nodesIn SO \<subseteq># nodesIn E0"
proof -
  have E2: "nodesIn E2 = nodesIn SO + nodesIn E3" by (rule nodesIn_add) (simp add: so)
  have 1: "nodesIn E1 + nodesIn W1 + pks lv1 = nodesIn E0 + nodesIn W0 + pks st1"
    and 2: "nodesIn E2 + nodesIn W2 + pks lv2 = nodesIn E1 + nodesIn W1 + pks st2"
    using b1 b2 by (simp_all add: removesBoth_def)
  have "nodesIn E' + nodesIn W' + nodesIn SO + (pks lv1 + pks lv2)
      = (nodesIn E2 + nodesIn W2 + pks lv2) + pks lv1"
    unfolding mv E2 by (simp add: add_ac)
  also have "\<dots> = (nodesIn E1 + nodesIn W1 + pks lv1) + pks st2" unfolding 2 by (simp add: add_ac)
  also have "\<dots> = nodesIn E0 + nodesIn W0 + pks (st1 @ st2)" unfolding 1 by (simp add: add_ac)
  finally show "nodesIn E' + nodesIn W' + nodesIn SO + (pks lv1 + pks lv2)
       = nodesIn E0 + nodesIn W0 + pks (st1 @ st2)" .
  show "pks (st1 @ st2) \<subseteq># pks lv1 + pks lv2"
    using b1 b2 by (simp add: removesBoth_def subset_mset.add_mono)
  have "nodesIn E2 \<subseteq># nodesIn E0"
    using b1 b2 by (intro nodesIn_mono) (meson removesBoth_def subset_mset.order_trans)
  then show "nodesIn SO \<subseteq># nodesIn E0" unfolding E2 by (meson mset_subset_eq_add_left subset_mset.order_trans)
qed

lemma stages_shard:
  assumes b1: "removesBoth E0 W0 num lv1 E1 W1 num1 st1" and b2: "removesBoth E1 W1 num1 lv2 E2 W2 num2 st2"
    and so: "pks (listOf SO s) + pks (listOf E3 s) = pks (listOf E2 s)"
    and len: "length (listOf SO s) \<le> nat (numOf num2 s)"
  shows "pks (listOf E3 s) \<subseteq># pks (listOf E0 s)" and "pks (listOf W2 s) \<subseteq># pks (listOf W0 s)"
    and "int (length (listOf E0 s)) + int (length (listOf W0 s)) - numOf num s
       \<le> int (length (listOf E3 s)) + int (length (listOf W2 s))"
proof -
  have "pks (listOf E3 s) \<subseteq># pks (listOf E2 s)" by (metis so mset_subset_eq_add_right)
  then show "pks (listOf E3 s) \<subseteq># pks (listOf E0 s)" "pks (listOf W2 s) \<subseteq># pks (listOf W0 s)"
    using b1 b2 by (meson removesBoth_def subset_mset.order_trans)+
  have "length (listOf SO s) + length (listOf E3 s) = length (listOf E2 s)"
    using so by (metis size_pks size_union)
  moreover have "int (length (listOf E2 s)) + int (length (listOf W2 s)) - numOf num2 s
      = int (length (listOf E0 s)) + int (length (listOf W0 s)) - numOf num s" "0 \<le> numOf num2 s"
    using b1 b2 unfolding removesBoth_def by metis+
  ultimately show "int (length (listOf E0 s)) + int (length (listOf W0 s)) - numOf num s
       \<le> int (length (listOf E3 s)) + int (length (listOf W2 s))"
    using len by linarith
qed

lemma stages_firstHalf:
  assumes b1: "removesBoth (snEligible arg) W0 num lv1 E1 W1 num1 st1"
    and b2: "removesBoth E1 W1 num1 lv2 E2 W2 num2 st2"
    and so: "\<And>s. pks (listOf SO s) + pks (listOf E3 s) = pks (listOf E2 s)"
    and len: "\<And>s. length (listOf SO s) \<le> nat (numOf num2 s)"
    and order: "goRange order"
    and mv: "moveMaxNumNodesToMap order (Some E3) W2 (snNodesMeta arg) (snNodesPerShard arg) = Inr (E', W')"
    and W0: "W0 = createListsForAllShards (snWaiting arg) (snNbShards arg)"
    and num: "\<And>s. numOf num s = maxLeaving arg s"
    and lv: "pks lv1 + pks lv2 = filter_mset (\<lambda>pk. pk \<in># network arg) (allLeaving arg)"
    and enough: "enoughNodes arg"
  shows "firstHalf sha arg E' W' SO (st1 @ st2)"
proof -
  note nodes = stages_nodes [OF b1 b2 so move_conserves(2) [OF order mv]]
  note shard = stages_shard [OF b1 b2 so len]
  note moved = move_conserves(1) [OF order mv]
  have sub: "pks (listOf E' s) + pks (listOf W' s)
      \<subseteq># pks (listOf (snEligible arg) s) + pks (listOf (snWaiting arg) s)" for s
    unfolding moved using shard(1,2) [of s] by (simp add: W0 subset_mset.add_mono)
  have lens: "length (listOf E' s) + length (listOf W' s) = length (listOf E3 s) + length (listOf W2 s)" for s
    using moved [of s] by (metis size_pks size_union)
  have total: "int (shardTotal arg s) - maxLeaving arg s \<le> int (length (listOf E3 s) + length (listOf W2 s))" for s
    using shard(3) [of s] by (simp add: W0 num shardTotal_def)
  have bounds: "unat n \<le> length (listOf E' s)
      \<and> length (listOf E' s) \<le> max (unat n) (length (listOf (snEligible arg) s))"
    if "shardSize arg s = Some n" "shardTotal arg s < 2 ^ 32" for s n
  proof (rule fill_bounds [OF order that mv])
    show "length (listOf E3 s) \<le> length (listOf (snEligible arg) s)"
      by (rule length_mono_pks [OF shard(1)])
    show "length (listOf W2 s) \<le> length (listOf (snWaiting arg) s)"
      using length_mono_pks [OF shard(2)] by (simp add: W0)
    have "maxLeaving arg s \<le> int (shardTotal arg s) - uint n" using that(1) by (simp add: maxLeaving_def)
    then show "unat n \<le> length (listOf E3 s) + length (listOf W2 s)"
      using total [of s] by (simp add: unat_le_uint)
  qed
  show ?thesis unfolding firstHalf_def
    using nodes sub total lens bounds by (simp add: lv network_def W0)
qed

lemma removeAndMove_firstHalf:
  assumes R: "goRanges orders" and enough: "enoughNodes arg"
  shows "\<exists>E W SO still. removeAndMove sha orders arg = Inr (E, W, SO, still) \<and>
    dom W = dom (snWaiting arg) \<union> {s. s < snNbShards arg} \<union> {MetachainShardId} \<and>
    (distinctPks (nodesIn (snEligible arg)) \<longrightarrow>
     noCollision sha (snRandomness arg) (set_mset (nodesIn (snEligible arg))) \<longrightarrow>
     firstHalf sha arg E W SO still)"
proof -
  let ?E = "snEligible arg"
  define W0 where "W0 = createListsForAllShards (snWaiting arg) (snNbShards arg)"
  obtain num0 where num0: "computeNumToRemove arg = Inr num0"
    using computeNumToRemove_spec(1) [OF enough] by blast
  define num where "num = capNumToRemove (orders CapNumToRemove) num0 (snMaxNodesToSwapPerShard arg)"
  have num: "numOf num s = maxLeaving arg s" "0 \<le> maxLeaving arg s" for s
    using numOf_budget [OF enough, of "orders CapNumToRemove"] R num0 by (auto simp: num_def)
  define lv1 where "lv1 = fst (removeLeavingNodesNotExistingInEligibleOrWaiting orders
      (snUnstakeLeaving arg) W0 ?E)"
  define lv2 where "lv2 = fst (removeLeavingNodesNotExistingInEligibleOrWaiting orders
      (snAdditionalLeaving arg) W0 ?E)"
  have lv: "pks lv1 + pks lv2 = filter_mset (\<lambda>pk. pk \<in># network arg) (allLeaving arg)"
    unfolding lv1_def lv2_def using R
    by (simp add: removeLeavingNotExisting_pks W0_def network_def allLeaving_def)
  obtain E1 W1 st1 num1 where r1:
    "removeLeavingNodesFromValidatorMaps ?E W0 num lv1 = (E1, W1, st1, num1)" using prod_cases4 by blast
  have b1: "removesBoth ?E W0 num lv1 E1 W1 num1 st1"
    by (rule removeLeaving_removesBoth [OF r1]) (simp add: num)
  then have n1: "0 \<le> numOf num1 s" for s unfolding removesBoth_def by blast
  obtain E2 W2 st2 num2 where r2:
    "removeLeavingNodesFromValidatorMaps E1 W1 num1 lv2 = (E2, W2, st2, num2)" using prod_cases4 by blast
  have b2: "removesBoth E1 W1 num1 lv2 E2 W2 num2 st2"
    by (rule removeLeaving_removesBoth [OF r2 n1])
  then have n2: "0 \<le> numOf num2 s" for s unfolding removesBoth_def by blast
  obtain SO E3 where so: "shuffleOutNodes sha E2 num2 (snRandomness arg) = Inr (SO, E3)"
    "\<And>s. length (listOf SO s) \<le> nat (numOf num2 s)"
    "distinctPks (nodesIn E2) \<Longrightarrow> noCollision sha (snRandomness arg) (set_mset (nodesIn E2)) \<Longrightarrow>
      (\<forall>s. pks (listOf SO s) + pks (listOf E3 s) = pks (listOf E2 s))"
    using shuffleOutNodes_ok [OF n2] by metis
  obtain E' W' where mv: "moveMaxNumNodesToMap (orders MoveToEligible) (Some E3) W2
      (snNodesMeta arg) (snNodesPerShard arg) = Inr (E', W')"
    using moveMaxNumNodesToMap_spec [of "orders MoveToEligible"] R by blast
  have run: "removeAndMove sha orders arg = Inr (E', W', SO, st1 @ st2)"
    using R num0 r1 r2 so(1) mv
    by (simp add: removeAndMove_def W0_def num_def lv1_def lv2_def Let_def split_beta)
  have dom: "dom W' = dom (snWaiting arg) \<union> {s. s < snNbShards arg} \<union> {MetachainShardId}"
    using moveMax_lists(3) [OF _ mv] R b1 b2 unfolding removesBoth_def by (simp add: W0_def del: domIff)
  have "firstHalf sha arg E' W' SO (st1 @ st2)"
    if d: "distinctPks (nodesIn ?E)" and c: "noCollision sha (snRandomness arg) (set_mset (nodesIn ?E))"
  proof (rule stages_firstHalf [OF b1 b2 _ so(2) _ mv W0_def num(1) lv enough])
    have "nodesIn E2 \<subseteq># nodesIn ?E"
      using b1 b2 by (intro nodesIn_mono) (meson removesBoth_def subset_mset.order_trans)
    then have "distinctPks (nodesIn E2)" "noCollision sha (snRandomness arg) (set_mset (nodesIn E2))"
      using d c by (auto simp: noCollision_def intro: distinctPks_mono inj_on_subset dest: set_mset_mono)
    then show "pks (listOf SO s) + pks (listOf E3 s) = pks (listOf E2 s)" for s using so(3) by blast
  qed (simp add: R)
  then show ?thesis using run dom by blast
qed

section \<open>The second half\<close>

lemma noCollision_mono: "noCollision sha rand K \<Longrightarrow> K' \<subseteq> K \<Longrightarrow> noCollision sha rand K'"
  by (auto simp: noCollision_def intro: inj_on_subset)

lemma distributed_refl: "distributed W {#} ok W"
  by (simp add: distributed_def)

lemma distributeValidators_distributed:
  assumes "dom W \<noteq> {}" and "dom W \<noteq> UNIV"
  shows "\<exists>W'. distributeValidators sha order W vs rand balanced = Inr W' \<and>
    distributed W (pks vs) (noCollision sha rand (set_mset (pks vs))) W'"
  using distributeValidators_ok [OF assms] unfolding distributed_def set_pks by blast

lemma checkAndDistributeNewNodes_cases:
  assumes "dom W \<noteq> {}" and "dom W \<noteq> UNIV"
  shows "step3 \<Longrightarrow> vs \<noteq> [] \<Longrightarrow>
      checkAndDistributeNewNodes sha order W vs rand step3 = Inl ErrReceivedNewListNodeInStakingV4"
    and "\<not> (step3 \<and> vs \<noteq> []) \<Longrightarrow> \<exists>W'. checkAndDistributeNewNodes sha order W vs rand step3 = Inr W' \<and>
      distributed W (pks vs) (noCollision sha rand (set_mset (pks vs))) W'"
  using distributeValidators_distributed [OF assms]
  by (auto simp: checkAndDistributeNewNodes_def distributed_refl)

lemma lowWaiting_cfg:
  assumes "goRanges orders"
  shows "shouldDistributeShuffledToWaitingInStakingV4
     \<lparr> numShuffled = getNumPubKeys (orders CountShuffled) SO,
       numNewEligible = getNumPubKeys (orders CountEligible) E,
       numNewWaiting = getNumPubKeys (orders CountWaiting) W,
       numSelectedAuction = of_nat (length (snAuction arg)),
       cfgMaxNumNodes = snMaxNumNodes arg,
       cfgFlagStakingV4Step2 = snFlagStakingV4Step2 arg \<rparr> \<longleftrightarrow>
     snFlagStakingV4Step2 arg \<and>
     (of_nat (size (nodesIn W) + length (snAuction arg) + size (nodesIn E) + size (nodesIn SO)) :: u32)
       \<le> snMaxNumNodes arg"
  using assms
  by (simp add: shouldDistributeShuffledToWaitingInStakingV4_def Let_def getNumPubKeys_size)

lemma distributeAll_error:
  assumes "dom W \<noteq> {}" and "dom W \<noteq> UNIV" and "snFlagStakingV4Step3 arg" and "snNewNodes arg \<noteq> []"
  shows "distributeAll sha orders arg E W SO =
    Inl (Wrapped ''distributeValidators newNodes failed'' ErrReceivedNewListNodeInStakingV4)"
  using checkAndDistributeNewNodes_cases(1) [OF assms(1,2)] assms(3,4) by (simp add: distributeAll_def)

lemma distributeAll_ok:
  assumes R: "goRanges orders" and few: "dom W \<noteq> {}" "dom W \<noteq> UNIV"
    and new: "\<not> (snFlagStakingV4Step3 arg \<and> snNewNodes arg \<noteq> [])"
  shows "\<exists>W' SO' low. distributeAll sha orders arg E W SO = Inr (W', SO', low) \<and>
    (\<forall>s. pks (listOf W s) \<subseteq># pks (listOf W' s)) \<and>
    (snFlagStakingV4Step2 arg \<and> \<not> low \<longrightarrow> SO' = SO) \<and>
    (noCollisions sha arg \<and> nodesIn SO \<subseteq># network arg \<longrightarrow>
       low = lowWaiting arg (size (nodesIn E + nodesIn W + nodesIn SO)) \<and>
       nodesIn W' = nodesIn W + pks (snNewNodes arg)
         + (if snFlagStakingV4Step3 arg \<or> low then pks (snAuction arg) else {#})
         + (if \<not> snFlagStakingV4Step2 arg \<or> low then nodesIn SO else {#}))"
proof -
  let ?r = "snRandomness arg" and ?bal = "snFlagBalanceWaitingLists arg"
  obtain W1 where w1: "checkAndDistributeNewNodes sha (orders MaxSizeNewNodes) W (snNewNodes arg) ?r
      (snFlagStakingV4Step3 arg) = Inr W1"
    "distributed W (pks (snNewNodes arg)) (noCollision sha ?r (set_mset (pks (snNewNodes arg)))) W1"
    using checkAndDistributeNewNodes_cases(2) [OF few new] by blast
  define low where "low = shouldDistributeShuffledToWaitingInStakingV4
     \<lparr> numShuffled = getNumPubKeys (orders CountShuffled) SO,
       numNewEligible = getNumPubKeys (orders CountEligible) E,
       numNewWaiting = getNumPubKeys (orders CountWaiting) W1,
       numSelectedAuction = of_nat (length (snAuction arg)),
       cfgMaxNumNodes = snMaxNumNodes arg,
       cfgFlagStakingV4Step2 = snFlagStakingV4Step2 arg \<rparr>"
  have few1: "dom W1 \<noteq> {}" "dom W1 \<noteq> UNIV" using few w1(2) by (simp_all add: distributed_def)
  have "\<exists>W2. (if snFlagStakingV4Step3 arg \<or> low
      then distributeValidators sha (orders MaxSizeAuction) W1 (snAuction arg) ?r ?bal else Inr W1) = Inr W2 \<and>
    distributed W1 (if snFlagStakingV4Step3 arg \<or> low then pks (snAuction arg) else {#})
      (noCollision sha ?r (set_mset (pks (snAuction arg)))) W2"
    by (cases "snFlagStakingV4Step3 arg \<or> low")
      (simp_all only: if_True if_False distributeValidators_distributed [OF few1], blast intro: distributed_refl)
  then obtain W2 where w2: "(if snFlagStakingV4Step3 arg \<or> low
      then distributeValidators sha (orders MaxSizeAuction) W1 (snAuction arg) ?r ?bal else Inr W1) = Inr W2"
    "distributed W1 (if snFlagStakingV4Step3 arg \<or> low then pks (snAuction arg) else {#})
      (noCollision sha ?r (set_mset (pks (snAuction arg)))) W2"
    by blast
  have few2: "dom W2 \<noteq> {}" "dom W2 \<noteq> UNIV" using few1 w2(2) by (simp_all add: distributed_def)
  let ?out = "if \<not> snFlagStakingV4Step2 arg \<or> low
      then DistributeValidators (snDistributor arg) sha (orders RangeShuffledOut)
             (orders MaxSizeShuffledOut) W2 SO ?r ?bal else Inr (W2, SO)"
  obtain W3 SO' where w3: "?out = Inr (W3, SO')"
    using distributor.succeeds [of "orders RangeShuffledOut", OF _ few2] R
    by (cases "\<not> snFlagStakingV4Step2 arg \<or> low") (simp_all, blast+)
  have run: "distributeAll sha orders arg E W SO = Inr (W3, SO', low)"
    using w1(1) w2(1) w3 by (simp add: distributeAll_def low_def [symmetric] Let_def)
  have dv: "DistributeValidators (snDistributor arg) sha (orders RangeShuffledOut)
      (orders MaxSizeShuffledOut) W2 SO ?r ?bal = Inr (W3, SO')" if "\<not> snFlagStakingV4Step2 arg \<or> low"
    using w3 that by simp
  have no_dv: "W3 = W2 \<and> SO' = SO" if "\<not> (\<not> snFlagStakingV4Step2 arg \<or> low)" using w3 that by simp
  have grow3: "pks (listOf W2 s) \<subseteq># pks (listOf W3 s)" for s
    using distributor.grows [OF _ few2 dv] R no_dv by blast
  have grow: "pks (listOf W s) \<subseteq># pks (listOf W3 s)" for s
    using w1(2) w2(2) grow3 unfolding distributed_def by (meson subset_mset.order_trans)
  have "low = lowWaiting arg (size (nodesIn E + nodesIn W + nodesIn SO)) \<and>
       nodesIn W3 = nodesIn W + pks (snNewNodes arg)
         + (if snFlagStakingV4Step3 arg \<or> low then pks (snAuction arg) else {#})
         + (if \<not> snFlagStakingV4Step2 arg \<or> low then nodesIn SO else {#})"
    if c: "noCollisions sha arg" and so: "nodesIn SO \<subseteq># network arg"
  proof -
    have nc: "noCollision sha ?r K"
      if "K \<subseteq> set_mset (network arg + pks (snNewNodes arg) + pks (snAuction arg))" for K
      using c that unfolding noCollisions_def by (rule noCollision_mono)
    have "set_mset (nodesIn SO) \<subseteq> set_mset (network arg)" using so by (rule set_mset_mono)
    then have ncs: "noCollision sha ?r (set_mset (nodesIn SO))"
      "noCollision sha ?r (set_mset (pks (snNewNodes arg)))"
      "noCollision sha ?r (set_mset (pks (snAuction arg)))"
      by (auto intro!: nc)
    have W1: "nodesIn W1 = nodesIn W + pks (snNewNodes arg)" using w1(2) ncs(2) by (simp add: distributed_def)
    have W2: "nodesIn W2 = nodesIn W1 + (if snFlagStakingV4Step3 arg \<or> low then pks (snAuction arg) else {#})"
      using w2(2) ncs(3) by (simp add: distributed_def)
    have W3: "nodesIn W3 = nodesIn W2 + (if \<not> snFlagStakingV4Step2 arg \<or> low then nodesIn SO else {#})"
      using distributor.conserves [OF _ few2 ncs(1) dv] R no_dv by (simp split: if_split)
    have "low = lowWaiting arg (size (nodesIn E + nodesIn W + nodesIn SO))"
      unfolding low_def lowWaiting_cfg [OF R] by (simp add: lowWaiting_def W1 add_ac)
    then show ?thesis using W1 W2 W3 by simp
  qed
  then show ?thesis using run grow w3 by auto
qed

section \<open>The whole run\<close>

lemma UpdateNodeLists_shuffleNodes:
  assumes "goRanges orders"
  shows "UpdateNodeLists sha orders rhs args =
    (let rhs' = updateShufflerConfig rhs (auEpoch args) in
     (rhs', case computeNewShards rhs' (orders ComputeNewShards) (auEligible args) (auWaiting args)
              (int (length (auNewNodes args)))
              (int (length (removeDupplicates (auUnStakeLeaving args) (auAdditionalLeaving args)))
                + int (length (auUnStakeLeaving args))) (auNbShards args) of
              Inl e \<Rightarrow> Inl e
            | Inr _ \<Rightarrow> shuffleNodes sha orders (shuffleArgs rhs' args)))"
  using assms
  by (simp add: UpdateNodeLists_def Let_def splitShards_def mergeShards_def shuffleArgs_def
      split: sum.split)

lemma computeNewShards_ok:
  "nodesShard rhs + shardHysteresis rhs \<noteq> 0 \<Longrightarrow> \<exists>n. computeNewShards rhs order E W a b nb = Inr n"
  by (auto simp: computeNewShards_def Let_def split: prod.splits)

lemma updateShufflerConfig_params [simp]:
  "nodesShard (updateShufflerConfig rhs e) = nodesShard rhs"
  "shardHysteresis (updateShufflerConfig rhs e) = shardHysteresis rhs"
  by (simp_all add: updateShufflerConfig_def)

lemma fewShards_dom:
  assumes "fewShards arg" and "dom W = dom (snWaiting arg) \<union> {s. s < snNbShards arg} \<union> {MetachainShardId}"
  shows "dom W \<noteq> {}" and "dom W \<noteq> UNIV"
  using assms by (auto simp: fewShards_def simp del: domIff)

lemma shuffleNodes_small:
  assumes "goRanges orders" and "\<not> enoughNodes arg"
  shows "\<exists>t. shuffleNodes sha orders arg = Inl (ErrSmallShardEligibleListSize t)"
  using computeNumToRemove_spec(2) [OF assms(2)]
  by (auto simp: shuffleNodes_def removeAndMove_def Let_def)

lemma shuffleNodes_new_refused:
  assumes "goRanges orders" and "enoughNodes arg" and "fewShards arg"
    and "snFlagStakingV4Step3 arg" and "snNewNodes arg \<noteq> []"
  shows "shuffleNodes sha orders arg =
    Inl (Wrapped ''distributeValidators newNodes failed'' ErrReceivedNewListNodeInStakingV4)"
proof -
  obtain E W SO still where r: "removeAndMove sha orders arg = Inr (E, W, SO, still)"
    "dom W = dom (snWaiting arg) \<union> {s. s < snNbShards arg} \<union> {MetachainShardId}"
    using removeAndMove_firstHalf [OF assms(1,2)] by blast
  then show ?thesis using distributeAll_error [OF fewShards_dom [OF assms(3) r(2)] assms(4,5)]
    by (simp add: shuffleNodes_def Let_def)
qed

lemma departed_still:
  assumes "pks still \<subseteq># filter_mset P lv" and "pks L = lv - pks still"
  shows "filter_mset P (pks L) + pks still = filter_mset P lv"
proof -
  have "filter_mset P (pks still) = pks still"
    using set_mset_mono [OF assms(1)] by (intro filter_mset_eq_conv [THEN iffD2]) auto
  then have "filter_mset P (pks L) = filter_mset P lv - pks still"
    using assms(2) by (simp add: filter_diff_mset)
  then show ?thesis using assms(1) by simp
qed

lemma shuffleNodes_ok:
  assumes R: "goRanges orders" and enough: "enoughNodes arg" and few: "fewShards arg"
    and new: "\<not> (snFlagStakingV4Step3 arg \<and> snNewNodes arg \<noteq> [])"
  shows "\<exists>res W SO low. shuffleNodes sha orders arg = Inr res \<and>
    (distinctPks (nodesIn (snEligible arg)) \<and> noCollisions sha arg \<longrightarrow>
      firstHalf sha arg (resEligible res) W SO (resStillRemaining res) \<and>
      departed arg res + pks (resStillRemaining res)
        = filter_mset (\<lambda>pk. pk \<in># network arg) (allLeaving arg) \<and>
      (\<forall>s. pks (listOf W s) \<subseteq># pks (listOf (resWaiting res) s)) \<and>
      (snFlagStakingV4Step2 arg \<and> \<not> low \<longrightarrow> resShuffledOut res = SO) \<and>
      low = lowWaiting arg (size (nodesIn (resEligible res) + nodesIn W + nodesIn SO)) \<and>
      nodesIn (resWaiting res) = nodesIn W + pks (snNewNodes arg)
         + (if snFlagStakingV4Step3 arg \<or> low then pks (snAuction arg) else {#})
         + (if \<not> snFlagStakingV4Step2 arg \<or> low then nodesIn SO else {#}))"
proof -
  obtain E W SO still where r: "removeAndMove sha orders arg = Inr (E, W, SO, still)"
    "dom W = dom (snWaiting arg) \<union> {s. s < snNbShards arg} \<union> {MetachainShardId}"
    "distinctPks (nodesIn (snEligible arg)) \<Longrightarrow>
       noCollision sha (snRandomness arg) (set_mset (nodesIn (snEligible arg))) \<Longrightarrow> firstHalf sha arg E W SO still"
    using removeAndMove_firstHalf [OF R enough] by blast
  obtain W' SO' low where d: "distributeAll sha orders arg E W SO = Inr (W', SO', low)"
    "\<forall>s. pks (listOf W s) \<subseteq># pks (listOf W' s)"
    "snFlagStakingV4Step2 arg \<and> \<not> low \<longrightarrow> SO' = SO"
    "noCollisions sha arg \<and> nodesIn SO \<subseteq># network arg \<longrightarrow>
       low = lowWaiting arg (size (nodesIn E + nodesIn W + nodesIn SO)) \<and>
       nodesIn W' = nodesIn W + pks (snNewNodes arg)
         + (if snFlagStakingV4Step3 arg \<or> low then pks (snAuction arg) else {#})
         + (if \<not> snFlagStakingV4Step2 arg \<or> low then nodesIn SO else {#})"
    using distributeAll_ok [OF R fewShards_dom [OF few r(2)] new, of sha E SO] by blast
  define res where "res = \<lparr> resEligible = E, resWaiting = W', resShuffledOut = SO',
      resLeaving = fst (removeValidatorsFromList (snUnstakeLeaving arg @ snAdditionalLeaving arg) still
        (int (length still))),
      resStillRemaining = still,
      resLowWaitingList = (if snFlagCleanupAuctionOnLowWaitingList arg then low else False) \<rparr>"
  have run: "shuffleNodes sha orders arg = Inr res"
    using r(1) d(1) by (simp add: shuffleNodes_def Let_def res_def)
  have main: "firstHalf sha arg E W SO still \<and> nodesIn SO \<subseteq># network arg \<and>
      departed arg res + pks still = filter_mset (\<lambda>pk. pk \<in># network arg) (allLeaving arg)"
    if dc: "distinctPks (nodesIn (snEligible arg))" "noCollisions sha arg"
  proof -
    have "noCollision sha (snRandomness arg) (set_mset (nodesIn (snEligible arg)))"
      using dc(2) unfolding noCollisions_def by (rule noCollision_mono) (auto simp: network_def)
    then have fh: "firstHalf sha arg E W SO still" using r(3) dc(1) by blast
    moreover have "nodesIn SO \<subseteq># network arg"
      using fh unfolding firstHalf_def network_def
      by (meson mset_subset_eq_add_left subset_mset.order_trans)
    moreover have "pks (resLeaving res) = allLeaving arg - pks still"
      by (simp add: res_def removeValidatorsFromList_all allLeaving_def)
    ultimately show ?thesis using departed_still unfolding departed_def firstHalf_def by blast
  qed
  show ?thesis
    by (rule exI [of _ res], rule exI [of _ W], rule exI [of _ SO], rule exI [of _ low])
      (use run main d in \<open>auto simp: res_def\<close>)
qed

end
