(* ===== verification/ShufflerProperties.thy ===== *)
theory ShufflerProperties
  imports ShufflerCorrect
begin

text \<open>The properties of the validator shuffler, with a small network to apply them to.\<close>

section \<open>A small network\<close>

text \<open>
  One shard of two and a metachain of one eligible node; three and two nodes are
  eligible or waiting there. Of the leaving nodes one is unknown.
\<close>

definition exampleValidator :: "string \<Rightarrow> validator" where
  "exampleValidator pk = \<lparr> vPubKey = pk, vChances = 1, vIndex = 0 \<rparr>"

definition exampleShuffler :: randHashShuffler where
  "exampleShuffler =
     \<lparr> shuffleBetweenShards = True, adaptivity = False, nodesShard = 2, nodesMeta = 1,
       shardHysteresis = 1, metaHysteresis = 1,
       activeNodesConfig = \<lparr> EpochEnable = 0, MaxNumNodes = 10, NodesToShufflePerShard = 1 \<rparr>,
       availableNodesConfigs = [\<lparr> EpochEnable = 0, MaxNumNodes = 10, NodesToShufflePerShard = 1 \<rparr>],
       validatorDistributor = CrossShardValidatorDistributor,
       epochsHandler = (\<lambda>_ _. True),
       stakingV4Step2EnableEpoch = 100, flagStakingV4Step2 = False,
       stakingV4Step3EnableEpoch = 200, flagStakingV4Step3 = False \<rparr>"

definition exampleArgs :: argsUpdateNodes where
  "exampleArgs =
     \<lparr> auEligible = [0 \<mapsto> [exampleValidator ''a'', exampleValidator ''b''],
                     MetachainShardId \<mapsto> [exampleValidator ''m'']],
       auWaiting = [0 \<mapsto> [exampleValidator ''c''], MetachainShardId \<mapsto> [exampleValidator ''n'']],
       auNewNodes = [exampleValidator ''x''],
       auUnStakeLeaving = [exampleValidator ''b''],
       auAdditionalLeaving = [exampleValidator ''u''],
       auAuction = [],
       auRand = ''r'', auNbShards = 1, auEpoch = 5 \<rparr>"

definition exampleResult :: resUpdateNodes where
  "exampleResult =
     \<lparr> resEligible = [0 \<mapsto> [exampleValidator ''a'', exampleValidator ''c''],
                      MetachainShardId \<mapsto> [exampleValidator ''n'']],
       resWaiting = [0 \<mapsto> [exampleValidator ''x''], MetachainShardId \<mapsto> [exampleValidator ''m'']],
       resShuffledOut = [0 \<mapsto> [], MetachainShardId \<mapsto> [exampleValidator ''m'']],
       resLeaving = [exampleValidator ''b'', exampleValidator ''u''],
       resStillRemaining = [],
       resLowWaitingList = False \<rparr>"

definition exampleShufflerArgs :: nodesShufflerArgs where
  "exampleShufflerArgs =
     \<lparr> argNodesShard = 2, argNodesMeta = 1, argHysteresis = (\<lambda>n. n div 5), argAdaptivity = False,
       argShuffleBetweenShards = True,
       argMaxNodesEnableConfig = [\<lparr> EpochEnable = 7, MaxNumNodes = 30, NodesToShufflePerShard = 3 \<rparr>,
                                  \<lparr> EpochEnable = 5, MaxNumNodes = 20, NodesToShufflePerShard = 2 \<rparr>,
                                  \<lparr> EpochEnable = 0, MaxNumNodes = 10, NodesToShufflePerShard = 1 \<rparr>],
       argEnableEpochsHandler = Some (\<lambda>_ _. True),
       argStakingV4Step2EnableEpoch = 100, argStakingV4Step3EnableEpoch = 200 \<rparr>"

definition exampleNewShuffler :: randHashShuffler where
  "exampleNewShuffler =
     sortConfigs (UpdateParams
       \<lparr> shuffleBetweenShards = True, adaptivity = False, nodesShard = 0, nodesMeta = 0,
         shardHysteresis = 0, metaHysteresis = 0,
         activeNodesConfig = \<lparr> EpochEnable = 0, MaxNumNodes = 0, NodesToShufflePerShard = 0 \<rparr>,
         availableNodesConfigs = argMaxNodesEnableConfig exampleShufflerArgs,
         validatorDistributor = CrossShardValidatorDistributor,
         epochsHandler = (\<lambda>_ _. True),
         stakingV4Step2EnableEpoch = 100, flagStakingV4Step2 = False,
         stakingV4Step3EnableEpoch = 200, flagStakingV4Step3 = False \<rparr>
       2 1 (\<lambda>n. n div 5) False)"

definition exampleOrders :: "rangeLoop \<Rightarrow> rangeOrder" where
  "exampleOrders l K = sorted_list_of_set K"

definition exampleReversed :: "rangeLoop \<Rightarrow> rangeOrder" where
  "exampleReversed l K = rev (sorted_list_of_set K)"

section \<open>Independence of the order of maps\<close>

lemma shuffleNodes_range:
  assumes R: "goRanges orders" "goRanges orders'"
    and d: "distinctPks (nodesIn (snEligible arg))"
    and c: "noCollision sha (snRandomness arg) (set_mset (nodesIn (snEligible arg)))"
  shows "shuffleNodes sha orders arg = shuffleNodes sha orders' arg"
proof -
  have leave: "removeLeavingNodesNotExistingInEligibleOrWaiting orders
      = removeLeavingNodesNotExistingInEligibleOrWaiting orders'"
    using R by (simp add: fun_eq_iff removeLeavingNodesNotExistingInEligibleOrWaiting_def fst_searchInMap)
  have maps: "copyValidatorMap (orders l) = copyValidatorMap (orders' l)"
    "capNumToRemove (orders l) = capNumToRemove (orders' l)"
    "getNumPubKeys (orders l) = getNumPubKeys (orders' l)"
    "moveMaxNumNodesToMap (orders l) (Some E) = moveMaxNumNodesToMap (orders' l) (Some E)" for l E
    using R by (simp_all add: fun_eq_iff capNumToRemove_min getNumPubKeys_size moveMaxNumNodesToMap_spec)
  have dist: "distributeValidators sha (orders l) = distributeValidators sha (orders' l)" for l
    using R by (intro HOL.ext distributeValidators_range) simp_all
  then have chk: "checkAndDistributeNewNodes sha (orders l) = checkAndDistributeNewNodes sha (orders' l)" for l
    by (simp add: fun_eq_iff checkAndDistributeNewNodes_def)
  have first: "removeAndMove sha orders arg = removeAndMove sha orders' arg"
    by (simp only: removeAndMove_def leave maps)
  have second: "distributeAll sha orders arg E W SO = distributeAll sha orders' arg E W SO"
    if "nodesIn SO \<subseteq># nodesIn (snEligible arg)" for E W SO
  proof -
    have "distinctPks (nodesIn SO)" "noCollision sha (snRandomness arg) (set_mset (nodesIn SO))"
      using that d c by (auto intro: distinctPks_mono noCollision_mono dest: set_mset_mono)
    then have "DistributeValidators (snDistributor arg) sha (orders a) (orders b) V SO (snRandomness arg) x
        = DistributeValidators (snDistributor arg) sha (orders' a) (orders' b) V SO (snRandomness arg) x" for a b V x
      using R by (intro distributor.order_irrelevant) simp_all
    then show ?thesis by (simp only: distributeAll_def chk dist maps)
  qed
  show ?thesis
  proof (cases "enoughNodes arg")
    case True
    then obtain E W SO still where "removeAndMove sha orders arg = Inr (E, W, SO, still)"
      "firstHalf sha arg E W SO still"
      using removeAndMove_firstHalf [OF R(1) True] d c by blast
    then show ?thesis using first second by (simp add: shuffleNodes_def Let_def firstHalf_def)
  next
    case False
    then obtain t where "computeNumToRemove arg = Inl t" using computeNumToRemove_spec(2) by blast
    then show ?thesis by (simp add: shuffleNodes_def removeAndMove_def Let_def)
  qed
qed

lemma computeNewShards_range:
  assumes "goRange order" and "goRange order'"
  shows "computeNewShards rhs order E W a b nb = computeNewShards rhs order' E W a b nb"
proof -
  have "fold (\<lambda>s (e, w). (e + f s, w + g s)) ss (x, y) = (x + sum_list (map f ss), y + sum_list (map g ss))"
    for ss :: "shardID list" and f g :: "shardID \<Rightarrow> int" and x y
    by (induction ss arbitrary: x y) simp_all
  then show ?thesis using assms by (simp add: computeNewShards_def sum_list_distinct_conv_sum_set)
qed

lemma goRanges_example [simp]: "goRange (exampleOrders l)" "goRange (exampleReversed l)"
  by (simp_all add: goRange_def exampleOrders_def exampleReversed_def)

section \<open>What a successful run gives\<close>

lemma UpdateNodeLists_success:
  assumes R: "goRanges orders" and arg: "arg = shuffleArgs (updateShufflerConfig rhs (auEpoch args)) args"
    and few: "fewShards arg" and run: "UpdateNodeLists sha orders rhs args = (rhs', Inr res)"
    and d: "distinctPks (nodesIn (snEligible arg))" and c: "noCollisions sha arg"
  shows "\<exists>W SO low. firstHalf sha arg (resEligible res) W SO (resStillRemaining res) \<and>
      departed arg res + pks (resStillRemaining res)
        = filter_mset (\<lambda>pk. pk \<in># network arg) (allLeaving arg) \<and>
      (\<forall>s. pks (listOf W s) \<subseteq># pks (listOf (resWaiting res) s)) \<and>
      (snFlagStakingV4Step2 arg \<and> \<not> low \<longrightarrow> resShuffledOut res = SO) \<and>
      low = lowWaiting arg (size (nodesIn (resEligible res) + nodesIn W + nodesIn SO)) \<and>
      nodesIn (resWaiting res) = nodesIn W + pks (snNewNodes arg)
         + (if snFlagStakingV4Step3 arg \<or> low then pks (snAuction arg) else {#})
         + (if \<not> snFlagStakingV4Step2 arg \<or> low then nodesIn SO else {#})"
proof -
  have sh: "shuffleNodes sha orders arg = Inr res"
    using run unfolding UpdateNodeLists_shuffleNodes [OF R] arg
    by (auto simp: Let_def split: sum.splits)
  have enough: "enoughNodes arg" using shuffleNodes_small [OF R, of arg sha] sh by auto
  have new: "\<not> (snFlagStakingV4Step3 arg \<and> snNewNodes arg \<noteq> [])"
    using shuffleNodes_new_refused [OF R enough few, of sha] sh by auto
  show ?thesis using shuffleNodes_ok [OF R enough few new, of sha] sh d c by auto
qed

lemma shuffleNodes_leaving:
  "shuffleNodes sha orders arg = Inr res \<Longrightarrow> pks (resLeaving res) = allLeaving arg - pks (resStillRemaining res)"
  by (auto simp: shuffleNodes_def Let_def allLeaving_def removeValidatorsFromList_all
      split: sum.splits prod.splits)

lemma UpdateNodeLists_res:
  assumes "goRanges orders" and "UpdateNodeLists sha orders rhs args = (rhs', Inr res)"
  shows "shuffleNodes sha orders (shuffleArgs (updateShufflerConfig rhs (auEpoch args)) args) = Inr res"
  using assms(2) unfolding UpdateNodeLists_shuffleNodes [OF assms(1)] by (auto simp: Let_def split: sum.splits)

text \<open>The last enabled configuration of a sorted list is the one enabled most recently.\<close>

lemma fold_enabled:
  assumes "sorted (map EpochEnable cfgs)" and "\<exists>c\<in>set cfgs. EpochEnable c \<le> epoch"
  shows "fold (\<lambda>cfg active. if epoch \<ge> EpochEnable cfg then cfg else active) cfgs a
      \<in> {c \<in> set cfgs. EpochEnable c \<le> epoch \<and>
           (\<forall>c'\<in>set cfgs. EpochEnable c' \<le> epoch \<longrightarrow> EpochEnable c' \<le> EpochEnable c)}"
  using assms
proof (induction cfgs rule: rev_induct)
  case (snoc c cfgs)
  show ?case
  proof (cases "EpochEnable c \<le> epoch")
    case True
    then show ?thesis using snoc.prems(1) by (auto simp: sorted_append)
  next
    case False
    then have "\<exists>c\<in>set cfgs. EpochEnable c \<le> epoch" using snoc.prems(2) by auto
    then show ?thesis using snoc False by (auto simp: sorted_append)
  qed
qed simp

section \<open>The run on the small network\<close>

lemma exampleShards [simp]: "sorted_list_of_set {0, MetachainShardId} = [0, MetachainShardId]"
  "sorted_list_of_set {MetachainShardId, 0} = [0, MetachainShardId]" "MetachainShardId \<noteq> 0" "0 \<noteq> MetachainShardId"
  by (simp_all add: MetachainShardId_def)

lemmas shuffler_eval = shuffleArgs_def updateShufflerConfig_def exampleShuffler_def exampleArgs_def
  createListsForAllShards_def shardIds_def removeLeavingNodesNotExistingInEligibleOrWaiting_def
  capNumToRemove_def exampleOrders_def removeLeavingNodesFromValidatorMaps_def removeNodesFromMap_def
  sortKeys_def removeNodesFromShard_def removeValidatorsFromList_def nodesIn_def removeDupplicates_def
  exampleValidator_def removeValidatorFromList_def shuffleOutNodes_def shuffleOutShard_def
  shuffleList_def moveMaxNumNodesToMap_def computeNeededNodes_def Let_def
  computeNumToRemove_def computeNumToRemovePerShard_def

lemma exampleFirst: "removeAndMove (\<lambda>x. x) exampleOrders (shuffleArgs (updateShufflerConfig exampleShuffler 5) exampleArgs) =
  Inr ([0 \<mapsto> [exampleValidator ''a'', exampleValidator ''c''], MetachainShardId \<mapsto> [exampleValidator ''n'']],
       [0 \<mapsto> [], MetachainShardId \<mapsto> []], [0 \<mapsto> [], MetachainShardId \<mapsto> [exampleValidator ''m'']], [])"
  by (simp add: removeAndMove_def fst_searchInMap shuffler_eval)

lemma exampleRun: "UpdateNodeLists (\<lambda>x. x) exampleOrders exampleShuffler exampleArgs =
    (updateShufflerConfig exampleShuffler 5, Inr exampleResult)"
proof -
  have "shuffleNodes (\<lambda>x. x) exampleOrders (shuffleArgs (updateShufflerConfig exampleShuffler 5) exampleArgs)
      = Inr exampleResult"
    unfolding shuffleNodes_def exampleFirst
    by (simp add: shuffler_eval exampleResult_def distributeAll_def checkAndDistributeNewNodes_def
      distributeValidators_def DistributeValidators_def CrossShard_DistributeValidators_def
      shouldDistributeShuffledToWaitingInStakingV4_def equalizeValidatorsLists_def getMaxListSize_def)
  moreover have "auEpoch exampleArgs = 5" by (simp add: exampleArgs_def)
  moreover have "nodesShard (updateShufflerConfig exampleShuffler 5) + shardHysteresis (updateShufflerConfig exampleShuffler 5) \<noteq> 0"
    by (simp add: exampleShuffler_def)
  ultimately show ?thesis
    using computeNewShards_ok [of "updateShufflerConfig exampleShuffler 5"]
    by (simp add: UpdateNodeLists_shuffleNodes Let_def split: sum.split) (metis Inl_Inr_False)
qed

lemma example_hyps:
  "fewShards (shuffleArgs (updateShufflerConfig exampleShuffler 5) exampleArgs)"
  "distinctPks (nodesIn (auEligible exampleArgs))" "noCollision (\<lambda>x. x) r K"
  "noCollisions (\<lambda>x. x) (shuffleArgs (updateShufflerConfig exampleShuffler 5) exampleArgs)"
  "auEpoch exampleArgs = 5"
  "shardSize (shuffleArgs (updateShufflerConfig exampleShuffler 5) exampleArgs) 0 = Some 2"
  "enoughNodes (shuffleArgs (updateShufflerConfig exampleShuffler 5) exampleArgs)"
  subgoal
  proof -
    let ?arg = "shuffleArgs (updateShufflerConfig exampleShuffler 5) exampleArgs"
    have "7 \<notin> dom (snWaiting ?arg) \<union> {s. s < snNbShards ?arg} \<union> {MetachainShardId}"
      by (simp add: shuffleArgs_def exampleArgs_def MetachainShardId_def)
    then show ?thesis unfolding fewShards_def by (metis UNIV_I)
  qed
  subgoal by (auto simp: exampleArgs_def nodesIn_def distinctPks_def exampleValidator_def)
  subgoal by (simp add: noCollision_def inj_on_def)
  subgoal by (simp add: noCollisions_def noCollision_def inj_on_def)
  subgoal by (simp add: exampleArgs_def)
  subgoal by (simp add: shardSize_def shuffler_eval)
  subgoal by (auto simp: enoughNodes_def shardTotal_def shardSize_def shuffler_eval split: if_splits)
  done

lemma example_flags:
  "snFlagStakingV4Step2 (shuffleArgs (updateShufflerConfig exampleShuffler 5) exampleArgs) = False"
  "snFlagStakingV4Step3 (shuffleArgs (updateShufflerConfig exampleShuffler 5) exampleArgs) = False"
  "snEligible (shuffleArgs (updateShufflerConfig exampleShuffler 5) exampleArgs) = auEligible exampleArgs"
  "snMaxNodesToSwapPerShard (shuffleArgs (updateShufflerConfig exampleShuffler 5) exampleArgs) = 1"
  "shardTotal (shuffleArgs (updateShufflerConfig exampleShuffler 5) exampleArgs) 0 = 3"
  "nodesShard exampleShuffler + shardHysteresis exampleShuffler \<noteq> 0"
  by (simp_all add: shardTotal_def shuffler_eval)

lemma exampleBalance:
  "distributeValidators (\<lambda>x. x) (exampleOrders MaxSizeAuction)
     [0 \<mapsto> [exampleValidator ''a''], MetachainShardId \<mapsto> []]
     [exampleValidator ''z'', exampleValidator ''x'', exampleValidator ''y''] ''r'' True
   = Inr [0 \<mapsto> [exampleValidator ''a'', exampleValidator ''y''],
          MetachainShardId \<mapsto> [exampleValidator ''x'', exampleValidator ''z'']]"
  by (simp add: shuffler_eval distributeValidators_def equalizeValidatorsLists_def getMaxListSize_def)

lemma exampleBalance_hyps:
  "dom [0 \<mapsto> vs, MetachainShardId \<mapsto> ws] \<noteq> UNIV"
  "maxListSize [0 \<mapsto> [v], MetachainShardId \<mapsto> []] = 1"
  "sortKeys [0 \<mapsto> vs, MetachainShardId \<mapsto> ws] = [0, MetachainShardId]"
proof -
  have "(7 :: u32) \<notin> dom [0 \<mapsto> vs, MetachainShardId \<mapsto> ws]" by (simp add: MetachainShardId_def)
  then show "dom [0 \<mapsto> vs, MetachainShardId \<mapsto> ws] \<noteq> UNIV" by (metis UNIV_I)
qed (simp_all add: maxListSize_def sortKeys_def)

section \<open>Claims\<close>

text \<open>
  C6. A successful run of the shuffler loses and doubles nobody: the eligible and the waiting
  nodes, the shuffled out ones when they go to the auction, and the nodes that left are together
  the nodes that were eligible or waiting, the new ones and, when they are admitted, the selected
  ones of the auction.
\<close>

theorem UpdateNodeLists_conserves:
  assumes "goRanges orders" and "arg = shuffleArgs (updateShufflerConfig rhs (auEpoch args)) args"
    and "fewShards arg" and "UpdateNodeLists sha orders rhs args = (rhs', Inr res)"
    and "distinctPks (nodesIn (snEligible arg))" and "noCollisions sha arg"
    and "low = lowWaiting arg (size (network arg) - size (departed arg res))"
  shows "nodesIn (resEligible res) + nodesIn (resWaiting res)
       + (if \<not> snFlagStakingV4Step2 arg \<or> low then {#} else nodesIn (resShuffledOut res))
       + departed arg res
     = nodesIn (auEligible args) + nodesIn (auWaiting args) + pks (auNewNodes args)
       + (if snFlagStakingV4Step3 arg \<or> low then pks (auAuction args) else {#})"
proof -
  obtain W SO low' where s: "firstHalf sha arg (resEligible res) W SO (resStillRemaining res)"
    "departed arg res + pks (resStillRemaining res)
        = filter_mset (\<lambda>pk. pk \<in># network arg) (allLeaving arg)"
    "snFlagStakingV4Step2 arg \<and> \<not> low' \<longrightarrow> resShuffledOut res = SO"
    "low' = lowWaiting arg (size (nodesIn (resEligible res) + nodesIn W + nodesIn SO))"
    "nodesIn (resWaiting res) = nodesIn W + pks (snNewNodes arg)
         + (if snFlagStakingV4Step3 arg \<or> low' then pks (snAuction arg) else {#})
         + (if \<not> snFlagStakingV4Step2 arg \<or> low' then nodesIn SO else {#})"
    using UpdateNodeLists_success [OF assms(1-6)] by blast
  have "(nodesIn (resEligible res) + nodesIn W + nodesIn SO + departed arg res) + pks (resStillRemaining res)
      = network arg + pks (resStillRemaining res)"
    using s(1) unfolding firstHalf_def s(2) [symmetric] by (simp add: add_ac)
  then have all: "nodesIn (resEligible res) + nodesIn W + nodesIn SO + departed arg res = network arg"
    by simp
  then have "size (network arg) - size (departed arg res)
      = size (nodesIn (resEligible res) + nodesIn W + nodesIn SO)"
    by (metis add_diff_cancel_right' size_union)
  then have low: "low' = low" using s(4) assms(7) by simp
  have args: "nodesIn (auEligible args) + nodesIn (auWaiting args) = network arg"
    "auNewNodes args = snNewNodes arg" "auAuction args = snAuction arg"
    by (simp_all add: assms(2) network_def shuffleArgs_def)
  show ?thesis unfolding args all [symmetric] using s(3,5) low by (auto simp: add_ac)
qed

theorem UpdateNodeLists_conserves_witness:
  "snd (UpdateNodeLists (\<lambda>x. x) exampleOrders exampleShuffler exampleArgs) = Inr exampleResult \<and>
   nodesIn (resEligible exampleResult) + nodesIn (resWaiting exampleResult)
     + departed (shuffleArgs (updateShufflerConfig exampleShuffler 5) exampleArgs) exampleResult
   = nodesIn (auEligible exampleArgs) + nodesIn (auWaiting exampleArgs) + pks (auNewNodes exampleArgs)"
  using UpdateNodeLists_conserves [OF _ HOL.refl _ exampleRun _ _ HOL.refl]
  by (simp add: example_hyps exampleRun example_flags lowWaiting_def)

text \<open>
  C34. The shuffler fails in exactly two cases: a shard has fewer eligible and waiting nodes than
  it needs, or there are new nodes although staking v4 no longer admits any; each gives its error.
  Otherwise it returns new lists.
\<close>

theorem UpdateNodeLists_outcome:
  assumes "goRanges orders" and "arg = shuffleArgs (updateShufflerConfig rhs (auEpoch args)) args"
    and "fewShards arg" and "nodesShard rhs + shardHysteresis rhs \<noteq> 0"
  shows "if \<not> enoughNodes arg
      then \<exists>s. snd (UpdateNodeLists sha orders rhs args) = Inl (ErrSmallShardEligibleListSize s)
      else if snFlagStakingV4Step3 arg \<and> auNewNodes args \<noteq> []
      then snd (UpdateNodeLists sha orders rhs args)
             = Inl (Wrapped ''distributeValidators newNodes failed'' ErrReceivedNewListNodeInStakingV4)
      else \<exists>res. snd (UpdateNodeLists sha orders rhs args) = Inr res"
proof -
  let ?rhs = "updateShufflerConfig rhs (auEpoch args)"
  obtain n where "computeNewShards ?rhs (orders ComputeNewShards) (auEligible args) (auWaiting args)
      (int (length (auNewNodes args)))
      (int (length (removeDupplicates (auUnStakeLeaving args) (auAdditionalLeaving args)))
        + int (length (auUnStakeLeaving args))) (auNbShards args) = Inr n"
    using computeNewShards_ok [of ?rhs] assms(4) by fastforce
  then have sh: "snd (UpdateNodeLists sha orders rhs args) = shuffleNodes sha orders arg"
    unfolding UpdateNodeLists_shuffleNodes [OF assms(1)] assms(2) by (simp add: Let_def)
  have new: "auNewNodes args = snNewNodes arg" by (simp add: assms(2) shuffleArgs_def)
  consider "\<not> enoughNodes arg" | "enoughNodes arg" "snFlagStakingV4Step3 arg \<and> snNewNodes arg \<noteq> []"
    | "enoughNodes arg" "\<not> (snFlagStakingV4Step3 arg \<and> snNewNodes arg \<noteq> [])" by blast
  then show ?thesis
  proof cases
    case 1
    then show ?thesis using shuffleNodes_small [OF assms(1) 1, of sha] by (simp add: sh)
  next
    case 2
    then show ?thesis using shuffleNodes_new_refused [OF assms(1) _ assms(3)] by (simp add: sh new)
  next
    case 3
    then show ?thesis
      unfolding sh new if_not_P [OF 3(2)] using shuffleNodes_ok [OF assms(1) 3(1) assms(3) 3(2), of sha] by auto
  qed
qed

theorem UpdateNodeLists_outcome_witness:
  "\<exists>res. snd (UpdateNodeLists (\<lambda>x. x) exampleOrders exampleShuffler exampleArgs) = Inr res"
  using UpdateNodeLists_outcome [of exampleOrders _ exampleShuffler exampleArgs "\<lambda>x. x", OF _ HOL.refl]
  by (simp add: example_hyps example_flags)

text \<open>
  C35. After a successful run every shard has at least as many eligible nodes as it needs, and no
  more unless it already had more; a shard with at most as many as it needs has exactly these.
\<close>

theorem UpdateNodeLists_eligible_size:
  assumes "goRanges orders" and "arg = shuffleArgs (updateShufflerConfig rhs (auEpoch args)) args"
    and "fewShards arg" and "UpdateNodeLists sha orders rhs args = (rhs', Inr res)"
    and "distinctPks (nodesIn (snEligible arg))" and "noCollisions sha arg"
    and "shardSize arg s = Some n" and "shardTotal arg s < 2 ^ 32"
  shows "unat n \<le> length (listOf (resEligible res) s) \<and>
    length (listOf (resEligible res) s) \<le> max (unat n) (length (listOf (auEligible args) s))"
proof -
  have "snEligible arg = auEligible args" by (simp add: assms(2) shuffleArgs_def)
  then show ?thesis using UpdateNodeLists_success [OF assms(1-6)] assms(7,8)
    unfolding firstHalf_def by auto
qed

theorem UpdateNodeLists_eligible_size_witness:
  "2 \<le> length (listOf (resEligible exampleResult) 0) \<and>
   length (listOf (resEligible exampleResult) 0) \<le> max 2 (length (listOf (auEligible exampleArgs) 0))"
  using UpdateNodeLists_eligible_size [OF _ HOL.refl _ exampleRun, of 0 2]
  by (simp add: example_hyps example_flags)

text \<open>
  In one epoch at most as many of the nodes of a shard disappear from its lists, by leaving or by being
  shuffled out, as the configuration allows and as the shard can spare.
\<close>

lemma UpdateNodeLists_churn:
  assumes "goRanges orders" and "arg = shuffleArgs (updateShufflerConfig rhs (auEpoch args)) args"
    and "fewShards arg" and "UpdateNodeLists sha orders rhs args = (rhs', Inr res)"
    and "distinctPks (nodesIn (snEligible arg))" and "noCollisions sha arg"
  shows "int (size (pks (listOf (auEligible args) s) + pks (listOf (auWaiting args) s)
        - (pks (listOf (resEligible res) s) + pks (listOf (resWaiting res) s)))) \<le> maxLeaving arg s"
proof -
  have eq: "auEligible args = snEligible arg" "auWaiting args = snWaiting arg"
    by (simp_all add: assms(2) shuffleArgs_def)
  let ?old = "pks (listOf (snEligible arg) s) + pks (listOf (snWaiting arg) s)"
  obtain W where W: "pks (listOf (resEligible res) s) + pks (listOf W s) \<subseteq># ?old"
    "int (shardTotal arg s) - maxLeaving arg s
      \<le> int (length (listOf (resEligible res) s) + length (listOf W s))"
    "pks (listOf W s) \<subseteq># pks (listOf (resWaiting res) s)"
    using UpdateNodeLists_success [OF assms(1-6)] unfolding firstHalf_def by blast
  have "?old - (pks (listOf (resEligible res) s) + pks (listOf (resWaiting res) s))
      \<subseteq># ?old - (pks (listOf (resEligible res) s) + pks (listOf W s))"
    using W(3) by (simp add: subseteq_mset_def diff_le_mono2)
  then have "size (?old - (pks (listOf (resEligible res) s) + pks (listOf (resWaiting res) s)))
      \<le> size (?old - (pks (listOf (resEligible res) s) + pks (listOf W s)))"
    by (rule size_mset_mono)
  also have "\<dots> = shardTotal arg s - (length (listOf (resEligible res) s) + length (listOf W s))"
    using W(1) by (simp add: size_Diff_submset shardTotal_def)
  finally show ?thesis using W(2) size_mset_mono [OF W(1)] unfolding eq by (simp add: shardTotal_def)
qed


text \<open>
  C16. Two nodes that run the shuffler on the same arguments get the same lists, in whatever order
  Go ranges over their maps.
\<close>

theorem UpdateNodeLists_deterministic:
  assumes "goRanges orders" and "goRanges orders'"
    and "distinctPks (nodesIn (auEligible args))"
    and "noCollision sha (auRand args) (set_mset (nodesIn (auEligible args)))"
  shows "UpdateNodeLists sha orders rhs args = UpdateNodeLists sha orders' rhs args"
proof -
  let ?arg = "shuffleArgs (updateShufflerConfig rhs (auEpoch args)) args"
  have "shuffleNodes sha orders ?arg = shuffleNodes sha orders' ?arg"
    using assms by (intro shuffleNodes_range) (simp_all add: shuffleArgs_def)
  then show ?thesis
    unfolding UpdateNodeLists_shuffleNodes [OF assms(1)] UpdateNodeLists_shuffleNodes [OF assms(2)]
    by (simp only: Let_def computeNewShards_range
        [OF assms(1) [rule_format, of ComputeNewShards] assms(2) [rule_format, of ComputeNewShards]])
qed

theorem UpdateNodeLists_deterministic_witness:
  "UpdateNodeLists (\<lambda>x. x) exampleReversed exampleShuffler exampleArgs
   = (updateShufflerConfig exampleShuffler 5, Inr exampleResult)"
  using UpdateNodeLists_deterministic [of exampleReversed exampleOrders exampleArgs "\<lambda>x. x" exampleShuffler]
  by (simp add: example_hyps exampleRun)

text \<open>
  When the lists are to be balanced and there are enough validators to bring every waiting list to
  the length of the longest, the lists that result differ in length by at most one.
\<close>

lemma distributeValidators_balances:
  assumes "goRange order" and "distributeValidators sha order dest vs rand True = Inr dest'"
    and "dom dest \<noteq> UNIV" and "length vs \<le> 2 ^ 32"
    and "(\<Sum>s\<leftarrow>sortKeys dest. maxListSize dest - length (listOf dest s)) \<le> length vs"
    and "s \<in> dom dest" and "t \<in> dom dest"
  shows "\<bar>int (length (listOf dest' s)) - int (length (listOf dest' t))\<bar> \<le> 1"
  using distributeValidators_balanced [OF assms(1-7)] distributeValidators_balanced [OF assms(1-5) assms(7,6)]
  by linarith


text \<open>
  Every node that asks to leave is reported once, as leaving or as still remaining: the unstaked
  ones and, of the additional ones, those that do not unstake already; only nodes that are
  eligible or waiting are held back.
\<close>

lemma UpdateNodeLists_leaving:
  assumes "goRanges orders" and "arg = shuffleArgs (updateShufflerConfig rhs (auEpoch args)) args"
    and "fewShards arg" and "UpdateNodeLists sha orders rhs args = (rhs', Inr res)"
    and "distinctPks (nodesIn (snEligible arg))" and "noCollisions sha arg"
  shows "pks (resLeaving res) + pks (resStillRemaining res) = pks (auUnStakeLeaving args)
      + filter_mset (\<lambda>pk. pk \<notin># pks (auUnStakeLeaving args)) (pks (auAdditionalLeaving args)) \<and>
    set_mset (pks (resStillRemaining res))
      \<subseteq> set_mset (nodesIn (auEligible args) + nodesIn (auWaiting args))"
proof -
  have all: "allLeaving arg = pks (auUnStakeLeaving args)
      + filter_mset (\<lambda>pk. pk \<notin># pks (auUnStakeLeaving args)) (pks (auAdditionalLeaving args))"
    and net: "network arg = nodesIn (auEligible args) + nodesIn (auWaiting args)"
    by (simp_all add: assms(2) allLeaving_def network_def shuffleArgs_def removeDupplicates_pks del: set_pks)
  have sub: "pks (resStillRemaining res) \<subseteq># filter_mset (\<lambda>pk. pk \<in># network arg) (allLeaving arg)"
    using UpdateNodeLists_success [OF assms(1-6)] unfolding firstHalf_def by blast
  then have "pks (resStillRemaining res) \<subseteq># allLeaving arg"
    by (meson multiset_filter_subset subset_mset.order_trans)
  moreover have "pks (resLeaving res) = allLeaving arg - pks (resStillRemaining res)"
    using UpdateNodeLists_res [OF assms(1,4)] unfolding assms(2) [symmetric] by (rule shuffleNodes_leaving)
  ultimately have "pks (resLeaving res) + pks (resStillRemaining res) = allLeaving arg" by simp
  moreover have "set_mset (pks (resStillRemaining res)) \<subseteq> set_mset (network arg)"
    using set_mset_mono [OF sub] by auto
  ultimately show ?thesis unfolding all net by blast
qed


text \<open>
  A new shuffler uses, in every epoch in which a configuration is enabled, one of those whose
  enable epoch is the latest that has been reached.
\<close>

lemma shuffler_uses_latest_config:
  assumes "NewHashValidatorsShuffler check (Some a) = Inr rhs"
    and "\<exists>c\<in>set (argMaxNodesEnableConfig a). EpochEnable c \<le> epoch"
  shows "activeNodesConfig (updateShufflerConfig rhs epoch)
      \<in> {c \<in> set (argMaxNodesEnableConfig a). EpochEnable c \<le> epoch \<and>
           (\<forall>c'\<in>set (argMaxNodesEnableConfig a). EpochEnable c' \<le> epoch \<longrightarrow> EpochEnable c' \<le> EpochEnable c)}"
proof -
  have "availableNodesConfigs rhs = sort_key EpochEnable (argMaxNodesEnableConfig a)"
    using assms(1)
    by (auto simp: NewHashValidatorsShuffler_def sortConfigs_def UpdateParams_def Let_def split: option.splits)
  then show ?thesis
    using fold_enabled [of "sort_key EpochEnable (argMaxNodesEnableConfig a)" epoch] assms(2)
    by (simp add: updateShufflerConfig_def)
qed


end
