(* ===== verification/ConsensusSelection.thy ===== *)
theory ConsensusSelection
  imports Prelude
begin

text \<open>
  The selection of a consensus group by weight: \<^verbatim>\<open>selectionBasedProvider.go\<close>, \<^verbatim>\<open>expandedListSampling.go\<close> and
  \<^verbatim>\<open>common.go\<close> of \<^verbatim>\<open>src/sharding/nodesCoordinator\<close>.

  A selector holds the list of the indexes of the validators in which every index appears as often as its weight. A validator is drawn by a
  hash modulo the number of the entries that are left; instead of cutting the entries of a chosen validator out of the list, the
  provider keeps where they are and shifts the number that was drawn past them. Positions and counts are at most the length of
  the list, which is an \<^verbatim>\<open>int\<close> in Go, and are natural numbers here. The hasher is a parameter.
\<close>

section \<open>The provider\<close>

datatype selectionError =
    ErrNilRandomness
  | ErrInvalidSampleSize
  | ErrNilWeights
  | ErrNilHasher
  | ErrInvalidWeight
  | SelectionPanic string

record validatorEntry =
  startIndex :: nat
  numAppearances :: nat

record selectionBasedProvider =
  sbpHasher :: "bytes \<Rightarrow> bytes"
  sortedSlice :: "validatorEntry list"
  sbpSize :: nat

definition NewSelectionBasedProvider :: "(bytes \<Rightarrow> bytes) \<Rightarrow> selectionBasedProvider" where
  "NewSelectionBasedProvider hasher = \<lparr>sbpHasher = hasher, sortedSlice = [], sbpSize = 0\<rparr>"

text \<open>The two loops of \<^verbatim>\<open>computeStartIndexAndNumAppearancesForValidator\<close>, downwards from before and upwards from behind the index.\<close>

fun startIdxLoop :: "u32 list \<Rightarrow> u32 \<Rightarrow> nat \<Rightarrow> nat" where
  "startIdxLoop l val 0 = 0"
| "startIdxLoop l val (Suc i) = (if l ! i \<noteq> val then Suc i else startIdxLoop l val i)"

function endIdxLoop :: "u32 list \<Rightarrow> u32 \<Rightarrow> nat \<Rightarrow> nat" where
  "endIdxLoop l val i =
     (if i < length l then (if l ! i \<noteq> val then i - 1 else endIdxLoop l val (i + 1)) else length l - 1)"
  by pat_completeness auto

termination by (relation "measure (\<lambda>(l, val, i). length l - i)") auto

declare endIdxLoop.simps [simp del]

definition computeStartIndexAndNumAppearancesForValidator :: "u32 list \<Rightarrow> nat \<Rightarrow> nat \<times> nat" where
  "computeStartIndexAndNumAppearancesForValidator expEligibleList idx =
     (let val = expEligibleList ! idx;
          startIdx = startIdxLoop expEligibleList val idx;
          endIdx = endIdxLoop expEligibleList val (idx + 1)
      in (startIdx, endIdx - startIdx + 1))"

fun insertEntry :: "validatorEntry \<Rightarrow> validatorEntry list \<Rightarrow> validatorEntry list" where
  "insertEntry ve [] = [ve]"
| "insertEntry ve (e # es) = (if startIndex e \<ge> startIndex ve then ve # e # es else e # insertEntry ve es)"

definition addToSortedSlice :: "validatorEntry \<Rightarrow> selectionBasedProvider \<Rightarrow> selectionBasedProvider" where
  "addToSortedSlice ve sbp =
     sbp\<lparr>sbpSize := sbpSize sbp + numAppearances ve, sortedSlice := insertEntry ve (sortedSlice sbp)\<rparr>"

definition sbpAdd :: "u32 list \<Rightarrow> nat \<Rightarrow> selectionBasedProvider \<Rightarrow> selectionBasedProvider" where
  "sbpAdd expElList index sbp =
     (case computeStartIndexAndNumAppearancesForValidator expElList index of
        (startIdx, num) \<Rightarrow> addToSortedSlice \<lparr>startIndex = startIdx, numAppearances = num\<rparr> sbp)"

definition putUint64 :: "nat \<Rightarrow> bytes" where
  "putUint64 n = map (\<lambda>k. char_of (n div 256 ^ (7 - k))) [0..<8]"

definition computeRandomnessAsUint64 :: "(bytes \<Rightarrow> bytes) \<Rightarrow> bytes \<Rightarrow> nat \<Rightarrow> selectionError + u64" where
  "computeRandomnessAsUint64 hasher randomness index =
     (let indexHash = hasher (putUint64 index @ randomness)
      in if length indexHash < 8 then Inl (SelectionPanic ''index out of range'')
         else Inr (bigUint64 (setBytes (take 8 indexHash))))"

fun adjustIndex :: "validatorEntry list \<Rightarrow> nat \<Rightarrow> nat" where
  "adjustIndex [] index = index"
| "adjustIndex (entry # es) index =
     (if startIndex entry > index then index else adjustIndex es (index + numAppearances entry))"

definition sbpClean :: "selectionBasedProvider \<Rightarrow> selectionBasedProvider" where
  "sbpClean sbp = sbp\<lparr>sbpSize := 0, sortedSlice := []\<rparr>"

text \<open>The loop of \<^verbatim>\<open>Get\<close>: \<open>n\<close> turns are left, the next one is turn \<open>i\<close>.\<close>

fun getLoop :: "bytes \<Rightarrow> u32 list \<Rightarrow> nat \<Rightarrow> nat \<Rightarrow> selectionBasedProvider \<Rightarrow> u32 list \<Rightarrow> (selectionError + u32 list) \<times> selectionBasedProvider" where
  "getLoop randomness l 0 i sbp validators = (Inr validators, sbp)"
| "getLoop randomness l (Suc n) i sbp validators =
     (case computeRandomnessAsUint64 (sbpHasher sbp) randomness i of
        Inl e \<Rightarrow> (Inl e, sbp)
      | Inr newRandomness \<Rightarrow>
          if sbpSize sbp \<ge> length l then (Inl ErrInvalidSampleSize, sbp)
          else
            let index = adjustIndex (sortedSlice sbp) (unat newRandomness mod (length l - sbpSize sbp))
            in if index \<ge> length l then (Inl (SelectionPanic ''index out of range''), sbp)
               else getLoop randomness l n (i + 1) (sbpAdd l index sbp) (validators @ [l ! index]))"

definition sbpGet :: "bytes \<Rightarrow> int \<Rightarrow> u32 list \<Rightarrow> selectionBasedProvider \<Rightarrow> (selectionError + u32 list) \<times> selectionBasedProvider" where
  "sbpGet randomness numValidators expandedEligibleList sbp =
     (if length randomness = 0 then (Inl ErrNilRandomness, sbp)
      else if numValidators > int (length expandedEligibleList) then (Inl ErrInvalidSampleSize, sbp)
      else case getLoop randomness expandedEligibleList (nat numValidators) 0 sbp [] of
             (r, sbp') \<Rightarrow> (r, sbpClean sbp'))"

section \<open>The selector\<close>

record selectorExpandedList =
  expandedList :: "u32 list"
  selHasher :: "bytes \<Rightarrow> bytes"
  uniqueItems :: u32

fun expandListLoop :: "u32 list \<Rightarrow> nat \<Rightarrow> selectionError + u32 list" where
  "expandListLoop [] i = Inr []"
| "expandListLoop (w # ws) i =
     (if w < 1 then Inl ErrInvalidWeight
      else case expandListLoop ws (i + 1) of
             Inl e \<Rightarrow> Inl e
           | Inr l \<Rightarrow> Inr (replicate (unat w) (of_nat i) @ l))"

definition expandList :: "u32 list \<Rightarrow> selectionError + u32 list" where
  "expandList weightList = expandListLoop weightList 0"

definition NewSelectorExpandedList :: "u32 list \<Rightarrow> (bytes \<Rightarrow> bytes) option \<Rightarrow> selectionError + selectorExpandedList" where
  "NewSelectorExpandedList weightList hasher =
     (if length weightList = 0 then Inl ErrNilWeights
      else case hasher of
             None \<Rightarrow> Inl ErrNilHasher
           | Some h \<Rightarrow>
               case expandList weightList of
                 Inl e \<Rightarrow> Inl e
               | Inr l \<Rightarrow> Inr \<lparr>expandedList = l, selHasher = h, uniqueItems = of_nat (length weightList)\<rparr>)"

definition Select :: "selectorExpandedList \<Rightarrow> bytes \<Rightarrow> u32 \<Rightarrow> selectionError + u32 list" where
  "Select s randSeed sampleSize =
     (if length randSeed = 0 then Inl ErrNilRandomness
      else if sampleSize = 0 \<or> sampleSize > uniqueItems s then Inl ErrInvalidSampleSize
      else fst (sbpGet randSeed (int (unat sampleSize)) (expandedList s) (NewSelectionBasedProvider (selHasher s))))"

section \<open>Drawing with the chosen validators cut out\<close>

text \<open>The reference: the entries of a chosen validator are taken out of the list before the next one is drawn.\<close>

fun drawLoop :: "(nat \<Rightarrow> u64) \<Rightarrow> nat \<Rightarrow> nat \<Rightarrow> u32 list \<Rightarrow> u32 list" where
  "drawLoop rnd 0 i l = []"
| "drawLoop rnd (Suc n) i l =
     (let v = l ! (unat (rnd i) mod length l) in v # drawLoop rnd n (i + 1) (filter (\<lambda>x. x \<noteq> v) l))"

text \<open>The number that turn \<open>i\<close> draws.\<close>

definition drawn :: "(bytes \<Rightarrow> bytes) \<Rightarrow> bytes \<Rightarrow> nat \<Rightarrow> u64" where
  "drawn hasher randomness i = bigUint64 (setBytes (take 8 (hasher (putUint64 i @ randomness))))"

text \<open>The entries of the list at positions that no entry of the slice covers.\<close>

definition covers :: "validatorEntry \<Rightarrow> nat set" where
  "covers e = {startIndex e..<startIndex e + numAppearances e}"

definition covered :: "validatorEntry list \<Rightarrow> nat set" where
  "covered es = \<Union> (covers ` set es)"

text \<open>The slice is ordered, its entries are disjoint and lie between two positions.\<close>

fun slices :: "nat \<Rightarrow> validatorEntry list \<Rightarrow> nat \<Rightarrow> bool" where
  "slices lo [] hi \<longleftrightarrow> lo \<le> hi"
| "slices lo (e # es) hi \<longleftrightarrow> lo \<le> startIndex e \<and> numAppearances e \<noteq> 0 \<and> slices (startIndex e + numAppearances e) es hi"

lemma covered_simps [simp]: "covered [] = {}" "covered (e # es) = covers e \<union> covered es"
  by (simp_all add: covered_def)

lemma slices_le: "slices lo es hi \<Longrightarrow> lo \<le> hi"
proof (induction es arbitrary: lo)
  case (Cons e es)
  then have "startIndex e + numAppearances e \<le> hi" by simp
  with Cons.prems show ?case by simp
qed simp

lemma slices_covered: "slices lo es hi \<Longrightarrow> covered es \<subseteq> {lo..<hi}"
proof (induction es arbitrary: lo)
  case (Cons e es)
  then show ?case using slices_le [of "startIndex e + numAppearances e" es hi] by (fastforce simp: covers_def)
qed simp

lemma filter_upt_split:
  assumes "lo \<le> m" and "m \<le> hi"
  shows "filter P [lo..<hi] = filter P [lo..<m] @ filter P [m..<hi]"
  using upt_add_eq_append [OF assms(1), of "hi - m"] assms(2) by simp

text \<open>Shifting a number past the covered positions gives the position that the number has among the others.\<close>

lemma kept_split:
  assumes "slices lo (e # es) hi"
  shows "filter (\<lambda>p. p \<notin> covered (e # es)) [lo..<hi] =
    [lo..<startIndex e] @ filter (\<lambda>p. p \<notin> covered es) [startIndex e + numAppearances e..<hi]"
proof -
  let ?m = "startIndex e" and ?k = "startIndex e + numAppearances e"
  have s: "lo \<le> ?m" "?k \<le> hi" and es: "covered es \<subseteq> {?k..<hi}"
    using assms slices_le [of ?k es hi] slices_covered [of ?k es hi] by auto
  have "filter (\<lambda>p. p \<notin> covered (e # es)) [lo..<?m] = [lo..<?m]"
    using es by (intro filter_True) (auto simp: covers_def)
  moreover have "filter (\<lambda>p. p \<notin> covered (e # es)) [?m..<?k] = []"
    by (auto simp: filter_empty_conv covers_def)
  moreover have "filter (\<lambda>p. p \<notin> covered (e # es)) [?k..<hi] = filter (\<lambda>p. p \<notin> covered es) [?k..<hi]"
    by (intro filter_cong) (auto simp: covers_def)
  ultimately show ?thesis
    using filter_upt_split [OF s(1), of hi "\<lambda>p. p \<notin> covered (e # es)"] filter_upt_split [of ?m ?k hi "\<lambda>p. p \<notin> covered (e # es)"] s by simp
qed

lemma adjustIndex_kept:
  assumes "slices lo es hi" and "i < length (filter (\<lambda>p. p \<notin> covered es) [lo..<hi])"
  shows "adjustIndex es (lo + i) = filter (\<lambda>p. p \<notin> covered es) [lo..<hi] ! i"
  using assms
proof (induction es arbitrary: lo i)
  case (Cons e es)
  let ?k = "startIndex e + numAppearances e"
  note split = kept_split [OF Cons.prems(1)]
  show ?case
  proof (cases "startIndex e > lo + i")
    case True
    moreover from True have "i < startIndex e - lo" by simp
    ultimately show ?thesis unfolding split by (simp add: nth_append)
  next
    case False
    then have i: "lo + i + numAppearances e = ?k + (i - (startIndex e - lo))" "startIndex e - lo \<le> i"
      using Cons.prems(1) by simp_all
    have "i - (startIndex e - lo) < length (filter (\<lambda>p. p \<notin> covered es) [?k..<hi])"
      using Cons.prems(2) i(2) unfolding split by simp
    from Cons.IH [OF _ this] have "adjustIndex es (?k + (i - (startIndex e - lo))) = filter (\<lambda>p. p \<notin> covered es) [?k..<hi] ! (i - (startIndex e - lo))"
      using Cons.prems(1) by simp
    moreover have "([lo..<startIndex e] @ filter (\<lambda>p. p \<notin> covered es) [?k..<hi]) ! i = filter (\<lambda>p. p \<notin> covered es) [?k..<hi] ! (i - (startIndex e - lo))"
      using i(2) by (simp add: nth_append)
    moreover have "adjustIndex (e # es) (lo + i) = adjustIndex es (lo + i + numAppearances e)" using False by simp
    ultimately show ?thesis unfolding split i(1) by simp
  qed
qed simp

lemma insertEntry_covered: "covered (insertEntry ve es) = covers ve \<union> covered es"
  by (induction es) auto

lemma insertEntry_slices:
  assumes "slices lo es hi" and "covers ve \<inter> covered es = {}" and "lo \<le> startIndex ve"
    and "startIndex ve + numAppearances ve \<le> hi" and "numAppearances ve \<noteq> 0"
  shows "slices lo (insertEntry ve es) hi"
  using assms
proof (induction es arbitrary: lo)
  case (Cons e es)
  have d: "covers ve \<inter> covers e = {}" "covers ve \<inter> covered es = {}" using Cons.prems(2) by auto
  have e: "startIndex e \<in> covers e" using Cons.prems(1) by (simp add: covers_def)
  have v: "startIndex ve \<in> covers ve" using Cons.prems(5) by (simp add: covers_def)
  show ?case
  proof (cases "startIndex ve \<le> startIndex e")
    case True
    then have "startIndex ve + numAppearances ve \<le> startIndex e" using d(1) e by (auto simp: covers_def)
    then show ?thesis using True Cons.prems by simp
  next
    case False
    then have "startIndex e + numAppearances e \<le> startIndex ve" using d(1) v by (auto simp: covers_def)
    then show ?thesis using False Cons d(2) by simp
  qed
qed simp

section \<open>The entries of one validator\<close>

lemma startIdxLoop_props:
  "startIdxLoop l v i \<le> i"
  "startIdxLoop l v i \<le> p \<Longrightarrow> p < i \<Longrightarrow> l ! p = v"
  "startIdxLoop l v i \<noteq> 0 \<Longrightarrow> l ! (startIdxLoop l v i - 1) \<noteq> v"
  by (induction i) (auto simp: less_Suc_eq split: if_splits)

lemma endIdxLoop_props:
  assumes "0 < i" and "i \<le> length l"
  shows "i - 1 \<le> endIdxLoop l v i \<and> endIdxLoop l v i < length l \<and> (\<forall>p. i \<le> p \<and> p \<le> endIdxLoop l v i \<longrightarrow> l ! p = v) \<and>
    (endIdxLoop l v i + 1 < length l \<longrightarrow> l ! (endIdxLoop l v i + 1) \<noteq> v)"
  using assms
proof (induction l v i rule: endIdxLoop.induct)
  case (1 l v i)
  show ?case
  proof (cases "i < length l \<and> l ! i = v")
    case True
    have eq: "endIdxLoop l v i = endIdxLoop l v (i + 1)" using True by (subst endIdxLoop.simps) simp
    have IH: "i \<le> endIdxLoop l v (i + 1) \<and> endIdxLoop l v (i + 1) < length l \<and>
        (\<forall>p. i + 1 \<le> p \<and> p \<le> endIdxLoop l v (i + 1) \<longrightarrow> l ! p = v) \<and>
        (endIdxLoop l v (i + 1) + 1 < length l \<longrightarrow> l ! (endIdxLoop l v (i + 1) + 1) \<noteq> v)"
      using "1.IH" True by simp
    have "l ! p = v" if "i \<le> p" "p \<le> endIdxLoop l v (i + 1)" for p
      using that IH True by (cases "p = i") auto
    then show ?thesis using IH unfolding eq by auto
  next
    case False
    then have eq: "endIdxLoop l v i = i - 1" using "1.prems" by (subst endIdxLoop.simps) auto
    have "\<not> (i \<le> p \<and> p \<le> i - 1)" for p using "1.prems" by linarith
    then show ?thesis using False "1.prems" unfolding eq by auto
  qed
qed

lemma entries_of_validator:
  assumes "sorted l" and "idx < length l" and "computeStartIndexAndNumAppearancesForValidator l idx = (s, n)"
  shows "{s..<s + n} = {p. p < length l \<and> l ! p = l ! idx}" and "n \<noteq> 0"
proof -
  define v where "v = l ! idx"
  define e where "e = endIdxLoop l v (idx + 1)"
  have s: "s = startIdxLoop l v idx" and n: "n = e - s + 1"
    using assms(3) by (auto simp: computeStartIndexAndNumAppearancesForValidator_def v_def e_def Let_def)
  have e: "idx \<le> e" "e < length l" "\<And>p. idx + 1 \<le> p \<Longrightarrow> p \<le> e \<Longrightarrow> l ! p = v" "e + 1 < length l \<Longrightarrow> l ! (e + 1) \<noteq> v"
    using endIdxLoop_props [of "idx + 1" l v] assms(2) by (auto simp: e_def)
  note st = startIdxLoop_props [of l v idx, folded s]
  have inside: "l ! p = v" if "s \<le> p" "p \<le> e" for p
    using that st(2) [of p] e(3) [of p] by (cases p idx rule: linorder_cases) (auto simp: v_def)
  have below: "l ! p < v" if "p < s" for p
  proof -
    have "l ! p \<le> l ! (s - 1)" "l ! (s - 1) \<le> l ! s" using assms(1,2) that st(1) by (auto intro!: sorted_nth_mono)
    moreover have "l ! (s - 1) \<noteq> v" "l ! s = v" using that st(3) inside st(1) e(1) by auto
    ultimately show ?thesis by auto
  qed
  have above: "v < l ! p" if "e < p" "p < length l" for p
  proof -
    have "l ! e \<le> l ! (e + 1)" "l ! (e + 1) \<le> l ! p" using assms(1) that by (auto intro!: sorted_nth_mono)
    moreover have "l ! (e + 1) \<noteq> v" "l ! e = v" using that e(4) inside st(1) e(1) by auto
    ultimately show ?thesis by auto
  qed
  have se: "s + n = e + 1" using st(1) e(1) n by simp
  have "p \<in> {s..<s + n} \<longleftrightarrow> p \<in> {p. p < length l \<and> l ! p = v}" for p
  proof
    assume "p \<in> {s..<s + n}"
    then have "s \<le> p" "p \<le> e" using se by simp_all
    then show "p \<in> {p. p < length l \<and> l ! p = v}" using inside e(2) by simp
  next
    assume "p \<in> {p. p < length l \<and> l ! p = v}"
    then have "\<not> p < s" "\<not> e < p" using below [of p] above [of p] by auto
    then show "p \<in> {s..<s + n}" using se by simp
  qed
  then show "{s..<s + n} = {p. p < length l \<and> l ! p = l ! idx}" unfolding v_def by (rule set_eqI)
  show "n \<noteq> 0" by (simp add: n)
qed

section \<open>The provider draws like the reference\<close>

text \<open>What the provider knows after choosing the validators \<open>vs\<close>.\<close>

definition chosen :: "(bytes \<Rightarrow> bytes) \<Rightarrow> u32 list \<Rightarrow> u32 list \<Rightarrow> selectionBasedProvider \<Rightarrow> bool" where
  "chosen h l vs sbp \<longleftrightarrow> sbpHasher sbp = h \<and> slices 0 (sortedSlice sbp) (length l) \<and>
     covered (sortedSlice sbp) = {p. p < length l \<and> l ! p \<in> set vs} \<and> sbpSize sbp = card (covered (sortedSlice sbp))"

lemma kept_list:
  assumes "covered es = {p. p < length l \<and> l ! p \<in> set vs}"
  shows "map (nth l) (filter (\<lambda>p. p \<notin> covered es) [0..<length l]) = filter (\<lambda>x. x \<notin> set vs) l"
proof -
  have "filter (\<lambda>x. x \<notin> set vs) l = filter (\<lambda>x. x \<notin> set vs) (map (nth l) [0..<length l])" by (simp add: map_nth)
  also have "\<dots> = map (nth l) (filter (\<lambda>p. l ! p \<notin> set vs) [0..<length l])" by (simp add: filter_map comp_def)
  also have "filter (\<lambda>p. l ! p \<notin> set vs) [0..<length l] = filter (\<lambda>p. p \<notin> covered es) [0..<length l]"
    using assms by (intro filter_cong) auto
  finally show ?thesis by simp
qed

lemma chosen_size:
  assumes "chosen h l vs sbp"
  shows "length (filter (\<lambda>x. x \<notin> set vs) l) = length l - sbpSize sbp"
proof -
  have c: "covered (sortedSlice sbp) = {p. p < length l \<and> l ! p \<in> set vs}" using assms by (simp add: chosen_def)
  have "length (filter (\<lambda>x. x \<notin> set vs) l) = length (filter (\<lambda>p. p \<notin> covered (sortedSlice sbp)) [0..<length l])"
    using kept_list [OF c] by (metis length_map)
  also have "\<dots> = card ({0..<length l} - covered (sortedSlice sbp))"
    by (subst distinct_card [symmetric]) (auto intro!: arg_cong [where f = card])
  also have "\<dots> = length l - card (covered (sortedSlice sbp))"
    unfolding c by (subst card_Diff_subset) auto
  finally show ?thesis using assms by (simp add: chosen_def)
qed

lemma chosen_index:
  assumes "chosen h l vs sbp" and "i < length l - sbpSize sbp"
  shows "adjustIndex (sortedSlice sbp) i < length l"
    and "l ! adjustIndex (sortedSlice sbp) i = filter (\<lambda>x. x \<notin> set vs) l ! i"
proof -
  let ?K = "filter (\<lambda>p. p \<notin> covered (sortedSlice sbp)) [0..<length l]"
  have c: "covered (sortedSlice sbp) = {p. p < length l \<and> l ! p \<in> set vs}" and s: "slices 0 (sortedSlice sbp) (length l)"
    using assms(1) by (simp_all add: chosen_def)
  have len: "length ?K = length l - sbpSize sbp" using chosen_size [OF assms(1)] kept_list [OF c] by (metis length_map)
  then have a: "adjustIndex (sortedSlice sbp) i = ?K ! i" using adjustIndex_kept [OF s, of i] assms(2) by simp
  have "?K ! i \<in> set ?K" using assms(2) len by (intro nth_mem) simp
  then show "adjustIndex (sortedSlice sbp) i < length l" unfolding a by simp
  have "filter (\<lambda>x. x \<notin> set vs) l ! i = map (nth l) ?K ! i" using kept_list [OF c] by simp
  also have "\<dots> = l ! (?K ! i)" using assms(2) len by (subst nth_map) simp_all
  finally show "l ! adjustIndex (sortedSlice sbp) i = filter (\<lambda>x. x \<notin> set vs) l ! i" unfolding a by simp
qed

lemma chosen_add:
  assumes "sorted l" and "chosen h l vs sbp" and "index < length l" and "l ! index \<notin> set vs"
  shows "chosen h l (vs @ [l ! index]) (sbpAdd l index sbp)"
proof -
  obtain s n where sn: "computeStartIndexAndNumAppearancesForValidator l index = (s, n)" by force
  let ?ve = "\<lparr>startIndex = s, numAppearances = n\<rparr>"
  note b = entries_of_validator [OF assms(1,3) sn]
  have cv: "covers ?ve = {p. p < length l \<and> l ! p = l ! index}" using b(1) by (simp add: covers_def)
  have c: "covered (sortedSlice sbp) = {p. p < length l \<and> l ! p \<in> set vs}" using assms(2) by (simp add: chosen_def)
  have disj: "covers ?ve \<inter> covered (sortedSlice sbp) = {}" unfolding cv c using assms(4) by auto
  have "s + n - 1 \<in> {s..<s + n}" using b(2) by simp
  then have "s + n - 1 < length l" unfolding b(1) by simp
  with b(2) have "s + n \<le> length l" by simp
  then have "slices 0 (insertEntry ?ve (sortedSlice sbp)) (length l)"
    using assms(2) b(2) disj by (intro insertEntry_slices) (simp_all add: chosen_def)
  moreover have "card (covers ?ve \<union> covered (sortedSlice sbp)) = n + card (covered (sortedSlice sbp))"
    using disj c by (subst card_Un_disjoint) (auto simp: covers_def)
  ultimately show ?thesis
    using assms(2) unfolding chosen_def sbpAdd_def sn addToSortedSlice_def by (auto simp: insertEntry_covered cv c)
qed

lemma getLoop_draws:
  assumes "sorted l" and hash: "\<And>b. 8 \<le> length (h b)"
  shows "chosen h l vs sbp \<Longrightarrow> n \<le> card (set l - set vs) \<Longrightarrow>
    fst (getLoop randomness l n i sbp vs) = Inr (vs @ drawLoop (drawn h randomness) n i (filter (\<lambda>x. x \<notin> set vs) l))"
proof (induction n arbitrary: i sbp vs)
  case (Suc n)
  let ?F = "filter (\<lambda>x. x \<notin> set vs) l" and ?r = "drawn h randomness i"
  have "set ?F = set l - set vs" by auto
  with Suc.prems(2) have "set ?F \<noteq> {}" by (metis card.empty not_less_eq_eq le0)
  then have ne: "0 < length ?F" by (metis length_greater_0_conv list.set(1))
  have len: "length ?F = length l - sbpSize sbp" by (rule chosen_size [OF Suc.prems(1)])
  have idx: "unat ?r mod (length l - sbpSize sbp) < length l - sbpSize sbp" using ne len by simp
  define index where "index = adjustIndex (sortedSlice sbp) (unat ?r mod (length l - sbpSize sbp))"
  note index = chosen_index [OF Suc.prems(1) idx, folded index_def]
  have v: "l ! index \<in> set ?F" using index(2) idx len by (metis nth_mem)
  have F: "filter (\<lambda>x. x \<notin> set (vs @ [l ! index])) l = filter (\<lambda>x. x \<noteq> l ! index) ?F" by (auto intro: filter_cong)
  have "card (set l - set vs) = Suc (card (set l - set (vs @ [l ! index])))"
    using v card_Suc_Diff1 [of "set l - set vs" "l ! index"] by (simp add: Diff_insert [symmetric] insert_commute Un_commute flip: Diff_insert2)
  then have "n \<le> card (set l - set (vs @ [l ! index]))" using Suc.prems(2) by simp
  note IH = Suc.IH [OF chosen_add [OF assms(1) Suc.prems(1) index(1)] this]
  have rnd: "computeRandomnessAsUint64 (sbpHasher sbp) randomness i = Inr ?r"
    using Suc.prems(1) hash [of "putUint64 i @ randomness"] by (simp add: computeRandomnessAsUint64_def drawn_def chosen_def Let_def not_less)
  have step: "getLoop randomness l (Suc n) i sbp vs = getLoop randomness l n (i + 1) (sbpAdd l index sbp) (vs @ [l ! index])"
  proof -
    have "\<not> length l \<le> sbpSize sbp" "\<not> length l \<le> index" using ne len index(1) by linarith+
    then show ?thesis unfolding getLoop.simps rnd by (simp add: Let_def index_def)
  qed
  have "drawLoop (drawn h randomness) (Suc n) i ?F = l ! index # drawLoop (drawn h randomness) n (i + 1) (filter (\<lambda>x. x \<noteq> l ! index) ?F)"
    using index(2) len by (simp add: Let_def)
  then show ?case unfolding step using IH v F by simp
qed simp

section \<open>The expanded list\<close>

text \<open>The expanded list when all weights are positive.\<close>

fun expanded :: "u32 list \<Rightarrow> nat \<Rightarrow> u32 list" where
  "expanded [] i = []"
| "expanded (w # ws) i = replicate (unat w) (of_nat i) @ expanded ws (i + 1)"

lemma word_less_one: "(w :: u32) < 1 \<longleftrightarrow> w = 0"
  by (simp add: word_less_nat_alt unat_eq_0)

lemma expandListLoop_eq:
  "expandListLoop ws i = (if \<forall>w\<in>set ws. w \<noteq> 0 then Inr (expanded ws i) else Inl ErrInvalidWeight)"
  by (induction ws arbitrary: i) (auto simp: word_less_one)

lemma set_expanded_subset: "set (expanded ws i) \<subseteq> of_nat ` {i..<i + length ws}"
proof (induction ws arbitrary: i)
  case (Cons w ws)
  have "set (expanded (w # ws) i) \<subseteq> insert (of_nat i) (set (expanded ws (i + 1)))" by auto
  also have "\<dots> \<subseteq> insert (of_nat i) (of_nat ` {i + 1..<i + 1 + length ws})" using Cons by (intro insert_mono)
  also have "\<dots> = of_nat ` insert i {i + 1..<i + 1 + length ws}" by (rule image_insert [symmetric])
  also have "insert i {i + 1..<i + 1 + length ws} = {i..<i + length (w # ws)}" by auto
  finally show ?case .
qed simp

lemma set_expanded:
  assumes "\<forall>w\<in>set ws. w \<noteq> 0"
  shows "set (expanded ws i) = of_nat ` {i..<i + length ws}"
  using assms
proof (induction ws arbitrary: i)
  case (Cons w ws)
  have "unat w \<noteq> 0" using Cons.prems by (simp add: unat_eq_0)
  then have "set (expanded (w # ws) i) = insert (of_nat i) (set (expanded ws (i + 1)))" by simp
  also have "\<dots> = insert (of_nat i) (of_nat ` {i + 1..<i + 1 + length ws})" using Cons by (simp del: of_nat_add of_nat_Suc)
  also have "\<dots> = of_nat ` insert i {i + 1..<i + 1 + length ws}" by (rule image_insert [symmetric])
  also have "insert i {i + 1..<i + 1 + length ws} = {i..<i + length (w # ws)}" by auto
  finally show ?case .
qed simp

lemma of_nat_u32_le: "i \<le> j \<Longrightarrow> j < 2 ^ 32 \<Longrightarrow> (of_nat i :: u32) \<le> of_nat j"
  by (simp add: word_le_nat_alt unat_of_nat)

lemma of_nat_u32_inj: "inj_on (of_nat :: nat \<Rightarrow> u32) {0..<2 ^ 32}"
proof (rule inj_onI)
  fix a b :: nat
  assume "a \<in> {0..<2 ^ 32}" "b \<in> {0..<2 ^ 32}" "(of_nat a :: u32) = of_nat b"
  then have "unat (of_nat a :: u32) = unat (of_nat b :: u32)" "a < 2 ^ 32" "b < 2 ^ 32" by simp_all
  then show "a = b" by (simp add: unat_of_nat)
qed

lemma sorted_expanded:
  assumes "\<forall>w\<in>set ws. w \<noteq> 0" and "i + length ws \<le> 2 ^ 32"
  shows "sorted (expanded ws i)"
  using assms
proof (induction ws arbitrary: i)
  case (Cons w ws)
  have "of_nat i \<le> x" if x: "x \<in> set (expanded ws (i + 1))" for x
  proof -
    obtain j where "j \<in> {i + 1..<i + 1 + length ws}" "x = of_nat j" using x set_expanded [of ws "i + 1"] Cons.prems(1) by auto
    then show ?thesis using of_nat_u32_le [of i j] Cons.prems(2) by simp
  qed
  moreover have "sorted (expanded ws (i + 1))" using Cons by simp
  ultimately show ?case by (auto simp: sorted_append simp del: of_nat_Suc)
qed simp

lemma card_expanded:
  assumes "\<forall>w\<in>set ws. w \<noteq> 0" and "length ws \<le> 2 ^ 32"
  shows "card (set (expanded ws 0)) = length ws"
  unfolding set_expanded [OF assms(1)] using assms(2) by (subst card_image) (auto intro: inj_on_subset [OF of_nat_u32_inj])

text \<open>How many of the numbers that can be drawn first choose the validator \<open>j\<close>.\<close>

lemma count_expanded:
  assumes "i + length ws \<le> 2 ^ 32" and "j < length ws"
  shows "count_list (expanded ws i) (of_nat (i + j)) = unat (ws ! j)"
  using assms
proof (induction ws arbitrary: i j)
  case (Cons w ws)
  have none: "count_list (expanded ws (i + 1)) (of_nat i) = 0"
  proof -
    have "set (expanded ws (i + 1)) \<subseteq> of_nat ` {i + 1..<i + 1 + length ws}" by (rule set_expanded_subset)
    moreover have "of_nat i \<noteq> (of_nat k :: u32)" if "k \<in> {i + 1..<i + 1 + length ws}" for k
      using that Cons.prems(1) inj_onD [OF of_nat_u32_inj, of i k] by auto
    ultimately have "of_nat i \<notin> set (expanded ws (i + 1))" by blast
    then show ?thesis by (rule count_notin)
  qed
  have rep: "count_list (replicate n x) y = (if x = y then n else 0)" for n and x y :: u32
    by (induction n) auto
  show ?case
  proof (cases j)
    case 0
    then show ?thesis using none by (simp add: rep del: of_nat_Suc)
  next
    case (Suc k)
    have "of_nat i \<noteq> (of_nat (i + j) :: u32)" using Cons.prems Suc inj_onD [OF of_nat_u32_inj, of i "i + j"] by auto
    moreover have "count_list (expanded ws (i + 1)) (of_nat (i + 1 + k)) = unat (ws ! k)"
      using Cons.prems Suc by (intro Cons.IH) simp_all
    ultimately show ?thesis using Suc by (simp add: rep del: of_nat_Suc of_nat_add)
  qed
qed simp

section \<open>The selector\<close>

lemma drawLoop_props:
  "n \<le> card (set l) \<Longrightarrow> length (drawLoop rnd n i l) = n \<and> distinct (drawLoop rnd n i l) \<and> set (drawLoop rnd n i l) \<subseteq> set l"
proof (induction n arbitrary: i l)
  case (Suc n)
  define v where "v = l ! (unat (rnd i) mod length l)"
  have "l \<noteq> []" using Suc.prems by auto
  then have v: "v \<in> set l" by (simp add: v_def)
  have "set (filter (\<lambda>x. x \<noteq> v) l) = set l - {v}" by auto
  then have "n \<le> card (set (filter (\<lambda>x. x \<noteq> v) l))" using Suc.prems v by simp
  note IH = Suc.IH [OF this, of "i + 1"]
  then show ?case using v by (auto simp: Let_def v_def [symmetric])
qed simp

lemma chosen_start: "chosen h l [] (NewSelectionBasedProvider h)"
  by (simp add: chosen_def NewSelectionBasedProvider_def)

lemma NewSelectorExpandedList_ok:
  assumes "ws \<noteq> []" and "\<forall>w\<in>set ws. w \<noteq> 0"
  shows "NewSelectorExpandedList ws (Some h) =
    Inr \<lparr>expandedList = expanded ws 0, selHasher = h, uniqueItems = of_nat (length ws)\<rparr>"
  using assms by (simp add: NewSelectorExpandedList_def expandList_def expandListLoop_eq)

lemma Select_draws:
  assumes "NewSelectorExpandedList ws (Some h) = Inr s" and "length ws < 2 ^ 32" and hash: "\<And>b. 8 \<le> length (h b)"
    and "randSeed \<noteq> []" and "0 < k" and "k \<le> of_nat (length ws)"
  shows "Select s randSeed k = Inr (drawLoop (drawn h randSeed) (unat k) 0 (expanded ws 0))"
proof -
  have ws: "ws \<noteq> []" "\<forall>w\<in>set ws. w \<noteq> 0"
    using assms(1) by (auto simp: NewSelectorExpandedList_def expandList_def expandListLoop_eq split: if_splits)
  have s: "s = \<lparr>expandedList = expanded ws 0, selHasher = h, uniqueItems = of_nat (length ws)\<rparr>"
    using NewSelectorExpandedList_ok [OF ws] assms(1) by simp
  have k: "unat k \<le> length ws" using assms(2,6) by (simp add: word_le_nat_alt unat_of_nat)
  have c: "card (set (expanded ws 0)) = length ws" using card_expanded ws(2) assms(2) by simp
  have len: "unat k \<le> length (expanded ws 0)" using k c card_length [of "expanded ws 0"] by linarith
  then have len': "int (unat k) \<le> int (length (expanded ws 0))" by (simp only: of_nat_le_iff)
  have "fst (getLoop randSeed (expanded ws 0) (unat k) 0 (NewSelectionBasedProvider h) []) = Inr (drawLoop (drawn h randSeed) (unat k) 0 (expanded ws 0))"
    using getLoop_draws [OF _ hash chosen_start, of "expanded ws 0" "unat k" randSeed 0] sorted_expanded [OF ws(2), of 0] k c assms(2) by simp
  moreover have "\<not> k > of_nat (length ws)" using assms(6) by simp
  ultimately show ?thesis
    using assms(4,5) len' by (auto simp: Select_def s sbpGet_def split: prod.splits)
qed

end
