(* ===== verification/NodesCoordinator.thy ===== *)
theory NodesCoordinator
  imports ValidatorShuffler ConsensusSelection "HOL-Library.Product_Lexorder"
begin

text \<open>
  The nodes coordinator: \<^verbatim>\<open>indexHashedNodesCoordinator.go\<close>, its variant \<^verbatim>\<open>indexHashedNodesCoordinatorWithRater.go\<close>, \<^verbatim>\<open>indexHashedNodesCoordinatorLite.go\<close> and
  \<^verbatim>\<open>indexHashedNodesCoordinatorRegistry.go\<close> of \<^verbatim>\<open>src/sharding/nodesCoordinator\<close>.

  It keeps, for the last epochs, which validators are eligible and waiting in which shard, and chooses the consensus group of a
  round with the selector of the shard. At the start of an epoch it reads the list of all validators from a block, lets the shuffler compute the lists of the new
  epoch and installs them. A configuration is a Go pointer that is changed in place: an operation that fails after the
  change leaves the changed configuration in the map.

  The cache of consensus groups, the storer, the marshallers, the source of the information on validators and the epochs at which flags are enabled
  are fields of \<^verbatim>\<open>coordEnv\<close>. Every loop over a Go map whose effect depends on the order takes its order as an argument.
\<close>

section \<open>Data\<close>

datatype coordError =
    SelectionErr selectionError
  | ShufflerErr shufflerError
  | ErrNilPubKey
  | ErrNilInputNodesMap
  | ErrSmallMetachainEligibleListSize
  | ErrSmallShardEligibleList
  | ErrInvalidShardId
  | ErrEpochNodesConfigDoesNotExist u32
  | ErrNilRandomSelector
  | ErrNilRandomnessForGroup
  | ErrValidatorNotFound
  | ErrInvalidNumberPubKeys
  | ErrReceivedNewListInStakingV4
  | ErrReceivedAuctionValidatorsBeforeStakingV4
  | ErrMapSizeZero
  | ErrInvalidNumberOfShards
  | ErrInvalidConsensusGroupSize
  | ErrKeyNotFoundInWaitingList
  | ErrNilBlockBody
  | ErrWrongTypeAssertion
  | ErrInfo string
  | ErrStorer string
  | ErrMarshal string
  | ErrParseInt string
  | CoordPanic string

record shardValidatorInfo =
  viPublicKey :: "bytes option"
  viShardId :: shardID
  viList :: string
  viIndex :: u32
  viTempRating :: u32
  viPreviousList :: string
  viPreviousIndex :: u32

record epochNodesConfig =
  nbShards :: u32
  cfgShardID :: shardID
  eligibleMap :: nodesMap
  waitingMap :: nodesMap
  selectors :: "shardID \<rightharpoonup> selectorExpandedList"
  leavingMap :: nodesMap
  shuffledOutMap :: nodesMap
  newList :: "validator list"
  auctionList :: "validator list"
  lowWaitingList :: bool

definition emptyConfig :: epochNodesConfig where
  "emptyConfig = \<lparr>nbShards = 0, cfgShardID = 0, eligibleMap = Map.empty, waitingMap = Map.empty, selectors = Map.empty,
     leavingMap = Map.empty, shuffledOutMap = Map.empty, newList = [], auctionList = [], lowWaitingList = False\<rparr>"

record serializableValidator =
  svPubKey :: "bytes option"
  svChances :: u32
  svIndex :: u32

record epochValidators =
  evEligible :: "string \<rightharpoonup> serializableValidator list"
  evWaiting :: "string \<rightharpoonup> serializableValidator list"
  evLeaving :: "string \<rightharpoonup> serializableValidator list"

record epochValidatorsWithAuction = epochValidators +
  evShuffledOut :: "string \<rightharpoonup> serializableValidator list"
  evLowWaitingList :: bool

datatype registry =
    NodesCoordinatorRegistry u32 "string \<rightharpoonup> epochValidators"
  | NodesCoordinatorRegistryWithAuction u32 "string \<rightharpoonup> epochValidatorsWithAuction"

text \<open>The functions of a coordinator that the variant with a rater replaces.\<close>

record coordHelper =
  hGetChance :: "u32 \<Rightarrow> u32"
  hValidatorsWeights :: "validator list \<Rightarrow> u32 list"
  hComputeAdditionalLeaving :: "shardValidatorInfo list \<Rightarrow> coordError + nodesMap"

datatype coordLoop = SelfEligible | SelfWaiting | SelfLeaving | SelfShuffledOut | Selectors | SortLeaving | SortAdditional | FillEligible u32 | FillWaiting u32 | EpochsLeft

type_synonym strOrder = "string set \<Rightarrow> string list"
type_synonym groupCache = "bytes \<rightharpoonup> validator list"

record coordEnv =
  ceHasher :: "bytes \<Rightarrow> bytes"
  ceSha :: "bytes \<Rightarrow> bytes" \<comment> \<open>the hash of the shuffler\<close>
  ceShufflerOrders :: "rangeLoop \<Rightarrow> rangeOrder"
  ceOrder :: "coordLoop \<Rightarrow> rangeOrder"
  ceStrOrder :: strOrder
  ceCachePut :: "groupCache \<Rightarrow> bytes \<Rightarrow> validator list \<Rightarrow> int \<Rightarrow> groupCache"
  ceStorerPut :: "(bytes \<rightharpoonup> bytes) \<Rightarrow> bytes \<Rightarrow> bytes \<Rightarrow> string option \<times> (bytes \<rightharpoonup> bytes)"
  ceStorerGet :: "(bytes \<rightharpoonup> bytes) \<Rightarrow> bytes \<Rightarrow> string + bytes"
  ceMarshal :: "registry \<Rightarrow> string + bytes"
  ceUnmarshal :: "bytes \<Rightarrow> string + registry" \<comment> \<open>into a \<^verbatim>\<open>NodesCoordinatorRegistryWithAuction\<close>\<close>
  ceJsonMarshal :: "registry \<Rightarrow> string + bytes"
  ceJsonUnmarshal :: "bytes \<Rightarrow> string + registry" \<comment> \<open>into a \<^verbatim>\<open>NodesCoordinatorRegistry\<close>\<close>
  ceStakingV4Step1 :: u32
  ceStakingV4Step2 :: u32
  ceFactoryStakingV4Step2 :: u32
  ceRefactorPeersMiniBlocks :: "u32 \<Rightarrow> bool"
  ceGetValidatorInfo :: "bytes \<Rightarrow> string + shardValidatorInfo"
  ceUnmarshalValidatorInfo :: "bytes \<Rightarrow> string + shardValidatorInfo"
  ceCurrentEpoch :: u32 \<comment> \<open>of the handler of enabled epochs\<close>
  ceMinMetaHysteresisNodes :: u32
  ceMinShardHysteresisNodes :: u32

record nodesCoordinator =
  shardIDAsObserver :: shardID
  currentEpoch :: u32
  shardConsensusGroupSize :: int
  metaConsensusGroupSize :: int
  numTotalEligible :: u64
  selfPubKey :: bytes
  savedStateKey :: bytes
  shuffler :: randHashShuffler
  bootStorer :: "bytes \<rightharpoonup> bytes"
  nodesConfig :: "u32 \<rightharpoonup> epochNodesConfig"
  consensusGroupCacher :: groupCache
  startEpoch :: u32
  publicKeyToValidatorMap :: "bytes \<rightharpoonup> validator \<times> shardID"
  isFullArchive :: bool
  stopSignalled :: bool \<comment> \<open>something was sent on \<^verbatim>\<open>chanStopNode\<close>\<close>
  nodeTypeIsValidator :: bool
  shuffledOutCalls :: "shardID list" \<comment> \<open>the arguments \<^verbatim>\<open>shuffledOutHandler.Process\<close> was called with\<close>
  coordStakingV4Step2 :: bool
  coordStakingV4Started :: bool

section \<open>Selectors and weights\<close>

definition NewValidator :: "bytes option \<Rightarrow> u32 \<Rightarrow> u32 \<Rightarrow> coordError + validator" where
  "NewValidator pubKey chances index =
     (case pubKey of None \<Rightarrow> Inl ErrNilPubKey | Some pk \<Rightarrow> Inr \<lparr>vPubKey = pk, vChances = chances, vIndex = index\<rparr>)"

definition defaultSelectionChances :: u32 where
  "defaultSelectionChances = 1"

definition ValidatorsWeights :: "validator list \<Rightarrow> u32 list" where
  "ValidatorsWeights validators = map (\<lambda>_. defaultSelectionChances) validators"

text \<open>The coordinator without a rater.\<close>

definition baseHelper :: coordHelper where
  "baseHelper = \<lparr>hGetChance = (\<lambda>_. defaultSelectionChances), hValidatorsWeights = ValidatorsWeights,
     hComputeAdditionalLeaving = (\<lambda>_. Inr Map.empty)\<rparr>"

definition ValidatorsWeightsWithRater :: "(u32 \<Rightarrow> u32) \<Rightarrow> validator list \<Rightarrow> u32 list" where
  "ValidatorsWeightsWithRater getChance validators =
     (let minChance = getChance 0 in map (\<lambda>v. if vChances v < minChance then minChance else vChances v) validators)"

definition appendNode :: "nodesMap \<Rightarrow> shardID \<Rightarrow> validator \<Rightarrow> nodesMap" where
  "appendNode m s v = m(s \<mapsto> listOf m s @ [v])"

fun additionalLeavingLoop :: "(u32 \<Rightarrow> u32) \<Rightarrow> shardValidatorInfo list \<Rightarrow> nodesMap \<Rightarrow> coordError + nodesMap" where
  "additionalLeavingLoop getChance [] m = Inr m"
| "additionalLeavingLoop getChance (vInfo # rest) m =
     (if viList vInfo = ''inactive'' \<or> viList vInfo = ''jailed'' then additionalLeavingLoop getChance rest m
      else
        let chances = getChance (viTempRating vInfo)
        in if chances < getChance 0 then
             (case NewValidator (viPublicKey vInfo) chances (viIndex vInfo) of
                Inl e \<Rightarrow> Inl e
              | Inr val \<Rightarrow> additionalLeavingLoop getChance rest (appendNode m (viShardId vInfo) val))
           else additionalLeavingLoop getChance rest m)"

definition ComputeAdditionalLeaving :: "(u32 \<Rightarrow> u32) \<Rightarrow> shardValidatorInfo list \<Rightarrow> coordError + nodesMap" where
  "ComputeAdditionalLeaving getChance allValidators = additionalLeavingLoop getChance allValidators Map.empty"

text \<open>The coordinator with a rater, from the function \<^verbatim>\<open>GetChance\<close> of its \<^verbatim>\<open>chanceComputer\<close>.\<close>

definition raterHelper :: "(u32 \<Rightarrow> u32) \<Rightarrow> coordHelper" where
  "raterHelper getChance = \<lparr>hGetChance = getChance, hValidatorsWeights = ValidatorsWeightsWithRater getChance,
     hComputeAdditionalLeaving = ComputeAdditionalLeaving getChance\<rparr>"

fun selectorsLoop ::
  "coordEnv \<Rightarrow> coordHelper \<Rightarrow> nodesMap \<Rightarrow> shardID list \<Rightarrow> (shardID \<rightharpoonup> selectorExpandedList) \<Rightarrow> coordError + (shardID \<rightharpoonup> selectorExpandedList)" where
  "selectorsLoop env helper eligible [] sel = Inr sel"
| "selectorsLoop env helper eligible (shard # rest) sel =
     (case NewSelectorExpandedList (hValidatorsWeights helper (listOf eligible shard)) (Some (ceHasher env)) of
        Inl e \<Rightarrow> Inl (SelectionErr e)
      | Inr s \<Rightarrow> selectorsLoop env helper eligible rest (sel(shard \<mapsto> s)))"

definition createSelectors :: "coordEnv \<Rightarrow> coordHelper \<Rightarrow> epochNodesConfig \<Rightarrow> coordError + (shardID \<rightharpoonup> selectorExpandedList)" where
  "createSelectors env helper cfg =
     selectorsLoop env helper (eligibleMap cfg) (ceOrder env Selectors (dom (eligibleMap cfg))) Map.empty"

section \<open>Installing a configuration\<close>

definition computeShardForSelfPublicKey :: "coordEnv \<Rightarrow> nodesCoordinator \<Rightarrow> epochNodesConfig \<Rightarrow> shardID \<times> bool" where
  "computeShardForSelfPublicKey env nc cfg =
     (let pubKey = selfPubKey nc;
          selfShard = (case nodesConfig nc (currentEpoch nc) of None \<Rightarrow> shardIDAsObserver nc | Some c \<Rightarrow> cfgShardID c);
          inEligible = searchInMap (ceOrder env SelfEligible) (eligibleMap cfg) pubKey;
          inWaiting = searchInMap (ceOrder env SelfWaiting) (waitingMap cfg) pubKey;
          inLeaving = searchInMap (ceOrder env SelfLeaving) (leavingMap cfg) pubKey;
          inShuffledOut = searchInMap (ceOrder env SelfShuffledOut) (shuffledOutMap cfg) pubKey
      in if fst inEligible then (snd inEligible, True)
         else if fst inWaiting then (snd inWaiting, True)
         else if fst inLeaving then (snd inLeaving, True)
         else if coordStakingV4Step2 nc \<and> fst inShuffledOut then (snd inShuffledOut, True)
         else (selfShard, False))"

fun eligibleSizeLoop :: "nodesMap \<Rightarrow> int \<Rightarrow> shardID list \<Rightarrow> u64 \<Rightarrow> coordError + u64" where
  "eligibleSizeLoop eligible groupSize [] numTotal = Inr numTotal"
| "eligibleSizeLoop eligible groupSize (shard # rest) numTotal =
     (let nbNodesShard = length (listOf eligible shard)
      in if int nbNodesShard < groupSize then Inl ErrSmallShardEligibleList
         else eligibleSizeLoop eligible groupSize rest (numTotal + of_nat nbNodesShard))"

definition setNodesPerShards ::
  "coordEnv \<Rightarrow> coordHelper \<Rightarrow> nodesMap option \<Rightarrow> nodesMap option \<Rightarrow> nodesMap \<Rightarrow> nodesMap \<Rightarrow> u32 \<Rightarrow> bool \<Rightarrow> nodesCoordinator
     \<Rightarrow> (coordError + unit) \<times> nodesCoordinator" where
  "setNodesPerShards env helper eligibleArg waitingArg leaving shuffledOut epoch low nc =
     (case (eligibleArg, waitingArg) of
        (Some eligible, Some waiting) \<Rightarrow>
          let nodesList = listOf eligible MetachainShardId;
              numShards = of_int (int (card (dom eligible)) - 1) :: u32
          in if int (length nodesList) < metaConsensusGroupSize nc then (Inl ErrSmallMetachainEligibleListSize, nc)
             else (case eligibleSizeLoop eligible (shardConsensusGroupSize nc) (shardIds numShards) (of_nat (length nodesList)) of
                Inl e \<Rightarrow> (Inl e, nc)
              | Inr numTotal \<Rightarrow>
                  let old = nodesConfig nc epoch;
                      cfg1 = (case old of None \<Rightarrow> emptyConfig | Some c \<Rightarrow> c)\<lparr>nbShards := numShards, eligibleMap := eligible,
                        waitingMap := waiting, leavingMap := leaving, shuffledOutMap := shuffledOut, lowWaitingList := low\<rparr>;
                      nc1 = (if old = None then nc else nc\<lparr>nodesConfig := (nodesConfig nc)(epoch \<mapsto> cfg1)\<rparr>);
                      (self, isCurrentNodeValidator) = computeShardForSelfPublicKey env nc1 cfg1;
                      cfg2 = cfg1\<lparr>cfgShardID := self\<rparr>
                  in case createSelectors env helper cfg2 of
                       Inl e \<Rightarrow> (Inl e, if old = None then nc
                                  else nc\<lparr>nodesConfig := (nodesConfig nc)(epoch \<mapsto> cfg2\<lparr>selectors := Map.empty\<rparr>)\<rparr>)
                     | Inr sel \<Rightarrow>
                         (Inr (), nc\<lparr>nodesConfig := (nodesConfig nc)(epoch \<mapsto> cfg2\<lparr>selectors := sel\<rparr>), numTotalEligible := numTotal,
                            nodeTypeIsValidator := isCurrentNodeValidator,
                            stopSignalled := stopSignalled nc \<or> (isFullArchive nc \<and> isCurrentNodeValidator)\<rparr>))
      | _ \<Rightarrow> (Inl ErrNilInputNodesMap, nc))"

section \<open>The consensus group\<close>

definition ConsensusGroupSize :: "nodesCoordinator \<Rightarrow> shardID \<Rightarrow> int" where
  "ConsensusGroupSize nc shard = (if shard = MetachainShardId then metaConsensusGroupSize nc else shardConsensusGroupSize nc)"

definition selectValidators ::
  "selectorExpandedList option \<Rightarrow> bytes \<Rightarrow> u32 \<Rightarrow> validator list \<Rightarrow> coordError + validator list" where
  "selectValidators selector randomness consensusSize eligibleList =
     (case selector of
        None \<Rightarrow> Inl ErrNilRandomSelector
      | Some s \<Rightarrow>
          if length randomness = 0 then Inl ErrNilRandomnessForGroup
          else case Select s randomness consensusSize of
                 Inl e \<Rightarrow> Inl (SelectionErr e)
               | Inr selectedIndexes \<Rightarrow>
                   if length selectedIndexes < unat consensusSize \<or>
                      (\<exists>i\<in>set (take (unat consensusSize) selectedIndexes). length eligibleList \<le> unat i)
                   then Inl (CoordPanic ''index out of range'')
                   else Inr (map (\<lambda>i. eligibleList ! unat i) (take (unat consensusSize) selectedIndexes)))"

definition groupKey :: "bytes \<Rightarrow> u64 \<Rightarrow> shardID \<Rightarrow> u32 \<Rightarrow> bytes" where
  "groupKey randomness round shard epoch =
     randomness @ ''_'' @ natDecimal (unat round) @ ''_'' @ natDecimal (unat shard) @ ''_'' @ natDecimal (unat epoch)"

definition searchConsensusForKey :: "nodesCoordinator \<Rightarrow> bytes \<Rightarrow> validator list option" where
  "searchConsensusForKey nc key = consensusGroupCacher nc key"

definition validatorSize :: "validator \<Rightarrow> int" where
  "validatorSize v = int (length (vPubKey v)) + 8"

definition ComputeConsensusGroup ::
  "coordEnv \<Rightarrow> bytes \<Rightarrow> u64 \<Rightarrow> shardID \<Rightarrow> u32 \<Rightarrow> nodesCoordinator \<Rightarrow> (coordError + validator list) \<times> nodesCoordinator" where
  "ComputeConsensusGroup env randomness round shard epoch nc =
     (if length randomness = 0 then (Inl ErrNilRandomnessForGroup, nc)
      else case nodesConfig nc epoch of
        None \<Rightarrow> (Inl (ErrEpochNodesConfigDoesNotExist epoch), nc)
      | Some cfg \<Rightarrow>
          if shard \<ge> nbShards cfg \<and> shard \<noteq> MetachainShardId then (Inl ErrInvalidShardId, nc)
          else
            let key = groupKey randomness round shard epoch
            in case searchConsensusForKey nc key of
                 Some validators \<Rightarrow> (Inr validators, nc)
               | None \<Rightarrow>
                   let consensusSize = ConsensusGroupSize nc shard;
                       seed = natDecimal (unat round) @ ''-'' @ randomness
                   in case selectValidators (selectors cfg shard) seed (of_int consensusSize) (listOf (eligibleMap cfg) shard) of
                        Inl e \<Rightarrow> (Inl e, nc)
                      | Inr tempList \<Rightarrow>
                          (Inr tempList, nc\<lparr>consensusGroupCacher :=
                             ceCachePut env (consensusGroupCacher nc) key tempList (sum_list (map validatorSize tempList))\<rparr>))"

definition GetConsensusValidatorsPublicKeys ::
  "coordEnv \<Rightarrow> bytes \<Rightarrow> u64 \<Rightarrow> shardID \<Rightarrow> u32 \<Rightarrow> nodesCoordinator \<Rightarrow> (coordError + bytes list) \<times> nodesCoordinator" where
  "GetConsensusValidatorsPublicKeys env randomness round shard epoch nc =
     (case ComputeConsensusGroup env randomness round shard epoch nc of
        (Inl e, nc') \<Rightarrow> (Inl e, nc')
      | (Inr consensusNodes, nc') \<Rightarrow> (Inr (map vPubKey consensusNodes), nc'))"

section \<open>Queries\<close>

definition GetValidatorWithPublicKey :: "nodesCoordinator \<Rightarrow> bytes \<Rightarrow> coordError + validator \<times> shardID" where
  "GetValidatorWithPublicKey nc publicKey =
     (if length publicKey = 0 then Inl ErrNilPubKey
      else case publicKeyToValidatorMap nc publicKey of None \<Rightarrow> Inl ErrValidatorNotFound | Some v \<Rightarrow> Inr v)"

text \<open>The four loops that collect the public keys of a map: a shard without nodes gets no entry.\<close>

definition pubKeysOf :: "nodesMap \<Rightarrow> (shardID \<rightharpoonup> bytes list)" where
  "pubKeysOf m = (\<lambda>s. if listOf m s = [] then None else Some (map vPubKey (listOf m s)))"

definition pubKeysInEpoch :: "(epochNodesConfig \<Rightarrow> nodesMap) \<Rightarrow> nodesCoordinator \<Rightarrow> u32 \<Rightarrow> coordError + (shardID \<rightharpoonup> bytes list)" where
  "pubKeysInEpoch which nc epoch =
     (case nodesConfig nc epoch of None \<Rightarrow> Inl (ErrEpochNodesConfigDoesNotExist epoch) | Some cfg \<Rightarrow> Inr (pubKeysOf (which cfg)))"

definition GetAllEligibleValidatorsPublicKeys :: "nodesCoordinator \<Rightarrow> u32 \<Rightarrow> coordError + (shardID \<rightharpoonup> bytes list)" where
  "GetAllEligibleValidatorsPublicKeys = pubKeysInEpoch eligibleMap"

definition GetAllWaitingValidatorsPublicKeys :: "nodesCoordinator \<Rightarrow> u32 \<Rightarrow> coordError + (shardID \<rightharpoonup> bytes list)" where
  "GetAllWaitingValidatorsPublicKeys = pubKeysInEpoch waitingMap"

definition GetAllLeavingValidatorsPublicKeys :: "nodesCoordinator \<Rightarrow> u32 \<Rightarrow> coordError + (shardID \<rightharpoonup> bytes list)" where
  "GetAllLeavingValidatorsPublicKeys = pubKeysInEpoch leavingMap"

definition GetAllShuffledOutValidatorsPublicKeys :: "nodesCoordinator \<Rightarrow> u32 \<Rightarrow> coordError + (shardID \<rightharpoonup> bytes list)" where
  "GetAllShuffledOutValidatorsPublicKeys = pubKeysInEpoch shuffledOutMap"

definition GetShuffledOutToAuctionValidatorsPublicKeys :: "nodesCoordinator \<Rightarrow> u32 \<Rightarrow> coordError + (shardID \<rightharpoonup> bytes list)" where
  "GetShuffledOutToAuctionValidatorsPublicKeys nc epoch =
     (case nodesConfig nc epoch of
        None \<Rightarrow> Inl (ErrEpochNodesConfigDoesNotExist epoch)
      | Some cfg \<Rightarrow> if lowWaitingList cfg then Inr Map.empty else GetAllShuffledOutValidatorsPublicKeys nc epoch)"

definition indexesOf :: "bytes list \<Rightarrow> bytes \<Rightarrow> u64 list" where
  "indexesOf keys pubKey = map of_nat (filter (\<lambda>i. keys ! i = pubKey) [0..<length keys])"

definition GetValidatorsIndexes :: "nodesCoordinator \<Rightarrow> bytes list \<Rightarrow> u32 \<Rightarrow> coordError + u64 list" where
  "GetValidatorsIndexes nc publicKeys epoch =
     (case GetAllEligibleValidatorsPublicKeys nc epoch of
        Inl e \<Rightarrow> Inl e
      | Inr validatorsPubKeys \<Rightarrow>
          case nodesConfig nc epoch of
            None \<Rightarrow> Inl (CoordPanic ''nil pointer dereference'')
          | Some cfg \<Rightarrow>
              let keys = (case validatorsPubKeys (cfgShardID cfg) of None \<Rightarrow> [] | Some ks \<Rightarrow> ks);
                  signersIndexes = concat (map (indexesOf keys) publicKeys)
              in if length publicKeys \<noteq> length signersIndexes then Inl ErrInvalidNumberPubKeys else Inr signersIndexes)"

definition ShardIdForEpoch :: "nodesCoordinator \<Rightarrow> u32 \<Rightarrow> coordError + shardID" where
  "ShardIdForEpoch nc epoch =
     (case nodesConfig nc epoch of None \<Rightarrow> Inl (ErrEpochNodesConfigDoesNotExist epoch) | Some cfg \<Rightarrow> Inr (cfgShardID cfg))"

definition isValidator :: "coordEnv \<Rightarrow> epochNodesConfig \<Rightarrow> bytes \<Rightarrow> bool" where
  "isValidator env config pk =
     (fst (searchInMap (ceOrder env SelfEligible) (eligibleMap config) pk) \<or> fst (searchInMap (ceOrder env SelfWaiting) (waitingMap config) pk))"

definition ShuffleOutForEpoch :: "coordEnv \<Rightarrow> u32 \<Rightarrow> nodesCoordinator \<Rightarrow> nodesCoordinator" where
  "ShuffleOutForEpoch env epoch nc =
     (case nodesConfig nc epoch of
        None \<Rightarrow> nc
      | Some cfg \<Rightarrow>
          if isValidator env cfg (selfPubKey nc) then nc\<lparr>shuffledOutCalls := shuffledOutCalls nc @ [cfgShardID cfg]\<rparr> else nc)"

definition keysAt :: "(shardID \<rightharpoonup> bytes list) \<Rightarrow> shardID \<Rightarrow> bytes set" where
  "keysAt m s = (case m s of None \<Rightarrow> {} | Some ks \<Rightarrow> set ks)"

definition GetConsensusWhitelistedNodes :: "nodesCoordinator \<Rightarrow> u32 \<Rightarrow> coordError + bytes set" where
  "GetConsensusWhitelistedNodes nc epoch =
     (let prev = (if epoch > startEpoch nc then
                    (case (GetAllEligibleValidatorsPublicKeys nc (epoch - 1), ShardIdForEpoch nc (epoch - 1)) of
                       (Inr keys, Inr shard) \<Rightarrow> keysAt keys shard
                     | _ \<Rightarrow> {})
                  else {})
      in case GetAllEligibleValidatorsPublicKeys nc epoch of
           Inl e \<Rightarrow> Inl e
         | Inr keys \<Rightarrow>
             case ShardIdForEpoch nc epoch of Inl e \<Rightarrow> Inl e | Inr shard \<Rightarrow> Inr (prev \<union> keysAt keys shard))"

definition getMinHysteresisNodes :: "coordEnv \<Rightarrow> shardID \<Rightarrow> u32" where
  "getMinHysteresisNodes env shard = (if shard = MetachainShardId then ceMinMetaHysteresisNodes env else ceMinShardHysteresisNodes env)"

fun searchWaitingEpochsLoop :: "coordEnv \<Rightarrow> bytes \<Rightarrow> shardID \<Rightarrow> nat \<Rightarrow> validator list \<Rightarrow> coordError + u32" where
  "searchWaitingEpochsLoop env publicKey shard idx [] = Inl ErrKeyNotFoundInWaitingList"
| "searchWaitingEpochsLoop env publicKey shard idx (val # rest) =
     (if vPubKey val \<noteq> publicKey then searchWaitingEpochsLoop env publicKey shard (idx + 1) rest
      else if getMinHysteresisNodes env shard = 0 then Inr 1
      else Inr (of_nat idx div getMinHysteresisNodes env shard + 1))"

definition searchWaitingEpochsLeftForPublicKeyInShard :: "coordEnv \<Rightarrow> bytes \<Rightarrow> shardID \<Rightarrow> validator list \<Rightarrow> coordError + u32" where
  "searchWaitingEpochsLeftForPublicKeyInShard env publicKey shard shardWaiting = searchWaitingEpochsLoop env publicKey shard 0 shardWaiting"

fun epochsLeftLoop :: "coordEnv \<Rightarrow> bytes \<Rightarrow> nodesMap \<Rightarrow> shardID list \<Rightarrow> coordError + u32" where
  "epochsLeftLoop env publicKey waiting [] = Inl ErrKeyNotFoundInWaitingList"
| "epochsLeftLoop env publicKey waiting (shard # rest) =
     (case searchWaitingEpochsLeftForPublicKeyInShard env publicKey shard (listOf waiting shard) of
        Inl _ \<Rightarrow> epochsLeftLoop env publicKey waiting rest
      | Inr n \<Rightarrow> Inr n)"

definition GetWaitingEpochsLeftForPublicKey :: "coordEnv \<Rightarrow> nodesCoordinator \<Rightarrow> bytes \<Rightarrow> coordError + u32" where
  "GetWaitingEpochsLeftForPublicKey env nc publicKey =
     (if length publicKey = 0 then Inl ErrNilPubKey
      else case nodesConfig nc (ceCurrentEpoch env) of
             None \<Rightarrow> Inl (ErrEpochNodesConfigDoesNotExist (ceCurrentEpoch env))
           | Some cfg \<Rightarrow> epochsLeftLoop env publicKey (waitingMap cfg) (ceOrder env EpochsLeft (dom (waitingMap cfg))))"

end
