(* ===== verification/CoordinatorEpochs.thy ===== *)
theory CoordinatorEpochs
  imports NodesCoordinator
begin

text \<open>
  The nodes coordinator at the start of an epoch (\<^verbatim>\<open>EpochStartPrepare\<close> and \<^verbatim>\<open>EpochStartAction\<close> of \<^verbatim>\<open>indexHashedNodesCoordinator.go\<close>,
  \<^verbatim>\<open>indexHashedNodesCoordinatorLite.go\<close>), and its state on disk (\<^verbatim>\<open>indexHashedNodesCoordinatorRegistry.go\<close> and its variant with auction).
\<close>

section \<open>Lists of validators\<close>

text \<open>\<^verbatim>\<open>sort.Sort(validatorList(...))\<close>: by index and public key.\<close>

definition sortValidators :: "validator list \<Rightarrow> validator list" where
  "sortValidators vs = sort_key (\<lambda>v. (vIndex v, vPubKey v)) vs"

definition createSortedListFromMap :: "rangeOrder \<Rightarrow> nodesMap \<Rightarrow> validator list" where
  "createSortedListFromMap order validatorsMap = sortValidators (concat (map (listOf validatorsMap) (order (dom validatorsMap))))"

definition mapLists :: "(validator list \<Rightarrow> validator list) \<Rightarrow> nodesMap \<Rightarrow> nodesMap" where
  "mapLists f m = (\<lambda>s. map_option f (m s))"

text \<open>
  \<^verbatim>\<open>addValidatorToPreviousMap\<close>. The validator is a pointer that the map of leaving nodes already holds, so that a new index
  shows there too: the function returns the validator with the two maps.
\<close>

definition addValidatorToPreviousMap ::
  "nodesCoordinator \<Rightarrow> nodesMap \<Rightarrow> nodesMap \<Rightarrow> validator \<Rightarrow> shardValidatorInfo \<Rightarrow> nodesMap \<times> nodesMap \<times> validator" where
  "addValidatorToPreviousMap nc eligible waiting v info =
     (let shard = viShardId info;
          moved = v\<lparr>vIndex := viPreviousIndex info\<rparr>
      in if \<not> coordStakingV4Started nc \<or> length (viPreviousList info) = 0 then (appendNode eligible shard v, waiting, v)
         else if viPreviousList info = ''eligible'' then (appendNode eligible shard moved, waiting, moved)
         else if viPreviousList info = ''waiting'' then (eligible, appendNode waiting shard moved, moved)
         else (eligible, waiting, v))"

definition addValidatorInfo :: "nodesCoordinator \<Rightarrow> shardValidatorInfo \<Rightarrow> validator \<Rightarrow> epochNodesConfig \<Rightarrow> coordError + epochNodesConfig" where
  "addValidatorInfo nc info v cfg =
     (if viList info = ''waiting'' then Inr (cfg\<lparr>waitingMap := appendNode (waitingMap cfg) (viShardId info) v\<rparr>)
      else if viList info = ''eligible'' then Inr (cfg\<lparr>eligibleMap := appendNode (eligibleMap cfg) (viShardId info) v\<rparr>)
      else if viList info = ''leaving'' then
        (case addValidatorToPreviousMap nc (eligibleMap cfg) (waitingMap cfg) v info of
           (eligible, waiting, v') \<Rightarrow>
             Inr (cfg\<lparr>leavingMap := appendNode (leavingMap cfg) (viShardId info) v', eligibleMap := eligible, waitingMap := waiting\<rparr>))
      else if viList info = ''new'' then
        (if coordStakingV4Step2 nc then Inl ErrReceivedNewListInStakingV4 else Inr (cfg\<lparr>newList := newList cfg @ [v]\<rparr>))
      else if viList info = ''selectedFromAuction'' then
        (if coordStakingV4Step2 nc then Inr (cfg\<lparr>auctionList := auctionList cfg @ [v]\<rparr>) else Inl ErrReceivedAuctionValidatorsBeforeStakingV4)
      else Inr cfg)"

fun nodesConfigLoop :: "coordHelper \<Rightarrow> nodesCoordinator \<Rightarrow> shardValidatorInfo list \<Rightarrow> epochNodesConfig \<Rightarrow> coordError + epochNodesConfig" where
  "nodesConfigLoop helper nc [] cfg = Inr cfg"
| "nodesConfigLoop helper nc (info # rest) cfg =
     (case NewValidator (viPublicKey info) (hGetChance helper (viTempRating info)) (viIndex info) of
        Inl e \<Rightarrow> Inl e
      | Inr currentValidator \<Rightarrow>
          case addValidatorInfo nc info currentValidator cfg of
            Inl e \<Rightarrow> Inl e
          | Inr cfg' \<Rightarrow> nodesConfigLoop helper nc rest cfg')"

definition computeNodesConfigFromList :: "coordHelper \<Rightarrow> nodesCoordinator \<Rightarrow> shardValidatorInfo list \<Rightarrow> coordError + epochNodesConfig" where
  "computeNodesConfigFromList helper nc validatorInfos =
     (case nodesConfigLoop helper nc validatorInfos emptyConfig of
        Inl e \<Rightarrow> Inl e
      | Inr cfg \<Rightarrow>
          if dom (eligibleMap cfg) = {} then Inl ErrMapSizeZero
          else Inr (cfg\<lparr>newList := sortValidators (newList cfg), auctionList := sortValidators (auctionList cfg),
                       eligibleMap := mapLists sortValidators (eligibleMap cfg), waitingMap := mapLists sortValidators (waitingMap cfg),
                       leavingMap := mapLists sortValidators (leavingMap cfg),
                       nbShards := of_int (int (card (dom (eligibleMap cfg))) - 1)\<rparr>))"

text \<open>One validator in the loops of \<^verbatim>\<open>computeActuallyLeaving\<close>: the maps of leaving and of remaining nodes and the keys seen so far.\<close>

fun actuallyLeavingStep ::
  "validator list \<Rightarrow> shardID \<times> validator \<Rightarrow> nodesMap \<times> nodesMap \<times> bytes set \<Rightarrow> nodesMap \<times> nodesMap \<times> bytes set" where
  "actuallyLeavingStep leaving (shard, v) (actuallyLeaving, actuallyRemaining, processed) =
     (if vPubKey v \<in> processed then (actuallyLeaving, actuallyRemaining, processed)
      else if vPubKey v \<in> vPubKey ` set leaving
      then (appendNode actuallyLeaving shard v, actuallyRemaining, insert (vPubKey v) processed)
      else (actuallyLeaving, appendNode actuallyRemaining shard v, insert (vPubKey v) processed))"

definition computeActuallyLeaving ::
  "nodesMap \<Rightarrow> validator list \<Rightarrow> nodesMap \<times> nodesMap \<times> bytes set \<Rightarrow> nodesMap \<times> nodesMap \<times> bytes set" where
  "computeActuallyLeaving unstakeLeaving leaving =
     fold (actuallyLeavingStep leaving) (concat (map (\<lambda>s. map (Pair s) (listOf unstakeLeaving s)) (sortKeys unstakeLeaving)))"

definition createActuallyLeavingPerShards :: "nodesMap \<Rightarrow> nodesMap \<Rightarrow> validator list \<Rightarrow> nodesMap \<times> nodesMap" where
  "createActuallyLeavingPerShards unstakeLeaving additionalLeaving leaving =
     (case computeActuallyLeaving additionalLeaving leaving (computeActuallyLeaving unstakeLeaving leaving (Map.empty, Map.empty, {})) of
        (actuallyLeaving, actuallyRemaining, _) \<Rightarrow> (actuallyLeaving, actuallyRemaining))"

section \<open>The public keys of all epochs\<close>

definition addPublicKeys :: "rangeOrder \<Rightarrow> nodesMap \<Rightarrow> (bytes \<rightharpoonup> validator \<times> shardID) \<Rightarrow> (bytes \<rightharpoonup> validator \<times> shardID)" where
  "addPublicKeys order m acc =
     fold (\<lambda>s acc. fold (\<lambda>v acc. acc(vPubKey v \<mapsto> (v, s))) (listOf m s) acc) (order (dom m)) acc"

definition createPublicKeyToValidatorMap :: "coordEnv \<Rightarrow> u32 \<Rightarrow> nodesMap \<Rightarrow> nodesMap \<Rightarrow> (bytes \<rightharpoonup> validator \<times> shardID)" where
  "createPublicKeyToValidatorMap env epoch eligible waiting =
     addPublicKeys (ceOrder env (FillWaiting epoch)) waiting (addPublicKeys (ceOrder env (FillEligible epoch)) eligible Map.empty)"

definition fillPublicKeyToValidatorMap :: "coordEnv \<Rightarrow> nodesCoordinator \<Rightarrow> nodesCoordinator" where
  "fillPublicKeyToValidatorMap env nc =
     nc\<lparr>publicKeyToValidatorMap :=
       fold (\<lambda>epoch acc. case nodesConfig nc epoch of
                 None \<Rightarrow> acc
               | Some cfg \<Rightarrow> acc ++ createPublicKeyToValidatorMap env epoch (eligibleMap cfg) (waitingMap cfg))
         (sorted_list_of_set (dom (nodesConfig nc))) Map.empty\<rparr>"

section \<open>The state on disk\<close>

definition nodesCoordinatorStoredEpochs :: nat where
  "nodesCoordinatorStoredEpochs = 4"

text \<open>\<^verbatim>\<open>strconv.ParseInt(s, 10, 64)\<close>.\<close>

fun parseDigits :: "string \<Rightarrow> nat \<Rightarrow> nat option" where
  "parseDigits [] acc = Some acc"
| "parseDigits (c # cs) acc =
     (if 48 \<le> (of_char c :: nat) \<and> of_char c \<le> (57 :: nat) then parseDigits cs (acc * 10 + (of_char c - 48)) else None)"

definition ParseInt :: "string \<Rightarrow> coordError + int" where
  "ParseInt s =
     (let neg = (s \<noteq> [] \<and> hd s = CHR ''-'');
          digits = (if s \<noteq> [] \<and> (hd s = CHR ''-'' \<or> hd s = CHR ''+'') then tl s else s)
      in if digits = [] then Inl (ErrParseInt ''invalid syntax'')
         else case parseDigits digits 0 of
                None \<Rightarrow> Inl (ErrParseInt ''invalid syntax'')
              | Some n \<Rightarrow>
                  if neg \<and> n > 2 ^ 63 \<or> \<not> neg \<and> n \<ge> 2 ^ 63 then Inl (ErrParseInt ''value out of range'')
                  else Inr (if neg then - int n else int n))"

definition ValidatorArrayToSerializableValidatorArray :: "validator list \<Rightarrow> serializableValidator list" where
  "ValidatorArrayToSerializableValidatorArray validators =
     map (\<lambda>v. \<lparr>svPubKey = Some (vPubKey v), svChances = vChances v, svIndex = vIndex v\<rparr>) validators"

fun serializableValidatorArrayToValidatorArray :: "serializableValidator list \<Rightarrow> coordError + validator list" where
  "serializableValidatorArrayToValidatorArray [] = Inr []"
| "serializableValidatorArrayToValidatorArray (v # vs) =
     (case NewValidator (svPubKey v) (svChances v) (svIndex v) of
        Inl e \<Rightarrow> Inl e
      | Inr w \<Rightarrow> (case serializableValidatorArrayToValidatorArray vs of Inl e \<Rightarrow> Inl e | Inr ws \<Rightarrow> Inr (w # ws)))"

text \<open>A map from shards as a map from their decimal numbers. Different shards have different texts, so the order of the loop does not matter.\<close>

definition shardText :: "u32 \<Rightarrow> string" where
  "shardText k = natDecimal (unat k)"

definition toSerializableMap :: "nodesMap \<Rightarrow> (string \<rightharpoonup> serializableValidator list)" where
  "toSerializableMap m =
     fold (\<lambda>k result. result(shardText k \<mapsto> ValidatorArrayToSerializableValidatorArray (listOf m k))) (sortKeys m) Map.empty"

definition epochNodesConfigToEpochValidators :: "epochNodesConfig \<Rightarrow> epochValidators" where
  "epochNodesConfigToEpochValidators config =
     \<lparr>evEligible = toSerializableMap (eligibleMap config), evWaiting = toSerializableMap (waitingMap config),
      evLeaving = toSerializableMap (leavingMap config)\<rparr>"

definition epochNodesConfigToEpochValidatorsWithAuction :: "epochNodesConfig \<Rightarrow> epochValidatorsWithAuction" where
  "epochNodesConfigToEpochValidatorsWithAuction config =
     \<lparr>evEligible = toSerializableMap (eligibleMap config), evWaiting = toSerializableMap (waitingMap config),
      evLeaving = toSerializableMap (leavingMap config), evShuffledOut = toSerializableMap (shuffledOutMap config),
      evLowWaitingList = lowWaitingList config\<rparr>"

definition getLastEpochConfig :: "nodesCoordinator \<Rightarrow> u32" where
  "getLastEpochConfig nc = Max (insert 0 (dom (nodesConfig nc)))"

definition getMinAndLastEpoch :: "nodesCoordinator \<Rightarrow> u32 \<times> u32" where
  "getMinAndLastEpoch nc =
     (let lastEpoch = getLastEpochConfig nc
      in (if unat lastEpoch \<ge> nodesCoordinatorStoredEpochs then of_nat (unat lastEpoch - nodesCoordinatorStoredEpochs + 1) else 0, lastEpoch))"

text \<open>The loop over the epochs to write. (For the last epoch of all, 4294967295, the loop of the code would not end.)\<close>

definition storedEpochs :: "nodesCoordinator \<Rightarrow> u32 list" where
  "storedEpochs nc = (case getMinAndLastEpoch nc of (minEpoch, lastEpoch) \<Rightarrow> map of_nat [unat minEpoch..<unat lastEpoch + 1])"

definition storedConfigs :: "nodesCoordinator \<Rightarrow> (epochNodesConfig \<Rightarrow> 'v) \<Rightarrow> (string \<rightharpoonup> 'v)" where
  "storedConfigs nc toValidators =
     fold (\<lambda>epoch result. case nodesConfig nc epoch of
               None \<Rightarrow> result
             | Some epochNodesData \<Rightarrow> result(shardText epoch \<mapsto> toValidators epochNodesData)) (storedEpochs nc) Map.empty"

definition nodesCoordinatorToOldRegistry :: "nodesCoordinator \<Rightarrow> registry" where
  "nodesCoordinatorToOldRegistry nc = NodesCoordinatorRegistry (currentEpoch nc) (storedConfigs nc epochNodesConfigToEpochValidators)"

definition nodesCoordinatorToRegistryWithAuction :: "nodesCoordinator \<Rightarrow> registry" where
  "nodesCoordinatorToRegistryWithAuction nc =
     NodesCoordinatorRegistryWithAuction (currentEpoch nc) (storedConfigs nc epochNodesConfigToEpochValidatorsWithAuction)"

definition NodesCoordinatorToRegistry :: "coordEnv \<Rightarrow> nodesCoordinator \<Rightarrow> u32 \<Rightarrow> registry" where
  "NodesCoordinatorToRegistry env nc epoch =
     (if epoch \<ge> ceStakingV4Step2 env then nodesCoordinatorToRegistryWithAuction nc else nodesCoordinatorToOldRegistry nc)"

definition GetRegistryData :: "coordEnv \<Rightarrow> registry \<Rightarrow> u32 \<Rightarrow> string + bytes" where
  "GetRegistryData env registry epoch = (if epoch \<ge> ceFactoryStakingV4Step2 env then ceMarshal env registry else ceJsonMarshal env registry)"

definition registryKey :: "bytes \<Rightarrow> bytes" where
  "registryKey key = ''indexHashed_'' @ key"

definition saveState :: "coordEnv \<Rightarrow> bytes \<Rightarrow> u32 \<Rightarrow> nodesCoordinator \<Rightarrow> (coordError + unit) \<times> nodesCoordinator" where
  "saveState env key epoch nc =
     (case GetRegistryData env (NodesCoordinatorToRegistry env nc epoch) epoch of
        Inl e \<Rightarrow> (Inl (ErrMarshal e), nc)
      | Inr buff \<Rightarrow>
          case ceStorerPut env (bootStorer nc) (registryKey key) buff of
            (err, st) \<Rightarrow> (case err of None \<Rightarrow> Inr () | Some e \<Rightarrow> Inl (ErrStorer e), nc\<lparr>bootStorer := st\<rparr>))"

definition CreateNodesCoordinatorRegistry :: "coordEnv \<Rightarrow> bytes \<Rightarrow> string + registry" where
  "CreateNodesCoordinatorRegistry env buff =
     (case ceUnmarshal env buff of Inr r \<Rightarrow> Inr r | Inl _ \<Rightarrow> ceJsonUnmarshal env buff)"

fun validatorsMapLoop :: "(string \<rightharpoonup> serializableValidator list) \<Rightarrow> string list \<Rightarrow> nodesMap \<Rightarrow> coordError + nodesMap" where
  "validatorsMapLoop m [] result = Inr result"
| "validatorsMapLoop m (k # ks) result =
     (case ParseInt k of
        Inl e \<Rightarrow> Inl e
      | Inr key \<Rightarrow>
          case serializableValidatorArrayToValidatorArray (case m k of None \<Rightarrow> [] | Some v \<Rightarrow> v) of
            Inl e \<Rightarrow> Inl e
          | Inr vs \<Rightarrow> validatorsMapLoop m ks (result(of_int key \<mapsto> vs)))"

definition serializableValidatorsMapToValidatorsMap :: "coordEnv \<Rightarrow> (string \<rightharpoonup> serializableValidator list) \<Rightarrow> coordError + nodesMap" where
  "serializableValidatorsMapToValidatorsMap env sValidators = validatorsMapLoop sValidators (ceStrOrder env (dom sValidators)) Map.empty"

definition epochValidatorsToEpochNodesConfig ::
  "coordEnv \<Rightarrow> epochValidators \<Rightarrow> ((string \<rightharpoonup> serializableValidator list) \<times> bool) option \<Rightarrow> coordError + epochNodesConfig" where
  "epochValidatorsToEpochNodesConfig env config withAuction =
     (case serializableValidatorsMapToValidatorsMap env (evEligible config) of
        Inl e \<Rightarrow> Inl e
      | Inr eligible \<Rightarrow>
      case serializableValidatorsMapToValidatorsMap env (evWaiting config) of
        Inl e \<Rightarrow> Inl e
      | Inr waiting \<Rightarrow>
      case serializableValidatorsMapToValidatorsMap env (evLeaving config) of
        Inl e \<Rightarrow> Inl e
      | Inr leaving \<Rightarrow>
          let cfg = emptyConfig\<lparr>eligibleMap := eligible, waitingMap := waiting, leavingMap := leaving\<rparr>
          in case withAuction of
               None \<Rightarrow> Inr cfg
             | Some (shuffledOut, low) \<Rightarrow>
                 (case serializableValidatorsMapToValidatorsMap env shuffledOut of
                    Inl e \<Rightarrow> Inl e
                  | Inr out \<Rightarrow> Inr (cfg\<lparr>shuffledOutMap := out, lowWaitingList := low\<rparr>)))"

text \<open>The entry of a registry for a text, as \<^verbatim>\<open>epochValidatorsToEpochNodesConfig\<close> reads it: its lists and what only the registry with auction has.\<close>

fun registryEntry :: "registry \<Rightarrow> string \<Rightarrow> (epochValidators \<times> ((string \<rightharpoonup> serializableValidator list) \<times> bool) option) option" where
  "registryEntry (NodesCoordinatorRegistry _ m) t = map_option (\<lambda>v. (v, None)) (m t)"
| "registryEntry (NodesCoordinatorRegistryWithAuction _ m) t =
     map_option (\<lambda>v. (epochValidators.truncate v, Some (evShuffledOut v, evLowWaitingList v))) (m t)"

fun registryEpochs :: "registry \<Rightarrow> string set" where
  "registryEpochs (NodesCoordinatorRegistry _ m) = dom m"
| "registryEpochs (NodesCoordinatorRegistryWithAuction _ m) = dom m"

fun registryCurrentEpoch :: "registry \<Rightarrow> u32" where
  "registryCurrentEpoch (NodesCoordinatorRegistry e _) = e"
| "registryCurrentEpoch (NodesCoordinatorRegistryWithAuction e _) = e"

fun registryLoop ::
  "coordEnv \<Rightarrow> coordHelper \<Rightarrow> nodesCoordinator \<Rightarrow> registry \<Rightarrow> string list \<Rightarrow> (u32 \<rightharpoonup> epochNodesConfig) \<Rightarrow> coordError + (u32 \<rightharpoonup> epochNodesConfig)" where
  "registryLoop env helper nc r [] result = Inr result"
| "registryLoop env helper nc r (t # ts) result =
     (case ParseInt t of
        Inl e \<Rightarrow> Inl e
      | Inr epoch \<Rightarrow>
      case registryEntry r t of
        None \<Rightarrow> Inl (CoordPanic ''nil pointer dereference'')
      | Some (validators, withAuction) \<Rightarrow>
      case epochValidatorsToEpochNodesConfig env validators withAuction of
        Inl e \<Rightarrow> Inl e
      | Inr cfg \<Rightarrow>
          let n = of_nat (card (dom (eligibleMap cfg))) :: u32
          in if n < 2 then Inl ErrInvalidNumberOfShards
             else
               let cfg1 = cfg\<lparr>nbShards := n - 1\<rparr>;
                   cfg2 = cfg1\<lparr>cfgShardID := fst (computeShardForSelfPublicKey env nc cfg1)\<rparr>
               in case createSelectors env helper cfg2 of
                    Inl e \<Rightarrow> Inl e
                  | Inr sel \<Rightarrow> registryLoop env helper nc r ts (result(of_int epoch \<mapsto> cfg2\<lparr>selectors := sel\<rparr>)))"

definition registryToNodesCoordinator ::
  "coordEnv \<Rightarrow> coordHelper \<Rightarrow> nodesCoordinator \<Rightarrow> registry \<Rightarrow> coordError + (u32 \<rightharpoonup> epochNodesConfig)" where
  "registryToNodesCoordinator env helper nc r = registryLoop env helper nc r (ceStrOrder env (registryEpochs r)) Map.empty"

definition baseLoadState :: "coordEnv \<Rightarrow> coordHelper \<Rightarrow> bytes \<Rightarrow> nodesCoordinator \<Rightarrow> (coordError + unit) \<times> nodesCoordinator" where
  "baseLoadState env helper key nc =
     (case ceStorerGet env (bootStorer nc) (registryKey key) of
        Inl e \<Rightarrow> (Inl (ErrStorer e), nc)
      | Inr buff \<Rightarrow>
          case CreateNodesCoordinatorRegistry env buff of
            Inl e \<Rightarrow> (Inl (ErrMarshal e), nc)
          | Inr config \<Rightarrow>
              let nc1 = nc\<lparr>savedStateKey := key, currentEpoch := registryCurrentEpoch config\<rparr>
              in case registryToNodesCoordinator env helper nc1 config of
                   Inl e \<Rightarrow> (Inl e, nc1)
                 | Inr cfgs \<Rightarrow> (Inr (), nc1\<lparr>nodesConfig := cfgs\<rparr>))"

section \<open>The start of an epoch\<close>

record metaHeader =
  mhIsStartOfEpochBlock :: bool
  mhIsMetaBlock :: bool
  mhPrevRandSeed :: bytes
  mhEpoch :: u32

record miniBlock =
  mbIsPeerBlock :: bool
  mbTxHashes :: "bytes list"

datatype bodyHandler = NilBody | OtherBody | BlockBody "miniBlock list"

definition getShardValidatorInfoData :: "coordEnv \<Rightarrow> bytes \<Rightarrow> u32 \<Rightarrow> string + shardValidatorInfo" where
  "getShardValidatorInfoData env txHash epoch =
     (if ceRefactorPeersMiniBlocks env epoch then ceGetValidatorInfo env txHash else ceUnmarshalValidatorInfo env txHash)"

fun validatorInfoLoop :: "coordEnv \<Rightarrow> u32 \<Rightarrow> bytes list \<Rightarrow> coordError + shardValidatorInfo list" where
  "validatorInfoLoop env epoch [] = Inr []"
| "validatorInfoLoop env epoch (txHash # rest) =
     (case getShardValidatorInfoData env txHash epoch of
        Inl e \<Rightarrow> Inl (ErrInfo e)
      | Inr info \<Rightarrow> (case validatorInfoLoop env epoch rest of Inl e \<Rightarrow> Inl e | Inr infos \<Rightarrow> Inr (info # infos)))"

fun createValidatorInfoFromBody :: "coordEnv \<Rightarrow> bodyHandler \<Rightarrow> u32 \<Rightarrow> coordError + shardValidatorInfo list" where
  "createValidatorInfoFromBody env NilBody epoch = Inl ErrNilBlockBody"
| "createValidatorInfoFromBody env OtherBody epoch = Inl ErrWrongTypeAssertion"
| "createValidatorInfoFromBody env (BlockBody miniBlocks) epoch =
     validatorInfoLoop env epoch (concat (map mbTxHashes (filter mbIsPeerBlock miniBlocks)))"

definition updateEpochFlags :: "coordEnv \<Rightarrow> u32 \<Rightarrow> nodesCoordinator \<Rightarrow> nodesCoordinator" where
  "updateEpochFlags env epoch nc =
     nc\<lparr>coordStakingV4Started := epoch \<ge> ceStakingV4Step1 env, coordStakingV4Step2 := epoch \<ge> ceStakingV4Step2 env\<rparr>"

definition shufflerArgs :: "coordEnv \<Rightarrow> epochNodesConfig \<Rightarrow> nodesMap \<Rightarrow> validator list \<Rightarrow> bytes \<Rightarrow> u32 \<Rightarrow> argsUpdateNodes" where
  "shufflerArgs env cfg additionalLeaving auction randomness epoch =
     \<lparr>auEligible = eligibleMap cfg, auWaiting = waitingMap cfg, auNewNodes = newList cfg,
      auUnStakeLeaving = createSortedListFromMap (ceOrder env SortLeaving) (leavingMap cfg),
      auAdditionalLeaving = createSortedListFromMap (ceOrder env SortAdditional) additionalLeaving,
      auAuction = auction, auRand = randomness, auNbShards = nbShards cfg, auEpoch = epoch\<rparr>"

text \<open>The common part of \<^verbatim>\<open>EpochStartPrepare\<close> and \<^verbatim>\<open>SetNodesConfigFromValidatorsInfo\<close>: from the list of validators to the arguments of \<^verbatim>\<open>setNodesPerShards\<close>.\<close>

definition computeNewNodes ::
  "coordEnv \<Rightarrow> coordHelper \<Rightarrow> bool \<Rightarrow> u32 \<Rightarrow> bytes \<Rightarrow> shardValidatorInfo list \<Rightarrow> nodesCoordinator
     \<Rightarrow> (coordError + resUpdateNodes \<times> nodesMap) \<times> nodesCoordinator" where
  "computeNewNodes env helper passAuction epoch randomness validatorsInfo nc =
     (case computeNodesConfigFromList helper nc validatorsInfo of
        Inl e \<Rightarrow> (Inl e, nc)
      | Inr newNodesConfig \<Rightarrow>
      case hComputeAdditionalLeaving helper validatorsInfo of
        Inl e \<Rightarrow> (Inl e, nc)
      | Inr additionalLeavingMap \<Rightarrow>
      case UpdateNodeLists (ceSha env) (ceShufflerOrders env) (shuffler nc)
             (shufflerArgs env newNodesConfig additionalLeavingMap (if passAuction then auctionList newNodesConfig else []) randomness epoch) of
        (rhs, Inl e) \<Rightarrow> (Inl (ShufflerErr e), nc\<lparr>shuffler := rhs\<rparr>)
      | (rhs, Inr res) \<Rightarrow>
          (Inr (res, fst (createActuallyLeavingPerShards (leavingMap newNodesConfig) additionalLeavingMap (resLeaving res))), nc\<lparr>shuffler := rhs\<rparr>))"

definition installNodes :: "coordEnv \<Rightarrow> coordHelper \<Rightarrow> resUpdateNodes \<Rightarrow> nodesMap \<Rightarrow> u32 \<Rightarrow> nodesCoordinator \<Rightarrow> (coordError + unit) \<times> nodesCoordinator" where
  "installNodes env helper res leaving epoch nc =
     setNodesPerShards env helper (Some (resEligible res)) (Some (resWaiting res)) leaving (resShuffledOut res) epoch (resLowWaitingList res) nc"

text \<open>An error of \<^verbatim>\<open>setNodesPerShards\<close> is logged and the function goes on.\<close>

definition EpochStartPrepare :: "coordEnv \<Rightarrow> coordHelper \<Rightarrow> metaHeader \<Rightarrow> bodyHandler \<Rightarrow> nodesCoordinator \<Rightarrow> nodesCoordinator" where
  "EpochStartPrepare env helper metaHdr body nc =
     (let randomness = mhPrevRandSeed metaHdr; newEpoch = mhEpoch metaHdr
      in if \<not> mhIsStartOfEpochBlock metaHdr \<or> \<not> mhIsMetaBlock metaHdr then nc
         else if body = NilBody \<and> newEpoch = currentEpoch nc then nc
         else
           let nc1 = updateEpochFlags env newEpoch nc
           in case createValidatorInfoFromBody env body newEpoch of
                Inl e \<Rightarrow> nc1
              | Inr allValidatorInfo \<Rightarrow>
                  (case computeNewNodes env helper True newEpoch randomness allValidatorInfo nc1 of
                     (Inl e, nc2) \<Rightarrow> nc2
                   | (Inr (res, leavingNodesMap), nc2) \<Rightarrow>
                       let nc3 = snd (installNodes env helper res leavingNodesMap newEpoch nc2);
                           nc4 = fillPublicKeyToValidatorMap env nc3;
                           nc5 = snd (saveState env randomness newEpoch nc4)
                       in nc5\<lparr>savedStateKey := randomness, consensusGroupCacher := Map.empty\<rparr>))"

definition EpochStartAction :: "coordEnv \<Rightarrow> u32 \<Rightarrow> nodesCoordinator \<Rightarrow> nodesCoordinator" where
  "EpochStartAction env newEpoch nc =
     (let epochToRemove = newEpoch - of_nat nodesCoordinatorStoredEpochs;
          nc1 = nc\<lparr>currentEpoch := newEpoch\<rparr>;
          nc2 = snd (saveState env (savedStateKey nc1) newEpoch nc1)
      in if sint epochToRemove \<ge> 0
         then nc2\<lparr>nodesConfig := (\<lambda>e. if e \<le> epochToRemove then None else nodesConfig nc2 e)\<rparr> else nc2)"

definition removeOlderEpochs :: "u32 \<Rightarrow> u32 \<Rightarrow> nodesCoordinator \<Rightarrow> nodesCoordinator" where
  "removeOlderEpochs epoch maxDelta nc =
     (if card (dom (nodesConfig nc)) \<ge> unat maxDelta
      then nc\<lparr>nodesConfig := (\<lambda>e. if e \<le> epoch - maxDelta then None else nodesConfig nc e)\<rparr> else nc)"

definition SetNodesConfigFromValidatorsInfo ::
  "coordEnv \<Rightarrow> coordHelper \<Rightarrow> u32 \<Rightarrow> bytes \<Rightarrow> shardValidatorInfo list \<Rightarrow> nodesCoordinator \<Rightarrow> (coordError + unit) \<times> nodesCoordinator" where
  "SetNodesConfigFromValidatorsInfo env helper epoch randomness validatorsInfo nc =
     (case computeNewNodes env helper False epoch randomness validatorsInfo nc of
        (Inl e, nc1) \<Rightarrow> (Inl e, nc1)
      | (Inr (res, leavingNodesMap), nc1) \<Rightarrow>
          (case installNodes env helper res leavingNodesMap epoch nc1 of
             (Inl e, nc2) \<Rightarrow> (Inl e, nc2)
           | (Inr _, nc2) \<Rightarrow> (Inr (), removeOlderEpochs epoch (of_nat nodesCoordinatorStoredEpochs) nc2)))"

definition IsEpochInConfig :: "nodesCoordinator \<Rightarrow> u32 \<Rightarrow> bool" where
  "IsEpochInConfig nc epoch = (nodesConfig nc epoch \<noteq> None)"

section \<open>Creation\<close>

record argNodesCoordinator =
  argShardConsensusGroupSize :: int
  argMetaConsensusGroupSize :: int
  argNbShards :: u32
  argShardIDAsObserver :: shardID
  argEligibleNodes :: "nodesMap option"
  argWaitingNodes :: "nodesMap option"
  argSelfPublicKey :: bytes
  argEpoch :: u32
  argStartEpoch :: u32
  argShuffler :: randHashShuffler
  argBootStorer :: "bytes \<rightharpoonup> bytes"
  argConsensusGroupCache :: groupCache
  argIsFullArchive :: bool

text \<open>The checks of \<^verbatim>\<open>checkArguments\<close> on values; those on \<^verbatim>\<open>nil\<close> components have no counterpart.\<close>

definition checkArguments :: "argNodesCoordinator \<Rightarrow> coordError option" where
  "checkArguments a =
     (if argShardConsensusGroupSize a < 1 \<or> argMetaConsensusGroupSize a < 1 then Some ErrInvalidConsensusGroupSize
      else if argNbShards a < 1 then Some ErrInvalidNumberOfShards
      else if argShardIDAsObserver a \<ge> argNbShards a \<and> argShardIDAsObserver a \<noteq> MetachainShardId then Some ErrInvalidShardId
      else if length (argSelfPublicKey a) = 0 then Some ErrNilPubKey
      else None)"

definition NewIndexHashedNodesCoordinator :: "coordEnv \<Rightarrow> argNodesCoordinator \<Rightarrow> coordError + nodesCoordinator" where
  "NewIndexHashedNodesCoordinator env a =
     (case checkArguments a of
        Some e \<Rightarrow> Inl e
      | None \<Rightarrow>
          let pk = argSelfPublicKey a;
              nc0 = \<lparr>shardIDAsObserver = argShardIDAsObserver a, currentEpoch = argEpoch a,
                     shardConsensusGroupSize = argShardConsensusGroupSize a, metaConsensusGroupSize = argMetaConsensusGroupSize a,
                     numTotalEligible = 0, selfPubKey = pk, savedStateKey = ceHasher env pk, shuffler = argShuffler a,
                     bootStorer = argBootStorer a,
                     nodesConfig = [argEpoch a \<mapsto> emptyConfig\<lparr>nbShards := argNbShards a, cfgShardID := argShardIDAsObserver a\<rparr>],
                     consensusGroupCacher = argConsensusGroupCache a, startEpoch = argStartEpoch a, publicKeyToValidatorMap = Map.empty,
                     isFullArchive = argIsFullArchive a, stopSignalled = False, nodeTypeIsValidator = False, shuffledOutCalls = [],
                     coordStakingV4Step2 = False, coordStakingV4Started = False\<rparr>
          in case setNodesPerShards env baseHelper (argEligibleNodes a) (argWaitingNodes a) Map.empty Map.empty (argEpoch a) False nc0 of
               (Inl e, _) \<Rightarrow> Inl e
             | (Inr _, nc1) \<Rightarrow> Inr (snd (saveState env (savedStateKey nc1) (argEpoch a) (fillPublicKeyToValidatorMap env nc1))))"

text \<open>When there is no configuration for the current epoch, the selectors are created for a new one that is not kept.\<close>

definition NewIndexHashedNodesCoordinatorWithRater :: "coordEnv \<Rightarrow> (u32 \<Rightarrow> u32) \<Rightarrow> nodesCoordinator \<Rightarrow> coordError + nodesCoordinator" where
  "NewIndexHashedNodesCoordinatorWithRater env getChance nc =
     (case nodesConfig nc (currentEpoch nc) of
        None \<Rightarrow> (case createSelectors env (raterHelper getChance) emptyConfig of Inl e \<Rightarrow> Inl e | Inr _ \<Rightarrow> Inr nc)
      | Some cfg \<Rightarrow>
          (case createSelectors env (raterHelper getChance) cfg of
             Inl e \<Rightarrow> Inl e
           | Inr sel \<Rightarrow> Inr (nc\<lparr>nodesConfig := (nodesConfig nc)(currentEpoch nc \<mapsto> cfg\<lparr>selectors := sel\<rparr>)\<rparr>)))"

end
