(* ===== verification/CoordinatorGroups.thy ===== *)
theory CoordinatorGroups
  imports CoordinatorEpochs ShufflerLemmas
begin

text \<open>
  Consensus groups from installed configurations: the contract of a coordinator's helper (\<^verbatim>\<open>weighted_helper\<close>), which configurations
  \<^verbatim>\<open>setNodesPerShards\<close> installs, what the cache of groups may hold, and the invariant of a coordinator over its operations.
\<close>

section \<open>Weights\<close>

locale weighted_helper =
  fixes helper :: coordHelper
  assumes weights_length: "length (hValidatorsWeights helper vs) = length vs"
    and weights_positive: "w \<in> set (hValidatorsWeights helper vs) \<Longrightarrow> w \<noteq> 0"
begin

lemma selector_exists:
  assumes "vs \<noteq> []"
  shows "NewSelectorExpandedList (hValidatorsWeights helper vs) (Some h) =
    Inr \<lparr>expandedList = expanded (hValidatorsWeights helper vs) 0, selHasher = h, uniqueItems = of_nat (length vs)\<rparr>"
proof -
  have "hValidatorsWeights helper vs \<noteq> []" using assms weights_length [of vs] by (metis length_0_conv)
  then show ?thesis using NewSelectorExpandedList_ok [of "hValidatorsWeights helper vs"] weights_positive weights_length by simp
qed

lemma selectorsLoop_ok:
  assumes "\<forall>s\<in>set ss. listOf eligible s \<noteq> []"
  shows "selectorsLoop env helper eligible ss sel = Inr (sel ++ (\<lambda>s. if s \<in> set ss then
    Some \<lparr>expandedList = expanded (hValidatorsWeights helper (listOf eligible s)) 0, selHasher = ceHasher env, uniqueItems = of_nat (length (listOf eligible s))\<rparr>
    else None))"
  using assms by (induction ss arbitrary: sel) (auto simp: selector_exists map_add_def fun_eq_iff split: option.splits)

end

interpretation base: weighted_helper baseHelper
  by unfold_locales (auto simp: baseHelper_def ValidatorsWeights_def defaultSelectionChances_def)

lemma raterHelper_weighted:
  assumes "getChance 0 \<noteq> 0"
  shows "weighted_helper (raterHelper getChance)"
proof
  fix vs w
  show "length (hValidatorsWeights (raterHelper getChance) vs) = length vs"
    by (simp add: raterHelper_def ValidatorsWeightsWithRater_def Let_def)
  assume "w \<in> set (hValidatorsWeights (raterHelper getChance) vs)"
  then show "w \<noteq> 0" using assms
    by (auto simp: raterHelper_def ValidatorsWeightsWithRater_def Let_def not_less word_le_0_iff split: if_splits)
qed

section \<open>Which configurations are installed\<close>

text \<open>The shards of a configuration.\<close>

definition shardsOf :: "epochNodesConfig \<Rightarrow> shardID set" where
  "shardsOf cfg = {s. s < nbShards cfg \<or> s = MetachainShardId}"

text \<open>Every shard has a selector for its eligible list, which is long enough for the consensus group.\<close>

definition cfgOk :: "coordEnv \<Rightarrow> nodesCoordinator \<Rightarrow> epochNodesConfig \<Rightarrow> bool" where
  "cfgOk env nc cfg \<longleftrightarrow> (\<forall>s\<in>shardsOf cfg. ConsensusGroupSize nc s \<le> int (length (listOf (eligibleMap cfg) s)) \<and>
     (\<exists>ws sel. length ws = length (listOf (eligibleMap cfg) s) \<and> NewSelectorExpandedList ws (Some (ceHasher env)) = Inr sel \<and> selectors cfg s = Some sel))"

lemma eligibleSizeLoop_ok:
  "eligibleSizeLoop el g ss n = Inr m \<Longrightarrow> \<forall>s\<in>set ss. g \<le> int (length (listOf el s))"
  by (induction el g ss n rule: eligibleSizeLoop.induct) (auto simp: Let_def split: if_splits)

lemma eligibleSizeLoop_small:
  "eligibleSizeLoop el g ss n = Inl e \<Longrightarrow> \<exists>s\<in>set ss. int (length (listOf el s)) < g"
  by (induction el g ss n rule: eligibleSizeLoop.induct) (auto simp: Let_def split: if_splits)

text \<open>Every shard has enough eligible nodes for its consensus group.\<close>

definition enoughEligible :: "nodesCoordinator \<Rightarrow> nodesMap \<Rightarrow> bool" where
  "enoughEligible nc e \<longleftrightarrow> metaConsensusGroupSize nc \<le> int (length (listOf e MetachainShardId)) \<and>
     (\<forall>s < of_int (int (card (dom e)) - 1). shardConsensusGroupSize nc \<le> int (length (listOf e s)))"

lemma in_shardIds: "s \<in> set (shardIds n) \<longleftrightarrow> s < n"
proof
  assume "s \<in> set (shardIds n)"
  then obtain i where i: "i < unat n" "s = of_nat i" by (auto simp: shardIds_def)
  then have "unat s \<le> i" by (metis unat_of_nat mod_less_eq_dividend)
  then show "s < n" using i(1) by (simp add: word_less_nat_alt)
next
  assume "s < n"
  then have "unat s < unat n" by (simp add: word_less_nat_alt)
  then have "of_nat (unat s) \<in> set (shardIds n)" unfolding shardIds_def by (metis atLeastLessThan_iff image_eqI list.set_map set_upt zero_le)
  then show "s \<in> set (shardIds n)" by simp
qed

text \<open>A map with one more shard than the number of those that are checked has no other shards.\<close>

lemma eligible_shards:
  fixes el :: nodesMap
  assumes "n = (of_int (int (card (dom el)) - 1) :: u32)" and "listOf el MetachainShardId \<noteq> []" and "\<forall>s. s < n \<longrightarrow> listOf el s \<noteq> []"
  shows "dom el = {s. s < n} \<union> {MetachainShardId}" and "\<forall>s\<in>dom el. listOf el s \<noteq> []"
proof -
  have fin: "finite (dom el)" by simp
  have sub: "{s. s < n} \<union> {MetachainShardId} \<subseteq> dom el" using assms(2,3) by (auto simp: listOf_def split: option.splits)
  have c: "1 \<le> card (dom el)" using sub fin by (metis One_nat_def Suc_leI Un_insert_right card_gt_0_iff insert_subset empty_iff)
  have "card (dom el) \<le> card (UNIV :: u32 set)" by (intro card_mono) simp_all
  then have b: "card (dom el) \<le> 2 ^ 32" by (simp add: card_word)
  obtain k where k: "card (dom el) = Suc k" using c by (metis Suc_le_D One_nat_def)
  have "n = of_nat k" using assms(1) by (simp add: k)
  then have un: "unat n = card (dom el) - 1" using b k by (simp add: unat_of_nat)
  have "{s. s < n} = set (shardIds n)" by (auto simp: in_shardIds)
  moreover have "distinct (shardIds n)"
    unfolding shardIds_def distinct_map using un b c by (auto intro!: inj_on_subset [OF of_nat_u32_inj])
  ultimately have "card {s. s < n} = length (shardIds n)" by (simp only: distinct_card)
  then have cn: "card {s. s < n} = card (dom el) - 1" using un by (simp add: shardIds_def)
  have "MetachainShardId \<notin> {s. s < n}"
  proof
    assume "MetachainShardId \<in> {s. s < n}"
    then have "unat MetachainShardId < unat n" by (simp add: word_less_nat_alt)
    then show False using un b by (simp add: MetachainShardId_def)
  qed
  then have "card ({s. s < n} \<union> {MetachainShardId}) = card (dom el)" using cn c by simp
  then show d: "dom el = {s. s < n} \<union> {MetachainShardId}" using sub fin card_subset_eq by metis
  show "\<forall>s\<in>dom el. listOf el s \<noteq> []" unfolding d using assms(2,3) by auto
qed

definition sizesOk :: "nodesCoordinator \<Rightarrow> bool" where
  "sizesOk nc \<longleftrightarrow> 1 \<le> shardConsensusGroupSize nc \<and> 1 \<le> metaConsensusGroupSize nc"

text \<open>What \<^verbatim>\<open>setNodesPerShards\<close> leaves as it is.\<close>

definition sameSizes :: "nodesCoordinator \<Rightarrow> nodesCoordinator \<Rightarrow> bool" where
  "sameSizes nc nc' \<longleftrightarrow> shardConsensusGroupSize nc' = shardConsensusGroupSize nc \<and> metaConsensusGroupSize nc' = metaConsensusGroupSize nc"

lemma cfgOk_sizes: "sameSizes nc nc' \<Longrightarrow> cfgOk env nc' cfg \<longleftrightarrow> cfgOk env nc cfg"
  by (simp add: cfgOk_def sameSizes_def ConsensusGroupSize_def)

lemma createSelectors_ok:
  assumes "weighted_helper helper" and "goRange (ceOrder env Selectors)" and "\<forall>s\<in>dom (eligibleMap cfg). listOf (eligibleMap cfg) s \<noteq> []"
  shows "\<exists>sel. createSelectors env helper cfg = Inr sel \<and> (\<forall>s\<in>dom (eligibleMap cfg).
    NewSelectorExpandedList (hValidatorsWeights helper (listOf (eligibleMap cfg) s)) (Some (ceHasher env)) = Inr (the (sel s)) \<and> sel s \<noteq> None)"
proof -
  let ?o = "ceOrder env Selectors (dom (eligibleMap cfg))" and ?el = "eligibleMap cfg"
  define sel where "sel = Map.empty ++ (\<lambda>s. if s \<in> set ?o then Some \<lparr>expandedList = expanded (hValidatorsWeights helper (listOf ?el s)) 0,
    selHasher = ceHasher env, uniqueItems = of_nat (length (listOf ?el s))\<rparr> else None)"
  have o: "set ?o = dom ?el" by (rule goRange_set [OF assms(2)])
  then have ne: "\<forall>s\<in>set ?o. listOf ?el s \<noteq> []" using assms(3) by simp
  have "createSelectors env helper cfg = Inr sel"
    unfolding createSelectors_def sel_def by (rule weighted_helper.selectorsLoop_ok [OF assms(1) ne])
  moreover have "NewSelectorExpandedList (hValidatorsWeights helper (listOf ?el s)) (Some (ceHasher env)) = Inr (the (sel s)) \<and> sel s \<noteq> None"
    if "s \<in> dom ?el" for s
  proof -
    have "listOf ?el s \<noteq> []" using that assms(3) by blast
    moreover have "s \<in> set ?o" using that o by blast
    ultimately show ?thesis unfolding sel_def weighted_helper.selector_exists [OF assms(1) \<open>listOf ?el s \<noteq> []\<close>] by simp
  qed
  ultimately show ?thesis by (intro exI [of _ sel]) simp
qed

lemma setNodesPerShards_cases:
  assumes "weighted_helper helper" and "goRange (ceOrder env Selectors)" and "sizesOk nc"
    and "setNodesPerShards env helper el wa le so epoch low nc = (r, nc')"
  shows "(r \<noteq> Inr () \<and> nc' = nc \<and> \<not> (\<exists>e w. el = Some e \<and> wa = Some w \<and> enoughEligible nc e)) \<or>
    (r = Inr () \<and> sameSizes nc nc' \<and> consensusGroupCacher nc' = consensusGroupCacher nc \<and>
     (\<exists>cfg. nodesConfig nc' = (nodesConfig nc)(epoch \<mapsto> cfg) \<and> el = Some (eligibleMap cfg) \<and> wa = Some (waitingMap cfg) \<and> cfgOk env nc cfg \<and>
        nbShards cfg = of_int (int (card (dom (eligibleMap cfg))) - 1)))"
proof (cases "\<exists>e w. el = Some e \<and> wa = Some w")
  case True
  then obtain e w where ew: "el = Some e" "wa = Some w" by blast
  define n where "n = (of_int (int (card (dom e)) - 1) :: u32)"
  show ?thesis
  proof (cases "int (length (listOf e MetachainShardId)) < metaConsensusGroupSize nc")
    case True
    then show ?thesis using assms(4) by (auto simp: setNodesPerShards_def ew Let_def enoughEligible_def)
  next
    case meta: False
    show ?thesis
    proof (cases "eligibleSizeLoop e (shardConsensusGroupSize nc) (shardIds n) (of_nat (length (listOf e MetachainShardId)))")
      case (Inl a)
      have "\<not> enoughEligible nc e" using eligibleSizeLoop_small [OF Inl] unfolding enoughEligible_def n_def [symmetric] by (auto simp: in_shardIds)
      then show ?thesis using assms(4) meta Inl unfolding n_def by (auto simp: setNodesPerShards_def ew Let_def)
    next
      case (Inr numTotal)
      have sh: "shardConsensusGroupSize nc \<le> int (length (listOf e s))" if "s < n" for s
        using eligibleSizeLoop_ok [OF Inr] that by (simp add: in_shardIds)
      have ne: "listOf e MetachainShardId \<noteq> []" "\<forall>s. s < n \<longrightarrow> listOf e s \<noteq> []" using meta sh assms(3) by (force simp: sizesOk_def)+
      note shards = eligible_shards [OF n_def ne]
      define cfg1 where "cfg1 = (case nodesConfig nc epoch of None \<Rightarrow> emptyConfig | Some c \<Rightarrow> c)\<lparr>nbShards := n, eligibleMap := e,
          waitingMap := w, leavingMap := le, shuffledOutMap := so, lowWaitingList := low\<rparr>"
      obtain self v where self: "computeShardForSelfPublicKey env
          (if nodesConfig nc epoch = None then nc else nc\<lparr>nodesConfig := (nodesConfig nc)(epoch \<mapsto> cfg1)\<rparr>) cfg1 = (self, v)" by force
      define cfg2 where "cfg2 = cfg1\<lparr>cfgShardID := self\<rparr>"
      have el2: "eligibleMap cfg2 = e" "nbShards cfg2 = n" "waitingMap cfg2 = w" by (simp_all add: cfg2_def cfg1_def)
      obtain sel where sel: "createSelectors env helper cfg2 = Inr sel" "\<forall>s\<in>dom e.
          NewSelectorExpandedList (hValidatorsWeights helper (listOf e s)) (Some (ceHasher env)) = Inr (the (sel s)) \<and> sel s \<noteq> None"
        using createSelectors_ok [OF assms(1,2), of cfg2] shards(2) by (auto simp: el2)
      have "setNodesPerShards env helper el wa le so epoch low nc = (Inr (), nc\<lparr>nodesConfig := (nodesConfig nc)(epoch \<mapsto> cfg2\<lparr>selectors := sel\<rparr>),
          numTotalEligible := numTotal, nodeTypeIsValidator := v, stopSignalled := stopSignalled nc \<or> (isFullArchive nc \<and> v)\<rparr>)"
        unfolding setNodesPerShards_def ew prod.case option.case Let_def n_def [symmetric]
        unfolding cfg1_def [symmetric] self if_not_P [OF meta] Inr sum.case prod.case cfg2_def [symmetric] sel(1) by (rule refl)
      moreover have "cfgOk env nc (cfg2\<lparr>selectors := sel\<rparr>)"
      proof -
        have "\<exists>ws x. length ws = length (listOf e s) \<and> NewSelectorExpandedList ws (Some (ceHasher env)) = Inr x \<and> sel s = Some x" if "s \<in> dom e" for s
          using that sel(2) weighted_helper.weights_length [OF assms(1)] by (metis option.exhaust_sel)
        moreover have "ConsensusGroupSize nc s \<le> int (length (listOf e s))" if "s \<in> dom e" for s
          using that meta sh unfolding shards(1) by (auto simp: ConsensusGroupSize_def)
        ultimately show ?thesis unfolding cfgOk_def shardsOf_def using shards(1) by (auto simp: el2)
      qed
      ultimately show ?thesis using assms(4) ew by (auto simp: sameSizes_def el2 n_def intro!: exI [of _ "cfg2\<lparr>selectors := sel\<rparr>"])
    qed
  qed
qed (use assms(4) in \<open>auto simp: setNodesPerShards_def split: option.splits\<close>)

section \<open>Drawing a group\<close>

lemma group_drawn:
  assumes "cfgOk env nc cfg" and "s \<in> shardsOf cfg" and "sizesOk nc" and hash: "\<And>b. 8 \<le> length (ceHasher env b)"
    and "length (listOf (eligibleMap cfg) s) < 2 ^ 32" and "seed \<noteq> []"
  shows "\<exists>ws. length ws = length (listOf (eligibleMap cfg) s) \<and> (let idxs = drawLoop (drawn (ceHasher env) seed) (nat (ConsensusGroupSize nc s)) 0 (expanded ws 0) in
    selectValidators (selectors cfg s) seed (of_int (ConsensusGroupSize nc s)) (listOf (eligibleMap cfg) s) = Inr (map (\<lambda>i. listOf (eligibleMap cfg) s ! unat i) idxs) \<and>
    length idxs = nat (ConsensusGroupSize nc s) \<and> distinct (map unat idxs) \<and> (\<forall>i\<in>set idxs. unat i < length (listOf (eligibleMap cfg) s)))"
proof -
  let ?el = "listOf (eligibleMap cfg) s"
  obtain ws sel where ws: "length ws = length ?el" "NewSelectorExpandedList ws (Some (ceHasher env)) = Inr sel" "selectors cfg s = Some sel"
    and le: "ConsensusGroupSize nc s \<le> int (length ?el)"
    using assms(1,2) unfolding cfgOk_def by blast
  have pos: "1 \<le> ConsensusGroupSize nc s" using assms(3) by (simp add: sizesOk_def ConsensusGroupSize_def)
  define k where "k = nat (ConsensusGroupSize nc s)"
  have k: "ConsensusGroupSize nc s = int k" "0 < k" "k \<le> length ws" using pos le ws(1) by (simp_all add: k_def)
  have uk: "unat (of_int (ConsensusGroupSize nc s) :: u32) = k" using k assms(5) ws(1) by (simp add: unat_of_nat)
  have wpos: "\<forall>w\<in>set ws. w \<noteq> 0" using ws(2) by (auto simp: NewSelectorExpandedList_def expandList_def expandListLoop_eq split: if_splits)
  define idxs where "idxs = drawLoop (drawn (ceHasher env) seed) k 0 (expanded ws 0)"
  have "0 < (of_int (ConsensusGroupSize nc s) :: u32)" "(of_int (ConsensusGroupSize nc s) :: u32) \<le> of_nat (length ws)"
    using uk k assms(5) ws(1) by (simp_all add: word_less_nat_alt word_le_nat_alt unat_of_nat)
  then have sl: "Select sel seed (of_int (ConsensusGroupSize nc s)) = Inr idxs"
    using Select_draws [OF ws(2) _ hash assms(6)] assms(5) ws(1) uk by (simp add: idxs_def)
  have c: "card (set (expanded ws 0)) = length ws" using card_expanded [OF wpos] assms(5) ws(1) by simp
  then have p: "length idxs = k" "distinct idxs" "set idxs \<subseteq> set (expanded ws 0)" using drawLoop_props [of k "expanded ws 0"] k(3) by (auto simp: idxs_def)
  have lt: "unat i < length ?el" if i: "i \<in> set idxs" for i
  proof -
    obtain j where "j < length ws" "i = of_nat j" using i p(3) set_expanded [OF wpos, of 0] by auto
    then show ?thesis using ws(1) assms(5) by (simp add: unat_of_nat)
  qed
  have "selectValidators (selectors cfg s) seed (of_int (ConsensusGroupSize nc s)) ?el = Inr (map (\<lambda>i. ?el ! unat i) idxs)"
    using lt by (auto simp: selectValidators_def ws(3) assms(6) sl uk p(1) not_le)
  moreover have "distinct (map unat idxs)" using p(2) by (auto simp: distinct_map inj_on_def intro: unsigned_word_eqI)
  ultimately have "length ws = length ?el \<and> (selectValidators (selectors cfg s) seed (of_int (ConsensusGroupSize nc s)) ?el = Inr (map (\<lambda>i. ?el ! unat i) idxs) \<and>
    length idxs = nat (ConsensusGroupSize nc s) \<and> distinct (map unat idxs) \<and> (\<forall>i\<in>set idxs. unat i < length ?el))"
    using ws(1) p(1) lt k_def by blast
  then show ?thesis unfolding Let_def idxs_def k_def by (rule exI)
qed

section \<open>Decimal texts\<close>

lemma parseDigits_append: "parseDigits (xs @ ys) a = (case parseDigits xs a of None \<Rightarrow> None | Some b \<Rightarrow> parseDigits ys b)"
  by (induction xs arbitrary: a) auto

lemma parseDigits_natDecimal: "parseDigits (natDecimal n) 0 = Some n"
proof (induction n rule: natDecimal.induct)
  case (1 n)
  show ?case
  proof (cases "n < 10")
    case True
    then show ?thesis by (subst natDecimal.simps) (simp add: of_char_of)
  next
    case False
    then have "parseDigits (natDecimal (n div 10) @ [char_of (48 + n mod 10)]) 0 = Some (n div 10 * 10 + n mod 10)"
      using "1.IH" by (simp add: parseDigits_append of_char_of)
    then show ?thesis using False by (subst natDecimal.simps) simp
  qed
qed

lemma natDecimal_digits: "c \<in> set (natDecimal n) \<Longrightarrow> 48 \<le> (of_char c :: nat) \<and> of_char c \<le> (57 :: nat)"
proof -
  have "parseDigits s a \<noteq> None \<Longrightarrow> c \<in> set s \<Longrightarrow> 48 \<le> (of_char c :: nat) \<and> of_char c \<le> (57 :: nat)" for s a
    by (induction s arbitrary: a) (auto split: if_splits)
  then show "c \<in> set (natDecimal n) \<Longrightarrow> 48 \<le> (of_char c :: nat) \<and> of_char c \<le> (57 :: nat)"
    using parseDigits_natDecimal [of n] by (metis option.distinct(1))
qed

lemma natDecimal_inj: "natDecimal m = natDecimal n \<Longrightarrow> m = n"
  by (metis option.inject parseDigits_natDecimal)

lemma no_separator: "CHR ''_'' \<notin> set (natDecimal n)"
  using natDecimal_digits [of "CHR ''_''" n] by auto

lemma last_separator:
  "xs @ c # ds = ys @ c # es \<Longrightarrow> c \<notin> set ds \<Longrightarrow> c \<notin> set es \<Longrightarrow> xs = ys \<and> ds = es"
proof (induction xs arbitrary: ys)
  case Nil
  then show ?case by (cases ys) auto
next
  case (Cons x xs)
  then show ?case by (cases ys) auto
qed

lemma groupKey_inj:
  assumes "groupKey r a s e = groupKey r' a' s' e'"
  shows "r = r' \<and> a = a' \<and> s = s' \<and> e = e'"
proof -
  note sep = last_separator [OF _ no_separator no_separator]
  have "(r @ ''_'' @ natDecimal (unat a) @ ''_'' @ natDecimal (unat s)) @ CHR ''_'' # natDecimal (unat e) =
      (r' @ ''_'' @ natDecimal (unat a') @ ''_'' @ natDecimal (unat s')) @ CHR ''_'' # natDecimal (unat e')"
    using assms by (simp add: groupKey_def)
  from sep [OF this] have e: "natDecimal (unat e) = natDecimal (unat e')"
    and "(r @ ''_'' @ natDecimal (unat a)) @ CHR ''_'' # natDecimal (unat s) = (r' @ ''_'' @ natDecimal (unat a')) @ CHR ''_'' # natDecimal (unat s')"
    by simp_all
  from sep [OF this(2)] have s: "natDecimal (unat s) = natDecimal (unat s')"
    and "r @ CHR ''_'' # natDecimal (unat a) = r' @ CHR ''_'' # natDecimal (unat a')" by simp_all
  from sep [OF this(2)] show ?thesis using e s by (auto dest!: natDecimal_inj intro: unsigned_word_eqI)
qed

section \<open>The invariant of a coordinator\<close>

text \<open>A cached group is the one that the configuration of its epoch gives.\<close>

definition groupOf :: "nodesCoordinator \<Rightarrow> epochNodesConfig \<Rightarrow> bytes \<Rightarrow> u64 \<Rightarrow> shardID \<Rightarrow> coordError + validator list" where
  "groupOf nc cfg randomness round shard = selectValidators (selectors cfg shard) (natDecimal (unat round) @ ''-'' @ randomness)
     (of_int (ConsensusGroupSize nc shard)) (listOf (eligibleMap cfg) shard)"

definition groupsOk :: "nodesCoordinator \<Rightarrow> bool" where
  "groupsOk nc \<longleftrightarrow> (\<forall>randomness round shard epoch cfg vs. nodesConfig nc epoch = Some cfg \<longrightarrow>
     consensusGroupCacher nc (groupKey randomness round shard epoch) = Some vs \<longrightarrow> groupOf nc cfg randomness round shard = Inr vs)"

definition envOk :: "(bytes \<Rightarrow> bytes) \<Rightarrow> coordEnv \<Rightarrow> bool" where
  "envOk h env \<longleftrightarrow> ceHasher env = h \<and> goRange (ceOrder env Selectors) \<and> (\<forall>m k v n. ceCachePut env m k v n \<subseteq>\<^sub>m m(k \<mapsto> v))"

definition coordInv :: "(bytes \<Rightarrow> bytes) \<Rightarrow> nodesCoordinator \<Rightarrow> bool" where
  "coordInv h nc \<longleftrightarrow> sizesOk nc \<and> groupsOk nc \<and> (\<forall>env epoch cfg. ceHasher env = h \<longrightarrow> nodesConfig nc epoch = Some cfg \<longrightarrow> cfgOk env nc cfg)"

text \<open>The operations of a coordinator, with any orders of maps and any helper that gives positive weights.\<close>

inductive reachable :: "(bytes \<Rightarrow> bytes) \<Rightarrow> nodesCoordinator \<Rightarrow> bool" for h where
  created: "envOk h env \<Longrightarrow> argConsensusGroupCache a = Map.empty \<Longrightarrow> NewIndexHashedNodesCoordinator env a = Inr nc \<Longrightarrow> reachable h nc"
| rater: "reachable h nc \<Longrightarrow> envOk h env \<Longrightarrow> consensusGroupCacher nc = Map.empty \<Longrightarrow> getChance 0 \<noteq> 0 \<Longrightarrow>
    NewIndexHashedNodesCoordinatorWithRater env getChance nc = Inr nc' \<Longrightarrow> reachable h nc'"
| prepare: "reachable h nc \<Longrightarrow> envOk h env \<Longrightarrow> weighted_helper helper \<Longrightarrow> reachable h (EpochStartPrepare env helper hdr body nc)"
| action: "reachable h nc \<Longrightarrow> reachable h (EpochStartAction env epoch nc)"
| compute: "reachable h nc \<Longrightarrow> envOk h env \<Longrightarrow> reachable h (snd (ComputeConsensusGroup env randomness round shard epoch nc))"

text \<open>What most operations leave alone.\<close>

definition sameGroups :: "nodesCoordinator \<Rightarrow> nodesCoordinator \<Rightarrow> bool" where
  "sameGroups nc nc' \<longleftrightarrow> sameSizes nc nc' \<and> consensusGroupCacher nc' = consensusGroupCacher nc \<and> nodesConfig nc' = nodesConfig nc"

lemma sameGroups_trans: "sameGroups a b \<Longrightarrow> sameGroups b c \<Longrightarrow> sameGroups a c"
  by (simp add: sameGroups_def sameSizes_def)

lemma sameGroups_saveState: "sameGroups nc (snd (saveState env key epoch nc))"
  by (simp add: saveState_def sameGroups_def sameSizes_def split: sum.splits prod.splits)

lemma sameGroups_fill: "sameGroups nc (fillPublicKeyToValidatorMap env nc)"
  by (simp add: fillPublicKeyToValidatorMap_def sameGroups_def sameSizes_def)

lemma sameGroups_new: "sameGroups nc (snd (computeNewNodes env helper b epoch rnd infos nc))"
  by (simp add: computeNewNodes_def sameGroups_def sameSizes_def split: sum.splits prod.splits)

lemma sizes_cong: "sameSizes nc nc' \<Longrightarrow> ConsensusGroupSize nc' = ConsensusGroupSize nc"
  by (simp add: sameSizes_def ConsensusGroupSize_def fun_eq_iff)

text \<open>Dropping configurations and cached groups keeps the invariant.\<close>

lemma coordInv_mono:
  assumes "coordInv h nc" and "sameSizes nc nc'" and "nodesConfig nc' \<subseteq>\<^sub>m nodesConfig nc" and "consensusGroupCacher nc' \<subseteq>\<^sub>m consensusGroupCacher nc"
  shows "coordInv h nc'"
proof -
  have sub: "nodesConfig nc' e = Some c \<Longrightarrow> nodesConfig nc e = Some c" "consensusGroupCacher nc' k = Some g \<Longrightarrow> consensusGroupCacher nc k = Some g" for e c k g
    using assms(3,4) by (metis domI map_le_def)+
  then show ?thesis
    using assms(1,2) cfgOk_sizes [OF assms(2)] sizes_cong [OF assms(2)] unfolding coordInv_def groupsOk_def groupOf_def sizesOk_def sameSizes_def by (auto dest!: sub)
qed

lemma coordInv_same: "coordInv h nc \<Longrightarrow> sameGroups nc nc' \<Longrightarrow> coordInv h nc'"
  unfolding sameGroups_def by (rule coordInv_mono) auto

lemma coordInv_install:
  assumes "coordInv h nc" and "envOk h env" and "weighted_helper helper"
    and "setNodesPerShards env helper el wa le so epoch low nc = (r, nc')" and "nc'' = nc'\<lparr>consensusGroupCacher := Map.empty\<rparr>"
  shows "coordInv h nc''"
proof -
  have s: "sizesOk nc" using assms(1) by (simp add: coordInv_def)
  have g: "goRange (ceOrder env Selectors)" using assms(2) by (simp add: envOk_def)
  from setNodesPerShards_cases [OF assms(3) g s assms(4)] show ?thesis
  proof
    assume "r \<noteq> Inr () \<and> nc' = nc \<and> \<not> (\<exists>e w. el = Some e \<and> wa = Some w \<and> enoughEligible nc e)"
    then show ?thesis using assms(1,5) by (auto intro!: coordInv_mono [OF assms(1)] simp: sameSizes_def)
  next
    assume "r = Inr () \<and> sameSizes nc nc' \<and> consensusGroupCacher nc' = consensusGroupCacher nc \<and>
      (\<exists>cfg. nodesConfig nc' = (nodesConfig nc)(epoch \<mapsto> cfg) \<and> el = Some (eligibleMap cfg) \<and> wa = Some (waitingMap cfg) \<and> cfgOk env nc cfg \<and>
        nbShards cfg = of_int (int (card (dom (eligibleMap cfg))) - 1))"
    then obtain cfg where c: "sameSizes nc nc'" "nodesConfig nc' = (nodesConfig nc)(epoch \<mapsto> cfg)" "cfgOk env nc cfg" by blast
    have "cfgOk e nc cfg" if "ceHasher e = h" for e using c(3) that assms(2) by (simp add: cfgOk_def envOk_def)
    moreover have sz: "sameSizes nc nc''" using c(1) assms(5) by (simp add: sameSizes_def)
    ultimately show ?thesis
      using assms(1,5) c(2) cfgOk_sizes [OF sz] unfolding coordInv_def groupsOk_def sizesOk_def sameSizes_def by (auto simp: fun_upd_def split: if_splits)
  qed
qed

lemma coordInv_prepare:
  assumes "coordInv h nc" and "envOk h env" and "weighted_helper helper"
  shows "coordInv h (EpochStartPrepare env helper hdr body nc)"
proof -
  let ?nc1 = "updateEpochFlags env (mhEpoch hdr) nc"
  have i1: "coordInv h ?nc1" by (rule coordInv_same [OF assms(1)]) (simp add: sameGroups_def sameSizes_def updateEpochFlags_def)
  show ?thesis
  proof (cases "createValidatorInfoFromBody env body (mhEpoch hdr)")
    case (Inl e)
    then show ?thesis using assms(1) i1 by (simp add: EpochStartPrepare_def Let_def)
  next
    case (Inr infos)
    obtain r nc2 where n: "computeNewNodes env helper True (mhEpoch hdr) (mhPrevRandSeed hdr) infos ?nc1 = (r, nc2)" by force
    have i2: "coordInv h nc2" using coordInv_same [OF i1 sameGroups_new] n by (metis snd_conv)
    show ?thesis
    proof (cases r)
      case (Inl e)
      then show ?thesis using assms(1) i2 n Inr by (simp add: EpochStartPrepare_def Let_def)
    next
      case (Inr p)
      obtain res lv where p: "p = (res, lv)" by force
      obtain r3 nc3 where n3: "installNodes env helper res lv (mhEpoch hdr) nc2 = (r3, nc3)" by force
      let ?nc5 = "snd (saveState env (mhPrevRandSeed hdr) (mhEpoch hdr) (fillPublicKeyToValidatorMap env nc3))"
      have "coordInv h (nc3\<lparr>consensusGroupCacher := Map.empty\<rparr>)"
        using coordInv_install [OF i2 assms(2,3)] n3 unfolding installNodes_def by blast
      moreover have "sameGroups nc3 ?nc5" by (rule sameGroups_trans [OF sameGroups_fill sameGroups_saveState])
      ultimately have "coordInv h (?nc5\<lparr>savedStateKey := mhPrevRandSeed hdr, consensusGroupCacher := Map.empty\<rparr>)"
        by (elim coordInv_same) (simp add: sameGroups_def sameSizes_def)
      then show ?thesis using assms(1) \<open>createValidatorInfoFromBody env body (mhEpoch hdr) = Inr infos\<close> n Inr p n3 by (simp add: EpochStartPrepare_def Let_def)
    qed
  qed
qed

lemma coordInv_action:
  assumes "coordInv h nc"
  shows "coordInv h (EpochStartAction env epoch nc)"
proof -
  let ?nc2 = "snd (saveState env (savedStateKey (nc\<lparr>currentEpoch := epoch\<rparr>)) epoch (nc\<lparr>currentEpoch := epoch\<rparr>))"
  have "sameGroups nc (nc\<lparr>currentEpoch := epoch\<rparr>)" by (simp add: sameGroups_def sameSizes_def)
  then have "sameGroups nc ?nc2" by (rule sameGroups_trans [OF _ sameGroups_saveState])
  then show ?thesis unfolding EpochStartAction_def Let_def
    by (intro coordInv_mono [OF assms]) (auto simp: sameGroups_def sameSizes_def map_le_def)
qed

text \<open>A group that is computed is that of the configuration, whether or not it was cached.\<close>

lemma compute_group:
  assumes "groupsOk nc" and "nodesConfig nc epoch = Some cfg" and "shard \<in> shardsOf cfg" and "randomness \<noteq> []"
  shows "fst (ComputeConsensusGroup env randomness round shard epoch nc) = groupOf nc cfg randomness round shard"
proof (cases "consensusGroupCacher nc (groupKey randomness round shard epoch)")
  case None
  then show ?thesis using assms
    by (auto simp: ComputeConsensusGroup_def Let_def searchConsensusForKey_def groupOf_def shardsOf_def split: sum.splits)
next
  case (Some vs)
  moreover have "groupOf nc cfg randomness round shard = Inr vs" using assms(1,2) Some by (simp add: groupsOk_def)
  ultimately show ?thesis using assms
    by (auto simp: ComputeConsensusGroup_def Let_def searchConsensusForKey_def shardsOf_def)
qed

lemma coordInv_compute:
  assumes "coordInv h nc" and "envOk h env"
  shows "coordInv h (snd (ComputeConsensusGroup env randomness round shard epoch nc))"
proof (cases "snd (ComputeConsensusGroup env randomness round shard epoch nc) = nc")
  case False
  then obtain cfg vs n where c: "nodesConfig nc epoch = Some cfg" "groupOf nc cfg randomness round shard = Inr vs"
    "snd (ComputeConsensusGroup env randomness round shard epoch nc) =
      nc\<lparr>consensusGroupCacher := ceCachePut env (consensusGroupCacher nc) (groupKey randomness round shard epoch) vs n\<rparr>"
    by (auto simp: ComputeConsensusGroup_def Let_def groupOf_def split: if_splits option.splits sum.splits)
  define m where "m = ceCachePut env (consensusGroupCacher nc) (groupKey randomness round shard epoch) vs n"
  have m: "m \<subseteq>\<^sub>m (consensusGroupCacher nc)(groupKey randomness round shard epoch \<mapsto> vs)" using assms(2) by (simp add: envOk_def m_def)
  have "groupsOk (nc\<lparr>consensusGroupCacher := m\<rparr>)"
    unfolding groupsOk_def
  proof (intro allI impI)
    fix r ro s e cfg' vs'
    assume a: "nodesConfig (nc\<lparr>consensusGroupCacher := m\<rparr>) e = Some cfg'" "consensusGroupCacher (nc\<lparr>consensusGroupCacher := m\<rparr>) (groupKey r ro s e) = Some vs'"
    then have "m (groupKey r ro s e) = Some vs'" by simp
    then have v: "((consensusGroupCacher nc)(groupKey randomness round shard epoch \<mapsto> vs)) (groupKey r ro s e) = Some vs'"
      using m unfolding map_le_def by (metis domI)
    have "groupOf nc cfg' r ro s = Inr vs'"
    proof (cases "groupKey r ro s e = groupKey randomness round shard epoch")
      case True
      then show ?thesis using groupKey_inj [OF True] v a(1) c(1,2) by simp
    next
      case False
      then show ?thesis using v a(1) assms(1) by (simp add: coordInv_def groupsOk_def)
    qed
    then show "groupOf (nc\<lparr>consensusGroupCacher := m\<rparr>) cfg' r ro s = Inr vs'" by (simp add: groupOf_def ConsensusGroupSize_def split: if_splits)
  qed
  moreover have "sameSizes nc (nc\<lparr>consensusGroupCacher := m\<rparr>)" by (simp add: sameSizes_def)
  ultimately show ?thesis using assms(1) c(3) cfgOk_sizes unfolding m_def [symmetric] by (simp add: coordInv_def sizesOk_def)
qed (use assms in simp)

lemma coordInv_created:
  assumes "envOk h env" and "argConsensusGroupCache a = Map.empty" and "NewIndexHashedNodesCoordinator env a = Inr nc"
  shows "coordInv h nc"
proof -
  obtain nc0 nc1 where n: "sizesOk nc0" "consensusGroupCacher nc0 = Map.empty" "\<forall>e. e \<noteq> argEpoch a \<longrightarrow> nodesConfig nc0 e = None"
    "setNodesPerShards env baseHelper (argEligibleNodes a) (argWaitingNodes a) Map.empty Map.empty (argEpoch a) False nc0 = (Inr (), nc1)"
    "nc = snd (saveState env (savedStateKey nc1) (argEpoch a) (fillPublicKeyToValidatorMap env nc1))"
    using assms(2,3) unfolding NewIndexHashedNodesCoordinator_def Let_def
    by (force simp: checkArguments_def sizesOk_def split: if_splits prod.splits sum.splits)
  have g: "goRange (ceOrder env Selectors)" using assms(1) by (simp add: envOk_def)
  obtain cfg where c: "sameSizes nc0 nc1" "nodesConfig nc1 = (nodesConfig nc0)(argEpoch a \<mapsto> cfg)" "cfgOk env nc0 cfg" "consensusGroupCacher nc1 = Map.empty"
    using setNodesPerShards_cases [OF base.weighted_helper_axioms g n(1,4)] n(2) by auto
  have "cfgOk e nc0 cfg" if "ceHasher e = h" for e using c(3) that assms(1) by (simp add: cfgOk_def envOk_def)
  then have "coordInv h nc1"
    using n(1,3) c cfgOk_sizes [OF c(1)] unfolding coordInv_def groupsOk_def sizesOk_def sameSizes_def by (auto split: if_splits)
  then show ?thesis unfolding n(5) by (rule coordInv_same) (rule sameGroups_trans [OF sameGroups_fill sameGroups_saveState])
qed

lemma selectorsLoop_Inr:
  "selectorsLoop env helper el ss sel0 = Inr sel \<Longrightarrow>
    (\<forall>s\<in>set ss. \<exists>x. NewSelectorExpandedList (hValidatorsWeights helper (listOf el s)) (Some (ceHasher env)) = Inr x \<and> sel s = Some x) \<and>
    (\<forall>s. s \<notin> set ss \<longrightarrow> sel s = sel0 s)"
proof (induction ss arbitrary: sel0)
  case (Cons s ss)
  then obtain x where x: "NewSelectorExpandedList (hValidatorsWeights helper (listOf el s)) (Some (ceHasher env)) = Inr x"
    "selectorsLoop env helper el ss (sel0(s \<mapsto> x)) = Inr sel" by (auto split: sum.splits)
  from Cons.IH [OF x(2)] x(1) show ?case by (cases "s \<in> set ss") auto
qed simp

lemma coordInv_rater:
  assumes "coordInv h nc" and "envOk h env" and "consensusGroupCacher nc = Map.empty" and chance: "getChance 0 \<noteq> 0"
    and "NewIndexHashedNodesCoordinatorWithRater env getChance nc = Inr nc'"
  shows "coordInv h nc'"
proof (cases "nodesConfig nc (currentEpoch nc)")
  case None
  then show ?thesis using assms(1,5) by (simp add: NewIndexHashedNodesCoordinatorWithRater_def split: sum.splits)
next
  case (Some cfg)
  then obtain sel where sel: "createSelectors env (raterHelper getChance) cfg = Inr sel"
    "nc' = nc\<lparr>nodesConfig := (nodesConfig nc)(currentEpoch nc \<mapsto> cfg\<lparr>selectors := sel\<rparr>)\<rparr>"
    using assms(5) by (auto simp: NewIndexHashedNodesCoordinatorWithRater_def split: sum.splits)
  have ok: "cfgOk env nc cfg" and sz: "sizesOk nc" using assms(1,2) Some by (auto simp: coordInv_def envOk_def)
  have d: "set (ceOrder env Selectors (dom (eligibleMap cfg))) = dom (eligibleMap cfg)" using goRange_set assms(2) by (simp add: envOk_def)
  have wh: "weighted_helper (raterHelper getChance)" by (rule raterHelper_weighted) (rule chance)
  note loop = selectorsLoop_Inr [OF sel(1) [unfolded createSelectors_def], THEN conjunct1, unfolded d]
  have "cfgOk env nc (cfg\<lparr>selectors := sel\<rparr>)"
    unfolding cfgOk_def
  proof
    fix s assume "s \<in> shardsOf (cfg\<lparr>selectors := sel\<rparr>)"
    then have le: "ConsensusGroupSize nc s \<le> int (length (listOf (eligibleMap cfg) s))" using ok by (auto simp: cfgOk_def shardsOf_def)
    moreover have "1 \<le> ConsensusGroupSize nc s" using sz by (simp add: sizesOk_def ConsensusGroupSize_def)
    ultimately have "s \<in> dom (eligibleMap cfg)" by (auto simp: listOf_def split: option.splits)
    with loop obtain x where "NewSelectorExpandedList (hValidatorsWeights (raterHelper getChance) (listOf (eligibleMap cfg) s)) (Some (ceHasher env)) = Inr x"
      "sel s = Some x" by blast
    then show "ConsensusGroupSize nc s \<le> int (length (listOf (eligibleMap (cfg\<lparr>selectors := sel\<rparr>)) s)) \<and>
      (\<exists>ws y. length ws = length (listOf (eligibleMap (cfg\<lparr>selectors := sel\<rparr>)) s) \<and> NewSelectorExpandedList ws (Some (ceHasher env)) = Inr y \<and>
        selectors (cfg\<lparr>selectors := sel\<rparr>) s = Some y)"
      using le weighted_helper.weights_length [OF wh, of "listOf (eligibleMap cfg) s"] by auto
  qed
  then have "cfgOk e nc (cfg\<lparr>selectors := sel\<rparr>)" if "ceHasher e = h" for e using that assms(2) by (simp add: cfgOk_def envOk_def)
  moreover have same: "sameSizes nc nc'" by (simp add: sel(2) sameSizes_def)
  ultimately show ?thesis
    using assms(1,3) cfgOk_sizes [OF same] unfolding coordInv_def groupsOk_def sizesOk_def by (auto simp: sel(2) split: if_splits)
qed

lemma reachable_inv: "reachable h nc \<Longrightarrow> coordInv h nc"
  by (induction rule: reachable.induct) (auto intro: coordInv_created coordInv_rater coordInv_prepare coordInv_action coordInv_compute)

end
