(* ===== verification/CoordinatorRegistry.thy ===== *)
theory CoordinatorRegistry
  imports CoordinatorGroups
begin

text \<open>
  The state of the nodes coordinator on disk: what the conversions of configurations write and read back.
\<close>

section \<open>Texts of shards and epochs\<close>

lemma shardText_inj: "shardText a = shardText b \<Longrightarrow> a = b"
  by (auto simp: shardText_def dest!: natDecimal_inj intro: unsigned_word_eqI)

lemma natDecimal_not_Nil: "natDecimal n \<noteq> []"
  by (subst natDecimal.simps) simp

lemma ParseInt_shardText: "ParseInt (shardText k) = Inr (int (unat k))"
proof -
  have n: "shardText k \<noteq> []" by (simp add: shardText_def natDecimal_not_Nil)
  have "hd (shardText k) \<noteq> CHR ''-'' \<and> hd (shardText k) \<noteq> CHR ''+''"
    using natDecimal_digits [of "hd (shardText k)" "unat k"] hd_in_set [OF n] by (auto simp: shardText_def)
  moreover have "unat k < 2 ^ 63" using unsigned_less [of k, where 'a = nat] by simp
  ultimately show ?thesis using n parseDigits_natDecimal [of "unat k"] by (simp add: ParseInt_def Let_def shardText_def)
qed

text \<open>Writing one entry for every key.\<close>

lemma fold_texts:
  "fold (\<lambda>k result. result(shardText k \<mapsto> f k)) ks m (shardText a) = (if a \<in> set ks then Some (f a) else m (shardText a))"
  "t \<notin> range shardText \<Longrightarrow> fold (\<lambda>k result. result(shardText k \<mapsto> f k)) ks m t = m t"
  by (induction ks arbitrary: m) (auto dest: shardText_inj)

lemma dom_texts:
  assumes "\<And>s. f (shardText s) \<noteq> None \<longleftrightarrow> s \<in> A" and "\<And>x. x \<notin> range shardText \<Longrightarrow> f x = None"
  shows "dom f = shardText ` A"
proof (rule set_eqI)
  fix x
  show "x \<in> dom f \<longleftrightarrow> x \<in> shardText ` A"
  proof (cases "x \<in> range shardText")
    case True
    then obtain s where s: "x = shardText s" by blast
    have "x \<in> shardText ` A \<longleftrightarrow> s \<in> A" unfolding s by (auto dest: shardText_inj)
    then show ?thesis using assms(1) [of s] unfolding s by (simp add: domIff)
  next
    case False
    then show ?thesis using assms(2) [OF False] by (auto simp: domIff)
  qed
qed

lemma toSerializableMap_text:
  "toSerializableMap m (shardText s) = map_option ValidatorArrayToSerializableValidatorArray (m s)"
  "dom (toSerializableMap m) = shardText ` dom m"
proof -
  have s: "set (sortKeys m) = dom m" by (simp add: sortKeys_def)
  show t: "toSerializableMap m (shardText s) = map_option ValidatorArrayToSerializableValidatorArray (m s)" for s
    unfolding toSerializableMap_def fold_texts(1) s by (auto simp: listOf_def split: option.splits)
  have "toSerializableMap m x = None" if "x \<notin> range shardText" for x
    unfolding toSerializableMap_def by (subst fold_texts(2) [OF that]) simp
  then show "dom (toSerializableMap m) = shardText ` dom m" by (intro dom_texts) (simp_all add: t domIff)
qed

section \<open>Reading lists and maps\<close>

lemma array_round_trip: "serializableValidatorArrayToValidatorArray (ValidatorArrayToSerializableValidatorArray vs) = Inr vs"
  by (induction vs) (simp_all add: ValidatorArrayToSerializableValidatorArray_def NewValidator_def)

lemma validatorsMapLoop_ok:
  assumes "\<forall>t\<in>set ts. \<exists>s\<in>dom m. t = shardText s"
  shows "validatorsMapLoop (toSerializableMap m) ts r = Inr (r ++ (\<lambda>s. if shardText s \<in> set ts then m s else None))"
  using assms
proof (induction ts arbitrary: r)
  case (Cons t ts)
  then obtain s vs where s: "t = shardText s" "m s = Some vs" by auto
  have w: "(of_int (int (unat s)) :: u32) = s" by simp
  have "validatorsMapLoop (toSerializableMap m) (t # ts) r = validatorsMapLoop (toSerializableMap m) ts (r(s \<mapsto> vs))"
    using w by (simp add: s ParseInt_shardText toSerializableMap_text array_round_trip del: of_int_of_nat_eq)
  also have "\<dots> = Inr (r(s \<mapsto> vs) ++ (\<lambda>s. if shardText s \<in> set ts then m s else None))" using Cons by simp
  also have "r(s \<mapsto> vs) ++ (\<lambda>s. if shardText s \<in> set ts then m s else None) = r ++ (\<lambda>x. if shardText x \<in> set (t # ts) then m x else None)"
    using s by (auto simp: map_add_def fun_eq_iff dest: shardText_inj split: option.splits)
  finally show ?case .
qed simp

text \<open>A loop over a Go map, which has finitely many keys, visits all of them.\<close>

definition strRange :: "strOrder \<Rightarrow> bool" where
  "strRange order \<longleftrightarrow> (\<forall>K. finite K \<longrightarrow> set (order K) = K)"

lemma map_round_trip:
  assumes "strRange (ceStrOrder env)"
  shows "serializableValidatorsMapToValidatorsMap env (toSerializableMap m) = Inr m"
proof -
  have o: "set (ceStrOrder env (dom (toSerializableMap m))) = shardText ` dom m"
    using assms toSerializableMap_text(2) [of m] unfolding strRange_def by simp
  have "(\<lambda>s. if shardText s \<in> shardText ` dom m then m s else None) = m"
  proof
    fix s
    show "(if shardText s \<in> shardText ` dom m then m s else None) = m s" by (cases "s \<in> dom m") (auto dest: shardText_inj)
  qed
  then show ?thesis unfolding serializableValidatorsMapToValidatorsMap_def
    using validatorsMapLoop_ok [of "ceStrOrder env (dom (toSerializableMap m))" m Map.empty] o by auto
qed

section \<open>Configurations\<close>

text \<open>What is read back from a configuration: the registry without auction does not hold the nodes that were shuffled out.\<close>

definition readBack :: "bool \<Rightarrow> epochNodesConfig \<Rightarrow> epochNodesConfig" where
  "readBack auction cfg = emptyConfig\<lparr>eligibleMap := eligibleMap cfg, waitingMap := waitingMap cfg, leavingMap := leavingMap cfg,
     shuffledOutMap := (if auction then shuffledOutMap cfg else Map.empty), lowWaitingList := (auction \<and> lowWaitingList cfg)\<rparr>"

lemma config_round_trip:
  assumes "strRange (ceStrOrder env)"
  shows "epochValidatorsToEpochNodesConfig env (epochNodesConfigToEpochValidators cfg) None = Inr (readBack False cfg)"
    and "epochValidatorsToEpochNodesConfig env (epochValidators.truncate (epochNodesConfigToEpochValidatorsWithAuction cfg))
      (Some (toSerializableMap (shuffledOutMap cfg), lowWaitingList cfg)) = Inr (readBack True cfg)"
  by (simp_all add: epochValidatorsToEpochNodesConfig_def epochNodesConfigToEpochValidators_def epochNodesConfigToEpochValidatorsWithAuction_def
      epochValidators.truncate_def map_round_trip [OF assms] readBack_def emptyConfig_def)

section \<open>The loop over the epochs of a registry\<close>

text \<open>A configuration with at least two shards, none of them empty.\<close>

definition completeConfig :: "epochNodesConfig \<Rightarrow> bool" where
  "completeConfig cfg \<longleftrightarrow> 2 \<le> card (dom (eligibleMap cfg)) \<and> card (dom (eligibleMap cfg)) < 2 ^ 32 \<and>
     (\<forall>s\<in>dom (eligibleMap cfg). listOf (eligibleMap cfg) s \<noteq> [])"

text \<open>A configuration that was read, with what is computed from its lists.\<close>

definition restored :: "coordEnv \<Rightarrow> coordHelper \<Rightarrow> nodesCoordinator \<Rightarrow> epochNodesConfig \<Rightarrow> epochNodesConfig" where
  "restored env helper nc cfg =
     (let cfg1 = cfg\<lparr>nbShards := of_nat (card (dom (eligibleMap cfg))) - 1\<rparr>;
          cfg2 = cfg1\<lparr>cfgShardID := fst (computeShardForSelfPublicKey env nc cfg1)\<rparr>
      in cfg2\<lparr>selectors := (case createSelectors env helper cfg2 of Inr sel \<Rightarrow> sel | Inl _ \<Rightarrow> Map.empty)\<rparr>)"

lemma restored_lists:
  "eligibleMap (restored env helper nc cfg) = eligibleMap cfg" "waitingMap (restored env helper nc cfg) = waitingMap cfg"
  "leavingMap (restored env helper nc cfg) = leavingMap cfg" "shuffledOutMap (restored env helper nc cfg) = shuffledOutMap cfg"
  "lowWaitingList (restored env helper nc cfg) = lowWaitingList cfg"
  "nbShards (restored env helper nc cfg) = of_nat (card (dom (eligibleMap cfg))) - 1"
  by (simp_all add: restored_def Let_def)

lemma restored_selectors:
  assumes "weighted_helper helper" and "goRange (ceOrder env Selectors)" and "\<forall>s\<in>dom (eligibleMap cfg). listOf (eligibleMap cfg) s \<noteq> []"
  shows "dom (eligibleMap cfg) \<subseteq> dom (selectors (restored env helper nc cfg))"
proof -
  define cfg1 where "cfg1 = cfg\<lparr>nbShards := of_nat (card (dom (eligibleMap cfg))) - 1\<rparr>"
  define cfg2 where "cfg2 = cfg1\<lparr>cfgShardID := fst (computeShardForSelfPublicKey env nc cfg1)\<rparr>"
  have e: "eligibleMap cfg2 = eligibleMap cfg" by (simp add: cfg2_def cfg1_def)
  obtain sel where sel: "createSelectors env helper cfg2 = Inr sel" "\<forall>s\<in>dom (eligibleMap cfg). sel s \<noteq> None"
    using createSelectors_ok [OF assms(1,2), of cfg2] assms(3) unfolding e by blast
  have "restored env helper nc cfg = cfg2\<lparr>selectors := sel\<rparr>"
    unfolding restored_def Let_def cfg1_def [symmetric] cfg2_def [symmetric] sel(1) by simp
  then show ?thesis using sel(2) by (auto simp: domIff)
qed

lemma registryLoop_step:
  assumes "weighted_helper helper" and "goRange (ceOrder env Selectors)" and "registryEntry r (shardText e) = Some (v, w)"
    and "epochValidatorsToEpochNodesConfig env v w = Inr cfg" and "completeConfig cfg"
  shows "registryLoop env helper nc r (shardText e # ts) result = registryLoop env helper nc r ts (result(e \<mapsto> restored env helper nc cfg))"
proof -
  have n: "\<not> (of_nat (card (dom (eligibleMap cfg))) :: u32) < 2" using assms(5) by (simp add: completeConfig_def word_less_nat_alt unat_of_nat)
  define cfg1 where "cfg1 = cfg\<lparr>nbShards := of_nat (card (dom (eligibleMap cfg))) - 1\<rparr>"
  define cfg2 where "cfg2 = cfg1\<lparr>cfgShardID := fst (computeShardForSelfPublicKey env nc cfg1)\<rparr>"
  have "\<forall>s\<in>dom (eligibleMap cfg2). listOf (eligibleMap cfg2) s \<noteq> []" using assms(5) by (simp add: cfg2_def cfg1_def completeConfig_def)
  then obtain sel where sel: "createSelectors env helper cfg2 = Inr sel" using createSelectors_ok [OF assms(1,2), of cfg2] by blast
  have r: "restored env helper nc cfg = cfg2\<lparr>selectors := sel\<rparr>"
    unfolding restored_def Let_def cfg1_def [symmetric] cfg2_def [symmetric] sel by simp
  have w: "(of_int (int (unat e)) :: u32) = e" by simp
  show ?thesis unfolding registryLoop.simps ParseInt_shardText sum.case assms(3,4) option.case prod.case Let_def if_not_P [OF n]
      cfg1_def [symmetric] cfg2_def [symmetric] sel r w by (rule refl)
qed

lemma registryLoop_ok:
  assumes "weighted_helper helper" and "goRange (ceOrder env Selectors)"
    and "\<forall>e\<in>set es. \<exists>v w. registryEntry r (shardText e) = Some (v, w) \<and> epochValidatorsToEpochNodesConfig env v w = Inr (g e) \<and> completeConfig (g e)"
  shows "registryLoop env helper nc r (map shardText es) result = Inr (\<lambda>e. if e \<in> set es then Some (restored env helper nc (g e)) else result e)"
  using assms(3)
proof (induction es arbitrary: result)
  case (Cons e es)
  then obtain v w where "registryEntry r (shardText e) = Some (v, w)" "epochValidatorsToEpochNodesConfig env v w = Inr (g e)" "completeConfig (g e)" by auto
  from registryLoop_step [OF assms(1,2) this] show ?case using Cons by (auto simp: fun_eq_iff)
qed simp

text \<open>The epochs whose configurations are written: those of the last epoch and of the three before it.\<close>

definition storedSet :: "nodesCoordinator \<Rightarrow> u32 set" where
  "storedSet nc = set (storedEpochs nc) \<inter> dom (nodesConfig nc)"

lemma storedSet_iff:
  "e \<in> storedSet nc \<longleftrightarrow> e \<in> dom (nodesConfig nc) \<and> unat (getLastEpochConfig nc) < unat e + nodesCoordinatorStoredEpochs"
proof -
  define l where "l = getLastEpochConfig nc"
  define m where "m = (if unat l \<ge> nodesCoordinatorStoredEpochs then unat l - nodesCoordinatorStoredEpochs + 1 else 0)"
  have bound: "unat l < 2 ^ 32" using unsigned_less [of l, where 'a = nat] by simp
  have "getMinAndLastEpoch nc = (of_nat m, l)" by (simp add: getMinAndLastEpoch_def Let_def l_def [symmetric] m_def)
  moreover have "m < 2 ^ 32" using bound by (auto simp: m_def nodesCoordinatorStoredEpochs_def)
  then have "unat (of_nat m :: u32) = m" by (simp only: unat_of_nat) simp
  ultimately have s: "storedEpochs nc = map of_nat [m..<unat l + 1]" by (simp add: storedEpochs_def)
  have le: "e \<le> l" if "e \<in> dom (nodesConfig nc)" unfolding l_def getLastEpochConfig_def using that by (intro Max_ge) auto
  have "e \<in> set (storedEpochs nc) \<longleftrightarrow> m \<le> unat e \<and> unat e \<le> unat l"
  proof
    assume "e \<in> set (storedEpochs nc)"
    then obtain i where "m \<le> i" "i \<le> unat l" "e = of_nat i" by (auto simp: s)
    then show "m \<le> unat e \<and> unat e \<le> unat l" using bound by (simp add: unat_of_nat)
  next
    assume "m \<le> unat e \<and> unat e \<le> unat l"
    then have "of_nat (unat e) \<in> (of_nat ` {m..<unat l + 1} :: u32 set)" by (intro imageI) simp
    then show "e \<in> set (storedEpochs nc)" unfolding s set_map set_upt by simp
  qed
  then show ?thesis using le unfolding storedSet_def l_def [symmetric] m_def
    by (auto simp: word_le_nat_alt nodesCoordinatorStoredEpochs_def split: if_splits)
qed

lemma fold_stored:
  "fold (\<lambda>e res. case m e of None \<Rightarrow> res | Some c \<Rightarrow> res(shardText e \<mapsto> f c)) es r (shardText a) =
    (if a \<in> set es \<and> m a \<noteq> None then Some (f (the (m a))) else r (shardText a))"
  "t \<notin> range shardText \<Longrightarrow> fold (\<lambda>e res. case m e of None \<Rightarrow> res | Some c \<Rightarrow> res(shardText e \<mapsto> f c)) es r t = r t"
  by (induction es arbitrary: r) (auto dest: shardText_inj split: option.splits)

lemma storedConfigs_text:
  "storedConfigs nc f (shardText e) = (if e \<in> storedSet nc then Some (f (the (nodesConfig nc e))) else None)"
  "dom (storedConfigs nc f) = shardText ` storedSet nc"
proof -
  show t: "storedConfigs nc f (shardText e) = (if e \<in> storedSet nc then Some (f (the (nodesConfig nc e))) else None)" for e
    unfolding storedConfigs_def fold_stored(1) by (auto simp: storedSet_def)
  have "storedConfigs nc f x = None" if "x \<notin> range shardText" for x
    unfolding storedConfigs_def by (subst fold_stored(2) [OF that]) simp
  then show "dom (storedConfigs nc f) = shardText ` storedSet nc" by (intro dom_texts) (simp_all add: t)
qed

lemma texts_of:
  assumes "set ts = shardText ` A"
  obtains es where "ts = map shardText es" "set es = A"
proof -
  have "\<exists>es. ts = map shardText es" if "set ts \<subseteq> range shardText" for ts
    using that by (induction ts) (auto, metis list.simps(9))
  then obtain es where es: "ts = map shardText es" using assms by blast
  then have "shardText ` set es = shardText ` A" using assms by simp
  then have "set es = A" using shardText_inj by (metis inj_image_eq_iff injI)
  with es show ?thesis by (rule that)
qed

text \<open>What is read from the registry of a coordinator.\<close>

lemma registry_round_trip:
  assumes "weighted_helper helper" and "goRange (ceOrder env Selectors)" and "strRange (ceStrOrder env)"
    and "\<forall>e\<in>storedSet nc. completeConfig (the (nodesConfig nc e))"
  shows "registryToNodesCoordinator env helper nc' (if auction then nodesCoordinatorToRegistryWithAuction nc else nodesCoordinatorToOldRegistry nc) =
    Inr (\<lambda>e. if e \<in> storedSet nc then Some (restored env helper nc' (readBack auction (the (nodesConfig nc e)))) else None)"
proof -
  let ?r = "if auction then nodesCoordinatorToRegistryWithAuction nc else nodesCoordinatorToOldRegistry nc"
  have "registryEpochs ?r = shardText ` storedSet nc"
    by (simp add: nodesCoordinatorToRegistryWithAuction_def nodesCoordinatorToOldRegistry_def storedConfigs_text(2))
  then have "set (ceStrOrder env (registryEpochs ?r)) = shardText ` storedSet nc" using assms(3) unfolding strRange_def by simp
  then obtain es where es: "ceStrOrder env (registryEpochs ?r) = map shardText es" "set es = storedSet nc" by (rule texts_of)
  have "\<exists>v w. registryEntry ?r (shardText e) = Some (v, w) \<and> epochValidatorsToEpochNodesConfig env v w = Inr (readBack auction (the (nodesConfig nc e))) \<and>
      completeConfig (readBack auction (the (nodesConfig nc e)))" if e: "e \<in> set es" for e
  proof -
    have "completeConfig (readBack auction (the (nodesConfig nc e)))" using assms(4) e es(2) by (simp add: completeConfig_def readBack_def)
    then show ?thesis using e es(2) config_round_trip [OF assms(3), of "the (nodesConfig nc e)"]
      by (auto simp: nodesCoordinatorToRegistryWithAuction_def nodesCoordinatorToOldRegistry_def storedConfigs_text(1)
          epochNodesConfigToEpochValidatorsWithAuction_def)
  qed
  then have "registryLoop env helper nc' ?r (map shardText es) Map.empty =
      Inr (\<lambda>e. if e \<in> set es then Some (restored env helper nc' (readBack auction (the (nodesConfig nc e)))) else Map.empty e)"
    by (intro registryLoop_ok [OF assms(1,2)] ballI)
  then show ?thesis unfolding registryToNodesCoordinator_def es by simp
qed

end
