(* ===== verification/Rating.thy ===== *)
theory Rating
  imports Prelude "HOL-Library.Multiset"
begin

text \<open>
  The rating of validators: \<^verbatim>\<open>src/process/rating/blockSigningRater.go\<close>, \<^verbatim>\<open>ratingsData.go\<close>, \<^verbatim>\<open>ratingStepData.go\<close>,
  \<^verbatim>\<open>selectionChance.go\<close> and \<^verbatim>\<open>chance.go\<close>.

  Ratings are 32-bit words and rating steps are \<^verbatim>\<open>int32\<close>, read with \<^const>\<open>sint\<close>. Floating point numbers have an abstract type; the
  operations on them that the code uses are the fields of \<^verbatim>\<open>floats\<close>, a parameter of the model, and no law about them is needed.
\<close>

section \<open>Data\<close>

type_synonym i32 = "32 word"

record 'f floats =
  fOfInt :: "int \<Rightarrow> 'f"
  fMul :: "'f \<Rightarrow> 'f \<Rightarrow> 'f"
  fDiv :: "'f \<Rightarrow> 'f \<Rightarrow> 'f"
  fAdd :: "'f \<Rightarrow> 'f \<Rightarrow> 'f"
  fLess :: "'f \<Rightarrow> 'f \<Rightarrow> bool"
  fWiden :: "'f \<Rightarrow> 'f" \<comment> \<open>\<^verbatim>\<open>float64\<close> of a \<^verbatim>\<open>float32\<close>\<close>
  fToInt32 :: "'f \<Rightarrow> i32"

datatype ratingError =
    ErrNilRatingsInfoHandler
  | ErrMinRatingSmallerThanOne
  | ErrMaxRatingIsSmallerThanMinRating
  | ErrStartRatingNotBetweenMinAndMax
  | ErrNoChancesProvided
  | ErrSignedBlocksThresholdNotBetweenZeroAndOne
  | ErrConsecutiveMissedBlocksPenaltyLowerThanOne
  | ErrDecreaseRatingsStepMoreThanMinusOne
  | ErrNilMinChanceIfZero
  | ErrDuplicateThreshold
  | ErrNoChancesForMaxThreshold
  | ErrHoursToMaxRatingFromStartRatingZero
  | ErrOverflow
  | ErrIncreaseStepLowerThanOne
  | RatingPanic string

record 'f ratingStep =
  proposerIncreaseRatingStep :: i32
  proposerDecreaseRatingStep :: i32
  validatorIncreaseRatingStep :: i32
  validatorDecreaseRatingStep :: i32
  consecutiveMissedBlocksPenalty :: 'f

record selectionChance =
  maxThreshold :: u32
  chancePercentage :: u32

record 'f ratingsData =
  rdStartRating :: u32
  rdMaxRating :: u32
  rdMinRating :: u32
  rdSignedBlocksThreshold :: 'f
  rdMetaRatingsStep :: "'f ratingStep"
  rdShardRatingsStep :: "'f ratingStep"
  rdSelectionChances :: "selectionChance list"

record 'f blockSigningRater =
  startRating :: u32
  signedBlocksThreshold :: 'f
  maxRating :: u32
  minRating :: u32
  shardRatingsStepHandler :: "'f ratingStep"
  metaRatingsStepHandler :: "'f ratingStep"
  ratingChances :: "selectionChance list"

definition metachainShard :: u32 where
  "metachainShard = 0xFFFFFFFF"

section \<open>Creation of the rater\<close>

definition verifyRatingsData :: "'f floats \<Rightarrow> 'f ratingsData option \<Rightarrow> ratingError + 'f ratingsData" where
  "verifyRatingsData fl ratingsData =
     (case ratingsData of
        None \<Rightarrow> Inl ErrNilRatingsInfoHandler
      | Some rd \<Rightarrow>
          if rdMinRating rd < 1 then Inl ErrMinRatingSmallerThanOne
          else if rdMinRating rd > rdMaxRating rd then Inl ErrMaxRatingIsSmallerThanMinRating
          else if rdMaxRating rd < rdStartRating rd \<or> rdMinRating rd > rdStartRating rd then Inl ErrStartRatingNotBetweenMinAndMax
          else if length (rdSelectionChances rd) = 0 then Inl ErrNoChancesProvided
          else if fLess fl (rdSignedBlocksThreshold rd) (fOfInt fl 0) \<or> fLess fl (fOfInt fl 1) (rdSignedBlocksThreshold rd)
            then Inl ErrSignedBlocksThresholdNotBetweenZeroAndOne
          else if fLess fl (consecutiveMissedBlocksPenalty (rdMetaRatingsStep rd)) (fOfInt fl 1)
            then Inl ErrConsecutiveMissedBlocksPenaltyLowerThanOne
          else if fLess fl (consecutiveMissedBlocksPenalty (rdShardRatingsStep rd)) (fOfInt fl 1)
            then Inl ErrConsecutiveMissedBlocksPenaltyLowerThanOne
          else if sint (proposerDecreaseRatingStep (rdShardRatingsStep rd)) > -1 \<or> sint (validatorDecreaseRatingStep (rdShardRatingsStep rd)) > -1
            then Inl ErrDecreaseRatingsStepMoreThanMinusOne
          else if sint (proposerDecreaseRatingStep (rdMetaRatingsStep rd)) > -1 \<or> sint (validatorDecreaseRatingStep (rdMetaRatingsStep rd)) > -1
            then Inl ErrDecreaseRatingsStepMoreThanMinusOne
          else Inr rd)"

text \<open>
  \<^verbatim>\<open>sort.Slice\<close> is not stable; the sorted list is unique once equal thresholds are refused, and the order of equal ones
  is that of \<^verbatim>\<open>sortSlice\<close>, a parameter.
\<close>

fun duplicateThreshold :: "selectionChance list \<Rightarrow> bool" where
  "duplicateThreshold (a # b # cs) = (maxThreshold a = maxThreshold b \<or> duplicateThreshold (b # cs))"
| "duplicateThreshold _ = False"

definition NewBlockSigningRater ::
  "(selectionChance list \<Rightarrow> selectionChance list) \<Rightarrow> 'f floats \<Rightarrow> 'f ratingsData option \<Rightarrow> ratingError + 'f blockSigningRater" where
  "NewBlockSigningRater sortSlice fl ratingsData =
     (case verifyRatingsData fl ratingsData of
        Inl e \<Rightarrow> Inl e
      | Inr rd \<Rightarrow>
          let chances = sortSlice (rdSelectionChances rd)
          in if maxThreshold (hd chances) > 0 then Inl ErrNilMinChanceIfZero
             else if duplicateThreshold chances then Inl ErrDuplicateThreshold
             else if maxThreshold (last chances) \<noteq> rdMaxRating rd then Inl ErrNoChancesForMaxThreshold
             else Inr \<lparr>startRating = rdStartRating rd, signedBlocksThreshold = rdSignedBlocksThreshold rd, maxRating = rdMaxRating rd,
                       minRating = rdMinRating rd, shardRatingsStepHandler = rdShardRatingsStep rd,
                       metaRatingsStepHandler = rdMetaRatingsStep rd, ratingChances = chances\<rparr>)"

section \<open>Rating\<close>

definition computeRating :: "'f blockSigningRater \<Rightarrow> i32 \<Rightarrow> u32 \<Rightarrow> u32" where
  "computeRating bsr ratingStep currentRating =
     (let newVal = int (unat currentRating) + sint ratingStep
      in if newVal < int (unat (minRating bsr)) then minRating bsr
         else if newVal > int (unat (maxRating bsr)) then maxRating bsr
         else of_int newVal)"

definition stepHandler :: "'f blockSigningRater \<Rightarrow> u32 \<Rightarrow> 'f ratingStep" where
  "stepHandler bsr shardId = (if shardId = metachainShard then metaRatingsStepHandler bsr else shardRatingsStepHandler bsr)"

definition ComputeIncreaseProposer :: "'f blockSigningRater \<Rightarrow> u32 \<Rightarrow> u32 \<Rightarrow> u32" where
  "ComputeIncreaseProposer bsr shardId currentRating =
     computeRating bsr (proposerIncreaseRatingStep (stepHandler bsr shardId)) currentRating"

definition ComputeIncreaseValidator :: "'f blockSigningRater \<Rightarrow> u32 \<Rightarrow> u32 \<Rightarrow> u32" where
  "ComputeIncreaseValidator bsr shardId currentRating =
     computeRating bsr (validatorIncreaseRatingStep (stepHandler bsr shardId)) currentRating"

definition ComputeDecreaseValidator :: "'f blockSigningRater \<Rightarrow> u32 \<Rightarrow> u32 \<Rightarrow> u32" where
  "ComputeDecreaseValidator bsr shardId currentRating =
     computeRating bsr (validatorDecreaseRatingStep (stepHandler bsr shardId)) currentRating"

definition maxDecreaseValue :: int where
  "maxDecreaseValue = - (2 ^ 31)"

definition RevertIncreaseValidator :: "'f blockSigningRater \<Rightarrow> u32 \<Rightarrow> u32 \<Rightarrow> u32 \<Rightarrow> u32" where
  "RevertIncreaseValidator bsr shardId currentRating nrReverts =
     (let ratingStep = validatorIncreaseRatingStep (stepHandler bsr shardId);
          decreaseInt = sint (word_of_int (sint (- ratingStep) * int (unat nrReverts)) :: i64);
          decreaseValue = (if decreaseInt < maxDecreaseValue \<or> decreaseInt > 0 then word_of_int maxDecreaseValue
                           else word_of_int decreaseInt)
      in computeRating bsr decreaseValue currentRating)"

fun missesLoop :: "'f floats \<Rightarrow> 'f \<Rightarrow> nat \<Rightarrow> 'f \<Rightarrow> 'f" where
  "missesLoop fl penalty 0 computedFloat = computedFloat"
| "missesLoop fl penalty (Suc n) computedFloat =
     (let c = fMul fl computedFloat (fWiden fl penalty)
      in if fLess fl c (fOfInt fl maxDecreaseValue) then fOfInt fl maxDecreaseValue else missesLoop fl penalty n c)"

definition ComputeDecreaseProposer :: "'f floats \<Rightarrow> 'f blockSigningRater \<Rightarrow> u32 \<Rightarrow> u32 \<Rightarrow> u32 \<Rightarrow> u32" where
  "ComputeDecreaseProposer fl bsr shardId currentRating consecutiveMisses =
     (let step = stepHandler bsr shardId;
          computedFloat = missesLoop fl (consecutiveMissedBlocksPenalty step) (unat consecutiveMisses)
            (fOfInt fl (sint (proposerDecreaseRatingStep step)))
      in computeRating bsr (fToInt32 fl computedFloat) currentRating)"

fun chanceLoop :: "selectionChance list \<Rightarrow> u32 \<Rightarrow> u32 \<Rightarrow> u32" where
  "chanceLoop [] currentRating chance = chance"
| "chanceLoop (c # cs) currentRating chance =
     (if currentRating > maxThreshold c then chanceLoop cs currentRating chance else chancePercentage c)"

definition raterGetChance :: "'f blockSigningRater \<Rightarrow> u32 \<Rightarrow> u32" where
  "raterGetChance bsr currentRating =
     chanceLoop (ratingChances bsr) currentRating (chancePercentage (hd (ratingChances bsr)))"

section \<open>The steps, from the configuration\<close>

record 'f computeRatingStepArg =
  crShardSize :: u32
  crConsensusSize :: u32
  crRoundTimeMilis :: u64
  crStartRating :: u32
  crMaxRating :: u32
  crHoursToMaxRatingFromStartRating :: u32
  crProposerDecreaseFactor :: 'f
  crValidatorDecreaseFactor :: 'f
  crConsecutiveMissedBlocksPenalty :: 'f
  crProposerValidatorImportance :: 'f

definition milisecondsInHour :: u32 where
  "milisecondsInHour = 3600 * 1000"

definition blocksProducedInHours :: "u32 \<Rightarrow> u64 \<Rightarrow> u64" where
  "blocksProducedInHours hours roundTimeMilis = ucast (hours * milisecondsInHour) div roundTimeMilis"

definition computeRatingStep :: "'f floats \<Rightarrow> 'f computeRatingStepArg \<Rightarrow> ratingError + 'f ratingStep" where
  "computeRatingStep fl arg =
     (if crRoundTimeMilis arg = 0 then Inl (RatingPanic ''integer divide by zero'')
      else
        let blocks = blocksProducedInHours (crHoursToMaxRatingFromStartRating arg) (crRoundTimeMilis arg);
            ratingDifference = fOfInt fl (int (unat (crMaxRating arg - crStartRating arg)));
            proposerProbability = fDiv fl (fOfInt fl (int (unat blocks))) (fOfInt fl (int (unat (crShardSize arg))));
            validatorProbability = fMul fl proposerProbability (fOfInt fl (int (unat (crConsensusSize arg))));
            totalImportance = fAdd fl (crProposerValidatorImportance arg) (fOfInt fl 1);
            ratingFromProposer = fMul fl ratingDifference (fDiv fl (crProposerValidatorImportance arg) totalImportance);
            ratingFromValidator = fMul fl ratingDifference (fDiv fl (fOfInt fl 1) totalImportance);
            proposerIncrease = fDiv fl ratingFromProposer proposerProbability;
            validatorIncrease = fDiv fl ratingFromValidator validatorProbability;
            proposerDecrease = fMul fl proposerIncrease (crProposerDecreaseFactor arg);
            validatorDecrease = fMul fl validatorIncrease (crValidatorDecreaseFactor arg);
            maxInt32 = fOfInt fl (2 ^ 31 - 1);
            minInt32 = fOfInt fl (- (2 ^ 31))
        in if fLess fl maxInt32 proposerIncrease then Inl ErrOverflow
           else if fLess fl maxInt32 validatorIncrease then Inl ErrOverflow
           else if fLess fl proposerDecrease minInt32 then Inl ErrOverflow
           else if fLess fl validatorDecrease minInt32 then Inl ErrOverflow
           else if sint (fToInt32 fl proposerIncrease) < 1 then Inl ErrIncreaseStepLowerThanOne
           else if sint (fToInt32 fl validatorIncrease) < 1 then Inl ErrIncreaseStepLowerThanOne
           else Inr \<lparr>proposerIncreaseRatingStep = fToInt32 fl proposerIncrease,
                     proposerDecreaseRatingStep = fToInt32 fl proposerDecrease,
                     validatorIncreaseRatingStep = fToInt32 fl validatorIncrease,
                     validatorDecreaseRatingStep = fToInt32 fl validatorDecrease,
                     consecutiveMissedBlocksPenalty = crConsecutiveMissedBlocksPenalty arg\<rparr>)"

record 'f chainRatingsConfig =
  ccHoursToMaxRatingFromStartRating :: u32
  ccProposerValidatorImportance :: 'f
  ccProposerDecreaseFactor :: 'f
  ccValidatorDecreaseFactor :: 'f
  ccConsecutiveMissedBlocksPenalty :: 'f

record 'f ratingsDataArg =
  raStartRating :: u32
  raMaxRating :: u32
  raMinRating :: u32
  raSignedBlocksThreshold :: 'f
  raSelectionChances :: "selectionChance list"
  raShardChain :: "'f chainRatingsConfig"
  raMetaChain :: "'f chainRatingsConfig"
  raShardConsensusSize :: u32
  raMetaConsensusSize :: u32
  raShardMinNodes :: u32
  raMetaMinNodes :: u32
  raRoundDurationMiliseconds :: u64

definition verifyRatingsConfig :: "'f floats \<Rightarrow> 'f ratingsDataArg \<Rightarrow> ratingError option" where
  "verifyRatingsConfig fl s =
     (if raMinRating s < 1 then Some ErrMinRatingSmallerThanOne
      else if raMinRating s > raMaxRating s then Some ErrMaxRatingIsSmallerThanMinRating
      else if raMaxRating s < raStartRating s \<or> raMinRating s > raStartRating s then Some ErrStartRatingNotBetweenMinAndMax
      else if fLess fl (fOfInt fl 1) (raSignedBlocksThreshold s) \<or> fLess fl (raSignedBlocksThreshold s) (fOfInt fl 0)
        then Some ErrSignedBlocksThresholdNotBetweenZeroAndOne
      else if ccHoursToMaxRatingFromStartRating (raShardChain s) = 0 then Some ErrHoursToMaxRatingFromStartRatingZero
      else if ccHoursToMaxRatingFromStartRating (raMetaChain s) = 0 then Some ErrHoursToMaxRatingFromStartRatingZero
      else if fLess fl (ccConsecutiveMissedBlocksPenalty (raMetaChain s)) (fOfInt fl 1) then Some ErrConsecutiveMissedBlocksPenaltyLowerThanOne
      else if fLess fl (ccConsecutiveMissedBlocksPenalty (raShardChain s)) (fOfInt fl 1) then Some ErrConsecutiveMissedBlocksPenaltyLowerThanOne
      else if fLess fl (fOfInt fl (- 1)) (ccProposerDecreaseFactor (raShardChain s)) \<or> fLess fl (fOfInt fl (- 1)) (ccValidatorDecreaseFactor (raShardChain s))
        then Some ErrDecreaseRatingsStepMoreThanMinusOne
      else if fLess fl (fOfInt fl (- 1)) (ccProposerDecreaseFactor (raMetaChain s)) \<or> fLess fl (fOfInt fl (- 1)) (ccValidatorDecreaseFactor (raMetaChain s))
        then Some ErrDecreaseRatingsStepMoreThanMinusOne
      else None)"

definition stepArgOf :: "'f ratingsDataArg \<Rightarrow> u32 \<Rightarrow> u32 \<Rightarrow> 'f chainRatingsConfig \<Rightarrow> 'f computeRatingStepArg" where
  "stepArgOf a minNodes consensusSize c =
     \<lparr>crShardSize = minNodes, crConsensusSize = consensusSize, crRoundTimeMilis = raRoundDurationMiliseconds a,
      crStartRating = raStartRating a, crMaxRating = raMaxRating a,
      crHoursToMaxRatingFromStartRating = ccHoursToMaxRatingFromStartRating c, crProposerDecreaseFactor = ccProposerDecreaseFactor c,
      crValidatorDecreaseFactor = ccValidatorDecreaseFactor c, crConsecutiveMissedBlocksPenalty = ccConsecutiveMissedBlocksPenalty c,
      crProposerValidatorImportance = ccProposerValidatorImportance c\<rparr>"

definition NewRatingsData :: "'f floats \<Rightarrow> 'f ratingsDataArg \<Rightarrow> ratingError + 'f ratingsData" where
  "NewRatingsData fl a =
     (case verifyRatingsConfig fl a of
        Some e \<Rightarrow> Inl e
      | None \<Rightarrow>
          case computeRatingStep fl (stepArgOf a (raShardMinNodes a) (raShardConsensusSize a) (raShardChain a)) of
            Inl e \<Rightarrow> Inl e
          | Inr shardStep \<Rightarrow>
              case computeRatingStep fl (stepArgOf a (raMetaMinNodes a) (raMetaConsensusSize a) (raMetaChain a)) of
                Inl e \<Rightarrow> Inl e
              | Inr metaStep \<Rightarrow>
                  Inr \<lparr>rdStartRating = raStartRating a, rdMaxRating = raMaxRating a, rdMinRating = raMinRating a,
                       rdSignedBlocksThreshold = raSignedBlocksThreshold a, rdMetaRatingsStep = metaStep,
                       rdShardRatingsStep = shardStep, rdSelectionChances = raSelectionChances a\<rparr>)"

section \<open>Lemmas\<close>

definition clamp :: "'f blockSigningRater \<Rightarrow> int \<Rightarrow> int" where
  "clamp bsr v = max (uint (minRating bsr)) (min (uint (maxRating bsr)) v)"

lemma sint_i32: "- (2 ^ 31) \<le> v \<Longrightarrow> v < 2 ^ 31 \<Longrightarrow> sint (word_of_int v :: i32) = v"
  by (subst sint_sbintrunc') (simp add: signed_take_bit_int_eq_self)

lemma sint_i64: "- (2 ^ 63) \<le> v \<Longrightarrow> v < 2 ^ 63 \<Longrightarrow> sint (word_of_int v :: i64) = v"
  by (subst sint_sbintrunc') (simp add: signed_take_bit_int_eq_self)

lemma computeRating_clamps:
  assumes "minRating bsr \<le> maxRating bsr"
  shows "uint (computeRating bsr step r) = clamp bsr (uint r + sint step)"
proof -
  define v where "v = uint r + sint step"
  have def: "computeRating bsr step r = (if v < uint (minRating bsr) then minRating bsr
      else if v > uint (maxRating bsr) then maxRating bsr else word_of_int v)"
    by (simp add: computeRating_def Let_def v_def flip: uint_nat)
  have le: "uint (minRating bsr) \<le> uint (maxRating bsr)" using assms by (simp add: word_le_def)
  have "uint (word_of_int v :: u32) = v" if "uint (minRating bsr) \<le> v" "v \<le> uint (maxRating bsr)"
    using that order.trans [OF uint_ge_0 that(1)] unsigned_less [of "maxRating bsr", where 'a = int] by (simp add: uint_word_of_int)
  then have "uint (computeRating bsr step r) = clamp bsr v" using le by (auto simp: def clamp_def max_def min_def)
  then show ?thesis by (simp add: v_def)
qed

lemma revert_value:
  assumes "0 \<le> sint (step :: i32)" and "n < 2 ^ 32"
  shows "sint (word_of_int (sint (- step) * int n) :: i64) = - (sint step * int n)"
proof -
  have s: "sint step < 2 ^ 31" using sint_lt [of step] by simp
  then have "sint (- step) = - sint step"
    using assms(1) by (simp add: sint_word_minus signed_take_bit_int_eq_self)
  moreover have "sint step * int n \<le> 2 ^ 31 * 2 ^ 32" using s assms by (intro mult_mono) simp_all
  moreover have "0 \<le> sint step * int n" using assms(1) by simp
  ultimately show ?thesis using sint_i64 [of "- (sint step * int n)"] by simp
qed

definition sorts :: "(selectionChance list \<Rightarrow> selectionChance list) \<Rightarrow> bool" where
  "sorts sortSlice \<longleftrightarrow> (\<forall>cs. mset (sortSlice cs) = mset cs \<and> sorted (map maxThreshold (sortSlice cs)))"

lemma chanceLoop_first:
  assumes "sorted (map maxThreshold cs)" and "\<exists>c\<in>set cs. r \<le> maxThreshold c"
  shows "\<exists>c\<in>set cs. r \<le> maxThreshold c \<and> (\<forall>c'\<in>set cs. r \<le> maxThreshold c' \<longrightarrow> maxThreshold c \<le> maxThreshold c') \<and> chanceLoop cs r d = chancePercentage c"
  using assms
proof (induction cs)
  case (Cons a cs)
  show ?case
  proof (cases "r \<le> maxThreshold a")
    case True
    then show ?thesis using Cons.prems(1) by (intro bexI [of _ a]) auto
  next
    case False
    then have "\<exists>c\<in>set cs. r \<le> maxThreshold c" using Cons.prems(2) by auto
    then obtain c where "c \<in> set cs" "r \<le> maxThreshold c" "\<forall>c'\<in>set cs. r \<le> maxThreshold c' \<longrightarrow> maxThreshold c \<le> maxThreshold c'"
      "chanceLoop cs r d = chancePercentage c"
      using Cons by auto
    then show ?thesis using False by (intro bexI [of _ c]) auto
  qed
qed simp

lemma NewBlockSigningRater_ok:
  assumes "NewBlockSigningRater sortSlice fl rd = Inr bsr"
  obtains d where "rd = Some d" "ratingChances bsr = sortSlice (rdSelectionChances d)" "rdSelectionChances d \<noteq> []"
    "maxThreshold (last (ratingChances bsr)) = maxRating bsr" "maxThreshold (hd (ratingChances bsr)) = 0" "maxRating bsr = rdMaxRating d"
    "minRating bsr \<le> maxRating bsr" "minRating bsr \<noteq> 0"
  using assms by (auto simp: NewBlockSigningRater_def verifyRatingsData_def Let_def not_less word_less_1 split: option.splits if_splits)

text \<open>The decrease of a proposer after some consecutive misses: the step, multiplied by the penalty once for each miss.\<close>

definition penalised :: "'f floats \<Rightarrow> 'f ratingStep \<Rightarrow> nat \<Rightarrow> 'f" where
  "penalised fl s n = ((\<lambda>c. fMul fl c (fWiden fl (consecutiveMissedBlocksPenalty s))) ^^ n) (fOfInt fl (sint (proposerDecreaseRatingStep s)))"

text \<open>Once a product falls below the least value of \<^verbatim>\<open>int32\<close>, it is that value.\<close>

definition decreaseOf :: "'f floats \<Rightarrow> 'f ratingStep \<Rightarrow> nat \<Rightarrow> 'f" where
  "decreaseOf fl s misses =
     (if \<exists>n\<in>{1..misses}. fLess fl (penalised fl s n) (fOfInt fl (- (2 ^ 31))) then fOfInt fl (- (2 ^ 31)) else penalised fl s misses)"

lemma missesLoop_value:
  "missesLoop fl penalty n c = (let f = (\<lambda>c. fMul fl c (fWiden fl penalty)); least = fOfInt fl (- (2 ^ 31))
     in if \<exists>k\<in>{1..n}. fLess fl ((f ^^ k) c) least then least else (f ^^ n) c)"
proof (induction n arbitrary: c)
  case (Suc n)
  let ?f = "\<lambda>c. fMul fl c (fWiden fl penalty)" and ?P = "\<lambda>c. fLess fl c (fOfInt fl (- (2 ^ 31)))"
  have split: "(\<exists>k\<in>{1..Suc n}. Q k) \<longleftrightarrow> Q 1 \<or> (\<exists>k\<in>{1..n}. Q (Suc k))" for Q :: "nat \<Rightarrow> bool"
  proof -
    have "{1..Suc n} = insert 1 (Suc ` {1..n})" by (simp add: image_Suc_atLeastAtMost) auto
    then show ?thesis by (simp only: bex_simps)
  qed
  have "(\<exists>k\<in>{1..Suc n}. ?P ((?f ^^ k) c)) \<longleftrightarrow> ?P (?f c) \<or> (\<exists>k\<in>{1..n}. ?P ((?f ^^ k) (?f c)))"
    unfolding split by (simp add: funpow_Suc_right del: funpow.simps(2))
  then show ?case using Suc.IH [of "?f c"] by (simp add: Let_def maxDecreaseValue_def funpow_Suc_right del: funpow.simps(2))
qed simp

lemma missesLoop_decrease:
  "missesLoop fl (consecutiveMissedBlocksPenalty s) n (fOfInt fl (sint (proposerDecreaseRatingStep s))) = decreaseOf fl s n"
  by (simp add: missesLoop_value decreaseOf_def penalised_def Let_def)

section \<open>An example\<close>

definition intFloats :: "int floats" where
  "intFloats = \<lparr>fOfInt = (\<lambda>i. i), fMul = (*), fDiv = (div), fAdd = (+), fLess = (<), fWiden = (\<lambda>f. f), fToInt32 = word_of_int\<rparr>"

definition exampleStep :: "int ratingStep" where
  "exampleStep = \<lparr>proposerIncreaseRatingStep = 20, proposerDecreaseRatingStep = - 40, validatorIncreaseRatingStep = 10,
     validatorDecreaseRatingStep = - 20, consecutiveMissedBlocksPenalty = 2\<rparr>"

definition exampleRatings :: "int ratingsData" where
  "exampleRatings = \<lparr>rdStartRating = 50, rdMaxRating = 100, rdMinRating = 1, rdSignedBlocksThreshold = 1,
     rdMetaRatingsStep = exampleStep, rdShardRatingsStep = exampleStep,
     rdSelectionChances = [\<lparr>maxThreshold = 100, chancePercentage = 24\<rparr>, \<lparr>maxThreshold = 0, chancePercentage = 5\<rparr>, \<lparr>maxThreshold = 60, chancePercentage = 16\<rparr>]\<rparr>"

definition exampleRater :: "int blockSigningRater" where
  "exampleRater = \<lparr>startRating = 50, signedBlocksThreshold = 1, maxRating = 100, minRating = 1, shardRatingsStepHandler = exampleStep,
     metaRatingsStepHandler = exampleStep,
     ratingChances = [\<lparr>maxThreshold = 0, chancePercentage = 5\<rparr>, \<lparr>maxThreshold = 60, chancePercentage = 16\<rparr>, \<lparr>maxThreshold = 100, chancePercentage = 24\<rparr>]\<rparr>"

lemma exampleRater_created: "NewBlockSigningRater (sort_key maxThreshold) intFloats (Some exampleRatings) = Inr exampleRater"
  by (simp add: NewBlockSigningRater_def verifyRatingsData_def exampleRatings_def exampleRater_def exampleStep_def intFloats_def)

lemma sort_key_sorts: "sorts (sort_key maxThreshold)"
  by (simp add: sorts_def)

section \<open>Properties\<close>

text \<open>
  C19. The ratings that a rater with checked settings computes stay between the minimum and the maximum, and are exact in between: a step is added
  without wrapping; taking back \<open>n\<close> increases subtracts \<open>n\<close> steps, but at most 2147483648, from the rating; and a proposer that missed its block after a number of consecutive misses loses the
  decrease step multiplied by the penalty once for each of them (\<^verbatim>\<open>decreaseOf\<close>, in floating point, cut at the least \<^verbatim>\<open>int32\<close> and converted to one). The step of validators is not negative, which \<^verbatim>\<open>NewRatingsData\<close> checks.
\<close>

theorem ratings_clamped:
  assumes "NewBlockSigningRater sortSlice fl rd = Inr bsr" and "0 \<le> sint (validatorIncreaseRatingStep (stepHandler bsr shard))"
  shows "uint (ComputeIncreaseProposer bsr shard r) = clamp bsr (uint r + sint (proposerIncreaseRatingStep (stepHandler bsr shard))) \<and>
    uint (ComputeIncreaseValidator bsr shard r) = clamp bsr (uint r + sint (validatorIncreaseRatingStep (stepHandler bsr shard))) \<and>
    uint (ComputeDecreaseValidator bsr shard r) = clamp bsr (uint r + sint (validatorDecreaseRatingStep (stepHandler bsr shard))) \<and>
    uint (RevertIncreaseValidator bsr shard r n) =
      clamp bsr (uint r - min (2 ^ 31) (sint (validatorIncreaseRatingStep (stepHandler bsr shard)) * uint n)) \<and>
    uint (ComputeDecreaseProposer fl bsr shard r misses) = clamp bsr (uint r + sint (fToInt32 fl (decreaseOf fl (stepHandler bsr shard) (unat misses))))"
proof (intro conjI)
  have le: "minRating bsr \<le> maxRating bsr" using NewBlockSigningRater_ok [OF assms(1)] by metis
  note c = computeRating_clamps [OF le]
  show "uint (ComputeIncreaseProposer bsr shard r) = clamp bsr (uint r + sint (proposerIncreaseRatingStep (stepHandler bsr shard)))"
    "uint (ComputeIncreaseValidator bsr shard r) = clamp bsr (uint r + sint (validatorIncreaseRatingStep (stepHandler bsr shard)))"
    "uint (ComputeDecreaseValidator bsr shard r) = clamp bsr (uint r + sint (validatorDecreaseRatingStep (stepHandler bsr shard)))"
    by (simp_all add: c ComputeIncreaseProposer_def ComputeIncreaseValidator_def ComputeDecreaseValidator_def)
  show "uint (ComputeDecreaseProposer fl bsr shard r misses) =
      clamp bsr (uint r + sint (fToInt32 fl (decreaseOf fl (stepHandler bsr shard) (unat misses))))"
    by (simp add: c ComputeDecreaseProposer_def Let_def missesLoop_decrease)
  define k where "k = sint (validatorIncreaseRatingStep (stepHandler bsr shard)) * uint n"
  have k: "0 \<le> k" using assms(2) by (simp add: k_def)
  have "unat n < 2 ^ 32" using unsigned_less [of n, where 'a = nat] by simp
  note v = revert_value [OF assms(2) this, folded uint_nat, folded k_def]
  have "sint (word_of_int (- (2 ^ 31)) :: i32) = - (2 ^ 31)" "\<not> k > 2 ^ 31 \<Longrightarrow> sint (word_of_int (- k) :: i32) = - k"
    using k sint_i32 [of "- (2 ^ 31)"] sint_i32 [of "- k"] by simp_all
  then show "uint (RevertIncreaseValidator bsr shard r n) =
      clamp bsr (uint r - min (2 ^ 31) (sint (validatorIncreaseRatingStep (stepHandler bsr shard)) * uint n))"
    using k unfolding RevertIncreaseValidator_def Let_def c maxDecreaseValue_def uint_nat [symmetric] k_def [symmetric] v by (auto simp: min_def)
qed

theorem ratings_clamped_witness:
  "\<exists>bsr. NewBlockSigningRater (sort_key maxThreshold) intFloats (Some exampleRatings) = Inr bsr \<and>
    uint (ComputeIncreaseValidator bsr 0 95) = clamp bsr (uint (95 :: u32) + 10) \<and> uint (RevertIncreaseValidator bsr 0 95 4000000000) = clamp bsr (95 - 2 ^ 31)"
  using ratings_clamped [OF exampleRater_created, of 0 95 4000000000] exampleRater_created by (simp add: exampleRater_def exampleStep_def stepHandler_def)

text \<open>
  C37. For every rating up to the maximum, the chance of a validator is the percentage of the lowest configured threshold that its rating does not
  exceed, whatever the order of the thresholds in the configuration.
\<close>

theorem chance_of_lowest_threshold:
  assumes "sorts sortSlice" and "NewBlockSigningRater sortSlice fl (Some d) = Inr bsr" and "r \<le> rdMaxRating d"
  shows "\<exists>c\<in>set (rdSelectionChances d). r \<le> maxThreshold c \<and> raterGetChance bsr r = chancePercentage c \<and>
    (\<forall>c'\<in>set (rdSelectionChances d). r \<le> maxThreshold c' \<longrightarrow> maxThreshold c \<le> maxThreshold c')"
proof -
  have p: "ratingChances bsr = sortSlice (rdSelectionChances d)" "rdSelectionChances d \<noteq> []"
    "maxThreshold (last (ratingChances bsr)) = rdMaxRating d"
    using NewBlockSigningRater_ok [OF assms(2)] by (metis option.inject)+
  have s: "sorted (map maxThreshold (ratingChances bsr))" "set (ratingChances bsr) = set (rdSelectionChances d)"
    using assms(1) p(1) by (auto simp: sorts_def dest: mset_eq_setD)
  then have "last (ratingChances bsr) \<in> set (ratingChances bsr)" using p(2) by (metis last_in_set set_empty)
  then show ?thesis using chanceLoop_first [OF s(1), of r] assms(3) p(3) s(2) unfolding raterGetChance_def by metis
qed

theorem chance_of_lowest_threshold_witness: "raterGetChance exampleRater 7 = 16"
proof -
  have "\<exists>c\<in>set (rdSelectionChances exampleRatings). 7 \<le> maxThreshold c \<and> raterGetChance exampleRater 7 = chancePercentage c \<and>
    (\<forall>c'\<in>set (rdSelectionChances exampleRatings). 7 \<le> maxThreshold c' \<longrightarrow> maxThreshold c \<le> maxThreshold c')"
    by (rule chance_of_lowest_threshold [OF sort_key_sorts exampleRater_created]) (simp add: exampleRatings_def)
  then show ?thesis by (auto simp: exampleRatings_def)
qed

section \<open>Hours in 32 bits\<close>

text \<open>The steps that the settings of a chain ask for when the maximum rating is to be reached within a number of blocks.\<close>

definition proposerIncreaseFor :: "'f floats \<Rightarrow> 'f ratingsDataArg \<Rightarrow> 'f chainRatingsConfig \<Rightarrow> u32 \<Rightarrow> nat \<Rightarrow> 'f" where
  "proposerIncreaseFor fl a c minNodes blocks =
     fDiv fl (fMul fl (fOfInt fl (int (unat (raMaxRating a - raStartRating a))))
         (fDiv fl (ccProposerValidatorImportance c) (fAdd fl (ccProposerValidatorImportance c) (fOfInt fl 1))))
       (fDiv fl (fOfInt fl (int blocks)) (fOfInt fl (int (unat minNodes))))"

definition validatorIncreaseFor :: "'f floats \<Rightarrow> 'f ratingsDataArg \<Rightarrow> 'f chainRatingsConfig \<Rightarrow> u32 \<Rightarrow> u32 \<Rightarrow> nat \<Rightarrow> 'f" where
  "validatorIncreaseFor fl a c minNodes consensusSize blocks =
     fDiv fl (fMul fl (fOfInt fl (int (unat (raMaxRating a - raStartRating a))))
         (fDiv fl (fOfInt fl 1) (fAdd fl (ccProposerValidatorImportance c) (fOfInt fl 1))))
       (fMul fl (fDiv fl (fOfInt fl (int blocks)) (fOfInt fl (int (unat minNodes)))) (fOfInt fl (int (unat consensusSize))))"

lemma blocks_wrap: "unat (blocksProducedInHours hours roundTime) = unat hours * 3600000 mod 2 ^ 32 div unat roundTime"
proof -
  have "unat (ucast (hours * milisecondsInHour) :: u64) = unat hours * 3600000 mod 2 ^ 32"
    by (simp add: unsigned_ucast_eq unat_word_ariths(2) milisecondsInHour_def take_bit_eq_mod)
  then show ?thesis by (simp add: blocksProducedInHours_def unat_div)
qed

lemma step_of_blocks:
  assumes "computeRatingStep fl (stepArgOf a minNodes consensusSize c) = Inr step"
  shows "let blocks = unat (ccHoursToMaxRatingFromStartRating c) * 3600000 mod 2 ^ 32 div unat (raRoundDurationMiliseconds a)
    in raRoundDurationMiliseconds a \<noteq> 0 \<and> proposerIncreaseRatingStep step = fToInt32 fl (proposerIncreaseFor fl a c minNodes blocks) \<and>
      validatorIncreaseRatingStep step = fToInt32 fl (validatorIncreaseFor fl a c minNodes consensusSize blocks)"
  using assms unfolding Let_def blocks_wrap [symmetric]
  by (auto simp: computeRatingStep_def stepArgOf_def Let_def proposerIncreaseFor_def validatorIncreaseFor_def split: if_splits)

lemma blocks_lost:
  assumes "2 ^ 32 \<le> (p :: nat)" and "0 < r" and "r \<le> 2 ^ 32"
  shows "p mod 2 ^ 32 div r < p div r"
proof -
  have "p mod 2 ^ 32 + 2 ^ 32 \<le> p" using assms(1) mod_less_divisor [of "2 ^ 32" "p - 2 ^ 32"] by (simp add: le_mod_geq)
  then have "(p mod 2 ^ 32 + r) div r \<le> p div r" using assms(3) by (intro div_le_mono) linarith
  moreover have "(p mod 2 ^ 32 + r) div r = p mod 2 ^ 32 div r + 1" using assms(2) by (metis Suc_eq_plus1 div_add_self2 nat_neq_iff not_less0)
  ultimately show ?thesis by linarith
qed

text \<open>Fixed point arithmetic with six digits.\<close>

definition fixedFloats :: "int floats" where
  "fixedFloats = \<lparr>fOfInt = (\<lambda>i. i * 1000000), fMul = (\<lambda>x y. x * y div 1000000), fDiv = (\<lambda>x y. x * 1000000 div y), fAdd = (+), fLess = (<),
     fWiden = (\<lambda>f. f), fToInt32 = (\<lambda>x. word_of_int (x div 1000000))\<rparr>"

definition exampleChain :: "u32 \<Rightarrow> int chainRatingsConfig" where
  "exampleChain hours = \<lparr>ccHoursToMaxRatingFromStartRating = hours, ccProposerValidatorImportance = 1000000, ccProposerDecreaseFactor = - 4000000,
     ccValidatorDecreaseFactor = - 4000000, ccConsecutiveMissedBlocksPenalty = 1500000\<rparr>"

definition exampleArg :: "u32 \<Rightarrow> int ratingsDataArg" where
  "exampleArg hours = \<lparr>raStartRating = 5000001, raMaxRating = 10000000, raMinRating = 1, raSignedBlocksThreshold = 10000, raSelectionChances = [],
     raShardChain = exampleChain hours, raMetaChain = exampleChain 55, raShardConsensusSize = 63, raMetaConsensusSize = 400, raShardMinNodes = 400,
     raMetaMinNodes = 400, raRoundDurationMiliseconds = 6000\<rparr>"

text \<open>
  C39. The rating steps of an accepted configuration are those for a time that has wrapped. In both chains the increase steps of proposers and validators are computed for the number of blocks in
  \<^verbatim>\<open>hours * 3600000 mod 2^32\<close> milliseconds, where \<^verbatim>\<open>HoursToMaxRatingFromStartRating\<close> is the configured number of hours. Up to 1193 hours this is the number of blocks in that time; from 1194 hours on,
  for rounds of at most \<^verbatim>\<open>2^32\<close> milliseconds, it is smaller, and nothing is reported.
\<close>

theorem hours_to_max_rating_wrap:
  assumes "NewRatingsData fl a = Inr rd"
  shows "\<forall>(c, minNodes, consensusSize, step) \<in> {(raShardChain a, raShardMinNodes a, raShardConsensusSize a, rdShardRatingsStep rd),
      (raMetaChain a, raMetaMinNodes a, raMetaConsensusSize a, rdMetaRatingsStep rd)}.
    let time = unat (ccHoursToMaxRatingFromStartRating c) * 3600000; round = unat (raRoundDurationMiliseconds a); blocks = time mod 2 ^ 32 div round
    in proposerIncreaseRatingStep step = fToInt32 fl (proposerIncreaseFor fl a c minNodes blocks) \<and>
      validatorIncreaseRatingStep step = fToInt32 fl (validatorIncreaseFor fl a c minNodes consensusSize blocks) \<and>
      (ccHoursToMaxRatingFromStartRating c \<le> 1193 \<longrightarrow> blocks = time div round) \<and>
      (1194 \<le> ccHoursToMaxRatingFromStartRating c \<and> round \<le> 2 ^ 32 \<longrightarrow> blocks < time div round)"
proof -
  have steps: "computeRatingStep fl (stepArgOf a (raShardMinNodes a) (raShardConsensusSize a) (raShardChain a)) = Inr (rdShardRatingsStep rd)"
    "computeRatingStep fl (stepArgOf a (raMetaMinNodes a) (raMetaConsensusSize a) (raMetaChain a)) = Inr (rdMetaRatingsStep rd)"
    using assms by (auto simp: NewRatingsData_def split: option.splits sum.splits)
  have small: "h \<le> 1193 \<Longrightarrow> unat h * 3600000 mod 2 ^ 32 = unat h * 3600000" for h :: u32
    by (simp add: word_le_nat_alt)
  have large: "1194 \<le> h \<Longrightarrow> raRoundDurationMiliseconds a \<noteq> 0 \<Longrightarrow> unat (raRoundDurationMiliseconds a) \<le> 2 ^ 32 \<Longrightarrow>
      unat h * 3600000 mod 2 ^ 32 div unat (raRoundDurationMiliseconds a) < unat h * 3600000 div unat (raRoundDurationMiliseconds a)" for h :: u32
    by (rule blocks_lost) (simp_all add: word_le_nat_alt unat_gt_0)
  note s = step_of_blocks [OF steps(1), unfolded Let_def] step_of_blocks [OF steps(2), unfolded Let_def]
  show ?thesis unfolding Let_def using s small large by simp
qed

lemma uint_blocks: "uint (blocksProducedInHours hours roundTime) = uint hours * 3600000 mod 2 ^ 32 div uint roundTime"
  using arg_cong [OF blocks_wrap [of hours roundTime], of int] by (simp add: zdiv_int zmod_int)

lemmas example_config = stepArgOf_def exampleArg_def exampleChain_def fixedFloats_def

lemma exampleArg_rates: "\<exists>rd. NewRatingsData fixedFloats (exampleArg 1194) = Inr rd"
proof -
  have "\<exists>s. computeRatingStep fixedFloats (stepArgOf (exampleArg 1194) 400 63 (exampleChain 1194)) = Inr s"
    "\<exists>s. computeRatingStep fixedFloats (stepArgOf (exampleArg 1194) 400 400 (exampleChain 55)) = Inr s"
    by (simp_all add: computeRatingStep_def Let_def example_config uint_blocks)
  moreover have "verifyRatingsConfig fixedFloats (exampleArg 1194) = None" by (simp add: verifyRatingsConfig_def example_config)
  moreover have "raShardMinNodes (exampleArg 1194) = 400" "raMetaMinNodes (exampleArg 1194) = 400" "raShardConsensusSize (exampleArg 1194) = 63"
    "raMetaConsensusSize (exampleArg 1194) = 400" "raShardChain (exampleArg 1194) = exampleChain 1194" "raMetaChain (exampleArg 1194) = exampleChain 55"
    by (simp_all add: exampleArg_def)
  ultimately show ?thesis by (auto simp: NewRatingsData_def)
qed

theorem hours_to_max_rating_wrap_witness:
  "\<exists>rd. NewRatingsData fixedFloats (exampleArg 1194) = Inr rd \<and> proposerIncreaseRatingStep (rdShardRatingsStep rd) = 1748251 \<and>
     proposerIncreaseFor fixedFloats (exampleArg 1194) (exampleChain 1194) 400 (1194 * 3600000 div 6000) = 1395 * 1000000 + 867950"
proof -
  obtain rd where rd: "NewRatingsData fixedFloats (exampleArg 1194) = Inr rd" using exampleArg_rates by blast
  have "proposerIncreaseRatingStep (rdShardRatingsStep rd) = 1748251"
    using hours_to_max_rating_wrap [OF rd] by (simp add: Let_def proposerIncreaseFor_def example_config)
  moreover have "proposerIncreaseFor fixedFloats (exampleArg 1194) (exampleChain 1194) 400 (1194 * 3600000 div 6000) = 1395 * 1000000 + 867950"
    by (simp add: proposerIncreaseFor_def example_config)
  ultimately show ?thesis using rd by blast
qed

end
