(* ===== verification/CoordinatorProperties.thy ===== *)
theory CoordinatorProperties
  imports CoordinatorRegistry Rating "HOL-Library.Char_ord" "HOL-Library.List_Lexorder"
begin

text \<open>
  The properties of the nodes coordinator: how it selects, that groups are found, that its state on disk is read back, and what happens to old epochs.
\<close>

section \<open>Examples\<close>

text \<open>An environment: a hash of eight bytes, loops in the order of the keys, a cache that keeps everything and a storer that is a map.
  Registries with and without auction have one text each.\<close>

definition sortedOrder :: rangeOrder where
  "sortedOrder K = sorted_list_of_set K"

definition exampleHash :: "bytes \<Rightarrow> bytes" where
  "exampleHash b = take 8 (b @ ''abcdefgh'')"

definition exampleV :: "nat \<Rightarrow> validator" where
  "exampleV n = \<lparr>vPubKey = natDecimal n, vChances = 1, vIndex = of_nat n\<rparr>"

definition exampleEligible :: nodesMap where
  "exampleEligible = [0 \<mapsto> map exampleV [1, 2, 3], MetachainShardId \<mapsto> map exampleV [4, 5]]"

definition exampleCoordShuffler :: randHashShuffler where
  "exampleCoordShuffler = \<lparr>shuffleBetweenShards = True, adaptivity = False, nodesShard = 3, nodesMeta = 2, shardHysteresis = 0, metaHysteresis = 0,
     activeNodesConfig = \<lparr>EpochEnable = 0, MaxNumNodes = 9, NodesToShufflePerShard = 1\<rparr>, availableNodesConfigs = [],
     validatorDistributor = CrossShardValidatorDistributor, epochsHandler = (\<lambda>_ _. False), stakingV4Step2EnableEpoch = 10, flagStakingV4Step2 = False,
     stakingV4Step3EnableEpoch = 11, flagStakingV4Step3 = False\<rparr>"

definition exampleCfg :: epochNodesConfig where
  "exampleCfg = emptyConfig\<lparr>nbShards := 1, eligibleMap := exampleEligible\<rparr>"

definition exampleNc :: nodesCoordinator where
  "exampleNc = \<lparr>shardIDAsObserver = 0, currentEpoch = 12, shardConsensusGroupSize = 2, metaConsensusGroupSize = 1, numTotalEligible = 5,
     selfPubKey = ''me'', savedStateKey = ''k'', shuffler = exampleCoordShuffler, bootStorer = Map.empty,
     nodesConfig = [11 \<mapsto> exampleCfg, 12 \<mapsto> exampleCfg], consensusGroupCacher = Map.empty, startEpoch = 0, publicKeyToValidatorMap = Map.empty,
     isFullArchive = False, stopSignalled = False, nodeTypeIsValidator = False, shuffledOutCalls = [],
     coordStakingV4Step2 = True, coordStakingV4Started = True\<rparr>"

definition exampleCoordEnv :: coordEnv where
  "exampleCoordEnv = \<lparr>ceHasher = exampleHash, ceSha = id, ceShufflerOrders = (\<lambda>_. sortedOrder), ceOrder = (\<lambda>_. sortedOrder),
     ceStrOrder = sorted_list_of_set, ceCachePut = (\<lambda>m k v n. m(k \<mapsto> v)), ceStorerPut = (\<lambda>m k v. (None, m(k \<mapsto> v))),
     ceStorerGet = (\<lambda>m k. case m k of None \<Rightarrow> Inl ''key not found'' | Some v \<Rightarrow> Inr v),
     ceMarshal = (\<lambda>r. Inr ''registry''),
     ceUnmarshal = (\<lambda>b. if b = ''registry'' then Inr (nodesCoordinatorToRegistryWithAuction exampleNc) else Inl ''proto: wrong wireType''),
     ceJsonMarshal = (\<lambda>r. Inr ''{}''), ceJsonUnmarshal = (\<lambda>b. Inr (nodesCoordinatorToOldRegistry exampleNc)),
     ceStakingV4Step1 = 9, ceStakingV4Step2 = 10, ceFactoryStakingV4Step2 = 10, ceRefactorPeersMiniBlocks = (\<lambda>_. True),
     ceGetValidatorInfo = (\<lambda>_. Inl ''not found''), ceUnmarshalValidatorInfo = (\<lambda>_. Inl ''not found''), ceCurrentEpoch = 12,
     ceMinMetaHysteresisNodes = 0, ceMinShardHysteresisNodes = 0\<rparr>"

definition exampleArg :: argNodesCoordinator where
  "exampleArg = \<lparr>argShardConsensusGroupSize = 2, argMetaConsensusGroupSize = 1, argNbShards = 1, argShardIDAsObserver = 0,
     argEligibleNodes = Some exampleEligible, argWaitingNodes = Some Map.empty, argSelfPublicKey = ''me'', argEpoch = 0, argStartEpoch = 0,
     argShuffler = exampleCoordShuffler, argBootStorer = Map.empty, argConsensusGroupCache = Map.empty, argIsFullArchive = False\<rparr>"

lemma exampleHash_length: "8 \<le> length (exampleHash b)"
  by (simp add: exampleHash_def)

lemma exampleOrder: "goRange (ceOrder exampleCoordEnv Selectors)"
  by (simp add: exampleCoordEnv_def goRange_def sortedOrder_def)

lemma exampleEnvOk: "envOk exampleHash exampleCoordEnv"
  using exampleOrder by (simp add: envOk_def exampleCoordEnv_def)

lemma exampleEligible_shards: "dom exampleEligible = {0, MetachainShardId}" "card (dom exampleEligible) = 2"
  "listOf exampleEligible 0 = map exampleV [1, 2, 3]" "listOf exampleEligible MetachainShardId = map exampleV [4, 5]"
  by (auto simp: exampleEligible_def MetachainShardId_def listOf_def)

text \<open>A coordinator is created from the example.\<close>

lemma example_created:
  "\<exists>nc cfg. NewIndexHashedNodesCoordinator exampleCoordEnv exampleArg = Inr nc \<and> nodesConfig nc 0 = Some cfg \<and>
    eligibleMap cfg = exampleEligible \<and> nbShards cfg = 1 \<and> shardConsensusGroupSize nc = 2"
proof -
  let ?a = exampleArg and ?env = exampleCoordEnv
  define nc0 where "nc0 = \<lparr>shardIDAsObserver = argShardIDAsObserver ?a, currentEpoch = argEpoch ?a,
    shardConsensusGroupSize = argShardConsensusGroupSize ?a, metaConsensusGroupSize = argMetaConsensusGroupSize ?a,
    numTotalEligible = 0, selfPubKey = argSelfPublicKey ?a, savedStateKey = ceHasher ?env (argSelfPublicKey ?a), shuffler = argShuffler ?a,
    bootStorer = argBootStorer ?a,
    nodesConfig = [argEpoch ?a \<mapsto> emptyConfig\<lparr>nbShards := argNbShards ?a, cfgShardID := argShardIDAsObserver ?a\<rparr>],
    consensusGroupCacher = argConsensusGroupCache ?a, startEpoch = argStartEpoch ?a, publicKeyToValidatorMap = Map.empty,
    isFullArchive = argIsFullArchive ?a, stopSignalled = False, nodeTypeIsValidator = False, shuffledOutCalls = [],
    coordStakingV4Step2 = False, coordStakingV4Started = False\<rparr>"
  obtain r nc1 where n: "setNodesPerShards ?env baseHelper (argEligibleNodes ?a) (argWaitingNodes ?a) Map.empty Map.empty (argEpoch ?a) False nc0 = (r, nc1)"
    by force
  have "sizesOk nc0" by (simp add: nc0_def sizesOk_def exampleArg_def)
  note c = setNodesPerShards_cases [OF base.weighted_helper_axioms exampleOrder this n]
  have "shardConsensusGroupSize nc0 \<le> int (length (listOf exampleEligible s))" if "s < of_int (int (card (dom exampleEligible)) - 1)" for s
  proof -
    have "s < 1" using that exampleEligible_shards(2) by simp
    then have "s = 0" by (simp add: word_less_nat_alt unat_eq_0)
    then show ?thesis by (simp add: nc0_def exampleArg_def exampleEligible_shards)
  qed
  then have "enoughEligible nc0 exampleEligible" by (simp add: enoughEligible_def exampleEligible_shards(4) nc0_def exampleArg_def)
  then have "argEligibleNodes ?a = Some exampleEligible \<and> argWaitingNodes ?a = Some Map.empty \<and> enoughEligible nc0 exampleEligible" by (simp add: exampleArg_def)
  with c obtain cfg where r: "r = Inr ()" "sameSizes nc0 nc1" and cfg: "nodesConfig nc1 = (nodesConfig nc0)(argEpoch ?a \<mapsto> cfg)"
    "argEligibleNodes ?a = Some (eligibleMap cfg)" "nbShards cfg = of_int (int (card (dom (eligibleMap cfg))) - 1)" by blast
  define nc where "nc = snd (saveState ?env (savedStateKey nc1) (argEpoch ?a) (fillPublicKeyToValidatorMap ?env nc1))"
  have "checkArguments ?a = None" by (simp add: checkArguments_def exampleArg_def)
  then have "NewIndexHashedNodesCoordinator ?env ?a = Inr nc"
    unfolding NewIndexHashedNodesCoordinator_def Let_def nc0_def [symmetric] by (simp add: n r(1) nc_def)
  moreover have "sameGroups nc1 nc" unfolding nc_def by (rule sameGroups_trans [OF sameGroups_fill sameGroups_saveState])
  then have "nodesConfig nc = nodesConfig nc1" "sameSizes nc1 nc" by (simp_all add: sameGroups_def)
  moreover have "eligibleMap cfg = exampleEligible" using cfg(2) by (simp add: exampleArg_def)
  moreover have "nbShards cfg = 1" unfolding cfg(3) \<open>eligibleMap cfg = exampleEligible\<close> exampleEligible_shards(2) by simp
  ultimately show ?thesis using cfg(1) r(2) by (auto simp: sameSizes_def nc0_def exampleArg_def)
qed

section \<open>Selection of validators\<close>

text \<open>
  C10. The selector of the nodes coordinator works on a list that holds each validator as often as its weight says and never
  changes that list: \<^verbatim>\<open>Get\<close> of the provider keeps a sorted slice of the intervals that chosen validators cover and moves the
  drawn position past them. Its result is that of the plain procedure: draw a position of the list, take the validator there, remove
  all its entries, and go on with the shorter list and the next number. The result has as many validators as asked for, all
  different, and every weight counts exactly.
\<close>

theorem select_like_cutting:
  assumes "NewSelectorExpandedList weights (Some h) = Inr s" and "length weights < 2 ^ 32" and "\<And>b. 8 \<le> length (h b)"
    and "randSeed \<noteq> []" and "0 < sampleSize" and "sampleSize \<le> of_nat (length weights)"
  shows "\<exists>idxs. Select s randSeed sampleSize = Inr idxs \<and> idxs = drawLoop (drawn h randSeed) (unat sampleSize) 0 (expandedList s) \<and>
    length idxs = unat sampleSize \<and> distinct idxs \<and> (\<forall>i\<in>set idxs. unat i < length weights) \<and>
    (\<forall>j<length weights. count_list (expandedList s) (of_nat j) = unat (weights ! j))"
proof -
  have w: "weights \<noteq> []" "\<forall>w\<in>set weights. w \<noteq> 0"
    using assms(1) by (auto simp: NewSelectorExpandedList_def expandList_def expandListLoop_eq split: if_splits)
  have s: "expandedList s = expanded weights 0" using NewSelectorExpandedList_ok [OF w] assms(1) by auto
  define idxs where "idxs = drawLoop (drawn h randSeed) (unat sampleSize) 0 (expanded weights 0)"
  have "unat sampleSize \<le> length weights" using assms(2,6) by (simp add: word_le_nat_alt unat_of_nat)
  then have p: "length idxs = unat sampleSize" "distinct idxs" "set idxs \<subseteq> set (expanded weights 0)"
    using drawLoop_props [of "unat sampleSize" "expanded weights 0"] card_expanded [OF w(2)] assms(2) by (auto simp: idxs_def)
  have "unat i < length weights" if i: "i \<in> set idxs" for i
  proof -
    obtain j where "j < length weights" "i = of_nat j" using i p(3) set_expanded [OF w(2), of 0] by auto
    then show ?thesis using assms(2) by (simp add: unat_of_nat)
  qed
  moreover have "count_list (expanded weights 0) (of_nat j) = unat (weights ! j)" if "j < length weights" for j
    using count_expanded [of 0 weights j] that assms(2) by simp
  ultimately show ?thesis using Select_draws [OF assms] p unfolding s idxs_def by blast
qed

theorem select_like_cutting_witness:
  "\<exists>s idxs. NewSelectorExpandedList [2, 1, 3] (Some exampleHash) = Inr s \<and> Select s ''seed'' 2 = Inr idxs \<and> length idxs = 2 \<and> distinct idxs"
proof -
  obtain s where s: "NewSelectorExpandedList [2, 1, 3] (Some exampleHash) = Inr s"
    using NewSelectorExpandedList_ok [of "[2, 1, 3]" exampleHash] by auto
  from select_like_cutting [OF s _ exampleHash_length, of "''seed''" 2] s show ?thesis by (auto simp: word_le_nat_alt)
qed

section \<open>Consensus groups\<close>

text \<open>
  C5. A coordinator that was created, perhaps with a rater, and then went through any sequence of starts of epochs and requests for
  groups, finds the consensus group for every round, every non-empty randomness, every epoch it holds and every shard of that
  epoch: \<^verbatim>\<open>ComputeConsensusGroup\<close> returns no error. The group has exactly the size of the consensus group of the shard, and its members stand
  at pairwise different positions of the eligible list. What the cache returns is what would be computed, for whatever the cache keeps.
\<close>

theorem consensus_group_found:
  assumes "reachable h nc" and "envOk h env" and "\<And>b. 8 \<le> length (h b)" and "nodesConfig nc epoch = Some cfg" and "shard \<in> shardsOf cfg"
    and "randomness \<noteq> []" and "length (listOf (eligibleMap cfg) shard) < 2 ^ 32"
  shows "\<exists>positions. fst (ComputeConsensusGroup env randomness round shard epoch nc) = Inr (map (\<lambda>i. listOf (eligibleMap cfg) shard ! i) positions) \<and>
    int (length positions) = ConsensusGroupSize nc shard \<and> 1 \<le> ConsensusGroupSize nc shard \<and> distinct positions \<and>
    (\<forall>i\<in>set positions. i < length (listOf (eligibleMap cfg) shard))"
proof -
  have inv: "sizesOk nc" "groupsOk nc" "cfgOk env nc cfg"
    using reachable_inv [OF assms(1)] assms(2,4) by (auto simp: coordInv_def envOk_def)
  have pos: "1 \<le> ConsensusGroupSize nc shard" using inv(1) by (simp add: sizesOk_def ConsensusGroupSize_def)
  have "8 \<le> length (ceHasher env b)" for b using assms(2,3) by (simp add: envOk_def)
  from group_drawn [OF inv(3) assms(5) inv(1) this assms(7), of "natDecimal (unat round) @ ''-'' @ randomness"]
  obtain ws where "let idxs = drawLoop (drawn (ceHasher env) (natDecimal (unat round) @ ''-'' @ randomness)) (nat (ConsensusGroupSize nc shard)) 0 (expanded ws 0) in
    groupOf nc cfg randomness round shard = Inr (map (\<lambda>i. listOf (eligibleMap cfg) shard ! unat i) idxs) \<and>
    length idxs = nat (ConsensusGroupSize nc shard) \<and> distinct (map unat idxs) \<and> (\<forall>i\<in>set idxs. unat i < length (listOf (eligibleMap cfg) shard))"
    unfolding groupOf_def by auto
  note g = this [unfolded Let_def]
  show ?thesis unfolding compute_group [OF inv(2) assms(4-6)] 
    using g pos by (intro exI [of _ "map unat (drawLoop (drawn (ceHasher env) (natDecimal (unat round) @ ''-'' @ randomness))
      (nat (ConsensusGroupSize nc shard)) 0 (expanded ws 0))"]) (simp add: comp_def)
qed

theorem consensus_group_found_witness:
  "\<exists>nc group. NewIndexHashedNodesCoordinator exampleCoordEnv exampleArg = Inr nc \<and>
    fst (ComputeConsensusGroup exampleCoordEnv ''rnd'' 7 0 0 nc) = Inr group \<and> length group = 2"
proof -
  obtain nc cfg where nc: "NewIndexHashedNodesCoordinator exampleCoordEnv exampleArg = Inr nc" "nodesConfig nc 0 = Some cfg"
    "eligibleMap cfg = exampleEligible" "nbShards cfg = 1" "shardConsensusGroupSize nc = 2" using example_created by blast
  have r: "reachable exampleHash nc" by (rule reachable.created [OF exampleEnvOk _ nc(1)]) (simp add: exampleArg_def)
  have "0 \<in> shardsOf cfg" by (simp add: shardsOf_def nc(4))
  from consensus_group_found [OF r exampleEnvOk exampleHash_length nc(2) this, of "''rnd''" 7] obtain positions where
    "fst (ComputeConsensusGroup exampleCoordEnv ''rnd'' 7 0 0 nc) = Inr (map (\<lambda>i. listOf (eligibleMap cfg) 0 ! i) positions)"
    "int (length positions) = ConsensusGroupSize nc 0" by (auto simp: nc(3) exampleEligible_shards)
  then show ?thesis using nc(1,5) by (intro exI [of _ nc] exI) (auto simp: ConsensusGroupSize_def MetachainShardId_def)
qed

section \<open>The state on disk\<close>

text \<open>
  C14. What \<^verbatim>\<open>saveState\<close> writes, \<^verbatim>\<open>baseLoadState\<close> reads back, on the same node or on another one that holds the same storer. The current
  epoch is restored, and exactly the configurations of the last epoch and the three before it. Each has the eligible, waiting and leaving nodes
  of every shard as they were, in order, the number of shards, and a selector for every shard. From staking v4 on, the nodes that were shuffled out and the flag of
  the low waiting list are restored too. The marshallers and the storer are assumed to return what they were given, and the protobuf
  decoder to refuse the JSON form; all loops over maps may run in any order.
\<close>

theorem coordinator_state_round_trip:
  assumes "weighted_helper helper" and "goRange (ceOrder env Selectors)" and "strRange (ceStrOrder env)"
    and complete: "\<forall>e cfg. nodesConfig nc e = Some cfg \<longrightarrow> completeConfig cfg"
    and enabled: "ceFactoryStakingV4Step2 env = ceStakingV4Step2 env"
    and proto: "\<forall>buff. ceMarshal env (nodesCoordinatorToRegistryWithAuction nc) = Inr buff \<longrightarrow>
      ceUnmarshal env buff = Inr (nodesCoordinatorToRegistryWithAuction nc)"
    and json: "\<forall>buff. ceJsonMarshal env (nodesCoordinatorToOldRegistry nc) = Inr buff \<longrightarrow>
      isl (ceUnmarshal env buff) \<and> ceJsonUnmarshal env buff = Inr (nodesCoordinatorToOldRegistry nc)"
    and storer: "\<forall>m k v st. ceStorerPut env m k v = (None, st) \<longrightarrow> ceStorerGet env st k = Inr v"
    and saved: "saveState env key epoch nc = (Inr (), nc1)" and same: "bootStorer nc2 = bootStorer nc1"
  shows "\<exists>nc3. baseLoadState env helper key nc2 = (Inr (), nc3) \<and> currentEpoch nc3 = currentEpoch nc \<and> savedStateKey nc3 = key \<and>
    (\<forall>e. nodesConfig nc3 e \<noteq> None \<longleftrightarrow> nodesConfig nc e \<noteq> None \<and> unat (getLastEpochConfig nc) < unat e + nodesCoordinatorStoredEpochs) \<and>
    (\<forall>e cfg cfg'. nodesConfig nc e = Some cfg \<longrightarrow> nodesConfig nc3 e = Some cfg' \<longrightarrow>
      eligibleMap cfg' = eligibleMap cfg \<and> waitingMap cfg' = waitingMap cfg \<and> leavingMap cfg' = leavingMap cfg \<and>
      nbShards cfg' = of_nat (card (dom (eligibleMap cfg))) - 1 \<and> dom (eligibleMap cfg) \<subseteq> dom (selectors cfg') \<and>
      (ceStakingV4Step2 env \<le> epoch \<longrightarrow> shuffledOutMap cfg' = shuffledOutMap cfg \<and> lowWaitingList cfg' = lowWaitingList cfg))"
proof -
  define auction where "auction \<longleftrightarrow> ceStakingV4Step2 env \<le> epoch"
  define r where "r = (if auction then nodesCoordinatorToRegistryWithAuction nc else nodesCoordinatorToOldRegistry nc)"
  have reg: "NodesCoordinatorToRegistry env nc epoch = r" by (simp add: NodesCoordinatorToRegistry_def r_def auction_def)
  obtain buff st where b: "GetRegistryData env r epoch = Inr buff" "ceStorerPut env (bootStorer nc) (registryKey key) buff = (None, st)" "bootStorer nc1 = st"
    using saved unfolding saveState_def reg by (auto split: sum.splits prod.splits option.splits)
  have get: "ceStorerGet env (bootStorer nc2) (registryKey key) = Inr buff" using storer b(2) same b(3) by simp
  have create: "CreateNodesCoordinatorRegistry env buff = Inr r"
    using b(1) proto json enabled
    by (auto simp: GetRegistryData_def CreateNodesCoordinatorRegistry_def r_def auction_def split: if_splits sum.splits)
  have cur: "registryCurrentEpoch r = currentEpoch nc"
    by (simp add: r_def nodesCoordinatorToRegistryWithAuction_def nodesCoordinatorToOldRegistry_def)
  define nc2' where "nc2' = nc2\<lparr>savedStateKey := key, currentEpoch := currentEpoch nc\<rparr>"
  have com: "\<forall>e\<in>storedSet nc. completeConfig (the (nodesConfig nc e))" using complete by (auto simp: storedSet_def)
  define cfgs where "cfgs = (\<lambda>e. if e \<in> storedSet nc then Some (restored env helper nc2' (readBack auction (the (nodesConfig nc e)))) else None)"
  have "registryToNodesCoordinator env helper nc2' r = Inr cfgs"
    unfolding r_def cfgs_def by (rule registry_round_trip [OF assms(1-3) com])
  then have load: "baseLoadState env helper key nc2 = (Inr (), nc2'\<lparr>nodesConfig := cfgs\<rparr>)"
    unfolding baseLoadState_def get sum.case create Let_def cur nc2'_def [symmetric] by simp
  have some: "cfg' = restored env helper nc2' (readBack auction cfg)" if "nodesConfig nc e = Some cfg" "cfgs e = Some cfg'" for e cfg cfg'
    using that by (auto simp: cfgs_def split: if_splits)
  have sel: "dom (eligibleMap cfg) \<subseteq> dom (selectors (restored env helper nc2' (readBack auction cfg)))" if "nodesConfig nc e = Some cfg" for e cfg
    using restored_selectors [OF assms(1,2), of "readBack auction cfg"] complete that by (simp add: completeConfig_def readBack_def)
  show ?thesis unfolding load
  proof (intro exI [of _ "nc2'\<lparr>nodesConfig := cfgs\<rparr>"] conjI allI impI)
    fix e
    show "nodesConfig (nc2'\<lparr>nodesConfig := cfgs\<rparr>) e \<noteq> None \<longleftrightarrow> nodesConfig nc e \<noteq> None \<and> unat (getLastEpochConfig nc) < unat e + nodesCoordinatorStoredEpochs"
      using storedSet_iff [of e nc] by (auto simp: cfgs_def)
  next
    fix e cfg cfg' assume "nodesConfig nc e = Some cfg" "nodesConfig (nc2'\<lparr>nodesConfig := cfgs\<rparr>) e = Some cfg'"
    then have c: "cfg' = restored env helper nc2' (readBack auction cfg)" using some by simp
    show "eligibleMap cfg' = eligibleMap cfg" "waitingMap cfg' = waitingMap cfg" "leavingMap cfg' = leavingMap cfg"
      "nbShards cfg' = of_nat (card (dom (eligibleMap cfg))) - 1"
      by (simp_all add: c restored_lists readBack_def)
    show "dom (eligibleMap cfg) \<subseteq> dom (selectors cfg')" unfolding c using sel \<open>nodesConfig nc e = Some cfg\<close> by blast
    assume "ceStakingV4Step2 env \<le> epoch"
    then show "shuffledOutMap cfg' = shuffledOutMap cfg" "lowWaitingList cfg' = lowWaitingList cfg"
      by (simp_all add: c restored_lists readBack_def auction_def)
  qed (simp_all add: nc2'_def)
qed

theorem coordinator_state_round_trip_witness:
  "\<exists>nc3 cfg'. baseLoadState exampleCoordEnv baseHelper ''k'' (snd (saveState exampleCoordEnv ''k'' 12 exampleNc)) = (Inr (), nc3) \<and>
    nodesConfig nc3 11 = Some cfg' \<and> eligibleMap cfg' = exampleEligible"
proof -
  let ?nc1 = "snd (saveState exampleCoordEnv ''k'' 12 exampleNc)"
  have ord: "strRange (ceStrOrder exampleCoordEnv)" by (simp add: strRange_def exampleCoordEnv_def)
  have cfg: "nodesConfig exampleNc 11 = Some exampleCfg" "nodesConfig exampleNc 12 = Some exampleCfg" by (simp_all add: exampleNc_def)
  have "completeConfig exampleCfg" using exampleEligible_shards by (auto simp: completeConfig_def exampleCfg_def)
  then have com: "\<forall>e c. nodesConfig exampleNc e = Some c \<longrightarrow> completeConfig c" by (auto simp: exampleNc_def split: if_splits)
  have saved: "saveState exampleCoordEnv ''k'' 12 exampleNc = (Inr (), ?nc1)"
    by (simp add: saveState_def GetRegistryData_def exampleCoordEnv_def)
  have last: "getLastEpochConfig exampleNc = 12" by (simp add: getLastEpochConfig_def exampleNc_def)
  have laws: "ceFactoryStakingV4Step2 exampleCoordEnv = ceStakingV4Step2 exampleCoordEnv"
    "\<forall>buff. ceMarshal exampleCoordEnv (nodesCoordinatorToRegistryWithAuction exampleNc) = Inr buff \<longrightarrow>
      ceUnmarshal exampleCoordEnv buff = Inr (nodesCoordinatorToRegistryWithAuction exampleNc)"
    "\<forall>buff. ceJsonMarshal exampleCoordEnv (nodesCoordinatorToOldRegistry exampleNc) = Inr buff \<longrightarrow>
      isl (ceUnmarshal exampleCoordEnv buff) \<and> ceJsonUnmarshal exampleCoordEnv buff = Inr (nodesCoordinatorToOldRegistry exampleNc)"
    "\<forall>m k v st. ceStorerPut exampleCoordEnv m k v = (None, st) \<longrightarrow> ceStorerGet exampleCoordEnv st k = Inr v"
    by (auto simp: exampleCoordEnv_def)
  from coordinator_state_round_trip [OF base.weighted_helper_axioms exampleOrder ord com laws saved refl]
  obtain nc3 where nc3: "baseLoadState exampleCoordEnv baseHelper ''k'' ?nc1 = (Inr (), nc3)"
    "\<forall>e. nodesConfig nc3 e \<noteq> None \<longleftrightarrow> nodesConfig exampleNc e \<noteq> None \<and> unat (getLastEpochConfig exampleNc) < unat e + nodesCoordinatorStoredEpochs"
    "\<forall>e cfg cfg'. nodesConfig exampleNc e = Some cfg \<longrightarrow> nodesConfig nc3 e = Some cfg' \<longrightarrow> eligibleMap cfg' = eligibleMap cfg" by blast
  have "nodesConfig nc3 11 \<noteq> None" using nc3(2) cfg(1) last by (simp add: nodesCoordinatorStoredEpochs_def)
  then obtain cfg' where c: "nodesConfig nc3 11 = Some cfg'" by blast
  then have "eligibleMap cfg' = exampleEligible" using nc3(3) cfg(1) by (simp add: exampleCfg_def)
  with nc3(1) c show ?thesis by blast
qed

section \<open>Old epochs\<close>

text \<open>
  C38. What \<^verbatim>\<open>removeOlderEpochs\<close> of the light coordinator keeps. With fewer than \<^verbatim>\<open>maxDelta\<close> configurations it removes nothing. Otherwise it compares with \<^verbatim>\<open>epoch - maxDelta\<close>, computed in
  32 bits without the guard that \<^verbatim>\<open>EpochStartAction\<close> has. From epoch \<^verbatim>\<open>maxDelta\<close> on exactly the configurations of later epochs stay. Before that the difference wraps around: all configurations of epochs up to
  \<^verbatim>\<open>2^32 - (maxDelta - epoch)\<close> are removed, the one that was just installed for \<^verbatim>\<open>epoch\<close> among them, and no group can be computed for it any more.
\<close>

theorem removeOlderEpochs_wraps:
  "(\<forall>e. nodesConfig (removeOlderEpochs epoch maxDelta nc) e =
      (if card (dom (nodesConfig nc)) < unat maxDelta then nodesConfig nc e
       else if maxDelta \<le> epoch then (if unat e + unat maxDelta \<le> unat epoch then None else nodesConfig nc e)
       else (if unat e + unat maxDelta \<le> 2 ^ 32 + unat epoch then None else nodesConfig nc e))) \<and>
   (unat maxDelta \<le> card (dom (nodesConfig nc)) \<and> epoch < maxDelta \<and> randomness \<noteq> [] \<longrightarrow>
     ComputeConsensusGroup env randomness round shard epoch (removeOlderEpochs epoch maxDelta nc) =
       (Inl (ErrEpochNodesConfigDoesNotExist epoch), removeOlderEpochs epoch maxDelta nc))"
proof -
  have bound: "unat maxDelta < 2 ^ 32" using unsigned_less [of maxDelta, where 'a = nat] by simp
  have low: "e \<le> epoch - maxDelta \<longleftrightarrow> unat e + unat maxDelta \<le> unat epoch" if "maxDelta \<le> epoch" for e
    using that unat_sub [OF that] by (simp add: word_le_nat_alt) linarith
  have high: "e \<le> epoch - maxDelta \<longleftrightarrow> unat e + unat maxDelta \<le> 2 ^ 32 + unat epoch" if "\<not> maxDelta \<le> epoch" for e
  proof -
    have "unat epoch < unat maxDelta" using that by (simp add: word_le_nat_alt)
    then have "unat (epoch - maxDelta) = unat epoch + 2 ^ 32 - unat maxDelta" by (simp add: unat_sub_if')
    then show ?thesis using bound unfolding word_le_nat_alt by linarith
  qed
  have kept: "nodesConfig (removeOlderEpochs epoch maxDelta nc) e =
      (if card (dom (nodesConfig nc)) < unat maxDelta then nodesConfig nc e
       else if maxDelta \<le> epoch then (if unat e + unat maxDelta \<le> unat epoch then None else nodesConfig nc e)
       else (if unat e + unat maxDelta \<le> 2 ^ 32 + unat epoch then None else nodesConfig nc e))" for e
    unfolding removeOlderEpochs_def using low [of e] high [of e] by (cases "maxDelta \<le> epoch") simp_all
  have "nodesConfig (removeOlderEpochs epoch maxDelta nc) epoch = None" if "unat maxDelta \<le> card (dom (nodesConfig nc))" "epoch < maxDelta"
  proof -
    have "\<not> maxDelta \<le> epoch" using that(2) by (simp add: not_le)
    then show ?thesis unfolding kept using that(1) bound by simp
  qed
  then show ?thesis using kept by (simp add: ComputeConsensusGroup_def)
qed

theorem removeOlderEpochs_wraps_witness:
  "\<exists>nc. nodesConfig nc = [0 \<mapsto> exampleCfg, 1 \<mapsto> exampleCfg, 2 \<mapsto> exampleCfg, 3 \<mapsto> exampleCfg] \<and>
    fst (ComputeConsensusGroup exampleCoordEnv ''rnd'' 7 0 3 (removeOlderEpochs 3 4 nc)) = Inl (ErrEpochNodesConfigDoesNotExist 3)"
proof -
  define nc where "nc = exampleNc\<lparr>nodesConfig := [0 \<mapsto> exampleCfg, 1 \<mapsto> exampleCfg, 2 \<mapsto> exampleCfg, 3 \<mapsto> exampleCfg]\<rparr>"
  have "unat (4 :: u32) \<le> card (dom (nodesConfig nc)) \<and> (3 :: u32) < 4 \<and> ''rnd'' \<noteq> []" by (simp add: nc_def)
  then have "fst (ComputeConsensusGroup exampleCoordEnv ''rnd'' 7 0 3 (removeOlderEpochs 3 4 nc)) = Inl (ErrEpochNodesConfigDoesNotExist 3)"
    using removeOlderEpochs_wraps [of 3 4 nc "''rnd''" exampleCoordEnv 7 0] by (metis fst_conv)
  then show ?thesis by (intro exI [of _ nc]) (simp add: nc_def)
qed

end
