(* ===== verification/ForkDetector.thy ===== *)
theory ForkDetector
  imports Prelude "HOL-Library.Char_ord" "HOL-Library.List_Lexorder"
begin

text \<open>
  The fork detector: \<^verbatim>\<open>baseForkDetector.go\<close>, \<^verbatim>\<open>shardForkDetector.go\<close> and \<^verbatim>\<open>metaForkDetector.go\<close> of \<^verbatim>\<open>src/process/sync\<close>.

  It keeps the headers that were received, processed by this node or notarized by the metachain, by nonce, and the checkpoints of processed blocks, of
  which one is final. \<^verbatim>\<open>CheckFork\<close> says whether the node processed a block that the network will not keep.

  Both detectors share a state; which of them it is, is an argument (\<^verbatim>\<open>detectorKind\<close>) where the code calls a method of the interface. The round, its duration, the
  black list (an interface of another repository) and the order of loops over the map of headers are fields of \<^verbatim>\<open>fdEnv\<close>. Mutexes have no counterpart.
\<close>

section \<open>Data\<close>

datatype blockHeaderState = BHReceived | BHReceivedTooLate | BHProcessed | BHProposed | BHNotarized

record headerInfo =
  hiEpoch :: u32
  hiNonce :: u64
  hiRound :: u64
  hiHash :: bytes
  hiState :: blockHeaderState

record checkpointInfo =
  cpNonce :: u64
  cpRound :: u64
  cpHash :: bytes

record forkState =
  checkpoint :: "checkpointInfo list"
  finalCheckpoint :: checkpointInfo
  probableHighestNonce :: u64
  highestNonceReceived :: u64
  rollBackNonce :: u64
  lastRoundWithForcedFork :: i64

record baseForkDetector =
  fdHeaders :: "u64 \<rightharpoonup> headerInfo list"
  fork :: forkState
  genesisTime :: i64
  genesisNonce :: u64
  genesisRound :: u64
  genesisEpoch :: u32
  maxForkHeaderEpoch :: u32
  blackList :: "bytes set"

record blockHeader =
  bhNonce :: u64
  bhRound :: u64
  bhEpoch :: u32
  bhTimeStamp :: u64
  bhPrevHash :: bytes

record forkInfo =
  fiIsDetected :: bool
  fiNonce :: u64
  fiRound :: u64
  fiHash :: bytes

datatype detectorKind = ShardForkDetector | MetaForkDetector

datatype fdError =
    ErrNilHeader
  | ErrNilHash
  | ErrHeaderIsBlackListed
  | ErrGenesisTimeMissmatch
  | ErrLowerRoundInBlock
  | ErrLowerNonceInBlock
  | ErrHigherRoundInBlock
  | ErrHigherNonceInBlock
  | FdPanic string

record fdEnv =
  feIndex :: i64 \<comment> \<open>\<^verbatim>\<open>roundHandler.Index()\<close>\<close>
  feRoundSeconds :: u64 \<comment> \<open>\<^verbatim>\<open>uint64(roundHandler.TimeDuration().Seconds())\<close>\<close>
  feSweep :: "bytes set \<Rightarrow> bytes set"
  feAdd :: "bytes set \<Rightarrow> bytes \<Rightarrow> bytes set"
  feHas :: "bytes set \<Rightarrow> bytes \<Rightarrow> bool"
  feOrder :: "u64 set \<Rightarrow> u64 list" \<comment> \<open>the order in which a loop visits the keys of a Go map\<close>

definition maxUint64 :: u64 where
  "maxUint64 = - 1"

definition MetachainId :: u32 where
  "MetachainId = 0xFFFFFFFF"

definition BlockFinality :: i64 where
  "BlockFinality = 1"

definition NonceDifferenceWhenSynced :: int where
  "NonceDifferenceWhenSynced = 0"

definition MaxRoundsWithoutCommittedBlock :: int where
  "MaxRoundsWithoutCommittedBlock = 10"

definition MinForkRound :: u64 where
  "MinForkRound = 0"

definition RoundModulusTrigger :: int where
  "RoundModulusTrigger = 5"

section \<open>Checkpoints\<close>

definition lastCheckpoint :: "baseForkDetector \<Rightarrow> checkpointInfo" where
  "lastCheckpoint d =
     (if checkpoint (fork d) = [] then \<lparr>cpNonce = genesisNonce d, cpRound = genesisRound d, cpHash = []\<rparr>
      else last (checkpoint (fork d)))"

definition finalNonce :: "baseForkDetector \<Rightarrow> u64" where
  "finalNonce d = cpNonce (finalCheckpoint (fork d))"

definition setFinalCheckpoint :: "checkpointInfo \<Rightarrow> baseForkDetector \<Rightarrow> baseForkDetector" where
  "setFinalCheckpoint c d = d\<lparr>fork := (fork d)\<lparr>finalCheckpoint := c\<rparr>\<rparr>"

definition addCheckpoint :: "checkpointInfo \<Rightarrow> baseForkDetector \<Rightarrow> baseForkDetector" where
  "addCheckpoint c d = d\<lparr>fork := (fork d)\<lparr>checkpoint := checkpoint (fork d) @ [c]\<rparr>\<rparr>"

definition setProbableHighestNonce :: "u64 \<Rightarrow> baseForkDetector \<Rightarrow> baseForkDetector" where
  "setProbableHighestNonce n d = d\<lparr>fork := (fork d)\<lparr>probableHighestNonce := n\<rparr>\<rparr>"

definition setHighestNonceReceived :: "u64 \<Rightarrow> baseForkDetector \<Rightarrow> baseForkDetector" where
  "setHighestNonceReceived n d =
     (if n \<le> highestNonceReceived (fork d) then d else d\<lparr>fork := (fork d)\<lparr>highestNonceReceived := n\<rparr>\<rparr>)"

definition SetRollBackNonce :: "u64 \<Rightarrow> baseForkDetector \<Rightarrow> baseForkDetector" where
  "SetRollBackNonce n d = d\<lparr>fork := (fork d)\<lparr>rollBackNonce := n\<rparr>\<rparr>"

definition setLastRoundWithForcedFork :: "i64 \<Rightarrow> baseForkDetector \<Rightarrow> baseForkDetector" where
  "setLastRoundWithForcedFork r d = d\<lparr>fork := (fork d)\<lparr>lastRoundWithForcedFork := r\<rparr>\<rparr>"

definition SetFinalToLastCheckpoint :: "baseForkDetector \<Rightarrow> baseForkDetector" where
  "SetFinalToLastCheckpoint d = setFinalCheckpoint (lastCheckpoint d) d"

definition removeCheckpointsBehindNonce :: "u64 \<Rightarrow> baseForkDetector \<Rightarrow> baseForkDetector" where
  "removeCheckpointsBehindNonce n d =
     d\<lparr>fork := (fork d)\<lparr>checkpoint := filter (\<lambda>c. \<not> cpNonce c < n) (checkpoint (fork d))\<rparr>\<rparr>"

definition removePastCheckpoints :: "baseForkDetector \<Rightarrow> baseForkDetector" where
  "removePastCheckpoints d = removeCheckpointsBehindNonce (finalNonce d) d"

definition removeCheckpointWithNonce :: "u64 \<Rightarrow> baseForkDetector \<Rightarrow> baseForkDetector" where
  "removeCheckpointWithNonce n d =
     d\<lparr>fork := (fork d)\<lparr>checkpoint := filter (\<lambda>c. cpNonce c \<noteq> n) (checkpoint (fork d))\<rparr>\<rparr>"

section \<open>Headers\<close>

text \<open>Keeping only some headers, and no empty list: the pattern of the loops that rebuild the map. No nonce ever has an empty list, so the loops that leave other nonces alone keep theirs.\<close>

definition keepHeaders :: "(u64 \<Rightarrow> headerInfo \<Rightarrow> bool) \<Rightarrow> baseForkDetector \<Rightarrow> baseForkDetector" where
  "keepHeaders P d = d\<lparr>fdHeaders := (\<lambda>n. case fdHeaders d n of
      None \<Rightarrow> None
    | Some l \<Rightarrow> let kept = filter (P n) l in if kept = [] then None else Some kept)\<rparr>"

definition removePastHeaders :: "baseForkDetector \<Rightarrow> baseForkDetector" where
  "removePastHeaders d = d\<lparr>fdHeaders := (\<lambda>n. if n < finalNonce d then None else fdHeaders d n)\<rparr>"

definition isReceivedHeaderInvalid :: "baseForkDetector \<Rightarrow> headerInfo \<Rightarrow> bool" where
  "isReceivedHeaderInvalid d hi =
     (let roundDif = hiRound hi - cpRound (finalCheckpoint (fork d));
          nonceDif = hiNonce hi - finalNonce d
      in (hiState hi = BHReceived \<or> hiState hi = BHReceivedTooLate) \<and> sint roundDif < sint nonceDif)"

definition removeInvalidReceivedHeaders :: "baseForkDetector \<Rightarrow> baseForkDetector" where
  "removeInvalidReceivedHeaders d = keepHeaders (\<lambda>_ hi. \<not> isReceivedHeaderInvalid d hi) d"

definition removePastOrInvalidRecords :: "baseForkDetector \<Rightarrow> baseForkDetector" where
  "removePastOrInvalidRecords d = removePastCheckpoints (removeInvalidReceivedHeaders (removePastHeaders d))"

definition cleanupReceivedHeadersHigherThanNonce :: "u64 \<Rightarrow> baseForkDetector \<Rightarrow> baseForkDetector" where
  "cleanupReceivedHeadersHigherThanNonce nonce d = keepHeaders (\<lambda>n hi. n \<le> nonce \<or> hiState hi = BHNotarized) d"

definition computeProbableHighestNonce :: "fdEnv \<Rightarrow> baseForkDetector \<Rightarrow> u64" where
  "computeProbableHighestNonce env d =
     fold (\<lambda>nonce p. if nonce \<le> p then p else nonce) (feOrder env (dom (fdHeaders d))) (finalNonce d)"

definition updateProbableHighestNonce :: "fdEnv \<Rightarrow> baseForkDetector \<Rightarrow> baseForkDetector" where
  "updateProbableHighestNonce env d = setProbableHighestNonce (computeProbableHighestNonce env d) d"

definition appendHeader :: "headerInfo \<Rightarrow> baseForkDetector \<Rightarrow> bool \<times> baseForkDetector" where
  "appendHeader hi d =
     (let hdrInfos = (case fdHeaders d (hiNonce hi) of None \<Rightarrow> [] | Some l \<Rightarrow> l)
      in if \<exists>stored\<in>set hdrInfos. hiHash stored = hiHash hi \<and> hiState stored = hiState hi then (False, d)
         else (True, d\<lparr>fdHeaders := (fdHeaders d)(hiNonce hi \<mapsto> hdrInfos @ [hi])\<rparr>))"

definition GetNotarizedHeaderHash :: "baseForkDetector \<Rightarrow> u64 \<Rightarrow> bytes option" where
  "GetNotarizedHeaderHash d nonce =
     (case fdHeaders d nonce of
        None \<Rightarrow> None
      | Some l \<Rightarrow> map_option hiHash (find (\<lambda>hi. hiState hi = BHNotarized) l))"

definition RestoreToGenesis :: "baseForkDetector \<Rightarrow> baseForkDetector" where
  "RestoreToGenesis d =
     (let c = \<lparr>cpNonce = genesisNonce d, cpRound = genesisRound d, cpHash = []\<rparr>
      in d\<lparr>fdHeaders := Map.empty,
           fork := (fork d)\<lparr>checkpoint := [c], finalCheckpoint := c, probableHighestNonce := genesisNonce d,
             highestNonceReceived := genesisNonce d\<rparr>\<rparr>)"

section \<open>The final checkpoint\<close>

fun processedAndNotarizedLoop :: "headerInfo list \<Rightarrow> headerInfo option \<Rightarrow> headerInfo option \<Rightarrow> headerInfo option \<times> headerInfo option" where
  "processedAndNotarizedLoop [] p n = (p, n)"
| "processedAndNotarizedLoop (hi # rest) p n =
     (if hiState hi = BHProcessed then processedAndNotarizedLoop rest (Some hi) n
      else if hiState hi = BHNotarized then processedAndNotarizedLoop rest p (Some hi)
      else processedAndNotarizedLoop rest p n)"

text \<open>The last processed and the last notarized header of a list, where the code has their indexes.\<close>

definition getProcessedAndNotarized :: "headerInfo list \<Rightarrow> headerInfo option \<times> headerInfo option" where
  "getProcessedAndNotarized headersInfo = processedAndNotarizedLoop headersInfo None None"

definition finalCheckpointStep :: "baseForkDetector \<Rightarrow> u64 \<Rightarrow> checkpointInfo option \<Rightarrow> checkpointInfo option" where
  "finalCheckpointStep d nonce acc =
     (if (case acc of None \<Rightarrow> 0 | Some c \<Rightarrow> cpNonce c) \<ge> nonce then acc
      else case getProcessedAndNotarized (case fdHeaders d nonce of None \<Rightarrow> [] | Some l \<Rightarrow> l) of
             (Some p, Some n) \<Rightarrow>
               if hiHash n = hiHash p then Some \<lparr>cpNonce = nonce, cpRound = hiRound n, cpHash = hiHash n\<rparr> else acc
           | _ \<Rightarrow> acc)"

definition shardComputeFinalCheckpoint :: "fdEnv \<Rightarrow> baseForkDetector \<Rightarrow> baseForkDetector" where
  "shardComputeFinalCheckpoint env d =
     (case fold (finalCheckpointStep d) (feOrder env (dom (fdHeaders d))) None of
        None \<Rightarrow> d
      | Some c \<Rightarrow> setFinalCheckpoint c d)"

definition computeFinalCheckpoint :: "detectorKind \<Rightarrow> fdEnv \<Rightarrow> baseForkDetector \<Rightarrow> baseForkDetector" where
  "computeFinalCheckpoint kind env d = (case kind of ShardForkDetector \<Rightarrow> shardComputeFinalCheckpoint env d | MetaForkDetector \<Rightarrow> d)"

fun selfNotarizedLoop ::
  "u64 \<Rightarrow> blockHeader list \<Rightarrow> bytes list \<Rightarrow> bool \<Rightarrow> baseForkDetector \<Rightarrow> (fdError + bool) \<times> baseForkDetector" where
  "selfNotarizedLoop final [] hashes added d = (Inr added, d)"
| "selfNotarizedLoop final (h # hs) hashes added d =
     (if bhNonce h \<le> final then selfNotarizedLoop final hs (tl hashes) added d
      else case hashes of
             [] \<Rightarrow> (Inl (FdPanic ''index out of range''), d)
           | hash # rest \<Rightarrow>
               (case appendHeader \<lparr>hiEpoch = 0, hiNonce = bhNonce h, hiRound = bhRound h, hiHash = hash, hiState = BHNotarized\<rparr> d of
                  (appended, d') \<Rightarrow> selfNotarizedLoop final hs rest (added \<or> appended) d'))"

definition appendSelfNotarizedHeaders ::
  "blockHeader list \<Rightarrow> bytes list \<Rightarrow> baseForkDetector \<Rightarrow> (fdError + bool) \<times> baseForkDetector" where
  "appendSelfNotarizedHeaders selfNotarizedHeaders hashes d = selfNotarizedLoop (finalNonce d) selfNotarizedHeaders hashes False d"

definition ReceivedSelfNotarizedFromCrossHeaders ::
  "fdEnv \<Rightarrow> u32 \<Rightarrow> blockHeader list \<Rightarrow> bytes list \<Rightarrow> baseForkDetector \<Rightarrow> (fdError + unit) \<times> baseForkDetector" where
  "ReceivedSelfNotarizedFromCrossHeaders env shardID selfNotarizedHeaders hashes d =
     (if shardID \<noteq> MetachainId then (Inr (), d)
      else case appendSelfNotarizedHeaders selfNotarizedHeaders hashes d of
             (Inl e, d1) \<Rightarrow> (Inl e, d1)
           | (Inr appended, d1) \<Rightarrow> (Inr (), if appended then shardComputeFinalCheckpoint env d1 else d1))"

definition headerCheckpoint :: "blockHeader \<Rightarrow> bytes \<Rightarrow> checkpointInfo" where
  "headerCheckpoint header headerHash = \<lparr>cpNonce = bhNonce header, cpRound = bhRound header, cpHash = headerHash\<rparr>"

definition shardDoJobOnBHProcessed ::
  "fdEnv \<Rightarrow> blockHeader \<Rightarrow> bytes \<Rightarrow> blockHeader list \<Rightarrow> bytes list \<Rightarrow> baseForkDetector \<Rightarrow> (fdError + unit) \<times> baseForkDetector" where
  "shardDoJobOnBHProcessed env header headerHash selfNotarizedHeaders hashes d =
     (case appendSelfNotarizedHeaders selfNotarizedHeaders hashes d of
        (Inl e, d1) \<Rightarrow> (Inl e, d1)
      | (Inr _, d1) \<Rightarrow>
          (Inr (), removePastOrInvalidRecords (addCheckpoint (headerCheckpoint header headerHash) (shardComputeFinalCheckpoint env d1))))"

definition metaDoJobOnBHProcessed :: "blockHeader \<Rightarrow> bytes \<Rightarrow> baseForkDetector \<Rightarrow> baseForkDetector" where
  "metaDoJobOnBHProcessed header headerHash d =
     removePastOrInvalidRecords (addCheckpoint (headerCheckpoint header headerHash) (setFinalCheckpoint (lastCheckpoint d) d))"

definition doJobOnBHProcessed ::
  "detectorKind \<Rightarrow> fdEnv \<Rightarrow> blockHeader \<Rightarrow> bytes \<Rightarrow> blockHeader list \<Rightarrow> bytes list \<Rightarrow> baseForkDetector \<Rightarrow> (fdError + unit) \<times> baseForkDetector" where
  "doJobOnBHProcessed kind env header headerHash selfNotarizedHeaders hashes d =
     (case kind of
        ShardForkDetector \<Rightarrow> shardDoJobOnBHProcessed env header headerHash selfNotarizedHeaders hashes d
      | MetaForkDetector \<Rightarrow> (Inr (), metaDoJobOnBHProcessed header headerHash d))"

section \<open>Adding a header\<close>

definition computeGenesisTimeFromHeader :: "fdEnv \<Rightarrow> baseForkDetector \<Rightarrow> blockHeader \<Rightarrow> i64" where
  "computeGenesisTimeFromHeader env d h = bhTimeStamp h - (bhRound h - genesisRound d) * feRoundSeconds env"

definition AddHeaderToBlackList :: "fdEnv \<Rightarrow> bytes \<Rightarrow> baseForkDetector \<Rightarrow> baseForkDetector" where
  "AddHeaderToBlackList env hash d = d\<lparr>blackList := feAdd env (feSweep env (blackList d)) hash\<rparr>"

definition checkBlockBasicValidity ::
  "fdEnv \<Rightarrow> blockHeader option \<Rightarrow> bytes option \<Rightarrow> baseForkDetector \<Rightarrow> (fdError + blockHeader \<times> bytes) \<times> baseForkDetector" where
  "checkBlockBasicValidity env header headerHash d =
     (case header of
        None \<Rightarrow> (Inl ErrNilHeader, d)
      | Some h \<Rightarrow>
      case headerHash of
        None \<Rightarrow> (Inl ErrNilHash, d)
      | Some hash \<Rightarrow>
          let roundDif = sint (bhRound h - cpRound (finalCheckpoint (fork d)));
              nonceDif = sint (bhNonce h - finalNonce d);
              nextRound = feIndex env + 1;
              d1 = d\<lparr>blackList := feSweep env (blackList d)\<rparr>
          in if feHas env (blackList d1) (bhPrevHash h) then (Inl ErrHeaderIsBlackListed, AddHeaderToBlackList env hash d1)
             else if computeGenesisTimeFromHeader env d h \<noteq> genesisTime d then (Inl ErrGenesisTimeMissmatch, AddHeaderToBlackList env hash d1)
             else if roundDif < 0 then (Inl ErrLowerRoundInBlock, d1)
             else if nonceDif < 0 then (Inl ErrLowerNonceInBlock, d1)
             else if sint (bhRound h) > sint nextRound then (Inl ErrHigherRoundInBlock, d1)
             else if roundDif < nonceDif then (Inl ErrHigherNonceInBlock, d1)
             else (Inr (h, hash), d1))"

definition isHeaderReceivedTooLate :: "fdEnv \<Rightarrow> blockHeader \<Rightarrow> blockHeaderState \<Rightarrow> i64 \<Rightarrow> bool" where
  "isHeaderReceivedTooLate env h state finality = (state \<noteq> BHProcessed \<and> sint (bhRound h) < sint (feIndex env - finality))"

definition processReceivedBlock ::
  "detectorKind \<Rightarrow> fdEnv \<Rightarrow> blockHeader \<Rightarrow> bytes \<Rightarrow> blockHeaderState \<Rightarrow> blockHeader list \<Rightarrow> bytes list \<Rightarrow> baseForkDetector
     \<Rightarrow> (fdError + unit) \<times> baseForkDetector" where
  "processReceivedBlock kind env h hash state selfNotarizedHeaders hashes d =
     (let d1 = setHighestNonceReceived (bhNonce h) d
      in if state = BHProposed then (Inr (), d1)
         else
           let state1 = (if isHeaderReceivedTooLate env h state BlockFinality then BHReceivedTooLate else state)
           in case appendHeader \<lparr>hiEpoch = bhEpoch h, hiNonce = bhNonce h, hiRound = bhRound h, hiHash = hash, hiState = state1\<rparr> d1 of
                (False, d2) \<Rightarrow> (Inr (), d2)
              | (True, d2) \<Rightarrow>
                  (case if state1 = BHProcessed then doJobOnBHProcessed kind env h hash selfNotarizedHeaders hashes d2 else (Inr (), d2) of
                     (Inl e, d3) \<Rightarrow> (Inl e, d3)
                   | (Inr _, d3) \<Rightarrow> (Inr (), updateProbableHighestNonce env d3)))"

definition AddHeader ::
  "detectorKind \<Rightarrow> fdEnv \<Rightarrow> blockHeader option \<Rightarrow> bytes option \<Rightarrow> blockHeaderState \<Rightarrow> blockHeader list \<Rightarrow> bytes list \<Rightarrow> baseForkDetector
     \<Rightarrow> (fdError + unit) \<times> baseForkDetector" where
  "AddHeader kind env header headerHash state selfNotarizedHeaders hashes d =
     (case checkBlockBasicValidity env header headerHash d of
        (Inl e, d1) \<Rightarrow> (Inl e, d1)
      | (Inr (h, hash), d1) \<Rightarrow> processReceivedBlock kind env h hash state selfNotarizedHeaders hashes d1)"

section \<open>Removing headers\<close>

definition RemoveHeader :: "detectorKind \<Rightarrow> fdEnv \<Rightarrow> u64 \<Rightarrow> bytes \<Rightarrow> baseForkDetector \<Rightarrow> baseForkDetector" where
  "RemoveHeader kind env nonce hash d =
     (if nonce \<le> finalNonce d then d
      else
        let d1 = removeCheckpointWithNonce nonce d;
            d2 = keepHeaders (\<lambda>n hi. n \<noteq> nonce \<or> \<not> (hiState hi \<noteq> BHNotarized \<and> hash = hiHash hi)) d1
        in updateProbableHighestNonce env (computeFinalCheckpoint kind env d2))"

definition ResetProbableHighestNonce :: "fdEnv \<Rightarrow> baseForkDetector \<Rightarrow> baseForkDetector" where
  "ResetProbableHighestNonce env d =
     updateProbableHighestNonce env (cleanupReceivedHeadersHigherThanNonce (cpNonce (lastCheckpoint d)) d)"

definition ResetFork :: "fdEnv \<Rightarrow> baseForkDetector \<Rightarrow> baseForkDetector" where
  "ResetFork env d = setLastRoundWithForcedFork (feIndex env) (ResetProbableHighestNonce env d)"

section \<open>Checking for a fork\<close>

definition isSyncing :: "baseForkDetector \<Rightarrow> bool" where
  "isSyncing d = (sint (probableHighestNonce (fork d) - cpNonce (lastCheckpoint d)) > NonceDifferenceWhenSynced)"

definition IsInProperRound :: "i64 \<Rightarrow> bool" where
  "IsInProperRound index = (RoundModulusTrigger dvd sint index)"

definition isConsensusStuck :: "fdEnv \<Rightarrow> baseForkDetector \<Rightarrow> bool" where
  "isConsensusStuck env d =
     (if lastRoundWithForcedFork (fork d) = feIndex env then False
      else if isSyncing d then False
      else if sint (feIndex env - cpRound (lastCheckpoint d)) \<le> MaxRoundsWithoutCommittedBlock then False
      else if \<not> IsInProperRound (feIndex env) then False
      else True)"

fun maxEpochLoop :: "headerInfo list \<Rightarrow> u32 \<Rightarrow> u32" where
  "maxEpochLoop [] maxEpoch = maxEpoch"
| "maxEpochLoop (hi # rest) maxEpoch = maxEpochLoop rest (if hiEpoch hi > maxEpoch then hiEpoch hi else maxEpoch)"

definition getMaxEpochFromHdrsInfo :: "headerInfo list \<Rightarrow> u32" where
  "getMaxEpochFromHdrsInfo hdrInfos = maxEpochLoop hdrInfos 0"

definition computeForkInfo :: "baseForkDetector \<Rightarrow> headerInfo \<Rightarrow> bytes \<times> u64 \<times> u32 \<Rightarrow> bytes \<times> u64 \<times> u32" where
  "computeForkInfo d hi lastFork =
     (case lastFork of
        (lastForkHash, lastForkRound, lastForkEpoch) \<Rightarrow>
          if hiState hi = BHReceivedTooLate \<and> highestNonceReceived (fork d) > hiNonce hi then lastFork
          else if hiState hi \<noteq> BHNotarized \<and> hiEpoch hi < maxForkHeaderEpoch d then lastFork
          else
            let currentForkRound = (if hiState hi = BHNotarized then MinForkRound else hiRound hi)
            in if currentForkRound < lastForkRound then (hiHash hi, currentForkRound, hiEpoch hi)
               else if currentForkRound = lastForkRound \<and> hiHash hi < lastForkHash then (hiHash hi, currentForkRound, hiEpoch hi)
               else lastFork)"

definition shouldSignalFork :: "baseForkDetector \<Rightarrow> headerInfo \<Rightarrow> bytes \<times> u64 \<times> u32 \<Rightarrow> bool" where
  "shouldSignalFork d hi lastFork =
     (case lastFork of
        (lastForkHash, lastForkRound, lastForkEpoch) \<Rightarrow>
          if hiHash hi = lastForkHash then False
          else if lastForkRound \<noteq> MinForkRound \<and> hiEpoch hi > lastForkEpoch then False
          else if lastForkRound \<noteq> MinForkRound \<and> hiEpoch hi < lastForkEpoch then True
          else
            let higherHashForSameRound = (hiRound hi = lastForkRound \<and> hiHash hi > lastForkHash);
                higherNonceReceived = highestNonceReceived (fork d) > hiNonce hi
            in hiRound hi > lastForkRound \<or> (higherHashForSameRound \<and> \<not> higherNonceReceived))"

fun forkHeaderLoop :: "baseForkDetector \<Rightarrow> headerInfo list \<Rightarrow> headerInfo option \<Rightarrow> bytes \<times> u64 \<times> u32 \<Rightarrow> headerInfo option \<times> bytes \<times> u64 \<times> u32" where
  "forkHeaderLoop d [] self lastFork = (self, lastFork)"
| "forkHeaderLoop d (hi # rest) self lastFork =
     (if hiState hi = BHProcessed then forkHeaderLoop d rest (Some hi) lastFork
      else forkHeaderLoop d rest self (computeForkInfo d hi lastFork))"

text \<open>One nonce in the loop of \<^verbatim>\<open>CheckFork\<close>.\<close>

definition checkForkAt :: "u64 \<Rightarrow> forkInfo \<times> baseForkDetector \<Rightarrow> forkInfo \<times> baseForkDetector" where
  "checkForkAt nonce acc =
     (case acc of
        (fi, d) \<Rightarrow>
          let hdrsInfo = (case fdHeaders d nonce of None \<Rightarrow> [] | Some l \<Rightarrow> l)
          in if length hdrsInfo = 1 then (fi, d)
             else if nonce \<le> finalNonce d then (fi, d)
             else
               let d1 = d\<lparr>maxForkHeaderEpoch := getMaxEpochFromHdrsInfo hdrsInfo\<rparr>
               in case forkHeaderLoop d1 hdrsInfo None ([], maxUint64, 0) of
                    (None, _) \<Rightarrow> (fi, d1)
                  | (Some self, lastFork) \<Rightarrow>
                      if shouldSignalFork d1 self lastFork then
                        (if nonce < fiNonce fi
                         then (fi\<lparr>fiIsDetected := True, fiNonce := nonce, fiRound := fst (snd lastFork), fiHash := fst lastFork\<rparr>, d1)
                         else (fi\<lparr>fiIsDetected := True\<rparr>, d1))
                      else (fi, d1))"

definition NewForkInfo :: forkInfo where
  "NewForkInfo = \<lparr>fiIsDetected = False, fiNonce = maxUint64, fiRound = maxUint64, fiHash = []\<rparr>"

definition CheckFork :: "fdEnv \<Rightarrow> baseForkDetector \<Rightarrow> forkInfo \<times> baseForkDetector" where
  "CheckFork env d =
     (if isConsensusStuck env d then (NewForkInfo\<lparr>fiIsDetected := True\<rparr>, d)
      else if rollBackNonce (fork d) < maxUint64
      then (NewForkInfo\<lparr>fiIsDetected := True, fiNonce := rollBackNonce (fork d)\<rparr>, SetRollBackNonce maxUint64 d)
      else fold checkForkAt (feOrder env (dom (fdHeaders d))) (NewForkInfo, d))"

section \<open>Creation\<close>

text \<open>\<^verbatim>\<open>NewShardForkDetector\<close> and \<^verbatim>\<open>NewMetaForkDetector\<close> from the genesis header of the block tracker; the checks on \<^verbatim>\<open>nil\<close> components have no counterpart.\<close>

definition newForkDetector :: "blockHeader \<Rightarrow> i64 \<Rightarrow> bytes set \<Rightarrow> baseForkDetector" where
  "newForkDetector genesisHdr time blacklist =
     (let c = \<lparr>cpNonce = bhNonce genesisHdr, cpRound = bhRound genesisHdr, cpHash = []\<rparr>
      in \<lparr>fdHeaders = Map.empty,
          fork = \<lparr>checkpoint = [c], finalCheckpoint = c, probableHighestNonce = bhNonce genesisHdr, highestNonceReceived = bhNonce genesisHdr,
                  rollBackNonce = maxUint64, lastRoundWithForcedFork = 0\<rparr>,
          genesisTime = time, genesisNonce = bhNonce genesisHdr, genesisRound = bhRound genesisHdr, genesisEpoch = bhEpoch genesisHdr,
          maxForkHeaderEpoch = 0, blackList = blacklist\<rparr>)"

end
