(* ===== verification/ForkChoice.thy ===== *)
theory ForkChoice
  imports ForkDetector "HOL-Library.Product_Lexorder"
begin

text \<open>
  What \<^verbatim>\<open>CheckFork\<close> decides, without its loops: for every nonce the header with the least round and hash among those that count, and among the nonces with a fork the least.
\<close>

section \<open>The header of a fork\<close>

definition headersAt :: "baseForkDetector \<Rightarrow> u64 \<Rightarrow> headerInfo list" where
  "headersAt d n = (case fdHeaders d n of None \<Rightarrow> [] | Some l \<Rightarrow> l)"

text \<open>By what headers are compared: a notarized header comes before all others.\<close>

definition forkKey :: "headerInfo \<Rightarrow> u64 \<times> bytes" where
  "forkKey hi = (if hiState hi = BHNotarized then MinForkRound else hiRound hi, hiHash hi)"

text \<open>Which headers count: not the one this node processed, none that came too late when later nonces are known, and only notarized ones and those of the highest epoch.\<close>

definition counts :: "baseForkDetector \<Rightarrow> u32 \<Rightarrow> headerInfo \<Rightarrow> bool" where
  "counts d maxEpoch hi \<longleftrightarrow> hiState hi \<noteq> BHProcessed \<and> \<not> (hiState hi = BHReceivedTooLate \<and> highestNonceReceived (fork d) > hiNonce hi) \<and>
     (hiState hi = BHNotarized \<or> maxEpoch \<le> hiEpoch hi)"

definition leastKey :: "u64 \<times> bytes \<Rightarrow> (u64 \<times> bytes) set \<Rightarrow> u64 \<times> bytes" where
  "leastKey a S = Min (insert a S)"

lemma leastKey_insert: "finite S \<Longrightarrow> leastKey a (insert k S) = leastKey (min a k) S"
  unfolding leastKey_def by (cases "S = {}") (simp_all add: min.assoc)

lemma leastKey_empty [simp]: "leastKey a {} = a"
  by (simp add: leastKey_def)

lemma leastKey_le: "finite S \<Longrightarrow> leastKey a S \<le> a" "finite S \<Longrightarrow> k \<in> S \<Longrightarrow> leastKey a S \<le> k" "finite S \<Longrightarrow> leastKey a S = a \<or> leastKey a S \<in> S"
  unfolding leastKey_def using Min_in [of "insert a S"] by auto

definition forkChoice :: "baseForkDetector \<Rightarrow> headerInfo list \<Rightarrow> u64 \<times> bytes" where
  "forkChoice d l = leastKey (maxUint64, []) (forkKey ` {hi \<in> set l. counts d (getMaxEpochFromHdrsInfo l) hi})"

definition ownHeader :: "headerInfo list \<Rightarrow> headerInfo option" where
  "ownHeader l = (let own = filter (\<lambda>hi. hiState hi = BHProcessed) l in if own = [] then None else Some (last own))"

lemma computeForkInfo_key:
  "computeForkInfo d hi (h, r, e) = (if counts d (maxForkHeaderEpoch d) hi \<and> forkKey hi < (r, h) then (hiHash hi, fst (forkKey hi), hiEpoch hi) else (h, r, e))"
  if "hiState hi \<noteq> BHProcessed"
proof -
  define c where "c = (if hiState hi = BHNotarized then MinForkRound else hiRound hi)"
  define A where "A \<longleftrightarrow> hiState hi = BHReceivedTooLate \<and> highestNonceReceived (fork d) > hiNonce hi"
  define B where "B \<longleftrightarrow> hiState hi \<noteq> BHNotarized \<and> hiEpoch hi < maxForkHeaderEpoch d"
  have "forkKey hi < (r, h) \<longleftrightarrow> c < r \<or> (c = r \<and> hiHash hi < h)" unfolding forkKey_def c_def less_prod_simp by (auto simp: order.order_iff_strict)
  moreover have "fst (forkKey hi) = c" by (simp add: forkKey_def c_def)
  moreover have "counts d (maxForkHeaderEpoch d) hi \<longleftrightarrow> \<not> A \<and> \<not> B" using that unfolding counts_def A_def B_def by auto
  moreover have "computeForkInfo d hi (h, r, e) = (if A then (h, r, e) else if B then (h, r, e) else if c < r then (hiHash hi, c, hiEpoch hi)
      else if c = r \<and> hiHash hi < h then (hiHash hi, c, hiEpoch hi) else (h, r, e))"
    unfolding computeForkInfo_def Let_def prod.case A_def B_def c_def by (rule refl)
  ultimately show ?thesis by (cases A; cases B) auto
qed

lemma maxEpochLoop_ge: "m \<le> maxEpochLoop l m"
proof (induction l arbitrary: m)
  case (Cons a l)
  from Cons [of "hiEpoch a"] Cons [of m] show ?case by (auto intro: order.trans less_imp_le)
qed simp

lemma maxEpochLoop_le: "hi \<in> set l \<Longrightarrow> hiEpoch hi \<le> maxEpochLoop l m"
proof (induction l arbitrary: m)
  case (Cons a l)
  show ?case
  proof (cases "hi = a")
    case True
    have "hiEpoch a \<le> (if hiEpoch a > m then hiEpoch a else m)" by (simp add: not_less)
    then show ?thesis unfolding True maxEpochLoop.simps by (rule order.trans) (rule maxEpochLoop_ge)
  next
    case False
    then show ?thesis using Cons by simp
  qed
qed simp

lemma forkHeaderLoop_least:
  assumes "\<forall>hi\<in>set l. hiEpoch hi \<le> maxForkHeaderEpoch d" and "forkHeaderLoop d l self (h, r, e) = (self', h', r', e')"
  shows "self' = (case ownHeader l of None \<Rightarrow> self | Some s \<Rightarrow> Some s) \<and>
    (r', h') = leastKey (r, h) (forkKey ` {hi \<in> set l. counts d (maxForkHeaderEpoch d) hi}) \<and>
    ((r', h') = (r, h) \<longrightarrow> e' = e) \<and> ((r', h') \<noteq> (r, h) \<longrightarrow> r' = MinForkRound \<or> e' = maxForkHeaderEpoch d)"
  using assms
proof (induction l arbitrary: self h r e)
  case Nil
  then show ?case by (simp add: ownHeader_def)
next
  case (Cons hi l)
  let ?K = "\<lambda>l. forkKey ` {hi \<in> set l. counts d (maxForkHeaderEpoch d) hi}"
  have fin: "finite (?K l)" by simp
  show ?case
  proof (cases "hiState hi = BHProcessed")
    case True
    then have K: "?K (hi # l) = ?K l" by (auto simp: counts_def)
    have own: "ownHeader (hi # l) = (case ownHeader l of None \<Rightarrow> Some hi | Some s \<Rightarrow> Some s)" using True by (simp add: ownHeader_def Let_def)
    have "forkHeaderLoop d l (Some hi) (h, r, e) = (self', h', r', e')" using Cons.prems(2) True by simp
    then show ?thesis using Cons.IH [of "Some hi" h r e] Cons.prems(1) unfolding K own by (auto split: option.splits)
  next
    case False
    have own: "ownHeader (hi # l) = ownHeader l" using False by (simp add: ownHeader_def)
    have run: "forkHeaderLoop d l self (computeForkInfo d hi (h, r, e)) = (self', h', r', e')" using Cons.prems(2) False by simp
    show ?thesis
    proof (cases "counts d (maxForkHeaderEpoch d) hi \<and> forkKey hi < (r, h)")
      case better: True
      have K: "?K (hi # l) = insert (forkKey hi) (?K l)" using better by auto
      have key: "forkKey hi = (fst (forkKey hi), hiHash hi)" by (simp add: forkKey_def)
      have "min (r, h) (forkKey hi) = forkKey hi" using better by (intro min_absorb2 less_imp_le) blast
      then have least: "leastKey (r, h) (?K (hi # l)) = leastKey (forkKey hi) (?K l)" unfolding K leastKey_insert [OF fin] by simp
      have "forkHeaderLoop d l self (hiHash hi, fst (forkKey hi), hiEpoch hi) = (self', h', r', e')"
        using run better by (simp add: computeForkInfo_key [OF False])
      note IH = Cons.IH [OF _ this]
      have "(r', h') = leastKey (forkKey hi) (?K l)" using IH Cons.prems(1) key by simp
      then have ne: "(r', h') \<noteq> (r, h)" using leastKey_le(1) [OF fin, of "forkKey hi"] better by auto
      have ep: "fst (forkKey hi) = MinForkRound \<or> hiEpoch hi = maxForkHeaderEpoch d"
        using better Cons.prems(1) by (auto simp: counts_def forkKey_def)
      show ?thesis unfolding own least using IH Cons.prems(1) ne ep key by (cases "(r', h') = forkKey hi") auto
    next
      case False': False
      have "leastKey (r, h) (?K (hi # l)) = leastKey (r, h) (?K l)"
      proof (cases "counts d (maxForkHeaderEpoch d) hi")
        case True
        then have "?K (hi # l) = insert (forkKey hi) (?K l)" by auto
        moreover have "min (r, h) (forkKey hi) = (r, h)" using False' True by (intro min_absorb1 leI) blast
        ultimately show ?thesis by (simp only: leastKey_insert [OF fin])
      next
        case False
        then have "?K (hi # l) = ?K l" by auto
        then show ?thesis by simp
      qed
      moreover have "forkHeaderLoop d l self (h, r, e) = (self', h', r', e')" using run False' by (auto simp: computeForkInfo_key [OF False])
      ultimately show ?thesis using Cons.IH [of self h r e] Cons.prems(1) unfolding own by auto
    qed
  qed
qed

section \<open>Forks\<close>

definition forkEpoch :: "headerInfo list \<Rightarrow> u64 \<times> bytes \<Rightarrow> u32" where
  "forkEpoch l k = (if k = (maxUint64, []) then 0 else getMaxEpochFromHdrsInfo l)"

text \<open>There is a fork at a nonce.\<close>

definition forkAt :: "baseForkDetector \<Rightarrow> u64 \<Rightarrow> bool" where
  "forkAt d n \<longleftrightarrow> (let l = headersAt d n; (r, h) = forkChoice d l in
     length l \<noteq> 1 \<and> finalNonce d < n \<and> (case ownHeader l of None \<Rightarrow> False | Some self \<Rightarrow> shouldSignalFork d self (h, r, forkEpoch l (r, h))))"

text \<open>The answer when there are forks exactly at the nonces of a set.\<close>

definition infoOf :: "baseForkDetector \<Rightarrow> u64 set \<Rightarrow> forkInfo" where
  "infoOf d S =
     (if S = {} then NewForkInfo
      else if Min S = maxUint64 then NewForkInfo\<lparr>fiIsDetected := True\<rparr>
      else case forkChoice d (headersAt d (Min S)) of (r, h) \<Rightarrow> \<lparr>fiIsDetected = True, fiNonce = Min S, fiRound = r, fiHash = h\<rparr>)"

lemma shouldSignalFork_round0: "shouldSignalFork d self (h, MinForkRound, e) = shouldSignalFork d self (h, MinForkRound, e')"
  by (simp add: shouldSignalFork_def)

text \<open>The field \<^verbatim>\<open>maxForkHeaderEpoch\<close> does not matter: it is set before it is read.\<close>

lemma epoch_irrelevant [simp]:
  "headersAt (d\<lparr>maxForkHeaderEpoch := x\<rparr>) = headersAt d" "counts (d\<lparr>maxForkHeaderEpoch := x\<rparr>) = counts d"
  "finalNonce (d\<lparr>maxForkHeaderEpoch := x\<rparr>) = finalNonce d" "shouldSignalFork (d\<lparr>maxForkHeaderEpoch := x\<rparr>) = shouldSignalFork d"
  by (simp_all add: fun_eq_iff headersAt_def counts_def finalNonce_def shouldSignalFork_def)

lemma epoch_irrelevant_fork [simp]:
  "forkChoice (d\<lparr>maxForkHeaderEpoch := x\<rparr>) = forkChoice d" "forkAt (d\<lparr>maxForkHeaderEpoch := x\<rparr>) = forkAt d"
proof -
  show c: "forkChoice (d\<lparr>maxForkHeaderEpoch := x\<rparr>) = forkChoice d" by (rule ext) (simp add: forkChoice_def)
  show "forkAt (d\<lparr>maxForkHeaderEpoch := x\<rparr>) = forkAt d" by (rule ext) (simp add: forkAt_def c Let_def split: option.splits prod.splits)
qed

definition addFork :: "baseForkDetector \<Rightarrow> u64 \<Rightarrow> forkInfo \<Rightarrow> forkInfo" where
  "addFork d n fi =
     (if forkAt d n then
        (if n < fiNonce fi then (case forkChoice d (headersAt d n) of (r, h) \<Rightarrow> fi\<lparr>fiIsDetected := True, fiNonce := n, fiRound := r, fiHash := h\<rparr>)
         else fi\<lparr>fiIsDetected := True\<rparr>)
      else fi)"

lemma checkForkAt_addFork: "\<exists>x. checkForkAt n (fi, d) = (addFork d n fi, d\<lparr>maxForkHeaderEpoch := x\<rparr>)"
proof (cases "length (headersAt d n) = 1 \<or> n \<le> finalNonce d")
  case True
  then have "\<not> forkAt d n" by (auto simp: forkAt_def Let_def)
  then have "checkForkAt n (fi, d) = (addFork d n fi, d\<lparr>maxForkHeaderEpoch := maxForkHeaderEpoch d\<rparr>)"
    using True by (auto simp: checkForkAt_def Let_def addFork_def headersAt_def)
  then show ?thesis by blast
next
  case False
  let ?l = "headersAt d n" and ?d = "d\<lparr>maxForkHeaderEpoch := getMaxEpochFromHdrsInfo (headersAt d n)\<rparr>"
  obtain self h r e where run: "forkHeaderLoop ?d ?l None ([], maxUint64, 0) = (self, h, r, e)" by (metis prod.exhaust)
  have "\<forall>hi\<in>set ?l. hiEpoch hi \<le> maxForkHeaderEpoch ?d" by (simp add: getMaxEpochFromHdrsInfo_def maxEpochLoop_le)
  from forkHeaderLoop_least [OF this run] have res: "self = ownHeader ?l" "(r, h) = forkChoice d ?l"
    "(r, h) = (maxUint64, []) \<longrightarrow> e = 0" "(r, h) \<noteq> (maxUint64, []) \<longrightarrow> r = MinForkRound \<or> e = getMaxEpochFromHdrsInfo ?l"
    by (auto simp: forkChoice_def split: option.splits)
  have sig: "shouldSignalFork ?d s (h, r, e) = shouldSignalFork d s (h, r, forkEpoch ?l (r, h))" for s
  proof (cases "r = MinForkRound")
    case True
    show ?thesis unfolding True epoch_irrelevant by (rule shouldSignalFork_round0)
  next
    case False
    then show ?thesis using res(3,4) by (auto simp: forkEpoch_def)
  qed
  have fk: "forkAt d n \<longleftrightarrow> (case ownHeader ?l of None \<Rightarrow> False | Some s \<Rightarrow> shouldSignalFork ?d s (h, r, e))"
    using False unfolding forkAt_def Let_def sig res(2) [symmetric] by (auto split: option.splits)
  have "checkForkAt n (fi, d) = (addFork d n fi, ?d)"
    using False run res(1) unfolding checkForkAt_def Let_def addFork_def prod.case headersAt_def [symmetric] fk res(2) [symmetric]
    by (auto split: option.splits)
  then show ?thesis by blast
qed

lemma fold_addFork_state: "\<exists>x. fold checkForkAt ns (fi, d) = (fold (addFork d) ns fi, d\<lparr>maxForkHeaderEpoch := x\<rparr>)"
proof (induction ns arbitrary: fi d)
  case Nil
  show ?case by (rule exI [of _ "maxForkHeaderEpoch d"]) simp
next
  case (Cons n ns)
  obtain x where x: "checkForkAt n (fi, d) = (addFork d n fi, d\<lparr>maxForkHeaderEpoch := x\<rparr>)" using checkForkAt_addFork by blast
  have "addFork (d\<lparr>maxForkHeaderEpoch := x\<rparr>) = addFork d" by (simp add: fun_eq_iff addFork_def)
  with Cons [of "addFork d n fi" "d\<lparr>maxForkHeaderEpoch := x\<rparr>"] show ?case by (simp add: x)
qed

lemma addFork_infoOf: "addFork d n (infoOf d S) = infoOf d (if forkAt d n then insert n S else S)"
proof (cases "forkAt d n")
  case True
  have max: "x \<le> maxUint64" for x by (simp add: maxUint64_def)
  have fin: "finite S" by simp
  show ?thesis
  proof (cases "S = {}")
    case True
    then show ?thesis using \<open>forkAt d n\<close> max [of n] by (auto simp: addFork_def infoOf_def NewForkInfo_def split: prod.splits)
  next
    case False
    have nonce: "fiNonce (infoOf d S) = Min S" using False by (auto simp: infoOf_def NewForkInfo_def split: prod.splits)
    have ins: "Min (insert n S) = min n (Min S)" using False fin by simp
    show ?thesis
    proof (cases "n < Min S")
      case True
      then have "Min (insert n S) = n" "n \<noteq> maxUint64" using ins max [of "Min S"] by (auto simp: min_def)
      then show ?thesis using \<open>forkAt d n\<close> True nonce False by (auto simp: addFork_def infoOf_def NewForkInfo_def split: prod.splits)
    next
      case le: False
      then have "Min (insert n S) = Min S" using ins by (simp add: min_def)
      then have "infoOf d (insert n S) = infoOf d S" using False by (simp add: infoOf_def)
      moreover have "fiIsDetected (infoOf d S)" using False by (simp add: infoOf_def split: prod.splits)
      ultimately show ?thesis using \<open>forkAt d n\<close> le nonce by (simp add: addFork_def)
    qed
  qed
qed (simp add: addFork_def)

lemma fold_addFork: "fold (addFork d) ns (infoOf d S) = infoOf d (S \<union> {n \<in> set ns. forkAt d n})"
proof (induction ns arbitrary: S)
  case (Cons n ns)
  have "(if forkAt d n then insert n S else S) \<union> {k \<in> set ns. forkAt d k} = S \<union> {k \<in> set (n # ns). forkAt d k}" by auto
  then show ?case using Cons [of "if forkAt d n then insert n S else S"] by (simp add: addFork_infoOf)
qed simp

text \<open>A loop over a Go map visits every key once.\<close>

definition visitsAll :: "(u64 set \<Rightarrow> u64 list) \<Rightarrow> bool" where
  "visitsAll order \<longleftrightarrow> (\<forall>K. set (order K) = K \<and> distinct (order K))"

lemma forkAt_dom: "forkAt d n \<Longrightarrow> n \<in> dom (fdHeaders d)"
  by (auto simp: forkAt_def Let_def headersAt_def ownHeader_def split: option.splits prod.splits)

lemma CheckFork_infoOf:
  assumes "visitsAll (feOrder env)"
  shows "\<exists>x. CheckFork env d =
    (if isConsensusStuck env d then (NewForkInfo\<lparr>fiIsDetected := True\<rparr>, d)
     else if rollBackNonce (fork d) < maxUint64 then (NewForkInfo\<lparr>fiIsDetected := True, fiNonce := rollBackNonce (fork d)\<rparr>, SetRollBackNonce maxUint64 d)
     else (infoOf d {n. forkAt d n}, d\<lparr>maxForkHeaderEpoch := x\<rparr>))"
proof -
  obtain x where "fold checkForkAt (feOrder env (dom (fdHeaders d))) (NewForkInfo, d) =
    (fold (addFork d) (feOrder env (dom (fdHeaders d))) NewForkInfo, d\<lparr>maxForkHeaderEpoch := x\<rparr>)" using fold_addFork_state by blast
  moreover have "fold (addFork d) (feOrder env (dom (fdHeaders d))) NewForkInfo = infoOf d {n. forkAt d n}"
  proof -
    have "{n \<in> set (feOrder env (dom (fdHeaders d))). forkAt d n} = {n. forkAt d n}" using assms forkAt_dom [of d] by (auto simp: visitsAll_def)
    then show ?thesis using fold_addFork [of d "feOrder env (dom (fdHeaders d))" "{}"] by (simp add: infoOf_def)
  qed
  ultimately show ?thesis by (auto simp: CheckFork_def)
qed

end
