(* ===== verification/ForkFinality.thy ===== *)
theory ForkFinality
  imports ForkChoice
begin

text \<open>
  Finality: what the loops over headers compute, the steps of a detector whose node processes blocks in order, and the invariant that keeps the final block.
\<close>

section \<open>Headers by nonce\<close>

lemma headersAt_append:
  "appendHeader hi d = (b, d') \<Longrightarrow> headersAt d' n = headersAt d n @ (if b \<and> n = hiNonce hi then [hi] else []) \<and> fork d' = fork d \<and>
    genesisNonce d' = genesisNonce d \<and> genesisRound d' = genesisRound d"
  by (auto simp: appendHeader_def headersAt_def Let_def split: if_splits option.splits)

lemma headersAt_keep: "headersAt (keepHeaders P d) n = filter (P n) (headersAt d n)"
  by (auto simp: keepHeaders_def headersAt_def Let_def split: option.splits)

lemma headersAt_past: "headersAt (removePastHeaders d) n = (if n < finalNonce d then [] else headersAt d n)"
  by (simp add: removePastHeaders_def headersAt_def)

lemma same_fork [simp]:
  "fork (keepHeaders P d) = fork d" "fork (removePastHeaders d) = fork d"
  "genesisNonce (keepHeaders P d) = genesisNonce d" "genesisRound (keepHeaders P d) = genesisRound d"
  "genesisNonce (removePastHeaders d) = genesisNonce d" "genesisRound (removePastHeaders d) = genesisRound d"
  by (simp_all add: keepHeaders_def removePastHeaders_def)

lemma headersAt_in_dom: "headersAt d n \<noteq> [] \<Longrightarrow> n \<in> dom (fdHeaders d)"
  by (auto simp: headersAt_def split: option.splits)

section \<open>The final checkpoint\<close>

definition lastOf :: "blockHeaderState \<Rightarrow> headerInfo list \<Rightarrow> headerInfo option" where
  "lastOf s l = (let f = filter (\<lambda>hi. hiState hi = s) l in if f = [] then None else Some (last f))"

lemma lastOf_Cons: "lastOf s (hi # l) = (case lastOf s l of None \<Rightarrow> if hiState hi = s then Some hi else None | Some x \<Rightarrow> Some x)"
  by (simp add: lastOf_def Let_def)

lemma lastOf_in: "lastOf s l = Some hi \<Longrightarrow> hi \<in> set l \<and> hiState hi = s"
  using last_in_set [of "filter (\<lambda>hi. hiState hi = s) l"] by (auto simp: lastOf_def Let_def split: if_splits)

lemma lastOf_filter: "(\<And>hi. hi \<in> set l \<Longrightarrow> hiState hi = s \<Longrightarrow> P hi) \<Longrightarrow> lastOf s (filter P l) = lastOf s l"
proof -
  assume "\<And>hi. hi \<in> set l \<Longrightarrow> hiState hi = s \<Longrightarrow> P hi"
  then have "filter (\<lambda>hi. hiState hi = s) (filter P l) = filter (\<lambda>hi. hiState hi = s) l" by (auto intro: filter_cong)
  then show ?thesis by (simp add: lastOf_def)
qed

lemma lastOf_snoc: "lastOf s (l @ [hi]) = (if hiState hi = s then Some hi else lastOf s l)"
  by (simp add: lastOf_def)

lemma getProcessedAndNotarized_lastOf: "getProcessedAndNotarized l = (lastOf BHProcessed l, lastOf BHNotarized l)"
proof -
  have "processedAndNotarizedLoop l p n =
      (case lastOf BHProcessed l of None \<Rightarrow> p | Some x \<Rightarrow> Some x, case lastOf BHNotarized l of None \<Rightarrow> n | Some x \<Rightarrow> Some x)" for p n
    by (induction l arbitrary: p n) (auto simp: lastOf_Cons lastOf_def split: option.splits)
  then show ?thesis by (simp add: getProcessedAndNotarized_def split: option.splits)
qed

text \<open>The checkpoint of a nonce whose processed header is notarized.\<close>

definition notarizedAt :: "baseForkDetector \<Rightarrow> u64 \<Rightarrow> checkpointInfo option" where
  "notarizedAt d n =
     (case (lastOf BHProcessed (headersAt d n), lastOf BHNotarized (headersAt d n)) of
        (Some p, Some q) \<Rightarrow> if hiHash q = hiHash p then Some \<lparr>cpNonce = n, cpRound = hiRound q, cpHash = hiHash q\<rparr> else None
      | _ \<Rightarrow> None)"

definition notarizedNonces :: "baseForkDetector \<Rightarrow> u64 set" where
  "notarizedNonces d = {n. n \<noteq> 0 \<and> notarizedAt d n \<noteq> None}"

lemma notarizedAt_nonce: "notarizedAt d n = Some c \<Longrightarrow> cpNonce c = n"
  by (auto simp: notarizedAt_def split: option.splits if_splits)

lemma notarizedAt_headers:
  assumes "notarizedAt d n = Some c"
  shows "\<exists>p q. p \<in> set (headersAt d n) \<and> q \<in> set (headersAt d n) \<and> hiState p = BHProcessed \<and> hiState q = BHNotarized \<and>
    hiHash p = cpHash c \<and> hiHash q = cpHash c"
proof -
  obtain p q where "lastOf BHProcessed (headersAt d n) = Some p" "lastOf BHNotarized (headersAt d n) = Some q" "hiHash q = hiHash p" "cpHash c = hiHash q"
    using assms by (auto simp: notarizedAt_def split: option.splits if_splits)
  then show ?thesis using lastOf_in by metis
qed

lemma finalCheckpointStep_eq:
  "finalCheckpointStep d n acc = (if (case acc of None \<Rightarrow> 0 | Some c \<Rightarrow> cpNonce c) \<ge> n then acc else case notarizedAt d n of None \<Rightarrow> acc | Some c \<Rightarrow> Some c)"
  by (auto simp: finalCheckpointStep_def getProcessedAndNotarized_lastOf notarizedAt_def headersAt_def [symmetric] split: option.splits)

definition bestOf :: "baseForkDetector \<Rightarrow> u64 set \<Rightarrow> checkpointInfo option" where
  "bestOf d S = (let F = notarizedNonces d \<inter> S in if F = {} then None else notarizedAt d (Max F))"

lemma bestOf_step: "finalCheckpointStep d n (bestOf d S) = bestOf d (insert n S)"
proof -
  let ?F = "notarizedNonces d \<inter> S"
  have fin: "finite ?F" by simp
  have nonce: "(case bestOf d S of None \<Rightarrow> 0 | Some c \<Rightarrow> cpNonce c) = (if ?F = {} then 0 else Max ?F)"
  proof (cases "?F = {}")
    case False
    then have "Max ?F \<in> notarizedNonces d" using Max_in [OF fin] by blast
    then show ?thesis using False notarizedAt_nonce by (auto simp: bestOf_def Let_def notarizedNonces_def split: option.splits)
  qed (simp add: bestOf_def)
  show ?thesis
  proof (cases "n \<in> notarizedNonces d")
    case True
    then have n: "n \<noteq> 0" "notarizedAt d n \<noteq> None" by (auto simp: notarizedNonces_def)
    have F: "notarizedNonces d \<inter> insert n S = insert n ?F" using True by blast
    show ?thesis
    proof (cases "?F = {}")
      case True
      then show ?thesis using n nonce unfolding finalCheckpointStep_eq by (auto simp: bestOf_def F split: option.splits)
    next
      case False
      define m where "m = Max ?F"
      have "Max (insert n ?F) = max n m" unfolding m_def using False fin by simp
      moreover have "(case bestOf d S of None \<Rightarrow> 0 | Some c \<Rightarrow> cpNonce c) = m" "bestOf d S = notarizedAt d m"
        using False nonce by (simp_all add: bestOf_def m_def)
      moreover have "bestOf d (insert n S) = notarizedAt d (Max (insert n ?F))" by (simp add: bestOf_def F)
      ultimately show ?thesis using n unfolding finalCheckpointStep_eq by (cases "n \<le> m") (auto simp: max_def split: option.splits)
    qed
  next
    case False
    then have "notarizedNonces d \<inter> insert n S = ?F" by blast
    then have "bestOf d (insert n S) = bestOf d S" by (simp only: bestOf_def)
    moreover have "n = 0 \<or> notarizedAt d n = None" using False by (simp add: notarizedNonces_def)
    ultimately show ?thesis unfolding finalCheckpointStep_eq by auto
  qed
qed

lemma shardComputeFinalCheckpoint_best:
  assumes "visitsAll (feOrder env)"
  shows "shardComputeFinalCheckpoint env d =
    (if notarizedNonces d = {} then d else setFinalCheckpoint (the (notarizedAt d (Max (notarizedNonces d)))) d)"
proof -
  have "fold (finalCheckpointStep d) ns (bestOf d S) = bestOf d (S \<union> set ns)" for ns S
    by (induction ns arbitrary: S) (simp_all add: bestOf_step)
  from this [of "feOrder env (dom (fdHeaders d))" "{}"]
  have "fold (finalCheckpointStep d) (feOrder env (dom (fdHeaders d))) None = bestOf d (dom (fdHeaders d))" using assms by (simp add: visitsAll_def bestOf_def)
  moreover have "n \<in> dom (fdHeaders d)" if "n \<in> notarizedNonces d" for n
    using that headersAt_in_dom [of d n] by (cases "headersAt d n = []") (auto simp: notarizedNonces_def notarizedAt_def lastOf_def)
  then have F: "notarizedNonces d \<inter> dom (fdHeaders d) = notarizedNonces d" by blast
  moreover have "notarizedAt d (Max (notarizedNonces d)) \<noteq> None" if "notarizedNonces d \<noteq> {}"
    using Max_in [of "notarizedNonces d"] that by (simp add: notarizedNonces_def)
  ultimately show ?thesis by (cases "notarizedNonces d = {}") (auto simp: shardComputeFinalCheckpoint_def bestOf_def)
qed

section \<open>The probable highest nonce\<close>

lemma computeProbableHighestNonce_ge:
  assumes "visitsAll (feOrder env)"
  shows "finalNonce d \<le> computeProbableHighestNonce env d" "n \<in> dom (fdHeaders d) \<Longrightarrow> n \<le> computeProbableHighestNonce env d"
proof -
  have "a \<le> fold (\<lambda>nonce p. if nonce \<le> p then p else nonce) ns a \<and> (\<forall>n\<in>set ns. n \<le> fold (\<lambda>nonce p. if nonce \<le> p then p else nonce) ns a)"
    for ns and a :: u64
  proof (induction ns arbitrary: a)
    case (Cons m ns)
    show ?case
    proof (cases "m \<le> a")
      case True
      then show ?thesis using Cons [of a] by (auto intro: order.trans)
    next
      case False
      then have "a \<le> m" by simp
      then show ?thesis using Cons [of m] False by (auto intro: order.trans)
    qed
  qed simp
  from this [of "finalNonce d" "feOrder env (dom (fdHeaders d))"] assms
  show "finalNonce d \<le> computeProbableHighestNonce env d" "n \<in> dom (fdHeaders d) \<Longrightarrow> n \<le> computeProbableHighestNonce env d"
    by (simp_all add: computeProbableHighestNonce_def visitsAll_def)
qed

section \<open>Steps\<close>

text \<open>
  The calls a running node makes: headers are received or proposed; blocks are processed in the order of their nonces; a block that is rolled back is the last one that was processed, and another
  header that is removed has a later nonce.
\<close>

inductive fdStep :: "detectorKind \<Rightarrow> baseForkDetector \<Rightarrow> baseForkDetector \<Rightarrow> bool" for kind where
  received: "visitsAll (feOrder env) \<Longrightarrow> state = BHReceived \<or> state = BHProposed \<Longrightarrow>
    fdStep kind d (snd (AddHeader kind env header hash state headers hashes d))"
| processed: "visitsAll (feOrder env) \<Longrightarrow> cpNonce (lastCheckpoint d) < bhNonce h \<Longrightarrow> length headers = length hashes \<Longrightarrow>
    fdStep kind d (snd (AddHeader kind env (Some h) hash BHProcessed headers hashes d))"
| notarized: "visitsAll (feOrder env) \<Longrightarrow> kind = ShardForkDetector \<Longrightarrow> length headers = length hashes \<Longrightarrow>
    fdStep kind d (snd (ReceivedSelfNotarizedFromCrossHeaders env shard headers hashes d))"
| removed: "visitsAll (feOrder env) \<Longrightarrow>
    nonce = cpNonce (lastCheckpoint d) \<and> hash = cpHash (lastCheckpoint d) \<or> cpNonce (lastCheckpoint d) < nonce \<Longrightarrow>
    fdStep kind d (RemoveHeader kind env nonce hash d)"
| reset_nonce: "visitsAll (feOrder env) \<Longrightarrow> fdStep kind d (ResetProbableHighestNonce env d)"
| reset_fork: "visitsAll (feOrder env) \<Longrightarrow> fdStep kind d (ResetFork env d)"
| roll_back: "fdStep kind d (SetRollBackNonce nonce d)"
| checked: "visitsAll (feOrder env) \<Longrightarrow> fdStep kind d (snd (CheckFork env d))"

inductive fdReach :: "detectorKind \<Rightarrow> baseForkDetector \<Rightarrow> bool" for kind where
  created: "fdReach kind (newForkDetector genesisHdr time blacklist)"
| restored: "fdReach kind d \<Longrightarrow> fdReach kind (RestoreToGenesis d)"
| stepped: "fdReach kind d \<Longrightarrow> fdStep kind d d' \<Longrightarrow> fdReach kind d'"

section \<open>The invariant\<close>

text \<open>Every processed header above the final block has a checkpoint, apart from those of a set.\<close>

definition checkpointed :: "(u64 \<times> bytes) set \<Rightarrow> baseForkDetector \<Rightarrow> bool" where
  "checkpointed X d \<longleftrightarrow> (\<forall>n hi. hi \<in> set (headersAt d n) \<longrightarrow> hiState hi = BHProcessed \<longrightarrow> finalNonce d < n \<longrightarrow>
     (n, hiHash hi) \<in> X \<union> (\<lambda>c. (cpNonce c, cpHash c)) ` set (checkpoint (fork d)))"

definition genesisCheckpoint :: "baseForkDetector \<Rightarrow> checkpointInfo" where
  "genesisCheckpoint d = \<lparr>cpNonce = genesisNonce d, cpRound = genesisRound d, cpHash = []\<rparr>"

text \<open>The final block of a shard is processed and notarized, or nothing is final but the genesis block.\<close>

definition certified :: "baseForkDetector \<Rightarrow> bool" where
  "certified d \<longleftrightarrow> finalNonce d \<noteq> 0 \<and> notarizedAt d (finalNonce d) = Some (finalCheckpoint (fork d))"

definition unnotarized :: "baseForkDetector \<Rightarrow> bool" where
  "unnotarized d \<longleftrightarrow> finalCheckpoint (fork d) = genesisCheckpoint d \<and>
     (\<forall>n hi. n \<le> finalNonce d \<longrightarrow> hi \<in> set (headersAt d n) \<longrightarrow> hiState hi \<noteq> BHNotarized)"

definition finalOk :: "detectorKind \<Rightarrow> baseForkDetector \<Rightarrow> bool" where
  "finalOk kind d \<longleftrightarrow> (case kind of ShardForkDetector \<Rightarrow> certified d \<or> unnotarized d | MetaForkDetector \<Rightarrow> finalCheckpoint (fork d) \<in> set (checkpoint (fork d)))"

definition fdInv :: "detectorKind \<Rightarrow> baseForkDetector \<Rightarrow> bool" where
  "fdInv kind d \<longleftrightarrow> sorted_wrt (<) (map cpNonce (checkpoint (fork d))) \<and> finalNonce d \<in> cpNonce ` set (checkpoint (fork d)) \<and>
     checkpointed {} d \<and> finalOk kind d"

definition probableOk :: "baseForkDetector \<Rightarrow> bool" where
  "probableOk d \<longleftrightarrow> finalNonce d \<le> probableHighestNonce (fork d) \<and>
     (\<forall>n hi. hi \<in> set (headersAt d n) \<longrightarrow> hiState hi = BHProcessed \<longrightarrow> n \<le> probableHighestNonce (fork d))"

text \<open>How the final checkpoint may change.\<close>

definition finalGrows :: "baseForkDetector \<Rightarrow> baseForkDetector \<Rightarrow> bool" where
  "finalGrows d d' \<longleftrightarrow> finalCheckpoint (fork d') = finalCheckpoint (fork d) \<or> finalNonce d < finalNonce d'"

lemma finalGrows_le: "finalGrows d d' \<Longrightarrow> finalNonce d \<le> finalNonce d'"
  by (auto simp: finalGrows_def finalNonce_def)

lemma finalGrows_trans: "finalGrows a b \<Longrightarrow> finalGrows b c \<Longrightarrow> finalGrows a c"
  by (auto simp: finalGrows_def finalNonce_def)

lemma finalGrows_same: "finalCheckpoint (fork d') = finalCheckpoint (fork d) \<Longrightarrow> finalGrows d d'"
  by (simp add: finalGrows_def)

lemma lastCheckpoint_greatest:
  assumes "sorted_wrt (<) (map cpNonce (checkpoint (fork d)))" and "c \<in> set (checkpoint (fork d))"
  shows "cpNonce c \<le> cpNonce (lastCheckpoint d)" "lastCheckpoint d \<in> set (checkpoint (fork d))"
    "cpNonce c = cpNonce (lastCheckpoint d) \<Longrightarrow> c = lastCheckpoint d"
proof -
  have ne: "checkpoint (fork d) \<noteq> []" using assms(2) by auto
  then obtain cs l where cs: "checkpoint (fork d) = cs @ [l]" by (metis rev_exhaust)
  then have l: "lastCheckpoint d = l" by (simp add: lastCheckpoint_def)
  have below: "\<forall>x\<in>set cs. cpNonce x < cpNonce l" using assms(1) by (auto simp: cs sorted_wrt_append)
  then show "cpNonce c \<le> cpNonce (lastCheckpoint d)" "lastCheckpoint d \<in> set (checkpoint (fork d))"
    "cpNonce c = cpNonce (lastCheckpoint d) \<Longrightarrow> c = lastCheckpoint d"
    using assms(2) by (auto simp: cs l)
qed

text \<open>Changes that touch neither checkpoints nor processed and notarized headers from the final block on.\<close>

lemma fdInv_cong:
  assumes "fdInv kind d" and "checkpoint (fork d') = checkpoint (fork d)" and "finalCheckpoint (fork d') = finalCheckpoint (fork d)"
    and "genesisNonce d' = genesisNonce d" and "genesisRound d' = genesisRound d"
    and sub: "\<And>n hi. hi \<in> set (headersAt d' n) \<Longrightarrow> hiState hi = BHProcessed \<or> hiState hi = BHNotarized \<Longrightarrow> hi \<in> set (headersAt d n)"
    and fin: "notarizedAt d' (finalNonce d) = notarizedAt d (finalNonce d)"
  shows "fdInv kind d'"
proof -
  have f: "finalNonce d' = finalNonce d" using assms(3) by (simp add: finalNonce_def)
  have "checkpointed {} d'" using assms(1) sub unfolding fdInv_def checkpointed_def f assms(2) by blast
  moreover have "finalOk kind d'"
  proof (cases kind)
    case ShardForkDetector
    then have "certified d \<or> unnotarized d" using assms(1) by (simp add: fdInv_def finalOk_def)
    then have "certified d' \<or> unnotarized d'"
      using sub fin assms(3-5) unfolding certified_def unnotarized_def genesisCheckpoint_def f by metis
    then show ?thesis using ShardForkDetector by (simp add: finalOk_def)
  next
    case MetaForkDetector
    then show ?thesis using assms(1-3) by (simp add: fdInv_def finalOk_def)
  qed
  ultimately show ?thesis using assms(1-3) f by (simp add: fdInv_def)
qed

end
