(* ===== verification/ForkSteps.thy ===== *)
theory ForkSteps
  imports ForkFinality
begin

text \<open>
  Every step of a fork detector keeps its invariant, and the final checkpoint never goes back.
\<close>

section \<open>Changes of other fields\<close>

lemma headersAt_cong: "fdHeaders d' = fdHeaders d \<Longrightarrow> headersAt d' = headersAt d"
  by (simp add: headersAt_def fun_eq_iff)

lemma notarizedAt_cong: "headersAt d' n = headersAt d n \<Longrightarrow> notarizedAt d' n = notarizedAt d n"
  by (simp add: notarizedAt_def)

text \<open>What is the same for the invariant.\<close>

definition sameChain :: "baseForkDetector \<Rightarrow> baseForkDetector \<Rightarrow> bool" where
  "sameChain d d' \<longleftrightarrow> checkpoint (fork d') = checkpoint (fork d) \<and> finalCheckpoint (fork d') = finalCheckpoint (fork d) \<and>
     genesisNonce d' = genesisNonce d \<and> genesisRound d' = genesisRound d"

lemma sameChain_refl [simp]: "sameChain d d"
  by (simp add: sameChain_def)

lemma sameChain_grows: "sameChain d d' \<Longrightarrow> finalGrows d d'"
  by (simp add: sameChain_def finalGrows_def)

lemma sameChain_final: "sameChain d d' \<Longrightarrow> finalNonce d' = finalNonce d"
  by (simp add: sameChain_def finalNonce_def)

lemma sameChain_trans: "sameChain a b \<Longrightarrow> sameChain b c \<Longrightarrow> sameChain a c"
  by (simp add: sameChain_def)

lemma fdInv_sameHeaders:
  assumes "fdInv kind d" and "sameChain d d'" and "headersAt d' = headersAt d"
  shows "fdInv kind d'"
  using assms(2) by (intro fdInv_cong [OF assms(1)]) (auto simp: sameChain_def assms(3) notarizedAt_def)

lemma probableOk_sameHeaders:
  assumes "probableOk d" and "sameChain d d'" and "headersAt d' = headersAt d" and "probableHighestNonce (fork d') = probableHighestNonce (fork d)"
  shows "probableOk d'"
  using assms by (simp add: probableOk_def sameChain_final)

text \<open>Everything that a step has to show.\<close>

definition stepOk :: "detectorKind \<Rightarrow> baseForkDetector \<Rightarrow> baseForkDetector \<Rightarrow> bool" where
  "stepOk kind d d' \<longleftrightarrow> fdInv kind d' \<and> probableOk d' \<and> finalGrows d d'"

lemma stepOk_same:
  assumes "fdInv kind d" and "probableOk d" and "sameChain d d'" and "headersAt d' = headersAt d" and "probableHighestNonce (fork d') = probableHighestNonce (fork d)"
  shows "stepOk kind d d'"
  unfolding stepOk_def using assms fdInv_sameHeaders probableOk_sameHeaders sameChain_grows by blast

lemma stepOk_update:
  assumes "visitsAll (feOrder env)" and "fdInv kind d'" and "finalGrows d d'"
  shows "stepOk kind d (updateProbableHighestNonce env d')"
proof -
  let ?u = "updateProbableHighestNonce env d'"
  have h: "headersAt ?u = headersAt d'" and c: "sameChain d' ?u"
    by (auto simp: updateProbableHighestNonce_def setProbableHighestNonce_def sameChain_def intro!: headersAt_cong)
  have "n \<le> computeProbableHighestNonce env d'" if "hi \<in> set (headersAt d' n)" for n hi
    using computeProbableHighestNonce_ge(2) [OF assms(1)] headersAt_in_dom [of d' n] that by (metis empty_iff empty_set)
  then have "probableOk ?u" using computeProbableHighestNonce_ge(1) [OF assms(1), of d'] h sameChain_final [OF c]
    by (auto simp: probableOk_def updateProbableHighestNonce_def setProbableHighestNonce_def)
  moreover have "finalGrows d ?u" using finalGrows_trans [OF assms(3) sameChain_grows [OF c]] .
  ultimately show ?thesis using fdInv_sameHeaders [OF assms(2) c h] by (simp add: stepOk_def)
qed

section \<open>Computing the final checkpoint\<close>

lemma setFinalCheckpoint_simps [simp]:
  "headersAt (setFinalCheckpoint c d) = headersAt d" "checkpoint (fork (setFinalCheckpoint c d)) = checkpoint (fork d)"
  "finalCheckpoint (fork (setFinalCheckpoint c d)) = c" "finalNonce (setFinalCheckpoint c d) = cpNonce c"
  "genesisNonce (setFinalCheckpoint c d) = genesisNonce d" "genesisRound (setFinalCheckpoint c d) = genesisRound d"
  "probableHighestNonce (fork (setFinalCheckpoint c d)) = probableHighestNonce (fork d)"
  by (auto simp: setFinalCheckpoint_def finalNonce_def intro: headersAt_cong)

lemma checkpointed_final: "checkpointed X d \<Longrightarrow> finalNonce d \<le> cpNonce c \<Longrightarrow> checkpointed X (setFinalCheckpoint c d)"
  unfolding checkpointed_def setFinalCheckpoint_simps by (meson le_less_trans)

lemma computeFinal_ok:
  assumes "visitsAll (feOrder env)" and "finalNonce d \<in> cpNonce ` set (checkpoint (fork d))" and "checkpointed X d" and "certified d \<or> unnotarized d"
    and "d' = shardComputeFinalCheckpoint env d"
  shows "finalGrows d d' \<and> checkpointed X d' \<and> (certified d' \<or> unnotarized d') \<and> finalNonce d' \<in> cpNonce ` set (checkpoint (fork d)) \<union> fst ` X \<and>
    checkpoint (fork d') = checkpoint (fork d) \<and> headersAt d' = headersAt d \<and> probableHighestNonce (fork d') = probableHighestNonce (fork d) \<and>
    (finalNonce d' = finalNonce d \<or> (\<exists>p\<in>set (headersAt d (finalNonce d')). hiState p = BHProcessed))"
proof (cases "notarizedNonces d = {}")
  case True
  then have "d' = d" using assms(1,5) shardComputeFinalCheckpoint_best by simp
  then show ?thesis using assms(2-4) by (auto simp: finalGrows_def)
next
  case False
  define M where "M = Max (notarizedNonces d)"
  have M: "M \<in> notarizedNonces d" using False Max_in [of "notarizedNonces d"] by (simp add: M_def)
  then obtain c where c: "notarizedAt d M = Some c" and "M \<noteq> 0" by (auto simp: notarizedNonces_def)
  then have cM: "cpNonce c = M" using notarizedAt_nonce by blast
  have d': "d' = setFinalCheckpoint c d" using assms(1,5) shardComputeFinalCheckpoint_best False c by (simp add: M_def)
  obtain p q where pq: "p \<in> set (headersAt d M)" "hiState p = BHProcessed" "q \<in> set (headersAt d M)" "hiState q = BHNotarized"
    using notarizedAt_headers [OF c] by blast
  have grow: "finalCheckpoint (fork d) = c \<or> finalNonce d < M"
    using assms(4)
  proof
    assume cert: "certified d"
    then have "finalNonce d \<in> notarizedNonces d" by (simp add: certified_def notarizedNonces_def)
    then have "finalNonce d \<le> M" unfolding M_def by (intro Max_ge) simp_all
    then show ?thesis using cert c by (cases "finalNonce d = M") (auto simp: certified_def)
  next
    assume "unnotarized d"
    then show ?thesis using pq(3,4) by (meson not_le unnotarized_def)
  qed
  have le: "finalNonce d \<le> cpNonce c" using grow cM by (auto simp: finalNonce_def)
  have "certified d'" using c cM \<open>M \<noteq> 0\<close> unfolding certified_def d' setFinalCheckpoint_simps by (simp add: notarizedAt_def)
  moreover have "M \<in> cpNonce ` set (checkpoint (fork d)) \<union> fst ` X"
  proof (cases "finalNonce d = M")
    case True
    then show ?thesis using assms(2) by blast
  next
    case False
    then have "finalNonce d < M" using grow cM by (auto simp: finalNonce_def)
    then have "(M, hiHash p) \<in> X \<union> (\<lambda>c. (cpNonce c, cpHash c)) ` set (checkpoint (fork d))" using assms(3) pq(1,2) unfolding checkpointed_def by blast
    then show ?thesis by force
  qed
  moreover have "finalGrows d d'" using grow by (auto simp: finalGrows_def d' cM)
  ultimately show ?thesis using checkpointed_final [OF assms(3) le] pq(1,2) cM by (auto simp: d')
qed

section \<open>Appending headers\<close>

text \<open>Headers of some states are appended at some nonces.\<close>

definition appends :: "(u64 \<Rightarrow> headerInfo \<Rightarrow> bool) \<Rightarrow> baseForkDetector \<Rightarrow> baseForkDetector \<Rightarrow> bool" where
  "appends P d d' \<longleftrightarrow> fork d' = fork d \<and> genesisNonce d' = genesisNonce d \<and> genesisRound d' = genesisRound d \<and>
     (\<forall>n. \<exists>extra. headersAt d' n = headersAt d n @ extra \<and> (\<forall>hi\<in>set extra. P n hi))"

lemma appends_refl: "appends P d d"
  by (auto simp: appends_def)

lemma appends_trans: "appends P a b \<Longrightarrow> appends P b c \<Longrightarrow> appends P a c"
  unfolding appends_def by (metis Un_iff append.assoc set_append)

lemma appends_chain: "appends P d d' \<Longrightarrow> sameChain d d'"
  by (simp add: appends_def sameChain_def)

lemma appendHeader_appends: "appendHeader hi d = (b, d') \<Longrightarrow> appends (\<lambda>n x. n = hiNonce hi \<and> x = hi) d d'"
  using headersAt_append [of hi d b d'] by (auto simp: appends_def)

lemma appends_mono: "appends P d d' \<Longrightarrow> (\<And>n hi. P n hi \<Longrightarrow> Q n hi) \<Longrightarrow> appends Q d d'"
  unfolding appends_def by meson

lemma appends_in: "appends P d d' \<Longrightarrow> hi \<in> set (headersAt d' n) \<Longrightarrow> hi \<in> set (headersAt d n) \<or> P n hi"
  unfolding appends_def by (metis Un_iff set_append)

lemma appends_none:
  assumes "appends P d d'" and "\<And>hi. \<not> P n hi"
  shows "headersAt d' n = headersAt d n"
  using assms unfolding appends_def by (metis append_Nil2 last_in_set)

lemma selfNotarizedLoop_appends:
  assumes "length hs = length hashes"
  shows "\<exists>b d'. selfNotarizedLoop final hs hashes added d = (Inr b, d') \<and> appends (\<lambda>n hi. final < n \<and> hiState hi = BHNotarized) d d'"
  using assms
proof (induction hs arbitrary: hashes added d)
  case Nil
  then show ?case by (simp add: appends_refl)
next
  case (Cons h hs)
  then obtain hash rest where hashes: "hashes = hash # rest" "length hs = length rest" by (metis length_Suc_conv)
  show ?case
  proof (cases "bhNonce h \<le> final")
    case True
    then show ?thesis using Cons.IH [OF hashes(2)] by (simp add: hashes)
  next
    case False
    let ?hi = "\<lparr>hiEpoch = 0, hiNonce = bhNonce h, hiRound = bhRound h, hiHash = hash, hiState = BHNotarized\<rparr>"
    obtain b d1 where a: "appendHeader ?hi d = (b, d1)" by force
    have d1: "appends (\<lambda>n hi. final < n \<and> hiState hi = BHNotarized) d d1"
      by (rule appends_mono [OF appendHeader_appends [OF a]]) (use False in auto)
    obtain b' d2 where d2: "selfNotarizedLoop final hs rest (added \<or> b) d1 = (Inr b', d2)"
      "appends (\<lambda>n hi. final < n \<and> hiState hi = BHNotarized) d1 d2" using Cons.IH [OF hashes(2)] by blast
    have "selfNotarizedLoop final (h # hs) hashes added d = (Inr b', d2)" using False a d2(1) by (simp add: hashes)
    then show ?thesis using appends_trans [OF d1 d2(2)] by (intro exI conjI)
  qed
qed

text \<open>Appended headers above the final block, of which the processed ones are in a set.\<close>

lemma appends_ok:
  assumes "appends (\<lambda>n hi. finalNonce d < n \<and> (hiState hi = BHProcessed \<longrightarrow> (n, hiHash hi) \<in> X)) d d'"
  shows "checkpointed Y d \<Longrightarrow> checkpointed (Y \<union> X) d'" "certified d \<or> unnotarized d \<Longrightarrow> certified d' \<or> unnotarized d'"
proof -
  have c: "sameChain d d'" by (rule appends_chain [OF assms])
  note f = sameChain_final [OF c]
  have low: "headersAt d' n = headersAt d n" if "n \<le> finalNonce d" for n
    by (rule appends_none [OF assms]) (use that in auto)
  show "checkpointed (Y \<union> X) d'" if "checkpointed Y d"
    unfolding checkpointed_def f
  proof (intro allI impI)
    fix n hi assume hi: "hi \<in> set (headersAt d' n)" "hiState hi = BHProcessed" "finalNonce d < n"
    have "checkpoint (fork d') = checkpoint (fork d)" using c by (simp add: sameChain_def)
    then show "(n, hiHash hi) \<in> Y \<union> X \<union> (\<lambda>c. (cpNonce c, cpHash c)) ` set (checkpoint (fork d'))"
      using that hi appends_in [OF assms hi(1)] unfolding checkpointed_def by auto
  qed
  have "notarizedAt d' (finalNonce d) = notarizedAt d (finalNonce d)" by (rule notarizedAt_cong) (simp add: low)
  then show "certified d' \<or> unnotarized d'" if "certified d \<or> unnotarized d"
    using that low c unfolding certified_def unnotarized_def genesisCheckpoint_def f sameChain_def by auto
qed

section \<open>The steps\<close>

lemma fdInv_shard:
  "fdInv ShardForkDetector d \<longleftrightarrow> sorted_wrt (<) (map cpNonce (checkpoint (fork d))) \<and> finalNonce d \<in> cpNonce ` set (checkpoint (fork d)) \<and>
     checkpointed {} d \<and> (certified d \<or> unnotarized d)"
  by (simp add: fdInv_def finalOk_def)

lemma final_le_last: "fdInv kind d \<Longrightarrow> finalNonce d \<le> cpNonce (lastCheckpoint d)"
  using lastCheckpoint_greatest(1) [of d] by (auto simp: fdInv_def)

lemma step_cleanup:
  assumes "visitsAll (feOrder env)" and "fdInv kind d"
  shows "stepOk kind d (ResetProbableHighestNonce env d)"
proof -
  let ?d = "cleanupReceivedHeadersHigherThanNonce (cpNonce (lastCheckpoint d)) d"
  have c: "sameChain d ?d" by (simp add: cleanupReceivedHeadersHigherThanNonce_def sameChain_def)
  have at: "headersAt ?d n = filter (\<lambda>hi. n \<le> cpNonce (lastCheckpoint d) \<or> hiState hi = BHNotarized) (headersAt d n)" for n
    by (simp add: cleanupReceivedHeadersHigherThanNonce_def headersAt_keep)
  have "fdInv kind ?d"
  proof (rule fdInv_cong [OF assms(2)])
    show "notarizedAt ?d (finalNonce d) = notarizedAt d (finalNonce d)"
      by (rule notarizedAt_cong) (simp add: at final_le_last [OF assms(2)])
  qed (use c in \<open>auto simp: sameChain_def at\<close>)
  then show ?thesis unfolding ResetProbableHighestNonce_def by (intro stepOk_update [OF assms(1)] sameChain_grows [OF c])
qed

lemma stepOk_then_same:
  assumes "stepOk kind d d1" and "sameChain d1 d2" and "headersAt d2 = headersAt d1" and "probableHighestNonce (fork d2) = probableHighestNonce (fork d1)"
  shows "stepOk kind d d2"
  using stepOk_same [OF _ _ assms(2-4), of kind] assms(1) finalGrows_trans by (auto simp: stepOk_def)

lemma step_removed:
  assumes "visitsAll (feOrder env)" and "fdInv kind d" and "probableOk d"
    and top: "nonce = cpNonce (lastCheckpoint d) \<and> hash = cpHash (lastCheckpoint d) \<or> cpNonce (lastCheckpoint d) < nonce"
  shows "stepOk kind d (RemoveHeader kind env nonce hash d)"
proof (cases "nonce \<le> finalNonce d")
  case True
  then show ?thesis using stepOk_same [OF assms(2,3) sameChain_refl] by (simp add: RemoveHeader_def)
next
  case False
  define d2 where "d2 = keepHeaders (\<lambda>n hi. n \<noteq> nonce \<or> \<not> (hiState hi \<noteq> BHNotarized \<and> hash = hiHash hi)) (removeCheckpointWithNonce nonce d)"
  have cps: "checkpoint (fork d2) = filter (\<lambda>c. cpNonce c \<noteq> nonce) (checkpoint (fork d))" by (simp add: d2_def removeCheckpointWithNonce_def)
  have fin: "finalCheckpoint (fork d2) = finalCheckpoint (fork d)" "finalNonce d2 = finalNonce d" "genesisCheckpoint d2 = genesisCheckpoint d"
    by (simp_all add: d2_def removeCheckpointWithNonce_def finalNonce_def genesisCheckpoint_def)
  have at: "headersAt d2 n = filter (\<lambda>hi. n \<noteq> nonce \<or> \<not> (hiState hi \<noteq> BHNotarized \<and> hash = hiHash hi)) (headersAt d n)" for n
    using headersAt_cong [of "removeCheckpointWithNonce nonce d" d] by (simp add: d2_def headersAt_keep removeCheckpointWithNonce_def)
  have inv: "sorted_wrt (<) (map cpNonce (checkpoint (fork d)))" "finalNonce d \<in> cpNonce ` set (checkpoint (fork d))" "checkpointed {} d" "finalOk kind d"
    using assms(2) by (simp_all add: fdInv_def)
  have s: "sorted_wrt (<) (map cpNonce (checkpoint (fork d2)))" unfolding cps using inv(1) by (simp add: sorted_wrt_map sorted_wrt_filter)
  have f: "finalNonce d2 \<in> cpNonce ` set (checkpoint (fork d2))" using inv(2) False by (auto simp: cps fin)
  have ck: "checkpointed {} d2"
    unfolding checkpointed_def
  proof (intro allI impI)
    fix n hi assume hi: "hi \<in> set (headersAt d2 n)" "hiState hi = BHProcessed" "finalNonce d2 < n"
    then obtain c where c: "c \<in> set (checkpoint (fork d))" "cpNonce c = n" "cpHash c = hiHash hi" using inv(3) by (force simp: checkpointed_def at fin)
    have "n \<noteq> nonce"
    proof
      assume n: "n = nonce"
      then have "cpNonce c = cpNonce (lastCheckpoint d) \<and> hash = cpHash (lastCheckpoint d)"
        using top c(2) lastCheckpoint_greatest(1) [OF inv(1) c(1)] by auto
      then have "hash = hiHash hi" using lastCheckpoint_greatest(3) [OF inv(1) c(1)] c(3) by simp
      then show False using hi n by (simp add: at)
    qed
    then show "(n, hiHash hi) \<in> {} \<union> (\<lambda>c. (cpNonce c, cpHash c)) ` set (checkpoint (fork d2))" using c by (force simp: cps)
  qed
  have na: "notarizedAt d2 (finalNonce d) = notarizedAt d (finalNonce d)" 
  proof (rule notarizedAt_cong)
    have "finalNonce d \<noteq> nonce" using False by auto
    then show "headersAt d2 (finalNonce d) = headersAt d (finalNonce d)" by (simp add: at)
  qed
  have "fdInv kind (computeFinalCheckpoint kind env d2) \<and> finalGrows d (computeFinalCheckpoint kind env d2)"
  proof (cases kind)
    case ShardForkDetector
    then have "certified d \<or> unnotarized d" using inv(4) by (simp add: finalOk_def)
    then have "certified d2 \<or> unnotarized d2" unfolding certified_def unnotarized_def fin na at by auto
    note c = computeFinal_ok [OF assms(1) f ck this refl]
    have "finalGrows d d2" using fin by (simp add: finalGrows_def)
    then show ?thesis using c s finalGrows_trans unfolding ShardForkDetector computeFinalCheckpoint_def detectorKind.case fdInv_shard by auto
  next
    case MetaForkDetector
    have "finalCheckpoint (fork d2) \<in> set (checkpoint (fork d2))" using inv(4) False MetaForkDetector by (simp add: finalOk_def cps fin finalNonce_def)
    then show ?thesis using s f ck fin by (simp add: MetaForkDetector computeFinalCheckpoint_def fdInv_def finalOk_def finalGrows_def)
  qed
  then show ?thesis unfolding RemoveHeader_def Let_def using False by (simp add: d2_def stepOk_update [OF assms(1)])
qed

text \<open>Notarized headers from the metachain.\<close>

lemma step_notarized:
  assumes "visitsAll (feOrder env)" and "fdInv ShardForkDetector d" and "probableOk d" and "length headers = length hashes"
  shows "stepOk ShardForkDetector d (snd (ReceivedSelfNotarizedFromCrossHeaders env shard headers hashes d))"
proof (cases "shard = MetachainId")
  case False
  then show ?thesis using stepOk_same [OF assms(2,3) sameChain_refl] by (simp add: ReceivedSelfNotarizedFromCrossHeaders_def)
next
  case True
  obtain b d1 where l: "appendSelfNotarizedHeaders headers hashes d = (Inr b, d1)"
    and a: "appends (\<lambda>n hi. finalNonce d < n \<and> hiState hi = BHNotarized) d d1"
    using selfNotarizedLoop_appends [OF assms(4)] by (force simp: appendSelfNotarizedHeaders_def)
  have a': "appends (\<lambda>n hi. finalNonce d < n \<and> (hiState hi = BHProcessed \<longrightarrow> (n, hiHash hi) \<in> {})) d d1" by (rule appends_mono [OF a]) simp
  have c: "sameChain d d1" and k: "fork d1 = fork d" using appends_chain [OF a] a by (simp_all add: appends_def)
  have inv: "fdInv ShardForkDetector d1"
    using assms(2) appends_ok [OF a'] c unfolding fdInv_shard by (auto simp: sameChain_def finalNonce_def)
  have proc: "p \<in> set (headersAt d n)" if "p \<in> set (headersAt d1 n)" "hiState p = BHProcessed" for p n
    using appends_in [OF a that(1)] that(2) by auto
  have prob: "probableOk d1" using assms(3) proc unfolding probableOk_def k sameChain_final [OF c] by blast
  show ?thesis
  proof (cases b)
    case False
    then show ?thesis using inv prob sameChain_grows [OF c] True l by (simp add: stepOk_def ReceivedSelfNotarizedFromCrossHeaders_def)
  next
    case b: True
    let ?d = "shardComputeFinalCheckpoint env d1"
    have f: "finalNonce d1 \<in> cpNonce ` set (checkpoint (fork d1))" "checkpointed {} d1" "certified d1 \<or> unnotarized d1"
      using inv by (simp_all add: fdInv_shard)
    note ok = computeFinal_ok [OF assms(1) f refl]
    have "fdInv ShardForkDetector ?d" using inv ok unfolding fdInv_shard by auto
    moreover have "probableOk ?d" using prob ok unfolding probableOk_def by metis
    moreover have "finalGrows d ?d" using ok finalGrows_trans [OF sameChain_grows [OF c]] by blast
    ultimately show ?thesis using True l b by (simp add: stepOk_def ReceivedSelfNotarizedFromCrossHeaders_def)
  qed
qed

text \<open>Received headers.\<close>

lemma checkBlockBasicValidity_same:
  assumes "checkBlockBasicValidity env header headerHash d = (r, d1)"
  shows "sameChain d d1 \<and> headersAt d1 = headersAt d \<and> probableHighestNonce (fork d1) = probableHighestNonce (fork d) \<and> lastCheckpoint d1 = lastCheckpoint d"
proof -
  have "\<exists>bl. d1 = d\<lparr>blackList := bl\<rparr>"
    using assms unfolding checkBlockBasicValidity_def Let_def
    by (auto simp: AddHeaderToBlackList_def split: option.splits if_splits intro: exI [of _ "blackList d"])
  then obtain bl where d1: "d1 = d\<lparr>blackList := bl\<rparr>" by blast
  show ?thesis unfolding d1 by (auto simp: sameChain_def lastCheckpoint_def intro: headersAt_cong)
qed

lemma setHighestNonceReceived_same:
  "sameChain d (setHighestNonceReceived n d) \<and> headersAt (setHighestNonceReceived n d) = headersAt d \<and>
    probableHighestNonce (fork (setHighestNonceReceived n d)) = probableHighestNonce (fork d) \<and> lastCheckpoint (setHighestNonceReceived n d) = lastCheckpoint d"
  by (auto simp: setHighestNonceReceived_def sameChain_def lastCheckpoint_def intro: headersAt_cong)

lemma step_received_block:
  assumes "visitsAll (feOrder env)" and "fdInv kind d" and "probableOk d" and "state = BHReceived \<or> state = BHProposed"
  shows "stepOk kind d (snd (processReceivedBlock kind env h hash state headers hashes d))"
proof -
  let ?d1 = "setHighestNonceReceived (bhNonce h) d"
  note s = setHighestNonceReceived_same [of d "bhNonce h"]
  have ok1: "stepOk kind d ?d1" using s stepOk_same [OF assms(2,3)] by blast
  show ?thesis
  proof (cases "state = BHProposed")
    case True
    then show ?thesis using ok1 by (simp add: processReceivedBlock_def)
  next
    case False
    then have st: "state = BHReceived" using assms(4) by simp
    define st1 where "st1 = (if isHeaderReceivedTooLate env h state BlockFinality then BHReceivedTooLate else state)"
    have st1: "st1 \<noteq> BHProcessed" "st1 \<noteq> BHNotarized" by (simp_all add: st1_def st)
    define hi where "hi = \<lparr>hiEpoch = bhEpoch h, hiNonce = bhNonce h, hiRound = bhRound h, hiHash = hash, hiState = st1\<rparr>"
    obtain b d2 where a: "appendHeader hi ?d1 = (b, d2)" by force
    show ?thesis
    proof (cases b)
      case False
      then have "d2 = ?d1" using a by (simp add: appendHeader_def Let_def split: if_splits)
      then show ?thesis using ok1 st False a unfolding processReceivedBlock_def Let_def st1_def [symmetric] hi_def [symmetric] by simp
    next
      case True
      note at = headersAt_append [OF a]
      have c: "sameChain ?d1 d2" using at by (simp add: sameChain_def)
      have l: "lastOf BHProcessed (headersAt d2 n) = lastOf BHProcessed (headersAt ?d1 n)" "lastOf BHNotarized (headersAt d2 n) = lastOf BHNotarized (headersAt ?d1 n)" for n
        using at [of n] st1 by (cases "n = hiNonce hi"; simp add: lastOf_snoc True hi_def)+
      have "fdInv kind d2"
      proof (rule fdInv_cong [of kind ?d1])
        show "fdInv kind ?d1" using ok1 by (simp add: stepOk_def)
        show "notarizedAt d2 (finalNonce ?d1) = notarizedAt ?d1 (finalNonce ?d1)"
          unfolding notarizedAt_def l by (rule refl)
        show "x \<in> set (headersAt ?d1 n)" if "x \<in> set (headersAt d2 n)" "hiState x = BHProcessed \<or> hiState x = BHNotarized" for n x
          using that at st1 by (auto simp: hi_def split: if_splits)
      qed (use c in \<open>simp_all add: sameChain_def\<close>)
      moreover have "finalGrows d d2" using finalGrows_trans [OF _ sameChain_grows [OF c]] ok1 by (simp add: stepOk_def)
      ultimately have "stepOk kind d (updateProbableHighestNonce env d2)" by (intro stepOk_update [OF assms(1)])
      then show ?thesis using st a True st1 unfolding processReceivedBlock_def Let_def st1_def [symmetric] hi_def [symmetric] by simp
    qed
  qed
qed

text \<open>Records that are dropped after a block was processed.\<close>

lemma removePast_ok:
  assumes "fdInv kind d"
  shows "fdInv kind (removePastOrInvalidRecords d) \<and> finalCheckpoint (fork (removePastOrInvalidRecords d)) = finalCheckpoint (fork d)"
proof -
  let ?d1 = "removePastHeaders d"
  let ?d2 = "removeInvalidReceivedHeaders ?d1"
  have f1: "finalNonce ?d1 = finalNonce d" by (simp add: finalNonce_def)
  have i1: "fdInv kind ?d1"
    by (rule fdInv_cong [OF assms]) (auto simp: headersAt_past notarizedAt_def split: if_splits)
  have at: "headersAt ?d2 n = filter (\<lambda>hi. \<not> isReceivedHeaderInvalid ?d1 hi) (headersAt ?d1 n)" for n
    by (simp add: removeInvalidReceivedHeaders_def headersAt_keep)
  have valid: "\<not> isReceivedHeaderInvalid ?d1 hi" if "hiState hi = BHProcessed \<or> hiState hi = BHNotarized" for hi
    using that by (auto simp: isReceivedHeaderInvalid_def Let_def)
  have "notarizedAt ?d2 n = notarizedAt ?d1 n" for n
    unfolding notarizedAt_def at using lastOf_filter [of "headersAt ?d1 n" BHProcessed "\<lambda>hi. \<not> isReceivedHeaderInvalid ?d1 hi"]
      lastOf_filter [of "headersAt ?d1 n" BHNotarized "\<lambda>hi. \<not> isReceivedHeaderInvalid ?d1 hi"] valid by simp
  then have i2: "fdInv kind ?d2"
    by (intro fdInv_cong [OF i1]) (auto simp: at removeInvalidReceivedHeaders_def headersAt_keep)
  let ?d3 = "removePastCheckpoints ?d2"
  have cps: "checkpoint (fork ?d3) = filter (\<lambda>c. \<not> cpNonce c < finalNonce ?d2) (checkpoint (fork ?d2))"
    and same: "finalCheckpoint (fork ?d3) = finalCheckpoint (fork ?d2)" "headersAt ?d3 = headersAt ?d2" "genesisCheckpoint ?d3 = genesisCheckpoint ?d2"
    by (auto simp: removePastCheckpoints_def removeCheckpointsBehindNonce_def genesisCheckpoint_def intro: headersAt_cong)
  have f: "finalNonce ?d3 = finalNonce ?d2" using same(1) by (simp add: finalNonce_def)
  have "fdInv kind ?d3"
    unfolding fdInv_def
  proof (intro conjI)
    show "sorted_wrt (<) (map cpNonce (checkpoint (fork ?d3)))" using i2 unfolding cps by (simp add: fdInv_def sorted_wrt_map sorted_wrt_filter)
    show "finalNonce ?d3 \<in> cpNonce ` set (checkpoint (fork ?d3))" using i2 unfolding cps f by (force simp: fdInv_def)
    show "checkpointed {} ?d3" using i2 unfolding fdInv_def checkpointed_def f same cps by fastforce
    show "finalOk kind ?d3" using i2 unfolding fdInv_def finalOk_def
      by (cases kind) (auto simp: certified_def unnotarized_def f same notarizedAt_def cps finalNonce_def)
  qed
  moreover have "finalCheckpoint (fork ?d2) = finalCheckpoint (fork d)" by (simp add: removeInvalidReceivedHeaders_def)
  ultimately show ?thesis by (simp add: removePastOrInvalidRecords_def same)
qed

text \<open>A processed block.\<close>

lemma addCheckpoint_simps [simp]:
  "headersAt (addCheckpoint c d) = headersAt d" "checkpoint (fork (addCheckpoint c d)) = checkpoint (fork d) @ [c]"
  "finalCheckpoint (fork (addCheckpoint c d)) = finalCheckpoint (fork d)" "finalNonce (addCheckpoint c d) = finalNonce d"
  "genesisCheckpoint (addCheckpoint c d) = genesisCheckpoint d"
  by (auto simp: addCheckpoint_def finalNonce_def genesisCheckpoint_def intro: headersAt_cong)

lemma addCheckpoint_ok:
  assumes "sorted_wrt (<) (map cpNonce (checkpoint (fork d)))" and "\<forall>x\<in>set (checkpoint (fork d)). cpNonce x < cpNonce c"
    and "finalNonce d \<in> insert (cpNonce c) (cpNonce ` set (checkpoint (fork d)))" and "checkpointed {(cpNonce c, cpHash c)} d"
    and "finalOk kind d"
  shows "fdInv kind (addCheckpoint c d)"
  unfolding fdInv_def
proof (intro conjI)
  show "sorted_wrt (<) (map cpNonce (checkpoint (fork (addCheckpoint c d))))" using assms(1,2) by (simp add: sorted_wrt_append)
  show "finalNonce (addCheckpoint c d) \<in> cpNonce ` set (checkpoint (fork (addCheckpoint c d)))" using assms(3) by auto
  show "checkpointed {} (addCheckpoint c d)" using assms(4) unfolding checkpointed_def addCheckpoint_simps by auto
  show "finalOk kind (addCheckpoint c d)" using assms(5)
    by (cases kind) (auto simp: finalOk_def certified_def unnotarized_def notarizedAt_def)
qed

lemma doJob_ok:
  assumes "visitsAll (feOrder env)" and "fdInv kind d0" and "cpNonce (lastCheckpoint d0) < bhNonce h" and "length headers = length hashes"
    and a: "appends (\<lambda>n hi. n = bhNonce h \<and> hiState hi = BHProcessed \<and> hiHash hi = hash) d0 d"
  shows "\<exists>d'. doJobOnBHProcessed kind env h hash headers hashes d = (Inr (), d') \<and> fdInv kind d' \<and> finalGrows d0 d'"
proof -
  let ?c = "headerCheckpoint h hash"
  have cn: "cpNonce ?c = bhNonce h" "cpHash ?c = hash" by (simp_all add: headerCheckpoint_def)
  have inv: "sorted_wrt (<) (map cpNonce (checkpoint (fork d0)))" "finalNonce d0 \<in> cpNonce ` set (checkpoint (fork d0))" "checkpointed {} d0" "finalOk kind d0"
    using assms(2) by (simp_all add: fdInv_def)
  have above: "\<forall>x\<in>set (checkpoint (fork d0)). cpNonce x < cpNonce ?c"
    using lastCheckpoint_greatest(1) [OF inv(1)] assms(3) cn by (metis le_less_trans)
  have fh: "finalNonce d0 < bhNonce h" using final_le_last [OF assms(2)] assms(3) by (rule le_less_trans)
  have a': "appends (\<lambda>n hi. finalNonce d0 < n \<and> (hiState hi = BHProcessed \<longrightarrow> (n, hiHash hi) \<in> {(bhNonce h, hash)})) d0 d"
    by (rule appends_mono [OF a]) (use fh in auto)
  have k: "fork d = fork d0" using a by (simp add: appends_def)
  have fn: "finalNonce d = finalNonce d0" by (simp add: finalNonce_def k)
  have ck: "checkpointed {(bhNonce h, hash)} d" using appends_ok(1) [OF a' inv(3)] by simp
  show ?thesis
  proof (cases kind)
    case ShardForkDetector
    then have "certified d \<or> unnotarized d" using appends_ok(2) [OF a'] inv(4) by (simp add: finalOk_def)
    note cu = this
    obtain b d1 where l: "appendSelfNotarizedHeaders headers hashes d = (Inr b, d1)"
      and al: "appends (\<lambda>n hi. finalNonce d < n \<and> hiState hi = BHNotarized) d d1"
      using selfNotarizedLoop_appends [OF assms(4)] by (force simp: appendSelfNotarizedHeaders_def)
    have al': "appends (\<lambda>n hi. finalNonce d < n \<and> (hiState hi = BHProcessed \<longrightarrow> (n, hiHash hi) \<in> {})) d d1" by (rule appends_mono [OF al]) simp
    have k1: "fork d1 = fork d0" using al k by (simp add: appends_def)
    have f1: "finalNonce d1 \<in> cpNonce ` set (checkpoint (fork d1))" using inv(2) by (simp add: finalNonce_def k1)
    have ck1: "checkpointed {(bhNonce h, hash)} d1" using appends_ok(1) [OF al' ck] by simp
    let ?d2 = "shardComputeFinalCheckpoint env d1"
    note ok = computeFinal_ok [OF assms(1) f1 ck1 appends_ok(2) [OF al' cu] refl]
    have "fdInv kind (addCheckpoint ?c ?d2)"
      by (rule addCheckpoint_ok) (use ok inv(1) above cn in \<open>auto simp: k1 ShardForkDetector finalOk_def\<close>)
    note r = removePast_ok [OF this]
    moreover have "finalGrows d0 d1" by (simp add: finalGrows_def k1)
    then have "finalGrows d0 ?d2" using ok finalGrows_trans by blast
    ultimately have "finalGrows d0 (removePastOrInvalidRecords (addCheckpoint ?c ?d2))" by (auto simp: finalGrows_def finalNonce_def)
    then show ?thesis using r l ShardForkDetector by (simp add: doJobOnBHProcessed_def shardDoJobOnBHProcessed_def)
  next
    case MetaForkDetector
    have lc: "lastCheckpoint d = lastCheckpoint d0" using a by (simp add: lastCheckpoint_def appends_def)
    have "finalCheckpoint (fork d0) \<in> set (checkpoint (fork d0))" using inv(4) by (simp add: MetaForkDetector finalOk_def)
    note lg = lastCheckpoint_greatest [OF inv(1) this]
    let ?d2 = "setFinalCheckpoint (lastCheckpoint d) d"
    have le: "finalNonce d \<le> cpNonce (lastCheckpoint d)" using lg(1) by (simp add: fn lc finalNonce_def [symmetric])
    have "fdInv kind (addCheckpoint ?c ?d2)"
      by (rule addCheckpoint_ok) (use checkpointed_final [OF ck le] inv(1) above cn lg(2) in \<open>auto simp: k lc MetaForkDetector finalOk_def\<close>)
    note r = removePast_ok [OF this]
    moreover have "finalGrows d0 ?d2"
      unfolding finalGrows_def lc setFinalCheckpoint_simps using lg(1,3) by (auto simp: finalNonce_def)
    ultimately have "finalGrows d0 (removePastOrInvalidRecords (addCheckpoint ?c ?d2))" by (auto simp: finalGrows_def finalNonce_def)
    then show ?thesis using r MetaForkDetector by (simp add: doJobOnBHProcessed_def metaDoJobOnBHProcessed_def)
  qed
qed

lemma step_processed_block:
  assumes "visitsAll (feOrder env)" and "fdInv kind d" and "probableOk d" and "cpNonce (lastCheckpoint d) < bhNonce h" and "length headers = length hashes"
  shows "stepOk kind d (snd (processReceivedBlock kind env h hash BHProcessed headers hashes d))"
proof -
  let ?d1 = "setHighestNonceReceived (bhNonce h) d"
  note s = setHighestNonceReceived_same [of d "bhNonce h"]
  have ok1: "stepOk kind d ?d1" using s stepOk_same [OF assms(2,3)] by blast
  define hi where "hi = \<lparr>hiEpoch = bhEpoch h, hiNonce = bhNonce h, hiRound = bhRound h, hiHash = hash, hiState = BHProcessed\<rparr>"
  have st: "\<not> isHeaderReceivedTooLate env h BHProcessed BlockFinality" by (simp add: isHeaderReceivedTooLate_def)
  obtain b d2 where a: "appendHeader hi ?d1 = (b, d2)" by force
  show ?thesis
  proof (cases b)
    case False
    then have "d2 = ?d1" using a by (simp add: appendHeader_def Let_def split: if_splits)
    then show ?thesis using ok1 a False st unfolding processReceivedBlock_def Let_def by (simp add: hi_def)
  next
    case True
    have ap: "appends (\<lambda>n x. n = bhNonce h \<and> hiState x = BHProcessed \<and> hiHash x = hash) ?d1 d2"
      by (rule appends_mono [OF appendHeader_appends [OF a]]) (simp add: hi_def)
    have inv1: "fdInv kind ?d1" using ok1 by (simp add: stepOk_def)
    have last1: "cpNonce (lastCheckpoint ?d1) < bhNonce h" using s assms(4) by simp
    obtain d3 where d3: "doJobOnBHProcessed kind env h hash headers hashes d2 = (Inr (), d3)" "fdInv kind d3" "finalGrows ?d1 d3"
      using doJob_ok [OF assms(1) inv1 last1 assms(5) ap] by blast
    have "finalGrows d d3" using ok1 d3(3) finalGrows_trans by (auto simp: stepOk_def)
    then have "stepOk kind d (updateProbableHighestNonce env d3)" by (intro stepOk_update [OF assms(1) d3(2)])
    then show ?thesis using a True st d3(1) unfolding processReceivedBlock_def Let_def by (simp add: hi_def)
  qed
qed

lemma step_add:
  assumes "\<And>h hash d1. fdInv kind d1 \<Longrightarrow> probableOk d1 \<Longrightarrow> lastCheckpoint d1 = lastCheckpoint d \<Longrightarrow> header = Some h \<Longrightarrow>
      stepOk kind d1 (snd (processReceivedBlock kind env h hash state headers hashes d1))"
    and "fdInv kind d" and "probableOk d"
  shows "stepOk kind d (snd (AddHeader kind env header headerHash state headers hashes d))"
proof -
  obtain r d1 where c: "checkBlockBasicValidity env header headerHash d = (r, d1)" by force
  note s = checkBlockBasicValidity_same [OF c]
  have ok1: "stepOk kind d d1" using s stepOk_same [OF assms(2,3)] by blast
  show ?thesis
  proof (cases r)
    case (Inl e)
    then show ?thesis using ok1 c by (simp add: AddHeader_def)
  next
    case (Inr p)
    obtain h hash where p: "p = (h, hash)" by force
    have "header = Some h" using c Inr p by (auto simp: checkBlockBasicValidity_def Let_def split: option.splits if_splits)
    then have "stepOk kind d1 (snd (processReceivedBlock kind env h hash state headers hashes d1))"
      using assms(1) ok1 s by (simp add: stepOk_def)
    then have "stepOk kind d (snd (processReceivedBlock kind env h hash state headers hashes d1))"
      using ok1 finalGrows_trans by (auto simp: stepOk_def)
    then show ?thesis using c Inr p by (simp add: AddHeader_def)
  qed
qed

lemma step_checked:
  assumes "visitsAll (feOrder env)" and "fdInv kind d" and "probableOk d"
  shows "stepOk kind d (snd (CheckFork env d))"
proof -
  obtain x where x: "snd (CheckFork env d) = d \<or> snd (CheckFork env d) = SetRollBackNonce maxUint64 d \<or> snd (CheckFork env d) = d\<lparr>maxForkHeaderEpoch := x\<rparr>"
    using CheckFork_infoOf [OF assms(1), of d] by force
  then show ?thesis by (elim disjE) (auto intro!: stepOk_same [OF assms(2,3)] headersAt_cong simp: sameChain_def SetRollBackNonce_def)
qed

lemma fdStep_ok:
  assumes "fdStep kind d d'" and "fdInv kind d" and "probableOk d"
  shows "stepOk kind d d'"
  using assms(1)
proof cases
  case (received env state header hash headers hashes)
  show ?thesis unfolding received(1) by (rule step_add [OF step_received_block assms(2,3)]) (use received in auto)
next
  case (processed env h headers hashes hash)
  show ?thesis unfolding processed(1) by (rule step_add [OF step_processed_block assms(2,3)]) (use processed in auto)
next
  case (notarized env headers hashes shard)
  then show ?thesis using step_notarized assms(2,3) by simp
next
  case (removed env nonce hash)
  then show ?thesis using step_removed assms(2,3) by simp
next
  case (reset_nonce env)
  then show ?thesis using step_cleanup assms(2) by simp
next
  case (reset_fork env)
  then show ?thesis using step_cleanup [OF reset_fork(2) assms(2)] unfolding reset_fork(1) ResetFork_def
    by (elim stepOk_then_same) (auto simp: sameChain_def setLastRoundWithForcedFork_def intro: headersAt_cong)
next
  case (roll_back nonce)
  then show ?thesis by (auto intro!: stepOk_same [OF assms(2,3)] headersAt_cong simp: sameChain_def SetRollBackNonce_def)
next
  case (checked env)
  then show ?thesis using step_checked assms(2,3) by simp
qed

lemma genesis_ok:
  assumes "fdHeaders d = Map.empty" and "checkpoint (fork d) = [genesisCheckpoint d]" and "finalCheckpoint (fork d) = genesisCheckpoint d"
    and "probableHighestNonce (fork d) = genesisNonce d"
  shows "fdInv kind d \<and> probableOk d"
  using assms by (cases kind) (simp_all add: fdInv_def checkpointed_def finalOk_def unnotarized_def probableOk_def headersAt_def finalNonce_def genesisCheckpoint_def)

lemma fdReach_ok: "fdReach kind d \<Longrightarrow> fdInv kind d \<and> probableOk d"
proof (induction rule: fdReach.induct)
  case (created genesisHdr time blacklist)
  show ?case by (rule genesis_ok) (simp_all add: newForkDetector_def Let_def genesisCheckpoint_def)
next
  case (restored d)
  show ?case by (rule genesis_ok) (simp_all add: RestoreToGenesis_def Let_def genesisCheckpoint_def)
next
  case (stepped d d')
  then show ?case using fdStep_ok by (auto simp: stepOk_def)
qed

end
