(* ===== verification/ForkProperties.thy ===== *)
theory ForkProperties
  imports ForkSteps
begin

text \<open>The properties of the fork detector.\<close>

section \<open>Examples\<close>

definition exampleFdEnv :: fdEnv where
  "exampleFdEnv = \<lparr>feIndex = 7, feRoundSeconds = 6, feSweep = id, feAdd = (\<lambda>s h. insert h s), feHas = (\<lambda>s h. h \<in> s), feOrder = sorted_list_of_set\<rparr>"

definition exampleGenesis :: blockHeader where
  "exampleGenesis = \<lparr>bhNonce = 0, bhRound = 0, bhEpoch = 0, bhTimeStamp = 0, bhPrevHash = []\<rparr>"

definition exampleHeader :: blockHeader where
  "exampleHeader = \<lparr>bhNonce = 1, bhRound = 7, bhEpoch = 0, bhTimeStamp = 42, bhPrevHash = ''g''\<rparr>"

text \<open>A block was processed that is not the one the metachain notarized.\<close>

definition exampleOwn :: headerInfo where
  "exampleOwn = \<lparr>hiEpoch = 0, hiNonce = 5, hiRound = 6, hiHash = ''a'', hiState = BHProcessed\<rparr>"

definition exampleOther :: headerInfo where
  "exampleOther = \<lparr>hiEpoch = 0, hiNonce = 5, hiRound = 7, hiHash = ''b'', hiState = BHNotarized\<rparr>"

definition exampleFork :: baseForkDetector where
  "exampleFork = (newForkDetector exampleGenesis 0 {})\<lparr>fdHeaders := [5 \<mapsto> [exampleOwn, exampleOther]]\<rparr>"

lemma exampleFdEnv_order: "visitsAll (feOrder exampleFdEnv)"
  by (simp add: visitsAll_def exampleFdEnv_def)

section \<open>Forks\<close>

text \<open>
  C8. What \<^verbatim>\<open>CheckFork\<close> answers does not depend on the order in which Go visits the map of headers, nor on that in which headers arrived, but for the last one that was processed. When the
  consensus is stuck, or a roll back was asked for, it says so. Otherwise the answer is the lowest nonce above the final block at which there is a fork, with the round and the hash of the header to follow: the one with the least
  round and then the least hash among those that count, where a notarized header has round 0. The state changes in nothing but the highest epoch seen.
\<close>

theorem check_fork_spec:
  assumes "visitsAll (feOrder env)"
  shows "fst (CheckFork env d) =
      (if isConsensusStuck env d then NewForkInfo\<lparr>fiIsDetected := True\<rparr>
       else if rollBackNonce (fork d) < maxUint64 then NewForkInfo\<lparr>fiIsDetected := True, fiNonce := rollBackNonce (fork d)\<rparr>
       else infoOf d {n. forkAt d n}) \<and>
    (snd (CheckFork env d) = SetRollBackNonce maxUint64 d \<or> (\<exists>epoch. snd (CheckFork env d) = d\<lparr>maxForkHeaderEpoch := epoch\<rparr>))"
proof -
  obtain x where x: "CheckFork env d =
    (if isConsensusStuck env d then (NewForkInfo\<lparr>fiIsDetected := True\<rparr>, d)
     else if rollBackNonce (fork d) < maxUint64 then (NewForkInfo\<lparr>fiIsDetected := True, fiNonce := rollBackNonce (fork d)\<rparr>, SetRollBackNonce maxUint64 d)
     else (infoOf d {n. forkAt d n}, d\<lparr>maxForkHeaderEpoch := x\<rparr>))"
    using CheckFork_infoOf [OF assms] by blast
  have "\<exists>epoch. d = d\<lparr>maxForkHeaderEpoch := epoch\<rparr>" by (rule exI [of _ "maxForkHeaderEpoch d"]) simp
  then show ?thesis unfolding x by (cases "isConsensusStuck env d"; cases "rollBackNonce (fork d) < maxUint64") auto
qed

theorem check_fork_spec_witness:
  "fst (CheckFork exampleFdEnv exampleFork) = infoOf exampleFork {n. forkAt exampleFork n}"
  using check_fork_spec [OF exampleFdEnv_order, of exampleFork]
  by (simp add: exampleFork_def newForkDetector_def Let_def isConsensusStuck_def exampleFdEnv_def lastCheckpoint_def isSyncing_def exampleGenesis_def
      MaxRoundsWithoutCommittedBlock_def NonceDifferenceWhenSynced_def)

lemma infoOf_nonce: "S \<noteq> {} \<Longrightarrow> fiIsDetected (infoOf d S) \<and> fiNonce (infoOf d S) = Min S"
  by (simp add: infoOf_def NewForkInfo_def split: prod.splits)

lemma notarized_choice:
  assumes "q \<in> set l" and "hiState q = BHNotarized" and "\<forall>x\<in>set l. hiState x = BHNotarized \<longrightarrow> hiHash x = hiHash q" and "\<forall>x\<in>set l. hiRound x \<noteq> 0"
  shows "forkChoice d l = (MinForkRound, hiHash q)"
proof -
  let ?K = "forkKey ` {hi \<in> set l. counts d (getMaxEpochFromHdrsInfo l) hi}"
  have q: "(MinForkRound, hiHash q) \<in> ?K" using assms(1,2) by (auto simp: image_iff forkKey_def counts_def intro!: bexI [of _ q])
  have "(MinForkRound, hiHash q) \<le> k" if k: "k \<in> insert (maxUint64, []) ?K" for k
  proof (cases "fst k = MinForkRound")
    case True
    have "k \<noteq> (maxUint64, [])" using True by (auto simp: MinForkRound_def maxUint64_def)
    then obtain x where x: "x \<in> set l" "k = forkKey x" using k by auto
    then have "hiState x = BHNotarized" using True assms(4) by (auto simp: forkKey_def MinForkRound_def split: if_splits)
    then have "k = (MinForkRound, hiHash q)" using x assms(3) by (simp add: forkKey_def)
    then show ?thesis by simp
  next
    case False
    then have "MinForkRound < fst k" by (simp add: MinForkRound_def word_neq_0_conv)
    then show ?thesis by (simp add: less_eq_prod_def)
  qed
  then show ?thesis unfolding forkChoice_def leastKey_def using q by (intro Min_eqI) auto
qed

text \<open>
  C18. A notarized header decides. When the consensus is not stuck, no roll back nonce is pending, and at a nonce above the final block the node has processed one hash and the metachain has notarized one, with all rounds after
  that of the genesis, then \<^verbatim>\<open>CheckFork\<close> reports a fork at that nonce or below it if the two hashes differ, and does not report that nonce if they are the same, whatever other headers were received.
\<close>

theorem notarized_block_wins:
  assumes "visitsAll (feOrder env)" and "\<not> isConsensusStuck env d" and "rollBackNonce (fork d) = maxUint64" and "finalNonce d < n"
    and "p \<in> set (headersAt d n)" and "hiState p = BHProcessed" and "\<forall>x\<in>set (headersAt d n). hiState x = BHProcessed \<longrightarrow> hiHash x = hiHash p"
    and "q \<in> set (headersAt d n)" and "hiState q = BHNotarized" and "\<forall>x\<in>set (headersAt d n). hiState x = BHNotarized \<longrightarrow> hiHash x = hiHash q"
    and "\<forall>x\<in>set (headersAt d n). hiRound x \<noteq> 0"
  shows "(hiHash p \<noteq> hiHash q \<longrightarrow> fiIsDetected (fst (CheckFork env d)) \<and> fiNonce (fst (CheckFork env d)) \<le> n) \<and>
    (hiHash p = hiHash q \<longrightarrow> n \<noteq> maxUint64 \<longrightarrow> fiNonce (fst (CheckFork env d)) \<noteq> n)"
proof -
  let ?l = "headersAt d n" and ?S = "{n. forkAt d n}"
  have fst: "fst (CheckFork env d) = infoOf d ?S" using CheckFork_infoOf [OF assms(1), of d] assms(2,3) by force
  have "filter (\<lambda>hi. hiState hi = BHProcessed) ?l \<noteq> []" using assms(5,6) by (auto simp: filter_empty_conv)
  then obtain self where self: "ownHeader ?l = Some self" "self \<in> set ?l" "hiState self = BHProcessed"
    using last_in_set [of "filter (\<lambda>hi. hiState hi = BHProcessed) ?l"] by (auto simp: ownHeader_def Let_def)
  have hash: "hiHash self = hiHash p" "MinForkRound < hiRound self" using self assms(7,11) by (auto simp: MinForkRound_def word_neq_0_conv)
  have "length ?l \<noteq> 1"
  proof
    assume "length ?l = 1"
    then obtain x where "?l = [x]" by (metis One_nat_def length_0_conv length_Suc_conv)
    then show False using assms(5,6,8,9) by auto
  qed
  then have at: "forkAt d n \<longleftrightarrow> hiHash p \<noteq> hiHash q"
    using assms(4) self(1) hash notarized_choice [OF assms(8-11)] by (simp add: forkAt_def Let_def shouldSignalFork_def)
  have fin: "finite ?S" by simp
  show ?thesis
  proof (cases "hiHash p = hiHash q")
    case True
    have "fiNonce (infoOf d ?S) \<noteq> n" if "n \<noteq> maxUint64"
    proof (cases "?S = {}")
      case True
      then show ?thesis using that by (simp add: infoOf_def NewForkInfo_def)
    next
      case False
      then have "Min ?S \<in> ?S" by (rule Min_in [OF fin])
      then show ?thesis using False at True infoOf_nonce [OF False, of d] by auto
    qed
    then show ?thesis using True fst by simp
  next
    case False
    then have n: "n \<in> ?S" using at by simp
    have ne: "?S \<noteq> {}" using n by blast
    have "fiNonce (infoOf d ?S) \<le> n" using infoOf_nonce [OF ne, of d] Min_le [OF fin n] by simp
    then show ?thesis using False fst infoOf_nonce [OF ne, of d] by simp
  qed
qed

theorem notarized_block_wins_witness: "fiIsDetected (fst (CheckFork exampleFdEnv exampleFork))"
proof -
  have l: "headersAt exampleFork 5 = [exampleOwn, exampleOther]" by (simp add: exampleFork_def headersAt_def)
  have stuck: "\<not> isConsensusStuck exampleFdEnv exampleFork"
    by (simp add: exampleFork_def newForkDetector_def Let_def isConsensusStuck_def exampleFdEnv_def lastCheckpoint_def isSyncing_def exampleGenesis_def
        MaxRoundsWithoutCommittedBlock_def NonceDifferenceWhenSynced_def)
  show ?thesis
    using notarized_block_wins [OF exampleFdEnv_order stuck, of 5 exampleOwn exampleOther] l
    by (simp add: exampleOwn_def exampleOther_def exampleFork_def newForkDetector_def finalNonce_def exampleGenesis_def Let_def)
qed

section \<open>Finality\<close>

text \<open>
  C4. Finality is not taken back by a running node (\<^verbatim>\<open>fdStep\<close>): each call of \<^verbatim>\<open>AddHeader\<close>, \<^verbatim>\<open>ReceivedSelfNotarizedFromCrossHeaders\<close>, \<^verbatim>\<open>RemoveHeader\<close>,
  \<^verbatim>\<open>ResetProbableHighestNonce\<close>, \<^verbatim>\<open>ResetFork\<close>, \<^verbatim>\<open>SetRollBackNonce\<close> and \<^verbatim>\<open>CheckFork\<close>, on a detector of a shard or of the metachain, leaves the final checkpoint
  as it is or moves it to a higher nonce, provided that blocks are processed with nonces above the last checkpoint and that the header to remove is that of the last processed block or has a later nonce. The final block is never above the last processed one
  nor above the probable highest nonce. In a shard, the final block is the genesis block, or it was processed and the metachain notarized the same header, and both records are still there; on the metachain it is one of the processed blocks.
  \<^verbatim>\<open>SetFinalToLastCheckpoint\<close> and \<^verbatim>\<open>RestoreToGenesis\<close> change the final checkpoint on purpose and are not such calls; the state may have been restored to the genesis block before.
\<close>

theorem final_block_stays:
  assumes "fdReach kind d" and "fdStep kind d d'"
  shows "(finalCheckpoint (fork d') = finalCheckpoint (fork d) \<or> finalNonce d < finalNonce d') \<and>
    finalNonce d' \<le> cpNonce (lastCheckpoint d') \<and> finalNonce d' \<le> probableHighestNonce (fork d') \<and>
    (case kind of
       ShardForkDetector \<Rightarrow> finalCheckpoint (fork d') = genesisCheckpoint d' \<or>
         (\<exists>p q. p \<in> set (headersAt d' (finalNonce d')) \<and> q \<in> set (headersAt d' (finalNonce d')) \<and> hiState p = BHProcessed \<and> hiState q = BHNotarized \<and>
           hiHash p = cpHash (finalCheckpoint (fork d')) \<and> hiHash q = cpHash (finalCheckpoint (fork d')))
     | MetaForkDetector \<Rightarrow> finalCheckpoint (fork d') \<in> set (checkpoint (fork d')))"
proof -
  have ok: "fdInv kind d'" "probableOk d'" "finalGrows d d'"
    using fdStep_ok [OF assms(2)] fdReach_ok [OF assms(1)] by (auto simp: stepOk_def)
  have f: "finalOk kind d'" using ok(1) by (simp add: fdInv_def)
  show ?thesis
  proof (intro conjI)
    show "finalCheckpoint (fork d') = finalCheckpoint (fork d) \<or> finalNonce d < finalNonce d'" using ok(3) by (simp add: finalGrows_def)
    show "finalNonce d' \<le> cpNonce (lastCheckpoint d')" by (rule final_le_last [OF ok(1)])
    show "finalNonce d' \<le> probableHighestNonce (fork d')" using ok(2) by (simp add: probableOk_def)
    show "case kind of
       ShardForkDetector \<Rightarrow> finalCheckpoint (fork d') = genesisCheckpoint d' \<or>
         (\<exists>p q. p \<in> set (headersAt d' (finalNonce d')) \<and> q \<in> set (headersAt d' (finalNonce d')) \<and> hiState p = BHProcessed \<and> hiState q = BHNotarized \<and>
           hiHash p = cpHash (finalCheckpoint (fork d')) \<and> hiHash q = cpHash (finalCheckpoint (fork d')))
     | MetaForkDetector \<Rightarrow> finalCheckpoint (fork d') \<in> set (checkpoint (fork d'))"
    proof (cases kind)
      case ShardForkDetector
      then have "certified d' \<or> unnotarized d'" using f by (simp add: finalOk_def)
      then show ?thesis using ShardForkDetector notarizedAt_headers [of d' "finalNonce d'"] by (auto simp: certified_def unnotarized_def)
    next
      case MetaForkDetector
      then show ?thesis using f by (simp add: finalOk_def)
    qed
  qed
qed

theorem final_block_stays_witness:
  "\<exists>d. d = snd (AddHeader MetaForkDetector exampleFdEnv (Some exampleHeader) (Some ''h'') BHProcessed [] [] (newForkDetector exampleGenesis 0 {})) \<and>
    finalNonce d \<le> probableHighestNonce (fork d) \<and> finalCheckpoint (fork d) \<in> set (checkpoint (fork d))"
proof -
  let ?d = "newForkDetector exampleGenesis 0 {}"
  have "cpNonce (lastCheckpoint ?d) < bhNonce exampleHeader"
    by (simp add: lastCheckpoint_def newForkDetector_def Let_def exampleGenesis_def exampleHeader_def)
  then have s: "fdStep MetaForkDetector ?d (snd (AddHeader MetaForkDetector exampleFdEnv (Some exampleHeader) (Some ''h'') BHProcessed [] [] ?d))"
    by (intro fdStep.processed [OF exampleFdEnv_order]) simp_all
  from final_block_stays [OF fdReach.created s] show ?thesis by simp
qed

end
