(* ===== verification/StatePruning.thy ===== *)
theory StatePruning
  imports Prelude
begin

text \<open>
  Pruning of old state: \<^verbatim>\<open>storagePruningManager.go\<close>, \<^verbatim>\<open>evictionWaitingList/memoryEvictionWaitingList.go\<close> and \<^verbatim>\<open>pruningBuffer/pruningBuffer.go\<close> of
  \<^verbatim>\<open>src/state/storagePruningManager\<close>.

  When a commit replaces an old root of the state by a new one, the hashes of the nodes that only the old root has, and those that only the new one has, are marked for eviction under the old and the new
  root, each followed by a byte that tells them apart. When the block becomes final the old root is pruned: its hashes are removed from the database, unless another root still lists them. When the block is
  reverted, the new root is pruned. While the database is being copied, operations wait in a buffer.

  A set of hashes is a Go map with empty values, here a finite set. The trie storage manager and the handler of the caller are fields of \<^verbatim>\<open>pruneEnv\<close>: whether they block or enable pruning, which removals fail,
  and in which order a loop visits a set. What is removed from the database is the list of hashes an operation returns.
\<close>

section \<open>Data\<close>

type_synonym modifiedHashes = "bytes set"

record rootHashData =
  numReferences :: u64
  rhHashes :: modifiedHashes

record memoryEvictionWaitingList =
  ewlCache :: "bytes \<rightharpoonup> rootHashData"
  reversedCache :: "bytes \<rightharpoonup> bytes list"
  rootHashesSize :: u64
  hashesSize :: u64

record pruningBuffer =
  pbBuffer :: "bytes list"
  pbSize :: u32

record storagePruningManager =
  dbEvictionWaitingList :: memoryEvictionWaitingList
  spmBuffer :: pruningBuffer

datatype pruneError = ErrInvalidKey | ErrInvalidIdentifier | ErrInvalidCacheSize | ErrRemove string

record pruneEnv =
  peIsPruningBlocked :: bool
  peIsPruningEnabled :: bool
  peRemove :: "bytes \<Rightarrow> string option"
  peOrder :: "bytes set \<Rightarrow> bytes list"

definition OldRoot :: char where
  "OldRoot = CHR 0x00"

definition NewRoot :: char where
  "NewRoot = CHR 0x01"

definition cancelPruneOp :: char where
  "cancelPruneOp = CHR 0x00"

definition pruneOp :: char where
  "pruneOp = CHR 0x01"

section \<open>The waiting list\<close>

definition NewMemoryEvictionWaitingList :: "u64 \<Rightarrow> u64 \<Rightarrow> pruneError + memoryEvictionWaitingList" where
  "NewMemoryEvictionWaitingList rootHashes hashes =
     (if rootHashes < 1 then Inl ErrInvalidCacheSize
      else if hashes < 1 then Inl ErrInvalidCacheSize
      else Inr \<lparr>ewlCache = Map.empty, reversedCache = Map.empty, rootHashesSize = rootHashes, hashesSize = hashes\<rparr>)"

text \<open>The loops over the hashes treat each hash for itself.\<close>

definition putInReversedCache :: "bytes \<Rightarrow> modifiedHashes \<Rightarrow> memoryEvictionWaitingList \<Rightarrow> memoryEvictionWaitingList" where
  "putInReversedCache rootHash hashes mewl = mewl\<lparr>reversedCache := (\<lambda>hash.
     if hash \<notin> hashes then reversedCache mewl hash
     else case reversedCache mewl hash of
            None \<Rightarrow> Some [rootHash]
          | Some roothashes \<Rightarrow> if rootHash \<in> set roothashes then Some roothashes else Some (roothashes @ [rootHash]))\<rparr>"

definition putInCache :: "bytes \<Rightarrow> modifiedHashes \<Rightarrow> memoryEvictionWaitingList \<Rightarrow> memoryEvictionWaitingList" where
  "putInCache rootHash hashes mewl =
     (case ewlCache mewl rootHash of
        None \<Rightarrow> mewl\<lparr>ewlCache := (ewlCache mewl)(rootHash \<mapsto> \<lparr>numReferences = 1, rhHashes = hashes\<rparr>)\<rparr>
      | Some rhData \<Rightarrow> mewl\<lparr>ewlCache := (ewlCache mewl)(rootHash \<mapsto> rhData\<lparr>numReferences := numReferences rhData + 1\<rparr>)\<rparr>)"

definition cachesFull :: "memoryEvictionWaitingList \<Rightarrow> bool" where
  "cachesFull mewl =
     (if of_nat (card (dom (ewlCache mewl))) > rootHashesSize mewl then True
      else if of_nat (card (dom (reversedCache mewl))) > hashesSize mewl then True
      else False)"

definition ewlPut :: "bytes \<Rightarrow> modifiedHashes \<Rightarrow> memoryEvictionWaitingList \<Rightarrow> memoryEvictionWaitingList" where
  "ewlPut rootHash hashes mewl =
     (let mewl1 = putInCache rootHash hashes (putInReversedCache rootHash hashes mewl)
      in if \<not> cachesFull mewl1 then mewl1 else mewl1\<lparr>ewlCache := Map.empty, reversedCache := Map.empty\<rparr>)"

definition removeFromReversedCache :: "bytes \<Rightarrow> modifiedHashes \<Rightarrow> memoryEvictionWaitingList \<Rightarrow> memoryEvictionWaitingList" where
  "removeFromReversedCache rootHash hashes mewl = mewl\<lparr>reversedCache := (\<lambda>hash.
     if hash \<notin> hashes then reversedCache mewl hash
     else case reversedCache mewl hash of
            None \<Rightarrow> None
          | Some roothashes \<Rightarrow>
              if rootHash \<notin> set roothashes then Some roothashes
              else if length roothashes = 1 then None
              else Some (remove1 rootHash roothashes))\<rparr>"

definition Evict :: "bytes \<Rightarrow> memoryEvictionWaitingList \<Rightarrow> modifiedHashes \<times> memoryEvictionWaitingList" where
  "Evict rootHash mewl =
     (case ewlCache mewl rootHash of
        None \<Rightarrow> ({}, mewl)
      | Some rhData \<Rightarrow>
          if numReferences rhData \<le> 1
          then (rhHashes rhData, removeFromReversedCache rootHash (rhHashes rhData) (mewl\<lparr>ewlCache := (ewlCache mewl)(rootHash := None)\<rparr>))
          else ({}, mewl\<lparr>ewlCache := (ewlCache mewl)(rootHash \<mapsto> rhData\<lparr>numReferences := numReferences rhData - 1\<rparr>)\<rparr>))"

fun shouldKeepLoop :: "char \<Rightarrow> bytes list \<Rightarrow> pruneError + bool" where
  "shouldKeepLoop identifier [] = Inr False"
| "shouldKeepLoop identifier (key # keys) =
     (if length key = 0 then Inl ErrInvalidKey
      else if last key = OldRoot \<and> identifier = OldRoot then shouldKeepLoop identifier keys
      else Inr True)"

definition ShouldKeepHash :: "bytes \<Rightarrow> char \<Rightarrow> memoryEvictionWaitingList \<Rightarrow> pruneError + bool" where
  "ShouldKeepHash hash identifier mewl =
     (case reversedCache mewl hash of None \<Rightarrow> Inr False | Some roothashes \<Rightarrow> shouldKeepLoop identifier roothashes)"

section \<open>The buffer\<close>

definition NewPruningBuffer :: "u32 \<Rightarrow> pruningBuffer" where
  "NewPruningBuffer pruningBufferLen = \<lparr>pbBuffer = [], pbSize = pruningBufferLen\<rparr>"

definition pbAdd :: "bytes \<Rightarrow> pruningBuffer \<Rightarrow> pruningBuffer" where
  "pbAdd rootHash pb =
     (if pbSize pb = 0 then pb
      else if of_nat (length (pbBuffer pb)) = pbSize pb then pb\<lparr>pbBuffer := tl (pbBuffer pb) @ [rootHash]\<rparr>
      else pb\<lparr>pbBuffer := pbBuffer pb @ [rootHash]\<rparr>)"

definition RemoveAll :: "pruningBuffer \<Rightarrow> bytes list \<times> pruningBuffer" where
  "RemoveAll pb = (pbBuffer pb, pb\<lparr>pbBuffer := []\<rparr>)"

section \<open>The manager\<close>

definition NewStoragePruningManager :: "memoryEvictionWaitingList \<Rightarrow> u32 \<Rightarrow> storagePruningManager" where
  "NewStoragePruningManager evictionWaitingList pruningBufferLen =
     \<lparr>dbEvictionWaitingList = evictionWaitingList, spmBuffer = NewPruningBuffer pruningBufferLen\<rparr>"

text \<open>A hash that is in both maps is deleted from both, in the maps of the caller.\<close>

definition removeDuplicatedKeys :: "modifiedHashes \<Rightarrow> modifiedHashes \<Rightarrow> modifiedHashes \<times> modifiedHashes" where
  "removeDuplicatedKeys oldHashes newHashes = (oldHashes - newHashes, newHashes - oldHashes)"

definition markForEviction :: "bytes \<Rightarrow> modifiedHashes \<Rightarrow> char \<Rightarrow> storagePruningManager \<Rightarrow> storagePruningManager" where
  "markForEviction rootHash hashes identifier spm =
     (if length rootHash = 0 \<or> hashes = {} then spm
      else spm\<lparr>dbEvictionWaitingList := ewlPut (rootHash @ [identifier]) hashes (dbEvictionWaitingList spm)\<rparr>)"

definition MarkForEviction :: "bytes \<Rightarrow> bytes \<Rightarrow> modifiedHashes \<Rightarrow> modifiedHashes \<Rightarrow> storagePruningManager \<Rightarrow> storagePruningManager" where
  "MarkForEviction oldRoot newRoot oldHashes newHashes spm =
     (if newRoot = oldRoot then spm
      else case removeDuplicatedKeys oldHashes newHashes of
             (old, new) \<Rightarrow> markForEviction oldRoot old OldRoot (markForEviction newRoot new NewRoot spm))"

text \<open>The loop of \<^verbatim>\<open>removeFromDb\<close>: the hashes that were removed and the error that ended it.\<close>

fun removeLoop :: "pruneEnv \<Rightarrow> memoryEvictionWaitingList \<Rightarrow> char \<Rightarrow> bytes list \<Rightarrow> pruneError option \<times> bytes list" where
  "removeLoop env mewl identifier [] = (None, [])"
| "removeLoop env mewl identifier (key # keys) =
     (case ShouldKeepHash key identifier mewl of
        Inl e \<Rightarrow> (Some e, [])
      | Inr shouldKeepHash \<Rightarrow>
          if shouldKeepHash then removeLoop env mewl identifier keys
          else case peRemove env key of
                 Some e \<Rightarrow> (Some (ErrRemove e), [])
               | None \<Rightarrow> (case removeLoop env mewl identifier keys of (r, removed) \<Rightarrow> (r, key # removed)))"

definition removeFromDb :: "pruneEnv \<Rightarrow> bytes \<Rightarrow> storagePruningManager \<Rightarrow> (pruneError option \<times> bytes list) \<times> storagePruningManager" where
  "removeFromDb env rootHash spm =
     (case Evict rootHash (dbEvictionWaitingList spm) of
        (hashes, mewl) \<Rightarrow>
          let spm1 = spm\<lparr>dbEvictionWaitingList := mewl\<rparr>
          in if \<not> peIsPruningEnabled env then ((None, []), spm1)
             else if length rootHash = 0 then ((Some ErrInvalidIdentifier, []), spm1)
             else (removeLoop env mewl (last rootHash) (peOrder env hashes), spm1))"

text \<open>Errors of \<^verbatim>\<open>removeFromDb\<close> are logged.\<close>

definition prune :: "pruneEnv \<Rightarrow> bytes \<Rightarrow> storagePruningManager \<Rightarrow> bytes list \<times> storagePruningManager" where
  "prune env rootHash spm = (case removeFromDb env rootHash spm of ((_, removed), spm1) \<Rightarrow> (removed, spm1))"

definition cancelPrune :: "bytes \<Rightarrow> storagePruningManager \<Rightarrow> storagePruningManager" where
  "cancelPrune rootHash spm = spm\<lparr>dbEvictionWaitingList := snd (Evict rootHash (dbEvictionWaitingList spm))\<rparr>"

fun resolveBufferedHashes :: "pruneEnv \<Rightarrow> bytes list \<Rightarrow> storagePruningManager \<Rightarrow> bytes list \<times> storagePruningManager" where
  "resolveBufferedHashes env [] spm = ([], spm)"
| "resolveBufferedHashes env (rootHash # rest) spm =
     (if length rootHash = 0 then resolveBufferedHashes env rest spm
      else if last rootHash = pruneOp then
        (case prune env (butlast rootHash) spm of
           (removed, spm1) \<Rightarrow> (case resolveBufferedHashes env rest spm1 of (removed', spm2) \<Rightarrow> (removed @ removed', spm2)))
      else if last rootHash = cancelPruneOp then resolveBufferedHashes env rest (cancelPrune (butlast rootHash) spm)
      else resolveBufferedHashes env rest spm)"

definition PruneTrie :: "pruneEnv \<Rightarrow> bytes \<Rightarrow> char \<Rightarrow> storagePruningManager \<Rightarrow> bytes list \<times> storagePruningManager" where
  "PruneTrie env rootHash identifier spm =
     (let root = rootHash @ [identifier]
      in if peIsPruningBlocked env then
           (if identifier = NewRoot then ([], cancelPrune root spm)
            else ([], spm\<lparr>spmBuffer := pbAdd (root @ [pruneOp]) (spmBuffer spm)\<rparr>))
         else
           case RemoveAll (spmBuffer spm) of
             (oldHashes, pb) \<Rightarrow>
               (case resolveBufferedHashes env oldHashes (spm\<lparr>spmBuffer := pb\<rparr>) of
                  (removed, spm1) \<Rightarrow> (case prune env root spm1 of (removed', spm2) \<Rightarrow> (removed @ removed', spm2))))"

definition CancelPrune :: "pruneEnv \<Rightarrow> bytes \<Rightarrow> char \<Rightarrow> storagePruningManager \<Rightarrow> storagePruningManager" where
  "CancelPrune env rootHash identifier spm =
     (let root = rootHash @ [identifier]
      in if peIsPruningBlocked env \<or> length (pbBuffer (spmBuffer spm)) \<noteq> 0
         then spm\<lparr>spmBuffer := pbAdd (root @ [cancelPruneOp]) (spmBuffer spm)\<rparr>
         else cancelPrune root spm)"

end
