(* ===== verification/PruningProperties.thy ===== *)
theory PruningProperties
  imports StatePruning "HOL-Library.Char_ord" "HOL-Library.List_Lexorder"
begin

text \<open>
  The invariant of the eviction waiting list and the properties of pruning.
\<close>

section \<open>The invariant\<close>

definition rootsOf :: "memoryEvictionWaitingList \<Rightarrow> bytes \<Rightarrow> bytes list" where
  "rootsOf mewl h = (case reversedCache mewl h of None \<Rightarrow> [] | Some l \<Rightarrow> l)"

text \<open>The roots, with their identifiers, that wait with a hash.\<close>

definition listedBy :: "memoryEvictionWaitingList \<Rightarrow> bytes \<Rightarrow> bytes set" where
  "listedBy mewl h = {r. \<exists>e. ewlCache mewl r = Some e \<and> h \<in> rhHashes e}"

definition ewlOk :: "memoryEvictionWaitingList \<Rightarrow> bool" where
  "ewlOk mewl \<longleftrightarrow> (\<forall>h. listedBy mewl h \<subseteq> set (rootsOf mewl h) \<and> distinct (rootsOf mewl h) \<and> [] \<notin> set (rootsOf mewl h)) \<and>
     (\<forall>e\<in>ran (ewlCache mewl). finite (rhHashes e))"

lemma rootsOf_put: "rootsOf (putInReversedCache r H mewl) h = rootsOf mewl h @ (if h \<in> H \<and> r \<notin> set (rootsOf mewl h) then [r] else [])"
  by (simp add: rootsOf_def putInReversedCache_def split: option.splits)

lemma rootsOf_remove:
  assumes "distinct (rootsOf mewl h)"
  shows "set (rootsOf (removeFromReversedCache r H mewl) h) = set (rootsOf mewl h) - (if h \<in> H then {r} else {})"
    and "distinct (rootsOf (removeFromReversedCache r H mewl) h)"
proof -
  have "rootsOf (removeFromReversedCache r H mewl) h = (if h \<in> H then remove1 r (rootsOf mewl h) else rootsOf mewl h)"
    by (auto simp: rootsOf_def removeFromReversedCache_def remove1_idem length_Suc_conv split: option.splits)
  then show "set (rootsOf (removeFromReversedCache r H mewl) h) = set (rootsOf mewl h) - (if h \<in> H then {r} else {})"
    "distinct (rootsOf (removeFromReversedCache r H mewl) h)"
    using assms by auto
qed

lemma rootsOf_cache [simp]: "rootsOf (mewl\<lparr>ewlCache := c\<rparr>) = rootsOf mewl" "rootsOf (putInCache r H mewl) = rootsOf mewl"
  by (simp_all add: rootsOf_def fun_eq_iff putInCache_def split: option.splits)

lemma listedBy_put:
  "listedBy (putInCache r H mewl) h = listedBy mewl h \<union> (if ewlCache mewl r = None \<and> h \<in> H then {r} else {})"
  by (auto simp: listedBy_def putInCache_def split: option.splits if_splits)

lemma listedBy_reversed [simp]:
  "listedBy (putInReversedCache r H mewl) = listedBy mewl" "listedBy (removeFromReversedCache r H mewl) = listedBy mewl"
  "ewlCache (putInReversedCache r H mewl) = ewlCache mewl" "ewlCache (removeFromReversedCache r H mewl) = ewlCache mewl"
  by (simp_all add: listedBy_def fun_eq_iff putInReversedCache_def removeFromReversedCache_def)

lemma ran_put:
  assumes "\<forall>e\<in>ran (ewlCache mewl). finite (rhHashes e)" and "finite H"
  shows "\<forall>e\<in>ran (ewlCache (putInCache r H mewl)). finite (rhHashes e)"
proof (cases "ewlCache mewl r")
  case None
  then show ?thesis using assms by (auto simp: putInCache_def)
next
  case (Some e)
  then have "finite (rhHashes e)" using assms(1) ranI by metis
  then show ?thesis using assms(1) Some unfolding putInCache_def by (auto simp: ran_def split: if_splits)
qed

lemma ewlOk_put:
  assumes "ewlOk mewl" and "r \<noteq> []" and "finite H"
  shows "ewlOk (ewlPut r H mewl)"
proof -
  let ?m = "putInCache r H (putInReversedCache r H mewl)"
  have "ewlOk ?m"
    unfolding ewlOk_def
  proof (intro conjI allI)
    fix h
    show "listedBy ?m h \<subseteq> set (rootsOf ?m h)" "distinct (rootsOf ?m h)" "[] \<notin> set (rootsOf ?m h)"
      using assms(1,2) by (auto simp: ewlOk_def listedBy_put rootsOf_put)
    show "\<forall>e\<in>ran (ewlCache ?m). finite (rhHashes e)" using ran_put [of "putInReversedCache r H mewl"] assms(1,3) by (simp add: ewlOk_def)
  qed
  moreover have "ewlOk (mewl'\<lparr>ewlCache := Map.empty, reversedCache := Map.empty\<rparr>)" for mewl'
    by (simp add: ewlOk_def listedBy_def rootsOf_def)
  ultimately show ?thesis by (cases "cachesFull ?m") (simp_all add: ewlPut_def Let_def)
qed

lemma Evict_ok:
  assumes "Evict r mewl = (H, mewl')" and "ewlOk mewl"
  shows "ewlOk mewl'" and "listedBy mewl' h \<subseteq> listedBy mewl h" and "finite H"
proof -
  show l: "listedBy mewl' h \<subseteq> listedBy mewl h" for h
    using assms(1) by (auto simp: Evict_def listedBy_def removeFromReversedCache_def split: option.splits if_splits)
  have fin: "finite (rhHashes e)" if "ewlCache mewl k = Some e" for k e using assms(2) that ranI by (metis ewlOk_def)
  show "finite H" using assms(1) fin by (auto simp: Evict_def split: option.splits if_splits)
  have ranfin: "\<forall>e\<in>ran (ewlCache mewl'). finite (rhHashes e)"
    using assms(1) fin by (auto simp: Evict_def ran_def split: option.splits if_splits)
  have R: "listedBy mewl h \<subseteq> set (rootsOf mewl h)" "distinct (rootsOf mewl h)" "[] \<notin> set (rootsOf mewl h)" for h
    using assms(2) by (simp_all add: ewlOk_def)
  show "ewlOk mewl'"
  proof (cases "\<exists>e. ewlCache mewl r = Some e \<and> numReferences e \<le> 1")
    case False
    then have "rootsOf mewl' = rootsOf mewl" using assms(1) by (auto simp: Evict_def split: option.splits if_splits)
    then show ?thesis using R l ranfin unfolding ewlOk_def by (metis subset_trans)
  next
    case True
    then obtain e where e: "ewlCache mewl r = Some e" "numReferences e \<le> 1" by blast
    then have m: "mewl' = removeFromReversedCache r (rhHashes e) (mewl\<lparr>ewlCache := (ewlCache mewl)(r := None)\<rparr>)" using assms(1) by (auto simp: Evict_def)
    have d: "distinct (rootsOf (mewl\<lparr>ewlCache := (ewlCache mewl)(r := None)\<rparr>) h)" for h using R(2) by simp
    have "r \<notin> listedBy mewl' h" for h by (simp add: m listedBy_def)
    then show ?thesis using R l ranfin rootsOf_remove [OF d] unfolding ewlOk_def m by fastforce
  qed
qed

lemma ShouldKeepHash_roots:
  assumes "[] \<notin> set (rootsOf mewl h)"
  shows "ShouldKeepHash h identifier mewl = Inr (\<exists>r\<in>set (rootsOf mewl h). \<not> (last r = OldRoot \<and> identifier = OldRoot))"
proof -
  have "shouldKeepLoop identifier l = Inr (\<exists>r\<in>set l. \<not> (last r = OldRoot \<and> identifier = OldRoot))" if "[] \<notin> set l" for l
    using that by (induction l) auto
  then show ?thesis using assms by (auto simp: ShouldKeepHash_def rootsOf_def split: option.splits)
qed

lemma removeLoop_removed:
  "h \<in> set (snd (removeLoop env mewl identifier keys)) \<Longrightarrow> h \<in> set keys \<and> ShouldKeepHash h identifier mewl = Inr False"
  by (induction keys) (auto split: sum.splits if_splits option.splits prod.splits)

lemma removeLoop_all:
  assumes "\<And>h. [] \<notin> set (rootsOf mewl h)" and "\<And>h. peRemove env h = None"
  shows "removeLoop env mewl identifier keys =
    (None, filter (\<lambda>h. \<not> (\<exists>r\<in>set (rootsOf mewl h). \<not> (last r = OldRoot \<and> identifier = OldRoot))) keys)"
  by (induction keys) (simp_all add: ShouldKeepHash_roots [OF assms(1)] assms(2))

section \<open>Pruning\<close>

definition waiting :: "storagePruningManager \<Rightarrow> bytes \<Rightarrow> bytes set" where
  "waiting spm = listedBy (dbEvictionWaitingList spm)"

definition spmOk :: "storagePruningManager \<Rightarrow> bool" where
  "spmOk spm \<longleftrightarrow> ewlOk (dbEvictionWaitingList spm)"

text \<open>A hash that is removed is listed by old roots only, and by none when it is a new root that is pruned.\<close>

lemma prune_ok:
  assumes "prune env root spm = (removed, spm')" and "spmOk spm"
  shows "spmOk spm'" "waiting spm' h \<subseteq> waiting spm h" "spmBuffer spm' = spmBuffer spm"
    "h \<in> set removed \<Longrightarrow> r \<in> waiting spm' h \<Longrightarrow> r \<noteq> [] \<and> last r = OldRoot \<and> last root = OldRoot"
proof -
  obtain H mewl where e: "Evict root (dbEvictionWaitingList spm) = (H, mewl)" by force
  have spm': "spm' = spm\<lparr>dbEvictionWaitingList := mewl\<rparr>"
    using assms(1) e by (auto simp: prune_def removeFromDb_def Let_def split: prod.splits if_splits)
  note ok = Evict_ok [OF e] assms(2) [unfolded spmOk_def]
  show "spmOk spm'" "waiting spm' h \<subseteq> waiting spm h" "spmBuffer spm' = spmBuffer spm" using ok by (simp_all add: spm' spmOk_def waiting_def)
  assume "h \<in> set removed" "r \<in> waiting spm' h"
  then have "h \<in> set (snd (removeLoop env mewl (last root) (peOrder env H)))"
    using assms(1) e by (auto simp: prune_def removeFromDb_def Let_def split: prod.splits if_splits)
  then have keep: "ShouldKeepHash h (last root) mewl = Inr False" using removeLoop_removed by blast
  have roots: "[] \<notin> set (rootsOf mewl h)" "r \<in> set (rootsOf mewl h)"
    using ok \<open>r \<in> waiting spm' h\<close> by (auto simp: ewlOk_def waiting_def spm')
  then show "r \<noteq> [] \<and> last r = OldRoot \<and> last root = OldRoot" using keep ShouldKeepHash_roots [OF roots(1)] by auto
qed

lemma cancelPrune_ok:
  assumes "spmOk spm"
  shows "spmOk (cancelPrune root spm)" "waiting (cancelPrune root spm) h \<subseteq> waiting spm h"
proof -
  obtain H mewl where e: "Evict root (dbEvictionWaitingList spm) = (H, mewl)" by force
  show "spmOk (cancelPrune root spm)" "waiting (cancelPrune root spm) h \<subseteq> waiting spm h"
    using Evict_ok [OF e] assms by (simp_all add: cancelPrune_def e spmOk_def waiting_def)
qed

lemma resolve_ok:
  assumes "resolveBufferedHashes env roots spm = (removed, spm')" and "spmOk spm"
  shows "spmOk spm' \<and> waiting spm' h \<subseteq> waiting spm h \<and> (h \<in> set removed \<longrightarrow> (\<forall>r\<in>waiting spm' h. r \<noteq> [] \<and> last r = OldRoot))"
  using assms
proof (induction roots arbitrary: spm removed)
  case Nil
  then show ?case by simp
next
  case (Cons rootHash rest)
  consider (none) "resolveBufferedHashes env rest spm = (removed, spm')"
    | (prune) rem1 spm1 rem2 where "prune env (butlast rootHash) spm = (rem1, spm1)"
        "resolveBufferedHashes env rest spm1 = (rem2, spm')" "removed = rem1 @ rem2"
    | (cancel) "resolveBufferedHashes env rest (cancelPrune (butlast rootHash) spm) = (removed, spm')"
    using Cons.prems(1) by (auto split: if_splits prod.splits)
  then show ?case
  proof cases
    case none
    then show ?thesis using Cons by blast
  next
    case prune
    note ok = prune_ok [OF prune(1) Cons.prems(2)]
    show ?thesis using Cons.IH [OF prune(2) ok(1)] ok(2,4) [of h] prune(3) by auto
  next
    case cancel
    note ok = cancelPrune_ok [OF Cons.prems(2), of "butlast rootHash"]
    show ?thesis using Cons.IH [OF cancel ok(1)] ok(2) by blast
  qed
qed

lemma PruneTrie_ok:
  assumes "PruneTrie env root identifier spm = (removed, spm')" and "spmOk spm"
  shows "spmOk spm'"
    and "h \<in> set removed \<Longrightarrow> r \<in> waiting spm' h \<Longrightarrow> r \<noteq> [] \<and> last r = OldRoot \<and> (pbBuffer (spmBuffer spm) = [] \<longrightarrow> identifier = OldRoot)"
proof -
  let ?s = "spm\<lparr>spmBuffer := (spmBuffer spm)\<lparr>pbBuffer := []\<rparr>\<rparr>"
  have s: "spmOk ?s" using assms(2) by (simp add: spmOk_def)
  consider (blocked) "removed = []" "spmOk spm'"
    | (run) rem1 spm1 rem2 where "resolveBufferedHashes env (pbBuffer (spmBuffer spm)) ?s = (rem1, spm1)"
        "prune env (root @ [identifier]) spm1 = (rem2, spm')" "removed = rem1 @ rem2"
  proof (cases "peIsPruningBlocked env")
    case True
    then have "removed = [] \<and> spmOk spm'" using assms cancelPrune_ok [OF assms(2)]
      by (auto simp: PruneTrie_def Let_def spmOk_def split: if_splits)
    then show ?thesis using blocked by blast
  next
    case False
    then show ?thesis using assms(1) run by (auto simp: PruneTrie_def Let_def RemoveAll_def split: prod.splits)
  qed
  then have "spmOk spm' \<and> (h \<in> set removed \<longrightarrow> r \<in> waiting spm' h \<longrightarrow> r \<noteq> [] \<and> last r = OldRoot \<and> (pbBuffer (spmBuffer spm) = [] \<longrightarrow> identifier = OldRoot))"
  proof cases
    case blocked
    then show ?thesis by simp
  next
    case run
    note b = resolve_ok [OF run(1) s, of h]
    have p: "spmOk spm'" "waiting spm' h \<subseteq> waiting spm1 h" "h \<in> set rem2 \<longrightarrow> r \<in> waiting spm' h \<longrightarrow> r \<noteq> [] \<and> last r = OldRoot \<and> identifier = OldRoot"
      using prune_ok [OF run(2)] b by auto
    have "pbBuffer (spmBuffer spm) = [] \<longrightarrow> rem1 = []" using run(1) by auto
    then show ?thesis using p b run(3) by auto
  qed
  then show "spmOk spm'" "h \<in> set removed \<Longrightarrow> r \<in> waiting spm' h \<Longrightarrow> r \<noteq> [] \<and> last r = OldRoot \<and> (pbBuffer (spmBuffer spm) = [] \<longrightarrow> identifier = OldRoot)"
    by simp_all
qed

lemma mark_ok: "spmOk spm \<Longrightarrow> finite H \<Longrightarrow> spmOk (markForEviction r H i spm)"
  by (simp add: markForEviction_def spmOk_def ewlOk_put)

section \<open>The runs\<close>

text \<open>A manager as it was created, after any sequence of its operations; the trie storage manager may answer differently at each.\<close>

inductive pmReach :: "storagePruningManager \<Rightarrow> bool" where
  created: "NewMemoryEvictionWaitingList rootHashes hashes = Inr mewl \<Longrightarrow> pmReach (NewStoragePruningManager mewl pruningBufferLen)"
| marked: "pmReach spm \<Longrightarrow> finite oldHashes \<Longrightarrow> finite newHashes \<Longrightarrow> pmReach (MarkForEviction oldRoot newRoot oldHashes newHashes spm)"
| pruned: "pmReach spm \<Longrightarrow> PruneTrie env rootHash identifier spm = (removed, spm') \<Longrightarrow> pmReach spm'"
| cancelled: "pmReach spm \<Longrightarrow> pmReach (CancelPrune env rootHash identifier spm)"

lemma pmReach_ok: "pmReach spm \<Longrightarrow> spmOk spm"
proof (induction rule: pmReach.induct)
  case (created rootHashes hashes mewl pruningBufferLen)
  then have "ewlCache mewl = Map.empty" "reversedCache mewl = Map.empty" by (auto simp: NewMemoryEvictionWaitingList_def split: if_splits)
  then show ?case by (simp add: spmOk_def NewStoragePruningManager_def ewlOk_def listedBy_def rootsOf_def)
next
  case (marked spm oldHashes newHashes oldRoot newRoot)
  then show ?case by (simp add: MarkForEviction_def removeDuplicatedKeys_def mark_ok)
next
  case (pruned spm env root i removed spm')
  then show ?case using PruneTrie_ok(1) by blast
next
  case (cancelled spm env root i)
  then show ?case using cancelPrune_ok(1) by (simp add: CancelPrune_def Let_def) (simp add: spmOk_def)
qed

section \<open>One mark and one prune\<close>

text \<open>The database the manager works on, when nothing blocks it: every removal succeeds and a loop visits each hash of a map.\<close>

definition pruneRuns :: "pruneEnv \<Rightarrow> bool" where
  "pruneRuns env \<longleftrightarrow> \<not> peIsPruningBlocked env \<and> peIsPruningEnabled env \<and> (\<forall>h. peRemove env h = None) \<and>
     (\<forall>H. finite H \<longrightarrow> set (peOrder env H) = H \<and> distinct (peOrder env H))"

lemma prune_runs:
  assumes "pruneRuns env" and "spmOk spm" and "Evict root (dbEvictionWaitingList spm) = (H, mewl)" and "root \<noteq> []"
  shows "prune env root spm = (filter (\<lambda>h. \<not> (\<exists>r\<in>set (rootsOf mewl h). \<not> (last r = OldRoot \<and> last root = OldRoot))) (peOrder env H),
    spm\<lparr>dbEvictionWaitingList := mewl\<rparr>)"
proof -
  have "\<And>h. [] \<notin> set (rootsOf mewl h)" using Evict_ok(1) [OF assms(3)] assms(2) by (simp add: spmOk_def ewlOk_def)
  then show ?thesis using assms by (simp add: prune_def removeFromDb_def pruneRuns_def removeLoop_all)
qed

lemma PruneTrie_runs:
  assumes "pruneRuns env" and "pbBuffer (spmBuffer spm) = []"
  shows "PruneTrie env root i spm = prune env (root @ [i]) spm"
proof -
  have "RemoveAll (spmBuffer spm) = ([], spmBuffer spm)" using assms(2) by (simp add: RemoveAll_def)
  then show ?thesis using assms(1) by (simp add: PruneTrie_def pruneRuns_def split: prod.splits)
qed

lemma mark_entry:
  assumes "ewlCache (dbEvictionWaitingList (markForEviction r H i spm)) (r @ [i]) = Some e"
    and "ewlCache (dbEvictionWaitingList spm) (r @ [i]) = None"
  shows "numReferences e = 1" and "rhHashes e = H"
  using assms by (auto simp: markForEviction_def ewlPut_def Let_def putInCache_def putInReversedCache_def split: if_splits)

lemma mark_other:
  assumes "ewlCache (dbEvictionWaitingList spm) k = None" and "k \<noteq> r @ [i]"
  shows "ewlCache (dbEvictionWaitingList (markForEviction r H i spm)) k = None"
  using assms by (auto simp: markForEviction_def ewlPut_def Let_def putInCache_def putInReversedCache_def split: option.splits)

lemma buffer_mark [simp]: "spmBuffer (MarkForEviction oldRoot newRoot oldH newH spm) = spmBuffer spm"
  by (simp add: MarkForEviction_def removeDuplicatedKeys_def markForEviction_def)

section \<open>A second mark\<close>

text \<open>A hash that the reversed cache lists for a root whose entry, if it has one, does not list the hash.\<close>

definition strayIn :: "bytes \<Rightarrow> bytes \<Rightarrow> storagePruningManager \<Rightarrow> bool" where
  "strayIn root h spm \<longleftrightarrow> root \<in> set (rootsOf (dbEvictionWaitingList spm) h) \<and> root \<notin> waiting spm h"

text \<open>Prunes and cancelled prunes, and what they remove from the database.\<close>

inductive prunings :: "storagePruningManager \<Rightarrow> bytes list \<Rightarrow> storagePruningManager \<Rightarrow> bool" where
  nothing: "prunings spm [] spm"
| pruned: "PruneTrie env rootHash i spm = (removed, spm1) \<Longrightarrow> prunings spm1 removed' spm2 \<Longrightarrow> prunings spm (removed @ removed') spm2"
| cancelled: "prunings (CancelPrune env rootHash i spm) removed' spm2 \<Longrightarrow> prunings spm removed' spm2"

lemma stray_kept:
  assumes "strayIn root h spm" and "spmOk spm" and "last root = NewRoot"
  shows "ShouldKeepHash h i (dbEvictionWaitingList spm) = Inr True"
proof -
  have "[] \<notin> set (rootsOf (dbEvictionWaitingList spm) h)" using assms(2) by (simp add: spmOk_def ewlOk_def)
  moreover have "last root \<noteq> OldRoot" using assms(3) by (simp add: OldRoot_def NewRoot_def)
  ultimately show ?thesis using assms(1) by (auto simp: ShouldKeepHash_roots strayIn_def)
qed

lemma stray_Evict:
  assumes "strayIn root h spm" and "spmOk spm" and "Evict r (dbEvictionWaitingList spm) = (H, mewl)"
  shows "strayIn root h (spm\<lparr>dbEvictionWaitingList := mewl\<rparr>)"
proof -
  let ?m = "dbEvictionWaitingList spm"
  have w: "listedBy mewl h \<subseteq> listedBy ?m h" using Evict_ok(2) [OF assms(3)] assms(2) by (simp add: spmOk_def)
  have "root \<in> set (rootsOf mewl h)"
  proof (cases "\<exists>e. ewlCache ?m r = Some e \<and> numReferences e \<le> 1")
    case False
    then have "rootsOf mewl = rootsOf ?m" using assms(3) by (auto simp: Evict_def split: option.splits if_splits)
    then show ?thesis using assms(1) by (simp add: strayIn_def)
  next
    case True
    then obtain e where e: "ewlCache ?m r = Some e" "numReferences e \<le> 1" by blast
    then have m: "mewl = removeFromReversedCache r (rhHashes e) (?m\<lparr>ewlCache := (ewlCache ?m)(r := None)\<rparr>)" using assms(3) by (auto simp: Evict_def)
    have d: "distinct (rootsOf (?m\<lparr>ewlCache := (ewlCache ?m)(r := None)\<rparr>) h)" using assms(2) by (simp add: spmOk_def ewlOk_def)
    have "\<not> (h \<in> rhHashes e \<and> r = root)" using assms(1) e(1) by (auto simp: strayIn_def waiting_def listedBy_def)
    then show ?thesis using assms(1) unfolding m rootsOf_remove(1) [OF d] by (auto simp: strayIn_def)
  qed
  then show ?thesis using w assms(1) by (auto simp: strayIn_def waiting_def)
qed

lemma stray_prune:
  assumes "prune env r spm = (removed, spm')" and "strayIn root h spm" and "spmOk spm" and "last root = NewRoot"
  shows "strayIn root h spm'" and "h \<notin> set removed" and "spmOk spm'"
proof -
  obtain H mewl where e: "Evict r (dbEvictionWaitingList spm) = (H, mewl)" by force
  have spm': "spm' = spm\<lparr>dbEvictionWaitingList := mewl\<rparr>" using assms(1) e by (auto simp: prune_def removeFromDb_def Let_def split: prod.splits if_splits)
  show ok: "spmOk spm'" by (rule prune_ok(1) [OF assms(1,3)])
  show s: "strayIn root h spm'" unfolding spm' by (rule stray_Evict [OF assms(2,3) e])
  show "h \<notin> set removed"
  proof
    assume "h \<in> set removed"
    then have "h \<in> set (snd (removeLoop env mewl (last r) (peOrder env H)))"
      using assms(1) e by (auto simp: prune_def removeFromDb_def Let_def split: prod.splits if_splits)
    then have "ShouldKeepHash h (last r) mewl = Inr False" using removeLoop_removed by blast
    then show False using stray_kept [OF s ok assms(4)] by (simp add: spm')
  qed
qed

lemma stray_cancel: "strayIn root h spm \<Longrightarrow> spmOk spm \<Longrightarrow> strayIn root h (cancelPrune r spm) \<and> spmOk (cancelPrune r spm)"
  using stray_Evict [of root h spm r] cancelPrune_ok(1) by (metis cancelPrune_def prod.exhaust_sel)

lemma stray_buffer [simp]: "strayIn root h (spm\<lparr>spmBuffer := b\<rparr>) = strayIn root h spm" "spmOk (spm\<lparr>spmBuffer := b\<rparr>) = spmOk spm"
  by (simp_all add: strayIn_def waiting_def spmOk_def)

lemma stray_resolve:
  assumes "resolveBufferedHashes env roots spm = (removed, spm')" and "strayIn root h spm" and "spmOk spm" and "last root = NewRoot"
  shows "strayIn root h spm' \<and> h \<notin> set removed \<and> spmOk spm'"
  using assms(1-3)
proof (induction roots arbitrary: spm removed)
  case (Cons rootHash rest)
  consider (none) "resolveBufferedHashes env rest spm = (removed, spm')"
    | (prune) rem1 spm1 rem2 where "prune env (butlast rootHash) spm = (rem1, spm1)"
        "resolveBufferedHashes env rest spm1 = (rem2, spm')" "removed = rem1 @ rem2"
    | (cancel) "resolveBufferedHashes env rest (cancelPrune (butlast rootHash) spm) = (removed, spm')"
    using Cons.prems(1) by (auto split: if_splits prod.splits)
  then show ?case
  proof cases
    case prune
    then show ?thesis using Cons.IH [OF prune(2)] stray_prune [OF prune(1) Cons.prems(2,3) assms(4)] by auto
  qed (use Cons stray_cancel in blast)+
qed simp

lemma stray_PruneTrie:
  assumes "PruneTrie env rootHash i spm = (removed, spm')" and "strayIn root h spm" and "spmOk spm" and "last root = NewRoot"
  shows "strayIn root h spm' \<and> h \<notin> set removed \<and> spmOk spm'"
proof (cases "peIsPruningBlocked env")
  case True
  then show ?thesis using assms(1-3) stray_cancel by (auto simp: PruneTrie_def Let_def split: if_splits)
next
  case False
  then obtain rem1 spm1 rem2 where "resolveBufferedHashes env (pbBuffer (spmBuffer spm)) (spm\<lparr>spmBuffer := (spmBuffer spm)\<lparr>pbBuffer := []\<rparr>\<rparr>) = (rem1, spm1)"
    "prune env (rootHash @ [i]) spm1 = (rem2, spm')" "removed = rem1 @ rem2"
    using assms(1) by (auto simp: PruneTrie_def Let_def RemoveAll_def split: prod.splits)
  then show ?thesis using stray_resolve [of env _ _ rem1 spm1 root h] stray_prune [of env _ spm1 rem2 spm' root h] assms(2-4) by simp
qed

lemma stray_prunings:
  assumes "prunings spm removed spm'" and "strayIn root h spm" and "spmOk spm" and "last root = NewRoot"
  shows "strayIn root h spm' \<and> h \<notin> set removed \<and> spmOk spm'"
  using assms(1-3)
proof (induction rule: prunings.induct)
  case (pruned env rootHash i spm removed spm1 removed' spm2)
  then show ?case using stray_PruneTrie [OF pruned.hyps(1) pruned.prems assms(4)] by auto
next
  case (cancelled env rootHash i spm removed' spm2)
  have "strayIn root h (CancelPrune env rootHash i spm) \<and> spmOk (CancelPrune env rootHash i spm)"
    using stray_cancel cancelled.prems by (simp add: CancelPrune_def Let_def)
  then show ?case using cancelled.IH by blast
qed simp

lemma second_mark_stray:
  assumes "newRoot \<noteq> oldRoot" and "ewlCache (dbEvictionWaitingList spm) (newRoot @ [NewRoot]) = Some e" and "h \<in> newH - oldH" and "h \<notin> rhHashes e" and "newRoot \<noteq> []"
    and "spm1 = MarkForEviction oldRoot newRoot oldH newH spm" and "ewlCache (dbEvictionWaitingList spm1) (newRoot @ [NewRoot]) \<noteq> None"
  shows "strayIn (newRoot @ [NewRoot]) h spm1"
    and "ewlCache (dbEvictionWaitingList spm1) (newRoot @ [NewRoot]) = Some (e\<lparr>numReferences := numReferences e + 1\<rparr>)"
proof -
  let ?k = "newRoot @ [NewRoot]" and ?o = "oldRoot @ [OldRoot]" and ?m = "dbEvictionWaitingList spm"
  let ?put = "\<lambda>k H m. putInCache k H (putInReversedCache k H m)"
  have ne: "?o \<noteq> ?k" by (simp add: OldRoot_def NewRoot_def)
  let ?m1 = "?put ?k (newH - oldH) ?m"
  have mid: "dbEvictionWaitingList (markForEviction newRoot (newH - oldH) NewRoot spm) = (if cachesFull ?m1 then ?m1\<lparr>ewlCache := Map.empty, reversedCache := Map.empty\<rparr> else ?m1)"
    using assms(3,5) by (auto simp: markForEviction_def ewlPut_def Let_def)
  have spm1: "spm1 = markForEviction oldRoot (oldH - newH) OldRoot (markForEviction newRoot (newH - oldH) NewRoot spm)"
    using assms(1,6) by (simp add: MarkForEviction_def removeDuplicatedKeys_def)
  have other: "ewlCache (?put ?o H m) ?k = ewlCache m ?k" for H m
    using ne by (auto simp: putInCache_def putInReversedCache_def split: option.splits)
  have room: "\<not> cachesFull ?m1"
  proof
    assume "cachesFull ?m1"
    then have "ewlCache (dbEvictionWaitingList spm1) ?k = None"
      using other unfolding spm1 by (simp add: markForEviction_def [of oldRoot] mid ewlPut_def Let_def)
    then show False using assms(7) by contradiction
  qed
  consider "dbEvictionWaitingList spm1 = ?m1" | "dbEvictionWaitingList spm1 = ?put ?o (oldH - newH) ?m1"
    using room assms(7) unfolding spm1 by (auto simp: markForEviction_def [of oldRoot] mid ewlPut_def Let_def split: if_splits)
  then have "ewlCache (dbEvictionWaitingList spm1) ?k = ewlCache ?m1 ?k \<and> set (rootsOf ?m1 h) \<subseteq> set (rootsOf (dbEvictionWaitingList spm1) h)"
    by cases (auto simp: other rootsOf_put)
  moreover have "ewlCache ?m1 ?k = Some (e\<lparr>numReferences := numReferences e + 1\<rparr>)" using assms(2) by (simp add: putInCache_def putInReversedCache_def)
  moreover have "?k \<in> set (rootsOf ?m1 h)" using assms(3) by (simp add: rootsOf_put)
  ultimately show "ewlCache (dbEvictionWaitingList spm1) ?k = Some (e\<lparr>numReferences := numReferences e + 1\<rparr>)" "strayIn ?k h spm1"
    using assms(4) by (auto simp: strayIn_def waiting_def listedBy_def)
qed

section \<open>An example\<close>

text \<open>Two commits take out the same node.\<close>

definition exPruneEnv :: pruneEnv where
  "exPruneEnv = \<lparr>peIsPruningBlocked = False, peIsPruningEnabled = True, peRemove = (\<lambda>h. None), peOrder = sorted_list_of_set\<rparr>"

definition exMewl :: memoryEvictionWaitingList where
  "exMewl = \<lparr>ewlCache = Map.empty, reversedCache = Map.empty, rootHashesSize = 10, hashesSize = 10\<rparr>"

definition exFresh :: storagePruningManager where
  "exFresh = NewStoragePruningManager exMewl 4"

definition exMarked :: storagePruningManager where
  "exMarked = MarkForEviction ''a'' ''b'' {''h''} {''k''} exFresh"

definition exMarkedTwice :: storagePruningManager where
  "exMarkedTwice = MarkForEviction ''c'' ''d'' {''h''} {''m''} exMarked"

definition exMarkedAgain :: storagePruningManager where
  "exMarkedAgain = MarkForEviction ''c'' ''b'' {} {''m''} exMarked"

lemma putInReversedCache_single:
  "putInReversedCache r {h} mewl = mewl\<lparr>reversedCache := (reversedCache mewl)(h \<mapsto>
     (case reversedCache mewl h of None \<Rightarrow> [r] | Some l \<Rightarrow> if r \<in> set l then l else l @ [r]))\<rparr>"
  by (auto simp: putInReversedCache_def fun_eq_iff split: option.splits)

lemma exMewl_new: "NewMemoryEvictionWaitingList 10 10 = Inr exMewl"
  by (simp add: NewMemoryEvictionWaitingList_def exMewl_def)

lemmas ex_defs = exMewl_def exFresh_def NewStoragePruningManager_def NewPruningBuffer_def MarkForEviction_def removeDuplicatedKeys_def markForEviction_def ewlPut_def Let_def
  putInReversedCache_single putInCache_def cachesFull_def OldRoot_def NewRoot_def

lemma exMarked_eq:
  "exMarked = exFresh\<lparr>dbEvictionWaitingList := exMewl\<lparr>ewlCache := [[CHR 0x62, CHR 0x01] \<mapsto> \<lparr>numReferences = 1, rhHashes = {''k''}\<rparr>, [CHR 0x61, CHR 0x00] \<mapsto> \<lparr>numReferences = 1, rhHashes = {''h''}\<rparr>],
     reversedCache := [''k'' \<mapsto> [[CHR 0x62, CHR 0x01]], ''h'' \<mapsto> [[CHR 0x61, CHR 0x00]]]\<rparr>\<rparr>"
  by (simp add: exMarked_def ex_defs)

lemma exMarkedTwice_eq:
  "exMarkedTwice = exFresh\<lparr>dbEvictionWaitingList := exMewl\<lparr>
     ewlCache := [[CHR 0x62, CHR 0x01] \<mapsto> \<lparr>numReferences = 1, rhHashes = {''k''}\<rparr>, [CHR 0x61, CHR 0x00] \<mapsto> \<lparr>numReferences = 1, rhHashes = {''h''}\<rparr>,
       [CHR 0x64, CHR 0x01] \<mapsto> \<lparr>numReferences = 1, rhHashes = {''m''}\<rparr>, [CHR 0x63, CHR 0x00] \<mapsto> \<lparr>numReferences = 1, rhHashes = {''h''}\<rparr>],
     reversedCache := [''k'' \<mapsto> [[CHR 0x62, CHR 0x01]], ''h'' \<mapsto> [[CHR 0x61, CHR 0x00], [CHR 0x63, CHR 0x00]], ''m'' \<mapsto> [[CHR 0x64, CHR 0x01]]]\<rparr>\<rparr>"
  by (simp add: exMarkedTwice_def exMarked_eq ex_defs fun_upd_twist)

lemma exReach: "pmReach exFresh" "pmReach exMarked" "pmReach exMarkedTwice"
proof -
  show f: "pmReach exFresh" using pmReach.created [OF exMewl_new] by (simp add: exFresh_def)
  show m: "pmReach exMarked" using pmReach.marked [OF f] by (simp add: exMarked_def)
  show "pmReach exMarkedTwice" using pmReach.marked [OF m] by (simp add: exMarkedTwice_def)
qed

lemma exPruneEnv_runs: "pruneRuns exPruneEnv"
  by (simp add: pruneRuns_def exPruneEnv_def)

lemma exFresh_buffer [simp]: "pbBuffer (spmBuffer exFresh) = []"
  by (simp add: exFresh_def NewStoragePruningManager_def NewPruningBuffer_def)

lemma exPruned:
  "PruneTrie exPruneEnv ''a'' OldRoot exMarkedTwice = ([''h''], exMarkedTwice\<lparr>dbEvictionWaitingList := exMewl\<lparr>
     ewlCache := [[CHR 0x62, CHR 0x01] \<mapsto> \<lparr>numReferences = 1, rhHashes = {''k''}\<rparr>, [CHR 0x64, CHR 0x01] \<mapsto> \<lparr>numReferences = 1, rhHashes = {''m''}\<rparr>, [CHR 0x63, CHR 0x00] \<mapsto> \<lparr>numReferences = 1, rhHashes = {''h''}\<rparr>],
     reversedCache := [''k'' \<mapsto> [[CHR 0x62, CHR 0x01]], ''h'' \<mapsto> [[CHR 0x63, CHR 0x00]], ''m'' \<mapsto> [[CHR 0x64, CHR 0x01]]]\<rparr>\<rparr>)"
proof -
  let ?k = "[CHR 0x61, CHR 0x00]"
  have ev: "Evict ?k (dbEvictionWaitingList exMarkedTwice) = ({''h''}, exMewl\<lparr>
     ewlCache := [[CHR 0x62, CHR 0x01] \<mapsto> \<lparr>numReferences = 1, rhHashes = {''k''}\<rparr>, [CHR 0x64, CHR 0x01] \<mapsto> \<lparr>numReferences = 1, rhHashes = {''m''}\<rparr>, [CHR 0x63, CHR 0x00] \<mapsto> \<lparr>numReferences = 1, rhHashes = {''h''}\<rparr>],
     reversedCache := [''k'' \<mapsto> [[CHR 0x62, CHR 0x01]], ''h'' \<mapsto> [[CHR 0x63, CHR 0x00]], ''m'' \<mapsto> [[CHR 0x64, CHR 0x01]]]\<rparr>)"
    by (simp add: exMarkedTwice_eq Evict_def removeFromReversedCache_def fun_eq_iff fun_upd_def)
  have b: "pbBuffer (spmBuffer exMarkedTwice) = []" by (simp add: exMarkedTwice_def exMarked_def)
  show ?thesis
    using PruneTrie_runs [OF exPruneEnv_runs b, of "''a''" OldRoot] prune_runs [OF exPruneEnv_runs pmReach_ok [OF exReach(3)] ev]
    by (simp add: OldRoot_def exPruneEnv_def rootsOf_def)
qed

section \<open>Properties\<close>

text \<open>
  C12. A hash that other states need is never removed. In every run of the manager, whatever blocks or fails in between: when a prune removes a hash from the database and an entry of the waiting list still
  lists that hash afterwards, then that entry is of an old root. When in addition no operation was waiting in the buffer, then the root that was pruned is an old one as well: pruning a new root, which is how
  a reverted block is cleaned up, removes only hashes that no other entry lists.
\<close>

theorem pruned_hash_not_needed:
  assumes "pmReach spm" and "PruneTrie env root i spm = (removed, spm')" and "h \<in> set removed"
    and "ewlCache (dbEvictionWaitingList spm') r = Some e" and "h \<in> rhHashes e"
  shows "r \<noteq> [] \<and> last r = OldRoot \<and> (pbBuffer (spmBuffer spm) = [] \<longrightarrow> i = OldRoot)"
proof -
  have "r \<in> waiting spm' h" using assms(4,5) by (auto simp: waiting_def listedBy_def)
  then show ?thesis using PruneTrie_ok(2) [OF assms(2) pmReach_ok [OF assms(1)] assms(3)] by blast
qed

theorem pruned_hash_not_needed_witness:
  "''h'' \<in> set (fst (PruneTrie exPruneEnv ''a'' OldRoot exMarkedTwice)) \<and> last [CHR 0x63, CHR 0x00] = OldRoot"
proof -
  obtain spm' where p: "PruneTrie exPruneEnv ''a'' OldRoot exMarkedTwice = ([''h''], spm')"
    and e: "ewlCache (dbEvictionWaitingList spm') [CHR 0x63, CHR 0x00] = Some \<lparr>numReferences = 1, rhHashes = {''h''}\<rparr>"
    using exPruned by simp
  show ?thesis using pruned_hash_not_needed [OF exReach(3) p _ e, of "''h''"] p by simp
qed

text \<open>
  C20. What a prune removes. When a commit replaced an old root by a new one, the old root had no entry before, and the mark did not empty the caches, then pruning the old root (not blocked, with an empty buffer
  and no failing removal) removes, each once, exactly the hashes that the commit took out and did not put in, except those that the reversed cache lists for a new root; and the entry is gone.
\<close>

theorem mark_then_prune:
  assumes "pmReach spm" and "finite oldH" and "finite newH" and "newRoot \<noteq> oldRoot" and "pruneRuns env" and "pbBuffer (spmBuffer spm) = []"
    and "ewlCache (dbEvictionWaitingList spm) (oldRoot @ [OldRoot]) = None"
    and "spm1 = MarkForEviction oldRoot newRoot oldH newH spm" and "ewlCache (dbEvictionWaitingList spm1) (oldRoot @ [OldRoot]) \<noteq> None"
    and "PruneTrie env oldRoot OldRoot spm1 = (removed, spm')"
  shows "set removed = {h \<in> oldH - newH. \<forall>r\<in>set (rootsOf (dbEvictionWaitingList spm1) h). last r = OldRoot} \<and> distinct removed \<and>
    ewlCache (dbEvictionWaitingList spm') (oldRoot @ [OldRoot]) = None"
proof -
  let ?k = "oldRoot @ [OldRoot]" and ?mid = "markForEviction newRoot (newH - oldH) NewRoot spm"
  have ok: "spmOk spm1" using pmReach_ok [OF pmReach.marked [OF assms(1-3)]] assms(8) by simp
  have spm1: "spm1 = markForEviction oldRoot (oldH - newH) OldRoot ?mid" using assms(4,8) by (simp add: MarkForEviction_def removeDuplicatedKeys_def)
  have "OldRoot \<noteq> NewRoot" by (simp add: OldRoot_def NewRoot_def)
  then have "ewlCache (dbEvictionWaitingList ?mid) ?k = None" using mark_other assms(7) by simp
  moreover obtain e where e: "ewlCache (dbEvictionWaitingList spm1) ?k = Some e" using assms(9) by auto
  ultimately have ent: "numReferences e = 1" "rhHashes e = oldH - newH" using mark_entry spm1 by blast+
  obtain mewl where ev: "Evict ?k (dbEvictionWaitingList spm1) = (oldH - newH, mewl)"
    and mewl: "mewl = removeFromReversedCache ?k (oldH - newH) ((dbEvictionWaitingList spm1)\<lparr>ewlCache := (ewlCache (dbEvictionWaitingList spm1))(?k := None)\<rparr>)"
    using e ent by (simp add: Evict_def)
  have d: "distinct (rootsOf ((dbEvictionWaitingList spm1)\<lparr>ewlCache := (ewlCache (dbEvictionWaitingList spm1))(?k := None)\<rparr>) h)" for h
    using ok by (simp add: spmOk_def ewlOk_def)
  have roots: "h \<in> oldH - newH \<Longrightarrow> (\<forall>r\<in>set (rootsOf mewl h). last r = OldRoot) = (\<forall>r\<in>set (rootsOf (dbEvictionWaitingList spm1) h). last r = OldRoot)" for h
    unfolding mewl rootsOf_remove(1) [OF d] by auto
  have run: "removed = filter (\<lambda>h. \<not> (\<exists>r\<in>set (rootsOf mewl h). \<not> last r = OldRoot)) (peOrder env (oldH - newH))" "spm' = spm1\<lparr>dbEvictionWaitingList := mewl\<rparr>"
    using assms(10) prune_runs [OF assms(5) ok ev] PruneTrie_runs [OF assms(5)] assms(6,8) by simp_all
  have order: "set (peOrder env (oldH - newH)) = oldH - newH" "distinct (peOrder env (oldH - newH))" using assms(2,5) by (simp_all add: pruneRuns_def)
  have "set removed = {h \<in> oldH - newH. \<forall>r\<in>set (rootsOf (dbEvictionWaitingList spm1) h). last r = OldRoot}" "distinct removed"
    using roots order by (auto simp: run(1))
  moreover have "ewlCache (dbEvictionWaitingList spm') ?k = None" by (simp add: run(2) mewl)
  ultimately show ?thesis by blast
qed

theorem mark_then_prune_witness:
  "set (fst (PruneTrie exPruneEnv ''a'' OldRoot exMarked)) = {''h''}"
proof -
  obtain removed spm' where p: "PruneTrie exPruneEnv ''a'' OldRoot exMarked = (removed, spm')" by force
  have "set removed = {h \<in> {''h''} - {''k''}. \<forall>r\<in>set (rootsOf (dbEvictionWaitingList exMarked) h). last r = OldRoot}"
    by (rule mark_then_prune [OF exReach(1) _ _ _ exPruneEnv_runs _ _ exMarked_def _ p, THEN conjunct1])
      (simp_all add: exMarked_eq, simp_all add: exFresh_def NewStoragePruningManager_def exMewl_def OldRoot_def)
  also have "\<dots> = {''h''}" by (auto simp: exMarked_eq rootsOf_def OldRoot_def)
  finally show ?thesis using p by simp
qed

text \<open>
  C40. A second mark under a new root that has an entry is not recorded. A comment says that writing at the same key overwrites the previous values. In fact, in every run, the entry keeps the hashes of the first
  mark and counts a second reference, while the reversed cache takes in the hashes of the second: a hash that only the second mark has is listed for the root, but its entry does not have it. From then on no sequence of prunes and cancelled prunes
  removes the hash or lets \<^verbatim>\<open>ShouldKeepHash\<close> release it, for either identifier, not even when the entry is gone. (It can be released when it is marked under the root once more, or when full caches are emptied.)
\<close>

theorem second_mark_is_lost:
  assumes "pmReach spm" and "finite oldH" and "finite newH" and "newRoot \<noteq> oldRoot" and "newRoot \<noteq> []"
    and "ewlCache (dbEvictionWaitingList spm) (newRoot @ [NewRoot]) = Some e" and "h \<in> newH - oldH" and "h \<notin> rhHashes e"
    and "spm1 = MarkForEviction oldRoot newRoot oldH newH spm" and "ewlCache (dbEvictionWaitingList spm1) (newRoot @ [NewRoot]) \<noteq> None"
    and "prunings spm1 removed spm2"
  shows "ewlCache (dbEvictionWaitingList spm1) (newRoot @ [NewRoot]) = Some (e\<lparr>numReferences := numReferences e + 1\<rparr>) \<and>
    h \<notin> set removed \<and> newRoot @ [NewRoot] \<notin> waiting spm2 h \<and> ShouldKeepHash h i (dbEvictionWaitingList spm2) = Inr True"
proof -
  have ok: "spmOk spm1" using pmReach_ok [OF pmReach.marked [OF assms(1-3)]] assms(9) by simp
  note mark = second_mark_stray [OF assms(4,6-8,5,9,10)]
  have s: "strayIn (newRoot @ [NewRoot]) h spm2" "h \<notin> set removed" "spmOk spm2"
    using stray_prunings [OF assms(11) mark(1) ok] by simp_all
  show ?thesis using mark(2) s stray_kept [OF s(1,3)] by (simp add: strayIn_def)
qed

theorem second_mark_is_lost_witness:
  "''m'' \<notin> set (fst (PruneTrie exPruneEnv ''b'' NewRoot exMarkedAgain)) \<and>
   ShouldKeepHash ''m'' OldRoot (dbEvictionWaitingList (snd (PruneTrie exPruneEnv ''b'' NewRoot (snd (PruneTrie exPruneEnv ''b'' NewRoot exMarkedAgain))))) = Inr True"
proof -
  obtain r1 s1 where p1: "PruneTrie exPruneEnv ''b'' NewRoot exMarkedAgain = (r1, s1)" by force
  obtain r2 s2 where p2: "PruneTrie exPruneEnv ''b'' NewRoot s1 = (r2, s2)" by force
  have run: "prunings exMarkedAgain (r1 @ r2 @ []) s2" by (intro prunings.pruned [OF p1] prunings.pruned [OF p2] prunings.nothing)
  have e: "ewlCache (dbEvictionWaitingList exMarked) (''b'' @ [NewRoot]) = Some \<lparr>numReferences = 1, rhHashes = {''k''}\<rparr>"
    by (simp add: exMarked_eq NewRoot_def)
  have k: "ewlCache (dbEvictionWaitingList exMarkedAgain) (''b'' @ [NewRoot]) \<noteq> None"
    by (simp add: exMarkedAgain_def exMarked_eq ex_defs)
  show ?thesis using second_mark_is_lost [OF exReach(2) _ _ _ _ e _ _ exMarkedAgain_def k run, of "''m''" OldRoot] p1 p2 by simp
qed

end
