(* ===== verification/Spec2Isabelle.thy ===== *)
theory Spec2Isabelle
  imports EEIProperties WaitingListProperties StakingProperties TrieProperties AccountsProperties ShufflerProperties CoordinatorProperties ForkProperties PruningProperties
begin

text \<open>
  Verification of the core of the MultiversX node: the system smart contracts that decide which nodes
  validate, and the data structures below them.

  \<^bold>\<open>The program.\<close> The metachain of the node runs contracts that are written in Go instead of bytecode. The system
  virtual machine (\<^verbatim>\<open>src/vm/process/systemVM.go\<close>) prepares a context (\<^verbatim>\<open>vmContext\<close>,
  \<^verbatim>\<open>src/vm/systemSmartContracts/eei.go\<close>), finds the contract and calls its \<^verbatim>\<open>Execute\<close>; the context buffers storage
  writes, transfers, returned data, messages and gas, lets a contract call another one, and is turned into the output of
  the call. The staking contract (\<^verbatim>\<open>staking.go\<close>, \<^verbatim>\<open>stakingWaitingList.go\<close>, \<^verbatim>\<open>stakingSaveLoad.go\<close>) keeps, in
  the storage of that context, one record per node (a BLS key), a record of counters, and the waiting list: a doubly linked list whose elements and
  whose header are storage entries, with the nodes that came back from jail before the others.
  The state of the chain (accounts, their data, peers) is kept in Merkle Patricia tries (\<^verbatim>\<open>src/trie\<close>): a map whose root hash goes into the block headers, with nodes that are loaded
  from a database when they are needed and written to it by a commit.
  The accounts database (\<^verbatim>\<open>src/state\<close>) keeps accounts and contract code in such a trie, and the data of every account in a trie of its own; a journal lets the processing of
  transactions go back when one fails.
  The validator shuffler (\<^verbatim>\<open>src/sharding/nodesCoordinator\<close>) decides at the start of an epoch which node validates in which shard; the nodes coordinator keeps these lists for the last epochs
  and draws from them the consensus group of every round, with chances that follow from the ratings (\<^verbatim>\<open>src/process/rating\<close>).
  The fork detector (\<^verbatim>\<open>src/process/sync\<close>) keeps the headers that a node has seen and says which block is final and where the node has to go back; when a block is final the pruning manager
  (\<^verbatim>\<open>src/state/storagePruningManager\<close>) removes the trie nodes that only older states need.

  \<^bold>\<open>Theories.\<close>
  \<^item> \<^verbatim>\<open>Prelude\<close>: byte strings, Go slices and \<^verbatim>\<open>copy\<close>, big integers as bytes, decimal and hexadecimal text, the state monad with
    errors (\<^verbatim>\<open>tryE\<close>), and Hoare triples over it (\<^verbatim>\<open>triple\<close>).
  \<^item> \<^verbatim>\<open>EEI\<close>: \<^verbatim>\<open>eei.go\<close>, \<^verbatim>\<open>CheckIfNil\<close> of \<^verbatim>\<open>common.go\<close> and the two run functions of \<^verbatim>\<open>systemVM.go\<close>. The record \<^verbatim>\<open>vmContext\<close> holds the fields
    that change; \<^verbatim>\<open>eeiEnv\<close> holds what is fixed when the context is created and the functions of other repositories that are called. Go maps
    are references: the storage updates are kept in an explicit store of maps, so that the sharing of a map by two contexts is part of the model.
    The locale \<^verbatim>\<open>contract_storage\<close> is the interface of a storage, interpreted on the storage of one contract and on that of all.
  \<^item> \<^verbatim>\<open>EEIProperties\<close>: storage, transfers, gas, failed calls, fresh contexts, nested calls.
  \<^item> \<^verbatim>\<open>StakingData\<close>: the records of \<^verbatim>\<open>staking.pb.go\<close>, the configuration, and \<^verbatim>\<open>stakingSaveLoad.go\<close> with its three layouts. The marshaller is
    a parameter; \<^verbatim>\<open>codec_ok\<close> says that what it writes it reads back. \<^verbatim>\<open>Codec\<close> gives a concrete one, and the configuration of the examples.
  \<^item> \<^verbatim>\<open>WaitingList\<close>: the list operations of \<^verbatim>\<open>stakingWaitingList.go\<close>. \<^verbatim>\<open>WaitingQueue\<close> relates the stored list to a queue of two classes
    (\<^verbatim>\<open>wl_repr\<close>, list segments \<^verbatim>\<open>dll\<close>); the locale \<^verbatim>\<open>waiting_queue\<close> is the contract of the queue, interpreted on the operations.
    \<^verbatim>\<open>WaitingListProperties\<close>: refinement, simulation of sequences, round trip, traversal.
  \<^item> \<^verbatim>\<open>StakingSC\<close>: all functions of the staking contract that \<^verbatim>\<open>Execute\<close> reaches, with every early return and message.
    \<^verbatim>\<open>StakingInvariant\<close>: the abstract state \<^verbatim>\<open>sview\<close> (queue, data of the nodes, counter), the invariant \<^verbatim>\<open>ainv\<close> and its preservation by every
    function. \<^verbatim>\<open>StakingRuns\<close>: what the main functions do on an abstract state. \<^verbatim>\<open>StakingProperties\<close>: the properties of the contract.
  \<^item> \<^verbatim>\<open>FieldCodec\<close>: the format of the messages of the concrete marshallers.
  \<^item> \<^verbatim>\<open>TrieNodes\<close>, \<^verbatim>\<open>TrieOps\<close>, \<^verbatim>\<open>TrieHash\<close>: the nodes of the Merkle Patricia trie (\<^verbatim>\<open>src/trie/node.go\<close>, \<^verbatim>\<open>leafNode.go\<close>, \<^verbatim>\<open>extensionNode.go\<close>, \<^verbatim>\<open>branchNode.go\<close>) as a
    datatype with one constructor per kind of node, each with its record of encoded data, its children in memory and its \<^verbatim>\<open>baseNode\<close> (hash and dirty flag). The methods of the three kinds
    are definitions with the kind as a prefix (\<^verbatim>\<open>branchNode_insert\<close>); the interface method is the function that dispatches.
    \<^verbatim>\<open>PatriciaMerkleTrie\<close>: \<^verbatim>\<open>src/trie/patriciaMerkleTrie.go\<close>.
  \<^item> \<^verbatim>\<open>TrieSpec\<close>: what nodes stand for, a tree without hashes and flags (\<^verbatim>\<open>ptrie\<close>), its map (\<^verbatim>\<open>plookup\<close>), and the canonical form (\<^verbatim>\<open>canon\<close>), in which every map has one tree.
    \<^verbatim>\<open>TrieRep\<close>: the relation \<^verbatim>\<open>rep\<close> between a node, with children in memory or in the database, and its tree, and the hash of a tree.
    \<^verbatim>\<open>TrieCorrect\<close>: reading, insertion and deletion. \<^verbatim>\<open>TrieCommit\<close>: hashing, collapsing, commit. \<^verbatim>\<open>TrieProof\<close>: Merkle proofs, injectivity of hashes.
    \<^verbatim>\<open>TrieMap\<close>: the operations of the trie on the map it \<^verbatim>\<open>holds\<close>; the locales \<^verbatim>\<open>simulation\<close> and \<^verbatim>\<open>authenticated\<close> (a digest that the abstract value determines) are interpreted on
    them. \<^verbatim>\<open>TrieExample\<close>: a concrete marshaller and hasher. \<^verbatim>\<open>TrieProperties\<close>: the properties of the trie.
  \<^item> \<^verbatim>\<open>AccountsData\<close>: user accounts and their data (\<^verbatim>\<open>src/state/accounts/userAccount.go\<close>, \<^verbatim>\<open>trackableDataTrie.go\<close>, \<^verbatim>\<open>dataTriesHolder.go\<close>). Accounts and data tries are shared through
    Go pointers, so the state has a heap of each. \<^verbatim>\<open>AccountsDB\<close>: \<^verbatim>\<open>src/state/accountsDB.go\<close> and \<^verbatim>\<open>journalEntries.go\<close>: loading, saving and removing accounts, the shared code entries
    with their counters of references, the journal and its reversal, commit.
    \<^verbatim>\<open>AccountsView\<close>: the maps an accounts database stands for (\<^verbatim>\<open>adbAbs\<close>, \<^verbatim>\<open>view\<close>) and the rules for operations on them (\<^verbatim>\<open>runs\<close>). \<^verbatim>\<open>AccountsTries\<close>: the data tries.
    \<^verbatim>\<open>AccountsSave\<close>: saving data and code. \<^verbatim>\<open>AccountsRevert\<close>: what each journal entry undoes. \<^verbatim>\<open>AccountsOps\<close>, \<^verbatim>\<open>AccountsLoad\<close>: saving, loading and removing an account, the counters of
    references. \<^verbatim>\<open>AccountsRuns\<close>: sequences of calls by a client, with groups that are undone when one of their calls fails, as transactions are. \<^verbatim>\<open>AccountsReads\<close>: reading saved data.
    \<^verbatim>\<open>AccountsExample\<close>: a concrete marshaller and hasher. \<^verbatim>\<open>AccountsProperties\<close>: the properties of the accounts database.
  \<^item> \<^verbatim>\<open>ValidatorShuffler\<close>: \<^verbatim>\<open>src/sharding/nodesCoordinator/hashValidatorShuffler.go\<close> and \<^verbatim>\<open>validatorDistributor.go\<close>: at the start of an epoch the shuffler (\<^verbatim>\<open>UpdateNodeLists\<close>) takes
    leaving nodes out of the lists of the shards, shuffles nodes out, fills the eligible lists and distributes nodes over the waiting lists. Every loop over a Go map takes the order of its keys as an argument.
    \<^verbatim>\<open>ShufflerLemmas\<close>, \<^verbatim>\<open>ShufflerDistribution\<close> (the locale \<^verbatim>\<open>validators_distributor\<close>, interpreted on both distributors), \<^verbatim>\<open>ShufflerRun\<close>, \<^verbatim>\<open>ShufflerCorrect\<close>: what each helper and the
    composed run do to the multisets of public keys. \<^verbatim>\<open>ShufflerProperties\<close>: the properties of the shuffler.
  \<^item> \<^verbatim>\<open>ConsensusSelection\<close>: the selection of validators by weight (\<^verbatim>\<open>selectionBasedProvider.go\<close>, \<^verbatim>\<open>expandedListSampling.go\<close>) and its equality with a procedure that cuts the list.
    \<^verbatim>\<open>NodesCoordinator\<close>, \<^verbatim>\<open>CoordinatorEpochs\<close>: the nodes coordinator (\<^verbatim>\<open>indexHashedNodesCoordinator*.go\<close>): configurations per epoch, consensus groups and their cache, the start of an epoch, which calls the
    shuffler, and the state on disk. \<^verbatim>\<open>CoordinatorGroups\<close>: the locale \<^verbatim>\<open>weighted_helper\<close> (the part that a rater replaces), the reachable coordinators and their invariant.
    \<^verbatim>\<open>CoordinatorRegistry\<close>: what is read back from disk. \<^verbatim>\<open>CoordinatorProperties\<close>: the properties of the coordinator.
  \<^item> \<^verbatim>\<open>Rating\<close>: \<^verbatim>\<open>src/process/rating\<close>: ratings, chances, rating steps, and their properties.
  \<^item> \<^verbatim>\<open>ForkDetector\<close>: \<^verbatim>\<open>src/process/sync/*ForkDetector.go\<close>: the headers a node has received, processed or learnt to be notarized, the checkpoints, and whether there is a fork.
    \<^verbatim>\<open>ForkChoice\<close>: a specification of \<^verbatim>\<open>CheckFork\<close> on sets, without an order. \<^verbatim>\<open>ForkFinality\<close>: the calls as a step relation (\<^verbatim>\<open>fdStep\<close>) and the invariant.
    \<^verbatim>\<open>ForkSteps\<close>: every step keeps it. \<^verbatim>\<open>ForkProperties\<close>: the properties of the fork detector.
  \<^item> \<^verbatim>\<open>StatePruning\<close>: \<^verbatim>\<open>src/state/storagePruningManager\<close>: which nodes of old tries are removed from the database, and when. \<^verbatim>\<open>PruningProperties\<close>: the invariant of the eviction waiting
    list, the runs of the manager (\<^verbatim>\<open>pmReach\<close>), and the properties of pruning.
  \<^bold>\<open>Bounds and loops.\<close> Integers have the width of the source: 64-bit words for nonces, counters (signed) and gas, 32-bit words for epochs and the
  length of the waiting list; stakes are unbounded like \<^verbatim>\<open>big.Int\<close>. The loops over the waiting list run while a key is left and an index is
  at most the length of the list; the recursion takes the length in its header as fuel, which is exactly the number of turns the loop can make. Where a property
  needs that a counter does not wrap, the bound is a hypothesis.
  Get, insert, delete and the loop of \<^verbatim>\<open>GetProof\<close> follow a path whose nodes are loaded from the database on the way; their first argument bounds the depth, and the properties show that
  one more than the number of nibbles of the key (\<^verbatim>\<open>enoughFuel\<close>) is enough. Keys inside the trie are lists of natural numbers; that they are nibbles is proved, not assumed. A Go panic
  is the error \<^verbatim>\<open>Panic\<close>. Hashing and commit only visit nodes in memory and are structural.
  The accounts database uses \<^verbatim>\<open>keyFuel\<close>, the same bound for the key of each call; the list of all hashes of a removed data trie takes its bound from \<^verbatim>\<open>maxDepth\<close>, and the properties hold
  whether or not it is enough, since a removal that fails is undone.
  \<^bold>\<open>Parameters.\<close> The marshaller, the argument parser, the accounts, the shard coordinator and the constants of other repositories are fields of
  \<^verbatim>\<open>eeiEnv\<close> and \<^verbatim>\<open>Marshalizer\<close>. A \<^verbatim>\<open>nil\<close> slice or pointer is \<^const>\<open>None\<close> where the code tells it from an empty one.
  Logging, mutexes and metrics have no counterpart. A division by a zero node price, on which Go panics, gives zero here; the property about it asks for a
  positive price.
  The marshaller and the hasher of the trie are fields of \<^verbatim>\<open>trieEnv\<close>; \<^verbatim>\<open>trie_codec\<close> says that messages of nodes are read back and that hashes are not empty. Where a property needs that
  hashes do not collide, the hypothesis is that the hasher is injective on the encodings that occur. A node in memory owns its children, so methods return the changed receiver. The goroutines that hash the
  children of the root are modelled by hashing all of them and then reporting an error, of the lowest position.
  The hash function of the shuffler is a parameter, with the hypothesis that the keys of a run do not collide (\<^verbatim>\<open>noCollisions\<close>); the product of a size and the hysteresis, computed in floating point, is one too.
  Lengths of lists of validators are natural numbers and conversions to \<^verbatim>\<open>uint32\<close> wrap.
  The properties of the accounts database are about the keys and values of a set of byte strings (\<^verbatim>\<open>env_ok\<close>): the marshaller reads back what it writes, the hasher does not collide on that set, and it has less than
  4294967296 members, so that the counters of references do not wrap.
  The cache, the storer, the marshallers and the source of validator information of the nodes coordinator are fields of \<^verbatim>\<open>coordEnv\<close>. \<^verbatim>\<open>envOk\<close> says that the cache invents nothing and that loops visit every key; hashes
  have at least eight bytes. Reachable coordinators are those of a full node, which clears the cache at the start of an epoch. In \<^verbatim>\<open>Rating\<close> floating point numbers are an abstract type with the operations of the code.
  The fork detector takes the index and length of rounds, the blacklist and the order of loops from \<^verbatim>\<open>fdEnv\<close>, which may differ from call to call. Its finality is proved for a node that processes blocks in the order
  of their nonces and rolls back the last one. The database and its answers are fields of \<^verbatim>\<open>pruneEnv\<close>, which may differ from call to call too.
  Where Go shares a pointer or a slice, the model has values, in two places: the \<^verbatim>\<open>BalanceDelta\<close> of an output account is copied by \<^verbatim>\<open>CreateVMOutput\<close> and \<^verbatim>\<open>ExecuteOnDestContext\<close>, and appending (a version to a value,
  an identifier to a root hash) makes a new slice although Go may write into the spare capacity of the caller's. No property rests on either.
  \<^bold>\<open>Not modelled.\<close> In the modelled files: the constructors, of the trie and the accounts database snapshots, statistics, iteration over leaves, synchronisation and migration, \<^verbatim>\<open>ProcessBuiltInFunction\<close> and \<^verbatim>\<open>SetOwnerOperatingOnAccount\<close> (they forward to
  the built-in functions of another repository). Of the rest of the node: networking, storage on disk, the REST interface, factories and configuration, which are input
  and output; the processing of blocks and transactions, which orchestrates them and the virtual machine of another repository; code that computes with floating point.
  Within reach and planned, in this order: the validator, delegation, ESDT and governance contracts.
\<close>

end
